(* ===== verification/Vertex_Base.thy ===== *)
theory Vertex_Base
  imports Main "HOL-Library.Word"
begin

text \<open>
  Shared vocabulary of the VertexOS development: the fixed-width C integer types of
  \<^verbatim>\<open>include/types.h\<close>, byte buffers and NUL-terminated C strings, the search and
  copy loops that several modules repeat, and little-endian encodings.

  A buffer or a string argument is a list of bytes that starts where the C pointer
  points.  A read at or behind the end of the list gives the terminator \<open>0\<close> (\<open>rd\<close>),
  so a list without a zero byte stands for the same C string as the list with its
  terminator written out.  NULL pointers are not modelled: a parameter is always a
  buffer.
\<close>

unbundle bit_operations_syntax

type_synonym u8 = "8 word"
type_synonym u16 = "16 word"
type_synonym u32 = "32 word"
type_synonym u64 = "64 word"

named_theorems vx_defs \<open>definitions that the component proofs unfold\<close>
named_theorems vx_len \<open>length of buffers after an update\<close>

section \<open>Bytes and C strings\<close>

definition str :: "string \<Rightarrow> u8 list" where
  "str s = map of_char s"

definition rd :: "'a::zero list \<Rightarrow> nat \<Rightarrow> 'a" where
  "rd xs i = (if i < length xs then xs ! i else 0)"

definition cstr :: "u8 list \<Rightarrow> u8 list" where
  "cstr s = takeWhile (\<lambda>c. c \<noteq> 0) s"

lemma rd_Nil [simp]: "rd [] i = 0"
  by (simp add: rd_def)

lemma rd_Cons_0 [simp]: "rd (x # xs) 0 = x"
  by (simp add: rd_def)

lemma rd_Cons_Suc [simp]: "rd (x # xs) (Suc i) = rd xs i"
  by (simp add: rd_def)

lemma rd_in: "i < length xs \<Longrightarrow> rd xs i = xs ! i"
  by (simp add: rd_def)

lemma rd_out: "length xs \<le> i \<Longrightarrow> rd xs i = 0"
  by (simp add: rd_def)

lemma rd_nonzero_less: "rd xs i \<noteq> 0 \<Longrightarrow> i < length xs"
  by (auto simp: rd_def split: if_splits)

lemma rd_drop: "rd (drop n xs) i = rd xs (n + i)"
  by (auto simp: rd_def add.commute)

lemma cstr_Nil [simp]: "cstr [] = []"
  by (simp add: cstr_def)

lemma cstr_Cons [simp]: "cstr (x # xs) = (if x = 0 then [] else x # cstr xs)"
  by (simp add: cstr_def)

lemma cstr_nonzero: "c \<in> set (cstr s) \<Longrightarrow> c \<noteq> 0"
  by (auto simp: cstr_def dest: set_takeWhileD)

lemma cstr_id: "0 \<notin> set s \<Longrightarrow> cstr s = s"
  by (auto simp: cstr_def takeWhile_eq_all_conv)

lemma cstr_idem [simp]: "cstr (cstr s) = cstr s"
  by (rule cstr_id) (auto dest: cstr_nonzero)

lemma cstr_length: "length (cstr s) \<le> length s"
  by (simp add: cstr_def length_takeWhile_le)

lemma cstr_append_zero: "0 \<notin> set s \<Longrightarrow> cstr (s @ 0 # t) = s"
  by (induction s) auto

lemma cstr_drop_unfold:
  "cstr (drop i s) = (if rd s i = 0 then [] else rd s i # cstr (drop (Suc i) s))"
proof (cases "i < length s")
  case True
  then have "drop i s = s ! i # drop (Suc i) s"
    by (rule Cons_nth_drop_Suc [symmetric])
  with True show ?thesis by (simp add: rd_in)
next
  case False
  then show ?thesis by (simp add: rd_out)
qed

lemma rd_cstr: "i < length (cstr s) \<Longrightarrow> rd s i = cstr s ! i \<and> cstr s ! i \<noteq> 0"
proof -
  assume i: "i < length (cstr s)"
  then have "cstr s ! i = s ! i" "i < length s"
    by (auto simp: cstr_def takeWhile_nth intro: less_le_trans length_takeWhile_le)
  moreover have "cstr s ! i \<noteq> 0"
    using i by (intro cstr_nonzero [of _ s]) (simp add: nth_mem)
  ultimately show ?thesis by (simp add: rd_in)
qed

lemma rd_cstr_end: "rd s (length (cstr s)) = 0"
  by (induction s) auto

subsection \<open>String length, comparison and bounded copy\<close>

text \<open>\<^verbatim>\<open>s_len\<close> of vfs.c and exec.c: \<^verbatim>\<open>while (s[n]) n++\<close>.\<close>

function s_len_from :: "u8 list \<Rightarrow> nat \<Rightarrow> nat" where
  "s_len_from s n = (if rd s n \<noteq> 0 then s_len_from s (Suc n) else n)"
  by pat_completeness auto
termination
  by (relation "measure (\<lambda>(s, n). length s - n)") (auto dest!: rd_nonzero_less)

declare s_len_from.simps [simp del]

definition s_len :: "u8 list \<Rightarrow> nat" where
  "s_len s = s_len_from s 0"

lemma s_len_from_cstr: "s_len_from s n = n + length (cstr (drop n s))"
proof (induction s n rule: s_len_from.induct)
  case (1 s n)
  then show ?case
    by (auto simp: s_len_from.simps [of s n] cstr_drop_unfold [of n s])
qed

lemma s_len_eq: "s_len s = length (cstr s)"
  by (simp add: s_len_def s_len_from_cstr)

text \<open>
  \<^verbatim>\<open>s_eq\<close> of simplefs.c (and \<^verbatim>\<open>strings_equal\<close> of cli.c and commands.c):
  walk both strings while both have a character, then compare the terminators.
\<close>

function s_eq_from :: "u8 list \<Rightarrow> u8 list \<Rightarrow> nat \<Rightarrow> bool" where
  "s_eq_from a b i =
     (if rd a i \<noteq> 0 \<and> rd b i \<noteq> 0
      then (if rd a i \<noteq> rd b i then False else s_eq_from a b (Suc i))
      else rd a i = rd b i)"
  by pat_completeness auto
termination
  by (relation "measure (\<lambda>(a, b, i). length a - i)") (auto simp: rd_def split: if_splits)

declare s_eq_from.simps [simp del]

definition s_eq :: "u8 list \<Rightarrow> u8 list \<Rightarrow> bool" where
  "s_eq a b = s_eq_from a b 0"

lemma s_eq_from_cstr: "s_eq_from a b i = (cstr (drop i a) = cstr (drop i b))"
proof (induction a b i rule: s_eq_from.induct)
  case (1 a b i)
  then show ?case
    by (auto simp: s_eq_from.simps [of a b i] cstr_drop_unfold [of i a] cstr_drop_unfold [of i b])
qed

lemma s_eq_iff: "s_eq a b \<longleftrightarrow> cstr a = cstr b"
  by (simp add: s_eq_def s_eq_from_cstr)

text \<open>
  The bounded copy (\<^verbatim>\<open>s_copy\<close> of simplefs.c and vfs.c, \<^verbatim>\<open>str_copy\<close> of
  editor.c, \<^verbatim>\<open>copy_str\<close> of cli.c): at most \<open>max - 1\<close> characters, then the
  terminator; bytes of the destination behind the terminator keep their old value.
\<close>

function s_copy_from :: "u8 list \<Rightarrow> u8 list \<Rightarrow> nat \<Rightarrow> nat \<Rightarrow> u8 list" where
  "s_copy_from dst src m i =
     (if rd src i \<noteq> 0 \<and> i + 1 < m
      then s_copy_from (dst[i := rd src i]) src m (Suc i)
      else dst[i := 0])"
  by pat_completeness auto
termination
  by (relation "measure (\<lambda>(dst, src, m, i). m - i)") auto

declare s_copy_from.simps [simp del]

definition s_copy :: "u8 list \<Rightarrow> u8 list \<Rightarrow> nat \<Rightarrow> u8 list" where
  "s_copy dst src m = (if m = 0 then dst else s_copy_from dst src m 0)"

lemma length_s_copy_from [simp]: "length (s_copy_from dst src m i) = length dst"
proof (induction dst src m i rule: s_copy_from.induct)
  case (1 dst src m i)
  then show ?case by (simp add: s_copy_from.simps [of dst src m i])
qed

lemma length_s_copy [simp, vx_len]: "length (s_copy dst src m) = length dst"
  by (simp add: s_copy_def)

lemma s_copy_from_spec:
  "\<lbrakk>i < m; m \<le> length dst\<rbrakk> \<Longrightarrow>
   s_copy_from dst src m i =
     take i dst @ take (m - 1 - i) (cstr (drop i src)) @ [0]
       @ drop (Suc i + length (take (m - 1 - i) (cstr (drop i src)))) dst"
proof (induction dst src m i rule: s_copy_from.induct)
  case (1 dst src m i)
  show ?case
  proof (cases "rd src i \<noteq> 0 \<and> i + 1 < m")
    case True
    have len: "m \<le> length (dst[i := rd src i])" using "1.prems" by simp
    have i: "i < length dst" using "1.prems" by simp
    have tk: "take (Suc i) (dst[i := rd src i]) = take i dst @ [rd src i]"
      using i by (simp add: take_Suc_conv_app_nth)
    have n: "m - 1 - i = Suc (m - 1 - Suc i)" using True by linarith
    show ?thesis
      using True "1.IH" [OF True _ len] "1.prems" n
      by (simp add: s_copy_from.simps [of dst src m i] cstr_drop_unfold [of i src] tk)
  next
    case False
    then have t: "take (m - 1 - i) (cstr (drop i src)) = []"
      using "1.prems" by (auto simp: cstr_drop_unfold [of i src])
    have s: "s_copy_from dst src m i = dst[i := 0]"
      using False by (subst s_copy_from.simps) (simp only: if_False)
    show ?thesis
      unfolding t s using "1.prems" upd_conv_take_nth_drop [of i dst 0] by simp
  qed
qed

lemma s_copy_spec:
  "\<lbrakk>0 < m; m \<le> length dst\<rbrakk> \<Longrightarrow>
   s_copy dst src m =
     take (m - 1) (cstr src) @ [0] @ drop (Suc (length (take (m - 1) (cstr src)))) dst"
  using s_copy_from_spec [of 0 m dst src] by (simp add: s_copy_def)

lemma cstr_s_copy [simp]:
  "\<lbrakk>0 < m; m \<le> length dst\<rbrakk> \<Longrightarrow> cstr (s_copy dst src m) = take (m - 1) (cstr src)"
proof -
  assume a: "0 < m" "m \<le> length dst"
  have "0 \<notin> set (take (m - 1) (cstr src))"
    by (auto dest: in_set_takeD cstr_nonzero)
  with a show ?thesis
    by (simp add: s_copy_spec cstr_append_zero)
qed

section \<open>Loops over arrays\<close>

text \<open>
  \<^verbatim>\<open>for (i = lo; i < hi; i++) if (p(i)) return i; return -1;\<close> as an option.
\<close>

function for_find :: "(nat \<Rightarrow> bool) \<Rightarrow> nat \<Rightarrow> nat \<Rightarrow> nat option" where
  "for_find p i n = (if i < n then (if p i then Some i else for_find p (Suc i) n) else None)"
  by pat_completeness auto
termination
  by (relation "measure (\<lambda>(p, i, n). n - i)") auto

declare for_find.simps [simp del]

lemma for_find_Some_iff:
  "for_find p i n = Some k \<longleftrightarrow> i \<le> k \<and> k < n \<and> p k \<and> (\<forall>j. i \<le> j \<and> j < k \<longrightarrow> \<not> p j)"
proof (induction p i n rule: for_find.induct)
  case (1 p i n)
  show ?case
  proof (cases "i < n \<and> \<not> p i")
    case True
    then have "for_find p i n = for_find p (Suc i) n"
      by (simp add: for_find.simps [of p i n])
    with True "1.IH" show ?thesis
      by (auto simp: Suc_le_eq) (metis le_neq_implies_less)+
  next
    case False
    then have "for_find p i n = (if i < n then Some i else None)"
      by (simp add: for_find.simps [of p i n])
    with False show ?thesis
      by (auto intro: le_neq_implies_less)
  qed
qed

lemma for_find_None_iff: "for_find p i n = None \<longleftrightarrow> (\<forall>k. i \<le> k \<and> k < n \<longrightarrow> \<not> p k)"
proof -
  have "(\<exists>k. i \<le> k \<and> k < n \<and> p k) \<longrightarrow> for_find p i n \<noteq> None"
  proof (induction p i n rule: for_find.induct)
    case (1 p i n)
    show ?case
    proof (cases "i < n \<and> \<not> p i")
      case True
      with "1.IH" show ?thesis
        by (auto simp: for_find.simps [of p i n]) (metis Suc_leI le_neq_implies_less)
    next
      case False
      then show ?thesis by (auto simp: for_find.simps [of p i n])
    qed
  qed
  moreover have "for_find p i n = None \<or> (\<exists>k. i \<le> k \<and> k < n \<and> p k)"
    using for_find_Some_iff [of p i n] by (cases "for_find p i n") auto
  ultimately show ?thesis by auto
qed

lemma for_find_SomeD: "for_find p i n = Some k \<Longrightarrow> i \<le> k \<and> k < n \<and> p k"
  by (simp add: for_find_Some_iff)

lemma for_find_cong:
  "(\<And>k. i \<le> k \<Longrightarrow> k < n \<Longrightarrow> p k = q k) \<Longrightarrow> for_find p i n = for_find q i n"
proof (induction p i n rule: for_find.induct)
  case (1 p i n)
  then show ?case
    by (simp add: for_find.simps [of p i n] for_find.simps [of q i n])
qed

text \<open>
  The byte loops \<^verbatim>\<open>mem_zero\<close>, \<^verbatim>\<open>mem_set\<close> and \<^verbatim>\<open>mem_copy\<close>:
  the value of the destination after \<open>n\<close> iterations.
\<close>

primrec mem_copy :: "u8 list \<Rightarrow> u8 list \<Rightarrow> nat \<Rightarrow> u8 list" where
  "mem_copy d s 0 = d"
| "mem_copy d s (Suc i) = (mem_copy d s i)[i := rd s i]"

primrec mem_set :: "u8 list \<Rightarrow> u8 \<Rightarrow> nat \<Rightarrow> u8 list" where
  "mem_set d v 0 = d"
| "mem_set d v (Suc i) = (mem_set d v i)[i := v]"

lemma length_mem_copy [simp, vx_len]: "length (mem_copy d s n) = length d"
  by (induction n) auto

lemma length_mem_set [simp, vx_len]: "length (mem_set d v n) = length d"
  by (induction n) auto

lemma mem_copy_spec:
  "\<lbrakk>n \<le> length d; n \<le> length s\<rbrakk> \<Longrightarrow> mem_copy d s n = take n s @ drop n d"
proof (induction n)
  case 0
  then show ?case by simp
next
  case (Suc n)
  then have "drop n d = d ! n # drop (Suc n) d"
    by (intro Cons_nth_drop_Suc [symmetric]) simp
  with Suc show ?case
    by (simp add: list_update_append rd_in take_Suc_conv_app_nth)
qed

lemma mem_set_spec: "n \<le> length d \<Longrightarrow> mem_set d v n = replicate n v @ drop n d"
proof (induction n)
  case 0
  then show ?case by simp
next
  case (Suc n)
  then have "drop n d = d ! n # drop (Suc n) d"
    by (intro Cons_nth_drop_Suc [symmetric]) simp
  with Suc show ?case
    by (simp add: list_update_append replicate_append_same)
qed

text \<open>A copy into the middle of a buffer: \<^verbatim>\<open>mem_copy(d + off, s, n)\<close>.\<close>

definition blit :: "u8 list \<Rightarrow> nat \<Rightarrow> u8 list \<Rightarrow> nat \<Rightarrow> u8 list" where
  "blit d off s n = take off d @ mem_copy (drop off d) s n"

lemma length_blit [simp, vx_len]: "length (blit d off s n) = length d"
  by (simp add: blit_def min_def)

lemma nth_blit:
  "\<lbrakk>off + n \<le> length d; n \<le> length s; i < length d\<rbrakk> \<Longrightarrow>
   blit d off s n ! i = (if off \<le> i \<and> i < off + n then s ! (i - off) else d ! i)"
  by (auto simp: blit_def mem_copy_spec nth_append min_def)

section \<open>Little-endian encodings\<close>

definition u16_le :: "u16 \<Rightarrow> u8 list" where
  "u16_le w = [ucast w, ucast (drop_bit 8 w)]"

definition le_u16 :: "u8 list \<Rightarrow> u16" where
  "le_u16 b = ucast (rd b 0) OR push_bit 8 (ucast (rd b 1))"

definition u32_le :: "u32 \<Rightarrow> u8 list" where
  "u32_le w = [ucast w, ucast (drop_bit 8 w), ucast (drop_bit 16 w), ucast (drop_bit 24 w)]"

definition le_u32 :: "u8 list \<Rightarrow> u32" where
  "le_u32 b = ucast (rd b 0) OR push_bit 8 (ucast (rd b 1))
     OR push_bit 16 (ucast (rd b 2)) OR push_bit 24 (ucast (rd b 3))"

lemma length_u32_le [simp]: "length (u32_le w) = 4"
  by (simp add: u32_le_def)

lemma length_u16_le [simp]: "length (u16_le w) = 2"
  by (simp add: u16_le_def)

lemma le_u32_u32_le [simp]: "le_u32 (u32_le w @ rest) = w"
proof (rule bit_word_eqI)
  fix n :: nat
  assume "n < LENGTH(32)"
  then have "n < 8 \<or> 8 \<le> n \<and> n < 16 \<or> 16 \<le> n \<and> n < 24 \<or> 24 \<le> n \<and> n < 32"
    by auto
  then show "bit (le_u32 (u32_le w @ rest)) n = bit w n"
    by (elim disjE) (auto simp: le_u32_def u32_le_def rd_def bit_simps)
qed

lemma le_u16_u16_le [simp]: "le_u16 (u16_le w @ rest) = w"
  by (rule bit_word_eqI) (auto simp: le_u16_def u16_le_def bit_simps)

end
