(* ===== verification/Block_Device.thy ===== *)
theory Block_Device
  imports Vertex_Base
begin

text \<open>
  The block device layer (\<^verbatim>\<open>src/drivers/blockdev.c\<close>): the device record with its two
  driver entry points, the range check of \<^verbatim>\<open>blockdev_read\<close> and
  \<^verbatim>\<open>blockdev_write\<close>, and the contract the file system relies on.

  The driver behind the record is a pair of functions over a medium of type \<open>'d\<close>: a read
  returns the sector or \<open>None\<close> for a driver error, a write returns its success flag, and
  both return the new medium.  The locale \<open>sector_store\<close> is what every caller may assume of
  such a pair, errors included; \<open>reliable_store\<close> adds that no request below the sector
  count fails.
\<close>

section \<open>The device record and its two operations\<close>

record 'd block_device =
  bd_name :: string
  sector_size :: u32
  sector_count :: u32
  read_sector :: "(u32 \<Rightarrow> 'd \<Rightarrow> u8 list option \<times> 'd) option"
  write_sector :: "(u32 \<Rightarrow> u8 list \<Rightarrow> 'd \<Rightarrow> bool \<times> 'd) option"

definition blockdev_init ::
  "(u32 \<Rightarrow> 'd \<Rightarrow> u8 list option \<times> 'd) \<Rightarrow> (u32 \<Rightarrow> u8 list \<Rightarrow> 'd \<Rightarrow> bool \<times> 'd) \<Rightarrow> 'd block_device" where
  "blockdev_init ata_read_sector ata_write_sector =
     \<lparr>bd_name = ''ata0'', sector_size = 512, sector_count = 65536,
      read_sector = Some ata_read_sector, write_sector = Some ata_write_sector\<rparr>"

definition blockdev_read :: "'d block_device \<Rightarrow> u32 \<Rightarrow> 'd \<Rightarrow> u8 list option \<times> 'd" where
  "blockdev_read dev lba d =
     (case read_sector dev of
        None \<Rightarrow> (None, d)
      | Some f \<Rightarrow> if sector_count dev \<le> lba then (None, d) else f lba d)"

definition blockdev_write :: "'d block_device \<Rightarrow> u32 \<Rightarrow> u8 list \<Rightarrow> 'd \<Rightarrow> bool \<times> 'd" where
  "blockdev_write dev lba buf d =
     (case write_sector dev of
        None \<Rightarrow> (False, d)
      | Some f \<Rightarrow> if sector_count dev \<le> lba then (False, d) else f lba buf d)"

section \<open>The contract\<close>

text \<open>
  \<open>sec d lba\<close> is the content of sector \<open>lba\<close> of the medium.  A read changes no sector
  and, when it succeeds, returns the content; a successful write of 512 bytes stores them; a
  write that fails may have damaged its own sector and no other.
\<close>

locale sector_store =
  fixes rd_sec :: "u32 \<Rightarrow> 'd \<Rightarrow> u8 list option \<times> 'd"
    and wr_sec :: "u32 \<Rightarrow> u8 list \<Rightarrow> 'd \<Rightarrow> bool \<times> 'd"
    and sec :: "'d \<Rightarrow> u32 \<Rightarrow> u8 list"
  assumes sec_length: "length (sec d l) = 512"
    and rd_sec_frame: "rd_sec l d = (r, d') \<Longrightarrow> sec d' = sec d"
    and rd_sec_value: "rd_sec l d = (Some s, d') \<Longrightarrow> s = sec d l"
    and wr_sec_ok: "wr_sec l b d = (True, d') \<Longrightarrow> length b = 512 \<Longrightarrow> sec d' = (sec d)(l := b)"
    and wr_sec_frame: "wr_sec l b d = (ok, d') \<Longrightarrow> k \<noteq> l \<Longrightarrow> sec d' k = sec d k"
begin

lemma rd_sec_SomeD: "rd_sec l d = (Some s, d') \<Longrightarrow> s = sec d l \<and> length s = 512 \<and> sec d' = sec d"
  using rd_sec_value rd_sec_frame sec_length by metis

text \<open>What was written is what is read back, whatever other reads happen in between.\<close>

lemma read_after_write:
  "\<lbrakk>wr_sec l b d = (True, d1); length b = 512; rd_sec l d1 = (Some s, d2)\<rbrakk> \<Longrightarrow> s = b"
  using rd_sec_value [of l d1 s d2] wr_sec_ok [of l b d d1] by simp

lemma read_other_after_write:
  "\<lbrakk>wr_sec l b d = (ok, d1); k \<noteq> l; rd_sec k d1 = (Some s, d2)\<rbrakk> \<Longrightarrow> s = sec d k"
  using rd_sec_value [of k d1 s d2] wr_sec_frame [of l b d ok d1 k] by simp

end

locale reliable_store = sector_store rd_sec wr_sec sec
  for rd_sec :: "u32 \<Rightarrow> 'd \<Rightarrow> u8 list option \<times> 'd"
    and wr_sec :: "u32 \<Rightarrow> u8 list \<Rightarrow> 'd \<Rightarrow> bool \<times> 'd"
    and sec :: "'d \<Rightarrow> u32 \<Rightarrow> u8 list" +
  fixes sectors :: u32
  assumes rd_sec_total: "l < sectors \<Longrightarrow> \<exists>s d'. rd_sec l d = (Some s, d')"
    and wr_sec_total: "l < sectors \<Longrightarrow> length b = 512 \<Longrightarrow> \<exists>d'. wr_sec l b d = (True, d')"
begin

lemma rd_sec_eq: "l < sectors \<Longrightarrow> \<exists>d'. rd_sec l d = (Some (sec d l), d') \<and> sec d' = sec d"
  using rd_sec_total [of l d] rd_sec_value rd_sec_frame by metis

lemma wr_sec_eq: "l < sectors \<Longrightarrow> length b = 512 \<Longrightarrow> \<exists>d'. wr_sec l b d = (True, d') \<and> sec d' = (sec d)(l := b)"
  using wr_sec_total [of l b d] wr_sec_ok by metis

end

text \<open>
  The layer keeps the contract of the driver below it: a driver that is a
  \<open>sector_store\<close> makes the two block device operations one.
\<close>

lemmas blockdev_defs = blockdev_init_def blockdev_read_def blockdev_write_def

locale sector_driver = sector_store ata_read ata_write sec
  for ata_read :: "u32 \<Rightarrow> 'd \<Rightarrow> u8 list option \<times> 'd"
    and ata_write :: "u32 \<Rightarrow> u8 list \<Rightarrow> 'd \<Rightarrow> bool \<times> 'd"
    and sec :: "'d \<Rightarrow> u32 \<Rightarrow> u8 list"

sublocale sector_driver \<subseteq> layer: sector_store
  "blockdev_read (blockdev_init ata_read ata_write)"
  "blockdev_write (blockdev_init ata_read ata_write)" sec
proof unfold_locales
  fix d l
  show "length (sec d l) = 512" by (rule sec_length)
next
  fix l d r d'
  assume "blockdev_read (blockdev_init ata_read ata_write) l d = (r, d')"
  then show "sec d' = sec d"
    by (auto simp: blockdev_defs split: if_splits dest: rd_sec_frame)
next
  fix l d s d'
  assume "blockdev_read (blockdev_init ata_read ata_write) l d = (Some s, d')"
  then show "s = sec d l"
    by (auto simp: blockdev_defs split: if_splits dest: rd_sec_value)
next
  fix l b d d'
  assume "blockdev_write (blockdev_init ata_read ata_write) l b d = (True, d')" "length b = 512"
  then show "sec d' = (sec d)(l := b)"
    by (auto simp: blockdev_defs split: if_splits dest: wr_sec_ok)
next
  fix l b d r d' k
  assume "blockdev_write (blockdev_init ata_read ata_write) l b d = (r, d')" "k \<noteq> l"
  then show "sec d' k = sec d k"
    by (auto simp: blockdev_defs split: if_splits dest: wr_sec_frame)
qed

section \<open>A memory-backed driver\<close>

text \<open>
  A medium that is a function from sector numbers to byte lists, padded or cut to 512 bytes.
  It shows that the contract can hold and serves the concrete runs of the development.
\<close>

definition fit_sector :: "u8 list \<Rightarrow> u8 list" where
  "fit_sector s = take 512 (s @ replicate 512 0)"

definition ram_read :: "u32 \<Rightarrow> (u32 \<Rightarrow> u8 list) \<Rightarrow> u8 list option \<times> (u32 \<Rightarrow> u8 list)" where
  "ram_read lba d = (Some (fit_sector (d lba)), d)"

definition ram_write :: "u32 \<Rightarrow> u8 list \<Rightarrow> (u32 \<Rightarrow> u8 list) \<Rightarrow> bool \<times> (u32 \<Rightarrow> u8 list)" where
  "ram_write lba b d = (True, d(lba := b))"

definition ram_sec :: "(u32 \<Rightarrow> u8 list) \<Rightarrow> u32 \<Rightarrow> u8 list" where
  "ram_sec d lba = fit_sector (d lba)"

definition ram_dev :: "(u32 \<Rightarrow> u8 list) block_device" where
  "ram_dev = blockdev_init ram_read ram_write"

lemma length_fit_sector [simp, vx_len]: "length (fit_sector s) = 512"
  by (simp add: fit_sector_def)

lemma fit_sector_id [simp]: "length s = 512 \<Longrightarrow> fit_sector s = s"
  by (simp add: fit_sector_def)

interpretation ram: sector_driver ram_read ram_write ram_sec
  by unfold_locales
     (auto simp: ram_read_def ram_write_def ram_sec_def intro!: ext)

interpretation ram_reliable: reliable_store "blockdev_read ram_dev" "blockdev_write ram_dev" ram_sec 65536
  unfolding ram_dev_def
  by unfold_locales
     (auto simp: blockdev_defs ram_read_def ram_write_def ram_sec_def intro!: ext)

end
