(* ===== verification/Simple_FS.thy ===== *)
theory Simple_FS
  imports Block_Device
begin

text \<open>
  SimpleFS (\<^verbatim>\<open>src/fs/simplefs.c\<close>): the superblock and the 64-entry node table kept in
  memory, path resolution, creation and removal of nodes, reading and writing of file data
  through the block device.

  The globals \<^verbatim>\<open>g_super\<close> and \<^verbatim>\<open>g_entries\<close> are fields of the state record,
  next to the medium \<open>disk\<close>; the block device record is the first argument of the
  operations that do I/O.  An operation that returns \<^verbatim>\<open>u8\<close> success and an out
  parameter returns an option here; the state after a failure is the state the C code leaves.
\<close>

section \<open>Data\<close>

abbreviation SFS_MAGIC :: u32 where "SFS_MAGIC \<equiv> 0x31534653"
abbreviation SFS_VERSION :: u32 where "SFS_VERSION \<equiv> 1"
abbreviation SFS_SUPER_LBA :: u32 where "SFS_SUPER_LBA \<equiv> 128"
abbreviation SFS_TABLE_LBA :: u32 where "SFS_TABLE_LBA \<equiv> 129"
abbreviation SFS_TABLE_SECTORS :: nat where "SFS_TABLE_SECTORS \<equiv> 8"
abbreviation SFS_DATA_LBA :: u32 where "SFS_DATA_LBA \<equiv> 137"
abbreviation SFS_MAX_ENTRIES :: nat where "SFS_MAX_ENTRIES \<equiv> 64"
abbreviation SFS_NAME_MAX :: nat where "SFS_NAME_MAX \<equiv> 31"

abbreviation SFS_TYPE_FILE :: u8 where "SFS_TYPE_FILE \<equiv> 1"
abbreviation SFS_TYPE_DIR :: u8 where "SFS_TYPE_DIR \<equiv> 2"
abbreviation SFS_PERM_READ :: u8 where "SFS_PERM_READ \<equiv> 1"
abbreviation SFS_PERM_WRITE :: u8 where "SFS_PERM_WRITE \<equiv> 2"
abbreviation SFS_PERM_EXEC :: u8 where "SFS_PERM_EXEC \<equiv> 4"

abbreviation SLASH :: u8 where "SLASH \<equiv> 47"
abbreviation DOT :: u8 where "DOT \<equiv> 46"

record sfs_superblock =
  sb_magic :: u32
  sb_version :: u32
  sb_total_sectors :: u32
  sb_max_entries :: u32
  sb_next_free_lba :: u32
  sb_root_id :: u32
  sb_reserved :: "u8 list"

record sfs_entry =
  e_used :: u8
  e_type :: u8
  e_perm :: u8
  e_reserved0 :: u8
  e_parent :: u32
  e_start_lba :: u32
  e_size :: u32
  e_capacity_sectors :: u32
  e_name :: "u8 list"
  e_reserved1 :: "u8 list"

record sfs_node_info =
  ni_id :: u32
  ni_type :: u8
  ni_perm :: u8
  ni_parent :: u32
  ni_size :: u32
  ni_name :: "u8 list"

record 'd sfs_state =
  g_super :: sfs_superblock
  g_entries :: "sfs_entry list"
  disk :: 'd

definition zero_super :: sfs_superblock where
  "zero_super = \<lparr>sb_magic = 0, sb_version = 0, sb_total_sectors = 0, sb_max_entries = 0,
     sb_next_free_lba = 0, sb_root_id = 0, sb_reserved = replicate 488 0\<rparr>"

definition zero_entry :: sfs_entry where
  "zero_entry = \<lparr>e_used = 0, e_type = 0, e_perm = 0, e_reserved0 = 0, e_parent = 0,
     e_start_lba = 0, e_size = 0, e_capacity_sectors = 0,
     e_name = replicate 32 0, e_reserved1 = replicate 12 0\<rparr>"

text \<open>The packed on-disk layouts: 512 bytes of superblock, 64 bytes per entry.\<close>

definition super_bytes :: "sfs_superblock \<Rightarrow> u8 list" where
  "super_bytes s = u32_le (sb_magic s) @ u32_le (sb_version s) @ u32_le (sb_total_sectors s)
     @ u32_le (sb_max_entries s) @ u32_le (sb_next_free_lba s) @ u32_le (sb_root_id s)
     @ sb_reserved s"

definition super_of_bytes :: "u8 list \<Rightarrow> sfs_superblock" where
  "super_of_bytes b = \<lparr>sb_magic = le_u32 b, sb_version = le_u32 (drop 4 b),
     sb_total_sectors = le_u32 (drop 8 b), sb_max_entries = le_u32 (drop 12 b),
     sb_next_free_lba = le_u32 (drop 16 b), sb_root_id = le_u32 (drop 20 b),
     sb_reserved = take 488 (drop 24 b)\<rparr>"

definition entry_bytes :: "sfs_entry \<Rightarrow> u8 list" where
  "entry_bytes e = [e_used e, e_type e, e_perm e, e_reserved0 e] @ u32_le (e_parent e)
     @ u32_le (e_start_lba e) @ u32_le (e_size e) @ u32_le (e_capacity_sectors e)
     @ e_name e @ e_reserved1 e"

definition entry_of_bytes :: "u8 list \<Rightarrow> sfs_entry" where
  "entry_of_bytes b = \<lparr>e_used = rd b 0, e_type = rd b 1, e_perm = rd b 2, e_reserved0 = rd b 3,
     e_parent = le_u32 (drop 4 b), e_start_lba = le_u32 (drop 8 b),
     e_size = le_u32 (drop 12 b), e_capacity_sectors = le_u32 (drop 16 b),
     e_name = take 32 (drop 20 b), e_reserved1 = take 12 (drop 52 b)\<rparr>"

text \<open>The byte image of the table, \<^verbatim>\<open>(u8*)g_entries\<close>, and back.\<close>

definition table_bytes :: "sfs_entry list \<Rightarrow> u8 list" where
  "table_bytes es = concat (map entry_bytes es)"

primrec entries_of_bytes :: "nat \<Rightarrow> u8 list \<Rightarrow> sfs_entry list" where
  "entries_of_bytes 0 b = []"
| "entries_of_bytes (Suc n) b = entry_of_bytes (take 64 b) # entries_of_bytes n (drop 64 b)"

section \<open>Persistence of the metadata\<close>

text \<open>\<^verbatim>\<open>sfs_flush\<close>: the superblock, then the eight sectors of the table.\<close>

function sfs_flush_table :: "'d block_device \<Rightarrow> u8 list \<Rightarrow> nat \<Rightarrow> 'd \<Rightarrow> bool \<times> 'd" where
  "sfs_flush_table dev tbl i d =
     (if i < SFS_TABLE_SECTORS
      then (let sector = take 512 (drop (i * 512) tbl) in
            case blockdev_write dev (SFS_TABLE_LBA + of_nat i) sector d of
              (False, d') \<Rightarrow> (False, d')
            | (True, d') \<Rightarrow> sfs_flush_table dev tbl (Suc i) d')
      else (True, d))"
  by pat_completeness auto
termination
  by (relation "measure (\<lambda>(dev, tbl, i, d). 8 - i)") auto

declare sfs_flush_table.simps [simp del]

definition sfs_flush :: "'d block_device \<Rightarrow> 'd sfs_state \<Rightarrow> bool \<times> 'd sfs_state" where
  "sfs_flush dev st =
     (case blockdev_write dev SFS_SUPER_LBA (super_bytes (g_super st)) (disk st) of
        (False, d) \<Rightarrow> (False, st\<lparr>disk := d\<rparr>)
      | (True, d) \<Rightarrow>
          (case sfs_flush_table dev (table_bytes (g_entries st)) 0 d of
             (ok, d') \<Rightarrow> (ok, st\<lparr>disk := d'\<rparr>)))"

text \<open>
  \<^verbatim>\<open>sfs_load\<close> fills the in-memory structures sector by sector, so an error in the
  middle leaves the first part loaded.
\<close>

function sfs_load_table :: "'d block_device \<Rightarrow> nat \<Rightarrow> 'd sfs_state \<Rightarrow> bool \<times> 'd sfs_state" where
  "sfs_load_table dev i st =
     (if i < SFS_TABLE_SECTORS
      then (case blockdev_read dev (SFS_TABLE_LBA + of_nat i) (disk st) of
              (None, d) \<Rightarrow> (False, st\<lparr>disk := d\<rparr>)
            | (Some sector, d) \<Rightarrow>
                sfs_load_table dev (Suc i)
                  (st\<lparr>disk := d, g_entries := take (8 * i) (g_entries st)
                       @ entries_of_bytes 8 sector @ drop (8 * i + 8) (g_entries st)\<rparr>))
      else (True, st))"
  by pat_completeness auto
termination
  by (relation "measure (\<lambda>(dev, i, st). 8 - i)") auto

declare sfs_load_table.simps [simp del]

definition sfs_load :: "'d block_device \<Rightarrow> 'd sfs_state \<Rightarrow> bool \<times> 'd sfs_state" where
  "sfs_load dev st =
     (case blockdev_read dev SFS_SUPER_LBA (disk st) of
        (None, d) \<Rightarrow> (False, st\<lparr>disk := d\<rparr>)
      | (Some sector, d) \<Rightarrow>
          sfs_load_table dev 0 (st\<lparr>disk := d, g_super := super_of_bytes sector\<rparr>))"

section \<open>Lookups in the node table\<close>

text \<open>\<^verbatim>\<open>g_entries[i]\<close>; the invariant of the next theory keeps every index below 64.\<close>

definition ent :: "'d sfs_state \<Rightarrow> u32 \<Rightarrow> sfs_entry" where
  "ent st i = g_entries st ! unat i"

definition upd_ent :: "'d sfs_state \<Rightarrow> u32 \<Rightarrow> (sfs_entry \<Rightarrow> sfs_entry) \<Rightarrow> 'd sfs_state" where
  "upd_ent st i f = st\<lparr>g_entries := (g_entries st)[unat i := f (ent st i)]\<rparr>"

definition sfs_find_free_entry :: "'d sfs_state \<Rightarrow> u32 option" where
  "sfs_find_free_entry st =
     map_option of_nat (for_find (\<lambda>i. e_used (g_entries st ! i) = 0) 0 SFS_MAX_ENTRIES)"

definition sfs_find_child :: "'d sfs_state \<Rightarrow> u32 \<Rightarrow> u8 list \<Rightarrow> u32 option" where
  "sfs_find_child st parent nm =
     map_option of_nat
       (for_find (\<lambda>i. e_used (g_entries st ! i) \<noteq> 0 \<and> e_parent (g_entries st ! i) = parent
                     \<and> s_eq (e_name (g_entries st ! i)) nm) 0 SFS_MAX_ENTRIES)"

section \<open>Paths\<close>

text \<open>
  \<^verbatim>\<open>path_next\<close>: skip slashes, copy at most 31 characters of the component, skip the
  rest of an overlong component.  \<open>None\<close> is the return value 0 at the end of the path;
  otherwise the component and the new position.
\<close>

function skip_slashes :: "u8 list \<Rightarrow> nat \<Rightarrow> nat" where
  "skip_slashes path pos = (if rd path pos = SLASH then skip_slashes path (Suc pos) else pos)"
  by pat_completeness auto
termination
  by (relation "measure (\<lambda>(path, pos). length path - pos)") (auto simp: rd_def split: if_splits)

function take_name :: "u8 list \<Rightarrow> nat \<Rightarrow> u8 list \<Rightarrow> u8 list \<times> nat" where
  "take_name path pos out =
     (if rd path pos \<noteq> 0 \<and> rd path pos \<noteq> SLASH \<and> length out < SFS_NAME_MAX
      then take_name path (Suc pos) (out @ [rd path pos]) else (out, pos))"
  by pat_completeness auto
termination
  by (relation "measure (\<lambda>(path, pos, out). length path - pos)") (auto simp: rd_def split: if_splits)

function skip_component :: "u8 list \<Rightarrow> nat \<Rightarrow> nat" where
  "skip_component path pos =
     (if rd path pos \<noteq> 0 \<and> rd path pos \<noteq> SLASH then skip_component path (Suc pos) else pos)"
  by pat_completeness auto
termination
  by (relation "measure (\<lambda>(path, pos). length path - pos)") (auto simp: rd_def split: if_splits)

declare skip_slashes.simps [simp del] take_name.simps [simp del] skip_component.simps [simp del]

definition path_next :: "u8 list \<Rightarrow> nat \<Rightarrow> (u8 list \<times> nat) option" where
  "path_next path pos =
     (let pos1 = skip_slashes path pos in
      if rd path pos1 = 0 then None
      else (let (out, pos2) = take_name path pos1 [] in
            Some (out, skip_component path pos2)))"

lemma skip_slashes_ge: "pos \<le> skip_slashes path pos"
proof (induction path pos rule: skip_slashes.induct)
  case (1 path pos)
  then show ?case by (auto simp: skip_slashes.simps [of path pos])
qed

lemma skip_slashes_not: "rd path (skip_slashes path pos) \<noteq> SLASH"
proof (induction path pos rule: skip_slashes.induct)
  case (1 path pos)
  then show ?case by (auto simp: skip_slashes.simps [of path pos])
qed

lemma take_name_ge: "take_name path pos out = (nm, p) \<Longrightarrow> pos \<le> p"
proof (induction path pos out rule: take_name.induct)
  case (1 path pos out)
  then show ?case
    by (auto simp: take_name.simps [of path pos out] split: if_splits dest: Suc_leD)
qed

lemma skip_component_ge: "pos \<le> skip_component path pos"
proof (induction path pos rule: skip_component.induct)
  case (1 path pos)
  then show ?case by (auto simp: skip_component.simps [of path pos])
qed

lemma path_next_progress:
  assumes "path_next path pos = Some (nm, p)"
  shows "pos < p \<and> pos < length path"
proof -
  let ?p1 = "skip_slashes path pos"
  obtain out p2 where tn: "take_name path ?p1 [] = (out, p2)" by fastforce
  from assms tn have nz: "rd path ?p1 \<noteq> 0" and p: "p = skip_component path p2"
    by (auto simp: path_next_def Let_def split: if_splits)
  have "take_name path ?p1 [] = take_name path (Suc ?p1) [rd path ?p1]"
    using nz skip_slashes_not [of path pos] by (simp add: take_name.simps [of path ?p1 "[]"])
  with tn have "Suc ?p1 \<le> p2" by (metis take_name_ge)
  then show ?thesis
    using p skip_component_ge [of p2 path] skip_slashes_ge [of pos path] rd_nonzero_less [OF nz]
    by linarith
qed

text \<open>The loop of \<^verbatim>\<open>sfs_resolve\<close>.\<close>

function resolve_walk :: "'d sfs_state \<Rightarrow> u8 list \<Rightarrow> nat \<Rightarrow> u32 \<Rightarrow> u32 option" where
  "resolve_walk st path pos current =
     (case path_next path pos of
        None \<Rightarrow> Some current
      | Some (nm, pos') \<Rightarrow>
          if s_eq nm (str ''.'') then resolve_walk st path pos' current
          else if s_eq nm (str ''..'') then resolve_walk st path pos' (e_parent (ent st current))
          else (case sfs_find_child st current nm of
                  None \<Rightarrow> None
                | Some child \<Rightarrow> resolve_walk st path pos' child))"
  by pat_completeness auto
termination
  by (relation "measure (\<lambda>(st, path, pos, current). length path - pos)")
     (auto dest!: path_next_progress)

declare resolve_walk.simps [simp del]

definition sfs_root_id :: "'d sfs_state \<Rightarrow> u32" where
  "sfs_root_id st = sb_root_id (g_super st)"

definition walk_start :: "'d sfs_state \<Rightarrow> u8 list \<Rightarrow> u32 \<Rightarrow> u32" where
  "walk_start st path cwd_id = (if rd path 0 = SLASH then sb_root_id (g_super st) else cwd_id)"

definition sfs_resolve :: "'d sfs_state \<Rightarrow> u8 list \<Rightarrow> u32 \<Rightarrow> u32 option" where
  "sfs_resolve st path cwd_id = resolve_walk st path 0 (walk_start st path cwd_id)"

section \<open>Mounting, creating and removing\<close>

definition sfs_init :: "'d block_device \<Rightarrow> 'd sfs_state \<Rightarrow> bool \<times> 'd sfs_state" where
  "sfs_init dev st =
     (let (ok, st1) = sfs_load dev st in
      if \<not> ok \<or> sb_magic (g_super st1) \<noteq> SFS_MAGIC \<or> sb_version (g_super st1) \<noteq> SFS_VERSION
      then
        (let st2 = st1\<lparr>g_super := zero_super\<lparr>sb_magic := SFS_MAGIC, sb_version := SFS_VERSION,
                         sb_total_sectors := 65536, sb_max_entries := of_nat SFS_MAX_ENTRIES,
                         sb_next_free_lba := SFS_DATA_LBA, sb_root_id := 0\<rparr>,
                       g_entries := replicate SFS_MAX_ENTRIES zero_entry\<rparr> in
         case sfs_find_free_entry st2 of
           None \<Rightarrow> (False, st2)
         | Some root_idx \<Rightarrow>
             sfs_flush dev
               (upd_ent st2 root_idx
                  (\<lambda>e. e\<lparr>e_used := 1, e_type := SFS_TYPE_DIR,
                         e_perm := SFS_PERM_READ OR SFS_PERM_WRITE OR SFS_PERM_EXEC,
                         e_parent := root_idx, e_start_lba := 0, e_size := 0,
                         e_capacity_sectors := 0,
                         e_name := s_copy (e_name e) (str ''/'') 32\<rparr>)))
      else (True, st1))"

text \<open>
  The loop of \<^verbatim>\<open>sfs_create\<close>: it keeps the last component seen and stops in front of
  the final one.  \<open>None\<close> is the early \<^verbatim>\<open>return 0\<close> for a missing or non-directory
  intermediate component.
\<close>

function create_walk :: "'d sfs_state \<Rightarrow> u8 list \<Rightarrow> nat \<Rightarrow> u32 \<Rightarrow> u8 list \<Rightarrow> (u32 \<times> u8 list) option" where
  "create_walk st path pos current lst =
     (case path_next path pos of
        None \<Rightarrow> Some (current, lst)
      | Some (nm, pos') \<Rightarrow>
          (let lst' = s_copy lst nm 32 in
           if s_eq nm (str ''.'') then create_walk st path pos' current lst'
           else if s_eq nm (str ''..'') then create_walk st path pos' (e_parent (ent st current)) lst'
           else if rd path pos' = 0 then Some (current, lst')
           else (case sfs_find_child st current nm of
                   None \<Rightarrow> None
                 | Some child \<Rightarrow>
                     if e_type (ent st child) \<noteq> SFS_TYPE_DIR then None
                     else create_walk st path pos' child lst')))"
  by pat_completeness auto
termination
  by (relation "measure (\<lambda>(st, path, pos, current, lst). length path - pos)")
     (auto dest!: path_next_progress)

declare create_walk.simps [simp del]

definition sfs_create ::
  "'d block_device \<Rightarrow> 'd sfs_state \<Rightarrow> u8 list \<Rightarrow> u32 \<Rightarrow> u8 \<Rightarrow> u8 \<Rightarrow> u32 option \<times> 'd sfs_state" where
  "sfs_create dev st path cwd_id ty perm =
     (if rd path 0 = 0 then (None, st)
      else case create_walk st path 0 (walk_start st path cwd_id) (replicate 32 0) of
        None \<Rightarrow> (None, st)
      | Some (current, lst) \<Rightarrow>
          if rd lst 0 = 0 then (None, st)
          else if sfs_find_child st current lst \<noteq> None then (None, st)
          else (case sfs_find_free_entry st of
                  None \<Rightarrow> (None, st)
                | Some idx \<Rightarrow>
                    (case sfs_flush dev
                            (upd_ent st idx
                               (\<lambda>e. e\<lparr>e_used := 1, e_type := ty, e_perm := perm,
                                      e_parent := current, e_start_lba := 0, e_size := 0,
                                      e_capacity_sectors := 0,
                                      e_name := s_copy (e_name e) lst 32\<rparr>)) of
                       (False, st') \<Rightarrow> (None, st')
                     | (True, st') \<Rightarrow> (Some idx, st'))))"

definition sfs_remove :: "'d block_device \<Rightarrow> 'd sfs_state \<Rightarrow> u8 list \<Rightarrow> u32 \<Rightarrow> bool \<times> 'd sfs_state" where
  "sfs_remove dev st path cwd_id =
     (case sfs_resolve st path cwd_id of
        None \<Rightarrow> (False, st)
      | Some node \<Rightarrow>
          if node = sb_root_id (g_super st) then (False, st)
          else if e_type (ent st node) = SFS_TYPE_DIR
               \<and> for_find (\<lambda>i. e_used (g_entries st ! i) \<noteq> 0 \<and> e_parent (g_entries st ! i) = node)
                          0 SFS_MAX_ENTRIES \<noteq> None
          then (False, st)
          else sfs_flush dev (upd_ent st node (\<lambda>_. zero_entry)))"

section \<open>Reading and writing file data\<close>

text \<open>The guard that opens \<^verbatim>\<open>sfs_read\<close>, \<^verbatim>\<open>sfs_write\<close> and \<^verbatim>\<open>sfs_truncate\<close>.\<close>

definition is_file_node :: "'d sfs_state \<Rightarrow> u32 \<Rightarrow> bool" where
  "is_file_node st node_id \<longleftrightarrow>
     node_id < of_nat SFS_MAX_ENTRIES \<and> e_used (ent st node_id) \<noteq> 0
     \<and> e_type (ent st node_id) = SFS_TYPE_FILE"

definition chunk_len :: "u32 \<Rightarrow> u32 \<Rightarrow> u32 \<Rightarrow> u32" where
  "chunk_len offset len copied =
     (let in_sector = (offset + copied) mod 512; chunk = 512 - in_sector in
      if chunk > len - copied then len - copied else chunk)"

lemma chunk_len_bounds:
  assumes "copied < len"
  shows "0 < chunk_len offset len copied" "chunk_len offset len copied \<le> len - copied"
    "chunk_len offset len copied \<le> 512"
proof -
  have m: "(offset + copied) mod 512 < (512 :: u32)"
    by (simp add: word_mod_less_divisor)
  then have "0 < 512 - (offset + copied) mod 512" "512 - (offset + copied) mod 512 \<le> 512"
    by unat_arith+
  moreover have "0 < len - copied" using assms by unat_arith
  ultimately show "0 < chunk_len offset len copied"
    "chunk_len offset len copied \<le> len - copied" "chunk_len offset len copied \<le> 512"
    by (auto simp: chunk_len_def Let_def)
qed

lemma chunk_len_progress:
  assumes "copied < len"
  shows "unat (len - (copied + chunk_len offset len copied)) < unat (len - copied)"
  using chunk_len_bounds [OF assms, of offset] assms by unat_arith

function sfs_read_loop ::
  "'d block_device \<Rightarrow> u32 \<Rightarrow> u32 \<Rightarrow> u32 \<Rightarrow> u32 \<Rightarrow> u8 list \<Rightarrow> 'd \<Rightarrow> u8 list option \<times> 'd" where
  "sfs_read_loop dev start offset len copied out d =
     (if copied < len
      then (let abs_off = offset + copied;
                lba = start + abs_off div 512;
                in_sector = abs_off mod 512;
                chunk = chunk_len offset len copied in
            case blockdev_read dev lba d of
              (None, d') \<Rightarrow> (None, d')
            | (Some sector, d') \<Rightarrow>
                sfs_read_loop dev start offset len (copied + chunk)
                  (out @ take (unat chunk) (drop (unat in_sector) sector)) d')
      else (Some out, d))"
  by pat_completeness auto
termination
  by (relation "measure (\<lambda>(dev, start, offset, len, copied, out, d). unat (len - copied))")
     (auto intro: chunk_len_progress)

declare sfs_read_loop.simps [simp del]

definition sfs_read ::
  "'d block_device \<Rightarrow> 'd sfs_state \<Rightarrow> u32 \<Rightarrow> u32 \<Rightarrow> u32 \<Rightarrow> u8 list option \<times> 'd sfs_state" where
  "sfs_read dev st node_id offset len =
     (if \<not> is_file_node st node_id then (None, st)
      else let e = ent st node_id in
      if e_perm e AND SFS_PERM_READ = 0 then (None, st)
      else if e_size e \<le> offset then (Some [], st)
      else let remaining = e_size e - offset;
               len' = (if len > remaining then remaining else len) in
      case sfs_read_loop dev (e_start_lba e) offset len' 0 [] (disk st) of
        (r, d') \<Rightarrow> (r, st\<lparr>disk := d'\<rparr>))"

text \<open>Moving the old sectors of a file that outgrew its extent.\<close>

function sfs_move_loop :: "'d block_device \<Rightarrow> u32 \<Rightarrow> u32 \<Rightarrow> nat \<Rightarrow> nat \<Rightarrow> 'd \<Rightarrow> bool \<times> 'd" where
  "sfs_move_loop dev old_start new_start cap i d =
     (if i < cap
      then (case blockdev_read dev (old_start + of_nat i) d of
              (None, d') \<Rightarrow> (False, d')
            | (Some tmp, d') \<Rightarrow>
                (case blockdev_write dev (new_start + of_nat i) tmp d' of
                   (False, d'') \<Rightarrow> (False, d'')
                 | (True, d'') \<Rightarrow> sfs_move_loop dev old_start new_start cap (Suc i) d''))
      else (True, d))"
  by pat_completeness auto
termination
  by (relation "measure (\<lambda>(dev, old_start, new_start, cap, i, d). cap - i)") auto

declare sfs_move_loop.simps [simp del]

function sfs_write_loop ::
  "'d block_device \<Rightarrow> u32 \<Rightarrow> u32 \<Rightarrow> u8 list \<Rightarrow> u32 \<Rightarrow> u32 \<Rightarrow> 'd \<Rightarrow> bool \<times> 'd" where
  "sfs_write_loop dev start offset data len copied d =
     (if copied < len
      then (let abs_off = offset + copied;
                lba = start + abs_off div 512;
                in_sector = abs_off mod 512;
                chunk = chunk_len offset len copied;
                (r, d1) = blockdev_read dev lba d;
                sector = (case r of None \<Rightarrow> replicate 512 0 | Some s \<Rightarrow> s);
                sector' = blit sector (unat in_sector) (drop (unat copied) data) (unat chunk) in
            case blockdev_write dev lba sector' d1 of
              (False, d2) \<Rightarrow> (False, d2)
            | (True, d2) \<Rightarrow> sfs_write_loop dev start offset data len (copied + chunk) d2)
      else (True, d))"
  by pat_completeness auto
termination
  by (relation "measure (\<lambda>(dev, start, offset, data, len, copied, d). unat (len - copied))")
     (auto intro: chunk_len_progress)

declare sfs_write_loop.simps [simp del]

text \<open>
  The extent step of \<^verbatim>\<open>sfs_write\<close>: a first write allocates, a write behind the
  capacity moves the file to fresh sectors.
\<close>

definition sfs_reserve :: "'d block_device \<Rightarrow> 'd sfs_state \<Rightarrow> u32 \<Rightarrow> u32 \<Rightarrow> bool \<times> 'd sfs_state" where
  "sfs_reserve dev st node_id need_sectors =
     (let e = ent st node_id; nf = sb_next_free_lba (g_super st) in
      if e_start_lba e = 0 then
        (True, (upd_ent st node_id (\<lambda>e. e\<lparr>e_start_lba := nf, e_capacity_sectors := need_sectors\<rparr>))
                 \<lparr>g_super := (g_super st)\<lparr>sb_next_free_lba := nf + need_sectors\<rparr>\<rparr>)
      else if need_sectors > e_capacity_sectors e then
        (case sfs_move_loop dev (e_start_lba e) nf (unat (e_capacity_sectors e)) 0 (disk st) of
           (False, d') \<Rightarrow> (False, st\<lparr>disk := d'\<rparr>)
         | (True, d') \<Rightarrow>
             (True, (upd_ent (st\<lparr>disk := d'\<rparr>) node_id
                       (\<lambda>e. e\<lparr>e_start_lba := nf, e_capacity_sectors := need_sectors\<rparr>))
                      \<lparr>g_super := (g_super st)\<lparr>sb_next_free_lba := nf + need_sectors\<rparr>\<rparr>))
      else (True, st))"

definition sfs_write ::
  "'d block_device \<Rightarrow> 'd sfs_state \<Rightarrow> u32 \<Rightarrow> u32 \<Rightarrow> u8 list \<Rightarrow> u32 \<Rightarrow> u32 option \<times> 'd sfs_state" where
  "sfs_write dev st node_id offset data len =
     (if \<not> is_file_node st node_id then (None, st)
      else if e_perm (ent st node_id) AND SFS_PERM_WRITE = 0 then (None, st)
      else let end_pos = offset + len; need_sectors = (end_pos + 511) div 512 in
      case sfs_reserve dev st node_id need_sectors of
        (False, st1) \<Rightarrow> (None, st1)
      | (True, st1) \<Rightarrow>
          (case sfs_write_loop dev (e_start_lba (ent st1 node_id)) offset data len 0 (disk st1) of
             (False, d2) \<Rightarrow> (None, st1\<lparr>disk := d2\<rparr>)
           | (True, d2) \<Rightarrow>
               let st2 = st1\<lparr>disk := d2\<rparr>;
                   st3 = (if end_pos > e_size (ent st2 node_id)
                          then upd_ent st2 node_id (\<lambda>e. e\<lparr>e_size := end_pos\<rparr>) else st2) in
               case sfs_flush dev st3 of
                 (False, st4) \<Rightarrow> (None, st4)
               | (True, st4) \<Rightarrow> (Some len, st4)))"

definition sfs_truncate :: "'d block_device \<Rightarrow> 'd sfs_state \<Rightarrow> u32 \<Rightarrow> bool \<times> 'd sfs_state" where
  "sfs_truncate dev st node_id =
     (if \<not> is_file_node st node_id then (False, st)
      else if e_perm (ent st node_id) AND SFS_PERM_WRITE = 0 then (False, st)
      else sfs_flush dev (upd_ent st node_id (\<lambda>e. e\<lparr>e_size := 0\<rparr>)))"

section \<open>Queries\<close>

definition sfs_stat :: "'d sfs_state \<Rightarrow> u32 \<Rightarrow> sfs_node_info \<Rightarrow> sfs_node_info option" where
  "sfs_stat st node_id out_info =
     (if \<not> node_id < of_nat SFS_MAX_ENTRIES \<or> e_used (ent st node_id) = 0 then None
      else let e = ent st node_id in
        Some \<lparr>ni_id = node_id, ni_type = e_type e, ni_perm = e_perm e, ni_parent = e_parent e,
              ni_size = e_size e, ni_name = s_copy (ni_name out_info) (e_name e) 32\<rparr>)"

text \<open>
  \<^verbatim>\<open>sfs_list\<close> fills the caller's array from its first slot; the count is the number
  of slots written.
\<close>

function list_loop :: "'d sfs_state \<Rightarrow> u32 \<Rightarrow> nat \<Rightarrow> nat \<Rightarrow> nat \<Rightarrow> sfs_node_info list \<Rightarrow> nat \<times> sfs_node_info list" where
  "list_loop st dir_id max_entries i count out =
     (if i < SFS_MAX_ENTRIES \<and> count < max_entries
      then (if e_used (g_entries st ! i) \<noteq> 0 \<and> e_parent (g_entries st ! i) = dir_id \<and> of_nat i \<noteq> dir_id
            then list_loop st dir_id max_entries (Suc i) (Suc count)
                   (case sfs_stat st (of_nat i) (out ! count) of
                      None \<Rightarrow> out | Some info \<Rightarrow> out[count := info])
            else list_loop st dir_id max_entries (Suc i) count out)
      else (count, out))"
  by pat_completeness auto
termination
  by (relation "measure (\<lambda>(st, dir_id, max_entries, i, count, out). 64 - i)") auto

declare list_loop.simps [simp del]

definition sfs_list ::
  "'d sfs_state \<Rightarrow> u32 \<Rightarrow> sfs_node_info list \<Rightarrow> nat \<Rightarrow> nat \<times> sfs_node_info list" where
  "sfs_list st dir_id out_entries max_entries =
     (if \<not> dir_id < of_nat SFS_MAX_ENTRIES \<or> e_used (ent st dir_id) = 0
         \<or> e_type (ent st dir_id) \<noteq> SFS_TYPE_DIR then (0, out_entries)
      else list_loop st dir_id max_entries 0 0 out_entries)"

end
