(* ===== verification/Simple_FS_Tree.thy ===== *)
theory Simple_FS_Tree
  imports Simple_FS
begin

text \<open>
  The directory tree of SimpleFS: paths as lists of components, the tree invariant of the
  node table and its preservation by \<^verbatim>\<open>sfs_create\<close> and \<^verbatim>\<open>sfs_remove\<close>, and
  what path resolution finds after them.
\<close>

section \<open>Paths as lists of components\<close>

text \<open>
  The reference splitting of a path: the maximal slash-free pieces, each cut to 31
  characters.
\<close>

abbreviation is_slash :: "u8 \<Rightarrow> bool" where "is_slash c \<equiv> c = SLASH"

function comps :: "u8 list \<Rightarrow> u8 list list" where
  "comps s =
     (let s1 = dropWhile is_slash s in
      if s1 = [] then []
      else take SFS_NAME_MAX (takeWhile (\<lambda>c. \<not> is_slash c) s1)
             # comps (dropWhile (\<lambda>c. \<not> is_slash c) s1))"
  by pat_completeness auto
termination
proof (relation "measure length")
  fix s s1 :: "u8 list"
  assume s1: "s1 = dropWhile is_slash s" and ne: "s1 \<noteq> []"
  have "hd s1 \<noteq> SLASH" unfolding s1 using ne [unfolded s1] by (rule hd_dropWhile)
  then have "takeWhile (\<lambda>c. \<not> is_slash c) s1 \<noteq> []" using ne by (cases s1) auto
  then have "length (dropWhile (\<lambda>c. \<not> is_slash c) s1) < length s1"
    using takeWhile_dropWhile_id [of "\<lambda>c. \<not> is_slash c" s1, THEN arg_cong, of length]
    by (simp only: length_append length_greater_0_conv [symmetric])
  also have "length s1 \<le> length s" unfolding s1 by (rule length_dropWhile_le)
  finally show "(dropWhile (\<lambda>c. \<not> is_slash c) s1, s) \<in> measure length" by simp
qed simp

declare comps.simps [simp del]

lemma comps_Nil: "dropWhile is_slash s = [] \<Longrightarrow> comps s = []"
  by (simp add: comps.simps [of s])

lemma comps_Cons:
  "dropWhile is_slash s = s1 \<Longrightarrow> s1 \<noteq> [] \<Longrightarrow>
   comps s = take SFS_NAME_MAX (takeWhile (\<lambda>c. \<not> is_slash c) s1)
               # comps (dropWhile (\<lambda>c. \<not> is_slash c) s1)"
  by (subst comps.simps) (simp only: Let_def if_False)

text \<open>The rest of the path behind a position.\<close>

definition rest :: "u8 list \<Rightarrow> nat \<Rightarrow> u8 list" where
  "rest path pos = cstr (drop pos path)"

lemma rest_unfold: "rest path pos = (if rd path pos = 0 then [] else rd path pos # rest path (Suc pos))"
  unfolding rest_def by (rule cstr_drop_unfold)

lemma rest_skip_slashes: "rest path (skip_slashes path pos) = dropWhile is_slash (rest path pos)"
proof (induction path pos rule: skip_slashes.induct)
  case (1 path pos)
  show ?case
  proof (cases "rd path pos = SLASH")
    case True
    with 1 show ?thesis
      by (simp add: skip_slashes.simps [of path pos] rest_unfold [of path pos])
  next
    case False
    then show ?thesis
      by (simp add: skip_slashes.simps [of path pos] rest_unfold [of path pos])
  qed
qed

lemma rest_skip_component:
  "rest path (skip_component path pos) = dropWhile (\<lambda>c. \<not> is_slash c) (rest path pos)"
proof (induction path pos rule: skip_component.induct)
  case (1 path pos)
  show ?case
  proof (cases "rd path pos \<noteq> 0 \<and> rd path pos \<noteq> SLASH")
    case True
    with 1 show ?thesis
      by (simp add: skip_component.simps [of path pos] rest_unfold [of path pos])
  next
    case False
    then show ?thesis
      by (auto simp: skip_component.simps [of path pos] rest_unfold [of path pos])
  qed
qed

lemma take_name_rest:
  assumes "take_name path pos out = (nm, p)" "length out \<le> SFS_NAME_MAX"
  shows "nm = out @ take (SFS_NAME_MAX - length out) (takeWhile (\<lambda>c. \<not> is_slash c) (rest path pos))
    \<and> dropWhile (\<lambda>c. \<not> is_slash c) (rest path p) = dropWhile (\<lambda>c. \<not> is_slash c) (rest path pos)"
  using assms
proof (induction path pos out rule: take_name.induct)
  case (1 path pos out)
  show ?case
  proof (cases "rd path pos \<noteq> 0 \<and> rd path pos \<noteq> SLASH \<and> length out < SFS_NAME_MAX")
    case True
    then have "31 - length out = Suc (31 - Suc (length out))" by linarith
    with True "1.IH" [OF True] "1.prems" show ?thesis
      by (simp add: take_name.simps [of path pos out] rest_unfold [of path pos])
  next
    case False
    then have "nm = out" "p = pos"
      using "1.prems"(1) by (simp_all only: take_name.simps [of path pos out] if_False prod.inject)
    with False "1.prems"(2) show ?thesis
      by (auto simp: rest_unfold [of path pos])
  qed
qed

lemma path_next_spec:
  "path_next path pos =
     (case comps (rest path pos) of
        [] \<Rightarrow> None
      | nm # nms \<Rightarrow> Some (nm, skip_component path (snd (take_name path (skip_slashes path pos) []))))"
  and path_next_rest:
  "path_next path pos = Some (nm, p) \<Longrightarrow> comps (rest path pos) = nm # comps (rest path p)"
proof -
  let ?p1 = "skip_slashes path pos"
  obtain out p2 where tn: "take_name path ?p1 [] = (out, p2)" by fastforce
  have r1: "rest path ?p1 = dropWhile is_slash (rest path pos)" by (rule rest_skip_slashes)
  have nil: "rd path ?p1 = 0 \<longleftrightarrow> rest path ?p1 = []" by (simp add: rest_unfold [of path ?p1])
  have tr: "out = take 31 (takeWhile (\<lambda>c. \<not> is_slash c) (rest path ?p1))"
    "dropWhile (\<lambda>c. \<not> is_slash c) (rest path p2) = dropWhile (\<lambda>c. \<not> is_slash c) (rest path ?p1)"
    using take_name_rest [OF tn] by auto
  show "path_next path pos =
     (case comps (rest path pos) of
        [] \<Rightarrow> None
      | nm # nms \<Rightarrow> Some (nm, skip_component path (snd (take_name path ?p1 []))))"
    using tn nil tr r1 by (simp add: path_next_def Let_def comps.simps [of "rest path pos"])
  show "path_next path pos = Some (nm, p) \<Longrightarrow> comps (rest path pos) = nm # comps (rest path p)"
    using tn nil tr r1
    by (auto simp: path_next_def Let_def comps.simps [of "rest path pos"] rest_skip_component
        split: if_splits)
qed

lemma path_next_suffix:
  assumes "path_next path pos = Some (nm, p)"
  shows "\<exists>ys. rest path pos = ys @ rest path p"
proof -
  let ?p1 = "skip_slashes path pos"
  obtain out p2 where tn: "take_name path ?p1 [] = (out, p2)" by fastforce
  have "rest path p = dropWhile (\<lambda>c. \<not> is_slash c) (rest path ?p1)"
    using assms tn take_name_rest [OF tn]
    by (auto simp: path_next_def Let_def rest_skip_component split: if_splits)
  then show ?thesis
    by (metis rest_skip_slashes takeWhile_dropWhile_id append.assoc)
qed

lemma path_next_None_iff: "path_next path pos = None \<longleftrightarrow> comps (rest path pos) = []"
  by (simp add: path_next_spec split: list.splits)

lemma comps_names:
  "0 \<notin> set s \<Longrightarrow> nm \<in> set (comps s) \<Longrightarrow>
     nm \<noteq> [] \<and> length nm \<le> SFS_NAME_MAX \<and> SLASH \<notin> set nm \<and> 0 \<notin> set nm"
proof (induction s rule: comps.induct)
  case (1 s)
  let ?s1 = "dropWhile is_slash s"
  show ?case
  proof (cases "?s1 = []")
    case True
    with "1.prems" show ?thesis by (simp only: comps_Nil list.set empty_iff)
  next
    case False
    have z: "0 \<notin> set ?s1" using "1.prems" by (auto dest: set_dropWhileD)
    have hd: "hd ?s1 \<noteq> SLASH" using False hd_dropWhile by blast
    have t: "takeWhile (\<lambda>c. \<not> is_slash c) ?s1 \<noteq> []"
      using False hd by (cases ?s1) auto
    consider (here) "nm = take 31 (takeWhile (\<lambda>c. \<not> is_slash c) ?s1)"
      | (later) "nm \<in> set (comps (dropWhile (\<lambda>c. \<not> is_slash c) ?s1))"
      using "1.prems"(2) unfolding comps_Cons [OF refl False] by auto
    then show ?thesis
    proof cases
      case here
      with t z show ?thesis
        by (auto dest!: in_set_takeD set_takeWhileD)
    next
      case later
      have "0 \<notin> set (dropWhile (\<lambda>c. \<not> is_slash c) ?s1)"
        using z by (auto dest: set_dropWhileD)
      with "1.IH" [OF refl False] later show ?thesis by blast
    qed
  qed
qed

lemma rest_nonzero [simp]: "0 \<notin> set (rest path pos)"
  unfolding rest_def using cstr_nonzero by blast

lemma path_next_name:
  assumes "path_next path pos = Some (nm, p)"
  shows "nm \<noteq> [] \<and> length nm \<le> SFS_NAME_MAX \<and> SLASH \<notin> set nm \<and> 0 \<notin> set nm"
proof -
  have "nm \<in> set (comps (rest path pos))"
    using path_next_rest [OF assms] by simp
  then show ?thesis by (intro comps_names) auto
qed

lemma s_eq_name: "0 \<notin> set nm \<Longrightarrow> s_eq nm (str ''.'') \<longleftrightarrow> nm = str ''.''"
  "0 \<notin> set nm \<Longrightarrow> s_eq nm (str ''..'') \<longleftrightarrow> nm = str ''..''"
  by (simp_all add: s_eq_iff cstr_id str_def)

text \<open>The walk of \<^verbatim>\<open>sfs_resolve\<close> as a recursion over the components.\<close>

fun follow :: "'d sfs_state \<Rightarrow> u32 \<Rightarrow> u8 list list \<Rightarrow> u32 option" where
  "follow st cur [] = Some cur"
| "follow st cur (nm # nms) =
     (if nm = str ''.'' then follow st cur nms
      else if nm = str ''..'' then follow st (e_parent (ent st cur)) nms
      else case sfs_find_child st cur nm of
             None \<Rightarrow> None
           | Some child \<Rightarrow> follow st child nms)"

lemma follow_append:
  "follow st cur (xs @ ys) = (case follow st cur xs of None \<Rightarrow> None | Some c \<Rightarrow> follow st c ys)"
  by (induction st cur xs rule: follow.induct) (auto split: option.splits)

lemma resolve_walk_follow: "resolve_walk st path pos cur = follow st cur (comps (rest path pos))"
proof (induction st path pos cur rule: resolve_walk.induct)
  case (1 st path pos cur)
  show ?case
  proof (cases "path_next path pos")
    case None
    moreover from this have "comps (rest path pos) = []" by (simp add: path_next_None_iff)
    ultimately show ?thesis
      by (simp add: resolve_walk.simps [of st path pos cur])
  next
    case (Some r)
    obtain nm p where r: "r = (nm, p)" by fastforce
    have c: "comps (rest path pos) = nm # comps (rest path p)"
      using Some r path_next_rest by blast
    have z: "0 \<notin> set nm" using path_next_name Some r by blast
    note IH = "1.IH" [OF Some r [symmetric]]
    show ?thesis
      unfolding resolve_walk.simps [of st path pos cur] c
      using Some r z IH by (auto simp: s_eq_name split: option.splits)
  qed
qed

theorem sfs_resolve_follow:
  "sfs_resolve st path cwd = follow st (walk_start st path cwd) (comps (cstr path))"
  by (simp add: sfs_resolve_def resolve_walk_follow rest_def)


section \<open>The tree invariant\<close>

definition live :: "'d sfs_state \<Rightarrow> u32 \<Rightarrow> bool" where
  "live st i \<longleftrightarrow> i < 64 \<and> e_used (ent st i) \<noteq> 0"

definition is_dir :: "'d sfs_state \<Rightarrow> u32 \<Rightarrow> bool" where
  "is_dir st i \<longleftrightarrow> live st i \<and> e_type (ent st i) = SFS_TYPE_DIR"

definition node_name :: "'d sfs_state \<Rightarrow> u32 \<Rightarrow> u8 list" where
  "node_name st i = cstr (e_name (ent st i))"

definition good_name :: "u8 list \<Rightarrow> bool" where
  "good_name nm \<longleftrightarrow> nm \<noteq> [] \<and> length nm \<le> SFS_NAME_MAX \<and> SLASH \<notin> set nm \<and> 0 \<notin> set nm"

definition layout_ok :: "'d sfs_state \<Rightarrow> bool" where
  "layout_ok st \<longleftrightarrow> length (g_entries st) = 64 \<and> length (sb_reserved (g_super st)) = 488
     \<and> (\<forall>e \<in> set (g_entries st). length (e_name e) = 32 \<and> length (e_reserved1 e) = 12)"

text \<open>
  The table is a tree: the root is node 0, its own parent; every live node has a live
  directory as parent; siblings have different names; parents come before their children in
  some ranking, so there is no cycle.
\<close>

definition fs_tree :: "'d sfs_state \<Rightarrow> bool" where
  "fs_tree st \<longleftrightarrow> layout_ok st \<and> sb_root_id (g_super st) = 0
     \<and> is_dir st 0 \<and> e_parent (ent st 0) = 0 \<and> node_name st 0 = [SLASH]
     \<and> (\<forall>i. live st i \<longrightarrow> is_dir st (e_parent (ent st i)))
     \<and> (\<forall>i. live st i \<and> i \<noteq> 0 \<longrightarrow> good_name (node_name st i))
     \<and> (\<forall>i j. live st i \<and> live st j \<and> e_parent (ent st i) = e_parent (ent st j)
              \<and> node_name st i = node_name st j \<longrightarrow> i = j)
     \<and> (\<exists>rank :: u32 \<Rightarrow> nat. \<forall>i. live st i \<and> i \<noteq> 0 \<longrightarrow> rank (e_parent (ent st i)) < rank i)"

lemmas tree_defs = live_def is_dir_def node_name_def

lemma fs_tree_root: "fs_tree st \<Longrightarrow> is_dir st 0" "fs_tree st \<Longrightarrow> sb_root_id (g_super st) = 0"
  "fs_tree st \<Longrightarrow> e_parent (ent st 0) = 0"
  by (simp_all add: fs_tree_def)

lemma fs_tree_parent: "fs_tree st \<Longrightarrow> live st i \<Longrightarrow> is_dir st (e_parent (ent st i))"
  by (simp add: fs_tree_def)

lemma fs_tree_unique:
  "\<lbrakk>fs_tree st; live st i; live st j; e_parent (ent st i) = e_parent (ent st j);
    node_name st i = node_name st j\<rbrakk> \<Longrightarrow> i = j"
  unfolding fs_tree_def by blast

lemma fs_tree_length: "fs_tree st \<Longrightarrow> length (g_entries st) = 64"
  by (simp add: fs_tree_def layout_ok_def)

lemma is_dir_live: "is_dir st i \<Longrightarrow> live st i"
  by (simp add: is_dir_def)

lemma live_less: "live st i \<Longrightarrow> unat i < 64"
  unfolding live_def by unat_arith

lemma unat_of_nat_64: "k < 64 \<Longrightarrow> unat (of_nat k :: u32) = k"
  by (simp add: unat_of_nat)

lemma of_nat_less_64: "k < 64 \<Longrightarrow> (of_nat k :: u32) < 64"
  by (simp add: word_less_nat_alt unat_of_nat)

lemma live_of_nat: "k < 64 \<Longrightarrow> live st (of_nat k) \<longleftrightarrow> e_used (g_entries st ! k) \<noteq> 0"
  by (simp add: live_def ent_def unat_of_nat_64 of_nat_less_64)

text \<open>Updates of the medium and of one entry.\<close>

lemma ent_disk [simp]: "ent (st\<lparr>disk := d\<rparr>) i = ent st i"
  "ent (st\<lparr>g_super := s\<rparr>) i = ent st i"
  by (simp_all add: ent_def)

lemma tree_disk [simp]:
  "live (st\<lparr>disk := d\<rparr>) i = live st i" "is_dir (st\<lparr>disk := d\<rparr>) i = is_dir st i"
  "node_name (st\<lparr>disk := d\<rparr>) i = node_name st i" "fs_tree (st\<lparr>disk := d\<rparr>) = fs_tree st"
  by (simp_all add: tree_defs fs_tree_def layout_ok_def)

lemma find_child_disk [simp]: "sfs_find_child (st\<lparr>disk := d\<rparr>) p nm = sfs_find_child st p nm"
  by (simp add: sfs_find_child_def)

lemma follow_disk [simp]: "follow (st\<lparr>disk := d\<rparr>) cur nms = follow st cur nms"
  by (induction st cur nms rule: follow.induct) (auto split: option.splits)

lemma sfs_resolve_disk [simp]: "sfs_resolve (st\<lparr>disk := d\<rparr>) path cwd = sfs_resolve st path cwd"
  by (simp add: sfs_resolve_follow walk_start_def)

lemma walk_start_upd [simp]: "walk_start (upd_ent st i f) path cwd = walk_start st path cwd"
  "walk_start (st\<lparr>disk := d\<rparr>) path cwd = walk_start st path cwd"
  by (simp_all add: walk_start_def upd_ent_def)

lemma ent_upd_ent [simp]:
  "unat i < length (g_entries st) \<Longrightarrow> ent (upd_ent st i f) j = (if i = j then f (ent st i) else ent st j)"
  by (auto simp: ent_def upd_ent_def nth_list_update word_unat_eq_iff)

lemma super_upd_ent [simp]: "g_super (upd_ent st i f) = g_super st" "disk (upd_ent st i f) = disk st"
  "length (g_entries (upd_ent st i f)) = length (g_entries st)"
  by (simp_all add: upd_ent_def)

lemma layout_upd_ent:
  "\<lbrakk>layout_ok st; length (e_name (f (ent st i))) = 32; length (e_reserved1 (f (ent st i))) = 12\<rbrakk>
   \<Longrightarrow> layout_ok (upd_ent st i f)"
  by (auto simp: layout_ok_def upd_ent_def dest!: set_update_subset_insert [THEN subsetD])

lemma layout_ent:
  "\<lbrakk>layout_ok st; unat i < 64\<rbrakk> \<Longrightarrow> length (e_name (ent st i)) = 32 \<and> length (e_reserved1 (ent st i)) = 12"
  by (simp add: layout_ok_def ent_def)

lemma sfs_flush_state: "sfs_flush dev st = (ok, st') \<Longrightarrow> \<exists>d. st' = st\<lparr>disk := d\<rparr>"
  by (auto simp: sfs_flush_def split: prod.splits bool.splits)

lemma sfs_flush_tree: "sfs_flush dev st = (ok, st') \<Longrightarrow> fs_tree st' = fs_tree st"
  by (auto dest: sfs_flush_state)

text \<open>What the child search returns.\<close>

lemma find_child_SomeD:
  "sfs_find_child st p nm = Some c \<Longrightarrow> live st c \<and> e_parent (ent st c) = p \<and> node_name st c = cstr nm"
  unfolding sfs_find_child_def
  by (auto dest!: for_find_SomeD simp: live_of_nat node_name_def ent_def unat_of_nat_64 s_eq_iff)

lemma find_child_None:
  assumes "sfs_find_child st p nm = None" "live st c" "e_parent (ent st c) = p"
  shows "node_name st c \<noteq> cstr nm"
proof
  assume n: "node_name st c = cstr nm"
  have "unat c < 64" using assms(2) by (rule live_less)
  moreover have "e_used (g_entries st ! unat c) \<noteq> 0 \<and> e_parent (g_entries st ! unat c) = p
      \<and> s_eq (e_name (g_entries st ! unat c)) nm"
    using assms n by (auto simp: tree_defs ent_def s_eq_iff)
  ultimately show False
    using assms(1) by (auto simp: sfs_find_child_def for_find_None_iff)
qed

lemma find_child_iff:
  "fs_tree st \<Longrightarrow> sfs_find_child st p nm = Some c \<longleftrightarrow>
     live st c \<and> e_parent (ent st c) = p \<and> node_name st c = cstr nm"
proof
  assume t: "fs_tree st" and c: "live st c \<and> e_parent (ent st c) = p \<and> node_name st c = cstr nm"
  then obtain c' where c': "sfs_find_child st p nm = Some c'"
    using find_child_None by (cases "sfs_find_child st p nm") blast+
  have "c' = c"
    by (rule fs_tree_unique [OF t]) (use c find_child_SomeD [OF c'] in auto)
  with c' show "sfs_find_child st p nm = Some c" by simp
qed (rule find_child_SomeD)

lemma find_free_SomeD:
  "sfs_find_free_entry st = Some i \<Longrightarrow> unat i < 64 \<and> i < 64 \<and> \<not> live st i"
  unfolding sfs_find_free_entry_def
  by (auto dest!: for_find_SomeD simp: live_of_nat unat_of_nat_64 of_nat_less_64)

text \<open>Resolution stays inside the tree.\<close>

lemma follow_live:
  "\<lbrakk>fs_tree st; live st cur; follow st cur nms = Some r\<rbrakk> \<Longrightarrow> live st r"
  by (induction st cur nms rule: follow.induct)
     (auto split: if_splits option.splits dest: find_child_SomeD fs_tree_parent is_dir_live)

lemma walk_start_live: "fs_tree st \<Longrightarrow> live st cwd \<Longrightarrow> live st (walk_start st path cwd)"
  by (simp add: walk_start_def fs_tree_root is_dir_live)

lemma walk_start_dir: "fs_tree st \<Longrightarrow> is_dir st cwd \<Longrightarrow> is_dir st (walk_start st path cwd)"
  by (simp add: walk_start_def fs_tree_root)

theorem sfs_resolve_live:
  "\<lbrakk>fs_tree st; live st cwd; sfs_resolve st path cwd = Some r\<rbrakk> \<Longrightarrow> live st r"
  by (auto simp: sfs_resolve_follow intro: follow_live walk_start_live)


section \<open>Creating a node\<close>

text \<open>The entry that \<^verbatim>\<open>sfs_create\<close> writes.\<close>

definition new_entry :: "u32 \<Rightarrow> u8 list \<Rightarrow> u8 \<Rightarrow> u8 \<Rightarrow> sfs_entry \<Rightarrow> sfs_entry" where
  "new_entry current lst ty perm e =
     e\<lparr>e_used := 1, e_type := ty, e_perm := perm, e_parent := current, e_start_lba := 0,
       e_size := 0, e_capacity_sectors := 0, e_name := s_copy (e_name e) lst 32\<rparr>"

lemma new_entry_sel [simp]:
  "e_used (new_entry c l ty pm e) = 1" "e_type (new_entry c l ty pm e) = ty"
  "e_perm (new_entry c l ty pm e) = pm" "e_parent (new_entry c l ty pm e) = c"
  "e_start_lba (new_entry c l ty pm e) = 0" "e_size (new_entry c l ty pm e) = 0"
  "e_capacity_sectors (new_entry c l ty pm e) = 0"
  "length (e_name (new_entry c l ty pm e)) = length (e_name e)"
  "e_reserved1 (new_entry c l ty pm e) = e_reserved1 e"
  "length (e_name e) = 32 \<Longrightarrow> cstr (e_name (new_entry c l ty pm e)) = take 31 (cstr l)"
  by (simp_all add: new_entry_def)


lemma zero_entry_sel [simp]:
  "e_used zero_entry = 0" "length (e_name zero_entry) = 32" "length (e_reserved1 zero_entry) = 12"
  by (simp_all add: zero_entry_def)

lemma cstr_replicate_zero [simp]: "cstr (replicate n 0) = []"
  by (cases n) auto

lemma ent_add:
  assumes "fs_tree st" "idx < 64"
  shows "ent (upd_ent st idx f) j = (if idx = j then f (ent st idx) else ent st j)"
    "live (upd_ent st idx f) j \<longleftrightarrow> (if idx = j then e_used (f (ent st idx)) \<noteq> 0 else live st j)"
proof -
  have i: "unat idx < length (g_entries st)"
    using assms(2) fs_tree_length [OF assms(1)] by unat_arith
  show "ent (upd_ent st idx f) j = (if idx = j then f (ent st idx) else ent st j)"
    using i by simp
  then show "live (upd_ent st idx f) j \<longleftrightarrow> (if idx = j then e_used (f (ent st idx)) \<noteq> 0 else live st j)"
    using assms(2) by (auto simp: live_def)
qed

lemma node_name_add:
  assumes "fs_tree st" "idx < 64"
  shows "node_name (upd_ent st idx (new_entry cur lst ty perm)) j =
    (if idx = j then take 31 (cstr lst) else node_name st j)"
proof -
  have "length (e_name (ent st idx)) = 32"
    using assms layout_ent [of st idx] by (auto simp: fs_tree_def word_less_nat_alt)
  with assms show ?thesis by (cases "idx = j") (auto simp: node_name_def ent_add)
qed

lemma fs_tree_add:
  assumes t: "fs_tree st" and i: "idx < 64" "\<not> live st idx" and d: "is_dir st cur"
    and n: "good_name (cstr lst)" and u: "sfs_find_child st cur lst = None"
  shows "fs_tree (upd_ent st idx (new_entry cur lst ty perm))" (is "fs_tree ?st")
proof -
  have ne: "idx \<noteq> 0" "idx \<noteq> cur" using i d fs_tree_root(1) [OF t] by (auto simp: is_dir_def)
  have tk: "take 31 (cstr lst) = cstr lst" using n by (simp add: good_name_def)
  note e = ent_add [OF t i(1), of "new_entry cur lst ty perm"]
    node_name_add [OF t i(1), of cur lst ty perm] tk
  have par: "is_dir ?st p \<longleftrightarrow> is_dir st p" if "p \<noteq> idx" for p
    using that by (simp add: is_dir_def e)
  have np: "e_parent (ent st j) \<noteq> idx" if "live st j" for j
    using fs_tree_parent [OF t that] i(2) by (auto simp: is_dir_def)
  have lay: "layout_ok ?st"
    using t i(1) layout_ent [of st idx]
    by (intro layout_upd_ent) (auto simp: fs_tree_def word_less_nat_alt)
  have uniq: "a = b" if "live ?st a" "live ?st b" "e_parent (ent ?st a) = e_parent (ent ?st b)"
      "node_name ?st a = node_name ?st b" for a b
    using that i(2) find_child_None [OF u] fs_tree_unique [OF t]
    by (auto simp: e split: if_splits)
  obtain rank where r: "\<And>j. live st j \<Longrightarrow> j \<noteq> 0 \<Longrightarrow> rank (e_parent (ent st j)) < (rank j :: nat)"
    using t unfolding fs_tree_def by blast
  have rk: "\<forall>j. live ?st j \<and> j \<noteq> 0 \<longrightarrow>
      (rank(idx := Suc (rank cur))) (e_parent (ent ?st j)) < (rank(idx := Suc (rank cur))) j"
    using r ne np by (auto simp: e)
  show ?thesis
    unfolding fs_tree_def
  proof (intro conjI allI impI)
    fix j assume "live ?st j"
    then show "is_dir ?st (e_parent (ent ?st j))"
      using d ne par np fs_tree_parent [OF t] by (auto simp: e split: if_splits)
  next
    fix j assume "live ?st j \<and> j \<noteq> 0"
    then show "good_name (node_name ?st j)"
      using n t by (auto simp: e fs_tree_def split: if_splits)
  next
    fix a b assume "live ?st a \<and> live ?st b \<and> e_parent (ent ?st a) = e_parent (ent ?st b)
      \<and> node_name ?st a = node_name ?st b"
    then show "a = b" using uniq by blast
  next
    show "\<exists>rank :: u32 \<Rightarrow> nat. \<forall>j. live ?st j \<and> j \<noteq> 0 \<longrightarrow> rank (e_parent (ent ?st j)) < rank j"
      using rk by blast
  qed (use t lay ne par in \<open>auto simp: e fs_tree_def\<close>)
qed

text \<open>The walk in front of a new node ends in a directory and at an acceptable name.\<close>

lemma create_walk_dir:
  assumes "fs_tree st" "is_dir st cur" "length lst = 32"
    and "create_walk st path pos cur lst = Some (dir, lst')"
    and "cstr lst = [] \<or> good_name (cstr lst)"
  shows "is_dir st dir \<and> length lst' = 32 \<and> (cstr lst' = [] \<or> good_name (cstr lst'))"
  using assms
proof (induction st path pos cur lst rule: create_walk.induct)
  case (1 st path pos cur lst)
  show ?case
  proof (cases "path_next path pos")
    case None
    with "1.prems" show ?thesis by (simp add: create_walk.simps [of st path pos cur lst])
  next
    case (Some r)
    obtain nm p where r: "r = (nm, p)" by fastforce
    have g: "good_name nm" using path_next_name Some r by (auto simp: good_name_def)
    define lst1 where "lst1 = s_copy lst nm 32"
    have l1: "length lst1 = 32" "cstr lst1 = nm"
      using g "1.prems"(3) by (auto simp: lst1_def good_name_def cstr_id)
    have par: "is_dir st (e_parent (ent st cur))"
      using "1.prems"(1,2) by (intro fs_tree_parent) (auto simp: is_dir_def)
    note IH = "1.IH" [OF Some r [symmetric] lst1_def]
    from "1.prems"(4) Some r consider
        (dot) "s_eq nm (str ''.'')" "create_walk st path p cur lst1 = Some (dir, lst')"
      | (dots) "\<not> s_eq nm (str ''.'')" "s_eq nm (str ''..'')"
          "create_walk st path p (e_parent (ent st cur)) lst1 = Some (dir, lst')"
      | (stop) "dir = cur" "lst' = lst1"
      | (down) child where "\<not> s_eq nm (str ''.'')" "\<not> s_eq nm (str ''..'')" "rd path p \<noteq> 0"
          "sfs_find_child st cur nm = Some child" "e_type (ent st child) = SFS_TYPE_DIR"
          "create_walk st path p child lst1 = Some (dir, lst')"
      by (auto simp: create_walk.simps [of st path pos cur lst] Let_def lst1_def
          split: if_splits option.splits)
    then show ?thesis
    proof cases
      case dot
      with IH(1) "1.prems" l1 g show ?thesis by auto
    next
      case dots
      with IH(2) "1.prems" l1 g par show ?thesis by auto
    next
      case stop
      with "1.prems"(2) l1 g show ?thesis by simp
    next
      case down
      then have "is_dir st child" using find_child_SomeD [OF down(4)] by (simp add: is_dir_def)
      with IH(3) [OF down(1-3) down(4)] down "1.prems"(1) l1 g show ?thesis by auto
    qed
  qed
qed

text \<open>
  A successful or failed \<^verbatim>\<open>sfs_create\<close>, unfolded: either nothing but the medium
  changes, or the new entry is in the table (and only the flush may have failed).
\<close>

lemma sfs_create_cases:
  assumes "sfs_create dev st path cwd ty perm = (r, st')"
  obtains (refused) "r = None" "st' = st"
  | (made) cur lst idx d where
      "create_walk st path 0 (walk_start st path cwd) (replicate 32 0) = Some (cur, lst)"
      "cstr lst \<noteq> []" "sfs_find_child st cur lst = None" "sfs_find_free_entry st = Some idx"
      "st' = (upd_ent st idx (new_entry cur lst ty perm))\<lparr>disk := d\<rparr>" "r = None \<or> r = Some idx"
      "sfs_flush dev (upd_ent st idx (new_entry cur lst ty perm)) = (r \<noteq> None, st')"
proof -
  have z: "rd lst 0 = 0 \<longleftrightarrow> cstr lst = []" for lst :: "u8 list" by (cases lst) auto
  let ?w = "create_walk st path 0 (walk_start st path cwd) (replicate 32 0)"
  consider (no) "r = None" "st' = st"
    | (yes) cur lst idx where "?w = Some (cur, lst)" "cstr lst \<noteq> []"
        "sfs_find_child st cur lst = None" "sfs_find_free_entry st = Some idx"
        "(case sfs_flush dev (upd_ent st idx (new_entry cur lst ty perm)) of
            (False, st') \<Rightarrow> (None, st') | (True, st') \<Rightarrow> (Some idx, st')) = (r, st')"
    using assms unfolding sfs_create_def new_entry_def z
    by (auto split: if_splits option.splits)
  then show ?thesis
  proof cases
    case no
    then show ?thesis by (rule refused)
  next
    case (yes cur lst idx)
    obtain ok st1 where f: "sfs_flush dev (upd_ent st idx (new_entry cur lst ty perm)) = (ok, st1)"
      by fastforce
    obtain d where d: "st1 = (upd_ent st idx (new_entry cur lst ty perm))\<lparr>disk := d\<rparr>"
      using sfs_flush_state [OF f] by blast
    have "st' = st1" "r = None \<or> r = Some idx" "ok = (r \<noteq> None)" using yes(5) f by (cases ok; auto)+
    with yes d f show ?thesis by (intro made) auto
  qed
qed

theorem sfs_create_tree:
  assumes t: "fs_tree st" and c: "is_dir st cwd"
    and s: "sfs_create dev st path cwd ty perm = (r, st')"
  shows "fs_tree st'"
  using s
proof (cases rule: sfs_create_cases)
  case refused
  with t show ?thesis by simp
next
  case (made cur lst idx d)
  have "is_dir st cur \<and> length lst = 32 \<and> (cstr lst = [] \<or> good_name (cstr lst))"
    using t walk_start_dir [OF t c] made(1) by (intro create_walk_dir) auto
  with made(2) have "is_dir st cur" "good_name (cstr lst)" by auto
  with find_free_SomeD [OF made(4)] t made(3) show ?thesis
    unfolding made(5) by (simp add: fs_tree_add)
qed

section \<open>Removing a node\<close>

lemma fs_tree_remove:
  assumes t: "fs_tree st" and l: "live st node" and r: "node \<noteq> 0"
    and ch: "\<And>j. live st j \<Longrightarrow> e_parent (ent st j) \<noteq> node"
  shows "fs_tree (upd_ent st node (\<lambda>_. zero_entry))" (is "fs_tree ?st")
proof -
  have i: "node < 64" using l by (simp add: live_def)
  note e = ent_add [OF t i, of "\<lambda>_. zero_entry"]
  have lv: "live ?st j \<longleftrightarrow> live st j \<and> j \<noteq> node" for j
    by (auto simp: e)
  have nn: "node_name ?st j = node_name st j" if "j \<noteq> node" for j
    using that by (simp add: node_name_def e)
  have dr: "is_dir ?st j \<longleftrightarrow> is_dir st j" if "j \<noteq> node" for j
    using that by (simp add: is_dir_def lv e)
  have lay: "layout_ok ?st"
    using t by (intro layout_upd_ent) (auto simp: fs_tree_def)
  show ?thesis
    unfolding fs_tree_def
  proof (intro conjI allI impI)
    fix j assume "live ?st j"
    then show "is_dir ?st (e_parent (ent ?st j))"
      using ch dr fs_tree_parent [OF t] by (auto simp: lv e)
  next
    fix j assume "live ?st j \<and> j \<noteq> 0"
    then show "good_name (node_name ?st j)" using t by (auto simp: lv nn fs_tree_def)
  next
    fix a b assume "live ?st a \<and> live ?st b \<and> e_parent (ent ?st a) = e_parent (ent ?st b)
      \<and> node_name ?st a = node_name ?st b"
    then show "a = b" using fs_tree_unique [OF t, of a b] by (auto simp: lv nn e)
  next
    show "\<exists>rank :: u32 \<Rightarrow> nat. \<forall>j. live ?st j \<and> j \<noteq> 0 \<longrightarrow> rank (e_parent (ent ?st j)) < rank j"
      using t by (auto simp: lv e fs_tree_def)
  qed (use t lay r dr nn in \<open>auto simp: e fs_tree_def\<close>)
qed

lemma sfs_remove_cases:
  assumes "sfs_remove dev st path cwd = (ok, st')"
  obtains (refused) "\<not> ok" "st' = st"
  | (removed) node d where "sfs_resolve st path cwd = Some node" "node \<noteq> sb_root_id (g_super st)"
      "e_type (ent st node) = SFS_TYPE_DIR \<Longrightarrow>
        for_find (\<lambda>i. e_used (g_entries st ! i) \<noteq> 0 \<and> e_parent (g_entries st ! i) = node) 0 64 = None"
      "st' = (upd_ent st node (\<lambda>_. zero_entry))\<lparr>disk := d\<rparr>"
proof (cases "sfs_resolve st path cwd")
  case None
  with assms show ?thesis by (intro refused) (auto simp: sfs_remove_def)
next
  case (Some node)
  let ?kids = "for_find (\<lambda>i. e_used (g_entries st ! i) \<noteq> 0 \<and> e_parent (g_entries st ! i) = node) 0 64"
  consider (no) "ok = False" "st' = st"
    | (yes) "node \<noteq> sb_root_id (g_super st)" "e_type (ent st node) = SFS_TYPE_DIR \<Longrightarrow> ?kids = None"
        "sfs_flush dev (upd_ent st node (\<lambda>_. zero_entry)) = (ok, st')"
    using assms Some by (auto simp: sfs_remove_def split: if_splits)
  then show ?thesis
  proof cases
    case no
    then show ?thesis by (intro refused) auto
  next
    case yes
    then obtain d where "st' = (upd_ent st node (\<lambda>_. zero_entry))\<lparr>disk := d\<rparr>"
      using sfs_flush_state by blast
    with yes Some show ?thesis by (intro removed) auto
  qed
qed

lemma no_children:
  assumes t: "fs_tree st" and l: "live st node"
    and d: "e_type (ent st node) = SFS_TYPE_DIR \<Longrightarrow>
        for_find (\<lambda>i. e_used (g_entries st ! i) \<noteq> 0 \<and> e_parent (g_entries st ! i) = node) 0 64 = None"
    and j: "live st j"
  shows "e_parent (ent st j) \<noteq> node"
proof
  assume p: "e_parent (ent st j) = node"
  then have "e_type (ent st node) = SFS_TYPE_DIR"
    using fs_tree_parent [OF t j] by (simp add: is_dir_def)
  with d have "\<not> (e_used (g_entries st ! unat j) \<noteq> 0 \<and> e_parent (g_entries st ! unat j) = node)"
    using live_less [OF j] by (simp add: for_find_None_iff)
  with j p show False by (simp add: live_def ent_def)
qed

theorem sfs_remove_tree:
  assumes t: "fs_tree st" and c: "live st cwd" and s: "sfs_remove dev st path cwd = (ok, st')"
  shows "fs_tree st'"
  using s
proof (cases rule: sfs_remove_cases)
  case refused
  with t show ?thesis by simp
next
  case (removed node d)
  have l: "live st node" using sfs_resolve_live [OF t c removed(1)] .
  show ?thesis
    unfolding removed(4) tree_disk
    by (rule fs_tree_remove [OF t l])
       (use removed(2) fs_tree_root(2) [OF t] no_children [OF t l removed(3)] in auto)
qed


section \<open>Resolution after creation and removal\<close>

text \<open>
  A path that \<^verbatim>\<open>sfs_create\<close> can make: it does not end in a slash and its last
  component is not one of the two dot names.
\<close>

definition plain_path :: "u8 list \<Rightarrow> bool" where
  "plain_path path \<longleftrightarrow> cstr path \<noteq> [] \<and> last (cstr path) \<noteq> SLASH
     \<and> last (comps (cstr path)) \<notin> {str ''.'', str ''..''}"

lemma comps_nonempty:
  assumes "s \<noteq> []" "last s \<noteq> SLASH"
  shows "comps s \<noteq> []"
proof -
  have "last s \<in> set s" using assms(1) by simp
  then have "dropWhile is_slash s \<noteq> []" using assms(2) by (auto simp: dropWhile_eq_Nil_conv)
  then show ?thesis by (simp add: comps_Cons)
qed

lemma create_walk_follow:
  assumes "create_walk st path pos cur lst = Some (dir, lst')" "length lst = 32"
    and "rest path pos \<noteq> []" "last (rest path pos) \<noteq> SLASH"
    and "last (comps (rest path pos)) \<notin> {str ''.'', str ''..''}"
  shows "\<exists>pre nm. comps (rest path pos) = pre @ [nm] \<and> follow st cur pre = Some dir \<and> cstr lst' = nm"
  using assms
proof (induction st path pos cur lst rule: create_walk.induct)
  case (1 st path pos cur lst)
  have "path_next path pos \<noteq> None"
    using comps_nonempty "1.prems"(3,4) by (simp add: path_next_None_iff)
  then obtain nm p where n: "path_next path pos = Some (nm, p)" by auto
  note g = path_next_name [OF n] and c = path_next_rest [OF n]
  define lst1 where "lst1 = s_copy lst nm 32"
  have l1: "length lst1 = 32" "cstr lst1 = nm"
    using g "1.prems"(2) by (auto simp: lst1_def cstr_id)
  obtain ys where ys: "rest path pos = ys @ rest path p" using path_next_suffix [OF n] by blast
  have lastp: "last (rest path p) \<noteq> SLASH" if "rest path p \<noteq> []"
    using that "1.prems"(4) ys by simp
  have go: ?case if f: "follow st cur [nm] = Some nxt" and ne: "rest path p \<noteq> []"
      and w: "create_walk st path p nxt lst1 = Some (dir, lst')"
      and IH: "\<lbrakk>create_walk st path p nxt lst1 = Some (dir, lst'); length lst1 = 32;
        rest path p \<noteq> []; last (rest path p) \<noteq> SLASH;
        last (comps (rest path p)) \<notin> {str ''.'', str ''..''}\<rbrakk> \<Longrightarrow>
        \<exists>pre nm. comps (rest path p) = pre @ [nm] \<and> follow st nxt pre = Some dir \<and> cstr lst' = nm" for nxt
  proof -
    have "last (comps (rest path p)) \<notin> {str ''.'', str ''..''}"
      using "1.prems"(5) c comps_nonempty [OF ne lastp [OF ne]] by simp
    then obtain pre nm' where "comps (rest path p) = pre @ [nm']" "follow st nxt pre = Some dir"
        "cstr lst' = nm'"
      using IH [OF w l1(1) ne lastp [OF ne]] by blast
    then have "comps (rest path pos) = (nm # pre) @ [nm'] \<and> follow st cur (nm # pre) = Some dir
        \<and> cstr lst' = nm'"
      using c f follow_append [of st cur "[nm]" pre] by simp
    then show ?thesis by blast
  qed
  have np: "rest path p \<noteq> []" if "nm \<in> {str ''.'', str ''..''}"
  proof
    assume "rest path p = []"
    then have "comps (rest path pos) = [nm]" using c by (simp add: comps_Nil)
    then show False using that "1.prems"(5) by simp
  qed
  note IH = "1.IH" [OF n refl lst1_def]
  have se: "s_eq nm (str ''.'') \<longleftrightarrow> nm = str ''.''" "s_eq nm (str ''..'') \<longleftrightarrow> nm = str ''..''"
    using g by (simp_all add: s_eq_name)
  from "1.prems"(1) n consider
      (dot) "nm = str ''.''" "create_walk st path p cur lst1 = Some (dir, lst')"
    | (dots) "nm \<noteq> str ''.''" "nm = str ''..''"
        "create_walk st path p (e_parent (ent st cur)) lst1 = Some (dir, lst')"
    | (stop) "rd path p = 0" "dir = cur" "lst' = lst1"
    | (down) child where "nm \<noteq> str ''.''" "nm \<noteq> str ''..''" "rd path p \<noteq> 0"
        "sfs_find_child st cur nm = Some child" "e_type (ent st child) = SFS_TYPE_DIR"
        "create_walk st path p child lst1 = Some (dir, lst')"
    by (auto simp: create_walk.simps [of st path pos cur lst] Let_def lst1_def se
        split: if_splits option.splits)
  then show ?case
  proof cases
    case dot
    then show ?thesis using go [OF _ np dot(2)] IH(1) se by auto
  next
    case dots
    then show ?thesis using go [OF _ np dots(3)] IH(2) se by auto
  next
    case stop
    then have "comps (rest path pos) = [nm]"
      using c by (simp add: comps_Nil rest_unfold [of path p])
    with stop l1 show ?thesis by auto
  next
    case down
    have ne: "rest path p \<noteq> []" using down(3) by (simp add: rest_unfold [of path p])
    show ?thesis
      by (rule go [OF _ ne down(6)]) (use down IH(3) se in auto)
  qed
qed

text \<open>A new node changes no lookup that succeeded before.\<close>

lemma find_child_add:
  assumes t: "fs_tree st" and i: "idx < 64" "\<not> live st idx"
    and t': "fs_tree (upd_ent st idx (new_entry cur lst ty perm))"
    and c: "sfs_find_child st p nm = Some c"
  shows "sfs_find_child (upd_ent st idx (new_entry cur lst ty perm)) p nm = Some c"
  using find_child_SomeD [OF c] i
  by (auto simp: find_child_iff [OF t'] ent_add [OF t i(1)] node_name_add [OF t i(1)])

lemma follow_add:
  assumes t: "fs_tree st" and i: "idx < 64" "\<not> live st idx"
    and t': "fs_tree (upd_ent st idx (new_entry dir lst ty perm))"
  shows "\<lbrakk>live st cur; follow st cur nms = Some r\<rbrakk> \<Longrightarrow>
    follow (upd_ent st idx (new_entry dir lst ty perm)) cur nms = Some r"
proof (induction nms arbitrary: cur)
  case Nil
  then show ?case by simp
next
  case (Cons nm nms)
  have "cur \<noteq> idx" using Cons.prems(1) i(2) by blast
  then have e: "ent (upd_ent st idx (new_entry dir lst ty perm)) cur = ent st cur"
    by (simp add: ent_add [OF t i(1)])
  have "live st (e_parent (ent st cur))"
    using fs_tree_parent [OF t Cons.prems(1)] by (rule is_dir_live)
  then show ?case
    using Cons e find_child_add [OF t i t']
    by (auto split: if_splits option.splits dest: find_child_SomeD)
qed

theorem sfs_create_resolves:
  assumes t: "fs_tree st" and c: "is_dir st cwd" and pl: "plain_path path"
    and s: "sfs_create dev st path cwd ty perm = (Some idx, st')"
  shows "sfs_resolve st path cwd = None \<and> \<not> live st idx
    \<and> sfs_resolve st' path cwd = Some idx
    \<and> live st' idx \<and> e_type (ent st' idx) = ty \<and> e_perm (ent st' idx) = perm \<and> e_size (ent st' idx) = 0
    \<and> (\<forall>j. j \<noteq> idx \<longrightarrow> ent st' j = ent st j)"
  using s
proof (cases rule: sfs_create_cases)
  case refused
  then show ?thesis by simp
next
  case (made cur lst idx' d)
  let ?st = "upd_ent st idx (new_entry cur lst ty perm)"
  have idx: "idx' = idx" using made(6) by simp
  have free: "unat idx < 64" "idx < 64" "\<not> live st idx"
    using find_free_SomeD [OF made(4)] idx by auto
  have tree': "fs_tree ?st" using sfs_create_tree [OF t c s] made(5) idx by simp
  have w: "live st (walk_start st path cwd)" using walk_start_dir [OF t c] by (rule is_dir_live)
  obtain pre nm where pn: "comps (cstr path) = pre @ [nm]" "cstr lst = nm"
      "follow st (walk_start st path cwd) pre = Some cur"
    using create_walk_follow [OF made(1)] pl by (auto simp: plain_path_def rest_def)
  have nm: "nm \<noteq> str ''.''" "nm \<noteq> str ''..''" using pl pn by (auto simp: plain_path_def)
  have g: "0 \<notin> set nm" using comps_names [of "cstr path" nm] pn(1) cstr_nonzero by fastforce
  have fc: "sfs_find_child st cur nm = sfs_find_child st cur lst"
    using pn(2) by (auto simp: sfs_find_child_def s_eq_iff)
  have old: "sfs_resolve st path cwd = None"
    using pn nm made(3) fc by (simp add: sfs_resolve_follow follow_append)
  have "length (cstr lst) \<le> 31"
    using comps_names [of "cstr path" nm] pn cstr_nonzero by fastforce
  then have "node_name ?st idx = nm" using pn(2) by (simp add: node_name_add [OF t free(2)])
  then have "sfs_find_child ?st cur nm = Some idx"
    using g by (simp add: find_child_iff [OF tree'] ent_add [OF t free(2)] cstr_id)
  then have "follow ?st (walk_start st path cwd) (pre @ [nm]) = Some idx"
    using follow_add [OF t free(2,3) tree' w pn(3)] nm by (simp add: follow_append)
  then have "sfs_resolve st' path cwd = Some idx"
    using pn(1) by (simp add: made(5) idx sfs_resolve_follow)
  with old free show ?thesis
    by (simp add: made(5) idx ent_add [OF t free(2)])
qed

text \<open>
  A name made of dots is never looked up as a child, so a node that got one is out of reach:
  no path leads to it.
\<close>

lemma follow_not_dot:
  assumes t: "fs_tree st" and n: "node_name st x \<in> {str ''.'', str ''..''}"
    and leaf: "\<And>j. live st j \<Longrightarrow> e_parent (ent st j) \<noteq> x"
  shows "\<lbrakk>live st cur; cur \<noteq> x; \<forall>nm \<in> set nms. 0 \<notin> set nm; follow st cur nms = Some r\<rbrakk> \<Longrightarrow> r \<noteq> x"
proof (induction nms arbitrary: cur)
  case Nil
  then show ?case by simp
next
  case (Cons nm nms)
  have p: "live st (e_parent (ent st cur))" "e_parent (ent st cur) \<noteq> x"
    using fs_tree_parent [OF t Cons.prems(1)] leaf [OF Cons.prems(1)] by (auto simp: is_dir_def)
  consider "nm = str ''.''" | "nm \<noteq> str ''.''" "nm = str ''..''"
    | c where "nm \<noteq> str ''.''" "nm \<noteq> str ''..''" "sfs_find_child st cur nm = Some c" "follow st c nms = Some r"
    using Cons.prems(4) by (auto split: if_splits option.splits)
  then show ?case
  proof cases
    case 3
    have "node_name st c = nm" "live st c"
      using find_child_SomeD [OF 3(3)] Cons.prems(3) by (auto simp: cstr_id)
    then have "c \<noteq> x" using n 3 by auto
    then show ?thesis using Cons.IH [OF \<open>live st c\<close> _ _ 3(4)] Cons.prems(3) by simp
  qed (use Cons p in auto)
qed

theorem sfs_create_dot_unreachable:
  assumes t: "fs_tree st" and c: "is_dir st cwd" and path: "cstr path \<in> {str ''.'', str ''..''}"
    and s: "sfs_create dev st path cwd ty perm = (Some idx, st')"
  shows "live st' idx \<and> (\<forall>p. sfs_resolve st' p cwd \<noteq> Some idx)"
  using s
proof (cases rule: sfs_create_cases)
  case refused
  then show ?thesis by simp
next
  case (made cur lst idx' d)
  let ?st = "upd_ent st idx (new_entry cur lst ty perm)"
  have idx: "idx' = idx" using made(6) by simp
  have free: "idx < 64" "\<not> live st idx" using find_free_SomeD [OF made(4)] idx by auto
  have tree': "fs_tree ?st" using sfs_create_tree [OF t c s] made(5) idx by simp
  have cm: "comps (cstr path) = [cstr path]"
    using path by (auto simp: str_def comps_Cons comps_Nil)
  have pn: "path_next path 0 \<noteq> None"
    using cm by (simp add: path_next_None_iff rest_def)
  then obtain nm p where n: "path_next path 0 = Some (nm, p)" by auto
  then have nm: "nm = cstr path" "comps (rest path p) = []"
    using path_next_rest [OF n] cm by (auto simp: rest_def)
  have "path_next path p = None" using nm by (simp add: path_next_None_iff)
  then have "lst = s_copy (replicate 32 0) nm 32"
    using made(1) n nm path path_next_name [OF n]
    by (auto simp: create_walk.simps [of st path 0] create_walk.simps [of st path p] Let_def
        s_eq_name split: if_splits)
  then have "cstr lst = nm" using path nm(1) by (auto simp: str_def)
  then have nn: "node_name ?st idx \<in> {str ''.'', str ''..''}"
    using path nm(1) by (auto simp: node_name_add [OF t free(1)] str_def)
  have curdir: "is_dir st cur"
    using create_walk_dir [OF t walk_start_dir [OF t c] _ made(1)] by simp
  have leaf: "e_parent (ent ?st j) \<noteq> idx" if "live ?st j" for j
    using that curdir free(2) fs_tree_parent [OF t, of j]
    by (auto simp: ent_add [OF t free(1)] is_dir_def split: if_splits)
  have lv: "live ?st j" if "live st j" for j using that by (simp add: ent_add [OF t free(1)])
  have "sfs_resolve ?st q cwd \<noteq> Some idx" for q
  proof
    assume "sfs_resolve ?st q cwd = Some idx"
    then have f: "follow ?st (walk_start ?st q cwd) (comps (cstr q)) = Some idx"
      by (simp add: sfs_resolve_follow)
    have w: "walk_start ?st q cwd = walk_start st q cwd" by simp
    have l: "live st (walk_start st q cwd)" using walk_start_dir [OF t c] by (rule is_dir_live)
    then have "walk_start st q cwd \<noteq> idx" using free(2) by blast
    moreover have "\<forall>nm \<in> set (comps (cstr q)). 0 \<notin> set nm"
      using comps_names [of "cstr q"] cstr_nonzero by blast
    ultimately show False
      using follow_not_dot [OF tree' nn leaf lv [OF l]] f w by auto
  qed
  then show ?thesis
    by (simp add: made(5) idx ent_add [OF t free(1)])
qed


lemma follow_remove:
  assumes t: "fs_tree st" and t': "fs_tree (upd_ent st node (\<lambda>_. zero_entry))" and i: "node < 64"
    and leaf: "\<And>j. live st j \<Longrightarrow> e_parent (ent st j) \<noteq> node"
  shows "\<lbrakk>live st cur; cur \<noteq> node; follow (upd_ent st node (\<lambda>_. zero_entry)) cur nms = Some r\<rbrakk> \<Longrightarrow>
    follow st cur nms = Some r \<and> live (upd_ent st node (\<lambda>_. zero_entry)) r"
proof (induction nms arbitrary: cur)
  case Nil
  then show ?case by (simp add: ent_add [OF t i])
next
  case (Cons nm nms)
  let ?st = "upd_ent st node (\<lambda>_. zero_entry)"
  have e: "ent ?st cur = ent st cur" using Cons.prems(2) by (simp add: ent_add [OF t i])
  have p: "live st (e_parent (ent st cur))" "e_parent (ent st cur) \<noteq> node"
    using fs_tree_parent [OF t Cons.prems(1)] leaf [OF Cons.prems(1)] by (auto simp: is_dir_def)
  have fc: "sfs_find_child st cur nm = Some c \<and> live st c \<and> c \<noteq> node"
    if "sfs_find_child ?st cur nm = Some c" for c
    using find_child_SomeD [OF that]
    by (auto simp: find_child_iff [OF t] ent_add [OF t i] node_name_def split: if_splits)
  show ?case
    using Cons.IH [OF p] Cons.IH [OF Cons.prems(1,2)] Cons.IH fc Cons.prems(3) e
    by (auto split: if_splits option.splits)
qed

theorem sfs_remove_gone:
  assumes t: "fs_tree st" and c: "is_dir st cwd" and pl: "plain_path path"
    and node: "sfs_resolve st path cwd = Some node" "node \<noteq> cwd"
    and s: "sfs_remove dev st path cwd = (True, st')"
  shows "sfs_resolve st' path cwd = None \<and> node \<noteq> 0 \<and> \<not> live st' node
    \<and> (\<forall>j. j \<noteq> node \<longrightarrow> ent st' j = ent st j)"
  using s
proof (cases rule: sfs_remove_cases)
  case refused
  then show ?thesis by simp
next
  case (removed node' d)
  let ?st = "upd_ent st node (\<lambda>_. zero_entry)"
  have nd: "node' = node" using removed(1) node by simp
  have l: "live st node" using sfs_resolve_live [OF t is_dir_live [OF c] node(1)] .
  have i: "node < 64" using l by (simp add: live_def)
  have nz: "node \<noteq> 0" using removed(2) nd fs_tree_root(2) [OF t] by simp
  note leaf = no_children [OF t l removed(3) [unfolded nd]]
  have t': "fs_tree ?st" using sfs_remove_tree [OF t is_dir_live [OF c] s] removed(4) nd by simp
  let ?w = "walk_start st path cwd"
  have w: "live st ?w" "?w \<noteq> node"
    using walk_start_dir [OF t c] nz node(2) fs_tree_root(2) [OF t]
    by (auto simp: walk_start_def is_dir_def)
  obtain pre nm where pn: "comps (cstr path) = pre @ [nm]"
    using comps_nonempty pl by (metis plain_path_def append_butlast_last_id)
  then have nm: "nm \<noteq> str ''.''" "nm \<noteq> str ''..''" using pl by (auto simp: plain_path_def)
  have "follow ?st ?w (pre @ [nm]) = None"
  proof (rule ccontr)
    assume "follow ?st ?w (pre @ [nm]) \<noteq> None"
    then obtain r where r: "follow ?st ?w (pre @ [nm]) = Some r" by auto
    have "follow st ?w (pre @ [nm]) = Some r \<and> live ?st r"
      by (rule follow_remove [OF t t' i leaf w r])
    moreover have "follow st ?w (pre @ [nm]) = Some node"
      using node(1) pn by (simp add: sfs_resolve_follow)
    ultimately show False by (auto simp: ent_add [OF t i])
  qed
  then show ?thesis
    using nz pn by (simp add: removed(4) nd sfs_resolve_follow ent_add [OF t i])
qed

text \<open>The root and a directory with children are never removed.\<close>

theorem sfs_remove_refuses:
  assumes t: "fs_tree st" and r: "sfs_resolve st path cwd = Some node"
    and k: "node = 0 \<or> (live st j \<and> e_parent (ent st j) = node \<and> e_type (ent st node) = SFS_TYPE_DIR)"
  shows "sfs_remove dev st path cwd = (False, st)"
proof (cases "node = 0")
  case True
  with r t show ?thesis by (simp add: sfs_remove_def fs_tree_root)
next
  case False
  with k have j: "live st j" "e_parent (ent st j) = node" "e_type (ent st node) = SFS_TYPE_DIR" by auto
  have "for_find (\<lambda>i. e_used (g_entries st ! i) \<noteq> 0 \<and> e_parent (g_entries st ! i) = node) 0 64 \<noteq> None"
    using live_less [OF j(1)] j by (auto simp: for_find_None_iff live_def ent_def)
  with r j(3) show ?thesis by (simp add: sfs_remove_def)
qed

section \<open>Formatting\<close>

text \<open>A disk without a valid superblock is formatted to a tree with the root alone.\<close>

lemma ent_entries [simp]: "ent (st\<lparr>g_entries := es\<rparr>) i = es ! unat i"
  by (simp add: ent_def)

lemma find_free_format:
  "sfs_find_free_entry (st\<lparr>g_super := s, g_entries := replicate 64 zero_entry\<rparr>) = Some 0"
proof -
  have "for_find (\<lambda>i. e_used (replicate 64 zero_entry ! i) = 0) 0 64 = Some 0"
    by (simp add: for_find_Some_iff)
  then show ?thesis by (simp add: sfs_find_free_entry_def)
qed

theorem sfs_init_format:
  assumes s: "sfs_init dev st = (ok, st')"
    and l: "sfs_load dev st = (ld, st1)"
    and bad: "\<not> ld \<or> sb_magic (g_super st1) \<noteq> SFS_MAGIC \<or> sb_version (g_super st1) \<noteq> SFS_VERSION"
  shows "fs_tree st' \<and> (\<forall>i. live st' i \<longleftrightarrow> i = 0) \<and> sb_next_free_lba (g_super st') = SFS_DATA_LBA
    \<and> e_start_lba (ent st' 0) = 0 \<and> e_size (ent st' 0) = 0"
proof -
  let ?s = "zero_super\<lparr>sb_magic := SFS_MAGIC, sb_version := SFS_VERSION, sb_total_sectors := 65536,
    sb_max_entries := of_nat SFS_MAX_ENTRIES, sb_next_free_lba := SFS_DATA_LBA, sb_root_id := 0\<rparr>"
  let ?st2 = "st1\<lparr>g_super := ?s, g_entries := replicate 64 zero_entry\<rparr>"
  let ?root = "\<lambda>e. e\<lparr>e_used := 1, e_type := SFS_TYPE_DIR,
    e_perm := SFS_PERM_READ OR SFS_PERM_WRITE OR SFS_PERM_EXEC, e_parent := 0, e_start_lba := 0,
    e_size := 0, e_capacity_sectors := 0, e_name := s_copy (e_name e) (str ''/'') 32\<rparr>"
  have "sfs_flush dev (upd_ent ?st2 0 ?root) = (ok, st')"
    using s l bad by (simp add: sfs_init_def find_free_format)
  then obtain d where st': "st' = (upd_ent ?st2 0 ?root)\<lparr>disk := d\<rparr>"
    using sfs_flush_state by blast
  let ?st = "upd_ent ?st2 0 ?root"
  have ze: "ent ?st2 i = zero_entry" if "unat i < 64" for i
    using that by (simp add: ent_def)
  have e: "ent ?st i = (if i = 0 then ?root zero_entry else zero_entry)" if "i < 64" for i
  proof -
    have "ent ?st i = (if 0 = i then ?root (ent ?st2 0) else ent ?st2 i)"
      by (rule ent_upd_ent) simp
    with that ze show ?thesis by (auto simp: word_less_nat_alt)
  qed
  have lv: "live ?st i \<longleftrightarrow> i = 0" for i
    unfolding live_def using e [of i] by (auto simp del: ent_upd_ent split: if_splits)
  have nm: "node_name ?st 0 = [SLASH]"
    using e [of 0] by (simp add: node_name_def str_def del: ent_upd_ent)
  have lay: "layout_ok ?st"
    by (intro layout_upd_ent) (auto simp: layout_ok_def zero_super_def ze)
  have "fs_tree ?st"
    unfolding fs_tree_def lv is_dir_def
    using lay nm e [of 0] by (auto simp del: ent_upd_ent)
  with lv e [of 0] show ?thesis by (simp add: st' del: ent_upd_ent)
qed

section \<open>Listing a directory\<close>

definition children :: "'d sfs_state \<Rightarrow> u32 \<Rightarrow> nat \<Rightarrow> u32 list" where
  "children st dir i = filter (\<lambda>k. live st k \<and> e_parent (ent st k) = dir \<and> k \<noteq> dir)
     (map of_nat [i..<SFS_MAX_ENTRIES])"

lemma list_loop_spec:
  "\<lbrakk>count \<le> mx; mx \<le> length out; list_loop st dir mx i count out = (n, out')\<rbrakk> \<Longrightarrow>
     n = count + length (take (mx - count) (children st dir i)) \<and> length out' = length out
     \<and> map ni_id (take n out') = map ni_id (take count out) @ take (mx - count) (children st dir i)"
proof (induction st dir mx i count out arbitrary: n out' rule: list_loop.induct)
  case (1 st dir mx i count out)
  show ?case
  proof (cases "i < SFS_MAX_ENTRIES \<and> count < mx")
    case False
    then have "take (mx - count) (children st dir i) = []" "n = count" "out' = out"
      using "1.prems" by (auto simp: children_def list_loop.simps [of st dir mx i count out])
    then show ?thesis by (cases "mx \<le> count") auto
  next
    case True
    let ?kid = "e_used (g_entries st ! i) \<noteq> 0 \<and> e_parent (g_entries st ! i) = dir \<and> of_nat i \<noteq> dir"
    have up: "[i..<64] = i # [Suc i..<64]" using True by (simp add: upt_conv_Cons)
    have live: "live st (of_nat i) \<longleftrightarrow> e_used (g_entries st ! i) \<noteq> 0" using True by (simp add: live_of_nat)
    have en: "ent st (of_nat i) = g_entries st ! i" using True by (simp add: ent_def unat_of_nat_64)
    have ch: "children st dir i = (if ?kid then [of_nat i] else []) @ children st dir (Suc i)"
      unfolding children_def up using live en by simp
    show ?thesis
    proof (cases ?kid)
      case False
      then have "list_loop st dir mx (Suc i) count out = (n, out')"
        using True "1.prems"(3) by (auto simp: list_loop.simps [of st dir mx i count out])
      with "1.IH"(2) [OF True False] "1.prems" False ch show ?thesis by auto
    next
      case kid: True
      define info where "info = the (sfs_stat st (of_nat i) (out ! count))"
      have st: "sfs_stat st (of_nat i) (out ! count) = Some info" "ni_id info = of_nat i"
        using kid True en by (auto simp: info_def sfs_stat_def of_nat_less_64 Let_def)
      have "list_loop st dir mx (Suc i) (Suc count) (out[count := info]) = (n, out')"
        using True kid "1.prems"(3) st by (simp add: list_loop.simps [of st dir mx i count out])
      from "1.IH"(1) [OF True kid, unfolded st option.case, OF _ _ this] "1.prems" True
      have "n = Suc count + length (take (mx - Suc count) (children st dir (Suc i)))"
        "length out' = length out"
        "map ni_id (take n out') = map ni_id (take (Suc count) (out[count := info]))
           @ take (mx - Suc count) (children st dir (Suc i))" by auto
      moreover have "mx - count = Suc (mx - Suc count)" using True by linarith
      ultimately show ?thesis
        using ch kid True "1.prems"(2) st by (simp add: take_Suc_conv_app_nth)
    qed
  qed
qed

theorem sfs_list_spec:
  assumes "is_dir st dir" "mx \<le> length out" "sfs_list st dir out mx = (n, out')"
  shows "n = min mx (length (children st dir 0)) \<and> map ni_id (take n out') = take mx (children st dir 0)"
  using assms list_loop_spec [of 0 mx out st dir 0 n out']
  by (auto simp: sfs_list_def is_dir_def live_def min_def)

end
