(* ===== verification/Simple_FS_Disk.thy ===== *)
theory Simple_FS_Disk
  imports Simple_FS_Tree
begin

text \<open>
  Persistence of the SimpleFS metadata: the packed on-disk layout can be read back, a
  successful \<^verbatim>\<open>sfs_flush\<close> followed by a mount gives the same superblock and the
  same table, and a flush touches the nine metadata sectors only.
\<close>

section \<open>The packed layouts\<close>

lemma length_entry_bytes:
  "length (e_name e) = 32 \<Longrightarrow> length (e_reserved1 e) = 12 \<Longrightarrow> length (entry_bytes e) = 64"
  by (simp add: entry_bytes_def)

lemma length_super_bytes: "length (sb_reserved s) = 488 \<Longrightarrow> length (super_bytes s) = 512"
  by (simp add: super_bytes_def)

lemma le_u32_exact [simp]: "le_u32 (u32_le w) = w"
  using le_u32_u32_le [of w "[]"] by simp

theorem entry_round_trip:
  "length (e_name e) = 32 \<Longrightarrow> length (e_reserved1 e) = 12 \<Longrightarrow> entry_of_bytes (entry_bytes e) = e"
  by (simp add: entry_of_bytes_def entry_bytes_def numeral_2_eq_2 numeral_3_eq_3)

theorem super_round_trip:
  "length (sb_reserved s) = 488 \<Longrightarrow> super_of_bytes (super_bytes s) = s"
  by (simp add: super_of_bytes_def super_bytes_def)

definition entries_ok :: "sfs_entry list \<Rightarrow> bool" where
  "entries_ok es \<longleftrightarrow> (\<forall>e \<in> set es. length (e_name e) = 32 \<and> length (e_reserved1 e) = 12)"

lemma length_table_bytes: "entries_ok es \<Longrightarrow> length (table_bytes es) = 64 * length es"
  by (induction es) (auto simp: table_bytes_def entries_ok_def length_entry_bytes)

lemma table_bytes_append: "table_bytes (es @ fs) = table_bytes es @ table_bytes fs"
  by (simp add: table_bytes_def)

lemma entries_of_table_bytes:
  "entries_ok es \<Longrightarrow> entries_of_bytes (length es) (table_bytes es @ b) = es"
  by (induction es) (auto simp: table_bytes_def entries_ok_def length_entry_bytes entry_round_trip)

text \<open>Sector \<open>k\<close> of the byte image holds the entries \<open>8 k .. 8 k + 7\<close>.\<close>

lemma table_sector:
  assumes "entries_ok es" "length es = 64" "k < 8"
  shows "entries_of_bytes 8 (take 512 (drop (k * 512) (table_bytes es))) = take 8 (drop (8 * k) es)"
    and "length (take 512 (drop (k * 512) (table_bytes es))) = 512"
proof -
  let ?a = "take (8 * k) es" and ?b = "take 8 (drop (8 * k) es)" and ?c = "drop (8 * k + 8) es"
  have es: "es = ?a @ ?b @ ?c"
    by (metis append_take_drop_id drop_drop add.commute)
  have ok: "entries_ok ?a" "entries_ok ?b"
    using assms(1) by (auto simp: entries_ok_def dest: in_set_takeD in_set_dropD)
  have len: "length (table_bytes ?a) = k * 512" "length (table_bytes ?b) = 512" "length ?b = 8"
    using ok assms(2,3) by (simp_all add: length_table_bytes)
  have tb: "table_bytes es = table_bytes ?a @ table_bytes ?b @ table_bytes ?c"
    by (subst es) (simp only: table_bytes_append)
  have "take 512 (drop (k * 512) (table_bytes es)) = table_bytes ?b"
    unfolding tb using len by simp
  with entries_of_table_bytes [OF ok(2), of "[]"] len
  show "entries_of_bytes 8 (take 512 (drop (k * 512) (table_bytes es))) = ?b"
    "length (take 512 (drop (k * 512) (table_bytes es))) = 512" by simp_all
qed

lemma length_entries_of_bytes [simp]: "length (entries_of_bytes n b) = n"
  by (induction n arbitrary: b) auto

lemma of_nat_u32_eq_iff:
  "i < 2 ^ 32 \<Longrightarrow> k < 2 ^ 32 \<Longrightarrow> (of_nat i :: u32) = of_nat k \<longleftrightarrow> i = k"
  by (simp add: word_of_nat_eq_iff take_bit_nat_eq_self)

lemma table_lba_inj: "i < 8 \<Longrightarrow> k < 8 \<Longrightarrow> (129 + of_nat i :: u32) = 129 + of_nat k \<longleftrightarrow> i = k"
  by (simp add: of_nat_u32_eq_iff)

lemma unat_table_lba: "k < 8 \<Longrightarrow> unat (129 + of_nat k :: u32) = 129 + k"
  by (simp add: unat_word_ariths unat_of_nat)

section \<open>Flush and mount\<close>

text \<open>The file system over a block device that keeps the sector contract.\<close>

locale sfs_client = sector_store "blockdev_read dev" "blockdev_write dev" sec
  for dev :: "'d block_device" and sec :: "'d \<Rightarrow> u32 \<Rightarrow> u8 list"
begin

lemma flush_table_spec:
  assumes "sfs_flush_table dev tbl i d = (True, d')" "i \<le> 8" "length tbl = 4096"
  shows "(\<forall>k. i \<le> k \<and> k < 8 \<longrightarrow> sec d' (129 + of_nat k) = take 512 (drop (k * 512) tbl))
    \<and> (\<forall>l. (\<forall>k. i \<le> k \<and> k < 8 \<longrightarrow> l \<noteq> 129 + of_nat k) \<longrightarrow> sec d' l = sec d l)"
  using assms
proof (induction "8 - i" arbitrary: i d)
  case 0
  then have "i = 8" by simp
  with 0 show ?case by (auto simp: sfs_flush_table.simps [of dev tbl 8 d])
next
  case (Suc n)
  then have i: "i < 8" by simp
  let ?s = "take 512 (drop (i * 512) tbl)"
  obtain d1 where w: "blockdev_write dev (129 + of_nat i) ?s d = (True, d1)"
      and f: "sfs_flush_table dev tbl (Suc i) d1 = (True, d')"
    using Suc.prems(1) i
    by (auto simp: sfs_flush_table.simps [of dev tbl i d] Let_def split: prod.splits bool.splits)
  have sec1: "sec d1 = (sec d)(129 + of_nat i := ?s)"
    using wr_sec_ok [OF w] i Suc.prems(3) by simp
  have IH: "\<forall>k. Suc i \<le> k \<and> k < 8 \<longrightarrow> sec d' (129 + of_nat k) = take 512 (drop (k * 512) tbl)"
    "\<And>l. \<forall>k. Suc i \<le> k \<and> k < 8 \<longrightarrow> l \<noteq> 129 + of_nat k \<Longrightarrow> sec d' l = sec d1 l"
    using Suc.hyps(1) [of "Suc i" d1] Suc.hyps(2) f i Suc.prems(3) by auto
  have here: "sec d' (129 + of_nat i) = ?s"
    using IH(2) [of "129 + of_nat i"] sec1 i by (auto simp: of_nat_u32_eq_iff)
  show ?case
  proof (intro conjI allI impI)
    fix k assume "i \<le> k \<and> k < 8"
    then show "sec d' (129 + of_nat k) = take 512 (drop (k * 512) tbl)"
      using here IH(1) by (cases "k = i") auto
  next
    fix l :: u32 assume l: "\<forall>k. i \<le> k \<and> k < 8 \<longrightarrow> l \<noteq> 129 + of_nat k"
    then have "sec d' l = sec d1 l" by (intro IH(2)) auto
    with l i sec1 show "sec d' l = sec d l" by auto
  qed
qed

lemma flush_spec:
  assumes f: "sfs_flush dev st = (True, st')" and l: "layout_ok st"
  shows "sec (disk st') 128 = super_bytes (g_super st)"
    and "\<And>k. k < 8 \<Longrightarrow> sec (disk st') (129 + of_nat k) = take 512 (drop (k * 512) (table_bytes (g_entries st)))"
    and "\<And>l. 137 \<le> l \<Longrightarrow> sec (disk st') l = sec (disk st) l"
    and "st' = st\<lparr>disk := disk st'\<rparr>"
proof -
  have ok: "entries_ok (g_entries st)" "length (g_entries st) = 64" "length (sb_reserved (g_super st)) = 488"
    using l by (auto simp: layout_ok_def entries_ok_def)
  obtain d1 where w: "blockdev_write dev 128 (super_bytes (g_super st)) (disk st) = (True, d1)"
      and t: "sfs_flush_table dev (table_bytes (g_entries st)) 0 d1 = (True, disk st')"
      and st': "st' = st\<lparr>disk := disk st'\<rparr>"
    using f by (auto simp: sfs_flush_def split: prod.splits bool.splits)
  have s1: "sec d1 = (sec (disk st))(128 := super_bytes (g_super st))"
    using wr_sec_ok [OF w] ok(3) by (simp add: length_super_bytes)
  have T: "\<forall>k. k < 8 \<longrightarrow> sec (disk st') (129 + of_nat k) = take 512 (drop (k * 512) (table_bytes (g_entries st)))"
    "\<And>l. \<forall>k. k < 8 \<longrightarrow> l \<noteq> 129 + of_nat k \<Longrightarrow> sec (disk st') l = sec d1 l"
    using flush_table_spec [OF t] ok by (auto simp: length_table_bytes)
  have nt: "l \<noteq> 129 + of_nat k" if "137 \<le> l \<or> l = 128" "k < 8" for l :: u32 and k
  proof
    assume "l = 129 + of_nat k"
    then have "unat l = 129 + k" using unat_table_lba [OF that(2)] by simp
    with that show False by (auto simp: word_le_nat_alt)
  qed
  show "sec (disk st') 128 = super_bytes (g_super st)"
    using T(2) [of 128] nt [of 128] s1 by simp
  show "sec (disk st') l = sec (disk st) l" if "137 \<le> l" for l
  proof -
    have "l \<noteq> 128" using that by auto
    with T(2) [of l] nt [of l] s1 that show ?thesis by simp
  qed
  show "sec (disk st') (129 + of_nat k) = take 512 (drop (k * 512) (table_bytes (g_entries st)))"
    if "k < 8" for k using T(1) that by blast
  show "st' = st\<lparr>disk := disk st'\<rparr>" by (rule st')
qed

lemma load_table_spec:
  assumes "sfs_load_table dev i st = (True, st')" "i \<le> 8" "length (g_entries st) = 64"
    and "entries_ok es" "length es = 64" "take (8 * i) (g_entries st) = take (8 * i) es"
    and "\<And>k. k < 8 \<Longrightarrow> sec (disk st) (129 + of_nat k) = take 512 (drop (k * 512) (table_bytes es))"
  shows "g_entries st' = es \<and> g_super st' = g_super st \<and> sec (disk st') = sec (disk st)"
  using assms
proof (induction "8 - i" arbitrary: i st)
  case 0
  then have "i = 8" by simp
  with 0 show ?case by (auto simp: sfs_load_table.simps [of dev 8 st])
next
  case (Suc n)
  then have i: "i < 8" by simp
  obtain s d1 where r: "blockdev_read dev (129 + of_nat i) (disk st) = (Some s, d1)"
      and f: "sfs_load_table dev (Suc i)
          (st\<lparr>disk := d1, g_entries := take (8 * i) (g_entries st) @ entries_of_bytes 8 s
             @ drop (8 * i + 8) (g_entries st)\<rparr>) = (True, st')"
    using Suc.prems(1) i
    by (auto simp: sfs_load_table.simps [of dev i st] split: prod.splits option.splits)
  have s: "s = take 512 (drop (i * 512) (table_bytes es))" "sec d1 = sec (disk st)"
    using rd_sec_SomeD [OF r] Suc.prems(7) [OF i] by auto
  have e8: "entries_of_bytes 8 s = take 8 (drop (8 * i) es)"
    unfolding s by (rule table_sector [OF Suc.prems(4,5) i])
  have "take (8 * Suc i) (take (8 * i) (g_entries st) @ entries_of_bytes 8 s @ drop (8 * i + 8) (g_entries st))
      = take (8 * Suc i) es"
    using Suc.prems(3,5,6) i e8 take_add [of "8 * i" 8 es] by (simp add: add.commute)
  then show ?case
    using Suc.hyps(1) [OF _ f] Suc.hyps(2) Suc.prems(3-5,7) i s(2) by simp
qed

text \<open>A mount that reads its nine sectors after a flush finds what was flushed.\<close>

lemma load_after_flush:
  assumes f: "sfs_flush dev st = (True, st')" and l: "layout_ok st"
    and m: "disk st0 = disk st'" "length (g_entries st0) = 64"
    and ld: "sfs_load dev st0 = (True, st1)"
  shows "g_super st1 = g_super st \<and> g_entries st1 = g_entries st"
proof -
  note F = flush_spec [OF f l]
  have ok: "entries_ok (g_entries st)" "length (g_entries st) = 64" "length (sb_reserved (g_super st)) = 488"
    using l by (auto simp: layout_ok_def entries_ok_def)
  obtain s d1 where r: "blockdev_read dev 128 (disk st0) = (Some s, d1)"
      and t: "sfs_load_table dev 0 (st0\<lparr>disk := d1, g_super := super_of_bytes s\<rparr>) = (True, st1)"
    using ld by (auto simp: sfs_load_def split: prod.splits option.splits)
  have s: "s = super_bytes (g_super st)" "sec d1 = sec (disk st')"
    using rd_sec_SomeD [OF r] F(1) m(1) by auto
  have sup: "super_of_bytes s = g_super st"
    using s ok(3) by (simp add: super_round_trip)
  show ?thesis
    using load_table_spec [OF t _ _ ok(1,2)] m(2) F(2) s(2) sup by simp
qed

lemma mount_after_flush:
  assumes f: "sfs_flush dev st = (True, st')" and l: "layout_ok st"
    and mg: "sb_magic (g_super st) = SFS_MAGIC" "sb_version (g_super st) = SFS_VERSION"
    and m: "disk st0 = disk st'" "length (g_entries st0) = 64"
    and ld: "sfs_load dev st0 = (True, st1)"
  shows "\<exists>st2. sfs_init dev st0 = (True, st2) \<and> g_super st2 = g_super st \<and> g_entries st2 = g_entries st"
  using load_after_flush [OF f l m ld] ld mg by (auto simp: sfs_init_def)

end

text \<open>The memory-backed device as a client, and the general form of the mount theorem.\<close>

interpretation ram_fs: sfs_client ram_dev ram_sec
  unfolding sfs_client_def ram_dev_def by (rule ram.layer.sector_store_axioms)

theorem sfs_mount_after_flush:
  assumes "sector_store (blockdev_read dev) (blockdev_write dev) sec"
    and "sfs_flush dev st = (True, st')" "layout_ok st"
    and "sb_magic (g_super st) = SFS_MAGIC" "sb_version (g_super st) = SFS_VERSION"
    and "disk st0 = disk st'" "length (g_entries st0) = 64"
    and "sfs_load dev st0 = (True, st1)"
  shows "\<exists>st2. sfs_init dev st0 = (True, st2) \<and> g_super st2 = g_super st \<and> g_entries st2 = g_entries st"
proof -
  have c: "sfs_client dev sec" using assms(1) by (simp add: sfs_client_def)
  show ?thesis by (rule sfs_client.mount_after_flush [OF c assms(2-)])
qed

end
