(* ===== verification/Simple_FS_Data.thy ===== *)
theory Simple_FS_Data
  imports Simple_FS_Disk
begin

text \<open>
  File data of SimpleFS: the read, write and relocation loops against the bytes of the
  medium, the extent invariant (files own disjoint runs of sectors below the allocation
  mark), and the refinement of \<^verbatim>\<open>sfs_read\<close> and \<^verbatim>\<open>sfs_write\<close> to slicing and
  splicing of a byte list.
\<close>

section \<open>Bytes of an extent\<close>

text \<open>Byte \<open>p\<close> of the run of sectors that begins at \<open>start\<close>.\<close>

definition fbyte :: "('d \<Rightarrow> u32 \<Rightarrow> u8 list) \<Rightarrow> 'd \<Rightarrow> u32 \<Rightarrow> nat \<Rightarrow> u8" where
  "fbyte sec d start p = sec d (start + of_nat (p div 512)) ! (p mod 512)"

text \<open>The number of sectors that \<open>n\<close> bytes need.\<close>

definition sectors_for :: "nat \<Rightarrow> nat" where
  "sectors_for n = (n + 511) div 512"

lemma sectors_for_less: "p < n \<Longrightarrow> p div 512 < sectors_for n"
  using div_le_mono [of "p + 512" "n + 511" 512] by (simp add: sectors_for_def)

lemma sectors_for_mono: "m \<le> n \<Longrightarrow> sectors_for m \<le> sectors_for n"
  unfolding sectors_for_def by (intro div_le_mono) simp

lemma sectors_for_bound: "n \<le> 512 * sectors_for n"
proof -
  have "512 * sectors_for n + (n + 511) mod 512 = n + 511" "(n + 511) mod 512 < 512"
    by (simp_all add: sectors_for_def)
  then show ?thesis by linarith
qed

lemma sectors_for_le: "n \<le> 512 * k \<Longrightarrow> sectors_for n \<le> k"
  using div_le_mono [of "n + 511" "512 * k + 511" 512] by (simp add: sectors_for_def)

lemma unat_sector:
  assumes "unat start + k < 65536"
  shows "unat (start + of_nat k :: u32) = unat start + k"
  using assms by (simp add: unat_word_ariths unat_of_nat)

lemma sector_less: "unat start + k < 65536 \<Longrightarrow> start + of_nat k < (65536 :: u32)"
  by (simp add: word_less_nat_alt unat_sector)

lemma sector_eq_iff:
  "unat a + i < 65536 \<Longrightarrow> unat b + j < 65536 \<Longrightarrow>
   (a + of_nat i = (b + of_nat j :: u32)) \<longleftrightarrow> unat a + i = unat b + j"
  by (metis unat_sector word_unat_eq_iff)

text \<open>The machine arithmetic of one iteration, as natural numbers.\<close>

lemma unat_abs_off:
  "\<lbrakk>copied < len; unat offset + unat len < 2 ^ 32\<rbrakk> \<Longrightarrow>
   unat (offset + copied :: u32) = unat offset + unat copied"
  by (simp add: unat_word_ariths word_less_nat_alt)

lemma lba_of_abs:
  fixes start a :: u32
  shows "start + a div 512 = start + of_nat (unat a div 512)"
proof -
  have "a div 512 = of_nat (unat (a div 512))" by simp
  also have "unat (a div 512) = unat a div 512" by (simp add: unat_div)
  finally show ?thesis by simp
qed

lemma unat_in_sector: "unat (a mod 512 :: u32) = unat a mod 512"
  by (simp add: unat_mod)

lemma unat_chunk_len:
  assumes "copied < len" "unat offset + unat len < 2 ^ 32"
  shows "unat (chunk_len offset len copied) =
    min (512 - (unat offset + unat copied) mod 512) (unat len - unat copied)"
proof -
  have m: "unat ((offset + copied) mod 512) = (unat offset + unat copied) mod 512"
    using unat_abs_off [OF assms] by (simp add: unat_in_sector)
  have "(offset + copied) mod 512 \<le> 512"
    using m by (simp add: word_le_nat_alt)
  then have c: "unat (512 - (offset + copied) mod 512) = 512 - (unat offset + unat copied) mod 512"
    using m by (simp add: unat_sub)
  have l: "unat (len - copied) = unat len - unat copied"
    using assms(1) by (simp add: unat_sub)
  show ?thesis
    using c l by (auto simp: chunk_len_def Let_def word_less_nat_alt min_def)
qed

text \<open>A chunk that stays inside its sector is a stretch of consecutive bytes of the extent.\<close>

lemma in_chunk_div_mod:
  fixes a i :: nat
  assumes "a mod 512 + i < 512"
  shows "(a + i) div 512 = a div 512" "(a + i) mod 512 = a mod 512 + i"
proof -
  have "i < 512" using assms by linarith
  then show "(a + i) div 512 = a div 512" using assms div_add1_eq [of a i 512] by simp
  show "(a + i) mod 512 = a mod 512 + i" using assms mod_add_left_eq [of a 512 i] by simp
qed

lemma chunk_bytes:
  assumes "length (sec d (start + of_nat (a div 512))) = 512" "a mod 512 + n \<le> 512"
  shows "take n (drop (a mod 512) (sec d (start + of_nat (a div 512)))) =
    map (\<lambda>i. fbyte sec d start (a + i)) [0..<n]"
proof (rule nth_equalityI)
  show "length (take n (drop (a mod 512) (sec d (start + of_nat (a div 512))))) =
    length (map (\<lambda>i. fbyte sec d start (a + i)) [0..<n])" using assms by simp
next
  fix i assume "i < length (take n (drop (a mod 512) (sec d (start + of_nat (a div 512)))))"
  then have i: "i < n" by simp
  then have "a mod 512 + i < 512" using assms(2) by linarith
  then show "take n (drop (a mod 512) (sec d (start + of_nat (a div 512)))) ! i =
    map (\<lambda>i. fbyte sec d start (a + i)) [0..<n] ! i"
    using i assms by (simp add: fbyte_def in_chunk_div_mod)
qed

text \<open>One written chunk, seen as bytes of the extent.\<close>

lemma fbyte_chunk_write:
  assumes w: "sec d1 = (sec d)(start + of_nat (a div 512) :=
        blit (sec d (start + of_nat (a div 512))) (a mod 512) src n)"
    and l: "length (sec d (start + of_nat (a div 512))) = 512"
    and n: "a mod 512 + n \<le> 512" "n \<le> length src"
    and b: "unat start + a div 512 < 65536" "unat start + p div 512 < 65536"
  shows "fbyte sec d1 start p = (if a \<le> p \<and> p < a + n then src ! (p - a) else fbyte sec d start p)"
proof (cases "p div 512 = a div 512")
  case True
  have pa: "p = 512 * (a div 512) + p mod 512" "a = 512 * (a div 512) + a mod 512"
    using True by (metis mult_div_mod_eq)+
  have i: "(a \<le> p \<and> p < a + n) \<longleftrightarrow> (a mod 512 \<le> p mod 512 \<and> p mod 512 < a mod 512 + n)"
    and m: "p - a = p mod 512 - a mod 512"
    using pa by linarith+
  show ?thesis
    using n l True by (simp add: fbyte_def w nth_blit i m)
next
  case False
  have "start + of_nat (p div 512) \<noteq> start + of_nat (a div 512)"
    using False by (subst sector_eq_iff [OF b(2,1)]) simp
  moreover have "\<not> (a \<le> p \<and> p < a + n)"
  proof
    assume "a \<le> p \<and> p < a + n"
    then have "a mod 512 + (p - a) < 512" "a + (p - a) = p" using n(1) by linarith+
    with in_chunk_div_mod(1) False show False by metis
  qed
  ultimately show ?thesis by (auto simp: fbyte_def w)
qed

section \<open>The loops over a reliable device\<close>

locale reliable_client = reliable_store "blockdev_read dev" "blockdev_write dev" sec 65536
  for dev :: "'d block_device" and sec :: "'d \<Rightarrow> u32 \<Rightarrow> u8 list"
begin

lemma read_loop_eq:
  assumes "copied \<le> len" "unat offset + unat len < 2 ^ 32"
    and "unat start + sectors_for (unat offset + unat len) \<le> 65536"
  shows "\<exists>d'. sfs_read_loop dev start offset len copied out d =
      (Some (out @ map (\<lambda>i. fbyte sec d start (unat offset + i)) [unat copied..<unat len]), d')
      \<and> sec d' = sec d"
  using assms
proof (induction "unat (len - copied)" arbitrary: copied out d rule: less_induct)
  case less
  show ?case
  proof (cases "copied < len")
    case False
    then have "copied = len" using less.prems(1) by simp
    then show ?thesis by (simp add: sfs_read_loop.simps [of dev start offset len len])
  next
    case True
    let ?a = "unat offset + unat copied"
    let ?c = "chunk_len offset len copied"
    have c: "unat ?c = min (512 - ?a mod 512) (unat len - unat copied)"
      by (rule unat_chunk_len [OF True less.prems(2)])
    have cl: "unat copied < unat len" using True by (simp add: word_less_nat_alt)
    have uc: "unat (copied + ?c) = unat copied + unat ?c"
      using c cl less.prems(2) by (simp add: unat_word_ariths)
    have "?a div 512 < sectors_for (unat offset + unat len)"
      using cl by (intro sectors_for_less) simp
    then have lba: "start + of_nat (?a div 512) < 65536"
      using less.prems(3) by (intro sector_less) linarith
    obtain d1 where r: "blockdev_read dev (start + of_nat (?a div 512)) d
        = (Some (sec d (start + of_nat (?a div 512))), d1)" and s1: "sec d1 = sec d"
      using rd_sec_eq [OF lba] by blast
    have ab: "unat (offset + copied) = ?a" by (rule unat_abs_off [OF True less.prems(2)])
    have step: "sfs_read_loop dev start offset len copied out d =
        sfs_read_loop dev start offset len (copied + ?c)
          (out @ take (unat ?c) (drop (?a mod 512) (sec d (start + of_nat (?a div 512))))) d1"
      using True r ab
      by (simp add: sfs_read_loop.simps [of dev start offset len copied] Let_def lba_of_abs unat_in_sector)
    have ck: "take (unat ?c) (drop (?a mod 512) (sec d (start + of_nat (?a div 512))))
        = map (\<lambda>i. fbyte sec d start (unat offset + i)) [unat copied..<unat copied + unat ?c]"
    proof -
      have "take (unat ?c) (drop (?a mod 512) (sec d (start + of_nat (?a div 512))))
        = map (\<lambda>i. fbyte sec d start (?a + i)) [0..<unat ?c]"
        using c sec_length by (intro chunk_bytes) auto
      also have "\<dots> = map (\<lambda>i. fbyte sec d start (unat offset + i)) (map (\<lambda>i. i + unat copied) [0..<unat ?c])"
        by (simp add: add.commute add.left_commute)
      finally show ?thesis by (simp only: map_add_upt add.commute)
    qed
    have fb: "fbyte sec d1 = fbyte sec d" using s1 by (simp add: fbyte_def fun_eq_iff)
    have le: "copied + ?c \<le> len" unfolding word_le_nat_alt uc c using cl by linarith
    have "[unat copied..<unat len] = [unat copied..<unat copied + unat ?c] @ [unat copied + unat ?c..<unat len]"
      using c cl upt_add_eq_append [of "unat copied" "unat copied + unat ?c" "unat len - (unat copied + unat ?c)"]
      by simp
    moreover have "\<exists>d'. sfs_read_loop dev start offset len (copied + ?c)
          (out @ take (unat ?c) (drop (?a mod 512) (sec d (start + of_nat (?a div 512))))) d1 =
        (Some ((out @ take (unat ?c) (drop (?a mod 512) (sec d (start + of_nat (?a div 512)))))
           @ map (\<lambda>i. fbyte sec d1 start (unat offset + i)) [unat (copied + ?c)..<unat len]), d')
        \<and> sec d' = sec d1"
      by (rule less.hyps [OF chunk_len_progress [OF True] le less.prems(2,3)])
    ultimately show ?thesis unfolding step uc ck fb s1 by simp
  qed
qed

lemma write_loop_eq:
  assumes "copied \<le> len" "unat offset + unat len < 2 ^ 32"
    and "unat start + sectors_for (unat offset + unat len) \<le> 65536" "unat len \<le> length data"
  shows "\<exists>d'. sfs_write_loop dev start offset data len copied d = (True, d')
      \<and> (\<forall>p. unat start + p div 512 < 65536 \<longrightarrow> fbyte sec d' start p =
            (if unat offset + unat copied \<le> p \<and> p < unat offset + unat len
             then data ! (p - unat offset) else fbyte sec d start p))
      \<and> (\<forall>l. unat l < unat start \<or> unat start + sectors_for (unat offset + unat len) \<le> unat l
            \<longrightarrow> sec d' l = sec d l)"
  using assms
proof (induction "unat (len - copied)" arbitrary: copied d rule: less_induct)
  case less
  show ?case
  proof (cases "copied < len")
    case False
    then have "copied = len" using less.prems(1) by simp
    then show ?thesis by (auto simp: sfs_write_loop.simps [of dev start offset data len len])
  next
    case True
    let ?a = "unat offset + unat copied"
    let ?c = "chunk_len offset len copied"
    let ?lba = "start + of_nat (?a div 512) :: u32"
    let ?new = "blit (sec d ?lba) (?a mod 512) (drop (unat copied) data) (unat ?c)"
    have c: "unat ?c = min (512 - ?a mod 512) (unat len - unat copied)"
      by (rule unat_chunk_len [OF True less.prems(2)])
    have cl: "unat copied < unat len" using True by (simp add: word_less_nat_alt)
    have uc: "unat (copied + ?c) = unat copied + unat ?c"
      using c cl less.prems(2) by (simp add: unat_word_ariths)
    have sa: "?a div 512 < sectors_for (unat offset + unat len)"
      using cl by (intro sectors_for_less) simp
    then have ab: "unat start + ?a div 512 < 65536" using less.prems(3) by linarith
    then have lba: "?lba < 65536" by (rule sector_less)
    obtain d1 where r: "blockdev_read dev ?lba d = (Some (sec d ?lba), d1)" and s1: "sec d1 = sec d"
      using rd_sec_eq [OF lba] by blast
    obtain d2 where w: "blockdev_write dev ?lba ?new d1 = (True, d2)"
        and s2: "sec d2 = (sec d)(?lba := ?new)"
      using wr_sec_eq [OF lba, of ?new d1] s1 sec_length by auto
    have o: "unat (offset + copied) = ?a" by (rule unat_abs_off [OF True less.prems(2)])
    have step: "sfs_write_loop dev start offset data len copied d =
        sfs_write_loop dev start offset data len (copied + ?c) d2"
      using True r w o
      by (simp add: sfs_write_loop.simps [of dev start offset data len copied] Let_def lba_of_abs unat_in_sector)
    have le: "copied + ?c \<le> len" unfolding word_le_nat_alt uc c using cl by linarith
    obtain d' where d': "sfs_write_loop dev start offset data len (copied + ?c) d2 = (True, d')"
      "\<forall>p. unat start + p div 512 < 65536 \<longrightarrow> fbyte sec d' start p =
            (if unat offset + unat (copied + ?c) \<le> p \<and> p < unat offset + unat len
             then data ! (p - unat offset) else fbyte sec d2 start p)"
      "\<forall>l. unat l < unat start \<or> unat start + sectors_for (unat offset + unat len) \<le> unat l
            \<longrightarrow> sec d' l = sec d2 l"
      using less.hyps [OF chunk_len_progress [OF True] le less.prems(2-4)] by blast
    have f2: "fbyte sec d2 start p = (if ?a \<le> p \<and> p < ?a + unat ?c
        then drop (unat copied) data ! (p - ?a) else fbyte sec d start p)"
      if "unat start + p div 512 < 65536" for p
      by (rule fbyte_chunk_write [OF s2 sec_length _ _ ab that])
         (use c less.prems(4) in auto)
    have dd: "drop (unat copied) data ! (p - ?a) = data ! (p - unat offset)" if "?a \<le> p" "p < ?a + unat ?c" for p
      using that c less.prems(4) by (simp add: nth_drop)
    show ?thesis
    proof (intro exI conjI allI impI)
      show "sfs_write_loop dev start offset data len copied d = (True, d')" using step d'(1) by simp
    next
      fix p assume "unat start + p div 512 < 65536"
      then have "fbyte sec d' start p = (if ?a + unat ?c \<le> p \<and> p < unat offset + unat len
             then data ! (p - unat offset) else fbyte sec d2 start p)"
        and "fbyte sec d2 start p = (if ?a \<le> p \<and> p < ?a + unat ?c
             then data ! (p - unat offset) else fbyte sec d start p)"
        using d'(2) f2 dd uc by (simp_all add: add.assoc)
      moreover have "?a + unat ?c \<le> unat offset + unat len" using le uc by (simp add: word_le_nat_alt)
      ultimately show "fbyte sec d' start p = (if ?a \<le> p \<and> p < unat offset + unat len
             then data ! (p - unat offset) else fbyte sec d start p)"
        by (cases "?a + unat ?c \<le> p") auto
    next
      fix l :: u32 assume l: "unat l < unat start \<or> unat start + sectors_for (unat offset + unat len) \<le> unat l"
      then have "l \<noteq> ?lba" using unat_sector [OF ab] sa by auto
      with d'(3) l s2 show "sec d' l = sec d l" by auto
    qed
  qed
qed

text \<open>Moving a file copies its sectors to the new place and touches nothing else.\<close>

lemma move_loop_eq:
  assumes "i \<le> cap" "unat old + cap \<le> unat new" "unat new + cap \<le> 65536"
  shows "\<exists>d'. sfs_move_loop dev old new cap i d = (True, d')
    \<and> (\<forall>k. i \<le> k \<and> k < cap \<longrightarrow> sec d' (new + of_nat k) = sec d (old + of_nat k))
    \<and> (\<forall>l. unat l < unat new + i \<or> unat new + cap \<le> unat l \<longrightarrow> sec d' l = sec d l)"
  using assms
proof (induction "cap - i" arbitrary: i d)
  case 0
  then have "i = cap" by simp
  then show ?case by (auto simp: sfs_move_loop.simps [of dev old new cap cap])
next
  case (Suc n)
  then have i: "i < cap" by simp
  have b: "unat old + i < 65536" "unat new + i < 65536" using i Suc.prems by linarith+
  obtain d1 where r: "blockdev_read dev (old + of_nat i) d = (Some (sec d (old + of_nat i)), d1)"
      and s1: "sec d1 = sec d" using rd_sec_eq [OF sector_less [OF b(1)]] by blast
  obtain d2 where w: "blockdev_write dev (new + of_nat i) (sec d (old + of_nat i)) d1 = (True, d2)"
      and s2: "sec d2 = (sec d)(new + of_nat i := sec d (old + of_nat i))"
    using wr_sec_eq [OF sector_less [OF b(2)], of "sec d (old + of_nat i)" d1] s1 sec_length by auto
  obtain d' where d': "sfs_move_loop dev old new cap (Suc i) d2 = (True, d')"
      "\<forall>k. Suc i \<le> k \<and> k < cap \<longrightarrow> sec d' (new + of_nat k) = sec d2 (old + of_nat k)"
      "\<forall>l. unat l < unat new + Suc i \<or> unat new + cap \<le> unat l \<longrightarrow> sec d' l = sec d2 l"
    using Suc.hyps(1) [OF _ _ Suc.prems(2,3), of "Suc i" d2] Suc.hyps(2) i by (metis Suc_leI diff_Suc_Suc Suc_diff_Suc diff_Suc_1)
  have ne: "old + of_nat k \<noteq> new + of_nat i" if "k < cap" for k
    using that i Suc.prems by (subst sector_eq_iff) auto
  show ?case
  proof (intro exI conjI allI impI)
    show "sfs_move_loop dev old new cap i d = (True, d')"
      using i r w d'(1) by (simp add: sfs_move_loop.simps [of dev old new cap i])
  next
    fix k assume k: "i \<le> k \<and> k < cap"
    show "sec d' (new + of_nat k) = sec d (old + of_nat k)"
    proof (cases "k = i")
      case True
      have "unat (new + of_nat i) < unat new + Suc i" using unat_sector [OF b(2)] by simp
      with d'(3) s2 True show ?thesis by simp
    next
      case False
      with k d'(2) s2 ne show ?thesis by simp
    qed
  next
    fix l :: u32 assume l: "unat l < unat new + i \<or> unat new + cap \<le> unat l"
    then have "l \<noteq> new + of_nat i" using unat_sector [OF b(2)] i by auto
    with d'(3) l s2 show "sec d' l = sec d l" by auto
  qed
qed

lemma flush_total:
  assumes l: "layout_ok st"
  shows "\<exists>st'. sfs_flush dev st = (True, st')"
proof -
  have ok: "entries_ok (g_entries st)" "length (g_entries st) = 64" "length (sb_reserved (g_super st)) = 488"
    using l by (auto simp: layout_ok_def entries_ok_def)
  have t: "\<exists>d'. sfs_flush_table dev (table_bytes (g_entries st)) i d = (True, d')" if "i \<le> 8" for i d
    using that
  proof (induction "8 - i" arbitrary: i d)
    case 0
    then show ?case by (simp add: sfs_flush_table.simps [of dev _ 8 d])
  next
    case (Suc n)
    then have i: "i < 8" by simp
    have "(129 + of_nat i :: u32) < 65536" using i unat_table_lba [OF i] by (simp add: word_less_nat_alt)
    then obtain d1 where "blockdev_write dev (129 + of_nat i)
        (take 512 (drop (i * 512) (table_bytes (g_entries st)))) d = (True, d1)"
      using wr_sec_eq table_sector(2) [OF ok(1,2) i] by blast
    with Suc i show ?case by (simp add: sfs_flush_table.simps [of dev _ i d] Let_def)
  qed
  obtain d1 where "blockdev_write dev 128 (super_bytes (g_super st)) (disk st) = (True, d1)"
    using wr_sec_eq [of 128] length_super_bytes [OF ok(3)] by auto
  with t [of 0 d1] show ?thesis by (auto simp: sfs_flush_def)
qed

end

end
