(* ===== verification/Simple_FS_Files.thy ===== *)
theory Simple_FS_Files
  imports Simple_FS_Data
begin

text \<open>
  Files as byte lists: the extent invariant, and \<^verbatim>\<open>sfs_read\<close> and
  \<^verbatim>\<open>sfs_write\<close> as slicing and splicing of the content, with every other file
  unchanged.
\<close>

section \<open>The extent invariant and file contents\<close>

definition has_extent :: "'d sfs_state \<Rightarrow> u32 \<Rightarrow> bool" where
  "has_extent st i \<longleftrightarrow> live st i \<and> e_start_lba (ent st i) \<noteq> 0"

definition ext_start :: "'d sfs_state \<Rightarrow> u32 \<Rightarrow> nat" where
  "ext_start st i = unat (e_start_lba (ent st i))"

definition ext_end :: "'d sfs_state \<Rightarrow> u32 \<Rightarrow> nat" where
  "ext_end st i = ext_start st i + unat (e_capacity_sectors (ent st i))"

definition file_size :: "'d sfs_state \<Rightarrow> u32 \<Rightarrow> nat" where
  "file_size st i = unat (e_size (ent st i))"

definition next_free :: "'d sfs_state \<Rightarrow> nat" where
  "next_free st = unat (sb_next_free_lba (g_super st))"

definition extents_ok :: "'d sfs_state \<Rightarrow> bool" where
  "extents_ok st \<longleftrightarrow> 137 \<le> next_free st \<and> next_free st \<le> 65536
     \<and> (\<forall>i. has_extent st i \<longrightarrow> 137 \<le> ext_start st i \<and> ext_end st i \<le> next_free st
              \<and> file_size st i \<le> 512 * unat (e_capacity_sectors (ent st i)))
     \<and> (\<forall>i. live st i \<and> \<not> has_extent st i \<longrightarrow> file_size st i = 0)
     \<and> (\<forall>i j. has_extent st i \<and> has_extent st j \<and> i \<noteq> j \<longrightarrow>
              ext_end st i \<le> ext_start st j \<or> ext_end st j \<le> ext_start st i)"

lemmas ext_defs = has_extent_def ext_start_def ext_end_def file_size_def next_free_def

definition content :: "('d \<Rightarrow> u32 \<Rightarrow> u8 list) \<Rightarrow> 'd sfs_state \<Rightarrow> u32 \<Rightarrow> u8 list" where
  "content sec st i = map (fbyte sec (disk st) (e_start_lba (ent st i))) [0..<file_size st i]"

lemma length_content [simp]: "length (content sec st i) = file_size st i"
  by (simp add: content_def)

lemma extentD:
  assumes "extents_ok st" "has_extent st i"
  shows "137 \<le> ext_start st i" "ext_end st i \<le> next_free st"
    "file_size st i \<le> 512 * unat (e_capacity_sectors (ent st i))" "ext_end st i \<le> 65536"
  using assms unfolding extents_ok_def by (auto intro: le_trans)

lemma is_file_live: "is_file_node st n \<Longrightarrow> live st n"
  by (simp add: is_file_node_def live_def)

lemma extent_sectors:
  assumes "extents_ok st" "live st n"
  shows "ext_start st n + sectors_for (file_size st n) \<le> 65536"
proof (cases "has_extent st n")
  case True
  have "sectors_for (file_size st n) \<le> unat (e_capacity_sectors (ent st n))"
    using extentD(3) [OF assms(1) True] by (rule sectors_for_le)
  then show ?thesis using extentD(4) [OF assms(1) True] by (simp add: ext_end_def)
next
  case False
  with assms have "file_size st n = 0" "ext_start st n = 0"
    by (auto simp: extents_ok_def has_extent_def ext_start_def)
  then show ?thesis by (simp add: sectors_for_def)
qed

text \<open>The bytes of file \<open>i\<close> depend on the sectors of its own extent only.\<close>

lemma content_cong:
  assumes "e_start_lba (ent st' i) = e_start_lba (ent st i)" "file_size st' i = file_size st i"
    and "extents_ok st" "live st i"
    and "\<And>l. has_extent st i \<Longrightarrow> ext_start st i \<le> unat l \<Longrightarrow> unat l < ext_end st i \<Longrightarrow> sec (disk st') l = sec (disk st) l"
  shows "content sec st' i = content sec st i"
proof (cases "has_extent st i")
  case False
  with assms(2-4) show ?thesis by (simp add: content_def extents_ok_def)
next
  case True
  have "fbyte sec (disk st') (e_start_lba (ent st i)) p = fbyte sec (disk st) (e_start_lba (ent st i)) p"
    if "p < file_size st i" for p
  proof -
    have "p div 512 < unat (e_capacity_sectors (ent st i))"
      using that extentD(3) [OF assms(3) True] by (intro less_mult_imp_div_less) (simp add: mult.commute)
    then have "unat (e_start_lba (ent st i) + of_nat (p div 512)) = ext_start st i + p div 512"
      and "p div 512 < unat (e_capacity_sectors (ent st i))"
      using extentD(4) [OF assms(3) True] unat_sector [of "e_start_lba (ent st i)" "p div 512"]
      by (auto simp: ext_end_def ext_start_def)
    then show ?thesis
      using assms(5) [OF True, of "e_start_lba (ent st i) + of_nat (p div 512)"]
      by (simp add: fbyte_def ext_end_def)
  qed
  with assms(1,2) show ?thesis by (simp add: content_def)
qed

section \<open>Reading\<close>

context reliable_client
begin

lemma sfs_read_eq:
  assumes ex: "extents_ok st" and n: "is_file_node st n"
    and p: "e_perm (ent st n) AND SFS_PERM_READ \<noteq> 0"
  shows "\<exists>d'. sfs_read dev st n off len
      = (Some (take (unat len) (drop (unat off) (content sec st n))), st\<lparr>disk := d'\<rparr>)
      \<and> sec d' = sec (disk st)"
proof (cases "e_size (ent st n) \<le> off")
  case True
  then have "drop (unat off) (content sec st n) = []" by (simp add: file_size_def word_le_nat_alt)
  moreover have "sfs_read dev st n off len = (Some [], st\<lparr>disk := disk st\<rparr>)"
    using True n p by (simp add: sfs_read_def)
  ultimately show ?thesis by (intro exI [of _ "disk st"]) auto
next
  case False
  let ?e = "ent st n"
  let ?len = "if len > e_size ?e - off then e_size ?e - off else len"
  have o: "unat off < file_size st n" using False by (simp add: file_size_def word_le_nat_alt)
  have rem: "unat (e_size ?e - off) = file_size st n - unat off"
    using False by (simp add: file_size_def unat_sub)
  have l: "unat ?len = min (unat len) (file_size st n - unat off)"
    using rem by (auto simp: word_less_nat_alt)
  have fs: "file_size st n < 2 ^ 32" using unsigned_less [of "e_size ?e"] by (simp add: file_size_def)
  have "unat off + unat ?len \<le> file_size st n" using l o by simp
  then have b: "unat off + unat ?len < 2 ^ 32"
    and m: "sectors_for (unat off + unat ?len) \<le> sectors_for (file_size st n)"
    using fs sectors_for_mono by (linarith, blast)
  have s: "unat (e_start_lba ?e) + sectors_for (unat off + unat ?len) \<le> 65536"
    using m extent_sectors [OF ex is_file_live [OF n]] unfolding ext_start_def by linarith
  obtain d' where d': "sfs_read_loop dev (e_start_lba ?e) off ?len 0 [] (disk st) =
      (Some (map (\<lambda>i. fbyte sec (disk st) (e_start_lba ?e) (unat off + i)) [0..<unat ?len]), d')"
      "sec d' = sec (disk st)"
    using read_loop_eq [of 0 ?len off "e_start_lba ?e" "[]" "disk st"] b s by auto
  have "map (\<lambda>i. fbyte sec (disk st) (e_start_lba ?e) (unat off + i)) [0..<unat ?len]
      = take (unat len) (drop (unat off) (content sec st n))"
    using o l by (intro nth_equalityI) (auto simp: content_def)
  with d' show ?thesis
    using False n p by (auto simp: sfs_read_def Let_def)
qed

end

section \<open>Writing\<close>

definition overwrite :: "u8 list \<Rightarrow> nat \<Rightarrow> u8 list \<Rightarrow> u8 list" where
  "overwrite c off data = take off c @ data @ drop (off + length data) c"

text \<open>States that agree on everything the tree invariant reads.\<close>

definition same_tree :: "'d sfs_state \<Rightarrow> 'd sfs_state \<Rightarrow> bool" where
  "same_tree st st' \<longleftrightarrow> layout_ok st' = layout_ok st \<and> sb_root_id (g_super st') = sb_root_id (g_super st)
     \<and> (\<forall>i. e_used (ent st' i) = e_used (ent st i) \<and> e_type (ent st' i) = e_type (ent st i)
          \<and> e_perm (ent st' i) = e_perm (ent st i)
          \<and> e_parent (ent st' i) = e_parent (ent st i) \<and> e_name (ent st' i) = e_name (ent st i))"

lemma same_tree_refl [simp]: "same_tree st st"
  by (simp add: same_tree_def)

lemma same_tree_trans: "same_tree st st1 \<Longrightarrow> same_tree st1 st2 \<Longrightarrow> same_tree st st2"
  by (simp add: same_tree_def)

lemma same_tree_live: "same_tree st st' \<Longrightarrow> live st' i = live st i"
  "same_tree st st' \<Longrightarrow> is_file_node st' i = is_file_node st i"
  by (simp_all add: same_tree_def live_def is_file_node_def)

lemma same_tree_tree: "same_tree st st' \<Longrightarrow> fs_tree st' = fs_tree st"
  by (simp add: same_tree_def fs_tree_def tree_defs)

lemma same_tree_disk [simp]: "same_tree st (st\<lparr>disk := d\<rparr>)"
  by (simp add: same_tree_def layout_ok_def)

lemma layout_super: "layout_ok (st\<lparr>g_super := (g_super st)\<lparr>sb_next_free_lba := x\<rparr>\<rparr>) = layout_ok st"
  by (simp add: layout_ok_def)

text \<open>The two entry updates of \<^verbatim>\<open>sfs_write\<close>: a new extent, a new size.\<close>

lemma same_tree_upd:
  assumes "layout_ok st" "n < 64"
    and "\<And>e. e_used (f e) = e_used e \<and> e_type (f e) = e_type e \<and> e_perm (f e) = e_perm e
          \<and> e_parent (f e) = e_parent e \<and> e_name (f e) = e_name e \<and> e_reserved1 (f e) = e_reserved1 e"
  shows "same_tree st (upd_ent st n f)"
proof -
  have n: "unat n < length (g_entries st)" "unat n < 64"
    using assms(1,2) by (simp_all add: layout_ok_def word_less_nat_alt)
  have "layout_ok (upd_ent st n f)"
    using layout_ent [OF assms(1) n(2)] assms(3) by (intro layout_upd_ent [OF assms(1)]) auto
  with assms n show ?thesis by (simp add: same_tree_def)
qed

lemma ent_upd_layout:
  "layout_ok st \<Longrightarrow> n < 64 \<Longrightarrow> ent (upd_ent st n f) j = (if n = j then f (ent st n) else ent st j)"
  by (intro ent_upd_ent) (simp add: layout_ok_def word_less_nat_alt)

text \<open>Giving a file a fresh extent at the allocation mark.\<close>

definition set_extent :: "'d sfs_state \<Rightarrow> u32 \<Rightarrow> u32 \<Rightarrow> 'd sfs_state" where
  "set_extent st n need =
     (upd_ent st n (\<lambda>e. e\<lparr>e_start_lba := sb_next_free_lba (g_super st), e_capacity_sectors := need\<rparr>))
       \<lparr>g_super := (g_super st)\<lparr>sb_next_free_lba := sb_next_free_lba (g_super st) + need\<rparr>\<rparr>"

lemma set_extent_sel:
  assumes "layout_ok st" "n < 64"
  shows "ent (set_extent st n need) j =
      (if n = j then (ent st n)\<lparr>e_start_lba := sb_next_free_lba (g_super st), e_capacity_sectors := need\<rparr>
       else ent st j)"
    "disk (set_extent st n need) = disk st" "same_tree st (set_extent st n need)"
proof -
  let ?f = "\<lambda>e. e\<lparr>e_start_lba := sb_next_free_lba (g_super st), e_capacity_sectors := need\<rparr>"
  show e: "ent (set_extent st n need) j =
      (if n = j then (ent st n)\<lparr>e_start_lba := sb_next_free_lba (g_super st), e_capacity_sectors := need\<rparr>
       else ent st j)" for j
    using ent_upd_layout [OF assms, of ?f j] by (simp add: set_extent_def)
  show "disk (set_extent st n need) = disk st" by (simp add: set_extent_def)
  have "same_tree st (upd_ent st n ?f)" by (rule same_tree_upd [OF assms]) simp
  then show "same_tree st (set_extent st n need)"
    by (simp add: same_tree_def set_extent_def layout_ok_def)
qed

lemma set_extent_ok:
  assumes l: "layout_ok st" "live st n" and ex: "extents_ok st"
    and room: "next_free st + unat need \<le> 65536"
    and sz: "file_size st n \<le> 512 * unat need"
  shows "extents_ok (set_extent st n need)"
    and "next_free (set_extent st n need) = next_free st + unat need"
    and "ext_start (set_extent st n need) n = next_free st"
    and "ext_end (set_extent st n need) n = next_free st + unat need"
proof -
  have n: "n < 64" using l(2) by (simp add: live_def)
  note e = set_extent_sel [OF l(1) n, of need]
  have lv: "live (set_extent st n need) j = live st j" for j using e(3) by (rule same_tree_live)
  show nf: "next_free (set_extent st n need) = next_free st + unat need"
    using room by (simp add: set_extent_def next_free_def unat_word_ariths)
  have nz: "sb_next_free_lba (g_super st) \<noteq> 0"
    using ex by (auto simp: extents_ok_def next_free_def)
  show st: "ext_start (set_extent st n need) n = next_free st"
    "ext_end (set_extent st n need) n = next_free st + unat need"
    by (simp_all add: e ext_defs)
  have other: "ext_start (set_extent st n need) j = ext_start st j"
    "ext_end (set_extent st n need) j = ext_end st j"
    "has_extent (set_extent st n need) j = has_extent st j" if "j \<noteq> n" for j
    using that by (simp_all add: e ext_defs lv)
  have size: "file_size (set_extent st n need) j = file_size st j" for j
    by (simp add: e file_size_def)
  have hn: "has_extent (set_extent st n need) n" using nz l(2) by (simp add: e has_extent_def lv)
  have before: "ext_end st j \<le> next_free st" if "has_extent st j" for j
    using extentD(2) [OF ex that] .
  show "extents_ok (set_extent st n need)"
    unfolding extents_ok_def
  proof (intro conjI allI impI)
    show "137 \<le> next_free (set_extent st n need)" "next_free (set_extent st n need) \<le> 65536"
      using nf room ex by (auto simp: extents_ok_def)
  next
    fix j assume j: "has_extent (set_extent st n need) j"
    have "137 \<le> ext_start (set_extent st n need) j
      \<and> ext_end (set_extent st n need) j \<le> next_free (set_extent st n need)
      \<and> file_size (set_extent st n need) j \<le> 512 * unat (e_capacity_sectors (ent (set_extent st n need) j))"
    proof (cases "j = n")
      case True
      with st nf sz size ex show ?thesis by (simp add: e extents_ok_def)
    next
      case False
      then have "has_extent st j" using j other by simp
      with False st nf size other [OF False] extentD [OF ex, of j] show ?thesis by (simp add: e)
    qed
    then show "137 \<le> ext_start (set_extent st n need) j"
      "ext_end (set_extent st n need) j \<le> next_free (set_extent st n need)"
      "file_size (set_extent st n need) j \<le> 512 * unat (e_capacity_sectors (ent (set_extent st n need) j))"
      by blast+
  next
    fix j assume "live (set_extent st n need) j \<and> \<not> has_extent (set_extent st n need) j"
    then show "file_size (set_extent st n need) j = 0"
      using ex hn other(3) [of j] size by (cases "j = n") (auto simp: lv extents_ok_def)
  next
    fix i j
    assume ij: "has_extent (set_extent st n need) i \<and> has_extent (set_extent st n need) j \<and> i \<noteq> j"
    consider "i = n" "j \<noteq> n" | "j = n" "i \<noteq> n" | "i \<noteq> n" "j \<noteq> n" using ij by blast
    then show "ext_end (set_extent st n need) i \<le> ext_start (set_extent st n need) j
      \<or> ext_end (set_extent st n need) j \<le> ext_start (set_extent st n need) i"
    proof cases
      case 1 with ij other before st show ?thesis by auto
    next
      case 2 with ij other before st show ?thesis by auto
    next
      case 3 with ij other ex show ?thesis by (simp add: extents_ok_def)
    qed
  qed
qed


lemma extents_ok_disk [simp]: "extents_ok (st\<lparr>disk := d\<rparr>) = extents_ok st"
  "file_size (st\<lparr>disk := d\<rparr>) i = file_size st i" "next_free (st\<lparr>disk := d\<rparr>) = next_free st"
  "ext_start (st\<lparr>disk := d\<rparr>) i = ext_start st i" "ext_end (st\<lparr>disk := d\<rparr>) i = ext_end st i"
  "has_extent (st\<lparr>disk := d\<rparr>) i = has_extent st i" "layout_ok (st\<lparr>disk := d\<rparr>) = layout_ok st"
  "is_file_node (st\<lparr>disk := d\<rparr>) i = is_file_node st i"
  by (simp_all add: extents_ok_def ext_defs layout_ok_def is_file_node_def)

lemma sfs_reserve_alt:
  "sfs_reserve dev st n need =
    (if e_start_lba (ent st n) = 0 then (True, set_extent st n need)
     else if need > e_capacity_sectors (ent st n)
     then (case sfs_move_loop dev (e_start_lba (ent st n)) (sb_next_free_lba (g_super st))
                 (unat (e_capacity_sectors (ent st n))) 0 (disk st) of
             (False, d') \<Rightarrow> (False, st\<lparr>disk := d'\<rparr>)
           | (True, d') \<Rightarrow> (True, set_extent (st\<lparr>disk := d'\<rparr>) n need))
     else (True, st))"
  by (auto simp: sfs_reserve_def set_extent_def Let_def upd_ent_def split: prod.splits bool.splits)

context reliable_client
begin

lemma reserve_eq:
  assumes ex: "extents_ok st" and l: "layout_ok st" and n: "live st n"
    and room: "next_free st + unat need \<le> 65536"
  shows "\<exists>st1. sfs_reserve dev st n need = (True, st1) \<and> extents_ok st1 \<and> same_tree st st1
    \<and> (\<forall>i. live st i \<longrightarrow> file_size st1 i = file_size st i \<and> content sec st1 i = content sec st i)
    \<and> has_extent st1 n \<and> ext_start st1 n + unat need \<le> ext_end st1 n
    \<and> next_free st1 \<le> next_free st + unat need"
proof -
  let ?e = "ent st n" and ?nf = "sb_next_free_lba (g_super st)"
  have n64: "n < 64" using n by (simp add: live_def)
  have nf: "unat ?nf = next_free st" by (simp add: next_free_def)
  consider (alloc) "e_start_lba ?e = 0"
    | (move) "e_start_lba ?e \<noteq> 0" "need > e_capacity_sectors ?e"
    | (fits) "e_start_lba ?e \<noteq> 0" "\<not> need > e_capacity_sectors ?e" by blast
  then show ?thesis
  proof cases
    case alloc
    let ?s = "set_extent st n need"
    have z: "file_size st n = 0" using alloc ex n by (auto simp: extents_ok_def has_extent_def)
    note S = set_extent_sel [OF l n64, of need]
      and O = set_extent_ok [OF l n ex room, unfolded z, OF le0]
    have c: "content sec ?s i = content sec st i" for i
      using z by (cases "i = n") (auto simp: content_def S file_size_def)
    have h: "has_extent ?s n"
      using O(3) ex n by (auto simp: has_extent_def same_tree_live [OF S(3)] ext_start_def extents_ok_def)
    show ?thesis
      using alloc O S(3) c h by (intro exI [of _ ?s]) (simp add: sfs_reserve_alt S file_size_def)
  next
    case move
    have h: "has_extent st n" using move(1) n by (simp add: has_extent_def)
    let ?cap = "unat (e_capacity_sectors ?e)"
    have cap: "?cap < unat need" using move(2) by (simp add: word_less_nat_alt)
    obtain d' where d': "sfs_move_loop dev (e_start_lba ?e) ?nf ?cap 0 (disk st) = (True, d')"
      "\<And>k. k < ?cap \<Longrightarrow> sec d' (?nf + of_nat k) = sec (disk st) (e_start_lba ?e + of_nat k)"
      "\<And>l. unat l < unat ?nf \<Longrightarrow> sec d' l = sec (disk st) l"
      using move_loop_eq [of 0 ?cap "e_start_lba ?e" ?nf "disk st"] extentD(2) [OF ex h] room cap nf
      by (auto simp: ext_end_def ext_start_def)
    let ?sd = "st\<lparr>disk := d'\<rparr>"
    let ?s = "set_extent ?sd n need"
    have sz: "file_size ?sd n \<le> 512 * unat need"
      using extentD(3) [OF ex h] cap by simp
    have ld: "layout_ok ?sd" "live ?sd n" "extents_ok ?sd" "next_free ?sd + unat need \<le> 65536"
      using l n ex room by simp_all
    note S = set_extent_sel [OF ld(1) n64, of need] and O = set_extent_ok [OF ld sz]
    have c: "content sec ?s i = content sec st i" if i: "live st i" for i
    proof (cases "i = n")
      case False
      show ?thesis
      proof (rule content_cong [OF _ _ ex i])
        fix l :: u32 assume a: "has_extent st i" "ext_start st i \<le> unat l" "unat l < ext_end st i"
        then have "unat l < unat ?nf" using extentD(2) [OF ex a(1)] nf by simp
        then show "sec (disk ?s) l = sec (disk st) l" using d'(3) by (simp add: S)
      qed (use False in \<open>simp_all add: S file_size_def\<close>)
    next
      case True
      have "fbyte sec d' ?nf p = fbyte sec (disk st) (e_start_lba ?e) p" if "p < file_size st n" for p
      proof -
        have "p div 512 < ?cap"
          using that extentD(3) [OF ex h] by (intro less_mult_imp_div_less) (simp add: mult.commute)
        with d'(2) show ?thesis by (simp add: fbyte_def)
      qed
      then show ?thesis using True by (simp add: content_def S file_size_def)
    qed
    have hs: "has_extent ?s n"
      using O(3) ex n by (auto simp: has_extent_def same_tree_live [OF S(3)] ext_start_def extents_ok_def)
    have "same_tree st ?s" using same_tree_disk S(3) by (rule same_tree_trans)
    then show ?thesis
      using move d'(1) O c hs
      by (intro exI [of _ ?s]) (simp add: sfs_reserve_alt S file_size_def)
  next
    case fits
    have "need \<le> e_capacity_sectors ?e" using fits(2) by (simp only: linorder_not_less)
    then have "unat need \<le> unat (e_capacity_sectors ?e)" by (simp only: word_le_nat_alt)
    with fits ex n show ?thesis
      by (intro exI [of _ st]) (simp add: sfs_reserve_alt has_extent_def ext_end_def)
  qed
qed

end

text \<open>Growing the recorded size inside the extent.\<close>

lemma set_size_ok:
  assumes l: "layout_ok st" "has_extent st n" and ex: "extents_ok st"
    and b: "unat sz \<le> 512 * unat (e_capacity_sectors (ent st n))"
  shows "extents_ok (upd_ent st n (\<lambda>e. e\<lparr>e_size := sz\<rparr>))"
    and "same_tree st (upd_ent st n (\<lambda>e. e\<lparr>e_size := sz\<rparr>))"
    and "e_start_lba (ent (upd_ent st n (\<lambda>e. e\<lparr>e_size := sz\<rparr>)) i) = e_start_lba (ent st i)"
    and "file_size (upd_ent st n (\<lambda>e. e\<lparr>e_size := sz\<rparr>)) i = (if i = n then unat sz else file_size st i)"
proof -
  let ?s = "upd_ent st n (\<lambda>e. e\<lparr>e_size := sz\<rparr>)"
  have n: "n < 64" using l(2) by (simp add: has_extent_def live_def)
  note e = ent_upd_layout [OF l(1) n, of "\<lambda>e. e\<lparr>e_size := sz\<rparr>"]
  show t: "same_tree st ?s" by (rule same_tree_upd [OF l(1) n]) simp
  show "e_start_lba (ent ?s i) = e_start_lba (ent st i)" by (simp add: e)
  show fs: "file_size ?s i = (if i = n then unat sz else file_size st i)" for i
    by (auto simp: e file_size_def)
  have same: "has_extent ?s i = has_extent st i" "ext_start ?s i = ext_start st i"
    "ext_end ?s i = ext_end st i" "e_capacity_sectors (ent ?s i) = e_capacity_sectors (ent st i)"
    "live ?s i = live st i" for i
    using same_tree_live(1) [OF t] by (simp_all add: e ext_defs)
  have "next_free ?s = next_free st" by (simp add: next_free_def)
  then show "extents_ok ?s"
    using ex b l(2) by (auto simp: extents_ok_def same fs)
qed

lemma nth_overwrite:
  assumes "off \<le> length c" "p < max (length c) (off + length data)"
  shows "overwrite c off data ! p = (if off \<le> p \<and> p < off + length data then data ! (p - off) else c ! p)"
  using assms by (auto simp: overwrite_def nth_append min_def)

lemma length_overwrite: "off \<le> length c \<Longrightarrow> length (overwrite c off data) = max (length c) (off + length data)"
  by (auto simp: overwrite_def)

context reliable_client
begin

lemma sfs_client_here: "sfs_client dev sec"
  unfolding sfs_client_def by (rule sector_store_axioms)

lemma fbyte_flushed:
  assumes "\<And>l. 137 \<le> l \<Longrightarrow> sec d4 l = sec d2 l" "137 \<le> unat start" "unat start + p div 512 < 65536"
  shows "fbyte sec d4 start p = fbyte sec d2 start p"
proof -
  have "137 \<le> start + of_nat (p div 512)"
    using unat_sector [OF assms(3)] assms(2) by (simp add: word_le_nat_alt)
  then show ?thesis using assms(1) by (simp add: fbyte_def)
qed

text \<open>The tail of \<^verbatim>\<open>sfs_write\<close> once the extent is reserved: copy, grow, flush.\<close>

lemma write_reserved:
  assumes ex: "extents_ok st" and l: "layout_ok st" and h: "has_extent st n"
    and off: "unat off \<le> file_size st n" and dl: "length data = unat len"
    and ov: "unat off + unat len < 2 ^ 32"
    and fit: "ext_start st n + sectors_for (unat off + unat len) \<le> ext_end st n"
  shows "\<exists>d2 st3 st4. sfs_write_loop dev (e_start_lba (ent st n)) off data len 0 (disk st) = (True, d2)
    \<and> st3 = (if off + len > e_size (ent (st\<lparr>disk := d2\<rparr>) n)
              then upd_ent (st\<lparr>disk := d2\<rparr>) n (\<lambda>e. e\<lparr>e_size := off + len\<rparr>) else st\<lparr>disk := d2\<rparr>)
    \<and> sfs_flush dev st3 = (True, st4)
    \<and> extents_ok st4 \<and> same_tree st st4
    \<and> content sec st4 n = overwrite (content sec st n) (unat off) data
    \<and> (\<forall>i. live st i \<and> i \<noteq> n \<longrightarrow> content sec st4 i = content sec st i)"
proof -
  let ?start = "e_start_lba (ent st n)" and ?stop = "unat off + unat len"
  have n: "n < 64" "live st n" using h by (auto simp: has_extent_def live_def)
  have end_w: "unat (off + len) = ?stop" using ov by (simp add: unat_word_ariths)
  have sf: "unat ?start + sectors_for ?stop \<le> 65536"
    using fit extentD(4) [OF ex h] by (simp add: ext_start_def)
  obtain d2 where d2: "sfs_write_loop dev ?start off data len 0 (disk st) = (True, d2)"
    "\<And>p. unat ?start + p div 512 < 65536 \<Longrightarrow> fbyte sec d2 ?start p =
        (if unat off \<le> p \<and> p < ?stop then data ! (p - unat off) else fbyte sec (disk st) ?start p)"
    "\<And>l. unat l < unat ?start \<or> unat ?start + sectors_for ?stop \<le> unat l \<Longrightarrow> sec d2 l = sec (disk st) l"
    using write_loop_eq [of 0 len off ?start data "disk st"] ov sf dl by auto
  let ?s2 = "st\<lparr>disk := d2\<rparr>"
  define s3 where "s3 = (if off + len > e_size (ent ?s2 n)
      then upd_ent ?s2 n (\<lambda>e. e\<lparr>e_size := off + len\<rparr>) else ?s2)"
  have capn: "?stop \<le> 512 * unat (e_capacity_sectors (ent st n))"
    using sectors_for_bound [of ?stop] fit by (simp add: ext_end_def)
  have size: "extents_ok (upd_ent ?s2 n (\<lambda>e. e\<lparr>e_size := off + len\<rparr>))"
    "same_tree ?s2 (upd_ent ?s2 n (\<lambda>e. e\<lparr>e_size := off + len\<rparr>))"
    "\<And>i. e_start_lba (ent (upd_ent ?s2 n (\<lambda>e. e\<lparr>e_size := off + len\<rparr>)) i) = e_start_lba (ent st i)"
    "\<And>i. file_size (upd_ent ?s2 n (\<lambda>e. e\<lparr>e_size := off + len\<rparr>)) i = (if i = n then ?stop else file_size st i)"
    using set_size_ok [of ?s2 n "off + len"] l h ex capn end_w by simp_all
  have grow: "off + len > e_size (ent ?s2 n) \<longleftrightarrow> file_size st n < ?stop"
    using end_w by (simp add: word_less_nat_alt file_size_def)
  have s3: "extents_ok s3" "same_tree st s3" "\<And>i. e_start_lba (ent s3 i) = e_start_lba (ent st i)"
    "\<And>i. file_size s3 i = (if i = n then max (file_size st n) ?stop else file_size st i)" "disk s3 = d2"
    using size ex same_tree_trans [OF same_tree_disk size(2)] grow by (auto simp: s3_def)
  have l3: "layout_ok s3" using s3(2) l by (simp add: same_tree_def)
  obtain s4 where s4: "sfs_flush dev s3 = (True, s4)" using flush_total [OF l3] by blast
  note F = sfs_client.flush_spec [OF sfs_client_here s4 l3]
  obtain d4 where d4: "s4 = s3\<lparr>disk := d4\<rparr>" "\<And>l. 137 \<le> l \<Longrightarrow> sec d4 l = sec d2 l"
    using F(3,4) s3(5) by metis
  have same4: "same_tree st s4" using s3(2) same_tree_disk unfolding d4(1) by (rule same_tree_trans)
  have other: "content sec s4 i = content sec st i" if i: "live st i" "i \<noteq> n" for i
  proof (rule content_cong [OF _ _ ex i(1)])
    show "e_start_lba (ent s4 i) = e_start_lba (ent st i)" "file_size s4 i = file_size st i"
      using i(2) by (simp_all add: d4(1) s3)
    fix x :: u32 assume x: "has_extent st i" "ext_start st i \<le> unat x" "unat x < ext_end st i"
    have "ext_end st i \<le> ext_start st n \<or> ext_end st n \<le> ext_start st i"
      using ex x(1) h i(2) by (simp add: extents_ok_def)
    then have "sec d2 x = sec (disk st) x"
      using x fit by (intro d2(3)) (auto simp: ext_start_def)
    moreover have "137 \<le> x" using extentD(1) [OF ex x(1)] x(2) by (simp add: word_le_nat_alt)
    ultimately show "sec (disk s4) x = sec (disk st) x" using d4 by simp
  qed
  have "content sec s4 n = overwrite (content sec st n) (unat off) data"
  proof (rule nth_equalityI)
    show len4: "length (content sec s4 n) = length (overwrite (content sec st n) (unat off) data)"
      using off dl by (simp add: length_overwrite d4(1) s3)
    fix p assume "p < length (content sec s4 n)"
    then have p: "p < max (file_size st n) ?stop" by (simp add: d4(1) s3)
    then have "p div 512 < unat (e_capacity_sectors (ent st n))"
      using extentD(3) [OF ex h] capn by (intro less_mult_imp_div_less) (auto simp: mult.commute)
    then have bnd: "unat ?start + p div 512 < 65536"
      using extentD(4) [OF ex h] by (simp add: ext_end_def ext_start_def)
    have "content sec s4 n ! p = fbyte sec d4 ?start p"
      using p by (simp add: content_def d4(1) s3)
    also have "\<dots> = fbyte sec d2 ?start p"
      using fbyte_flushed [OF d4(2) _ bnd] extentD(1) [OF ex h] by (simp add: ext_start_def)
    also have "\<dots> = overwrite (content sec st n) (unat off) data ! p"
      using d2(2) [OF bnd] nth_overwrite [of "unat off" "content sec st n" p data] off dl p
      by (auto simp: content_def)
    finally show "content sec s4 n ! p = overwrite (content sec st n) (unat off) data ! p" .
  qed
  moreover have "extents_ok s4" using s3(1) by (simp add: d4(1))
  ultimately show ?thesis using d2(1) s3_def s4 same4 other by blast
qed

lemma sfs_write_eq:
  assumes ex: "extents_ok st" and l: "layout_ok st" and n: "is_file_node st n"
    and pm: "e_perm (ent st n) AND SFS_PERM_WRITE \<noteq> 0"
    and off: "unat off \<le> file_size st n" and dl: "length data = unat len"
    and ov: "unat off + unat len + 511 < 2 ^ 32"
    and room: "next_free st + sectors_for (unat off + unat len) \<le> 65536"
  shows "\<exists>st'. sfs_write dev st n off data len = (Some len, st')
    \<and> extents_ok st' \<and> same_tree st st'
    \<and> content sec st' n = overwrite (content sec st n) (unat off) data
    \<and> (\<forall>i. live st i \<and> i \<noteq> n \<longrightarrow> content sec st' i = content sec st i)"
proof -
  let ?need = "(off + len + 511) div 512"
  have need: "unat ?need = sectors_for (unat off + unat len)"
    using ov by (simp add: unat_div unat_word_ariths sectors_for_def)
  have lv: "live st n" using n by (rule is_file_live)
  obtain s1 where s1: "sfs_reserve dev st n ?need = (True, s1)" "extents_ok s1" "same_tree st s1"
      "\<And>i. live st i \<Longrightarrow> file_size s1 i = file_size st i \<and> content sec s1 i = content sec st i"
      "has_extent s1 n" "ext_start s1 n + sectors_for (unat off + unat len) \<le> ext_end s1 n"
    using reserve_eq [OF ex l lv, of ?need] room need by auto
  have l1: "layout_ok s1" using s1(3) l by (simp add: same_tree_def)
  have off1: "unat off \<le> file_size s1 n" using off s1(4) [OF lv] by simp
  have ov1: "unat off + unat len < 2 ^ 32" using ov by simp
  obtain d2 s3 s4 where w: "sfs_write_loop dev (e_start_lba (ent s1 n)) off data len 0 (disk s1) = (True, d2)"
      "s3 = (if off + len > e_size (ent (s1\<lparr>disk := d2\<rparr>) n)
              then upd_ent (s1\<lparr>disk := d2\<rparr>) n (\<lambda>e. e\<lparr>e_size := off + len\<rparr>) else s1\<lparr>disk := d2\<rparr>)"
      "sfs_flush dev s3 = (True, s4)" "extents_ok s4" "same_tree s1 s4"
      "content sec s4 n = overwrite (content sec s1 n) (unat off) data"
      "\<forall>i. live s1 i \<and> i \<noteq> n \<longrightarrow> content sec s4 i = content sec s1 i"
    using write_reserved [OF s1(2) l1 s1(5) off1 dl ov1 s1(6)] by blast
  have "sfs_write dev st n off data len = (Some len, s4)"
    using n pm s1(1) w(1,3) unfolding sfs_write_def w(2) by (simp add: Let_def)
  moreover have "same_tree st s4" using s1(3) w(5) by (rule same_tree_trans)
  ultimately show ?thesis
    using w(4,6,7) s1(4) lv same_tree_live(1) [OF s1(3)] by auto
qed

end

end
