(* ===== verification/Simple_FS_Contract.thy ===== *)
theory Simple_FS_Contract
  imports Simple_FS_Files
begin

text \<open>
  The contract of the file system: the step relation of its operations with the invariants
  of every reachable state, the refinement of the detailed definitions to a map from node
  ids to byte lists, and the properties of path resolution, mounting and listing.
\<close>

section \<open>Every operation keeps the extents disjoint\<close>

lemma super_sel [simp]: "next_free (upd_ent st i f) = next_free st"
  by (simp add: next_free_def)

text \<open>An update of one entry that leaves it without an extent, or keeps extent and lowers the size.\<close>

lemma extents_upd:
  assumes ex: "extents_ok st" and i: "unat i < length (g_entries st)" "i < 64"
    and e: "(e_start_lba (f (ent st i)) = 0 \<and> e_size (f (ent st i)) = 0)
      \<or> (live st i \<and> e_start_lba (f (ent st i)) = e_start_lba (ent st i)
         \<and> e_capacity_sectors (f (ent st i)) = e_capacity_sectors (ent st i)
         \<and> e_size (f (ent st i)) \<le> e_size (ent st i))"
  shows "extents_ok (upd_ent st i f)"
proof -
  let ?s = "upd_ent st i f"
  have ei: "ent ?s j = (if i = j then f (ent st i) else ent st j)" for j using i(1) by simp
  have size: "file_size ?s j \<le> file_size st j \<or> (j = i \<and> file_size ?s j = 0)" for j
    using e by (auto simp: ei file_size_def word_le_nat_alt)
  have he: "has_extent st j \<and> ext_start ?s j = ext_start st j \<and> ext_end ?s j = ext_end st j
      \<and> e_capacity_sectors (ent ?s j) = e_capacity_sectors (ent st j) \<and> file_size ?s j \<le> file_size st j"
    if "has_extent ?s j" for j
    using that e i(2) by (auto simp: ei ext_defs live_def word_le_nat_alt split: if_splits)
  have none: "file_size ?s j = 0" if "live ?s j" "\<not> has_extent ?s j" for j
  proof (cases "i = j")
    case False
    then show ?thesis using that ex by (auto simp: ei ext_defs live_def extents_ok_def)
  next
    case True
    show ?thesis
      using e
    proof (elim disjE conjE)
      assume "e_size (f (ent st i)) = 0"
      then show ?thesis using ei [of j] True by (simp add: file_size_def)
    next
      assume a: "live st i" "e_start_lba (f (ent st i)) = e_start_lba (ent st i)"
        "e_size (f (ent st i)) \<le> e_size (ent st i)"
      then have "\<not> has_extent st i" using that ei [of j] True by (simp add: has_extent_def)
      then have "file_size st i = 0" using ex a(1) by (simp add: extents_ok_def)
      then show ?thesis using a(3) ei [of j] True by (simp add: file_size_def word_le_nat_alt)
    qed
  qed
  show ?thesis
    unfolding extents_ok_def
  proof (intro conjI allI impI)
    show "137 \<le> next_free ?s" "next_free ?s \<le> 65536" using ex by (simp_all add: extents_ok_def)
  next
    fix j assume j: "has_extent ?s j"
    show "137 \<le> ext_start ?s j" "ext_end ?s j \<le> next_free ?s"
        "file_size ?s j \<le> 512 * unat (e_capacity_sectors (ent ?s j))"
      using he [OF j] extentD [OF ex, of j] by auto
  next
    fix j assume "live ?s j \<and> \<not> has_extent ?s j"
    with none show "file_size ?s j = 0" by blast
  next
    fix j k assume a: "has_extent ?s j \<and> has_extent ?s k \<and> j \<noteq> k"
    with he [of j] he [of k] ex
    show "ext_end ?s j \<le> ext_start ?s k \<or> ext_end ?s k \<le> ext_start ?s j"
      by (simp add: extents_ok_def)
  qed
qed

lemma create_extents:
  assumes ex: "extents_ok st" and l: "layout_ok st"
    and s: "sfs_create dev st path cwd ty perm = (r, st')"
  shows "extents_ok st'"
  using s
proof (cases rule: sfs_create_cases)
  case refused
  with ex show ?thesis by simp
next
  case (made cur lst idx d)
  have "extents_ok (upd_ent st idx (new_entry cur lst ty perm))"
    using find_free_SomeD [OF made(4)] l
    by (intro extents_upd [OF ex]) (auto simp: layout_ok_def)
  with made(5) show ?thesis by simp
qed

lemma remove_extents:
  assumes ex: "extents_ok st" and t: "fs_tree st" "live st cwd"
    and s: "sfs_remove dev st path cwd = (ok, st')"
  shows "extents_ok st'"
  using s
proof (cases rule: sfs_remove_cases)
  case refused
  with ex show ?thesis by simp
next
  case (removed node d)
  have n: "live st node" by (rule sfs_resolve_live [OF t removed(1)])
  have "extents_ok (upd_ent st node (\<lambda>_. zero_entry))"
    using live_less [OF n] fs_tree_length [OF t(1)] n
    by (intro extents_upd [OF ex]) (auto simp: zero_entry_def live_def)
  with removed(4) show ?thesis by simp
qed

lemma sfs_truncate_cases:
  assumes "sfs_truncate dev st n = (ok, st')"
  obtains (refused) "\<not> ok" "st' = st"
  | (cleared) d where "is_file_node st n" "e_perm (ent st n) AND SFS_PERM_WRITE \<noteq> 0"
      "sfs_flush dev (upd_ent st n (\<lambda>e. e\<lparr>e_size := 0\<rparr>)) = (ok, st')"
      "st' = (upd_ent st n (\<lambda>e. e\<lparr>e_size := 0\<rparr>))\<lparr>disk := d\<rparr>"
  using assms by (auto simp: sfs_truncate_def split: if_splits dest!: sfs_flush_state)

lemma is_file_less: "is_file_node st n \<Longrightarrow> n < 64"
  by (auto dest: is_file_live simp: live_def)

lemma layout_less: "layout_ok st \<Longrightarrow> n < (64 :: u32) \<Longrightarrow> unat n < length (g_entries st)"
  by (simp add: layout_ok_def word_less_nat_alt)

lemma fs_tree_layout: "fs_tree st \<Longrightarrow> layout_ok st"
  by (simp add: fs_tree_def)

lemma truncate_same:
  assumes l: "layout_ok st" and s: "sfs_truncate dev st n = (ok, st')"
  shows "same_tree st st'" and "extents_ok st \<Longrightarrow> extents_ok st'"
proof -
  have "same_tree st st' \<and> (extents_ok st \<longrightarrow> extents_ok st')"
    using s
  proof (cases rule: sfs_truncate_cases)
    case refused
    then show ?thesis by simp
  next
    case (cleared d)
    note n = is_file_less [OF cleared(1)] is_file_live [OF cleared(1)]
    have "same_tree st (upd_ent st n (\<lambda>e. e\<lparr>e_size := 0\<rparr>))"
      by (rule same_tree_upd [OF l n(1)]) simp
    moreover have "extents_ok st \<longrightarrow> extents_ok (upd_ent st n (\<lambda>e. e\<lparr>e_size := 0\<rparr>))"
      using n layout_less [OF l n(1)] by (auto intro!: extents_upd)
    ultimately show ?thesis
      unfolding cleared(4) using same_tree_disk same_tree_trans by (simp add: same_tree_trans)
  qed
  then show "same_tree st st'" "extents_ok st \<Longrightarrow> extents_ok st'" by auto
qed

text \<open>
  \<^verbatim>\<open>sfs_write\<close> on any device: whatever the outcome, the tree is the old one, and
  the extents stay disjoint as long as the medium has room.
\<close>

definition write_fits :: "'d sfs_state \<Rightarrow> u32 \<Rightarrow> u32 \<Rightarrow> bool" where
  "write_fits st off len \<longleftrightarrow> unat off + unat len + 511 < 2 ^ 32
     \<and> next_free st + sectors_for (unat off + unat len) \<le> 65536"

lemma need_sectors:
  "unat off + unat len + 511 < 2 ^ 32 \<Longrightarrow>
     unat ((off + len + 511) div 512 :: u32) = sectors_for (unat off + unat len)"
  by (simp add: unat_div unat_word_ariths sectors_for_def)

lemma reserve_cases:
  assumes "sfs_reserve dev st n need = (ok, st1)"
  obtains (kept) d where "st1 = st\<lparr>disk := d\<rparr>" "ok \<longrightarrow> e_start_lba (ent st n) \<noteq> 0 \<and> need \<le> e_capacity_sectors (ent st n)"
  | (fresh) d where "ok" "st1 = set_extent (st\<lparr>disk := d\<rparr>) n need"
      "e_start_lba (ent st n) = 0 \<or> e_capacity_sectors (ent st n) < need"
proof -
  consider (a) "e_start_lba (ent st n) = 0" "ok" "st1 = set_extent st n need"
    | (b) d where "e_start_lba (ent st n) \<noteq> 0" "e_capacity_sectors (ent st n) < need" "\<not> ok" "st1 = st\<lparr>disk := d\<rparr>"
    | (c) d where "e_capacity_sectors (ent st n) < need" "ok" "st1 = set_extent (st\<lparr>disk := d\<rparr>) n need"
    | (d) "e_start_lba (ent st n) \<noteq> 0" "\<not> e_capacity_sectors (ent st n) < need" "st1 = st"
    using assms by (auto simp: sfs_reserve_alt split: if_splits prod.splits bool.splits)
  then show ?thesis
  proof cases
    case a then show ?thesis by (intro fresh [of "disk st"]) simp_all
  next
    case b then show ?thesis by (intro kept) simp_all
  next
    case c then show ?thesis by (intro fresh) simp_all
  next
    case d then show ?thesis by (intro kept [of "disk st"]) (simp_all add: not_less)
  qed
qed

lemma reserve_any:
  assumes l: "layout_ok st" and n: "live st n" and s: "sfs_reserve dev st n need = (ok, st1)"
  shows "same_tree st st1"
    and "extents_ok st \<Longrightarrow> next_free st + unat need \<le> 65536 \<Longrightarrow>
      extents_ok st1 \<and> (ok \<longrightarrow> has_extent st1 n \<and> unat need \<le> unat (e_capacity_sectors (ent st1 n)))"
proof -
  have n64: "n < 64" using n by (simp add: live_def)
  have "same_tree st st1 \<and> (extents_ok st \<longrightarrow> next_free st + unat need \<le> 65536 \<longrightarrow>
      extents_ok st1 \<and> (ok \<longrightarrow> has_extent st1 n \<and> unat need \<le> unat (e_capacity_sectors (ent st1 n))))"
    using s
  proof (cases rule: reserve_cases)
    case (kept d)
    then show ?thesis using n by (auto simp: has_extent_def word_le_nat_alt)
  next
    case (fresh d)
    let ?sd = "st\<lparr>disk := d\<rparr>"
    have ld: "layout_ok ?sd" "live ?sd n" using l n by simp_all
    note S = set_extent_sel [OF ld(1) n64, of need]
    have "same_tree st st1"
      unfolding fresh(2) using same_tree_disk S(3) by (rule same_tree_trans)
    moreover have "extents_ok st1 \<and> has_extent st1 n \<and> unat need \<le> unat (e_capacity_sectors (ent st1 n))"
      if ex: "extents_ok st" and room: "next_free st + unat need \<le> 65536"
    proof -
      have sz: "file_size ?sd n \<le> 512 * unat need"
      proof (cases "has_extent st n")
        case True
        then have "e_capacity_sectors (ent st n) < need" using fresh(3) by (simp add: has_extent_def)
        then show ?thesis using extentD(3) [OF ex True] by (simp add: word_less_nat_alt)
      next
        case False
        with ex n show ?thesis by (simp add: extents_ok_def)
      qed
      have "extents_ok ?sd" "next_free ?sd + unat need \<le> 65536" using ex room by simp_all
      note O = set_extent_ok [OF ld this sz]
      have "has_extent st1 n"
        using O(3) ex n unfolding fresh(2)
        by (auto simp: has_extent_def same_tree_live [OF S(3)] ext_start_def extents_ok_def)
      with O show ?thesis unfolding fresh(2) by (simp add: S)
    qed
    ultimately show ?thesis by simp
  qed
  then show "same_tree st st1" "extents_ok st \<Longrightarrow> next_free st + unat need \<le> 65536 \<Longrightarrow>
      extents_ok st1 \<and> (ok \<longrightarrow> has_extent st1 n \<and> unat need \<le> unat (e_capacity_sectors (ent st1 n)))"
    by auto
qed

lemma write_any:
  assumes l: "layout_ok st" and s: "sfs_write dev st n off data len = (r, st')"
  shows "same_tree st st'"
    and "extents_ok st \<Longrightarrow> write_fits st off len \<Longrightarrow> extents_ok st'"
proof -
  have "same_tree st st' \<and> (extents_ok st \<and> write_fits st off len \<longrightarrow> extents_ok st')"
  proof (cases "is_file_node st n \<and> e_perm (ent st n) AND SFS_PERM_WRITE \<noteq> 0")
    case False
    with s have "st' = st" by (auto simp: sfs_write_def split: if_splits)
    then show ?thesis by simp
  next
    case True
    let ?need = "(off + len + 511) div 512"
    have n: "n < 64" "live st n" using True is_file_less is_file_live by blast+
    obtain ok st1 where R: "sfs_reserve dev st n ?need = (ok, st1)" by fastforce
    have t1: "same_tree st st1" by (rule reserve_any(1) [OF l n(2) R])
    have l1: "layout_ok st1" using t1 l by (simp add: same_tree_def)
    have x1: "extents_ok st1" "ok \<Longrightarrow> has_extent st1 n"
        "ok \<Longrightarrow> sectors_for (unat off + unat len) \<le> unat (e_capacity_sectors (ent st1 n))"
      if "extents_ok st \<and> write_fits st off len"
      using reserve_any(2) [OF l n(2) R] that need_sectors [of off len] by (auto simp: write_fits_def)
    let ?up = "\<lambda>s. upd_ent s n (\<lambda>e. e\<lparr>e_size := off + len\<rparr>)"
    have shapes: "st' = st1 \<or> (\<exists>d. st' = st1\<lparr>disk := d\<rparr>) \<or> (ok \<and> (\<exists>d d'. st' = (?up (st1\<lparr>disk := d\<rparr>))\<lparr>disk := d'\<rparr>))"
      using s True R
      by (auto simp: sfs_write_def Let_def split: prod.splits bool.splits if_splits dest!: sfs_flush_state)
    have up: "same_tree st1 (?up (st1\<lparr>disk := d\<rparr>))" for d
      by (rule same_tree_trans [OF same_tree_disk same_tree_upd]) (simp_all add: l1 n(1))
    have upx: "extents_ok (?up (st1\<lparr>disk := d\<rparr>))" if a: "extents_ok st \<and> write_fits st off len" and "ok" for d
    proof -
      have "unat (off + len) = unat off + unat len"
        using a by (simp add: write_fits_def unat_word_ariths)
      then have "unat (off + len) \<le> 512 * unat (e_capacity_sectors (ent st1 n))"
        using x1(3) [OF a \<open>ok\<close>] sectors_for_bound [of "unat off + unat len"] by linarith
      then show ?thesis
        using x1 [OF a] \<open>ok\<close> l1 by (intro set_size_ok(1)) simp_all
    qed
    from shapes show ?thesis
    proof (elim disjE exE conjE)
      assume "st' = st1"
      then show ?thesis using t1 x1(1) by simp
    next
      fix d assume "st' = st1\<lparr>disk := d\<rparr>"
      then show ?thesis using same_tree_trans [OF t1 same_tree_disk] x1(1) by simp
    next
      fix d d' assume ok and st': "st' = (?up (st1\<lparr>disk := d\<rparr>))\<lparr>disk := d'\<rparr>"
      have "same_tree st st'"
        unfolding st' by (rule same_tree_trans [OF same_tree_trans [OF t1 up] same_tree_disk])
      then show ?thesis using upx \<open>ok\<close> st' by simp
    qed
  qed
  then show "same_tree st st'" "extents_ok st \<Longrightarrow> write_fits st off len \<Longrightarrow> extents_ok st'" by auto
qed

section \<open>Reachable states\<close>

text \<open>
  One step is one call of an operation on any device, so every outcome of every sector
  transfer is covered.  With \<open>room\<close> the writes of the run stay on the medium, which
  \<^verbatim>\<open>sfs_write\<close> does not check itself.
\<close>

inductive sfs_step :: "'d block_device \<Rightarrow> bool \<Rightarrow> 'd sfs_state \<Rightarrow> 'd sfs_state \<Rightarrow> bool"
  for dev room where
  op_create: "is_dir st cwd \<Longrightarrow> sfs_create dev st path cwd ty perm = (r, st') \<Longrightarrow> sfs_step dev room st st'"
| op_remove: "is_dir st cwd \<Longrightarrow> sfs_remove dev st path cwd = (ok, st') \<Longrightarrow> sfs_step dev room st st'"
| op_read: "sfs_read dev st n off len = (bs, st') \<Longrightarrow> sfs_step dev room st st'"
| op_write: "room \<longrightarrow> write_fits st off len \<Longrightarrow> sfs_write dev st n off data len = (w, st') \<Longrightarrow>
    sfs_step dev room st st'"
| op_truncate: "sfs_truncate dev st n = (ok, st') \<Longrightarrow> sfs_step dev room st st'"

lemma sfs_read_state: "sfs_read dev st n off len = (r, st') \<Longrightarrow> \<exists>d. st' = st\<lparr>disk := d\<rparr>"
  by (auto simp: sfs_read_def Let_def split: if_splits prod.splits intro: exI [of _ "disk st"])

lemma sfs_step_inv:
  "sfs_step dev room st st' \<Longrightarrow> fs_tree st \<Longrightarrow> room \<longrightarrow> extents_ok st \<Longrightarrow>
     fs_tree st' \<and> (room \<longrightarrow> extents_ok st')"
proof (induction rule: sfs_step.induct)
  case (op_create st cwd path ty perm r st')
  then show ?case using sfs_create_tree create_extents fs_tree_layout by blast
next
  case (op_remove st cwd path ok st')
  then show ?case using sfs_remove_tree remove_extents is_dir_live by blast
next
  case (op_read st n off len bs st')
  then show ?case by (auto dest!: sfs_read_state)
next
  case (op_write st off len n data w st')
  note W = write_any [OF fs_tree_layout [OF op_write(3)] op_write(2)]
  show ?case using W(1) same_tree_tree op_write(1,3,4) W(2) by auto
next
  case (op_truncate st n ok st')
  note W = truncate_same [OF fs_tree_layout [OF op_truncate(2)] op_truncate(1)]
  show ?case using W(1) same_tree_tree op_truncate(2,3) W(2) by auto
qed

lemma sfs_steps_inv:
  "(sfs_step dev room)\<^sup>*\<^sup>* st st' \<Longrightarrow> fs_tree st \<Longrightarrow> room \<longrightarrow> extents_ok st \<Longrightarrow>
     fs_tree st' \<and> (room \<longrightarrow> extents_ok st')"
  by (induction rule: rtranclp_induct) (use sfs_step_inv in blast)+

lemma format_inv:
  assumes "sfs_init dev st = (ok, st')" "sfs_load dev st = (ld, st1)"
    "\<not> ld \<or> sb_magic (g_super st1) \<noteq> SFS_MAGIC \<or> sb_version (g_super st1) \<noteq> SFS_VERSION"
  shows "fs_tree st' \<and> extents_ok st'"
proof -
  note F = sfs_init_format [OF assms]
  have "has_extent st' i = False" for i using F by (auto simp: has_extent_def)
  with F show ?thesis by (auto simp: extents_ok_def ext_defs)
qed


section \<open>The abstract file store\<close>

text \<open>
  What the file system promises its callers: a map from node ids to byte lists.
  \<^verbatim>\<open>sec\<close> reads a sector of the medium.
\<close>

definition abs_files :: "('d \<Rightarrow> u32 \<Rightarrow> u8 list) \<Rightarrow> 'd sfs_state \<Rightarrow> u32 \<Rightarrow> u8 list option" where
  "abs_files sec st i = (if is_file_node st i then Some (content sec st i) else None)"

context sfs_client
begin

text \<open>Flushing the table leaves the data area, so the content of every file stays.\<close>

lemma flush_content:
  assumes f: "sfs_flush dev s = (True, s')" and l: "layout_ok s" and ex: "extents_ok s" and i: "live s i"
  shows "content sec s' i = content sec s i"
proof -
  note F = flush_spec [OF f l]
  obtain d where d: "s' = s\<lparr>disk := d\<rparr>" using F(4) by blast
  show ?thesis
  proof (rule content_cong [OF _ _ ex i])
    fix x :: u32 assume x: "has_extent s i" "ext_start s i \<le> unat x"
    then have "137 \<le> x" using extentD(1) [OF ex x(1)] by (simp add: word_le_nat_alt)
    then show "sec (disk s') x = sec (disk s) x" by (rule F(3))
  qed (simp_all add: d file_size_def)
qed

lemma upd_flush_files:
  assumes l: "layout_ok st" "n < 64" and ex: "extents_ok st" "extents_ok (upd_ent st n f)"
    and l': "layout_ok (upd_ent st n f)" and fl: "sfs_flush dev (upd_ent st n f) = (True, st')"
    and z: "e_size (f (ent st n)) = 0"
  shows "abs_files sec st' = (abs_files sec st)(n := (if is_file_node (upd_ent st n f) n then Some [] else None))"
proof
  fix i
  let ?s = "upd_ent st n f"
  obtain d where d: "st' = ?s\<lparr>disk := d\<rparr>" using sfs_flush_state [OF fl] by blast
  note e = ent_upd_layout [OF l, of f]
  have c: "content sec st' i = content sec ?s i" if "live ?s i"
    using flush_content [OF fl l' ex(2) that] .
  show "abs_files sec st' i = ((abs_files sec st)(n := (if is_file_node ?s n then Some [] else None))) i"
  proof (cases "i = n")
    case True
    then show ?thesis
      using c is_file_live [of ?s n] z by (auto simp: abs_files_def d e content_def file_size_def)
  next
    case False
    have "is_file_node ?s i = is_file_node st i" using False by (simp add: is_file_node_def e)
    moreover have "content sec ?s i = content sec st i"
      using False by (simp add: content_def file_size_def e)
    ultimately show ?thesis
      using False c is_file_live [of ?s i] by (auto simp: abs_files_def d)
  qed
qed

lemma create_files:
  assumes t: "fs_tree st" "is_dir st cwd" and ex: "extents_ok st"
    and s: "sfs_create dev st path cwd SFS_TYPE_FILE perm = (Some idx, st')"
  shows "abs_files sec st' = (abs_files sec st)(idx \<mapsto> [])"
proof -
  obtain cur lst where m: "sfs_find_free_entry st = Some idx"
      "sfs_flush dev (upd_ent st idx (new_entry cur lst SFS_TYPE_FILE perm)) = (True, st')"
    using s
  proof (cases rule: sfs_create_cases)
    case (made cur lst idx' d)
    then show ?thesis using that by simp
  qed simp
  let ?s = "upd_ent st idx (new_entry cur lst SFS_TYPE_FILE perm)"
  have i: "idx < 64" using find_free_SomeD [OF m(1)] by simp
  have l: "layout_ok st" "unat idx < 64" using t(1) find_free_SomeD [OF m(1)] by (auto intro: fs_tree_layout)
  have l': "layout_ok ?s" using layout_ent [OF l] by (intro layout_upd_ent [OF l(1)]) auto
  have ex': "extents_ok ?s" using i layout_less [OF l(1) i] by (intro extents_upd [OF ex]) auto
  have "is_file_node ?s idx" using i ent_upd_layout [OF l(1) i] by (simp add: is_file_node_def)
  then show ?thesis using upd_flush_files [OF l(1) i ex ex' l' m(2)] by simp
qed

lemma remove_files:
  assumes t: "fs_tree st" "live st cwd" and ex: "extents_ok st"
    and n: "sfs_resolve st path cwd = Some node" and s: "sfs_remove dev st path cwd = (True, st')"
  shows "abs_files sec st' = (abs_files sec st)(node := None)"
proof -
  have m: "sfs_flush dev (upd_ent st node (\<lambda>_. zero_entry)) = (True, st')"
    using s n by (auto simp: sfs_remove_def split: if_splits)
  have lv: "live st node" by (rule sfs_resolve_live [OF t n])
  then have i: "node < 64" by (simp add: live_def)
  have l: "layout_ok st" by (rule fs_tree_layout [OF t(1)])
  have l': "layout_ok (upd_ent st node (\<lambda>_. zero_entry))" by (intro layout_upd_ent [OF l]) auto
  have ex': "extents_ok (upd_ent st node (\<lambda>_. zero_entry))"
    using i layout_less [OF l i] by (intro extents_upd [OF ex]) (auto simp: zero_entry_def)
  have "\<not> is_file_node (upd_ent st node (\<lambda>_. zero_entry)) node"
    using ent_upd_layout [OF l i] by (simp add: is_file_node_def)
  then show ?thesis using upd_flush_files [OF l i ex ex' l' m] by (simp add: zero_entry_def)
qed

lemma truncate_files:
  assumes l: "layout_ok st" and ex: "extents_ok st" and s: "sfs_truncate dev st n = (True, st')"
  shows "is_file_node st n \<and> abs_files sec st' = (abs_files sec st)(n \<mapsto> [])"
  using s
proof (cases rule: sfs_truncate_cases)
  case (cleared d)
  let ?s = "upd_ent st n (\<lambda>e. e\<lparr>e_size := 0\<rparr>)"
  note n = is_file_less [OF cleared(1)] is_file_live [OF cleared(1)]
  have st: "same_tree st ?s" by (rule same_tree_upd [OF l n(1)]) simp
  have l': "layout_ok ?s" using st l by (simp add: same_tree_def)
  have ex': "extents_ok ?s" using n layout_less [OF l n(1)] by (auto intro!: extents_upd [OF ex])
  show ?thesis
    using upd_flush_files [OF l n(1) ex ex' l' cleared(3)] cleared(1) same_tree_live(2) [OF st] by simp
qed simp

end

interpretation ram_client: reliable_client ram_dev ram_sec
  unfolding reliable_client_def by (rule ram_reliable.reliable_store_axioms)

end
