(* ===== verification/Simple_FS_Props.thy ===== *)
theory Simple_FS_Props
  imports Simple_FS_Contract
begin

text \<open>
  The properties of SimpleFS with their concrete runs.  A property about data assumes a
  \<open>reliable_store\<close>: a disk whose 65536 sectors can be read and written and return what
  was written.  The runs use a small formatted disk with one file on the memory-backed
  driver.
\<close>

section \<open>A concrete disk\<close>

definition demo_entry :: "u8 \<Rightarrow> string \<Rightarrow> u32 \<Rightarrow> u32 \<Rightarrow> u32 \<Rightarrow> sfs_entry" where
  "demo_entry ty nm start sz cap = zero_entry\<lparr>e_used := 1, e_type := ty, e_perm := 3,
     e_start_lba := start, e_size := sz, e_capacity_sectors := cap,
     e_name := take 32 (str nm @ replicate 32 0)\<rparr>"

definition demo_fs :: "(u32 \<Rightarrow> u8 list) sfs_state" where
  "demo_fs = \<lparr>g_super = zero_super\<lparr>sb_magic := SFS_MAGIC, sb_version := SFS_VERSION,
                 sb_total_sectors := 65536, sb_max_entries := 64, sb_next_free_lba := 138\<rparr>,
              g_entries = [demo_entry SFS_TYPE_DIR ''/'' 0 0 0, demo_entry SFS_TYPE_FILE ''a'' 137 5 1]
                 @ replicate 62 zero_entry,
              disk = (\<lambda>_. [])(137 := str ''hello'')\<rparr>"

lemma demo_entry_sel [simp]:
  "e_used (demo_entry ty nm s z c) = 1" "e_type (demo_entry ty nm s z c) = ty"
  "e_perm (demo_entry ty nm s z c) = 3" "e_parent (demo_entry ty nm s z c) = 0"
  "e_start_lba (demo_entry ty nm s z c) = s" "e_size (demo_entry ty nm s z c) = z"
  "e_capacity_sectors (demo_entry ty nm s z c) = c"
  "e_name (demo_entry ty nm s z c) = take 32 (str nm @ replicate 32 0)"
  "e_reserved1 (demo_entry ty nm s z c) = replicate 12 0"
  by (simp_all add: demo_entry_def zero_entry_def)

lemma demo_ent:
  "ent demo_fs 0 = demo_entry SFS_TYPE_DIR ''/'' 0 0 0"
  "ent demo_fs 1 = demo_entry SFS_TYPE_FILE ''a'' 137 5 1"
  "i < 64 \<Longrightarrow> i \<noteq> 0 \<Longrightarrow> i \<noteq> 1 \<Longrightarrow> ent demo_fs i = zero_entry"
proof -
  show "ent demo_fs 0 = demo_entry SFS_TYPE_DIR ''/'' 0 0 0"
    "ent demo_fs 1 = demo_entry SFS_TYPE_FILE ''a'' 137 5 1"
    by (simp_all add: demo_fs_def ent_def)
  assume a: "i < 64" "i \<noteq> 0" "i \<noteq> 1"
  have "unat i < 64" using a(1) by (simp add: word_less_nat_alt)
  moreover have "unat i \<noteq> 0" using a(2) by (simp add: unat_eq_0)
  moreover have "unat i \<noteq> 1" using a(3) word_unat_eq_iff [of i 1] by simp
  ultimately have "unat i = Suc (Suc (unat i - 2))" "unat i - 2 < 62" by linarith+
  then obtain k where "unat i = Suc (Suc k)" "k < 62" by blast
  then show "ent demo_fs i = zero_entry" by (simp add: demo_fs_def ent_def)
qed

lemma demo_live: "live demo_fs i \<longleftrightarrow> i = 0 \<or> i = 1"
proof (cases "i = 0 \<or> i = 1")
  case False
  then have "i < 64 \<Longrightarrow> ent demo_fs i = zero_entry" using demo_ent(3) by blast
  with False show ?thesis by (auto simp: live_def)
qed (auto simp: live_def demo_ent(1,2))

lemma demo_names: "node_name demo_fs 0 = [SLASH]" "node_name demo_fs 1 = str ''a''"
  by (simp_all add: node_name_def demo_ent str_def)

lemma demo_layout: "layout_ok demo_fs"
  by (auto simp: layout_ok_def demo_fs_def zero_super_def)

lemma demo_root: "sb_root_id (g_super demo_fs) = 0"
  by (simp add: demo_fs_def zero_super_def)

lemma demo_tree: "fs_tree demo_fs"
  unfolding fs_tree_def is_dir_def demo_live
proof (intro conjI allI impI)
  show "\<exists>rank :: u32 \<Rightarrow> nat. \<forall>i. (i = 0 \<or> i = 1) \<and> i \<noteq> 0 \<longrightarrow> rank (e_parent (ent demo_fs i)) < rank i"
    by (rule exI [of _ "\<lambda>i. if i = 0 then 0 else 1"]) (auto simp: demo_ent)
qed (auto simp: demo_layout demo_root demo_names demo_ent good_name_def str_def)

lemma demo_extent: "has_extent demo_fs i \<longleftrightarrow> i = 1"
  by (auto simp: has_extent_def demo_live demo_ent)

lemma demo_extents: "extents_ok demo_fs"
  by (auto simp: extents_ok_def demo_extent demo_live demo_ent ext_start_def ext_end_def file_size_def)
     (auto simp: next_free_def demo_fs_def)

lemma demo_file: "is_file_node demo_fs 1" "e_perm (ent demo_fs 1) = 3" "file_size demo_fs 1 = 5"
  "is_dir demo_fs 0" "next_free demo_fs = 138"
  by (simp_all add: is_file_node_def is_dir_def demo_live demo_ent file_size_def)
     (simp_all add: next_free_def demo_fs_def)

lemma demo_content: "content ram_sec demo_fs 1 = str ''hello''"
proof -
  have sec: "ram_sec (disk demo_fs) 137 = fit_sector (str ''hello'')"
    by (simp add: ram_sec_def demo_fs_def)
  have f: "fit_sector (str ''hello'') ! p = str ''hello'' ! p" if "p < 5" for p
    using that by (simp add: fit_sector_def nth_append str_def del: append.simps list.map)
  have "content ram_sec demo_fs 1 ! p = str ''hello'' ! p" if "p < 5" for p
    using that f [OF that] by (simp add: content_def demo_file demo_ent fbyte_def sec)
  then show ?thesis by (intro nth_equalityI) (simp_all add: demo_file str_def)
qed

lemmas demo_facts = demo_tree demo_extents demo_layout demo_file demo_live


section \<open>Data operations\<close>

lemma reliable_client_I:
  "reliable_store (blockdev_read dev) (blockdev_write dev) sec 65536 \<Longrightarrow> reliable_client dev sec"
  by (simp add: reliable_client_def)

lemma sfs_client_I: "sector_store (blockdev_read dev) (blockdev_write dev) sec \<Longrightarrow> sfs_client dev sec"
  by (simp add: sfs_client_def)

lemma ram_dev_reliable: "reliable_store (blockdev_read ram_dev) (blockdev_write ram_dev) ram_sec 65536"
  by (rule ram_reliable.reliable_store_axioms)

lemma ram_dev_store: "sector_store (blockdev_read ram_dev) (blockdev_write ram_dev) ram_sec"
  by (rule ram_reliable.sector_store_axioms)

lemma write_files:
  assumes "reliable_client dev sec" "fs_tree st" "extents_ok st"
    and n: "is_file_node st n" "e_perm (ent st n) AND SFS_PERM_WRITE \<noteq> 0"
    and off: "unat off \<le> file_size st n" "length data = unat len" "write_fits st off len"
  shows "\<exists>st'. sfs_write dev st n off data len = (Some len, st') \<and> fs_tree st' \<and> extents_ok st'
    \<and> same_tree st st'
    \<and> abs_files sec st' = (abs_files sec st)(n \<mapsto> overwrite (content sec st n) (unat off) data)"
proof -
  have ov: "unat off + unat len + 511 < 2 ^ 32"
    and room: "next_free st + sectors_for (unat off + unat len) \<le> 65536"
    using off(3) by (simp_all add: write_fits_def)
  obtain st' where w: "sfs_write dev st n off data len = (Some len, st')" "extents_ok st'" "same_tree st st'"
      "content sec st' n = overwrite (content sec st n) (unat off) data"
      "\<And>i. live st i \<Longrightarrow> i \<noteq> n \<Longrightarrow> content sec st' i = content sec st i"
    using reliable_client.sfs_write_eq [OF assms(1,3) fs_tree_layout [OF assms(2)] n off(1,2) ov room] by blast
  have "abs_files sec st' i = ((abs_files sec st)(n \<mapsto> overwrite (content sec st n) (unat off) data)) i" for i
    using w(4,5) n(1) is_file_live [of st i] same_tree_live(2) [OF w(3)] by (auto simp: abs_files_def)
  then show ?thesis using w(1-3) same_tree_tree [OF w(3)] assms(2) by blast
qed

text \<open>
  C1: \<^verbatim>\<open>sfs_write\<close> refines the splice of the byte list: a write at an offset inside the file,
  with room on the disk, reports all its bytes, replaces exactly the bytes at the offset (growing
  the file, and moving it to fresh sectors when it outgrew its extent), leaves every other
  file as it was, and keeps the tree and the extents well formed.
\<close>

theorem sfs_write_refines:
  assumes "reliable_store (blockdev_read dev) (blockdev_write dev) sec 65536"
    and "fs_tree st" "extents_ok st" "is_file_node st n" "e_perm (ent st n) AND SFS_PERM_WRITE \<noteq> 0"
    and "unat off \<le> file_size st n" "length data = unat len" "write_fits st off len"
  shows "\<exists>st'. sfs_write dev st n off data len = (Some len, st') \<and> fs_tree st' \<and> extents_ok st'
    \<and> abs_files sec st' = (abs_files sec st)(n \<mapsto> overwrite (content sec st n) (unat off) data)"
  using write_files [OF reliable_client_I [OF assms(1)] assms(2-)] by blast

theorem sfs_write_refines_witness:
  "\<exists>st'. sfs_write ram_dev demo_fs 1 5 (str ''!!'') 2 = (Some 2, st') \<and> fs_tree st' \<and> extents_ok st'
    \<and> abs_files ram_sec st' = (abs_files ram_sec demo_fs)(1 \<mapsto> str ''hello!!'')"
proof -
  have "write_fits demo_fs 5 2" by (simp add: write_fits_def demo_facts sectors_for_def)
  moreover have "overwrite (content ram_sec demo_fs 1) (unat (5 :: u32)) (str ''!!'') = str ''hello!!''"
    by (simp add: demo_content overwrite_def str_def)
  ultimately show ?thesis
    using sfs_write_refines [OF ram_dev_reliable demo_tree demo_extents demo_file(1), of 5 "str ''!!''" 2]
    by (simp add: demo_facts str_def)
qed

text \<open>
  \<^verbatim>\<open>sfs_read\<close> is slicing: it returns the bytes of the file from the offset on, cut at the
  requested length and at the end of the file (none at all behind the end), and changes no file.
\<close>

theorem sfs_read_refines:
  assumes "reliable_store (blockdev_read dev) (blockdev_write dev) sec 65536"
    and "extents_ok st" "is_file_node st n" "e_perm (ent st n) AND SFS_PERM_READ \<noteq> 0"
  shows "\<exists>d'. sfs_read dev st n off len
      = (Some (take (unat len) (drop (unat off) (content sec st n))), st\<lparr>disk := d'\<rparr>)
    \<and> abs_files sec (st\<lparr>disk := d'\<rparr>) = abs_files sec st"
  using reliable_client.sfs_read_eq [OF reliable_client_I [OF assms(1)] assms(2-), of off len]
  by (auto simp: abs_files_def content_def fbyte_def fun_eq_iff)

theorem sfs_read_refines_witness:
  "\<exists>d'. sfs_read ram_dev demo_fs 1 1 100 = (Some (str ''ello''), demo_fs\<lparr>disk := d'\<rparr>)"
  using sfs_read_refines [OF ram_dev_reliable demo_extents demo_file(1), of 1 100]
  by (simp add: demo_file demo_content) (auto simp: str_def)

text \<open>
  Reading back what was written: after a successful write inside the file, a read of the
  same range returns the written bytes, and a read of the whole file the spliced content.
\<close>

theorem sfs_write_then_read:
  assumes "reliable_store (blockdev_read dev) (blockdev_write dev) sec 65536"
    and "fs_tree st" "extents_ok st" "is_file_node st n"
    and "e_perm (ent st n) AND SFS_PERM_WRITE \<noteq> 0" "e_perm (ent st n) AND SFS_PERM_READ \<noteq> 0"
    and "unat off \<le> file_size st n" "length data = unat len" "write_fits st off len"
  shows "\<exists>st'. sfs_write dev st n off data len = (Some len, st')
    \<and> fst (sfs_read dev st' n off len) = Some data
    \<and> fst (sfs_read dev st' n 0 0xFFFFFFFF) = Some (overwrite (content sec st n) (unat off) data)"
proof -
  note R = reliable_client_I [OF assms(1)]
  obtain st' where w: "sfs_write dev st n off data len = (Some len, st')" "extents_ok st'" "same_tree st st'"
      "abs_files sec st' = (abs_files sec st)(n \<mapsto> overwrite (content sec st n) (unat off) data)"
    using write_files [OF R assms(2-5,7-9)] by blast
  have n: "is_file_node st' n" "e_perm (ent st' n) AND SFS_PERM_READ \<noteq> 0"
    using assms(4,6) w(3) same_tree_live(2) [OF w(3)] by (simp_all add: same_tree_def)
  have c: "content sec st' n = overwrite (content sec st n) (unat off) data"
    using n(1) fun_cong [OF w(4), of n] by (simp add: abs_files_def)
  have fs32: "unat (e_size (ent st' n)) < 2 ^ 32" using unsigned_less [of "e_size (ent st' n)"] by simp
  have "length (content sec st' n) \<le> unat (0xFFFFFFFF :: u32)"
    using fs32 by (simp add: file_size_def)
  then have all: "take (unat (0xFFFFFFFF :: u32)) (drop (unat (0 :: u32)) (content sec st' n)) = content sec st' n"
    by (simp del: length_content)
  have part: "take (unat len) (drop (unat off) (content sec st' n)) = data"
    using assms(7,8) by (simp add: c overwrite_def)
  show ?thesis
    using reliable_client.sfs_read_eq [OF R w(2) n, of off len]
      reliable_client.sfs_read_eq [OF R w(2) n, of 0 "0xFFFFFFFF"] all part c w(1) by auto
qed

theorem sfs_write_then_read_witness:
  "\<exists>st'. sfs_write ram_dev demo_fs 1 2 (str ''LP'') 2 = (Some 2, st')
    \<and> fst (sfs_read ram_dev st' 1 2 2) = Some (str ''LP'')
    \<and> fst (sfs_read ram_dev st' 1 0 0xFFFFFFFF) = Some (str ''heLPo'')"
proof -
  have "write_fits demo_fs 2 2" by (simp add: write_fits_def demo_facts sectors_for_def)
  moreover have "overwrite (content ram_sec demo_fs 1) (unat (2 :: u32)) (str ''LP'') = str ''heLPo''"
    by (simp add: demo_content overwrite_def str_def)
  ultimately show ?thesis
    using sfs_write_then_read [OF ram_dev_reliable demo_tree demo_extents demo_file(1), of 2 "str ''LP''" 2]
    by (simp add: demo_facts str_def)
qed


text \<open>
  Truncation, on any store that keeps what it wrote: a successful \<^verbatim>\<open>sfs_truncate\<close> makes the
  file the empty list and leaves all others; a refused one leaves the state as it was.
\<close>

theorem sfs_truncate_refines:
  assumes "sector_store (blockdev_read dev) (blockdev_write dev) sec"
    and "fs_tree st" "extents_ok st" "sfs_truncate dev st n = (ok, st')"
  shows "fs_tree st' \<and> extents_ok st' \<and> (ok \<longrightarrow> abs_files sec st' = (abs_files sec st)(n \<mapsto> []))
    \<and> (\<not> is_file_node st n \<or> e_perm (ent st n) AND SFS_PERM_WRITE = 0 \<longrightarrow> \<not> ok \<and> st' = st)"
proof -
  have "\<not> is_file_node st n \<or> e_perm (ent st n) AND SFS_PERM_WRITE = 0 \<Longrightarrow> \<not> ok \<and> st' = st"
    using assms(4) by (auto simp: sfs_truncate_def split: if_splits)
  moreover have "fs_tree st'" "extents_ok st'"
    using truncate_same [OF fs_tree_layout [OF assms(2)] assms(4)] same_tree_tree assms(2,3) by auto
  moreover have "ok \<longrightarrow> abs_files sec st' = (abs_files sec st)(n \<mapsto> [])"
    using sfs_client.truncate_files [OF sfs_client_I [OF assms(1)] fs_tree_layout [OF assms(2)] assms(3)]
      assms(4) by (cases ok) simp_all
  ultimately show ?thesis by blast
qed

theorem sfs_truncate_refines_witness:
  "\<exists>st'. sfs_truncate ram_dev demo_fs 1 = (True, st') \<and> abs_files ram_sec st' = (abs_files ram_sec demo_fs)(1 \<mapsto> [])"
proof -
  have "layout_ok (upd_ent demo_fs 1 (\<lambda>e. e\<lparr>e_size := 0\<rparr>))"
    by (intro layout_upd_ent [OF demo_layout]) (simp_all add: demo_ent)
  then obtain st' where t: "sfs_truncate ram_dev demo_fs 1 = (True, st')"
    using ram_client.flush_total by (fastforce simp: sfs_truncate_def demo_facts)
  with sfs_truncate_refines [OF ram_dev_store demo_tree demo_extents t] show ?thesis by blast
qed

section \<open>Reachable states\<close>


definition blank_fs :: "(u32 \<Rightarrow> u8 list) sfs_state" where
  "blank_fs = \<lparr>g_super = zero_super, g_entries = replicate 64 zero_entry, disk = (\<lambda>_. [])\<rparr>"

lemma blank_load: "\<exists>ld stl. sfs_load ram_dev blank_fs = (ld, stl) \<and> sb_magic (g_super stl) = 0"
proof -
  have keep: "g_super st' = g_super st" if "sfs_load_table dev i st = (b, st')" for dev i and st st' :: "'d sfs_state" and b
    using that
  proof (induction dev i st rule: sfs_load_table.induct)
    case (1 dev i st)
    show ?case
      using "1.prems" "1.IH"
      by (auto simp: sfs_load_table.simps [of dev i st] split: if_splits prod.splits option.splits)
  qed
  have "blockdev_read ram_dev 128 (disk blank_fs) = (Some (replicate 512 0), disk blank_fs)"
    by (simp add: ram_dev_def blockdev_defs ram_read_def blank_fs_def fit_sector_def)
  then show ?thesis
    using keep by (cases "sfs_load ram_dev blank_fs")
      (fastforce simp: sfs_load_def super_of_bytes_def le_u32_def rd_def)
qed


section \<open>The name space\<close>

text \<open>
  C17: \<^verbatim>\<open>sfs_create\<close> of a file under a path that does not end in a slash or a dot name: the path did
  not resolve before and resolves to the new node afterwards, the node was free, it has the
  requested permissions and no bytes, and no other node and no other file changes.
\<close>

theorem sfs_create_refines:
  assumes "sector_store (blockdev_read dev) (blockdev_write dev) sec"
    and "fs_tree st" "extents_ok st" "is_dir st cwd" "plain_path path"
    and "sfs_create dev st path cwd SFS_TYPE_FILE perm = (Some idx, st')"
  shows "sfs_resolve st path cwd = None \<and> \<not> live st idx \<and> sfs_resolve st' path cwd = Some idx
    \<and> e_perm (ent st' idx) = perm \<and> (\<forall>j. j \<noteq> idx \<longrightarrow> ent st' j = ent st j)
    \<and> fs_tree st' \<and> extents_ok st' \<and> abs_files sec st' = (abs_files sec st)(idx \<mapsto> [])"
  using sfs_create_resolves [OF assms(2,4-6)] sfs_create_tree [OF assms(2,4,6)]
    create_extents [OF assms(3) fs_tree_layout [OF assms(2)] assms(6)]
    sfs_client.create_files [OF sfs_client_I [OF assms(1)] assms(2,4,3,6)]
  by blast

lemma demo_walk: "create_walk demo_fs (str ''b'') 0 0 (replicate 32 0) = Some (0, str ''b'' @ replicate 31 0)"
  by code_simp

lemma demo_free: "sfs_find_free_entry demo_fs = Some 2"
  by code_simp

lemma demo_create_at:
  assumes w: "create_walk demo_fs path 0 0 (replicate 32 0) = Some (0, lst)" "rd path 0 \<noteq> SLASH" "rd path 0 \<noteq> 0"
    and n: "rd lst 0 \<noteq> 0" "cstr lst \<noteq> str ''/''" "cstr lst \<noteq> str ''a''"
  shows "\<exists>st'. sfs_create ram_dev demo_fs path 0 ty 3 = (Some 2, st')"
proof -
  have nc: "sfs_find_child demo_fs 0 lst = None"
  proof (cases "sfs_find_child demo_fs 0 lst")
    case (Some c)
    then show ?thesis using find_child_SomeD [OF Some] demo_names demo_live n by (auto simp: str_def)
  qed
  let ?s = "upd_ent demo_fs 2 (new_entry 0 lst ty 3)"
  have "layout_ok ?s"
    using layout_ent [OF demo_layout, of 2] by (intro layout_upd_ent [OF demo_layout]) simp_all
  then obtain st' where f: "sfs_flush ram_dev ?s = (True, st')" using ram_client.flush_total by blast
  then have "sfs_create ram_dev demo_fs path 0 ty 3 = (Some 2, st')"
    using w n(1) demo_free nc by (simp add: sfs_create_def walk_start_def new_entry_def [abs_def])
  then show ?thesis by blast
qed

lemma demo_create: "\<exists>st'. sfs_create ram_dev demo_fs (str ''b'') 0 SFS_TYPE_FILE 3 = (Some 2, st')"
  by (rule demo_create_at [OF demo_walk]) (simp_all add: str_def)

theorem sfs_create_refines_witness:
  "\<exists>st'. sfs_create ram_dev demo_fs (str ''b'') 0 SFS_TYPE_FILE 3 = (Some 2, st')
    \<and> sfs_resolve st' (str ''b'') 0 = Some 2 \<and> abs_files ram_sec st' = (abs_files ram_sec demo_fs)(2 \<mapsto> [])"
proof -
  obtain st' where c: "sfs_create ram_dev demo_fs (str ''b'') 0 SFS_TYPE_FILE 3 = (Some 2, st')"
    using demo_create by blast
  have "plain_path (str ''b'')" by code_simp
  with sfs_create_refines [OF ram_dev_store demo_tree demo_extents demo_file(4) _ c] c show ?thesis by blast
qed


text \<open>
  C19: \<^verbatim>\<open>sfs_remove\<close> of a path that names a node other than the working directory: the path no longer resolves,
  the node is free and was not the root, every other node keeps its entry, and the file
  store loses exactly that node.
\<close>

theorem sfs_remove_refines:
  assumes "sector_store (blockdev_read dev) (blockdev_write dev) sec"
    and "fs_tree st" "extents_ok st" "is_dir st cwd" "plain_path path"
    and "sfs_resolve st path cwd = Some node" "node \<noteq> cwd" "sfs_remove dev st path cwd = (True, st')"
  shows "sfs_resolve st' path cwd = None \<and> node \<noteq> 0 \<and> \<not> live st' node
    \<and> (\<forall>j. j \<noteq> node \<longrightarrow> ent st' j = ent st j)
    \<and> fs_tree st' \<and> extents_ok st' \<and> abs_files sec st' = (abs_files sec st)(node := None)"
  using sfs_remove_gone [OF assms(2,4-8)] sfs_remove_tree [OF assms(2) is_dir_live [OF assms(4)] assms(8)]
    remove_extents [OF assms(3,2) is_dir_live [OF assms(4)] assms(8)]
    sfs_client.remove_files [OF sfs_client_I [OF assms(1)] assms(2) is_dir_live [OF assms(4)] assms(3,6,8)]
  by blast

lemma demo_resolve: "sfs_resolve demo_fs (str ''/a'') 0 = Some 1"
proof -
  have "sfs_find_child demo_fs 0 (str ''a'') = Some 1"
    using find_child_iff [OF demo_tree] demo_names demo_live by (simp add: demo_ent str_def)
  moreover have "comps (cstr (str ''/a'')) = [str ''a'']" by code_simp
  moreover have "walk_start demo_fs (str ''/a'') 0 = 0" by (simp add: walk_start_def demo_root)
  ultimately show ?thesis by (simp add: sfs_resolve_follow str_def)
qed

theorem sfs_remove_refines_witness:
  "\<exists>st'. sfs_remove ram_dev demo_fs (str ''/a'') 0 = (True, st')
    \<and> sfs_resolve st' (str ''/a'') 0 = None \<and> abs_files ram_sec st' = (abs_files ram_sec demo_fs)(1 := None)"
proof -
  have "layout_ok (upd_ent demo_fs 1 (\<lambda>_. zero_entry))" by (intro layout_upd_ent [OF demo_layout]) simp_all
  then obtain st' where "sfs_flush ram_dev (upd_ent demo_fs 1 (\<lambda>_. zero_entry)) = (True, st')"
    using ram_client.flush_total by blast
  then have r: "sfs_remove ram_dev demo_fs (str ''/a'') 0 = (True, st')"
    by (simp add: sfs_remove_def demo_resolve demo_root demo_ent)
  have "plain_path (str ''/a'')" by code_simp
  with sfs_remove_refines [OF ram_dev_store demo_tree demo_extents demo_file(4) _ demo_resolve _ r] r
  show ?thesis by force
qed

text \<open>
  \<^verbatim>\<open>sfs_resolve\<close> equals the reference semantics of a path: split the string at its slashes, cut
  each component at 31 characters, start at the root or the working directory, and follow the
  components one by one, staying at a dot, going to the parent at a double dot.
\<close>

theorem sfs_resolve_reference:
  "sfs_resolve st path cwd = follow st (walk_start st path cwd) (comps (cstr path))"
  by (rule sfs_resolve_follow)

text \<open>
  \<^verbatim>\<open>sfs_remove\<close> refuses the root and every directory that still has an entry, and then changes
  nothing, neither in memory nor on the disk.
\<close>

theorem sfs_remove_refuses_nonempty:
  assumes "fs_tree st" "sfs_resolve st path cwd = Some node"
    and "node = 0 \<or> (live st j \<and> e_parent (ent st j) = node \<and> e_type (ent st node) = SFS_TYPE_DIR)"
  shows "sfs_remove dev st path cwd = (False, st)"
  using assms by (rule sfs_remove_refuses)

theorem sfs_remove_refuses_nonempty_witness:
  "sfs_remove ram_dev demo_fs (str ''/'') 0 = (False, demo_fs)"
proof -
  have "comps (cstr (str ''/'')) = []" by code_simp
  then have "sfs_resolve demo_fs (str ''/'') 0 = Some 0"
    by (simp add: sfs_resolve_follow walk_start_def demo_root)
  then show ?thesis by (rule sfs_remove_refuses_nonempty [OF demo_tree, of _ _ _ 1]) simp
qed

text \<open>
  \<^verbatim>\<open>sfs_list\<close> of a directory reports its children in table order, as many as fit into the
  caller's array, and the count is the number of slots it filled.
\<close>

theorem sfs_list_children:
  assumes "is_dir st dir" "mx \<le> length out" "sfs_list st dir out mx = (n, out')"
  shows "n = min mx (length (children st dir 0)) \<and> map ni_id (take n out') = take mx (children st dir 0)"
  using assms by (rule sfs_list_spec)

lemma demo_children: "children demo_fs 0 0 = [1]"
proof -
  have "filter (\<lambda>k :: u32. (k = 0 \<or> k = 1) \<and> e_parent (ent demo_fs k) = 0 \<and> k \<noteq> 0) xs
      = filter (\<lambda>k. k = 1) xs" for xs
    by (rule filter_cong) (auto simp: demo_ent)
  moreover have "filter (\<lambda>k :: u32. k = 1) (map of_nat [0..<64]) = [1]" by code_simp
  ultimately show ?thesis by (simp add: children_def demo_live)
qed

theorem sfs_list_children_witness:
  "\<exists>out'. sfs_list demo_fs 0 [\<lparr>ni_id = 9, ni_type = 0, ni_perm = 0, ni_parent = 0, ni_size = 0,
      ni_name = replicate 32 0\<rparr>] 1 = (1, out') \<and> map ni_id (take 1 out') = [1]"
  using sfs_list_children [OF demo_file(4), of 1 "[\<lparr>ni_id = 9, ni_type = 0, ni_perm = 0, ni_parent = 0,
      ni_size = 0, ni_name = replicate 32 0\<rparr>]"]
  by (cases "sfs_list demo_fs 0 [\<lparr>ni_id = 9, ni_type = 0, ni_perm = 0, ni_parent = 0,
      ni_size = 0, ni_name = replicate 32 0\<rparr>] 1") (simp add: demo_children)

text \<open>
  A dot name is no name: when \<^verbatim>\<open>sfs_create\<close> is called with the path of a dot or a double dot
  it succeeds, and makes a live node that no path resolves to, so it can be neither opened nor removed.
\<close>

theorem sfs_create_dot_leaks:
  assumes "fs_tree st" "is_dir st cwd" "cstr path \<in> {str ''.'', str ''..''}"
    and "sfs_create dev st path cwd ty perm = (Some idx, st')"
  shows "live st' idx \<and> (\<forall>p. sfs_resolve st' p cwd \<noteq> Some idx)"
  using assms by (rule sfs_create_dot_unreachable)


lemma demo_dot_walk: "create_walk demo_fs (str ''.'') 0 0 (replicate 32 0) = Some (0, str ''.'' @ replicate 31 0)"
  by code_simp

theorem sfs_create_dot_leaks_witness:
  "\<exists>st'. sfs_create ram_dev demo_fs (str ''.'') 0 SFS_TYPE_FILE 3 = (Some 2, st')
    \<and> live st' 2 \<and> (\<forall>p. sfs_resolve st' p 0 \<noteq> Some 2)"
proof -
  obtain st' where c: "sfs_create ram_dev demo_fs (str ''.'') 0 SFS_TYPE_FILE 3 = (Some 2, st')"
    using demo_create_at [OF demo_dot_walk] by (force simp: str_def)
  have "cstr (str ''.'') \<in> {str ''.'', str ''..''}" by (simp add: str_def)
  from sfs_create_dot_leaks [OF demo_tree demo_file(4) this c] c show ?thesis by blast
qed

section \<open>Mounting\<close>

context reliable_client
begin

lemma load_table_total: "\<exists>st'. sfs_load_table dev i st = (True, st')"
proof (induction "8 - i" arbitrary: i st)
  case 0
  then show ?case by (simp add: sfs_load_table.simps [of dev i st])
next
  case (Suc n)
  then have i: "i < 8" by simp
  have "(129 + of_nat i :: u32) < 65536" using i unat_table_lba [OF i] by (simp add: word_less_nat_alt)
  then obtain s d' where "blockdev_read dev (129 + of_nat i) (disk st) = (Some s, d')"
    using rd_sec_total by blast
  then show ?case using Suc.hyps(1) [of "Suc i"] Suc.hyps(2) i by (simp add: sfs_load_table.simps [of dev i st])
qed

lemma load_total: "\<exists>st'. sfs_load dev st = (True, st')"
proof -
  obtain s d' where "blockdev_read dev 128 (disk st) = (Some s, d')"
    using rd_sec_total [of 128 "disk st"] by auto
  then show ?thesis using load_table_total by (simp add: sfs_load_def)
qed

end

text \<open>
  C21: What was flushed is what is mounted: on a disk that keeps its sectors, any state whose table was
  flushed is found again by \<^verbatim>\<open>sfs_init\<close> after a restart, with the same superblock and the same node
  table, so neither the byte layout of the sectors nor the order of the transfers loses anything.
\<close>

theorem sfs_remount:
  assumes "reliable_store (blockdev_read dev) (blockdev_write dev) sec 65536"
    and "sfs_flush dev st = (True, st')" "layout_ok st"
    and "sb_magic (g_super st) = SFS_MAGIC" "sb_version (g_super st) = SFS_VERSION"
    and "disk st0 = disk st'" "length (g_entries st0) = 64"
  shows "\<exists>st2. sfs_init dev st0 = (True, st2) \<and> g_super st2 = g_super st \<and> g_entries st2 = g_entries st"
proof -
  note R = reliable_client_I [OF assms(1)]
  obtain st1 where "sfs_load dev st0 = (True, st1)" using reliable_client.load_total [OF R] by blast
  with sfs_client.mount_after_flush [OF reliable_client.sfs_client_here [OF R] assms(2-7)]
  show ?thesis by blast
qed

theorem sfs_remount_witness:
  "\<exists>st' st2. sfs_flush ram_dev demo_fs = (True, st')
    \<and> sfs_init ram_dev (blank_fs\<lparr>disk := disk st'\<rparr>) = (True, st2) \<and> g_entries st2 = g_entries demo_fs"
proof -
  obtain st' where f: "sfs_flush ram_dev demo_fs = (True, st')" using ram_client.flush_total [OF demo_layout] by blast
  have "sb_magic (g_super demo_fs) = SFS_MAGIC" "sb_version (g_super demo_fs) = SFS_VERSION"
    by (simp_all add: demo_fs_def)
  from sfs_remount [OF ram_dev_reliable f demo_layout this, of "blank_fs\<lparr>disk := disk st'\<rparr>"] f
  show ?thesis by (force simp: blank_fs_def)
qed


definition dead_dev :: "(u32 \<Rightarrow> u8 list) block_device" where
  "dead_dev = blockdev_init (\<lambda>l d. (None, d)) ram_write"


end
