(* ===== verification/VFS.thy ===== *)
theory VFS
  imports Simple_FS_Props
begin

text \<open>
  The virtual file system (\<^verbatim>\<open>src/fs/vfs.c\<close>): the table of 16 file descriptors, one
  context per terminal (working directory, its path string, environment) and the operations on them.

  The terminal of the running task comes from the scheduler and the display
  (\<^verbatim>\<open>display_terminal_session_for_task (scheduler_current_tid ())\<close>); it is the
  argument \<open>session\<close> of every operation that uses a context.  A C \<^verbatim>\<open>s32\<close> is an
  \<open>int\<close>, a byte count that is returned together with the bytes is the length of the list.
\<close>

section \<open>State\<close>

abbreviation VFS_O_READ :: u32 where "VFS_O_READ \<equiv> 1"
abbreviation VFS_O_WRITE :: u32 where "VFS_O_WRITE \<equiv> 2"
abbreviation VFS_O_CREATE :: u32 where "VFS_O_CREATE \<equiv> 4"
abbreviation VFS_O_TRUNC :: u32 where "VFS_O_TRUNC \<equiv> 8"
abbreviation VFS_MAX_FDS :: nat where "VFS_MAX_FDS \<equiv> 16"
abbreviation DISPLAY_MAX_TERMINALS :: nat where "DISPLAY_MAX_TERMINALS \<equiv> 16"
abbreviation VFS_CWD_PATH_MAX :: nat where "VFS_CWD_PATH_MAX \<equiv> 128"
abbreviation VFS_ENV_SLOTS :: nat where "VFS_ENV_SLOTS \<equiv> 16"
abbreviation VFS_ENV_KEY_MAX :: nat where "VFS_ENV_KEY_MAX \<equiv> 16"
abbreviation VFS_ENV_VALUE_MAX :: nat where "VFS_ENV_VALUE_MAX \<equiv> 64"

record vfs_fd =
  fd_used :: u8
  fd_node_id :: u32
  fd_offset :: u32
  fd_flags :: u32

record vfs_terminal_context =
  ctx_cwd :: u32
  cwd_path :: "u8 list"
  env_used :: "u8 list"
  env_keys :: "u8 list list"
  env_values :: "u8 list list"

record 'd vfs_state =
  g_fds :: "vfs_fd list"
  g_vfs_ctx :: "vfs_terminal_context list"
  fs :: "'d sfs_state"

section \<open>Contexts\<close>

definition vfs_session_index :: "int \<Rightarrow> nat" where
  "vfs_session_index session =
     (if 0 \<le> session \<and> session < int DISPLAY_MAX_TERMINALS then nat session else 0)"

definition vfs_context_for_session :: "'d vfs_state \<Rightarrow> int \<Rightarrow> vfs_terminal_context" where
  "vfs_context_for_session st session = g_vfs_ctx st ! vfs_session_index session"

definition put_context :: "'d vfs_state \<Rightarrow> int \<Rightarrow> vfs_terminal_context \<Rightarrow> 'd vfs_state" where
  "put_context st session c = st\<lparr>g_vfs_ctx := (g_vfs_ctx st)[vfs_session_index session := c]\<rparr>"

definition cwd_update :: "vfs_terminal_context \<Rightarrow> u8 list \<Rightarrow> vfs_terminal_context" where
  "cwd_update ctx path = ctx\<lparr>cwd_path := s_copy (cwd_path ctx) path VFS_CWD_PATH_MAX\<rparr>"

section \<open>The environment\<close>

definition env_key_valid :: "u8 list \<Rightarrow> bool" where
  "env_key_valid key \<longleftrightarrow> rd key 0 \<noteq> 0"

text \<open>The inner loop of \<^verbatim>\<open>env_find_slot\<close>: advance over the common prefix.\<close>

function common_prefix :: "u8 list \<Rightarrow> u8 list \<Rightarrow> nat \<Rightarrow> nat" where
  "common_prefix a b j =
     (if rd a j \<noteq> 0 \<and> rd b j \<noteq> 0 \<and> rd a j = rd b j then common_prefix a b (Suc j) else j)"
  by pat_completeness auto
termination
  by (relation "measure (\<lambda>(a, b, j). length a - j)") (auto simp: rd_def split: if_splits)

declare common_prefix.simps [simp del]

definition key_matches :: "u8 list \<Rightarrow> u8 list \<Rightarrow> bool" where
  "key_matches a key \<longleftrightarrow> s_len a = s_len key
     \<and> (let j = common_prefix a key 0 in rd a j = 0 \<and> rd key j = 0)"

definition env_find_slot :: "vfs_terminal_context \<Rightarrow> u8 list \<Rightarrow> nat option" where
  "env_find_slot ctx key =
     (if \<not> env_key_valid key then None
      else for_find (\<lambda>i. env_used ctx ! i \<noteq> 0 \<and> key_matches (env_keys ctx ! i) key) 0 VFS_ENV_SLOTS)"

definition env_find_free_slot :: "vfs_terminal_context \<Rightarrow> nat option" where
  "env_find_free_slot ctx = for_find (\<lambda>i. env_used ctx ! i = 0) 0 VFS_ENV_SLOTS"

definition ctx_setenv :: "vfs_terminal_context \<Rightarrow> u8 list \<Rightarrow> u8 list \<Rightarrow> vfs_terminal_context option" where
  "ctx_setenv ctx key val =
     (if \<not> env_key_valid key then None
      else case (case env_find_slot ctx key of Some s \<Rightarrow> Some s | None \<Rightarrow> env_find_free_slot ctx) of
             None \<Rightarrow> None
           | Some slot \<Rightarrow> Some (ctx\<lparr>
               env_used := (env_used ctx)[slot := 1],
               env_keys := (env_keys ctx)[slot := s_copy (env_keys ctx ! slot) key VFS_ENV_KEY_MAX],
               env_values := (env_values ctx)[slot := s_copy (env_values ctx ! slot) val VFS_ENV_VALUE_MAX]\<rparr>))"

definition ctx_getenv :: "vfs_terminal_context \<Rightarrow> u8 list \<Rightarrow> u8 list option" where
  "ctx_getenv ctx key = map_option (\<lambda>slot. env_values ctx ! slot) (env_find_slot ctx key)"

definition ctx_unsetenv :: "vfs_terminal_context \<Rightarrow> u8 list \<Rightarrow> vfs_terminal_context option" where
  "ctx_unsetenv ctx key =
     (case env_find_slot ctx key of
        None \<Rightarrow> None
      | Some slot \<Rightarrow> Some (ctx\<lparr>
          env_used := (env_used ctx)[slot := 0],
          env_keys := (env_keys ctx)[slot := (env_keys ctx ! slot)[0 := 0]],
          env_values := (env_values ctx)[slot := (env_values ctx ! slot)[0 := 0]]\<rparr>))"

definition vfs_setenv :: "'d vfs_state \<Rightarrow> int \<Rightarrow> u8 list \<Rightarrow> u8 list \<Rightarrow> bool \<times> 'd vfs_state" where
  "vfs_setenv st session key val =
     (case ctx_setenv (vfs_context_for_session st session) key val of
        None \<Rightarrow> (False, st)
      | Some c \<Rightarrow> (True, put_context st session c))"

definition vfs_getenv :: "'d vfs_state \<Rightarrow> int \<Rightarrow> u8 list \<Rightarrow> u8 list option" where
  "vfs_getenv st session key = ctx_getenv (vfs_context_for_session st session) key"

definition vfs_unsetenv :: "'d vfs_state \<Rightarrow> int \<Rightarrow> u8 list \<Rightarrow> bool \<times> 'd vfs_state" where
  "vfs_unsetenv st session key =
     (case ctx_unsetenv (vfs_context_for_session st session) key of
        None \<Rightarrow> (False, st)
      | Some c \<Rightarrow> (True, put_context st session c))"

section \<open>Mounting\<close>

definition reset_env :: "vfs_terminal_context \<Rightarrow> vfs_terminal_context" where
  "reset_env ctx = ctx\<lparr>env_used := map (\<lambda>_. 0) (env_used ctx),
     env_keys := map (\<lambda>k. k[0 := 0]) (env_keys ctx),
     env_values := map (\<lambda>v. v[0 := 0]) (env_values ctx)\<rparr>"

definition vfs_init :: "'d block_device \<Rightarrow> 'd vfs_state \<Rightarrow> bool \<times> 'd vfs_state" where
  "vfs_init dev st =
     (case sfs_init dev (fs st) of
        (False, f) \<Rightarrow> (False, st\<lparr>fs := f\<rparr>)
      | (True, f) \<Rightarrow> (True,
          \<lparr>g_fds = map (\<lambda>d. d\<lparr>fd_used := 0\<rparr>) (g_fds st),
           g_vfs_ctx = map (\<lambda>c. reset_env (cwd_update (c\<lparr>ctx_cwd := sfs_root_id f\<rparr>) (str ''/''))) (g_vfs_ctx st),
           fs = f\<rparr>))"

section \<open>Descriptors\<close>

definition vfs_open ::
  "'d block_device \<Rightarrow> 'd vfs_state \<Rightarrow> int \<Rightarrow> u8 list \<Rightarrow> u32 \<Rightarrow> int \<times> 'd vfs_state" where
  "vfs_open dev st session path flags =
     (let ctx = vfs_context_for_session st session in
      case (case sfs_resolve (fs st) path (ctx_cwd ctx) of
              Some n \<Rightarrow> (Some n, fs st)
            | None \<Rightarrow>
                if flags AND VFS_O_CREATE \<noteq> 0
                then sfs_create dev (fs st) path (ctx_cwd ctx) SFS_TYPE_FILE (SFS_PERM_READ OR SFS_PERM_WRITE)
                else (None, fs st)) of
        (None, f1) \<Rightarrow> (-1, st\<lparr>fs := f1\<rparr>)
      | (Some node_id, f1) \<Rightarrow>
          (case (if flags AND VFS_O_TRUNC \<noteq> 0 then sfs_truncate dev f1 node_id else (True, f1)) of
             (False, f2) \<Rightarrow> (-1, st\<lparr>fs := f2\<rparr>)
           | (True, f2) \<Rightarrow>
               (case for_find (\<lambda>i. fd_used (g_fds st ! i) = 0) 0 VFS_MAX_FDS of
                  None \<Rightarrow> (-1, st\<lparr>fs := f2\<rparr>)
                | Some i \<Rightarrow> (int i,
                    st\<lparr>fs := f2, g_fds := (g_fds st)[i := \<lparr>fd_used = 1, fd_node_id = node_id,
                                                    fd_offset = 0, fd_flags = flags\<rparr>]\<rparr>))))"

definition fd_usable :: "'d vfs_state \<Rightarrow> int \<Rightarrow> u32 \<Rightarrow> bool" where
  "fd_usable st fd mode \<longleftrightarrow> 0 \<le> fd \<and> fd < int VFS_MAX_FDS \<and> fd_used (g_fds st ! nat fd) \<noteq> 0
     \<and> fd_flags (g_fds st ! nat fd) AND mode \<noteq> 0"

definition fd_advance :: "'d vfs_state \<Rightarrow> int \<Rightarrow> u32 \<Rightarrow> 'd vfs_state" where
  "fd_advance st fd n = st\<lparr>g_fds := (g_fds st)[nat fd := (g_fds st ! nat fd)
     \<lparr>fd_offset := fd_offset (g_fds st ! nat fd) + n\<rparr>]\<rparr>"

definition vfs_read :: "'d block_device \<Rightarrow> 'd vfs_state \<Rightarrow> int \<Rightarrow> u32 \<Rightarrow> u8 list \<times> 'd vfs_state" where
  "vfs_read dev st fd len =
     (if \<not> fd_usable st fd VFS_O_READ then ([], st)
      else let d = g_fds st ! nat fd in
        case sfs_read dev (fs st) (fd_node_id d) (fd_offset d) len of
          (None, f) \<Rightarrow> ([], st\<lparr>fs := f\<rparr>)
        | (Some bs, f) \<Rightarrow> (bs, fd_advance (st\<lparr>fs := f\<rparr>) fd (of_nat (length bs))))"

definition vfs_write ::
  "'d block_device \<Rightarrow> 'd vfs_state \<Rightarrow> int \<Rightarrow> u8 list \<Rightarrow> u32 \<Rightarrow> u32 \<times> 'd vfs_state" where
  "vfs_write dev st fd data len =
     (if \<not> fd_usable st fd VFS_O_WRITE then (0, st)
      else let d = g_fds st ! nat fd in
        case sfs_write dev (fs st) (fd_node_id d) (fd_offset d) data len of
          (None, f) \<Rightarrow> (0, st\<lparr>fs := f\<rparr>)
        | (Some n, f) \<Rightarrow> (n, fd_advance (st\<lparr>fs := f\<rparr>) fd n))"

definition vfs_close :: "'d vfs_state \<Rightarrow> int \<Rightarrow> 'd vfs_state" where
  "vfs_close st fd =
     (if fd < 0 \<or> int VFS_MAX_FDS \<le> fd then st
      else st\<lparr>g_fds := (g_fds st)[nat fd := (g_fds st ! nat fd)\<lparr>fd_used := 0\<rparr>]\<rparr>)"

section \<open>Directories\<close>

definition vfs_mkdir :: "'d block_device \<Rightarrow> 'd vfs_state \<Rightarrow> int \<Rightarrow> u8 list \<Rightarrow> bool \<times> 'd vfs_state" where
  "vfs_mkdir dev st session path =
     (case sfs_create dev (fs st) path (ctx_cwd (vfs_context_for_session st session)) SFS_TYPE_DIR
             (SFS_PERM_READ OR SFS_PERM_WRITE OR SFS_PERM_EXEC) of
        (r, f) \<Rightarrow> (r \<noteq> None, st\<lparr>fs := f\<rparr>))"

definition vfs_remove :: "'d block_device \<Rightarrow> 'd vfs_state \<Rightarrow> int \<Rightarrow> u8 list \<Rightarrow> bool \<times> 'd vfs_state" where
  "vfs_remove dev st session path =
     (case sfs_remove dev (fs st) path (ctx_cwd (vfs_context_for_session st session)) of
        (ok, f) \<Rightarrow> (ok, st\<lparr>fs := f\<rparr>))"

text \<open>
  The edits of the path string in \<^verbatim>\<open>vfs_chdir\<close>.  The two backward loops of the double dot
  case have the same shape: clear characters while they satisfy a test, down to index 0.
\<close>

fun clear_back :: "(u8 \<Rightarrow> bool) \<Rightarrow> u8 list \<Rightarrow> nat \<Rightarrow> u8 list \<times> nat" where
  "clear_back p buf 0 = (buf, 0)"
| "clear_back p buf (Suc i) =
     (if p (rd buf (Suc i)) then clear_back p (buf[Suc i := 0]) i else (buf, Suc i))"

definition path_parent :: "u8 list \<Rightarrow> u8 list" where
  "path_parent buf =
     (if s_len buf > 1 then
        (let (b1, i1) = clear_back (\<lambda>c. c = SLASH) buf (s_len buf - 1);
             (b2, i2) = clear_back (\<lambda>c. c \<noteq> SLASH) b1 i1 in
         if i2 = 0 then b2[1 := 0] else b2[i2 := 0])
      else buf)"

function append_from :: "u8 list \<Rightarrow> nat \<Rightarrow> u8 list \<Rightarrow> nat \<Rightarrow> u8 list" where
  "append_from buf n path i =
     (if rd path i \<noteq> 0 then append_from (buf[n + i := rd path i]) n path (Suc i) else buf[n + i := 0])"
  by pat_completeness auto
termination
  by (relation "measure (\<lambda>(buf, n, path, i). length path - i)") (auto dest!: rd_nonzero_less)

declare append_from.simps [simp del]

definition path_append :: "u8 list \<Rightarrow> u8 list \<Rightarrow> u8 list" where
  "path_append buf path =
     (let n = s_len buf;
          (buf1, n1) = (if n > 1 \<and> rd buf (n - 1) \<noteq> SLASH \<and> n + 1 < VFS_CWD_PATH_MAX
                        then (buf[n := SLASH, n + 1 := 0], n + 1) else (buf, n)) in
      if n1 + s_len path + 1 < VFS_CWD_PATH_MAX then append_from buf1 n1 path 0 else buf1)"

definition chdir_path :: "vfs_terminal_context \<Rightarrow> u8 list \<Rightarrow> vfs_terminal_context" where
  "chdir_path ctx path =
     (if rd path 0 = SLASH then cwd_update ctx path
      else if rd path 0 = DOT \<and> rd path 1 = 0 then ctx
      else if rd path 0 = DOT \<and> rd path 1 = DOT \<and> rd path 2 = 0
      then ctx\<lparr>cwd_path := path_parent (cwd_path ctx)\<rparr>
      else ctx\<lparr>cwd_path := path_append (cwd_path ctx) path\<rparr>)"

definition blank_info :: sfs_node_info where
  "blank_info = \<lparr>ni_id = 0, ni_type = 0, ni_perm = 0, ni_parent = 0, ni_size = 0, ni_name = replicate 32 0\<rparr>"

definition stat_is_dir :: "'d sfs_state \<Rightarrow> u32 \<Rightarrow> bool" where
  "stat_is_dir f n = (case sfs_stat f n blank_info of None \<Rightarrow> False | Some i \<Rightarrow> ni_type i = SFS_TYPE_DIR)"

definition vfs_chdir :: "'d vfs_state \<Rightarrow> int \<Rightarrow> u8 list \<Rightarrow> bool \<times> 'd vfs_state" where
  "vfs_chdir st session path =
     (let ctx = vfs_context_for_session st session in
      case sfs_resolve (fs st) path (ctx_cwd ctx) of
        None \<Rightarrow> (False, st)
      | Some n \<Rightarrow>
          if \<not> stat_is_dir (fs st) n then (False, st)
          else (let ctx1 = chdir_path (ctx\<lparr>ctx_cwd := n\<rparr>) path;
                    ctx2 = (if rd (cwd_path ctx1) 0 = 0 then cwd_update ctx1 (str ''/'') else ctx1) in
                (True, put_context st session ctx2)))"

definition vfs_list ::
  "'d vfs_state \<Rightarrow> int \<Rightarrow> u8 list \<Rightarrow> sfs_node_info list \<Rightarrow> nat \<Rightarrow> nat \<times> sfs_node_info list" where
  "vfs_list st session path out_entries max_entries =
     (let c = ctx_cwd (vfs_context_for_session st session) in
      case (if rd path 0 = 0 then Some c else sfs_resolve (fs st) path c) of
        None \<Rightarrow> (0, out_entries)
      | Some n \<Rightarrow>
          if \<not> stat_is_dir (fs st) n then (0, out_entries)
          else sfs_list (fs st) n out_entries max_entries)"

definition vfs_stat_path :: "'d vfs_state \<Rightarrow> int \<Rightarrow> u8 list \<Rightarrow> sfs_node_info \<Rightarrow> sfs_node_info option" where
  "vfs_stat_path st session path out_info =
     (case sfs_resolve (fs st) path (ctx_cwd (vfs_context_for_session st session)) of
        None \<Rightarrow> None
      | Some n \<Rightarrow> sfs_stat (fs st) n out_info)"

definition vfs_get_cwd :: "'d vfs_state \<Rightarrow> int \<Rightarrow> u8 list" where
  "vfs_get_cwd st session = cwd_path (vfs_context_for_session st session)"

end
