(* ===== verification/VFS_Context.thy ===== *)
theory VFS_Context
  imports VFS
begin

text \<open>
  The terminal contexts of the virtual file system: the environment as a finite map, and the
  working directory string as a path that resolves to the working directory.
\<close>

section \<open>The environment is a map\<close>

definition env_ok :: "vfs_terminal_context \<Rightarrow> bool" where
  "env_ok c \<longleftrightarrow> length (env_used c) = 16 \<and> length (env_keys c) = 16 \<and> length (env_values c) = 16
     \<and> (\<forall>k \<in> set (env_keys c). length k = 16 \<and> length (cstr k) < 16) \<and> (\<forall>v \<in> set (env_values c). length v = 64)
     \<and> (\<forall>i j. i < 16 \<and> j < 16 \<and> env_used c ! i \<noteq> 0 \<and> env_used c ! j \<noteq> 0
              \<and> cstr (env_keys c ! i) = cstr (env_keys c ! j) \<longrightarrow> i = j)"

lemma common_prefix_end:
  "rd a (common_prefix a b j) = 0 \<and> rd b (common_prefix a b j) = 0 \<longleftrightarrow> cstr (drop j a) = cstr (drop j b)"
proof (induction a b j rule: common_prefix.induct)
  case (1 a b j)
  then show ?case
    by (cases "rd a j \<noteq> 0 \<and> rd b j \<noteq> 0 \<and> rd a j = rd b j")
       (auto simp: common_prefix.simps [of a b j] cstr_drop_unfold [of j a] cstr_drop_unfold [of j b])
qed

lemma key_matches_iff: "key_matches a key \<longleftrightarrow> cstr a = cstr key"
  using common_prefix_end [of a key 0] by (auto simp: key_matches_def s_len_eq Let_def)

lemma env_key_valid_iff: "env_key_valid key \<longleftrightarrow> cstr key \<noteq> []"
  by (cases key) (auto simp: env_key_valid_def)

lemma env_find_slot_cong: "cstr k = cstr k' \<Longrightarrow> env_find_slot c k = env_find_slot c k'"
  by (simp add: env_find_slot_def env_key_valid_iff key_matches_iff)

lemma env_find_slot_SomeD:
  "env_find_slot c k = Some i \<Longrightarrow> i < 16 \<and> env_used c ! i \<noteq> 0 \<and> cstr (env_keys c ! i) = cstr k \<and> cstr k \<noteq> []"
  by (auto simp: env_find_slot_def key_matches_iff env_key_valid_iff split: if_splits dest!: for_find_SomeD)

lemma env_find_slot_unique:
  assumes "env_ok c" "i < 16" "env_used c ! i \<noteq> 0" "cstr (env_keys c ! i) = cstr k" "cstr k \<noteq> []"
  shows "env_find_slot c k = Some i"
proof -
  have "\<not> (\<forall>j. 0 \<le> j \<and> j < 16 \<longrightarrow> \<not> (env_used c ! j \<noteq> 0 \<and> key_matches (env_keys c ! j) k))"
    using assms by (auto simp: key_matches_iff)
  then obtain j where j: "env_find_slot c k = Some j"
    using assms(5) unfolding env_find_slot_def env_key_valid_iff
    by (cases "for_find (\<lambda>i. env_used c ! i \<noteq> 0 \<and> key_matches (env_keys c ! i) k) 0 16")
       (auto simp: for_find_None_iff)
  have "j = i" using env_find_slot_SomeD [OF j] assms unfolding env_ok_def by metis
  with j show ?thesis by simp
qed

lemma env_find_slot_None:
  "cstr k \<noteq> [] \<Longrightarrow> env_find_slot c k = None \<Longrightarrow> i < 16 \<Longrightarrow> env_used c ! i \<noteq> 0 \<Longrightarrow> cstr (env_keys c ! i) \<noteq> cstr k"
  by (auto simp: env_find_slot_def env_key_valid_iff key_matches_iff for_find_None_iff)

lemma cstr_clear [simp]: "cstr (xs[0 := 0]) = []"
  by (cases xs) auto

text \<open>The slot that \<^verbatim>\<open>vfs_setenv\<close> writes holds the key already or was free.\<close>

lemma ctx_setenv_slot:
  assumes "ctx_setenv c key val = Some c'"
  obtains slot where "slot < 16" "cstr key \<noteq> []"
    "env_find_slot c key = Some slot \<or> (env_find_slot c key = None \<and> env_used c ! slot = 0)"
    "c' = c\<lparr>env_used := (env_used c)[slot := 1],
            env_keys := (env_keys c)[slot := s_copy (env_keys c ! slot) key 16],
            env_values := (env_values c)[slot := s_copy (env_values c ! slot) val 64]\<rparr>"
  using assms
  by (auto simp: ctx_setenv_def env_find_free_slot_def env_key_valid_iff split: if_splits option.splits
      dest: env_find_slot_SomeD for_find_SomeD)

lemma setenv_ok:
  assumes ok: "env_ok c" and k: "length (cstr key) \<le> 15" and s: "ctx_setenv c key val = Some c'"
  shows "env_ok c'"
    and "map_option cstr (ctx_getenv c' k) =
      (if cstr k = cstr key then Some (take 63 (cstr val)) else map_option cstr (ctx_getenv c k))"
proof -
  obtain slot where slot: "slot < 16" "cstr key \<noteq> []"
      "env_find_slot c key = Some slot \<or> (env_find_slot c key = None \<and> env_used c ! slot = 0)"
    and c': "c' = c\<lparr>env_used := (env_used c)[slot := 1],
            env_keys := (env_keys c)[slot := s_copy (env_keys c ! slot) key 16],
            env_values := (env_values c)[slot := s_copy (env_values c ! slot) val 64]\<rparr>"
    using s by (rule ctx_setenv_slot)
  have len: "length (env_used c) = 16" "length (env_keys c) = 16" "length (env_values c) = 16"
    "length (env_keys c ! slot) = 16" "length (env_values c ! slot) = 64"
    using ok slot(1) by (auto simp: env_ok_def)
  have key: "cstr (s_copy (env_keys c ! slot) key 16) = cstr key" using k len by simp
  have val: "cstr (s_copy (env_values c ! slot) val 64) = take 63 (cstr val)" using len by simp
  have used: "env_used c' ! i = (if i = slot then 1 else env_used c ! i)"
    and keys: "cstr (env_keys c' ! i) = (if i = slot then cstr key else cstr (env_keys c ! i))"
    and vals: "cstr (env_values c' ! i) = (if i = slot then take 63 (cstr val) else cstr (env_values c ! i))"
    if "i < 16" for i
    using that len key val by (simp_all add: c' nth_list_update)
  have other: "cstr (env_keys c ! i) \<noteq> cstr key" if "i < 16" "env_used c ! i \<noteq> 0" "i \<noteq> slot" for i
    using slot that env_find_slot_None env_find_slot_unique [OF ok that(1,2), of key] by fastforce
  show ok': "env_ok c'"
    unfolding env_ok_def
  proof (intro conjI allI impI)
    fix i j assume a: "i < 16 \<and> j < 16 \<and> env_used c' ! i \<noteq> 0 \<and> env_used c' ! j \<noteq> 0
      \<and> cstr (env_keys c' ! i) = cstr (env_keys c' ! j)"
    then show "i = j"
      using other [of i] other [of j] ok used keys unfolding env_ok_def
      by (cases "i = slot"; cases "j = slot") auto
  qed (use ok len in \<open>auto simp: c' env_ok_def dest!: set_update_subset_insert [THEN subsetD]\<close>)
  show "map_option cstr (ctx_getenv c' k) =
      (if cstr k = cstr key then Some (take 63 (cstr val)) else map_option cstr (ctx_getenv c k))"
  proof (cases "cstr k = cstr key")
    case True
    then have "env_find_slot c' k = Some slot"
      using slot used keys by (intro env_find_slot_unique [OF ok']) auto
    then show ?thesis using True vals slot(1) by (simp add: ctx_getenv_def)
  next
    case False
    have "env_find_slot c' k = env_find_slot c k"
    proof (cases "env_find_slot c k")
      case (Some i)
      have "i \<noteq> slot"
        using env_find_slot_SomeD [OF Some] slot(3) False env_find_slot_SomeD [of c key] by auto
      then show ?thesis
        using env_find_slot_SomeD [OF Some] used keys Some
        by (simp add: env_find_slot_unique [OF ok', of i])
    next
      case None
      have "env_find_slot c' k = None"
      proof (rule ccontr)
        assume "env_find_slot c' k \<noteq> None"
        then obtain i where "env_find_slot c' k = Some i" by auto
        then have i: "i < 16" "env_used c' ! i \<noteq> 0" "cstr (env_keys c' ! i) = cstr k" "cstr k \<noteq> []"
          using env_find_slot_SomeD by blast+
        then have "i \<noteq> slot" using keys False by auto
        then show False using env_find_slot_None [OF i(4) None i(1)] i used keys by auto
      qed
      with None show ?thesis by simp
    qed
    moreover have "cstr (env_values c' ! i) = cstr (env_values c ! i)" if "env_find_slot c k = Some i" for i
    proof -
      have "i \<noteq> slot"
        using env_find_slot_SomeD [OF that] slot(3) False env_find_slot_SomeD [of c key] by auto
      then show ?thesis using vals env_find_slot_SomeD [OF that] by simp
    qed
    ultimately show ?thesis
      using False by (cases "env_find_slot c k") (simp_all add: ctx_getenv_def)
  qed
qed

lemma unsetenv_ok:
  assumes ok: "env_ok c" and s: "ctx_unsetenv c key = Some c'"
  shows "env_ok c'"
    and "map_option cstr (ctx_getenv c' k) =
      (if cstr k = cstr key then None else map_option cstr (ctx_getenv c k))"
proof -
  obtain slot where f: "env_find_slot c key = Some slot" and
    c': "c' = c\<lparr>env_used := (env_used c)[slot := 0], env_keys := (env_keys c)[slot := (env_keys c ! slot)[0 := 0]],
          env_values := (env_values c)[slot := (env_values c ! slot)[0 := 0]]\<rparr>"
    using s by (auto simp: ctx_unsetenv_def split: option.splits)
  note slot = env_find_slot_SomeD [OF f]
  have len: "length (env_used c) = 16" "length (env_keys c) = 16" "length (env_values c) = 16"
    "length (env_keys c ! slot) = 16" "length (env_values c ! slot) = 64"
    using ok slot by (auto simp: env_ok_def)
  have used: "env_used c' ! i = (if i = slot then 0 else env_used c ! i)"
    and rest: "i \<noteq> slot \<Longrightarrow> env_keys c' ! i = env_keys c ! i \<and> env_values c' ! i = env_values c ! i"
    if "i < 16" for i
    using that len by (simp_all add: c' nth_list_update)
  show ok': "env_ok c'"
    unfolding env_ok_def
  proof (intro conjI allI impI)
    fix i j assume a: "i < 16 \<and> j < 16 \<and> env_used c' ! i \<noteq> 0 \<and> env_used c' ! j \<noteq> 0
      \<and> cstr (env_keys c' ! i) = cstr (env_keys c' ! j)"
    then have "i \<noteq> slot" "j \<noteq> slot" using used by auto
    with a show "i = j" using used rest ok unfolding env_ok_def by auto
  qed (use ok len in \<open>auto simp: c' env_ok_def dest!: set_update_subset_insert [THEN subsetD]\<close>)
  have find: "env_find_slot c' k = (if cstr k = cstr key then None else env_find_slot c k)"
  proof (cases "env_find_slot c' k")
    case (Some i)
    note i = env_find_slot_SomeD [OF Some]
    have "i \<noteq> slot" using i used by auto
    then have "env_find_slot c k = Some i"
      using i used rest by (intro env_find_slot_unique [OF ok]) auto
    then show ?thesis using Some f env_find_slot_cong [of k key c] \<open>i \<noteq> slot\<close> by auto
  next
    case None
    have "env_find_slot c k = None" if "cstr k \<noteq> cstr key"
    proof (rule ccontr)
      assume "env_find_slot c k \<noteq> None"
      then obtain i where "env_find_slot c k = Some i" by auto
      then have i: "i < 16" "env_used c ! i \<noteq> 0" "cstr (env_keys c ! i) = cstr k" "cstr k \<noteq> []"
        using env_find_slot_SomeD by blast+
      then have "i \<noteq> slot" using slot that by auto
      then show False using env_find_slot_None [OF i(4) None i(1)] i used rest by auto
    qed
    with None show ?thesis by simp
  qed
  moreover have "env_values c' ! i = env_values c ! i" if "env_find_slot c k = Some i" "cstr k \<noteq> cstr key" for i
    using env_find_slot_SomeD [OF that(1)] slot that(2) rest by (cases "i = slot") auto
  ultimately show "map_option cstr (ctx_getenv c' k) =
      (if cstr k = cstr key then None else map_option cstr (ctx_getenv c k))"
    by (cases "env_find_slot c k") (simp_all add: ctx_getenv_def)
qed

text \<open>A key of sixteen characters or more is stored cut, and is never found again.\<close>

lemma setenv_long:
  assumes ok: "env_ok c" and s: "ctx_setenv c key val = Some c'" and long: "16 \<le> length (cstr key)"
  shows "env_find_slot c' key = None"
proof (rule ccontr)
  assume "env_find_slot c' key \<noteq> None"
  then obtain i where "env_find_slot c' key = Some i" by auto
  then have i: "i < 16" "cstr (env_keys c' ! i) = cstr key"
    using env_find_slot_SomeD by blast+
  obtain slot where "c' = c\<lparr>env_used := (env_used c)[slot := 1],
            env_keys := (env_keys c)[slot := s_copy (env_keys c ! slot) key 16],
            env_values := (env_values c)[slot := s_copy (env_values c ! slot) val 64]\<rparr>" "slot < 16"
    using s by (rule ctx_setenv_slot)
  then have "length (cstr (env_keys c' ! i)) \<le> 15 \<or> cstr (env_keys c' ! i) = cstr (env_keys c ! i) \<and> i \<noteq> slot"
    using ok i(1) by (auto simp: env_ok_def nth_list_update)
  then show False
  proof
    assume "cstr (env_keys c' ! i) = cstr (env_keys c ! i) \<and> i \<noteq> slot"
    moreover have "length (cstr (env_keys c ! i)) < 16" using ok i(1) by (simp add: env_ok_def)
    ultimately show False using i(2) long by simp
  qed (use long i(2) in simp)
qed


section \<open>The working directory string\<close>

lemma comps_skip: "comps (dropWhile is_slash s) = comps s"
  by (simp add: comps.simps [of s] comps.simps [of "dropWhile is_slash s"] Let_def)

lemma dropWhile_stop: "dropWhile P (xs @ y # ys) = dropWhile P xs @ y # ys" if "\<not> P y" for P xs y ys
  using that by (induction xs) auto

lemma takeWhile_stop: "takeWhile P (xs @ y # ys) = takeWhile P xs" if "\<not> P y" for P xs y ys
  using that by (induction xs) auto

lemma dropWhile_append_ne: "dropWhile P xs \<noteq> [] \<Longrightarrow> dropWhile P (xs @ ys) = dropWhile P xs @ ys"
  by (induction xs) auto

lemma dropWhile_append_nil: "dropWhile P xs = [] \<Longrightarrow> dropWhile P (xs @ ys) = dropWhile P ys"
  by (induction xs) (auto split: if_splits)

text \<open>Splitting commutes with appending behind a slash.\<close>

lemma comps_append: "comps (a @ SLASH # b) = comps a @ comps b"
proof (induction a rule: comps.induct)
  case (1 a)
  let ?a1 = "dropWhile is_slash a" and ?n = "\<lambda>c :: u8. \<not> is_slash c"
  show ?case
  proof (cases "?a1 = []")
    case True
    have "comps (a @ SLASH # b) = comps (dropWhile is_slash (a @ SLASH # b))" by (rule comps_skip [symmetric])
    also have "\<dots> = comps (dropWhile is_slash b)" using True by (simp add: dropWhile_append_nil)
    finally show ?thesis using True by (simp add: comps_skip comps_Nil)
  next
    case False
    have d: "dropWhile is_slash (a @ SLASH # b) = ?a1 @ SLASH # b"
      using False by (rule dropWhile_append_ne)
    have "comps (a @ SLASH # b) = take 31 (takeWhile ?n ?a1) # comps (dropWhile ?n ?a1 @ SLASH # b)"
      using comps_Cons [OF d] by (simp add: dropWhile_stop takeWhile_stop)
    also have "\<dots> = take 31 (takeWhile ?n ?a1) # comps (dropWhile ?n ?a1) @ comps b"
      using "1" [OF refl False] by simp
    finally show ?thesis using comps_Cons [OF refl False] by simp
  qed
qed

lemma comps_slashes: "\<forall>c \<in> set s. c = SLASH \<Longrightarrow> comps s = []"
  by (rule comps_Nil) simp

lemma comps_name: "m \<noteq> [] \<Longrightarrow> SLASH \<notin> set m \<Longrightarrow> comps m = [take 31 m]"
proof -
  assume m: "m \<noteq> []" "SLASH \<notin> set m"
  have d: "dropWhile is_slash m = m" using m by (cases m) auto
  have "takeWhile (\<lambda>c. \<not> is_slash c) m = m" "dropWhile (\<lambda>c. \<not> is_slash c) m = []"
    using m(2) by (auto simp: takeWhile_eq_all_conv)
  with comps_Cons [OF d m(1)] show ?thesis by (simp add: comps_Nil)
qed

lemma comps_append_slashes: "\<forall>c \<in> set t. c = SLASH \<Longrightarrow> comps (s @ t) = comps s"
  by (cases t) (simp_all add: comps_append comps_slashes)

text \<open>The backward loops.\<close>

lemma clear_back_spec:
  "clear_back P buf i = (b, j) \<Longrightarrow> i < length buf \<Longrightarrow>
     j \<le> i \<and> (\<forall>k. j < k \<and> k \<le> i \<longrightarrow> P (buf ! k)) \<and> (j = 0 \<or> \<not> P (buf ! j)) \<and> length b = length buf
     \<and> (\<forall>k < length buf. b ! k = (if j < k \<and> k \<le> i then 0 else buf ! k))"
proof (induction P buf i arbitrary: b j rule: clear_back.induct)
  case (2 P buf i)
  show ?case
  proof (cases "P (rd buf (Suc i))")
    case True
    then have c: "clear_back P (buf[Suc i := 0]) i = (b, j)" using "2.prems"(1) by simp
    have "i < length (buf[Suc i := 0])" using "2.prems"(2) by simp
    note IH = "2.IH" [OF True c this]
    have p: "P (buf ! Suc i)" using True "2.prems"(2) by (simp add: rd_in)
    show ?thesis
      using IH p "2.prems"(2) by (auto simp: nth_list_update le_Suc_eq)
  next
    case False
    then show ?thesis using "2.prems" by (auto simp: rd_in)
  qed
qed auto

lemma cstr_take: "cstr buf = s \<Longrightarrow> length s < length buf \<Longrightarrow> take (length s) buf = s \<and> buf ! length s = 0"
proof -
  assume a: "cstr buf = s" "length s < length buf"
  have "take (length (takeWhile (\<lambda>c. c \<noteq> 0) buf)) buf = takeWhile (\<lambda>c. c \<noteq> 0) buf"
    by (rule takeWhile_eq_take [symmetric])
  then have "take (length s) buf = s" using a(1) by (simp add: cstr_def)
  moreover have "rd buf (length s) = 0" using a(1) rd_cstr_end by auto
  ultimately show ?thesis using a(2) by (simp add: rd_in)
qed

lemma cstr_cut:
  assumes "i \<le> length s" "\<forall>k < i. b ! k = s ! k" "b ! i = 0" "i < length b" "0 \<notin> set s"
  shows "cstr b = take i s"
proof -
  have "take i b = take i s" using assms by (intro nth_equalityI) auto
  then have "b = take i s @ 0 # drop (Suc i) b"
    using assms(3,4) by (metis append_take_drop_id Cons_nth_drop_Suc)
  moreover have "0 \<notin> set (take i s)" using assms(5) by (auto dest: in_set_takeD)
  ultimately show ?thesis by (metis cstr_append_zero)
qed

definition path_string :: "u8 list \<Rightarrow> bool" where
  "path_string buf \<longleftrightarrow> length buf = 128 \<and> length (cstr buf) < 128 \<and> rd buf 0 = SLASH"

lemma path_parent_spec:
  assumes p: "path_string buf"
  shows "path_string (path_parent buf) \<and> comps (cstr (path_parent buf)) = butlast (comps (cstr buf))"
proof (cases "s_len buf > 1")
  case False
  have "cstr buf \<noteq> []" "hd (cstr buf) = SLASH" using p by (cases buf; simp add: path_string_def)+
  then have "cstr buf = [SLASH]" using False by (cases "cstr buf") (auto simp: s_len_eq)
  then have "comps (cstr buf) = []" by (simp add: comps_slashes)
  then show ?thesis using p False by (simp add: path_parent_def)
next
  case True
  define s where "s = cstr buf"
  define n where "n = length s"
  have n1: "1 < n" using True by (simp add: n_def s_def s_len_eq)
  have nb: "n < 128" "length buf = 128" using p by (simp_all add: path_string_def n_def s_def)
  have bs: "buf ! k = s ! k" if "k < n" for k
    using cstr_take [of buf s] that nb by (metis n_def s_def nth_take)
  have s0: "s ! 0 = SLASH" using bs [of 0] n1 p by (cases buf) (auto simp: path_string_def)
  have sz: "0 \<notin> set s" unfolding s_def using cstr_nonzero by blast
  obtain b1 i1 where c1: "clear_back (\<lambda>c. c = SLASH) buf (n - 1) = (b1, i1)" by fastforce
  obtain b2 i2 where c2: "clear_back (\<lambda>c. c \<noteq> SLASH) b1 i1 = (b2, i2)" by fastforce
  have l: "n - 1 < length buf" using nb by simp
  note S1 = clear_back_spec [OF c1 l]
  have l1: "i1 < length b1" using S1 l by linarith
  note S2 = clear_back_spec [OF c2 l1]
  define e where "e = (if i2 = 0 then 1 else i2)"
  have pp: "path_parent buf = b2[e := 0]"
    using True c1 c2 by (simp add: path_parent_def e_def n_def s_def s_len_eq)
  have e: "e \<le> n" "e < 128" "0 < e" using S1 S2 n1 nb by (auto simp: e_def)
  have b2: "b2 ! k = s ! k" if "k < e" for k
  proof -
    have "k \<le> i2" "k < n" using that S1 S2 n1 by (auto simp: e_def split: if_splits)
    then have "b2 ! k = b1 ! k" "b1 ! k = buf ! k" using S1 S2 nb by auto
    then show ?thesis using bs [OF \<open>k < n\<close>] by simp
  qed
  have len: "length b2 = 128" using S1 S2 nb by simp
  have cp: "cstr (path_parent buf) = take e s"
    unfolding pp by (rule cstr_cut) (use e b2 len sz in \<open>auto simp: n_def\<close>)
  have ps: "path_string (path_parent buf)"
    using cp e len b2 [of 0] s0 unfolding path_string_def pp by (simp add: rd_in)
  have b1: "b1 ! k = s ! k" if "k \<le> i1" "k < n" for k
    using S1 that bs [of k] nb by auto
  have sls: "s ! k = SLASH" if "i1 < k" "k < n" for k
    using S1 bs [OF that(2)] that by simp
  have tail: "\<forall>c \<in> set (drop (Suc i1) s). c = SLASH"
    using sls by (auto simp: in_set_conv_nth n_def)
  have split1: "comps s = comps (take (Suc i1) s)"
    using comps_append_slashes [OF tail, of "take (Suc i1) s"] by simp
  show ?thesis
  proof (cases "i1 = 0")
    case True
    then have "i2 = 0" using S2 by simp
    then have "take e s = take (Suc i1) s" using True by (simp add: e_def)
    moreover have "comps (take (Suc i1) s) = []"
      using True s0 n1 by (intro comps_slashes) (cases s; auto simp: n_def)
    ultimately show ?thesis using ps cp split1 by (simp add: s_def)
  next
    case False
    have i1n: "i1 < n" using S1 n1 by linarith
    have nm: "s ! i1 \<noteq> SLASH" using S1 False bs [OF i1n] by auto
    have i2: "i2 < i1" using S2 nm b1 [of i1] i1n False S1 by (metis le_neq_implies_less order_refl s0)
    have sl: "s ! i2 = SLASH"
      using S2 b1 [of i2] i2 i1n s0 by (cases "i2 = 0") auto
    let ?m = "drop (Suc i2) (take (Suc i1) s)"
    have m: "?m \<noteq> []" "SLASH \<notin> set ?m"
      using S2 i2 i1n b1 by (auto simp: n_def in_set_conv_nth)
    have "take (Suc i1) s = take i2 s @ SLASH # ?m"
    proof -
      have "take (Suc i1) s ! i2 = SLASH" "i2 < length (take (Suc i1) s)" using sl i2 i1n by (simp_all add: n_def)
      then have "take (Suc i1) s = take i2 (take (Suc i1) s) @ SLASH # ?m"
        by (metis id_take_nth_drop)
      then show ?thesis using i2 by (simp add: min_def)
    qed
    then have "comps (take (Suc i1) s) = comps (take i2 s) @ comps ?m"
      using comps_append [of "take i2 s" ?m] by (simp only:)
    then have "comps s = comps (take i2 s) @ [take 31 ?m]"
      unfolding split1 comps_name [OF m] .
    moreover have "comps (take e s) = comps (take i2 s)"
    proof (cases "i2 = 0")
      case True
      then have "take e s = [SLASH]" using s0 n1 by (cases s) (auto simp: e_def n_def)
      then show ?thesis using True by (simp add: comps_slashes)
    qed (simp add: e_def)
    ultimately show ?thesis using ps cp by (simp add: s_def)
  qed
qed

text \<open>Appending a relative path.\<close>

lemma append_from_spec:
  "n + i + length (cstr (drop i path)) < length buf \<Longrightarrow>
   append_from buf n path i = take (n + i) buf @ cstr (drop i path) @ 0
     # drop (Suc (n + i + length (cstr (drop i path)))) buf"
proof (induction buf n path i rule: append_from.induct)
  case (1 buf n path i)
  show ?case
  proof (cases "rd path i \<noteq> 0")
    case True
    have u: "cstr (drop i path) = rd path i # cstr (drop (Suc i) path)"
      using True by (simp add: cstr_drop_unfold [of i path])
    have t: "take (Suc (n + i)) (buf[n + i := rd path i]) = take (n + i) buf @ [rd path i]"
      using "1.prems" by (simp add: take_Suc_conv_app_nth)
    show ?thesis
      using True "1.IH" [OF True] "1.prems" by (simp add: append_from.simps [of buf n path i] u t)
  next
    case False
    have u: "cstr (drop i path) = []" using False by (simp add: cstr_drop_unfold [of i path])
    show ?thesis
      using False "1.prems" by (simp add: append_from.simps [of buf n path i] u upd_conv_take_nth_drop)
  qed
qed

lemma path_append_spec:
  assumes p: "path_string buf" and fit: "length (cstr buf) + length (cstr path) + 2 < 128"
  shows "path_string (path_append buf path)
    \<and> comps (cstr (path_append buf path)) = comps (cstr buf) @ comps (cstr path)"
proof -
  define s where "s = cstr buf"
  define n where "n = length s"
  have nb: "n < 128" "length buf = 128" using p by (simp_all add: path_string_def n_def s_def)
  have ts: "take n buf = s" using cstr_take [of buf s] nb by (simp add: n_def s_def)
  have sz: "0 \<notin> set s" unfolding s_def using cstr_nonzero by blast
  have s0: "s \<noteq> []" "s ! 0 = SLASH" using p by (cases buf; auto simp: path_string_def s_def)+
  have ln: "rd buf (n - 1) = s ! (n - 1)"
  proof -
    have "n - 1 < n" using s0(1) by (simp add: n_def)
    then have "s ! (n - 1) = take n buf ! (n - 1)" "rd buf (n - 1) = buf ! (n - 1)"
      using ts nb by (simp_all add: rd_in)
    then show ?thesis using \<open>n - 1 < n\<close> by simp
  qed
  let ?sep = "n > 1 \<and> rd buf (n - 1) \<noteq> SLASH \<and> n + 1 < 128"
  define b1 where "b1 = (if ?sep then buf[n := SLASH, n + 1 := 0] else buf)"
  define n1 where "n1 = (if ?sep then n + 1 else n)"
  define t where "t = (if ?sep then s @ [SLASH] else s)"
  have t1: "take n1 b1 = t" "length t = n1" "length b1 = 128"
    using ts nb by (auto simp: b1_def n1_def t_def n_def take_Suc_conv_app_nth)
  have fit1: "n1 + length (cstr path) + 1 < 128" using fit by (auto simp: n1_def n_def s_def)
  have pa: "path_append buf path = append_from b1 n1 path 0"
    using fit1 by (auto simp: path_append_def s_len_eq b1_def n1_def n_def s_def Let_def)
  have af: "append_from b1 n1 path 0 = t @ cstr path @ 0 # drop (Suc (n1 + length (cstr path))) b1"
    using append_from_spec [of n1 0 path b1] fit1 t1 by simp
  have tz: "0 \<notin> set (t @ cstr path)" using sz cstr_nonzero by (auto simp: t_def)
  have c: "cstr (path_append buf path) = t @ cstr path"
    using cstr_append_zero [OF tz] by (simp add: pa af)
  have t0: "t \<noteq> []" "t ! 0 = SLASH" using s0 by (auto simp: t_def nth_append)
  have "path_string (path_append buf path)"
    using t0 fit1 t1 length_greater_0_conv [of t] unfolding path_string_def c by (simp add: pa af rd_in nth_append)
  moreover have "comps (t @ cstr path) = comps s @ comps (cstr path)"
  proof (cases ?sep)
    case True
    then show ?thesis by (simp add: t_def comps_append)
  next
    case False
    then have "n \<le> 1 \<or> s ! (n - 1) = SLASH" using ln fit by (auto simp: n_def s_def)
    then have "last s = SLASH" using s0 by (cases "n \<le> 1") (auto simp: n_def last_conv_nth)
    then have "s = butlast s @ [SLASH]" using s0(1) append_butlast_last_id by metis
    then have "comps (s @ cstr path) = comps (butlast s) @ comps (cstr path)" "comps s = comps (butlast s) @ comps []"
      using comps_append [of "butlast s" "cstr path"] comps_append [of "butlast s" "[]"] by (metis append.assoc append_Cons append_Nil)+
    moreover have "t = s" unfolding t_def using False by (rule if_not_P)
    ultimately show ?thesis by (simp add: comps_slashes)
  qed
  ultimately show ?thesis using c by (simp add: s_def)
qed


text \<open>The string names the working directory.\<close>

definition cwd_named :: "'d sfs_state \<Rightarrow> vfs_terminal_context \<Rightarrow> bool" where
  "cwd_named f c \<longleftrightarrow> path_string (cwd_path c) \<and> sfs_resolve f (cwd_path c) 0 = Some (ctx_cwd c)"

definition chdir_fits :: "vfs_terminal_context \<Rightarrow> u8 list \<Rightarrow> bool" where
  "chdir_fits c path \<longleftrightarrow>
     (if rd path 0 = SLASH then length (cstr path) < 128
      else length (cstr (cwd_path c)) + length (cstr path) + 2 < 128)
     \<and> (cstr path = str ''..'' \<longrightarrow> (\<forall>nm \<in> set (comps (cstr (cwd_path c))). nm \<noteq> str ''.'' \<and> nm \<noteq> str ''..''))"

lemma cwd_named_iff:
  "fs_tree f \<Longrightarrow> path_string (cwd_path c) \<Longrightarrow>
     cwd_named f c \<longleftrightarrow> follow f 0 (comps (cstr (cwd_path c))) = Some (ctx_cwd c)"
  by (auto simp: cwd_named_def sfs_resolve_follow walk_start_def path_string_def fs_tree_root)

lemma cstr_dot: "rd p 0 = DOT \<Longrightarrow> rd p 1 = 0 \<Longrightarrow> cstr p = str ''.''"
  "rd p 0 = DOT \<Longrightarrow> rd p 1 = DOT \<Longrightarrow> rd p 2 = 0 \<Longrightarrow> cstr p = str ''..''"
  using cstr_drop_unfold [of 0 p, folded One_nat_def] cstr_drop_unfold [of 1 p, unfolded Suc_1]
    cstr_drop_unfold [of 2 p]
  by (simp_all add: str_def del: One_nat_def)

lemma comps_dots: "comps (str ''.'') = [str ''.'']" "comps (str ''..'') = [str ''..'']"
  "str ''..'' \<noteq> str ''.''"
  by (simp_all add: comps_name str_def)

lemma follow_parent:
  assumes t: "fs_tree f" and w: "follow f 0 nms = Some c"
    and n: "\<forall>nm \<in> set nms. nm \<noteq> str ''.'' \<and> nm \<noteq> str ''..''"
  shows "follow f 0 (butlast nms) = Some (e_parent (ent f c))"
proof (cases nms rule: rev_cases)
  case Nil
  then show ?thesis using w fs_tree_root(3) [OF t] by simp
next
  case (snoc xs nm)
  then obtain d where d: "follow f 0 xs = Some d" "sfs_find_child f d nm = Some c"
    using w n by (auto simp: follow_append split: option.splits)
  then have "e_parent (ent f c) = d" using find_child_SomeD by blast
  with snoc d show ?thesis by simp
qed

lemma chdir_path_named:
  assumes t: "fs_tree f" and c: "cwd_named f c" and r: "sfs_resolve f path (ctx_cwd c) = Some n"
    and fit: "chdir_fits c path"
  shows "cwd_named f (chdir_path (c\<lparr>ctx_cwd := n\<rparr>) path)" (is "cwd_named f ?c'")
proof -
  have ps: "path_string (cwd_path c)" using c by (simp add: cwd_named_def)
  have w: "follow f 0 (comps (cstr (cwd_path c))) = Some (ctx_cwd c)"
    using c cwd_named_iff [OF t ps] by simp
  consider (abs) "rd path 0 = SLASH"
    | (dot) "rd path 0 = DOT" "rd path 1 = 0"
    | (dots) "rd path 0 = DOT" "rd path 1 = DOT" "rd path 2 = 0"
    | (rel) "rd path 0 \<noteq> SLASH" "\<not> (rd path 0 = DOT \<and> rd path 1 = 0)"
        "\<not> (rd path 0 = DOT \<and> rd path 1 = DOT \<and> rd path 2 = 0)" by blast
  then show ?thesis
  proof cases
    case abs
    have l: "length (cwd_path c) = 128" "length (cstr path) < 128"
      using ps fit abs by (simp_all add: path_string_def chdir_fits_def)
    have s: "cwd_path ?c' = s_copy (cwd_path c) path 128" "ctx_cwd ?c' = n"
      using abs by (simp_all add: chdir_path_def cwd_update_def)
    have cs: "cstr (s_copy (cwd_path c) path 128) = cstr path" using l by simp
    have "rd (s_copy (cwd_path c) path 128) 0 = SLASH"
      using cs abs by (cases "s_copy (cwd_path c) path 128"; cases path) (auto split: if_splits)
    then have p': "path_string (cwd_path ?c')" using l cs s by (simp add: path_string_def)
    show ?thesis
      unfolding cwd_named_iff [OF t p'] using r abs fs_tree_root(2) [OF t]
      by (simp add: s cs sfs_resolve_follow walk_start_def)
  next
    case dot
    then have "n = ctx_cwd c"
      using r by (simp add: sfs_resolve_follow walk_start_def cstr_dot comps_dots)
    then show ?thesis using c dot by (simp add: chdir_path_def)
  next
    case dots
    have n: "n = e_parent (ent f (ctx_cwd c))"
      using r dots cstr_dot(2) [OF dots] by (simp add: sfs_resolve_follow walk_start_def comps_dots)
    have s: "cwd_path ?c' = path_parent (cwd_path c)" "ctx_cwd ?c' = n"
      using dots by (simp_all add: chdir_path_def)
    note P = path_parent_spec [OF ps]
    have p': "path_string (cwd_path ?c')" using P s by simp
    have "\<forall>nm \<in> set (comps (cstr (cwd_path c))). nm \<noteq> str ''.'' \<and> nm \<noteq> str ''..''"
      using fit cstr_dot(2) [OF dots] by (simp add: chdir_fits_def)
    then show ?thesis
      unfolding cwd_named_iff [OF t p'] using follow_parent [OF t w] P n s by simp
  next
    case rel
    have s: "cwd_path ?c' = path_append (cwd_path c) path" "ctx_cwd ?c' = n"
      using rel by (auto simp: chdir_path_def)
    have "length (cstr (cwd_path c)) + length (cstr path) + 2 < 128"
      using fit rel(1) by (simp add: chdir_fits_def)
    note P = path_append_spec [OF ps this]
    have p': "path_string (cwd_path ?c')" using P s by simp
    show ?thesis
      unfolding cwd_named_iff [OF t p'] using P w r rel(1)
      by (simp add: s follow_append sfs_resolve_follow walk_start_def)
  qed
qed

end
