(* ===== verification/VFS_Props.thy ===== *)
theory VFS_Props
  imports VFS_Context
begin

text \<open>
  The properties of the virtual file system: descriptors, sequential reading and writing, the
  working directory and the environment.
\<close>

section \<open>Sequences of reads and writes\<close>

text \<open>A client that writes a list of chunks, and one that reads a list of lengths.\<close>

fun write_seq :: "'d block_device \<Rightarrow> 'd vfs_state \<Rightarrow> int \<Rightarrow> u8 list list \<Rightarrow> u32 list \<times> 'd vfs_state" where
  "write_seq dev st fd [] = ([], st)"
| "write_seq dev st fd (c # cs) =
     (case vfs_write dev st fd c (of_nat (length c)) of
        (n, st1) \<Rightarrow> (case write_seq dev st1 fd cs of (ns, st2) \<Rightarrow> (n # ns, st2)))"

fun read_seq :: "'d block_device \<Rightarrow> 'd vfs_state \<Rightarrow> int \<Rightarrow> u32 list \<Rightarrow> u8 list \<times> 'd vfs_state" where
  "read_seq dev st fd [] = ([], st)"
| "read_seq dev st fd (l # ls) =
     (case vfs_read dev st fd l of
        (bs, st1) \<Rightarrow> (case read_seq dev st1 fd ls of (bs2, st2) \<Rightarrow> (bs @ bs2, st2)))"

text \<open>A descriptor that is open on a file, at a position inside it.\<close>

definition fd_at :: "'d vfs_state \<Rightarrow> int \<Rightarrow> u32 \<Rightarrow> u32 \<Rightarrow> nat \<Rightarrow> bool" where
  "fd_at st fd mode n off \<longleftrightarrow> length (g_fds st) = 16 \<and> fd_usable st fd mode
     \<and> fd_node_id (g_fds st ! nat fd) = n \<and> unat (fd_offset (g_fds st ! nat fd)) = off
     \<and> is_file_node (fs st) n \<and> off \<le> file_size (fs st) n"

definition store_ok :: "'d vfs_state \<Rightarrow> bool" where
  "store_ok st \<longleftrightarrow> fs_tree (fs st) \<and> extents_ok (fs st)"

lemma fd_range: "fd_at st fd mode n off \<Longrightarrow> 0 \<le> fd \<and> nat fd < length (g_fds st)"
  by (auto simp: fd_at_def fd_usable_def)

lemma fd_advance_sel:
  assumes "nat fd < length (g_fds st)"
  shows "fs (fd_advance st fd k) = fs st" "g_vfs_ctx (fd_advance st fd k) = g_vfs_ctx st"
    "length (g_fds (fd_advance st fd k)) = length (g_fds st)"
    "g_fds (fd_advance st fd k) ! j = (if j = nat fd then (g_fds st ! nat fd)\<lparr>fd_offset := fd_offset (g_fds st ! nat fd) + k\<rparr>
      else g_fds st ! j)"
  using assms by (simp_all add: fd_advance_def nth_list_update)

lemma set_extent_free: "next_free (set_extent st n need) \<le> next_free st + unat need"
  by (simp add: set_extent_def next_free_def unat_word_ariths)

text \<open>The allocation mark moves by at most the sectors of the write.\<close>

lemma write_next_free:
  assumes w: "sfs_write dev st n off data len = (r, st')" and ov: "unat off + unat len + 511 < 2 ^ 32"
  shows "next_free st' \<le> next_free st + sectors_for (unat off + unat len)"
proof (cases "is_file_node st n \<and> e_perm (ent st n) AND SFS_PERM_WRITE \<noteq> 0")
  case False
  with w have "st' = st" by (auto simp: sfs_write_def split: if_splits)
  then show ?thesis by simp
next
  case True
  let ?need = "(off + len + 511) div 512"
  obtain ok st1 where R: "sfs_reserve dev st n ?need = (ok, st1)" by fastforce
  have "next_free st1 \<le> next_free st + unat ?need"
    using R
  proof (cases rule: reserve_cases)
    case (fresh d)
    then show ?thesis using set_extent_free [of "st\<lparr>disk := d\<rparr>" n ?need] by simp
  qed simp
  moreover have "next_free st' = next_free st1"
    using w True R
    by (auto simp: sfs_write_def Let_def split: prod.splits bool.splits if_splits dest!: sfs_flush_state)
  ultimately show ?thesis using need_sectors [OF ov] by simp
qed

lemma overwrite_append:
  assumes "off \<le> length c"
  shows "overwrite (overwrite c off a) (off + length a) b = overwrite c off (a @ b)"
  using assms by (simp add: overwrite_def ac_simps)

lemma overwrite_Nil: "overwrite c off [] = c"
  by (simp add: overwrite_def)

lemma write_seq_step:
  assumes R: "reliable_client dev sec" and ok: "store_ok st" and fd: "fd_at st fd VFS_O_WRITE n off"
    and pm: "e_perm (ent (fs st) n) AND SFS_PERM_WRITE \<noteq> 0"
    and ov: "off + length c + 511 < 2 ^ 32" and room: "next_free (fs st) + sectors_for (off + length c) \<le> 65536"
  shows "\<exists>st1. vfs_write dev st fd c (of_nat (length c)) = (of_nat (length c), st1) \<and> store_ok st1
    \<and> fd_at st1 fd VFS_O_WRITE n (off + length c) \<and> same_tree (fs st) (fs st1)
    \<and> next_free (fs st1) \<le> next_free (fs st) + sectors_for (off + length c)
    \<and> content sec (fs st1) n = overwrite (content sec (fs st) n) off c
    \<and> (\<forall>i. i \<noteq> n \<longrightarrow> abs_files sec (fs st1) i = abs_files sec (fs st) i)
    \<and> g_vfs_ctx st1 = g_vfs_ctx st \<and> (\<forall>j. j \<noteq> nat fd \<longrightarrow> g_fds st1 ! j = g_fds st ! j)"
proof -
  let ?d = "g_fds st ! nat fd" and ?len = "of_nat (length c) :: u32"
  have o: "fd_node_id ?d = n" "unat (fd_offset ?d) = off" "is_file_node (fs st) n" "off \<le> file_size (fs st) n"
    using fd by (auto simp: fd_at_def)
  have len: "unat ?len = length c" using ov by (simp add: unat_of_nat)
  have fit: "write_fits (fs st) (fd_offset ?d) ?len" using ov room o len by (simp add: write_fits_def)
  have pre: "unat (fd_offset ?d) \<le> file_size (fs st) n" "length c = unat ?len"
    and st: "fs_tree (fs st)" "extents_ok (fs st)"
    using o len ok by (simp_all add: store_ok_def)
  obtain f where w: "sfs_write dev (fs st) n (fd_offset ?d) c ?len = (Some ?len, f)" "fs_tree f" "extents_ok f"
      "same_tree (fs st) f"
      "abs_files sec f = (abs_files sec (fs st))(n \<mapsto> overwrite (content sec (fs st) n) (unat (fd_offset ?d)) c)"
    using write_files [OF R st o(3) pm pre fit] by blast
  have nf: "next_free f \<le> next_free (fs st) + sectors_for (off + length c)"
    using write_next_free [OF w(1)] ov o len by simp
  let ?st = "fd_advance (st\<lparr>fs := f\<rparr>) fd ?len"
  have fdl: "nat fd < length (g_fds (st\<lparr>fs := f\<rparr>))" using fd_range [OF fd] by simp
  note A = fd_advance_sel [OF fdl, of ?len]
  have isf: "is_file_node f n" using same_tree_live(2) [OF w(4)] o(3) by simp
  have c: "content sec f n = overwrite (content sec (fs st) n) off c"
    using fun_cong [OF w(5), of n] isf o(2) by (simp add: abs_files_def)
  have "length (content sec f n) = max (file_size (fs st) n) (off + length c)"
    unfolding c using o(4) by (simp add: length_overwrite)
  then have "off + length c \<le> file_size f n" by simp
  moreover have "unat (fd_offset ?d + ?len) = off + length c"
    using o(2) len ov by (simp add: unat_word_ariths)
  ultimately have "fd_at ?st fd VFS_O_WRITE n (off + length c)"
    using fd isf by (simp add: fd_at_def A fd_usable_def)
  moreover have "vfs_write dev st fd c ?len = (?len, ?st)"
    using fd w(1) o(1) by (simp add: vfs_write_def fd_at_def)
  ultimately show ?thesis
    using w(2-5) c nf by (intro exI [of _ ?st]) (simp add: A store_ok_def)
qed

lemma write_seq_eq:
  assumes "reliable_client dev sec" "store_ok st" "fd_at st fd VFS_O_WRITE n off"
    and "e_perm (ent (fs st) n) AND SFS_PERM_WRITE \<noteq> 0"
    and "off + length (concat cs) + 511 < 2 ^ 32"
    and "next_free (fs st) + length cs * sectors_for (off + length (concat cs)) \<le> 65536"
  shows "\<exists>st'. write_seq dev st fd cs = (map (\<lambda>c. of_nat (length c)) cs, st') \<and> store_ok st'
    \<and> fd_at st' fd VFS_O_WRITE n (off + length (concat cs))
    \<and> content sec (fs st') n = overwrite (content sec (fs st) n) off (concat cs)
    \<and> (\<forall>i. i \<noteq> n \<longrightarrow> abs_files sec (fs st') i = abs_files sec (fs st) i)
    \<and> g_vfs_ctx st' = g_vfs_ctx st \<and> (\<forall>j. j \<noteq> nat fd \<longrightarrow> g_fds st' ! j = g_fds st ! j)"
  using assms(2-)
proof (induction cs arbitrary: st off)
  case Nil
  then show ?case by (intro exI [of _ st]) (simp add: overwrite_Nil)
next
  case (Cons c cs)
  let ?all = "off + length (concat (c # cs))"
  have all: "?all = (off + length c) + length (concat cs)" by simp
  have m: "sectors_for (off + length c) \<le> sectors_for ?all" by (rule sectors_for_mono) simp
  have room: "next_free (fs st) + sectors_for ?all + length cs * sectors_for ?all \<le> 65536"
    using Cons.prems(5) by simp
  then have room1: "next_free (fs st) + sectors_for (off + length c) \<le> 65536" using m by linarith
  have ov: "off + length c + 511 < 2 ^ 32" using Cons.prems(4) by simp
  obtain st1 where S: "vfs_write dev st fd c (of_nat (length c)) = (of_nat (length c), st1)" "store_ok st1"
      "fd_at st1 fd VFS_O_WRITE n (off + length c)" "same_tree (fs st) (fs st1)"
      "next_free (fs st1) \<le> next_free (fs st) + sectors_for (off + length c)"
      "content sec (fs st1) n = overwrite (content sec (fs st) n) off c"
      "\<forall>i. i \<noteq> n \<longrightarrow> abs_files sec (fs st1) i = abs_files sec (fs st) i"
      "g_vfs_ctx st1 = g_vfs_ctx st" "\<forall>j. j \<noteq> nat fd \<longrightarrow> g_fds st1 ! j = g_fds st ! j"
    using write_seq_step [OF assms(1) Cons.prems(1-3) ov room1] by blast
  have pm: "e_perm (ent (fs st1) n) AND SFS_PERM_WRITE \<noteq> 0" using Cons.prems(3) S(4) by (simp add: same_tree_def)
  have "next_free (fs st1) + length cs * sectors_for ?all \<le> 65536" using room S(5) m by linarith
  then obtain st2 where T: "write_seq dev st1 fd cs = (map (\<lambda>c. of_nat (length c)) cs, st2)" "store_ok st2"
      "fd_at st2 fd VFS_O_WRITE n ?all"
      "content sec (fs st2) n = overwrite (content sec (fs st1) n) (off + length c) (concat cs)"
      "\<forall>i. i \<noteq> n \<longrightarrow> abs_files sec (fs st2) i = abs_files sec (fs st1) i"
      "g_vfs_ctx st2 = g_vfs_ctx st1" "\<forall>j. j \<noteq> nat fd \<longrightarrow> g_fds st2 ! j = g_fds st1 ! j"
    using Cons.IH [OF S(2,3) pm] Cons.prems(4) unfolding all by (auto simp: add.assoc)
  have "off \<le> length (content sec (fs st) n)" using Cons.prems(2) by (simp add: fd_at_def)
  from overwrite_append [OF this] show ?case
    using S T by (intro exI [of _ st2]) simp
qed

lemma read_seq_step:
  fixes l :: u32
  assumes "reliable_client dev sec" "extents_ok (fs st)" "fd_at st fd VFS_O_READ n off"
    and "e_perm (ent (fs st) n) AND SFS_PERM_READ \<noteq> 0"
  defines "bs \<equiv> take (unat l) (drop off (content sec (fs st) n))"
  shows "\<exists>st1 d. vfs_read dev st fd l = (bs, st1) \<and> fs st1 = (fs st)\<lparr>disk := d\<rparr> \<and> sec d = sec (disk (fs st))
    \<and> fd_at st1 fd VFS_O_READ n (off + length bs) \<and> content sec (fs st1) n = content sec (fs st) n
    \<and> g_vfs_ctx st1 = g_vfs_ctx st"
proof -
  let ?d = "g_fds st ! nat fd"
  have o: "fd_node_id ?d = n" "unat (fd_offset ?d) = off" "is_file_node (fs st) n" "off \<le> file_size (fs st) n"
    using assms(3) by (auto simp: fd_at_def)
  obtain d where r: "sfs_read dev (fs st) n (fd_offset ?d) l = (Some bs, (fs st)\<lparr>disk := d\<rparr>)"
      "sec d = sec (disk (fs st))"
    using reliable_client.sfs_read_eq [OF assms(1,2) o(3) assms(4), of "fd_offset ?d" l] o(2)
    unfolding bs_def by auto
  let ?k = "of_nat (length bs) :: u32"
  let ?st = "fd_advance (st\<lparr>fs := (fs st)\<lparr>disk := d\<rparr>\<rparr>) fd ?k"
  have fdl: "nat fd < length (g_fds (st\<lparr>fs := (fs st)\<lparr>disk := d\<rparr>\<rparr>))" using fd_range [OF assms(3)] by simp
  note A = fd_advance_sel [OF fdl, of ?k]
  have v: "vfs_read dev st fd l = (bs, ?st)"
    using assms(3) r(1) o(1) by (simp add: vfs_read_def fd_at_def)
  have fs32: "file_size (fs st) n < 2 ^ 32" using unsigned_less [of "e_size (ent (fs st) n)"] by (simp add: file_size_def)
  have le: "off + length bs \<le> file_size (fs st) n" using o(4) by (simp add: bs_def)
  have lb: "length bs < 2 ^ 32" "off + length bs < 2 ^ 32" using le fs32 by linarith+
  have k: "unat ?k = length bs" using lb(1) by (simp only: unat_of_nat) simp
  have off': "unat (fd_offset ?d + ?k) = off + length bs"
    using o(2) k lb(2) by (simp only: unat_word_ariths) simp
  have at: "fd_at ?st fd VFS_O_READ n (off + length bs)"
    using assms(3) off' le by (simp only: fd_at_def A fd_usable_def) simp
  have c: "content sec (fs ?st) n = content sec (fs st) n"
    using r(2) unfolding A by (simp add: content_def fbyte_def file_size_def)
  show ?thesis
    using v at c r(2) by (intro exI [of _ ?st] exI [of _ d]) (simp add: A)
qed

lemma read_seq_eq:
  assumes "reliable_client dev sec" "extents_ok (fs st)" "fd_at st fd VFS_O_READ n off"
    and "e_perm (ent (fs st) n) AND SFS_PERM_READ \<noteq> 0"
  shows "\<exists>st'. read_seq dev st fd ls = (take (sum_list (map unat ls)) (drop off (content sec (fs st) n)), st')
    \<and> (\<exists>d. fs st' = (fs st)\<lparr>disk := d\<rparr> \<and> sec d = sec (disk (fs st))) \<and> g_vfs_ctx st' = g_vfs_ctx st"
  using assms(2-)
proof (induction ls arbitrary: st off)
  case Nil
  then show ?case by (intro exI [of _ st]) (auto intro: exI [of _ "disk (fs st)"])
next
  case (Cons l ls)
  define bs where "bs = take (unat l) (drop off (content sec (fs st) n))"
  obtain st1 d where v: "vfs_read dev st fd l = (bs, st1)" and d: "fs st1 = (fs st)\<lparr>disk := d\<rparr>" "sec d = sec (disk (fs st))"
    and at: "fd_at st1 fd VFS_O_READ n (off + length bs)"
    and c: "content sec (fs st1) n = content sec (fs st) n" "g_vfs_ctx st1 = g_vfs_ctx st"
    using read_seq_step [OF assms(1) Cons.prems, of l] unfolding bs_def by blast
  have ex: "extents_ok (fs st1)" "e_perm (ent (fs st1) n) AND SFS_PERM_READ \<noteq> 0"
    using Cons.prems unfolding d(1) by simp_all
  obtain st2 where T: "read_seq dev st1 fd ls
      = (take (sum_list (map unat ls)) (drop (off + length bs) (content sec (fs st) n)), st2)"
      "\<exists>d'. fs st2 = (fs st1)\<lparr>disk := d'\<rparr> \<and> sec d' = sec (disk (fs st1))" "g_vfs_ctx st2 = g_vfs_ctx st1"
    using Cons.IH [OF ex(1) at ex(2)] unfolding c(1) by blast
  have tk: "bs @ take m (drop (off + length bs) xs) = take (unat l + m) (drop off xs)"
    if "xs = content sec (fs st) n" for m and xs
  proof -
    have "take (unat l + m) (drop off xs) = take (unat l) (drop off xs) @ take m (drop (unat l) (drop off xs))"
      by (rule take_add)
    moreover have "take m (drop (off + length bs) xs) = take m (drop (unat l) (drop off xs))"
      using that by (auto simp: bs_def min_def add.commute)
    ultimately show ?thesis using that by (simp add: bs_def)
  qed
  have "read_seq dev st fd (l # ls) = (bs @ take (sum_list (map unat ls)) (drop (off + length bs) (content sec (fs st) n)), st2)"
    by (simp add: v T(1))
  with T(2,3) d c(2) show ?case
    unfolding tk [OF refl] by (intro exI [of _ st2]) auto
qed


section \<open>A concrete system\<close>

definition demo_ctx :: vfs_terminal_context where
  "demo_ctx = \<lparr>ctx_cwd = 0, cwd_path = str ''/'' @ replicate 127 0, env_used = replicate 16 0,
     env_keys = replicate 16 (replicate 16 0), env_values = replicate 16 (replicate 64 0)\<rparr>"

definition demo_vfs :: "(u32 \<Rightarrow> u8 list) vfs_state" where
  "demo_vfs = \<lparr>g_fds = \<lparr>fd_used = 1, fd_node_id = 1, fd_offset = 0, fd_flags = 3\<rparr>
       # replicate 15 \<lparr>fd_used = 0, fd_node_id = 0, fd_offset = 0, fd_flags = 0\<rparr>,
     g_vfs_ctx = replicate 16 demo_ctx, fs = demo_fs\<rparr>"

lemma session_index_less [simp]: "vfs_session_index s < 16"
  by (auto simp: vfs_session_index_def nat_less_iff)

lemma demo_vfs_sel: "fs demo_vfs = demo_fs" "length (g_fds demo_vfs) = 16"
  "length (g_vfs_ctx demo_vfs) = 16" "vfs_context_for_session demo_vfs s = demo_ctx"
  "ctx_cwd demo_ctx = 0" "g_fds demo_vfs ! 0 = \<lparr>fd_used = 1, fd_node_id = 1, fd_offset = 0, fd_flags = 3\<rparr>"
  by (simp_all add: demo_vfs_def demo_ctx_def vfs_context_for_session_def)

lemma demo_env: "env_ok demo_ctx"
  by (auto simp: env_ok_def demo_ctx_def)

lemma demo_fd: "fd_at demo_vfs 0 VFS_O_WRITE 1 0" "fd_at demo_vfs 0 VFS_O_READ 1 0" "store_ok demo_vfs"
  by (simp_all add: fd_at_def fd_usable_def store_ok_def demo_vfs_sel demo_facts)

section \<open>Properties\<close>

text \<open>
  C22: Writing a file piece by piece: a sequence of \<^verbatim>\<open>vfs_write\<close> calls on one descriptor reports every
  chunk as written in full, leaves the file with the concatenation of the chunks spliced in at the old
  position, moves the descriptor behind it, and touches no other file, descriptor or terminal
  context, as long as the disk has room for the moves of the growing file.
\<close>

theorem vfs_write_sequence:
  assumes "reliable_store (blockdev_read dev) (blockdev_write dev) sec 65536"
    and "store_ok st" "fd_at st fd VFS_O_WRITE n off" "e_perm (ent (fs st) n) AND SFS_PERM_WRITE \<noteq> 0"
    and "off + length (concat cs) + 511 < 2 ^ 32"
    and "next_free (fs st) + length cs * sectors_for (off + length (concat cs)) \<le> 65536"
  shows "\<exists>st'. write_seq dev st fd cs = (map (\<lambda>c. of_nat (length c)) cs, st') \<and> store_ok st'
    \<and> fd_at st' fd VFS_O_WRITE n (off + length (concat cs))
    \<and> content sec (fs st') n = overwrite (content sec (fs st) n) off (concat cs)
    \<and> (\<forall>i. i \<noteq> n \<longrightarrow> abs_files sec (fs st') i = abs_files sec (fs st) i)
    \<and> g_vfs_ctx st' = g_vfs_ctx st \<and> (\<forall>j. j \<noteq> nat fd \<longrightarrow> g_fds st' ! j = g_fds st ! j)"
  by (rule write_seq_eq [OF reliable_client_I [OF assms(1)] assms(2-)])

theorem vfs_write_sequence_witness:
  "\<exists>st'. write_seq ram_dev demo_vfs 0 [str ''HE'', str ''LL''] = ([2, 2], st')
    \<and> content ram_sec (fs st') 1 = str ''HELLo''"
proof -
  have "overwrite (content ram_sec demo_fs 1) 0 (concat [str ''HE'', str ''LL'']) = str ''HELLo''"
    by (simp add: demo_content overwrite_def str_def)
  then show ?thesis
    using vfs_write_sequence [OF ram_dev_reliable demo_fd(3,1), of "[str ''HE'', str ''LL'']"]
    by (simp add: demo_vfs_sel demo_facts) (auto simp: str_def sectors_for_def)
qed

text \<open>
  Reading a file piece by piece: whatever lengths a client asks for, the bytes that a sequence of
  \<^verbatim>\<open>vfs_read\<close> calls on one descriptor returns are together the next bytes of the file up
  to its end, without a gap or an overlap, and no file changes.
\<close>

theorem vfs_read_sequence:
  assumes "reliable_store (blockdev_read dev) (blockdev_write dev) sec 65536"
    and "extents_ok (fs st)" "fd_at st fd VFS_O_READ n off" "e_perm (ent (fs st) n) AND SFS_PERM_READ \<noteq> 0"
  shows "\<exists>st'. read_seq dev st fd ls = (take (sum_list (map unat ls)) (drop off (content sec (fs st) n)), st')
    \<and> abs_files sec (fs st') = abs_files sec (fs st) \<and> g_vfs_ctx st' = g_vfs_ctx st"
proof -
  obtain st' d where r: "read_seq dev st fd ls = (take (sum_list (map unat ls)) (drop off (content sec (fs st) n)), st')"
      "fs st' = (fs st)\<lparr>disk := d\<rparr>" "sec d = sec (disk (fs st))" "g_vfs_ctx st' = g_vfs_ctx st"
    using read_seq_eq [OF reliable_client_I [OF assms(1)] assms(2-), of ls] by blast
  then have "abs_files sec (fs st') = abs_files sec (fs st)"
    by (simp add: abs_files_def content_def fbyte_def file_size_def fun_eq_iff)
  with r show ?thesis by blast
qed

theorem vfs_read_sequence_witness:
  "\<exists>st'. read_seq ram_dev demo_vfs 0 [2, 1, 100] = (str ''hello'', st')"
  using vfs_read_sequence [OF ram_dev_reliable _ demo_fd(2), of "[2, 1, 100]"]
  by (simp add: demo_vfs_sel demo_facts demo_content) (auto simp: str_def)

text \<open>
  \<^verbatim>\<open>vfs_open\<close> either fails and leaves the descriptor table alone, or returns the
  lowest free descriptor, bound to a live node at offset 0 with the requested flags; the node is the one
  that the path named, or a new file when the path named nothing and creation was requested.  The
  other descriptors and the contexts stay, and the tree stays well formed.
\<close>

theorem vfs_open_descriptor:
  assumes "vfs_open dev st session path flags = (r, st')" "length (g_fds st) = 16"
    and "fs_tree (fs st)" "is_dir (fs st) (ctx_cwd (vfs_context_for_session st session))"
  shows "fs_tree (fs st') \<and> g_vfs_ctx st' = g_vfs_ctx st
    \<and> (if r = -1 then g_fds st' = g_fds st
       else \<exists>i n. r = int i \<and> i < 16 \<and> fd_used (g_fds st ! i) = 0 \<and> (\<forall>j < i. fd_used (g_fds st ! j) \<noteq> 0)
         \<and> g_fds st' = (g_fds st)[i := \<lparr>fd_used = 1, fd_node_id = n, fd_offset = 0, fd_flags = flags\<rparr>]
         \<and> live (fs st') n
         \<and> (let old = sfs_resolve (fs st) path (ctx_cwd (vfs_context_for_session st session)) in
             old = Some n \<or> (old = None \<and> flags AND VFS_O_CREATE \<noteq> 0 \<and> \<not> live (fs st) n)))"
proof -
  let ?c = "ctx_cwd (vfs_context_for_session st session)"
  let ?old = "sfs_resolve (fs st) path ?c"
  obtain q f1 where q: "(case ?old of Some n \<Rightarrow> (Some n, fs st)
      | None \<Rightarrow> if flags AND VFS_O_CREATE \<noteq> 0
          then sfs_create dev (fs st) path ?c SFS_TYPE_FILE (SFS_PERM_READ OR SFS_PERM_WRITE)
          else (None, fs st)) = (q, f1)" by fastforce
  have f1: "fs_tree f1 \<and> (\<forall>n. q = Some n \<longrightarrow> live f1 n \<and> (?old = Some n \<or>
      (?old = None \<and> flags AND VFS_O_CREATE \<noteq> 0 \<and> \<not> live (fs st) n)))"
  proof (cases ?old)
    case (Some n)
    then show ?thesis using q assms(3) sfs_resolve_live [OF assms(3) is_dir_live [OF assms(4)] Some] by auto
  next
    case None
    show ?thesis
    proof (cases "flags AND VFS_O_CREATE \<noteq> 0")
      case False
      with None q assms(3) show ?thesis by auto
    next
      case True
      then have c: "sfs_create dev (fs st) path ?c SFS_TYPE_FILE (SFS_PERM_READ OR SFS_PERM_WRITE) = (q, f1)"
        using None q by simp
      have "live f1 n \<and> \<not> live (fs st) n" if "q = Some n" for n
        using c
      proof (cases rule: sfs_create_cases)
        case (made cur lst idx d)
        then have "idx = n" "n < 64" "\<not> live (fs st) n" using that find_free_SomeD [OF made(4)] by auto
        moreover have "live f1 n"
          unfolding made(5) using calculation by (simp add: ent_add [OF assms(3)])
        ultimately show ?thesis by simp
      qed (use that in simp)
      with sfs_create_tree [OF assms(3,4) c] None True show ?thesis by auto
    qed
  qed
  show ?thesis
  proof (cases q)
    case None
    then have "r = -1" "st' = st\<lparr>fs := f1\<rparr>" using assms(1) q by (auto simp: vfs_open_def Let_def)
    with f1 show ?thesis by simp
  next
    case (Some n)
    obtain ok f2 where t: "(if flags AND VFS_O_TRUNC \<noteq> 0 then sfs_truncate dev f1 n else (True, f1)) = (ok, f2)"
      by fastforce
    have same: "same_tree f1 f2"
      using t truncate_same(1) [of f1 dev n ok f2] f1 fs_tree_layout by (auto split: if_splits)
    then have f2: "fs_tree f2" "live f2 n"
      using f1 Some same_tree_tree [OF same] same_tree_live(1) [OF same] by auto
    let ?slot = "for_find (\<lambda>i. fd_used (g_fds st ! i) = 0) 0 16"
    have o: "(r, st') = (if \<not> ok then (-1, st\<lparr>fs := f2\<rparr>) else case ?slot of None \<Rightarrow> (-1, st\<lparr>fs := f2\<rparr>)
        | Some i \<Rightarrow> (int i, st\<lparr>fs := f2, g_fds := (g_fds st)[i := \<lparr>fd_used = 1, fd_node_id = n,
                           fd_offset = 0, fd_flags = flags\<rparr>]\<rparr>))"
      using assms(1) q t Some by (cases ok) (simp_all add: vfs_open_def Let_def)
    show ?thesis
    proof (cases "\<not> ok \<or> ?slot = None")
      case True
      with o f2 show ?thesis by (auto split: if_splits option.splits)
    next
      case False
      then obtain i where i: "?slot = Some i" by auto
      then have "i < 16" "fd_used (g_fds st ! i) = 0" "\<forall>j < i. fd_used (g_fds st ! j) \<noteq> 0"
        by (auto simp: for_find_Some_iff)
      with False i o f2 f1 Some show ?thesis by (auto simp: Let_def)
    qed
  qed
qed

theorem vfs_open_descriptor_witness:
  "\<exists>st'. vfs_open ram_dev demo_vfs 0 (str ''/a'') VFS_O_READ = (1, st')
    \<and> g_fds st' ! 1 = \<lparr>fd_used = 1, fd_node_id = 1, fd_offset = 0, fd_flags = VFS_O_READ\<rparr>"
proof -
  have "for_find (\<lambda>i. fd_used (g_fds demo_vfs ! i) = 0) 0 16 = Some 1"
    by (simp add: for_find_Some_iff demo_vfs_def)
  then obtain st' where o: "vfs_open ram_dev demo_vfs 0 (str ''/a'') VFS_O_READ = (1, st')"
    by (simp add: vfs_open_def demo_vfs_sel demo_resolve)
  have "\<exists>i n. (1 :: int) = int i \<and> i < 16
      \<and> g_fds st' = (g_fds demo_vfs)[i := \<lparr>fd_used = 1, fd_node_id = n, fd_offset = 0, fd_flags = VFS_O_READ\<rparr>]
      \<and> (let old = sfs_resolve demo_fs (str ''/a'') 0 in old = Some n \<or> old = None)"
    using vfs_open_descriptor [OF o] by (fastforce simp: demo_vfs_sel demo_facts demo_tree Let_def)
  then obtain i n where i: "i = 1" "g_fds st' = (g_fds demo_vfs)[i := \<lparr>fd_used = 1, fd_node_id = n, fd_offset = 0, fd_flags = VFS_O_READ\<rparr>]"
      "n = 1" by (auto simp: demo_resolve Let_def)
  with o show ?thesis by (simp add: demo_vfs_sel)
qed

text \<open>
  The path string of a terminal names its working directory: if it resolves to the
  working directory before \<^verbatim>\<open>vfs_chdir\<close>, the change succeeds and the new string fits into the buffer (and a
  double dot meets no dot name in the string), then the string resolves to the new working directory, which is a
  directory, and no other terminal is affected.
\<close>

theorem vfs_chdir_named:
  assumes "fs_tree (fs st)" "cwd_named (fs st) (vfs_context_for_session st session)"
    and "vfs_chdir st session path = (True, st')" "chdir_fits (vfs_context_for_session st session) path"
    and "length (g_vfs_ctx st) = 16"
  shows "cwd_named (fs st') (vfs_context_for_session st' session) \<and> fs st' = fs st
    \<and> sfs_resolve (fs st) path (ctx_cwd (vfs_context_for_session st session))
        = Some (ctx_cwd (vfs_context_for_session st' session))
    \<and> is_dir (fs st) (ctx_cwd (vfs_context_for_session st' session))
    \<and> (\<forall>s. vfs_session_index s \<noteq> vfs_session_index session \<longrightarrow>
          vfs_context_for_session st' s = vfs_context_for_session st s)"
proof -
  let ?c = "vfs_context_for_session st session"
  obtain n where n: "sfs_resolve (fs st) path (ctx_cwd ?c) = Some n" "stat_is_dir (fs st) n"
    using assms(3) by (auto simp: vfs_chdir_def Let_def split: option.splits if_splits)
  let ?c1 = "chdir_path (?c\<lparr>ctx_cwd := n\<rparr>) path"
  have nm: "cwd_named (fs st) ?c1" by (rule chdir_path_named [OF assms(1,2) n(1) assms(4)])
  then have "rd (cwd_path ?c1) 0 \<noteq> 0" by (simp add: cwd_named_def path_string_def)
  then have st': "st' = put_context st session ?c1"
    using assms(3) n by (auto simp: vfs_chdir_def Let_def)
  have idx: "vfs_session_index session < 16" by (auto simp: vfs_session_index_def)
  have c': "vfs_context_for_session st' session = ?c1" "fs st' = fs st"
    using idx assms(5) by (simp_all add: st' put_context_def vfs_context_for_session_def)
  have "is_dir (fs st) n"
    using n(2) by (auto simp: stat_is_dir_def sfs_stat_def is_dir_def live_def Let_def split: if_splits)
  moreover have "ctx_cwd ?c1 = n" by (simp add: chdir_path_def cwd_update_def)
  moreover have "vfs_context_for_session st' s = vfs_context_for_session st s"
    if "vfs_session_index s \<noteq> vfs_session_index session" for s
    using that by (simp add: st' put_context_def vfs_context_for_session_def)
  ultimately show ?thesis using nm c' n(1) by simp
qed

theorem vfs_chdir_named_witness:
  "\<exists>st'. vfs_chdir demo_vfs 0 (str ''/'') = (True, st') \<and> cwd_named demo_fs (vfs_context_for_session st' 0)"
proof -
  have r: "sfs_resolve demo_fs (str ''/'') c = Some 0" for c
  proof -
    have "comps (cstr (str ''/'')) = []" by code_simp
    then show ?thesis by (simp add: sfs_resolve_follow walk_start_def demo_root str_def)
  qed
  have p: "cstr (cwd_path demo_ctx) = [SLASH]" by (simp add: demo_ctx_def str_def)
  have nm: "cwd_named (fs demo_vfs) (vfs_context_for_session demo_vfs 0)"
    using cwd_named_iff [OF demo_tree, of demo_ctx] p
    by (simp add: demo_vfs_sel path_string_def comps_slashes) (simp add: demo_ctx_def str_def)
  have d: "stat_is_dir demo_fs 0" by (simp add: stat_is_dir_def sfs_stat_def demo_ent)
  obtain st' where c: "vfs_chdir demo_vfs 0 (str ''/'') = (True, st')"
    using r d by (simp add: vfs_chdir_def demo_vfs_sel Let_def)
  have "chdir_fits (vfs_context_for_session demo_vfs 0) (str ''/'')"
    by (simp add: chdir_fits_def demo_vfs_sel str_def)
  with vfs_chdir_named [OF _ nm c] c show ?thesis by (force simp: demo_vfs_sel demo_tree)
qed


text \<open>
  The environment of a terminal is a finite map: after a successful \<^verbatim>\<open>vfs_setenv\<close> with a key of at most 15
  characters, that key reads as the value cut to 63 characters, every other key reads as before, the keys of the table
  stay distinct, and the other terminals keep theirs.
\<close>

theorem vfs_setenv_map:
  assumes "env_ok (vfs_context_for_session st session)" "length (g_vfs_ctx st) = 16"
    and "length (cstr key) \<le> 15" "vfs_setenv st session key val = (True, st')"
  shows "env_ok (vfs_context_for_session st' session)
    \<and> (\<forall>k. map_option cstr (vfs_getenv st' session k)
          = (if cstr k = cstr key then Some (take 63 (cstr val)) else map_option cstr (vfs_getenv st session k)))
    \<and> (\<forall>s. vfs_session_index s \<noteq> vfs_session_index session \<longrightarrow>
          vfs_context_for_session st' s = vfs_context_for_session st s)"
proof -
  obtain c where c: "ctx_setenv (vfs_context_for_session st session) key val = Some c" "st' = put_context st session c"
    using assms(4) by (auto simp: vfs_setenv_def split: option.splits)
  have "vfs_context_for_session st' session = c"
    "vfs_session_index s \<noteq> vfs_session_index session \<Longrightarrow> vfs_context_for_session st' s = vfs_context_for_session st s" for s
    using assms(2) by (simp_all add: c(2) put_context_def vfs_context_for_session_def)
  then show ?thesis
    using setenv_ok [OF assms(1,3) c(1)] by (simp add: vfs_getenv_def)
qed

theorem vfs_setenv_map_witness:
  "\<exists>st'. vfs_setenv demo_vfs 3 (str ''USER'') (str ''root'') = (True, st')
    \<and> map_option cstr (vfs_getenv st' 3 (str ''USER'')) = Some (str ''root'')"
proof -
  have "ctx_setenv demo_ctx (str ''USER'') (str ''root'') \<noteq> None" by code_simp
  then obtain st' where s: "vfs_setenv demo_vfs 3 (str ''USER'') (str ''root'') = (True, st')"
    by (auto simp: vfs_setenv_def demo_vfs_sel)
  have pre: "env_ok (vfs_context_for_session demo_vfs 3)" "length (g_vfs_ctx demo_vfs) = 16"
    "length (cstr (str ''USER'')) \<le> 15" and v: "take 63 (cstr (str ''root'')) = str ''root''"
    by (simp_all add: demo_vfs_sel demo_env) (simp_all add: str_def)
  have "map_option cstr (vfs_getenv st' 3 (str ''USER'')) = Some (str ''root'')"
    using vfs_setenv_map [OF pre s] unfolding v by presburger
  with s show ?thesis by blast
qed

text \<open>
  A key of 16 or more characters is accepted but lost: \<^verbatim>\<open>vfs_setenv\<close> reports success, stores the cut
  key in a slot, and afterwards the key can be neither read nor removed, so its slot is never
  given back.
\<close>

theorem vfs_setenv_long_key:
  assumes "env_ok (vfs_context_for_session st session)" "length (g_vfs_ctx st) = 16"
    and "16 \<le> length (cstr key)" "vfs_setenv st session key val = (True, st')"
  shows "vfs_getenv st' session key = None \<and> vfs_unsetenv st' session key = (False, st')"
proof -
  obtain c where c: "ctx_setenv (vfs_context_for_session st session) key val = Some c" "st' = put_context st session c"
    using assms(4) by (auto simp: vfs_setenv_def split: option.splits)
  have "vfs_context_for_session st' session = c"
    using assms(2) by (simp add: c(2) put_context_def vfs_context_for_session_def)
  then show ?thesis
    using setenv_long [OF assms(1) c(1) assms(3)]
    by (simp add: vfs_getenv_def vfs_unsetenv_def ctx_getenv_def ctx_unsetenv_def)
qed

theorem vfs_setenv_long_key_witness:
  "\<exists>st'. vfs_setenv demo_vfs 0 (str ''LONG_VARIABLE_NAME'') (str ''x'') = (True, st')
    \<and> vfs_getenv st' 0 (str ''LONG_VARIABLE_NAME'') = None"
proof -
  have "ctx_setenv demo_ctx (str ''LONG_VARIABLE_NAME'') (str ''x'') \<noteq> None" by code_simp
  then obtain st' where s: "vfs_setenv demo_vfs 0 (str ''LONG_VARIABLE_NAME'') (str ''x'') = (True, st')"
    by (auto simp: vfs_setenv_def demo_vfs_sel)
  have "16 \<le> length (cstr (str ''LONG_VARIABLE_NAME''))" by (simp add: str_def)
  with vfs_setenv_long_key [OF _ _ _ s] s show ?thesis by (simp add: demo_vfs_sel demo_env)
qed

end
