(* ===== verification/Port_IO.thy ===== *)
theory Port_IO
  imports Vertex_Base
begin

text \<open>
  Port access (\<^verbatim>\<open>include/io.h\<close>) and the drivers of the small devices: timer, real-time clock,
  interrupt controller, PCI configuration space, serial port and power control.

  The hardware is not part of the repository.  It is a parameter: a record of the six port instructions over
  a machine of type \<open>'m\<close>, where a read may change the machine.  A loop that waits for a device without a bound
  is a partial function, \<open>None\<close> when the device never answers.
\<close>

record 'm ports =
  io_inb :: "'m \<Rightarrow> u16 \<Rightarrow> u8 \<times> 'm"
  io_inw :: "'m \<Rightarrow> u16 \<Rightarrow> u16 \<times> 'm"
  io_inl :: "'m \<Rightarrow> u16 \<Rightarrow> u32 \<times> 'm"
  io_outb :: "'m \<Rightarrow> u16 \<Rightarrow> u8 \<Rightarrow> 'm"
  io_outw :: "'m \<Rightarrow> u16 \<Rightarrow> u16 \<Rightarrow> 'm"
  io_outl :: "'m \<Rightarrow> u16 \<Rightarrow> u32 \<Rightarrow> 'm"

section \<open>Timer\<close>

record pit_state =
  pit_ticks :: u32
  pit_frequency :: u32

definition pit_divisor :: "u32 \<Rightarrow> u32" where
  "pit_divisor frequency_hz =
     (let f = (if frequency_hz = 0 then 100 else frequency_hz); d = 1193182 div f in if d = 0 then 1 else d)"

definition pit_init :: "'m ports \<Rightarrow> u32 \<Rightarrow> pit_state \<times> 'm \<Rightarrow> pit_state \<times> 'm" where
  "pit_init io frequency_hz pm =
     (case pm of (p, m) \<Rightarrow>
        let d = pit_divisor frequency_hz; m1 = io_outb io m 0x43 0x36;
            m2 = io_outb io m1 0x40 (ucast d); m3 = io_outb io m2 0x40 (ucast (drop_bit 8 d))
        in (p\<lparr>pit_frequency := (if frequency_hz = 0 then 100 else frequency_hz)\<rparr>, m3))"

definition pit_irq_handler :: "pit_state \<Rightarrow> pit_state" where
  "pit_irq_handler p = p\<lparr>pit_ticks := pit_ticks p + 1\<rparr>"

section \<open>Real-time clock\<close>

record rtc_datetime =
  rt_second :: u8
  rt_minute :: u8
  rt_hour :: u8
  rt_day :: u8
  rt_month :: u8
  rt_year :: u8

definition cmos_read :: "'m ports \<Rightarrow> 'm \<Rightarrow> u8 \<Rightarrow> u8 \<times> 'm" where
  "cmos_read io m reg = io_inb io (io_outb io m 0x70 reg) 0x71"

definition rtc_updating :: "'m ports \<Rightarrow> 'm \<Rightarrow> bool \<times> 'm" where
  "rtc_updating io m = (case cmos_read io m 0x0A of (v, m1) \<Rightarrow> (v AND 0x80 \<noteq> 0, m1))"

definition bcd_to_bin :: "u8 \<Rightarrow> u8" where
  "bcd_to_bin v = (v AND 0x0F) + (v div 16) * 10"

partial_function (option) rtc_wait :: "'m ports \<Rightarrow> 'm \<Rightarrow> 'm option" where
  "rtc_wait io m = (case rtc_updating io m of (busy, m1) \<Rightarrow> if busy then rtc_wait io m1 else Some m1)"

definition rtc_decode :: "u8 \<Rightarrow> rtc_datetime \<Rightarrow> rtc_datetime" where
  "rtc_decode reg_b t =
     (if reg_b AND 0x04 = 0 then
        \<lparr>rt_second = bcd_to_bin (rt_second t), rt_minute = bcd_to_bin (rt_minute t),
         rt_hour = bcd_to_bin (rt_hour t AND 0x7F), rt_day = bcd_to_bin (rt_day t),
         rt_month = bcd_to_bin (rt_month t), rt_year = bcd_to_bin (rt_year t)\<rparr>
      else t\<lparr>rt_hour := rt_hour t AND 0x7F\<rparr>)"

definition rtc_hour24 :: "bool \<Rightarrow> rtc_datetime \<Rightarrow> rtc_datetime" where
  "rtc_hour24 is_pm t =
     (if is_pm \<and> rt_hour t < 12 then t\<lparr>rt_hour := rt_hour t + 12\<rparr>
      else if \<not> is_pm \<and> rt_hour t = 12 then t\<lparr>rt_hour := 0\<rparr> else t)"

definition rtc_read_datetime :: "'m ports \<Rightarrow> 'm \<Rightarrow> (rtc_datetime \<times> 'm) option" where
  "rtc_read_datetime io m =
     (case rtc_wait io m of
        None \<Rightarrow> None
      | Some m0 \<Rightarrow>
          (case cmos_read io m0 0x00 of (second, m1) \<Rightarrow>
           case cmos_read io m1 0x02 of (minute, m2) \<Rightarrow>
           case cmos_read io m2 0x04 of (hour, m3) \<Rightarrow>
           case cmos_read io m3 0x07 of (day, m4) \<Rightarrow>
           case cmos_read io m4 0x08 of (month, m5) \<Rightarrow>
           case cmos_read io m5 0x09 of (year, m6) \<Rightarrow>
           case cmos_read io m6 0x0B of (reg_b, m7) \<Rightarrow>
             let t = rtc_decode reg_b \<lparr>rt_second = second, rt_minute = minute, rt_hour = hour, rt_day = day,
                                      rt_month = month, rt_year = year\<rparr>
             in if reg_b AND 0x02 = 0
                then (case cmos_read io m7 0x04 of (h, m8) \<Rightarrow> Some (rtc_hour24 (h AND 0x80 \<noteq> 0) t, m8))
                else Some (t, m7)))"

section \<open>Interrupt controller\<close>

abbreviation PIC1_CMD :: u16 where "PIC1_CMD \<equiv> 0x20"
abbreviation PIC1_DATA :: u16 where "PIC1_DATA \<equiv> 0x21"
abbreviation PIC2_CMD :: u16 where "PIC2_CMD \<equiv> 0xA0"
abbreviation PIC2_DATA :: u16 where "PIC2_DATA \<equiv> 0xA1"

definition pic_port :: "u8 \<Rightarrow> u16 \<times> u8" where
  "pic_port irq_line = (if irq_line < 8 then (PIC1_DATA, irq_line) else (PIC2_DATA, irq_line - 8))"

definition pic_set_mask :: "'m ports \<Rightarrow> 'm \<Rightarrow> u8 \<Rightarrow> 'm" where
  "pic_set_mask io m irq_line =
     (case pic_port irq_line of (port, line) \<Rightarrow>
      case io_inb io m port of (v, m1) \<Rightarrow> io_outb io m1 port (v OR push_bit (unat line) 1))"

definition pic_clear_mask :: "'m ports \<Rightarrow> 'm \<Rightarrow> u8 \<Rightarrow> 'm" where
  "pic_clear_mask io m irq_line =
     (case pic_port irq_line of (port, line) \<Rightarrow>
      case io_inb io m port of (v, m1) \<Rightarrow> io_outb io m1 port (v AND NOT (push_bit (unat line) 1)))"

definition pic_send_eoi :: "'m ports \<Rightarrow> 'm \<Rightarrow> u8 \<Rightarrow> 'm" where
  "pic_send_eoi io m irq_line =
     (let m1 = (if irq_line \<ge> 8 then io_outb io m PIC2_CMD 0x20 else m) in io_outb io m1 PIC1_CMD 0x20)"

text \<open>\<^verbatim>\<open>pic_remap\<close>: between the writes of the initialisation words a write to port 0x80.\<close>

definition pic_write_wait :: "'m ports \<Rightarrow> 'm \<Rightarrow> u16 \<times> u8 \<Rightarrow> 'm" where
  "pic_write_wait io m pv = (case pv of (port, v) \<Rightarrow> io_outb io (io_outb io m port v) 0x80 0)"

definition pic_remap :: "'m ports \<Rightarrow> 'm \<Rightarrow> u8 \<Rightarrow> u8 \<Rightarrow> 'm" where
  "pic_remap io m master_offset slave_offset =
     (case io_inb io m PIC1_DATA of (master_mask, m1) \<Rightarrow>
      case io_inb io m1 PIC2_DATA of (slave_mask, m2) \<Rightarrow>
        let m3 = foldl (pic_write_wait io) m2
              [(PIC1_CMD, 0x11), (PIC2_CMD, 0x11), (PIC1_DATA, master_offset), (PIC2_DATA, slave_offset),
               (PIC1_DATA, 4), (PIC2_DATA, 2), (PIC1_DATA, 1), (PIC2_DATA, 1)]
        in io_outb io (io_outb io m3 PIC1_DATA master_mask) PIC2_DATA slave_mask)"

text \<open>The mask part of \<^verbatim>\<open>interrupts_init\<close>: everything off, then timer, keyboard, cascade and mouse on.\<close>

definition interrupts_masks :: "'m ports \<Rightarrow> 'm \<Rightarrow> 'm" where
  "interrupts_masks io m =
     foldl (pic_clear_mask io) (foldl (\<lambda>m i. pic_set_mask io m (of_nat i)) (pic_remap io m 0x20 0x28) [0..<16]) [0, 1, 2, 12]"

section \<open>PCI configuration space\<close>

definition pci_make_address :: "u8 \<Rightarrow> u8 \<Rightarrow> u8 \<Rightarrow> u8 \<Rightarrow> u32" where
  "pci_make_address bus slot func offset =
     push_bit 31 1 OR push_bit 16 (ucast bus) OR push_bit 11 (ucast slot) OR push_bit 8 (ucast func) OR (ucast offset AND 0xFC)"

definition pci_config_read32 :: "'m ports \<Rightarrow> 'm \<Rightarrow> u8 \<Rightarrow> u8 \<Rightarrow> u8 \<Rightarrow> u8 \<Rightarrow> u32 \<times> 'm" where
  "pci_config_read32 io m bus slot func offset = io_inl io (io_outl io m 0xCF8 (pci_make_address bus slot func offset)) 0xCFC"

definition pci_config_write32 :: "'m ports \<Rightarrow> 'm \<Rightarrow> u8 \<Rightarrow> u8 \<Rightarrow> u8 \<Rightarrow> u8 \<Rightarrow> u32 \<Rightarrow> 'm" where
  "pci_config_write32 io m bus slot func offset value =
     io_outl io (io_outl io m 0xCF8 (pci_make_address bus slot func offset)) 0xCFC value"

text \<open>The three nested loops of \<^verbatim>\<open>pci_find_device\<close>, each over the numbers it still has to try.\<close>

fun pci_scan_funcs :: "'m ports \<Rightarrow> u16 \<Rightarrow> u16 \<Rightarrow> u8 \<Rightarrow> u8 \<Rightarrow> nat list \<Rightarrow> 'm \<Rightarrow> u8 option \<times> 'm" where
  "pci_scan_funcs io vid did bus slot [] m = (None, m)"
| "pci_scan_funcs io vid did bus slot (f # fs) m =
     (case pci_config_read32 io m bus slot (of_nat f) 0 of (ident, m1) \<Rightarrow>
        let vendor = ucast ident :: u16; device = ucast (drop_bit 16 ident) :: u16 in
        if vendor = 0xFFFF then (if f = 0 then (None, m1) else pci_scan_funcs io vid did bus slot fs m1)
        else if vendor = vid \<and> device = did then (Some (of_nat f), m1)
        else pci_scan_funcs io vid did bus slot fs m1)"

fun pci_scan_slots :: "'m ports \<Rightarrow> u16 \<Rightarrow> u16 \<Rightarrow> u8 \<Rightarrow> nat list \<Rightarrow> 'm \<Rightarrow> (u8 \<times> u8) option \<times> 'm" where
  "pci_scan_slots io vid did bus [] m = (None, m)"
| "pci_scan_slots io vid did bus (s # ss) m =
     (case pci_scan_funcs io vid did bus (of_nat s) [0..<8] m of
        (Some f, m1) \<Rightarrow> (Some (of_nat s, f), m1)
      | (None, m1) \<Rightarrow> pci_scan_slots io vid did bus ss m1)"

fun pci_scan_buses :: "'m ports \<Rightarrow> u16 \<Rightarrow> u16 \<Rightarrow> nat list \<Rightarrow> 'm \<Rightarrow> (u8 \<times> u8 \<times> u8) option \<times> 'm" where
  "pci_scan_buses io vid did [] m = (None, m)"
| "pci_scan_buses io vid did (b # bs) m =
     (case pci_scan_slots io vid did (of_nat b) [0..<32] m of
        (Some (s, f), m1) \<Rightarrow> (Some (of_nat b, s, f), m1)
      | (None, m1) \<Rightarrow> pci_scan_buses io vid did bs m1)"

definition pci_find_device :: "'m ports \<Rightarrow> 'm \<Rightarrow> u16 \<Rightarrow> u16 \<Rightarrow> (u8 \<times> u8 \<times> u8) option \<times> 'm" where
  "pci_find_device io m vendor_id device_id = pci_scan_buses io vendor_id device_id [0..<256] m"

section \<open>Serial port\<close>

abbreviation COM1_PORT :: u16 where "COM1_PORT \<equiv> 0x3F8"

partial_function (option) serial_wait_tx :: "'m ports \<Rightarrow> 'm \<Rightarrow> 'm option" where
  "serial_wait_tx io m = (case io_inb io m (COM1_PORT + 5) of (v, m1) \<Rightarrow> if v AND 0x20 = 0 then serial_wait_tx io m1 else Some m1)"

definition serial_init :: "'m ports \<Rightarrow> 'm \<Rightarrow> bool \<times> 'm" where
  "serial_init io m =
     (True, foldl (\<lambda>m (reg, v). io_outb io m (COM1_PORT + reg) v) m
        [(1, 0x00), (3, 0x80), (0, 0x03), (1, 0x00), (3, 0x03), (2, 0xC7), (4, 0x0B)])"

definition serial_put :: "'m ports \<Rightarrow> u8 \<Rightarrow> 'm \<Rightarrow> 'm option" where
  "serial_put io c m = map_option (\<lambda>m1. io_outb io m1 COM1_PORT c) (serial_wait_tx io m)"

definition serial_write_char :: "'m ports \<Rightarrow> bool \<Rightarrow> 'm \<Rightarrow> u8 \<Rightarrow> 'm option" where
  "serial_write_char io ready m c =
     (if \<not> ready then Some m
      else case (if c = 10 then serial_put io 13 m else Some m) of
             None \<Rightarrow> None
           | Some m1 \<Rightarrow> serial_put io c m1)"

fun serial_write :: "'m ports \<Rightarrow> bool \<Rightarrow> u8 list \<Rightarrow> 'm \<Rightarrow> 'm option" where
  "serial_write io ready [] m = Some m"
| "serial_write io ready (c # s) m =
     (if c = 0 then Some m
      else case serial_write_char io ready m c of None \<Rightarrow> None | Some m1 \<Rightarrow> serial_write io ready s m1)"

definition hex32 :: "u32 \<Rightarrow> u8 list" where
  "hex32 v = [48, 120] @ map (\<lambda>i. str ''0123456789ABCDEF'' ! unat (drop_bit (28 - i * 4) v AND 0xF)) [0..<8]"

definition serial_write_hex32 :: "'m ports \<Rightarrow> bool \<Rightarrow> u32 \<Rightarrow> 'm \<Rightarrow> 'm option" where
  "serial_write_hex32 io ready v m = serial_write io ready (hex32 v) m"

text \<open>The digits, least significant first; the buffer holds them all.\<close>

fun serial_digits :: "nat \<Rightarrow> u8 list \<Rightarrow> u8 list" where
  "serial_digits v acc = (if v = 0 then acc else serial_digits (v div 10) (of_nat (48 + v mod 10) # acc))"

declare serial_digits.simps [simp del]

definition serial_write_dec :: "'m ports \<Rightarrow> bool \<Rightarrow> u32 \<Rightarrow> 'm \<Rightarrow> 'm option" where
  "serial_write_dec io ready v m =
     (if v = 0 then serial_write_char io ready m 48 else serial_write io ready (serial_digits (unat v) []) m)"

section \<open>Power\<close>

text \<open>
  What \<^verbatim>\<open>power_restart\<close> and \<^verbatim>\<open>power_shutdown\<close> do to the machine before they
  halt: neither returns.
\<close>

primrec restart_pulses :: "nat \<Rightarrow> 'm ports \<Rightarrow> 'm \<Rightarrow> 'm" where
  "restart_pulses 0 io m = m"
| "restart_pulses (Suc n) io m =
     restart_pulses n io (case io_inb io m 0x64 of (v, m1) \<Rightarrow> if v AND 0x02 = 0 then io_outb io m1 0x64 0xFE else m1)"

definition power_restart :: "'m ports \<Rightarrow> 'm \<Rightarrow> 'm" where
  "power_restart io m = restart_pulses 0x10000 io m"

definition power_shutdown :: "'m ports \<Rightarrow> 'm \<Rightarrow> 'm" where
  "power_shutdown io m = io_outw io (io_outw io (io_outw io m 0x604 0x2000) 0xB004 0x2000) 0x4004 0x3400"

end
