(* ===== verification/Video_Mode.thy ===== *)
theory Video_Mode
  imports Port_IO Block_Device
begin

text \<open>
  The video mode of the machine, \<^verbatim>\<open>src/video/video.c\<close>: the mode and resolution that the
  boot loader hands over, the frame buffer they mean, and the preferences for the next boot in two bytes of the
  boot sector.  The debug output on the serial port is left out.
\<close>

datatype video_mode = VIDEO_MODE_TEXT | VIDEO_MODE_GRAPHICS
datatype video_resolution = VIDEO_RES_320X200 | VIDEO_RES_640X480 | VIDEO_RES_800X600 | VIDEO_RES_1024X768

record video_fb_info =
  fb_phys :: u32
  fb_width :: u32
  fb_height :: u32
  fb_pitch :: u32
  fb_bpp :: u8

record video_state =
  vd_mode :: video_mode
  vd_resolution :: video_resolution
  vd_fb :: video_fb_info

abbreviation BOOT_PREF_SECTOR :: u32 where "BOOT_PREF_SECTOR \<equiv> 0"
abbreviation BOOT_PREF_OFFSET :: nat where "BOOT_PREF_OFFSET \<equiv> 508"
abbreviation BOOT_OVERLAY_OFFSET :: nat where "BOOT_OVERLAY_OFFSET \<equiv> 509"
abbreviation BOOT_FLAG_OVERLAY_MASK :: u8 where "BOOT_FLAG_OVERLAY_MASK \<equiv> 1"
abbreviation BOOT_FLAG_RES_MASK :: u8 where "BOOT_FLAG_RES_MASK \<equiv> 6"
abbreviation VGA_LFB_DEFAULT :: u32 where "VGA_LFB_DEFAULT \<equiv> 0xE0000000"

section \<open>The mode of this boot\<close>

definition discover_vbe_lfb_addr :: "'m ports \<Rightarrow> 'm \<Rightarrow> u32 \<times> 'm" where
  "discover_vbe_lfb_addr io m =
     (case pci_find_device io m 0x1234 0x1111 of
        (None, m1) \<Rightarrow> (VGA_LFB_DEFAULT, m1)
      | (Some (bus, slot, func), m1) \<Rightarrow>
          (case pci_config_read32 io m1 bus slot func 0x10 of
             (v, m2) \<Rightarrow> let bar = v AND 0xFFFFFFF0 in (if bar \<noteq> 0 then bar else VGA_LFB_DEFAULT, m2)))"

definition decode_resolution_bits :: "u8 \<Rightarrow> video_resolution" where
  "decode_resolution_bits flags =
     (let v = drop_bit 1 (flags AND BOOT_FLAG_RES_MASK) in
      if v = 1 then VIDEO_RES_640X480 else if v = 2 then VIDEO_RES_800X600
      else if v = 3 then VIDEO_RES_1024X768 else VIDEO_RES_320X200)"

definition encode_resolution_bits :: "video_resolution \<Rightarrow> u8" where
  "encode_resolution_bits r =
     (case r of VIDEO_RES_640X480 \<Rightarrow> push_bit 1 1 | VIDEO_RES_800X600 \<Rightarrow> push_bit 1 2
      | VIDEO_RES_1024X768 \<Rightarrow> push_bit 1 3 | VIDEO_RES_320X200 \<Rightarrow> push_bit 1 0)"

definition set_fb_defaults :: "'m ports \<Rightarrow> video_resolution \<Rightarrow> 'm \<Rightarrow> video_fb_info \<times> 'm" where
  "set_fb_defaults io r m =
     (let lfb = (\<lambda>w h. case discover_vbe_lfb_addr io m of
                  (a, m1) \<Rightarrow> (\<lparr>fb_phys = a, fb_width = w, fb_height = h, fb_pitch = w, fb_bpp = 8\<rparr>, m1))
      in case r of
           VIDEO_RES_640X480 \<Rightarrow> lfb 640 480
         | VIDEO_RES_800X600 \<Rightarrow> lfb 800 600
         | VIDEO_RES_1024X768 \<Rightarrow> lfb 1024 768
         | VIDEO_RES_320X200 \<Rightarrow> (\<lparr>fb_phys = 0xA0000, fb_width = 320, fb_height = 200, fb_pitch = 320, fb_bpp = 8\<rparr>, m))"

definition video_init :: "'m ports \<Rightarrow> u32 \<Rightarrow> 'm \<Rightarrow> video_state \<times> 'm" where
  "video_init io boot_video_state m =
     (let r = decode_resolution_bits (ucast boot_video_state) in
      case set_fb_defaults io r m of
        (fb, m1) \<Rightarrow> (\<lparr>vd_mode = (if boot_video_state AND 1 \<noteq> 0 then VIDEO_MODE_GRAPHICS else VIDEO_MODE_TEXT),
                      vd_resolution = r, vd_fb = fb\<rparr>, m1))"

definition video_mode_name :: "video_mode \<Rightarrow> u8 list" where
  "video_mode_name m = (if m = VIDEO_MODE_GRAPHICS then str ''graphics'' else str ''text'')"

definition video_resolution_name :: "video_resolution \<Rightarrow> u8 list" where
  "video_resolution_name r =
     (case r of VIDEO_RES_640X480 \<Rightarrow> str ''640x480'' | VIDEO_RES_800X600 \<Rightarrow> str ''800x600''
      | VIDEO_RES_1024X768 \<Rightarrow> str ''1024x768'' | VIDEO_RES_320X200 \<Rightarrow> str ''320x200'')"

section \<open>The preferences for the next boot\<close>

definition video_get_boot_preference :: "'d block_device \<Rightarrow> 'd \<Rightarrow> video_mode option \<times> 'd" where
  "video_get_boot_preference dev d =
     (case blockdev_read dev BOOT_PREF_SECTOR d of
        (None, d1) \<Rightarrow> (None, d1)
      | (Some sector, d1) \<Rightarrow>
          (Some (if sector ! BOOT_PREF_OFFSET = 1 then VIDEO_MODE_GRAPHICS else VIDEO_MODE_TEXT), d1))"

definition video_get_boot_resolution_preference :: "'d block_device \<Rightarrow> 'd \<Rightarrow> video_resolution option \<times> 'd" where
  "video_get_boot_resolution_preference dev d =
     (case blockdev_read dev BOOT_PREF_SECTOR d of
        (None, d1) \<Rightarrow> (None, d1)
      | (Some sector, d1) \<Rightarrow> (Some (decode_resolution_bits (sector ! BOOT_OVERLAY_OFFSET)), d1))"

definition video_get_boot_overlay_preference :: "'d block_device \<Rightarrow> 'd \<Rightarrow> bool option \<times> 'd" where
  "video_get_boot_overlay_preference dev d =
     (case blockdev_read dev BOOT_PREF_SECTOR d of
        (None, d1) \<Rightarrow> (None, d1)
      | (Some sector, d1) \<Rightarrow> (Some (sector ! BOOT_OVERLAY_OFFSET AND BOOT_FLAG_OVERLAY_MASK \<noteq> 0), d1))"

definition video_set_boot_preference :: "'d block_device \<Rightarrow> video_mode \<Rightarrow> 'd \<Rightarrow> bool \<times> 'd" where
  "video_set_boot_preference dev mode d =
     (case blockdev_read dev BOOT_PREF_SECTOR d of
        (None, d1) \<Rightarrow> (False, d1)
      | (Some sector, d1) \<Rightarrow>
          blockdev_write dev BOOT_PREF_SECTOR (sector[BOOT_PREF_OFFSET := (if mode = VIDEO_MODE_GRAPHICS then 1 else 0)]) d1)"

definition video_set_boot_resolution_preference :: "'d block_device \<Rightarrow> video_resolution \<Rightarrow> 'd \<Rightarrow> bool \<times> 'd" where
  "video_set_boot_resolution_preference dev r d =
     (case blockdev_read dev BOOT_PREF_SECTOR d of
        (None, d1) \<Rightarrow> (False, d1)
      | (Some sector, d1) \<Rightarrow>
          let flags = (sector ! BOOT_OVERLAY_OFFSET AND NOT BOOT_FLAG_RES_MASK) OR encode_resolution_bits r
          in blockdev_write dev BOOT_PREF_SECTOR (sector[BOOT_OVERLAY_OFFSET := flags]) d1)"

definition video_set_boot_overlay_preference :: "'d block_device \<Rightarrow> bool \<Rightarrow> 'd \<Rightarrow> bool \<times> 'd" where
  "video_set_boot_overlay_preference dev enabled d =
     (case blockdev_read dev BOOT_PREF_SECTOR d of
        (None, d1) \<Rightarrow> (False, d1)
      | (Some sector, d1) \<Rightarrow>
          let f = sector ! BOOT_OVERLAY_OFFSET AND NOT BOOT_FLAG_OVERLAY_MASK;
              flags = (if enabled then f OR BOOT_FLAG_OVERLAY_MASK else f)
          in blockdev_write dev BOOT_PREF_SECTOR (sector[BOOT_OVERLAY_OFFSET := flags]) d1)"

section \<open>The preferences are three independent settings\<close>

definition pref_mode :: "u8 list \<Rightarrow> video_mode" where
  "pref_mode s = (if s ! BOOT_PREF_OFFSET = 1 then VIDEO_MODE_GRAPHICS else VIDEO_MODE_TEXT)"

definition pref_resolution :: "u8 list \<Rightarrow> video_resolution" where
  "pref_resolution s = decode_resolution_bits (s ! BOOT_OVERLAY_OFFSET)"

definition pref_overlay :: "u8 list \<Rightarrow> bool" where
  "pref_overlay s \<longleftrightarrow> s ! BOOT_OVERLAY_OFFSET AND BOOT_FLAG_OVERLAY_MASK \<noteq> 0"

definition prefs :: "u8 list \<Rightarrow> video_mode \<times> video_resolution \<times> bool" where
  "prefs s = (pref_mode s, pref_resolution s, pref_overlay s)"

lemma field_set: "((f AND NOT m) OR e) AND m = e AND (m :: 'a::len word)"
  by (rule bit_word_eqI) (auto simp: bit_simps)

lemma field_kept:
  assumes "m AND k = 0" "e AND k = 0"
  shows "((f AND NOT m) OR e) AND k = f AND (k :: 'a::len word)"
proof (rule bit_word_eqI)
  fix n assume "n < LENGTH('a)"
  have "\<not> (bit m n \<and> bit k n)" "\<not> (bit e n \<and> bit k n)" using assms by (metis bit_and_iff bit_0_eq bot_apply bot_bool_def)+
  then show "bit (((f AND NOT m) OR e) AND k) n = bit (f AND k) n" using \<open>n < _\<close> by (auto simp: bit_simps)
qed

lemma decode_field: "f AND BOOT_FLAG_RES_MASK = g AND BOOT_FLAG_RES_MASK \<Longrightarrow> decode_resolution_bits f = decode_resolution_bits g"
  by (simp add: decode_resolution_bits_def)

definition resolution_flags :: "u8 \<Rightarrow> video_resolution \<Rightarrow> u8" where
  "resolution_flags f r = (f AND NOT BOOT_FLAG_RES_MASK) OR encode_resolution_bits r"

lemma decode_encode: "decode_resolution_bits (resolution_flags f r) = r"
proof -
  have "decode_resolution_bits (resolution_flags f r) = decode_resolution_bits (encode_resolution_bits r)"
    unfolding resolution_flags_def by (rule decode_field) (rule field_set)
  also have "\<dots> = r" by (cases r; simp add: encode_resolution_bits_def decode_resolution_bits_def)
  finally show ?thesis .
qed

lemma resolution_keeps_overlay: "resolution_flags f r AND BOOT_FLAG_OVERLAY_MASK = f AND BOOT_FLAG_OVERLAY_MASK"
  unfolding resolution_flags_def
proof (rule field_kept)
  show "BOOT_FLAG_RES_MASK AND BOOT_FLAG_OVERLAY_MASK = 0" by code_simp
  show "encode_resolution_bits r AND BOOT_FLAG_OVERLAY_MASK = 0" by (cases r) (simp_all add: encode_resolution_bits_def)
qed

lemma set_resolution_eq:
  "video_set_boot_resolution_preference dev r d =
     (case blockdev_read dev BOOT_PREF_SECTOR d of
        (None, d1) \<Rightarrow> (False, d1)
      | (Some sector, d1) \<Rightarrow>
          blockdev_write dev BOOT_PREF_SECTOR (sector[BOOT_OVERLAY_OFFSET := resolution_flags (sector ! BOOT_OVERLAY_OFFSET) r]) d1)"
  by (simp add: video_set_boot_resolution_preference_def resolution_flags_def Let_def split: prod.split option.split)

definition overlay_flags :: "u8 \<Rightarrow> bool \<Rightarrow> u8" where
  "overlay_flags f enabled = (f AND NOT BOOT_FLAG_OVERLAY_MASK) OR (if enabled then BOOT_FLAG_OVERLAY_MASK else 0)"

lemma overlay_keeps_resolution: "decode_resolution_bits (overlay_flags f enabled) = decode_resolution_bits f"
  unfolding overlay_flags_def by (rule decode_field, rule field_kept) simp_all

lemma overlay_set: "overlay_flags f enabled AND BOOT_FLAG_OVERLAY_MASK \<noteq> 0 \<longleftrightarrow> enabled"
  unfolding overlay_flags_def field_set by simp

lemma set_overlay_eq:
  "video_set_boot_overlay_preference dev enabled d =
     (case blockdev_read dev BOOT_PREF_SECTOR d of
        (None, d1) \<Rightarrow> (False, d1)
      | (Some sector, d1) \<Rightarrow>
          blockdev_write dev BOOT_PREF_SECTOR (sector[BOOT_OVERLAY_OFFSET := overlay_flags (sector ! BOOT_OVERLAY_OFFSET) enabled]) d1)"
  by (simp add: video_set_boot_overlay_preference_def overlay_flags_def Let_def split: prod.split option.split)

context reliable_store
begin

text \<open>A setting changes only what it sets: the new content of the boot sector.\<close>

lemma update_sector:
  assumes "0 < sectors" "\<And>s. length s = 512 \<Longrightarrow> length (f s) = 512"
  shows "\<exists>d'. (case rd_sec 0 d of (None, d1) \<Rightarrow> (False, d1) | (Some s, d1) \<Rightarrow> wr_sec 0 (f s) d1) = (True, d')
    \<and> sec d' = (sec d)(0 := f (sec d 0))"
proof -
  obtain d1 where r: "rd_sec 0 d = (Some (sec d 0), d1)" "sec d1 = sec d" using rd_sec_eq [OF assms(1), of d] by auto
  obtain d2 where "wr_sec 0 (f (sec d 0)) d1 = (True, d2)" "sec d2 = (sec d1)(0 := f (sec d 0))"
    using wr_sec_eq [OF assms(1) assms(2) [OF sec_length [of d 0]], of d1] by auto
  then show ?thesis using r by simp
qed

end

text \<open>
  The video preferences are three independent settings that survive the power cycle.  On a reliable disk each
  of the three calls succeeds, changes exactly the setting it is for, reads back as set, and touches no other
  byte of the boot sector than its own and no other sector.
\<close>

theorem video_preferences:
  assumes "reliable_store (blockdev_read dev) (blockdev_write dev) sec 65536"
  shows "\<exists>d1 d2 d3. video_set_boot_preference dev m d = (True, d1) \<and> video_set_boot_resolution_preference dev r d = (True, d2)
    \<and> video_set_boot_overlay_preference dev e d = (True, d3)
    \<and> prefs (sec d1 0) = (m, pref_resolution (sec d 0), pref_overlay (sec d 0))
    \<and> prefs (sec d2 0) = (pref_mode (sec d 0), r, pref_overlay (sec d 0))
    \<and> prefs (sec d3 0) = (pref_mode (sec d 0), pref_resolution (sec d 0), e)
    \<and> fst (video_get_boot_preference dev d1) = Some m \<and> fst (video_get_boot_resolution_preference dev d2) = Some r
    \<and> fst (video_get_boot_overlay_preference dev d3) = Some e
    \<and> {(l, i). i < 512 \<and> (sec d1 l ! i \<noteq> sec d l ! i \<or> sec d2 l ! i \<noteq> sec d l ! i \<or> sec d3 l ! i \<noteq> sec d l ! i)}
        \<subseteq> {(BOOT_PREF_SECTOR, BOOT_PREF_OFFSET), (BOOT_PREF_SECTOR, BOOT_OVERLAY_OFFSET)}"
proof -
  note upd = reliable_store.update_sector [OF assms, of _ d]
  have len: "length (sec d 0) = 512" using assms by (simp add: reliable_store_def sector_store_def)
  let ?f1 = "\<lambda>s. s[BOOT_PREF_OFFSET := (if m = VIDEO_MODE_GRAPHICS then 1 else 0) :: u8]"
  let ?f2 = "\<lambda>s. s[BOOT_OVERLAY_OFFSET := resolution_flags (s ! BOOT_OVERLAY_OFFSET) r]"
  let ?f3 = "\<lambda>s. s[BOOT_OVERLAY_OFFSET := overlay_flags (s ! BOOT_OVERLAY_OFFSET) e]"
  obtain d1 where d1: "video_set_boot_preference dev m d = (True, d1)" "sec d1 = (sec d)(0 := ?f1 (sec d 0))"
    using upd [of ?f1] by (auto simp: video_set_boot_preference_def)
  obtain d2 where d2: "video_set_boot_resolution_preference dev r d = (True, d2)" "sec d2 = (sec d)(0 := ?f2 (sec d 0))"
    using upd [of ?f2] by (auto simp: set_resolution_eq)
  obtain d3 where d3: "video_set_boot_overlay_preference dev e d = (True, d3)" "sec d3 = (sec d)(0 := ?f3 (sec d 0))"
    using upd [of ?f3] by (auto simp: set_overlay_eq)
  have get: "fst (video_get_boot_preference dev x) = Some (pref_mode (sec x 0))"
    "fst (video_get_boot_resolution_preference dev x) = Some (pref_resolution (sec x 0))"
    "fst (video_get_boot_overlay_preference dev x) = Some (pref_overlay (sec x 0))" for x
    using reliable_store.rd_sec_eq [OF assms, of 0 x]
    by (auto simp: video_get_boot_preference_def video_get_boot_resolution_preference_def video_get_boot_overlay_preference_def
        pref_mode_def pref_resolution_def pref_overlay_def)
  have p1: "prefs (sec d1 0) = (m, pref_resolution (sec d 0), pref_overlay (sec d 0))"
    using len by (cases m) (simp_all add: d1 prefs_def pref_mode_def pref_resolution_def pref_overlay_def)
  have p2: "prefs (sec d2 0) = (pref_mode (sec d 0), r, pref_overlay (sec d 0))"
    using len by (simp add: d2 prefs_def pref_mode_def pref_resolution_def pref_overlay_def decode_encode resolution_keeps_overlay)
  have p3: "prefs (sec d3 0) = (pref_mode (sec d 0), pref_resolution (sec d 0), e)"
    using len by (simp add: d3 prefs_def pref_mode_def pref_resolution_def pref_overlay_def overlay_keeps_resolution overlay_set)
  have "sec d1 l ! i = sec d l ! i \<and> sec d2 l ! i = sec d l ! i \<and> sec d3 l ! i = sec d l ! i"
    if "(l, i) \<noteq> (0, BOOT_PREF_OFFSET)" "(l, i) \<noteq> (0, BOOT_OVERLAY_OFFSET)" for l i
    using that by (auto simp: d1 d2 d3 nth_list_update)
  then have fr: "{(l, i). i < 512 \<and> (sec d1 l ! i \<noteq> sec d l ! i \<or> sec d2 l ! i \<noteq> sec d l ! i \<or> sec d3 l ! i \<noteq> sec d l ! i)}
      \<subseteq> {(BOOT_PREF_SECTOR, BOOT_PREF_OFFSET), (BOOT_PREF_SECTOR, BOOT_OVERLAY_OFFSET)}"
    by blast
  have g: "fst (video_get_boot_preference dev d1) = Some m" "fst (video_get_boot_resolution_preference dev d2) = Some r"
    "fst (video_get_boot_overlay_preference dev d3) = Some e"
    unfolding get using p1 p2 p3 by (simp_all add: prefs_def)
  show ?thesis
    by (rule exI [of _ d1], rule exI [of _ d2], rule exI [of _ d3]) (intro conjI d1(1) d2(1) d3(1) p1 p2 p3 g fr)
qed

theorem video_preferences_witness:
  "\<exists>d1 d2 d3. video_set_boot_preference ram_dev VIDEO_MODE_GRAPHICS (\<lambda>_. []) = (True, d1)
    \<and> video_set_boot_resolution_preference ram_dev VIDEO_RES_800X600 (\<lambda>_. []) = (True, d2)
    \<and> video_set_boot_overlay_preference ram_dev True (\<lambda>_. []) = (True, d3)
    \<and> fst (video_get_boot_preference ram_dev d1) = Some VIDEO_MODE_GRAPHICS
    \<and> fst (video_get_boot_resolution_preference ram_dev d2) = Some VIDEO_RES_800X600
    \<and> fst (video_get_boot_overlay_preference ram_dev d3) = Some True"
proof -
  obtain d1 d2 d3 where
    "video_set_boot_preference ram_dev VIDEO_MODE_GRAPHICS (\<lambda>_. []) = (True, d1)"
    "video_set_boot_resolution_preference ram_dev VIDEO_RES_800X600 (\<lambda>_. []) = (True, d2)"
    "video_set_boot_overlay_preference ram_dev True (\<lambda>_. []) = (True, d3)"
    "fst (video_get_boot_preference ram_dev d1) = Some VIDEO_MODE_GRAPHICS"
    "fst (video_get_boot_resolution_preference ram_dev d2) = Some VIDEO_RES_800X600"
    "fst (video_get_boot_overlay_preference ram_dev d3) = Some True"
    using video_preferences [OF ram_reliable.reliable_store_axioms, where m = VIDEO_MODE_GRAPHICS and d = "\<lambda>_. []"
        and r = VIDEO_RES_800X600 and e = True]
    by (elim exE conjE)
  then show ?thesis by (intro exI conjI)
qed

end
