(* ===== verification/Kernel_Heap.thy ===== *)
theory Kernel_Heap
  imports Vertex_Base
begin

text \<open>
  The kernel heap (\<^verbatim>\<open>src/mem/heap.c\<close>): a first-fit allocator over a linked list of
  block headers.

  The list of headers is a list of records in list order, each with the address of its header;
  the \<^verbatim>\<open>next\<close> pointer of a block is the address of the next record.  The headers lie in
  the heap itself: a client that writes behind its block is not modelled, and \<open>kfree\<close> of
  an address that is not the payload of a block, which makes the C code write outside of the list, is \<open>None\<close>.
  \<^verbatim>\<open>sizeof(block_header)\<close> is 12 on the 32-bit target.
\<close>

abbreviation HEAP_ALIGN :: u32 where "HEAP_ALIGN \<equiv> 8"
abbreviation HDR :: u32 where "HDR \<equiv> 12"

record block_header =
  bh_addr :: u32
  bh_size :: u32
  bh_free :: bool

record heap_state =
  heap_blocks :: "block_header list"
  heap_size_total :: u32

definition align_up :: "u32 \<Rightarrow> u32 \<Rightarrow> u32" where
  "align_up val align = (val + align - 1) AND NOT (align - 1)"

text \<open>\<open>heap_init\<close> behind its page loop, which maps fresh frames under the heap range.\<close>

definition heap_init :: "u32 \<Rightarrow> u32 \<Rightarrow> heap_state" where
  "heap_init heap_start heap_size =
     (let sz = align_up heap_size 4096 in
      \<lparr>heap_blocks = [\<lparr>bh_addr = heap_start, bh_size = sz - HDR, bh_free = True\<rparr>], heap_size_total = sz\<rparr>)"

text \<open>
  The search loop of \<open>kmalloc\<close>: the blocks before the hit, the hit with the remainder that
  is split off, the blocks behind.
\<close>

fun kmalloc_walk :: "block_header list \<Rightarrow> u32 \<Rightarrow> (u32 \<times> block_header list) option" where
  "kmalloc_walk [] sz = None"
| "kmalloc_walk (b # bs) sz =
     (if bh_free b \<and> bh_size b \<ge> sz then
        (let remaining = bh_size b - sz in
         if remaining > HDR + HEAP_ALIGN
         then Some (bh_addr b + HDR,
                b\<lparr>bh_size := sz, bh_free := False\<rparr>
                # \<lparr>bh_addr = bh_addr b + HDR + sz, bh_size = remaining - HDR, bh_free = True\<rparr> # bs)
         else Some (bh_addr b + HDR, b\<lparr>bh_free := False\<rparr> # bs))
      else (case kmalloc_walk bs sz of
              None \<Rightarrow> None
            | Some (p, bs') \<Rightarrow> Some (p, b # bs')))"

definition kmalloc :: "heap_state \<Rightarrow> u32 \<Rightarrow> (u32 \<times> heap_state) option" where
  "kmalloc h sz =
     (if sz = 0 \<or> heap_blocks h = [] then None
      else case kmalloc_walk (heap_blocks h) (align_up sz HEAP_ALIGN) of
             None \<Rightarrow> None
           | Some (p, bs) \<Rightarrow> Some (p, h\<lparr>heap_blocks := bs\<rparr>))"

text \<open>The merge loop of \<open>kfree\<close>: after a merge the same block is looked at again.\<close>

function coalesce :: "block_header list \<Rightarrow> block_header list" where
  "coalesce [] = []"
| "coalesce [b] = [b]"
| "coalesce (b # c # bs) =
     (if bh_free b \<and> bh_free c then coalesce (b\<lparr>bh_size := bh_size b + (HDR + bh_size c)\<rparr> # bs)
      else b # coalesce (c # bs))"
  by pat_completeness auto
termination
  by (relation "measure length") auto

fun mark_free :: "block_header list \<Rightarrow> u32 \<Rightarrow> block_header list option" where
  "mark_free [] a = None"
| "mark_free (b # bs) a =
     (if bh_addr b = a then Some (b\<lparr>bh_free := True\<rparr> # bs)
      else map_option (Cons b) (mark_free bs a))"

definition kfree :: "heap_state \<Rightarrow> u32 \<Rightarrow> heap_state option" where
  "kfree h ptr =
     (if ptr = 0 then Some h
      else map_option (\<lambda>bs. h\<lparr>heap_blocks := coalesce bs\<rparr>) (mark_free (heap_blocks h) (ptr - HDR)))"

definition heap_total_bytes :: "heap_state \<Rightarrow> u32" where
  "heap_total_bytes h = heap_size_total h"

fun used_bytes :: "block_header list \<Rightarrow> u32" where
  "used_bytes [] = 0"
| "used_bytes (b # bs) = (if \<not> bh_free b then bh_size b + used_bytes bs else used_bytes bs)"

definition heap_used_bytes :: "heap_state \<Rightarrow> u32" where
  "heap_used_bytes h = used_bytes (heap_blocks h)"

section \<open>The tiling invariant\<close>

text \<open>
  The blocks tile the heap: each starts where the one before it ends, the last ends at the end of
  the heap, and no address wraps.
\<close>

fun tiles :: "nat \<Rightarrow> nat \<Rightarrow> block_header list \<Rightarrow> bool" where
  "tiles a e [] \<longleftrightarrow> a = e"
| "tiles a e (b # bs) \<longleftrightarrow> unat (bh_addr b) = a \<and> tiles (a + 12 + unat (bh_size b)) e bs"

fun no_adjacent :: "block_header list \<Rightarrow> bool" where
  "no_adjacent (b # c # bs) \<longleftrightarrow> \<not> (bh_free b \<and> bh_free c) \<and> no_adjacent (c # bs)"
| "no_adjacent _ \<longleftrightarrow> True"

definition heap_ok :: "nat \<Rightarrow> nat \<Rightarrow> heap_state \<Rightarrow> bool" where
  "heap_ok a e h \<longleftrightarrow> e < 2 ^ 32 \<and> tiles a e (heap_blocks h) \<and> no_adjacent (heap_blocks h)
     \<and> heap_blocks h \<noteq> []"

text \<open>The address range that a client owns: the payload of a used block.\<close>

definition owned :: "block_header list \<Rightarrow> (nat \<times> nat) list" where
  "owned bs = map (\<lambda>b. (unat (bh_addr b) + 12, unat (bh_size b))) (filter (\<lambda>b. \<not> bh_free b) bs)"

lemma owned_simps [simp]:
  "owned [] = []"
  "owned (b # bs) = (if bh_free b then owned bs else (unat (bh_addr b) + 12, unat (bh_size b)) # owned bs)"
  by (simp_all add: owned_def)

lemma tiles_le: "tiles a e bs \<Longrightarrow> a \<le> e"
  by (induction bs arbitrary: a) fastforce+

lemma tiles_owned: "tiles a e bs \<Longrightarrow> (p, n) \<in> set (owned bs) \<Longrightarrow> a + 12 \<le> p \<and> p + n \<le> e"
  by (induction bs arbitrary: a) (force dest: tiles_le split: if_splits)+

lemma tiles_owned_disjoint:
  "tiles a e bs \<Longrightarrow> i < j \<Longrightarrow> j < length (owned bs) \<Longrightarrow>
     fst (owned bs ! i) + snd (owned bs ! i) + 12 \<le> fst (owned bs ! j)"
proof (induction bs arbitrary: a i j)
  case (Cons b bs)
  let ?a = "a + 12 + unat (bh_size b)"
  have t: "tiles ?a e bs" "unat (bh_addr b) = a" using Cons.prems(1) by simp_all
  show ?case
  proof (cases "bh_free b")
    case True
    then show ?thesis using Cons.IH [OF t(1) Cons.prems(2)] Cons.prems(3) by simp
  next
    case False
    show ?thesis
    proof (cases i)
      case 0
      have "owned bs ! (j - 1) \<in> set (owned bs)" using False Cons.prems(2,3) by (intro nth_mem) auto
      then have "?a + 12 \<le> fst (owned bs ! (j - 1))"
        using tiles_owned [OF t(1)] by (metis prod.collapse)
      then show ?thesis using False 0 Cons.prems(2) t(2) by (simp add: nth_Cons')
    next
      case (Suc k)
      then show ?thesis
        using Cons.IH [OF t(1), of k "j - 1"] False Cons.prems(2,3) by (simp add: nth_Cons')
    qed
  qed
qed simp

section \<open>Allocation\<close>

text \<open>A hit splits the list; the first block that fits is taken.\<close>

lemma kmalloc_walk_cases:
  assumes "kmalloc_walk bs sz = Some (p, bs')"
  obtains xs b ys rep where "bs = xs @ b # ys" "bs' = xs @ rep @ ys" "bh_free b" "sz \<le> bh_size b"
    "\<forall>x \<in> set xs. \<not> (bh_free x \<and> sz \<le> bh_size x)" "p = bh_addr b + HDR"
    "rep = (if bh_size b - sz > HDR + HEAP_ALIGN
       then [b\<lparr>bh_size := sz, bh_free := False\<rparr>,
             \<lparr>bh_addr = bh_addr b + HDR + sz, bh_size = bh_size b - sz - HDR, bh_free = True\<rparr>]
       else [b\<lparr>bh_free := False\<rparr>])"
  using assms
proof (induction bs arbitrary: bs' thesis)
  case (Cons b bs)
  show ?case
  proof (cases "bh_free b \<and> sz \<le> bh_size b")
    case True
    then show ?thesis
      using Cons.prems(2) by (intro Cons.prems(1) [of "[]" b bs]) (auto simp: Let_def split: if_splits)
  next
    case False
    then obtain bs1 where w: "kmalloc_walk bs sz = Some (p, bs1)" "bs' = b # bs1"
      using Cons.prems(2) by (auto split: if_splits option.splits)
    show ?thesis
    proof (rule Cons.IH [OF _ w(1)])
      fix xs c ys rep
      assume "bs = xs @ c # ys" "bs1 = xs @ rep @ ys" "bh_free c" "sz \<le> bh_size c"
        "\<forall>x \<in> set xs. \<not> (bh_free x \<and> sz \<le> bh_size x)" "p = bh_addr c + HDR"
        "rep = (if bh_size c - sz > HDR + HEAP_ALIGN
           then [c\<lparr>bh_size := sz, bh_free := False\<rparr>,
                 \<lparr>bh_addr = bh_addr c + HDR + sz, bh_size = bh_size c - sz - HDR, bh_free = True\<rparr>]
           else [c\<lparr>bh_free := False\<rparr>])"
      then show ?thesis using False w(2) by (intro Cons.prems(1) [of "b # xs" c ys rep]) auto
    qed
  qed
qed simp

lemma kmalloc_walk_None_iff:
  "kmalloc_walk bs sz = None \<longleftrightarrow> (\<forall>b \<in> set bs. bh_free b \<longrightarrow> bh_size b < sz)"
  by (induction bs) (auto simp: Let_def not_le split: option.splits)

lemma tiles_append: "tiles a e (xs @ ys) \<longleftrightarrow> (\<exists>m. tiles a m xs \<and> tiles m e ys)"
  by (induction xs arbitrary: a) auto

lemma no_adjacent_append_Cons:
  "no_adjacent (xs @ b # ys) \<longleftrightarrow> no_adjacent (xs @ [b]) \<and> no_adjacent (b # ys)"
  by (induction xs rule: no_adjacent.induct) (auto simp: neq_Nil_conv)

lemma no_adjacent_used: "\<not> bh_free b \<Longrightarrow> no_adjacent (xs @ [b]) \<longleftrightarrow> no_adjacent xs"
  by (induction xs rule: no_adjacent.induct) auto

lemma no_adjacent_snoc: "no_adjacent (xs @ [b]) \<Longrightarrow> no_adjacent xs"
  by (induction xs rule: no_adjacent.induct) auto

lemma no_adjacent_tail: "no_adjacent (b # ys) \<Longrightarrow> no_adjacent ys"
  by (cases ys) auto

lemma owned_append [simp]: "owned (xs @ ys) = owned xs @ owned ys"
  by (simp add: owned_def)

lemma kmalloc_walk_ok:
  assumes w: "kmalloc_walk bs sz = Some (p, bs')" and t: "tiles a e bs" "no_adjacent bs" "e < 2 ^ 32"
  shows "tiles a e bs' \<and> no_adjacent bs'
    \<and> (\<exists>us vs n. owned bs = us @ vs \<and> owned bs' = us @ (unat p, n) # vs \<and> unat sz \<le> n)"
proof -
  obtain xs b ys rep where 1: "bs = xs @ b # ys" "bs' = xs @ rep @ ys" "bh_free b" "sz \<le> bh_size b"
    "\<forall>x \<in> set xs. \<not> (bh_free x \<and> sz \<le> bh_size x)" "p = bh_addr b + HDR"
    "rep = (if bh_size b - sz > HDR + HEAP_ALIGN
       then [b\<lparr>bh_size := sz, bh_free := False\<rparr>,
             \<lparr>bh_addr = bh_addr b + HDR + sz, bh_size = bh_size b - sz - HDR, bh_free = True\<rparr>]
       else [b\<lparr>bh_free := False\<rparr>])"
    using w by (rule kmalloc_walk_cases)
  let ?big = "bh_size b - sz > HDR + HEAP_ALIGN"
  obtain m where m: "tiles a m xs" "unat (bh_addr b) = m" "tiles (m + 12 + unat (bh_size b)) e ys"
    using t(1) by (auto simp: 1(1) tiles_append)
  have le: "m + 12 + unat (bh_size b) \<le> e" by (rule tiles_le [OF m(3)])
  have p: "unat p = m + 12" using le t(3) m(2) by (simp add: 1(6) unat_word_ariths)
  have szle: "unat sz \<le> unat (bh_size b)" using 1(4) by (simp add: word_le_nat_alt)
  have rem: "unat (bh_size b - sz) = unat (bh_size b) - unat sz" using 1(4) by (simp add: unat_sub)
  have na: "no_adjacent (xs @ [b])" "no_adjacent (b # ys)"
    using t(2) no_adjacent_append_Cons [of xs b ys] by (simp_all add: 1(1))
  then have ny: "no_adjacent ys" "no_adjacent xs" using no_adjacent_tail no_adjacent_snoc by blast+
  show ?thesis
  proof (cases ?big)
    case True
    let ?u = "b\<lparr>bh_size := sz, bh_free := False\<rparr>"
    let ?r = "\<lparr>bh_addr = bh_addr b + HDR + sz, bh_size = bh_size b - sz - HDR, bh_free = True\<rparr>"
    have big: "20 < unat (bh_size b) - unat sz" using True rem by (simp add: word_less_nat_alt)
    have ra: "unat (bh_addr b + HDR + sz) = m + 12 + unat sz"
      using le t(3) m(2) szle by (simp add: unat_word_ariths)
    have rs: "unat (bh_size b - sz - HDR) = unat (bh_size b) - unat sz - 12"
      using big rem by (subst unat_sub) (simp_all add: word_le_nat_alt)
    have bs': "bs' = xs @ ?u # ?r # ys" using 1(2,7) True by simp
    have "m + 12 + unat sz + 12 + (unat (bh_size b) - unat sz - 12) = m + 12 + unat (bh_size b)"
      using big by linarith
    then have "tiles a e bs'"
      using m ra rs by (auto simp: bs' tiles_append ac_simps)
    moreover have "no_adjacent bs'"
    proof -
      have "no_adjacent (?r # ys)" using na(2) 1(3) by (cases ys) auto
      then have "no_adjacent (?u # ?r # ys)" by simp
      moreover have "no_adjacent (xs @ [?u])" using ny no_adjacent_used [of ?u xs] by simp
      ultimately show ?thesis unfolding bs' no_adjacent_append_Cons [of xs ?u "?r # ys"] by blast
    qed
    moreover have "owned bs = owned xs @ owned ys" "owned bs' = owned xs @ (unat p, unat sz) # owned ys"
      using 1(1,3) m(2) p by (simp_all add: bs')
    ultimately show ?thesis by blast
  next
    case False
    let ?u = "b\<lparr>bh_free := False\<rparr>"
    have bs': "bs' = xs @ ?u # ys" using 1(2,7) False by simp
    have "tiles a e bs'" using m by (auto simp: bs' tiles_append)
    moreover have "no_adjacent bs'"
    proof -
      have "no_adjacent (?u # ys)" using ny by (cases ys) auto
      moreover have "no_adjacent (xs @ [?u])" using ny no_adjacent_used [of ?u xs] by simp
      ultimately show ?thesis unfolding bs' no_adjacent_append_Cons [of xs ?u ys] by blast
    qed
    moreover have "owned bs = owned xs @ owned ys" "owned bs' = owned xs @ (unat p, unat (bh_size b)) # owned ys"
      using 1(1,3) m(2) p by (simp_all add: bs')
    ultimately show ?thesis using szle by blast
  qed
qed

section \<open>Release\<close>

lemma coalesce_nonempty: "bs \<noteq> [] \<Longrightarrow> coalesce bs \<noteq> []"
  by (induction bs rule: coalesce.induct) auto

lemma coalesce_ok:
  "tiles a e bs \<Longrightarrow> e < 2 ^ 32 \<Longrightarrow>
     tiles a e (coalesce bs) \<and> no_adjacent (coalesce bs) \<and> owned (coalesce bs) = owned bs
     \<and> (bs \<noteq> [] \<and> \<not> bh_free (hd bs) \<longrightarrow> hd (coalesce bs) = hd bs)"
proof (induction bs arbitrary: a rule: coalesce.induct)
  case (3 b c bs)
  show ?case
  proof (cases "bh_free b \<and> bh_free c")
    case True
    let ?m = "b\<lparr>bh_size := bh_size b + (HDR + bh_size c)\<rparr>"
    have le: "a + 12 + unat (bh_size b) + 12 + unat (bh_size c) \<le> e"
      using "3.prems"(1) tiles_le by auto
    then have "unat (bh_size b + (HDR + bh_size c)) = unat (bh_size b) + 12 + unat (bh_size c)"
      using "3.prems"(2) by (simp add: unat_word_ariths)
    then have "tiles a e (?m # bs)" using "3.prems"(1) by (simp add: ac_simps)
    from "3.IH"(1) [OF True this "3.prems"(2)] True show ?thesis by simp
  next
    case False
    have t: "tiles (a + 12 + unat (bh_size b)) e (c # bs)" using "3.prems"(1) by simp
    note IH = "3.IH"(2) [OF False t "3.prems"(2)]
    obtain d ds where d: "coalesce (c # bs) = d # ds"
      using coalesce_nonempty [of "c # bs"] by (cases "coalesce (c # bs)") auto
    have "\<not> (bh_free b \<and> bh_free d)"
      using False IH d by auto
    with IH d False "3.prems"(1) show ?thesis by auto
  qed
qed auto

lemma mark_free_cases:
  assumes "mark_free bs a = Some bs'"
  obtains xs b ys where "bs = xs @ b # ys" "bh_addr b = a" "bs' = xs @ b\<lparr>bh_free := True\<rparr> # ys"
  using assms
proof (induction bs arbitrary: bs' thesis)
  case (Cons b bs)
  show ?case
  proof (cases "bh_addr b = a")
    case True
    with Cons.prems show ?thesis by (intro Cons.prems(1) [of "[]" b bs]) auto
  next
    case False
    then obtain bs1 where m: "mark_free bs a = Some bs1" "bs' = b # bs1" using Cons.prems(2) by auto
    show ?thesis
      by (rule Cons.IH [OF _ m(1)]) (use m(2) in \<open>auto intro: Cons.prems(1) [of "b # _"]\<close>)
  qed
qed simp

lemma mark_free_owned:
  "tiles a e bs \<Longrightarrow> (p, n) \<in> set (owned bs) \<Longrightarrow> e < 2 ^ 32 \<Longrightarrow>
     \<exists>bs'. mark_free bs (of_nat p - HDR) = Some bs'"
proof (induction bs arbitrary: a)
  case (Cons b bs)
  have t: "tiles (a + 12 + unat (bh_size b)) e bs" using Cons.prems(1) by simp
  show ?case
  proof (cases "(p, n) \<in> set (owned bs)")
    case True
    then show ?thesis using Cons.IH [OF t] Cons.prems(3) by auto
  next
    case False
    then have "p = unat (bh_addr b) + 12" using Cons.prems(2) by (auto split: if_splits)
    then have "of_nat p - HDR = bh_addr b" by simp
    then show ?thesis by simp
  qed
qed simp


lemma filter_eq_appendD:
  "filter P xs = ys @ zs \<Longrightarrow> \<exists>us vs. xs = us @ vs \<and> filter P us = ys \<and> filter P vs = zs"
proof (induction xs arbitrary: ys)
  case (Cons x xs)
  show ?case
  proof (cases "P x \<and> ys = []")
    case True
    then show ?thesis using Cons.prems by (intro exI [of _ "[]"] exI [of _ "x # xs"]) simp
  next
    case False
    then obtain ys' where y: "filter P xs = ys' @ zs" "ys = (if P x then x # ys' else ys')"
      using Cons.prems by (cases ys) (auto split: if_splits)
    obtain us vs where "xs = us @ vs" "filter P us = ys'" "filter P vs = zs" using Cons.IH [OF y(1)] by blast
    then show ?thesis using y(2) by (intro exI [of _ "x # us"] exI [of _ vs]) simp
  qed
qed simp

lemma owned_split:
  assumes "owned bs = us @ (p, n) # vs"
  obtains xs b ys where "bs = xs @ b # ys" "\<not> bh_free b" "p = unat (bh_addr b) + 12" "n = unat (bh_size b)"
    "owned xs = us" "owned ys = vs"
proof -
  let ?f = "\<lambda>b. (unat (bh_addr b) + 12, unat (bh_size b))" and ?P = "\<lambda>b. \<not> bh_free b"
  obtain us' b vs' where f: "filter ?P bs = us' @ b # vs'" "map ?f us' = us" "(p, n) = ?f b" "map ?f vs' = vs"
    using assms unfolding owned_def by (auto simp: map_eq_append_conv Cons_eq_map_conv)
  obtain xs zs where z: "bs = xs @ zs" "filter ?P xs = us'" "filter ?P zs = b # vs'"
    using filter_eq_appendD [OF f(1)] by blast
  obtain ws ys where w: "zs = ws @ b # ys" "\<forall>x \<in> set ws. bh_free x" "\<not> bh_free b" "filter ?P ys = vs'"
    using z(3) by (auto simp: filter_eq_Cons_iff)
  have "filter ?P ws = []" using w(2) by (simp add: filter_empty_conv)
  then have "owned (xs @ ws) = us" "owned ys = vs" using z(2) f(2,4) w(4) by (simp_all add: owned_def)
  with z(1) w(1,3) f(3) show ?thesis by (intro that [of "xs @ ws" b ys]) simp_all
qed

lemma mark_free_at:
  "\<forall>x \<in> set xs. bh_addr x \<noteq> bh_addr b \<Longrightarrow> mark_free (xs @ b # ys) (bh_addr b) = Some (xs @ b\<lparr>bh_free := True\<rparr> # ys)"
  by (induction xs) auto

lemma tiles_addr_less: "tiles a m xs \<Longrightarrow> x \<in> set xs \<Longrightarrow> unat (bh_addr x) < m"
proof (induction xs arbitrary: a)
  case (Cons b xs)
  have t: "tiles (a + 12 + unat (bh_size b)) m xs" "unat (bh_addr b) = a" using Cons.prems(1) by simp_all
  show ?case
  proof (cases "x = b")
    case True
    then show ?thesis using tiles_le [OF t(1)] t(2) by simp
  next
    case False
    then show ?thesis using Cons.IH [OF t(1)] Cons.prems(2) by simp
  qed
qed simp

lemma kfree_ok:
  assumes h: "heap_ok a e h" and o: "owned (heap_blocks h) = us @ (p, n) # vs"
  shows "\<exists>h'. kfree h (of_nat p) = Some h' \<and> heap_ok a e h' \<and> owned (heap_blocks h') = us @ vs
    \<and> heap_size_total h' = heap_size_total h"
proof -
  obtain xs b ys where b: "heap_blocks h = xs @ b # ys" "\<not> bh_free b" "p = unat (bh_addr b) + 12"
      "n = unat (bh_size b)" "owned xs = us" "owned ys = vs"
    using o by (rule owned_split)
  obtain m where m: "tiles a m xs" "unat (bh_addr b) = m" "tiles (m + 12 + unat (bh_size b)) e ys"
    using h by (auto simp: heap_ok_def b(1) tiles_append)
  let ?bs = "xs @ b\<lparr>bh_free := True\<rparr> # ys"
  have ne: "\<forall>x \<in> set xs. bh_addr x \<noteq> bh_addr b" using tiles_addr_less [OF m(1)] m(2) by fastforce
  have e: "e < 2 ^ 32" using h by (simp add: heap_ok_def)
  have p: "of_nat p - HDR = bh_addr b" by (simp add: b(3))
  have le: "m + 12 \<le> e" using tiles_le [OF m(3)] by linarith
  have "p < 2 ^ 32" using le e m(2) b(3) by linarith
  then have "unat (of_nat p :: u32) = p" by (simp only: unat_of_nat) simp
  then have nz: "(of_nat p :: u32) \<noteq> 0" using b(3) by auto
  have t: "tiles a e ?bs" using m by (auto simp: tiles_append)
  have "kfree h (of_nat p) = Some (h\<lparr>heap_blocks := coalesce ?bs\<rparr>)"
    using mark_free_at [OF ne] nz p by (simp add: kfree_def b(1))
  moreover have "owned ?bs = us @ vs" using b(5,6) by simp
  ultimately show ?thesis
    using coalesce_ok [OF t e] e coalesce_nonempty [of ?bs] by (simp add: heap_ok_def)
qed

lemma kmalloc_ok:
  assumes h: "heap_ok a e h" and k: "kmalloc h sz = Some (p, h')"
  shows "heap_ok a e h' \<and> heap_size_total h' = heap_size_total h
    \<and> (\<exists>us vs n. owned (heap_blocks h) = us @ vs \<and> owned (heap_blocks h') = us @ (unat p, n) # vs
                \<and> unat (align_up sz HEAP_ALIGN) \<le> n)"
proof -
  obtain bs where w: "kmalloc_walk (heap_blocks h) (align_up sz HEAP_ALIGN) = Some (p, bs)" "h' = h\<lparr>heap_blocks := bs\<rparr>"
    using k by (auto simp: kmalloc_def split: if_splits option.splits)
  have pre: "tiles a e (heap_blocks h)" "no_adjacent (heap_blocks h)" "e < 2 ^ 32" using h by (auto simp: heap_ok_def)
  note W = kmalloc_walk_ok [OF w(1) pre]
  moreover have "bs \<noteq> []" using W by auto
  ultimately show ?thesis using pre(3) w(2) by (simp add: heap_ok_def)
qed

lemma all_free_single:
  assumes "heap_ok a e h" "owned (heap_blocks h) = []"
  shows "\<exists>b. heap_blocks h = [b] \<and> bh_free b \<and> unat (bh_addr b) = a \<and> unat (bh_size b) + 12 = e - a"
proof -
  have fr: "\<forall>b \<in> set (heap_blocks h). bh_free b"
    using assms(2) by (auto simp: owned_def filter_empty_conv)
  have "\<exists>b. heap_blocks h = [b]"
    using assms(1) fr unfolding heap_ok_def by (cases "heap_blocks h" rule: no_adjacent.cases) auto
  then show ?thesis using assms(1) fr by (auto simp: heap_ok_def)
qed

lemma align_up_8: "unat sz + 7 < 2 ^ 32 \<Longrightarrow> unat sz \<le> unat (align_up sz HEAP_ALIGN)"
proof -
  assume a: "unat sz + 7 < 2 ^ 32"
  let ?v = "sz + 7"
  have m: "(8 - 1 :: u32) = mask 3" by (simp add: mask_eq_exp_minus_1)
  have "sz + HEAP_ALIGN - 1 = ?v" by simp
  then have e: "align_up sz HEAP_ALIGN = ?v AND NOT (mask 3)" unfolding align_up_def m by (simp only:)
  have "(?v AND NOT (mask 3)) + (?v AND mask 3) = ?v"
    by (subst disjunctive_add) (auto simp: bit_simps intro!: bit_word_eqI)
  then have v: "align_up sz HEAP_ALIGN = ?v - take_bit 3 ?v" by (simp add: e take_bit_eq_mask eq_diff_eq)
  have v7: "unat ?v = unat sz + 7" using a by (simp add: unat_word_ariths)
  have t: "unat (take_bit 3 ?v) = unat ?v mod 8" by (simp add: take_bit_eq_mod unat_mod)
  then have "take_bit 3 ?v \<le> ?v" by (simp add: word_le_nat_alt)
  then have "unat (align_up sz HEAP_ALIGN) = unat ?v - unat ?v mod 8" unfolding v by (simp only: unat_sub t)
  moreover have "unat ?v mod 8 \<le> 7" using mod_less_divisor [of 8 "unat ?v"] by linarith
  ultimately show ?thesis using v7 by linarith
qed


section \<open>The allocator interface\<close>

text \<open>
  What a client of an allocator relies on: \<open>own\<close> lists the ranges that were handed out and not
  given back.
\<close>

fun release_list :: "('h \<Rightarrow> u32 \<Rightarrow> 'h option) \<Rightarrow> 'h \<Rightarrow> u32 list \<Rightarrow> 'h option" where
  "release_list rel h [] = Some h"
| "release_list rel h (p # ps) = (case rel h p of None \<Rightarrow> None | Some h' \<Rightarrow> release_list rel h' ps)"

locale allocator =
  fixes alloc :: "'h \<Rightarrow> u32 \<Rightarrow> (u32 \<times> 'h) option"
    and release :: "'h \<Rightarrow> u32 \<Rightarrow> 'h option"
    and inv :: "'h \<Rightarrow> bool"
    and own :: "'h \<Rightarrow> (nat \<times> nat) list"
  assumes alloc_inv: "inv h \<Longrightarrow> alloc h n = Some (p, h') \<Longrightarrow> inv h'"
    and alloc_own: "inv h \<Longrightarrow> alloc h n = Some (p, h') \<Longrightarrow>
        \<exists>us vs m. own h = us @ vs \<and> own h' = us @ (unat p, m) # vs"
    and release_own: "inv h \<Longrightarrow> own h = us @ (q, m) # vs \<Longrightarrow>
        \<exists>h'. release h (of_nat q) = Some h' \<and> inv h' \<and> own h' = us @ vs"
begin

text \<open>Giving back what was just allocated restores the ownership.\<close>

lemma alloc_release:
  assumes "inv h" "alloc h n = Some (p, h')"
  shows "\<exists>h''. release h' p = Some h'' \<and> inv h'' \<and> own h'' = own h"
proof -
  obtain us vs m where o: "own h = us @ vs" "own h' = us @ (unat p, m) # vs"
    using alloc_own [OF assms] by blast
  show ?thesis using release_own [OF alloc_inv [OF assms] o(2)] o(1) by simp
qed

text \<open>A client can give back everything it owns, one range after the other.\<close>

lemma release_all:
  "inv h \<Longrightarrow> \<exists>h'. release_list release h (map (\<lambda>(q, m). of_nat q) (own h)) = Some h' \<and> inv h' \<and> own h' = []"
proof (induction "own h" arbitrary: h)
  case Nil
  then show ?case by (simp add: Nil.hyps [symmetric])
next
  case (Cons x xs)
  obtain q m where x: "x = (q, m)" by fastforce
  then have o: "own h = [] @ (q, m) # xs" using Cons.hyps(2) by simp
  obtain h1 where h1: "release h (of_nat q) = Some h1" "inv h1" "own h1 = xs"
    using release_own [OF Cons.prems o] by auto
  obtain h2 where h2: "release_list release h1 (map (\<lambda>(q, m). of_nat q) (own h1)) = Some h2" "inv h2" "own h2 = []"
    using Cons.hyps(1) [OF h1(3) [symmetric] h1(2)] by blast
  have "map (\<lambda>(q, m). of_nat q :: u32) (own h) = of_nat q # map (\<lambda>(q, m). of_nat q) (own h1)"
    unfolding o h1(3) by simp
  then have "release_list release h (map (\<lambda>(q, m). of_nat q) (own h)) = Some h2"
    by (simp only: release_list.simps h1(1) h2(1) option.case)
  with h2(2,3) show ?case by blast
qed

end

text \<open>The kernel heap is one.\<close>

definition heap_owned :: "heap_state \<Rightarrow> (nat \<times> nat) list" where
  "heap_owned h = owned (heap_blocks h)"

interpretation kheap: allocator kmalloc kfree "heap_ok a e" heap_owned for a e
proof unfold_locales
  fix h n p h' assume h: "heap_ok a e h" and k: "kmalloc h n = Some (p, h')"
  show "heap_ok a e h'" using kmalloc_ok [OF h k] by simp
  show "\<exists>us vs m. heap_owned h = us @ vs \<and> heap_owned h' = us @ (unat p, m) # vs"
    using kmalloc_ok [OF h k] by (auto simp: heap_owned_def)
next
  fix h us q m vs assume h: "heap_ok a e h" and o: "heap_owned h = us @ (q, m) # vs"
  show "\<exists>h'. kfree h (of_nat q) = Some h' \<and> heap_ok a e h' \<and> heap_owned h' = us @ vs"
    using kfree_ok [OF h o [unfolded heap_owned_def]] by (auto simp: heap_owned_def)
qed

section \<open>Properties\<close>

text \<open>A heap of one page at one megabyte.\<close>

definition demo_heap :: heap_state where
  "demo_heap = heap_init 0x01000000 4096"

lemma demo_heap_blocks:
  "heap_blocks demo_heap = [\<lparr>bh_addr = 0x01000000, bh_size = 4084, bh_free = True\<rparr>]"
  by (simp add: demo_heap_def heap_init_def align_up_def Let_def)

lemma demo_heap_ok: "heap_ok 0x01000000 0x01001000 demo_heap"
  by (simp add: heap_ok_def demo_heap_blocks)



text \<open>
  \<^verbatim>\<open>kmalloc\<close> of a non-zero size fails only when no free block is large enough, and takes the free block
  with the lowest address otherwise.
\<close>

theorem kmalloc_first_fit:
  assumes "heap_ok a e h" "sz \<noteq> 0"
  shows "case kmalloc h sz of
     None \<Rightarrow> list_all (\<lambda>b. bh_free b \<longrightarrow> bh_size b < align_up sz HEAP_ALIGN) (heap_blocks h)
   | Some (p, h') \<Rightarrow> \<exists>xs b ys. heap_blocks h = xs @ b # ys \<and> p = bh_addr b + HDR \<and> bh_free b
       \<and> align_up sz HEAP_ALIGN \<le> bh_size b
       \<and> list_all (\<lambda>x. \<not> (bh_free x \<and> align_up sz HEAP_ALIGN \<le> bh_size x)) xs"
proof (cases "kmalloc_walk (heap_blocks h) (align_up sz HEAP_ALIGN)")
  case None
  then have "kmalloc h sz = None" by (simp add: kmalloc_def)
  moreover have "\<forall>b \<in> set (heap_blocks h). bh_free b \<longrightarrow> bh_size b < align_up sz HEAP_ALIGN"
    using None by (simp add: kmalloc_walk_None_iff)
  ultimately show ?thesis by (simp add: list_all_iff)
next
  case (Some r)
  obtain p bs where r: "r = (p, bs)" by fastforce
  have "kmalloc h sz = Some (p, h\<lparr>heap_blocks := bs\<rparr>)"
    using Some r assms by (simp add: kmalloc_def heap_ok_def)
  moreover obtain xs b ys where "heap_blocks h = xs @ b # ys" "bh_free b" "align_up sz HEAP_ALIGN \<le> bh_size b"
      "\<forall>x \<in> set xs. \<not> (bh_free x \<and> align_up sz HEAP_ALIGN \<le> bh_size x)" "p = bh_addr b + HDR"
    using kmalloc_walk_cases [OF Some [unfolded r]] by metis
  ultimately show ?thesis by (auto simp: list_all_iff)
qed

theorem kmalloc_first_fit_witness:
  "kmalloc demo_heap 5000 = None \<longrightarrow>
     list_all (\<lambda>b. bh_free b \<longrightarrow> bh_size b < align_up 5000 HEAP_ALIGN) (heap_blocks demo_heap)"
  using kmalloc_first_fit [OF demo_heap_ok, of 5000] by (cases "kmalloc demo_heap 5000") simp_all

text \<open>
  Freeing an owned range succeeds, gives back exactly that range, keeps the heap well formed, and merges:
  when the last owned range is given back, the heap is one free block again that covers everything
  but its header.
\<close>

theorem kfree_merges:
  assumes "heap_ok a e h" "owned (heap_blocks h) = us @ (p, n) # vs"
  shows "\<exists>h'. kfree h (of_nat p) = Some h' \<and> heap_ok a e h' \<and> owned (heap_blocks h') = us @ vs
    \<and> (us @ vs = [] \<longrightarrow>
         (\<exists>b. heap_blocks h' = [b] \<and> bh_free b \<and> unat (bh_addr b) = a \<and> unat (bh_size b) + 12 = e - a))"
  using kfree_ok [OF assms] all_free_single by metis

theorem kfree_merges_witness:
  "\<exists>p h h'. kmalloc demo_heap 100 = Some (p, h) \<and> kfree h p = Some h' \<and> owned (heap_blocks h') = []
    \<and> length (heap_blocks h') = 1"
proof -
  let ?h = "demo_heap\<lparr>heap_blocks := [\<lparr>bh_addr = 0x01000000, bh_size = 104, bh_free = False\<rparr>,
      \<lparr>bh_addr = 0x01000074, bh_size = 3968, bh_free = True\<rparr>]\<rparr>"
  have k: "kmalloc demo_heap 100 = Some (0x0100000C, ?h)"
    by (simp add: kmalloc_def demo_heap_blocks align_up_def Let_def)
  have ok: "heap_ok 0x01000000 0x01001000 ?h" using kmalloc_ok [OF demo_heap_ok k] by simp
  have "owned (heap_blocks ?h) = [] @ (0x0100000C, 104) # []" by simp
  from kfree_merges [OF ok this] k show ?thesis by auto
qed

text \<open>
  Nothing leaks: from any well-formed heap, freeing all owned ranges one after the other in list order succeeds and
  leaves one free block that covers the whole heap, so every byte is available again.
\<close>

theorem heap_drains:
  assumes "heap_ok a e h"
  shows "\<exists>h'. release_list kfree h (map (\<lambda>(q, m). of_nat q) (owned (heap_blocks h))) = Some h'
    \<and> (\<exists>b. heap_blocks h' = [b] \<and> bh_free b \<and> unat (bh_addr b) = a \<and> unat (bh_size b) + 12 = e - a)"
  using kheap.release_all [OF assms] all_free_single unfolding heap_owned_def by blast

theorem heap_drains_witness:
  "\<exists>h'. release_list kfree demo_heap [] = Some h' \<and> length (heap_blocks h') = 1"
  using heap_drains [OF demo_heap_ok] by (auto simp: demo_heap_blocks)

text \<open>
  The rounding of \<^verbatim>\<open>kmalloc\<close> wraps: a request within seven bytes of four GiB is rounded to zero and then served from the
  first free block, so the caller gets a pointer to at most 20 usable bytes instead of a failure.
\<close>

theorem kmalloc_wraps:
  assumes "heap_ok a e h" "2 ^ 32 \<le> unat sz + 7" "list_ex bh_free (heap_blocks h)"
  shows "\<exists>p h' us n vs. kmalloc h sz = Some (p, h') \<and> owned (heap_blocks h') = us @ (unat p, n) # vs \<and> n \<le> 20"
proof -
  have nz: "sz \<noteq> 0" using assms(2) by auto
  have z: "align_up sz HEAP_ALIGN = 0"
  proof -
    have lt: "unat sz < 2 ^ 32" using unsigned_less [of sz] by simp
    have s: "unat (sz + 7) = unat sz + 7 - 2 ^ 32"
      using assms(2) lt by (simp add: unat_word_ariths mod_if)
    have "sz + 7 < 8" using s lt by (simp add: word_less_nat_alt)
    then have "unat ((sz + 7) mod 8) = unat (sz + 7)" by (simp add: unat_mod word_less_nat_alt)
    then have "(sz + 7) mod 8 = sz + 7" by (simp only: word_unat_eq_iff)
    then have t: "take_bit 3 (sz + 7) = sz + 7" by (simp add: take_bit_eq_mod)
    have m: "(8 - 1 :: u32) = mask 3" by (simp add: mask_eq_exp_minus_1)
    have "sz + HEAP_ALIGN - 1 = sz + 7" by simp
    then have "align_up sz HEAP_ALIGN = (sz + 7) AND NOT (mask 3)" unfolding align_up_def m by (simp only:)
    also have "\<dots> = (take_bit 3 (sz + 7)) AND NOT (mask 3)" by (simp only: t)
    also have "\<dots> = 0" by (rule bit_word_eqI) (auto simp: bit_simps)
    finally show ?thesis .
  qed
  have "kmalloc_walk (heap_blocks h) 0 \<noteq> None"
    using assms(3) by (auto simp: kmalloc_walk_None_iff list_ex_iff)
  then obtain p bs where w: "kmalloc_walk (heap_blocks h) 0 = Some (p, bs)" by auto
  have k: "kmalloc h sz = Some (p, h\<lparr>heap_blocks := bs\<rparr>)"
    using w nz z assms(1) by (simp add: kmalloc_def heap_ok_def)
  obtain xs b ys rep where c: "heap_blocks h = xs @ b # ys" "bs = xs @ rep @ ys" "p = bh_addr b + HDR"
      "rep = (if bh_size b - 0 > HDR + HEAP_ALIGN
         then [b\<lparr>bh_size := 0, bh_free := False\<rparr>,
               \<lparr>bh_addr = bh_addr b + HDR + 0, bh_size = bh_size b - 0 - HDR, bh_free = True\<rparr>]
         else [b\<lparr>bh_free := False\<rparr>])"
    using w by (rule kmalloc_walk_cases)
  obtain m where m: "unat (bh_addr b) = m" "tiles (m + 12 + unat (bh_size b)) e ys" "e < 2 ^ 32"
    using assms(1) by (auto simp: heap_ok_def c(1) tiles_append)
  have p: "unat p = unat (bh_addr b) + 12"
    using tiles_le [OF m(2)] m(1,3) by (simp add: c(3) unat_word_ariths)
  have "\<exists>n. owned bs = owned xs @ (unat p, n) # owned ys \<and> n \<le> 20"
    using c(2,4) p by (auto simp: word_less_nat_alt)
  with k show ?thesis by fastforce
qed

theorem kmalloc_wraps_witness:
  "\<exists>p h'. kmalloc demo_heap 0xFFFFFFFF = Some (p, h')"
proof -
  have "2 ^ 32 \<le> unat (0xFFFFFFFF :: u32) + 7" "list_ex bh_free (heap_blocks demo_heap)"
    by (simp_all add: demo_heap_blocks)
  from kmalloc_wraps [OF demo_heap_ok this] show ?thesis by blast
qed

end
