(* ===== verification/Framebuffer.thy ===== *)
theory Framebuffer
  imports Video_Mode Kernel_Heap Port_IO
begin

text \<open>
  The framebuffer of \<^verbatim>\<open>src/video/framebuffer.c\<close>: the picture in a back buffer, the rectangle of what changed, and the
  flush that copies it to the screen.

  The video memory at the address of the framebuffer is a list, of which the pixel (x, y) is the byte at
  \<open>y * pitch + x\<close>; what it holds when the driver starts is a parameter.
\<close>

record framebuffer =
  gf_fb :: u32
  gf_screen :: "u8 list"
  gf_back :: "u8 list option"
  gf_width :: u32
  gf_height :: u32
  gf_pitch :: u32
  gf_dirty :: "(u32 \<times> u32 \<times> u32 \<times> u32) option"
  gf_vsync :: bool

section \<open>Operations\<close>

definition framebuffer_expand_dirty_rect :: "u32 \<Rightarrow> u32 \<Rightarrow> u32 \<Rightarrow> u32 \<Rightarrow> framebuffer \<Rightarrow> framebuffer" where
  "framebuffer_expand_dirty_rect x1 y1 x2 y2 fb =
     (if x1 \<ge> x2 \<or> y1 \<ge> y2 then fb
      else fb\<lparr>gf_dirty := Some (case gf_dirty fb of
               None \<Rightarrow> (x1, y1, x2, y2)
             | Some (ax, ay, bx, by) \<Rightarrow>
                 (if x1 < ax then x1 else ax, if y1 < ay then y1 else ay, if x2 > bx then x2 else bx, if y2 > by then y2 else by))\<rparr>)"

definition framebuffer_init :: "(u32 \<Rightarrow> u8 list) \<Rightarrow> video_fb_info \<Rightarrow> heap_state \<Rightarrow> framebuffer \<Rightarrow> framebuffer \<times> heap_state" where
  "framebuffer_init vram info h fb =
     (let base = (if fb_phys info \<noteq> 0 then fb_phys info else gf_fb fb);
          fb1 = fb\<lparr>gf_fb := base, gf_screen := vram base,
                   gf_width := (if fb_width info \<noteq> 0 then fb_width info else gf_width fb),
                   gf_height := (if fb_height info \<noteq> 0 then fb_height info else gf_height fb),
                   gf_pitch := (if fb_pitch info \<noteq> 0 then fb_pitch info else gf_pitch fb)\<rparr>;
          n = gf_height fb1 * gf_pitch fb1
      in case kmalloc h n of
           None \<Rightarrow> (fb1\<lparr>gf_back := None\<rparr>, h)
         | Some (_, h1) \<Rightarrow> (fb1\<lparr>gf_back := Some (replicate (unat n) 0)\<rparr>, h1))"

text \<open>The buffer that drawing goes to.\<close>

definition gf_dst :: "framebuffer \<Rightarrow> u8 list" where
  "gf_dst fb = (case gf_back fb of Some b \<Rightarrow> b | None \<Rightarrow> gf_screen fb)"

definition on_dst :: "(u8 list \<Rightarrow> u8 list) \<Rightarrow> framebuffer \<Rightarrow> framebuffer" where
  "on_dst f fb = (case gf_back fb of Some b \<Rightarrow> fb\<lparr>gf_back := Some (f b)\<rparr> | None \<Rightarrow> fb\<lparr>gf_screen := f (gf_screen fb)\<rparr>)"

definition pixel_index :: "u32 \<Rightarrow> u32 \<Rightarrow> u32 \<Rightarrow> nat" where
  "pixel_index pitch x y = unat (y * pitch + x)"

definition fill_area :: "u32 \<Rightarrow> (nat \<Rightarrow> u8) \<Rightarrow> u32 \<Rightarrow> u32 \<Rightarrow> u32 \<Rightarrow> u32 \<Rightarrow> u8 list \<Rightarrow> u8 list" where
  "fill_area pitch v x1 y1 x2 y2 buf =
     foldl (\<lambda>b y. foldl (\<lambda>b x. let i = pixel_index pitch (of_nat x) (of_nat y) in b[i := v i]) b [unat x1..<unat x2])
       buf [unat y1..<unat y2]"

definition framebuffer_clear :: "u8 \<Rightarrow> framebuffer \<Rightarrow> framebuffer" where
  "framebuffer_clear color fb =
     framebuffer_expand_dirty_rect 0 0 (gf_width fb) (gf_height fb)
       (on_dst (fill_area (gf_pitch fb) (\<lambda>_. color) 0 0 (gf_width fb) (gf_height fb)) fb)"

definition framebuffer_put_pixel :: "u32 \<Rightarrow> u32 \<Rightarrow> u8 \<Rightarrow> framebuffer \<Rightarrow> framebuffer" where
  "framebuffer_put_pixel x y color fb =
     (if x \<ge> gf_width fb \<or> y \<ge> gf_height fb then fb
      else framebuffer_expand_dirty_rect x y (x + 1) (y + 1) (on_dst (\<lambda>b. b[pixel_index (gf_pitch fb) x y := color]) fb))"

text \<open>The clipped corner of a rectangle; the sum wraps.\<close>

definition clip_end :: "u32 \<Rightarrow> u32 \<Rightarrow> u32 \<Rightarrow> u32" where
  "clip_end a len bound = (if a + len > bound then bound else a + len)"

definition framebuffer_fill_rect :: "u32 \<Rightarrow> u32 \<Rightarrow> u32 \<Rightarrow> u32 \<Rightarrow> u8 \<Rightarrow> framebuffer \<Rightarrow> framebuffer" where
  "framebuffer_fill_rect x y w h color fb =
     (if x \<ge> gf_width fb \<or> y \<ge> gf_height fb \<or> w = 0 \<or> h = 0 then fb
      else let x2 = clip_end x w (gf_width fb); y2 = clip_end y h (gf_height fb)
        in framebuffer_expand_dirty_rect x y x2 y2 (on_dst (fill_area (gf_pitch fb) (\<lambda>_. color) x y x2 y2) fb))"

definition framebuffer_mark_dirty_rect :: "u32 \<Rightarrow> u32 \<Rightarrow> u32 \<Rightarrow> u32 \<Rightarrow> framebuffer \<Rightarrow> framebuffer" where
  "framebuffer_mark_dirty_rect x y w h fb =
     (if x \<ge> gf_width fb \<or> y \<ge> gf_height fb \<or> w = 0 \<or> h = 0 then fb
      else framebuffer_expand_dirty_rect x y (clip_end x w (gf_width fb)) (clip_end y h (gf_height fb)) fb)"

definition framebuffer_get_pixel :: "u32 \<Rightarrow> u32 \<Rightarrow> framebuffer \<Rightarrow> u8" where
  "framebuffer_get_pixel x y fb =
     (if x \<ge> gf_width fb \<or> y \<ge> gf_height fb then 0 else gf_dst fb ! pixel_index (gf_pitch fb) x y)"

definition framebuffer_set_pixel :: "u32 \<Rightarrow> u32 \<Rightarrow> u8 \<Rightarrow> framebuffer \<Rightarrow> framebuffer" where
  "framebuffer_set_pixel x y color fb = framebuffer_put_pixel x y color fb"

definition framebuffer_set_vsync_enabled :: "u8 \<Rightarrow> framebuffer \<Rightarrow> framebuffer" where
  "framebuffer_set_vsync_enabled enabled fb = fb\<lparr>gf_vsync := enabled \<noteq> 0\<rparr>"

partial_function (option) wait_retrace :: "'m ports \<Rightarrow> bool \<Rightarrow> 'm \<Rightarrow> 'm option" where
  "wait_retrace io on m =
     (case io_inb io m 0x3DA of (status, m1) \<Rightarrow> if (status AND 0x08 \<noteq> 0) = on then Some m1 else wait_retrace io on m1)"

definition framebuffer_wait_vsync :: "'m ports \<Rightarrow> 'm \<Rightarrow> 'm option" where
  "framebuffer_wait_vsync io m = (case wait_retrace io False m of None \<Rightarrow> None | Some m1 \<Rightarrow> wait_retrace io True m1)"

definition framebuffer_flush :: "'m ports \<Rightarrow> framebuffer \<times> 'm \<Rightarrow> (framebuffer \<times> 'm) option" where
  "framebuffer_flush io fm =
     (case fm of (fb, m) \<Rightarrow>
      case (gf_back fb, gf_dirty fb) of
        (Some back, Some (ax, ay, bx, by)) \<Rightarrow>
          map_option (\<lambda>m1. (fb\<lparr>gf_screen := fill_area (gf_pitch fb) (\<lambda>i. back ! i) ax ay bx by (gf_screen fb), gf_dirty := None\<rparr>, m1))
            (if gf_vsync fb then framebuffer_wait_vsync io m else Some m)
      | _ \<Rightarrow> Some (fb, m))"

section \<open>Pixels\<close>

text \<open>A framebuffer whose buffers have the size of the picture.\<close>

definition fb_ok :: "framebuffer \<Rightarrow> bool" where
  "fb_ok fb \<longleftrightarrow> gf_width fb \<le> gf_pitch fb \<and> unat (gf_height fb) * unat (gf_pitch fb) < 2 ^ 32
     \<and> length (gf_screen fb) = unat (gf_height fb) * unat (gf_pitch fb)
     \<and> (\<forall>b. gf_back fb = Some b \<longrightarrow> length b = unat (gf_height fb) * unat (gf_pitch fb))
     \<and> (\<forall>ax ay bx by. gf_dirty fb = Some (ax, ay, bx, by) \<longrightarrow> bx \<le> gf_width fb \<and> by \<le> gf_height fb)"

lemma pixel_index_eq:
  assumes "x < pitch" "y < height" "unat height * unat pitch < 2 ^ 32"
  shows "pixel_index pitch x y = unat y * unat pitch + unat x" "unat y * unat pitch + unat x < unat height * unat pitch"
proof -
  have "unat y * unat pitch + unat x < Suc (unat y) * unat pitch"
    using assms(1) by (simp add: word_less_nat_alt)
  also have "\<dots> \<le> unat height * unat pitch" using assms(2) by (intro mult_le_mono1) (simp add: word_less_nat_alt)
  finally show lt: "unat y * unat pitch + unat x < unat height * unat pitch" .
  have "unat y * unat pitch + unat x < 2 ^ 32" using lt assms(3) by linarith
  moreover from this have "unat y * unat pitch < 2 ^ 32" by linarith
  ultimately show "pixel_index pitch x y = unat y * unat pitch + unat x"
    by (simp add: pixel_index_def unat_word_ariths)
qed

lemma index_inj: "(x :: nat) < p \<Longrightarrow> x' < p \<Longrightarrow> y * p + x = y' * p + x' \<longleftrightarrow> x = x' \<and> y = y'"
  by (metis add.commute div_mult_self1 div_less mod_less mod_mult_self1 add.right_neutral add_0 less_nat_zero_code)

text \<open>Two nested loops that set the byte of each pixel of a rectangle.\<close>

lemma set_row_nth:
  assumes "x2 \<le> p" "(y :: nat) * p + p \<le> length b"
  shows "length (foldl (\<lambda>b x. b[y * p + x := v (y * p + x)]) b [x1..<x2]) = length b
    \<and> (\<forall>i < length b. foldl (\<lambda>b x. b[y * p + x := v (y * p + x)]) b [x1..<x2] ! i
         = (if y * p + x1 \<le> i \<and> i < y * p + x2 then v i else b ! i))"
  using assms(1)
proof (induction x2)
  case (Suc x2)
  show ?case
  proof (cases "x1 \<le> x2")
    case True
    have "y * p + x2 < length b" using Suc.prems assms(2) by linarith
    with True Suc show ?thesis by (auto simp: nth_list_update less_Suc_eq)
  qed (auto simp: not_le)
qed auto

lemma set_area_nth:
  assumes "x2 \<le> p" "y2 * p \<le> length b"
  shows "length (foldl (\<lambda>b y. foldl (\<lambda>b x. b[y * p + x := v (y * p + x)]) b [x1..<x2]) b [y1..<y2]) = length b
    \<and> (\<forall>x y. x < p \<longrightarrow> y * p + x < length b \<longrightarrow>
         foldl (\<lambda>b y. foldl (\<lambda>b x. b[y * p + x := v (y * p + x)]) b [x1..<x2]) b [y1..<y2] ! (y * p + x)
         = (if x1 \<le> x \<and> x < x2 \<and> y1 \<le> y \<and> y < y2 then v (y * p + x) else b ! (y * p + x)))"
  using assms(2)
proof (induction y2)
  case (Suc n)
  let ?F = "\<lambda>b y. foldl (\<lambda>b x. b[y * p + x := v (y * p + x)]) b [x1..<x2]"
  show ?case
  proof (cases "y1 \<le> n")
    case True
    define g where "g = foldl ?F b [y1..<n]"
    have IH: "length g = length b"
        "\<And>x y. x < p \<Longrightarrow> y * p + x < length b \<Longrightarrow>
          g ! (y * p + x) = (if x1 \<le> x \<and> x < x2 \<and> y1 \<le> y \<and> y < n then v (y * p + x) else b ! (y * p + x))"
      using Suc unfolding g_def by auto
    have R: "length (?F g n) = length g"
        "\<forall>i < length g. ?F g n ! i = (if n * p + x1 \<le> i \<and> i < n * p + x2 then v i else g ! i)"
      using set_row_nth [OF assms(1), of n g v x1] Suc.prems IH(1) by simp_all
    have e: "foldl ?F b [y1..<Suc n] = ?F g n" using True by (simp add: g_def)
    have "?F g n ! (y * p + x) = (if x1 \<le> x \<and> x < x2 \<and> y1 \<le> y \<and> y < Suc n then v (y * p + x) else b ! (y * p + x))"
      if xy: "x < p" "y * p + x < length b" for x y
    proof -
      have s: "?F g n ! (y * p + x) = (if n * p + x1 \<le> y * p + x \<and> y * p + x < n * p + x2 then v (y * p + x) else g ! (y * p + x))"
        using R(2) xy IH(1) by simp
      consider "y = n" | "y < n" | "y > n" by linarith
      then show ?thesis
      proof cases
        case 1
        then show ?thesis using s IH(2) [OF xy] True by auto
      next
        case 2
        then have "y * p + x < n * p" using xy(1) mult_le_mono1 [of "Suc y" n p] by simp
        then show ?thesis using s IH(2) [OF xy] 2 by auto
      next
        case 3
        then have "n * p + x2 \<le> y * p" using assms(1) mult_le_mono1 [of "Suc n" y p] by simp
        then show ?thesis using s IH(2) [OF xy] 3 by auto
      qed
    qed
    then show ?thesis unfolding e using R(1) IH(1) by simp
  qed (auto simp: not_le)
qed simp

lemma fill_area_nth:
  assumes b: "length buf = unat height * unat pitch" "unat height * unat pitch < 2 ^ 32"
    and r: "x2 \<le> pitch" "y2 \<le> height"
  shows "length (fill_area pitch v x1 y1 x2 y2 buf) = length buf"
    "x < pitch \<Longrightarrow> y < height \<Longrightarrow> fill_area pitch v x1 y1 x2 y2 buf ! pixel_index pitch x y
       = (if x1 \<le> x \<and> x < x2 \<and> y1 \<le> y \<and> y < y2 then v (pixel_index pitch x y) else buf ! pixel_index pitch x y)"
proof -
  let ?p = "unat pitch"
  have pi: "pixel_index pitch (of_nat x) (of_nat y) = y * ?p + x"
    if "x \<in> set [unat x1..<unat x2]" "y \<in> set [unat y1..<unat y2]" for x y
  proof -
    have "x < unat x2" "y < unat y2" using that by simp_all
    moreover have "unat x2 < 2 ^ 32" "unat y2 < 2 ^ 32" using unsigned_less [of x2] unsigned_less [of y2] by simp_all
    moreover from calculation have "unat (of_nat x :: u32) = x" "unat (of_nat y :: u32) = y" by (simp_all add: unat_of_nat)
    moreover from calculation have "(of_nat x :: u32) < pitch" "(of_nat y :: u32) < height"
      using r by (simp_all add: word_less_nat_alt word_le_nat_alt)
    ultimately show ?thesis using pixel_index_eq(1) [OF _ _ b(2), of "of_nat x" "of_nat y"] by simp
  qed
  have e: "fill_area pitch v x1 y1 x2 y2 buf
      = foldl (\<lambda>b y. foldl (\<lambda>b x. b[y * ?p + x := v (y * ?p + x)]) b [unat x1..<unat x2]) buf [unat y1..<unat y2]"
    unfolding fill_area_def by (intro foldl_cong refl) (simp_all add: pi Let_def)
  have c: "unat x2 \<le> ?p" "unat y2 * ?p \<le> length buf" using r b(1) by (simp_all add: word_le_nat_alt)
  note S = set_area_nth [OF c, of v "unat x1" "unat y1"]
  show "length (fill_area pitch v x1 y1 x2 y2 buf) = length buf" unfolding e using S by blast
  assume xy: "x < pitch" "y < height"
  note P = pixel_index_eq [OF xy b(2)]
  have "unat x < ?p" using xy(1) by (simp add: word_less_nat_alt)
  then show "fill_area pitch v x1 y1 x2 y2 buf ! pixel_index pitch x y
       = (if x1 \<le> x \<and> x < x2 \<and> y1 \<le> y \<and> y < y2 then v (pixel_index pitch x y) else buf ! pixel_index pitch x y)"
    unfolding e P(1) using S P(2) b(1) by (simp add: word_less_nat_alt word_le_nat_alt)
qed

section \<open>What the screen shows\<close>

text \<open>The picture that is drawn, and the picture that is shown.\<close>

definition drawn :: "framebuffer \<Rightarrow> u32 \<Rightarrow> u32 \<Rightarrow> u8" where
  "drawn fb x y = gf_dst fb ! pixel_index (gf_pitch fb) x y"

definition shown :: "framebuffer \<Rightarrow> u32 \<Rightarrow> u32 \<Rightarrow> u8" where
  "shown fb x y = gf_screen fb ! pixel_index (gf_pitch fb) x y"

abbreviation on_picture :: "framebuffer \<Rightarrow> u32 \<Rightarrow> u32 \<Rightarrow> bool" where
  "on_picture fb x y \<equiv> x < gf_width fb \<and> y < gf_height fb"

fun in_rect :: "(u32 \<times> u32 \<times> u32 \<times> u32) option \<Rightarrow> u32 \<Rightarrow> u32 \<Rightarrow> bool" where
  "in_rect None x y = False"
| "in_rect (Some (ax, ay, bx, by)) x y = (ax \<le> x \<and> x < bx \<and> ay \<le> y \<and> y < by)"

text \<open>Outside of the dirty rectangle the screen shows what was drawn.\<close>

definition fb_clean :: "framebuffer \<Rightarrow> bool" where
  "fb_clean fb \<longleftrightarrow> (\<forall>x y. on_picture fb x y \<longrightarrow> \<not> in_rect (gf_dirty fb) x y \<longrightarrow> shown fb x y = drawn fb x y)"

datatype draw_op = Clear u8 | Put u32 u32 u8 | Fill u32 u32 u32 u32 u8 | Mark u32 u32 u32 u32

fun draw :: "draw_op \<Rightarrow> framebuffer \<Rightarrow> framebuffer" where
  "draw (Clear c) fb = framebuffer_clear c fb"
| "draw (Put x y c) fb = framebuffer_put_pixel x y c fb"
| "draw (Fill x y w h c) fb = framebuffer_fill_rect x y w h c fb"
| "draw (Mark x y w h) fb = framebuffer_mark_dirty_rect x y w h fb"

text \<open>The pixels an operation covers, and what it draws there.\<close>

fun op_covers :: "framebuffer \<Rightarrow> draw_op \<Rightarrow> u32 \<Rightarrow> u32 \<Rightarrow> bool" where
  "op_covers fb (Clear c) px py = True"
| "op_covers fb (Put x y c) px py = (px = x \<and> py = y)"
| "op_covers fb (Fill x y w h c) px py = (x \<le> px \<and> px < clip_end x w (gf_width fb) \<and> y \<le> py \<and> py < clip_end y h (gf_height fb))"
| "op_covers fb (Mark x y w h) px py = False"

fun colour :: "draw_op \<Rightarrow> u8" where
  "colour (Clear c) = c" | "colour (Put x y c) = c" | "colour (Fill x y w h c) = c" | "colour (Mark x y w h) = 0"

definition paint_op :: "framebuffer \<Rightarrow> draw_op \<Rightarrow> (u32 \<Rightarrow> u32 \<Rightarrow> u8) \<Rightarrow> u32 \<Rightarrow> u32 \<Rightarrow> u8" where
  "paint_op fb a p x y = (if op_covers fb a x y then colour a else p x y)"

lemma expand_sel [simp]:
  "gf_screen (framebuffer_expand_dirty_rect a b c d fb) = gf_screen fb" "gf_back (framebuffer_expand_dirty_rect a b c d fb) = gf_back fb"
  "gf_width (framebuffer_expand_dirty_rect a b c d fb) = gf_width fb" "gf_height (framebuffer_expand_dirty_rect a b c d fb) = gf_height fb"
  "gf_pitch (framebuffer_expand_dirty_rect a b c d fb) = gf_pitch fb" "gf_vsync (framebuffer_expand_dirty_rect a b c d fb) = gf_vsync fb"
  by (simp_all add: framebuffer_expand_dirty_rect_def)

lemma on_dst_sel [simp]:
  "gf_width (on_dst f fb) = gf_width fb" "gf_height (on_dst f fb) = gf_height fb" "gf_pitch (on_dst f fb) = gf_pitch fb"
  "gf_dirty (on_dst f fb) = gf_dirty fb" "gf_dst (on_dst f fb) = f (gf_dst fb)" "gf_vsync (on_dst f fb) = gf_vsync fb"
  "gf_back (on_dst f fb) = map_option f (gf_back fb)"
  by (simp_all add: on_dst_def gf_dst_def split: option.split)

lemma gf_dst_expand [simp]: "gf_dst (framebuffer_expand_dirty_rect a b c d fb) = gf_dst fb"
  by (cases "gf_back fb") (simp_all add: gf_dst_def)

lemma expand_covers:
  assumes "in_rect (gf_dirty fb) x y \<or> (x1 \<le> x \<and> x < x2 \<and> y1 \<le> y \<and> y < y2)"
  shows "in_rect (gf_dirty (framebuffer_expand_dirty_rect x1 y1 x2 y2 fb)) x y"
proof (cases "gf_dirty fb")
  case (Some r)
  obtain ax ay bx "by" where "r = (ax, ay, bx, by)" by (cases r)
  then show ?thesis using assms Some by (auto simp: framebuffer_expand_dirty_rect_def)
qed (use assms in \<open>auto simp: framebuffer_expand_dirty_rect_def\<close>)

lemma expand_bounds:
  assumes "fb_ok fb" "x2 \<le> gf_width fb" "y2 \<le> gf_height fb"
  shows "fb_ok (framebuffer_expand_dirty_rect x1 y1 x2 y2 fb)"
  using assms by (auto simp: fb_ok_def framebuffer_expand_dirty_rect_def split: option.splits prod.splits)

lemma on_dst_ok: "fb_ok fb \<Longrightarrow> (\<And>b. length (f b) = length b) \<Longrightarrow> fb_ok (on_dst f fb)"
  by (auto simp: fb_ok_def on_dst_def split: option.splits)

text \<open>An update of some pixels that are all in the rectangle marked next keeps the rest clean.\<close>

lemma clean_update:
  assumes ok: "fb_ok fb" and c: "fb_clean fb" and len: "\<And>b. length (f b) = length b"
    and px: "\<And>x y. on_picture fb x y \<Longrightarrow> \<not> (x1 \<le> x \<and> x < x2 \<and> y1 \<le> y \<and> y < y2) \<Longrightarrow>
      f (gf_dst fb) ! pixel_index (gf_pitch fb) x y = gf_dst fb ! pixel_index (gf_pitch fb) x y"
  shows "fb_clean (framebuffer_expand_dirty_rect x1 y1 x2 y2 (on_dst f fb))"
  unfolding fb_clean_def
proof (intro allI impI)
  fix x y
  let ?fb = "framebuffer_expand_dirty_rect x1 y1 x2 y2 (on_dst f fb)"
  assume p: "on_picture ?fb x y" and n: "\<not> in_rect (gf_dirty ?fb) x y"
  have o: "on_picture fb x y" using p by simp
  have nr: "\<not> in_rect (gf_dirty fb) x y" "\<not> (x1 \<le> x \<and> x < x2 \<and> y1 \<le> y \<and> y < y2)"
    using n expand_covers [of "on_dst f fb" x y x1 x2 y1 y2] by auto
  show "shown ?fb x y = drawn ?fb x y"
  proof (cases "gf_back fb")
    case None
    then show ?thesis by (simp add: shown_def drawn_def on_dst_def gf_dst_def)
  next
    case (Some b)
    have "shown fb x y = drawn fb x y" using c o nr(1) by (simp add: fb_clean_def)
    then show ?thesis using px [OF o nr(2)] Some by (simp add: shown_def drawn_def) (simp add: on_dst_def)
  qed
qed

lemma clip_end_le: "clip_end a n b \<le> b"
  by (simp add: clip_end_def not_less)

lemma dst_length: "fb_ok fb \<Longrightarrow> length (gf_dst fb) = unat (gf_height fb) * unat (gf_pitch fb)"
  by (auto simp: fb_ok_def gf_dst_def split: option.split)

lemma length_fill_area [simp]: "length (fill_area pitch v x1 y1 x2 y2 buf) = length buf"
proof -
  have "length (foldl (\<lambda>b x. let i = pixel_index pitch (of_nat x) (of_nat y) in b[i := v i]) b xs) = length b" for b y and xs :: "nat list"
    by (induction xs rule: rev_induct) (simp_all add: Let_def)
  then have "length (foldl (\<lambda>b y. foldl (\<lambda>b x. let i = pixel_index pitch (of_nat x) (of_nat y) in b[i := v i]) b [unat x1..<unat x2]) buf ys)
      = length buf" for ys :: "nat list"
    by (induction ys rule: rev_induct) simp_all
  then show ?thesis by (simp add: fill_area_def)
qed

lemma word_step:
  fixes x w :: u32
  assumes "x < w"
  shows "x + 1 \<le> w \<and> (\<forall>z. x \<le> z \<and> z < x + 1 \<longleftrightarrow> z = x)"
proof -
  have "unat x < unat w" "unat w < 2 ^ 32" using assms unsigned_less [of w] by (simp_all add: word_less_nat_alt)
  then have "unat (x + 1) = Suc (unat x)" by (simp add: unat_word_ariths)
  then show ?thesis using assms by (auto simp: word_less_nat_alt word_le_nat_alt word_unat_eq_iff)
qed

lemma draw_refines:
  assumes ok: "fb_ok fb"
  shows "fb_ok (draw a fb) \<and> (fb_clean fb \<longrightarrow> fb_clean (draw a fb)) \<and> gf_width (draw a fb) = gf_width fb \<and> gf_height (draw a fb) = gf_height fb
    \<and> (\<forall>x y. on_picture fb x y \<longrightarrow> drawn (draw a fb) x y = paint_op fb a (drawn fb) x y)"
proof -
  let ?w = "gf_width fb" and ?h = "gf_height fb" and ?p = "gf_pitch fb"
  have o: "?w \<le> ?p" "unat ?h * unat ?p < 2 ^ 32" using ok by (simp_all add: fb_ok_def)
  note F = fill_area_nth [OF dst_length [OF ok] o(2)]
  have area: "fb_ok (framebuffer_expand_dirty_rect x1 y1 x2 y2 (on_dst (fill_area ?p (\<lambda>_. k) x1 y1 x2 y2) fb))
      \<and> (fb_clean fb \<longrightarrow> fb_clean (framebuffer_expand_dirty_rect x1 y1 x2 y2 (on_dst (fill_area ?p (\<lambda>_. k) x1 y1 x2 y2) fb)))
      \<and> (\<forall>x y. on_picture fb x y \<longrightarrow>
          drawn (framebuffer_expand_dirty_rect x1 y1 x2 y2 (on_dst (fill_area ?p (\<lambda>_. k) x1 y1 x2 y2) fb)) x y
          = (if x1 \<le> x \<and> x < x2 \<and> y1 \<le> y \<and> y < y2 then k else drawn fb x y))"
    if r: "x2 \<le> ?w" "y2 \<le> ?h" for x1 y1 x2 y2 k
  proof -
    have b: "x2 \<le> ?p" using r(1) o(1) by (rule order_trans)
    have px: "fill_area ?p (\<lambda>_. k) x1 y1 x2 y2 (gf_dst fb) ! pixel_index ?p x y
        = (if x1 \<le> x \<and> x < x2 \<and> y1 \<le> y \<and> y < y2 then k else drawn fb x y)" if "on_picture fb x y" for x y
    proof -
      have "x < ?p" using that o(1) less_le_trans by blast
      then show ?thesis using F(2) [OF b r(2), of x y] that by (simp add: drawn_def)
    qed
    let ?g = "on_dst (fill_area ?p (\<lambda>_. k) x1 y1 x2 y2) fb"
    have "fb_ok (framebuffer_expand_dirty_rect x1 y1 x2 y2 ?g)"
      using r by (intro expand_bounds on_dst_ok [OF ok]) simp_all
    moreover have "fb_clean (framebuffer_expand_dirty_rect x1 y1 x2 y2 ?g)" if c: "fb_clean fb"
    proof (rule clean_update [OF ok c])
      fix x y assume "on_picture fb x y" "\<not> (x1 \<le> x \<and> x < x2 \<and> y1 \<le> y \<and> y < y2)"
      then show "fill_area ?p (\<lambda>_. k) x1 y1 x2 y2 (gf_dst fb) ! pixel_index ?p x y = gf_dst fb ! pixel_index ?p x y"
        by (simp only: px if_False drawn_def)
    qed simp
    moreover have "drawn (framebuffer_expand_dirty_rect x1 y1 x2 y2 ?g) x y
        = fill_area ?p (\<lambda>_. k) x1 y1 x2 y2 (gf_dst fb) ! pixel_index ?p x y" for x y
      by (simp add: drawn_def)
    ultimately show ?thesis using px by simp
  qed
  show ?thesis
  proof (cases a)
    case (Clear k)
    then show ?thesis using area [of ?w ?h 0 0 k] by (simp add: framebuffer_clear_def paint_op_def)
  next
    case (Put x y k)
    show ?thesis
    proof (cases "on_picture fb x y")
      case True
      have nx: "x + 1 \<le> ?w" "y + 1 \<le> ?h" "\<And>z. x \<le> z \<and> z < x + 1 \<longleftrightarrow> z = x" "\<And>z. y \<le> z \<and> z < y + 1 \<longleftrightarrow> z = y"
        using True word_step [of x ?w] word_step [of y ?h] by blast+
      have inj: "pixel_index ?p u v = pixel_index ?p x y \<longleftrightarrow> u = x \<and> v = y" if "on_picture fb u v" for u v
      proof -
        have lp: "u < ?p" "x < ?p" using that True o(1) less_le_trans by blast+
        then have "unat u < unat ?p" "unat x < unat ?p" by (simp_all add: word_less_nat_alt)
        then show ?thesis
          using pixel_index_eq(1) [OF lp(1) _ o(2), of v] pixel_index_eq(1) [OF lp(2) _ o(2), of y] that True
            index_inj [of "unat u" "unat ?p" "unat x" "unat v" "unat y"] by (simp add: word_unat_eq_iff)
      qed
      let ?f = "\<lambda>b :: u8 list. b[pixel_index ?p x y := k]"
      have lt: "pixel_index ?p x y < length (gf_dst fb)"
        using pixel_index_eq [OF less_le_trans [OF conjunct1 [OF True] o(1)] conjunct2 [OF True] o(2)] dst_length [OF ok] by simp
      have px: "?f (gf_dst fb) ! pixel_index ?p u v = (if u = x \<and> v = y then k else drawn fb u v)" if "on_picture fb u v" for u v
        using inj [OF that] lt by (auto simp: drawn_def nth_list_update)
      have k: "fb_ok (framebuffer_expand_dirty_rect x y (x + 1) (y + 1) (on_dst ?f fb))"
        using nx(1,2) by (intro expand_bounds on_dst_ok [OF ok]) simp_all
      have cl: "fb_clean (framebuffer_expand_dirty_rect x y (x + 1) (y + 1) (on_dst ?f fb))" if c: "fb_clean fb"
      proof (rule clean_update [OF ok c])
        fix u v assume "on_picture fb u v" and n: "\<not> (x \<le> u \<and> u < x + 1 \<and> y \<le> v \<and> v < y + 1)"
        moreover have "\<not> (u = x \<and> v = y)" using n nx(3) [of u] nx(4) [of v] by metis
        ultimately show "?f (gf_dst fb) ! pixel_index ?p u v = gf_dst fb ! pixel_index ?p u v"
          by (simp only: px if_False drawn_def)
      qed simp
      have d: "drawn (framebuffer_expand_dirty_rect x y (x + 1) (y + 1) (on_dst ?f fb)) u v = ?f (gf_dst fb) ! pixel_index ?p u v" for u v
        by (simp add: drawn_def)
      have "draw a fb = framebuffer_expand_dirty_rect x y (x + 1) (y + 1) (on_dst ?f fb)"
        using Put True by (simp add: framebuffer_put_pixel_def flip: not_less)
      then show ?thesis using k cl px d Put by (simp add: paint_op_def)
    next
      case False
      then show ?thesis using Put ok by (auto simp: framebuffer_put_pixel_def not_less paint_op_def)
    qed
  next
    case (Fill x y w h k)
    have n0: "\<not> (x \<le> u \<and> u < clip_end x w ?w \<and> y \<le> v \<and> v < clip_end y h ?h)"
      if "x \<ge> ?w \<or> y \<ge> ?h \<or> w = 0 \<or> h = 0" "on_picture fb u v" for u v
      using that by (auto simp: clip_end_def split: if_splits)
    show ?thesis
    proof (cases "x \<ge> ?w \<or> y \<ge> ?h \<or> w = 0 \<or> h = 0")
      case True
      then have "draw a fb = fb" using Fill by (simp add: framebuffer_fill_rect_def)
      moreover have "paint_op fb a (drawn fb) u v = drawn fb u v" if "on_picture fb u v" for u v
        using n0 [OF True that] Fill by (simp only: paint_op_def op_covers.simps if_False)
      ultimately show ?thesis using ok by simp
    next
      case False
      let ?x2 = "clip_end x w ?w" and ?y2 = "clip_end y h ?h"
      have e: "draw a fb = framebuffer_expand_dirty_rect x y ?x2 ?y2 (on_dst (fill_area ?p (\<lambda>_. k) x y ?x2 ?y2) fb)"
        using Fill False by (simp only: draw.simps framebuffer_fill_rect_def Let_def if_False)
      show ?thesis unfolding e using area [of ?x2 ?y2 x y k] Fill by (simp add: paint_op_def clip_end_le)
    qed
  next
    case (Mark x y w h)
    have "on_dst id fb = fb" by (simp add: on_dst_def split: option.split)
    then have "fb_clean (framebuffer_expand_dirty_rect x y x2 y2 fb)" if c: "fb_clean fb" for x2 y2
      using clean_update [OF ok c, of id x x2 y y2] by simp
    then show ?thesis
      using Mark ok expand_bounds [OF ok clip_end_le clip_end_le]
      by (simp add: framebuffer_mark_dirty_rect_def paint_op_def drawn_def)
  qed
qed

lemma draws_refine:
  assumes "fb_ok fb"
  shows "fb_ok (fold draw ops fb) \<and> (fb_clean fb \<longrightarrow> fb_clean (fold draw ops fb)) \<and> gf_width (fold draw ops fb) = gf_width fb
    \<and> gf_height (fold draw ops fb) = gf_height fb
    \<and> (\<forall>x y. on_picture fb x y \<longrightarrow> drawn (fold draw ops fb) x y = fold (paint_op fb) ops (drawn fb) x y)"
proof (induction ops rule: rev_induct)
  case (snoc a ops)
  let ?g = "fold draw ops fb"
  note R = draw_refines [of ?g a]
  have c: "op_covers ?g a = op_covers fb a" using snoc by (cases a) (auto simp: fun_eq_iff)
  show ?case using R snoc by (simp add: paint_op_def c)
qed (use assms in simp)

text \<open>A function that only draws.\<close>

definition draws_on :: "framebuffer \<Rightarrow> framebuffer \<Rightarrow> bool" where
  "draws_on fb fb' \<longleftrightarrow> (\<exists>ops. fb' = fold draw ops fb)"

named_theorems draws \<open>functions that only draw\<close>

lemma draws_refl [draws]: "draws_on fb fb"
  unfolding draws_on_def by (rule exI [of _ "[]"]) simp

lemma draws_trans [trans]: "draws_on a b \<Longrightarrow> draws_on b c \<Longrightarrow> draws_on a c"
  unfolding draws_on_def by (metis fold_append comp_apply)

lemma draws_op: "draws_on fb (draw a fb)"
  unfolding draws_on_def by (rule exI [of _ "[a]"]) simp

lemma draws_clear [draws]: "draws_on a b \<Longrightarrow> draws_on a (framebuffer_clear k b)"
  using draws_trans draws_op [of _ "Clear k"] by simp

lemma draws_put_pixel [draws]: "draws_on a b \<Longrightarrow> draws_on a (framebuffer_put_pixel x y k b)"
  using draws_trans draws_op [of _ "Put x y k"] by simp

lemma draws_set_pixel [draws]: "draws_on a b \<Longrightarrow> draws_on a (framebuffer_set_pixel x y k b)"
  by (simp add: framebuffer_set_pixel_def draws)

lemma draws_fill_rect [draws]: "draws_on a b \<Longrightarrow> draws_on a (framebuffer_fill_rect x y w h k b)"
  using draws_trans draws_op [of _ "Fill x y w h k"] by simp

lemma draws_foldl: "(\<And>b x. draws_on b (g b x)) \<Longrightarrow> draws_on a b \<Longrightarrow> draws_on a (foldl g b xs)"
proof (induction xs arbitrary: b)
  case (Cons x xs)
  have "draws_on a (g b x)" using draws_trans [OF Cons.prems(2) Cons.prems(1)] .
  then show ?case using Cons.IH [OF Cons.prems(1)] by simp
qed simp

lemma draws_if [draws]: "draws_on a b \<Longrightarrow> draws_on a c \<Longrightarrow> draws_on a (if p then b else c)"
  by simp

lemma draws_onD:
  assumes "draws_on fb fb'" "fb_ok fb"
  shows "fb_ok fb'" "fb_clean fb \<Longrightarrow> fb_clean fb'" "gf_width fb' = gf_width fb" "gf_height fb' = gf_height fb"
  using assms draws_refine unfolding draws_on_def by blast+

section \<open>The flush\<close>

lemma clear_clean:
  assumes "fb_ok fb"
  shows "fb_ok (framebuffer_clear k fb)" "fb_clean (framebuffer_clear k fb)"
    "on_picture fb x y \<Longrightarrow> drawn (framebuffer_clear k fb) x y = k"
proof -
  show "fb_ok (framebuffer_clear k fb)"
    unfolding framebuffer_clear_def using assms by (intro expand_bounds on_dst_ok) simp_all
  show "fb_clean (framebuffer_clear k fb)"
    unfolding fb_clean_def
  proof (intro allI impI)
    fix x y
    assume "on_picture (framebuffer_clear k fb) x y" and n: "\<not> in_rect (gf_dirty (framebuffer_clear k fb)) x y"
    then have "on_picture fb x y" by (simp add: framebuffer_clear_def)
    then show "shown (framebuffer_clear k fb) x y = drawn (framebuffer_clear k fb) x y"
      using n by (simp add: framebuffer_clear_def expand_covers)
  qed
  assume p: "on_picture fb x y"
  have o: "gf_width fb \<le> gf_pitch fb" "unat (gf_height fb) * unat (gf_pitch fb) < 2 ^ 32" using assms by (simp_all add: fb_ok_def)
  have "x < gf_pitch fb" using p o(1) less_le_trans by blast
  then show "drawn (framebuffer_clear k fb) x y = k"
    using p fill_area_nth(2) [OF dst_length [OF assms] o(2) o(1) order_refl, of x y "\<lambda>_. k" 0 0]
    by (simp add: framebuffer_clear_def drawn_def)
qed

lemma flush_shows:
  assumes ok: "fb_ok fb" and c: "fb_clean fb" and f: "framebuffer_flush io (fb, m) = Some (fb', m')" and p: "on_picture fb x y"
  shows "shown fb' x y = drawn fb x y"
proof (cases "gf_back fb")
  case None
  then show ?thesis using f by (auto simp: framebuffer_flush_def shown_def drawn_def gf_dst_def)
next
  case (Some b)
  have o: "gf_width fb \<le> gf_pitch fb" "unat (gf_height fb) * unat (gf_pitch fb) < 2 ^ 32"
      "length (gf_screen fb) = unat (gf_height fb) * unat (gf_pitch fb)" using ok by (simp_all add: fb_ok_def)
  show ?thesis
  proof (cases "gf_dirty fb")
    case None
    then have "fb' = fb" using f Some by (simp add: framebuffer_flush_def)
    then show ?thesis using c p None by (simp add: fb_clean_def)
  next
    case (Some r)
    obtain ax ay bx "by" where r: "r = (ax, ay, bx, by)" by (cases r)
    let ?v = "\<lambda>i. b ! i"
    have bd: "bx \<le> gf_pitch fb" "by \<le> gf_height fb" "x < gf_pitch fb"
      using ok Some r o(1) p by (auto simp: fb_ok_def intro: order_trans less_le_trans)
    have s: "gf_screen fb' = fill_area (gf_pitch fb) ?v ax ay bx by (gf_screen fb)" "gf_pitch fb' = gf_pitch fb"
      using f \<open>gf_back fb = Some b\<close> Some r by (auto simp: framebuffer_flush_def split: if_splits)
    have d: "drawn fb x y = b ! pixel_index (gf_pitch fb) x y" using \<open>gf_back fb = Some b\<close> by (simp add: drawn_def gf_dst_def)
    have "\<not> in_rect (gf_dirty fb) x y \<Longrightarrow> shown fb x y = drawn fb x y" using c p by (simp add: fb_clean_def)
    then show ?thesis
      using fill_area_nth(2) [OF o(3,2) bd(1,2,3), of y ?v ax ay] p Some r d s
      by (auto simp: shown_def split: if_splits)
  qed
qed

text \<open>A mode whose picture is the video memory at its address.\<close>

definition mode_fits :: "(u32 \<Rightarrow> u8 list) \<Rightarrow> video_fb_info \<Rightarrow> bool" where
  "mode_fits vram i \<longleftrightarrow> fb_phys i \<noteq> 0 \<and> fb_width i \<noteq> 0 \<and> fb_height i \<noteq> 0 \<and> fb_width i \<le> fb_pitch i
     \<and> unat (fb_height i) * unat (fb_pitch i) < 2 ^ 32 \<and> length (vram (fb_phys i)) = unat (fb_height i) * unat (fb_pitch i)"

lemma fb_init_ok:
  assumes "mode_fits vram i" "gf_dirty fb = None" "framebuffer_init vram i h fb = (fb1, h1)"
  shows "fb_ok fb1" "gf_width fb1 = fb_width i" "gf_height fb1 = fb_height i"
proof -
  have p: "fb_pitch i \<noteq> 0" using assms(1) by (auto simp: mode_fits_def)
  have "unat (fb_height i * fb_pitch i) = unat (fb_height i) * unat (fb_pitch i)"
    using assms(1) by (simp add: mode_fits_def unat_word_ariths)
  then show "fb_ok fb1" "gf_width fb1 = fb_width i" "gf_height fb1 = fb_height i"
    using assms p by (auto simp: framebuffer_init_def mode_fits_def fb_ok_def Let_def split: option.splits)
qed

text \<open>After the framebuffer is set up on a mode, a clear and any drawing, a flush that returns leaves on the screen exactly the
  picture that was painted: at each pixel the colour of the last operation that covers it. It holds with the back buffer and
  without it, when the heap had no room for one.\<close>

theorem fb_flush_shows:
  assumes "mode_fits vram i" "gf_dirty fb = None" "framebuffer_init vram i h fb = (fb1, h1)"
    and "framebuffer_flush io (fold draw (Clear k # ops) fb1, m) = Some (fb', m')" and "x < fb_width i" "y < fb_height i"
  shows "shown fb' x y = fold (paint_op fb1) ops (\<lambda>_ _. k) x y"
proof -
  note I = fb_init_ok [OF assms(1-3)]
  let ?c = "framebuffer_clear k fb1"
  note C = clear_clean [OF I(1), where k = k]
  have g: "gf_width ?c = gf_width fb1" "gf_height ?c = gf_height fb1" by (simp_all add: framebuffer_clear_def)
  have p: "on_picture ?c x y" using g I assms(5,6) by simp
  have e: "fold (paint_op g) ops q x y = fold (paint_op fb1) ops q' x y"
    if "gf_width g = gf_width fb1" "gf_height g = gf_height fb1" "q x y = q' x y" for g q q'
    using that(3)
  proof (induction ops arbitrary: q q')
    case (Cons a ops)
    have "op_covers g a = op_covers fb1 a" using that(1,2) by (cases a) (auto simp: fun_eq_iff)
    then have "paint_op g a q x y = paint_op fb1 a q' x y" using Cons.prems by (simp add: paint_op_def)
    then show ?case using Cons.IH by simp
  qed simp
  note R = draws_refine [OF C(1), of ops]
  have pp: "on_picture (fold draw ops ?c) x y" using R p by simp
  have "shown fb' x y = drawn (fold draw ops ?c) x y"
    using flush_shows [of "fold draw ops ?c", OF _ _ _ pp] R C(2) assms(4) by simp
  also have "\<dots> = fold (paint_op ?c) ops (drawn ?c) x y" using R p by simp
  also have "\<dots> = fold (paint_op fb1) ops (\<lambda>_ _. k) x y" using e [OF g] C(3) I assms(5,6) by simp
  finally show ?thesis .
qed

definition demo_mode :: video_fb_info where
  "demo_mode = \<lparr>fb_phys = 0xE0000000, fb_width = 3, fb_height = 2, fb_pitch = 4, fb_bpp = 8\<rparr>"

definition demo_vram :: "u32 \<Rightarrow> u8 list" where
  "demo_vram a = replicate 8 0xFF"

definition demo_fb :: framebuffer where
  "demo_fb = \<lparr>gf_fb = 0xA0000, gf_screen = [], gf_back = None, gf_width = 320, gf_height = 200, gf_pitch = 320, gf_dirty = None,
     gf_vsync = True\<rparr>"

text \<open>A card whose retrace bit alternates with the readings.\<close>

definition alternating :: "nat ports" where
  "alternating = \<lparr>io_inb = (\<lambda>m p. (if even m then 0x08 else 0, Suc m)), io_inw = (\<lambda>m p. (0, m)), io_inl = (\<lambda>m p. (0, m)),
     io_outb = (\<lambda>m p v. m), io_outw = (\<lambda>m p v. m), io_outl = (\<lambda>m p v. m)\<rparr>"

lemma alternating_vsync: "framebuffer_wait_vsync alternating 0 = Some 3"
proof -
  have "wait_retrace alternating False 0 = Some 2"
    by (subst wait_retrace.simps, subst wait_retrace.simps) (simp add: alternating_def)
  moreover have "wait_retrace alternating True 2 = Some 3" by (subst wait_retrace.simps) (simp add: alternating_def)
  ultimately show ?thesis by (simp add: framebuffer_wait_vsync_def)
qed

lemma flush_returns:
  "framebuffer_wait_vsync io m = Some m1 \<Longrightarrow> \<exists>fb' m'. framebuffer_flush io (fb, m) = Some (fb', m')"
  by (simp add: framebuffer_flush_def split: option.split)

theorem fb_flush_shows_witness:
  "\<exists>fb1 h1 fb' m'. framebuffer_init demo_vram demo_mode demo_heap demo_fb = (fb1, h1) \<and> gf_back fb1 \<noteq> None
     \<and> framebuffer_flush alternating (fold draw [Clear 1, Fill 1 0 5 1 7, Put 0 1 9] fb1, 0) = Some (fb', m')
     \<and> shown fb' 1 0 = 7 \<and> shown fb' 2 0 = 7 \<and> shown fb' 0 1 = 9 \<and> shown fb' 2 1 = 1"
proof -
  obtain p h1 where k: "kmalloc demo_heap 8 = Some (p, h1)"
    by (simp add: kmalloc_def demo_heap_blocks align_up_def Let_def)
  let ?fb1 = "demo_fb\<lparr>gf_fb := 0xE0000000, gf_screen := replicate 8 0xFF, gf_width := 3, gf_height := 2, gf_pitch := 4,
      gf_back := Some (replicate 8 0)\<rparr>"
  have i: "framebuffer_init demo_vram demo_mode demo_heap demo_fb = (?fb1, h1)"
    by (simp add: framebuffer_init_def demo_mode_def demo_vram_def demo_fb_def k)
  have m: "mode_fits demo_vram demo_mode" by (simp add: mode_fits_def demo_mode_def demo_vram_def)
  obtain fb' m' where f: "framebuffer_flush alternating (fold draw [Clear 1, Fill 1 0 5 1 7, Put 0 1 9] ?fb1, 0) = Some (fb', m')"
    using flush_returns [OF alternating_vsync] by blast
  have d: "gf_dirty demo_fb = None" by (simp add: demo_fb_def)
  note P = fb_flush_shows [OF m d i f]
  show ?thesis
    using i f P [of 1 0] P [of 2 0] P [of 0 1] P [of 2 1]
    by (intro exI [of _ ?fb1] exI [of _ h1] exI [of _ fb'] exI [of _ m'])
      (simp add: demo_mode_def paint_op_def clip_end_def)
qed

section \<open>The wait for the retrace\<close>

text \<open>The status register at its nth reading.\<close>

fun after_reads :: "'m ports \<Rightarrow> nat \<Rightarrow> 'm \<Rightarrow> 'm" where
  "after_reads io 0 m = m"
| "after_reads io (Suc n) m = after_reads io n (snd (io_inb io m 0x3DA))"

definition retrace_at :: "'m ports \<Rightarrow> 'm \<Rightarrow> nat \<Rightarrow> bool" where
  "retrace_at io m n \<longleftrightarrow> fst (io_inb io (after_reads io n m) 0x3DA) AND 0x08 \<noteq> 0"

lemma retrace_at_Suc: "retrace_at io m (Suc n) = retrace_at io (snd (io_inb io m 0x3DA)) n"
  by (simp add: retrace_at_def)

lemma wait_retrace_at:
  assumes "retrace_at io m n = on" "\<forall>k < n. retrace_at io m k \<noteq> on"
  shows "wait_retrace io on m = Some (after_reads io (Suc n) m)"
  using assms
proof (induction n arbitrary: m)
  case 0
  then show ?case by (subst wait_retrace.simps) (auto simp: retrace_at_def split: prod.splits)
next
  case (Suc n)
  have "retrace_at io m 0 \<noteq> on" using Suc.prems(2) by simp
  then have e: "wait_retrace io on m = wait_retrace io on (snd (io_inb io m 0x3DA))"
    by (subst wait_retrace.simps) (auto simp: retrace_at_def split: prod.splits)
  have "\<forall>k < n. retrace_at io (snd (io_inb io m 0x3DA)) k \<noteq> on"
    using Suc.prems(2) by (auto simp flip: retrace_at_Suc)
  then show ?case using Suc.IH [of "snd (io_inb io m 0x3DA)"] Suc.prems(1) e by (simp add: retrace_at_Suc)
qed

lemma wait_retrace_returns:
  assumes "wait_retrace io on m = Some m'"
  shows "\<exists>n. retrace_at io m n = on \<and> (\<forall>k < n. retrace_at io m k \<noteq> on) \<and> m' = after_reads io (Suc n) m"
  using assms
proof (induction rule: wait_retrace.raw_induct [rotated, consumes 1, case_names Step])
  case (Step wr io on m m')
  obtain status m1 where r: "io_inb io m 0x3DA = (status, m1)" by fastforce
  show ?case
  proof (cases "(status AND 0x08 \<noteq> 0) = on")
    case True
    then show ?thesis using Step r by (intro exI [of _ 0]) (auto simp: retrace_at_def)
  next
    case False
    then have "wr io on m1 = Some m'" using Step(2) r by (auto split: if_splits)
    from Step(1) [OF this]
    obtain n where n: "retrace_at io m1 n = on" "\<forall>k < n. retrace_at io m1 k \<noteq> on" "m' = after_reads io (Suc n) m1"
      by blast
    have "\<forall>k < Suc n. retrace_at io m k \<noteq> on"
      using n(2) False r by (auto simp: less_Suc_eq_0_disj retrace_at_Suc) (auto simp: retrace_at_def)
    then show ?thesis using n r by (intro exI [of _ "Suc n"]) (simp add: retrace_at_Suc)
  qed
qed

lemma after_reads_add: "after_reads io (n + k) m = after_reads io k (after_reads io n m)"
  by (induction n arbitrary: m) simp_all

text \<open>The wait for the vertical retrace returns exactly when the status register reads retrace off at some reading and retrace on
  at a later one; then it has made no reading after the first such one. With a card that never changes the bit it spins forever.\<close>

theorem framebuffer_wait_vsync_returns:
  "(framebuffer_wait_vsync io m \<noteq> None) = (\<exists>n k. n < k \<and> \<not> retrace_at io m n \<and> retrace_at io m k)"
proof
  assume "framebuffer_wait_vsync io m \<noteq> None"
  then obtain m1 m2 where w: "wait_retrace io False m = Some m1" "wait_retrace io True m1 = Some m2"
    by (auto simp: framebuffer_wait_vsync_def split: option.splits)
  from wait_retrace_returns [OF w(1)] obtain n where n: "\<not> retrace_at io m n" "m1 = after_reads io (Suc n) m" by auto
  from wait_retrace_returns [OF w(2)] obtain k where "retrace_at io m1 k" by blast
  then have "retrace_at io m (Suc n + k)" unfolding n(2) retrace_at_def after_reads_add .
  then show "\<exists>n k. n < k \<and> \<not> retrace_at io m n \<and> retrace_at io m k"
    using n(1) by (intro exI [of _ n] exI [of _ "Suc n + k"]) simp
next
  assume "\<exists>n k. n < k \<and> \<not> retrace_at io m n \<and> retrace_at io m k"
  then obtain n k where nk: "n < k" "\<not> retrace_at io m n" "retrace_at io m k" by blast
  define a where "a = (LEAST n. \<not> retrace_at io m n)"
  have a: "\<not> retrace_at io m a" "\<forall>j < a. retrace_at io m j" "a \<le> n"
    unfolding a_def using LeastI [of "\<lambda>n. \<not> retrace_at io m n", OF nk(2)] not_less_Least Least_le [of "\<lambda>n. \<not> retrace_at io m n", OF nk(2)]
    by blast+
  then have w: "wait_retrace io False m = Some (after_reads io (Suc a) m)" by (intro wait_retrace_at) auto
  let ?m1 = "after_reads io (Suc a) m"
  have "k = Suc a + (k - Suc a)" using nk(1) a(3) by linarith
  then have later: "retrace_at io ?m1 (k - Suc a)" using nk(3) unfolding retrace_at_def by (metis after_reads_add)
  define b where "b = (LEAST j. retrace_at io ?m1 j)"
  have "retrace_at io ?m1 b" "\<forall>j < b. \<not> retrace_at io ?m1 j"
    unfolding b_def using LeastI [of "retrace_at io ?m1", OF later] not_less_Least by blast+
  then have "wait_retrace io True ?m1 = Some (after_reads io (Suc b) ?m1)" by (intro wait_retrace_at) auto
  then show "framebuffer_wait_vsync io m \<noteq> None" using w by (simp add: framebuffer_wait_vsync_def)
qed

end
