(* ===== verification/Font.thy ===== *)
theory Font
  imports Framebuffer
begin

text \<open>
  The font of the graphics console, from \<^verbatim>\<open>src/video/display.c\<close>: reading a PSF font file, finding a glyph, and
  drawing it scaled, with its edges blended into the nearest colour of the palette.

  A pointer into the font file is the file from there on; a byte behind its end reads as 0.
\<close>

section \<open>The font file\<close>

record psf_font =
  fn_data :: "u8 list option"
  fn_header_size :: u32
  fn_glyph_count :: u32
  fn_glyph_size :: u32
  fn_glyph_width :: u32
  fn_glyph_height :: u32
  fn_bytes_per_row :: u32
  fn_valid :: bool

abbreviation GFX_CELL_W :: u32 where "GFX_CELL_W \<equiv> 8"
abbreviation GFX_CELL_H :: u32 where "GFX_CELL_H \<equiv> 8"

definition no_font :: psf_font where
  "no_font = \<lparr>fn_data = None, fn_header_size = 0, fn_glyph_count = 256, fn_glyph_size = 8, fn_glyph_width = GFX_CELL_W,
     fn_glyph_height = GFX_CELL_H, fn_bytes_per_row = 1, fn_valid = False\<rparr>"

record psf2_header =
  p2_magic :: u32
  p2_version :: u32
  p2_header_size :: u32
  p2_flags :: u32
  p2_glyph_count :: u32
  p2_bytes_per_glyph :: u32
  p2_height :: u32
  p2_width :: u32

definition psf2_of :: "u8 list \<Rightarrow> psf2_header" where
  "psf2_of f = (let w = (\<lambda>i. le_u32 (drop (4 * i) f)) in
     \<lparr>p2_magic = w 0, p2_version = w 1, p2_header_size = w 2, p2_flags = w 3, p2_glyph_count = w 4, p2_bytes_per_glyph = w 5,
      p2_height = w 6, p2_width = w 7\<rparr>)"

definition psf2_font :: "u8 list \<Rightarrow> psf_font option" where
  "psf2_font f =
     (let p = psf2_of f; sz = of_nat (length f) :: u32 in
      if p2_magic p = 0x864ab572 \<and> p2_version p = 0 \<and> p2_header_size p \<ge> 32 \<and> p2_header_size p < sz \<and> p2_glyph_count p > 0
         \<and> p2_bytes_per_glyph p > 0 \<and> p2_height p > 0 \<and> p2_width p > 0
      then let glyph_bytes = ucast (p2_glyph_count p) * ucast (p2_bytes_per_glyph p) :: u64 in
        if ucast (p2_header_size p) + glyph_bytes \<le> ucast sz then
          (let bpr = (p2_width p + 7) div 8 in
           Some \<lparr>fn_data = Some f, fn_header_size = p2_header_size p, fn_glyph_count = p2_glyph_count p,
                 fn_glyph_size = p2_bytes_per_glyph p, fn_glyph_width = p2_width p, fn_glyph_height = p2_height p,
                 fn_bytes_per_row = (if bpr = 0 then 1 else bpr), fn_valid = True\<rparr>)
        else None
      else None)"

definition psf1_font :: "u8 list \<Rightarrow> psf_font option" where
  "psf1_font f =
     (let magic = le_u16 f; mode = rd f 2; charsize = rd f 3; sz = of_nat (length f) :: u32 in
      if magic \<noteq> 0x0436 \<and> magic \<noteq> 0x0437 then None
      else let glyph_count = (if mode AND 0x01 \<noteq> 0 then 512 else 256) :: u32 in
        if charsize = 0 \<or> (4 + ucast glyph_count * ucast charsize :: u64) > ucast sz then None
        else Some \<lparr>fn_data = Some f, fn_header_size = 4, fn_glyph_count = glyph_count, fn_glyph_size = ucast charsize,
                   fn_glyph_width = 8, fn_glyph_height = ucast charsize, fn_bytes_per_row = 1, fn_valid = True\<rparr>)"

text \<open>The file is the bytes from \<^verbatim>\<open>start\<close> to \<^verbatim>\<open>end\<close>.\<close>

definition font_load_from_memory :: "u8 list \<Rightarrow> psf_font" where
  "font_load_from_memory f =
     (let sz = of_nat (length f) :: u32 in
      if f = [] \<or> sz < 4 then no_font
      else case (if sz \<ge> 32 then psf2_font f else None) of
             Some font \<Rightarrow> font
           | None \<Rightarrow> (case psf1_font f of Some font \<Rightarrow> font | None \<Rightarrow> no_font))"

definition font_glyph_at :: "psf_font \<Rightarrow> u32 \<Rightarrow> u8 list option" where
  "font_glyph_at g codepoint =
     (case fn_data g of
        None \<Rightarrow> None
      | Some bytes \<Rightarrow>
          if \<not> fn_valid g \<or> fn_glyph_size g = 0 then None
          else let cp = (if codepoint \<ge> fn_glyph_count g then (if 63 \<ge> fn_glyph_count g then 0 else 63) else codepoint)
            in Some (drop (unat (fn_header_size g + cp * fn_glyph_size g)) bytes))"

section \<open>Drawing a glyph\<close>

definition glyph_sample_covered :: "psf_font \<Rightarrow> u8 list \<Rightarrow> u32 \<Rightarrow> u32 \<Rightarrow> u32 \<Rightarrow> u32 \<Rightarrow> bool" where
  "glyph_sample_covered g glyph sample_x_num sample_x_den sample_y_num sample_y_den =
     (if fn_glyph_width g = 0 \<or> fn_glyph_height g = 0 \<or> sample_x_den = 0 \<or> sample_y_den = 0 then False
      else let sx0 = (sample_x_num * fn_glyph_width g) div sample_x_den; sy0 = (sample_y_num * fn_glyph_height g) div sample_y_den;
               sx = (if sx0 \<ge> fn_glyph_width g then fn_glyph_width g - 1 else sx0);
               sy = (if sy0 \<ge> fn_glyph_height g then fn_glyph_height g - 1 else sy0);
               byte_index = sy * fn_bytes_per_row g + drop_bit 3 sx;
               mask = drop_bit (unat (sx AND 7)) 0x80 :: u8
           in rd glyph (unat byte_index) AND mask \<noteq> 0)"

definition g_cga_palette :: "(u32 \<times> u32 \<times> u32) list" where
  "g_cga_palette =
     [(0, 0, 0), (0, 0, 170), (0, 170, 0), (0, 170, 170), (170, 0, 0), (170, 0, 170), (170, 85, 0), (170, 170, 170),
      (85, 85, 85), (85, 85, 255), (85, 255, 85), (85, 255, 255), (255, 85, 85), (255, 85, 255), (255, 255, 85), (255, 255, 255)]"

definition blend_channel :: "(u32 \<times> u32 \<times> u32 \<Rightarrow> u32) \<Rightarrow> u8 \<Rightarrow> u8 \<Rightarrow> u32 \<Rightarrow> u32 \<Rightarrow> u32" where
  "blend_channel ch bg fg covered tot =
     (ch (g_cga_palette ! unat (bg AND 0x0F)) * (tot - covered) + ch (g_cga_palette ! unat (fg AND 0x0F)) * covered + tot div 2) div tot"

definition colour_distance :: "u32 \<times> u32 \<times> u32 \<Rightarrow> u32 \<times> u32 \<times> u32 \<Rightarrow> u32" where
  "colour_distance p q =
     (let dr = fst p - fst q; dg = fst (snd p) - fst (snd q); db = snd (snd p) - snd (snd q) in dr * dr + dg * dg + db * db)"

definition gfx_blend_palette_color :: "u8 \<Rightarrow> u8 \<Rightarrow> u32 \<Rightarrow> u32 \<Rightarrow> u8" where
  "gfx_blend_palette_color bg fg covered tot =
     (if covered = 0 \<or> bg = fg then bg
      else if covered \<ge> tot then fg
      else let mix = (blend_channel fst bg fg covered tot, blend_channel (fst \<circ> snd) bg fg covered tot,
                      blend_channel (snd \<circ> snd) bg fg covered tot)
        in of_nat (snd (foldl (\<lambda>(best_dist, best_i) i.
             let dist = colour_distance (g_cga_palette ! i) mix in if dist < best_dist then (dist, i) else (best_dist, best_i))
             (0xFFFFFFFF, unat fg) [0..<16])))"

definition at_least_1 :: "u32 \<Rightarrow> u32" where
  "at_least_1 v = (if v = 0 then 1 else v)"

text \<open>The coverage of a pixel by four samples.\<close>

definition glyph_coverage :: "psf_font \<Rightarrow> u8 list \<Rightarrow> u32 \<Rightarrow> u32 \<Rightarrow> u32 \<Rightarrow> u32 \<Rightarrow> u32" where
  "glyph_coverage g glyph dx scaled_w dy scaled_h =
     (let s = (\<lambda>a b. if glyph_sample_covered g glyph (dx * 4 + a) (scaled_w * 4) (dy * 4 + b) (scaled_h * 4) then 1 else 0)
      in s 1 1 + s 3 1 + s 1 3 + s 3 3)"

text \<open>The scale is given in halves; while a window moves the glyph is drawn without blending.\<close>

definition scale_px :: "u32 \<Rightarrow> u32 \<Rightarrow> u32" where
  "scale_px half n = (n * half) div 2"

definition gfx_draw_scaled_glyph ::
  "psf_font \<Rightarrow> u32 \<Rightarrow> bool \<Rightarrow> u32 \<Rightarrow> u32 \<Rightarrow> u8 list option \<Rightarrow> u8 \<Rightarrow> u8 \<Rightarrow> framebuffer \<Rightarrow> framebuffer" where
  "gfx_draw_scaled_glyph g half moving x_start y_start glyph color bg_color fb =
     (case glyph of
        None \<Rightarrow> fb
      | Some gl \<Rightarrow>
          if fn_glyph_width g = 0 \<or> fn_glyph_height g = 0 then fb
          else let scaled_w = at_least_1 (scale_px half (fn_glyph_width g)); scaled_h = at_least_1 (scale_px half (fn_glyph_height g)) in
            foldl (\<lambda>fb dy. foldl (\<lambda>fb dx.
                let x = of_nat dx; y = of_nat dy in
                if moving then
                  (if glyph_sample_covered g gl (x * 2 + 1) (scaled_w * 2) (y * 2 + 1) (scaled_h * 2)
                   then framebuffer_put_pixel (x_start + x) (y_start + y) color fb else fb)
                else let out_color = gfx_blend_palette_color bg_color color (glyph_coverage g gl x scaled_w y scaled_h) 4 in
                  (if out_color \<noteq> bg_color then framebuffer_put_pixel (x_start + x) (y_start + y) out_color fb else fb))
              fb [0..<unat scaled_w]) fb [0..<unat scaled_h])"

lemma draws_glyph [draws]:
  "draws_on a b \<Longrightarrow> draws_on a (gfx_draw_scaled_glyph g half moving x y glyph k bg b)"
  unfolding gfx_draw_scaled_glyph_def
  by (auto simp: Let_def split: option.split intro!: draws draws_foldl)

section \<open>Glyphs lie in the file\<close>

text \<open>A font whose glyph table is inside of its file.\<close>

definition font_in_file :: "psf_font \<Rightarrow> u8 list \<Rightarrow> bool" where
  "font_in_file g f \<longleftrightarrow> fn_data g = Some f \<and> fn_glyph_size g \<noteq> 0 \<and> fn_glyph_count g \<noteq> 0
     \<and> unat (fn_header_size g) + unat (fn_glyph_count g) * unat (fn_glyph_size g) \<le> length f"

lemma unat_ucast_up: "LENGTH('a) \<le> LENGTH('b) \<Longrightarrow> unat (ucast (w :: 'a::len word) :: 'b::len word) = unat w"
proof -
  assume "LENGTH('a) \<le> LENGTH('b)"
  then have "(2 :: nat) ^ LENGTH('a) \<le> 2 ^ LENGTH('b)" by simp
  then have "unat w < 2 ^ LENGTH('b)" using unsigned_less [of w] by (rule less_le_trans [rotated])
  then show ?thesis by (simp add: unsigned_ucast_eq take_bit_nat_eq_self)
qed

lemma unat_ucast_64: "unat (ucast (w :: u32) :: u64) = unat w"
  by (rule unat_ucast_up) simp

lemma table_size:
  fixes h c s :: u32
  shows "unat (ucast h + ucast c * ucast s :: u64) = unat h + unat c * unat s"
proof -
  have "unat h < 2 ^ 32" "unat c < 2 ^ 32" "unat s < 2 ^ 32"
    using unsigned_less [of h] unsigned_less [of c] unsigned_less [of s] by simp_all
  moreover from this have "unat c * unat s \<le> (2 ^ 32 - 1) * (2 ^ 32 - 1)" by (intro mult_le_mono) simp_all
  ultimately have "unat h + unat c * unat s < 2 ^ 64" "unat c * unat s < 2 ^ 64" by simp_all
  then show ?thesis by (simp add: unat_word_ariths unat_ucast_64)
qed

lemma load_in_file:
  assumes "length f < 2 ^ 32" "fn_valid (font_load_from_memory f)"
  shows "font_in_file (font_load_from_memory f) f"
proof -
  have sz: "unat (of_nat (length f) :: u32) = length f" using assms(1) by (simp add: unat_of_nat)
  have k: "unat h + unat c * unat s \<le> length f"
    if "(ucast h + ucast c * ucast s :: u64) \<le> ucast (of_nat (length f) :: u32)" for h c s :: u32
    using that by (simp add: word_le_nat_alt table_size unat_ucast_64 sz)
  have p2: "font_in_file g f" if "psf2_font f = Some g" for g
    using that k by (auto simp: psf2_font_def font_in_file_def Let_def split: if_splits)
  have p1: "font_in_file g f" if "psf1_font f = Some g" for g
  proof -
    have u: "(ucast (rd f 3) :: u64) = ucast (ucast (rd f 3) :: u32)" by (simp add: word_unat_eq_iff unat_ucast_up)
    have n: "rd f 3 \<noteq> 0 \<Longrightarrow> (ucast (rd f 3) :: u32) \<noteq> 0" using unat_ucast_up [of "rd f 3", where 'b = 32] by (auto simp: word_unat_eq_iff)
    show ?thesis
      using that k [of 4 512 "ucast (rd f 3)"] k [of 4 256 "ucast (rd f 3)"] n u by (auto simp: psf1_font_def font_in_file_def Let_def not_less split: if_splits)
  qed
  show ?thesis
    using assms(2) p1 p2 unfolding font_load_from_memory_def
    by (auto simp: Let_def no_font_def split: option.splits if_splits)
qed

text \<open>In a font that was loaded, every character has a glyph, and all bytes of the glyph are in the file, also for characters
  behind the last glyph.\<close>

theorem font_glyphs_in_file:
  assumes "length f < 2 ^ 32" "fn_valid (font_load_from_memory f)"
  shows "\<exists>gl. font_glyph_at (font_load_from_memory f) c = Some gl \<and> unat (fn_glyph_size (font_load_from_memory f)) \<le> length gl
    \<and> (\<exists>n. gl = drop n f)"
proof -
  define g where "g = font_load_from_memory f"
  have G: "fn_data g = Some f" "fn_glyph_size g \<noteq> 0" "fn_glyph_count g \<noteq> 0" "fn_valid g"
    "unat (fn_header_size g) + unat (fn_glyph_count g) * unat (fn_glyph_size g) \<le> length f"
    using load_in_file [OF assms] assms(2) by (simp_all add: font_in_file_def g_def)
  define cp where "cp = (if c \<ge> fn_glyph_count g then (if 63 \<ge> fn_glyph_count g then 0 else 63) else c)"
  have "cp < fn_glyph_count g" using G(3) by (auto simp: cp_def not_le not_less word_gt_0)
  then have "Suc (unat cp) * unat (fn_glyph_size g) \<le> unat (fn_glyph_count g) * unat (fn_glyph_size g)"
    by (intro mult_le_mono1) (simp add: word_less_nat_alt)
  then have l: "unat (fn_header_size g) + unat cp * unat (fn_glyph_size g) + unat (fn_glyph_size g) \<le> length f"
    using G(5) by simp
  then have "unat (fn_header_size g + cp * fn_glyph_size g) = unat (fn_header_size g) + unat cp * unat (fn_glyph_size g)"
    using assms(1) by (simp add: unat_word_ariths)
  then show ?thesis
    unfolding g_def [symmetric] using G l by (auto simp: font_glyph_at_def Let_def simp flip: cp_def)
qed

definition demo_font :: "u8 list" where
  "demo_font = [0x36, 0x04, 0, 1] @ map of_nat [0..<256]"

theorem font_glyphs_in_file_witness:
  "font_glyph_at (font_load_from_memory demo_font) 65 = Some (drop 69 demo_font)
    \<and> (\<exists>gl. font_glyph_at (font_load_from_memory demo_font) 999 = Some gl \<and> 1 \<le> length gl)"
proof -
  have l: "length demo_font = 260" by (simp add: demo_font_def)
  have h: "le_u16 demo_font = 0x436" "rd demo_font 2 = 0" "rd demo_font 3 = 1" "le_u32 demo_font = 0x1000436"
    by (simp_all add: demo_font_def le_u16_def le_u32_def rd_def)
  have f: "font_load_from_memory demo_font = \<lparr>fn_data = Some demo_font, fn_header_size = 4, fn_glyph_count = 256, fn_glyph_size = 1,
      fn_glyph_width = 8, fn_glyph_height = 1, fn_bytes_per_row = 1, fn_valid = True\<rparr>"
    using l h by (auto simp: font_load_from_memory_def psf2_font_def psf2_of_def psf1_font_def Let_def)
  have "font_glyph_at (font_load_from_memory demo_font) 65 = Some (drop 69 demo_font)" by (simp add: f font_glyph_at_def)
  then show ?thesis using font_glyphs_in_file [of demo_font 999] l by (auto simp: f)
qed

end
