(* ===== verification/Gui_Windows.thy ===== *)
theory Gui_Windows
  imports Vertex_Base "HOL-Library.Multiset"
begin

text \<open>
  The window primitives of \<^verbatim>\<open>src/video/gui.c\<close>: the list of windows from back to front, searches in it and
  the clamping of a window to the screen.

  A pointer into the window array is an index, \<open>None\<close> the null pointer.  Coordinates are 32-bit words that are read as
  signed numbers; their sums wrap.
\<close>

type_synonym s32 = "32 word"

section \<open>Data\<close>

datatype gui_window_role = ROLE_DESKTOP | ROLE_TERMINAL | ROLE_SETTINGS | ROLE_PROCESS_MANAGER | ROLE_GENERIC

record gui_window =
  gw_x :: s32
  gw_y :: s32
  gw_w :: u32
  gw_h :: u32
  gw_title_bg :: u8
  gw_body_bg :: u8
  gw_border :: u8
  gw_title :: "u8 list"
  gw_visible :: bool
  gw_role :: gui_window_role
  gw_slot :: u8

section \<open>Operations\<close>

definition gui_window_index_from_ptr :: "gui_window list \<Rightarrow> nat option \<Rightarrow> int" where
  "gui_window_index_from_ptr windows target =
     (case target of
        None \<Rightarrow> -1
      | Some p \<Rightarrow> (case for_find (\<lambda>i. i = p) 0 (length windows) of Some i \<Rightarrow> int i | None \<Rightarrow> -1))"

function bring_loop :: "'a list \<Rightarrow> int \<Rightarrow> int \<Rightarrow> 'a list" where
  "bring_loop windows first index =
     (if index \<ge> first \<and> index < int (length windows) - 1
      then bring_loop (windows[nat index := windows ! nat (index + 1), nat (index + 1) := windows ! nat index]) first (index + 1)
      else windows)"
  by pat_completeness auto
termination
  by (relation "measure (\<lambda>(windows, first, index). nat (int (length windows) - 1 - index))") auto

declare bring_loop.simps [simp del]

definition gui_bring_window_to_front :: "gui_window list \<Rightarrow> int \<Rightarrow> int \<Rightarrow> gui_window list" where
  "gui_bring_window_to_front windows first_movable_index index = bring_loop windows first_movable_index index"

definition gui_find_window_by_role :: "gui_window list \<Rightarrow> gui_window_role \<Rightarrow> int \<Rightarrow> nat option" where
  "gui_find_window_by_role windows role fallback_index =
     (case for_find (\<lambda>i. gw_role (windows ! i) = role) 0 (length windows) of
        Some i \<Rightarrow> Some i
      | None \<Rightarrow> if fallback_index \<ge> 0 \<and> fallback_index < int (length windows) then Some (nat fallback_index) else None)"

text \<open>A loop downwards from below \<open>n\<close> to \<open>first\<close>.\<close>

fun find_down :: "(nat \<Rightarrow> bool) \<Rightarrow> nat \<Rightarrow> nat \<Rightarrow> nat option" where
  "find_down p first 0 = None"
| "find_down p first (Suc i) = (if i < first then None else if p i then Some i else find_down p first i)"

definition window_contains :: "gui_window \<Rightarrow> s32 \<Rightarrow> s32 \<Rightarrow> bool" where
  "window_contains w x y \<longleftrightarrow> gw_x w \<le>s x \<and> x <s gw_x w + gw_w w \<and> gw_y w \<le>s y \<and> y <s gw_y w + gw_h w"

definition window_hit :: "bool \<Rightarrow> s32 \<Rightarrow> s32 \<Rightarrow> gui_window \<Rightarrow> bool" where
  "window_hit include_desktop x y window =
     (if \<not> gw_visible window then False
      else if \<not> include_desktop \<and> gw_role window = ROLE_DESKTOP then False
      else window_contains window x y)"

definition gui_find_topmost_visible_at :: "gui_window list \<Rightarrow> nat \<Rightarrow> s32 \<Rightarrow> s32 \<Rightarrow> bool \<Rightarrow> int" where
  "gui_find_topmost_visible_at windows first_index x y include_desktop =
     (case find_down (\<lambda>i. window_hit include_desktop x y (windows ! i)) first_index (length windows) of
        Some i \<Rightarrow> int i
      | None \<Rightarrow> -1)"

text \<open>The four comparisons of each clamp, low end first.\<close>

definition clamp :: "s32 \<Rightarrow> s32 \<Rightarrow> s32 \<Rightarrow> s32" where
  "clamp lo hi v = (let v1 = (if v <s lo then lo else v) in if hi <s v1 then hi else v1)"

definition gui_clamp_window_position :: "gui_window \<Rightarrow> s32 \<times> s32 \<Rightarrow> u32 \<Rightarrow> u32 \<Rightarrow> u32 \<Rightarrow> s32 \<times> s32" where
  "gui_clamp_window_position window xy bounds_w bounds_h reserved_bottom =
     (let max_x = bounds_w - gw_w window; max_y = bounds_h - reserved_bottom - gw_h window
      in (clamp 0 max_x (fst xy), clamp 0 max_y (snd xy)))"

definition gui_clamp_window_size :: "gui_window \<Rightarrow> s32 \<times> s32 \<Rightarrow> u32 \<Rightarrow> u32 \<Rightarrow> u32 \<Rightarrow> u32 \<Rightarrow> u32 \<Rightarrow> s32 \<times> s32" where
  "gui_clamp_window_size window wh min_w min_h bounds_w bounds_h reserved_bottom =
     (let max_w = bounds_w - gw_x window; max_h = bounds_h - reserved_bottom - gw_y window
      in (clamp min_w max_w (fst wh), clamp min_h max_h (snd wh)))"

section \<open>Bringing to the front\<close>

lemma bring_loop_rotates:
  assumes "first \<le> int (length xs)"
  shows "bring_loop (xs @ w # ys) first (int (length xs)) = xs @ ys @ [w]"
  using assms
proof (induction ys arbitrary: xs)
  case Nil
  then show ?case by (subst bring_loop.simps) simp
next
  case (Cons y ys)
  have "bring_loop (xs @ w # y # ys) first (int (length xs)) = bring_loop ((xs @ [y]) @ w # ys) first (int (length (xs @ [y])))"
    using Cons.prems by (subst bring_loop.simps) (simp add: nat_add_distrib nth_append list_update_append add.commute)
  then show ?case using Cons.IH [of "xs @ [y]"] Cons.prems by simp
qed

lemma bring_loop_take_drop:
  assumes "first \<le> int i" "i < length ws"
  shows "bring_loop ws first (int i) = take i ws @ drop (Suc i) ws @ [ws ! i]"
  using bring_loop_rotates [of first "take i ws" "ws ! i" "drop (Suc i) ws"] assms by (simp flip: id_take_nth_drop)

lemma bring_loop_outside: "index < first \<or> int (length ws) - 1 \<le> index \<Longrightarrow> bring_loop ws first index = ws"
  by (subst bring_loop.simps) auto

lemma mset_bring_loop [simp]: "0 \<le> first \<Longrightarrow> mset (bring_loop ws first index) = mset ws"
proof (cases "first \<le> index \<and> index < int (length ws)")
  case True
  assume "0 \<le> first"
  with True obtain i where i: "index = int i" "i < length ws" by (metis nat_0_le of_nat_less_iff order_trans)
  have "mset ws = mset (take i ws @ ws ! i # drop (Suc i) ws)" using i by (simp flip: id_take_nth_drop)
  then show ?thesis using True i bring_loop_take_drop [of first i ws] by simp
qed (auto simp: bring_loop_outside)

lemma length_bring_loop [simp]: "length (bring_loop ws first index) = length ws"
  by (induction ws first index rule: bring_loop.induct) (subst bring_loop.simps, simp)

section \<open>Searches\<close>

lemma find_down_Some_iff:
  "find_down p first n = Some k \<longleftrightarrow> first \<le> k \<and> k < n \<and> p k \<and> (\<forall>j. k < j \<and> j < n \<longrightarrow> \<not> p j)"
  by (induction n) (auto simp: less_Suc_eq not_less)

lemma find_down_None_iff: "find_down p first n = None \<longleftrightarrow> (\<forall>k. first \<le> k \<and> k < n \<longrightarrow> \<not> p k)"
  by (induction n) (auto simp: less_Suc_eq not_less)

lemma topmost_hit:
  "gui_find_topmost_visible_at ws first x y d = int i \<longleftrightarrow>
     first \<le> i \<and> i < length ws \<and> window_hit d x y (ws ! i) \<and> (\<forall>j. i < j \<and> j < length ws \<longrightarrow> \<not> window_hit d x y (ws ! j))"
  unfolding find_down_Some_iff [of "\<lambda>i. window_hit d x y (ws ! i)", symmetric]
  by (auto simp: gui_find_topmost_visible_at_def split: option.split)

lemma topmost_miss:
  "gui_find_topmost_visible_at ws first x y d = -1 \<longleftrightarrow> (\<forall>j. first \<le> j \<and> j < length ws \<longrightarrow> \<not> window_hit d x y (ws ! j))"
  unfolding find_down_None_iff [of "\<lambda>i. window_hit d x y (ws ! i)", symmetric]
  by (simp add: gui_find_topmost_visible_at_def split: option.split)

lemma topmost_cases:
  obtains "gui_find_topmost_visible_at ws first x y d = -1"
  | i where "gui_find_topmost_visible_at ws first x y d = int i" "first \<le> i" "i < length ws" "window_hit d x y (ws ! i)"
proof (cases "find_down (\<lambda>i. window_hit d x y (ws ! i)) first (length ws)")
  case (Some i)
  then have "gui_find_topmost_visible_at ws first x y d = int i" by (simp add: gui_find_topmost_visible_at_def)
  then show ?thesis using that(2) topmost_hit by blast
qed (use that(1) in \<open>simp add: gui_find_topmost_visible_at_def\<close>)

section \<open>Clamping\<close>

lemma clamp_sint: "sint lo \<le> sint hi \<Longrightarrow> sint lo \<le> sint (clamp lo hi v) \<and> sint (clamp lo hi v) \<le> sint hi"
  by (simp add: clamp_def Let_def word_sless_alt)

lemma clamp_id: "sint lo \<le> sint v \<Longrightarrow> sint v \<le> sint hi \<Longrightarrow> clamp lo hi v = v"
  by (simp add: clamp_def Let_def word_sless_alt)

lemma sint_small: "unat (v :: s32) < 2 ^ 31 \<Longrightarrow> sint v = int (unat v)"
  
proof -
  assume a: "unat v < 2 ^ 31"
  have "int (unat v) < 2 ^ 31" using a by (metis of_nat_less_iff of_nat_numeral of_nat_power)
  then have "signed_take_bit 31 (int (unat v)) = int (unat v)" by (intro signed_take_bit_int_eq_self) linarith+
  then show ?thesis by (simp add: sint_uint)
qed

lemma unat_sub_le: "(a :: s32) \<le> b \<Longrightarrow> unat (b - a) = unat b - unat a"
  by (simp add: unat_sub)

text \<open>A window that fits is put onto the screen, above the reserved strip; one that is there stays where it is.\<close>

lemma clamp_position_on_screen:
  assumes "gw_w win \<le> bw" "gw_h win + r \<le> bh" "unat (gw_h win) + unat r < 2 ^ 32" "unat bw < 2 ^ 31" "unat bh < 2 ^ 31"
    and "gui_clamp_window_position win xy bw bh r = (x, y)"
  shows "0 \<le> sint x \<and> sint x + int (unat (gw_w win)) \<le> int (unat bw)
    \<and> 0 \<le> sint y \<and> sint y + int (unat (gw_h win)) + int (unat r) \<le> int (unat bh)"
proof -
  have a: "unat (gw_w win) \<le> unat bw" using assms(1) by (simp add: word_le_nat_alt)
  have b: "unat (gw_h win) + unat r \<le> unat bh" using assms(2,3) by (simp add: word_le_nat_alt unat_word_ariths)
  have mx: "sint (bw - gw_w win) = int (unat bw) - int (unat (gw_w win))"
    using a assms(1,4) by (subst sint_small) (simp_all add: unat_sub_le)
  have "r \<le> bh" "gw_h win \<le> bh - r" using b by (simp_all add: word_le_nat_alt unat_sub_le)
  then have my: "sint (bh - r - gw_h win) = int (unat bh) - int (unat r) - int (unat (gw_h win))"
    using b assms(5) by (subst sint_small) (simp_all add: unat_sub_le)
  have e: "x = clamp 0 (bw - gw_w win) (fst xy)" "y = clamp 0 (bh - r - gw_h win) (snd xy)"
    using assms(6) by (simp_all add: gui_clamp_window_position_def Let_def)
  have "0 \<le> sint x \<and> sint x \<le> int (unat bw) - int (unat (gw_w win))"
    unfolding e(1) using a by (intro clamp_sint [of 0 "bw - gw_w win", unfolded mx sint_0]) linarith
  moreover have "0 \<le> sint y \<and> sint y \<le> int (unat bh) - int (unat r) - int (unat (gw_h win))"
    unfolding e(2) using b by (intro clamp_sint [of 0 "bh - r - gw_h win", unfolded my sint_0]) linarith
  ultimately show ?thesis by linarith
qed

end
