(* ===== verification/Mouse.thy ===== *)
theory Mouse
  imports Framebuffer Gui_Windows
begin

text \<open>
  The mouse pointer and the mouse device of \<^verbatim>\<open>src/drivers/mouse.c\<close>: the five by five pixels of the pointer,
  the buffer of the pixels under it, and the dialogue with the keyboard controller.
\<close>

abbreviation MOUSE_CURSOR_SIZE :: nat where "MOUSE_CURSOR_SIZE \<equiv> 5"

record mouse =
  ms_x :: s32
  ms_y :: s32
  ms_buttons :: u8
  ms_enabled :: bool
  ms_prev_x :: s32
  ms_prev_y :: s32
  ms_prev_buffer :: "u8 list"
  ms_prev_valid :: bool
  ms_packet :: "u8 list"
  ms_phase :: u8

section \<open>The pointer\<close>

text \<open>The pixels of the pointer, in the order of the two loops.\<close>

definition pointer_cells :: "(nat \<times> nat) list" where
  "pointer_cells = concat (map (\<lambda>row. map (\<lambda>col. (row, col)) [0..<MOUSE_CURSOR_SIZE]) [0..<MOUSE_CURSOR_SIZE])"

definition off_screen :: "framebuffer \<Rightarrow> s32 \<Rightarrow> s32 \<Rightarrow> bool" where
  "off_screen fb x y \<longleftrightarrow> x <s 0 \<or> gf_width fb \<le>s x \<or> y <s 0 \<or> gf_height fb \<le>s y"

definition mouse_restore_pointer :: "mouse \<times> framebuffer \<Rightarrow> mouse \<times> framebuffer" where
  "mouse_restore_pointer mf =
     (case mf of (ms, fb) \<Rightarrow>
      if \<not> ms_prev_valid ms then (ms, fb)
      else (ms\<lparr>ms_prev_valid := False\<rparr>,
            foldl (\<lambda>fb (row, col).
              let x = ms_prev_x ms + of_nat col; y = ms_prev_y ms + of_nat row in
              if off_screen fb x y then fb
              else framebuffer_set_pixel x y (ms_prev_buffer ms ! (row * MOUSE_CURSOR_SIZE + col)) fb) fb pointer_cells))"

definition mouse_save_region :: "s32 \<Rightarrow> s32 \<Rightarrow> mouse \<times> framebuffer \<Rightarrow> mouse \<times> framebuffer" where
  "mouse_save_region x_start y_start mf =
     (case mf of (ms, fb) \<Rightarrow>
      (ms\<lparr>ms_prev_buffer := foldl (\<lambda>b (row, col).
            let x = x_start + of_nat col; y = y_start + of_nat row in
            b[row * MOUSE_CURSOR_SIZE + col := (if off_screen fb x y then 0 else framebuffer_get_pixel x y fb)])
          (ms_prev_buffer ms) pointer_cells\<rparr>, fb))"

definition mouse_draw_pointer :: "mouse \<times> framebuffer \<Rightarrow> mouse \<times> framebuffer" where
  "mouse_draw_pointer mf =
     (case mouse_restore_pointer mf of (ms, fb) \<Rightarrow>
      if off_screen fb (ms_x ms) (ms_y ms) then (ms, fb)
      else case mouse_save_region (ms_x ms) (ms_y ms) (ms, fb) of (ms1, fb1) \<Rightarrow>
        (ms1\<lparr>ms_prev_x := ms_x ms1, ms_prev_y := ms_y ms1, ms_prev_valid := True\<rparr>,
         foldl (\<lambda>fb (row, col).
           let x = ms_x ms1 + of_nat col; y = ms_y ms1 + of_nat row in
           if off_screen fb x y then fb else framebuffer_set_pixel x y 0 fb) fb1 pointer_cells))"

definition mouse_hide_cursor :: "mouse \<times> framebuffer \<Rightarrow> mouse \<times> framebuffer" where
  "mouse_hide_cursor mf = (case mouse_restore_pointer mf of (ms, fb) \<Rightarrow> (ms\<lparr>ms_prev_valid := False\<rparr>, fb))"

definition mouse_refresh_cursor :: "mouse \<times> framebuffer \<Rightarrow> mouse \<times> framebuffer" where
  "mouse_refresh_cursor mf = mouse_draw_pointer (if ms_prev_valid (fst mf) then mouse_restore_pointer mf else mf)"

section \<open>The device\<close>

abbreviation KBC_CMD_PORT :: u16 where "KBC_CMD_PORT \<equiv> 0x64"
abbreviation KBC_DATA_PORT :: u16 where "KBC_DATA_PORT \<equiv> 0x60"
abbreviation KBC_STATUS_OBF :: u8 where "KBC_STATUS_OBF \<equiv> 0x01"
abbreviation KBC_STATUS_IBF :: u8 where "KBC_STATUS_IBF \<equiv> 0x02"

fun mouse_wait_input :: "'m ports \<Rightarrow> nat \<Rightarrow> 'm \<Rightarrow> bool \<times> 'm" where
  "mouse_wait_input io 0 m = (False, m)"
| "mouse_wait_input io (Suc timeout) m =
     (case io_inb io m KBC_CMD_PORT of (v, m1) \<Rightarrow>
        if v AND KBC_STATUS_IBF = 0 then (True, m1) else mouse_wait_input io timeout m1)"

fun mouse_wait_output :: "'m ports \<Rightarrow> nat \<Rightarrow> 'm \<Rightarrow> bool \<times> 'm" where
  "mouse_wait_output io 0 m = (False, m)"
| "mouse_wait_output io (Suc timeout) m =
     (case io_inb io m KBC_CMD_PORT of (v, m1) \<Rightarrow>
        if v AND KBC_STATUS_OBF \<noteq> 0 then (True, m1) else mouse_wait_output io timeout m1)"

abbreviation KBC_TIMEOUT :: nat where "KBC_TIMEOUT \<equiv> 100000"

partial_function (option) mouse_flush_output :: "'m ports \<Rightarrow> 'm \<Rightarrow> 'm option" where
  "mouse_flush_output io m =
     (case io_inb io m KBC_CMD_PORT of (v, m1) \<Rightarrow>
        if v AND KBC_STATUS_OBF \<noteq> 0 then mouse_flush_output io (snd (io_inb io m1 KBC_DATA_PORT)) else Some m1)"

definition mouse_write_cmd :: "'m ports \<Rightarrow> u8 \<Rightarrow> 'm \<Rightarrow> 'm" where
  "mouse_write_cmd io cmd m =
     (case mouse_wait_input io KBC_TIMEOUT m of (ok, m1) \<Rightarrow> if \<not> ok then m1 else io_outb io m1 KBC_CMD_PORT cmd)"

definition mouse_write_data :: "'m ports \<Rightarrow> u8 \<Rightarrow> 'm \<Rightarrow> 'm" where
  "mouse_write_data io data m =
     (case mouse_wait_input io KBC_TIMEOUT m of (ok, m1) \<Rightarrow> if \<not> ok then m1 else io_outb io m1 KBC_DATA_PORT data)"

definition mouse_write_mouse :: "'m ports \<Rightarrow> u8 \<Rightarrow> 'm \<Rightarrow> 'm" where
  "mouse_write_mouse io data m =
     (case mouse_wait_input io KBC_TIMEOUT m of (ok, m1) \<Rightarrow>
      if \<not> ok then m1
      else case mouse_wait_input io KBC_TIMEOUT (io_outb io m1 KBC_CMD_PORT 0xD4) of (ok2, m2) \<Rightarrow>
        if \<not> ok2 then m2 else io_outb io m2 KBC_DATA_PORT data)"

definition mouse_read_data :: "'m ports \<Rightarrow> 'm \<Rightarrow> u8 \<times> 'm" where
  "mouse_read_data io m =
     (case mouse_wait_output io KBC_TIMEOUT m of (ok, m1) \<Rightarrow> if \<not> ok then (0, m1) else io_inb io m1 KBC_DATA_PORT)"

text \<open>The value says whether the device was enabled.\<close>

definition mouse_enable_device :: "'m ports \<Rightarrow> 'm \<Rightarrow> (bool \<times> 'm) option" where
  "mouse_enable_device io m =
     (case mouse_flush_output io m of None \<Rightarrow> None | Some m1 \<Rightarrow>
      case mouse_flush_output io (mouse_write_cmd io 0xA8 m1) of None \<Rightarrow> None | Some m2 \<Rightarrow>
      case mouse_wait_output io KBC_TIMEOUT (mouse_write_cmd io 0x20 m2) of (ok, m3) \<Rightarrow>
      if \<not> ok then Some (False, m3)
      else case mouse_read_data io m3 of (v, m4) \<Rightarrow>
        let command_byte = (v OR 0x03) AND NOT (push_bit 5 1) in
        case mouse_flush_output io m4 of None \<Rightarrow> None | Some m5 \<Rightarrow>
        case mouse_flush_output io (mouse_write_data io command_byte (mouse_write_cmd io 0x60 m5)) of None \<Rightarrow> None | Some m6 \<Rightarrow>
        case mouse_wait_output io KBC_TIMEOUT (mouse_write_mouse io 0xF4 m6) of (ok2, m7) \<Rightarrow>
        if \<not> ok2 then Some (False, m7) else Some (True, snd (mouse_read_data io m7)))"

definition mouse_init :: "'m ports \<Rightarrow> framebuffer \<Rightarrow> mouse \<times> 'm \<Rightarrow> (mouse \<times> 'm) option" where
  "mouse_init io fb mm =
     (let ms = (fst mm)\<lparr>ms_x := gf_width fb div 2, ms_y := gf_height fb div 2, ms_buttons := 0, ms_phase := 0,
                        ms_prev_valid := False, ms_enabled := False\<rparr>
      in map_option (\<lambda>(ok, m1). (if ok then ms\<lparr>ms_enabled := True\<rparr> else ms, m1)) (mouse_enable_device io (snd mm)))"

section \<open>The pointer leaves the picture alone\<close>

text \<open>A screen whose size is a signed number.\<close>

definition screen_ok :: "framebuffer \<Rightarrow> bool" where
  "screen_ok fb \<longleftrightarrow> fb_ok fb \<and> unat (gf_width fb) < 2 ^ 31 \<and> unat (gf_height fb) < 2 ^ 31"

lemma draws_screen_ok: "draws_on fb fb' \<Longrightarrow> screen_ok fb \<Longrightarrow> screen_ok fb'"
  by (simp add: screen_ok_def draws_onD)

lemma signed_range: "unat b < 2 ^ 31 \<Longrightarrow> 0 \<le>s a \<and> a <s b \<longleftrightarrow> (a :: s32) < b"
proof
  assume b: "unat b < 2 ^ 31"
  have sb: "sint b = uint b" using sint_small [OF b] by simp
  show "0 \<le>s a \<and> a <s b \<Longrightarrow> a < b"
  proof -
    assume "0 \<le>s a \<and> a <s b"
    then have s: "0 \<le> sint a" "sint a < uint b" using sb by (simp_all add: word_sless_alt word_sle_eq)
    have "uint b < 2 ^ 32" using uint_bounded [of b] by simp
    then have "take_bit 32 (sint a) = sint a" using s by (intro take_bit_int_eq_self) linarith+
    then have "uint a = sint a" using uint_sint [of a] by simp
    then show "a < b" using s(2) by (simp add: word_less_def)
  qed
  assume ab: "a < b"
  then have "unat a < 2 ^ 31" using b by (simp add: word_less_nat_alt)
  then have "sint a = uint a" using sint_small [of a] by simp
  then show "0 \<le>s a \<and> a <s b" using ab sb by (simp add: word_sless_alt word_sle_eq word_less_def)
qed

lemma on_screen_iff:
  assumes "screen_ok fb"
  shows "\<not> off_screen fb x y \<longleftrightarrow> on_picture fb x y"
  using assms signed_range [of "gf_width fb" x] signed_range [of "gf_height fb" y]
  by (auto simp: screen_ok_def off_screen_def word_sless_alt word_sle_eq not_less)

text \<open>A loop over cells of the pointer at (px, py) that sets each cell on the screen to a value.\<close>

definition set_cells :: "s32 \<Rightarrow> s32 \<Rightarrow> (nat \<Rightarrow> nat \<Rightarrow> u8) \<Rightarrow> (nat \<times> nat) list \<Rightarrow> framebuffer \<Rightarrow> framebuffer" where
  "set_cells px py v cs fb =
     foldl (\<lambda>fb (row, col). let x = px + of_nat col; y = py + of_nat row in
              if off_screen fb x y then fb else framebuffer_set_pixel x y (v row col) fb) fb cs"

lemma draws_set_cells [draws]: "draws_on a b \<Longrightarrow> draws_on a (set_cells px py v cs b)"
  unfolding set_cells_def by (intro draws_foldl) (auto simp: Let_def intro!: draws split: prod.split)

definition cell_at :: "s32 \<Rightarrow> s32 \<Rightarrow> u32 \<Rightarrow> u32 \<Rightarrow> nat \<times> nat" where
  "cell_at px py x y = (unat (y - py), unat (x - px))"

lemma offset_iff: "c < 5 \<Longrightarrow> (x :: u32) = px + of_nat c \<longleftrightarrow> unat (x - px) = c"
proof
  assume "c < 5"
  then have c: "unat (of_nat c :: u32) = c" by (simp add: unat_of_nat)
  show "x = px + of_nat c \<Longrightarrow> unat (x - px) = c" using c by simp
  have "of_nat (unat (x - px)) = x - px" by simp
  then show "unat (x - px) = c \<Longrightarrow> x = px + of_nat c" by (metis add.commute diff_add_cancel)
qed

lemma set_cells_drawn:
  assumes "screen_ok fb" "\<forall>(r, c) \<in> set cs. r < 5 \<and> c < 5" "on_picture fb x y"
  shows "drawn (set_cells px py v cs fb) x y
    = (if cell_at px py x y \<in> set cs then v (fst (cell_at px py x y)) (snd (cell_at px py x y)) else drawn fb x y)"
  using assms
proof (induction cs rule: rev_induct)
  case (snoc rc cs)
  obtain r c where rc: "rc = (r, c)" "r < 5" "c < 5" using snoc.prems(2) by (cases rc) auto
  let ?g = "set_cells px py v cs fb"
  have d: "draws_on fb ?g" by (simp add: draws)
  have g: "screen_ok ?g" "gf_width ?g = gf_width fb" "gf_height ?g = gf_height fb"
    using draws_screen_ok [OF d snoc.prems(1)] draws_onD [OF d] snoc.prems(1) by (simp_all add: screen_ok_def)
  have IH: "drawn ?g x y = (if cell_at px py x y \<in> set cs then v (fst (cell_at px py x y)) (snd (cell_at px py x y)) else drawn fb x y)"
    using snoc by auto
  let ?x = "px + of_nat c" and ?y = "py + of_nat r"
  have e: "set_cells px py v (cs @ [rc]) fb = (if off_screen ?g ?x ?y then ?g else framebuffer_set_pixel ?x ?y (v r c) ?g)"
    by (simp add: set_cells_def rc Let_def)
  have hit: "x = ?x \<and> y = ?y \<longleftrightarrow> cell_at px py x y = (r, c)"
    using offset_iff [OF rc(3), of x px] offset_iff [OF rc(2), of y py] by (auto simp: cell_at_def)
  show ?case
  proof (cases "off_screen ?g ?x ?y")
    case True
    then have "\<not> (x = ?x \<and> y = ?y)" using on_screen_iff [OF g(1), of ?x ?y] g(2,3) snoc.prems(3) by auto
    then show ?thesis using e True IH hit rc by auto
  next
    case False
    have "drawn (draw (Put ?x ?y (v r c)) ?g) x y = paint_op ?g (Put ?x ?y (v r c)) (drawn ?g) x y"
      using draw_refines [of ?g "Put ?x ?y (v r c)"] g snoc.prems(3) by (simp add: screen_ok_def)
    then have "drawn (framebuffer_set_pixel ?x ?y (v r c) ?g) x y = (if x = ?x \<and> y = ?y then v r c else drawn ?g x y)"
      by (simp add: paint_op_def framebuffer_set_pixel_def)
    then show ?thesis using e False IH unfolding hit rc(1) by auto
  qed
qed (simp add: set_cells_def)

lemma pointer_cells_set: "set pointer_cells = {..<5} \<times> {..<5}"
  by (auto simp: pointer_cells_def)

lemma pointer_cells_distinct: "distinct (map (\<lambda>(r, c). r * 5 + c) pointer_cells)"
  by (simp add: pointer_cells_def upt_rec)

lemma set_pointer_drawn:
  assumes "screen_ok fb" "on_picture fb x y"
  shows "drawn (set_cells px py v pointer_cells fb) x y
    = (if unat (y - py) < 5 \<and> unat (x - px) < 5 then v (unat (y - py)) (unat (x - px)) else drawn fb x y)"
  using set_cells_drawn [OF assms(1) _ assms(2), of pointer_cells px py v] by (simp add: pointer_cells_set cell_at_def)

lemma foldl_set_nth:
  assumes "distinct (map f xs)" "\<forall>x \<in> set xs. f x < length b" "x \<in> set xs"
  shows "foldl (\<lambda>b x. b[f x := v x]) b xs ! f x = v x"
proof -
  have "length (foldl (\<lambda>b x. b[f x := v x]) b ys) = length b" for ys by (induction ys rule: rev_induct) simp_all
  then show ?thesis using assms
    by (induction xs rule: rev_induct) (auto simp: nth_list_update)
qed

lemma restore_eq:
  "mouse_restore_pointer (ms, fb) =
     (ms\<lparr>ms_prev_valid := False\<rparr>,
      if ms_prev_valid ms then set_cells (ms_prev_x ms) (ms_prev_y ms) (\<lambda>r c. ms_prev_buffer ms ! (r * 5 + c)) pointer_cells fb else fb)"
  by (simp add: mouse_restore_pointer_def set_cells_def Let_def)

lemma draw_pointer_eq:
  assumes "mouse_restore_pointer (ms, fb) = (ms0, fb0)"
  shows "mouse_draw_pointer (ms, fb) =
     (if off_screen fb0 (ms_x ms0) (ms_y ms0) then (ms0, fb0)
      else case mouse_save_region (ms_x ms0) (ms_y ms0) (ms0, fb0) of (ms1, fb1) \<Rightarrow>
        (ms1\<lparr>ms_prev_x := ms_x ms1, ms_prev_y := ms_y ms1, ms_prev_valid := True\<rparr>,
         set_cells (ms_x ms1) (ms_y ms1) (\<lambda>r c. 0) pointer_cells fb1))"
  by (simp add: mouse_draw_pointer_def assms set_cells_def Let_def)

lemma save_region_nth:
  assumes "length (ms_prev_buffer ms) = 25" "r < 5" "c < 5"
  shows "ms_prev_buffer (fst (mouse_save_region px py (ms, fb))) ! (r * 5 + c)
    = (let x = px + of_nat c; y = py + of_nat r in if off_screen fb x y then 0 else framebuffer_get_pixel x y fb)"
proof -
  let ?v = "\<lambda>(r, c). let x = px + of_nat c; y = py + of_nat r in if off_screen fb x y then 0 else framebuffer_get_pixel x y fb"
  have in_range: "\<forall>rc \<in> set pointer_cells. (\<lambda>(r, c). r * 5 + c) rc < length (ms_prev_buffer ms)"
    using assms(1) by (auto simp: pointer_cells_set)
  have "(r, c) \<in> set pointer_cells" using assms by (simp add: pointer_cells_set)
  have e: "ms_prev_buffer (fst (mouse_save_region px py (ms, fb)))
      = foldl (\<lambda>b rc. b[(\<lambda>(r, c). r * 5 + c) rc := ?v rc]) (ms_prev_buffer ms) pointer_cells"
    unfolding mouse_save_region_def by (simp add: case_prod_beta' Let_def cong: if_cong)
  show ?thesis
    unfolding e using foldl_set_nth [OF pointer_cells_distinct in_range \<open>(r, c) \<in> set pointer_cells\<close>, of ?v] by simp
qed

lemma save_region_sel [simp]:
  "snd (mouse_save_region px py mf) = snd mf"
  "ms_x (fst (mouse_save_region px py mf)) = ms_x (fst mf)" "ms_y (fst (mouse_save_region px py mf)) = ms_y (fst mf)"
  "length (ms_prev_buffer (fst (mouse_save_region px py mf))) = length (ms_prev_buffer (fst mf))"
proof -
  have "length (foldl (\<lambda>b (r, c). b[f r c := v r c]) b cs) = length b" for f :: "nat \<Rightarrow> nat \<Rightarrow> nat" and v :: "nat \<Rightarrow> nat \<Rightarrow> u8" and b cs
    by (induction cs rule: rev_induct) (simp_all split: prod.split)
  then show "snd (mouse_save_region px py mf) = snd mf" "ms_x (fst (mouse_save_region px py mf)) = ms_x (fst mf)"
    "ms_y (fst (mouse_save_region px py mf)) = ms_y (fst mf)"
    "length (ms_prev_buffer (fst (mouse_save_region px py mf))) = length (ms_prev_buffer (fst mf))"
    by (simp_all add: mouse_save_region_def Let_def split: prod.split)
qed

text \<open>The picture without the pointer.\<close>

definition picture_under :: "mouse \<times> framebuffer \<Rightarrow> u32 \<Rightarrow> u32 \<Rightarrow> u8" where
  "picture_under mf = drawn (snd (mouse_restore_pointer mf))"

definition mouse_ok :: "mouse \<times> framebuffer \<Rightarrow> bool" where
  "mouse_ok mf \<longleftrightarrow> screen_ok (snd mf) \<and> length (ms_prev_buffer (fst mf)) = 25"

datatype pointer_op = Move s32 s32 | Show | Refresh | Hide

fun pointer_step :: "pointer_op \<Rightarrow> mouse \<times> framebuffer \<Rightarrow> mouse \<times> framebuffer" where
  "pointer_step (Move x y) mf = ((fst mf)\<lparr>ms_x := x, ms_y := y\<rparr>, snd mf)"
| "pointer_step Show mf = mouse_draw_pointer mf"
| "pointer_step Refresh mf = mouse_refresh_cursor mf"
| "pointer_step Hide mf = mouse_hide_cursor mf"

definition same_size :: "framebuffer \<Rightarrow> framebuffer \<Rightarrow> bool" where
  "same_size a b \<longleftrightarrow> gf_width a = gf_width b \<and> gf_height a = gf_height b"

lemma draws_same_size: "draws_on fb fb' \<Longrightarrow> screen_ok fb \<Longrightarrow> same_size fb fb'"
  using draws_onD by (simp add: same_size_def screen_ok_def)

lemma restore_keeps:
  assumes "mouse_ok mf"
  shows "mouse_ok (mouse_restore_pointer mf) \<and> draws_on (snd mf) (snd (mouse_restore_pointer mf))
    \<and> picture_under (mouse_restore_pointer mf) = picture_under mf \<and> \<not> ms_prev_valid (fst (mouse_restore_pointer mf))"
proof -
  obtain ms fb where mf: "mf = (ms, fb)" by (cases mf)
  have d: "draws_on fb (snd (mouse_restore_pointer mf))" unfolding mf restore_eq by (simp add: draws)
  have "mouse_restore_pointer (mouse_restore_pointer mf) = mouse_restore_pointer mf"
    unfolding mf restore_eq by simp
  then show ?thesis using d assms draws_screen_ok [OF d]
    by (simp add: mf mouse_ok_def picture_under_def) (simp add: restore_eq)
qed

lemma draw_keeps:
  assumes ok: "mouse_ok mf"
  shows "mouse_ok (mouse_draw_pointer mf) \<and> draws_on (snd mf) (snd (mouse_draw_pointer mf))
    \<and> (\<forall>x y. on_picture (snd mf) x y \<longrightarrow> picture_under (mouse_draw_pointer mf) x y = picture_under mf x y)"
proof -
  obtain ms fb where mf: "mf = (ms, fb)" by (cases mf)
  obtain ms0 fb0 where r: "mouse_restore_pointer (ms, fb) = (ms0, fb0)" by fastforce
  have R: "mouse_ok (ms0, fb0)" "draws_on fb fb0" "\<not> ms_prev_valid ms0"
    using restore_keeps [OF ok] by (simp_all add: mf r)
  have pu: "picture_under mf = drawn fb0" by (simp add: picture_under_def mf r)
  have ok0: "screen_ok fb0" "length (ms_prev_buffer ms0) = 25" using R(1) by (simp_all add: mouse_ok_def)
  have sz: "gf_width fb0 = gf_width fb" "gf_height fb0 = gf_height fb"
    using draws_onD [OF R(2)] ok by (simp_all add: mf mouse_ok_def screen_ok_def)
  show ?thesis
  proof (cases "off_screen fb0 (ms_x ms0) (ms_y ms0)")
    case True
    then have "mouse_draw_pointer mf = (ms0, fb0)" by (simp add: mf draw_pointer_eq [OF r])
    moreover have "picture_under (ms0, fb0) = drawn fb0" using R(3) by (simp add: picture_under_def restore_eq)
    ultimately show ?thesis using R pu by (simp add: mf)
  next
    case False
    let ?px = "ms_x ms0" and ?py = "ms_y ms0"
    let ?ms1 = "fst (mouse_save_region ?px ?py (ms0, fb0))"
    let ?fb2 = "set_cells ?px ?py (\<lambda>r c. 0) pointer_cells fb0"
    let ?ms2 = "?ms1\<lparr>ms_prev_x := ?px, ms_prev_y := ?py, ms_prev_valid := True\<rparr>"
    have e: "mouse_draw_pointer mf = (?ms2, ?fb2)"
      using False by (simp add: mf draw_pointer_eq [OF r] case_prod_beta)
    have d2: "draws_on fb0 ?fb2" by (simp add: draws)
    have ok2: "screen_ok ?fb2" using draws_screen_ok [OF d2 ok0(1)] .
    have "picture_under (?ms2, ?fb2) x y = drawn fb0 x y" if p: "on_picture fb0 x y" for x y
    proof -
      have p2: "on_picture ?fb2 x y" using p draws_onD [OF d2] ok0(1) by (simp add: screen_ok_def)
      have u: "picture_under (?ms2, ?fb2) x y
          = drawn (set_cells ?px ?py (\<lambda>r c. ms_prev_buffer ?ms1 ! (r * 5 + c)) pointer_cells ?fb2) x y"
        by (simp add: picture_under_def restore_eq)
      show ?thesis
      proof (cases "unat (y - ?py) < 5 \<and> unat (x - ?px) < 5")
        case True
        have "\<not> off_screen fb0 x y" using on_screen_iff [OF ok0(1)] p by simp
        then have "ms_prev_buffer ?ms1 ! (unat (y - ?py) * 5 + unat (x - ?px)) = framebuffer_get_pixel x y fb0"
          using save_region_nth [OF ok0(2), of "unat (y - ?py)" "unat (x - ?px)" ?px ?py fb0] True by (simp add: Let_def)
        moreover have "framebuffer_get_pixel x y fb0 = drawn fb0 x y" using p by (simp add: framebuffer_get_pixel_def drawn_def flip: not_less)
        ultimately show ?thesis using u set_pointer_drawn [OF ok2 p2] True by simp
      next
        case False
        then show ?thesis using u set_pointer_drawn [OF ok2 p2] set_pointer_drawn [OF ok0(1) p] by (simp add: if_not_P)
      qed
    qed
    then show ?thesis
      using e ok0 ok2 pu sz draws_trans [OF R(2) d2] by (simp add: mf mouse_ok_def)
  qed
qed

lemma hide_eq_restore: "mouse_hide_cursor mf = mouse_restore_pointer mf"
  by (cases mf) (simp add: mouse_hide_cursor_def restore_eq)

lemma pointer_step_keeps:
  assumes ok: "mouse_ok mf"
  shows "mouse_ok (pointer_step a mf) \<and> draws_on (snd mf) (snd (pointer_step a mf))
    \<and> (\<forall>x y. on_picture (snd mf) x y \<longrightarrow> picture_under (pointer_step a mf) x y = picture_under mf x y)"
proof (cases a)
  case (Move x y)
  then show ?thesis using ok by (cases mf) (simp add: mouse_ok_def picture_under_def restore_eq draws_refl)
next
  case Show
  then show ?thesis using draw_keeps [OF ok] by simp
next
  case Refresh
  note R = restore_keeps [OF ok]
  have sz: "same_size (snd mf) (snd (mouse_restore_pointer mf))" using R ok draws_same_size by (simp add: mouse_ok_def)
  show ?thesis
    using Refresh R draw_keeps [OF ok] draw_keeps [of "mouse_restore_pointer mf"] sz draws_trans
    by (auto simp: mouse_refresh_cursor_def same_size_def)
next
  case Hide
  then show ?thesis using restore_keeps [OF ok] by (simp add: hide_eq_restore)
qed

text \<open>C31: However the pointer is shown, moved, refreshed and hidden, also partly off the screen, the picture under it is kept: when
  it is hidden at the end, each pixel is what it was without the pointer at the start.\<close>

theorem mouse_pointer_transparent:
  assumes "mouse_ok mf" "on_picture (snd mf) x y"
  shows "drawn (snd (mouse_hide_cursor (fold pointer_step ops mf))) x y = drawn (snd (mouse_hide_cursor mf)) x y"
proof -
  have "mouse_ok (fold pointer_step ops mf) \<and> draws_on (snd mf) (snd (fold pointer_step ops mf))
      \<and> picture_under (fold pointer_step ops mf) x y = picture_under mf x y"
  proof (induction ops rule: rev_induct)
    case (snoc a ops)
    let ?g = "fold pointer_step ops mf"
    have "same_size (snd mf) (snd ?g)" using snoc assms draws_same_size by (simp add: mouse_ok_def)
    then show ?case using snoc pointer_step_keeps [of ?g a] assms(2) draws_trans by (auto simp: same_size_def)
  qed (use assms in \<open>simp add: draws_refl\<close>)
  then show ?thesis by (simp add: hide_eq_restore picture_under_def)
qed

definition demo_mouse :: mouse where
  "demo_mouse = \<lparr>ms_x = 0, ms_y = 0, ms_buttons = 0, ms_enabled = True, ms_prev_x = -1, ms_prev_y = -1,
     ms_prev_buffer = replicate 25 0, ms_prev_valid = False, ms_packet = [0, 0, 0], ms_phase = 0\<rparr>"

definition demo_picture :: framebuffer where
  "demo_picture = \<lparr>gf_fb = 0xA0000, gf_screen = [1, 2, 3, 4, 5, 6], gf_back = None, gf_width = 3, gf_height = 2, gf_pitch = 3,
     gf_dirty = None, gf_vsync = True\<rparr>"

theorem mouse_pointer_transparent_witness:
  "drawn (snd (mouse_hide_cursor (fold pointer_step [Move 2 1, Show, Move 0 0, Refresh, Move 9 9, Show] (demo_mouse, demo_picture)))) 2 1 = 6"
proof -
  let ?mf = "(demo_mouse, demo_picture)" and ?ops = "[Move 2 1, Show, Move 0 0, Refresh, Move 9 9, Show]"
  have t: "drawn (snd (mouse_hide_cursor (fold pointer_step ?ops ?mf))) 2 1 = drawn (snd (mouse_hide_cursor ?mf)) 2 1"
    by (rule mouse_pointer_transparent) (simp_all add: mouse_ok_def screen_ok_def fb_ok_def demo_mouse_def demo_picture_def)
  have "snd (mouse_hide_cursor ?mf) = demo_picture" by (simp add: hide_eq_restore restore_eq demo_mouse_def)
  moreover have "drawn demo_picture 2 1 = 6" by (simp add: drawn_def gf_dst_def pixel_index_def demo_picture_def)
  ultimately show ?thesis unfolding t by simp
qed

end
