(* ===== verification/Terminal.thy ===== *)
theory Terminal
  imports Vertex_Base
begin

text \<open>
  The text console of \<^verbatim>\<open>src/video/display.c\<close> in VGA text mode: one grid of characters with a
  cursor and dirty marks per terminal session, the assignment of tasks to sessions, printing with
  wrapping and scrolling, and the deferred refresh into the VGA text memory.  The window manager and
  the framebuffer rendering of graphics mode are not part of the model; in text mode the visible area is
  \<^verbatim>\<open>VGA_HEIGHT\<close> by \<^verbatim>\<open>VGA_WIDTH\<close>.  The calling task's id, which the C code asks the
  scheduler for, is the argument \<open>tid\<close>; what is written to the serial port is collected in
  \<open>serial_out\<close>.
\<close>

section \<open>State\<close>

abbreviation VGA_WIDTH :: nat where "VGA_WIDTH \<equiv> 80"
abbreviation VGA_HEIGHT :: nat where "VGA_HEIGHT \<equiv> 25"
abbreviation GFX_MAX_COLS :: nat where "GFX_MAX_COLS \<equiv> VGA_WIDTH"
abbreviation GFX_MAX_ROWS :: nat where "GFX_MAX_ROWS \<equiv> 75"
abbreviation TEXT_COLOR :: u16 where "TEXT_COLOR \<equiv> 0x0F"
abbreviation WIN_TERMINAL_SLOTS :: nat where "WIN_TERMINAL_SLOTS \<equiv> 16"
abbreviation SPACE :: u8 where "SPACE \<equiv> 32"

record terminal_state =
  cursor_row :: nat
  cursor_col :: nat
  text_cells :: "u8 list"
  text_cells_dirty :: "bool list"
  dirty_any :: bool
  dirty_min_row :: nat
  dirty_max_row :: nat
  dirty_min_col :: nat
  dirty_max_col :: nat

record display =
  g_terminal_states :: "terminal_state list"
  g_terminal_task_ids :: "u32 list"
  g_focused_terminal_session :: int
  terminal_force_full_redraw :: bool
  g_refresh_defer_depth :: u32
  g_refresh_pending :: bool
  serial_ready :: bool
  serial_out :: "u8 list"
  vga :: "u16 list"
  hw_cursor :: u16

section \<open>Sessions\<close>

definition display_terminal_session_for_task :: "display \<Rightarrow> u32 \<Rightarrow> int" where
  "display_terminal_session_for_task d tid =
     (case for_find (\<lambda>i. g_terminal_task_ids d ! i = tid) 0 WIN_TERMINAL_SLOTS of
        Some i \<Rightarrow> int i
      | None \<Rightarrow> -1)"

definition display_bind_terminal_task :: "display \<Rightarrow> nat \<Rightarrow> u32 \<Rightarrow> display" where
  "display_bind_terminal_task d session tid =
     (if session \<ge> WIN_TERMINAL_SLOTS then d
      else d\<lparr>g_terminal_task_ids := (g_terminal_task_ids d)[session := tid]\<rparr>)"

text \<open>The index of the state that \<^verbatim>\<open>terminal_state_for_task_io\<close> points to.\<close>

definition io_session :: "display \<Rightarrow> u32 \<Rightarrow> nat" where
  "io_session d tid =
     (case for_find (\<lambda>i. g_terminal_task_ids d ! i = tid) 0 WIN_TERMINAL_SLOTS of
        Some i \<Rightarrow> i
      | None \<Rightarrow>
          if 0 \<le> g_focused_terminal_session d \<and> g_focused_terminal_session d < int WIN_TERMINAL_SLOTS
          then nat (g_focused_terminal_session d) else 0)"

definition terminal_state_for_task_io :: "display \<Rightarrow> u32 \<Rightarrow> terminal_state" where
  "terminal_state_for_task_io d tid = g_terminal_states d ! io_session d tid"

definition on_io :: "display \<Rightarrow> u32 \<Rightarrow> (terminal_state \<Rightarrow> terminal_state) \<Rightarrow> display" where
  "on_io d tid f = d\<lparr>g_terminal_states := (g_terminal_states d)[io_session d tid := f (terminal_state_for_task_io d tid)]\<rparr>"

section \<open>Dirty marks\<close>

definition terminal_mark_dirty_cell :: "terminal_state \<Rightarrow> nat \<Rightarrow> nat \<Rightarrow> terminal_state" where
  "terminal_mark_dirty_cell ts row col =
     (if row \<ge> GFX_MAX_ROWS \<or> col \<ge> GFX_MAX_COLS then ts
      else if \<not> dirty_any ts then
        ts\<lparr>dirty_any := True, dirty_min_row := row, dirty_max_row := row, dirty_min_col := col, dirty_max_col := col\<rparr>
      else ts\<lparr>dirty_min_row := if row < dirty_min_row ts then row else dirty_min_row ts,
              dirty_max_row := if row > dirty_max_row ts then row else dirty_max_row ts,
              dirty_min_col := if col < dirty_min_col ts then col else dirty_min_col ts,
              dirty_max_col := if col > dirty_max_col ts then col else dirty_max_col ts\<rparr>)"

definition terminal_mark_dirty_visible :: "terminal_state \<Rightarrow> nat \<Rightarrow> nat \<Rightarrow> terminal_state" where
  "terminal_mark_dirty_visible ts rows cols =
     (if rows = 0 \<or> cols = 0 then ts
      else ts\<lparr>dirty_any := True, dirty_min_row := 0, dirty_min_col := 0,
              dirty_max_row := rows - 1, dirty_max_col := cols - 1\<rparr>)"

section \<open>Rendering into the VGA text memory\<close>

definition text_render_cell :: "terminal_state \<Rightarrow> u16 list \<Rightarrow> nat \<Rightarrow> nat \<Rightarrow> u16 list" where
  "text_render_cell ts mem row col =
     mem[row * VGA_WIDTH + col := ucast (text_cells ts ! (row * VGA_WIDTH + col)) OR push_bit 8 TEXT_COLOR]"

definition update_hw_cursor :: "terminal_state \<Rightarrow> u16" where
  "update_hw_cursor ts = of_nat (cursor_row ts * VGA_WIDTH + cursor_col ts)"

definition text_render_full :: "display \<Rightarrow> u32 \<Rightarrow> display" where
  "text_render_full d tid =
     (let ts = terminal_state_for_task_io d tid in
      d\<lparr>vga := foldl (\<lambda>mem row. foldl (\<lambda>mem col. text_render_cell ts mem row col) mem [0..<VGA_WIDTH]) (vga d) [0..<VGA_HEIGHT],
        hw_cursor := update_hw_cursor ts\<rparr>)"

definition clamp_cursor :: "terminal_state \<Rightarrow> terminal_state" where
  "clamp_cursor ts =
     (let ts1 = (if cursor_row ts \<ge> VGA_HEIGHT then ts\<lparr>cursor_row := VGA_HEIGHT - 1\<rparr> else ts)
      in if cursor_col ts1 \<ge> VGA_WIDTH then ts1\<lparr>cursor_col := VGA_WIDTH - 1\<rparr> else ts1)"

definition display_refresh :: "display \<Rightarrow> u32 \<Rightarrow> display" where
  "display_refresh d tid = text_render_full (on_io d tid clamp_cursor) tid"

definition display_begin_update :: "display \<Rightarrow> display" where
  "display_begin_update d = d\<lparr>g_refresh_defer_depth := g_refresh_defer_depth d + 1\<rparr>"

definition display_end_update :: "display \<Rightarrow> u32 \<Rightarrow> display" where
  "display_end_update d tid =
     (if g_refresh_defer_depth d = 0 then d
      else let d1 = d\<lparr>g_refresh_defer_depth := g_refresh_defer_depth d - 1\<rparr> in
        if g_refresh_defer_depth d1 = 0 \<and> g_refresh_pending d1
        then display_refresh (d1\<lparr>g_refresh_pending := False\<rparr>) tid else d1)"

definition display_request_refresh :: "display \<Rightarrow> u32 \<Rightarrow> display" where
  "display_request_refresh d tid =
     (if g_refresh_defer_depth d > 0 then d\<lparr>g_refresh_pending := True\<rparr> else display_refresh d tid)"

section \<open>Printing\<close>

definition clear_cells :: "terminal_state \<Rightarrow> terminal_state" where
  "clear_cells ts =
     terminal_mark_dirty_visible
       (ts\<lparr>text_cells := replicate (GFX_MAX_COLS * GFX_MAX_ROWS) SPACE,
           text_cells_dirty := replicate (GFX_MAX_COLS * GFX_MAX_ROWS) True,
           cursor_row := 0, cursor_col := 0\<rparr>) VGA_HEIGHT VGA_WIDTH"

definition display_clear :: "display \<Rightarrow> u32 \<Rightarrow> display" where
  "display_clear d tid = display_refresh ((on_io d tid clear_cells)\<lparr>terminal_force_full_redraw := True\<rparr>) tid"

definition copy_up :: "terminal_state \<Rightarrow> nat \<Rightarrow> nat \<Rightarrow> terminal_state" where
  "copy_up ts row col =
     (let dst = (row - 1) * VGA_WIDTH + col; src = row * VGA_WIDTH + col
      in ts\<lparr>text_cells := (text_cells ts)[dst := text_cells ts ! src],
            text_cells_dirty := (text_cells_dirty ts)[dst := True]\<rparr>)"

definition blank_last :: "terminal_state \<Rightarrow> nat \<Rightarrow> terminal_state" where
  "blank_last ts col =
     (let i = (VGA_HEIGHT - 1) * VGA_WIDTH + col
      in ts\<lparr>text_cells := (text_cells ts)[i := SPACE], text_cells_dirty := (text_cells_dirty ts)[i := True]\<rparr>)"

definition scroll_if_needed :: "terminal_state \<Rightarrow> bool \<times> terminal_state" where
  "scroll_if_needed ts =
     (if cursor_row ts < VGA_HEIGHT then (False, ts)
      else let ts1 = foldl (\<lambda>ts row. foldl (\<lambda>ts col. copy_up ts row col) ts [0..<VGA_WIDTH]) ts [1..<VGA_HEIGHT];
               ts2 = foldl blank_last ts1 [0..<VGA_WIDTH]
           in (True, terminal_mark_dirty_visible (ts2\<lparr>cursor_row := VGA_HEIGHT - 1\<rparr>) VGA_HEIGHT VGA_WIDTH))"

definition set_cell :: "terminal_state \<Rightarrow> nat \<Rightarrow> nat \<Rightarrow> u8 \<Rightarrow> terminal_state" where
  "set_cell ts row col c =
     (let idx = row * VGA_WIDTH + col
      in terminal_mark_dirty_cell
           (ts\<lparr>text_cells := (text_cells ts)[idx := c], text_cells_dirty := (text_cells_dirty ts)[idx := True]\<rparr>) row col)"

text \<open>What a character does to the grid; the flag says that it scrolled.\<close>

definition put_cell :: "terminal_state \<Rightarrow> u8 \<Rightarrow> bool \<times> terminal_state" where
  "put_cell ts c =
     (if c = 10 then scroll_if_needed (ts\<lparr>cursor_col := 0, cursor_row := cursor_row ts + 1\<rparr>)
      else if c = 8 then
        (False, if cursor_col ts > 0
                then set_cell (ts\<lparr>cursor_col := cursor_col ts - 1\<rparr>) (cursor_row ts) (cursor_col ts - 1) SPACE else ts)
      else let ts1 = set_cell ts (cursor_row ts) (cursor_col ts) c;
               ts2 = ts1\<lparr>cursor_col := cursor_col ts1 + 1\<rparr>
           in if cursor_col ts2 \<ge> VGA_WIDTH
              then scroll_if_needed (ts2\<lparr>cursor_col := 0, cursor_row := cursor_row ts2 + 1\<rparr>)
              else (False, ts2))"

definition display_put_char_internal :: "display \<Rightarrow> u32 \<Rightarrow> u8 \<Rightarrow> bool \<Rightarrow> display" where
  "display_put_char_internal d tid c do_refresh =
     (let d1 = (if serial_ready d then d\<lparr>serial_out := serial_out d @ [c]\<rparr> else d);
          r = put_cell (terminal_state_for_task_io d1 tid) c;
          d2 = on_io d1 tid (\<lambda>_. snd r);
          d3 = (if fst r then d2\<lparr>terminal_force_full_redraw := True\<rparr> else d2)
      in if do_refresh then display_request_refresh d3 tid else d3)"

definition display_put_char :: "display \<Rightarrow> u32 \<Rightarrow> u8 \<Rightarrow> display" where
  "display_put_char d tid c = display_put_char_internal d tid c True"

definition display_print :: "display \<Rightarrow> u32 \<Rightarrow> u8 list \<Rightarrow> display" where
  "display_print d tid s =
     (let d1 = foldl (\<lambda>d c. display_put_char_internal d tid c False) d (cstr s)
      in if cstr s \<noteq> [] then display_request_refresh d1 tid else d1)"

text \<open>The digits that \<^verbatim>\<open>display_print_num\<close> puts in front of its buffer pointer.\<close>

function digits_before :: "nat \<Rightarrow> nat \<Rightarrow> u8 list \<Rightarrow> u8 list" where
  "digits_before base num acc =
     (if num > 0 \<and> base > 1 then
        let digit = num mod base
        in digits_before base (num div base) ((if digit < 10 then of_nat (48 + digit) else of_nat (97 + (digit - 10))) # acc)
      else acc)"
  by pat_completeness auto
termination
  by (relation "measure (\<lambda>(base, num, acc). num)") (auto intro: div_less_dividend)

declare digits_before.simps [simp del]

definition display_print_num :: "display \<Rightarrow> u32 \<Rightarrow> u32 \<Rightarrow> nat \<Rightarrow> display" where
  "display_print_num d tid num base =
     (if num = 0 then display_put_char d tid 48 else display_print d tid (digits_before base (unat num) []))"

definition display_set_cursor :: "display \<Rightarrow> u32 \<Rightarrow> nat \<Rightarrow> nat \<Rightarrow> display" where
  "display_set_cursor d tid row col =
     display_request_refresh
       (on_io d tid (\<lambda>ts. ts\<lparr>cursor_row := if row \<ge> VGA_HEIGHT then VGA_HEIGHT - 1 else row,
                             cursor_col := if col \<ge> VGA_WIDTH then VGA_WIDTH - 1 else col\<rparr>)) tid"

definition display_get_cursor :: "display \<Rightarrow> u32 \<Rightarrow> nat \<times> nat" where
  "display_get_cursor d tid =
     (cursor_row (terminal_state_for_task_io d tid), cursor_col (terminal_state_for_task_io d tid))"

section \<open>The grid\<close>

text \<open>
  A console in order: the cursor is on the visible area and the arrays have their sizes.
  \<open>cell\<close> reads the grid.
\<close>

definition term_ok :: "terminal_state \<Rightarrow> bool" where
  "term_ok ts \<longleftrightarrow> cursor_row ts < VGA_HEIGHT \<and> cursor_col ts < VGA_WIDTH
     \<and> length (text_cells ts) = GFX_MAX_COLS * GFX_MAX_ROWS \<and> length (text_cells_dirty ts) = GFX_MAX_COLS * GFX_MAX_ROWS"

definition cell :: "terminal_state \<Rightarrow> nat \<Rightarrow> nat \<Rightarrow> u8" where
  "cell ts r c = text_cells ts ! (r * VGA_WIDTH + c)"

lemma cell_index: "r < 25 \<Longrightarrow> c < 80 \<Longrightarrow> r * 80 + c < (2000::nat)"
  by simp

lemma cell_index_eq:
  assumes "c < 80" "c' < 80"
  shows "r * 80 + c = r' * 80 + c' \<longleftrightarrow> r = r' \<and> c = (c' :: nat)"
proof -
  have "(r * 80 + c) div 80 = r" "(r' * 80 + c') div 80 = r'" using assms by simp_all
  then show ?thesis by (metis add_left_cancel)
qed

lemma copy_row_part:
  assumes "n \<le> 80" "a + 160 \<le> 6000" "length (text_cells ts) = 6000"
    and f: "\<And>ts i. text_cells (f ts i) = (text_cells ts)[a + i := text_cells ts ! (a + i + 80)]"
  shows "length (text_cells (foldl f ts [0..<n])) = 6000
    \<and> (\<forall>j < 6000. text_cells (foldl f ts [0..<n]) ! j = (if a \<le> j \<and> j < a + n then text_cells ts ! (j + 80) else text_cells ts ! j))"
  using assms(1)
proof (induction n)
  case (Suc n)
  let ?t = "foldl f ts [0..<n]"
  have l: "length (text_cells ?t) = 6000"
    and c: "\<And>j. j < 6000 \<Longrightarrow> text_cells ?t ! j = (if a \<le> j \<and> j < a + n then text_cells ts ! (j + 80) else text_cells ts ! j)"
    using Suc by simp_all
  have "text_cells (foldl f ts [0..<Suc n]) = (text_cells ?t)[a + n := text_cells ts ! (a + n + 80)]"
    using c [of "a + n + 80"] assms(2) Suc.prems by (simp add: f)
  then show ?case using l c assms(2) Suc.prems
    by (auto simp: nth_list_update less_Suc_eq)
qed (use assms in auto)

lemma copy_row:
  assumes "row < 24" "length (text_cells ts) = 6000"
  shows "length (text_cells (foldl (\<lambda>ts col. copy_up ts (Suc row) col) ts [0..<80])) = 6000
    \<and> (\<forall>j < 6000. text_cells (foldl (\<lambda>ts col. copy_up ts (Suc row) col) ts [0..<80]) ! j
       = (if row * 80 \<le> j \<and> j < row * 80 + 80 then text_cells ts ! (j + 80) else text_cells ts ! j))"
proof -
  have "text_cells (copy_up ts (Suc row) i) = (text_cells ts)[row * 80 + i := text_cells ts ! (row * 80 + i + 80)]" for ts i
    by (simp add: copy_up_def Let_def add.commute add.left_commute)
  then show ?thesis using copy_row_part [of 80 "row * 80" ts "\<lambda>ts col. copy_up ts (Suc row) col"] assms by simp
qed

lemma copy_rows:
  assumes "m \<le> 24" "length (text_cells ts) = 6000"
  shows "length (text_cells (foldl (\<lambda>ts row. foldl (\<lambda>ts col. copy_up ts row col) ts [0..<80]) ts [1..<Suc m])) = 6000
    \<and> (\<forall>j < 6000. text_cells (foldl (\<lambda>ts row. foldl (\<lambda>ts col. copy_up ts row col) ts [0..<80]) ts [1..<Suc m]) ! j
       = (if j < m * 80 then text_cells ts ! (j + 80) else text_cells ts ! j))"
  using assms(1)
proof (induction m)
  case (Suc m)
  let ?t = "foldl (\<lambda>ts row. foldl (\<lambda>ts col. copy_up ts row col) ts [0..<80]) ts [1..<Suc m]"
  have ih: "length (text_cells ?t) = 6000"
    "\<And>j. j < 6000 \<Longrightarrow> text_cells ?t ! j = (if j < m * 80 then text_cells ts ! (j + 80) else text_cells ts ! j)"
    using Suc by simp_all
  have e: "foldl (\<lambda>ts row. foldl (\<lambda>ts col. copy_up ts row col) ts [0..<80]) ts [1..<Suc (Suc m)]
      = foldl (\<lambda>ts col. copy_up ts (Suc m) col) ?t [0..<80]"
    by simp
  have m: "m < 24" using Suc.prems by simp
  show ?case
    unfolding e using copy_row [OF m ih(1)] ih(2) m by auto
qed (use assms in simp)

lemma blank_last_cells: "text_cells (blank_last ts col) = (text_cells ts)[1920 + col := SPACE]"
  by (simp add: blank_last_def Let_def)

lemma blank_part:
  assumes "n \<le> 80" "length (text_cells ts) = 6000"
  shows "length (text_cells (foldl blank_last ts [0..<n])) = 6000
    \<and> (\<forall>j < 6000. text_cells (foldl blank_last ts [0..<n]) ! j
        = (if 1920 \<le> j \<and> j < 1920 + n then SPACE else text_cells ts ! j))"
  using assms(1)
proof (induction n)
  case (Suc n)
  then show ?case
    by (auto simp: blank_last_cells nth_list_update less_Suc_eq)
qed (use assms in auto)

definition scroll_up :: "u8 list \<Rightarrow> u8 list" where
  "scroll_up cs = drop 80 (take 2000 cs) @ replicate 80 SPACE @ drop 2000 cs"

lemma scroll_cells:
  assumes "length (text_cells ts) = 6000"
  shows "text_cells (foldl blank_last (foldl (\<lambda>ts row. foldl (\<lambda>ts col. copy_up ts row col) ts [0..<80]) ts [1..<25]) [0..<80])
    = scroll_up (text_cells ts)"
proof -
  have e: "[1..<25] = [1..<Suc 24]" by simp
  show ?thesis
    unfolding e using copy_rows [of 24 ts] blank_part [of 80 "foldl (\<lambda>ts row. foldl (\<lambda>ts col. copy_up ts row col) ts [0..<80]) ts [1..<Suc 24]"] assms
    by (intro nth_equalityI) (auto simp: scroll_up_def nth_append add.commute)
qed

lemma copy_row_other:
  "length (text_cells_dirty (foldl (\<lambda>ts col. copy_up ts row col) ts cols)) = length (text_cells_dirty ts)"
  "cursor_col (foldl (\<lambda>ts col. copy_up ts row col) ts cols) = cursor_col ts"
  by (induction cols arbitrary: ts) (simp_all add: copy_up_def Let_def)

lemma copy_rows_other:
  "length (text_cells_dirty (foldl (\<lambda>ts row. foldl (\<lambda>ts col. copy_up ts row col) ts cols) ts rows)) = length (text_cells_dirty ts)"
  "cursor_col (foldl (\<lambda>ts row. foldl (\<lambda>ts col. copy_up ts row col) ts cols) ts rows) = cursor_col ts"
  by (induction rows arbitrary: ts) (simp_all add: copy_row_other)

lemma blank_other:
  "length (text_cells_dirty (foldl blank_last ts cols)) = length (text_cells_dirty ts)"
  "cursor_col (foldl blank_last ts cols) = cursor_col ts"
  by (induction cols arbitrary: ts) (simp_all add: blank_last_def Let_def)

lemma mark_sel [simp]:
  "text_cells (terminal_mark_dirty_cell ts r c) = text_cells ts"
  "text_cells_dirty (terminal_mark_dirty_cell ts r c) = text_cells_dirty ts"
  "cursor_row (terminal_mark_dirty_cell ts r c) = cursor_row ts"
  "cursor_col (terminal_mark_dirty_cell ts r c) = cursor_col ts"
  "text_cells (terminal_mark_dirty_visible ts rs cs) = text_cells ts"
  "text_cells_dirty (terminal_mark_dirty_visible ts rs cs) = text_cells_dirty ts"
  "cursor_row (terminal_mark_dirty_visible ts rs cs) = cursor_row ts"
  "cursor_col (terminal_mark_dirty_visible ts rs cs) = cursor_col ts"
  by (simp_all add: terminal_mark_dirty_cell_def terminal_mark_dirty_visible_def)

lemma set_cell_sel [simp]:
  "text_cells (set_cell ts r c x) = (text_cells ts)[r * 80 + c := x]"
  "length (text_cells_dirty (set_cell ts r c x)) = length (text_cells_dirty ts)"
  "cursor_row (set_cell ts r c x) = cursor_row ts"
  "cursor_col (set_cell ts r c x) = cursor_col ts"
  by (simp_all add: set_cell_def Let_def)

lemma scroll_sel:
  assumes "length (text_cells ts) = 6000"
  shows "fst (scroll_if_needed ts) = (25 \<le> cursor_row ts)"
    "text_cells (snd (scroll_if_needed ts)) = (if 25 \<le> cursor_row ts then scroll_up (text_cells ts) else text_cells ts)"
    "cursor_row (snd (scroll_if_needed ts)) = min 24 (cursor_row ts)"
    "cursor_col (snd (scroll_if_needed ts)) = cursor_col ts"
    "length (text_cells_dirty (snd (scroll_if_needed ts))) = length (text_cells_dirty ts)"
  using assms scroll_cells [OF assms, unfolded One_nat_def]
  by (auto simp: scroll_if_needed_def Let_def copy_rows_other blank_other)

lemma length_scroll_up [simp]: "length cs = 6000 \<Longrightarrow> length (scroll_up cs) = 6000"
  by (simp add: scroll_up_def)

lemma put_cell_plain:
  assumes "term_ok ts" "c \<noteq> 10" "c \<noteq> 8"
  defines "i \<equiv> cursor_row ts * 80 + cursor_col ts"
  shows "text_cells (snd (put_cell ts c)) =
      (if cursor_col ts = 79 \<and> cursor_row ts = 24 then scroll_up ((text_cells ts)[i := c]) else (text_cells ts)[i := c])"
    "cursor_row (snd (put_cell ts c)) = (if cursor_col ts = 79 then min 24 (cursor_row ts + 1) else cursor_row ts)"
    "cursor_col (snd (put_cell ts c)) = (if cursor_col ts = 79 then 0 else cursor_col ts + 1)"
  using assms by (auto simp: put_cell_def Let_def term_ok_def scroll_sel i_def)

lemma put_cell_newline:
  assumes "term_ok ts"
  shows "text_cells (snd (put_cell ts 10)) = (if cursor_row ts = 24 then scroll_up (text_cells ts) else text_cells ts)"
    "cursor_row (snd (put_cell ts 10)) = min 24 (cursor_row ts + 1)" "cursor_col (snd (put_cell ts 10)) = 0"
  using assms by (auto simp: put_cell_def term_ok_def scroll_sel)

lemma put_cell_back:
  "text_cells (snd (put_cell ts 8)) =
    (if cursor_col ts > 0 then (text_cells ts)[cursor_row ts * 80 + (cursor_col ts - 1) := SPACE] else text_cells ts)"
  "cursor_row (snd (put_cell ts 8)) = cursor_row ts" "cursor_col (snd (put_cell ts 8)) = cursor_col ts - 1"
  by (simp_all add: put_cell_def)

lemma put_cell_dirty: "length (text_cells ts) = 6000 \<Longrightarrow> length (text_cells_dirty (snd (put_cell ts c))) = length (text_cells_dirty ts)"
  by (auto simp: put_cell_def Let_def scroll_sel)

lemma put_cell_ok: "term_ok ts \<Longrightarrow> term_ok (snd (put_cell ts c))"
proof -
  assume ok: "term_ok ts"
  consider "c = 10" | "c = 8" | "c \<noteq> 10" "c \<noteq> 8" by blast
  then show ?thesis
  proof cases
    case 1
    then show ?thesis using ok put_cell_newline [OF ok] put_cell_dirty [of ts c] by (simp add: term_ok_def)
  next
    case 2
    then show ?thesis using ok put_cell_back [of ts] put_cell_dirty [of ts c] by (auto simp: term_ok_def)
  next
    case 3
    then show ?thesis using ok put_cell_plain [OF ok 3] put_cell_dirty [of ts c] by (auto simp: term_ok_def)
  qed
qed

lemma cell_scroll_up:
  assumes "length (text_cells ts) = 6000" "r < 25" "c < 80"
  shows "scroll_up (text_cells ts) ! (r * 80 + c) = (if r < 24 then cell ts (r + 1) c else SPACE)"
  using assms by (auto simp: scroll_up_def nth_append cell_def add.commute add.left_commute)

section \<open>The display around the grid\<close>

definition disp_ok :: "display \<Rightarrow> bool" where
  "disp_ok d \<longleftrightarrow> length (g_terminal_states d) = WIN_TERMINAL_SLOTS \<and> length (g_terminal_task_ids d) = WIN_TERMINAL_SLOTS
     \<and> (\<forall>ts \<in> set (g_terminal_states d). term_ok ts) \<and> length (vga d) = VGA_HEIGHT * VGA_WIDTH"

text \<open>Everything outside of the grid of the calling task that decides where it prints.\<close>

definition same_sessions :: "display \<Rightarrow> display \<Rightarrow> bool" where
  "same_sessions d d' \<longleftrightarrow> g_terminal_task_ids d' = g_terminal_task_ids d
     \<and> g_focused_terminal_session d' = g_focused_terminal_session d"

abbreviation io :: "display \<Rightarrow> u32 \<Rightarrow> terminal_state" where
  "io d tid \<equiv> terminal_state_for_task_io d tid"

lemma io_session_less: "io_session d tid < 16"
  by (auto simp: io_session_def split: option.splits dest: for_find_SomeD)

lemma same_sessions_io: "same_sessions d d' \<Longrightarrow> io_session d' tid = io_session d tid"
  by (auto simp: same_sessions_def io_session_def split: option.splits)

lemma same_sessions_refl [simp]: "same_sessions d d"
  by (simp add: same_sessions_def)

lemma same_sessions_trans: "same_sessions d d' \<Longrightarrow> same_sessions d' d'' \<Longrightarrow> same_sessions d d''"
  by (simp add: same_sessions_def)

lemma same_sessions_task: "same_sessions d d' \<Longrightarrow> display_terminal_session_for_task d' tid = display_terminal_session_for_task d tid"
  by (simp add: same_sessions_def display_terminal_session_for_task_def)

lemma io_ok: "disp_ok d \<Longrightarrow> term_ok (io d tid)"
  using io_session_less [of d tid] by (simp add: disp_ok_def terminal_state_for_task_io_def)

lemma on_io_props:
  assumes "disp_ok d"
  shows "same_sessions d (on_io d tid f)" "io (on_io d tid f) tid = f (io d tid)"
    "term_ok (f (io d tid)) \<Longrightarrow> disp_ok (on_io d tid f)"
    "io_session d t \<noteq> io_session d tid \<Longrightarrow> io (on_io d tid f) t = io d t"
proof -
  show s: "same_sessions d (on_io d tid f)" by (simp add: same_sessions_def on_io_def)
  show "io (on_io d tid f) tid = f (io d tid)"
    using assms io_session_less [of d tid] same_sessions_io [OF s, of tid]
    by (simp add: terminal_state_for_task_io_def disp_ok_def) (simp add: on_io_def terminal_state_for_task_io_def)
  show "term_ok (f (io d tid)) \<Longrightarrow> disp_ok (on_io d tid f)"
    using assms by (auto simp: disp_ok_def on_io_def dest!: set_update_subset_insert [THEN subsetD])
  show "io_session d t \<noteq> io_session d tid \<Longrightarrow> io (on_io d tid f) t = io d t"
    using same_sessions_io [OF s, of t] by (simp add: terminal_state_for_task_io_def) (simp add: on_io_def)
qed

lemma clamp_ok [simp]: "term_ok ts \<Longrightarrow> clamp_cursor ts = ts"
  by (simp add: clamp_cursor_def term_ok_def)

text \<open>The text memory shows the grid of a terminal.\<close>

definition attr :: "u8 \<Rightarrow> u16" where
  "attr c = ucast c OR push_bit 8 TEXT_COLOR"

definition on_screen :: "display \<Rightarrow> terminal_state \<Rightarrow> bool" where
  "on_screen d ts \<longleftrightarrow> (\<forall>r < 25. \<forall>c < 80. vga d ! (r * 80 + c) = attr (cell ts r c))
     \<and> hw_cursor d = of_nat (cursor_row ts * 80 + cursor_col ts)"

lemma render_row:
  "length (foldl (\<lambda>mem col. text_render_cell ts mem row col) mem [0..<n]) = length mem
   \<and> (n \<le> 80 \<longrightarrow> row * 80 + 80 \<le> length mem \<longrightarrow> (\<forall>j < length mem. foldl (\<lambda>mem col. text_render_cell ts mem row col) mem [0..<n] ! j
       = (if row * 80 \<le> j \<and> j < row * 80 + n then attr (text_cells ts ! j) else mem ! j)))"
  by (induction n) (auto simp: text_render_cell_def nth_list_update attr_def less_Suc_eq)

lemma render_rows:
  assumes "length mem = 2000"
  shows "length (foldl (\<lambda>mem row. foldl (\<lambda>mem col. text_render_cell ts mem row col) mem [0..<80]) mem [0..<m]) = 2000
   \<and> (m \<le> 25 \<longrightarrow> (\<forall>j < 2000. foldl (\<lambda>mem row. foldl (\<lambda>mem col. text_render_cell ts mem row col) mem [0..<80]) mem [0..<m] ! j
       = (if j < m * 80 then attr (text_cells ts ! j) else mem ! j)))"
proof (induction m)
  case (Suc m)
  let ?t = "foldl (\<lambda>mem row. foldl (\<lambda>mem col. text_render_cell ts mem row col) mem [0..<80]) mem [0..<m]"
  have e: "foldl (\<lambda>mem row. foldl (\<lambda>mem col. text_render_cell ts mem row col) mem [0..<80]) mem [0..<Suc m]
      = foldl (\<lambda>mem col. text_render_cell ts mem m col) ?t [0..<80]"
    by simp
  show ?case unfolding e using render_row [of ts m ?t 80] Suc by auto
qed (use assms in auto)

lemma refresh_props:
  assumes "disp_ok d"
  shows "disp_ok (display_refresh d tid)" "same_sessions d (display_refresh d tid)"
    "io (display_refresh d tid) t = io d t" "on_screen (display_refresh d tid) (io d tid)"
    "g_refresh_defer_depth (display_refresh d tid) = g_refresh_defer_depth d"
proof -
  let ?d = "on_io d tid clamp_cursor"
  note p = on_io_props [OF assms, where tid = tid and f = clamp_cursor]
  have k: "disp_ok ?d" using p(3) io_ok [OF assms] by simp
  have i: "io ?d t = io d t" for t
    using assms io_ok [OF assms, of tid] io_session_less [of d tid]
    by (cases "io_session d t = io_session d tid") (auto simp: terminal_state_for_task_io_def same_sessions_io [OF p(1)] on_io_def disp_ok_def)
  let ?v = "foldl (\<lambda>mem row. foldl (\<lambda>mem col. text_render_cell (io ?d tid) mem row col) mem [0..<80]) (vga ?d) [0..<25]"
  have v: "length ?v = 2000" "\<And>j. j < 2000 \<Longrightarrow> ?v ! j = attr (text_cells (io d tid) ! j)"
    using render_rows [of "vga ?d" "io ?d tid" 25] k by (auto simp: disp_ok_def i)
  have r: "display_refresh d tid = ?d\<lparr>vga := ?v, hw_cursor := update_hw_cursor (io ?d tid)\<rparr>"
    by (simp add: display_refresh_def text_render_full_def Let_def)
  show "disp_ok (display_refresh d tid)" using k v(1) by (simp add: r disp_ok_def)
  show s: "same_sessions d (display_refresh d tid)" using p(1) by (simp add: r same_sessions_def)
  show "io (display_refresh d tid) t = io d t" using i [of t]
    by (simp add: terminal_state_for_task_io_def same_sessions_io [OF s] same_sessions_io [OF p(1)]) (simp add: r)
  show "on_screen (display_refresh d tid) (io d tid)"
    using v(2) by (auto simp: on_screen_def r cell_def update_hw_cursor_def i)
  show "g_refresh_defer_depth (display_refresh d tid) = g_refresh_defer_depth d" by (simp add: r on_io_def)
qed

lemma set_pending: "disp_ok d \<Longrightarrow> disp_ok (d\<lparr>g_refresh_pending := b\<rparr>) \<and> io (d\<lparr>g_refresh_pending := b\<rparr>) t = io d t
    \<and> same_sessions d (d\<lparr>g_refresh_pending := b\<rparr>)"
  by (auto simp: disp_ok_def terminal_state_for_task_io_def io_session_def same_sessions_def split: option.splits)

lemma request_props:
  assumes "disp_ok d"
  shows "disp_ok (display_request_refresh d tid)" "same_sessions d (display_request_refresh d tid)"
    "io (display_request_refresh d tid) t = io d t"
    "g_refresh_defer_depth d = 0 \<Longrightarrow> on_screen (display_request_refresh d tid) (io d tid)"
    "g_refresh_defer_depth (display_request_refresh d tid) = g_refresh_defer_depth d"
  using set_pending [OF assms, of True t] refresh_props [OF assms, where tid = tid]
  by (simp_all add: display_request_refresh_def)

lemma set_force: "disp_ok d \<Longrightarrow> disp_ok (d\<lparr>terminal_force_full_redraw := b\<rparr>) \<and> io (d\<lparr>terminal_force_full_redraw := b\<rparr>) t = io d t
    \<and> same_sessions d (d\<lparr>terminal_force_full_redraw := b\<rparr>)"
  by (auto simp: disp_ok_def terminal_state_for_task_io_def io_session_def same_sessions_def split: option.splits)

lemma set_serial: "disp_ok d \<Longrightarrow> disp_ok (d\<lparr>serial_out := b\<rparr>) \<and> io (d\<lparr>serial_out := b\<rparr>) t = io d t
    \<and> same_sessions d (d\<lparr>serial_out := b\<rparr>)"
  by (auto simp: disp_ok_def terminal_state_for_task_io_def io_session_def same_sessions_def split: option.splits)

lemma put_char_internal_props:
  assumes "disp_ok d"
  shows "disp_ok (display_put_char_internal d tid c b)" "same_sessions d (display_put_char_internal d tid c b)"
    "io (display_put_char_internal d tid c b) tid = snd (put_cell (io d tid) c)"
    "io_session d t \<noteq> io_session d tid \<Longrightarrow> io (display_put_char_internal d tid c b) t = io d t"
    "g_refresh_defer_depth (display_put_char_internal d tid c b) = g_refresh_defer_depth d"
    "b \<Longrightarrow> g_refresh_defer_depth d = 0 \<Longrightarrow> on_screen (display_put_char_internal d tid c b) (snd (put_cell (io d tid) c))"
proof -
  let ?d1 = "if serial_ready d then d\<lparr>serial_out := serial_out d @ [c]\<rparr> else d"
  let ?r = "put_cell (io ?d1 tid) c"
  let ?d2 = "on_io ?d1 tid (\<lambda>_. snd ?r)"
  let ?d3 = "if fst ?r then ?d2\<lparr>terminal_force_full_redraw := True\<rparr> else ?d2"
  have d1: "disp_ok ?d1" "same_sessions d ?d1" "io ?d1 t = io d t" for t
    using assms set_serial [OF assms] by auto
  have d2: "disp_ok ?d2" "same_sessions ?d1 ?d2" "io ?d2 tid = snd (put_cell (io d tid) c)"
    "io_session d t \<noteq> io_session d tid \<Longrightarrow> io ?d2 t = io d t" for t
    using on_io_props(1-3) [OF d1(1), where tid = tid and f = "\<lambda>_. snd ?r"] put_cell_ok [OF io_ok [OF assms, of tid], of c] d1
      on_io_props(4) [OF d1(1), of t tid "\<lambda>_. snd ?r"]
    by (simp_all add: d1(3) same_sessions_io [OF d1(2)])
  note f = set_force [OF d2(1), of True]
  have d3: "disp_ok ?d3" "same_sessions ?d2 ?d3" "io ?d3 t = io ?d2 t" "g_refresh_defer_depth ?d3 = g_refresh_defer_depth ?d2" for t
    using d2(1) f by (cases "fst ?r"; simp)+
  have d3': "same_sessions d ?d3"
    by (rule same_sessions_trans [OF d1(2) same_sessions_trans [OF d2(2) d3(2)]])
  have d4: "g_refresh_defer_depth ?d2 = g_refresh_defer_depth d" by (simp add: on_io_def)
  obtain D where D: "D = ?d3" by simp
  have e: "display_put_char_internal d tid c b = (if b then display_request_refresh D tid else D)"
    unfolding display_put_char_internal_def Let_def D by (rule refl)
  have o: "disp_ok D" "same_sessions d D" "io D tid = snd (put_cell (io d tid) c)" "g_refresh_defer_depth D = g_refresh_defer_depth d"
    "io_session d t \<noteq> io_session d tid \<Longrightarrow> io D t = io d t" for t
    unfolding D using d3(1) d3' d3(3) d2(3) d3(4) d4 d2(4) by simp_all
  note q = request_props [OF o(1), where tid = tid]
  show "disp_ok (display_put_char_internal d tid c b)" using o(1) q(1) by (simp add: e)
  show "same_sessions d (display_put_char_internal d tid c b)" using o(2) same_sessions_trans [OF o(2) q(2)] by (simp add: e)
  show "io (display_put_char_internal d tid c b) tid = snd (put_cell (io d tid) c)" using o(3) q(3) by (simp add: e)
  show "io_session d t \<noteq> io_session d tid \<Longrightarrow> io (display_put_char_internal d tid c b) t = io d t" using o(5) q(3) by (simp add: e)
  show "g_refresh_defer_depth (display_put_char_internal d tid c b) = g_refresh_defer_depth d" using o(4) q(5) by (simp add: e)
  show "b \<Longrightarrow> g_refresh_defer_depth d = 0 \<Longrightarrow> on_screen (display_put_char_internal d tid c b) (snd (put_cell (io d tid) c))"
    unfolding e using o(3,4) q(4) by simp
qed

lemma put_char_props:
  assumes "disp_ok d"
  shows "disp_ok (display_put_char d tid c)" "same_sessions d (display_put_char d tid c)"
    "io (display_put_char d tid c) tid = snd (put_cell (io d tid) c)"
  using put_char_internal_props [OF assms] by (simp_all add: display_put_char_def)

lemma set_cursor_props:
  assumes "disp_ok d"
  shows "disp_ok (display_set_cursor d tid r c)" "same_sessions d (display_set_cursor d tid r c)"
    "io (display_set_cursor d tid r c) tid = (io d tid)\<lparr>cursor_row := min 24 r, cursor_col := min 79 c\<rparr>"
proof -
  let ?f = "\<lambda>ts. ts\<lparr>cursor_row := if r \<ge> VGA_HEIGHT then VGA_HEIGHT - 1 else r,
                    cursor_col := if c \<ge> VGA_WIDTH then VGA_WIDTH - 1 else c\<rparr>"
  have f: "?f (io d tid) = (io d tid)\<lparr>cursor_row := min 24 r, cursor_col := min 79 c\<rparr>"
    by (simp add: min_def)
  have "term_ok (?f (io d tid))" using io_ok [OF assms, of tid] by (simp add: term_ok_def)
  note o = on_io_props(1,2) [OF assms, of tid ?f] on_io_props(3) [OF assms, of ?f tid, OF this]
  note q = request_props [OF o(3), where tid = tid]
  have e: "display_set_cursor d tid r c = display_request_refresh (on_io d tid ?f) tid"
    by (simp add: display_set_cursor_def)
  show "disp_ok (display_set_cursor d tid r c)" unfolding e by (rule q(1))
  show "same_sessions d (display_set_cursor d tid r c)" unfolding e using o(1) q(2) by (rule same_sessions_trans)
  show "io (display_set_cursor d tid r c) tid = (io d tid)\<lparr>cursor_row := min 24 r, cursor_col := min 79 c\<rparr>"
    unfolding e q(3) o(2) f ..
qed

lemma clear_props:
  assumes "disp_ok d"
  shows "disp_ok (display_clear d tid)" "same_sessions d (display_clear d tid)" "io (display_clear d tid) tid = clear_cells (io d tid)"
    "g_refresh_defer_depth (display_clear d tid) = g_refresh_defer_depth d"
proof -
  have "term_ok (clear_cells (io d tid))" by (simp add: term_ok_def clear_cells_def)
  note o = on_io_props(1,2) [OF assms, of tid clear_cells] on_io_props(3) [OF assms, of clear_cells tid, OF this]
  note s = set_force [OF o(3), of True]
  note q = refresh_props [OF conjunct1 [OF s], where tid = tid]
  have e: "display_clear d tid = display_refresh ((on_io d tid clear_cells)\<lparr>terminal_force_full_redraw := True\<rparr>) tid"
    by (simp add: display_clear_def)
  show "disp_ok (display_clear d tid)" unfolding e by (rule q(1))
  show "same_sessions d (display_clear d tid)" unfolding e using o(1) s q(2) same_sessions_trans by blast
  show "io (display_clear d tid) tid = clear_cells (io d tid)" unfolding e q(3) using s o(2) by simp
  show "g_refresh_defer_depth (display_clear d tid) = g_refresh_defer_depth d" unfolding e q(5) by (simp add: on_io_def)
qed

lemma print_props:
  assumes "disp_ok d"
  shows "disp_ok (display_print d tid s)" "same_sessions d (display_print d tid s)"
    "io (display_print d tid s) tid = foldl (\<lambda>ts c. snd (put_cell ts c)) (io d tid) (cstr s)"
    "io_session d t \<noteq> io_session d tid \<Longrightarrow> io (display_print d tid s) t = io d t"
    "g_refresh_defer_depth d = 0 \<Longrightarrow> cstr s \<noteq> [] \<Longrightarrow> on_screen (display_print d tid s) (io (display_print d tid s) tid)"
proof -
  let ?f = "\<lambda>d s. foldl (\<lambda>d c. display_put_char_internal d tid c False) d s"
  have F: "disp_ok (?f d s) \<and> same_sessions d (?f d s) \<and> io (?f d s) tid = foldl (\<lambda>ts c. snd (put_cell ts c)) (io d tid) s
      \<and> (io_session d t \<noteq> io_session d tid \<longrightarrow> io (?f d s) t = io d t)
      \<and> g_refresh_defer_depth (?f d s) = g_refresh_defer_depth d" for s t
    using assms
  proof (induction s arbitrary: d)
    case (Cons c s)
    note p = put_char_internal_props [OF Cons.prems, where tid = tid and c = c and b = False]
    show ?case using Cons.IH [OF p(1)] p same_sessions_io [OF p(2)] by (auto intro: same_sessions_trans)
  qed simp
  note q = request_props [where d = "?f d (cstr s)" and tid = tid]
  show "disp_ok (display_print d tid s)" "same_sessions d (display_print d tid s)"
    "io (display_print d tid s) tid = foldl (\<lambda>ts c. snd (put_cell ts c)) (io d tid) (cstr s)"
    "io_session d t \<noteq> io_session d tid \<Longrightarrow> io (display_print d tid s) t = io d t"
    "g_refresh_defer_depth d = 0 \<Longrightarrow> cstr s \<noteq> [] \<Longrightarrow> on_screen (display_print d tid s) (io (display_print d tid s) tid)"
    using F [of "cstr s"] F [of "cstr s" t] q
    by (auto simp: display_print_def Let_def intro: same_sessions_trans)
qed

end
