(* ===== verification/Scheduler.thy ===== *)
theory Scheduler
  imports Vertex_Base
begin

text \<open>
  The task scheduler (\<^verbatim>\<open>src/task/scheduler.c\<close>), the context switch of
  \<^verbatim>\<open>boot/interrupts.asm\<close> that it calls, and the system call dispatcher
  (\<^verbatim>\<open>src/task/syscall.c\<close>).

  The machine is the part the context switch touches: the callee-saved registers, stack
  pointer and instruction pointer, and a memory of 32-bit words at word addresses.  Function
  pointers, task arguments and stack pointers are addresses; \<open>0\<close> is the null pointer.  An
  access to \<^verbatim>\<open>tasks[-1]\<close> and a panic are \<open>None\<close>.
\<close>

section \<open>State\<close>

abbreviation MAX_TASKS :: nat where "MAX_TASKS \<equiv> 64"
abbreviation TASK_STACK_SIZE :: u32 where "TASK_STACK_SIZE \<equiv> 4096"

datatype task_state = TASK_UNUSED | TASK_READY | TASK_RUNNING | TASK_BLOCKED | TASK_TERMINATED
datatype task_mode = TASK_MODE_KERNEL | TASK_MODE_USER

record task =
  t_id :: u32
  stack_top :: u32
  stack_base :: u32
  t_state :: task_state
  t_mode :: task_mode
  t_entry :: u32
  t_arg :: u32
  t_name :: "u8 list"

record cpu =
  eip :: u32
  esp :: u32
  ebp :: u32
  ebx :: u32
  esi :: u32
  edi :: u32

record sched =
  tasks :: "task list"
  task_count :: nat
  current_index :: int
  preempt_pending :: bool
  tick_quantum_counter :: u32
  cpu :: cpu
  mem :: "u32 \<Rightarrow> u32"

definition tsk :: "sched \<Rightarrow> nat \<Rightarrow> task" where
  "tsk st i = tasks st ! i"

definition set_state :: "sched \<Rightarrow> nat \<Rightarrow> task_state \<Rightarrow> sched" where
  "set_state st i s = st\<lparr>tasks := (tasks st)[i := (tsk st i)\<lparr>t_state := s\<rparr>]\<rparr>"

section \<open>Choosing a task\<close>

definition runnable :: "task \<Rightarrow> bool" where
  "runnable t \<longleftrightarrow> t_state t = TASK_READY \<or> t_state t = TASK_RUNNING"

definition slot_after :: "sched \<Rightarrow> nat \<Rightarrow> nat" where
  "slot_after st i = nat ((current_index st + 1 + int i) mod int (task_count st))"

definition scheduler_pick_next :: "sched \<Rightarrow> sched" where
  "scheduler_pick_next st =
     (if task_count st = 0 then st
      else case for_find (\<lambda>i. runnable (tsk st (slot_after st i))) 0 (task_count st) of
        None \<Rightarrow> st
      | Some i \<Rightarrow>
          (let idx = slot_after st i;
               st1 = (if current_index st \<ge> 0 \<and> t_state (tsk st (nat (current_index st))) = TASK_RUNNING
                      then set_state st (nat (current_index st)) TASK_READY else st) in
           set_state (st1\<lparr>current_index := int idx\<rparr>) idx TASK_RUNNING))"

section \<open>The context switch\<close>

text \<open>
  \<open>context_switch\<close> behind its call: \<open>esp\<close> points to the return address.  It pushes the four
  callee-saved registers, hands out the stack pointer, loads the new one, pops and returns.
\<close>

definition switch_out :: "cpu \<Rightarrow> (u32 \<Rightarrow> u32) \<Rightarrow> u32 \<times> (u32 \<Rightarrow> u32)" where
  "switch_out c m =
     (esp c - 16, m(esp c - 4 := ebp c, esp c - 8 := ebx c, esp c - 12 := esi c, esp c - 16 := edi c))"

definition switch_in :: "u32 \<Rightarrow> (u32 \<Rightarrow> u32) \<Rightarrow> cpu" where
  "switch_in sp m = \<lparr>eip = m (sp + 16), esp = sp + 20, ebp = m (sp + 12), ebx = m (sp + 8),
     esi = m (sp + 4), edi = m sp\<rparr>"

definition context_switch :: "sched \<Rightarrow> nat \<Rightarrow> nat \<Rightarrow> sched" where
  "context_switch st old new =
     (let new_sp = stack_top (tsk st new); (sp, m) = switch_out (cpu st) (mem st) in
      st\<lparr>mem := m, tasks := (tasks st)[old := (tsk st old)\<lparr>stack_top := sp\<rparr>], cpu := switch_in new_sp m\<rparr>)"

section \<open>Operations\<close>

definition scheduler_init :: "u32 \<Rightarrow> sched \<Rightarrow> sched" where
  "scheduler_init task_stacks st = st\<lparr>
     tasks := map (\<lambda>i. \<lparr>t_id = of_nat i, stack_top = 0, stack_base = task_stacks + of_nat i * TASK_STACK_SIZE,
                        t_state = TASK_UNUSED, t_mode = TASK_MODE_KERNEL, t_entry = 0, t_arg = 0,
                        t_name = str ''unused''\<rparr>) [0..<MAX_TASKS],
     task_count := 0, current_index := -1, preempt_pending := False, tick_quantum_counter := 0\<rparr>"

definition scheduler_create_task ::
  "u32 \<Rightarrow> sched \<Rightarrow> u32 \<Rightarrow> u32 \<Rightarrow> u8 list option \<Rightarrow> task_mode \<Rightarrow> u32 \<times> sched" where
  "scheduler_create_task task_bootstrap st entry arg name mode =
     (if entry = 0 \<or> task_count st \<ge> MAX_TASKS then (0xFFFFFFFF, st)
      else let idx = task_count st; top = stack_base (tsk st idx) + TASK_STACK_SIZE; sp = top - 20 in
        (of_nat idx, st\<lparr>
           tasks := (tasks st)[idx := (tsk st idx)\<lparr>t_entry := entry, t_arg := arg, t_mode := mode,
                       t_state := TASK_READY, t_name := (case name of None \<Rightarrow> str ''task'' | Some n \<Rightarrow> n),
                       stack_top := sp\<rparr>],
           mem := (mem st)(top - 4 := task_bootstrap, top - 8 := 0, top - 12 := 0, top - 16 := 0, sp := 0),
           task_count := Suc idx\<rparr>))"

definition scheduler_start :: "sched \<Rightarrow> sched option" where
  "scheduler_start st =
     (if task_count st = 0 then None
      else let st1 = scheduler_pick_next st in
        if current_index st1 < 0 then None
        else let (sp, m) = switch_out (cpu st1) (mem st1) in
          Some (st1\<lparr>mem := m, cpu := switch_in (stack_top (tsk st1 (nat (current_index st1)))) m\<rparr>))"

definition scheduler_yield :: "sched \<Rightarrow> sched option" where
  "scheduler_yield st =
     (if task_count st < 2 then Some st
      else let old_index = current_index st; st1 = scheduler_pick_next st in
        if current_index st1 < 0 \<or> current_index st1 = old_index then Some st1
        else if old_index < 0 then None
        else Some (context_switch st1 (nat old_index) (nat (current_index st1))))"

definition scheduler_on_tick :: "sched \<Rightarrow> sched" where
  "scheduler_on_tick st =
     (let n = tick_quantum_counter st + 1 in
      if n \<ge> 4 then st\<lparr>tick_quantum_counter := 0, preempt_pending := True\<rparr>
      else st\<lparr>tick_quantum_counter := n\<rparr>)"

definition scheduler_maybe_preempt :: "sched \<Rightarrow> sched option" where
  "scheduler_maybe_preempt st =
     (if preempt_pending st then scheduler_yield (st\<lparr>preempt_pending := False\<rparr>) else Some st)"

text \<open>The end of \<^verbatim>\<open>task_bootstrap\<close>, behind the return of the entry function; yields follow.\<close>

definition task_exit :: "sched \<Rightarrow> sched" where
  "task_exit st = set_state st (nat (current_index st)) TASK_TERMINATED"

definition scheduler_current_tid :: "sched \<Rightarrow> u32" where
  "scheduler_current_tid st =
     (if current_index st < 0 then 0xFFFFFFFF else t_id (tsk st (nat (current_index st))))"

definition scheduler_current_task :: "sched \<Rightarrow> task option" where
  "scheduler_current_task st =
     (if current_index st < 0 then None else Some (tsk st (nat (current_index st))))"

definition scheduler_task_count :: "sched \<Rightarrow> nat" where
  "scheduler_task_count st = task_count st"

definition scheduler_get_task_info :: "sched \<Rightarrow> nat \<Rightarrow> task option" where
  "scheduler_get_task_info st index = (if index \<ge> task_count st then None else Some (tsk st index))"

text \<open>The dispatcher; the tick counter comes from the timer.\<close>

record syscall_regs =
  r_edi :: u32
  r_esi :: u32
  r_ebp :: u32
  r_esp :: u32
  r_ebx :: u32
  r_edx :: u32
  r_ecx :: u32
  r_eax :: u32

abbreviation SYS_YIELD :: u32 where "SYS_YIELD \<equiv> 0"
abbreviation SYS_GET_TICKS :: u32 where "SYS_GET_TICKS \<equiv> 1"
abbreviation SYS_GET_TID :: u32 where "SYS_GET_TID \<equiv> 2"

definition syscall_handler :: "u32 \<Rightarrow> sched \<Rightarrow> syscall_regs \<Rightarrow> (u32 \<times> sched) option" where
  "syscall_handler ticks st regs =
     (if r_eax regs = SYS_YIELD then map_option (\<lambda>st'. (0, st')) (scheduler_yield st)
      else if r_eax regs = SYS_GET_TICKS then Some (ticks, st)
      else if r_eax regs = SYS_GET_TID then Some (scheduler_current_tid st, st)
      else Some (0xFFFFFFFF, st))"

section \<open>The invariant\<close>

text \<open>
  Task ids are slot numbers, the used slots are the first ones, only the current task can be
  running, and a current task that is not running has terminated.
\<close>

definition sched_ok :: "sched \<Rightarrow> bool" where
  "sched_ok st \<longleftrightarrow> length (tasks st) = MAX_TASKS \<and> task_count st \<le> MAX_TASKS
     \<and> -1 \<le> current_index st \<and> current_index st < int (task_count st)
     \<and> (\<forall>i < MAX_TASKS. t_id (tsk st i) = of_nat i)
     \<and> (\<forall>i < task_count st. t_state (tsk st i) \<in> {TASK_READY, TASK_RUNNING, TASK_TERMINATED})
     \<and> (\<forall>i. task_count st \<le> i \<and> i < MAX_TASKS \<longrightarrow> t_state (tsk st i) = TASK_UNUSED)
     \<and> (\<forall>i < task_count st. t_state (tsk st i) = TASK_RUNNING \<longrightarrow> int i = current_index st)
     \<and> (0 \<le> current_index st \<longrightarrow> t_state (tsk st (nat (current_index st))) \<in> {TASK_RUNNING, TASK_TERMINATED})"

lemma set_state_sel [simp]:
  "task_count (set_state st i s) = task_count st" "current_index (set_state st i s) = current_index st"
  "cpu (set_state st i s) = cpu st" "mem (set_state st i s) = mem st"
  "length (tasks (set_state st i s)) = length (tasks st)"
  "preempt_pending (set_state st i s) = preempt_pending st"
  "tick_quantum_counter (set_state st i s) = tick_quantum_counter st"
  by (simp_all add: set_state_def)

lemma tsk_set_state:
  "i < length (tasks st) \<Longrightarrow> tsk (set_state st i s) j = (if j = i then (tsk st i)\<lparr>t_state := s\<rparr> else tsk st j)"
  by (simp add: set_state_def tsk_def nth_list_update)

lemma tsk_upd [simp]:
  "tsk (st\<lparr>current_index := c\<rparr>) j = tsk st j" "tsk (st\<lparr>cpu := p\<rparr>) j = tsk st j" "tsk (st\<lparr>mem := m\<rparr>) j = tsk st j"
  "tsk (st\<lparr>preempt_pending := q\<rparr>) j = tsk st j" "tsk (st\<lparr>tick_quantum_counter := n\<rparr>) j = tsk st j"
  by (simp_all add: tsk_def)

lemma slot_after_less: "0 < task_count st \<Longrightarrow> slot_after st i < task_count st"
  by (simp add: slot_after_def nat_less_iff)

text \<open>What a pick does, in one place.\<close>

lemma pick_cases:
  assumes ok: "sched_ok st"
  obtains (none) "scheduler_pick_next st = st" "\<forall>i < task_count st. \<not> runnable (tsk st i)"
  | (picked) i where "i < task_count st" "runnable (tsk st (slot_after st i))"
      "\<forall>j < i. \<not> runnable (tsk st (slot_after st j))"
      "current_index (scheduler_pick_next st) = int (slot_after st i)"
      "\<And>k. tsk (scheduler_pick_next st) k = (tsk st k)\<lparr>t_state :=
          (if k = slot_after st i then TASK_RUNNING
           else if int k = current_index st \<and> t_state (tsk st k) = TASK_RUNNING then TASK_READY else t_state (tsk st k))\<rparr>"
      "task_count (scheduler_pick_next st) = task_count st" "length (tasks (scheduler_pick_next st)) = MAX_TASKS"
      "cpu (scheduler_pick_next st) = cpu st" "mem (scheduler_pick_next st) = mem st"
proof (cases "for_find (\<lambda>i. runnable (tsk st (slot_after st i))) 0 (task_count st)")
  case None
  have "\<not> runnable (tsk st k)" if k: "k < task_count st" for k
  proof -
    let ?n = "int (task_count st)" and ?c = "current_index st + 1"
    define i where "i = nat ((int k - ?c) mod ?n)"
    have "int i = (int k - ?c) mod ?n" using k by (simp add: i_def)
    then have "(?c + int i) mod ?n = int k" using k by (simp add: mod_add_right_eq)
    then have "slot_after st i = k" by (simp add: slot_after_def)
    moreover have "i < task_count st" using k by (simp add: i_def nat_less_iff)
    ultimately show ?thesis using None by (auto simp: for_find_None_iff)
  qed
  moreover have "scheduler_pick_next st = st" using None by (simp add: scheduler_pick_next_def)
  ultimately show ?thesis by (intro none) auto
next
  case (Some i)
  then have i: "i < task_count st" "runnable (tsk st (slot_after st i))"
    "\<forall>j < i. \<not> runnable (tsk st (slot_after st j))" by (auto simp: for_find_Some_iff)
  have len: "length (tasks st) = MAX_TASKS" "task_count st \<le> MAX_TASKS" "current_index st < int (task_count st)"
    using ok by (simp_all add: sched_ok_def)
  let ?idx = "slot_after st i" and ?c = "current_index st"
  have idx: "?idx < task_count st" using i(1) by (intro slot_after_less) simp
  let ?st1 = "if ?c \<ge> 0 \<and> t_state (tsk st (nat ?c)) = TASK_RUNNING then set_state st (nat ?c) TASK_READY else st"
  have p: "scheduler_pick_next st = set_state (?st1\<lparr>current_index := int ?idx\<rparr>) ?idx TASK_RUNNING"
    using Some i(1) by (simp add: scheduler_pick_next_def Let_def)
  have t1: "tsk ?st1 k = (tsk st k)\<lparr>t_state := (if int k = ?c \<and> t_state (tsk st k) = TASK_RUNNING then TASK_READY else t_state (tsk st k))\<rparr>" for k
    using len by (auto simp: tsk_set_state nat_less_iff)
  have "?idx < length (tasks (?st1\<lparr>current_index := int ?idx\<rparr>))" using idx len by simp
  note t2 = tsk_set_state [OF this, of TASK_RUNNING]
  show ?thesis
  proof (rule picked [OF i])
    show "current_index (scheduler_pick_next st) = int ?idx" by (simp add: p)
    show "tsk (scheduler_pick_next st) k = (tsk st k)\<lparr>t_state := (if k = ?idx then TASK_RUNNING
           else if int k = ?c \<and> t_state (tsk st k) = TASK_RUNNING then TASK_READY else t_state (tsk st k))\<rparr>" for k
      unfolding p t2 tsk_upd t1 by auto
  qed (use len in \<open>auto simp: p\<close>)
qed

lemma pick_ok:
  assumes "sched_ok st"
  shows "sched_ok (scheduler_pick_next st)" "task_count (scheduler_pick_next st) = task_count st"
    "runnable (tsk (scheduler_pick_next st) k) = runnable (tsk st k)"
    "stack_top (tsk (scheduler_pick_next st) k) = stack_top (tsk st k)"
    "cpu (scheduler_pick_next st) = cpu st" "mem (scheduler_pick_next st) = mem st"
proof -
  have "sched_ok (scheduler_pick_next st) \<and> task_count (scheduler_pick_next st) = task_count st
    \<and> (\<forall>k. runnable (tsk (scheduler_pick_next st) k) = runnable (tsk st k)
        \<and> stack_top (tsk (scheduler_pick_next st) k) = stack_top (tsk st k))
    \<and> cpu (scheduler_pick_next st) = cpu st \<and> mem (scheduler_pick_next st) = mem st"
    using assms
  proof (cases rule: pick_cases)
    case none
    with assms show ?thesis by simp
  next
    case (picked i)
    have idx: "slot_after st i < task_count st" using picked(1) by (intro slot_after_less) simp
    have r: "runnable (tsk (scheduler_pick_next st) k) = runnable (tsk st k)" for k
      using picked(2,5) by (auto simp: runnable_def)
    have "sched_ok (scheduler_pick_next st)"
      using assms idx unfolding sched_ok_def picked(4-7) by auto
    with r picked(5-9) show ?thesis by simp
  qed
  then show "sched_ok (scheduler_pick_next st)" "task_count (scheduler_pick_next st) = task_count st"
    "runnable (tsk (scheduler_pick_next st) k) = runnable (tsk st k)"
    "stack_top (tsk (scheduler_pick_next st) k) = stack_top (tsk st k)"
    "cpu (scheduler_pick_next st) = cpu st" "mem (scheduler_pick_next st) = mem st" by auto
qed


text \<open>The invariant reads ids, states, the count and the current index only.\<close>

lemma sched_ok_cong:
  assumes "sched_ok st" "length (tasks st') = length (tasks st)" "task_count st' = task_count st"
    "current_index st' = current_index st"
    "\<And>i. t_id (tsk st' i) = t_id (tsk st i) \<and> t_state (tsk st' i) = t_state (tsk st i)"
  shows "sched_ok st'"
  using assms by (simp add: sched_ok_def)

lemma switch_sel:
  assumes "old < length (tasks st)"
  shows "tsk (context_switch st old new) i =
      (if i = old then (tsk st old)\<lparr>stack_top := esp (cpu st) - 16\<rparr> else tsk st i)"
    "task_count (context_switch st old new) = task_count st"
    "current_index (context_switch st old new) = current_index st"
    "length (tasks (context_switch st old new)) = length (tasks st)"
    "mem (context_switch st old new) = snd (switch_out (cpu st) (mem st))"
    "cpu (context_switch st old new) = switch_in (stack_top (tsk st new)) (snd (switch_out (cpu st) (mem st)))"
  using assms by (simp_all add: context_switch_def Let_def switch_out_def tsk_def nth_list_update)

lemma switch_ok:
  assumes "sched_ok st" "old < MAX_TASKS"
  shows "sched_ok (context_switch st old new)" "runnable (tsk (context_switch st old new) i) = runnable (tsk st i)"
proof -
  have l: "old < length (tasks st)" using assms by (simp add: sched_ok_def)
  show "sched_ok (context_switch st old new)"
    by (rule sched_ok_cong [OF assms(1)]) (simp_all add: switch_sel [OF l])
  show "runnable (tsk (context_switch st old new) i) = runnable (tsk st i)"
    by (simp add: switch_sel [OF l] runnable_def)
qed

text \<open>A yield of a started scheduler always succeeds, and decides like a pick.\<close>

lemma yield_ok:
  assumes ok: "sched_ok st" and c: "0 \<le> current_index st"
  shows "\<exists>st'. scheduler_yield st = Some st' \<and> sched_ok st' \<and> task_count st' = task_count st
    \<and> 0 \<le> current_index st' \<and> (\<forall>i. runnable (tsk st' i) = runnable (tsk st i))
    \<and> (2 \<le> task_count st \<longrightarrow> current_index st' = current_index (scheduler_pick_next st))"
proof (cases "task_count st < 2")
  case True
  with ok c show ?thesis by (simp add: scheduler_yield_def)
next
  case False
  let ?p = "scheduler_pick_next st"
  note P = pick_ok [OF ok]
  have c': "0 \<le> current_index ?p"
    using ok c by (cases rule: pick_cases) simp_all
  have lt: "nat (current_index st) < MAX_TASKS" using ok c by (auto simp: sched_ok_def)
  show ?thesis
  proof (cases "current_index ?p = current_index st")
    case True
    then show ?thesis using False P c' by (simp add: scheduler_yield_def Let_def)
  next
    case diff: False
    let ?s = "context_switch ?p (nat (current_index st)) (nat (current_index ?p))"
    have "nat (current_index st) < length (tasks ?p)" using P(1) lt by (simp add: sched_ok_def)
    note S = switch_sel [OF this]
    have "scheduler_yield st = Some ?s" using False diff c c' by (simp add: scheduler_yield_def Let_def)
    then show ?thesis using switch_ok [OF P(1) lt] P(2,3) c' by (simp add: S)
  qed
qed

section \<open>Round robin\<close>

fun yields :: "nat \<Rightarrow> sched \<Rightarrow> sched option" where
  "yields 0 st = Some st"
| "yields (Suc k) st = (case scheduler_yield st of None \<Rightarrow> None | Some st' \<Rightarrow> yields k st')"

text \<open>How far task \<open>j\<close> is behind the current one in the cyclic order.\<close>

definition dist :: "sched \<Rightarrow> nat \<Rightarrow> nat" where
  "dist st j = nat ((int j - current_index st - 1) mod int (task_count st))"

lemma dist_less: "0 < task_count st \<Longrightarrow> dist st j < task_count st"
  by (simp add: dist_def nat_less_iff)

lemma slot_after_dist: "j < task_count st \<Longrightarrow> slot_after st (dist st j) = j"
proof -
  assume j: "j < task_count st"
  have "int (dist st j) = (int j - current_index st - 1) mod int (task_count st)" using j by (simp add: dist_def)
  then have "(current_index st + 1 + int (dist st j)) mod int (task_count st)
      = (current_index st + 1 + (int j - current_index st - 1)) mod int (task_count st)"
    by (simp only: mod_add_right_eq)
  then show ?thesis using j by (simp add: slot_after_def)
qed

lemma dist_step:
  assumes j: "j < task_count st" and i: "i < dist st j"
    and c: "current_index st' = int (slot_after st i)" "task_count st' = task_count st"
  shows "dist st' j = dist st j - Suc i"
proof -
  let ?n = "int (task_count st)"
  have d: "int (dist st j) = (int j - current_index st - 1) mod ?n" using j by (simp add: dist_def)
  have s: "int (slot_after st i) = (current_index st + 1 + int i) mod ?n" using j by (simp add: slot_after_def)
  have "(int j - int (slot_after st i) - 1) mod ?n = (int j - (current_index st + 1 + int i) - 1) mod ?n"
    unfolding s by (metis (no_types, opaque_lifting) diff_diff_eq2 diff_diff_eq mod_diff_cong mod_mod_trivial)
  also have "\<dots> = ((int j - current_index st - 1) - (int i + 1)) mod ?n" by (simp add: algebra_simps)
  also have "\<dots> = (int (dist st j) - (int i + 1)) mod ?n" unfolding d by (simp add: mod_diff_left_eq)
  also have "\<dots> = int (dist st j) - (int i + 1)"
    using i dist_less [of st j] j by (intro mod_pos_pos_trivial) auto
  finally show ?thesis using i by (simp add: dist_def c nat_eq_iff)
qed

lemma yields_reach:
  assumes "sched_ok st" "0 \<le> current_index st" "2 \<le> task_count st" "j < task_count st" "runnable (tsk st j)"
  shows "\<exists>k st'. 1 \<le> k \<and> k \<le> Suc (dist st j) \<and> yields k st = Some st' \<and> sched_ok st' \<and> current_index st' = int j
    \<and> runnable (tsk st' j)"
  using assms
proof (induction "dist st j" arbitrary: st rule: less_induct)
  case less
  obtain st1 where y: "scheduler_yield st = Some st1" "sched_ok st1" "task_count st1 = task_count st"
      "0 \<le> current_index st1" "\<forall>i. runnable (tsk st1 i) = runnable (tsk st i)"
      "current_index st1 = current_index (scheduler_pick_next st)"
    using yield_ok [OF less.prems(1,2)] less.prems(3) by blast
  have sd: "slot_after st (dist st j) = j" using less.prems(4) by (rule slot_after_dist)
  have dl: "dist st j < task_count st" using less.prems(4) by (intro dist_less) simp
  obtain i where i: "i \<le> dist st j" "current_index st1 = int (slot_after st i)"
    using less.prems(1)
  proof (cases rule: pick_cases)
    case none
    then show ?thesis using less.prems(4,5) by blast
  next
    case (picked i)
    have "\<not> dist st j < i" using picked(3) less.prems(5) sd by auto
    then show ?thesis using that [of i] picked(4) y(6) by simp
  qed
  show ?case
  proof (cases "i = dist st j")
    case True
    then have "current_index st1 = int j" using i(2) sd by simp
    then show ?thesis using y less.prems(5) by (intro exI [of _ "Suc 0"] exI [of _ st1]) simp
  next
    case False
    then have lt: "i < dist st j" using i(1) by simp
    have d: "dist st1 j = dist st j - Suc i" by (rule dist_step [OF less.prems(4) lt i(2) y(3)])
    then have "dist st1 j < dist st j" using lt by simp
    then obtain k st' where k: "1 \<le> k" "k \<le> Suc (dist st1 j)" "yields k st1 = Some st'" "sched_ok st'"
        "current_index st' = int j" "runnable (tsk st' j)"
      using less.hyps [of st1] y less.prems(3-5) by auto
    have "yields (Suc k) st = Some st'" using y(1) k(3) by simp
    moreover have "Suc k \<le> Suc (dist st j)" using k(2) d lt by linarith
    ultimately show ?thesis using k by (intro exI [of _ "Suc k"] exI [of _ st']) simp
  qed
qed

section \<open>Steps of the scheduler\<close>

text \<open>
  Calls into the scheduler, and the execution of task code in between, which may change the
  registers and the memory but not the task table.
\<close>

inductive sched_step :: "u32 \<Rightarrow> sched \<Rightarrow> sched \<Rightarrow> bool" for boot where
  create: "scheduler_create_task boot st entry arg nm mode = (r, st') \<Longrightarrow> sched_step boot st st'"
| start: "scheduler_start st = Some st' \<Longrightarrow> sched_step boot st st'"
| yield: "0 \<le> current_index st \<Longrightarrow> scheduler_yield st = Some st' \<Longrightarrow> sched_step boot st st'"
| tick: "sched_step boot st (scheduler_on_tick st)"
| preempt: "0 \<le> current_index st \<Longrightarrow> scheduler_maybe_preempt st = Some st' \<Longrightarrow> sched_step boot st st'"
| exit: "0 \<le> current_index st \<Longrightarrow> sched_step boot st (task_exit st)"
| execute: "sched_step boot st (st\<lparr>cpu := c, mem := m\<rparr>)"

lemma init_ok: "sched_ok (scheduler_init base st)"
  by (simp add: sched_ok_def scheduler_init_def tsk_def)

lemma create_ok:
  assumes ok: "sched_ok st" and c: "scheduler_create_task boot st entry arg nm mode = (r, st')"
  shows "sched_ok st'"
proof (cases "entry = 0 \<or> task_count st \<ge> MAX_TASKS")
  case True
  then show ?thesis using ok c by (auto simp: scheduler_create_task_def)
next
  case False
  have "length (tasks st) = MAX_TASKS" "current_index st < int (task_count st)" using ok by (auto simp: sched_ok_def)
  then have t: "tsk st' i = (if i = task_count st then (tsk st i)\<lparr>t_entry := entry, t_arg := arg, t_mode := mode,
      t_state := TASK_READY, t_name := (case nm of None \<Rightarrow> str ''task'' | Some n \<Rightarrow> n),
      stack_top := stack_base (tsk st i) + TASK_STACK_SIZE - 20\<rparr> else tsk st i)"
    and s: "task_count st' = Suc (task_count st)" "current_index st' = current_index st"
      "length (tasks st') = MAX_TASKS" for i
    using c False by (auto simp: scheduler_create_task_def Let_def tsk_def nth_list_update)
  have "nat (current_index st) \<noteq> task_count st" if "0 \<le> current_index st"
    using that ok by (auto simp: sched_ok_def)
  then show ?thesis
    using ok False unfolding sched_ok_def s t by (auto simp: less_Suc_eq)
qed

lemma sched_step_ok: "sched_step boot st st' \<Longrightarrow> sched_ok st \<Longrightarrow> sched_ok st'"
proof (induction rule: sched_step.induct)
  case (create st entry arg nm mode r st')
  then show ?case using create_ok by blast
next
  case (start st st')
  have "st' = (scheduler_pick_next st)\<lparr>mem := mem st', cpu := cpu st'\<rparr>"
    using start.hyps by (auto simp: scheduler_start_def Let_def switch_out_def split: if_splits)
  then show ?case
    using pick_ok(1) [OF start.prems] by (metis sched_ok_cong sched.select_convs(1-3) sched.surjective sched.update_convs(6,7) tsk_upd(2,3))
next
  case (yield st st')
  then show ?case using yield_ok [OF yield.prems yield.hyps(1)] by auto
next
  case (tick st)
  then show ?case by (intro sched_ok_cong [OF tick]) (simp_all add: scheduler_on_tick_def Let_def)
next
  case (preempt st st')
  have "sched_ok (st\<lparr>preempt_pending := False\<rparr>)" by (rule sched_ok_cong [OF preempt.prems]) simp_all
  then show ?case
    using yield_ok [of "st\<lparr>preempt_pending := False\<rparr>"] preempt
    by (auto simp: scheduler_maybe_preempt_def split: if_splits)
next
  case (exit st)
  have l: "nat (current_index st) < length (tasks st)" using exit by (auto simp: sched_ok_def)
  show ?case
    using exit unfolding sched_ok_def task_exit_def tsk_set_state [OF l] set_state_sel by auto
next
  case (execute st c m)
  then show ?case by (intro sched_ok_cong [OF execute]) simp_all
qed

lemma sched_steps_ok: "(sched_step boot)\<^sup>*\<^sup>* st st' \<Longrightarrow> sched_ok st \<Longrightarrow> sched_ok st'"
  by (induction rule: rtranclp_induct) (use sched_step_ok in blast)+


section \<open>Properties\<close>

text \<open>A system with two tasks, started.\<close>

definition demo_init :: sched where
  "demo_init = scheduler_init 0x00200000
     \<lparr>tasks = [], task_count = 0, current_index = 0, preempt_pending = False, tick_quantum_counter = 0,
      cpu = \<lparr>eip = 0, esp = 0x00090000, ebp = 0, ebx = 0, esi = 0, edi = 0\<rparr>, mem = (\<lambda>_. 0)\<rparr>"

definition demo_two :: sched where
  "demo_two = snd (scheduler_create_task 0x1000
     (snd (scheduler_create_task 0x1000 demo_init 0x2000 0 None TASK_MODE_KERNEL)) 0x3000 7 None TASK_MODE_KERNEL)"

definition demo_sched :: sched where
  "demo_sched = the (scheduler_start demo_two)"

lemma demo_two_ok: "sched_ok demo_two"
  unfolding demo_two_def demo_init_def
  using init_ok create_ok by (metis prod.collapse)

lemma demo_two_sel: "task_count demo_two = 2" "current_index demo_two = -1" "t_state (tsk demo_two 0) = TASK_READY"
  "t_state (tsk demo_two 1) = TASK_READY"
  by code_simp+

lemma demo_start: "scheduler_start demo_two = Some demo_sched" "current_index demo_sched = 0"
  "task_count demo_sched = 2" "t_state (tsk demo_sched 1) = TASK_READY"
proof -
  have c: "current_index (scheduler_pick_next demo_two) = 0" by code_simp
  then show s: "scheduler_start demo_two = Some demo_sched"
    by (simp add: demo_sched_def scheduler_start_def demo_two_sel Let_def switch_out_def)
  show "current_index demo_sched = 0" "task_count demo_sched = 2" "t_state (tsk demo_sched 1) = TASK_READY"
    by code_simp+
qed

lemma demo_sp: "esp (cpu demo_sched) = 0x00201000" "stack_top (tsk demo_sched 1) = 0x00201FEC"
  "stack_base (tsk demo_sched 2) = 0x00202000"
  by code_simp+

lemma demo_steps: "(sched_step 0x1000)\<^sup>*\<^sup>* demo_init demo_sched"
proof -
  have "sched_step 0x1000 demo_init (snd (scheduler_create_task 0x1000 demo_init 0x2000 0 None TASK_MODE_KERNEL))"
    by (rule create) (rule prod.collapse [symmetric])
  moreover have "sched_step 0x1000 (snd (scheduler_create_task 0x1000 demo_init 0x2000 0 None TASK_MODE_KERNEL)) demo_two"
    unfolding demo_two_def by (rule create) (rule prod.collapse [symmetric])
  moreover have "sched_step 0x1000 demo_two demo_sched" by (rule start) (rule demo_start)
  ultimately show ?thesis by (meson converse_rtranclp_into_rtranclp rtranclp.rtrancl_refl)
qed

lemma demo_sched_ok: "sched_ok demo_sched"
  using sched_steps_ok [OF demo_steps] init_ok by (simp add: demo_init_def)



text \<open>
  C5: No runnable task starves: once the scheduler has started with at least two tasks, every runnable task becomes the current one
  after at most as many yields as there are tasks, and none of these yields fails.
\<close>

theorem sched_fair:
  assumes "sched_ok st" "0 \<le> current_index st" "2 \<le> task_count st" "j < task_count st"
    and "t_state (tsk st j) = TASK_READY \<or> t_state (tsk st j) = TASK_RUNNING"
  shows "\<exists>k st'. 1 \<le> k \<and> k \<le> task_count st \<and> yields k st = Some st' \<and> current_index st' = int j
    \<and> t_state (tsk st' j) = TASK_RUNNING"
proof -
  have r: "runnable (tsk st j)" using assms(5) by (simp add: runnable_def)
  obtain k st' where k: "1 \<le> k" "k \<le> Suc (dist st j)" "yields k st = Some st'" "sched_ok st'"
      "current_index st' = int j" "runnable (tsk st' j)"
    using yields_reach [OF assms(1-4) r] by blast
  have "dist st j < task_count st" using assms(4) by (intro dist_less) simp
  moreover have "t_state (tsk st' (nat (current_index st'))) \<in> {TASK_RUNNING, TASK_TERMINATED}"
    using k(4,5) by (simp add: sched_ok_def)
  then have "t_state (tsk st' j) = TASK_RUNNING" using k(5,6) by (auto simp: runnable_def)
  ultimately show ?thesis using k by (intro exI [of _ k] exI [of _ st']) simp
qed

theorem sched_fair_witness:
  "\<exists>k st'. k \<le> 2 \<and> yields k demo_sched = Some st' \<and> current_index st' = 1"
proof -
  have "\<exists>k st'. 1 \<le> k \<and> k \<le> task_count demo_sched \<and> yields k demo_sched = Some st' \<and> current_index st' = int 1
    \<and> t_state (tsk st' 1) = TASK_RUNNING"
    by (rule sched_fair [OF demo_sched_ok]) (simp_all add: demo_start demo_start(4) [unfolded One_nat_def])
  then show ?thesis by (auto simp: demo_start)
qed



text \<open>
  A fresh task starts in \<^verbatim>\<open>task_bootstrap\<close> at the top of its own stack with cleared registers: the frame that
  \<^verbatim>\<open>scheduler_create_task\<close> builds fits what the context switch pops, as long as it was not overwritten.
\<close>

theorem create_task_first_run:
  assumes "scheduler_create_task boot st entry arg nm mode = (r, st1)" "r \<noteq> 0xFFFFFFFF" "task_count st < length (tasks st)"
    and "length (tasks st') = length (tasks st)" "c < length (tasks st)" "c \<noteq> task_count st"
    and "stack_top (tsk st' (task_count st)) = stack_top (tsk st1 (task_count st))"
    and "st2 = context_switch st' c (task_count st)"
    and "\<forall>k \<in> {4, 8, 12, 16, 20}. mem st2 (stack_base (tsk st (task_count st)) + 4096 - k)
           = mem st1 (stack_base (tsk st (task_count st)) + 4096 - k)"
  shows "r = of_nat (task_count st) \<and> cpu st2 = \<lparr>eip = boot, esp = stack_base (tsk st (task_count st)) + 4096,
    ebp = 0, ebx = 0, esi = 0, edi = 0\<rparr>"
proof -
  let ?i = "task_count st" and ?top = "stack_base (tsk st (task_count st)) + 4096"
  have ne: "\<not> (entry = 0 \<or> task_count st \<ge> MAX_TASKS)"
    using assms(1,2) by (auto simp: scheduler_create_task_def)
  then have r: "r = of_nat ?i" and t: "stack_top (tsk st1 ?i) = ?top - 20"
    and m: "mem st1 = (mem st)(?top - 4 := boot, ?top - 8 := 0, ?top - 12 := 0, ?top - 16 := 0, ?top - 20 := 0)"
    using assms(1,3) by (auto simp: scheduler_create_task_def Let_def tsk_def)
  have "c < length (tasks st')" using assms(4,5) by simp
  note S2 = switch_sel [OF this, of ?i]
  have "cpu st2 = switch_in (?top - 20) (mem st2)"
    using assms(7) t by (simp add: assms(8) S2)
  moreover have "mem st2 (?top - 4) = boot" "mem st2 (?top - 8) = 0" "mem st2 (?top - 12) = 0"
    "mem st2 (?top - 16) = 0" "mem st2 (?top - 20) = 0"
    using assms(9) by (simp_all add: m)
  ultimately show ?thesis using r by (simp add: switch_in_def)
qed

theorem create_task_first_run_witness:
  "\<exists>st1. scheduler_create_task 0x1000 demo_sched 0x4000 9 None TASK_MODE_KERNEL = (2, st1)
    \<and> eip (cpu (context_switch st1 0 2)) = 0x1000"
proof -
  obtain r st1 where c: "scheduler_create_task 0x1000 demo_sched 0x4000 9 None TASK_MODE_KERNEL = (r, st1)" by fastforce
  then have st1: "st1 = snd (scheduler_create_task 0x1000 demo_sched 0x4000 9 None TASK_MODE_KERNEL)" by simp
  have r: "r = 2" using c by (simp add: scheduler_create_task_def demo_start Let_def)
  have l: "length (tasks demo_sched) = 64" using demo_sched_ok by (simp add: sched_ok_def)
  then have l1: "length (tasks st1) = 64"
    using c by (auto simp: scheduler_create_task_def demo_start Let_def)
  have fr: "mem (context_switch st1 0 2) (stack_base (tsk demo_sched 2) + 4096 - k)
      = mem st1 (stack_base (tsk demo_sched 2) + 4096 - k)" if "k \<in> {4, 8, 12, 16, 20}" for k
  proof -
    have "cpu st1 = cpu demo_sched" using c by (auto simp: scheduler_create_task_def demo_start Let_def)
    then show ?thesis using that l1 switch_sel [of 0 st1 2] by (auto simp: demo_sp switch_out_def)
  qed
  have "r = of_nat (task_count demo_sched) \<and> cpu (context_switch st1 0 (task_count demo_sched)) =
      \<lparr>eip = 0x1000, esp = stack_base (tsk demo_sched (task_count demo_sched)) + 4096, ebp = 0, ebx = 0, esi = 0, edi = 0\<rparr>"
    by (rule create_task_first_run [OF c, where st' = st1 and c = 0])
       (use r l l1 fr in \<open>simp_all add: demo_start\<close>)
  then show ?thesis using c r by (auto simp: demo_start)
qed

text \<open>
  The time slice is four ticks: from a reset counter, after any number of timer ticks a preemption is
  pending exactly when at least four came (or one was pending before), so a task that polls is preempted within a slice.
\<close>

theorem sched_quantum:
  assumes "tick_quantum_counter st = 0"
  shows "preempt_pending ((scheduler_on_tick ^^ n) st) \<longleftrightarrow> preempt_pending st \<or> 4 \<le> n"
proof -
  have "tick_quantum_counter ((scheduler_on_tick ^^ n) st) = of_nat (n mod 4)
    \<and> (preempt_pending ((scheduler_on_tick ^^ n) st) \<longleftrightarrow> preempt_pending st \<or> 4 \<le> n)"
  proof (induction n)
    case 0
    then show ?case using assms by simp
  next
    case (Suc n)
    have "n mod 4 < 4" by simp
    then consider "n mod 4 = 0" | "n mod 4 = 1" | "n mod 4 = 2" | "n mod 4 = 3" by linarith
    then show ?case
    proof cases
      case 1
      then have "n \<noteq> 3" "Suc n mod 4 = 1" by presburger+
      with 1 Suc show ?thesis by (auto simp: scheduler_on_tick_def Let_def word_le_nat_alt)
    next
      case 2
      then have "n \<noteq> 3" "Suc n mod 4 = 2" by presburger+
      with 2 Suc show ?thesis by (auto simp: scheduler_on_tick_def Let_def word_le_nat_alt)
    next
      case 3
      then have "n \<noteq> 3" "Suc n mod 4 = 3" by presburger+
      with 3 Suc show ?thesis by (auto simp: scheduler_on_tick_def Let_def word_le_nat_alt)
    next
      case 4
      then have "3 \<le> n" "Suc n mod 4 = 0" by presburger+
      with 4 Suc show ?thesis by (auto simp: scheduler_on_tick_def Let_def word_le_nat_alt)
    qed
  qed
  then show ?thesis by simp
qed

theorem sched_quantum_witness: "preempt_pending ((scheduler_on_tick ^^ 4) demo_init)"
proof -
  have "tick_quantum_counter demo_init = 0" by (simp add: demo_init_def scheduler_init_def)
  from sched_quantum [OF this, of 4] show ?thesis by simp
qed

end
