(* ===== verification/Desktop_State.thy ===== *)
theory Desktop_State
  imports Font Mouse Terminal Scheduler
begin

text \<open>
  The state of the desktop of \<^verbatim>\<open>src/video/display.c\<close> in graphics mode: the windows from back to front, which
  terminal has the focus, what is dragged, the theme and the scale; the sizes that follow from them; and the layout.

  The terminal grids, the tasks of the sessions and the deferred refresh are those of the text console (\<open>dk_disp\<close>); the pointer is
  the one of the mouse driver.  \<^verbatim>\<open>g_prev_cursor_row\<close> and its column are one pair, an invalid one \<open>None\<close>.
\<close>

section \<open>State\<close>

abbreviation WIN_DESKTOP :: nat where "WIN_DESKTOP \<equiv> 0"
abbreviation WIN_TERMINAL_FIRST :: nat where "WIN_TERMINAL_FIRST \<equiv> 1"
abbreviation WIN_TERMINAL_LAST :: nat where "WIN_TERMINAL_LAST \<equiv> 16"
abbreviation WIN_SETTINGS :: nat where "WIN_SETTINGS \<equiv> 17"
abbreviation WIN_PROCESS_MANAGER :: nat where "WIN_PROCESS_MANAGER \<equiv> 18"
abbreviation WIN_COUNT :: nat where "WIN_COUNT \<equiv> 19"
abbreviation THEME_COUNT :: nat where "THEME_COUNT \<equiv> 3"
abbreviation START_MENU_ITEMS :: nat where "START_MENU_ITEMS \<equiv> 4"

record ui_theme =
  th_desktop_bg :: u8
  th_taskbar_bg :: u8
  th_term_title :: u8
  th_term_body :: u8
  th_settings_title :: u8
  th_settings_body :: u8
  th_text_fg :: u8
  th_text_bg :: u8

definition g_themes :: "ui_theme list" where
  "g_themes =
     [\<lparr>th_desktop_bg = 1, th_taskbar_bg = 8, th_term_title = 2, th_term_body = 0, th_settings_title = 5, th_settings_body = 7, th_text_fg = 15, th_text_bg = 0\<rparr>,
      \<lparr>th_desktop_bg = 3, th_taskbar_bg = 1, th_term_title = 4, th_term_body = 1, th_settings_title = 6, th_settings_body = 3, th_text_fg = 15, th_text_bg = 1\<rparr>,
      \<lparr>th_desktop_bg = 0, th_taskbar_bg = 7, th_term_title = 9, th_term_body = 0, th_settings_title = 2, th_settings_body = 8, th_text_fg = 14, th_text_bg = 0\<rparr>]"

record desktop =
  dk_disp :: display
  dk_mode :: video_mode
  dk_fb :: framebuffer
  dk_mouse :: mouse
  dk_sched :: sched
  g_font :: psf_font
  g_gfx_fg :: u8
  g_gfx_bg :: u8
  g_graphics_test_overlay :: bool
  g_gfx_disable_overlay :: bool
  g_panic_mode :: bool
  g_button_pressed :: bool
  g_windows :: "gui_window list"
  g_prev_cursor :: "(nat \<times> nat) option"
  g_drag_window :: int
  g_drag_offset_x :: s32
  g_drag_offset_y :: s32
  g_resize_window :: int
  g_resize_offset_x :: s32
  g_resize_offset_y :: s32
  g_start_menu_open :: bool
  g_pending_terminal_spawn :: bool
  g_active_theme :: u8
  g_taskbar_bg :: u8
  g_taskbar_text :: u8
  g_ui_scale_level :: u8
  g_process_cpu_ticks :: "u32 list"
  g_pm_selected_index :: int
  g_interactive_move_active :: bool
  prev_buttons :: u8

abbreviation focus :: "desktop \<Rightarrow> int" where "focus dk \<equiv> g_focused_terminal_session (dk_disp dk)"

definition set_focus :: "int \<Rightarrow> desktop \<Rightarrow> desktop" where
  "set_focus s dk = dk\<lparr>dk_disp := (dk_disp dk)\<lparr>g_focused_terminal_session := s\<rparr>\<rparr>"

definition force_redraw :: "bool \<Rightarrow> desktop \<Rightarrow> desktop" where
  "force_redraw b dk = dk\<lparr>dk_disp := (dk_disp dk)\<lparr>terminal_force_full_redraw := b\<rparr>\<rparr>"

definition on_window :: "nat \<Rightarrow> (gui_window \<Rightarrow> gui_window) \<Rightarrow> desktop \<Rightarrow> desktop" where
  "on_window i f dk = dk\<lparr>g_windows := (g_windows dk)[i := f (g_windows dk ! i)]\<rparr>"

section \<open>Finding windows\<close>

definition terminal_session_from_window :: "gui_window \<Rightarrow> int" where
  "terminal_session_from_window w =
     (if gw_role w \<noteq> ROLE_TERMINAL then -1 else if gw_slot w \<ge> 16 then -1 else int (unat (gw_slot w)))"

definition terminal_window_for_session :: "gui_window list \<Rightarrow> nat \<Rightarrow> nat option" where
  "terminal_window_for_session ws s =
     (if s \<ge> WIN_TERMINAL_SLOTS then None
      else for_find (\<lambda>i. gw_role (ws ! i) = ROLE_TERMINAL \<and> unat (gw_slot (ws ! i)) = s) 0 WIN_COUNT)"

text \<open>The window of the focused session, if it is visible.\<close>

definition focused_window :: "desktop \<Rightarrow> nat option" where
  "focused_window dk =
     (if focus dk \<ge> 0 \<and> focus dk < int WIN_TERMINAL_SLOTS
      then (case terminal_window_for_session (g_windows dk) (nat (focus dk)) of
              Some i \<Rightarrow> if gw_visible (g_windows dk ! i) then Some i else None
            | None \<Rightarrow> None)
      else None)"

definition top_terminal :: "gui_window list \<Rightarrow> nat option" where
  "top_terminal ws = find_down (\<lambda>i. gw_role (ws ! i) = ROLE_TERMINAL \<and> gw_visible (ws ! i)) WIN_TERMINAL_FIRST WIN_COUNT"

definition ensure_valid_terminal_focus :: "desktop \<Rightarrow> desktop" where
  "ensure_valid_terminal_focus dk =
     (case focused_window dk of
        Some _ \<Rightarrow> dk
      | None \<Rightarrow> (case top_terminal (g_windows dk) of
                   Some i \<Rightarrow> set_focus (terminal_session_from_window (g_windows dk ! i)) dk
                 | None \<Rightarrow> set_focus (-1) dk))"

definition terminal_window :: "desktop \<Rightarrow> nat option" where
  "terminal_window dk =
     (case focused_window dk of
        Some i \<Rightarrow> Some i
      | None \<Rightarrow> (case top_terminal (g_windows dk) of
                   Some i \<Rightarrow> Some i
                 | None \<Rightarrow> gui_find_window_by_role (g_windows dk) ROLE_TERMINAL (int WIN_TERMINAL_FIRST)))"

definition settings_window :: "desktop \<Rightarrow> nat option" where
  "settings_window dk = gui_find_window_by_role (g_windows dk) ROLE_SETTINGS (-1)"

definition process_manager_window :: "desktop \<Rightarrow> nat option" where
  "process_manager_window dk = gui_find_window_by_role (g_windows dk) ROLE_PROCESS_MANAGER (-1)"

definition window_index_from_ptr :: "desktop \<Rightarrow> nat option \<Rightarrow> int" where
  "window_index_from_ptr dk w = gui_window_index_from_ptr (g_windows dk) w"

definition bring_window_to_front :: "int \<Rightarrow> desktop \<Rightarrow> desktop" where
  "bring_window_to_front i dk = dk\<lparr>g_windows := gui_bring_window_to_front (g_windows dk) (int WIN_TERMINAL_FIRST) i\<rparr>"

text \<open>The session whose grid the user interface shows; the focus is put in order first.\<close>

definition terminal_state_for_active_ui :: "desktop \<Rightarrow> nat \<times> desktop" where
  "terminal_state_for_active_ui dk =
     (let dk1 = ensure_valid_terminal_focus dk in
      (if focus dk1 \<ge> 0 \<and> focus dk1 < int WIN_TERMINAL_SLOTS then nat (focus dk1)
       else case terminal_window dk1 of
              Some i \<Rightarrow> (let s = terminal_session_from_window (g_windows dk1 ! i) in
                         if s \<ge> 0 \<and> s < int WIN_TERMINAL_SLOTS then nat s else 0)
            | None \<Rightarrow> 0, dk1))"

definition terminal_state_for_session :: "desktop \<Rightarrow> nat \<Rightarrow> terminal_state" where
  "terminal_state_for_session dk s = g_terminal_states (dk_disp dk) ! (if s \<ge> WIN_TERMINAL_SLOTS then 0 else s)"

definition on_session :: "nat \<Rightarrow> (terminal_state \<Rightarrow> terminal_state) \<Rightarrow> desktop \<Rightarrow> desktop" where
  "on_session s f dk = dk\<lparr>dk_disp := (dk_disp dk)\<lparr>g_terminal_states :=
     (g_terminal_states (dk_disp dk))[s := f (g_terminal_states (dk_disp dk) ! s)]\<rparr>\<rparr>"

section \<open>Theme\<close>

definition recolour :: "u8 \<Rightarrow> u8 \<Rightarrow> gui_window \<Rightarrow> gui_window" where
  "recolour title body w = w\<lparr>gw_title_bg := title, gw_body_bg := body\<rparr>"

definition apply_theme :: "u8 \<Rightarrow> desktop \<Rightarrow> desktop" where
  "apply_theme theme_id dk =
     (let tid = (if theme_id \<ge> 3 then 0 else theme_id); t = g_themes ! unat tid;
          dk1 = on_window WIN_DESKTOP (\<lambda>w. w\<lparr>gw_body_bg := th_desktop_bg t\<rparr>) (dk\<lparr>g_active_theme := tid\<rparr>);
          dk2 = dk1\<lparr>g_windows := map (\<lambda>w. if gw_role w = ROLE_TERMINAL then recolour (th_term_title t) (th_term_body t) w else w) (g_windows dk1)\<rparr>;
          dk3 = (case for_find (\<lambda>i. gw_role (g_windows dk2 ! i) = ROLE_SETTINGS) 0 WIN_COUNT of
                   Some i \<Rightarrow> on_window i (recolour (th_term_title t) (th_settings_body t)) dk2 | None \<Rightarrow> dk2);
          dk4 = (case process_manager_window dk3 of
                   Some i \<Rightarrow> on_window i (recolour (th_term_title t) (th_settings_body t)) dk3 | None \<Rightarrow> dk3)
      in dk4\<lparr>g_taskbar_bg := th_taskbar_bg t, g_taskbar_text := th_desktop_bg t, g_gfx_fg := th_text_fg t, g_gfx_bg := th_text_bg t\<rparr>)"

section \<open>Sizes\<close>

abbreviation fb_w :: "desktop \<Rightarrow> u32" where "fb_w dk \<equiv> gf_width (dk_fb dk)"
abbreviation fb_h :: "desktop \<Rightarrow> u32" where "fb_h dk \<equiv> gf_height (dk_fb dk)"

definition gfx_ui_scale_half :: "desktop \<Rightarrow> u32" where
  "gfx_ui_scale_half dk =
     (if g_ui_scale_level dk \<ge> 2 \<and> g_ui_scale_level dk \<le> 4 then ucast (g_ui_scale_level dk)
      else if fb_w dk \<ge> 1152 \<and> fb_h dk \<ge> 864 then 4
      else if fb_w dk \<ge> 800 \<and> fb_h dk \<ge> 600 then 3 else 2)"

definition gfx_scale_px :: "desktop \<Rightarrow> u32 \<Rightarrow> u32" where
  "gfx_scale_px dk n = scale_px (gfx_ui_scale_half dk) n"

definition gfx_ui_scale :: "desktop \<Rightarrow> u32" where
  "gfx_ui_scale dk = gfx_scale_px dk 1"

definition gfx_cell_width :: "desktop \<Rightarrow> u32" where
  "gfx_cell_width dk =
     gfx_scale_px dk (if fn_valid (g_font dk) \<and> fn_glyph_width (g_font dk) \<noteq> 0 then fn_glyph_width (g_font dk) else GFX_CELL_W)"

definition gfx_cell_height :: "desktop \<Rightarrow> u32" where
  "gfx_cell_height dk =
     gfx_scale_px dk (if fn_valid (g_font dk) \<and> fn_glyph_height (g_font dk) \<noteq> 0 then fn_glyph_height (g_font dk) else GFX_CELL_H)"

definition gfx_text_vertical_pad :: "desktop \<Rightarrow> u32 \<Rightarrow> u32" where
  "gfx_text_vertical_pad dk box_height =
     (let font_height = gfx_cell_height dk in if box_height > font_height then (box_height - font_height) div 2 else 0)"

definition gfx_taskbar_height :: "desktop \<Rightarrow> u32" where "gfx_taskbar_height dk = gfx_scale_px dk 18"
definition gfx_window_title_height :: "desktop \<Rightarrow> u32" where "gfx_window_title_height dk = gfx_scale_px dk 14"
definition gfx_window_border_width :: "desktop \<Rightarrow> u32" where "gfx_window_border_width dk = gfx_scale_px dk 1"
definition gfx_window_min_width :: "desktop \<Rightarrow> u32" where "gfx_window_min_width dk = gfx_scale_px dk 72"
definition gfx_window_min_height :: "desktop \<Rightarrow> u32" where "gfx_window_min_height dk = gfx_scale_px dk 48"
definition gfx_resize_handle_size :: "desktop \<Rightarrow> u32" where "gfx_resize_handle_size dk = gfx_scale_px dk 8"
definition gfx_start_button_x :: "desktop \<Rightarrow> u32" where "gfx_start_button_x dk = gfx_scale_px dk 4"
definition gfx_start_button_width :: "desktop \<Rightarrow> u32" where "gfx_start_button_width dk = gfx_scale_px dk 48"
definition gfx_start_menu_width :: "desktop \<Rightarrow> u32" where "gfx_start_menu_width dk = gfx_scale_px dk 128"
definition gfx_start_menu_item_height :: "desktop \<Rightarrow> u32" where "gfx_start_menu_item_height dk = gfx_scale_px dk 14"
definition gfx_settings_swatch_width :: "desktop \<Rightarrow> u32" where "gfx_settings_swatch_width dk = gfx_scale_px dk 18"
definition gfx_settings_swatch_height :: "desktop \<Rightarrow> u32" where "gfx_settings_swatch_height dk = gfx_scale_px dk 12"

definition start_menu_y :: "desktop \<Rightarrow> s32" where
  "start_menu_y dk = fb_h dk - gfx_taskbar_height dk - gfx_start_menu_item_height dk * of_nat START_MENU_ITEMS - gfx_scale_px dk 2"

definition settings_swatch_x :: "desktop \<Rightarrow> nat \<Rightarrow> s32" where
  "settings_swatch_x dk i =
     (let off = gfx_scale_px dk 10; step = gfx_settings_swatch_width dk + gfx_scale_px dk 8 in
      case for_find (\<lambda>k. gw_role (g_windows dk ! k) = ROLE_SETTINGS) 0 WIN_COUNT of
        Some k \<Rightarrow> gw_x (g_windows dk ! k) + off + of_nat i * step
      | None \<Rightarrow> off + of_nat i * step)"

definition settings_swatch_y :: "desktop \<Rightarrow> s32" where
  "settings_swatch_y dk =
     (case for_find (\<lambda>k. gw_role (g_windows dk ! k) = ROLE_SETTINGS) 0 WIN_COUNT of
        Some k \<Rightarrow> gw_y (g_windows dk ! k) + gfx_scale_px dk 30
      | None \<Rightarrow> gfx_scale_px dk 30)"

definition settings_scale_slider_rect :: "desktop \<Rightarrow> gui_window \<Rightarrow> s32 \<times> s32 \<times> u32 \<times> u32" where
  "settings_scale_slider_rect dk win =
     (let title_h = gfx_window_title_height dk; margin = gfx_scale_px dk 10; min_w = gfx_scale_px dk 48;
          x = gw_x win + margin; y = gw_y win + title_h + gfx_scale_px dk 52;
          w0 = (if gw_w win > 2 * margin then gw_w win - 2 * margin else min_w);
          w = (if w0 < min_w then min_w else w0);
          h = at_least_1 (gfx_scale_px dk 6)
      in (x, if (y - gw_y win) + h + gfx_scale_px dk 22 > gw_h win then gw_y win + title_h + gfx_scale_px dk 40 else y, w, h))"

definition gfx_window_role_min_width :: "desktop \<Rightarrow> gui_window_role \<Rightarrow> u32" where
  "gfx_window_role_min_width dk role =
     (if role = ROLE_SETTINGS then gfx_scale_px dk 118 else if role = ROLE_PROCESS_MANAGER then gfx_scale_px dk 164
      else if role = ROLE_TERMINAL then gfx_scale_px dk 160 else gfx_window_min_width dk)"

definition gfx_window_role_min_height :: "desktop \<Rightarrow> gui_window_role \<Rightarrow> u32" where
  "gfx_window_role_min_height dk role =
     (if role = ROLE_SETTINGS then gfx_scale_px dk 88 else if role = ROLE_PROCESS_MANAGER then gfx_scale_px dk 112
      else if role = ROLE_TERMINAL then gfx_scale_px dk 120 else gfx_window_min_height dk)"

section \<open>Layout\<close>

text \<open>The size is clamped first, then the position of the window of that size.\<close>

definition fit_window :: "desktop \<Rightarrow> gui_window \<Rightarrow> gui_window" where
  "fit_window dk w =
     (case gui_clamp_window_size w (gw_w w, gw_h w) (gfx_window_role_min_width dk (gw_role w)) (gfx_window_role_min_height dk (gw_role w))
        (fb_w dk) (fb_h dk) (gfx_taskbar_height dk) of (cw, ch) \<Rightarrow>
      let w1 = w\<lparr>gw_w := cw, gw_h := ch\<rparr> in
      case gui_clamp_window_position w1 (gw_x w, gw_y w) (fb_w dk) (fb_h dk) (gfx_taskbar_height dk) of (cx, cy) \<Rightarrow>
      w1\<lparr>gw_x := cx, gw_y := cy\<rparr>)"

definition place :: "s32 \<Rightarrow> s32 \<Rightarrow> u32 \<Rightarrow> u32 \<Rightarrow> gui_window \<Rightarrow> gui_window" where
  "place x y w h win = win\<lparr>gw_x := x, gw_y := y, gw_w := w, gw_h := h\<rparr>"

definition layout_terminal :: "desktop \<Rightarrow> bool \<Rightarrow> nat \<Rightarrow> gui_window \<Rightarrow> gui_window" where
  "layout_terminal dk reset i win =
     (let new_w = (if fb_w dk > gfx_scale_px dk 128 then fb_w dk - gfx_scale_px dk 128 else gfx_scale_px dk 160);
          top = gfx_scale_px dk 96 + gfx_taskbar_height dk;
          new_h = (if fb_h dk > top then fb_h dk - top else gfx_scale_px dk 120);
          win1 = (if reset then place (gfx_scale_px dk (56 + of_nat (i * 16))) (gfx_scale_px dk (28 + of_nat (i * 12))) new_w new_h win
                  else let win2 = (if gw_w win <s new_w then win\<lparr>gw_w := new_w\<rparr> else win)
                    in (if gw_h win2 <s new_h then win2\<lparr>gw_h := new_h\<rparr> else win2))
      in fit_window dk win1)"

definition layout_fixed :: "desktop \<Rightarrow> bool \<Rightarrow> u32 \<times> u32 \<times> u32 \<times> u32 \<Rightarrow> gui_window \<Rightarrow> gui_window" where
  "layout_fixed dk reset r win =
     (case r of (x, y, w, h) \<Rightarrow>
      fit_window dk (if reset then place (gfx_scale_px dk x) (gfx_scale_px dk y) (gfx_scale_px dk w) (gfx_scale_px dk h) win else win))"

definition gfx_layout_windows :: "bool \<Rightarrow> desktop \<Rightarrow> desktop" where
  "gfx_layout_windows reset dk =
     (let dk1 = on_window WIN_DESKTOP (place 0 0 (fb_w dk) (fb_h dk - gfx_taskbar_height dk)) dk;
          dk2 = foldl (\<lambda>d i. on_window (WIN_TERMINAL_FIRST + i) (layout_terminal d reset i) d) dk1 [0..<WIN_TERMINAL_SLOTS];
          dk3 = on_window WIN_SETTINGS (layout_fixed dk2 reset (18, 26, 118, 88)) dk2
      in on_window WIN_PROCESS_MANAGER (layout_fixed dk3 reset (34, 34, 164, 112)) dk3)"

section \<open>The visible area of a terminal\<close>

definition cap_cells :: "u32 \<Rightarrow> nat \<Rightarrow> nat" where
  "cap_cells n cap = (let m = (if n = 0 then 1 else unat n) in if m > cap then cap else m)"

definition visible_cols_for_window :: "desktop \<Rightarrow> gui_window option \<Rightarrow> nat" where
  "visible_cols_for_window dk tw =
     (case tw of
        None \<Rightarrow> VGA_WIDTH
      | Some w \<Rightarrow>
          let border = gfx_window_border_width dk;
              inner_w = (if gw_w w > 2 * border then gw_w w - 2 * border else 0)
          in cap_cells (inner_w div gfx_cell_width dk) GFX_MAX_COLS)"

definition visible_rows_for_window :: "desktop \<Rightarrow> gui_window option \<Rightarrow> nat" where
  "visible_rows_for_window dk tw =
     (case tw of
        None \<Rightarrow> VGA_HEIGHT
      | Some w \<Rightarrow>
          let title_h = gfx_window_title_height dk; border = gfx_window_border_width dk;
              inner_h = (if gw_h w > title_h + border then gw_h w - title_h - border else 0)
          in cap_cells (inner_h div gfx_cell_height dk) GFX_MAX_ROWS)"

text \<open>The window that the calling task prints to.\<close>

definition io_window :: "desktop \<Rightarrow> u32 \<Rightarrow> gui_window option" where
  "io_window dk tid =
     map_option (\<lambda>i. g_windows dk ! i)
       (case for_find (\<lambda>i. g_terminal_task_ids (dk_disp dk) ! i = tid) 0 WIN_TERMINAL_SLOTS of
          Some i \<Rightarrow> terminal_window_for_session (g_windows dk) i
        | None \<Rightarrow> terminal_window dk)"

definition task_id :: "desktop \<Rightarrow> u32" where
  "task_id dk = scheduler_current_tid (dk_sched dk)"

definition visible_cols :: "desktop \<Rightarrow> nat" where
  "visible_cols dk =
     (if dk_mode dk \<noteq> VIDEO_MODE_GRAPHICS then VGA_WIDTH
      else if g_panic_mode dk then cap_cells (fb_w dk div gfx_cell_width dk) GFX_MAX_COLS
      else visible_cols_for_window dk (io_window dk (task_id dk)))"

definition visible_rows :: "desktop \<Rightarrow> nat" where
  "visible_rows dk =
     (if dk_mode dk \<noteq> VIDEO_MODE_GRAPHICS then VGA_HEIGHT
      else if g_panic_mode dk then cap_cells (fb_h dk div gfx_cell_height dk) GFX_MAX_ROWS
      else visible_rows_for_window dk (io_window dk (task_id dk)))"

section \<open>Sessions and processes\<close>

definition u32_to_dec_string :: "u32 \<Rightarrow> nat \<Rightarrow> u8 list" where
  "u32_to_dec_string v out_size =
     (if out_size = 0 then [] else take (out_size - 1) (if v = 0 then [48] else digits_before 10 (unat v) []))"

definition terminal_title :: "nat \<Rightarrow> u8 list" where
  "terminal_title s =
     (if s = 0 then str ''Terminal'' else str ''Terminal '' @ take 6 (u32_to_dec_string (of_nat (s + 1)) 8))"

text \<open>\<open>entries\<close> are the addresses of the bootstrap of a task and of \<^verbatim>\<open>cli_task_entry\<close>.\<close>

definition spawn_terminal_task_for_session :: "u32 \<times> u32 \<Rightarrow> nat \<Rightarrow> desktop \<Rightarrow> u32 \<times> desktop" where
  "spawn_terminal_task_for_session entries s dk =
     (if s \<ge> WIN_TERMINAL_SLOTS then (0xFFFFFFFF, dk)
      else case scheduler_create_task (fst entries) (dk_sched dk) (snd entries) (of_nat s) (Some (str ''cli'')) TASK_MODE_KERNEL of
        (tid, sc) \<Rightarrow>
          let dk1 = dk\<lparr>dk_sched := sc\<rparr> in
          if tid = 0xFFFFFFFF then (0xFFFFFFFF, dk1)
          else (tid, dk1\<lparr>dk_disp := (dk_disp dk1)\<lparr>g_terminal_task_ids := (g_terminal_task_ids (dk_disp dk1))[s := tid]\<rparr>\<rparr>))"

definition session_has_task :: "desktop \<Rightarrow> nat \<Rightarrow> bool" where
  "session_has_task dk i =
     (let s = terminal_session_from_window (g_windows dk ! i) in s \<ge> 0 \<and> g_terminal_task_ids (dk_disp dk) ! nat s \<noteq> 0xFFFFFFFF)"

definition find_hidden_terminal_slot :: "desktop \<Rightarrow> int" where
  "find_hidden_terminal_slot dk =
     (case for_find (\<lambda>i. gw_role (g_windows dk ! i) = ROLE_TERMINAL \<and> \<not> gw_visible (g_windows dk ! i) \<and> session_has_task dk i)
        WIN_TERMINAL_FIRST (WIN_TERMINAL_LAST + 1) of
        Some i \<Rightarrow> int i
      | None \<Rightarrow> -1)"

definition visible_terminal_count :: "desktop \<Rightarrow> nat" where
  "visible_terminal_count dk =
     length (filter (\<lambda>i. gw_role (g_windows dk ! i) = ROLE_TERMINAL \<and> gw_visible (g_windows dk ! i)) [WIN_TERMINAL_FIRST..<WIN_TERMINAL_LAST + 1])"

definition update_process_usage_sample :: "desktop \<Rightarrow> desktop" where
  "update_process_usage_sample dk =
     (case find_down (\<lambda>i. let w = g_windows dk ! i in gw_visible w \<and> gw_role w \<noteq> ROLE_PROCESS_MANAGER \<and> gw_role w \<noteq> ROLE_DESKTOP)
        WIN_TERMINAL_FIRST WIN_COUNT of
        Some i \<Rightarrow> dk\<lparr>g_process_cpu_ticks := (g_process_cpu_ticks dk)[i := g_process_cpu_ticks dk ! i + 1]\<rparr>
      | None \<Rightarrow> dk)"

definition process_manager_visible :: "desktop \<Rightarrow> bool" where
  "process_manager_visible dk \<longleftrightarrow> gw_visible (g_windows dk ! WIN_PROCESS_MANAGER)"

text \<open>The list that the callers' arrays of \<^verbatim>\<open>WIN_COUNT\<close> indices always hold.\<close>

definition build_running_process_list :: "desktop \<Rightarrow> nat list" where
  "build_running_process_list dk =
     filter (\<lambda>i. gw_role (g_windows dk ! i) = ROLE_TERMINAL \<and> gw_visible (g_windows dk ! i) \<and> session_has_task dk i)
       [WIN_TERMINAL_FIRST..<WIN_COUNT]"

definition process_manager_list_y :: "desktop \<Rightarrow> gui_window \<Rightarrow> s32" where
  "process_manager_list_y dk w = gw_y w + gfx_window_title_height dk + gfx_scale_px dk 2 + 3 * gfx_cell_height dk"

text \<open>A point in a rectangle.\<close>

definition in_box :: "s32 \<Rightarrow> s32 \<Rightarrow> s32 \<Rightarrow> s32 \<Rightarrow> s32 \<Rightarrow> s32 \<Rightarrow> bool" where
  "in_box x y bx by bw bh \<longleftrightarrow> bx \<le>s x \<and> x <s bx + bw \<and> by \<le>s y \<and> y <s by + bh"

definition close_width :: "desktop \<Rightarrow> u32" where
  "close_width dk =
     (let title_h = gfx_window_title_height dk in if title_h > gfx_scale_px dk 4 then title_h - gfx_scale_px dk 4 else title_h)"

definition window_close_button_hit :: "desktop \<Rightarrow> gui_window \<Rightarrow> s32 \<Rightarrow> s32 \<Rightarrow> bool" where
  "window_close_button_hit dk w x y =
     (if gw_role w = ROLE_DESKTOP then False
      else in_box x y (gw_x w + gw_w w - close_width dk - gfx_scale_px dk 2) (gw_y w + gfx_scale_px dk 2) (close_width dk) (close_width dk))"

definition process_manager_kill_button_hit :: "desktop \<Rightarrow> gui_window \<Rightarrow> s32 \<Rightarrow> s32 \<Rightarrow> bool" where
  "process_manager_kill_button_hit dk w x y =
     (if gw_role w \<noteq> ROLE_PROCESS_MANAGER then False
      else in_box x y (gw_x w + gfx_scale_px dk 10) (gw_y w + gw_h w - gfx_cell_height dk - gfx_scale_px dk 8)
             (gfx_scale_px dk 46) (gfx_cell_height dk))"

definition process_manager_kill_selected :: "desktop \<Rightarrow> desktop" where
  "process_manager_kill_selected dk =
     (let s = g_pm_selected_index dk in
      if s < int WIN_TERMINAL_FIRST \<or> s \<ge> int WIN_COUNT then dk
      else let win = g_windows dk ! nat s; killed_session = terminal_session_from_window win;
               dk1 = (if gw_visible win then
                        (let d = on_window (nat s) (\<lambda>w. w\<lparr>gw_visible := False\<rparr>) dk
                         in d\<lparr>g_drag_window := (if g_drag_window d = s then -1 else g_drag_window d),
                              g_resize_window := (if g_resize_window d = s then -1 else g_resize_window d)\<rparr>)
                      else dk);
               dk2 = (if killed_session \<ge> 0 \<and> killed_session = focus dk1 then ensure_valid_terminal_focus dk1 else dk1)
           in dk2\<lparr>g_pm_selected_index := -1\<rparr>)"

text \<open>The value says whether the click was for the process manager.\<close>

definition process_manager_handle_click :: "nat \<Rightarrow> s32 \<Rightarrow> s32 \<Rightarrow> desktop \<Rightarrow> bool \<times> desktop" where
  "process_manager_handle_click wi x y dk =
     (let win = g_windows dk ! wi in
      if gw_role win \<noteq> ROLE_PROCESS_MANAGER then (False, dk)
      else if process_manager_kill_button_hit dk win x y then (True, process_manager_kill_selected dk)
      else let indices = build_running_process_list dk; list_x = gw_x win + gfx_scale_px dk 8; list_y = process_manager_list_y dk win;
               list_w = gw_w win - gfx_scale_px dk 16; row_h = gfx_cell_height dk in
        if x <s list_x \<or> list_x + list_w \<le>s x \<or> y <s list_y then (False, dk)
        else case for_find (\<lambda>i. let ry = list_y + of_nat i * row_h in ry \<le>s y \<and> y <s ry + row_h) 0 (length indices) of
               Some i \<Rightarrow> (True, dk\<lparr>g_pm_selected_index := int (indices ! i)\<rparr>)
             | None \<Rightarrow> (False, dk))"

end
