(* ===== verification/Desktop_Draw.thy ===== *)
theory Desktop_Draw
  imports Desktop_State
begin

text \<open>
  Drawing the desktop (\<^verbatim>\<open>src/video/display.c\<close>): labels, the task bar, the start menu, the window frames, the contents
  of the settings, of the process manager and of the terminals, and the whole scene.  A function on frame buffers draws with the sizes
  of the desktop it is given, which drawing does not change.
\<close>

section \<open>Labels and boxes\<close>

text \<open>Calls of \<^verbatim>\<open>framebuffer_fill_rect\<close> one after the other.\<close>

definition rects :: "(u32 \<times> u32 \<times> u32 \<times> u32 \<times> u8) list \<Rightarrow> framebuffer \<Rightarrow> framebuffer" where
  "rects rs fb = foldl (\<lambda>fb (x, y, w, h, c). framebuffer_fill_rect x y w h c fb) fb rs"

definition draw_glyph :: "desktop \<Rightarrow> u32 \<Rightarrow> u32 \<Rightarrow> u8 list option \<Rightarrow> u8 \<Rightarrow> u8 \<Rightarrow> framebuffer \<Rightarrow> framebuffer" where
  "draw_glyph dk = gfx_draw_scaled_glyph (g_font dk) (gfx_ui_scale_half dk) (g_interactive_move_active dk)"

definition gfx_render_label :: "desktop \<Rightarrow> u32 \<Rightarrow> u32 \<Rightarrow> u8 list \<Rightarrow> u8 \<Rightarrow> u8 \<Rightarrow> framebuffer \<Rightarrow> framebuffer" where
  "gfx_render_label dk x_start y_start text color bg_color fb =
     snd (foldl (\<lambda>(x, fb) c. (x + gfx_cell_width dk, draw_glyph dk x y_start (font_glyph_at (g_font dk) (ucast c)) color bg_color fb))
       (x_start, fb) (cstr text))"

section \<open>Task bar and start menu\<close>

definition gfx_render_taskbar :: "desktop \<Rightarrow> framebuffer \<Rightarrow> framebuffer" where
  "gfx_render_taskbar dk fb =
     (let taskbar_h = gfx_taskbar_height dk; start_x = gfx_start_button_x dk; start_w = gfx_start_button_width dk;
          top = fb_h dk - taskbar_h; s = gfx_scale_px dk;
          fb1 = rects
            [(0, top, fb_w dk, taskbar_h, g_taskbar_bg dk), (0, top, fb_w dk, 1, 15), (0, fb_h dk - 1, fb_w dk, 1, 0),
             (start_x, top + s 3, start_w, taskbar_h - s 6, 7), (start_x, top + s 3, start_w, 1, 15),
             (start_x, top + s 3, 1, taskbar_h - s 6, 15), (start_x, fb_h dk - s 3, start_w, 1, 8),
             (start_x + start_w - 1, top + s 3, 1, taskbar_h - s 6, 8)] fb;
          fb2 = gfx_render_label dk (s 12) (top + gfx_text_vertical_pad dk taskbar_h) (str ''START'') (g_taskbar_text dk) (g_taskbar_bg dk) fb1
      in gfx_render_label dk (fb_w dk - s 40) (top + gfx_text_vertical_pad dk taskbar_h) (str ''12:34'') (g_taskbar_text dk) (g_taskbar_bg dk) fb2)"

definition menu_items :: "u8 list list" where
  "menu_items = [str ''NEW TERM'', str ''SETTINGS'', str ''TASKMGR'', str ''ABOUT'']"

definition gfx_render_start_menu :: "desktop \<Rightarrow> framebuffer \<Rightarrow> framebuffer" where
  "gfx_render_start_menu dk fb =
     (if \<not> g_start_menu_open dk then fb
      else let x = gfx_start_button_x dk; y = start_menu_y dk; menu_w = gfx_start_menu_width dk; item_h = gfx_start_menu_item_height dk;
               menu_h = item_h * of_nat START_MENU_ITEMS;
               fb1 = rects [(x, y, menu_w, menu_h, 7), (x, y, menu_w, 1, 15), (x, y, 1, menu_h, 15), (x + (menu_h - 1), y, menu_w, 1, 8),
                            (x + menu_w - 1, y, 1, menu_h, 8)] fb
        in foldl (\<lambda>fb i. let iy = y + of_nat i * item_h;
               fb2 = (if i \<noteq> 0 then framebuffer_fill_rect (x + gfx_scale_px dk 2) iy (menu_w - gfx_scale_px dk 4) 1 8 fb else fb)
             in gfx_render_label dk (x + gfx_scale_px dk 8) (iy + gfx_text_vertical_pad dk item_h) (menu_items ! i) 0 7 fb2)
           fb1 [0..<START_MENU_ITEMS])"

section \<open>Window contents\<close>

definition edges :: "u32 \<Rightarrow> u32 \<Rightarrow> u32 \<Rightarrow> u32 \<Rightarrow> u8 \<Rightarrow> u8 \<Rightarrow> u8 \<Rightarrow> (u32 \<times> u32 \<times> u32 \<times> u32 \<times> u8) list" where
  "edges x y w h body light dark =
     [(x, y, w, h, body), (x, y, w, 1, light), (x, y, 1, h, light), (x, y + h - 1, w, 1, dark), (x + w - 1, y, 1, h, dark)]"

definition gfx_render_settings_content :: "desktop \<Rightarrow> gui_window \<Rightarrow> framebuffer \<Rightarrow> framebuffer" where
  "gfx_render_settings_content dk win fb =
     (let s = gfx_scale_px dk; sy = settings_swatch_y dk; swatch_w = gfx_settings_swatch_width dk; swatch_h = gfx_settings_swatch_height dk;
          title_h = gfx_window_title_height dk; body = gw_body_bg win;
          fb1 = gfx_render_label dk (gw_x win + s 10) (gw_y win + title_h + s 4) (str ''THEME'') 0 body fb;
          fb2 = foldl (\<lambda>fb i. rects (edges (settings_swatch_x dk i) sy swatch_w swatch_h (th_desktop_bg (g_themes ! i))
                    (if g_active_theme dk = of_nat i then 15 else 8) 0) fb) fb1 [0..<THEME_COUNT];
          fb3 = gfx_render_label dk (gw_x win + s 10) (gw_y win + title_h + s 36) (str ''CLICK SWATCH'') 0 body fb2
      in case settings_scale_slider_rect dk win of (slider_x, slider_y, slider_w, slider_h) \<Rightarrow>
        let half = gfx_ui_scale_half dk;
            scale_value = (if half < 2 then 2 else if half > 4 then 4 else half);
            knob_size = slider_h + s 2;
            knob_x = slider_x + ((scale_value - 2) * (slider_w - knob_size)) div 2;
            knob_y = slider_y - gfx_ui_scale dk;
            fb4 = rects (edges slider_x slider_y slider_w slider_h 8 15 0 @ edges knob_x knob_y knob_size knob_size 7 15 8) fb3;
            scale_text = (if scale_value \<le> 2 then str ''SCALE: 1X'' else if scale_value = 3 then str ''SCALE: 1.5X'' else str ''SCALE: 2X'');
            control_bottom = (if knob_y + knob_size > slider_y + slider_h then knob_y + knob_size else slider_y + slider_h)
        in gfx_render_label dk (gw_x win + s 10) (control_bottom + s 6) scale_text 0 body fb4)"

text \<open>Writing into the line buffer of 56 bytes.\<close>

definition line_put :: "u8 list \<Rightarrow> u8 list \<Rightarrow> u8 list" where
  "line_put line s = foldl (\<lambda>l c. if length l + 1 < 56 then l @ [c] else l) line s"

definition line_pad :: "nat \<Rightarrow> u8 list \<Rightarrow> u8 list" where
  "line_pad n line = line_put line (replicate (n - length line) 32)"

definition process_line :: "desktop \<Rightarrow> u32 \<Rightarrow> nat \<Rightarrow> u8 list" where
  "process_line dk usage idx =
     (let win = g_windows dk ! idx; session = terminal_session_from_window win;
          tid = (if session \<ge> 0 then g_terminal_task_ids (dk_disp dk) ! nat session else 0xFFFFFFFF);
          l1 = line_pad 8 (line_put [] (take 7 (cstr (gw_title win))));
          l2 = line_put l1 (if tid \<noteq> 0xFFFFFFFF then u32_to_dec_string tid 16 else [45])
      in line_put (line_pad 13 l2) (u32_to_dec_string usage 16 @ [37]))"

text \<open>The rows of the list, until the next one would reach the button.\<close>

fun process_rows :: "desktop \<Rightarrow> gui_window \<Rightarrow> u32 \<Rightarrow> u32 \<Rightarrow> nat list \<Rightarrow> u32 \<Rightarrow> framebuffer \<Rightarrow> framebuffer" where
  "process_rows dk win total_ticks btn_y [] y fb = fb"
| "process_rows dk win total_ticks btn_y (idx # idxs) y fb =
     (let s = gfx_scale_px dk; line_h = gfx_cell_height dk;
          row_w = (if gw_w win > s 16 then gw_w win - s 16 else gw_w win);
          usage = (if total_ticks > 0 then (g_process_cpu_ticks dk ! idx * 100) div total_ticks else 0);
          selected = (int idx = g_pm_selected_index dk);
          fb1 = (if selected then framebuffer_fill_rect (gw_x win + s 8) (y - 1) row_w line_h 3 fb else fb);
          fb2 = gfx_render_label dk (gw_x win + s 10) y (process_line dk usage idx) 0 (if selected then 3 else gw_body_bg win) fb1;
          y1 = y + line_h
      in if y1 + line_h \<ge> btn_y then fb2 else process_rows dk win total_ticks btn_y idxs y1 fb2)"

definition on_fb :: "(framebuffer \<Rightarrow> framebuffer) \<Rightarrow> desktop \<Rightarrow> desktop" where
  "on_fb f dk = dk\<lparr>dk_fb := f (dk_fb dk)\<rparr>"

definition gfx_render_process_manager_content :: "gui_window \<Rightarrow> desktop \<Rightarrow> desktop" where
  "gfx_render_process_manager_content win dk =
     (let s = gfx_scale_px dk; line_h = gfx_cell_height dk; body = gw_body_bg win;
          y = gw_y win + gfx_window_title_height dk + s 2;
          btn_w = s 46; btn_h = gfx_cell_height dk; btn_x = gw_x win + s 10; btn_y = gw_y win + gw_h win - btn_h - s 8;
          indices = build_running_process_list dk;
          total_ticks = foldl (\<lambda>t i. t + g_process_cpu_ticks dk ! i) 0 indices;
          dk1 = (if g_pm_selected_index dk \<ge> int WIN_TERMINAL_FIRST \<and> g_pm_selected_index dk \<notin> set (map int indices)
                 then dk\<lparr>g_pm_selected_index := -1\<rparr> else dk);
          btn_bg = (if g_pm_selected_index dk1 \<ge> 0 then 12 else 8) :: u8
      in on_fb (\<lambda>fb.
           let fb1 = gfx_render_label dk1 (gw_x win + s 10) y (str ''PROCESS MANAGER'') 0 body fb;
               fb2 = gfx_render_label dk1 (gw_x win + s 10) (y + line_h)
                       (line_put [] (str ''RUNNING: '' @ u32_to_dec_string (of_nat (length indices)) 16)) 0 body fb1;
               fb3 = gfx_render_label dk1 (gw_x win + s 10) (y + line_h + line_h) (str ''NAME   TID  CPU%'') 0 body fb2;
               fb4 = process_rows dk1 win total_ticks btn_y indices (y + line_h + line_h + line_h) fb3;
               fb5 = rects (edges btn_x btn_y btn_w btn_h btn_bg 15 0) fb4
           in gfx_render_label dk1 (btn_x + s 4) (btn_y + gfx_text_vertical_pad dk btn_h) (str ''KILL'') 0 btn_bg fb5) dk1)"

text \<open>A cell of a terminal: its background and its character.\<close>

definition draw_cell :: "desktop \<Rightarrow> u8 list \<Rightarrow> u32 \<Rightarrow> u32 \<Rightarrow> u32 \<Rightarrow> nat \<Rightarrow> nat \<Rightarrow> framebuffer \<Rightarrow> framebuffer" where
  "draw_cell dk cells ox oy pad row col fb =
     (let px = ox + of_nat col * gfx_cell_width dk; py = oy + of_nat row * gfx_cell_height dk in
      draw_glyph dk (px + pad) (py + pad) (font_glyph_at (g_font dk) (ucast (cells ! (row * VGA_WIDTH + col)))) (g_gfx_fg dk) (g_gfx_bg dk)
        (framebuffer_fill_rect px py (gfx_cell_width dk) (gfx_cell_height dk) (g_gfx_bg dk) fb))"

definition window_session :: "gui_window \<Rightarrow> nat" where
  "window_session win = (let s = terminal_session_from_window win in if s \<ge> 0 then nat s else 0)"

definition gfx_render_terminal_content :: "desktop \<Rightarrow> gui_window \<Rightarrow> framebuffer \<Rightarrow> framebuffer" where
  "gfx_render_terminal_content dk win fb =
     (let ts = terminal_state_for_session dk (window_session win);
          ox = gw_x win + gfx_window_border_width dk; oy = gw_y win + gfx_window_title_height dk
      in foldl (\<lambda>fb row. foldl (\<lambda>fb col. draw_cell dk (text_cells ts) ox oy 0 row col fb) fb [0..<visible_cols_for_window dk (Some win)])
           fb [0..<visible_rows_for_window dk (Some win)])"

definition clean_cell :: "nat \<Rightarrow> nat \<Rightarrow> terminal_state \<Rightarrow> terminal_state" where
  "clean_cell row col ts = ts\<lparr>text_cells_dirty := (text_cells_dirty ts)[row * VGA_WIDTH + col := False]\<rparr>"

definition gfx_render_terminal_cell :: "nat \<Rightarrow> nat \<Rightarrow> nat \<Rightarrow> desktop \<Rightarrow> desktop" where
  "gfx_render_terminal_cell wi row col dk =
     (let win = g_windows dk ! wi; s = window_session win in
      if row \<ge> visible_rows_for_window dk (Some win) \<or> col \<ge> visible_cols_for_window dk (Some win) then dk
      else on_session (if s \<ge> WIN_TERMINAL_SLOTS then 0 else s) (clean_cell row col)
             (on_fb (draw_cell dk (text_cells (terminal_state_for_session dk s)) (gw_x win + gfx_window_border_width dk)
                (gw_y win + gfx_window_title_height dk) 0 row col) dk))"

section \<open>Windows\<close>

text \<open>The two diagonals of the close button.\<close>

definition close_cross :: "u32 \<Rightarrow> u32 \<Rightarrow> u32 \<Rightarrow> u32 \<Rightarrow> u32 \<Rightarrow> (u32 \<times> u32 \<times> u32 \<times> u32 \<times> u8) list" where
  "close_cross close_x close_y close_w inset line_w =
     (if close_w > 2 * inset + 1
      then concat (map (\<lambda>i. [(close_x + inset + of_nat i, close_y + inset + of_nat i, line_w, line_w, 0),
                             (close_x + close_w - inset - 1 - of_nat i, close_y + inset + of_nat i, line_w, line_w, 0)])
             [0..<unat (close_w - 2 * inset)])
      else [])"

definition window_frame :: "desktop \<Rightarrow> gui_window \<Rightarrow> framebuffer \<Rightarrow> framebuffer" where
  "window_frame dk win fb =
     (let x = gw_x win; y = gw_y win; w = gw_w win; h = gw_h win; s = gfx_scale_px dk;
          border = gfx_window_border_width dk; title_h = gfx_window_title_height dk; resize = gfx_resize_handle_size dk;
          close_w = close_width dk; close_x = x + w - close_w - s 2; close_y = y + s 2;
          fb1 = rects [(x, y, w, h, gw_body_bg win), (x, y, w, title_h, gw_title_bg win), (x, y, w, border, 15), (x, y, border, h, 15),
                       (x, y + h - border, w, border, 8), (x + w - border, y, border, h, 8)] fb;
          fb2 = (if w > resize + 2 \<and> h > resize + 2
                 then rects (edges (x + w - resize - 1) (y + h - resize - 1) resize resize 7 15 8) fb1 else fb1);
          fb3 = gfx_render_label dk (x + s 4) (y + gfx_text_vertical_pad dk title_h) (gw_title win) 0 (gw_title_bg win) fb2
      in rects (edges close_x close_y close_w close_w 12 15 8 @ close_cross close_x close_y close_w (gfx_ui_scale dk) (gfx_ui_scale dk)) fb3)"

definition gfx_render_window :: "desktop \<Rightarrow> nat \<Rightarrow> desktop" where
  "gfx_render_window dk i =
     (let win = g_windows dk ! i in
      if \<not> gw_visible win then dk
      else if gw_role win = ROLE_DESKTOP then on_fb (framebuffer_fill_rect (gw_x win) (gw_y win) (gw_w win) (gw_h win) (gw_body_bg win)) dk
      else let dk1 = on_fb (window_frame dk win) dk in
        if g_interactive_move_active dk \<and> int i \<noteq> g_drag_window dk \<and> int i \<noteq> g_resize_window dk then dk1
        else (case gw_role win of
                ROLE_TERMINAL \<Rightarrow> on_fb (gfx_render_terminal_content dk1 win) dk1
              | ROLE_SETTINGS \<Rightarrow> on_fb (gfx_render_settings_content dk1 win) dk1
              | ROLE_PROCESS_MANAGER \<Rightarrow> gfx_render_process_manager_content win dk1
              | _ \<Rightarrow> dk1))"

definition gfx_render_windows :: "desktop \<Rightarrow> desktop" where
  "gfx_render_windows dk = foldl gfx_render_window dk [0..<WIN_COUNT]"

section \<open>The scene\<close>

definition gfx_render_cursor :: "desktop \<Rightarrow> desktop" where
  "gfx_render_cursor dk =
     (case terminal_window dk of
        None \<Rightarrow> dk
      | Some wi \<Rightarrow>
          (case terminal_state_for_active_ui dk of (si, dk1) \<Rightarrow>
             let tw = g_windows dk ! wi; ts = g_terminal_states (dk_disp dk1) ! si; cell_w = gfx_cell_width dk1; cell_h = gfx_cell_height dk1;
                 scale = gfx_ui_scale dk1;
                 px = gw_x tw + gfx_window_border_width dk1 + of_nat (cursor_col ts) * cell_w;
                 py = gw_y tw + gfx_window_title_height dk1 + of_nat (cursor_row ts) * cell_h + (cell_h - scale);
                 underline_w = (if cell_w > 2 * scale then cell_w - 2 * scale else cell_w)
             in on_fb (framebuffer_fill_rect (px + scale) py underline_w scale 12) dk1))"

definition gfx_render_color_spectrum :: "framebuffer \<Rightarrow> framebuffer" where
  "gfx_render_color_spectrum fb =
     foldl (\<lambda>fb x. foldl (\<lambda>fb y. framebuffer_put_pixel (32 + of_nat x) (32 + of_nat y) (of_nat x) fb) fb [0..<12]) fb [0..<256]"

definition gfx_render_test_overlay :: "desktop \<Rightarrow> framebuffer \<Rightarrow> framebuffer" where
  "gfx_render_test_overlay dk fb =
     gfx_render_color_spectrum
       (framebuffer_fill_rect 0 (fb_h dk - gfx_scale_px dk 4) (fb_w dk) (gfx_scale_px dk 4) 0 (framebuffer_clear 15 fb))"

definition scene_background :: "desktop \<Rightarrow> desktop" where
  "scene_background dk =
     on_fb (if g_graphics_test_overlay dk \<and> \<not> g_gfx_disable_overlay dk then gfx_render_test_overlay dk else framebuffer_clear (g_gfx_bg dk)) dk"

definition scene_front :: "desktop \<Rightarrow> desktop" where
  "scene_front dk =
     (let dk1 = gfx_render_windows dk
      in gfx_render_cursor (on_fb (\<lambda>fb. gfx_render_start_menu dk1 (gfx_render_taskbar dk1 fb)) dk1))"

definition gfx_render_full :: "desktop \<Rightarrow> desktop" where
  "gfx_render_full dk =
     (case terminal_state_for_active_ui dk of (si, dk1) \<Rightarrow>
        let dk2 = scene_background dk1; cols = visible_cols dk2;
            dk3 = (if cursor_col (g_terminal_states (dk_disp dk2) ! si) \<ge> cols
                   then on_session si (\<lambda>ts. ts\<lparr>cursor_col := cols - 1\<rparr>) dk2 else dk2)
        in scene_front dk3)"

definition gfx_render_scene_no_cursor :: "desktop \<Rightarrow> desktop" where
  "gfx_render_scene_no_cursor dk = scene_front (scene_background dk)"

definition gfx_render_panic_full :: "desktop \<Rightarrow> desktop" where
  "gfx_render_panic_full dk =
     (case terminal_state_for_active_ui dk of (si, dk1) \<Rightarrow>
        let cols = visible_cols dk1; rows = visible_rows dk1; pad = (if gfx_ui_scale dk1 > 1 then 1 else 0);
            cells = text_cells (g_terminal_states (dk_disp dk1) ! si);
            dk2 = on_fb (\<lambda>fb. foldl (\<lambda>fb row. foldl (\<lambda>fb col. draw_cell dk1 cells 0 0 pad row col fb) fb [0..<cols])
                          (framebuffer_clear (g_gfx_bg dk1) fb) [0..<rows]) dk1
        in on_session si (\<lambda>ts. foldl (\<lambda>ts row. foldl (\<lambda>ts col. clean_cell row col ts) ts [0..<cols]) ts [0..<rows]) dk2)"

definition no_dirty_rect :: "terminal_state \<Rightarrow> terminal_state" where
  "no_dirty_rect ts = ts\<lparr>dirty_any := False, dirty_min_row := 0, dirty_max_row := 0, dirty_min_col := 0, dirty_max_col := 0\<rparr>"

definition clear_visible_text_dirty :: "desktop \<Rightarrow> desktop" where
  "clear_visible_text_dirty dk =
     (case terminal_state_for_active_ui dk of (si, dk1) \<Rightarrow>
        let cols = visible_cols dk1; rows = visible_rows dk1
        in on_session si (\<lambda>ts. no_dirty_rect (foldl (\<lambda>ts row. foldl (\<lambda>ts col. clean_cell row col ts) ts [0..<cols]) ts [0..<rows])) dk1)"

end
