(* ===== verification/Desktop.thy ===== *)
theory Desktop
  imports Desktop_Draw
begin

text \<open>
  The operations of \<^verbatim>\<open>src/video/display.c\<close> on the desktop: printing with the visible area of the window, refreshing the
  screen, sessions, start-up and the mouse.  A flush of the frame buffer may wait for the vertical retrace; the value \<open>None\<close> is a wait
  that does not end.
\<close>

section \<open>Printing\<close>

definition scroll_in :: "nat \<Rightarrow> nat \<Rightarrow> terminal_state \<Rightarrow> bool \<times> terminal_state" where
  "scroll_in rows cols ts =
     (if cursor_row ts < rows then (False, ts)
      else let ts1 = foldl (\<lambda>ts row. foldl (\<lambda>ts col. copy_up ts row col) ts [0..<cols]) ts [1..<rows];
               ts2 = foldl (\<lambda>ts col. let i = (rows - 1) * VGA_WIDTH + col in
                        ts\<lparr>text_cells := (text_cells ts)[i := SPACE], text_cells_dirty := (text_cells_dirty ts)[i := True]\<rparr>) ts1 [0..<cols]
           in (True, terminal_mark_dirty_visible (ts2\<lparr>cursor_row := rows - 1\<rparr>) rows cols))"

definition put_cell_in :: "nat \<Rightarrow> nat \<Rightarrow> terminal_state \<Rightarrow> u8 \<Rightarrow> bool \<times> terminal_state" where
  "put_cell_in rows cols ts c =
     (if c = 10 then scroll_in rows cols (ts\<lparr>cursor_col := 0, cursor_row := cursor_row ts + 1\<rparr>)
      else if c = 8 then
        (False, if cursor_col ts > 0
                then set_cell (ts\<lparr>cursor_col := cursor_col ts - 1\<rparr>) (cursor_row ts) (cursor_col ts - 1) SPACE else ts)
      else let ts1 = set_cell ts (cursor_row ts) (cursor_col ts) c;
               ts2 = ts1\<lparr>cursor_col := cursor_col ts1 + 1\<rparr>
           in if cursor_col ts2 \<ge> cols
              then scroll_in rows cols (ts2\<lparr>cursor_col := 0, cursor_row := cursor_row ts2 + 1\<rparr>)
              else (False, ts2))"

definition io_slot :: "desktop \<Rightarrow> nat" where
  "io_slot dk = io_session (dk_disp dk) (task_id dk)"

definition put_char_quiet :: "u8 \<Rightarrow> desktop \<Rightarrow> desktop" where
  "put_char_quiet c dk =
     (let si = io_slot dk;
          dk1 = (if serial_ready (dk_disp dk) \<and> dk_mode dk \<noteq> VIDEO_MODE_GRAPHICS
                 then dk\<lparr>dk_disp := (dk_disp dk)\<lparr>serial_out := serial_out (dk_disp dk) @ [c]\<rparr>\<rparr> else dk);
          r = put_cell_in (visible_rows dk1) (visible_cols dk1) (g_terminal_states (dk_disp dk1) ! si) c;
          dk2 = on_session si (\<lambda>_. snd r) dk1
      in if fst r then force_redraw True dk2 else dk2)"

section \<open>Refreshing\<close>

definition on_pointer :: "(mouse \<times> framebuffer \<Rightarrow> mouse \<times> framebuffer) \<Rightarrow> desktop \<Rightarrow> desktop" where
  "on_pointer f dk = (case f (dk_mouse dk, dk_fb dk) of (ms, fb) \<Rightarrow> dk\<lparr>dk_mouse := ms, dk_fb := fb\<rparr>)"

definition flush_desktop :: "'m ports \<Rightarrow> desktop \<times> 'm \<Rightarrow> (desktop \<times> 'm) option" where
  "flush_desktop pio dm = map_option (\<lambda>(fb, m). ((fst dm)\<lparr>dk_fb := fb\<rparr>, m)) (framebuffer_flush pio (dk_fb (fst dm), snd dm))"

definition render_cell_of :: "nat option \<Rightarrow> nat \<Rightarrow> nat \<Rightarrow> desktop \<Rightarrow> desktop" where
  "render_cell_of tw row col dk = (case tw of None \<Rightarrow> dk | Some wi \<Rightarrow> gfx_render_terminal_cell wi row col dk)"

definition render_dirty :: "nat option \<Rightarrow> nat \<Rightarrow> nat \<Rightarrow> nat \<Rightarrow> desktop \<Rightarrow> desktop" where
  "render_dirty tw si rows cols dk =
     (let ts = g_terminal_states (dk_disp dk) ! si; cut = (\<lambda>n v. if v \<ge> n then n - 1 else v) in
      if \<not> dirty_any ts then dk
      else on_session si no_dirty_rect
        (foldl (\<lambda>dk row. foldl (\<lambda>dk col.
             if text_cells_dirty (g_terminal_states (dk_disp dk) ! si) ! (row * VGA_WIDTH + col) then render_cell_of tw row col dk else dk)
           dk [cut cols (dirty_min_col ts)..<Suc (cut cols (dirty_max_col ts))])
         dk [cut rows (dirty_min_row ts)..<Suc (cut rows (dirty_max_row ts))]))"

definition cursor_of :: "desktop \<Rightarrow> nat \<Rightarrow> nat \<times> nat" where
  "cursor_of dk si = (let ts = g_terminal_states (dk_disp dk) ! si in (cursor_row ts, cursor_col ts))"

definition incremental_scene :: "desktop \<Rightarrow> desktop" where
  "incremental_scene dk =
     (let tw = terminal_window dk in
      case terminal_state_for_active_ui dk of (si, dk1) \<Rightarrow>
        let cols = visible_cols dk1; rows = visible_rows dk1;
            dk2 = on_pointer mouse_hide_cursor dk1;
            dk3 = (case g_prev_cursor dk2 of
                     Some (row, col) \<Rightarrow> if (row, col) \<noteq> cursor_of dk2 si then render_cell_of tw row col dk2 else dk2
                   | None \<Rightarrow> dk2)
        in on_pointer mouse_refresh_cursor (gfx_render_cursor (render_dirty tw si rows cols dk3)))"

definition gfx_refresh_terminal_incremental :: "'m ports \<Rightarrow> desktop \<times> 'm \<Rightarrow> (desktop \<times> 'm) option" where
  "gfx_refresh_terminal_incremental pio dm =
     (let si = fst (terminal_state_for_active_ui (fst dm)) in
      map_option (\<lambda>(dk, m). (dk\<lparr>g_prev_cursor := Some (cursor_of dk si)\<rparr>, m))
        (flush_desktop pio (incremental_scene (fst dm), snd dm)))"

section \<open>Sessions\<close>

definition reset_grid :: "terminal_state \<Rightarrow> terminal_state" where
  "reset_grid ts = ts\<lparr>cursor_row := 0, cursor_col := 0, text_cells := replicate (GFX_MAX_COLS * GFX_MAX_ROWS) SPACE,
     text_cells_dirty := replicate (GFX_MAX_COLS * GFX_MAX_ROWS) True, dirty_any := True, dirty_min_row := 0, dirty_min_col := 0,
     dirty_max_row := GFX_MAX_ROWS - 1, dirty_max_col := GFX_MAX_COLS - 1\<rparr>"

definition show_session :: "nat \<Rightarrow> bool \<Rightarrow> desktop \<Rightarrow> desktop" where
  "show_session s make_visible dk =
     (let wi = WIN_TERMINAL_FIRST + s; dk1 = on_window wi (\<lambda>w. w\<lparr>gw_visible := make_visible\<rparr>) dk
      in if make_visible then set_focus (int s) (bring_window_to_front (int wi) dk1) else dk1)"

definition display_create_terminal_session :: "u32 \<times> u32 \<Rightarrow> bool \<Rightarrow> desktop \<Rightarrow> u32 \<times> desktop" where
  "display_create_terminal_session entries make_visible dk =
     (case for_find (\<lambda>s. g_terminal_task_ids (dk_disp dk) ! s = 0xFFFFFFFF) 0 WIN_TERMINAL_SLOTS of
        None \<Rightarrow> (0xFFFFFFFF, dk)
      | Some s \<Rightarrow>
          (case spawn_terminal_task_for_session entries s dk of (tid, dk1) \<Rightarrow>
             if tid = 0xFFFFFFFF then (0xFFFFFFFF, dk1)
             else (of_nat s, force_redraw True (show_session s make_visible (on_session s reset_grid dk1)))))"

definition display_bind_task :: "nat \<Rightarrow> u32 \<Rightarrow> desktop \<Rightarrow> desktop" where
  "display_bind_task s tid dk = dk\<lparr>dk_disp := display_bind_terminal_task (dk_disp dk) s tid\<rparr>"

definition display_get_focused_terminal_session :: "desktop \<Rightarrow> int \<times> desktop" where
  "display_get_focused_terminal_session dk = (let dk1 = ensure_valid_terminal_focus dk in (focus dk1, dk1))"

section \<open>The whole refresh\<close>

definition spawn_pending :: "u32 \<times> u32 \<Rightarrow> desktop \<Rightarrow> desktop" where
  "spawn_pending entries dk =
     (if g_pending_terminal_spawn dk
      then snd (display_create_terminal_session entries True (dk\<lparr>g_pending_terminal_spawn := False\<rparr>)) else dk)"

definition clamp_cursor_of :: "nat \<Rightarrow> desktop \<Rightarrow> desktop" where
  "clamp_cursor_of si dk =
     (let dk1 = (if cursor_row (g_terminal_states (dk_disp dk) ! si) \<ge> visible_rows dk
                 then on_session si (\<lambda>ts. ts\<lparr>cursor_row := visible_rows dk - 1\<rparr>) dk else dk)
      in if cursor_col (g_terminal_states (dk_disp dk1) ! si) \<ge> visible_cols dk1
         then on_session si (\<lambda>ts. ts\<lparr>cursor_col := visible_cols dk1 - 1\<rparr>) dk1 else dk1)"

definition full_scene :: "desktop \<Rightarrow> desktop" where
  "full_scene dk = on_pointer mouse_refresh_cursor (gfx_render_full dk)"

definition desk_refresh :: "'m ports \<Rightarrow> u32 \<times> u32 \<Rightarrow> desktop \<times> 'm \<Rightarrow> (desktop \<times> 'm) option" where
  "desk_refresh pio entries dm =
     (let si = io_slot (fst dm);
          dk = clamp_cursor_of si (spawn_pending entries (fst dm))
      in if dk_mode dk = VIDEO_MODE_GRAPHICS then
           (if g_panic_mode dk then
              map_option (\<lambda>(d, m). ((force_redraw False (clear_visible_text_dirty d))\<lparr>g_prev_cursor := None\<rparr>, m))
                (flush_desktop pio (gfx_render_panic_full dk, snd dm))
            else
              let dk1 = (if process_manager_visible dk then update_process_usage_sample dk else dk);
                  dk2 = (if visible_terminal_count dk1 > 1 then force_redraw True dk1 else dk1)
              in if terminal_force_full_redraw (dk_disp dk2)
                 then map_option (\<lambda>(d, m). let d1 = force_redraw False (clear_visible_text_dirty d)
                                           in (d1\<lparr>g_prev_cursor := Some (cursor_of d1 si)\<rparr>, m))
                        (flush_desktop pio (full_scene dk2, snd dm))
                 else gfx_refresh_terminal_incremental pio (dk2, snd dm))
         else Some (dk\<lparr>dk_disp := text_render_full (dk_disp dk) (task_id dk)\<rparr>, snd dm))"

definition desk_begin_update :: "desktop \<Rightarrow> desktop" where
  "desk_begin_update dk = dk\<lparr>dk_disp := display_begin_update (dk_disp dk)\<rparr>"

definition desk_end_update :: "'m ports \<Rightarrow> u32 \<times> u32 \<Rightarrow> desktop \<times> 'm \<Rightarrow> (desktop \<times> 'm) option" where
  "desk_end_update pio entries dm =
     (case dm of (dk, m) \<Rightarrow>
      if g_refresh_defer_depth (dk_disp dk) = 0 then Some (dk, m)
      else let dk1 = dk\<lparr>dk_disp := (dk_disp dk)\<lparr>g_refresh_defer_depth := g_refresh_defer_depth (dk_disp dk) - 1\<rparr>\<rparr> in
        if g_refresh_defer_depth (dk_disp dk1) = 0 \<and> g_refresh_pending (dk_disp dk1)
        then desk_refresh pio entries (dk1\<lparr>dk_disp := (dk_disp dk1)\<lparr>g_refresh_pending := False\<rparr>\<rparr>, m) else Some (dk1, m))"

definition desk_request_refresh :: "'m ports \<Rightarrow> u32 \<times> u32 \<Rightarrow> desktop \<times> 'm \<Rightarrow> (desktop \<times> 'm) option" where
  "desk_request_refresh pio entries dm =
     (case dm of (dk, m) \<Rightarrow>
      if g_refresh_defer_depth (dk_disp dk) > 0 then Some (dk\<lparr>dk_disp := (dk_disp dk)\<lparr>g_refresh_pending := True\<rparr>\<rparr>, m)
      else desk_refresh pio entries (dk, m))"

definition desk_put_char :: "'m ports \<Rightarrow> u32 \<times> u32 \<Rightarrow> u8 \<Rightarrow> desktop \<times> 'm \<Rightarrow> (desktop \<times> 'm) option" where
  "desk_put_char pio entries c dm = desk_request_refresh pio entries (put_char_quiet c (fst dm), snd dm)"

definition desk_print :: "'m ports \<Rightarrow> u32 \<times> u32 \<Rightarrow> u8 list \<Rightarrow> desktop \<times> 'm \<Rightarrow> (desktop \<times> 'm) option" where
  "desk_print pio entries s dm =
     (let dk1 = foldl (\<lambda>dk c. put_char_quiet c dk) (fst dm) (cstr s)
      in if cstr s \<noteq> [] then desk_request_refresh pio entries (dk1, snd dm) else Some (dk1, snd dm))"

definition desk_clear :: "'m ports \<Rightarrow> u32 \<times> u32 \<Rightarrow> desktop \<times> 'm \<Rightarrow> (desktop \<times> 'm) option" where
  "desk_clear pio entries dm =
     (let dk = fst dm;
          dk1 = on_session (io_slot dk) (\<lambda>ts. terminal_mark_dirty_visible
                  (ts\<lparr>text_cells := replicate (GFX_MAX_COLS * GFX_MAX_ROWS) SPACE, text_cells_dirty := replicate (GFX_MAX_COLS * GFX_MAX_ROWS) True,
                      cursor_row := 0, cursor_col := 0\<rparr>) (visible_rows dk) (visible_cols dk)) dk
      in desk_refresh pio entries (force_redraw True dk1, snd dm))"

definition desk_set_cursor :: "'m ports \<Rightarrow> u32 \<times> u32 \<Rightarrow> nat \<Rightarrow> nat \<Rightarrow> desktop \<times> 'm \<Rightarrow> (desktop \<times> 'm) option" where
  "desk_set_cursor pio entries row col dm =
     (let dk = fst dm; cut = (\<lambda>n v. if v \<ge> n then n - 1 else v) in
      desk_request_refresh pio entries
        (on_session (io_slot dk) (\<lambda>ts. ts\<lparr>cursor_row := cut (visible_rows dk) row, cursor_col := cut (visible_cols dk) col\<rparr>) dk, snd dm))"

definition display_get_viewport :: "desktop \<Rightarrow> nat \<times> nat" where
  "display_get_viewport dk = (visible_rows dk, visible_cols dk)"

section \<open>Settings of the console\<close>

definition display_set_graphics_test_overlay ::
  "'d block_device \<Rightarrow> 'm ports \<Rightarrow> u32 \<times> u32 \<Rightarrow> bool \<Rightarrow> desktop \<times> 'd \<times> 'm \<Rightarrow> (desktop \<times> 'd \<times> 'm) option" where
  "display_set_graphics_test_overlay dev pio entries enabled s =
     (case s of (dk, d, m) \<Rightarrow>
        let d1 = snd (video_set_boot_overlay_preference dev enabled d);
            dk1 = force_redraw True (dk\<lparr>g_graphics_test_overlay := enabled, g_gfx_disable_overlay := False\<rparr>)
        in map_option (\<lambda>(dk2, m1). (dk2, d1, m1)) (desk_refresh pio entries (dk1, m)))"

definition display_set_button_pressed :: "'m ports \<Rightarrow> u32 \<times> u32 \<Rightarrow> bool \<Rightarrow> desktop \<times> 'm \<Rightarrow> (desktop \<times> 'm) option" where
  "display_set_button_pressed pio entries pressed dm =
     (case dm of (dk, m) \<Rightarrow>
      if g_button_pressed dk \<noteq> pressed then
        (let dk1 = dk\<lparr>g_button_pressed := pressed\<rparr>
         in if dk_mode dk1 \<noteq> VIDEO_MODE_GRAPHICS then desk_refresh pio entries (dk1, m) else Some (dk1, m))
      else Some (dk, m))"

definition display_set_gfx_colors :: "u8 \<Rightarrow> u8 \<Rightarrow> bool \<Rightarrow> desktop \<Rightarrow> desktop" where
  "display_set_gfx_colors fg bg suppress_test_overlay dk =
     force_redraw True (dk\<lparr>g_gfx_fg := fg, g_gfx_bg := bg, g_gfx_disable_overlay := suppress_test_overlay\<rparr>)"

definition display_set_panic_mode :: "bool \<Rightarrow> desktop \<Rightarrow> desktop" where
  "display_set_panic_mode enabled dk =
     (let dk1 = dk\<lparr>g_panic_mode := enabled\<rparr>;
          dk2 = (if enabled then dk1\<lparr>g_start_menu_open := False, g_drag_window := -1, g_resize_window := -1, g_gfx_disable_overlay := True,
                                     g_prev_cursor := None\<rparr> else dk1)
      in force_redraw True dk2)"

section \<open>Start-up\<close>

text \<open>The palette goes to the converter colour by colour; three of them are read back.  The debug output on the serial port is left
  out.\<close>

definition load_cga_palette :: "'m ports \<Rightarrow> 'm \<Rightarrow> 'm" where
  "load_cga_palette pio m =
     (let m1 = foldl (\<lambda>m (r, g, b). io_outb pio (io_outb pio (io_outb pio m 0x3C9 (ucast r)) 0x3C9 (ucast g)) 0x3C9 (ucast b))
                 (io_outb pio m 0x3C8 0) g_cga_palette
      in foldl (\<lambda>m i. foldl (\<lambda>m _. snd (io_inb pio m 0x3C9)) (io_outb pio m 0x3C7 i) [0..<3]) m1 [0, 12, 15])"

definition dress :: "u8 \<Rightarrow> u8 \<Rightarrow> u8 \<Rightarrow> u8 list \<Rightarrow> bool \<Rightarrow> gui_window_role \<Rightarrow> u8 \<Rightarrow> gui_window \<Rightarrow> gui_window" where
  "dress title_bg body_bg border title visible role slot w =
     w\<lparr>gw_title_bg := title_bg, gw_body_bg := body_bg, gw_border := border, gw_title := title, gw_visible := visible,
       gw_role := role, gw_slot := slot\<rparr>"

definition init_windows :: "desktop \<Rightarrow> desktop" where
  "init_windows dk =
     (let dk1 = on_window WIN_DESKTOP (dress 1 1 0 (str ''Desktop'') True ROLE_DESKTOP 0) dk;
          dk2 = foldl (\<lambda>d i. on_window (WIN_TERMINAL_FIRST + i) (dress 2 0 15 (terminal_title i) False ROLE_TERMINAL (of_nat i)) d)
                  dk1 [0..<WIN_TERMINAL_SLOTS];
          dk3 = on_window WIN_SETTINGS (dress 5 7 15 (str ''Settings'') False ROLE_SETTINGS 0) dk2
      in on_window WIN_PROCESS_MANAGER (dress 4 7 15 (str ''Process Manager'') False ROLE_PROCESS_MANAGER 0) dk3)"

definition init_desktop :: "desktop \<Rightarrow> desktop" where
  "init_desktop dk =
     (let dk1 = dk\<lparr>dk_disp := (dk_disp dk)\<lparr>g_terminal_states := map reset_grid (g_terminal_states (dk_disp dk)),
                    g_terminal_task_ids := replicate WIN_TERMINAL_SLOTS 0xFFFFFFFF\<rparr>,
                    g_process_cpu_ticks := replicate WIN_COUNT 0, g_pm_selected_index := -1\<rparr>;
          dk2 = (apply_theme 0 (init_windows dk1))\<lparr>g_start_menu_open := False\<rparr>
      in (force_redraw True (set_focus 0 (gfx_layout_windows True dk2)))\<lparr>g_prev_cursor := None\<rparr>)"

definition desk_init ::
  "(u32 \<Rightarrow> u8 list) \<Rightarrow> video_fb_info \<Rightarrow> u8 list \<Rightarrow> 'd block_device \<Rightarrow> 'm ports \<Rightarrow> u32 \<times> u32 \<Rightarrow> desktop \<times> heap_state \<times> 'd \<times> 'm \<Rightarrow>
     (desktop \<times> heap_state \<times> 'd \<times> 'm) option" where
  "desk_init vram info font_file dev pio entries s =
     (case s of (dk, h, d, m) \<Rightarrow>
      case framebuffer_init vram info h (dk_fb dk) of (fb, h1) \<Rightarrow>
        let dk1 = dk\<lparr>dk_fb := fb, g_font := font_load_from_memory font_file\<rparr>;
            (dk2, d1, m1) =
              (if dk_mode dk1 = VIDEO_MODE_GRAPHICS
               then (case video_get_boot_overlay_preference dev d of (pref, d1) \<Rightarrow>
                       (if pref = Some True then dk1\<lparr>g_graphics_test_overlay := True\<rparr> else dk1, d1, load_cga_palette pio m))
               else (dk1, d, m))
        in map_option (\<lambda>(dk3, m2). (dk3, h1, d1, m2)) (desk_refresh pio entries (init_desktop dk2, m1)))"

section \<open>The mouse\<close>

text \<open>Hiding the pointer, drawing the scene, and showing the pointer again.\<close>

definition redraw_hidden :: "desktop \<Rightarrow> desktop" where
  "redraw_hidden dk = gfx_render_scene_no_cursor (on_pointer mouse_hide_cursor dk)"

definition redraw :: "desktop \<Rightarrow> desktop" where
  "redraw dk = on_pointer mouse_refresh_cursor (redraw_hidden dk)"

text \<open>Showing a window from the menu: the pointer to it becomes an index again.\<close>

definition show_window :: "nat option \<Rightarrow> desktop \<Rightarrow> desktop" where
  "show_window w dk =
     (let i = window_index_from_ptr dk w in
      if i \<ge> 0 then set_focus (-1) (bring_window_to_front i (on_window (nat i) (\<lambda>w. w\<lparr>gw_visible := True\<rparr>) dk)) else dk)"

definition menu_item :: "s32 \<Rightarrow> desktop \<Rightarrow> desktop" where
  "menu_item item dk =
     (if item = 0 then
        (let ti = find_hidden_terminal_slot dk in
         if ti \<ge> 0 then
           (let dk1 = bring_window_to_front ti (on_window (nat ti) (\<lambda>w. w\<lparr>gw_visible := True\<rparr>) dk)
            in set_focus (terminal_session_from_window (g_windows dk1 ! (WIN_COUNT - 1))) dk1)
         else dk\<lparr>g_pending_terminal_spawn := True\<rparr>)
      else if item = 1 then show_window (settings_window dk) dk
      else if item = 2 then show_window (process_manager_window dk) dk
      else dk)"

definition close_top_window :: "desktop \<Rightarrow> desktop" where
  "close_top_window dk =
     (let top = WIN_COUNT - 1; win = g_windows dk ! top; closed_session = terminal_session_from_window win;
          dk1 = on_window top (\<lambda>w. w\<lparr>gw_visible := False\<rparr>) dk;
          dk2 = dk1\<lparr>g_pm_selected_index := (if gw_role win = ROLE_PROCESS_MANAGER \<or> g_pm_selected_index dk1 = int top then -1
                                             else g_pm_selected_index dk1),
                     g_drag_window := (if g_drag_window dk1 = int top then -1 else g_drag_window dk1),
                     g_resize_window := (if g_resize_window dk1 = int top then -1 else g_resize_window dk1)\<rparr>
      in if closed_session \<ge> 0 \<and> closed_session = focus dk2 then ensure_valid_terminal_focus dk2 else dk2)"

definition swatch_hit :: "desktop \<Rightarrow> s32 \<Rightarrow> s32 \<Rightarrow> nat option" where
  "swatch_hit dk x y =
     for_find (\<lambda>i. in_box x y (settings_swatch_x dk i) (settings_swatch_y dk) (gfx_settings_swatch_width dk) (gfx_settings_swatch_height dk))
       0 THEME_COUNT"

definition grab_top_window :: "s32 \<Rightarrow> s32 \<Rightarrow> desktop \<Rightarrow> desktop" where
  "grab_top_window x y dk =
     (let top = WIN_COUNT - 1; selected = g_windows dk ! top; resize = gfx_resize_handle_size dk;
          selected_session = terminal_session_from_window selected;
          right = gw_x selected + gw_w selected; bottom = gw_y selected + gw_h selected;
          dk1 = set_focus (if selected_session \<ge> 0 then selected_session else -1) (dk\<lparr>g_drag_window := -1, g_resize_window := -1\<rparr>);
          dk2 = (if right - resize \<le>s x \<and> bottom - resize \<le>s y
                 then dk1\<lparr>g_resize_window := int top, g_resize_offset_x := right - x, g_resize_offset_y := bottom - y\<rparr>
                 else if y <s gw_y selected + gfx_window_title_height dk
                 then dk1\<lparr>g_drag_window := int top, g_drag_offset_x := x - gw_x selected, g_drag_offset_y := y - gw_y selected\<rparr>
                 else dk1)
      in if g_drag_window dk2 \<ge> 0 \<or> g_resize_window dk2 \<ge> 0
         then on_fb (framebuffer_set_vsync_enabled 0) (dk2\<lparr>g_interactive_move_active := True\<rparr>) else dk2)"

text \<open>A press of the button on the windows; the flag says that the handler returns at once.\<close>

definition press_windows :: "s32 \<Rightarrow> s32 \<Rightarrow> desktop \<Rightarrow> bool \<times> desktop" where
  "press_windows x y dk =
     (let hit = gui_find_topmost_visible_at (g_windows dk) WIN_TERMINAL_FIRST x y False; top = WIN_COUNT - 1 in
      if hit < int WIN_TERMINAL_FIRST then (False, dk)
      else let dk1 = (if hit \<noteq> int top then bring_window_to_front hit dk else dk);
               win = g_windows dk1 ! (if hit \<noteq> int top then top else nat hit) in
        if window_close_button_hit dk1 win x y then (True, redraw (close_top_window dk1))
        else case (if gw_role win = ROLE_SETTINGS then swatch_hit dk1 x y else None) of
               Some i \<Rightarrow> (True, redraw (apply_theme (of_nat i) dk1))
             | None \<Rightarrow>
                 (case process_manager_handle_click top x y dk1 of (handled, dk2) \<Rightarrow>
                    if handled then (True, redraw dk2) else (False, redraw_hidden (grab_top_window x y dk2))))"

definition on_start_button :: "desktop \<Rightarrow> s32 \<Rightarrow> s32 \<Rightarrow> bool" where
  "on_start_button dk x y \<longleftrightarrow>
     fb_h dk - gfx_taskbar_height dk + gfx_scale_px dk 3 \<le>s y \<and> y <s fb_h dk - 2
     \<and> gfx_start_button_x dk \<le>s x \<and> x <s gfx_start_button_x dk + gfx_start_button_width dk"

definition in_menu :: "desktop \<Rightarrow> s32 \<Rightarrow> s32 \<Rightarrow> bool" where
  "in_menu dk x y = in_box x y (gfx_start_button_x dk) (start_menu_y dk) (gfx_start_menu_width dk)
     (gfx_start_menu_item_height dk * of_nat START_MENU_ITEMS)"

definition press :: "s32 \<Rightarrow> s32 \<Rightarrow> desktop \<Rightarrow> bool \<times> desktop" where
  "press x y dk =
     (if on_start_button dk x y then (True, redraw (dk\<lparr>g_start_menu_open := \<not> g_start_menu_open dk\<rparr>))
      else if g_start_menu_open dk then
        (if in_menu dk x y
         then (True, redraw ((menu_item ((y - start_menu_y dk) div gfx_start_menu_item_height dk) dk)\<lparr>g_start_menu_open := False\<rparr>))
         else press_windows x y (redraw (dk\<lparr>g_start_menu_open := False\<rparr>)))
      else press_windows x y dk)"

definition drag :: "s32 \<Rightarrow> s32 \<Rightarrow> desktop \<Rightarrow> desktop" where
  "drag x y dk =
     (if g_drag_window dk < 0 then dk
      else let i = nat (g_drag_window dk); win = g_windows dk ! i in
        case gui_clamp_window_position win (x - g_drag_offset_x dk, y - g_drag_offset_y dk) (fb_w dk) (fb_h dk) (gfx_taskbar_height dk) of
          (new_x, new_y) \<Rightarrow>
            if gw_x win \<noteq> new_x \<or> gw_y win \<noteq> new_y
            then redraw (on_window i (\<lambda>w. w\<lparr>gw_x := new_x, gw_y := new_y\<rparr>) dk) else dk)"

definition resize :: "s32 \<Rightarrow> s32 \<Rightarrow> desktop \<Rightarrow> desktop" where
  "resize x y dk =
     (if g_resize_window dk < 0 then dk
      else let i = nat (g_resize_window dk); win = g_windows dk ! i in
        case gui_clamp_window_size win (x - gw_x win + g_resize_offset_x dk, y - gw_y win + g_resize_offset_y dk)
               (gfx_window_role_min_width dk (gw_role win)) (gfx_window_role_min_height dk (gw_role win)) (fb_w dk) (fb_h dk) (gfx_taskbar_height dk) of
          (new_w, new_h) \<Rightarrow>
            if gw_w win \<noteq> new_w \<or> gw_h win \<noteq> new_h
            then redraw (on_window i (\<lambda>w. w\<lparr>gw_w := new_w, gw_h := new_h\<rparr>) dk) else dk)"

definition release :: "desktop \<Rightarrow> desktop" where
  "release dk =
     (let dk1 = (if g_drag_window dk \<ge> 0 \<or> g_resize_window dk \<ge> 0 \<or> g_interactive_move_active dk
                 then redraw_hidden ((on_fb (framebuffer_set_vsync_enabled 1) dk)\<lparr>g_interactive_move_active := False\<rparr>) else dk)
      in dk1\<lparr>g_drag_window := -1, g_resize_window := -1\<rparr>)"

definition display_handle_mouse_event :: "s32 \<Rightarrow> s32 \<Rightarrow> u8 \<Rightarrow> desktop \<Rightarrow> desktop" where
  "display_handle_mouse_event x y buttons dk =
     (let down = (buttons AND 1 \<noteq> 0); was = (prev_buttons dk AND 1 \<noteq> 0);
          r = (if down \<and> \<not> was then press x y dk else (False, dk))
      in if fst r then (snd r)\<lparr>prev_buttons := buttons\<rparr>
         else let dk1 = (if down then resize x y (drag x y (snd r)) else snd r);
                  dk2 = (if \<not> down \<and> was then release dk1 else dk1)
              in dk2\<lparr>prev_buttons := buttons\<rparr>)"

end
