(* ===== verification/Desktop_Inv.thy ===== *)
theory Desktop_Inv
  imports Desktop
begin

text \<open>
  The invariant of the desktop and its preservation by every operation: the windows stay the same ones in some order with the
  desktop at the back, all indices stay in range, and the frame buffer, the pointer and the grids keep their shapes.
\<close>

section \<open>The invariant\<close>

definition win_id :: "gui_window \<Rightarrow> gui_window_role \<times> u8" where
  "win_id w = (gw_role w, gw_slot w)"

definition all_ids :: "(gui_window_role \<times> u8) list" where
  "all_ids = (ROLE_DESKTOP, 0) # map (\<lambda>i. (ROLE_TERMINAL, of_nat i)) [0..<16] @ [(ROLE_SETTINGS, 0), (ROLE_PROCESS_MANAGER, 0)]"

definition windows_ok :: "gui_window list \<Rightarrow> bool" where
  "windows_ok ws \<longleftrightarrow> mset (map win_id ws) = mset all_ids \<and> win_id (ws ! 0) = (ROLE_DESKTOP, 0)"

definition indices_ok :: "desktop \<Rightarrow> bool" where
  "indices_ok dk \<longleftrightarrow> g_drag_window dk \<in> {-1, 18} \<and> g_resize_window dk \<in> {-1, 18} \<and> (g_drag_window dk = -1 \<or> g_resize_window dk = -1)
     \<and> -1 \<le> g_pm_selected_index dk \<and> g_pm_selected_index dk < 19"

definition display_ok :: "display \<Rightarrow> bool" where
  "display_ok d \<longleftrightarrow> length (g_terminal_states d) = 16 \<and> length (g_terminal_task_ids d) = 16
     \<and> -1 \<le> g_focused_terminal_session d \<and> g_focused_terminal_session d < 16"

definition desk_ok :: "desktop \<Rightarrow> bool" where
  "desk_ok dk \<longleftrightarrow> windows_ok (g_windows dk) \<and> indices_ok dk \<and> display_ok (dk_disp dk) \<and> mouse_ok (dk_mouse dk, dk_fb dk)
     \<and> length (g_process_cpu_ticks dk) = 19"

lemma length_windows: "windows_ok ws \<Longrightarrow> length ws = 19"
proof -
  assume "windows_ok ws"
  then have "mset (map win_id ws) = mset all_ids" by (simp add: windows_ok_def)
  from mset_eq_length [OF this] show ?thesis by (simp add: all_ids_def)
qed

section \<open>Windows\<close>

lemma windows_update:
  assumes "windows_ok ws" "\<And>w. win_id (f w) = win_id w"
  shows "windows_ok (ws[i := f (ws ! i)])"
proof (cases "i < length ws")
  case True
  have "map win_id (ws[i := f (ws ! i)]) = map win_id ws"
    using True by (intro nth_equalityI) (auto simp: nth_list_update assms(2))
  moreover have "win_id (ws[i := f (ws ! i)] ! 0) = win_id (ws ! 0)"
    using True by (cases "i = 0") (simp_all add: assms(2))
  ultimately show ?thesis using assms(1) by (simp add: windows_ok_def)
qed (use assms in \<open>simp add: not_less list_update_beyond\<close>)

lemma windows_map: "windows_ok ws \<Longrightarrow> (\<And>w. win_id (f w) = win_id w) \<Longrightarrow> windows_ok (map f ws)"
proof -
  assume a: "windows_ok ws" and f: "\<And>w. win_id (f w) = win_id w"
  have "map win_id (map f ws) = map win_id ws" by (simp add: f)
  then have "mset (map win_id (map f ws)) = mset (map win_id ws)" by (rule arg_cong)
  moreover have "win_id (map f ws ! 0) = win_id (ws ! 0)" using length_windows [OF a] by (simp add: f)
  ultimately show ?thesis using a unfolding windows_ok_def by (simp only:)
qed

lemma windows_bring: "windows_ok ws \<Longrightarrow> windows_ok (gui_bring_window_to_front ws 1 i)"
proof -
  assume a: "windows_ok ws"
  have m: "mset (map win_id (bring_loop ws 1 i)) = mset (map win_id ws)" by simp
  have "bring_loop ws 1 i ! 0 = ws ! 0"
  proof (cases "1 \<le> i \<and> i < int (length ws)")
    case True
    then obtain n where n: "i = int n" "1 \<le> n" "n < length ws" by (metis nat_0_le of_nat_less_iff order_trans zero_le_one of_nat_1 of_nat_le_iff)
    then have "bring_loop ws 1 i = take n ws @ drop (Suc n) ws @ [ws ! n]" using bring_loop_take_drop [of 1 n ws] by simp
    then show ?thesis using n by (simp add: nth_append)
  next
    case False
    then have "i < 1 \<or> int (length ws) - 1 \<le> i" by linarith
    then show ?thesis by (simp add: bring_loop_outside)
  qed
  then show ?thesis using a m by (simp add: windows_ok_def gui_bring_window_to_front_def)
qed

section \<open>Preservation\<close>

definition fb_keeps :: "framebuffer \<Rightarrow> framebuffer \<Rightarrow> bool" where
  "fb_keeps a b \<longleftrightarrow> (screen_ok a \<longrightarrow> screen_ok b \<and> same_size a b \<and> (fb_clean a \<longrightarrow> fb_clean b))"

lemma draws_keeps: "draws_on a b \<Longrightarrow> fb_keeps a b"
  using draws_screen_ok draws_same_size draws_onD by (simp add: fb_keeps_def screen_ok_def)

lemma vsync_keeps: "fb_keeps a (framebuffer_set_vsync_enabled v a)"
  by (cases "gf_back a") (auto simp: fb_keeps_def framebuffer_set_vsync_enabled_def screen_ok_def fb_ok_def same_size_def fb_clean_def shown_def drawn_def gf_dst_def)

lemma ok_fields [simp]:
  "desk_ok (dk\<lparr>g_start_menu_open := b\<rparr>) = desk_ok dk" "desk_ok (dk\<lparr>g_pending_terminal_spawn := b\<rparr>) = desk_ok dk"
  "desk_ok (dk\<lparr>g_prev_cursor := c\<rparr>) = desk_ok dk" "desk_ok (dk\<lparr>g_interactive_move_active := b\<rparr>) = desk_ok dk"
  "desk_ok (dk\<lparr>prev_buttons := n\<rparr>) = desk_ok dk" "desk_ok (dk\<lparr>g_active_theme := n\<rparr>) = desk_ok dk"
  "desk_ok (dk\<lparr>g_taskbar_bg := n\<rparr>) = desk_ok dk" "desk_ok (dk\<lparr>g_taskbar_text := n\<rparr>) = desk_ok dk"
  "desk_ok (dk\<lparr>g_gfx_fg := n\<rparr>) = desk_ok dk" "desk_ok (dk\<lparr>g_gfx_bg := n\<rparr>) = desk_ok dk"
  "desk_ok (dk\<lparr>g_drag_offset_x := x\<rparr>) = desk_ok dk" "desk_ok (dk\<lparr>g_drag_offset_y := x\<rparr>) = desk_ok dk"
  "desk_ok (dk\<lparr>g_resize_offset_x := x\<rparr>) = desk_ok dk" "desk_ok (dk\<lparr>g_resize_offset_y := x\<rparr>) = desk_ok dk"
  "desk_ok (dk\<lparr>g_gfx_disable_overlay := b\<rparr>) = desk_ok dk" "desk_ok (dk\<lparr>g_panic_mode := b\<rparr>) = desk_ok dk"
  "desk_ok (dk\<lparr>dk_sched := s\<rparr>) = desk_ok dk" "desk_ok (dk\<lparr>g_button_pressed := b\<rparr>) = desk_ok dk"
  by (simp_all add: desk_ok_def indices_ok_def)

lemma ok_on_fb: "desk_ok dk \<Longrightarrow> fb_keeps (dk_fb dk) (f (dk_fb dk)) \<Longrightarrow> desk_ok (on_fb f dk)"
  by (simp add: desk_ok_def on_fb_def mouse_ok_def fb_keeps_def indices_ok_def)

lemma ok_on_window: "desk_ok dk \<Longrightarrow> (\<And>w. win_id (f w) = win_id w) \<Longrightarrow> desk_ok (on_window i f dk)"
  by (simp add: desk_ok_def on_window_def windows_update indices_ok_def)

lemma ok_bring: "desk_ok dk \<Longrightarrow> desk_ok (bring_window_to_front i dk)"
  by (simp add: desk_ok_def bring_window_to_front_def windows_bring indices_ok_def)

lemma ok_set_focus: "desk_ok dk \<Longrightarrow> -1 \<le> s \<Longrightarrow> s < 16 \<Longrightarrow> desk_ok (set_focus s dk)"
  by (simp add: desk_ok_def set_focus_def display_ok_def indices_ok_def)

lemma ok_force_redraw: "desk_ok dk \<Longrightarrow> desk_ok (force_redraw b dk)"
  by (simp add: desk_ok_def force_redraw_def display_ok_def indices_ok_def)

lemma ok_on_session: "desk_ok dk \<Longrightarrow> desk_ok (on_session s f dk)"
  by (simp add: desk_ok_def on_session_def display_ok_def indices_ok_def)

lemma session_range: "-1 \<le> terminal_session_from_window w \<and> terminal_session_from_window w < 16"
proof (cases "gw_role w = ROLE_TERMINAL \<and> \<not> gw_slot w \<ge> 16")
  case True
  then have "unat (gw_slot w) < 16" by (simp add: word_le_nat_alt)
  then have "int (unat (gw_slot w)) < 16" "-1 \<le> int (unat (gw_slot w))" by linarith+
  then show ?thesis using True by (simp add: terminal_session_from_window_def)
qed (auto simp: terminal_session_from_window_def)

lemma ok_focus: "desk_ok dk \<Longrightarrow> desk_ok (ensure_valid_terminal_focus dk)"
  using session_range by (auto simp: ensure_valid_terminal_focus_def intro!: ok_set_focus split: option.split)

lemma ok_active: "desk_ok dk \<Longrightarrow> terminal_state_for_active_ui dk = (si, dk1) \<Longrightarrow> desk_ok dk1"
  using ok_focus [of dk] by (auto simp: terminal_state_for_active_ui_def Let_def)

lemma ok_on_pointer:
  assumes "desk_ok dk" "\<And>mf. mouse_ok mf \<Longrightarrow> mouse_ok (f mf)"
  shows "desk_ok (on_pointer f dk)"
  using assms(1) assms(2) [of "(dk_mouse dk, dk_fb dk)"]
  by (auto simp: desk_ok_def on_pointer_def indices_ok_def split: prod.split)

section \<open>Drawing keeps\<close>

lemma draws_glyph_of [draws]: "draws_on a b \<Longrightarrow> draws_on a (draw_glyph dk x y g k bg b)"
  by (simp add: draw_glyph_def draws)

lemma draws_rects [draws]: "draws_on a b \<Longrightarrow> draws_on a (rects rs b)"
  unfolding rects_def by (intro draws_foldl) (auto intro!: draws split: prod.split)

lemma draws_label [draws]: "draws_on a b \<Longrightarrow> draws_on a (gfx_render_label dk x y s k bg b)"
proof -
  have "draws_on b (snd (foldl (\<lambda>(x, fb) c. (x + gfx_cell_width dk, draw_glyph dk x y (font_glyph_at (g_font dk) (ucast c)) k bg fb)) (x, b) cs))"
    for x b and cs :: "u8 list"
  proof (induction cs arbitrary: x b)
    case (Cons c cs)
    have "draws_on b (draw_glyph dk x y (font_glyph_at (g_font dk) (ucast c)) k bg b)" by (simp add: draws)
    from draws_trans [OF this Cons.IH] show ?case by simp
  qed (simp add: draws)
  then show "draws_on a b \<Longrightarrow> ?thesis" unfolding gfx_render_label_def by (rule draws_trans [rotated])
qed

lemma draws_taskbar [draws]: "draws_on a b \<Longrightarrow> draws_on a (gfx_render_taskbar dk b)"
  unfolding gfx_render_taskbar_def Let_def by (intro draws)

lemma draws_menu [draws]: "draws_on a b \<Longrightarrow> draws_on a (gfx_render_start_menu dk b)"
  unfolding gfx_render_start_menu_def Let_def by (intro draws draws_foldl)

lemma draws_settings [draws]: "draws_on a b \<Longrightarrow> draws_on a (gfx_render_settings_content dk win b)"
  unfolding gfx_render_settings_content_def Let_def by (auto intro!: draws draws_foldl split: prod.split)

lemma draws_rows [draws]: "draws_on a b \<Longrightarrow> draws_on a (process_rows dk win t by idxs y b)"
proof (induction idxs arbitrary: y b)
  case (Cons i idxs)
  show ?case unfolding process_rows.simps Let_def by (intro draws Cons)
qed simp

lemma draws_cell [draws]: "draws_on a b \<Longrightarrow> draws_on a (draw_cell dk cells ox oy pad row col b)"
  unfolding draw_cell_def Let_def by (intro draws)

lemma draws_terminal [draws]: "draws_on a b \<Longrightarrow> draws_on a (gfx_render_terminal_content dk win b)"
  unfolding gfx_render_terminal_content_def Let_def by (intro draws draws_foldl)

lemma draws_frame [draws]: "draws_on a b \<Longrightarrow> draws_on a (window_frame dk win b)"
  unfolding window_frame_def Let_def by (intro draws)

lemma draws_spectrum [draws]: "draws_on a b \<Longrightarrow> draws_on a (gfx_render_color_spectrum b)"
  unfolding gfx_render_color_spectrum_def by (erule draws_foldl [rotated], rule draws_foldl, rule draws_put_pixel) (rule draws_refl)+

lemma draws_overlay [draws]: "draws_on a b \<Longrightarrow> draws_on a (gfx_render_test_overlay dk b)"
  unfolding gfx_render_test_overlay_def by (intro draws)

section \<open>Steps\<close>

text \<open>A step keeps the mode, the invariant, the size of the screen, and that the screen is up to date outside of the dirty rectangle.\<close>

definition moves :: "desktop \<Rightarrow> desktop \<Rightarrow> bool" where
  "moves a b \<longleftrightarrow> dk_mode b = dk_mode a \<and> (desk_ok a \<longrightarrow> desk_ok b \<and> fb_keeps (dk_fb a) (dk_fb b))"

named_theorems keeps \<open>operations that are steps\<close>

lemma fb_keeps_refl: "fb_keeps a a"
  by (simp add: fb_keeps_def same_size_def)

lemma fb_keeps_trans: "fb_keeps a b \<Longrightarrow> fb_keeps b c \<Longrightarrow> fb_keeps a c"
  by (auto simp: fb_keeps_def same_size_def)

lemma movesI: "dk_mode b = dk_mode a \<Longrightarrow> (desk_ok a \<Longrightarrow> desk_ok b) \<Longrightarrow> fb_keeps (dk_fb a) (dk_fb b) \<Longrightarrow> moves a b"
  by (simp add: moves_def)

lemma moves_refl [keeps]: "moves a a"
  by (simp add: moves_def fb_keeps_refl)

lemma moves_trans [trans]: "moves a b \<Longrightarrow> moves b c \<Longrightarrow> moves a c"
  using fb_keeps_trans by (auto simp: moves_def)

lemma moves_fb_same: "moves a b \<Longrightarrow> (desk_ok b \<Longrightarrow> desk_ok c) \<Longrightarrow> dk_fb c = dk_fb b \<Longrightarrow> dk_mode c = dk_mode b \<Longrightarrow> moves a c"
  by (auto simp: moves_def)

lemma moves_on_fb [keeps]: "moves a b \<Longrightarrow> fb_keeps (dk_fb b) (f (dk_fb b)) \<Longrightarrow> moves a (on_fb f b)"
proof (erule moves_trans)
  show "fb_keeps (dk_fb b) (f (dk_fb b)) \<Longrightarrow> moves b (on_fb f b)"
    by (rule movesI, simp add: on_fb_def, erule ok_on_fb) (simp_all add: on_fb_def)
qed

lemma moves_drawn [keeps]: "moves a b \<Longrightarrow> draws_on (dk_fb b) (f (dk_fb b)) \<Longrightarrow> moves a (on_fb f b)"
  by (rule moves_on_fb [OF _ draws_keeps])

lemma moves_fields [keeps]:
  "moves a b \<Longrightarrow> moves a (b\<lparr>g_start_menu_open := p\<rparr>)" "moves a b \<Longrightarrow> moves a (b\<lparr>g_pending_terminal_spawn := p\<rparr>)"
  "moves a b \<Longrightarrow> moves a (b\<lparr>g_prev_cursor := c\<rparr>)" "moves a b \<Longrightarrow> moves a (b\<lparr>g_interactive_move_active := p\<rparr>)"
  "moves a b \<Longrightarrow> moves a (b\<lparr>prev_buttons := n\<rparr>)" "moves a b \<Longrightarrow> moves a (b\<lparr>g_active_theme := n\<rparr>)"
  "moves a b \<Longrightarrow> moves a (b\<lparr>g_taskbar_bg := n, g_taskbar_text := n1, g_gfx_fg := n2, g_gfx_bg := n3\<rparr>)"
  by (erule moves_fb_same; simp)+

lemma moves_on_window [keeps]: "moves a b \<Longrightarrow> (\<And>w. win_id (f w) = win_id w) \<Longrightarrow> moves a (on_window i f b)"
  by (erule moves_fb_same, rule ok_on_window) (simp_all add: on_window_def)

lemma moves_bring [keeps]: "moves a b \<Longrightarrow> moves a (bring_window_to_front i b)"
  by (erule moves_fb_same, rule ok_bring) (simp_all add: bring_window_to_front_def)

lemma moves_set_focus [keeps]: "moves a b \<Longrightarrow> -1 \<le> s \<Longrightarrow> s < 16 \<Longrightarrow> moves a (set_focus s b)"
  by (erule moves_fb_same, rule ok_set_focus) (simp_all add: set_focus_def)

lemma moves_force_redraw [keeps]: "moves a b \<Longrightarrow> moves a (force_redraw p b)"
  by (erule moves_fb_same, rule ok_force_redraw) (simp_all add: force_redraw_def)

lemma moves_on_session [keeps]: "moves a b \<Longrightarrow> moves a (on_session s f b)"
  by (erule moves_fb_same, rule ok_on_session) (simp_all add: on_session_def)

lemma moves_focus [keeps]: "moves a b \<Longrightarrow> moves a (ensure_valid_terminal_focus b)"
  by (erule moves_fb_same, rule ok_focus) (simp_all add: ensure_valid_terminal_focus_def set_focus_def split: option.split)

lemma moves_active: "moves a b \<Longrightarrow> terminal_state_for_active_ui b = (si, c) \<Longrightarrow> moves a c"
  using moves_focus by (auto simp: terminal_state_for_active_ui_def Let_def)

lemma moves_active_case:
  assumes "moves a b" "\<And>si c. moves a c \<Longrightarrow> moves a (F si c)"
  shows "moves a (case terminal_state_for_active_ui b of (si, c) \<Rightarrow> F si c)"
  using assms moves_active by (cases "terminal_state_for_active_ui b") auto

lemma moves_pointer:
  assumes "\<And>mf. mouse_ok mf \<Longrightarrow> mouse_ok (f mf) \<and> draws_on (snd mf) (snd (f mf))" "moves a b"
  shows "moves a (on_pointer f b)"
proof (rule moves_trans [OF assms(2)])
  let ?mf = "(dk_mouse b, dk_fb b)"
  have "desk_ok b \<Longrightarrow> draws_on (dk_fb b) (snd (f ?mf))" using assms(1) [of ?mf] by (simp add: desk_ok_def)
  then show "moves b (on_pointer f b)"
    using ok_on_pointer [of b f] assms(1) draws_keeps by (auto simp: moves_def on_pointer_def split: prod.split)
qed

lemma moves_hide [keeps]: "moves a b \<Longrightarrow> moves a (on_pointer mouse_hide_cursor b)"
  using pointer_step_keeps [of _ Hide] by (intro moves_pointer) simp_all

lemma moves_show [keeps]: "moves a b \<Longrightarrow> moves a (on_pointer mouse_refresh_cursor b)"
  using pointer_step_keeps [of _ Refresh] by (intro moves_pointer) simp_all

lemma moves_foldl: "(\<And>b x. moves b (g b x)) \<Longrightarrow> moves a b \<Longrightarrow> moves a (foldl g b xs)"
proof (induction xs arbitrary: b)
  case (Cons x xs)
  have "moves a (g b x)" using moves_trans [OF Cons.prems(2) Cons.prems(1)] .
  then show ?case using Cons.IH [OF Cons.prems(1)] by simp
qed simp

lemma moves_if [keeps]: "moves a b \<Longrightarrow> moves a c \<Longrightarrow> moves a (if p then b else c)"
  by simp

section \<open>Drawing is a step\<close>

lemma moves_process_manager [keeps]: "moves a b \<Longrightarrow> moves a (gfx_render_process_manager_content win b)"
proof -
  assume m: "moves a b"
  define b1 where "b1 = (if g_pm_selected_index b \<ge> int WIN_TERMINAL_FIRST \<and> g_pm_selected_index b \<notin> set (map int (build_running_process_list b))
      then b\<lparr>g_pm_selected_index := -1\<rparr> else b)"
  have "moves a b1" unfolding b1_def
    by (rule moves_if [OF moves_fb_same [OF m] m]) (simp_all add: desk_ok_def indices_ok_def)
  then show ?thesis
    unfolding gfx_render_process_manager_content_def Let_def b1_def [symmetric] by (rule moves_drawn) (intro draws)
qed

lemma moves_window [keeps]: "moves a b \<Longrightarrow> moves a (gfx_render_window b i)"
  unfolding gfx_render_window_def Let_def
  by (cases "gw_role (g_windows b ! i)") (auto intro!: moves_drawn moves_process_manager draws)

lemma moves_windows [keeps]: "moves a b \<Longrightarrow> moves a (gfx_render_windows b)"
  unfolding gfx_render_windows_def by (intro moves_foldl moves_window moves_refl)

lemma moves_cursor [keeps]: "moves a b \<Longrightarrow> moves a (gfx_render_cursor b)"
  unfolding gfx_render_cursor_def Let_def
  by (cases "terminal_window b") (auto intro!: moves_active_case moves_drawn draws)

lemma moves_front [keeps]: "moves a b \<Longrightarrow> moves a (scene_front b)"
  unfolding scene_front_def Let_def by (intro moves_cursor moves_drawn moves_windows draws)

lemma moves_background [keeps]: "moves a b \<Longrightarrow> moves a (scene_background b)"
  unfolding scene_background_def by (intro moves_drawn) (auto intro!: draws)

lemma moves_full [keeps]: "moves a b \<Longrightarrow> moves a (gfx_render_full b)"
  unfolding gfx_render_full_def Let_def
  by (intro moves_active_case moves_front moves_if moves_on_session moves_background)

lemma moves_scene [keeps]: "moves a b \<Longrightarrow> moves a (gfx_render_scene_no_cursor b)"
  unfolding gfx_render_scene_no_cursor_def by (intro keeps)

lemma moves_panic [keeps]: "moves a b \<Longrightarrow> moves a (gfx_render_panic_full b)"
  unfolding gfx_render_panic_full_def Let_def by (intro moves_active_case moves_on_session moves_drawn draws_foldl draws)

lemma moves_clear_dirty [keeps]: "moves a b \<Longrightarrow> moves a (clear_visible_text_dirty b)"
  unfolding clear_visible_text_dirty_def Let_def
  by (intro moves_active_case moves_on_session)

lemma moves_cell [keeps]: "moves a b \<Longrightarrow> moves a (gfx_render_terminal_cell wi row col b)"
  unfolding gfx_render_terminal_cell_def Let_def by (auto intro!: moves_on_session moves_drawn draws)

lemma moves_cell_of [keeps]: "moves a b \<Longrightarrow> moves a (render_cell_of tw row col b)"
  unfolding render_cell_of_def by (auto intro!: keeps split: option.split)

lemma moves_dirty [keeps]: "moves a b \<Longrightarrow> moves a (render_dirty tw si rows cols b)"
proof -
  assume m: "moves a b"
  show ?thesis unfolding render_dirty_def Let_def
    by (intro moves_if moves_on_session moves_foldl m moves_cell_of moves_refl)
qed

lemma moves_incremental [keeps]: "moves a b \<Longrightarrow> moves a (incremental_scene b)"
  unfolding incremental_scene_def Let_def
  by (intro moves_active_case moves_show moves_cursor moves_dirty) (auto split: option.split intro!: moves_cell_of moves_hide)

lemma moves_redraw_hidden [keeps]: "moves a b \<Longrightarrow> moves a (redraw_hidden b)"
  unfolding redraw_hidden_def by (intro keeps)

lemma moves_redraw [keeps]: "moves a b \<Longrightarrow> moves a (redraw b)"
  unfolding redraw_def by (intro keeps)

section \<open>Operations are steps\<close>

lemma recolour_id [simp]: "win_id (recolour t k w) = win_id w"
  by (simp add: win_id_def recolour_def)

lemma win_id_fields [simp]:
  "win_id (w\<lparr>gw_visible := v\<rparr>) = win_id w" "win_id (w\<lparr>gw_body_bg := c\<rparr>) = win_id w"
  "win_id (w\<lparr>gw_x := x, gw_y := y\<rparr>) = win_id w" "win_id (w\<lparr>gw_w := x, gw_h := y\<rparr>) = win_id w"
  by (simp_all add: win_id_def)

lemma moves_map_windows [keeps]:
  "moves a b \<Longrightarrow> (\<And>w. win_id (f w) = win_id w) \<Longrightarrow> moves a (b\<lparr>g_windows := map f (g_windows b)\<rparr>)"
  by (erule moves_fb_same) (simp_all add: desk_ok_def indices_ok_def windows_map)

lemma moves_theme [keeps]: "moves a b \<Longrightarrow> moves a (apply_theme t b)"
  unfolding apply_theme_def Let_def
  by (intro moves_fields(7)) (auto split: option.split intro!: moves_on_window moves_map_windows moves_fields(6))

lemma moves_indices:
  assumes "moves a b" "desk_ok b \<Longrightarrow> indices_ok (b\<lparr>g_drag_window := d, g_resize_window := r, g_pm_selected_index := p\<rparr>)"
  shows "moves a (b\<lparr>g_drag_window := d, g_resize_window := r, g_pm_selected_index := p\<rparr>)"
  using assms(1) by (rule moves_fb_same) (use assms(2) in \<open>simp_all add: desk_ok_def indices_ok_def\<close>)

lemma moves_kill [keeps]:
  assumes "moves a b"
  shows "moves a (process_manager_kill_selected b)"
proof -
  have drop: "moves a (c\<lparr>g_pm_selected_index := -1\<rparr>)" if "moves a c" for c
    using that by (rule moves_fb_same) (simp_all add: desk_ok_def indices_ok_def)
  have hide: "moves a (c\<lparr>g_drag_window := (if g_drag_window c = s then -1 else g_drag_window c),
        g_resize_window := (if g_resize_window c = s then -1 else g_resize_window c)\<rparr>)" if "moves a c" for c s
    using that by (rule moves_fb_same) (auto simp: desk_ok_def indices_ok_def)
  show ?thesis unfolding process_manager_kill_selected_def Let_def
    by (intro moves_if assms drop moves_focus hide moves_on_window) simp_all
qed

lemma running_in_range: "i \<in> set (build_running_process_list dk) \<Longrightarrow> i < 19"
  by (simp add: build_running_process_list_def)

lemma moves_click: "moves a b \<Longrightarrow> moves a (snd (process_manager_handle_click wi x y b))"
proof -
  assume m: "moves a b"
  have "moves a (b\<lparr>g_pm_selected_index := int (build_running_process_list b ! i)\<rparr>)" if "i < length (build_running_process_list b)" for i
    using m by (rule moves_fb_same)
      (use running_in_range [of "build_running_process_list b ! i" b] that in \<open>simp_all add: desk_ok_def indices_ok_def\<close>)
  then show ?thesis unfolding process_manager_handle_click_def Let_def
    using m by (auto split: option.split intro: moves_kill dest!: for_find_SomeD)
qed

lemma moves_create: "moves a b \<Longrightarrow> moves a (snd (display_create_terminal_session e v b))"
proof -
  assume m: "moves a b"
  have task: "moves a (snd (spawn_terminal_task_for_session e s b))" for s
    using m by (rule moves_fb_same)
      (auto simp: spawn_terminal_task_for_session_def desk_ok_def indices_ok_def display_ok_def Let_def split: prod.split)
  have show_s: "moves a (show_session s v c)" if "moves a c" "s < 16" for s c
    unfolding show_session_def Let_def using that by (auto intro!: keeps)
  have new: "moves a (show_session s v (on_session s reset_grid c))" "moves a c"
    if "spawn_terminal_task_for_session e s b = (t, c)" "s < 16" for s t c
    using task [of s] show_s [OF moves_on_session, of c s s reset_grid] that by simp_all
  show ?thesis
    unfolding display_create_terminal_session_def
    using m new by (auto split: option.split prod.split dest!: for_find_SomeD intro!: moves_force_redraw)
qed

lemma moves_spawn_pending [keeps]: "moves a b \<Longrightarrow> moves a (spawn_pending e b)"
  unfolding spawn_pending_def by (intro moves_if moves_create moves_fields)

lemma moves_clamp [keeps]: "moves a b \<Longrightarrow> moves a (clamp_cursor_of si b)"
  unfolding clamp_cursor_of_def Let_def by (intro moves_if moves_on_session)

lemma moves_usage [keeps]: "moves a b \<Longrightarrow> moves a (update_process_usage_sample b)"
  by (erule moves_fb_same) (auto simp: update_process_usage_sample_def desk_ok_def indices_ok_def split: option.split)

lemma moves_put_char [keeps]: "moves a b \<Longrightarrow> moves a (put_char_quiet c b)"
proof -
  assume m: "moves a b"
  have "moves a (b\<lparr>dk_disp := (dk_disp b)\<lparr>serial_out := s\<rparr>\<rparr>)" for s
    using m by (rule moves_fb_same) (simp_all add: desk_ok_def indices_ok_def display_ok_def)
  then show ?thesis unfolding put_char_quiet_def Let_def using m by (intro moves_if moves_force_redraw moves_on_session)
qed

lemma moves_show_window [keeps]: "moves a b \<Longrightarrow> moves a (show_window w b)"
  unfolding show_window_def Let_def by (auto intro!: keeps)

lemma moves_menu [keeps]: "moves a b \<Longrightarrow> moves a (menu_item n b)"
  unfolding menu_item_def Let_def using session_range by (auto intro!: keeps)

lemma moves_close [keeps]: "moves a b \<Longrightarrow> moves a (close_top_window b)"
proof -
  assume m: "moves a b"
  have w: "moves a (on_window (WIN_COUNT - 1) (\<lambda>w. w\<lparr>gw_visible := False\<rparr>) b)" by (intro moves_on_window m) simp
  have u: "moves a (c\<lparr>g_pm_selected_index := (if p \<or> g_pm_selected_index c = int (WIN_COUNT - 1) then -1 else g_pm_selected_index c),
      g_drag_window := (if g_drag_window c = int (WIN_COUNT - 1) then -1 else g_drag_window c),
      g_resize_window := (if g_resize_window c = int (WIN_COUNT - 1) then -1 else g_resize_window c)\<rparr>)" if "moves a c" for c p
    using that by (rule moves_fb_same) (auto simp: desk_ok_def indices_ok_def)
  show ?thesis unfolding close_top_window_def Let_def by (intro moves_if moves_focus u w)
qed

lemma moves_grab [keeps]: "moves a b \<Longrightarrow> moves a (grab_top_window x y b)"
proof -
  assume m: "moves a b"
  define b1 where "b1 = set_focus (if terminal_session_from_window (g_windows b ! (WIN_COUNT - 1)) \<ge> 0
      then terminal_session_from_window (g_windows b ! (WIN_COUNT - 1)) else -1) (b\<lparr>g_drag_window := -1, g_resize_window := -1\<rparr>)"
  have "moves a (b\<lparr>g_drag_window := -1, g_resize_window := -1\<rparr>)"
    using m by (rule moves_fb_same) (auto simp: desk_ok_def indices_ok_def)
  then have b1: "moves a b1" unfolding b1_def using session_range by (auto intro!: keeps)
  have i: "g_drag_window b1 = -1" "g_resize_window b1 = -1" by (simp_all add: b1_def set_focus_def)
  have r: "moves a (b1\<lparr>g_resize_window := int (WIN_COUNT - 1), g_resize_offset_x := p, g_resize_offset_y := q\<rparr>)" for p q
    using b1 by (rule moves_fb_same) (use i in \<open>auto simp: desk_ok_def indices_ok_def\<close>)
  have d: "moves a (b1\<lparr>g_drag_window := int (WIN_COUNT - 1), g_drag_offset_x := p, g_drag_offset_y := q\<rparr>)" for p q
    using b1 by (rule moves_fb_same) (use i in \<open>auto simp: desk_ok_def indices_ok_def\<close>)
  have v: "moves a c \<Longrightarrow> moves a (on_fb (framebuffer_set_vsync_enabled 0) (c\<lparr>g_interactive_move_active := True\<rparr>))" for c
    by (intro moves_on_fb moves_fields vsync_keeps)
  show ?thesis unfolding grab_top_window_def Let_def b1_def [symmetric] by (intro moves_if v r d b1)
qed

lemma moves_press_windows: "moves a b \<Longrightarrow> moves a (snd (press_windows x y b))"
proof -
  assume m: "moves a b"
  define hit where "hit = gui_find_topmost_visible_at (g_windows b) WIN_TERMINAL_FIRST x y False"
  define b1 where "b1 = (if hit \<noteq> int (WIN_COUNT - 1) then bring_window_to_front hit b else b)"
  have b1: "moves a b1" unfolding b1_def by (intro moves_if moves_bring m)
  obtain h c where hc: "process_manager_handle_click (WIN_COUNT - 1) x y b1 = (h, c)" by fastforce
  have c: "moves a c" using moves_click [OF b1, of "WIN_COUNT - 1" x y] unfolding hc by simp
  show ?thesis
    unfolding press_windows_def Let_def hit_def [symmetric] b1_def [symmetric] hc
    using m b1 c by (auto split: option.split intro!: moves_redraw moves_close moves_theme moves_redraw_hidden moves_grab)
qed

lemma moves_press: "moves a b \<Longrightarrow> moves a (snd (press x y b))"
  unfolding press_def by (auto intro!: moves_press_windows moves_redraw moves_menu moves_fields)

lemma moves_drag [keeps]: "moves a b \<Longrightarrow> moves a (drag x y b)"
  unfolding drag_def Let_def by (auto split: prod.split intro!: moves_redraw moves_on_window)

lemma moves_resize [keeps]: "moves a b \<Longrightarrow> moves a (resize x y b)"
  unfolding resize_def Let_def by (auto split: prod.split intro!: moves_redraw moves_on_window)

lemma moves_release [keeps]: "moves a b \<Longrightarrow> moves a (release b)"
proof -
  assume m: "moves a b"
  have off: "moves a (c\<lparr>g_drag_window := -1, g_resize_window := -1\<rparr>)" if "moves a c" for c
    using that by (rule moves_fb_same) (auto simp: desk_ok_def indices_ok_def)
  show ?thesis unfolding release_def Let_def
    by (intro off moves_if m moves_redraw_hidden moves_fields moves_on_fb vsync_keeps)
qed

lemma moves_mouse [keeps]: "moves a b \<Longrightarrow> moves a (display_handle_mouse_event x y buttons b)"
  unfolding display_handle_mouse_event_def Let_def
  by (auto intro!: moves_fields moves_release moves_resize moves_drag moves_press)

lemma moves_panic_mode [keeps]: "moves a b \<Longrightarrow> moves a (display_set_panic_mode p b)"
proof -
  assume m: "moves a b"
  have on: "moves a (b\<lparr>g_panic_mode := p, g_start_menu_open := False, g_drag_window := -1, g_resize_window := -1, g_gfx_disable_overlay := True,
      g_prev_cursor := None\<rparr>)" using m by (rule moves_fb_same) (auto simp: desk_ok_def indices_ok_def)
  have off: "moves a (b\<lparr>g_panic_mode := p\<rparr>)" using m by (rule moves_fb_same) (auto simp: desk_ok_def indices_ok_def)
  show ?thesis unfolding display_set_panic_mode_def Let_def by (intro moves_force_redraw moves_if) (simp_all add: on off)
qed

lemma moves_bind [keeps]: "moves a b \<Longrightarrow> moves a (display_bind_task s t b)"
  by (erule moves_fb_same) (auto simp: display_bind_task_def display_bind_terminal_task_def desk_ok_def indices_ok_def display_ok_def)

end
