(* ===== verification/Desktop_Screen.thy ===== *)
theory Desktop_Screen
  imports Desktop_Inv
begin

text \<open>
  What the user sees: a flush that returns leaves the screen up to date, and every path of the refresh, panic, full or
  incremental, ends with one.
\<close>

section \<open>The flush\<close>

lemma flush_ok:
  assumes ok: "screen_ok fb" and f: "framebuffer_flush pio (fb, m) = Some (fb', m')"
  shows "screen_ok fb'" "same_size fb fb'" "on_picture fb x y \<Longrightarrow> drawn fb' x y = drawn fb x y"
    "fb_clean fb \<Longrightarrow> on_picture fb x y \<Longrightarrow> shown fb' x y = drawn fb' x y"
proof -
  have "fb' = fb \<or> (\<exists>b v x1 y1 x2 y2. gf_back fb = Some b
      \<and> fb' = fb\<lparr>gf_screen := fill_area (gf_pitch fb) v x1 y1 x2 y2 (gf_screen fb), gf_dirty := None\<rparr>)"
    using f by (fastforce simp: framebuffer_flush_def split: option.splits if_splits)
  then have *: "screen_ok fb' \<and> same_size fb fb' \<and> gf_pitch fb' = gf_pitch fb \<and> gf_dst fb' = gf_dst fb"
    using ok by (auto simp: screen_ok_def fb_ok_def same_size_def gf_dst_def)
  then show "screen_ok fb'" "same_size fb fb'" by simp_all
  show d: "on_picture fb x y \<Longrightarrow> drawn fb' x y = drawn fb x y" using * by (simp add: drawn_def)
  show "fb_clean fb \<Longrightarrow> on_picture fb x y \<Longrightarrow> shown fb' x y = drawn fb' x y"
    using flush_shows [of fb pio m fb' m' x y] f ok d by (simp add: screen_ok_def)
qed

text \<open>A screen that is up to date shows what was drawn.\<close>

definition up_to_date :: "framebuffer \<Rightarrow> bool" where
  "up_to_date fb \<longleftrightarrow> (\<forall>x y. on_picture fb x y \<longrightarrow> shown fb x y = drawn fb x y)"

lemma up_to_date_clean: "up_to_date fb \<Longrightarrow> fb_clean fb"
  by (simp add: up_to_date_def fb_clean_def)

lemma flush_desktop_ok:
  assumes "desk_ok dk" "fb_clean (dk_fb dk)" "flush_desktop pio (dk, m) = Some (dk', m')"
  shows "desk_ok dk' \<and> up_to_date (dk_fb dk') \<and> same_size (dk_fb dk) (dk_fb dk')"
proof -
  obtain fb' where f: "framebuffer_flush pio (dk_fb dk, m) = Some (fb', m')" and e: "dk' = dk\<lparr>dk_fb := fb'\<rparr>"
    using assms(3) by (auto simp: flush_desktop_def)
  have s: "screen_ok (dk_fb dk)" using assms(1) by (simp add: desk_ok_def mouse_ok_def)
  note F = flush_ok [OF s f]
  have "desk_ok dk'" using assms(1) F(1) by (simp add: e desk_ok_def indices_ok_def mouse_ok_def)
  moreover have "up_to_date fb'" unfolding up_to_date_def using F(2,4) assms(2) by (simp add: same_size_def)
  ultimately show ?thesis using F(2) by (simp add: e)
qed

section \<open>The refresh\<close>

lemma movesD: "moves a b \<Longrightarrow> desk_ok a \<Longrightarrow> desk_ok b \<and> (fb_clean (dk_fb a) \<longrightarrow> fb_clean (dk_fb b)) \<and> same_size (dk_fb a) (dk_fb b)"
  by (simp add: moves_def fb_keeps_def desk_ok_def mouse_ok_def)

lemma background_clean: "desk_ok dk \<Longrightarrow> fb_clean (dk_fb (scene_background dk))"
proof -
  assume "desk_ok dk"
  then have ok: "fb_ok (dk_fb dk)" by (simp add: desk_ok_def mouse_ok_def screen_ok_def)
  have "draws_on (framebuffer_clear 15 (dk_fb dk)) (gfx_render_test_overlay dk (dk_fb dk))"
    unfolding gfx_render_test_overlay_def by (intro draws)
  then have "fb_clean (gfx_render_test_overlay dk (dk_fb dk))" using draws_onD(2) clear_clean(1,2) [OF ok] by blast
  then show ?thesis using clear_clean(2) [OF ok] by (simp add: scene_background_def on_fb_def)
qed

lemma size_trans: "same_size a b \<Longrightarrow> same_size b c \<Longrightarrow> same_size a c"
  by (simp add: same_size_def)

lemma full_clean: "desk_ok dk \<Longrightarrow> desk_ok (full_scene dk) \<and> fb_clean (dk_fb (full_scene dk)) \<and> same_size (dk_fb dk) (dk_fb (full_scene dk))"
proof -
  assume ok: "desk_ok dk"
  obtain si c where c: "terminal_state_for_active_ui dk = (si, c)" by fastforce
  have okc: "desk_ok c" using movesD [OF moves_active [OF moves_refl c] ok] by simp
  have "moves (scene_background c) (full_scene dk)"
    unfolding full_scene_def gfx_render_full_def c Let_def prod.case by (intro moves_show moves_front moves_if moves_on_session moves_refl)
  moreover have "moves dk (full_scene dk)" unfolding full_scene_def by (intro moves_show moves_full moves_refl)
  ultimately show ?thesis
    using movesD [OF moves_background [OF moves_refl] okc] background_clean [OF okc] movesD ok by blast
qed

lemma panic_clean: "desk_ok dk \<Longrightarrow> desk_ok (gfx_render_panic_full dk) \<and> fb_clean (dk_fb (gfx_render_panic_full dk))
    \<and> same_size (dk_fb dk) (dk_fb (gfx_render_panic_full dk))"
proof -
  assume ok: "desk_ok dk"
  obtain si c where c: "terminal_state_for_active_ui dk = (si, c)" by fastforce
  have okc: "fb_ok (dk_fb c)"
    using movesD [OF moves_active [OF moves_refl c] ok] by (simp add: desk_ok_def mouse_ok_def screen_ok_def)
  define f where "f = (\<lambda>fb. foldl (\<lambda>fb row. foldl (\<lambda>fb col. draw_cell c (text_cells (g_terminal_states (dk_disp c) ! si)) 0 0
      (if gfx_ui_scale c > 1 then 1 else 0) row col fb) fb [0..<visible_cols c]) fb [0..<visible_rows c])"
  have "draws_on (framebuffer_clear (g_gfx_bg c) (dk_fb c)) (f (framebuffer_clear (g_gfx_bg c) (dk_fb c)))"
    unfolding f_def by (intro draws_foldl draws)
  then have "fb_clean (f (framebuffer_clear (g_gfx_bg c) (dk_fb c)))" using draws_onD(2) clear_clean(1,2) [OF okc] by blast
  moreover have "dk_fb (gfx_render_panic_full dk) = f (framebuffer_clear (g_gfx_bg c) (dk_fb c))"
    by (simp add: gfx_render_panic_full_def c on_session_def on_fb_def f_def Let_def)
  ultimately show ?thesis using movesD [OF moves_panic [OF moves_refl] ok] by simp
qed

lemma clear_dirty_fb [simp]: "dk_fb (clear_visible_text_dirty dk) = dk_fb dk"
  by (simp add: clear_visible_text_dirty_def terminal_state_for_active_ui_def ensure_valid_terminal_focus_def set_focus_def on_session_def
      Let_def split: option.split)

lemma force_redraw_fb [simp]: "dk_fb (force_redraw b dk) = dk_fb dk"
  by (simp add: force_redraw_def)

lemma desk_refresh_ok:
  assumes ok: "desk_ok dk" and r: "desk_refresh pio entries (dk, m) = Some (dk', m')"
    and d: "dk1 = clamp_cursor_of (io_slot dk) (spawn_pending entries dk)" "dk_mode dk1 = VIDEO_MODE_GRAPHICS"
    and c: "fb_clean (dk_fb dk) \<or> terminal_force_full_redraw (dk_disp dk1) \<or> g_panic_mode dk1"
  shows "desk_ok dk' \<and> up_to_date (dk_fb dk') \<and> same_size (dk_fb dk) (dk_fb dk')"
proof -
  have m1: "moves dk dk1" unfolding d(1) by (intro moves_clamp moves_spawn_pending moves_refl)
  note M1 = movesD [OF m1 ok]
  define dk2 where "dk2 = (if visible_terminal_count (if process_manager_visible dk1 then update_process_usage_sample dk1 else dk1) > 1
      then force_redraw True (if process_manager_visible dk1 then update_process_usage_sample dk1 else dk1)
      else (if process_manager_visible dk1 then update_process_usage_sample dk1 else dk1))"
  have "moves dk1 dk2" unfolding dk2_def by (intro moves_if moves_force_redraw moves_usage moves_refl)
  from movesD [OF this conjunct1 [OF M1]] have M2: "desk_ok dk2" "fb_clean (dk_fb dk1) \<Longrightarrow> fb_clean (dk_fb dk2)" "same_size (dk_fb dk1) (dk_fb dk2)" by simp_all
  have z: "same_size (dk_fb dk) (dk_fb dk1)" "same_size (dk_fb dk) (dk_fb dk2)" using M1 M2(3) size_trans by blast+
  have f2: "terminal_force_full_redraw (dk_disp dk1) \<Longrightarrow> terminal_force_full_redraw (dk_disp dk2)"
    by (simp add: dk2_def force_redraw_def update_process_usage_sample_def split: option.split)
  note R = r [unfolded desk_refresh_def Let_def fst_conv snd_conv, folded d(1), folded dk2_def]
  have clr: "moves e (clear_visible_text_dirty e)" for e by (intro moves_clear_dirty moves_refl)
  consider (P) "g_panic_mode dk1" | (F) "\<not> g_panic_mode dk1" "terminal_force_full_redraw (dk_disp dk2)"
    | (I) "\<not> g_panic_mode dk1" "\<not> terminal_force_full_redraw (dk_disp dk2)" by blast
  then show ?thesis
  proof cases
    case P
    then obtain e where e: "flush_desktop pio (gfx_render_panic_full dk1, m) = Some (e, m')"
      "dk' = (force_redraw False (clear_visible_text_dirty e))\<lparr>g_prev_cursor := None\<rparr>" using R d(2) by auto
    have "desk_ok e \<and> up_to_date (dk_fb e) \<and> same_size (dk_fb dk) (dk_fb e)"
      using flush_desktop_ok [OF _ _ e(1)] panic_clean [of dk1] M1 z(1) size_trans by blast
    then show ?thesis using movesD [OF clr] by (simp add: e(2) ok_force_redraw)
  next
    case F
    then obtain e where e: "flush_desktop pio (full_scene dk2, m) = Some (e, m')"
      "dk' = (force_redraw False (clear_visible_text_dirty e))\<lparr>g_prev_cursor := Some (cursor_of (force_redraw False (clear_visible_text_dirty e)) (io_slot dk))\<rparr>"
      using R d(2) by (auto simp: Let_def)
    have "desk_ok e \<and> up_to_date (dk_fb e) \<and> same_size (dk_fb dk) (dk_fb e)"
      using flush_desktop_ok [OF _ _ e(1)] full_clean [OF M2(1)] z(2) size_trans by blast
    then show ?thesis using movesD [OF clr] by (simp add: e(2) ok_force_redraw)
  next
    case I
    then obtain e where e: "flush_desktop pio (incremental_scene dk2, m) = Some (e, m')"
      "dk' = e\<lparr>g_prev_cursor := Some (cursor_of e (fst (terminal_state_for_active_ui dk2)))\<rparr>"
      using R d(2) by (auto simp: gfx_refresh_terminal_incremental_def Let_def)
    have "fb_clean (dk_fb dk2)" using c I f2 M1 M2(2) by blast
    then have "desk_ok e \<and> up_to_date (dk_fb e) \<and> same_size (dk_fb dk) (dk_fb e)"
      using flush_desktop_ok [OF _ _ e(1)] movesD [OF moves_incremental [OF moves_refl] M2(1)] z(2) size_trans by blast
    then show ?thesis by (simp add: e(2))
  qed
qed

end
