(* ===== verification/Mouse_Packets.thy ===== *)
theory Mouse_Packets
  imports Desktop_Screen
begin

text \<open>
  The packets of the mouse, \<^verbatim>\<open>mouse_irq_handler\<close> and \<^verbatim>\<open>mouse_process_packet\<close> of
  \<^verbatim>\<open>src/drivers/mouse.c\<close>: three bytes make a movement, which goes to the desktop, and the pointer stays on the screen.
\<close>

section \<open>The decoder\<close>

abbreviation GFX_BUTTON_X :: s32 where "GFX_BUTTON_X \<equiv> 32"
abbreviation GFX_BUTTON_Y :: s32 where "GFX_BUTTON_Y \<equiv> 48"
abbreviation GFX_BUTTON_W :: s32 where "GFX_BUTTON_W \<equiv> 80"
abbreviation GFX_BUTTON_H :: s32 where "GFX_BUTTON_H \<equiv> 16"

definition on_mouse :: "(mouse \<Rightarrow> mouse) \<Rightarrow> desktop \<Rightarrow> desktop" where
  "on_mouse f dk = dk\<lparr>dk_mouse := f (dk_mouse dk)\<rparr>"

definition keep_inside :: "u32 \<Rightarrow> s32 \<Rightarrow> s32" where
  "keep_inside bound v = (if v <s 0 then 0 else if bound - of_nat MOUSE_CURSOR_SIZE \<le>s v then bound - of_nat MOUSE_CURSOR_SIZE else v)"

definition packet_move :: "u32 \<Rightarrow> u32 \<Rightarrow> mouse \<Rightarrow> mouse" where
  "packet_move w h ms =
     (let dx = scast (ms_packet ms ! 1) :: s32; dy = scast (ms_packet ms ! 2) :: s32 in
      ms\<lparr>ms_x := keep_inside w (ms_x ms + dx * 4), ms_y := keep_inside h (ms_y ms - dy * 4), ms_buttons := ms_packet ms ! 0 AND 0x07\<rparr>)"

definition button_area :: "mouse \<Rightarrow> bool" where
  "button_area ms \<longleftrightarrow> ms_buttons ms AND 1 \<noteq> 0 \<and> in_box (ms_x ms) (ms_y ms) GFX_BUTTON_X GFX_BUTTON_Y GFX_BUTTON_W GFX_BUTTON_H"

definition mouse_process_packet :: "'m ports \<Rightarrow> u32 \<times> u32 \<Rightarrow> desktop \<times> 'm \<Rightarrow> (desktop \<times> 'm) option" where
  "mouse_process_packet pio entries dm =
     (case dm of (dk, m) \<Rightarrow>
      if ms_packet (dk_mouse dk) ! 0 AND 0xC0 \<noteq> 0 then Some (dk, m)
      else let dk1 = on_mouse (packet_move (fb_w dk) (fb_h dk)) dk; ms = dk_mouse dk1 in
        if dk_mode dk1 = VIDEO_MODE_GRAPHICS
        then (case display_set_button_pressed pio entries (button_area ms) (dk1, m) of
                None \<Rightarrow> None
              | Some (dk2, m1) \<Rightarrow>
                  flush_desktop pio (on_pointer mouse_draw_pointer (display_handle_mouse_event (ms_x ms) (ms_y ms) (ms_buttons ms) dk2), m1))
        else Some (dk1, m))"

definition store_byte :: "nat \<Rightarrow> u8 \<Rightarrow> u8 \<Rightarrow> mouse \<Rightarrow> mouse" where
  "store_byte i data phase ms = ms\<lparr>ms_packet := (ms_packet ms)[i := data], ms_phase := phase\<rparr>"

definition mouse_byte :: "'m ports \<Rightarrow> u32 \<times> u32 \<Rightarrow> u8 \<Rightarrow> desktop \<times> 'm \<Rightarrow> (desktop \<times> 'm) option" where
  "mouse_byte pio entries data dm =
     (case dm of (dk, m) \<Rightarrow>
      if ms_phase (dk_mouse dk) = 0 then (if data AND 0x08 = 0 then Some (dk, m) else Some (on_mouse (store_byte 0 data 1) dk, m))
      else if ms_phase (dk_mouse dk) = 1 then Some (on_mouse (store_byte 1 data 2) dk, m)
      else if ms_phase (dk_mouse dk) = 2 then mouse_process_packet pio entries (on_mouse (store_byte 2 data 0) dk, m)
      else Some (dk, m))"

definition mouse_irq_handler :: "'m ports \<Rightarrow> u32 \<times> u32 \<Rightarrow> desktop \<times> 'm \<Rightarrow> (desktop \<times> 'm) option" where
  "mouse_irq_handler pio entries dm =
     (case io_inb pio (snd dm) KBC_DATA_PORT of (data, m1) \<Rightarrow> mouse_byte pio entries data (fst dm, m1))"

definition mouse_get_x :: "desktop \<Rightarrow> s32" where "mouse_get_x dk = ms_x (dk_mouse dk)"
definition mouse_get_y :: "desktop \<Rightarrow> s32" where "mouse_get_y dk = ms_y (dk_mouse dk)"
definition mouse_get_buttons :: "desktop \<Rightarrow> u8" where "mouse_get_buttons dk = ms_buttons (dk_mouse dk)"

section \<open>The pointer stays on the screen\<close>

text \<open>The position as integers: each movement, four pixels per unit, is cut at the edges so that the whole pointer is on the screen.\<close>

definition at_edge :: "int \<Rightarrow> int \<Rightarrow> int" where
  "at_edge bound v = max 0 (min (bound - 5) v)"

definition track :: "int \<Rightarrow> int \<Rightarrow> u8 list \<Rightarrow> int \<times> int \<Rightarrow> int \<times> int" where
  "track w h p xy = (at_edge w (fst xy + 4 * sint (p ! 1)), at_edge h (snd xy - 4 * sint (p ! 2)))"

definition position :: "mouse \<Rightarrow> int \<times> int" where
  "position ms = (sint (ms_x ms), sint (ms_y ms))"

lemma sint_in: "-2147483648 \<le> k \<Longrightarrow> k < 2147483648 \<Longrightarrow> signed_take_bit 31 k = (k :: int)"
  by (rule signed_take_bit_int_eq_self) simp_all

lemma mouse_byte_range: "-128 \<le> sint (b :: u8) \<and> sint b \<le> 127"
  using sint_ge [of b] sint_lt [of b] by simp

lemma sint_scast_up: "sint (scast (b :: u8) :: s32) = sint b"
proof -
  have "signed_take_bit 31 (sint b) = sint b" using mouse_byte_range [of b] by (intro sint_in) linarith+
  then show ?thesis by (simp add: signed_scast_eq)
qed

lemma sint_times_4: "sint (scast (b :: u8) * 4 :: s32) = 4 * sint b"
proof -
  have "signed_take_bit 31 (sint b * 4) = sint b * 4" using mouse_byte_range [of b] by (intro sint_in) linarith+
  then show ?thesis by (simp add: sint_word_ariths sint_scast_up)
qed

lemma keep_inside_cut:
  assumes "5 \<le> bound" "bound < 2 ^ 31" "unat b = nat bound"
  shows "sint (keep_inside b v) = at_edge bound (sint v)"
proof -
  have n: "unat b = nat bound" by (rule assms(3))
  have "5 \<le> unat b" using n assms(1) by simp
  then have "(5 :: u32) \<le> b" by (simp add: word_le_nat_alt)
  then have u: "unat (b - 5) = unat b - 5" by (simp add: unat_sub)
  have "nat bound < 2147483648" using assms(2) by (simp add: nat_less_iff)
  then have "unat (b - 5) < 2 ^ 31" unfolding u n by simp
  from sint_small [OF this] have s: "sint (b - 5) = bound - 5" unfolding u n using assms(1) by linarith
  have "keep_inside b v = (if sint v < 0 then 0 else if sint (b - 5) \<le> sint v then b - 5 else v)"
    by (simp add: keep_inside_def word_sless_alt word_sle_eq)
  then show ?thesis using assms(1) s by (auto simp: at_edge_def)
qed

lemma cut_range: "5 \<le> b \<Longrightarrow> 0 \<le> at_edge b v \<and> at_edge b v \<le> b - 5"
  by (simp add: at_edge_def)

lemma track_range:
  assumes "5 \<le> w" "5 \<le> h"
  shows "fst (track w h p xy) \<in> {0..w - 5} \<and> snd (track w h p xy) \<in> {0..h - 5}"
  using cut_range [OF assms(1)] cut_range [OF assms(2)] by (simp add: track_def)

lemma packet_move_tracks:
  assumes "5 \<le> w" "w < 2 ^ 30" "5 \<le> h" "h < 2 ^ 30" "unat fw = nat w" "unat fh = nat h"
    and "0 \<le> fst (position ms)" "fst (position ms) \<le> w" "0 \<le> snd (position ms)" "snd (position ms) \<le> h"
  shows "position (packet_move fw fh (ms\<lparr>ms_packet := p\<rparr>)) = track w h p (position ms)"
proof -
  have x: "sint (ms_x ms + scast (p ! 1) * 4) = sint (ms_x ms) + 4 * sint (p ! 1)"
  proof -
    have "signed_take_bit 31 (sint (ms_x ms) + 4 * sint (p ! 1)) = sint (ms_x ms) + 4 * sint (p ! 1)"
      using mouse_byte_range [of "p ! 1"] assms(2,7,8) by (intro sint_in) (simp_all add: position_def)
    then show ?thesis by (subst sint_word_ariths(1)) (simp add: sint_times_4)
  qed
  have y: "sint (ms_y ms - scast (p ! 2) * 4) = sint (ms_y ms) - 4 * sint (p ! 2)"
  proof -
    have "signed_take_bit 31 (sint (ms_y ms) - 4 * sint (p ! 2)) = sint (ms_y ms) - 4 * sint (p ! 2)"
      using mouse_byte_range [of "p ! 2"] assms(4,9,10) by (intro sint_in) (simp_all add: position_def)
    then show ?thesis by (subst sint_word_ariths(2)) (simp add: sint_times_4)
  qed
  show ?thesis
    using keep_inside_cut [of w fw] keep_inside_cut [of h fh] assms(1-6) x y
    by (simp add: packet_move_def track_def position_def Let_def)
qed



end
