(* ===== verification/Desktop_Run.thy ===== *)
theory Desktop_Run
  imports Mouse_Packets
begin

text \<open>
  The desktop from start-up on: start-up establishes the invariant, and every call and every byte of the mouse keeps it.
\<close>

section \<open>Start-up\<close>

text \<open>The static data of the module before \<^verbatim>\<open>display_init\<close>: arrays of their sizes, and nothing grabbed.\<close>

definition static_ok :: "desktop \<Rightarrow> bool" where
  "static_ok dk \<longleftrightarrow> length (g_windows dk) = 19 \<and> length (g_terminal_states (dk_disp dk)) = 16 \<and> length (ms_prev_buffer (dk_mouse dk)) = 25
     \<and> g_drag_window dk = -1 \<and> g_resize_window dk = -1 \<and> \<not> g_pending_terminal_spawn dk \<and> focus dk = 0 \<and> gf_dirty (dk_fb dk) = None"

abbreviation ids_of :: "desktop \<Rightarrow> (gui_window_role \<times> u8) list" where
  "ids_of dk \<equiv> map win_id (g_windows dk)"

lemma ids_on_window: "ids_of (on_window i f dk) = (ids_of dk)[i := win_id (f (g_windows dk ! i))]"
  by (simp add: on_window_def map_update)

lemma ids_dress: "ids_of (on_window i (dress a b c d e role slot) dk) = (ids_of dk)[i := (role, slot)]"
  by (simp add: ids_on_window dress_def win_id_def)

lemma ids_dress_fold:
  "ids_of (foldl (\<lambda>d i. on_window (g i) (dress (a i) (b i) (c i) (t i) (v i) (r i) (s i)) d) dk xs)
    = foldl (\<lambda>l i. l[g i := (r i, s i)]) (ids_of dk) xs"
  by (induction xs arbitrary: dk) (simp_all add: ids_dress)

lemma init_windows_ids:
  assumes "length (g_windows dk) = 19"
  shows "ids_of (init_windows dk) = all_ids"
proof -
  define l where "l = ids_of dk"
  have "length l = 19" using assms by (simp add: l_def)
  then obtain a0 a1 a2 a3 a4 a5 a6 a7 a8 a9 b0 b1 b2 b3 b4 b5 b6 b7 b8 where l: "l = [a0, a1, a2, a3, a4, a5, a6, a7, a8, a9, b0, b1, b2, b3, b4, b5, b6, b7, b8]"
    by (auto simp: length_Suc_conv numeral_eq_Suc)
  have "ids_of (init_windows dk) = (foldl (\<lambda>l i. l[1 + i := (ROLE_TERMINAL, of_nat i)]) (l[0 := (ROLE_DESKTOP, 0)]) [0..<16])
      [17 := (ROLE_SETTINGS, 0), 18 := (ROLE_PROCESS_MANAGER, 0)]"
    unfolding init_windows_def Let_def ids_dress ids_dress_fold l_def ..
  also have "\<dots> = all_ids" by (simp add: l all_ids_def upt_rec)
  finally show ?thesis .
qed

lemma init_windows_other:
  "dk_disp (init_windows dk) = dk_disp dk" "dk_fb (init_windows dk) = dk_fb dk" "dk_mouse (init_windows dk) = dk_mouse dk"
  "g_drag_window (init_windows dk) = g_drag_window dk" "g_resize_window (init_windows dk) = g_resize_window dk"
  "g_pm_selected_index (init_windows dk) = g_pm_selected_index dk" "g_process_cpu_ticks (init_windows dk) = g_process_cpu_ticks dk"
  "dk_mode (init_windows dk) = dk_mode dk" "g_pending_terminal_spawn (init_windows dk) = g_pending_terminal_spawn dk"
proof -
  have w: "\<exists>ws'. on_window i f (dk\<lparr>g_windows := ws\<rparr>) = dk\<lparr>g_windows := ws'\<rparr>" for i f ws by (auto simp: on_window_def)
  have fold: "\<exists>ws'. foldl (\<lambda>d i. on_window (g i) (f i) d) (dk\<lparr>g_windows := ws\<rparr>) xs = dk\<lparr>g_windows := ws'\<rparr>" for g f ws and xs :: "nat list"
  proof (induction xs arbitrary: ws)
    case (Cons x xs)
    then show ?case using w [of "g x" "f x" ws] by auto
  qed auto
  define kept where "kept = (\<lambda>d. \<exists>ws. d = dk\<lparr>g_windows := ws\<rparr>)"
  have k: "kept dk" unfolding kept_def by (rule exI [of _ "g_windows dk"]) simp
  have kw: "kept (on_window i f d)" if "kept d" for i f d using that w by (auto simp: kept_def)
  have kf: "kept (foldl (\<lambda>d i. on_window (g i) (f i) d) d xs)" if "kept d" for g f d and xs :: "nat list"
    using that fold by (auto simp: kept_def)
  have "kept (init_windows dk)" unfolding init_windows_def Let_def by (intro kw kf k)
  then obtain ws where "init_windows dk = dk\<lparr>g_windows := ws\<rparr>" by (auto simp: kept_def)
  then show "dk_disp (init_windows dk) = dk_disp dk" "dk_fb (init_windows dk) = dk_fb dk" "dk_mouse (init_windows dk) = dk_mouse dk"
  "g_drag_window (init_windows dk) = g_drag_window dk" "g_resize_window (init_windows dk) = g_resize_window dk"
  "g_pm_selected_index (init_windows dk) = g_pm_selected_index dk" "g_process_cpu_ticks (init_windows dk) = g_process_cpu_ticks dk"
  "dk_mode (init_windows dk) = dk_mode dk" "g_pending_terminal_spawn (init_windows dk) = g_pending_terminal_spawn dk" by simp_all
qed

lemma fit_id [simp]: "win_id (fit_window dk w) = win_id w"
  by (simp add: fit_window_def win_id_def Let_def split: prod.split)

lemma moves_layout [keeps]: "moves a b \<Longrightarrow> moves a (gfx_layout_windows r b)"
proof -
  have p: "win_id (place x y w h win) = win_id win" for x y w h win by (simp add: place_def win_id_def)
  have q: "win_id (w\<lparr>gw_w := a\<rparr>) = win_id w" "win_id (w\<lparr>gw_h := a\<rparr>) = win_id w" for w a by (simp_all add: win_id_def)
  have t: "win_id (layout_terminal d r i w) = win_id w" for d i w unfolding layout_terminal_def Let_def by (simp add: p q)
  have f: "win_id (layout_fixed d r s w) = win_id w" for d s w by (cases s) (simp add: layout_fixed_def p)
  show "moves a b \<Longrightarrow> ?thesis" unfolding gfx_layout_windows_def Let_def
    by (intro moves_on_window moves_foldl t f p moves_refl)
qed

lemma init_desktop_ok:
  assumes "static_ok dk" "screen_ok (dk_fb dk)"
  shows "desk_ok (init_desktop dk)" "terminal_force_full_redraw (dk_disp (init_desktop dk))" "dk_mode (init_desktop dk) = dk_mode dk"
    "same_size (dk_fb dk) (dk_fb (init_desktop dk))"
proof -
  define dk1 where "dk1 = dk\<lparr>dk_disp := (dk_disp dk)\<lparr>g_terminal_states := map reset_grid (g_terminal_states (dk_disp dk)),
      g_terminal_task_ids := replicate WIN_TERMINAL_SLOTS 0xFFFFFFFF\<rparr>,
      g_process_cpu_ticks := replicate WIN_COUNT 0, g_pm_selected_index := -1\<rparr>"
  have l: "length (g_windows dk1) = 19" using assms(1) by (simp add: dk1_def static_ok_def)
  define dk2 where "dk2 = init_windows dk1"
  have "windows_ok (g_windows dk2)"
  proof -
    have i: "map win_id (g_windows dk2) = all_ids" using init_windows_ids [OF l] by (simp add: dk2_def)
    then have "length (g_windows dk2) = 19" using arg_cong [OF i, of length] unfolding length_map by (simp add: all_ids_def)
    then have "win_id (g_windows dk2 ! 0) = all_ids ! 0" using i nth_map [of 0 "g_windows dk2" win_id] by simp
    then show ?thesis using i by (simp add: windows_ok_def all_ids_def)
  qed
  moreover have "indices_ok dk2" "display_ok (dk_disp dk2)" "mouse_ok (dk_mouse dk2, dk_fb dk2)" "length (g_process_cpu_ticks dk2) = 19"
    using assms by (simp_all add: dk2_def init_windows_other dk1_def static_ok_def indices_ok_def display_ok_def mouse_ok_def)
  ultimately have ok: "desk_ok dk2" by (simp add: desk_ok_def)
  define e where "e = init_desktop dk"
  have e: "e = (force_redraw True (set_focus 0 (gfx_layout_windows True ((apply_theme 0 dk2)\<lparr>g_start_menu_open := False\<rparr>))))\<lparr>g_prev_cursor := None\<rparr>"
    unfolding e_def init_desktop_def Let_def dk2_def dk1_def by (rule refl)
  have m: "moves dk2 e" unfolding e by (intro moves_fields(3) moves_force_redraw moves_set_focus moves_layout moves_fields(1) moves_theme moves_refl) simp_all
  have b: "dk_fb dk2 = dk_fb dk" "dk_mode dk2 = dk_mode dk" by (simp_all add: dk2_def init_windows_other dk1_def)
  show "desk_ok (init_desktop dk)" "same_size (dk_fb dk) (dk_fb (init_desktop dk))"
    using movesD [OF m ok] b by (simp_all add: e_def)
  show "dk_mode (init_desktop dk) = dk_mode dk" using m b by (simp add: moves_def e_def)
  show "terminal_force_full_redraw (dk_disp (init_desktop dk))" unfolding e_def [symmetric] e by (simp add: force_redraw_def)
qed

section \<open>Runs\<close>

text \<open>The invariant: the desktop is well formed, and in graphics mode the screen is up to date outside of the dirty rectangle.\<close>

definition desk_inv :: "desktop \<Rightarrow> bool" where
  "desk_inv dk \<longleftrightarrow> desk_ok dk \<and> (dk_mode dk = VIDEO_MODE_GRAPHICS \<longrightarrow> fb_clean (dk_fb dk))"

definition evolves :: "desktop \<Rightarrow> desktop \<Rightarrow> bool" where
  "evolves a b \<longleftrightarrow> dk_mode b = dk_mode a \<and> (desk_inv a \<longrightarrow> desk_inv b \<and> same_size (dk_fb a) (dk_fb b))"

lemma evolves_moves: "moves a b \<Longrightarrow> evolves a b"
  using movesD [of a b] by (simp add: desk_inv_def moves_def evolves_def)

lemma evolves_trans: "evolves a b \<Longrightarrow> evolves b c \<Longrightarrow> evolves a c"
  using size_trans by (auto simp: evolves_def)

lemma inv_moves: "moves a b \<Longrightarrow> desk_inv a \<Longrightarrow> desk_inv b"
  using evolves_moves by (auto simp: evolves_def)

lemma moves_disp:
  assumes "moves a b" "display_ok (dk_disp b) \<Longrightarrow> display_ok d"
  shows "moves a (b\<lparr>dk_disp := d\<rparr>)"
  using assms(1) by (rule moves_fb_same) (use assms(2) in \<open>simp_all add: desk_ok_def indices_ok_def\<close>)

lemma flush_desktop_mode: "flush_desktop pio (dk, m) = Some (dk', m') \<Longrightarrow> dk_mode dk' = dk_mode dk"
  by (auto simp: flush_desktop_def)

lemma clear_dirty_mode [simp]: "dk_mode (clear_visible_text_dirty dk) = dk_mode dk"
  using moves_clear_dirty [OF moves_refl [of dk]] by (simp add: moves_def)

lemma force_redraw_mode [simp]: "dk_mode (force_redraw b dk) = dk_mode dk"
  by (simp add: force_redraw_def)

lemma desk_refresh_mode:
  assumes "desk_refresh pio entries (dk, m) = Some (dk', m')"
  shows "dk_mode dk' = dk_mode dk"
proof -
  have c: "dk_mode (clamp_cursor_of si (spawn_pending entries dk)) = dk_mode dk" for si
    using moves_clamp [OF moves_spawn_pending [OF moves_refl [of dk]]] by (simp add: moves_def)
  have u: "dk_mode (update_process_usage_sample d) = dk_mode d" for d using moves_usage [OF moves_refl [of d]] by (simp add: moves_def)
  have p: "dk_mode (gfx_render_panic_full d) = dk_mode d" for d using moves_panic [OF moves_refl [of d]] by (simp add: moves_def)
  have f: "dk_mode (full_scene d) = dk_mode d" for d
    using moves_show [OF moves_full [OF moves_refl [of d]]] by (simp add: moves_def full_scene_def)
  have i: "dk_mode (incremental_scene d) = dk_mode d" for d using moves_incremental [OF moves_refl [of d]] by (simp add: moves_def)
  show ?thesis
    using assms unfolding desk_refresh_def Let_def
    by (auto simp: gfx_refresh_terminal_incremental_def c u p f i dest!: flush_desktop_mode split: if_splits)
qed

lemma refresh_evolves:
  assumes "desk_refresh pio entries (dk, m) = Some (dk', m')"
  shows "evolves dk dk'" "desk_inv dk \<Longrightarrow> dk_mode dk = VIDEO_MODE_GRAPHICS \<Longrightarrow> up_to_date (dk_fb dk')"
proof -
  define d where "d = clamp_cursor_of (io_slot dk) (spawn_pending entries dk)"
  have m: "moves dk d" unfolding d_def by (intro moves_clamp moves_spawn_pending moves_refl)
  have g: "desk_ok dk' \<and> up_to_date (dk_fb dk') \<and> same_size (dk_fb dk) (dk_fb dk')" if "desk_inv dk" "dk_mode dk = VIDEO_MODE_GRAPHICS"
    using desk_refresh_ok [OF _ assms d_def] that m by (simp add: desk_inv_def moves_def)
  have t: "evolves dk dk'" if "dk_mode dk \<noteq> VIDEO_MODE_GRAPHICS"
  proof -
    have e: "dk' = d\<lparr>dk_disp := text_render_full (dk_disp d) (task_id d)\<rparr>"
      using assms m that unfolding desk_refresh_def Let_def d_def by (simp add: moves_def)
    have "moves dk dk'" unfolding e using m by (rule moves_disp) (simp add: text_render_full_def display_ok_def Let_def)
    then show ?thesis by (rule evolves_moves)
  qed
  show "evolves dk dk'"
    using g t desk_refresh_mode [OF assms] up_to_date_clean by (cases "dk_mode dk = VIDEO_MODE_GRAPHICS") (auto simp: evolves_def desk_inv_def)
  show "desk_inv dk \<Longrightarrow> dk_mode dk = VIDEO_MODE_GRAPHICS \<Longrightarrow> up_to_date (dk_fb dk')" using g by simp
qed

text \<open>Printing and the other calls that may refresh are a step followed by a refresh or nothing.\<close>

definition step_then_refresh :: "'m ports \<Rightarrow> u32 \<times> u32 \<Rightarrow> desktop \<times> 'm \<Rightarrow> (desktop \<times> 'm) option \<Rightarrow> bool" where
  "step_then_refresh pio entries s r \<longleftrightarrow>
     (\<exists>dk1. moves (fst s) dk1 \<and> (r = Some (dk1, snd s) \<or> r = desk_refresh pio entries (dk1, snd s)))"

lemma step_then:
  "moves (fst s) dk1 \<Longrightarrow> step_then_refresh pio entries s (Some (dk1, snd s))"
  "moves (fst s) dk1 \<Longrightarrow> step_then_refresh pio entries s (desk_refresh pio entries (dk1, snd s))"
  by (auto simp: step_then_refresh_def)

lemma step_evolves:
  assumes "step_then_refresh pio entries s (Some s')"
  shows "evolves (fst s) (fst s')"
proof -
  obtain dk1 where m: "moves (fst s) dk1" "Some s' = Some (dk1, snd s) \<or> Some s' = desk_refresh pio entries (dk1, snd s)"
    using assms by (auto simp: step_then_refresh_def)
  show ?thesis
  proof (cases "s' = (dk1, snd s)")
    case False
    then have "desk_refresh pio entries (dk1, snd s) = Some (fst s', snd s')" using m(2) by simp
    from evolves_trans [OF evolves_moves [OF m(1)] refresh_evolves(1) [OF this]] show ?thesis .
  qed (use evolves_moves [OF m(1)] in simp)
qed

lemma requests: "moves (fst s) dk1 \<Longrightarrow> step_then_refresh pio entries s (desk_request_refresh pio entries (dk1, snd s))"
  unfolding desk_request_refresh_def prod.case
  by (cases "g_refresh_defer_depth (dk_disp dk1) > 0") (simp_all only: if_True if_False, auto intro!: step_then moves_disp simp: display_ok_def)

lemma printing_steps:
  "step_then_refresh pio entries s (desk_print pio entries t s)"
  "step_then_refresh pio entries s (desk_put_char pio entries c s)"
  "step_then_refresh pio entries s (desk_clear pio entries s)"
  "step_then_refresh pio entries s (desk_set_cursor pio entries row col s)"
  "step_then_refresh pio entries s (desk_end_update pio entries s)"
  "step_then_refresh pio entries s (desk_refresh pio entries s)"
proof -
  have t: "moves (fst s) (foldl (\<lambda>dk c. put_char_quiet c dk) (fst s) (cstr t))" by (intro moves_foldl moves_put_char moves_refl)
  show "step_then_refresh pio entries s (desk_print pio entries t s)"
    unfolding desk_print_def Let_def using requests [OF t] step_then(1) [OF t] by (cases "cstr t = []") simp_all
  show "step_then_refresh pio entries s (desk_put_char pio entries c s)"
    unfolding desk_put_char_def by (intro requests moves_put_char moves_refl)
  show "step_then_refresh pio entries s (desk_clear pio entries s)"
    unfolding desk_clear_def Let_def by (intro step_then(2) moves_force_redraw moves_on_session moves_refl)
  show "step_then_refresh pio entries s (desk_set_cursor pio entries row col s)"
    unfolding desk_set_cursor_def Let_def by (intro requests moves_on_session moves_refl)
  show "step_then_refresh pio entries s (desk_refresh pio entries s)"
    using step_then(2) [OF moves_refl [of "fst s"]] by simp
  have d: "moves (fst s) ((fst s)\<lparr>dk_disp := (dk_disp (fst s))\<lparr>g_refresh_defer_depth := n\<rparr>\<rparr>)"
    "moves (fst s) ((fst s)\<lparr>dk_disp := (dk_disp (fst s))\<lparr>g_refresh_defer_depth := n, g_refresh_pending := p\<rparr>\<rparr>)" for n p
    by (intro moves_disp moves_refl; simp add: display_ok_def)+
  show "step_then_refresh pio entries s (desk_end_update pio entries s)"
    using step_then(1) [OF moves_refl [of "fst s"]] step_then(1) [OF d(1)] step_then(2) [OF d(2)]
    by (cases s) (simp add: desk_end_update_def Let_def)
qed

text \<open>The mouse: a byte of a packet, and the packet it completes.\<close>

lemma moves_on_mouse: "moves a b \<Longrightarrow> (\<And>ms. length (ms_prev_buffer (f ms)) = length (ms_prev_buffer ms)) \<Longrightarrow> moves a (on_mouse f b)"
  by (erule moves_fb_same) (simp_all add: desk_ok_def indices_ok_def mouse_ok_def on_mouse_def)

lemma moves_pointer_drawn [keeps]: "moves a b \<Longrightarrow> moves a (on_pointer mouse_draw_pointer b)"
  using pointer_step_keeps [of _ Show] by (intro moves_pointer) simp_all

lemma flush_evolves:
  assumes f: "flush_desktop pio (dk, m) = Some (dk', m')"
  shows "evolves dk dk'"
proof -
  obtain fb' where fb: "framebuffer_flush pio (dk_fb dk, m) = Some (fb', m')" "dk' = dk\<lparr>dk_fb := fb'\<rparr>"
    using f by (auto simp: flush_desktop_def)
  have "desk_inv dk' \<and> same_size (dk_fb dk) fb'" if i: "desk_inv dk"
  proof -
    have s: "screen_ok (dk_fb dk)" using i by (simp add: desk_inv_def desk_ok_def mouse_ok_def)
    have "desk_ok dk'" using i flush_ok(1) [OF s fb(1)] by (simp add: fb(2) desk_inv_def desk_ok_def indices_ok_def mouse_ok_def)
    moreover have "up_to_date fb'" if "dk_mode dk = VIDEO_MODE_GRAPHICS"
      unfolding up_to_date_def using flush_ok(2,4) [OF s fb(1)] i that by (simp add: desk_inv_def same_size_def)
    ultimately show ?thesis using up_to_date_clean flush_ok(2) [OF s fb(1)] by (simp add: desk_inv_def fb(2))
  qed
  then show ?thesis by (simp add: evolves_def fb(2))
qed

lemma packet_evolves:
  assumes r: "mouse_process_packet pio entries (dk, m) = Some (dk', m')"
  shows "evolves dk dk'"
proof (cases "ms_packet (dk_mouse dk) ! 0 AND 0xC0 = 0 \<and> dk_mode dk = VIDEO_MODE_GRAPHICS")
  case True
  define d1 where "d1 = on_mouse (packet_move (fb_w dk) (fb_h dk)) dk"
  have m1: "moves dk d1" unfolding d1_def by (intro moves_on_mouse moves_refl) (simp add: packet_move_def Let_def)
  then have g: "dk_mode d1 = VIDEO_MODE_GRAPHICS" using True by (simp add: moves_def)
  define p where "p = button_area (dk_mouse d1)"
  define d2 where "d2 = (if g_button_pressed d1 \<noteq> p then d1\<lparr>g_button_pressed := p\<rparr> else d1)"
  have b2: "display_set_button_pressed pio entries p (d1, m) = Some (d2, m)" using g by (simp add: display_set_button_pressed_def d2_def)
  have "moves d1 (d1\<lparr>g_button_pressed := p\<rparr>)" by (rule moves_fb_same [OF moves_refl]) simp_all
  then have m2: "moves d1 d2" unfolding d2_def by (intro moves_if moves_refl)
  define d3 where "d3 = on_pointer mouse_draw_pointer (display_handle_mouse_event (ms_x (dk_mouse d1)) (ms_y (dk_mouse d1)) (ms_buttons (dk_mouse d1)) d2)"
  have "moves d2 d3" unfolding d3_def by (intro moves_pointer_drawn moves_mouse moves_refl)
  then have m3: "moves dk d3" using moves_trans m1 m2 by blast
  have "flush_desktop pio (d3, m) = Some (dk', m')"
    using r True g b2 by (simp add: mouse_process_packet_def Let_def d3_def p_def flip: d1_def)
  from evolves_trans [OF evolves_moves [OF m3] flush_evolves [OF this]] show ?thesis .
next
  case False
  have "moves dk (on_mouse (packet_move (fb_w dk) (fb_h dk)) dk)"
    by (intro moves_on_mouse moves_refl) (simp add: packet_move_def Let_def)
  moreover have "dk' = dk \<or> dk' = on_mouse (packet_move (fb_w dk) (fb_h dk)) dk"
    using r False by (auto simp: mouse_process_packet_def Let_def on_mouse_def split: if_splits)
  ultimately show ?thesis using evolves_moves moves_refl by blast
qed

lemma mouse_byte_evolves:
  assumes "mouse_byte pio entries data s = Some s'"
  shows "evolves (fst s) (fst s')"
proof -
  obtain dk m where s: "s = (dk, m)" by (cases s)
  have m: "evolves dk (on_mouse (store_byte i data ph) dk)" for i ph
    by (intro evolves_moves moves_on_mouse moves_refl) (simp add: store_byte_def)
  show ?thesis
  proof (cases "ms_phase (dk_mouse dk) = 2")
    case True
    then have "mouse_process_packet pio entries (on_mouse (store_byte 2 data 0) dk, m) = Some (fst s', snd s')"
      using assms by (simp add: s mouse_byte_def)
    from evolves_trans [OF m packet_evolves [OF this]] show ?thesis by (simp add: s)
  qed (use assms m evolves_moves [OF moves_refl [of dk]] in \<open>auto simp: s mouse_byte_def split: if_splits\<close>)
qed

section \<open>The desktop stays well formed and the screen current\<close>

inductive desk_step :: "'m ports \<Rightarrow> u32 \<times> u32 \<Rightarrow> desktop \<times> 'm \<Rightarrow> desktop \<times> 'm \<Rightarrow> bool" for pio entries where
  Refresh: "desk_refresh pio entries s = Some s' \<Longrightarrow> desk_step pio entries s s'"
| Print: "desk_print pio entries t s = Some s' \<Longrightarrow> desk_step pio entries s s'"
| Put_char: "desk_put_char pio entries c s = Some s' \<Longrightarrow> desk_step pio entries s s'"
| Clear_screen: "desk_clear pio entries s = Some s' \<Longrightarrow> desk_step pio entries s s'"
| Set_cursor: "desk_set_cursor pio entries row col s = Some s' \<Longrightarrow> desk_step pio entries s s'"
| Begin_update: "desk_step pio entries (dk, m) (desk_begin_update dk, m)"
| End_update: "desk_end_update pio entries s = Some s' \<Longrightarrow> desk_step pio entries s s'"
| Session: "desk_step pio entries (dk, m) (snd (display_create_terminal_session entries v dk), m)"
| Bind_task: "desk_step pio entries (dk, m) (display_bind_task n tid dk, m)"
| Panic: "desk_step pio entries (dk, m) (display_set_panic_mode b dk, m)"
| Colors: "desk_step pio entries (dk, m) (display_set_gfx_colors fg bg b dk, m)"
| Run_task: "desk_step pio entries (dk, m) (dk\<lparr>dk_sched := sc\<rparr>, m)"
| Mouse_byte: "mouse_byte pio entries data s = Some s' \<Longrightarrow> desk_step pio entries s s'"

lemma step_keeps: "desk_step pio entries s s' \<Longrightarrow> evolves (fst s) (fst s')"
proof (induction rule: desk_step.induct)
  case (Begin_update dk m)
  have "moves dk (desk_begin_update dk)" unfolding desk_begin_update_def
    by (intro moves_disp moves_refl) (simp add: display_begin_update_def display_ok_def)
  then show ?case using evolves_moves by simp
next
  case (Colors dk m fg bg b)
  have "moves dk (dk\<lparr>g_gfx_fg := fg, g_gfx_bg := bg, g_gfx_disable_overlay := b\<rparr>)" by (rule moves_fb_same [OF moves_refl]) simp_all
  then show ?case using evolves_moves [OF moves_force_redraw] by (simp add: display_set_gfx_colors_def)
next
  case (Run_task dk m sc)
  have "moves dk (dk\<lparr>dk_sched := sc\<rparr>)" by (rule moves_fb_same [OF moves_refl]) simp_all
  then show ?case using evolves_moves by simp
next
  case (Session dk m v)
  show ?case using evolves_moves [OF moves_create [OF moves_refl]] by simp
next
  case (Bind_task dk m n tid)
  show ?case using evolves_moves [OF moves_bind [OF moves_refl]] by simp
next
  case (Panic dk m b)
  show ?case using evolves_moves [OF moves_panic_mode [OF moves_refl]] by simp
qed (metis step_evolves printing_steps mouse_byte_evolves)+

lemma run_keeps: "(desk_step pio entries)\<^sup>*\<^sup>* s s' \<Longrightarrow> evolves (fst s) (fst s')"
proof (induction rule: rtranclp_induct)
  case (step s' s'')
  then show ?case using evolves_trans step_keeps by blast
qed (simp add: evolves_moves moves_refl)

lemma force_kept:
  assumes "terminal_force_full_redraw (dk_disp dk)"
  shows "terminal_force_full_redraw (dk_disp (clamp_cursor_of si (spawn_pending entries dk)))"
proof -
  have k: "terminal_force_full_redraw (dk_disp (clamp_cursor_of si d)) = terminal_force_full_redraw (dk_disp d)" for d
    by (simp add: clamp_cursor_of_def on_session_def Let_def)
  have t: "terminal_force_full_redraw (dk_disp d) \<Longrightarrow> terminal_force_full_redraw (dk_disp (snd (spawn_terminal_task_for_session entries i d)))" for i d
    by (auto simp: spawn_terminal_task_for_session_def Let_def split: prod.split)
  have "terminal_force_full_redraw (dk_disp d) \<Longrightarrow> terminal_force_full_redraw (dk_disp (snd (display_create_terminal_session entries v d)))" for d v
    using t [of d] by (auto simp: display_create_terminal_session_def force_redraw_def split: option.split prod.split) (metis snd_conv)
  then show ?thesis using assms by (simp add: k spawn_pending_def)
qed

lemma inv_init:
  assumes "static_ok dk" "mode_fits vram info" "unat (fb_width info) < 2 ^ 31" "unat (fb_height info) < 2 ^ 31"
    and r: "desk_init vram info font dev pio entries (dk, h, d, m) = Some (dk1, h1, d1, m1)"
  shows "desk_inv dk1" "dk_mode dk1 = dk_mode dk" "gf_width (dk_fb dk1) = fb_width info" "gf_height (dk_fb dk1) = fb_height info"
proof -
  obtain fb hh where f: "framebuffer_init vram info h (dk_fb dk) = (fb, hh)" by fastforce
  note I = fb_init_ok [OF assms(2) _ f]
  obtain dk2 m2 m3 where dk2: "dk2 = dk\<lparr>dk_fb := fb, g_font := font_load_from_memory font\<rparr>
      \<or> dk2 = dk\<lparr>dk_fb := fb, g_font := font_load_from_memory font, g_graphics_test_overlay := True\<rparr>"
    "desk_refresh pio entries (init_desktop dk2, m2) = Some (dk1, m3)"
    using r f by (auto simp: desk_init_def Let_def split: if_splits prod.splits)
  have d: "gf_dirty (dk_fb dk) = None" using assms(1) by (simp add: static_ok_def)
  have "screen_ok fb" using I d assms(3,4) by (simp add: screen_ok_def)
  moreover have "gf_dirty fb = None" using f d by (auto simp: framebuffer_init_def Let_def split: option.splits)
  ultimately have s: "static_ok dk2" "screen_ok (dk_fb dk2)" "dk_mode dk2 = dk_mode dk" using assms(1) dk2(1) by (auto simp: static_ok_def)
  note N = init_desktop_ok [OF s(1,2)]
  show "dk_mode dk1 = dk_mode dk" using desk_refresh_mode [OF dk2(2)] N(3) s(3) by simp
  have *: "desk_inv dk1 \<and> same_size (dk_fb dk2) (dk_fb dk1)"
  proof (cases "dk_mode dk2 = VIDEO_MODE_GRAPHICS")
    case True
    have g: "dk_mode (clamp_cursor_of (io_slot (init_desktop dk2)) (spawn_pending entries (init_desktop dk2))) = VIDEO_MODE_GRAPHICS"
      using moves_clamp [OF moves_spawn_pending [OF moves_refl [of "init_desktop dk2"]]] True N(3) by (simp add: moves_def)
    have "desk_ok dk1 \<and> up_to_date (dk_fb dk1) \<and> same_size (dk_fb (init_desktop dk2)) (dk_fb dk1)"
      using desk_refresh_ok [OF N(1) dk2(2) refl g] force_kept [OF N(2)] by blast
    then show ?thesis using up_to_date_clean size_trans N(4) by (auto simp: desk_inv_def)
  next
    case False
    then have "desk_inv (init_desktop dk2)" using N by (simp add: desk_inv_def)
    then show ?thesis using refresh_evolves(1) [OF dk2(2)] size_trans N(4) by (auto simp: evolves_def)
  qed
  then show "desk_inv dk1" "gf_width (dk_fb dk1) = fb_width info" "gf_height (dk_fb dk1) = fb_height info"
    using dk2(1) I(2,3) d by (auto simp: same_size_def)
qed

end
