(* ===== verification/Desktop_Props.thy ===== *)
theory Desktop_Props
  imports Desktop_Run
begin

text \<open>
  The properties of the desktop: it stays well formed, the screen is current after a refresh, a click raises the window under the
  pointer, a dragged window stays on the screen, and what goes wrong with the window of a new session and with the pointer.
\<close>

section \<open>An example\<close>

lemma alternating_waits: "\<exists>m'. wait_retrace alternating b m = Some m'"
proof -
  have s: "wait_retrace alternating c k = (if (even k) = c then Some (Suc k) else wait_retrace alternating c (Suc k))" for c k
    by (subst wait_retrace.simps) (simp add: alternating_def)
  show ?thesis using s [of b m] s [of b "Suc m"] by auto
qed

lemma alternating_flush: "\<exists>dk' m'. flush_desktop alternating (dk, m) = Some (dk', m')"
proof -
  obtain m1 m2 where "wait_retrace alternating False m = Some m1" "wait_retrace alternating True m1 = Some m2"
    using alternating_waits by metis
  then have "framebuffer_wait_vsync alternating m = Some m2" by (simp add: framebuffer_wait_vsync_def)
  from flush_returns [OF this, of "dk_fb dk"] show ?thesis by (auto simp: flush_desktop_def)
qed

lemma alternating_refresh: "\<exists>dk' m'. desk_refresh alternating entries (dk, m) = Some (dk', m')"
proof -
  have f: "flush_desktop alternating s \<noteq> None" for s using alternating_flush [of "fst s" "snd s"] by auto
  have "desk_refresh alternating entries (dk, m) \<noteq> None"
    unfolding desk_refresh_def Let_def gfx_refresh_terminal_incremental_def by (simp add: f del: not_None_eq)
  then show ?thesis by auto
qed

definition demo_window :: gui_window where
  "demo_window = \<lparr>gw_x = 0, gw_y = 0, gw_w = 0, gw_h = 0, gw_title_bg = 0, gw_body_bg = 0, gw_border = 0, gw_title = [], gw_visible = False,
     gw_role = ROLE_DESKTOP, gw_slot = 0\<rparr>"

definition demo_console :: display where
  "demo_console = \<lparr>g_terminal_states = replicate 16 \<lparr>cursor_row = 0, cursor_col = 0, text_cells = replicate 6000 0,
       text_cells_dirty = replicate 6000 False, dirty_any = False, dirty_min_row = 0, dirty_max_row = 0, dirty_min_col = 0, dirty_max_col = 0\<rparr>,
     g_terminal_task_ids = replicate 16 0xFFFFFFFF, g_focused_terminal_session = 0, terminal_force_full_redraw = False,
     g_refresh_defer_depth = 0, g_refresh_pending = False, serial_ready = False, serial_out = [], vga = replicate 2000 0, hw_cursor = 0\<rparr>"

definition demo_desktop :: desktop where
  "demo_desktop = \<lparr>dk_disp = demo_console, dk_mode = VIDEO_MODE_GRAPHICS, dk_fb = demo_fb, dk_mouse = demo_mouse, dk_sched = demo_init,
     g_font = no_font, g_gfx_fg = 15, g_gfx_bg = 0, g_graphics_test_overlay = False, g_gfx_disable_overlay = False, g_panic_mode = False,
     g_button_pressed = False, g_windows = replicate 19 demo_window, g_prev_cursor = None, g_drag_window = -1, g_drag_offset_x = 0,
     g_drag_offset_y = 0, g_resize_window = -1, g_resize_offset_x = 0, g_resize_offset_y = 0, g_start_menu_open = False,
     g_pending_terminal_spawn = False, g_active_theme = 0, g_taskbar_bg = 8, g_taskbar_text = 0, g_ui_scale_level = 3,
     g_process_cpu_ticks = replicate 19 0, g_pm_selected_index = -1, g_interactive_move_active = False, prev_buttons = 0\<rparr>"

lemma demo_static: "static_ok demo_desktop" "dk_mode demo_desktop = VIDEO_MODE_GRAPHICS"
  by (simp_all add: static_ok_def demo_desktop_def demo_console_def demo_mouse_def demo_fb_def)

lemma demo_fits: "mode_fits demo_vram demo_mode" "unat (fb_width demo_mode) < 2 ^ 31" "unat (fb_height demo_mode) < 2 ^ 31"
  by (simp_all add: mode_fits_def demo_mode_def demo_vram_def)

lemma demo_starts: "\<exists>dk1 h1 d1 m1. desk_init demo_vram demo_mode [] ram_dev alternating (0x1000, 0x2000) (demo_desktop, demo_heap, \<lambda>_. [], 0)
    = Some (dk1, h1, d1, m1)"
proof -
  have "\<exists>r. map_option (\<lambda>(dk3, m2). (dk3, h1 :: heap_state, d1 :: u32 \<Rightarrow> u8 list, m2)) (desk_refresh alternating (0x1000, 0x2000) (dk, m)) = Some r"
    for h1 d1 dk m using alternating_refresh [of "(0x1000, 0x2000)" dk m] by auto
  then show ?thesis unfolding desk_init_def Let_def by (auto split: prod.split)
qed

section \<open>Well formed and current\<close>

text \<open>C18: From start-up on, through any run of calls and mouse bytes, the desktop stays well formed: its windows are the nineteen windows
  of start-up in some order, the desktop itself at the back; a window that is dragged or resized is the front one, never both; the
  process manager's selection, the focus and the arrays are in range.\<close>

theorem desktop_well_formed:
  assumes "static_ok dk" "mode_fits vram info" "unat (fb_width info) < 2 ^ 31" "unat (fb_height info) < 2 ^ 31"
    and "desk_init vram info font dev pio entries (dk, h, d, m) = Some (dk1, h1, d1, m1)"
    and "(desk_step pio entries)\<^sup>*\<^sup>* (dk1, m1) (dk2, m2)"
  shows "mset (map win_id (g_windows dk2)) = mset all_ids \<and> win_id (g_windows dk2 ! 0) = (ROLE_DESKTOP, 0)
    \<and> g_drag_window dk2 \<in> {-1, 18} \<and> g_resize_window dk2 \<in> {-1, 18} \<and> (g_drag_window dk2 = -1 \<or> g_resize_window dk2 = -1)
    \<and> g_pm_selected_index dk2 \<in> {-1..<19} \<and> focus dk2 \<in> {-1..<16}
    \<and> length (g_terminal_states (dk_disp dk2)) = 16 \<and> length (g_terminal_task_ids (dk_disp dk2)) = 16"
  using run_keeps [OF assms(6)] inv_init [OF assms(1-5)]
  by (simp add: evolves_def desk_inv_def desk_ok_def windows_ok_def indices_ok_def display_ok_def)

theorem desktop_well_formed_witness:
  "\<exists>dk1 h1 d1 m1. desk_init demo_vram demo_mode [] ram_dev alternating (0x1000, 0x2000) (demo_desktop, demo_heap, \<lambda>_. [], 0) = Some (dk1, h1, d1, m1)
     \<and> mset (map win_id (g_windows (snd (display_create_terminal_session (0x1000, 0x2000) True dk1)))) = mset all_ids"
proof -
  obtain dk1 h1 d1 m1 where i: "desk_init demo_vram demo_mode [] ram_dev alternating (0x1000, 0x2000) (demo_desktop, demo_heap, \<lambda>_. [], 0)
      = Some (dk1, h1, d1, m1)" using demo_starts by blast
  have "(desk_step alternating (0x1000, 0x2000))\<^sup>*\<^sup>* (dk1, m1) (snd (display_create_terminal_session (0x1000, 0x2000) True dk1), m1)"
    by (intro r_into_rtranclp Session)
  from desktop_well_formed [OF demo_static(1) demo_fits i this] show ?thesis using i by blast
qed

text \<open>C10: In graphics mode, whenever a refresh returns after any run from start-up, every pixel of the screen shows what was last drawn
  there; no change stays behind in the back buffer, on whichever path the refresh draws.\<close>

theorem desktop_screen_current:
  assumes "static_ok dk" "mode_fits vram info" "unat (fb_width info) < 2 ^ 31" "unat (fb_height info) < 2 ^ 31"
    and "desk_init vram info font dev pio entries (dk, h, d, m) = Some (dk1, h1, d1, m1)" "dk_mode dk = VIDEO_MODE_GRAPHICS"
    and "(desk_step pio entries)\<^sup>*\<^sup>* (dk1, m1) (dk2, m2)" "desk_refresh pio entries (dk2, m2) = Some (dk3, m3)"
    and "x < fb_width info" "y < fb_height info"
  shows "shown (dk_fb dk3) x y = drawn (dk_fb dk3) x y"
proof -
  note I = inv_init [OF assms(1-5)] and R = run_keeps [OF assms(7)] and F = refresh_evolves [OF assms(8)]
  have "up_to_date (dk_fb dk3)" using I R F(2) assms(6) by (simp add: evolves_def)
  moreover have "gf_width (dk_fb dk3) = fb_width info" "gf_height (dk_fb dk3) = fb_height info"
    using I R F(1) by (simp_all add: evolves_def same_size_def)
  ultimately show ?thesis using assms(9,10) by (simp add: up_to_date_def)
qed

theorem desktop_screen_current_witness:
  "\<exists>dk1 h1 d1 m1 dk3 m3. desk_init demo_vram demo_mode [] ram_dev alternating (0x1000, 0x2000) (demo_desktop, demo_heap, \<lambda>_. [], 0) = Some (dk1, h1, d1, m1)
     \<and> desk_refresh alternating (0x1000, 0x2000) (snd (display_create_terminal_session (0x1000, 0x2000) True dk1), m1) = Some (dk3, m3)
     \<and> shown (dk_fb dk3) 2 1 = drawn (dk_fb dk3) 2 1"
proof -
  obtain dk1 h1 d1 m1 where i: "desk_init demo_vram demo_mode [] ram_dev alternating (0x1000, 0x2000) (demo_desktop, demo_heap, \<lambda>_. [], 0)
      = Some (dk1, h1, d1, m1)" using demo_starts by blast
  let ?dk2 = "snd (display_create_terminal_session (0x1000, 0x2000) True dk1)"
  obtain dk3 m3 where r: "desk_refresh alternating (0x1000, 0x2000) (?dk2, m1) = Some (dk3, m3)" using alternating_refresh by blast
  have s: "(desk_step alternating (0x1000, 0x2000))\<^sup>*\<^sup>* (dk1, m1) (?dk2, m1)" by (intro r_into_rtranclp Session)
  have w: "2 < fb_width demo_mode" "1 < fb_height demo_mode" by (simp_all add: demo_mode_def)
  from desktop_screen_current [OF demo_static(1) demo_fits i demo_static(2) s r w] show ?thesis using i r by blast
qed

section \<open>Which window is where\<close>

text \<open>Drawing does not touch the windows.\<close>

lemma windows_focus [simp]: "g_windows (ensure_valid_terminal_focus dk) = g_windows dk"
  by (simp add: ensure_valid_terminal_focus_def set_focus_def split: option.split)

lemma windows_frames [simp]:
  "g_windows (on_fb f dk) = g_windows dk" "g_windows (on_pointer p dk) = g_windows dk" "g_windows (on_session i g dk) = g_windows dk"
  "g_windows (force_redraw b dk) = g_windows dk" "g_windows (set_focus s dk) = g_windows dk"
  by (simp_all add: on_fb_def on_pointer_def on_session_def force_redraw_def set_focus_def split: prod.split)

lemma windows_process_manager [simp]: "g_windows (gfx_render_process_manager_content win dk) = g_windows dk"
  by (simp add: gfx_render_process_manager_content_def Let_def)

lemma windows_window [simp]: "g_windows (gfx_render_window dk i) = g_windows dk"
  by (simp add: gfx_render_window_def Let_def split: gui_window_role.split)

lemma windows_all [simp]: "g_windows (gfx_render_windows dk) = g_windows dk"
proof -
  have "g_windows (foldl gfx_render_window dk xs) = g_windows dk" for xs by (induction xs arbitrary: dk) simp_all
  then show ?thesis by (simp add: gfx_render_windows_def)
qed

lemma windows_active: "terminal_state_for_active_ui dk = (si, c) \<Longrightarrow> g_windows c = g_windows dk"
  by (auto simp: terminal_state_for_active_ui_def Let_def)

lemma windows_cursor [simp]: "g_windows (gfx_render_cursor dk) = g_windows dk"
  by (auto simp: gfx_render_cursor_def Let_def windows_active split: option.split prod.split)

lemma windows_redraw [simp]: "g_windows (redraw_hidden dk) = g_windows dk" "g_windows (redraw dk) = g_windows dk"
  by (simp_all add: redraw_def redraw_hidden_def gfx_render_scene_no_cursor_def scene_front_def scene_background_def Let_def)

text \<open>What a click does to the window it hits leaves every window in its place.\<close>

lemma ids_same_on_window [simp]: "(\<And>w. win_id (f w) = win_id w) \<Longrightarrow> ids_of (on_window i f dk) = ids_of dk"
  by (cases "i < length (g_windows dk)") (simp_all add: on_window_def map_update list_update_same_conv list_update_beyond)

lemma ids_theme [simp]: "ids_of (apply_theme t dk) = ids_of dk"
  unfolding apply_theme_def Let_def by (simp add: comp_def if_distrib [of win_id] split: option.split cong: if_cong)

lemma ids_close [simp]: "ids_of (close_top_window dk) = ids_of dk"
proof -
  have f: "ids_of (d\<lparr>g_pm_selected_index := p, g_drag_window := a, g_resize_window := b\<rparr>) = ids_of d" for d p a b by simp
  have e: "ids_of (ensure_valid_terminal_focus d) = ids_of d" for d by simp
  show ?thesis unfolding close_top_window_def Let_def
    by (simp only: if_distrib [of g_windows] if_distrib [of "map win_id"] e f ids_same_on_window win_id_fields if_cancel)
qed

lemma ids_click [simp]: "ids_of (snd (process_manager_handle_click wi x y dk)) = ids_of dk"
proof -
  have "ids_of (process_manager_kill_selected dk) = ids_of dk"
    unfolding process_manager_kill_selected_def Let_def by simp
  then show ?thesis unfolding process_manager_handle_click_def Let_def by (simp split: option.split)
qed

lemma ids_grab [simp]: "ids_of (grab_top_window x y dk) = ids_of dk"
  unfolding grab_top_window_def Let_def by simp

text \<open>C33: A click raises the window under the pointer: outside of the start button and with the menu closed, the topmost visible window at
  the point comes to the front, and the others keep their order behind it, whatever else the click does, and where no window is, the
  order stays.\<close>

theorem press_raises_window:
  assumes "desk_ok dk" "\<not> on_start_button dk x y" "\<not> g_start_menu_open dk"
  shows "ids_of (snd (press x y dk)) =
    (case find_down (\<lambda>i. window_hit False x y (g_windows dk ! i)) 1 19 of
       Some i \<Rightarrow> take i (ids_of dk) @ drop (Suc i) (ids_of dk) @ [ids_of dk ! i] | None \<Rightarrow> ids_of dk)"
proof -
  have l: "length (g_windows dk) = 19" using assms(1) by (simp add: desk_ok_def length_windows)
  let ?hit = "gui_find_topmost_visible_at (g_windows dk) 1 x y False"
  have p: "press x y dk = press_windows x y dk" using assms(2,3) by (simp add: press_def)
  show ?thesis
  proof (cases "find_down (\<lambda>i. window_hit False x y (g_windows dk ! i)) 1 19")
    case None
    then have "?hit = -1" by (simp add: gui_find_topmost_visible_at_def l)
    then show ?thesis using None by (simp add: p press_windows_def Let_def)
  next
    case (Some i)
    then have "?hit = int i" by (simp add: gui_find_topmost_visible_at_def l)
    moreover have "1 \<le> i" "i < 19" using Some by (simp_all add: find_down_Some_iff)
    ultimately have h: "?hit = int i" "1 \<le> i" "i < 19" by simp_all
    define d where "d = (if ?hit \<noteq> int (WIN_COUNT - 1) then bring_window_to_front ?hit dk else dk)"
    have "g_windows d = take i (g_windows dk) @ drop (Suc i) (g_windows dk) @ [g_windows dk ! i]"
    proof (cases "i = 18")
      case True
      have "take 18 (g_windows dk) @ [g_windows dk ! 18] = g_windows dk"
        using l take_Suc_conv_app_nth [of 18 "g_windows dk"] by (simp add: take_all)
      then show ?thesis unfolding d_def h(1) using l True by simp
    next
      case False
      then show ?thesis using bring_loop_take_drop [of 1 i "g_windows dk"] h l
        unfolding d_def h(1) by (simp add: bring_window_to_front_def gui_bring_window_to_front_def)
    qed
    then have e: "ids_of d = take i (ids_of dk) @ drop (Suc i) (ids_of dk) @ [ids_of dk ! i]"
      using h l by (simp add: take_map drop_map)
    have "ids_of (snd (press_windows x y dk)) = ids_of d"
    proof -
      obtain b c where bc: "process_manager_handle_click (WIN_COUNT - 1) x y d = (b, c)" by fastforce
      have c: "ids_of c = ids_of d" using ids_click [of "WIN_COUNT - 1" x y d] unfolding bc by simp
      have "\<not> ?hit < int WIN_TERMINAL_FIRST" using h by simp
      then show ?thesis unfolding press_windows_def Let_def d_def [symmetric] bc using c
        by (simp del: One_nat_def split: option.split)
    qed
    then show ?thesis using Some e p by simp
  qed
qed

text \<open>A desktop of nineteen small windows on a small screen, of which \<open>v\<close> says which are visible.\<close>

definition demo_windows :: "(gui_window_role \<times> u8 \<Rightarrow> bool) \<Rightarrow> gui_window list" where
  "demo_windows v = map (\<lambda>p. demo_window\<lparr>gw_role := fst p, gw_slot := snd p, gw_visible := v p, gw_w := 2, gw_h := 2\<rparr>) all_ids"

definition demo_desk :: "(gui_window_role \<times> u8 \<Rightarrow> bool) \<Rightarrow> desktop" where
  "demo_desk v = demo_desktop\<lparr>dk_fb := demo_picture, g_windows := demo_windows v\<rparr>"

lemma demo_desk_ids [simp]: "ids_of (demo_desk v) = all_ids"
  by (simp add: demo_desk_def demo_windows_def comp_def win_id_def demo_window_def)

lemma all_ids_nth: "length all_ids = 19" "all_ids ! 0 = (ROLE_DESKTOP, 0)" "all_ids ! 1 = (ROLE_TERMINAL, 0)" "distinct all_ids"
  by (simp_all add: all_ids_def upt_rec)

lemma demo_windows_nth: "i < 19 \<Longrightarrow> g_windows (demo_desk v) ! i
    = demo_window\<lparr>gw_role := fst (all_ids ! i), gw_slot := snd (all_ids ! i), gw_visible := v (all_ids ! i), gw_w := 2, gw_h := 2\<rparr>"
  by (simp add: demo_desk_def demo_windows_def all_ids_nth)

lemma demo_desk_ok: "desk_ok (demo_desk v)"
proof -
  have "windows_ok (g_windows (demo_desk v))"
    using demo_desk_ids [of v] demo_windows_nth [of 0 v] by (simp add: windows_ok_def all_ids_nth win_id_def)
  moreover have "mouse_ok (demo_mouse, demo_picture)"
    by (simp add: mouse_ok_def screen_ok_def fb_ok_def demo_mouse_def demo_picture_def)
  ultimately show ?thesis
    by (simp add: desk_ok_def indices_ok_def display_ok_def demo_desk_def demo_desktop_def demo_console_def)
qed

theorem press_raises_window_witness:
  "ids_of (snd (press 1 0 (demo_desk (\<lambda>p. p = (ROLE_TERMINAL, 0))))) = (ROLE_DESKTOP, 0) # drop 2 all_ids @ [(ROLE_TERMINAL, 0)]"
proof -
  let ?dk = "demo_desk (\<lambda>p. p = (ROLE_TERMINAL, 0))"
  have b: "\<not> on_start_button ?dk 1 0" "\<not> g_start_menu_open ?dk"
    by (simp_all add: on_start_button_def demo_desk_def demo_picture_def demo_desktop_def)
  have s: "(0 :: s32) \<le>s 1" "(1 :: s32) <s 2" "(0 :: s32) <s 2" by (simp_all add: word_sle_eq word_sless_alt)
  have "window_hit False 1 0 (g_windows ?dk ! i) \<longleftrightarrow> i = 1" if "i < 19" for i
    using that demo_windows_nth [OF that, of "\<lambda>p. p = (ROLE_TERMINAL, 0)"] all_ids_nth nth_eq_iff_index_eq [of all_ids i 1]
    by (auto simp: window_hit_def window_contains_def demo_window_def s)
  then have f: "find_down (\<lambda>i. window_hit False 1 0 (g_windows ?dk ! i)) 1 19 = Some 1" by (simp add: find_down_Some_iff)
  have "take 1 all_ids = [(ROLE_DESKTOP, 0)]" using all_ids_nth(1,2) take_Suc_conv_app_nth [of 0 all_ids] by simp
  then show ?thesis using press_raises_window [OF demo_desk_ok b] all_ids_nth unfolding f by (simp add: eval_nat_numeral)
qed

section \<open>The window of a new session\<close>

lemma create_session_effect:
  assumes "length (g_terminal_task_ids (dk_disp dk)) = 16" "s < 16" "\<forall>i < s. g_terminal_task_ids (dk_disp dk) ! i \<noteq> 0xFFFFFFFF"
    "g_terminal_task_ids (dk_disp dk) ! s = 0xFFFFFFFF" "snd e \<noteq> 0" "task_count (dk_sched dk) < MAX_TASKS"
  defines "n \<equiv> task_count (dk_sched dk)"
  shows "fst (display_create_terminal_session e True dk) = of_nat s"
    "g_windows (snd (display_create_terminal_session e True dk))
      = gui_bring_window_to_front ((g_windows dk)[1 + s := (g_windows dk ! (1 + s))\<lparr>gw_visible := True\<rparr>]) 1 (int (1 + s))"
    "focus (snd (display_create_terminal_session e True dk)) = int s"
    "g_terminal_task_ids (dk_disp (snd (display_create_terminal_session e True dk))) = (g_terminal_task_ids (dk_disp dk))[s := of_nat n]"
    "task_count (dk_sched (snd (display_create_terminal_session e True dk))) = Suc n"
proof -
  have f: "for_find (\<lambda>s. g_terminal_task_ids (dk_disp dk) ! s = 0xFFFFFFFF) 0 16 = Some s" using assms by (simp add: for_find_Some_iff)
  have "of_nat n \<noteq> (0xFFFFFFFF :: u32)"
  proof
    assume "of_nat n = (0xFFFFFFFF :: u32)"
    from arg_cong [OF this, of unat] show False using assms(6) by (simp add: n_def unat_of_nat)
  qed
  then obtain sc where t: "spawn_terminal_task_for_session e s dk = (of_nat n, dk\<lparr>dk_sched := sc,
      dk_disp := (dk_disp dk)\<lparr>g_terminal_task_ids := (g_terminal_task_ids (dk_disp dk))[s := of_nat n]\<rparr>\<rparr>)" "task_count sc = Suc n"
    using assms(2,5,6) by (simp add: spawn_terminal_task_for_session_def scheduler_create_task_def Let_def n_def)
  note d = display_create_terminal_session_def show_session_def f t \<open>of_nat n \<noteq> (0xFFFFFFFF :: u32)\<close>
  show "fst (display_create_terminal_session e True dk) = of_nat s"
    "g_windows (snd (display_create_terminal_session e True dk))
      = gui_bring_window_to_front ((g_windows dk)[1 + s := (g_windows dk ! (1 + s))\<lparr>gw_visible := True\<rparr>]) 1 (int (1 + s))"
    "focus (snd (display_create_terminal_session e True dk)) = int s"
    "g_terminal_task_ids (dk_disp (snd (display_create_terminal_session e True dk))) = (g_terminal_task_ids (dk_disp dk))[s := of_nat n]"
    "task_count (dk_sched (snd (display_create_terminal_session e True dk))) = Suc n"
    by (simp_all add: d set_focus_def force_redraw_def on_session_def bring_window_to_front_def on_window_def Let_def)
qed

text \<open>
  C34: Opening a second terminal shows the window of another session.  \<^verbatim>\<open>display_create_terminal_session\<close> finds the
  window of a session by its index at start-up, but raising a window moves the others.  From the desktop of start-up the second visible
  session, number 1, makes the window of session 2 visible and brings it to the front; the window of session 1 stays hidden, and the
  focus falls on session 2, which has no task, so that nothing reads what is typed.
\<close>

theorem second_terminal_wrong_window:
  assumes "desk_ok dk" "ids_of dk = all_ids" "\<forall>w \<in> set (g_windows dk). gw_role w = ROLE_TERMINAL \<longrightarrow> \<not> gw_visible w"
    and "g_terminal_task_ids (dk_disp dk) = replicate 16 0xFFFFFFFF" "task_count (dk_sched dk) < 63" "snd e \<noteq> 0"
  shows "let dk1 = snd (display_create_terminal_session e True dk); (session, dk2) = display_create_terminal_session e True dk1 in
    session = 1 \<and> win_id (g_windows dk2 ! 18) = (ROLE_TERMINAL, 2) \<and> gw_visible (g_windows dk2 ! 18)
    \<and> (\<forall>w \<in> set (g_windows dk2). win_id w = (ROLE_TERMINAL, 1) \<longrightarrow> \<not> gw_visible w)
    \<and> fst (display_get_focused_terminal_session dk2) = 2 \<and> g_terminal_task_ids (dk_disp dk2) ! 2 = 0xFFFFFFFF"
proof -
  define dk1 where "dk1 = snd (display_create_terminal_session e True dk)"
  define dk2 where "dk2 = snd (display_create_terminal_session e True dk1)"
  let ?n = "task_count (dk_sched dk)"
  have n: "of_nat ?n \<noteq> (0xFFFFFFFF :: u32)"
  proof
    assume "of_nat ?n = (0xFFFFFFFF :: u32)"
    from arg_cong [OF this, of unat] show False using assms(5) by (simp add: unat_of_nat)
  qed
  have A: "g_windows dk1 = gui_bring_window_to_front ((g_windows dk)[1 := (g_windows dk ! 1)\<lparr>gw_visible := True\<rparr>]) 1 1"
    "g_terminal_task_ids (dk_disp dk1) = of_nat ?n # replicate 15 0xFFFFFFFF" "task_count (dk_sched dk1) = Suc ?n"
    using create_session_effect [of dk 0 e] assms(4-6) by (simp_all add: dk1_def eval_nat_numeral)
  have B: "fst (display_create_terminal_session e True dk1) = 1" "focus dk2 = 1"
    "g_windows dk2 = gui_bring_window_to_front ((g_windows dk1)[2 := (g_windows dk1 ! 2)\<lparr>gw_visible := True\<rparr>]) 1 2"
    "g_terminal_task_ids (dk_disp dk2) = of_nat ?n # of_nat (Suc ?n) # replicate 14 0xFFFFFFFF"
    using create_session_effect [of dk1 1 e] A n assms(5,6) by (simp_all add: dk2_def eval_nat_numeral)
  obtain w0 w1 w2 w3 ws where w: "g_windows dk = w0 # w1 # w2 # w3 # ws"
    using length_windows [of "g_windows dk"] assms(1) by (auto simp: desk_ok_def length_Suc_conv numeral_eq_Suc)
  have l: "length ws = 15" using length_windows [of "g_windows dk"] assms(1) by (simp add: desk_ok_def w)
  have a: "all_ids = (ROLE_DESKTOP, 0) # (ROLE_TERMINAL, 0) # (ROLE_TERMINAL, 1) # (ROLE_TERMINAL, 2) # drop 4 all_ids"
    "(ROLE_TERMINAL, 1) \<notin> set (drop 4 all_ids)" by (simp_all add: all_ids_def upt_rec)
  have i: "win_id w0 = (ROLE_DESKTOP, 0)" "win_id w1 = (ROLE_TERMINAL, 0)" "win_id w2 = (ROLE_TERMINAL, 1)" "win_id w3 = (ROLE_TERMINAL, 2)"
    "map win_id ws = drop 4 all_ids"
    using assms(2) unfolding w by (subst (asm) a(1), simp)+
  have r: "(ROLE_TERMINAL, 1) \<notin> win_id ` set ws" using a(2) i(5) by (metis list.set_map)
  have hid: "\<not> gw_visible w2" using assms(3) i(3) by (simp add: w win_id_def)
  define v where "v = (\<lambda>w :: gui_window. w\<lparr>gw_visible := True\<rparr>)"
  have vid: "win_id (v u) = win_id u" "gw_visible (v u)" for u by (simp_all add: v_def win_id_def)
  have g1: "g_windows dk1 = w0 # w2 # w3 # ws @ [v w1]"
    using bring_loop_rotates [of 1 "[w0]" "v w1" "w2 # w3 # ws"] by (simp add: A(1) w gui_bring_window_to_front_def v_def)
  have g2: "g_windows dk2 = w0 # w2 # ws @ [v w1, v w3]"
    using bring_loop_rotates [of 1 "[w0, w2]" "v w3" "ws @ [v w1]"] by (simp add: B(3) g1 gui_bring_window_to_front_def v_def)
  have top: "g_windows dk2 ! 18 = v w3" "g_windows dk2 ! 1 = w2" "g_windows dk2 ! 0 = w0" using l by (simp_all add: g2 nth_append)
  have "terminal_window_for_session (g_windows dk2) 1 = Some 1"
    using i(1,3) top by (simp add: terminal_window_for_session_def for_find_Some_iff win_id_def less_Suc_eq)
  then have "focused_window dk2 = None" using hid top by (simp add: focused_window_def B(2))
  moreover have "top_terminal (g_windows dk2) = Some 18"
    using vid [of w3] i(4) top by (auto simp: top_terminal_def find_down_Some_iff win_id_def)
  ultimately have f: "fst (display_get_focused_terminal_session dk2) = 2"
    using vid [of w3] i(4) top
    by (simp add: display_get_focused_terminal_session_def ensure_valid_terminal_focus_def set_focus_def terminal_session_from_window_def win_id_def Let_def)
  have "\<forall>w \<in> set (g_windows dk2). win_id w = (ROLE_TERMINAL, 1) \<longrightarrow> \<not> gw_visible w"
    using r i(1-4) vid hid by (auto simp: g2 image_iff)
  moreover have "display_create_terminal_session e True dk1 = (1, dk2)" using B(1) by (simp add: dk2_def prod_eq_iff)
  ultimately show ?thesis
    using f vid [of w3] i(4) top B(4) by (simp add: Let_def dk1_def [symmetric])
qed

theorem second_terminal_wrong_window_witness:
  "let dk1 = snd (display_create_terminal_session (0x1000, 0x2000) True (demo_desk (\<lambda>_. False)));
     (session, dk2) = display_create_terminal_session (0x1000, 0x2000) True dk1
   in session = 1 \<and> win_id (g_windows dk2 ! 18) = (ROLE_TERMINAL, 2) \<and> fst (display_get_focused_terminal_session dk2) = 2"
proof -
  have h: "\<forall>w \<in> set (g_windows (demo_desk (\<lambda>_. False))). gw_role w = ROLE_TERMINAL \<longrightarrow> \<not> gw_visible w"
    by (simp add: demo_desk_def demo_windows_def)
  have t: "g_terminal_task_ids (dk_disp (demo_desk (\<lambda>_. False))) = replicate 16 0xFFFFFFFF" "task_count (dk_sched (demo_desk (\<lambda>_. False))) < 63"
    by (simp_all add: demo_desk_def demo_desktop_def demo_console_def demo_init_def scheduler_init_def)
  have e: "snd (0x1000 :: u32, 0x2000 :: u32) \<noteq> 0" by simp
  from second_terminal_wrong_window [OF demo_desk_ok demo_desk_ids h t e] show ?thesis by (auto simp: Let_def split: prod.splits)
qed

section \<open>The pointer and a full redraw\<close>

lemma full_keeps_mouse: "dk_mouse (gfx_render_full dk) = dk_mouse dk"
proof -
  have e: "dk_mouse (ensure_valid_terminal_focus d) = dk_mouse d" for d
    by (simp add: ensure_valid_terminal_focus_def set_focus_def split: option.split)
  then have a: "terminal_state_for_active_ui d = (si, c) \<Longrightarrow> dk_mouse c = dk_mouse d" for d si c
    by (auto simp: terminal_state_for_active_ui_def Let_def)
  have f: "dk_mouse (on_fb g d) = dk_mouse d" "dk_mouse (on_session i h d) = dk_mouse d" for g i h d by (simp_all add: on_fb_def on_session_def)
  have w: "dk_mouse (gfx_render_window d i) = dk_mouse d" for d i
    by (simp add: gfx_render_window_def gfx_render_process_manager_content_def f Let_def split: gui_window_role.split)
  have ws: "dk_mouse (foldl gfx_render_window d xs) = dk_mouse d" for d xs by (induction xs arbitrary: d) (simp_all add: w)
  have c: "dk_mouse (gfx_render_cursor d) = dk_mouse d" for d
    by (auto simp: gfx_render_cursor_def Let_def f dest: a split: option.split prod.split)
  show ?thesis
    by (auto simp: gfx_render_full_def scene_front_def scene_background_def gfx_render_windows_def c f ws Let_def dest: a split: prod.split)
qed

text \<open>C35: A full redraw leaves old pixels under the pointer.  \<^verbatim>\<open>display_refresh\<close> draws the whole scene while the pointer
  is on the screen and then restores the pixels saved under it, so the picture below the pointer is the one of before the redraw, whatever
  the new scene shows there.\<close>

theorem full_redraw_stale_pointer:
  assumes "desk_ok dk" "ms_prev_valid (dk_mouse dk)" "on_picture (dk_fb dk) x y"
    and "unat (x - ms_prev_x (dk_mouse dk)) < 5" "unat (y - ms_prev_y (dk_mouse dk)) < 5"
  shows "picture_under (dk_mouse (full_scene dk), dk_fb (full_scene dk)) x y
    = ms_prev_buffer (dk_mouse dk) ! (unat (y - ms_prev_y (dk_mouse dk)) * 5 + unat (x - ms_prev_x (dk_mouse dk)))"
proof -
  let ?d = "gfx_render_full dk"
  have D: "desk_ok ?d" "same_size (dk_fb dk) (dk_fb ?d)" using movesD [OF moves_full [OF moves_refl] assms(1)] by simp_all
  then have ok: "mouse_ok (dk_mouse ?d, dk_fb ?d)" "screen_ok (dk_fb ?d)" and p: "on_picture (dk_fb ?d) x y"
    using assms(3) by (simp_all add: desk_ok_def mouse_ok_def same_size_def)
  have "(dk_mouse (full_scene dk), dk_fb (full_scene dk)) = pointer_step Refresh (dk_mouse ?d, dk_fb ?d)"
    by (simp add: full_scene_def on_pointer_def split: prod.split)
  then have "picture_under (dk_mouse (full_scene dk), dk_fb (full_scene dk)) x y = picture_under (dk_mouse ?d, dk_fb ?d) x y"
    using pointer_step_keeps [OF ok(1), of Refresh] p by simp
  also have "\<dots> = drawn (set_cells (ms_prev_x (dk_mouse dk)) (ms_prev_y (dk_mouse dk))
      (\<lambda>r c. ms_prev_buffer (dk_mouse dk) ! (r * 5 + c)) pointer_cells (dk_fb ?d)) x y"
    by (simp add: picture_under_def restore_eq full_keeps_mouse assms(2))
  finally show ?thesis using set_pointer_drawn [OF ok(2) p] assms(4,5) by simp
qed

theorem full_redraw_stale_pointer_witness:
  "\<exists>dk. desk_ok dk \<and> picture_under (dk_mouse (full_scene dk), dk_fb (full_scene dk)) 1 1 = 77"
proof -
  let ?dk = "(demo_desk (\<lambda>_. False))\<lparr>dk_mouse := demo_mouse\<lparr>ms_prev_x := 0, ms_prev_y := 0, ms_prev_valid := True,
      ms_prev_buffer := replicate 25 77\<rparr>\<rparr>"
  have ok: "desk_ok ?dk" using demo_desk_ok [of "\<lambda>_. False"] by (simp add: desk_ok_def indices_ok_def mouse_ok_def)
  have "picture_under (dk_mouse (full_scene ?dk), dk_fb (full_scene ?dk)) 1 1
      = ms_prev_buffer (dk_mouse ?dk) ! (unat (1 - ms_prev_y (dk_mouse ?dk)) * 5 + unat (1 - ms_prev_x (dk_mouse ?dk)))"
    by (rule full_redraw_stale_pointer [OF ok]) (simp_all add: demo_desk_def demo_picture_def)
  then show ?thesis using ok by (intro exI [of _ ?dk]) simp
qed

section \<open>Text mode\<close>

text \<open>In text mode the operations are those of the text console.\<close>

lemma text_size: "dk_mode dk = VIDEO_MODE_TEXT \<Longrightarrow> visible_rows dk = 25 \<and> visible_cols dk = 80"
  by (simp add: visible_rows_def visible_cols_def)

lemma scroll_text: "scroll_in 25 80 = scroll_if_needed"
  by (rule ext) (simp add: scroll_in_def scroll_if_needed_def blank_last_def [abs_def] Let_def)

lemma put_text: "put_cell_in 25 80 = put_cell"
  unfolding put_cell_in_def [abs_def] put_cell_def [abs_def] scroll_text ..

lemma on_session_io: "on_session (io_slot dk) f dk = dk\<lparr>dk_disp := on_io (dk_disp dk) (task_id dk) f\<rparr>"
  by (simp add: on_session_def on_io_def io_slot_def terminal_state_for_task_io_def)

lemma task_id_disp [simp]: "task_id (dk\<lparr>dk_disp := d\<rparr>) = task_id dk"
  by (simp add: task_id_def)

lemma io_slot_range: "io_slot dk < 16"
  by (simp add: io_slot_def io_session_less)

lemma on_session_twice: "si < length (g_terminal_states (dk_disp dk)) \<Longrightarrow> on_session si f (on_session si g dk) = on_session si (\<lambda>ts. f (g ts)) dk"
  by (simp add: on_session_def)

lemma clamp_text:
  assumes "dk_mode dk = VIDEO_MODE_TEXT" "length (g_terminal_states (dk_disp dk)) = 16"
  shows "clamp_cursor_of (io_slot dk) dk = dk\<lparr>dk_disp := on_io (dk_disp dk) (task_id dk) clamp_cursor\<rparr>"
proof -
  let ?si = "io_slot dk"
  let ?ts = "g_terminal_states (dk_disp dk) ! ?si"
  have r: "?si < length (g_terminal_states (dk_disp dk))" using io_slot_range assms(2) by simp
  have id: "on_session ?si (\<lambda>ts. ts) dk = dk" by (simp add: on_session_def)
  have t: "visible_rows d = 25" "visible_cols d = 80" if "dk_mode d = VIDEO_MODE_TEXT" for d using text_size [OF that] by simp_all
  have m: "dk_mode (on_session ?si f dk) = VIDEO_MODE_TEXT" for f using assms(1) by (simp add: on_session_def)
  have g: "g_terminal_states (dk_disp (on_session ?si f dk)) ! ?si = f ?ts" for f using r by (simp add: on_session_def)
  have same: "on_session ?si f dk = on_session ?si h dk" if "f ?ts = h ?ts" for f h using that by (simp add: on_session_def)
  have "clamp_cursor_of ?si dk = on_session ?si clamp_cursor dk"
    by (cases "cursor_row ?ts \<ge> 25"; cases "cursor_col ?ts \<ge> 80")
      (auto simp: clamp_cursor_of_def t assms(1) m g on_session_twice [OF r] Let_def clamp_cursor_def id intro!: same
        intro: same [of "\<lambda>ts. ts", unfolded id])
  then show ?thesis by (simp add: on_session_io)
qed

lemma refresh_text:
  assumes "dk_mode dk = VIDEO_MODE_TEXT" "\<not> g_pending_terminal_spawn dk" "length (g_terminal_states (dk_disp dk)) = 16"
  shows "desk_refresh pio e (dk, m) = Some (dk\<lparr>dk_disp := display_refresh (dk_disp dk) (task_id dk)\<rparr>, m)"
  using assms clamp_text [OF assms(1,3)] by (simp add: desk_refresh_def spawn_pending_def display_refresh_def Let_def)

lemma request_text:
  assumes "dk_mode dk = VIDEO_MODE_TEXT" "\<not> g_pending_terminal_spawn dk" "length (g_terminal_states (dk_disp dk)) = 16"
  shows "desk_request_refresh pio e (dk, m) = Some (dk\<lparr>dk_disp := display_request_refresh (dk_disp dk) (task_id dk)\<rparr>, m)"
  using refresh_text [OF assms, of pio e m] by (simp add: desk_request_refresh_def display_request_refresh_def)

lemma put_char_text:
  assumes "dk_mode dk = VIDEO_MODE_TEXT"
  shows "put_char_quiet c dk = dk\<lparr>dk_disp := display_put_char_internal (dk_disp dk) (task_id dk) c False\<rparr>"
proof -
  have "io_session (d\<lparr>serial_out := s\<rparr>) tid = io_session d tid" for d s tid by (auto simp: io_session_def split: option.split)
  then show ?thesis using assms
    by (simp add: put_char_quiet_def display_put_char_internal_def text_size put_text on_io_def on_session_def io_slot_def force_redraw_def
        terminal_state_for_task_io_def Let_def)
qed

lemma put_chars_text:
  assumes "dk_mode dk = VIDEO_MODE_TEXT" "length (g_terminal_states (dk_disp dk)) = 16"
  shows "foldl (\<lambda>dk c. put_char_quiet c dk) dk cs
      = dk\<lparr>dk_disp := foldl (\<lambda>d c. display_put_char_internal d (task_id dk) c False) (dk_disp dk) cs\<rparr>
    \<and> length (g_terminal_states (foldl (\<lambda>d c. display_put_char_internal d (task_id dk) c False) (dk_disp dk) cs)) = 16"
  using assms
proof (induction cs arbitrary: dk)
  case (Cons c cs)
  have "length (g_terminal_states (display_put_char_internal (dk_disp dk) (task_id dk) c False)) = 16"
    using Cons.prems(2) by (simp add: display_put_char_internal_def on_io_def Let_def)
  then show ?case using Cons.IH [of "put_char_quiet c dk"] Cons.prems by (simp add: put_char_text)
qed simp

lemma print_text:
  assumes "dk_mode dk = VIDEO_MODE_TEXT" "\<not> g_pending_terminal_spawn dk" "length (g_terminal_states (dk_disp dk)) = 16"
  shows "desk_print pio e s (dk, m) = Some (dk\<lparr>dk_disp := display_print (dk_disp dk) (task_id dk) s\<rparr>, m)"
  using request_text [of "foldl (\<lambda>dk c. put_char_quiet c dk) dk (cstr s)" pio e m] put_chars_text [OF assms(1,3), of "cstr s"] assms(1,2)
  by (simp add: desk_print_def display_print_def Let_def)



section \<open>Dragging\<close>

text \<open>A window that fits above the task bar stays on the screen while it is dragged, wherever the pointer goes, and keeps its size.\<close>

theorem drag_stays_on_screen:
  assumes "desk_ok dk" "g_drag_window dk = 18" "gw_w (g_windows dk ! 18) \<le> fb_w dk"
    and "unat (gw_h (g_windows dk ! 18)) + unat (gfx_taskbar_height dk) \<le> unat (fb_h dk)"
  shows "let w = g_windows (drag x y dk) ! 18 in
    0 \<le> sint (gw_x w) \<and> sint (gw_x w) + int (unat (gw_w w)) \<le> int (unat (fb_w dk))
    \<and> 0 \<le> sint (gw_y w) \<and> sint (gw_y w) + int (unat (gw_h w)) + int (unat (gfx_taskbar_height dk)) \<le> int (unat (fb_h dk))
    \<and> gw_w w = gw_w (g_windows dk ! 18) \<and> gw_h w = gw_h (g_windows dk ! 18)"
proof -
  let ?win = "g_windows dk ! 18" and ?r = "gfx_taskbar_height dk"
  have l: "length (g_windows dk) = 19" using assms(1) by (simp add: desk_ok_def length_windows)
  have s: "unat (fb_w dk) < 2 ^ 31" "unat (fb_h dk) < 2 ^ 31" using assms(1) by (simp_all add: desk_ok_def mouse_ok_def screen_ok_def)
  obtain nx ny where n: "gui_clamp_window_position ?win (x - g_drag_offset_x dk, y - g_drag_offset_y dk) (fb_w dk) (fb_h dk) ?r = (nx, ny)"
    by fastforce
  have "(2 :: nat) ^ 31 < 2 ^ 32" by simp
  then have o: "unat (gw_h ?win) + unat ?r < 2 ^ 32" using assms(4) s(2) by linarith
  then have h: "gw_h ?win + ?r \<le> fb_h dk" using assms(4) by (simp add: word_le_nat_alt unat_word_ariths)
  note C = clamp_position_on_screen [OF assms(3) h o s n]
  have "g_windows (drag x y dk) ! 18 = ?win\<lparr>gw_x := nx, gw_y := ny\<rparr>"
  proof (cases "gw_x ?win \<noteq> nx \<or> gw_y ?win \<noteq> ny")
    case True
    then show ?thesis using l assms(2) n by (simp add: drag_def Let_def on_window_def)
  next
    case False
    then show ?thesis using assms(2) n by (auto simp: drag_def Let_def)
  qed
  then show ?thesis using C by (simp add: Let_def)
qed

definition demo_strip :: framebuffer where
  "demo_strip = demo_picture\<lparr>gf_screen := replicate 120 0, gf_height := 40\<rparr>"

theorem drag_stays_on_screen_witness:
  "let dk = (demo_desk (\<lambda>_. True))\<lparr>g_drag_window := 18, g_ui_scale_level := 2, dk_fb := demo_strip\<rparr>; w = g_windows (drag 900 (-7) dk) ! 18 in
     0 \<le> sint (gw_x w) \<and> sint (gw_x w) + 2 \<le> 3 \<and> 0 \<le> sint (gw_y w) \<and> sint (gw_y w) + 2 + 18 \<le> 40"
proof -
  let ?dk = "(demo_desk (\<lambda>_. True))\<lparr>g_drag_window := 18, g_ui_scale_level := 2, dk_fb := demo_strip\<rparr>"
  have "mouse_ok (demo_mouse, demo_strip)" by (simp add: mouse_ok_def screen_ok_def fb_ok_def demo_mouse_def demo_picture_def demo_strip_def)
  then have ok: "desk_ok ?dk" using demo_desk_ok [of "\<lambda>_. True"] by (simp add: desk_ok_def indices_ok_def demo_desk_def demo_desktop_def)
  have t: "gfx_taskbar_height ?dk = 18" by (simp add: gfx_taskbar_height_def gfx_scale_px_def gfx_ui_scale_half_def scale_px_def)
  have w: "gw_w (g_windows ?dk ! 18) = 2" "gw_h (g_windows ?dk ! 18) = 2" using demo_windows_nth [of 18 "\<lambda>_. True"] by simp_all
  have s: "fb_w ?dk = 3" "fb_h ?dk = 40" by (simp_all add: demo_strip_def demo_picture_def)
  have "g_drag_window ?dk = 18" "gw_w (g_windows ?dk ! 18) \<le> fb_w ?dk"
    "unat (gw_h (g_windows ?dk ! 18)) + unat (gfx_taskbar_height ?dk) \<le> unat (fb_h ?dk)"
    unfolding w t s by simp_all
  from drag_stays_on_screen [OF ok this, of 900 "-7"] show ?thesis unfolding Let_def w t s by clarsimp
qed

end
