(* ===== verification/Phys_Memory.thy ===== *)
theory Phys_Memory
  imports Vertex_Base
begin

text \<open>
  The boot memory map (\<^verbatim>\<open>src/mem/bootinfo.c\<close>) and the physical frame allocator
  (\<^verbatim>\<open>src/mem/pmm.c\<close>).

  The bitmap and the two byte counters are one record.  A panic halts the machine, so an
  operation that panics returns \<open>None\<close>.  Frame numbers and the addresses of the two
  address loops are natural numbers: their bounds (256 MiB, or an address rounded down to a
  page) keep the 32-bit counters of the code from wrapping.
\<close>

section \<open>The memory map\<close>

abbreviation E820_MAX_ENTRIES :: nat where "E820_MAX_ENTRIES \<equiv> 32"
abbreviation E820_TYPE_USABLE :: u32 where "E820_TYPE_USABLE \<equiv> 1"
abbreviation GIB4 :: u64 where "GIB4 \<equiv> 0x100000000"

record e820_entry =
  base_low :: u32
  base_high :: u32
  length_low :: u32
  length_high :: u32
  e820_type :: u32

record memory_region =
  mr_base :: u32
  mr_length :: u32

definition e820_base :: "e820_entry \<Rightarrow> u64" where
  "e820_base e = push_bit 32 (ucast (base_high e)) OR ucast (base_low e)"

definition e820_length :: "e820_entry \<Rightarrow> u64" where
  "e820_length e = push_bit 32 (ucast (length_high e)) OR ucast (length_low e)"

text \<open>One round of the loop: the region an entry contributes, if any.\<close>

definition usable_region :: "e820_entry \<Rightarrow> memory_region option" where
  "usable_region e =
     (if e820_type e \<noteq> E820_TYPE_USABLE then None
      else let base = e820_base e; len = e820_length e in
      if len = 0 then None
      else let stop = base + len in
      if stop \<le> base then None
      else if base \<ge> GIB4 then None
      else let stop' = (if stop > GIB4 then GIB4 else stop) in
        Some \<lparr>mr_base = ucast base, mr_length = ucast (stop' - base)\<rparr>)"

definition bootinfo_get_usable_regions :: "e820_entry list \<Rightarrow> nat \<Rightarrow> nat \<Rightarrow> memory_region list" where
  "bootinfo_get_usable_regions entries entry_count max_regions =
     take max_regions
       (List.map_filter usable_region (take (min entry_count E820_MAX_ENTRIES) entries))"

section \<open>The frame allocator\<close>

abbreviation PAGE_SIZE :: nat where "PAGE_SIZE \<equiv> 4096"
abbreviation PMM_MAX_MEMORY_BYTES :: nat where "PMM_MAX_MEMORY_BYTES \<equiv> 268435456"
abbreviation PMM_MAX_FRAMES :: nat where "PMM_MAX_FRAMES \<equiv> 65536"
abbreviation PMM_BITMAP_BYTES :: nat where "PMM_BITMAP_BYTES \<equiv> 8192"

record pmm_state =
  pmm_bitmap :: "u8 list"
  pmm_total_bytes :: u32
  pmm_used_bytes :: u32

definition bitmap_set :: "pmm_state \<Rightarrow> nat \<Rightarrow> pmm_state" where
  "bitmap_set st frame = st\<lparr>pmm_bitmap := (pmm_bitmap st)
     [frame div 8 := pmm_bitmap st ! (frame div 8) OR push_bit (frame mod 8) 1]\<rparr>"

definition bitmap_clear :: "pmm_state \<Rightarrow> nat \<Rightarrow> pmm_state" where
  "bitmap_clear st frame = st\<lparr>pmm_bitmap := (pmm_bitmap st)
     [frame div 8 := pmm_bitmap st ! (frame div 8) AND NOT (push_bit (frame mod 8) 1)]\<rparr>"

definition bitmap_test :: "pmm_state \<Rightarrow> nat \<Rightarrow> bool" where
  "bitmap_test st frame \<longleftrightarrow> drop_bit (frame mod 8) (pmm_bitmap st ! (frame div 8)) AND 1 \<noteq> 0"

definition reserve_frame :: "pmm_state \<Rightarrow> nat \<Rightarrow> pmm_state" where
  "reserve_frame st frame =
     (if frame < PMM_MAX_FRAMES \<and> \<not> bitmap_test st frame
      then (bitmap_set st frame)\<lparr>pmm_used_bytes := pmm_used_bytes st + 4096\<rparr> else st)"

function reserve_loop :: "pmm_state \<Rightarrow> nat \<Rightarrow> nat \<Rightarrow> pmm_state" where
  "reserve_loop st addr stop =
     (if addr < stop then reserve_loop (reserve_frame st (addr div PAGE_SIZE)) (addr + PAGE_SIZE) stop else st)"
  by pat_completeness auto
termination
  by (relation "measure (\<lambda>(st, addr, stop). stop - addr)") auto

declare reserve_loop.simps [simp del]

definition page_floor :: "u32 \<Rightarrow> u32" where
  "page_floor a = a AND NOT (4096 - 1)"

definition reserve_range :: "pmm_state \<Rightarrow> u32 \<Rightarrow> u32 \<Rightarrow> pmm_state" where
  "reserve_range st start stop = reserve_loop st (unat (page_floor start)) (unat (page_floor (stop + 4096 - 1)))"

definition release_frame :: "pmm_state \<Rightarrow> nat \<Rightarrow> pmm_state" where
  "release_frame st frame =
     (if bitmap_test st frame
      then (bitmap_clear st frame)\<lparr>pmm_total_bytes := pmm_total_bytes st + 4096\<rparr> else st)"

function release_loop :: "pmm_state \<Rightarrow> nat \<Rightarrow> nat \<Rightarrow> pmm_state" where
  "release_loop st addr region_end =
     (if addr + PAGE_SIZE \<le> region_end
      then release_loop (release_frame st (addr div PAGE_SIZE)) (addr + PAGE_SIZE) region_end else st)"
  by pat_completeness auto
termination
  by (relation "measure (\<lambda>(st, addr, region_end). region_end - addr)") auto

declare release_loop.simps [simp del]

definition add_region :: "pmm_state \<Rightarrow> memory_region \<Rightarrow> pmm_state" where
  "add_region st r =
     (let region_base = mr_base r; region_end = region_base + mr_length r in
      if region_end \<le> region_base then st
      else if unat region_base \<ge> PMM_MAX_MEMORY_BYTES then st
      else release_loop st (unat region_base) (min (unat region_end) PMM_MAX_MEMORY_BYTES))"

definition pmm_blank :: pmm_state where
  "pmm_blank = \<lparr>pmm_bitmap = replicate PMM_BITMAP_BYTES 0xFF, pmm_total_bytes = 0, pmm_used_bytes = 0\<rparr>"

definition pmm_init :: "memory_region list \<Rightarrow> u32 \<Rightarrow> u32 \<Rightarrow> pmm_state option" where
  "pmm_init regions kernel_start kernel_end =
     (let st1 = foldl add_region pmm_blank regions;
          st2 = reserve_range st1 0 0x00100000;
          st3 = reserve_range st2 kernel_start kernel_end;
          st4 = reserve_range st3 0x00004F00 0x00006000 in
      if pmm_total_bytes st4 = 0 then None else Some st4)"

definition pmm_alloc_frame :: "pmm_state \<Rightarrow> (u32 \<times> pmm_state) option" where
  "pmm_alloc_frame st =
     (case for_find (\<lambda>frame. \<not> bitmap_test st frame) 0 PMM_MAX_FRAMES of
        None \<Rightarrow> None
      | Some frame \<Rightarrow> Some (of_nat (frame * PAGE_SIZE),
          (bitmap_set st frame)\<lparr>pmm_used_bytes := pmm_used_bytes st + 4096\<rparr>))"

definition pmm_free_frame :: "pmm_state \<Rightarrow> u32 \<Rightarrow> pmm_state" where
  "pmm_free_frame st physical_addr =
     (let frame = unat physical_addr div PAGE_SIZE in
      if frame \<ge> PMM_MAX_FRAMES then st
      else if bitmap_test st frame then
        (bitmap_clear st frame)\<lparr>pmm_used_bytes :=
           (if pmm_used_bytes st \<ge> 4096 then pmm_used_bytes st - 4096 else pmm_used_bytes st)\<rparr>
      else st)"

definition pmm_free_memory_bytes :: "pmm_state \<Rightarrow> u32" where
  "pmm_free_memory_bytes st = pmm_total_bytes st - pmm_used_bytes st"

section \<open>The bitmap is a set of frames\<close>

definition free_frames :: "pmm_state \<Rightarrow> nat set" where
  "free_frames st = {f. f < PMM_MAX_FRAMES \<and> \<not> bitmap_test st f}"

definition bitmap_ok :: "pmm_state \<Rightarrow> bool" where
  "bitmap_ok st \<longleftrightarrow> length (pmm_bitmap st) = PMM_BITMAP_BYTES"

lemma bitmap_test_bit: "bitmap_test st f \<longleftrightarrow> bit (pmm_bitmap st ! (f div 8)) (f mod 8)"
  by (simp add: bitmap_test_def bit_iff_and_drop_bit_eq_1 and_one_eq not_mod_2_eq_0_eq_1)

lemma frame_eq_iff: "(f :: nat) = g \<longleftrightarrow> f div 8 = g div 8 \<and> f mod 8 = g mod 8"
  by (metis div_mult_mod_eq)

lemma bitmap_set_sel [simp]:
  "pmm_total_bytes (bitmap_set st f) = pmm_total_bytes st" "pmm_used_bytes (bitmap_set st f) = pmm_used_bytes st"
  "bitmap_ok (bitmap_set st f) = bitmap_ok st"
  "pmm_total_bytes (bitmap_clear st f) = pmm_total_bytes st" "pmm_used_bytes (bitmap_clear st f) = pmm_used_bytes st"
  "bitmap_ok (bitmap_clear st f) = bitmap_ok st"
  by (simp_all add: bitmap_set_def bitmap_clear_def bitmap_ok_def)

lemma bitmap_counters [simp]:
  "bitmap_test (st\<lparr>pmm_used_bytes := u\<rparr>) f = bitmap_test st f" "bitmap_ok (st\<lparr>pmm_used_bytes := u\<rparr>) = bitmap_ok st"
  "bitmap_test (st\<lparr>pmm_total_bytes := u\<rparr>) f = bitmap_test st f" "bitmap_ok (st\<lparr>pmm_total_bytes := u\<rparr>) = bitmap_ok st"
  "free_frames (st\<lparr>pmm_used_bytes := u\<rparr>) = free_frames st" "free_frames (st\<lparr>pmm_total_bytes := u\<rparr>) = free_frames st"
  by (simp_all add: bitmap_test_def bitmap_ok_def free_frames_def)

lemma bitmap_test_set:
  "bitmap_ok st \<Longrightarrow> f < PMM_MAX_FRAMES \<Longrightarrow> bitmap_test (bitmap_set st f) g \<longleftrightarrow> g = f \<or> bitmap_test st g"
  by (cases "g div 8 = f div 8")
     (auto simp: bitmap_test_bit bitmap_set_def bitmap_ok_def bit_simps nth_list_update frame_eq_iff [of g f])

lemma bitmap_test_clear:
  "bitmap_ok st \<Longrightarrow> f < PMM_MAX_FRAMES \<Longrightarrow> bitmap_test (bitmap_clear st f) g \<longleftrightarrow> g \<noteq> f \<and> bitmap_test st g"
  by (cases "g div 8 = f div 8")
     (auto simp: bitmap_test_bit bitmap_clear_def bitmap_ok_def bit_simps nth_list_update frame_eq_iff [of g f])

lemma free_frames_set:
  "bitmap_ok st \<Longrightarrow> f < PMM_MAX_FRAMES \<Longrightarrow> free_frames (bitmap_set st f) = free_frames st - {f}"
  by (auto simp: free_frames_def bitmap_test_set)

lemma free_frames_clear:
  "bitmap_ok st \<Longrightarrow> f < PMM_MAX_FRAMES \<Longrightarrow> free_frames (bitmap_clear st f) = insert f (free_frames st)"
  by (auto simp: free_frames_def bitmap_test_clear)

lemma finite_free_frames [simp]: "finite (free_frames st)"
  by (simp add: free_frames_def)

lemma card_free_frames: "card (free_frames st) \<le> PMM_MAX_FRAMES"
proof -
  have "card (free_frames st) \<le> card {..<PMM_MAX_FRAMES}"
    by (rule card_mono) (auto simp: free_frames_def)
  then show ?thesis by simp
qed


section \<open>Accounting\<close>

text \<open>
  The counters account for the bitmap: what is free and what is used adds up to the total, and
  nothing wraps.
\<close>

definition pmm_ok :: "pmm_state \<Rightarrow> bool" where
  "pmm_ok st \<longleftrightarrow> bitmap_ok st \<and> unat (pmm_total_bytes st) \<le> PMM_MAX_MEMORY_BYTES
     \<and> PAGE_SIZE * card (free_frames st) + unat (pmm_used_bytes st) = unat (pmm_total_bytes st)"

lemma unat_add_page: "unat x + 4096 < 2 ^ 32 \<Longrightarrow> unat (x + 4096 :: u32) = unat x + 4096"
  by (simp add: unat_word_ariths)

lemma card_free_pos: "f \<in> free_frames st \<Longrightarrow> 0 < card (free_frames st)"
  by (auto simp: card_gt_0_iff)

lemma take_frame_ok:
  assumes ok: "pmm_ok st" and f: "f \<in> free_frames st"
  shows "pmm_ok ((bitmap_set st f)\<lparr>pmm_used_bytes := pmm_used_bytes st + 4096\<rparr>)"
    and "unat (pmm_used_bytes st + 4096) = unat (pmm_used_bytes st) + 4096"
    and "free_frames ((bitmap_set st f)\<lparr>pmm_used_bytes := pmm_used_bytes st + 4096\<rparr>) = free_frames st - {f}"
proof -
  have lt: "f < PMM_MAX_FRAMES" "bitmap_ok st" using f ok by (auto simp: free_frames_def pmm_ok_def)
  define n where "n = card (free_frames st - {f})"
  have c: "card (free_frames st) = Suc n"
    unfolding n_def using f by (intro card.remove) simp_all
  have a: "PAGE_SIZE * Suc n + unat (pmm_used_bytes st) = unat (pmm_total_bytes st)"
    "unat (pmm_total_bytes st) \<le> PMM_MAX_MEMORY_BYTES"
    using ok unfolding pmm_ok_def c by blast+
  then show u: "unat (pmm_used_bytes st + 4096) = unat (pmm_used_bytes st) + 4096"
    by (intro unat_add_page) simp
  show fr: "free_frames ((bitmap_set st f)\<lparr>pmm_used_bytes := pmm_used_bytes st + 4096\<rparr>) = free_frames st - {f}"
    using free_frames_set [OF lt(2,1)] by simp
  show "pmm_ok ((bitmap_set st f)\<lparr>pmm_used_bytes := pmm_used_bytes st + 4096\<rparr>)"
    unfolding pmm_ok_def fr n_def [symmetric] using a u lt by simp
qed

lemma reserve_frame_ok:
  assumes "pmm_ok st"
  shows "pmm_ok (reserve_frame st f)" "free_frames (reserve_frame st f) = free_frames st - {f}"
    "pmm_total_bytes (reserve_frame st f) = pmm_total_bytes st"
  using assms take_frame_ok [OF assms, of f]
  by (auto simp: reserve_frame_def free_frames_def)

lemma reserve_loop_ok:
  "pmm_ok st \<Longrightarrow> addr mod 4096 = 0 \<Longrightarrow> stop mod 4096 = 0 \<Longrightarrow>
     pmm_ok (reserve_loop st addr stop)
     \<and> free_frames (reserve_loop st addr stop) = free_frames st - {addr div 4096..<stop div 4096}
     \<and> pmm_total_bytes (reserve_loop st addr stop) = pmm_total_bytes st"
proof (induction st addr stop rule: reserve_loop.induct)
  case (1 st addr stop)
  show ?case
  proof (cases "addr < stop")
    case True
    have "addr div 4096 < stop div 4096"
      using True "1.prems"(2,3) by (metis div_le_mono le_neq_implies_less less_imp_le_nat mod_0_imp_dvd dvd_div_eq_iff nat_neq_iff)
    then have r: "{addr div 4096..<stop div 4096} = insert (addr div 4096) {(addr + 4096) div 4096..<stop div 4096}"
      by auto
    have m: "(addr + 4096) mod 4096 = 0" using "1.prems"(2) by simp
    note R = reserve_frame_ok [OF "1.prems"(1), of "addr div 4096"]
    show ?thesis
      using "1.IH" [OF True R(1) m "1.prems"(3)] True R(2,3) unfolding r
      by (auto simp: reserve_loop.simps [of st addr stop])
  next
    case False
    then have "stop div 4096 \<le> addr div 4096" by (simp add: div_le_mono)
    with False "1.prems" show ?thesis by (simp add: reserve_loop.simps [of st addr stop])
  qed
qed

lemma page_floor_eq: "unat (page_floor a) = unat a div 4096 * 4096"
proof -
  have "page_floor a = push_bit 12 (drop_bit 12 a)"
  proof -
    have m: "(4096 - 1 :: u32) = mask 12" by (simp add: mask_eq_exp_minus_1)
    show ?thesis unfolding page_floor_def m by (rule bit_word_eqI) (auto simp: bit_simps)
  qed
  moreover have "unat (push_bit 12 (drop_bit 12 a)) = unat a div 4096 * 4096"
  proof -
    have d: "unat (drop_bit 12 a) = unat a div 4096" by (simp add: drop_bit_eq_div unat_div)
    have "unat a < 2 ^ 32" using unsigned_less [of a] by simp
    then have "unat a div 4096 * 4096 < 2 ^ 32" using div_times_less_eq_dividend [of "unat a" 4096] by linarith
    moreover have "unat (drop_bit 12 a * 4096) = unat a div 4096 * 4096 mod 2 ^ 32"
      by (simp add: unat_word_ariths d)
    ultimately have "unat (drop_bit 12 a * 4096) = unat a div 4096 * 4096" by (simp only: mod_less)
    then show ?thesis by (simp add: push_bit_eq_mult)
  qed
  ultimately show ?thesis by simp
qed


lemma page_ceil_eq:
  "unat a + 4095 < 2 ^ 32 \<Longrightarrow> unat (page_floor (a + 4096 - 1)) = (unat a + 4095) div 4096 * 4096"
  by (simp add: page_floor_eq unat_word_ariths)

lemma reserve_range_ok:
  assumes "pmm_ok st" "unat stop + 4095 < 2 ^ 32"
  shows "pmm_ok (reserve_range st start stop)"
    "free_frames (reserve_range st start stop)
      = free_frames st - {unat start div 4096..<(unat stop + 4095) div 4096}"
    "pmm_total_bytes (reserve_range st start stop) = pmm_total_bytes st"
  unfolding reserve_range_def page_ceil_eq [OF assms(2)]
  unfolding page_floor_eq
  using reserve_loop_ok [OF assms(1), of "unat start div 4096 * 4096" "(unat stop + 4095) div 4096 * 4096"]
  by simp_all

section \<open>Initialisation\<close>

text \<open>While the regions are added nothing is used yet.\<close>

definition fresh_ok :: "pmm_state \<Rightarrow> bool" where
  "fresh_ok st \<longleftrightarrow> pmm_ok st \<and> pmm_used_bytes st = 0"

lemma release_frame_ok:
  assumes ok: "fresh_ok st" and f: "f < PMM_MAX_FRAMES"
  shows "fresh_ok (release_frame st f)" "free_frames (release_frame st f) = insert f (free_frames st)"
proof -
  have b: "bitmap_ok st" using ok by (simp add: fresh_ok_def pmm_ok_def)
  have "fresh_ok (release_frame st f) \<and> free_frames (release_frame st f) = insert f (free_frames st)"
  proof (cases "bitmap_test st f")
    case False
    then have "f \<in> free_frames st" using f by (simp add: free_frames_def)
    then show ?thesis using False ok by (auto simp: release_frame_def)
  next
    case True
    let ?st = "(bitmap_clear st f)\<lparr>pmm_total_bytes := pmm_total_bytes st + 4096\<rparr>"
    have fr: "free_frames ?st = insert f (free_frames st)" using free_frames_clear [OF b f] by simp
    have "f \<notin> free_frames st" using True by (simp add: free_frames_def)
    then have c: "card (free_frames ?st) = Suc (card (free_frames st))" unfolding fr by simp
    have t: "PAGE_SIZE * card (free_frames st) = unat (pmm_total_bytes st)"
      using ok by (auto simp: fresh_ok_def pmm_ok_def)
    have le: "Suc (card (free_frames st)) \<le> PMM_MAX_FRAMES" using card_free_frames [of ?st] c by simp
    have u: "unat (pmm_total_bytes st + 4096) = unat (pmm_total_bytes st) + 4096"
      using t le by (intro unat_add_page) simp
    have "pmm_ok ?st"
      unfolding pmm_ok_def c using t le u b ok by (simp add: fresh_ok_def)
    then show ?thesis using True fr ok by (simp add: release_frame_def fresh_ok_def)
  qed
  then show "fresh_ok (release_frame st f)" "free_frames (release_frame st f) = insert f (free_frames st)" by auto
qed

definition region_frames :: "nat \<Rightarrow> nat \<Rightarrow> nat set" where
  "region_frames base stop = {f. \<exists>k. f = (base + k * PAGE_SIZE) div PAGE_SIZE \<and> base + Suc k * PAGE_SIZE \<le> stop}"

lemma region_frames_step:
  "region_frames addr stop =
     (if addr + PAGE_SIZE \<le> stop then insert (addr div PAGE_SIZE) (region_frames (addr + PAGE_SIZE) stop) else {})"
proof (cases "addr + PAGE_SIZE \<le> stop")
  case True
  show ?thesis
  proof (intro set_eqI iffI)
    fix f assume "f \<in> region_frames addr stop"
    then obtain k where k: "f = (addr + k * PAGE_SIZE) div PAGE_SIZE" "addr + Suc k * PAGE_SIZE \<le> stop"
      by (auto simp: region_frames_def)
    have "f \<in> insert (addr div PAGE_SIZE) (region_frames (addr + PAGE_SIZE) stop)"
    proof (cases k)
      case (Suc j)
      then have "f = (addr + PAGE_SIZE + j * PAGE_SIZE) div PAGE_SIZE" "addr + PAGE_SIZE + Suc j * PAGE_SIZE \<le> stop"
        using k by (simp_all add: ac_simps)
      then show ?thesis unfolding region_frames_def by blast
    qed (use k in simp)
    with True show "f \<in> (if addr + PAGE_SIZE \<le> stop then insert (addr div PAGE_SIZE) (region_frames (addr + PAGE_SIZE) stop) else {})"
      by simp
  next
    fix f assume "f \<in> (if addr + PAGE_SIZE \<le> stop then insert (addr div PAGE_SIZE) (region_frames (addr + PAGE_SIZE) stop) else {})"
    then consider "f = addr div PAGE_SIZE" | "f \<in> region_frames (addr + PAGE_SIZE) stop" using True by auto
    then show "f \<in> region_frames addr stop"
    proof cases
      case 1
      then show ?thesis using True unfolding region_frames_def by (auto intro: exI [of _ 0])
    next
      case 2
      then obtain j where "f = (addr + PAGE_SIZE + j * PAGE_SIZE) div PAGE_SIZE" "addr + PAGE_SIZE + Suc j * PAGE_SIZE \<le> stop"
        by (auto simp: region_frames_def)
      then have "f = (addr + Suc j * PAGE_SIZE) div PAGE_SIZE" "addr + Suc (Suc j) * PAGE_SIZE \<le> stop"
        by (simp_all add: ac_simps)
      then show ?thesis unfolding region_frames_def by blast
    qed
  qed
qed (auto simp: region_frames_def)

lemma release_loop_ok:
  "fresh_ok st \<Longrightarrow> stop \<le> PMM_MAX_MEMORY_BYTES \<Longrightarrow>
     fresh_ok (release_loop st addr stop)
     \<and> free_frames (release_loop st addr stop) = free_frames st \<union> region_frames addr stop"
proof (induction st addr stop rule: release_loop.induct)
  case (1 st addr stop)
  show ?case
  proof (cases "addr + PAGE_SIZE \<le> stop")
    case True
    then have "addr div PAGE_SIZE < PMM_MAX_FRAMES" using "1.prems"(2) by (intro div_less_iff_less_mult [THEN iffD2]) auto
    note R = release_frame_ok [OF "1.prems"(1) this]
    show ?thesis
      using "1.IH" [OF True R(1) "1.prems"(2)] R(2) True region_frames_step [of addr stop]
      by (simp add: release_loop.simps [of st addr stop])
  next
    case False
    then show ?thesis
      using "1.prems" region_frames_step [of addr stop] by (simp add: release_loop.simps [of st addr stop])
  qed
qed

definition frames_of :: "memory_region \<Rightarrow> nat set" where
  "frames_of r = (if mr_base r + mr_length r \<le> mr_base r \<or> unat (mr_base r) \<ge> PMM_MAX_MEMORY_BYTES then {}
     else region_frames (unat (mr_base r)) (min (unat (mr_base r + mr_length r)) PMM_MAX_MEMORY_BYTES))"

lemma add_region_ok:
  "fresh_ok st \<Longrightarrow> fresh_ok (add_region st r) \<and> free_frames (add_region st r) = free_frames st \<union> frames_of r"
  using release_loop_ok [of st "min (unat (mr_base r + mr_length r)) PMM_MAX_MEMORY_BYTES" "unat (mr_base r)"]
  by (simp add: add_region_def frames_of_def Let_def)

lemma add_regions_ok:
  "fresh_ok st \<Longrightarrow> fresh_ok (foldl add_region st rs)
     \<and> free_frames (foldl add_region st rs) = free_frames st \<union> (\<Union>r \<in> set rs. frames_of r)"
proof (induction rs arbitrary: st)
  case (Cons r rs)
  from Cons.IH [of "add_region st r"] add_region_ok [OF Cons.prems, of r] show ?case by auto
qed simp

lemma blank_ok: "fresh_ok pmm_blank" "free_frames pmm_blank = {}"
proof -
  have t: "bitmap_test pmm_blank f" if "f < PMM_MAX_FRAMES" for f
  proof -
    have "f div 8 < PMM_BITMAP_BYTES" using that by simp
    moreover have m: "(0xFF :: u8) = mask 8" by (simp add: mask_eq_exp_minus_1)
    ultimately show ?thesis unfolding bitmap_test_bit pmm_blank_def m by (simp add: bit_mask_iff)
  qed
  then show "free_frames pmm_blank = {}" by (auto simp: free_frames_def)
  then show "fresh_ok pmm_blank" by (simp add: fresh_ok_def pmm_ok_def bitmap_ok_def pmm_blank_def)
qed

lemma pmm_init_ok:
  assumes i: "pmm_init regions ks ke = Some st" and ke: "unat ke + 4095 < 2 ^ 32"
  shows "pmm_ok st"
    and "free_frames st = (\<Union>r \<in> set regions. frames_of r) - {0..<256} - {unat ks div 4096..<(unat ke + 4095) div 4096}"
proof -
  let ?s1 = "foldl add_region pmm_blank regions"
  have s1: "pmm_ok ?s1" "free_frames ?s1 = (\<Union>r \<in> set regions. frames_of r)"
    using add_regions_ok [OF blank_ok(1), of regions] blank_ok(2) by (simp_all add: fresh_ok_def)
  note s2 = reserve_range_ok [OF s1(1), where stop = "0x00100000" and start = "0", simplified]
  note s3 = reserve_range_ok [OF s2(1) ke, where start = ks]
  note s4 = reserve_range_ok [OF s3(1), where stop = "0x00006000" and start = "0x00004F00", simplified]
  have st: "st = reserve_range (reserve_range (reserve_range ?s1 0 0x00100000) ks ke) 0x00004F00 0x00006000"
    using i by (simp add: pmm_init_def Let_def split: if_splits)
  show "pmm_ok st" unfolding st by (rule s4(1))
  show "free_frames st = (\<Union>r \<in> set regions. frames_of r) - {0..<256} - {unat ks div 4096..<(unat ke + 4095) div 4096}"
    unfolding st s4(2) s3(2) s2(2) s1(2) by auto
qed


section \<open>Runs of the allocator\<close>

text \<open>The states after boot, with the addresses that were handed out and not given back.\<close>

inductive pmm_reach :: "memory_region list \<Rightarrow> u32 \<Rightarrow> u32 \<Rightarrow> pmm_state \<Rightarrow> u32 set \<Rightarrow> bool"
  for regions ks ke where
  boot: "pmm_init regions ks ke = Some st \<Longrightarrow> pmm_reach regions ks ke st {}"
| alloc: "pmm_reach regions ks ke st H \<Longrightarrow> pmm_alloc_frame st = Some (a, st') \<Longrightarrow>
    pmm_reach regions ks ke st' (insert a H)"
| free: "pmm_reach regions ks ke st H \<Longrightarrow> a \<in> H \<Longrightarrow> pmm_reach regions ks ke (pmm_free_frame st a) (H - {a})"

definition boot_frames :: "memory_region list \<Rightarrow> u32 \<Rightarrow> u32 \<Rightarrow> nat set" where
  "boot_frames regions ks ke =
     (\<Union>r \<in> set regions. frames_of r) - {0..<256} - {unat ks div 4096..<(unat ke + 4095) div 4096}"

definition frame_addr :: "nat \<Rightarrow> u32" where
  "frame_addr f = of_nat (f * PAGE_SIZE)"

lemma unat_frame_addr: "f < PMM_MAX_FRAMES \<Longrightarrow> unat (frame_addr f) = f * PAGE_SIZE"
  by (simp add: frame_addr_def unat_of_nat del: of_nat_mult)

lemma frame_addr_inj: "f < PMM_MAX_FRAMES \<Longrightarrow> g < PMM_MAX_FRAMES \<Longrightarrow> frame_addr f = frame_addr g \<longleftrightarrow> f = g"
proof
  assume a: "f < PMM_MAX_FRAMES" "g < PMM_MAX_FRAMES" and e: "frame_addr f = frame_addr g"
  have "f * PAGE_SIZE = g * PAGE_SIZE"
    using unat_frame_addr [OF a(1)] unat_frame_addr [OF a(2)] unfolding e by linarith
  then show "f = g" by simp
qed simp

lemma frame_addr_inj_on: "inj_on frame_addr {..<PMM_MAX_FRAMES}"
  by (rule inj_onI) (use frame_addr_inj in auto)

lemma alloc_cases:
  assumes "pmm_alloc_frame st = Some (a, st')"
  obtains f where "f \<in> free_frames st" "a = frame_addr f"
    "st' = (bitmap_set st f)\<lparr>pmm_used_bytes := pmm_used_bytes st + 4096\<rparr>"
    "\<forall>g \<in> free_frames st. f \<le> g"
  using assms
  by (auto simp: pmm_alloc_frame_def frame_addr_def free_frames_def for_find_Some_iff split: option.splits)
     (metis le0 not_le)

lemma alloc_None_iff: "pmm_alloc_frame st = None \<longleftrightarrow> free_frames st = {}"
proof -
  have "pmm_alloc_frame st = None \<longleftrightarrow> for_find (\<lambda>frame. \<not> bitmap_test st frame) 0 PMM_MAX_FRAMES = None"
    by (auto simp: pmm_alloc_frame_def split: option.splits)
  also have "\<dots> \<longleftrightarrow> free_frames st = {}" by (auto simp: free_frames_def for_find_None_iff)
  finally show ?thesis .
qed

lemma give_back:
  assumes ok: "pmm_ok st" and f: "f < PMM_MAX_FRAMES" "f \<notin> free_frames st" and u: "4096 \<le> unat (pmm_used_bytes st)"
  shows "pmm_ok (pmm_free_frame st (frame_addr f))"
    "free_frames (pmm_free_frame st (frame_addr f)) = insert f (free_frames st)"
    "unat (pmm_used_bytes (pmm_free_frame st (frame_addr f))) + 4096 = unat (pmm_used_bytes st)"
    "pmm_total_bytes (pmm_free_frame st (frame_addr f)) = pmm_total_bytes st"
proof -
  have t: "bitmap_test st f" "bitmap_ok st" using f ok by (auto simp: free_frames_def pmm_ok_def)
  have le: "4096 \<le> pmm_used_bytes st" using u by (simp add: word_le_nat_alt)
  have st: "pmm_free_frame st (frame_addr f) = (bitmap_clear st f)\<lparr>pmm_used_bytes := pmm_used_bytes st - 4096\<rparr>"
    using f(1) t(1) le by (simp add: pmm_free_frame_def unat_frame_addr Let_def)
  have us: "unat (pmm_used_bytes st - 4096) + 4096 = unat (pmm_used_bytes st)"
    using u le by (simp add: unat_sub)
  show fr: "free_frames (pmm_free_frame st (frame_addr f)) = insert f (free_frames st)"
    using free_frames_clear [OF t(2) f(1)] by (simp add: st)
  show "unat (pmm_used_bytes (pmm_free_frame st (frame_addr f))) + 4096 = unat (pmm_used_bytes st)"
    "pmm_total_bytes (pmm_free_frame st (frame_addr f)) = pmm_total_bytes st"
    using us by (simp_all add: st)
  have "card (insert f (free_frames st)) = Suc (card (free_frames st))" using f(2) by simp
  then show "pmm_ok (pmm_free_frame st (frame_addr f))"
    using ok us t(2) unfolding pmm_ok_def fr by (simp add: st)
qed

lemma reach_inv:
  assumes "pmm_reach regions ks ke st H" and ke: "unat ke + 4095 < 2 ^ 32"
  shows "pmm_ok st \<and> finite H \<and> (\<exists>F. H = frame_addr ` F \<and> F \<subseteq> boot_frames regions ks ke \<inter> {..<PMM_MAX_FRAMES}
      \<and> free_frames st = boot_frames regions ks ke - F)
    \<and> PAGE_SIZE * card H \<le> unat (pmm_used_bytes st)"
  using assms(1)
proof (induction rule: pmm_reach.induct)
  case (boot st)
  show ?case using pmm_init_ok [OF boot ke] by (auto simp: boot_frames_def)
next
  case (alloc st H a st')
  obtain F where F: "H = frame_addr ` F" "F \<subseteq> boot_frames regions ks ke \<inter> {..<PMM_MAX_FRAMES}"
      "free_frames st = boot_frames regions ks ke - F" using alloc.IH by blast
  obtain f where f: "f \<in> free_frames st" "a = frame_addr f"
      "st' = (bitmap_set st f)\<lparr>pmm_used_bytes := pmm_used_bytes st + 4096\<rparr>"
    using alloc.hyps(2) by (rule alloc_cases)
  have fm: "f < PMM_MAX_FRAMES" using f(1) by (simp add: free_frames_def)
  note T = take_frame_ok [OF _ f(1)]
  have "f \<notin> F" using F(3) f(1) by blast
  then have "a \<notin> H"
    unfolding F(1) f(2) using inj_on_image_mem_iff [OF frame_addr_inj_on, of f F] F(2) fm by auto
  then have "card (insert a H) = Suc (card H)" using alloc.IH by simp
  moreover have "unat (pmm_used_bytes st') = unat (pmm_used_bytes st) + 4096" using T(2) alloc.IH f(3) by simp
  moreover have "insert a H = frame_addr ` insert f F" "insert f F \<subseteq> boot_frames regions ks ke \<inter> {..<PMM_MAX_FRAMES}"
    "free_frames st' = boot_frames regions ks ke - insert f F"
    using F f fm T(3) alloc.IH by auto
  moreover have "pmm_ok st'" using T(1) alloc.IH f(3) by simp
  moreover from calculation have "PAGE_SIZE * card (insert a H) \<le> unat (pmm_used_bytes st')"
    using alloc.IH by simp
  ultimately show ?case using alloc.IH by blast
next
  case (free st H a)
  obtain F where F: "H = frame_addr ` F" "F \<subseteq> boot_frames regions ks ke \<inter> {..<PMM_MAX_FRAMES}"
      "free_frames st = boot_frames regions ks ke - F" using free.IH by blast
  obtain f where f: "f \<in> F" "a = frame_addr f" using F(1) free.hyps(2) by blast
  have fm: "f < PMM_MAX_FRAMES" "f \<notin> free_frames st" using f(1) F by auto
  have c: "card H = Suc (card (H - {a}))" using free.IH free.hyps(2) by (simp add: card.remove del: card_Diff_singleton card_Diff_insert)
  then have u: "4096 \<le> unat (pmm_used_bytes st)" using free.IH by linarith
  note G = give_back [OF _ fm u]
  have "H - {a} = frame_addr ` (F - {f})"
    using inj_on_image_set_diff [OF frame_addr_inj_on, of F "{f}"] F(1,2) f(2) fm(1) by auto
  moreover have "F - {f} \<subseteq> boot_frames regions ks ke \<inter> {..<PMM_MAX_FRAMES}"
    "free_frames (pmm_free_frame st a) = boot_frames regions ks ke - (F - {f})"
    using F f fm G(2) free.IH by auto
  moreover have "PAGE_SIZE * card (H - {a}) \<le> unat (pmm_used_bytes (pmm_free_frame st a))"
    using G(3) free.IH c f(2) by simp
  moreover have "pmm_ok (pmm_free_frame st a)" using G(1) free.IH f(2) by simp
  ultimately show ?case using free.IH by blast
qed

text \<open>Frames of an aligned region lie inside the region.\<close>

lemma frames_of_inside:
  assumes f: "f \<in> frames_of r" and a: "unat (mr_base r) mod PAGE_SIZE = 0"
  shows "unat (mr_base r) \<le> f * PAGE_SIZE" "f * PAGE_SIZE + PAGE_SIZE \<le> unat (mr_base r) + unat (mr_length r)"
    "f < PMM_MAX_FRAMES"
proof -
  obtain k where k: "f = (unat (mr_base r) + k * PAGE_SIZE) div PAGE_SIZE"
      "unat (mr_base r) + Suc k * PAGE_SIZE \<le> min (unat (mr_base r + mr_length r)) PMM_MAX_MEMORY_BYTES"
    using f by (auto simp: frames_of_def region_frames_def split: if_splits)
  have fk: "f * PAGE_SIZE = unat (mr_base r) + k * PAGE_SIZE"
    unfolding k(1) using a by (metis mod_0_imp_dvd dvd_add dvd_triv_right dvd_div_mult_self)
  have "unat (mr_base r + mr_length r) \<le> unat (mr_base r) + unat (mr_length r)"
    by (simp add: unat_word_ariths)
  then show "unat (mr_base r) \<le> f * PAGE_SIZE" "f * PAGE_SIZE + PAGE_SIZE \<le> unat (mr_base r) + unat (mr_length r)"
    using k(2) unfolding fk by simp_all
  show "f < PMM_MAX_FRAMES" using k(2) fk by simp
qed

lemma frames_of_less: "f \<in> frames_of r \<Longrightarrow> f < PMM_MAX_FRAMES"
proof -
  assume "f \<in> frames_of r"
  then obtain k where k: "f = (unat (mr_base r) + k * PAGE_SIZE) div PAGE_SIZE"
      "unat (mr_base r) + Suc k * PAGE_SIZE \<le> PMM_MAX_MEMORY_BYTES"
    by (auto simp: frames_of_def region_frames_def split: if_splits)
  have "f * PAGE_SIZE \<le> unat (mr_base r) + k * PAGE_SIZE" unfolding k(1) by (rule div_times_less_eq_dividend)
  with k(2) show ?thesis by simp
qed


section \<open>Properties\<close>

text \<open>A small machine: four free pages above the first megabyte, the kernel in the first of them.\<close>

definition demo_regions :: "memory_region list" where
  "demo_regions = [\<lparr>mr_base = 0x00100000, mr_length = 0x4000\<rparr>]"

lemma pmm_init_Some:
  assumes "(\<Union>r \<in> set regions. frames_of r) \<noteq> {}" "unat ke + 4095 < 2 ^ 32"
  shows "\<exists>st. pmm_init regions ks ke = Some st"
proof -
  let ?s1 = "foldl add_region pmm_blank regions"
  have s1: "fresh_ok ?s1" "free_frames ?s1 \<noteq> {}"
    using add_regions_ok [OF blank_ok(1), of regions] blank_ok(2) assms(1) by simp_all
  then have "0 < card (free_frames ?s1)" by (simp add: card_gt_0_iff)
  then have "0 < unat (pmm_total_bytes ?s1)" using s1(1) by (auto simp: fresh_ok_def pmm_ok_def)
  then have t: "pmm_total_bytes ?s1 \<noteq> 0" by auto
  have p1: "pmm_ok ?s1" using s1(1) by (simp add: fresh_ok_def)
  note s2 = reserve_range_ok [OF p1, where stop = "0x00100000" and start = "0", simplified]
  note s3 = reserve_range_ok [OF s2(1) assms(2), where start = ks]
  note s4 = reserve_range_ok [OF s3(1), where stop = "0x00006000" and start = "0x00004F00", simplified]
  show ?thesis using t by (simp add: pmm_init_def Let_def s2(3) s3(3) s4(3))
qed

lemma demo_frames: "(\<Union>r \<in> set demo_regions. frames_of r) = {256, 257, 258, 259}"
  by (simp add: demo_regions_def frames_of_def region_frames_step)

lemma demo_boot: "\<exists>st. pmm_init demo_regions 0x00100000 0x00101000 = Some st \<and> free_frames st = {257, 258, 259}"
proof -
  have ke: "unat (0x00101000 :: u32) + 4095 < 2 ^ 32" by simp
  have ne: "(\<Union>r \<in> set demo_regions. frames_of r) \<noteq> {}" unfolding demo_frames by simp
  obtain st where i: "pmm_init demo_regions 0x00100000 0x00101000 = Some st"
    using pmm_init_Some [OF ne ke] by blast
  have "free_frames st = {256, 257, 258, 259} - {0..<256} - {256..<257}"
    using pmm_init_ok(2) [OF i ke] unfolding demo_frames by simp
  then have "free_frames st = {257, 258, 259}" by (simp add: insert_Diff_if)
  with i show ?thesis by blast
qed

text \<open>
  C7: Every frame that \<^verbatim>\<open>pmm_alloc_frame\<close> hands out, after any sequence of allocations and releases of allocated
  frames, is page aligned, lies inside a usable region, above the first megabyte and outside the kernel image,
  and overlaps no frame that is still in use (regions given page aligned).
\<close>

theorem pmm_alloc_safe:
  assumes "pmm_reach regions ks ke st H" "unat ke + 4095 < 2 ^ 32"
    and "\<And>r. r \<in> set regions \<Longrightarrow> unat (mr_base r) mod PAGE_SIZE = 0"
    and "pmm_alloc_frame st = Some (a, st')"
  shows "unat a mod PAGE_SIZE = 0 \<and> 0x100000 \<le> unat a \<and> unat a + PAGE_SIZE \<le> PMM_MAX_MEMORY_BYTES
    \<and> (unat a + PAGE_SIZE \<le> unat ks \<or> unat ke \<le> unat a)
    \<and> (\<exists>r \<in> set regions. unat (mr_base r) \<le> unat a \<and> unat a + PAGE_SIZE \<le> unat (mr_base r) + unat (mr_length r))
    \<and> (\<forall>b \<in> H. unat a + PAGE_SIZE \<le> unat b \<or> unat b + PAGE_SIZE \<le> unat a)"
proof -
  obtain F where F: "H = frame_addr ` F" "F \<subseteq> boot_frames regions ks ke \<inter> {..<PMM_MAX_FRAMES}"
      "free_frames st = boot_frames regions ks ke - F" using reach_inv [OF assms(1,2)] by blast
  obtain f where f: "f \<in> free_frames st" "a = frame_addr f" using assms(4) by (rule alloc_cases)
  then have fm: "f < PMM_MAX_FRAMES" "f \<in> boot_frames regions ks ke" "f \<notin> F" using F(3) by (auto simp: free_frames_def)
  have a: "unat a = f * PAGE_SIZE" using fm(1) by (simp add: f(2) unat_frame_addr)
  obtain r where r: "r \<in> set regions" "f \<in> frames_of r" "256 \<le> f"
      "f < unat ks div 4096 \<or> (unat ke + 4095) div 4096 \<le> f"
    using fm(2) by (auto simp: boot_frames_def not_less)
  have "unat a + PAGE_SIZE \<le> unat ks \<or> unat ke \<le> unat a"
  proof -
    have "unat ks div 4096 * 4096 \<le> unat ks" "unat ke + 4095 < (unat ke + 4095) div 4096 * 4096 + 4096"
      using div_mult_mod_eq [of "unat ke + 4095" 4096] mod_less_divisor [of 4096 "unat ke + 4095"] by linarith+
    with r(4) show ?thesis unfolding a by linarith
  qed
  moreover have "unat a + PAGE_SIZE \<le> unat b \<or> unat b + PAGE_SIZE \<le> unat a" if b: "b \<in> H" for b
  proof -
    obtain g where "g \<in> F" "b = frame_addr g" using b F(1) by blast
    then have "g \<noteq> f" "unat b = g * PAGE_SIZE" using fm(3) F(2) by (auto simp: unat_frame_addr)
    then show ?thesis unfolding a by (cases "g < f") linarith+
  qed
  ultimately show ?thesis
    using frames_of_inside [OF r(2) assms(3) [OF r(1)]] r(1,3) fm(1) unfolding a by auto
qed

theorem pmm_alloc_safe_witness:
  "\<exists>st a st'. pmm_init demo_regions 0x00100000 0x00101000 = Some st \<and> pmm_alloc_frame st = Some (a, st')
    \<and> 0x101000 \<le> unat a \<and> unat a + PAGE_SIZE \<le> 0x104000"
proof -
  obtain st where i: "pmm_init demo_regions 0x00100000 0x00101000 = Some st" "free_frames st \<noteq> {}"
    using demo_boot by auto
  obtain a st' where al: "pmm_alloc_frame st = Some (a, st')"
    using i(2) alloc_None_iff [of st] by (cases "pmm_alloc_frame st") auto
  from pmm_alloc_safe [OF boot [OF i(1)] _ _ al] i(1) al show ?thesis
    by (auto simp: demo_regions_def)
qed

text \<open>
  The counters of the frame allocator are exact in every run: the reported free memory is the
  page size times the number of clear bits, no counter wraps, everything handed out is counted as
  used, and the out-of-memory panic happens exactly when nothing is free.
\<close>

theorem pmm_accounting:
  assumes "pmm_reach regions ks ke st H" "unat ke + 4095 < 2 ^ 32"
  shows "unat (pmm_free_memory_bytes st) = PAGE_SIZE * card (free_frames st)
    \<and> unat (pmm_used_bytes st) \<le> unat (pmm_total_bytes st)
    \<and> PAGE_SIZE * card H \<le> unat (pmm_used_bytes st)
    \<and> (pmm_alloc_frame st = None \<longleftrightarrow> pmm_free_memory_bytes st = 0)"
proof -
  have ok: "PAGE_SIZE * card (free_frames st) + unat (pmm_used_bytes st) = unat (pmm_total_bytes st)"
    and h: "PAGE_SIZE * card H \<le> unat (pmm_used_bytes st)"
    using reach_inv [OF assms] by (auto simp: pmm_ok_def)
  have le: "pmm_used_bytes st \<le> pmm_total_bytes st" using ok by (simp add: word_le_nat_alt)
  then have f: "unat (pmm_free_memory_bytes st) = PAGE_SIZE * card (free_frames st)"
    using ok by (simp add: pmm_free_memory_bytes_def unat_sub)
  moreover have "pmm_free_memory_bytes st = 0 \<longleftrightarrow> free_frames st = {}"
    using f by (auto simp: card_eq_0_iff unat_eq_0)
  ultimately show ?thesis using ok h le by (simp add: alloc_None_iff word_le_nat_alt)
qed

theorem pmm_accounting_witness:
  "\<exists>st. pmm_init demo_regions 0x00100000 0x00101000 = Some st \<and> unat (pmm_free_memory_bytes st) = 3 * PAGE_SIZE"
proof -
  obtain st where i: "pmm_init demo_regions 0x00100000 0x00101000 = Some st" "free_frames st = {257, 258, 259}"
    using demo_boot by auto
  from pmm_accounting [OF boot [OF i(1)]] i show ?thesis by auto
qed

lemma usable_region_inside:
  assumes "usable_region e = Some r"
  shows "e820_type e = E820_TYPE_USABLE" "unat (mr_base r) = unat (e820_base e)"
    "unat (mr_base r) + unat (mr_length r) \<le> unat (e820_base e) + unat (e820_length e)"
    "unat (mr_base r) + unat (mr_length r) \<le> 2 ^ 32"
    "(unat (mr_base r) + unat (mr_length r)) mod 2 ^ 32
       = min (unat (e820_base e) + unat (e820_length e)) (2 ^ 32) mod 2 ^ 32"
proof -
  let ?b = "e820_base e" and ?l = "e820_length e"
  let ?e = "if ?b + ?l > GIB4 then GIB4 else ?b + ?l"
  have g: "e820_type e = E820_TYPE_USABLE" "?b < ?b + ?l" "?b < GIB4"
    and r: "r = \<lparr>mr_base = ucast ?b, mr_length = ucast (?e - ?b)\<rparr>"
    using assms by (auto simp: usable_region_def Let_def split: if_splits)
  show "e820_type e = E820_TYPE_USABLE" by (rule g(1))
  have b32: "unat ?b < 2 ^ 32" using g(3) by (simp add: word_less_nat_alt)
  have nw: "unat (?b + ?l) = unat ?b + unat ?l"
    using g(2) by (metis less_imp_le no_olen_add_nat unat_plus_simple word_le_nat_alt)
  have be: "?b \<le> ?e" using g(2,3) by auto
  have e: "unat ?e = min (unat ?b + unat ?l) (2 ^ 32)"
    using nw by (auto simp: word_less_nat_alt min_def)
  have base: "unat (mr_base r) = unat ?b" using b32 by (simp add: r unsigned_ucast_eq take_bit_nat_eq_self_iff)
  then show "unat (mr_base r) = unat ?b" .
  have len: "unat (mr_length r) = (unat ?e - unat ?b) mod 2 ^ 32"
    using be by (simp add: r unsigned_ucast_eq take_bit_eq_mod unat_sub)
  have le: "unat (mr_length r) \<le> unat ?e - unat ?b" unfolding len by simp
  have "unat ?b \<le> unat ?e" using be by (simp add: word_le_nat_alt)
  then show "unat (mr_base r) + unat (mr_length r) \<le> unat ?b + unat ?l"
    "unat (mr_base r) + unat (mr_length r) \<le> 2 ^ 32"
    using le e unfolding base by simp_all
  show "(unat (mr_base r) + unat (mr_length r)) mod 2 ^ 32 = min (unat ?b + unat ?l) (2 ^ 32) mod 2 ^ 32"
    using \<open>unat ?b \<le> unat ?e\<close> unfolding base len e [symmetric] by (simp add: mod_add_right_eq)
qed

text \<open>
  Every region of \<^verbatim>\<open>bootinfo_get_usable_regions\<close> is part of a usable entry of the memory map: it starts where
  the entry starts and ends neither behind the entry nor behind the 32-bit address space; at most as
  many are returned as the caller has room for.
\<close>

theorem bootinfo_regions_usable:
  "length (bootinfo_get_usable_regions entries n mx) \<le> mx
   \<and> list_all (\<lambda>r. list_ex (\<lambda>e. e820_type e = E820_TYPE_USABLE \<and> unat (mr_base r) = unat (e820_base e)
        \<and> unat (mr_base r) + unat (mr_length r) \<le> min (unat (e820_base e) + unat (e820_length e)) (2 ^ 32)) entries)
      (bootinfo_get_usable_regions entries n mx)"
proof -
  have "\<exists>e \<in> set entries. usable_region e = Some r"
    if "r \<in> set (bootinfo_get_usable_regions entries n mx)" for r
    using that by (force simp: bootinfo_get_usable_regions_def List.map_filter_def dest!: in_set_takeD)
  then have "\<exists>e \<in> set entries. e820_type e = E820_TYPE_USABLE \<and> unat (mr_base r) = unat (e820_base e)
      \<and> unat (mr_base r) + unat (mr_length r) \<le> min (unat (e820_base e) + unat (e820_length e)) (2 ^ 32)"
    if "r \<in> set (bootinfo_get_usable_regions entries n mx)" for r
    using that usable_region_inside(1-4) [of _ r] unfolding min.bounded_iff by blast
  moreover have "length (bootinfo_get_usable_regions entries n mx) \<le> mx"
    by (simp add: bootinfo_get_usable_regions_def)
  ultimately show ?thesis by (simp only: list_all_iff list_ex_iff) blast
qed

text \<open>
  A usable region that reaches the end of the 32-bit address space is lost: \<^verbatim>\<open>bootinfo\<close> cuts it at four GiB, and
  in \<^verbatim>\<open>pmm_init\<close> the sum of base and length then wraps to zero, so the region is skipped.
\<close>

theorem pmm_drops_region_at_top:
  assumes "usable_region e = Some r" "2 ^ 32 \<le> unat (e820_base e) + unat (e820_length e)"
  shows "add_region st r = st"
proof -
  have "(unat (mr_base r) + unat (mr_length r)) mod 2 ^ 32 = 0"
    using usable_region_inside(5) [OF assms(1)] assms(2) by simp
  then have "unat (mr_base r + mr_length r) = 0" by (simp add: unat_word_ariths)
  then have "mr_base r + mr_length r = 0" by (simp add: unat_eq_0)
  then show ?thesis by (simp add: add_region_def)
qed

theorem pmm_drops_region_at_top_witness:
  "\<exists>r. usable_region \<lparr>base_low = 0x00100000, base_high = 0, length_low = 0, length_high = 1, e820_type = 1\<rparr> = Some r
    \<and> add_region pmm_blank r = pmm_blank"
proof -
  let ?e = "\<lparr>base_low = 0x00100000, base_high = 0, length_low = 0, length_high = 1, e820_type = 1\<rparr>"
  obtain r where r: "usable_region ?e = Some r"
    by (simp add: usable_region_def e820_base_def e820_length_def)
  have "2 ^ 32 \<le> unat (e820_base ?e) + unat (e820_length ?e)"
    by (simp add: e820_base_def e820_length_def)
  with r pmm_drops_region_at_top [OF r] show ?thesis by blast
qed

end
