(* ===== verification/Paging.thy ===== *)
theory Paging
  imports Phys_Memory Kernel_Heap Video_Mode "HOL-Library.Monad_Syntax"
begin

unbundle bit_operations_syntax

text \<open>
  Paging, \<^verbatim>\<open>src/mem/paging.c\<close>, and the parts of the start that set up the address space:
  the page loop of \<open>heap_init\<close> (\<^verbatim>\<open>src/mem/heap.c\<close>) and the mapping of the graphics memory and the
  order of the calls in \<open>kmain\<close> (\<^verbatim>\<open>src/core/kernel.c\<close>).

  Physical memory is a function from the addresses of aligned words to their values.  An access of
  the kernel goes through the page tables of the processor (\<open>mmu_walk\<close>) once paging is on, so the
  writes of \<open>paging_map_page\<close> to the tables reach them only where the tables themselves are mapped.
  \<open>None\<close> is a panic or a page fault, which halt the machine.  The tables are walked at every
  access: the translation cache that \<open>paging_reload_directory\<close> empties is not modelled.
\<close>

section \<open>The processor\<close>

abbreviation PAGE_PRESENT :: u32 where "PAGE_PRESENT \<equiv> 1"
abbreviation PAGE_WRITABLE :: u32 where "PAGE_WRITABLE \<equiv> 2"
abbreviation PAGE_MASK :: u32 where "PAGE_MASK \<equiv> 0xFFFFF000"

record paging =
  pg_phys :: "u32 \<Rightarrow> u32"
  pg_cr3 :: u32
  pg_on :: bool
  page_directory :: u32
  pg_pmm :: pmm_state

definition pd_index :: "u32 \<Rightarrow> u32" where
  "pd_index a = drop_bit 22 a"

definition pt_index :: "u32 \<Rightarrow> u32" where
  "pt_index a = drop_bit 12 a AND 0x3FF"

definition mmu_walk :: "(u32 \<Rightarrow> u32) \<Rightarrow> u32 \<Rightarrow> u32 \<Rightarrow> u32 option" where
  "mmu_walk phys cr3 a =
     (let pde = phys ((cr3 AND PAGE_MASK) + 4 * pd_index a) in
      if pde AND PAGE_PRESENT = 0 then None
      else let pte = phys ((pde AND PAGE_MASK) + 4 * pt_index a) in
      if pte AND PAGE_PRESENT = 0 then None else Some ((pte AND PAGE_MASK) OR (a AND 0xFFF)))"

definition page_access :: "paging \<Rightarrow> u32 \<Rightarrow> u32 option" where
  "page_access st a = (if pg_on st then mmu_walk (pg_phys st) (pg_cr3 st) a else Some a)"

definition page_load :: "paging \<Rightarrow> u32 \<Rightarrow> u32 option" where
  "page_load st a = map_option (pg_phys st) (page_access st a)"

definition page_store :: "paging \<Rightarrow> u32 \<Rightarrow> u32 \<Rightarrow> paging option" where
  "page_store st a v = map_option (\<lambda>p. st\<lparr>pg_phys := (pg_phys st)(p := v)\<rparr>) (page_access st a)"

section \<open>The page tables\<close>

primrec memset32 :: "paging \<Rightarrow> u32 \<Rightarrow> u32 \<Rightarrow> nat \<Rightarrow> paging option" where
  "memset32 st ptr v 0 = Some st"
| "memset32 st ptr v (Suc i) = do { s \<leftarrow> memset32 st ptr v i; page_store s (ptr + 4 * of_nat i) v }"

definition new_table :: "paging \<Rightarrow> u32 \<Rightarrow> paging option" where
  "new_table st virtual_addr = do {
     (table_phys, pm) \<leftarrow> pmm_alloc_frame (pg_pmm st);
     s \<leftarrow> memset32 (st\<lparr>pg_pmm := pm\<rparr>) table_phys 0 1024;
     page_store s (page_directory s + 4 * pd_index virtual_addr) (table_phys OR PAGE_PRESENT OR PAGE_WRITABLE)
   }"

definition paging_map_page :: "paging \<Rightarrow> u32 \<Rightarrow> u32 \<Rightarrow> u32 \<Rightarrow> paging option" where
  "paging_map_page st virtual_addr physical_addr flags =
     (if page_directory st = 0 then None
      else do {
        pde \<leftarrow> page_load st (page_directory st + 4 * pd_index virtual_addr);
        s \<leftarrow> (if pde AND PAGE_PRESENT = 0 then new_table st virtual_addr else Some st);
        table \<leftarrow> page_load s (page_directory s + 4 * pd_index virtual_addr);
        page_store s ((table AND PAGE_MASK) + 4 * pt_index virtual_addr)
          ((physical_addr AND PAGE_MASK) OR (flags AND 0xFFF) OR PAGE_PRESENT)
      })"

definition paging_reload_directory :: "paging \<Rightarrow> paging" where
  "paging_reload_directory st = st\<lparr>pg_cr3 := page_directory st\<rparr>"

text \<open>The loops over addresses: they count in 32 bits, so one may in principle never end.\<close>

partial_function (option) identity_loop :: "paging \<Rightarrow> u32 \<Rightarrow> u32 \<Rightarrow> paging option" where
  "identity_loop st addr stop =
     (if addr < stop
      then do { s \<leftarrow> paging_map_page st addr addr PAGE_WRITABLE; identity_loop s (addr + 4096) stop }
      else Some st)"

definition paging_init_identity :: "paging \<Rightarrow> u32 \<Rightarrow> paging option" where
  "paging_init_identity st limit_addr = do {
     (dir_phys, pm) \<leftarrow> pmm_alloc_frame (pg_pmm st);
     s \<leftarrow> memset32 (st\<lparr>pg_pmm := pm, page_directory := dir_phys\<rparr>) dir_phys 0 1024;
     s' \<leftarrow> identity_loop s 0 (page_floor (limit_addr + 4096 - 1));
     Some (s'\<lparr>pg_cr3 := page_directory s', pg_on := True\<rparr>)
   }"

section \<open>The users of the tables\<close>

partial_function (option) heap_page_loop :: "paging \<Rightarrow> u32 \<Rightarrow> u32 \<Rightarrow> paging option" where
  "heap_page_loop st addr stop =
     (if addr < stop
      then do {
        (frame, pm) \<leftarrow> pmm_alloc_frame (pg_pmm st);
        s \<leftarrow> paging_map_page (st\<lparr>pg_pmm := pm\<rparr>) addr frame 0x002;
        heap_page_loop s (addr + 4096) stop
      }
      else Some st)"

definition heap_init_pages :: "paging \<Rightarrow> u32 \<Rightarrow> u32 \<Rightarrow> (paging \<times> heap_state) option" where
  "heap_init_pages st heap_start heap_size = do {
     s \<leftarrow> heap_page_loop st heap_start (heap_start + align_up heap_size 4096);
     Some (paging_reload_directory s, heap_init heap_start heap_size)
   }"

abbreviation HEAP_START :: u32 where "HEAP_START \<equiv> 0x01000000"
abbreviation HEAP_SIZE :: u32 where "HEAP_SIZE \<equiv> 1024 * 1024"
abbreviation IDENTITY_MAP_LIMIT :: u32 where "IDENTITY_MAP_LIMIT \<equiv> 0x02000000"

definition map_graphics_framebuffer_if_needed :: "video_state \<Rightarrow> paging \<Rightarrow> paging option" where
  "map_graphics_framebuffer_if_needed vd st =
     (let fb = vd_fb vd in
      if vd_mode vd \<noteq> VIDEO_MODE_GRAPHICS \<or> fb_phys fb = 0 \<or> fb_pitch fb = 0 \<or> fb_height fb = 0 \<or> fb_bpp fb \<noteq> 8
      then Some st
      else let start = fb_phys fb AND PAGE_MASK;
               stop = (fb_phys fb + fb_pitch fb * fb_height fb + 0xFFF) AND PAGE_MASK in
      if stop \<le> IDENTITY_MAP_LIMIT then Some st
      else do { s \<leftarrow> identity_loop st start stop; Some (paging_reload_directory s) })"

text \<open>The first part of \<open>kmain\<close>: the memory of the machine is set up.\<close>

definition blank_paging :: "(u32 \<Rightarrow> u32) \<Rightarrow> u32 \<Rightarrow> pmm_state \<Rightarrow> paging" where
  "blank_paging phys cr3 pm = \<lparr>pg_phys = phys, pg_cr3 = cr3, pg_on = False, page_directory = 0, pg_pmm = pm\<rparr>"

definition kmain_memory ::
  "video_state \<Rightarrow> e820_entry list \<Rightarrow> nat \<Rightarrow> u32 \<Rightarrow> u32 \<Rightarrow> (u32 \<Rightarrow> u32) \<Rightarrow> u32 \<Rightarrow> (paging \<times> heap_state) option" where
  "kmain_memory vd e820_map e820_count kernel_start kernel_end phys cr3 = do {
     pm \<leftarrow> pmm_init (bootinfo_get_usable_regions e820_map e820_count E820_MAX_ENTRIES) kernel_start kernel_end;
     st1 \<leftarrow> paging_init_identity (blank_paging phys cr3 pm) IDENTITY_MAP_LIMIT;
     st2 \<leftarrow> map_graphics_framebuffer_if_needed vd st1;
     heap_init_pages st2 HEAP_START HEAP_SIZE
   }"

section \<open>Frames and entries\<close>

text \<open>The word of entry \<open>i\<close> of the table in frame \<open>f\<close>.\<close>

definition frame_of :: "u32 \<Rightarrow> nat" where
  "frame_of a = unat (drop_bit 12 a)"

definition tbl_word :: "nat \<Rightarrow> nat \<Rightarrow> u32" where
  "tbl_word f i = of_nat (f * 4096 + 4 * i)"

definition present :: "u32 \<Rightarrow> bool" where
  "present e \<longleftrightarrow> e AND PAGE_PRESENT \<noteq> 0"

lemma unat_value: "unat a = n \<Longrightarrow> a = of_nat n"
  by (drule sym) simp

lemma frame_of_div: "frame_of a = unat a div 4096"
  by (simp add: frame_of_def drop_bit_eq_div unat_div)

lemma frame_of_less: "frame_of a < 2 ^ 20"
proof -
  have "unat a < 2 ^ 32" using unsigned_less [of a] by simp
  then show ?thesis unfolding frame_of_div by (simp add: div_less_iff_less_mult)
qed

lemma page_mask: "a AND PAGE_MASK = page_floor a"
proof -
  have "(PAGE_MASK :: u32) + 4096 = 0" by simp
  then have "(PAGE_MASK :: u32) = - 4096" by (simp only: eq_neg_iff_add_eq_0)
  moreover have "NOT (4096 - 1 :: u32) = - 4096" by (simp add: not_eq_complement)
  ultimately show ?thesis unfolding page_floor_def by (simp only:)
qed

lemma page_base: "a AND PAGE_MASK = frame_addr (frame_of a)"
proof -
  have "unat (a AND PAGE_MASK) = frame_of a * 4096"
    unfolding page_mask page_floor_eq frame_of_div ..
  then have "a AND PAGE_MASK = of_nat (frame_of a * 4096)" by (rule unat_value)
  then show ?thesis by (simp add: frame_addr_def)
qed

lemma pd_index_eq: "pd_index a = of_nat (frame_of a div 1024)"
proof -
  have "unat (pd_index a) = frame_of a div 1024"
    unfolding pd_index_def frame_of_div by (simp add: drop_bit_eq_div unat_div div_mult2_eq [symmetric])
  then show ?thesis by (rule unat_value)
qed

lemma pt_index_eq: "pt_index a = of_nat (frame_of a mod 1024)"
proof -
  have m: "(0x3FF :: u32) = mask 10" by (simp add: mask_eq_exp_minus_1)
  have "unat (pt_index a) = frame_of a mod 1024"
    unfolding pt_index_def frame_of_def m by (simp add: take_bit_eq_mask [symmetric] take_bit_eq_mod unat_mod)
  then show ?thesis by (rule unat_value)
qed

lemma dir_entry: "frame_addr f + 4 * pd_index a = tbl_word f (frame_of a div 1024)"
  by (simp add: frame_addr_def tbl_word_def pd_index_eq)

lemma table_entry: "frame_addr f + 4 * pt_index a = tbl_word f (frame_of a mod 1024)"
  by (simp add: frame_addr_def tbl_word_def pt_index_eq)

lemma unat_tbl_word: "f < 2 ^ 20 \<Longrightarrow> i < 1024 \<Longrightarrow> unat (tbl_word f i) = f * 4096 + 4 * i"
proof -
  assume a: "f < 2 ^ 20" "i < 1024"
  have "(f * 4096 + 4 * i) mod 2 ^ 32 = f * 4096 + 4 * i" by (rule mod_less) (use a in simp)
  then show ?thesis unfolding tbl_word_def unat_of_nat by simp
qed

lemma tbl_word_inj: "f < 2 ^ 20 \<Longrightarrow> g < 2 ^ 20 \<Longrightarrow> i < 1024 \<Longrightarrow> j < 1024 \<Longrightarrow> tbl_word f i = tbl_word g j \<longleftrightarrow> f = g \<and> i = j"
proof
  assume b: "f < 2 ^ 20" "g < 2 ^ 20" "i < 1024" "j < 1024" and e: "tbl_word f i = tbl_word g j"
  have q: "f * 4096 + 4 * i = g * 4096 + 4 * j" using unat_tbl_word [OF b(1,3)] unat_tbl_word [OF b(2,4)] e by simp
  have "(f * 4096 + 4 * i) div 4096 = f" "(g * 4096 + 4 * j) div 4096 = g" using b by simp_all
  then have "f = g" unfolding q by simp
  with q show "f = g \<and> i = j" by simp
qed simp

lemma frame_of_tbl_word: "f < 2 ^ 20 \<Longrightarrow> i < 1024 \<Longrightarrow> frame_of (tbl_word f i) = f"
  by (simp add: frame_of_div unat_tbl_word)

lemma frame_of_addr: "f < 2 ^ 20 \<Longrightarrow> frame_of (frame_addr f) = f"
  using frame_of_tbl_word [of f 0] by (simp add: tbl_word_def frame_addr_def)

lemma drop_low: "drop_bit 12 (x AND 0xFFF :: u32) = 0"
proof -
  have m: "(0xFFF :: u32) = mask 12" by (simp add: mask_eq_exp_minus_1)
  show ?thesis unfolding m by (rule bit_word_eqI) (auto simp: bit_simps)
qed

lemma frame_of_or: "drop_bit 12 x = 0 \<Longrightarrow> frame_of (a OR x) = frame_of a"
  by (simp add: frame_of_def drop_bit_or)

lemma present_bit: "present w \<longleftrightarrow> bit w 0"
  by (simp add: present_def and_one_eq bit_0 not_mod_2_eq_0_eq_1 odd_iff_mod_2_eq_one)

lemma present_or [simp]: "present (a OR b) \<longleftrightarrow> present a \<or> present b" "present 1" "present 3" "\<not> present 0"
  by (simp_all add: present_bit bit_or_iff)

lemma new_pde: "f < 2 ^ 20 \<Longrightarrow> frame_of (frame_addr f OR 3) = f"
  by (simp add: frame_of_or frame_of_addr)

lemma new_pte: "frame_of ((p AND PAGE_MASK) OR (x AND 0xFFF) OR PAGE_PRESENT) = frame_of p"
  unfolding page_base by (simp add: frame_of_or drop_bit_or drop_low frame_of_addr [OF frame_of_less])

lemma page_offset: "(e AND PAGE_MASK) OR (a AND 0xFFF) = of_nat (frame_of e * 4096 + unat a mod 4096)"
proof -
  have m: "(0xFFF :: u32) = mask 12" "(PAGE_MASK :: u32) = NOT (mask 12)" by (simp_all add: mask_eq_exp_minus_1)
  have "(e AND PAGE_MASK) AND (a AND 0xFFF) = 0" unfolding m by (rule bit_word_eqI) (auto simp: bit_simps)
  then have "(e AND PAGE_MASK) OR (a AND 0xFFF) = (e AND PAGE_MASK) + (a AND 0xFFF)"
    by (rule disjunctive_add_eq_or [symmetric])
  moreover have "a AND 0xFFF = of_nat (unat a mod 4096)"
  proof -
    have "unat (a AND 0xFFF) = unat a mod 4096" unfolding m by (simp add: take_bit_eq_mask [symmetric] take_bit_eq_mod unat_mod)
    then show ?thesis by (rule unat_value)
  qed
  ultimately show ?thesis by (simp add: page_base frame_addr_def)
qed

section \<open>The address space as a map of pages\<close>

definition page_map :: "(u32 \<Rightarrow> u32) \<Rightarrow> nat \<Rightarrow> nat \<Rightarrow> nat option" where
  "page_map phys d v =
     (if v < 2 ^ 20 \<and> present (phys (tbl_word d (v div 1024))) then
        let pte = phys (tbl_word (frame_of (phys (tbl_word d (v div 1024)))) (v mod 1024)) in
        if present pte then Some (frame_of pte) else None
      else None)"

lemma mmu_walk_map:
  "mmu_walk phys cr3 a
     = map_option (\<lambda>f. of_nat (f * 4096 + unat a mod 4096)) (page_map phys (frame_of cr3) (frame_of a))"
  unfolding mmu_walk_def page_map_def Let_def page_offset page_base dir_entry table_entry
  using frame_of_less [of a]
  by (simp add: present_def page_offset [unfolded page_base] frame_of_addr [OF frame_of_less] del: of_nat_add of_nat_mult)

end
