(* ===== verification/Paging_Inv.thy ===== *)
theory Paging_Inv
  imports Paging
begin

unbundle bit_operations_syntax

text \<open>
  What the page tables keep true: the directory and the tables are distinct frames that the frame
  allocator has handed out, and once paging is on they are mapped to themselves, so the kernel can
  reach them.  Under this invariant \<open>paging_map_page\<close> is the update of a map from pages to frames.
\<close>

section \<open>The tables\<close>

definition dir_frame :: "paging \<Rightarrow> nat" where
  "dir_frame st = frame_of (page_directory st)"

definition vmap :: "paging \<Rightarrow> nat \<Rightarrow> nat option" where
  "vmap st = page_map (pg_phys st) (dir_frame st)"

definition pde :: "paging \<Rightarrow> nat \<Rightarrow> u32" where
  "pde st i = pg_phys st (tbl_word (dir_frame st) i)"

definition used_entries :: "paging \<Rightarrow> nat set" where
  "used_entries st = {i. i < 1024 \<and> present (pde st i)}"

definition table_of :: "paging \<Rightarrow> nat \<Rightarrow> nat" where
  "table_of st i = frame_of (pde st i)"

definition tables :: "paging \<Rightarrow> nat set" where
  "tables st = insert (dir_frame st) (table_of st ` used_entries st)"

definition pg_free :: "paging \<Rightarrow> nat set" where
  "pg_free st = free_frames (pg_pmm st)"

definition reach :: "paging \<Rightarrow> nat \<Rightarrow> bool" where
  "reach st f \<longleftrightarrow> f < 2 ^ 20 \<and> (pg_on st \<longrightarrow> pg_cr3 st = page_directory st \<and> vmap st f = Some f)"

definition paging_ok :: "paging \<Rightarrow> bool" where
  "paging_ok st \<longleftrightarrow> bitmap_ok (pg_pmm st) \<and> page_directory st = frame_addr (dir_frame st) \<and> page_directory st \<noteq> 0
     \<and> tables st \<inter> pg_free st = {} \<and> dir_frame st \<notin> table_of st ` used_entries st
     \<and> inj_on (table_of st) (used_entries st) \<and> (\<forall>f \<in> tables st. reach st f)"

definition lowest :: "paging \<Rightarrow> nat \<Rightarrow> bool" where
  "lowest st f \<longleftrightarrow> f \<in> pg_free st \<and> (\<forall>g \<in> pg_free st. f \<le> g)"

lemma tables_less: "f \<in> tables st \<Longrightarrow> f < 2 ^ 20"
  using frame_of_less by (auto simp: tables_def dir_frame_def table_of_def)

lemma free_less: "f \<in> pg_free st \<Longrightarrow> f < 2 ^ 16"
  by (simp add: pg_free_def free_frames_def)

lemma finite_used [simp]: "finite (used_entries st)"
  by (simp add: used_entries_def)

lemma vmap_alt:
  "vmap st v =
     (if v < 2 ^ 20 \<and> v div 1024 \<in> used_entries st then
        let pte = pg_phys st (tbl_word (table_of st (v div 1024)) (v mod 1024)) in
        if present pte then Some (frame_of pte) else None
      else None)"
  by (simp add: vmap_def page_map_def used_entries_def pde_def table_of_def less_mult_imp_div_less Let_def)

lemma same_words:
  assumes "page_directory s = page_directory st"
    and "\<And>f i. f \<in> tables st \<Longrightarrow> i < 1024 \<Longrightarrow> pg_phys s (tbl_word f i) = pg_phys st (tbl_word f i)"
  shows "pde s i = (if i < 1024 then pde st i else pde s i)" "used_entries s = used_entries st" "vmap s = vmap st" "tables s = tables st"
    "table_of s ` used_entries s = table_of st ` used_entries st"
    "inj_on (table_of s) (used_entries s) = inj_on (table_of st) (used_entries st)"
proof -
  have d: "dir_frame s = dir_frame st" using assms(1) by (simp add: dir_frame_def)
  have p: "i < 1024 \<Longrightarrow> pde s i = pde st i" for i
    using assms(2) [of "dir_frame st" i] by (simp add: pde_def d tables_def)
  then show "pde s i = (if i < 1024 then pde st i else pde s i)" by simp
  show u: "used_entries s = used_entries st" using p by (auto simp: used_entries_def)
  have t: "i \<in> used_entries st \<Longrightarrow> table_of s i = table_of st i" for i
    using p by (simp add: table_of_def used_entries_def)
  show im: "table_of s ` used_entries s = table_of st ` used_entries st" unfolding u using t by (rule image_cong [OF refl])
  then show "tables s = tables st" by (simp add: tables_def d)
  show "inj_on (table_of s) (used_entries s) = inj_on (table_of st) (used_entries st)"
    unfolding u using t by (rule inj_on_cong)
  show "vmap s = vmap st"
  proof
    fix v
    show "vmap s v = vmap st v"
      unfolding vmap_alt u using t assms(2) [of "table_of st (v div 1024)" "v mod 1024"]
      by (auto simp: tables_def)
  qed
qed

lemma access_word:
  assumes "reach st f" "i < 1024"
  shows "page_access st (tbl_word f i) = Some (tbl_word f i)"
proof (cases "pg_on st")
  case True
  have f: "f < 2 ^ 20" "pg_cr3 st = page_directory st" "vmap st f = Some f"
    using assms(1) True by (auto simp: reach_def)
  have "unat (tbl_word f i) mod 4096 = 4 * i" using unat_tbl_word [OF f(1) assms(2)] assms(2) by simp
  then show ?thesis
    using True f frame_of_tbl_word [OF f(1) assms(2)]
    by (simp add: page_access_def mmu_walk_map vmap_def dir_frame_def tbl_word_def)
qed (simp add: page_access_def)

lemma load_word: "reach st f \<Longrightarrow> i < 1024 \<Longrightarrow> page_load st (tbl_word f i) = Some (pg_phys st (tbl_word f i))"
  by (simp add: page_load_def access_word)

lemma store_word:
  "reach st f \<Longrightarrow> i < 1024 \<Longrightarrow> page_store st (tbl_word f i) v = Some (st\<lparr>pg_phys := (pg_phys st)(tbl_word f i := v)\<rparr>)"
  by (simp add: page_store_def access_word)

section \<open>A fresh table\<close>

definition set_words :: "(u32 \<Rightarrow> u32) \<Rightarrow> nat \<Rightarrow> nat \<Rightarrow> u32 \<Rightarrow> u32 \<Rightarrow> u32" where
  "set_words phys f n v = (\<lambda>a. if a \<in> tbl_word f ` {..<n} then v else phys a)"

lemma set_words_other:
  "f < 2 ^ 20 \<Longrightarrow> g < 2 ^ 20 \<Longrightarrow> n \<le> 1024 \<Longrightarrow> i < 1024 \<Longrightarrow> g \<noteq> f \<Longrightarrow> set_words phys f n v (tbl_word g i) = phys (tbl_word g i)"
  by (auto simp: set_words_def dest!: tbl_word_inj [THEN iffD1, rotated 4])

lemma set_words_in: "i < n \<Longrightarrow> set_words phys f n v (tbl_word f i) = v"
  by (auto simp: set_words_def)

lemma memset32_frame:
  assumes "reach st f" "pg_on st \<Longrightarrow> f \<notin> tables st" "n \<le> 1024"
  shows "memset32 st (frame_addr f) v n = Some (st\<lparr>pg_phys := set_words (pg_phys st) f n v\<rparr>)"
  using assms(3)
proof (induction n)
  case 0
  then show ?case by (simp add: set_words_def)
next
  case (Suc n)
  let ?s = "st\<lparr>pg_phys := set_words (pg_phys st) f n v\<rparr>"
  have f: "f < 2 ^ 20" using assms(1) by (simp add: reach_def)
  have "pg_on st \<Longrightarrow> vmap ?s = vmap st"
    by (rule same_words(3)) (use assms(2) Suc.prems f tables_less in \<open>auto intro!: set_words_other\<close>)
  then have "reach ?s f" using assms(1) by (auto simp: reach_def)
  then have st: "page_store ?s (tbl_word f n) v = Some (?s\<lparr>pg_phys := (pg_phys ?s)(tbl_word f n := v)\<rparr>)"
    using Suc.prems by (intro store_word) simp_all
  have a: "frame_addr f + 4 * of_nat n = tbl_word f n" by (simp add: frame_addr_def tbl_word_def)
  have "(set_words (pg_phys st) f n v)(tbl_word f n := v) = set_words (pg_phys st) f (Suc n) v"
    by (auto simp: set_words_def fun_eq_iff lessThan_Suc)
  then show ?case using Suc st by (simp add: a)
qed


lemma alloc_lowest:
  assumes "bitmap_ok (pg_pmm st)" "lowest st f"
  shows "\<exists>pm. pmm_alloc_frame (pg_pmm st) = Some (frame_addr f, pm) \<and> free_frames pm = pg_free st - {f} \<and> bitmap_ok pm"
proof -
  obtain a pm where al: "pmm_alloc_frame (pg_pmm st) = Some (a, pm)"
    using assms(2) alloc_None_iff [of "pg_pmm st"] by (cases "pmm_alloc_frame (pg_pmm st)") (auto simp: lowest_def pg_free_def)
  then obtain g where g: "g \<in> pg_free st" "a = frame_addr g" "pm = (bitmap_set (pg_pmm st) g)\<lparr>pmm_used_bytes := pmm_used_bytes (pg_pmm st) + 4096\<rparr>"
      "\<forall>h \<in> pg_free st. g \<le> h"
    unfolding pg_free_def by (rule alloc_cases)
  have "g = f" using g(1,4) assms(2) by (auto simp: lowest_def intro: antisym)
  moreover have "free_frames pm = pg_free st - {g}" "bitmap_ok pm"
    using free_frames_set [OF assms(1), of g] free_less [OF g(1)] assms(1) by (simp_all add: g(3) pg_free_def)
  ultimately show ?thesis using al g(2) by blast
qed

lemma dir_in_tables [simp]: "dir_frame st \<in> tables st"
  by (simp add: tables_def)

lemma table_in_tables: "i \<in> used_entries st \<Longrightarrow> table_of st i \<in> tables st"
  by (simp add: tables_def)

lemma paging_okD:
  assumes "paging_ok st"
  shows "bitmap_ok (pg_pmm st)" "page_directory st = frame_addr (dir_frame st)" "page_directory st \<noteq> 0"
    "f \<in> tables st \<Longrightarrow> f \<notin> pg_free st" "i \<in> used_entries st \<Longrightarrow> table_of st i \<noteq> dir_frame st"
    "f \<in> tables st \<Longrightarrow> reach st f"
    "i \<in> used_entries st \<Longrightarrow> j \<in> used_entries st \<Longrightarrow> table_of st i = table_of st j \<longleftrightarrow> i = j"
  using assms by (auto simp: paging_ok_def dest: inj_onD) (metis imageI)

definition adds_table :: "paging \<Rightarrow> nat \<Rightarrow> nat \<Rightarrow> paging \<Rightarrow> bool" where
  "adds_table st p f s \<longleftrightarrow> paging_ok s \<and> vmap s = vmap st \<and> used_entries s = insert p (used_entries st)
     \<and> tables s = insert f (tables st) \<and> pg_free s = pg_free st - {f} \<and> table_of s p = f
     \<and> pg_on s = pg_on st \<and> page_directory s = page_directory st"

lemma table_linked:
  assumes ok: "paging_ok st" and p: "p < 1024" "p \<notin> used_entries st" and f: "f \<in> pg_free st" "reach st f"
    and pm: "free_frames pm = pg_free st - {f}" "bitmap_ok pm"
    and s: "s = st\<lparr>pg_pmm := pm, pg_phys := (set_words (pg_phys st) f 1024 0)(tbl_word (dir_frame st) p := frame_addr f OR PAGE_PRESENT OR PAGE_WRITABLE)\<rparr>"
  shows "adds_table st p f s"
proof -
  let ?d = "dir_frame st"
  have f20: "f < 2 ^ 20" using f(2) by (simp add: reach_def)
  have ft: "f \<notin> tables st" using paging_okD(4) [OF ok] f(1) by blast
  have d: "dir_frame s = ?d" by (simp add: s dir_frame_def)
  have words: "g \<in> tables st \<Longrightarrow> i < 1024 \<Longrightarrow> (g, i) \<noteq> (?d, p) \<Longrightarrow> pg_phys s (tbl_word g i) = pg_phys st (tbl_word g i)" for g i
  proof -
    assume g: "g \<in> tables st" "i < 1024" "(g, i) \<noteq> (?d, p)"
    then have "g \<noteq> f" "g < 2 ^ 20" "?d < 2 ^ 20" using ft tables_less [of g st] tables_less [of ?d st] by auto
    then show ?thesis using g(2,3) f20 p(1) set_words_other [of f g 1024 i] by (auto simp: s tbl_word_inj)
  qed
  have zero: "i < 1024 \<Longrightarrow> pg_phys s (tbl_word f i) = 0" for i
    using ft f20 tables_less [of ?d st] p(1) dir_in_tables [of st] by (auto simp: s set_words_in tbl_word_inj simp del: dir_in_tables)
  have pd: "i < 1024 \<Longrightarrow> pde s i = (if i = p then frame_addr f OR PAGE_PRESENT OR PAGE_WRITABLE else pde st i)" for i
    using words [of ?d i] by (auto simp: pde_def d) (simp add: s)
  have u: "used_entries s = insert p (used_entries st)" using p(1) pd by (auto simp: used_entries_def)
  have t: "i \<in> used_entries s \<Longrightarrow> table_of s i = (if i = p then f else table_of st i)" for i
    using pd [of i] f20 by (auto simp: table_of_def used_entries_def new_pde)
  have im: "table_of s ` used_entries s = insert f (table_of st ` used_entries st)"
    using t p(2) by (auto simp: u image_iff)
  have tb: "tables s = insert f (tables st)" unfolding tables_def d im by blast
  have pp: "present 0 = False" by (simp add: present_def)
  have vm: "vmap s v = vmap st v" for v
  proof (cases "v < 2 ^ 20 \<and> v div 1024 \<in> used_entries s")
    case True
    show ?thesis
    proof (cases "v div 1024 = p")
      case True
      then show ?thesis using p(2) t [of p] zero [of "v mod 1024"] pp by (simp add: vmap_alt u)
    next
      case False
      then have i: "v div 1024 \<in> used_entries st" using True u by simp
      then have "pg_phys s (tbl_word (table_of st (v div 1024)) (v mod 1024)) = pg_phys st (tbl_word (table_of st (v div 1024)) (v mod 1024))"
        using words [of "table_of st (v div 1024)" "v mod 1024"] table_in_tables [OF i] paging_okD(5) [OF ok i] by simp
      then show ?thesis using True False i t [of "v div 1024"] by (simp add: vmap_alt u)
    qed
  next
    case False
    then show ?thesis by (auto simp: vmap_alt u)
  qed
  have rs: "reach s g = reach st g" for g by (simp add: reach_def vm) (simp add: s)
  have "paging_ok s"
    unfolding paging_ok_def
  proof (intro conjI)
    show "inj_on (table_of s) (used_entries s)"
      using t ft table_in_tables [of _ st] paging_okD(7) [OF ok] p(2) unfolding u by (intro inj_onI) (auto split: if_splits)
    show "dir_frame s \<notin> table_of s ` used_entries s" unfolding im d using ft paging_okD(5) [OF ok] dir_in_tables [of st] by fastforce
    show "\<forall>g\<in>tables s. reach s g" unfolding tb rs using paging_okD(6) [OF ok] f(2) by blast
    show "tables s \<inter> pg_free s = {}" unfolding tb using paging_okD(4) [OF ok] pm(1) by (auto simp: s pg_free_def)
  qed (use paging_okD(2,3) [OF ok] pm(2) d in \<open>simp_all add: s\<close>)
  then show ?thesis using vm u tb pm(1) t [of p] by (auto simp: adds_table_def pg_free_def s)
qed

lemma new_table_adds:
  assumes ok: "paging_ok st" and p: "frame_of va div 1024 \<notin> used_entries st" and f: "lowest st f" "reach st f"
  shows "\<exists>s. new_table st va = Some s \<and> adds_table st (frame_of va div 1024) f s"
proof -
  let ?d = "dir_frame st" and ?p = "frame_of va div 1024"
  have p1: "?p < 1024" using frame_of_less [of va] by (simp add: less_mult_imp_div_less)
  have ff: "f \<in> pg_free st" using f(1) by (simp add: lowest_def)
  then have ft: "f \<notin> tables st" using paging_okD(4) [OF ok] by blast
  obtain pm where al: "pmm_alloc_frame (pg_pmm st) = Some (frame_addr f, pm)" "free_frames pm = pg_free st - {f}" "bitmap_ok pm"
    using alloc_lowest [OF paging_okD(1) [OF ok] f(1)] by blast
  define s1 where "s1 = st\<lparr>pg_pmm := pm\<rparr>"
  define s2 where "s2 = s1\<lparr>pg_phys := set_words (pg_phys st) f 1024 0\<rparr>"
  have sw: "tables s1 = tables st" "vmap s1 = vmap st" "dir_frame s1 = ?d"
    using same_words(3,4) [of s1 st] by (simp_all add: s1_def dir_frame_def)
  have "reach s1 f" using f(2) sw by (simp add: reach_def s1_def)
  then have ms: "memset32 s1 (frame_addr f) 0 1024 = Some s2"
    using memset32_frame [of s1 f 1024 0] ft sw(1) by (simp add: s2_def) (simp add: s1_def)
  have "vmap s2 = vmap st"
    by (rule same_words(3))
       (use ft f(2) tables_less in \<open>auto simp: s2_def s1_def reach_def intro!: set_words_other\<close>)
  moreover have "reach st ?d" using paging_okD(6) [OF ok, of ?d] by simp
  ultimately have "reach s2 ?d" by (auto simp: reach_def s2_def s1_def)
  then have "page_store s2 (tbl_word ?d ?p) w = Some (s2\<lparr>pg_phys := (pg_phys s2)(tbl_word ?d ?p := w)\<rparr>)" for w
    using store_word p1 by blast
  moreover have "page_directory s2 + 4 * pd_index va = tbl_word ?d ?p"
    using paging_okD(2) [OF ok] by (simp add: s2_def s1_def dir_entry)
  ultimately have "new_table st va = Some (s2\<lparr>pg_phys := (pg_phys s2)(tbl_word ?d ?p := frame_addr f OR PAGE_PRESENT OR PAGE_WRITABLE)\<rparr>)"
    using al(1) ms by (simp add: new_table_def s1_def)
  then show ?thesis
    using table_linked [OF ok p1 p ff f(2) al(2,3) refl] by (simp add: s2_def s1_def)
qed


section \<open>Mapping a page\<close>

lemma entry_set:
  assumes ok: "paging_ok st" and i: "v div 1024 \<in> used_entries st" "v < 2 ^ 20" and e: "present e"
    and safe: "pg_on st \<Longrightarrow> v \<notin> tables st \<or> frame_of e = v"
    and s: "s = st\<lparr>pg_phys := (pg_phys st)(tbl_word (table_of st (v div 1024)) (v mod 1024) := e)\<rparr>"
  shows "paging_ok s" "vmap s = (vmap st)(v \<mapsto> frame_of e)" "used_entries s = used_entries st" "tables s = tables st"
    "pg_free s = pg_free st" "pg_on s = pg_on st" "page_directory s = page_directory st"
proof -
  let ?t = "table_of st (v div 1024)"
  have t: "?t \<in> tables st" "?t \<noteq> dir_frame st" "?t < 2 ^ 20"
    using table_in_tables [OF i(1)] paging_okD(5) [OF ok i(1)] tables_less by auto
  have d: "dir_frame s = dir_frame st" by (simp add: s dir_frame_def)
  have pd: "j < 1024 \<Longrightarrow> pde s j = pde st j" for j
    using t tables_less [OF dir_in_tables [of st]] by (simp add: pde_def d) (auto simp: s tbl_word_inj)
  show u: "used_entries s = used_entries st" using pd by (auto simp: used_entries_def)
  have tb: "j \<in> used_entries st \<Longrightarrow> table_of s j = table_of st j" for j
    using pd by (simp add: table_of_def used_entries_def)
  then have im: "table_of s ` used_entries s = table_of st ` used_entries st" unfolding u by (rule image_cong [OF refl])
  show tt: "tables s = tables st" by (simp add: tables_def d im)
  have vm: "vmap s w = ((vmap st)(v \<mapsto> frame_of e)) w" for w
  proof (cases "w < 2 ^ 20 \<and> w div 1024 \<in> used_entries st")
    case True
    let ?q = "table_of st (w div 1024)"
    have q: "?q < 2 ^ 20" using table_in_tables [of "w div 1024" st] True tables_less by blast
    have "tbl_word ?q (w mod 1024) = tbl_word ?t (v mod 1024) \<longleftrightarrow> w div 1024 = v div 1024 \<and> w mod 1024 = v mod 1024"
      using tbl_word_inj [OF q t(3)] paging_okD(7) [OF ok _ i(1)] True by simp
    also have "\<dots> \<longleftrightarrow> w = v" by (metis div_mult_mod_eq)
    finally have w: "pg_phys s (tbl_word ?q (w mod 1024)) = (if w = v then e else pg_phys st (tbl_word ?q (w mod 1024)))"
      by (auto simp: s)
    then show ?thesis using True i e tb [of "w div 1024"] by (auto simp: vmap_alt u)
  next
    case False
    then show ?thesis using i by (auto simp: vmap_alt u)
  qed
  then show "vmap s = (vmap st)(v \<mapsto> frame_of e)" by blast
  show o: "pg_on s = pg_on st" "page_directory s = page_directory st" "pg_free s = pg_free st" by (simp_all add: s pg_free_def)
  have "f \<in> tables st \<Longrightarrow> reach s f" for f
    using paging_okD(6) [OF ok, of f] safe vm [of f] by (auto simp: reach_def o) (simp_all add: s)
  moreover have "inj_on (table_of s) (used_entries s)"
    using paging_okD(7) [OF ok] tb unfolding u by (intro inj_onI) auto
  ultimately show "paging_ok s"
    using ok u s unfolding paging_ok_def o tt im d by (metis paging.select_convs(5) paging.surjective paging.update_convs(1))
qed

text \<open>The frame that \<open>paging_map_page\<close> takes when the page has no table yet.\<close>

definition can_map :: "paging \<Rightarrow> nat \<Rightarrow> nat \<Rightarrow> bool" where
  "can_map st v p \<longleftrightarrow> (v div 1024 \<in> used_entries st \<or> (\<exists>f. lowest st f \<and> reach st f))
     \<and> (pg_on st \<longrightarrow> v \<notin> tables st \<or> p = v)"

definition mapped :: "paging \<Rightarrow> nat \<Rightarrow> nat \<Rightarrow> paging \<Rightarrow> bool" where
  "mapped st v p s \<longleftrightarrow> paging_ok s \<and> vmap s = (vmap st)(v \<mapsto> p) \<and> used_entries s = insert (v div 1024) (used_entries st)
     \<and> pg_on s = pg_on st \<and> page_directory s = page_directory st
     \<and> (if v div 1024 \<in> used_entries st then tables s = tables st \<and> pg_free s = pg_free st
        else \<exists>f. lowest st f \<and> tables s = insert f (tables st) \<and> pg_free s = pg_free st - {f})"

lemma map_page_mapped:
  assumes ok: "paging_ok st" and can: "can_map st (frame_of va) (frame_of pa)"
  shows "\<exists>s. paging_map_page st va pa flags = Some s \<and> mapped st (frame_of va) (frame_of pa) s"
proof -
  let ?v = "frame_of va" and ?e = "(pa AND PAGE_MASK) OR (flags AND 0xFFF) OR PAGE_PRESENT"
  have v: "?v < 2 ^ 20" "?v div 1024 < 1024" using frame_of_less [of va] by (simp_all add: less_mult_imp_div_less)
  define s1 where "s1 = (if pde st (?v div 1024) AND PAGE_PRESENT = 0 then new_table st va else Some st)"
  have pu: "?v div 1024 \<in> used_entries st \<longleftrightarrow> pde st (?v div 1024) AND PAGE_PRESENT \<noteq> 0"
    using v by (simp add: used_entries_def present_def)
  have "\<exists>s. s1 = Some s \<and> paging_ok s \<and> ?v div 1024 \<in> used_entries s \<and> vmap s = vmap st
      \<and> (pg_on s \<longrightarrow> ?v \<notin> tables s \<or> frame_of pa = ?v) \<and> used_entries s = insert (?v div 1024) (used_entries st)
      \<and> pg_on s = pg_on st \<and> page_directory s = page_directory st
      \<and> (if ?v div 1024 \<in> used_entries st then tables s = tables st \<and> pg_free s = pg_free st
         else \<exists>f. lowest st f \<and> tables s = insert f (tables st) \<and> pg_free s = pg_free st - {f})"
  proof (cases "?v div 1024 \<in> used_entries st")
    case True
    then show ?thesis using ok can pu by (auto simp: s1_def can_map_def)
  next
    case False
    then obtain f where f: "lowest st f" "reach st f" using can by (auto simp: can_map_def)
    obtain s where s: "new_table st va = Some s" "adds_table st (?v div 1024) f s"
      using new_table_adds [OF ok False f] by blast
    have "vmap st ?v = None" using False by (simp add: vmap_alt)
    then have "pg_on st \<Longrightarrow> ?v \<noteq> f" using f(2) by (auto simp: reach_def)
    then show ?thesis using s f(1) False can pu by (auto simp: s1_def adds_table_def can_map_def)
  qed
  then obtain s where s: "s1 = Some s" "paging_ok s" "?v div 1024 \<in> used_entries s" "vmap s = vmap st"
      "pg_on s \<Longrightarrow> ?v \<notin> tables s \<or> frame_of pa = ?v" "used_entries s = insert (?v div 1024) (used_entries st)"
      "pg_on s = pg_on st" "page_directory s = page_directory st"
      "if ?v div 1024 \<in> used_entries st then tables s = tables st \<and> pg_free s = pg_free st
         else \<exists>f. lowest st f \<and> tables s = insert f (tables st) \<and> pg_free s = pg_free st - {f}" by blast
  have a: "page_directory st + 4 * pd_index va = tbl_word (dir_frame st) (?v div 1024)"
      "page_directory s + 4 * pd_index va = tbl_word (dir_frame s) (?v div 1024)"
    using paging_okD(2) [OF ok] paging_okD(2) [OF s(2)] dir_entry by metis+
  have l: "page_load st (tbl_word (dir_frame st) (?v div 1024)) = Some (pde st (?v div 1024))"
      "page_load s (tbl_word (dir_frame s) (?v div 1024)) = Some (pde s (?v div 1024))"
    using load_word paging_okD(6) [OF ok dir_in_tables] paging_okD(6) [OF s(2) dir_in_tables] v(2) by (auto simp: pde_def)
  let ?t = "table_of s (?v div 1024)"
  have b: "(pde s (?v div 1024) AND PAGE_MASK) + 4 * pt_index va = tbl_word ?t (?v mod 1024)"
    unfolding page_base table_entry table_of_def ..
  have st: "page_store s (tbl_word ?t (?v mod 1024)) ?e = Some (s\<lparr>pg_phys := (pg_phys s)(tbl_word ?t (?v mod 1024) := ?e)\<rparr>)"
    by (rule store_word) (use paging_okD(6) [OF s(2) table_in_tables [OF s(3)]] in auto)
  have e: "frame_of ?e = frame_of pa" "present ?e" by (rule new_pte) simp
  note E = entry_set [OF s(2,3) v(1) e(2) _ refl]
  let ?s = "s\<lparr>pg_phys := (pg_phys s)(tbl_word ?t (?v mod 1024) := ?e)\<rparr>"
  have "paging_map_page st va pa flags = Some ?s"
    using paging_okD(3) [OF ok] s(1) l b st unfolding paging_map_page_def a s1_def by (simp add: a(2))
  moreover have "mapped st ?v (frame_of pa) ?s"
    using E s unfolding mapped_def e(1) by (simp split: if_splits)
  ultimately show ?thesis by blast
qed

end
