(* ===== verification/Paging_Boot.thy ===== *)
theory Paging_Boot
  imports Paging_Inv
begin

unbundle bit_operations_syntax

text \<open>
  The loops that fill the page tables at the start: the identity map, the graphics memory and the
  heap.  A budget of free frames below a bound \<open>N\<close> pays for every table that a loop may need, so
  the loops neither panic nor fault, and what they leave is a map of pages that can be written down.
\<close>

section \<open>The budget\<close>

definition low_free :: "nat \<Rightarrow> paging \<Rightarrow> nat set" where
  "low_free N st = {f \<in> pg_free st. f < N}"

definition room :: "nat \<Rightarrow> nat \<Rightarrow> paging \<Rightarrow> bool" where
  "room N k st \<longleftrightarrow> 1024 + k \<le> card (used_entries st) + card (low_free N st)"

definition low_identity :: "nat \<Rightarrow> paging \<Rightarrow> bool" where
  "low_identity N st \<longleftrightarrow> N \<le> 2 ^ 20 \<and> (pg_on st \<longrightarrow> (\<forall>f < N. vmap st f = Some f))"

lemma finite_low [simp]: "finite (low_free N st)"
  by (simp add: low_free_def)

lemma card_used: "card (used_entries st) \<le> 1024" "i < 1024 \<Longrightarrow> i \<notin> used_entries st \<Longrightarrow> card (used_entries st) < 1024"
proof -
  have "used_entries st \<subseteq> {..<1024}" by (auto simp: used_entries_def)
  from card_mono [OF _ this] show "card (used_entries st) \<le> 1024" by simp
  assume "i < 1024" "i \<notin> used_entries st"
  then have "used_entries st \<subset> {..<1024}" by (auto simp: used_entries_def)
  from psubset_card_mono [OF _ this] show "card (used_entries st) < 1024" by simp
qed

lemma room_low: "room N k st \<Longrightarrow> k \<le> card (low_free N st)"
  using card_used(1) [of st] by (simp add: room_def)

lemma lowest_exists:
  assumes "0 < card (low_free N st)"
  shows "\<exists>f. lowest st f \<and> f < N"
proof -
  have ne: "low_free N st \<noteq> {}" using assms by (auto simp: card_gt_0_iff)
  then have m: "Min (low_free N st) \<in> low_free N st" by (intro Min_in) simp_all
  moreover have "\<forall>g \<in> pg_free st. Min (low_free N st) \<le> g"
  proof
    fix g assume "g \<in> pg_free st"
    then show "Min (low_free N st) \<le> g"
      using m by (cases "g < N") (auto simp: low_free_def intro: Min_le)
  qed
  ultimately show ?thesis by (auto simp: lowest_def low_free_def)
qed

lemma cr3_ok: "paging_ok st \<Longrightarrow> pg_on st \<Longrightarrow> pg_cr3 st = page_directory st"
  using paging_okD(6) [of st "dir_frame st"] by (simp add: reach_def)

lemma reach_low: "paging_ok st \<Longrightarrow> low_identity N st \<Longrightarrow> f < N \<Longrightarrow> reach st f"
  using cr3_ok by (auto simp: reach_def low_identity_def)

text \<open>With the budget, a page can be mapped to itself, and the budget stays.\<close>

lemma mapped_budget:
  assumes m: "mapped st v p s" and v: "v < 2 ^ 20" and r: "room N k st"
  shows "room N k s" "tables s \<subseteq> tables st \<union> {..<N}" "tables st \<subseteq> tables s" "pg_free s \<subseteq> pg_free st" "pg_on s = pg_on st"
    "used_entries st \<subseteq> used_entries s"
proof -
  have v1: "v div 1024 < 1024" using v by (simp add: less_mult_imp_div_less)
  have u: "used_entries s = insert (v div 1024) (used_entries st)" "pg_on s = pg_on st" using m by (simp_all add: mapped_def)
  then show "pg_on s = pg_on st" "used_entries st \<subseteq> used_entries s" by auto
  have "room N k s \<and> tables s \<subseteq> tables st \<union> {..<N} \<and> tables st \<subseteq> tables s \<and> pg_free s \<subseteq> pg_free st"
  proof (cases "v div 1024 \<in> used_entries st")
    case True
    then show ?thesis using m r u by (auto simp: mapped_def room_def low_free_def insert_absorb)
  next
    case False
    then obtain f where f: "lowest st f" "tables s = insert f (tables st)" "pg_free s = pg_free st - {f}"
      using m by (auto simp: mapped_def)
    have "0 < card (low_free N st)" using r card_used(2) [OF v1 False] by (simp add: room_def)
    then obtain g where g: "lowest st g" "g < N" using lowest_exists by blast
    then have fN: "f < N" "f \<in> low_free N st" using f(1) by (auto simp: lowest_def low_free_def dest: bspec intro: le_less_trans)
    have "low_free N s = low_free N st - {f}" by (auto simp: low_free_def f(3))
    then have "card (low_free N st) = Suc (card (low_free N s))" using card.remove [OF finite_low fN(2)] by simp
    moreover have "card (used_entries s) = Suc (card (used_entries st))" using False by (simp add: u)
    ultimately show ?thesis using r fN(1) f(2,3) by (auto simp: room_def)
  qed
  then show "room N k s" "tables s \<subseteq> tables st \<union> {..<N}" "tables st \<subseteq> tables s" "pg_free s \<subseteq> pg_free st" by auto
qed

lemma can_map_self:
  assumes "paging_ok st" "room N k st" "low_identity N st" "v < 2 ^ 20"
  shows "can_map st v v"
proof (cases "v div 1024 \<in> used_entries st")
  case False
  have v1: "v div 1024 < 1024" using assms(4) by (simp add: less_mult_imp_div_less)
  have "0 < card (low_free N st)" using assms(2) card_used(2) [OF v1 False] by (simp add: room_def)
  then show ?thesis using lowest_exists reach_low [OF assms(1,3)] by (auto simp: can_map_def)
qed (simp add: can_map_def)

section \<open>The identity loop\<close>

lemma addr_less: "a < 2 ^ 20 \<Longrightarrow> b < 2 ^ 20 \<Longrightarrow> frame_addr a < frame_addr b \<longleftrightarrow> a < b"
  by (simp add: word_less_nat_alt frame_addr_def unat_of_nat del: of_nat_mult)

lemma addr_next: "frame_addr a + 4096 = frame_addr (Suc a)"
  by (simp add: frame_addr_def)

definition maps_run :: "paging \<Rightarrow> nat \<Rightarrow> nat \<Rightarrow> paging \<Rightarrow> bool" where
  "maps_run st a b s \<longleftrightarrow> paging_ok s \<and> vmap s = (\<lambda>v. if a \<le> v \<and> v < b then Some v else vmap st v)
     \<and> pg_on s = pg_on st \<and> pg_free s \<subseteq> pg_free st \<and> used_entries st \<subseteq> used_entries s"

lemma identity_loop_maps:
  assumes "paging_ok st" "room N k st" "low_identity N st" "a \<le> b" "b < 2 ^ 20"
  shows "\<exists>s. identity_loop st (frame_addr a) (frame_addr b) = Some s \<and> maps_run st a b s
    \<and> room N k s \<and> low_identity N s \<and> tables s \<subseteq> tables st \<union> {..<N}"
  using assms
proof (induction "b - a" arbitrary: st a)
  case 0
  then show ?case
    by (intro exI [of _ st]) (auto simp: identity_loop.simps [of st] maps_run_def fun_eq_iff)
next
  case (Suc n)
  have a: "a < b" "a < 2 ^ 20" "Suc a \<le> b" using Suc.hyps(2) Suc.prems(5) by simp_all
  have fa: "frame_of (frame_addr a) = a" using a(2) by (rule frame_of_addr)
  obtain s where s: "paging_map_page st (frame_addr a) (frame_addr a) PAGE_WRITABLE = Some s" "mapped st a a s"
    using map_page_mapped [OF Suc.prems(1), of "frame_addr a" "frame_addr a"] can_map_self [OF Suc.prems(1-3) a(2)]
    unfolding fa by blast
  note B = mapped_budget [OF s(2) a(2) Suc.prems(2)]
  have vm: "vmap s = (vmap st)(a \<mapsto> a)" "paging_ok s" using s(2) by (simp_all add: mapped_def)
  have li: "low_identity N s" using Suc.prems(3) by (auto simp: low_identity_def vm B(5))
  obtain t where t: "identity_loop s (frame_addr (Suc a)) (frame_addr b) = Some t" "maps_run s (Suc a) b t"
      "room N k t" "low_identity N t" "tables t \<subseteq> tables s \<union> {..<N}"
    using Suc.hyps(1) [of "Suc a" s, OF _ vm(2) B(1) li a(3) Suc.prems(5)] Suc.hyps(2) by fastforce
  have "identity_loop st (frame_addr a) (frame_addr b) = Some t"
    using s(1) t(1) a addr_less [OF a(2) Suc.prems(5)] by (simp add: identity_loop.simps [of st] addr_next)
  moreover have "maps_run st a b t"
    using t(2) B a(1) unfolding maps_run_def vm by (auto simp: fun_eq_iff)
  ultimately show ?case using t B(2) by blast
qed

section \<open>Paging is switched on\<close>

lemma dir_blank:
  assumes "f < 2 ^ 20" "f \<noteq> 0" "bitmap_ok pm" "f \<notin> free_frames pm" "f < PMM_MAX_FRAMES"
    and "st = \<lparr>pg_phys = set_words phys f 1024 0, pg_cr3 = cr3, pg_on = False, page_directory = frame_addr f, pg_pmm = pm\<rparr>"
  shows "paging_ok st" "vmap st = Map.empty" "used_entries st = {}" "tables st = {f}"
proof -
  have d: "dir_frame st = f" using assms(1) by (simp add: assms(6) dir_frame_def frame_of_addr)
  have "i < 1024 \<Longrightarrow> pde st i = 0" for i unfolding pde_def d by (simp add: assms(6) set_words_in)
  then show u: "used_entries st = {}" by (auto simp: used_entries_def)
  then show "vmap st = Map.empty" "tables st = {f}" by (auto simp: vmap_alt tables_def d)
  have "frame_addr f \<noteq> 0" using frame_addr_inj [OF assms(5), of 0] assms(2) by (simp add: frame_addr_def)
  then show "paging_ok st"
    using assms(1,3,4) unfolding paging_ok_def d u tables_def by (simp add: assms(6) pg_free_def reach_def)
qed

text \<open>The address space right after \<open>paging_init_identity\<close>.\<close>

definition identity_space :: "nat \<Rightarrow> paging \<Rightarrow> bool" where
  "identity_space n st \<longleftrightarrow> paging_ok st \<and> pg_on st \<and> vmap st = (\<lambda>v. if v < n then Some v else None)"

lemma init_identity_maps:
  assumes pm: "bitmap_ok pm" "0 \<notin> free_frames pm" and k: "1025 + k \<le> card {f \<in> free_frames pm. f < N}" and N: "N \<le> n"
    and n: "n = (unat limit_addr + 4095) div 4096" "unat limit_addr + 4095 < 2 ^ 32"
  shows "\<exists>s. paging_init_identity (blank_paging phys cr3 pm) limit_addr = Some s \<and> identity_space n s
    \<and> room N k s \<and> tables s \<subseteq> {..<N} \<and> pg_free s \<subseteq> free_frames pm"
proof -
  let ?b = "blank_paging phys cr3 pm"
  have n20: "n < 2 ^ 20" unfolding n(1) using n(2) by (simp add: less_mult_imp_div_less)
  have fb: "pg_free ?b = free_frames pm" by (simp add: pg_free_def blank_paging_def)
  have lb: "low_free N ?b = {f \<in> free_frames pm. f < N}" by (simp add: low_free_def fb)
  have "0 < card (low_free N ?b)" unfolding lb using k by linarith
  then obtain f where f: "lowest ?b f" "f < N" using lowest_exists by blast
  have ff: "f \<in> free_frames pm" using f(1) by (simp add: lowest_def fb)
  have f20: "f < 2 ^ 20" "f \<noteq> 0" "f < PMM_MAX_FRAMES" using ff pm(2) by (auto simp: free_frames_def intro!: gr0I)
  obtain pm' where al: "pmm_alloc_frame pm = Some (frame_addr f, pm')" "free_frames pm' = free_frames pm - {f}" "bitmap_ok pm'"
    using alloc_lowest [of ?b f] f(1) pm(1) fb by (auto simp: blank_paging_def)
  define s0 where "s0 = ?b\<lparr>pg_pmm := pm', page_directory := frame_addr f\<rparr>"
  define s1 where "s1 = s0\<lparr>pg_phys := set_words phys f 1024 0\<rparr>"
  have ms: "memset32 s0 (frame_addr f) 0 1024 = Some s1"
    using memset32_frame [of s0 f 1024 0] f20 by (simp add: s1_def s0_def blank_paging_def reach_def)
  have s1: "s1 = \<lparr>pg_phys = set_words phys f 1024 0, pg_cr3 = cr3, pg_on = False, page_directory = frame_addr f, pg_pmm = pm'\<rparr>"
    by (simp add: s1_def s0_def blank_paging_def)
  note D = dir_blank [OF f20(1,2) al(3) _ f20(3) s1]
  have D': "paging_ok s1" "vmap s1 = Map.empty" "used_entries s1 = {}" "tables s1 = {f}" using D al(2) by auto
  have "low_free N s1 = {f \<in> free_frames pm. f < N} - {f}" by (auto simp: low_free_def pg_free_def s1 al(2))
  then have "room N k s1"
    using card.remove [of "{f \<in> free_frames pm. f < N}" f] ff f(2) k by (simp add: room_def D'(3))
  moreover have "low_identity N s1" using N n20 by (simp add: low_identity_def s1)
  ultimately obtain s where s: "identity_loop s1 (frame_addr 0) (frame_addr n) = Some s" "maps_run s1 0 n s"
      "room N k s" "tables s \<subseteq> tables s1 \<union> {..<N}"
    using identity_loop_maps [OF D'(1) _ _ _ n20, of N k 0] by auto
  have lim: "page_floor (limit_addr + 4096 - 1) = frame_addr n"
    unfolding n(1) frame_addr_def by (rule unat_value [OF page_ceil_eq [OF n(2)]])
  let ?s = "s\<lparr>pg_cr3 := page_directory s, pg_on := True\<rparr>"
  have sw: "used_entries ?s = used_entries s" "vmap ?s = vmap s" "tables ?s = tables s"
      "table_of ?s ` used_entries ?s = table_of s ` used_entries s" "inj_on (table_of ?s) (used_entries ?s) = inj_on (table_of s) (used_entries s)"
    by (rule same_words; simp)+
  have vm: "vmap s = (\<lambda>v. if v < n then Some v else None)" using s(2) D'(2) by (auto simp: maps_run_def)
  have tb: "tables s \<subseteq> {..<N}" using s(4) D'(4) f(2) by auto
  have "\<forall>g \<in> tables s. reach ?s g" using tb N n20 unfolding reach_def sw vm by auto
  moreover have "paging_ok s" using s(2) by (simp add: maps_run_def)
  moreover have d: "dir_frame ?s = dir_frame s" "pg_free ?s = pg_free s" "page_directory ?s = page_directory s" "pg_pmm ?s = pg_pmm s"
    by (simp_all add: dir_frame_def pg_free_def)
  ultimately have "paging_ok ?s" unfolding paging_ok_def sw(3-5) d by blast
  moreover have "paging_init_identity ?b limit_addr = Some ?s"
    using al(1) ms s(1) lim by (simp add: paging_init_identity_def s0_def) (simp add: blank_paging_def frame_addr_def)
  moreover have "room N k ?s" using s(3) sw by (simp add: room_def low_free_def pg_free_def)
  moreover have "pg_free ?s \<subseteq> free_frames pm" using s(2) al(2) by (auto simp: maps_run_def pg_free_def s1)
  ultimately show ?thesis using vm tb sw by (auto simp: identity_space_def)
qed

end
