(* ===== verification/Paging_Props.thy ===== *)
theory Paging_Props
  imports Paging_Boot
begin

unbundle bit_operations_syntax

text \<open>
  The address space after the start: the heap pages lie on frames of their own, and everything else
  the kernel touches is mapped to itself.
\<close>

section \<open>The heap pages\<close>

lemma frame_taken:
  assumes ok: "paging_ok st" and f: "f \<in> pg_free st" and pm: "free_frames pm = pg_free st - {f}" "bitmap_ok pm"
  shows "paging_ok (st\<lparr>pg_pmm := pm\<rparr>)" "vmap (st\<lparr>pg_pmm := pm\<rparr>) = vmap st" "tables (st\<lparr>pg_pmm := pm\<rparr>) = tables st"
    "used_entries (st\<lparr>pg_pmm := pm\<rparr>) = used_entries st" "pg_free (st\<lparr>pg_pmm := pm\<rparr>) = pg_free st - {f}"
proof -
  let ?s = "st\<lparr>pg_pmm := pm\<rparr>"
  have d: "page_directory ?s = page_directory st" "dir_frame ?s = dir_frame st" "pg_pmm ?s = pm" by (simp_all add: dir_frame_def)
  have sw: "used_entries ?s = used_entries st" "vmap ?s = vmap st" "tables ?s = tables st"
      "table_of ?s ` used_entries ?s = table_of st ` used_entries st" "inj_on (table_of ?s) (used_entries ?s) = inj_on (table_of st) (used_entries st)"
    by (rule same_words; simp)+
  then show "vmap ?s = vmap st" "tables ?s = tables st" "used_entries ?s = used_entries st" by blast+
  show fr: "pg_free ?s = pg_free st - {f}" by (simp add: pg_free_def pm(1))
  have "reach ?s g = reach st g" for g by (simp add: reach_def sw)
  then show "paging_ok ?s" using ok pm(2) unfolding paging_ok_def sw(3-5) d fr by blast
qed

definition heap_run :: "paging \<Rightarrow> nat \<Rightarrow> nat \<Rightarrow> nat list \<Rightarrow> paging \<Rightarrow> bool" where
  "heap_run st a b fs s \<longleftrightarrow> paging_ok s \<and> length fs = b - a \<and> distinct fs \<and> pg_free s = pg_free st - set fs
     \<and> vmap s = (\<lambda>v. if a \<le> v \<and> v < b then Some (fs ! (v - a)) else vmap st v)
     \<and> tables s = tables st \<and> pg_on s = pg_on st \<and> page_directory s = page_directory st"

lemma heap_page_loop_maps:
  assumes "paging_ok st" "b - a \<le> card (low_free N st)" "a \<le> b" "b < 2 ^ 20"
    and "\<And>v. a \<le> v \<Longrightarrow> v < b \<Longrightarrow> v div 1024 \<in> used_entries st \<and> v \<notin> tables st"
  shows "\<exists>fs s. heap_page_loop st (frame_addr a) (frame_addr b) = Some s \<and> heap_run st a b fs s \<and> set fs \<subseteq> low_free N st"
  using assms
proof (induction "b - a" arbitrary: st a)
  case 0
  then show ?case
    by (intro exI [of _ "[]"] exI [of _ st]) (auto simp: heap_page_loop.simps [of st] heap_run_def fun_eq_iff)
next
  case (Suc n)
  have a: "a < b" "a < 2 ^ 20" "Suc a \<le> b" using Suc.hyps(2) Suc.prems(4) by simp_all
  have "0 < card (low_free N st)" using Suc.prems(2) a(1) by linarith
  then obtain f where f: "lowest st f" "f < N" using lowest_exists by blast
  have ff: "f \<in> pg_free st" "f \<in> low_free N st" using f by (auto simp: lowest_def low_free_def)
  have f20: "f < 2 ^ 20" using free_less [OF ff(1)] by simp
  obtain pm where al: "pmm_alloc_frame (pg_pmm st) = Some (frame_addr f, pm)" "free_frames pm = pg_free st - {f}" "bitmap_ok pm"
    using alloc_lowest [OF paging_okD(1) [OF Suc.prems(1)] f(1)] by blast
  let ?s = "st\<lparr>pg_pmm := pm\<rparr>"
  note T = frame_taken [OF Suc.prems(1) ff(1) al(2,3)]
  have v: "a div 1024 \<in> used_entries ?s" "a \<notin> tables ?s" using Suc.prems(5) [of a] a(1) T(3,4) by simp_all
  then have "can_map ?s a f" by (simp add: can_map_def)
  then obtain s where s: "paging_map_page ?s (frame_addr a) (frame_addr f) 0x002 = Some s" "mapped ?s a f s"
    using map_page_mapped [OF T(1), of "frame_addr a" "frame_addr f"] frame_of_addr a(2) f20 by metis
  have m: "paging_ok s" "vmap s = (vmap st)(a \<mapsto> f)" "used_entries s = used_entries st" "tables s = tables st"
      "pg_free s = pg_free st - {f}" "pg_on s = pg_on st" "page_directory s = page_directory st"
    using s(2) v(1) T(2-5) by (auto simp: mapped_def insert_absorb)
  have ls: "low_free N s = low_free N st - {f}" by (auto simp: low_free_def m(5))
  have "card (low_free N st) = Suc (card (low_free N s))" unfolding ls using card.remove [OF finite_low ff(2)] by simp
  then have c: "b - Suc a \<le> card (low_free N s)" using Suc.prems(2) by linarith
  have u: "Suc a \<le> w \<Longrightarrow> w < b \<Longrightarrow> w div 1024 \<in> used_entries s \<and> w \<notin> tables s" for w
    using Suc.prems(5) [of w] m(3,4) by simp
  have n: "n = b - Suc a" using Suc.hyps(2) by simp
  obtain fs t where t: "heap_page_loop s (frame_addr (Suc a)) (frame_addr b) = Some t" "heap_run s (Suc a) b fs t"
      "set fs \<subseteq> low_free N s"
    using Suc.hyps(1) [OF n m(1) c a(3) Suc.prems(4) u] by blast
  have "heap_page_loop st (frame_addr a) (frame_addr b) = Some t"
    using s(1) t(1) al(1) addr_less [OF a(2) Suc.prems(4)] a(1) by (simp add: heap_page_loop.simps [of st] addr_next)
  moreover have "heap_run st a b (f # fs) t"
  proof -
    have "(if a \<le> w \<and> w < b then Some ((f # fs) ! (w - a)) else vmap st w)
        = (if Suc a \<le> w \<and> w < b then Some (fs ! (w - Suc a)) else ((vmap st)(a \<mapsto> f)) w)" for w
      using a(1) by (auto simp: nth_Cons')
    moreover have "f \<notin> set fs" using t(3) unfolding ls by blast
    ultimately show ?thesis using t(2) a(1) unfolding heap_run_def m by auto
  qed
  moreover have "set (f # fs) \<subseteq> low_free N st" using t(3) ff(2) unfolding ls by auto
  ultimately show ?case by blast
qed

section \<open>The graphics memory\<close>

definition graphics_pages :: "video_state \<Rightarrow> nat set" where
  "graphics_pages vd =
     (let fb = vd_fb vd in
      if vd_mode vd \<noteq> VIDEO_MODE_GRAPHICS \<or> fb_phys fb = 0 \<or> fb_pitch fb = 0 \<or> fb_height fb = 0 \<or> fb_bpp fb \<noteq> 8 then {}
      else {unat (fb_phys fb) div 4096..<(unat (fb_phys fb) + unat (fb_pitch fb) * unat (fb_height fb) + 4095) div 4096})"

definition graphics_below_top :: "video_state \<Rightarrow> bool" where
  "graphics_below_top vd \<longleftrightarrow>
     unat (fb_phys (vd_fb vd)) + unat (fb_pitch (vd_fb vd)) * unat (fb_height (vd_fb vd)) + 4095 < 2 ^ 32"

lemma limit_frame: "IDENTITY_MAP_LIMIT = frame_addr 8192"
  by (simp add: frame_addr_def)

lemma addr_le: "a < 2 ^ 20 \<Longrightarrow> b < 2 ^ 20 \<Longrightarrow> frame_addr a \<le> frame_addr b \<longleftrightarrow> a \<le> b"
  using addr_less [of b a] by (simp add: not_less [symmetric])

lemma graphics_stop:
  assumes "graphics_below_top vd"
  shows "(fb_phys (vd_fb vd) + fb_pitch (vd_fb vd) * fb_height (vd_fb vd) + 0xFFF) AND PAGE_MASK
    = frame_addr ((unat (fb_phys (vd_fb vd)) + unat (fb_pitch (vd_fb vd)) * unat (fb_height (vd_fb vd)) + 4095) div 4096)"
proof -
  let ?p = "fb_phys (vd_fb vd)" and ?w = "fb_pitch (vd_fb vd)" and ?h = "fb_height (vd_fb vd)"
  have b: "unat ?p + unat ?w * unat ?h + 4095 < 2 ^ 32" using assms by (simp add: graphics_below_top_def)
  have "unat (?w * ?h) = unat ?w * unat ?h" using b unfolding unat_word_ariths by (intro mod_less) simp
  then have "unat (?p + ?w * ?h) = unat ?p + unat ?w * unat ?h" using b by (simp add: unat_word_ariths)
  then have "unat (?p + ?w * ?h + 0xFFF) = unat ?p + unat ?w * unat ?h + 4095" using b by (simp add: unat_word_ariths)
  then show ?thesis unfolding page_base frame_of_div by simp
qed

lemma graphics_mapped:
  assumes sp: "identity_space 8192 st" and r: "room 4096 k st" and t: "tables st \<subseteq> {..<4096}" and g: "graphics_below_top vd"
  shows "\<exists>s. map_graphics_framebuffer_if_needed vd st = Some s \<and> paging_ok s \<and> pg_on s \<and> room 4096 k s
    \<and> tables s \<subseteq> {..<4096} \<and> pg_free s \<subseteq> pg_free st
    \<and> vmap s = (\<lambda>v. if v < 8192 \<or> v \<in> graphics_pages vd then Some v else None)"
proof -
  let ?fb = "vd_fb vd"
  define m where "m = (unat (fb_phys ?fb) + unat (fb_pitch ?fb) * unat (fb_height ?fb) + 4095) div 4096"
  have ok: "paging_ok st" "pg_on st" "vmap st = (\<lambda>v. if v < 8192 then Some v else None)" using sp by (auto simp: identity_space_def)
  have m20: "m < 2 ^ 20" using g unfolding m_def graphics_below_top_def by (simp add: less_mult_imp_div_less)
  let ?a = "unat (fb_phys ?fb) div 4096"
  have a: "?a \<le> m" unfolding m_def by (rule div_le_mono) simp
  have st: "fb_phys ?fb AND PAGE_MASK = frame_addr ?a" unfolding page_base frame_of_div ..
  show ?thesis
  proof (cases "vd_mode vd \<noteq> VIDEO_MODE_GRAPHICS \<or> fb_phys ?fb = 0 \<or> fb_pitch ?fb = 0 \<or> fb_height ?fb = 0 \<or> fb_bpp ?fb \<noteq> 8")
    case True
    then have "map_graphics_framebuffer_if_needed vd st = Some st" "graphics_pages vd = {}"
      unfolding map_graphics_framebuffer_if_needed_def graphics_pages_def Let_def by (simp_all only: if_True)
    then show ?thesis using ok r t by auto
  next
    case False
    then have gp: "graphics_pages vd = {?a..<m}"
      unfolding graphics_pages_def Let_def m_def by (simp only: if_False)
    have mg: "map_graphics_framebuffer_if_needed vd st = (if frame_addr m \<le> IDENTITY_MAP_LIMIT then Some st
        else do { s \<leftarrow> identity_loop st (frame_addr ?a) (frame_addr m); Some (paging_reload_directory s) })"
      using False unfolding map_graphics_framebuffer_if_needed_def Let_def graphics_stop [OF g] m_def [symmetric] st by (simp only: if_False)
    show ?thesis
    proof (cases "m \<le> 8192")
      case True
      then have "map_graphics_framebuffer_if_needed vd st = Some st"
        unfolding mg limit_frame using addr_le [OF m20, of 8192] by simp
      moreover have "v \<in> graphics_pages vd \<Longrightarrow> v < 8192" for v using True by (simp add: gp)
      ultimately show ?thesis using ok r t by (auto simp: fun_eq_iff)
    next
      case False
      have li: "low_identity 4096 st" by (simp add: low_identity_def ok(3))
      obtain s where s: "identity_loop st (frame_addr ?a) (frame_addr m) = Some s" "maps_run st ?a m s" "room 4096 k s"
          "tables s \<subseteq> tables st \<union> {..<4096}"
        using identity_loop_maps [OF ok(1) r li a m20] by blast
      have on: "paging_ok s" "pg_on s" "pg_free s \<subseteq> pg_free st" using s(2) ok(2) by (auto simp: maps_run_def)
      have "paging_reload_directory s = s" using cr3_ok [OF on(1,2)] by (simp add: paging_reload_directory_def)
      then have "map_graphics_framebuffer_if_needed vd st = Some s"
        unfolding mg limit_frame using addr_le [OF m20, of 8192] False s(1) by simp
      moreover have "vmap s = (\<lambda>v. if v < 8192 \<or> v \<in> graphics_pages vd then Some v else None)"
        using s(2) unfolding maps_run_def ok(3) gp by (auto simp: fun_eq_iff)
      ultimately show ?thesis using on s(3,4) t by blast
    qed
  qed
qed


section \<open>Properties\<close>

lemma walk_page:
  "mmu_walk (pg_phys s) (page_directory s) a
     = map_option (\<lambda>f. of_nat (f * 4096 + unat a mod 4096)) (vmap s (unat a div 4096))"
  by (simp add: mmu_walk_map vmap_def dir_frame_def frame_of_div)

lemma page_parts: "(of_nat (unat a div 4096 * 4096 + unat a mod 4096) :: u32) = a"
  by (rule unat_value [symmetric]) simp

definition demo_e820 :: "e820_entry list" where
  "demo_e820 = [\<lparr>base_low = 0x00100000, base_high = 0, length_low = 0x00F00000, length_high = 0, e820_type = 1\<rparr>]"

definition demo_mode13 :: video_state where
  "demo_mode13 = \<lparr>vd_mode = VIDEO_MODE_GRAPHICS, vd_resolution = VIDEO_RES_640X480,
     vd_fb = \<lparr>fb_phys = 0xFD000000, fb_width = 640, fb_height = 480, fb_pitch = 640, fb_bpp = 8\<rparr>\<rparr>"

lemma region_frames_aligned: "region_frames (a * 4096) (b * 4096) = {a..<b}"
proof -
  have "(a * 4096 + k * 4096) div 4096 = a + k" for k
    by (metis add_mult_distrib div_mult_self_is_m zero_less_numeral)
  moreover have "a * 4096 + Suc k * 4096 \<le> b * 4096 \<longleftrightarrow> Suc (a + k) \<le> b" for k by auto
  ultimately have "region_frames (a * 4096) (b * 4096) = {f. \<exists>k. f = a + k \<and> Suc (a + k) \<le> b}"
    unfolding region_frames_def by simp
  also have "\<dots> = {a..<b}" by (auto dest!: le_Suc_ex)
  finally show ?thesis .
qed

lemma demo_memory:
  "\<exists>pm. pmm_init (bootinfo_get_usable_regions demo_e820 1 E820_MAX_ENTRIES) 0x00100000 0x00200000 = Some pm
     \<and> free_frames pm = {512..<4096}"
proof -
  let ?r = "bootinfo_get_usable_regions demo_e820 1 E820_MAX_ENTRIES"
  have r: "?r = [\<lparr>mr_base = 0x00100000, mr_length = 0x00F00000\<rparr>]"
    by (simp add: bootinfo_get_usable_regions_def demo_e820_def List.map_filter_def usable_region_def e820_base_def e820_length_def Let_def)
  have fr: "(\<Union>r \<in> set ?r. frames_of r) = {256..<4096}"
    unfolding r using region_frames_aligned [of 256 4096] by (simp add: frames_of_def)
  have ke: "unat (0x00200000 :: u32) + 4095 < 2 ^ 32" by simp
  have "256 \<in> (\<Union>r \<in> set ?r. frames_of r)" unfolding fr atLeastLessThan_iff by simp
  then have ne: "(\<Union>r \<in> set ?r. frames_of r) \<noteq> {}" by blast
  obtain pm where i: "pmm_init ?r 0x00100000 0x00200000 = Some pm"
    using pmm_init_Some [OF ne ke] by blast
  have e: "unat (0x00100000 :: u32) div 4096 = 256" "(unat (0x00200000 :: u32) + 4095) div 4096 = 512" by simp_all
  have "free_frames pm = {512..<4096}"
    unfolding pmm_init_ok(2) [OF i ke] fr e by (rule set_eqI) (simp only: Diff_iff atLeastLessThan_iff, linarith)
  with i show ?thesis by blast
qed

lemma kernel_address_space_lemma:
  assumes "pmm_init (bootinfo_get_usable_regions e820_map e820_count E820_MAX_ENTRIES) ks ke = Some pm"
    and "unat ke + 4095 < 2 ^ 32" "1281 \<le> card {f \<in> free_frames pm. f < 4096}" "graphics_below_top vd"
  shows "\<exists>st fs. kmain_memory vd e820_map e820_count ks ke phys cr3 = Some (st, heap_init HEAP_START HEAP_SIZE)
    \<and> paging_ok st \<and> pg_on st \<and> length fs = 256 \<and> distinct fs
    \<and> (\<forall>f \<in> set fs. f < 4096 \<and> f \<in> free_frames pm \<and> f \<notin> tables st \<and> f \<notin> pg_free st)
    \<and> (\<forall>a. page_access st a =
         (let v = unat a div 4096 in
          if 4096 \<le> v \<and> v < 4352 then Some (of_nat (fs ! (v - 4096) * 4096 + unat a mod 4096))
          else if v < 8192 \<or> v \<in> graphics_pages vd then Some a else None))"
proof -
  note P = pmm_init_ok [OF assms(1,2)]
  have b: "bitmap_ok pm" "0 \<notin> free_frames pm" using P by (auto simp: pmm_ok_def)
  have n: "8192 = (unat (IDENTITY_MAP_LIMIT :: u32) + 4095) div 4096" "unat (IDENTITY_MAP_LIMIT :: u32) + 4095 < 2 ^ 32" by simp_all
  have k: "1025 + 256 \<le> card {f \<in> free_frames pm. f < 4096}" using assms(3) by simp
  obtain s1 where s1: "paging_init_identity (blank_paging phys cr3 pm) IDENTITY_MAP_LIMIT = Some s1" "identity_space 8192 s1"
      "room 4096 256 s1" "tables s1 \<subseteq> {..<4096}" "pg_free s1 \<subseteq> free_frames pm"
    using init_identity_maps [OF b k _ n, of phys cr3] by auto
  obtain s2 where s2: "map_graphics_framebuffer_if_needed vd s1 = Some s2" "paging_ok s2" "pg_on s2" "room 4096 256 s2"
      "tables s2 \<subseteq> {..<4096}" "pg_free s2 \<subseteq> pg_free s1" "vmap s2 = (\<lambda>v. if v < 8192 \<or> v \<in> graphics_pages vd then Some v else None)"
    using graphics_mapped [OF s1(2-4) assms(4)] by blast
  have u: "v div 1024 \<in> used_entries s2 \<and> v \<notin> tables s2" if "4096 \<le> v" "v < 4352" for v
  proof
    have "vmap s2 v = Some v" using that(2) by (simp add: s2(7))
    then show "v div 1024 \<in> used_entries s2" unfolding vmap_alt by (simp split: if_splits)
  qed (use s2(5) that(1) in auto)
  have c: "4352 - 4096 \<le> card (low_free 4096 s2)" using room_low [OF s2(4)] by simp
  obtain fs s3 where s3: "heap_page_loop s2 (frame_addr 4096) (frame_addr 4352) = Some s3" "heap_run s2 4096 4352 fs s3"
      "set fs \<subseteq> low_free 4096 s2"
    using heap_page_loop_maps [OF s2(2) c _ _ u] by auto
  have r: "paging_ok s3" "pg_on s3" "length fs = 256" "distinct fs" "tables s3 = tables s2" "pg_free s3 = pg_free s2 - set fs"
      "vmap s3 = (\<lambda>v. if 4096 \<le> v \<and> v < 4352 then Some (fs ! (v - 4096)) else vmap s2 v)"
    using s3(2) s2(3) by (auto simp: heap_run_def)
  have adr: "HEAP_START = frame_addr 4096" "HEAP_START + align_up HEAP_SIZE 4096 = frame_addr 4352"
    by (simp_all add: frame_addr_def align_up_def)
  have rl: "paging_reload_directory s3 = s3" using cr3_ok [OF r(1,2)] by (simp add: paging_reload_directory_def)
  have hp: "heap_init_pages s2 HEAP_START HEAP_SIZE = Some (s3, heap_init HEAP_START HEAP_SIZE)"
    unfolding heap_init_pages_def adr(2) unfolding adr(1) by (simp add: s3(1) rl)
  have "kmain_memory vd e820_map e820_count ks ke phys cr3 = Some (s3, heap_init HEAP_START HEAP_SIZE)"
    using assms(1) s1(1) s2(1) hp by (simp add: kmain_memory_def)
  moreover have "\<forall>f \<in> set fs. f < 4096 \<and> f \<in> free_frames pm \<and> f \<notin> tables s3 \<and> f \<notin> pg_free s3"
    using s3(3) s2(6) s1(5) paging_okD(4) [OF s2(2)] unfolding r(5,6) low_free_def by blast
  moreover have "\<forall>a. page_access s3 a = (let v = unat a div 4096 in
          if 4096 \<le> v \<and> v < 4352 then Some (of_nat (fs ! (v - 4096) * 4096 + unat a mod 4096))
          else if v < 8192 \<or> v \<in> graphics_pages vd then Some a else None)"
    unfolding page_access_def using r(2) cr3_ok [OF r(1,2)] page_parts
    by (simp add: walk_page r(7) s2(7) Let_def del: of_nat_add of_nat_mult)
  ultimately show ?thesis using r(1-4) by blast
qed

text \<open>
  C15: With 1281 free frames below the heap, the start sets up the memory without a panic or a page
  fault, and the address space is exactly this: the first 32 MiB and the pages of the graphics memory are mapped to
  themselves, nothing else is mapped, except that the pages of the heap lie on 256 distinct frames below the heap
  that were free, hold no page table and cannot be allocated again.
\<close>

theorem kernel_address_space:
  assumes "pmm_init (bootinfo_get_usable_regions e820_map e820_count E820_MAX_ENTRIES) ks ke = Some pm"
    and "unat ke + 4095 < 2 ^ 32" "1281 \<le> card {f \<in> free_frames pm. f < 4096}" "graphics_below_top vd"
  shows "\<exists>st fs. kmain_memory vd e820_map e820_count ks ke phys cr3 = Some (st, heap_init HEAP_START HEAP_SIZE)
    \<and> paging_ok st \<and> pg_on st \<and> length fs = 256 \<and> distinct fs
    \<and> (\<forall>f \<in> set fs. f < 4096 \<and> f \<in> free_frames pm \<and> f \<notin> tables st \<and> f \<notin> pg_free st)
    \<and> (\<forall>a. page_access st a =
         (let v = unat a div 4096 in
          if 4096 \<le> v \<and> v < 4352 then Some (of_nat (fs ! (v - 4096) * 4096 + unat a mod 4096))
          else if v < 8192 \<or> v \<in> graphics_pages vd then Some a else None))"
  using assms by (rule kernel_address_space_lemma)

theorem kernel_address_space_witness:
  "\<exists>st fs. kmain_memory demo_mode13 demo_e820 1 0x00100000 0x00200000 (\<lambda>a. 0) 0 = Some (st, heap_init HEAP_START HEAP_SIZE)
    \<and> page_access st 0x01FFFFFF = Some 0x01FFFFFF \<and> page_access st 0x02000000 = None
    \<and> page_access st 0xFD04AFFF = Some 0xFD04AFFF \<and> page_access st 0x01001004 = Some (of_nat (fs ! 1 * 4096 + 4)) \<and> fs ! 1 < 4096"
proof -
  obtain pm where pm: "pmm_init (bootinfo_get_usable_regions demo_e820 1 E820_MAX_ENTRIES) 0x00100000 0x00200000 = Some pm"
      "free_frames pm = {512..<4096}" using demo_memory by blast
  have c: "{f \<in> free_frames pm. f < 4096} = {512..<4096}" unfolding pm(2) by auto
  have g: "graphics_below_top demo_mode13" "graphics_pages demo_mode13 = {1036288..<1036363}"
    by (simp_all add: graphics_below_top_def graphics_pages_def demo_mode13_def)
  obtain st fs where k: "kmain_memory demo_mode13 demo_e820 1 0x00100000 0x00200000 (\<lambda>a. 0) 0 = Some (st, heap_init HEAP_START HEAP_SIZE)"
      "length fs = 256" "\<forall>f \<in> set fs. f < 4096"
      "\<forall>a. page_access st a = (let v = unat a div 4096 in
          if 4096 \<le> v \<and> v < 4352 then Some (of_nat (fs ! (v - 4096) * 4096 + unat a mod 4096))
          else if v < 8192 \<or> v \<in> graphics_pages demo_mode13 then Some a else None)"
    using kernel_address_space [OF pm(1), of demo_mode13 "\<lambda>a. 0" 0] g(1) unfolding c by auto
  have "fs ! 1 < 4096" using k(2,3) by (metis nth_mem one_less_numeral_iff semiring_norm(76) less_trans numeral_less_iff)
  then show ?thesis using k(1,4) by (intro exI [of _ st] exI [of _ fs]) (simp add: g(2) del: of_nat_add of_nat_mult)
qed

text \<open>
  In a well-formed address space \<^verbatim>\<open>paging_map_page\<close> neither panics nor faults, changes the translation of the
  addresses of the one page and of no other, and leaves the address space well-formed, also when it has to allocate a
  table first.
\<close>

theorem paging_map_page_translation:
  assumes "paging_ok st" "can_map st (unat va div 4096) (unat pa div 4096)"
  shows "\<exists>s. paging_map_page st va pa flags = Some s \<and> paging_ok s
    \<and> (\<forall>a. mmu_walk (pg_phys s) (page_directory s) a =
         (if unat a div 4096 = unat va div 4096 then Some (of_nat (unat pa div 4096 * 4096 + unat a mod 4096))
          else mmu_walk (pg_phys st) (page_directory st) a))"
proof -
  obtain s where s: "paging_map_page st va pa flags = Some s" "mapped st (unat va div 4096) (unat pa div 4096) s"
    using map_page_mapped [OF assms(1)] assms(2) unfolding frame_of_div by blast
  then show ?thesis unfolding walk_page by (intro exI [of _ s]) (auto simp: mapped_def simp del: of_nat_add of_nat_mult)
qed

theorem paging_map_page_translation_witness:
  "\<exists>st s. paging_init_identity (blank_paging (\<lambda>a. 0) 0 st) IDENTITY_MAP_LIMIT = Some s
    \<and> (\<exists>s'. paging_map_page s 0xE0000000 0x00345000 0x002 = Some s'
         \<and> mmu_walk (pg_phys s') (page_directory s') 0xE0000678 = Some 0x00345678
         \<and> mmu_walk (pg_phys s') (page_directory s') 0xE0001678 = None)"
proof -
  obtain pm where pm: "pmm_init (bootinfo_get_usable_regions demo_e820 1 E820_MAX_ENTRIES) 0x00100000 0x00200000 = Some pm"
      "free_frames pm = {512..<4096}" using demo_memory by blast
  have ke: "unat (0x00200000 :: u32) + 4095 < 2 ^ 32" by simp
  have b: "bitmap_ok pm" "0 \<notin> free_frames pm" using pmm_init_ok(1) [OF pm(1) ke] pm(2) by (simp_all add: pmm_ok_def)
  have c: "{f \<in> free_frames pm. f < 4096} = {512..<4096}" unfolding pm(2) by auto
  have k: "1025 + 1 \<le> card {f \<in> free_frames pm. f < 4096}" unfolding c by simp
  have n: "8192 = (unat (IDENTITY_MAP_LIMIT :: u32) + 4095) div 4096" "unat (IDENTITY_MAP_LIMIT :: u32) + 4095 < 2 ^ 32" by simp_all
  obtain s where s: "paging_init_identity (blank_paging (\<lambda>a. 0) 0 pm) IDENTITY_MAP_LIMIT = Some s" "identity_space 8192 s"
      "room 4096 1 s" using init_identity_maps [OF b k _ n, of "\<lambda>a. 0" 0] by auto
  have ok: "paging_ok s" "vmap s = (\<lambda>v. if v < 8192 then Some v else None)" using s(2) by (simp_all add: identity_space_def)
  have "0 < card (low_free 4096 s)" using room_low [OF s(3)] by simp
  then obtain f where f: "lowest s f" "f < 4096" using lowest_exists by blast
  have "low_identity 4096 s" by (simp add: low_identity_def ok(2))
  then have "reach s f" using reach_low ok(1) f(2) by blast
  moreover have "917504 \<notin> tables s"
    using paging_okD(6) [OF ok(1), of 917504] s(2) by (auto simp: reach_def ok(2) identity_space_def)
  ultimately have can: "can_map s (unat (0xE0000000 :: u32) div 4096) (unat (0x00345000 :: u32) div 4096)"
    using f(1) by (auto simp: can_map_def)
  obtain s' where s': "paging_map_page s 0xE0000000 0x00345000 0x002 = Some s'"
      "\<forall>a. mmu_walk (pg_phys s') (page_directory s') a = (if unat a div 4096 = unat (0xE0000000 :: u32) div 4096
         then Some (of_nat (unat (0x00345000 :: u32) div 4096 * 4096 + unat a mod 4096)) else mmu_walk (pg_phys s) (page_directory s) a)"
    using paging_map_page_translation [OF ok(1) can] by blast
  have "mmu_walk (pg_phys s) (page_directory s) 0xE0001678 = None" by (simp add: walk_page ok(2))
  then show ?thesis using s(1) s' by (intro exI [of _ pm] exI [of _ s]) (simp add: s'(2))
qed

end
