(* ===== verification/Heap_Memory.thy ===== *)
theory Heap_Memory
  imports Paging_Props
begin

text \<open>
  The heap on the memory that the start has set up: what \<open>kmalloc\<close> hands out are virtual addresses, and the
  page tables take them to physical memory.
\<close>

text \<open>The heaps that calls of \<open>kmalloc\<close> and \<open>kfree\<close> lead to, where only what is owned is given back.\<close>

inductive heap_reach :: "heap_state \<Rightarrow> heap_state \<Rightarrow> bool" for h0 where
  start: "heap_reach h0 h0"
| alloc: "heap_reach h0 h \<Longrightarrow> kmalloc h sz = Some (p, h') \<Longrightarrow> heap_reach h0 h'"
| release: "heap_reach h0 h \<Longrightarrow> (q, n) \<in> set (heap_owned h) \<Longrightarrow> kfree h (of_nat q) = Some h' \<Longrightarrow> heap_reach h0 h'"

lemma heap_reach_ok: "heap_reach h0 h \<Longrightarrow> heap_ok a e h0 \<Longrightarrow> heap_ok a e h"
proof (induction rule: heap_reach.induct)
  case (alloc h sz p h')
  then show ?case using kheap.alloc_inv by blast
next
  case (release h q n h')
  obtain us vs where "heap_owned h = us @ (q, n) # vs" using release.hyps(2) by (metis split_list)
  then show ?case using kheap.release_own [of a e h us q n vs] release by auto
qed

lemma owned_apart:
  assumes "tiles a e bs" "k < length (owned bs)" "l < length (owned bs)" "k \<noteq> l" "owned bs ! k = (p, n)" "owned bs ! l = (q, m)"
  shows "p + n \<le> q \<or> q + m \<le> p"
  using assms tiles_owned_disjoint [OF assms(1), of k l] tiles_owned_disjoint [OF assms(1), of l k]
  by (cases "k < l") auto

lemma kernel_heap_ok: "heap_ok 0x01000000 0x01100000 (heap_init HEAP_START HEAP_SIZE)"
  by (simp add: heap_ok_def heap_init_def align_up_def Let_def)

lemma heap_page:
  assumes "length fs = 256" "distinct fs" "\<forall>f \<in> set fs. f < 4096"
    and "0x01000000 \<le> a" "a < 0x01100000" "0x01000000 \<le> b" "b < 0x01100000" "a \<noteq> b"
  defines "at \<equiv> \<lambda>a. fs ! (a div 4096 - 4096) * 4096 + a mod 4096"
  shows "(of_nat (at a) :: u32) \<noteq> of_nat (at b)" "frame_of (of_nat (at a)) = fs ! (a div 4096 - 4096)" "a div 4096 - 4096 < 256"
proof -
  have d: "c div 4096 - 4096 < 256 \<and> 4096 \<le> c div 4096" if "0x01000000 \<le> c" "c < 0x01100000" for c :: nat
    using that by (simp add: less_mult_imp_div_less div_le_mono [of "0x01000000" c 4096, simplified])
  show "a div 4096 - 4096 < 256" using d assms(4,5) by blast
  have l: "fs ! (c div 4096 - 4096) < 4096" if "0x01000000 \<le> c" "c < 0x01100000" for c
    using d [OF that] assms(1,3) nth_mem [of "c div 4096 - 4096" fs] by simp
  have u: "unat (of_nat (at c) :: u32) = at c" if "0x01000000 \<le> c" "c < 0x01100000" for c
  proof -
    have "at c < 2 ^ 32" using l [OF that] unfolding at_def by (simp add: less_imp_le_nat)
    then show ?thesis unfolding unat_of_nat by (intro mod_less) simp
  qed
  have p: "at c div 4096 = fs ! (c div 4096 - 4096)" "at c mod 4096 = c mod 4096" for c by (simp_all add: at_def)
  show "frame_of (of_nat (at a)) = fs ! (a div 4096 - 4096)" unfolding frame_of_div u [OF assms(4,5)] p ..
  have "at a \<noteq> at b"
  proof
    assume e: "at a = at b"
    then have m: "a mod 4096 = b mod 4096" "fs ! (a div 4096 - 4096) = fs ! (b div 4096 - 4096)" using p [of a] p [of b] by simp_all
    then have "a div 4096 - 4096 = b div 4096 - 4096"
      using assms(1,2) d [OF assms(4,5)] d [OF assms(6,7)] by (simp add: nth_eq_iff_index_eq)
    then have "a div 4096 = b div 4096" using d [OF assms(4,5)] d [OF assms(6,7)] by linarith
    then show False using m(1) assms(8) by (metis div_mult_mod_eq)
  qed
  then show "(of_nat (at a) :: u32) \<noteq> of_nat (at b)" using u [OF assms(4,5)] u [OF assms(6,7)] by metis
qed

text \<open>
  C16: After the start and any sequence of \<^verbatim>\<open>kmalloc\<close> and \<^verbatim>\<open>kfree\<close>, every byte of every block in use is mapped, no two bytes of
  different blocks lie on the same physical byte, and none lies in a page table or in a frame that can still be
  allocated.
\<close>

theorem heap_physically_disjoint:
  assumes "pmm_init (bootinfo_get_usable_regions e820_map e820_count E820_MAX_ENTRIES) ks ke = Some pm"
    and "unat ke + 4095 < 2 ^ 32" "1281 \<le> card {f \<in> free_frames pm. f < 4096}" "graphics_below_top vd"
    and "kmain_memory vd e820_map e820_count ks ke phys cr3 = Some (st, h0)" "heap_reach h0 h"
    and "k < length (heap_owned h)" "l < length (heap_owned h)" "k \<noteq> l" "heap_owned h ! k = (p, n)" "heap_owned h ! l = (q, m)" "i < n" "j < m"
  shows "\<exists>x y. page_access st (of_nat (p + i)) = Some x \<and> page_access st (of_nat (q + j)) = Some y \<and> x \<noteq> y
    \<and> frame_of x \<notin> tables st \<and> frame_of x \<notin> pg_free st"
proof -
  obtain fs where h0: "h0 = heap_init HEAP_START HEAP_SIZE" and fs: "length fs = 256" "distinct fs"
      "\<forall>f \<in> set fs. f < 4096 \<and> f \<in> free_frames pm \<and> f \<notin> tables st \<and> f \<notin> pg_free st"
    and acc: "\<forall>a. page_access st a = (let v = unat a div 4096 in
          if 4096 \<le> v \<and> v < 4352 then Some (of_nat (fs ! (v - 4096) * 4096 + unat a mod 4096))
          else if v < 8192 \<or> v \<in> graphics_pages vd then Some a else None)"
    using kernel_address_space_lemma [OF assms(1-4), of phys cr3] assms(5) by auto
  have t: "tiles 0x01000000 0x01100000 (heap_blocks h)"
    using heap_reach_ok [OF assms(6)] kernel_heap_ok unfolding h0 by (simp add: heap_ok_def)
  note o = heap_owned_def
  have "(p, n) \<in> set (owned (heap_blocks h))" "(q, m) \<in> set (owned (heap_blocks h))"
    using nth_mem [OF assms(7)] nth_mem [OF assms(8)] assms(10,11) by (simp_all add: o)
  then have r: "0x01000000 \<le> p + i" "p + i < 0x01100000" "0x01000000 \<le> q + j" "q + j < 0x01100000"
    using tiles_owned [OF t] assms(12,13) by fastforce+
  have ne: "p + i \<noteq> q + j"
    using owned_apart [OF t assms(7,8) [unfolded o] assms(9) assms(10,11) [unfolded o]] assms(12,13) by linarith
  have f: "\<forall>f \<in> set fs. f < 4096" using fs(3) by blast
  note H = heap_page [OF fs(1,2) f r ne]
  have a: "page_access st (of_nat c) = Some (of_nat (fs ! (c div 4096 - 4096) * 4096 + c mod 4096))"
    if c: "0x01000000 \<le> c" "c < 0x01100000" for c
  proof -
    have u: "unat (of_nat c :: u32) = c" unfolding unat_of_nat by (intro mod_less) (use c(2) in simp)
    have "4096 \<le> c div 4096" using div_le_mono [OF c(1), of 4096] by simp
    moreover have "c div 4096 < 4352" using c(2) by (simp add: less_mult_imp_div_less)
    ultimately show ?thesis using acc [rule_format, of "of_nat c"] unfolding u Let_def by (simp only: simp_thms if_True)
  qed
  show ?thesis
    using a [OF r(1,2)] a [OF r(3,4)] H nth_mem [of "(p + i) div 4096 - 4096" fs] fs(1,3) by metis
qed


theorem heap_physically_disjoint_witness:
  "\<exists>st p h1 q h2 x y. kmain_memory demo_mode13 demo_e820 1 0x00100000 0x00200000 (\<lambda>a. 0) 0 = Some (st, heap_init HEAP_START HEAP_SIZE)
    \<and> kmalloc (heap_init HEAP_START HEAP_SIZE) 100 = Some (p, h1) \<and> kmalloc h1 200 = Some (q, h2)
    \<and> page_access st p = Some x \<and> page_access st q = Some y \<and> x \<noteq> y"
proof -
  obtain pm where pm: "pmm_init (bootinfo_get_usable_regions demo_e820 1 E820_MAX_ENTRIES) 0x00100000 0x00200000 = Some pm"
      "free_frames pm = {512..<4096}" using demo_memory by blast
  have "{f \<in> free_frames pm. f < 4096} = {512..<4096}" unfolding pm(2) by auto
  then have c: "1281 \<le> card {f \<in> free_frames pm. f < 4096}" by simp
  have g: "graphics_below_top demo_mode13" "unat (0x00200000 :: u32) + 4095 < 2 ^ 32" by (simp_all add: graphics_below_top_def demo_mode13_def)
  obtain st where st: "kmain_memory demo_mode13 demo_e820 1 0x00100000 0x00200000 (\<lambda>a. 0) 0 = Some (st, heap_init HEAP_START HEAP_SIZE)"
    using kernel_address_space_lemma [OF pm(1) g(2) c g(1)] by blast
  let ?h0 = "heap_init HEAP_START HEAP_SIZE"
  obtain h1 where h1: "kmalloc ?h0 100 = Some (0x0100000C, h1)" "heap_blocks h1 = [\<lparr>bh_addr = 0x01000000, bh_size = 104, bh_free = False\<rparr>,
      \<lparr>bh_addr = 0x01000074, bh_size = 0x000FFF80, bh_free = True\<rparr>]"
    by (simp add: kmalloc_def heap_init_def align_up_def Let_def)
  obtain h2 where h2: "kmalloc h1 200 = Some (0x01000080, h2)" "heap_owned h2 = [(0x0100000C, 104), (0x01000080, 200)]"
    by (simp add: kmalloc_def h1(2) align_up_def Let_def heap_owned_def)
  have "heap_reach ?h0 h2" using heap_reach.alloc [OF heap_reach.alloc [OF heap_reach.start h1(1)] h2(1)] .
  from heap_physically_disjoint [OF pm(1) g(2) c g(1) st this, of 0 1 "0x0100000C" 104 "0x01000080" 200 0 0] h2(2)
  show ?thesis using st h1(1) h2(1) by auto
qed

end
