(* ===== verification/Multiboot.thy ===== *)
theory Multiboot
  imports Phys_Memory
begin

unbundle bit_operations_syntax

text \<open>
  The memory map of a Multiboot loader, \<^verbatim>\<open>bootinfo_parse_multiboot\<close> of \<^verbatim>\<open>src/mem/bootinfo.c\<close>: the records that
  the loader left in memory, each with its own size, are copied to a table of the E820 form.
  Memory is a function from addresses to bytes; \<open>None\<close> inside the result is the null pointer.  The records give the step of the
  loop, so it may in principle never end.
\<close>

definition mem32 :: "(u32 \<Rightarrow> u8) \<Rightarrow> u32 \<Rightarrow> u32" where
  "mem32 m p = le_u32 [m p, m (p + 1), m (p + 2), m (p + 3)]"

text \<open>The fields of a record behind its size, and those of the information block.\<close>

definition multiboot_mmap_entry :: "(u32 \<Rightarrow> u8) \<Rightarrow> u32 \<Rightarrow> e820_entry" where
  "multiboot_mmap_entry m p =
     \<lparr>base_low = mem32 m (p + 4), base_high = mem32 m (p + 8), length_low = mem32 m (p + 12),
      length_high = mem32 m (p + 16), e820_type = mem32 m (p + 20)\<rparr>"

definition mbi_flags :: "(u32 \<Rightarrow> u8) \<Rightarrow> u32 \<Rightarrow> u32" where "mbi_flags m p = mem32 m p"
definition mbi_mmap_length :: "(u32 \<Rightarrow> u8) \<Rightarrow> u32 \<Rightarrow> u32" where "mbi_mmap_length m p = mem32 m (p + 44)"
definition mbi_mmap_addr :: "(u32 \<Rightarrow> u8) \<Rightarrow> u32 \<Rightarrow> u32" where "mbi_mmap_addr m p = mem32 m (p + 48)"

definition mb_takes :: "e820_entry \<Rightarrow> bool" where
  "mb_takes e \<longleftrightarrow> e820_type e = E820_TYPE_USABLE \<and> e820_length e > 0 \<and> e820_base e < GIB4"

definition mb_copy :: "e820_entry \<Rightarrow> e820_entry" where
  "mb_copy e =
     \<lparr>base_low = ucast (e820_base e), base_high = ucast (drop_bit 32 (e820_base e)),
      length_low = ucast (e820_length e), length_high = ucast (drop_bit 32 (e820_length e)), e820_type = e820_type e\<rparr>"

partial_function (option) mb_loop :: "(u32 \<Rightarrow> u8) \<Rightarrow> u32 \<Rightarrow> u32 \<Rightarrow> e820_entry list \<Rightarrow> e820_entry list option" where
  "mb_loop m cursor stop acc =
     (if cursor < stop \<and> length acc < E820_MAX_ENTRIES then
        let e = multiboot_mmap_entry m cursor in
        mb_loop m (cursor + (mem32 m cursor + 4)) stop (if mb_takes e then acc @ [mb_copy e] else acc)
      else Some acc)"

definition bootinfo_parse_multiboot :: "(u32 \<Rightarrow> u8) \<Rightarrow> u32 \<Rightarrow> e820_entry list option option" where
  "bootinfo_parse_multiboot m mb_info_addr =
     (if mb_info_addr = 0 \<or> \<not> bit (mbi_flags m mb_info_addr) 6 then Some None
      else map_option Some
        (mb_loop m (mbi_mmap_addr m mb_info_addr) (mbi_mmap_addr m mb_info_addr + mbi_mmap_length m mb_info_addr) []))"

section \<open>The same regions as from the firmware\<close>

text \<open>The records of a loader: \<open>es\<close> from address \<open>a\<close> on, each of 24 bytes.\<close>

definition mb_bytes :: "e820_entry \<Rightarrow> u8 list" where
  "mb_bytes e = u32_le 20 @ u32_le (base_low e) @ u32_le (base_high e) @ u32_le (length_low e) @ u32_le (length_high e) @ u32_le (e820_type e)"

definition lies_at :: "(u32 \<Rightarrow> u8) \<Rightarrow> u32 \<Rightarrow> u8 list \<Rightarrow> bool" where
  "lies_at m a bs \<longleftrightarrow> (\<forall>i < length bs. m (a + of_nat i) = bs ! i)"

lemma lies_at_append: "lies_at m a (xs @ ys) \<longleftrightarrow> lies_at m a xs \<and> lies_at m (a + of_nat (length xs)) ys"
proof
  assume l: "lies_at m a (xs @ ys)"
  have "m (a + of_nat (length xs) + of_nat i) = ys ! i" if "i < length ys" for i
    using l that unfolding lies_at_def by (metis add.assoc length_append nat_add_left_cancel_less nth_append_length_plus of_nat_add)
  then show "lies_at m a xs \<and> lies_at m (a + of_nat (length xs)) ys"
    using l by (auto simp: lies_at_def nth_append split: if_splits)
next
  assume l: "lies_at m a xs \<and> lies_at m (a + of_nat (length xs)) ys"
  show "lies_at m a (xs @ ys)"
    unfolding lies_at_def
  proof (intro allI impI)
    fix i assume i: "i < length (xs @ ys)"
    show "m (a + of_nat i) = (xs @ ys) ! i"
    proof (cases "i < length xs")
      case False
      then have e: "a + of_nat (length xs) + of_nat (i - length xs) = a + of_nat i" by (simp add: of_nat_diff)
      have "m (a + of_nat (length xs) + of_nat (i - length xs)) = ys ! (i - length xs)"
        using l False i unfolding lies_at_def by (metis length_append less_diff_conv2 add.commute not_less)
      then show ?thesis unfolding e using False by (simp add: nth_append)
    qed (use l in \<open>simp add: lies_at_def nth_append\<close>)
  qed
qed

lemma mem32_at: "lies_at m a (u32_le w) \<Longrightarrow> mem32 m a = w"
proof -
  assume l: "lies_at m a (u32_le w)"
  have n: "length (u32_le w) = 4" by simp
  have "m a = u32_le w ! 0" "m (a + 1) = u32_le w ! 1" "m (a + 2) = u32_le w ! 2" "m (a + 3) = u32_le w ! 3"
    using l [unfolded lies_at_def n, rule_format, of 0] l [unfolded lies_at_def n, rule_format, of 1]
      l [unfolded lies_at_def n, rule_format, of 2] l [unfolded lies_at_def n, rule_format, of 3] by simp_all
  then have "mem32 m a = le_u32 (u32_le w)" by (simp add: mem32_def u32_le_def)
  then show ?thesis using le_u32_u32_le [of w "[]"] by simp
qed

lemma entry_at:
  assumes "lies_at m a (mb_bytes e)"
  shows "mem32 m a = 20" "multiboot_mmap_entry m a = e"
  using assms unfolding mb_bytes_def lies_at_append length_append length_u32_le
  by (simp_all add: mem32_at multiboot_mmap_entry_def add.assoc)

lemma mb_copy_id: "mb_copy e = e"
proof -
  have j: "ucast (push_bit 32 (ucast h :: u64) OR ucast l) = (l :: u32)" "ucast (drop_bit 32 (push_bit 32 (ucast h :: u64) OR ucast l)) = (h :: u32)" for h l :: u32
    by (rule bit_word_eqI; auto simp: bit_simps dest: bit_imp_le_length)+
  show ?thesis unfolding mb_copy_def e820_base_def e820_length_def j by simp
qed

lemma not_taken: "\<not> mb_takes e \<Longrightarrow> usable_region e = None"
  by (auto simp: mb_takes_def usable_region_def Let_def word_gt_0)

lemma length_mb_bytes [simp]: "length (mb_bytes e) = 24"
  by (simp add: mb_bytes_def)

lemma mb_loop_reads:
  assumes "lies_at m a (concat (map mb_bytes es))" "unat a + 24 * length es < 2 ^ 32" "length acc + length es \<le> E820_MAX_ENTRIES"
  shows "mb_loop m a (a + of_nat (24 * length es)) acc = Some (acc @ filter mb_takes es)"
  using assms
proof (induction es arbitrary: a acc)
  case Nil
  then show ?case by (simp add: mb_loop.simps [of m a])
next
  case (Cons e es)
  have l: "lies_at m a (mb_bytes e)" "lies_at m (a + 24) (concat (map mb_bytes es))"
    using Cons.prems(1) by (simp_all add: lies_at_append)
  have u: "unat (a + 24) = unat a + 24" "unat (a + of_nat (24 * length (e # es))) = unat a + 24 * length (e # es)"
    using Cons.prems(2) by (simp_all add: unat_word_ariths unat_of_nat del: of_nat_mult)
  then have lt: "a < a + of_nat (24 * length (e # es))" by (simp add: word_less_nat_alt del: of_nat_mult)
  have s: "a + of_nat (24 * length (e # es)) = a + 24 + of_nat (24 * length es)" by simp
  let ?acc = "if mb_takes e then acc @ [e] else acc"
  have "mb_loop m a (a + of_nat (24 * length (e # es))) acc = mb_loop m (a + 24) (a + of_nat (24 * length (e # es))) ?acc"
    using lt Cons.prems(3) entry_at [OF l(1)] by (subst mb_loop.simps) (simp add: mb_copy_id Let_def del: of_nat_mult)
  also have "\<dots> = Some (?acc @ filter mb_takes es)"
    unfolding s by (rule Cons.IH [OF l(2)]) (use u(1) Cons.prems(2,3) in auto)
  finally show ?case by simp
qed

lemma map_filter_taken: "List.map_filter usable_region (filter mb_takes es) = List.map_filter usable_region es"
  by (induction es) (auto simp: List.map_filter_def not_taken)

text \<open>
  C39: A memory map of at most 32 records that a Multiboot loader left in memory is read to the end, and yields the
  same usable regions as the same map handed over by the firmware.
\<close>

theorem multiboot_same_regions:
  assumes "lies_at m (mbi_mmap_addr m p) (concat (map mb_bytes es))" "mbi_mmap_length m p = of_nat (24 * length es)"
    and "unat (mbi_mmap_addr m p) + 24 * length es < 2 ^ 32" "length es \<le> E820_MAX_ENTRIES"
    and "p \<noteq> 0" "bit (mbi_flags m p) 6"
  shows "\<exists>tab. bootinfo_parse_multiboot m p = Some (Some tab)
    \<and> bootinfo_get_usable_regions tab (length tab) k = bootinfo_get_usable_regions es (length es) k"
proof -
  have "mb_loop m (mbi_mmap_addr m p) (mbi_mmap_addr m p + of_nat (24 * length es)) [] = Some (filter mb_takes es)"
    using mb_loop_reads [OF assms(1,3), of "[]"] assms(4) by simp
  then have "bootinfo_parse_multiboot m p = Some (Some (filter mb_takes es))"
    using assms(2,5,6) by (simp add: bootinfo_parse_multiboot_def)
  moreover have "length (filter mb_takes es) \<le> E820_MAX_ENTRIES" using length_filter_le [of mb_takes es] assms(4) by linarith
  ultimately show ?thesis
    using assms(4) by (simp add: bootinfo_get_usable_regions_def map_filter_taken min_absorb1)
qed

text \<open>An information block at 0x1000 with two records behind it, the second reserved.\<close>

definition demo_mb_map :: "e820_entry list" where
  "demo_mb_map =
     [\<lparr>base_low = 0x00100000, base_high = 0, length_low = 0x07F00000, length_high = 0, e820_type = 1\<rparr>,
      \<lparr>base_low = 0xFFFC0000, base_high = 0, length_low = 0x00040000, length_high = 0, e820_type = 2\<rparr>]"

definition demo_mb_block :: "u8 list" where
  "demo_mb_block = u32_le 0x40 @ replicate 40 0 @ u32_le 48 @ u32_le 0x1034 @ concat (map mb_bytes demo_mb_map)"

definition demo_mb_mem :: "u32 \<Rightarrow> u8" where
  "demo_mb_mem a = rd demo_mb_block (unat (a - 0x1000))"

lemma demo_lies: "lies_at demo_mb_mem 0x1000 demo_mb_block"
proof -
  have "length demo_mb_block = 100" by (simp add: demo_mb_block_def demo_mb_map_def)
  then show ?thesis
    unfolding lies_at_def demo_mb_mem_def by (auto simp: rd_in unat_of_nat)
qed

theorem multiboot_same_regions_witness:
  "\<exists>tab. bootinfo_parse_multiboot demo_mb_mem 0x1000 = Some (Some tab)
    \<and> bootinfo_get_usable_regions tab (length tab) 32 = [\<lparr>mr_base = 0x00100000, mr_length = 0x07F00000\<rparr>]"
proof -
  have l: "lies_at demo_mb_mem 0x1000 (u32_le 0x40)" "lies_at demo_mb_mem 0x102C (u32_le 48)"
    "lies_at demo_mb_mem 0x1030 (u32_le 0x1034)" "lies_at demo_mb_mem 0x1034 (concat (map mb_bytes demo_mb_map))"
    using demo_lies unfolding demo_mb_block_def lies_at_append length_append length_u32_le length_replicate by simp_all
  have f: "mbi_flags demo_mb_mem 0x1000 = 0x40" "mbi_mmap_length demo_mb_mem 0x1000 = 48" "mbi_mmap_addr demo_mb_mem 0x1000 = 0x1034"
    using mem32_at [OF l(1)] mem32_at [OF l(2)] mem32_at [OF l(3)] by (simp_all add: mbi_flags_def mbi_mmap_length_def mbi_mmap_addr_def)
  have n: "length demo_mb_map = 2" by (simp add: demo_mb_map_def)
  have "bootinfo_get_usable_regions demo_mb_map 2 32 = [\<lparr>mr_base = 0x00100000, mr_length = 0x07F00000\<rparr>]"
    by (simp add: bootinfo_get_usable_regions_def demo_mb_map_def List.map_filter_def usable_region_def e820_base_def e820_length_def Let_def)
  then show ?thesis
    using multiboot_same_regions [of demo_mb_mem "0x1000" demo_mb_map 32] l(4) f n by simp
qed

end
