(* ===== verification/Keyboard.thy ===== *)
theory Keyboard
  imports Vertex_Base
begin

text \<open>
  The keyboard driver (\<^verbatim>\<open>src/drivers/keyboard.c\<close>): the scancode state machine of the
  interrupt handler and the key rings, one for the console and one per terminal.

  The byte that the handler reads from port 0x60 is its argument; the focused terminal comes from the
  display.  The blocking read loops poll a ring, sleep and poll again; one poll is modelled, with
  \<open>None\<close> for an empty ring.
\<close>

section \<open>Rings\<close>

abbreviation KB_BUFFER_SIZE :: nat where "KB_BUFFER_SIZE \<equiv> 128"
abbreviation TERMINAL_SESSION_COUNT :: nat where "TERMINAL_SESSION_COUNT \<equiv> 16"

record kb_ring =
  rb_buffer :: "int list"
  rb_head :: nat
  rb_tail :: nat

definition ring_is_empty :: "kb_ring \<Rightarrow> bool" where
  "ring_is_empty r \<longleftrightarrow> rb_head r = rb_tail r"

definition ring_is_full :: "kb_ring \<Rightarrow> bool" where
  "ring_is_full r \<longleftrightarrow> (rb_head r + 1) mod KB_BUFFER_SIZE = rb_tail r"

definition ring_push :: "kb_ring \<Rightarrow> int \<Rightarrow> kb_ring" where
  "ring_push r key =
     (if ring_is_full r then r
      else r\<lparr>rb_buffer := (rb_buffer r)[rb_head r := key], rb_head := (rb_head r + 1) mod KB_BUFFER_SIZE\<rparr>)"

definition ring_pop :: "kb_ring \<Rightarrow> int \<times> kb_ring" where
  "ring_pop r = (rb_buffer r ! rb_tail r, r\<lparr>rb_tail := (rb_tail r + 1) mod KB_BUFFER_SIZE\<rparr>)"

section \<open>The driver state\<close>

record kb_state =
  kb_console :: kb_ring
  kb_term :: "kb_ring list"
  kb_extended :: bool
  kb_shift_down :: bool

definition kb_buffer_push :: "kb_state \<Rightarrow> int \<Rightarrow> kb_state" where
  "kb_buffer_push st key = st\<lparr>kb_console := ring_push (kb_console st) key\<rparr>"

definition kb_buffer_pop :: "kb_state \<Rightarrow> int \<times> kb_state" where
  "kb_buffer_pop st = (case ring_pop (kb_console st) of (key, r) \<Rightarrow> (key, st\<lparr>kb_console := r\<rparr>))"

definition term_kb_buffer_push :: "kb_state \<Rightarrow> nat \<Rightarrow> int \<Rightarrow> kb_state" where
  "term_kb_buffer_push st session key =
     (if session \<ge> TERMINAL_SESSION_COUNT \<or> ring_is_full (kb_term st ! session) then st
      else st\<lparr>kb_term := (kb_term st)[session := ring_push (kb_term st ! session) key]\<rparr>)"

definition term_kb_buffer_pop :: "kb_state \<Rightarrow> nat \<Rightarrow> int \<times> kb_state" where
  "term_kb_buffer_pop st session =
     (case ring_pop (kb_term st ! session) of (key, r) \<Rightarrow> (key, st\<lparr>kb_term := (kb_term st)[session := r]\<rparr>))"

definition keyboard_route_key :: "int \<Rightarrow> kb_state \<Rightarrow> int \<Rightarrow> kb_state" where
  "keyboard_route_key focused st key =
     (if 0 \<le> focused \<and> focused < int TERMINAL_SESSION_COUNT
      then term_kb_buffer_push st (nat focused) key else kb_buffer_push st key)"

section \<open>Scancodes\<close>

abbreviation KEY_LEFT :: int where "KEY_LEFT \<equiv> 0x100"
abbreviation KEY_RIGHT :: int where "KEY_RIGHT \<equiv> 0x101"
abbreviation KEY_DELETE :: int where "KEY_DELETE \<equiv> 0x102"
abbreviation KEY_UP :: int where "KEY_UP \<equiv> 0x103"
abbreviation KEY_DOWN :: int where "KEY_DOWN \<equiv> 0x104"
abbreviation KEY_F2 :: int where "KEY_F2 \<equiv> 0x105"
abbreviation KEY_F10 :: int where "KEY_F10 \<equiv> 0x106"

text \<open>The two tables; the entries behind the last initialiser are zero (\<open>rd\<close> outside of the list).\<close>

definition scan_map :: "u8 list" where
  "scan_map = [0, 27] @ str ''1234567890-='' @ [8, 9] @ str ''qwertyuiop[]'' @ [10, 0]
     @ str ''asdfghjkl;'' @ [39, 96, 0, 92] @ str ''zxcvbnm,./'' @ [0, 42, 0, 32]"

definition scan_shift_map :: "u8 list" where
  "scan_shift_map = [0, 27] @ str ''!@#$%^&*()_+'' @ [8, 9] @ str ''QWERTYUIOP{}'' @ [10, 0]
     @ str ''ASDFGHJKL:'' @ [34, 126, 0, 124] @ str ''ZXCVBNM<>?'' @ [0, 42, 0, 32]"

definition scancode_to_ascii :: "u8 \<Rightarrow> bool \<Rightarrow> u8" where
  "scancode_to_ascii scancode shift_down =
     (if scancode < 128 then rd (if shift_down then scan_shift_map else scan_map) (unat scancode) else 0)"

definition extended_key :: "u8 \<Rightarrow> int" where
  "extended_key scancode =
     (if scancode AND 0x80 = 0 then
        (if scancode = 0x4B then KEY_LEFT
         else if scancode = 0x4D then KEY_RIGHT
         else if scancode = 0x53 then KEY_DELETE
         else if scancode = 0x48 then KEY_UP
         else if scancode = 0x50 then KEY_DOWN
         else 0)
      else 0)"

definition keyboard_irq_handler :: "int \<Rightarrow> kb_state \<Rightarrow> u8 \<Rightarrow> kb_state" where
  "keyboard_irq_handler focused st scancode =
     (if scancode = 0xE0 then st\<lparr>kb_extended := True\<rparr>
      else if kb_extended st then
        (let key = extended_key scancode; st1 = st\<lparr>kb_extended := False\<rparr> in
         if key \<noteq> 0 then keyboard_route_key focused st1 key else st1)
      else if scancode AND 0x80 \<noteq> 0 then
        (let released = scancode AND 0x7F in
         if released = 0x2A \<or> released = 0x36 then st\<lparr>kb_shift_down := False\<rparr> else st)
      else if scancode = 0x2A \<or> scancode = 0x36 then st\<lparr>kb_shift_down := True\<rparr>
      else if scancode = 0x3C then keyboard_route_key focused st KEY_F2
      else if scancode = 0x44 then keyboard_route_key focused st KEY_F10
      else (let key = uint (scancode_to_ascii scancode (kb_shift_down st)) in
            if key \<noteq> 0 then keyboard_route_key focused st key else st))"

section \<open>Initialisation and reading\<close>

definition keyboard_init :: "kb_state \<Rightarrow> kb_state" where
  "keyboard_init st = st\<lparr>kb_console := (kb_console st)\<lparr>rb_head := 0, rb_tail := 0\<rparr>,
     kb_term := map (\<lambda>r. r\<lparr>rb_head := 0, rb_tail := 0\<rparr>) (kb_term st),
     kb_extended := False, kb_shift_down := False\<rparr>"


text \<open>
  One poll of the two read loops.  The mutual calls of the C functions end in one of the rings:
  a session in range reads its terminal ring, any other the console ring.
\<close>

definition keyboard_poll_terminal :: "kb_state \<Rightarrow> nat \<Rightarrow> (int \<times> kb_state) option" where
  "keyboard_poll_terminal st session =
     (if ring_is_empty (kb_term st ! session) then None else Some (term_kb_buffer_pop st session))"

definition keyboard_read_key :: "int \<Rightarrow> kb_state \<Rightarrow> (int \<times> kb_state) option" where
  "keyboard_read_key session st =
     (if 0 \<le> session \<and> session < int TERMINAL_SESSION_COUNT then keyboard_poll_terminal st (nat session)
      else if ring_is_empty (kb_console st) then None else Some (kb_buffer_pop st))"

definition keyboard_read_key_for_terminal :: "int \<Rightarrow> kb_state \<Rightarrow> nat \<Rightarrow> (int \<times> kb_state) option" where
  "keyboard_read_key_for_terminal own_session st session =
     (if session \<ge> TERMINAL_SESSION_COUNT then keyboard_read_key own_session st
      else keyboard_poll_terminal st session)"

text \<open>\<^verbatim>\<open>keyboard_read_char\<close> drops the keys that are no characters; \<open>None\<close> when the ring runs dry.\<close>

partial_function (option) keyboard_read_char :: "int \<Rightarrow> kb_state \<Rightarrow> (int \<times> kb_state) option" where
  "keyboard_read_char session st =
     (case keyboard_read_key session st of
        None \<Rightarrow> None
      | Some (key, st') \<Rightarrow>
          if 0 \<le> key \<and> key \<le> 0xFF then Some (key, st') else keyboard_read_char session st')"

section \<open>A ring is a bounded queue\<close>

text \<open>The interface of a bounded queue, with what its clients rely on.\<close>

locale bounded_queue =
  fixes enq :: "'s \<Rightarrow> int \<Rightarrow> 's"
    and deq :: "'s \<Rightarrow> (int \<times> 's) option"
    and wf :: "'s \<Rightarrow> bool"
    and items :: "'s \<Rightarrow> int list"
    and cap :: nat
  assumes items_le: "wf s \<Longrightarrow> length (items s) \<le> cap"
    and enq_wf: "wf s \<Longrightarrow> wf (enq s k)"
    and enq_items: "wf s \<Longrightarrow> items (enq s k) = (if length (items s) < cap then items s @ [k] else items s)"
    and deq_None: "wf s \<Longrightarrow> deq s = None \<longleftrightarrow> items s = []"
    and deq_Some: "wf s \<Longrightarrow> deq s = Some (k, s') \<Longrightarrow> wf s' \<and> items s = k # items s'"
begin

text \<open>Keys put in come out in order; those that find the queue full are lost, and only those.\<close>

lemma foldl_enq:
  "wf s \<Longrightarrow> wf (foldl enq s ks) \<and> items (foldl enq s ks) = items s @ take (cap - length (items s)) ks"
proof (induction ks arbitrary: s)
  case (Cons k ks)
  have w: "wf (enq s k)" using Cons.prems by (rule enq_wf)
  show ?case
  proof (cases "length (items s) < cap")
    case True
    then have c: "cap - length (items s) = Suc (cap - Suc (length (items s)))" by simp
    show ?thesis using Cons.IH [OF w] enq_items [OF Cons.prems, of k] True by (simp add: c)
  next
    case False
    then have "cap - length (items s) = 0" by simp
    then show ?thesis using Cons.IH [OF w] enq_items [OF Cons.prems, of k] False by simp
  qed
qed simp

lemma deq_next: "wf s \<Longrightarrow> items s = k # ks \<Longrightarrow> \<exists>s'. deq s = Some (k, s') \<and> wf s' \<and> items s' = ks"
  using deq_None [of s] deq_Some [of s] by (cases "deq s") auto

end

definition ring_count :: "kb_ring \<Rightarrow> nat" where
  "ring_count r = (rb_head r + KB_BUFFER_SIZE - rb_tail r) mod KB_BUFFER_SIZE"

definition ring_items :: "kb_ring \<Rightarrow> int list" where
  "ring_items r = map (\<lambda>i. rb_buffer r ! ((rb_tail r + i) mod KB_BUFFER_SIZE)) [0..<ring_count r]"

definition ring_ok :: "kb_ring \<Rightarrow> bool" where
  "ring_ok r \<longleftrightarrow> length (rb_buffer r) = KB_BUFFER_SIZE \<and> rb_head r < KB_BUFFER_SIZE \<and> rb_tail r < KB_BUFFER_SIZE"

definition ring_deq :: "kb_ring \<Rightarrow> (int \<times> kb_ring) option" where
  "ring_deq r = (if ring_is_empty r then None else Some (ring_pop r))"

lemma ring_count_alt:
  "ring_ok r \<Longrightarrow> ring_count r = (if rb_tail r \<le> rb_head r then rb_head r - rb_tail r else rb_head r + 128 - rb_tail r)"
  by (auto simp: ring_count_def ring_ok_def mod_if)

lemma ring_full_iff: "ring_ok r \<Longrightarrow> ring_is_full r \<longleftrightarrow> ring_count r = 127"
  by (auto simp: ring_is_full_def ring_count_alt ring_ok_def mod_if)

lemma ring_empty_iff: "ring_ok r \<Longrightarrow> ring_is_empty r \<longleftrightarrow> ring_count r = 0"
  by (auto simp: ring_is_empty_def ring_count_alt ring_ok_def)

lemma ring_count_le: "ring_ok r \<Longrightarrow> ring_count r \<le> 127"
  by (auto simp: ring_count_alt ring_ok_def)

lemma ring_items_push:
  assumes ok: "ring_ok r"
  shows "ring_ok (ring_push r k)"
    "ring_items (ring_push r k) = (if length (ring_items r) < 127 then ring_items r @ [k] else ring_items r)"
proof -
  show "ring_ok (ring_push r k)" using ok by (simp add: ring_ok_def ring_push_def)
  show "ring_items (ring_push r k) = (if length (ring_items r) < 127 then ring_items r @ [k] else ring_items r)"
  proof (cases "ring_is_full r")
    case True
    then show ?thesis using ok by (simp add: ring_push_def ring_full_iff ring_items_def)
  next
    case False
    let ?r = "r\<lparr>rb_buffer := (rb_buffer r)[rb_head r := k], rb_head := (rb_head r + 1) mod 128\<rparr>"
    have p: "ring_push r k = ?r" using False by (simp add: ring_push_def)
    have c: "ring_count r < 127" using False ok ring_full_iff ring_count_le [OF ok] by fastforce
    have ok': "ring_ok ?r" using ok by (simp add: ring_ok_def)
    have n: "ring_count ?r = Suc (ring_count r)"
      using c ok ring_count_alt [OF ok] ring_count_alt [OF ok'] by (auto simp: ring_ok_def mod_if split: if_splits)
    have h: "rb_head r = (rb_tail r + ring_count r) mod 128"
      using ok ring_count_alt [OF ok] by (auto simp: ring_ok_def mod_if)
    have old: "(rb_buffer r)[rb_head r := k] ! ((rb_tail r + i) mod 128) = rb_buffer r ! ((rb_tail r + i) mod 128)"
      if "i < ring_count r" for i
    proof -
      have "(rb_tail r + i) mod 128 \<noteq> rb_head r"
        unfolding h using that c ok by (auto simp: ring_ok_def mod_if split: if_splits)
      then show ?thesis by simp
    qed
    have "rb_head r < length (rb_buffer r)" using ok by (simp add: ring_ok_def)
    then have new: "(rb_buffer r)[rb_head r := k] ! ((rb_tail r + ring_count r) mod 128) = k" by (simp add: h [symmetric])
    show ?thesis
      using c old new unfolding p ring_items_def n by simp
  qed
qed

lemma ring_items_pop:
  assumes ok: "ring_ok r" and ne: "\<not> ring_is_empty r" and p: "ring_pop r = (k, r')"
  shows "ring_ok r' \<and> ring_items r = k # ring_items r'"
proof -
  have r': "r' = r\<lparr>rb_tail := (rb_tail r + 1) mod 128\<rparr>" "k = rb_buffer r ! rb_tail r"
    using p by (simp_all add: ring_pop_def)
  have ok': "ring_ok r'" using ok by (simp add: r' ring_ok_def)
  have n: "ring_count r = Suc (ring_count r')"
    using ne ok ring_count_alt [OF ok] ring_count_alt [OF ok']
    by (auto simp: r' ring_ok_def ring_is_empty_def mod_if split: if_splits)
  have "((rb_tail r + 1) mod 128 + i) mod 128 = (rb_tail r + Suc i) mod 128" for i by presburger
  then have "ring_items r' = map (\<lambda>i. rb_buffer r ! ((rb_tail r + Suc i) mod 128)) [0..<ring_count r']"
    by (simp add: ring_items_def r')
  moreover have "ring_items r = rb_buffer r ! (rb_tail r mod 128)
      # map (\<lambda>i. rb_buffer r ! ((rb_tail r + Suc i) mod 128)) [0..<ring_count r']"
    unfolding ring_items_def n by (simp only: upt_conv_Cons zero_less_Suc list.map add_0_right map_Suc_upt [symmetric] map_map o_def)
  ultimately show ?thesis using ok ok' by (simp add: r'(2) ring_ok_def)
qed

interpretation ring: bounded_queue ring_push ring_deq ring_ok ring_items 127
proof unfold_locales
  fix r assume ok: "ring_ok r"
  show "length (ring_items r) \<le> 127" using ring_count_le [OF ok] by (simp add: ring_items_def)
  show "ring_deq r = None \<longleftrightarrow> ring_items r = []"
    using ring_empty_iff [OF ok] by (simp add: ring_deq_def ring_items_def)
  fix k
  show "ring_ok (ring_push r k)" "ring_items (ring_push r k) = (if length (ring_items r) < 127 then ring_items r @ [k] else ring_items r)"
    using ring_items_push [OF ok] by simp_all
  fix r' assume "ring_deq r = Some (k, r')"
  then show "ring_ok r' \<and> ring_items r = k # ring_items r'"
    using ring_items_pop [OF ok] by (auto simp: ring_deq_def split: if_splits)
qed

section \<open>Terminals\<close>

text \<open>All rings in order; the keys waiting for a session; what a key for one session leaves alone.\<close>

definition kb_ok :: "kb_state \<Rightarrow> bool" where
  "kb_ok st \<longleftrightarrow> ring_ok (kb_console st) \<and> length (kb_term st) = TERMINAL_SESSION_COUNT
     \<and> (\<forall>s < TERMINAL_SESSION_COUNT. ring_ok (kb_term st ! s))"

definition term_items :: "nat \<Rightarrow> kb_state \<Rightarrow> int list" where
  "term_items s st = ring_items (kb_term st ! s)"

definition others_same :: "nat \<Rightarrow> kb_state \<Rightarrow> kb_state \<Rightarrow> bool" where
  "others_same s st st' \<longleftrightarrow> kb_console st' = kb_console st
     \<and> (\<forall>t < TERMINAL_SESSION_COUNT. t \<noteq> s \<longrightarrow> kb_term st' ! t = kb_term st ! t)"

lemma others_same_refl [simp]: "others_same s st st"
  by (simp add: others_same_def)

lemma others_same_trans: "others_same s st st' \<Longrightarrow> others_same s st' st'' \<Longrightarrow> others_same s st st''"
  by (simp add: others_same_def)

lemma term_push_ring:
  assumes "kb_ok st" "s < 16"
  shows "term_kb_buffer_push st s k = st\<lparr>kb_term := (kb_term st)[s := ring_push (kb_term st ! s) k]\<rparr>"
  using assms by (auto simp: term_kb_buffer_push_def ring_push_def)

lemma kb_ok_update:
  "kb_ok st \<Longrightarrow> s < 16 \<Longrightarrow> ring_ok r \<Longrightarrow> kb_ok (st\<lparr>kb_term := (kb_term st)[s := r]\<rparr>)"
  by (auto simp: kb_ok_def nth_list_update)

lemma term_push_props:
  assumes "kb_ok st" "s < 16"
  shows "kb_ok (term_kb_buffer_push st s k)" "others_same s st (term_kb_buffer_push st s k)"
    "kb_extended (term_kb_buffer_push st s k) = kb_extended st"
    "kb_shift_down (term_kb_buffer_push st s k) = kb_shift_down st"
    "term_items s (term_kb_buffer_push st s k)
       = (if length (term_items s st) < 127 then term_items s st @ [k] else term_items s st)"
  using assms ring.enq_wf ring.enq_items
  by (auto simp: term_push_ring kb_ok_update others_same_def term_items_def kb_ok_def nth_list_update)

lemma poll_props:
  assumes "kb_ok st" "s < 16" "keyboard_poll_terminal st s = Some (k, st')"
  shows "kb_ok st'" "others_same s st st'" "term_items s st = k # term_items s st'"
proof -
  have r: "ring_ok (kb_term st ! s)" "s < length (kb_term st)" using assms by (simp_all add: kb_ok_def)
  obtain r' where d: "ring_deq (kb_term st ! s) = Some (k, r')" and st': "st' = st\<lparr>kb_term := (kb_term st)[s := r']\<rparr>"
    using assms(3)
    by (auto simp: keyboard_poll_terminal_def term_kb_buffer_pop_def ring_deq_def split: if_splits prod.splits)
  have "ring_ok r' \<and> ring_items (kb_term st ! s) = k # ring_items r'" using ring.deq_Some [OF r(1) d] .
  then show "kb_ok st'" "others_same s st st'" "term_items s st = k # term_items s st'"
    using assms r by (simp_all add: st' kb_ok_update others_same_def term_items_def)
qed

interpretation term_ring: bounded_queue "\<lambda>st. term_kb_buffer_push st s" "\<lambda>st. keyboard_poll_terminal st s"
  "\<lambda>st. kb_ok st \<and> s < 16" "term_items s" 127 for s
proof unfold_locales
  fix st :: kb_state and k st'
  assume w: "kb_ok st \<and> s < 16"
  then have r: "ring_ok (kb_term st ! s)" by (simp add: kb_ok_def)
  show "length (term_items s st) \<le> 127" using ring.items_le [OF r] by (simp add: term_items_def)
  show "kb_ok (term_kb_buffer_push st s k) \<and> s < 16" using w term_push_props(1) by simp
  show "term_items s (term_kb_buffer_push st s k)
      = (if length (term_items s st) < 127 then term_items s st @ [k] else term_items s st)"
    using w term_push_props(5) by simp
  show "(keyboard_poll_terminal st s = None) = (term_items s st = [])"
    using ring.deq_None [OF r] by (simp add: keyboard_poll_terminal_def ring_deq_def term_items_def split: if_splits)
  assume "keyboard_poll_terminal st s = Some (k, st')"
  then show "(kb_ok st' \<and> s < 16) \<and> term_items s st = k # term_items s st'"
    using w poll_props [of st s k st'] by simp
qed

lemma route_focused: "0 \<le> f \<Longrightarrow> f < 16 \<Longrightarrow> keyboard_route_key f st k = term_kb_buffer_push st (nat f) k"
  by (simp add: keyboard_route_key_def)

lemma foldl_push_frame:
  "kb_ok st \<Longrightarrow> s < 16 \<Longrightarrow> others_same s st (foldl (\<lambda>st. term_kb_buffer_push st s) st ks)"
proof (induction ks arbitrary: st)
  case (Cons k ks)
  show ?case using Cons.IH [OF term_push_props(1) [OF Cons.prems] Cons.prems(2)] term_push_props(2) [OF Cons.prems]
    by (auto intro: others_same_trans)
qed simp

lemma kb_ok_init:
  assumes "length (rb_buffer (kb_console st)) = 128" "length (kb_term st) = 16" "\<forall>r \<in> set (kb_term st). length (rb_buffer r) = 128"
  shows "kb_ok (keyboard_init st)" "s < 16 \<Longrightarrow> term_items s (keyboard_init st) = []"
  using assms by (simp_all add: kb_ok_def keyboard_init_def ring_ok_def term_items_def ring_items_def ring_count_def)

section \<open>Typing\<close>

text \<open>
  What a keyboard sends for a character: the make and the break code of its key, between those of the
  left shift key when only the shifted table has the character.
\<close>

definition key_index :: "u8 list \<Rightarrow> u8 \<Rightarrow> nat" where
  "key_index tab c = length (takeWhile (\<lambda>x. x \<noteq> c) tab)"

definition keystrokes :: "u8 \<Rightarrow> u8 list" where
  "keystrokes c =
     (let i = key_index scan_map c in
      if i < length scan_map then [of_nat i, of_nat (i + 128)]
      else (let j = key_index scan_shift_map c in [0x2A, of_nat j, of_nat (j + 128), 0xAA]))"

definition plain_key :: "u8 \<Rightarrow> bool" where
  "plain_key w \<longleftrightarrow> w < 0x60 \<and> w \<noteq> 0x2A \<and> w \<noteq> 0x36 \<and> w \<noteq> 0x3C \<and> w \<noteq> 0x44"

definition types :: "u8 \<Rightarrow> bool" where
  "types c \<longleftrightarrow> c \<noteq> 0 \<and>
     (case keystrokes c of
        [w, b] \<Rightarrow> plain_key w \<and> b = w + 128 \<and> scancode_to_ascii w False = c
      | [p, w, b, r] \<Rightarrow> p = 0x2A \<and> r = 0xAA \<and> plain_key w \<and> b = w + 128 \<and> scancode_to_ascii w True = c
      | _ \<Rightarrow> False)"

text \<open>The two tables as numbers, for evaluation.\<close>

lemma scan_map_code [code]:
  "scan_map =
    [0, 27, 49, 50, 51, 52, 53, 54, 55, 56, 57, 48, 45, 61, 8, 9, 113, 119, 101, 114, 116, 121,
     117, 105, 111, 112, 91, 93, 10, 0, 97, 115, 100, 102, 103, 104, 106, 107, 108, 59, 39, 96,
     0, 92, 122, 120, 99, 118, 98, 110, 109, 44, 46, 47, 0, 42, 0, 32]"
  by (simp add: scan_map_def str_def)

lemma scan_shift_map_code [code]:
  "scan_shift_map =
    [0, 27, 33, 64, 35, 36, 37, 94, 38, 42, 40, 41, 95, 43, 8, 9, 81, 87, 69, 82, 84, 89, 85, 73,
     79, 80, 123, 125, 10, 0, 65, 83, 68, 70, 71, 72, 74, 75, 76, 58, 34, 126, 0, 124, 90, 88, 67,
     86, 66, 78, 77, 60, 62, 63, 0, 42, 0, 32]"
  by (simp add: scan_shift_map_def str_def)

lemma printable_types: "list_all types (map of_nat [32..<127])"
  by code_simp

lemma control_types: "types 8" "types 9" "types 10" "types 27"
  by code_simp+

lemma byte_range:
  assumes "list_all P (map of_nat [a..<b])" "a \<le> unat c" "unat c < b"
  shows "P (c :: u8)"
proof -
  have "c = of_nat (unat c)" by simp
  moreover have "unat c \<in> set [a..<b]" using assms(2,3) by (simp only: set_upt atLeastLessThan_iff)
  ultimately show ?thesis using assms(1) unfolding list_all_iff by (metis image_eqI list.set_map)
qed

lemma types_printable:
  assumes "32 \<le> c" "c \<le> 126"
  shows "types c"
  using byte_range [OF printable_types, of c] assms by (simp add: word_le_nat_alt)

lemma plain_codes:
  "list_all (\<lambda>w :: u8. w AND 0x80 = 0 \<and> (w + 0x80) AND 0x80 \<noteq> 0 \<and> (w + 0x80) AND 0x7F = w
      \<and> w \<noteq> 0xE0 \<and> w + 0x80 \<noteq> 0xE0) (map of_nat [0..<96])"
  by code_simp

lemma plain_code:
  assumes "plain_key w"
  shows "w AND 0x80 = 0" "(w + 0x80) AND 0x80 \<noteq> 0" "(w + 0x80) AND 0x7F = w" "w \<noteq> 0xE0" "w + 0x80 \<noteq> 0xE0"
  using byte_range [OF plain_codes, of w] assms by (simp_all add: plain_key_def word_less_nat_alt)

lemma handle_make:
  assumes "plain_key w" "\<not> kb_extended st" "scancode_to_ascii w (kb_shift_down st) = c" "c \<noteq> 0"
  shows "keyboard_irq_handler f st w = keyboard_route_key f st (uint c)"
  using assms plain_code [OF assms(1)]
  by (simp add: keyboard_irq_handler_def plain_key_def Let_def unsigned_eq_0_iff)

lemma handle_break:
  assumes "plain_key w" "\<not> kb_extended st"
  shows "keyboard_irq_handler f st (w + 128) = st"
  using assms plain_code [OF assms(1)] by (simp add: keyboard_irq_handler_def plain_key_def Let_def)

lemma handle_shift:
  assumes "\<not> kb_extended st"
  shows "keyboard_irq_handler f st 0x2A = st\<lparr>kb_shift_down := True\<rparr>"
    "keyboard_irq_handler f st 0xAA = st\<lparr>kb_shift_down := False\<rparr>"
  using assms by (simp_all add: keyboard_irq_handler_def Let_def)

lemma push_shift:
  "term_kb_buffer_push (st\<lparr>kb_shift_down := b\<rparr>) s k = (term_kb_buffer_push st s k)\<lparr>kb_shift_down := b\<rparr>"
  by (simp add: term_kb_buffer_push_def)

lemma type_one:
  assumes "types c" "kb_ok st" "0 \<le> f" "f < 16" "\<not> kb_extended st" "\<not> kb_shift_down st"
  shows "foldl (keyboard_irq_handler f) st (keystrokes c) = term_kb_buffer_push st (nat f) (uint c)"
proof -
  have s: "nat f < 16" using assms by simp
  note pp = term_push_props [OF assms(2) s]
  consider w where "keystrokes c = [w, w + 128]" "plain_key w" "scancode_to_ascii w False = c"
    | w where "keystrokes c = [0x2A, w, w + 128, 0xAA]" "plain_key w" "scancode_to_ascii w True = c"
    using assms(1) by (auto simp: types_def split: list.splits)
  moreover have c: "c \<noteq> 0" using assms(1) by (simp add: types_def)
  ultimately show ?thesis
  proof cases
    case (1 w)
    then show ?thesis using assms c pp handle_make [OF 1(2) assms(5), of c] handle_break [OF 1(2)]
      by (simp add: route_focused)
  next
    case (2 w)
    have "keyboard_irq_handler f (st\<lparr>kb_shift_down := True\<rparr>) w = (term_kb_buffer_push st (nat f) (uint c))\<lparr>kb_shift_down := True\<rparr>"
      using handle_make [OF 2(2), of "st\<lparr>kb_shift_down := True\<rparr>" c f] 2 assms c by (simp add: route_focused push_shift)
    then show ?thesis using 2 assms pp handle_break [OF 2(2)] by (simp add: handle_shift)
  qed
qed

lemma type_text:
  assumes "\<forall>c \<in> set cs. types c" "kb_ok st" "0 \<le> f" "f < 16" "\<not> kb_extended st" "\<not> kb_shift_down st"
  shows "foldl (keyboard_irq_handler f) st (concat (map keystrokes cs))
     = foldl (\<lambda>st. term_kb_buffer_push st (nat f)) st (map uint cs)"
  using assms
proof (induction cs arbitrary: st)
  case (Cons c cs)
  have s: "nat f < 16" using Cons.prems by simp
  note pp = term_push_props [OF Cons.prems(2) s, of "uint c"]
  show ?case
    using Cons.IH [of "term_kb_buffer_push st (nat f) (uint c)"] Cons.prems pp type_one [of c st f] by simp
qed simp

lemma read_char_skip:
  assumes "kb_ok st" "s < 16" "term_items s st = ks @ k # rs" "\<forall>x \<in> set ks. x < 0 \<or> 0xFF < x" "0 \<le> k" "k \<le> 0xFF"
  shows "\<exists>st'. keyboard_read_char (int s) st = Some (k, st') \<and> kb_ok st' \<and> term_items s st' = rs \<and> others_same s st st'"
  using assms
proof (induction ks arbitrary: st)
  case Nil
  obtain st' where d: "keyboard_poll_terminal st s = Some (k, st')" and "kb_ok st'" "term_items s st' = rs"
    using term_ring.deq_next [of st s k rs] Nil by auto
  then show ?case using Nil poll_props(2) [OF Nil(1,2) d]
    by (auto simp: keyboard_read_key_def keyboard_read_char.simps [of "int s" st])
next
  case (Cons x ks)
  obtain st' where d: "keyboard_poll_terminal st s = Some (x, st')" and st': "kb_ok st'" "term_items s st' = ks @ k # rs"
    using term_ring.deq_next [of st s x "ks @ k # rs"] Cons.prems by auto
  have "keyboard_read_char (int s) st = keyboard_read_char (int s) st'"
    using Cons.prems d by (auto simp: keyboard_read_key_def keyboard_read_char.simps [of "int s" st])
  then show ?case using Cons.IH [OF st'(1) Cons.prems(2) st'(2)] Cons.prems poll_props(2) [OF Cons.prems(1,2) d]
    by (auto intro: others_same_trans)
qed

end
