(* ===== verification/Keyboard_Props.thy ===== *)
theory Keyboard_Props
  imports Keyboard
begin

text \<open>Properties of the keyboard driver: key rings as bounded queues, typing, reading characters.\<close>

definition demo_ring :: kb_ring where
  "demo_ring = \<lparr>rb_buffer = replicate 128 0, rb_head = 0, rb_tail = 0\<rparr>"

definition demo_kb :: kb_state where
  "demo_kb = \<lparr>kb_console = demo_ring, kb_term = replicate 16 demo_ring, kb_extended = False, kb_shift_down = False\<rparr>"

lemma demo_kb_ok: "kb_ok demo_kb" "\<not> kb_extended demo_kb" "\<not> kb_shift_down demo_kb" "term_items 3 demo_kb = []"
  by (simp_all add: kb_ok_def demo_kb_def demo_ring_def ring_ok_def term_items_def ring_items_def ring_count_def)

text \<open>
  A key ring is a bounded first-in first-out queue.  Keys routed to a focused terminal are appended
  in order to the keys waiting there; those that find 127 keys waiting are dropped, and no other ring
  changes.  Reading then takes exactly the first waiting key.
\<close>

theorem keyboard_fifo:
  assumes "kb_ok st" "0 \<le> f" "f < 16"
  shows "let st' = foldl (keyboard_route_key f) st ks; q = term_items (nat f) st @ take (127 - length (term_items (nat f) st)) ks in
     kb_ok st' \<and> term_items (nat f) st' = q \<and> others_same (nat f) st st'
     \<and> (case keyboard_poll_terminal st' (nat f) of
          None \<Rightarrow> q = []
        | Some (k, st'') \<Rightarrow> q = k # term_items (nat f) st'' \<and> kb_ok st'' \<and> others_same (nat f) st' st'')"
proof -
  have s: "nat f < 16" using assms by simp
  have r: "keyboard_route_key f = (\<lambda>st. term_kb_buffer_push st (nat f))"
    using assms by (auto simp: fun_eq_iff route_focused)
  let ?st = "foldl (keyboard_route_key f) st ks"
  have f: "kb_ok ?st" "term_items (nat f) ?st = term_items (nat f) st @ take (127 - length (term_items (nat f) st)) ks"
    using term_ring.foldl_enq [of st "nat f" ks] assms(1) s by (simp_all add: r)
  have o: "others_same (nat f) st ?st" using foldl_push_frame [OF assms(1) s] by (simp add: r)
  show ?thesis
    using f o poll_props [OF f(1) s] term_ring.deq_None [of ?st "nat f"] s
    by (auto simp: Let_def split: option.splits)
qed

theorem keyboard_fifo_witness:
  "term_items 3 (foldl (keyboard_route_key 3) demo_kb [65, 0x100, 66]) = [65, 0x100, 66]"
  using keyboard_fifo [of demo_kb 3 "[65, 0x100, 66]"] by (simp add: demo_kb_ok Let_def)

text \<open>
  Typing arrives as typed: when the scancodes that a keyboard sends for a printable text (with shift
  pressed around the characters that need it, and every key released) run through the interrupt handler,
  exactly the characters of the text are appended, in order, to the keys waiting for the focused
  terminal, as far as there is room; the handler is then ready for the next key and no other terminal
  has received anything.
\<close>

theorem keyboard_typing:
  assumes "\<forall>c \<in> set cs. 32 \<le> c \<and> c \<le> 126" "kb_ok st" "0 \<le> f" "f < 16" "\<not> kb_extended st" "\<not> kb_shift_down st"
  shows "let st' = foldl (keyboard_irq_handler f) st (concat (map keystrokes cs)) in
     term_items (nat f) st' = term_items (nat f) st @ take (127 - length (term_items (nat f) st)) (map uint cs)
     \<and> others_same (nat f) st st' \<and> kb_ok st' \<and> \<not> kb_extended st' \<and> \<not> kb_shift_down st'"
proof -
  have s: "nat f < 16" using assms by simp
  have t: "\<forall>c \<in> set cs. types c" using assms(1) types_printable by blast
  have fl: "kb_extended (foldl (\<lambda>st. term_kb_buffer_push st (nat f)) st ks) = kb_extended st
      \<and> kb_shift_down (foldl (\<lambda>st. term_kb_buffer_push st (nat f)) st ks) = kb_shift_down st" for ks
    using assms(2) by (induction ks arbitrary: st) (simp_all add: term_push_props [OF _ s])
  show ?thesis
    using type_text [OF t assms(2-6)] term_ring.foldl_enq [of st "nat f" "map uint cs"] foldl_push_frame [OF assms(2) s]
      fl assms s by (simp add: Let_def)
qed

theorem keyboard_typing_witness:
  "term_items 3 (foldl (keyboard_irq_handler 3) demo_kb [0x2A, 0x23, 0xA3, 0xAA, 0x17, 0x97]) = [72, 105]"
proof -
  have "concat (map keystrokes [72, 105]) = [0x2A, 0x23, 0xA3, 0xAA, 0x17, 0x97]" by code_simp
  then show ?thesis using keyboard_typing [of "[72, 105]" demo_kb 3] by (simp add: demo_kb_ok Let_def)
qed

text \<open>
  \<^verbatim>\<open>keyboard_read_char\<close> returns whenever a character is waiting behind any number of
  special keys: it consumes those keys, returns that character and leaves the rest of the queue.
\<close>

theorem keyboard_read_char_returns:
  assumes "kb_ok st" "s < 16" "term_items s st = ks @ k # rs" "\<forall>x \<in> set ks. x < 0 \<or> 0xFF < x" "0 \<le> k" "k \<le> 0xFF"
  shows "\<exists>st'. keyboard_read_char (int s) st = Some (k, st') \<and> kb_ok st' \<and> term_items s st' = rs \<and> others_same s st st'"
  using assms by (rule read_char_skip)

theorem keyboard_read_char_returns_witness:
  "\<exists>st'. keyboard_read_char 3 (foldl (keyboard_route_key 3) demo_kb [KEY_UP, KEY_F2, 66, 67]) = Some (66, st')
     \<and> term_items 3 st' = [67]"
proof -
  let ?st = "foldl (keyboard_route_key 3) demo_kb [KEY_UP, KEY_F2, 66, 67]"
  have s: "(3 :: nat) < 16" by simp
  have r: "keyboard_route_key 3 = (\<lambda>st. term_kb_buffer_push st 3)"
    by (auto simp: fun_eq_iff route_focused)
  have "kb_ok ?st" "term_items 3 ?st = [KEY_UP, KEY_F2] @ 66 # [67]"
    using term_ring.foldl_enq [of demo_kb 3 "[KEY_UP, KEY_F2, 66, 67]"] by (simp_all add: r demo_kb_ok)
  from keyboard_read_char_returns [OF this(1) s this(2)] show ?thesis by auto
qed

end
