(* ===== verification/Terminal_Props.thy ===== *)
theory Terminal_Props
  imports Terminal
begin

text \<open>
  The console against its specification: a terminal is a window on the last 25 rows of a transcript.
  A transcript is the list of finished rows and the row that is being written.
\<close>

section \<open>Transcripts\<close>

type_synonym transcript = "u8 list list \<times> u8 list"

fun tr_put :: "transcript \<Rightarrow> u8 \<Rightarrow> transcript" where
  "tr_put (h, cur) c =
     (if c = 10 then (h @ [cur], [])
      else if c = 8 then (h, butlast cur)
      else if length cur = 79 then (h @ [cur @ [c]], [])
      else (h, cur @ [c]))"

definition tr_window :: "transcript \<Rightarrow> u8 list list" where
  "tr_window t = (let rows = fst t @ [snd t] in drop (length rows - 25) rows)"

definition tr_ok :: "transcript \<Rightarrow> bool" where
  "tr_ok t \<longleftrightarrow> (\<forall>row \<in> set (fst t). length row \<le> 80) \<and> length (snd t) < 80"

definition row_cell :: "u8 list list \<Rightarrow> nat \<Rightarrow> nat \<Rightarrow> u8" where
  "row_cell rows r c = (if r < length rows \<and> c < length (rows ! r) then rows ! r ! c else SPACE)"

definition shows_rows :: "terminal_state \<Rightarrow> u8 list list \<Rightarrow> bool" where
  "shows_rows ts rows \<longleftrightarrow> (\<forall>r < 25. \<forall>c < 80. cell ts r c = row_cell rows r c)"

definition shows_transcript :: "terminal_state \<Rightarrow> transcript \<Rightarrow> bool" where
  "shows_transcript ts t \<longleftrightarrow> shows_rows ts (tr_window t)
     \<and> cursor_row ts = length (tr_window t) - 1 \<and> cursor_col ts = length (snd t)"

lemma tr_put_ok: "tr_ok t \<Longrightarrow> tr_ok (tr_put t c)"
  by (cases t) (auto simp: tr_ok_def)

lemma window_length: "length (tr_window t) = min 25 (Suc (length (fst t)))"
  by (simp add: tr_window_def Let_def)

lemma window_last: "last (tr_window t) = snd t" "tr_window t \<noteq> []"
  by (simp_all add: tr_window_def Let_def)

lemma window_cur:
  "tr_window (h, cur') = (tr_window (h, cur))[length (tr_window (h, cur)) - 1 := cur']"
  by (simp add: tr_window_def Let_def list_update_append)

lemma window_next:
  "tr_window (h @ [cur], []) = (if length (tr_window (h, cur)) = 25 then tl (tr_window (h, cur)) else tr_window (h, cur)) @ [[]]"
proof (cases "24 \<le> length h")
  case True
  then have "length h - 23 = Suc (length h - 24)" by simp
  then have "tr_window (h @ [cur], []) = tl (drop (length h - 24) (h @ [cur])) @ [[]]"
    using True by (simp add: tr_window_def Let_def drop_Suc tl_drop)
  moreover have "tr_window (h, cur) = drop (length h - 24) (h @ [cur])" "length (tr_window (h, cur)) = 25"
    using True by (simp_all add: tr_window_def Let_def)
  ultimately show ?thesis by simp
qed (simp add: tr_window_def Let_def)

text \<open>Setting a cell of the row in progress, and scrolling.\<close>

lemma shows_set:
  assumes s: "shows_transcript ts (h, cur)" and ok: "term_ok ts"
    and cur: "\<And>c. c < 80 \<Longrightarrow> (if c < length cur' then cur' ! c else SPACE) = (if c = k then x else if c < length cur then cur ! c else SPACE)"
    and k: "k < 80"
    and cells: "text_cells ts' = (text_cells ts)[cursor_row ts * 80 + k := x]"
  shows "shows_rows ts' (tr_window (h, cur'))"
proof -
  let ?w = "tr_window (h, cur)" and ?n = "length (tr_window (h, cur)) - 1"
  have cr: "cursor_row ts = ?n" and n: "?n < length ?w" "?w ! ?n = cur" "?n < 25"
    using s window_last [of "(h, cur)"] window_length [of "(h, cur)"]
    by (auto simp: shows_transcript_def last_conv_nth)
  have old: "cell ts r c = row_cell ?w r c" if "r < 25" "c < 80" for r c
    using s that by (simp add: shows_transcript_def shows_rows_def)
  have new: "cell ts' r c = (if r = ?n \<and> c = k then x else cell ts r c)" if "r < 25" "c < 80" for r c
    using that k ok n(3) cell_index_eq [OF that(2) k, of r ?n]
    by (auto simp: cell_def cells cr nth_list_update term_ok_def)
  show ?thesis
    unfolding shows_rows_def
  proof (intro allI impI)
    fix r c :: nat
    assume rc: "r < 25" "c < 80"
    show "cell ts' r c = row_cell (tr_window (h, cur')) r c"
      using new [OF rc] old [OF rc] cur [OF rc(2)] n
      by (cases "r = ?n") (auto simp: row_cell_def window_cur [of h cur' cur] split: if_splits)
  qed
qed

lemma shows_newline:
  assumes s: "shows_rows ts (tr_window (h, cur))" and ok: "length (text_cells ts) = 6000"
    and cells: "text_cells ts' = (if length (tr_window (h, cur)) = 25 then scroll_up (text_cells ts) else text_cells ts)"
  shows "shows_rows ts' (tr_window (h @ [cur], []))"
proof -
  let ?w = "tr_window (h, cur)"
  have l: "length ?w \<le> 25" "?w \<noteq> []" using window_length [of "(h, cur)"] window_last [of "(h, cur)"] by simp_all
  have old: "cell ts r c = row_cell ?w r c" if "r < 25" "c < 80" for r c
    using s that by (simp add: shows_rows_def)
  show ?thesis
    unfolding shows_rows_def
  proof (intro allI impI)
    fix r c :: nat
    assume rc: "r < 25" "c < 80"
    show "cell ts' r c = row_cell (tr_window (h @ [cur], [])) r c"
    proof (cases "length ?w = 25")
      case True
      have "cell ts' r c = (if r < 24 then cell ts (r + 1) c else SPACE)"
        using cell_scroll_up [OF ok rc] True by (simp add: cell_def cells)
      then show ?thesis using True rc old [of "r + 1" c]
        by (auto simp: window_next row_cell_def nth_append nth_tl)
    next
      case False
      then have "cell ts' r c = cell ts r c" by (simp add: cell_def cells)
      then show ?thesis using False l rc old [OF rc]
        by (auto simp: window_next row_cell_def nth_append)
    qed
  qed
qed

lemma put_cell_transcript:
  assumes s: "shows_transcript ts t" and ok: "term_ok ts" and t: "tr_ok t"
  shows "shows_transcript (snd (put_cell ts c)) (tr_put t c)"
proof -
  obtain h cur where tt: "t = (h, cur)" by (cases t)
  note s = s [unfolded tt]
  let ?w = "tr_window (h, cur)"
  have cr: "cursor_row ts = length ?w - 1" and cc: "cursor_col ts = length cur" and sr: "shows_rows ts ?w"
    and w: "1 \<le> length ?w" "length ?w \<le> 25" and len: "length (text_cells ts) = 6000" and cur: "length cur < 80"
    using s ok t window_length [of "(h, cur)"] by (auto simp: shows_transcript_def term_ok_def tr_ok_def tt)
  have wn: "length (tr_window (h @ [cur'], [])) = min 25 (length ?w + 1)" for cur'
    using window_length [of "(h @ [cur'], [])"] window_length [of "(h, cur)"] by simp
  have wc: "length (tr_window (h, cur')) = length ?w" for cur'
    using window_length [of "(h, cur')"] window_length [of "(h, cur)"] by simp
  consider "c = 10" | "c = 8" | "c \<noteq> 10" "c \<noteq> 8" by blast
  then show ?thesis
  proof cases
    case 1
    have "shows_rows (snd (put_cell ts 10)) (tr_window (h @ [cur], []))"
      by (rule shows_newline [OF sr len]) (use put_cell_newline(1) [OF ok] cr w in auto)
    then show ?thesis using 1 put_cell_newline [OF ok] cr w wn by (simp add: shows_transcript_def tt)
  next
    case 2
    have "shows_rows (snd (put_cell ts 8)) (tr_window (h, butlast cur))"
    proof (cases "cur = []")
      case True
      then show ?thesis using sr put_cell_back(1) [of ts] cc by (simp add: shows_rows_def cell_def)
    next
      case False
      then show ?thesis
        using cur put_cell_back(1) [of ts] cc
        by (intro shows_set [OF s ok, where k = "length cur - 1" and x = SPACE]) (auto simp: nth_butlast)
    qed
    then show ?thesis using 2 put_cell_back [of ts] cr cc wc [of "butlast cur"] by (simp add: shows_transcript_def tt)
  next
    case 3
    note p = put_cell_plain [OF ok 3]
    let ?ts = "ts\<lparr>text_cells := (text_cells ts)[cursor_row ts * 80 + cursor_col ts := c]\<rparr>"
    have row: "shows_rows ?ts (tr_window (h, cur @ [c]))"
      using cur cc by (intro shows_set [OF s ok, where k = "length cur" and x = c]) (auto simp: nth_append)
    show ?thesis
    proof (cases "length cur = 79")
      case True
      have "shows_rows (snd (put_cell ts c)) (tr_window (h @ [cur @ [c]], []))"
        by (rule shows_newline [OF row]) (use p(1) cr cc w wc [of "cur @ [c]"] True len in auto)
      then show ?thesis using 3 p True cr cc w wn by (simp add: shows_transcript_def tt)
    next
      case False
      then show ?thesis using 3 p cr cc w wc [of "cur @ [c]"] row by (simp add: shows_transcript_def tt shows_rows_def cell_def)
    qed
  qed
qed

lemma put_cells_transcript:
  "shows_transcript ts t \<Longrightarrow> term_ok ts \<Longrightarrow> tr_ok t
   \<Longrightarrow> shows_transcript (foldl (\<lambda>ts c. snd (put_cell ts c)) ts cs) (foldl tr_put t cs)"
  by (induction cs arbitrary: ts t) (simp_all add: put_cell_transcript put_cell_ok tr_put_ok)

lemma clear_transcript: "shows_transcript (clear_cells ts) ([], [])"
  by (auto simp: shows_transcript_def shows_rows_def tr_window_def row_cell_def clear_cells_def cell_def)

section \<open>Decimal and other digits\<close>

text \<open>The value of a digit string, the inverse of what \<^verbatim>\<open>display_print_num\<close> writes.\<close>

definition digit_val :: "u8 \<Rightarrow> nat" where
  "digit_val c = (if c \<ge> 97 then unat c - 87 else unat c - 48)"

definition digits_val :: "nat \<Rightarrow> u8 list \<Rightarrow> nat" where
  "digits_val base ds = foldl (\<lambda>n d. n * base + digit_val d) 0 ds"

lemma foldl_digits: "foldl (\<lambda>n d. n * base + digit_val d) a ds = a * base ^ length ds + digits_val base ds"
proof (induction ds arbitrary: a)
  case (Cons d ds)
  have "digits_val base (d # ds) = digit_val d * base ^ length ds + digits_val base ds"
    using Cons.IH [of "digit_val d"] by (simp add: digits_val_def)
  then show ?case using Cons.IH [of "a * base + digit_val d"] by (simp add: algebra_simps)
qed (simp add: digits_val_def)

lemma digit_val_all:
  "list_all (\<lambda>n. digit_val (if n < 10 then of_nat (48 + n) else of_nat (97 + (n - 10))) = n
     \<and> (if n < 10 then of_nat (48 + n) else of_nat (97 + (n - 10)) :: u8) \<noteq> 0) [0..<36]"
  by code_simp

lemma digit_val_digit:
  "n < 36 \<Longrightarrow> digit_val (if n < 10 then of_nat (48 + n) else of_nat (97 + (n - 10))) = n"
  "n < 36 \<Longrightarrow> (if n < 10 then of_nat (48 + n) else of_nat (97 + (n - 10)) :: u8) \<noteq> 0"
  using digit_val_all unfolding list_all_iff set_upt by (meson atLeastLessThan_iff zero_le)+

lemma digits_before_val:
  assumes "1 < base" "base \<le> 36"
  shows "digits_val base (digits_before base num acc) = num * base ^ length acc + digits_val base acc"
  using assms
proof (induction base num acc rule: digits_before.induct)
  case (1 base num acc)
  let ?c = "if num mod base < 10 then of_nat (48 + num mod base) else of_nat (97 + (num mod base - 10)) :: u8"
  have c: "digit_val ?c = num mod base"
    using 1(2,3) by (intro digit_val_digit(1)) (meson less_le_trans mod_less_divisor zero_less_one order.strict_trans)
  show ?case
  proof (cases "num = 0")
    case False
    then have "digits_val base (digits_before base num acc) = digits_val base (digits_before base (num div base) (?c # acc))"
      using 1(2) by (simp add: digits_before.simps [of base num] Let_def)
    also have "\<dots> = num div base * base ^ Suc (length acc) + digits_val base (?c # acc)"
      using 1 False by (simp add: Let_def)
    also have "digits_val base (?c # acc) = num mod base * base ^ length acc + digits_val base acc"
      using foldl_digits [of base "digit_val ?c" acc] c by (simp add: digits_val_def)
    finally show ?thesis by (simp add: algebra_simps flip: add_mult_distrib)
      (metis add.commute div_mult_mod_eq mult.assoc mult.commute distrib_right)
  qed (simp add: digits_before.simps [of base])
qed

lemma digits_before_nonzero: "0 \<notin> set acc \<Longrightarrow> base \<le> 36 \<Longrightarrow> 0 \<notin> set (digits_before base num acc)"
proof (induction base num acc rule: digits_before.induct)
  case (1 base num acc)
  have nz: "0 \<notin> set ((if num mod base < 10 then of_nat (48 + num mod base) else of_nat (97 + (num mod base - 10)) :: u8) # acc)"
    if "1 < base"
  proof -
    have "num mod base < 36" using 1(3) that by (meson less_le_trans mod_less_divisor zero_less_one order.strict_trans)
    from digit_val_digit(2) [OF this] show ?thesis using 1(2) by (simp only: list.set insert_iff) metis
  qed
  show ?case using 1 nz by (simp add: digits_before.simps [of base num] Let_def)
qed

lemma display_print_num_digits:
  assumes "disp_ok d" "1 < base" "base \<le> 36" "n \<noteq> 0"
  shows "\<exists>ds. io (display_print_num d tid n base) tid = foldl (\<lambda>ts c. snd (put_cell ts c)) (io d tid) ds
    \<and> digits_val base ds = unat n"
proof -
  have "cstr (digits_before base (unat n) []) = digits_before base (unat n) []"
    using digits_before_nonzero [of "[]" base "unat n"] assms by (intro cstr_id) simp
  then show ?thesis
    using print_props(3) [OF assms(1), of tid "digits_before base (unat n) []"] digits_before_val [OF assms(2,3), of "unat n" "[]"] assms(4)
    by (intro exI [of _ "digits_before base (unat n) []"]) (simp add: display_print_num_def digits_val_def)
qed

section \<open>The console shows its transcript\<close>

definition demo_term :: terminal_state where
  "demo_term = \<lparr>cursor_row = 0, cursor_col = 0, text_cells = replicate 6000 SPACE, text_cells_dirty = replicate 6000 True,
     dirty_any = True, dirty_min_row = 0, dirty_max_row = 74, dirty_min_col = 0, dirty_max_col = 79\<rparr>"

definition demo_display :: display where
  "demo_display = \<lparr>g_terminal_states = replicate 16 demo_term, g_terminal_task_ids = 0 # replicate 15 0xFFFFFFFF,
     g_focused_terminal_session = 0, terminal_force_full_redraw = False, g_refresh_defer_depth = 0, g_refresh_pending = False,
     serial_ready = False, serial_out = [], vga = replicate 2000 0, hw_cursor = 0\<rparr>"

lemma demo_display_ok: "disp_ok demo_display" "g_refresh_defer_depth demo_display = 0"
  by (simp_all add: disp_ok_def demo_display_def demo_term_def term_ok_def)

text \<open>
  C12: The text screen shows the end of what was printed.  After \<^verbatim>\<open>display_clear\<close> and
  \<^verbatim>\<open>display_print\<close> of any string, with its line breaks, backspaces, wrapped lines and scrolls,
  the VGA text memory holds the last 25 rows of the transcript of that string, blank elsewhere, the
  hardware cursor stands behind its last character, and no other terminal session has changed.
\<close>

theorem console_transcript:
  assumes "disp_ok d" "g_refresh_defer_depth d = 0" "cstr s \<noteq> []"
  shows "let d0 = display_clear d tid; d' = display_print d0 tid s; t = foldl tr_put ([], []) (cstr s) in
     (\<forall>r < 25. \<forall>c < 80. vga d' ! (r * 80 + c) = attr (row_cell (tr_window t) r c))
     \<and> hw_cursor d' = of_nat ((length (tr_window t) - 1) * 80 + length (snd t))
     \<and> (\<forall>tid'. io_session d tid' \<noteq> io_session d tid \<longrightarrow> io d' tid' = io d0 tid')"
proof -
  let ?d0 = "display_clear d tid"
  let ?d' = "display_print ?d0 tid s" and ?t = "foldl tr_put ([], []) (cstr s)"
  note cl = clear_props [OF assms(1), of tid]
  note pr = print_props [OF cl(1), where tid = tid and s = s]
  have "term_ok (clear_cells (io d tid))" using io_ok [OF cl(1), of tid] cl(3) by simp
  then have "shows_transcript (io ?d' tid) ?t"
    using put_cells_transcript [OF clear_transcript, of "io d tid" "cstr s"] pr(3) cl(3) by (simp add: tr_ok_def)
  moreover have "on_screen ?d' (io ?d' tid)" using pr(5) assms cl(4) by simp
  moreover have "io ?d' tid' = io ?d0 tid'" if "io_session d tid' \<noteq> io_session d tid" for tid'
    using pr(4) same_sessions_io [OF cl(2)] that by simp
  ultimately show ?thesis
    by (simp add: Let_def on_screen_def shows_transcript_def shows_rows_def)
qed

theorem console_transcript_witness:
  "vga (display_print (display_clear demo_display 0) 0 [72, 10, 105]) ! 80 = attr 105"
proof -
  have "\<forall>r < 25. \<forall>c < 80. vga (display_print (display_clear demo_display 0) 0 [72, 10, 105]) ! (r * 80 + c)
      = attr (row_cell (tr_window (foldl tr_put ([], []) (cstr [72, 10, 105]))) r c)"
    using console_transcript [OF demo_display_ok, of "[72, 10, 105]" 0] unfolding Let_def by simp
  from this [rule_format, of 1 0] show ?thesis by (simp add: tr_window_def row_cell_def)
qed

end
