(* ===== verification/Editor.thy ===== *)
theory Editor
  imports VFS_Props Keyboard Terminal_Props
begin

text \<open>
  The text editor (\<^verbatim>\<open>src/core/editor.c\<close>): the buffer with its cursor, line and column
  arithmetic, the editing operations, loading and saving over the virtual file system, drawing on the
  terminal, and the main loop with its quit, menu and path dialogues.

  The editor reads keys one at a time and waits for them; here it runs on the list of the keys that
  arrive, and \<open>Waiting\<close> is the state in which it asks for a key that has not come yet.  The
  fixed arrays are lists of their length; lengths and positions are at most 8193 and natural numbers.
\<close>

section \<open>State\<close>

abbreviation EDIT_MAX_BYTES :: nat where "EDIT_MAX_BYTES \<equiv> 8192"
abbreviation EDIT_PATH_MAX :: nat where "EDIT_PATH_MAX \<equiv> 64"
abbreviation EDIT_STATUS_MAX :: nat where "EDIT_STATUS_MAX \<equiv> 80"
abbreviation EDIT_GUTTER_COLS :: nat where "EDIT_GUTTER_COLS \<equiv> 7"
abbreviation EDIT_CONTENT_ROWS :: nat where "EDIT_CONTENT_ROWS \<equiv> VGA_HEIGHT - 2"
abbreviation EDIT_TAB_SPACES :: nat where "EDIT_TAB_SPACES \<equiv> 4"
abbreviation NL :: u8 where "NL \<equiv> 10"
abbreviation TAB :: u8 where "TAB \<equiv> 9"

record editor_state =
  ed_path :: "u8 list"
  ed_buf :: "u8 list"
  ed_len :: nat
  ed_cursor :: nat
  ed_top_line :: nat
  ed_preferred_col :: nat
  ed_keep_preferred_col :: bool
  ed_dirty :: bool
  ed_status :: "u8 list"
  ed_first_draw :: bool
  ed_prev_cursor_line :: nat
  ed_prev_top_line :: nat
  ed_prev_total_lines :: nat

definition status_set :: "editor_state \<Rightarrow> u8 list \<Rightarrow> editor_state" where
  "status_set ed msg = ed\<lparr>ed_status := s_copy (ed_status ed) msg EDIT_STATUS_MAX\<rparr>"

section \<open>Writing on the screen\<close>

definition row_clear :: "u32 \<Rightarrow> display \<Rightarrow> nat \<Rightarrow> display" where
  "row_clear tid d row = foldl (\<lambda>d _. display_put_char d tid SPACE) (display_set_cursor d tid row 0) [0..<VGA_WIDTH]"

definition row_write_text :: "u32 \<Rightarrow> display \<Rightarrow> nat \<Rightarrow> nat \<Rightarrow> u8 list \<Rightarrow> nat \<Rightarrow> display" where
  "row_write_text tid d row col s max_chars =
     (if row \<ge> VGA_HEIGHT \<or> col \<ge> VGA_WIDTH \<or> max_chars = 0 then d
      else foldl (\<lambda>d c. display_put_char d tid c) (display_set_cursor d tid row col)
             (take (min max_chars (VGA_WIDTH - col)) (cstr s)))"

text \<open>The digits, most significant first; a \<^verbatim>\<open>u32\<close> never fills the array of ten.\<close>

definition dec_digits :: "nat \<Rightarrow> u8 list" where
  "dec_digits v = (if v = 0 then [48] else digits_before 10 v [])"

definition row_write_u32_right :: "u32 \<Rightarrow> display \<Rightarrow> nat \<Rightarrow> nat \<Rightarrow> nat \<Rightarrow> nat \<Rightarrow> display" where
  "row_write_u32_right tid d row col width v =
     (if width = 0 \<or> row \<ge> VGA_HEIGHT \<or> col \<ge> VGA_WIDTH then d
      else let ds = dec_digits v in
        foldl (\<lambda>d c. display_put_char d tid c) (display_set_cursor d tid row col)
          (replicate (width - length ds) SPACE @ ds))"

section \<open>Lines and columns\<close>

function line_scan :: "u8 list \<Rightarrow> nat \<Rightarrow> nat \<Rightarrow> nat \<Rightarrow> nat \<Rightarrow> nat" where
  "line_scan buf n target i line =
     (if i < n then
        (if line = target then i
         else line_scan buf n target (Suc i) (if buf ! i = NL then line + 1 else line))
      else n)"
  by pat_completeness auto
termination
  by (relation "measure (\<lambda>(buf, n, target, i, line). n - i)") auto

declare line_scan.simps [simp del]

definition pos_for_line :: "editor_state \<Rightarrow> nat \<Rightarrow> nat" where
  "pos_for_line ed target = line_scan (ed_buf ed) (ed_len ed) target 0 0"

definition total_lines :: "editor_state \<Rightarrow> nat" where
  "total_lines ed = foldl (\<lambda>lines i. if ed_buf ed ! i = NL then lines + 1 else lines) 1 [0..<ed_len ed]"

definition line_col_for_pos :: "editor_state \<Rightarrow> nat \<Rightarrow> nat \<times> nat" where
  "line_col_for_pos ed pos =
     foldl (\<lambda>(line, col) i. if ed_buf ed ! i = NL then (line + 1, 0) else (line, col + 1)) (0, 0)
       [0..<(if pos > ed_len ed then ed_len ed else pos)]"

fun back_to_start :: "u8 list \<Rightarrow> nat \<Rightarrow> nat" where
  "back_to_start buf 0 = 0"
| "back_to_start buf (Suc p) = (if buf ! p \<noteq> NL then back_to_start buf p else Suc p)"

definition line_start_for_pos :: "editor_state \<Rightarrow> nat \<Rightarrow> nat" where
  "line_start_for_pos ed pos = back_to_start (ed_buf ed) (if pos > ed_len ed then ed_len ed else pos)"

function forward_to_end :: "u8 list \<Rightarrow> nat \<Rightarrow> nat \<Rightarrow> nat" where
  "forward_to_end buf n pos = (if pos < n \<and> buf ! pos \<noteq> NL then forward_to_end buf n (Suc pos) else pos)"
  by pat_completeness auto
termination
  by (relation "measure (\<lambda>(buf, n, pos). n - pos)") auto

declare forward_to_end.simps [simp del]

definition line_end_for_pos :: "editor_state \<Rightarrow> nat \<Rightarrow> nat" where
  "line_end_for_pos ed pos = forward_to_end (ed_buf ed) (ed_len ed) (if pos > ed_len ed then ed_len ed else pos)"

fun forward_cols :: "u8 list \<Rightarrow> nat \<Rightarrow> nat \<Rightarrow> nat \<Rightarrow> nat" where
  "forward_cols buf n pos 0 = pos"
| "forward_cols buf n pos (Suc col) =
     (if pos < n \<and> buf ! pos \<noteq> NL then forward_cols buf n (Suc pos) col else pos)"

definition pos_for_line_col :: "editor_state \<Rightarrow> nat \<Rightarrow> nat \<Rightarrow> nat" where
  "pos_for_line_col ed line col = forward_cols (ed_buf ed) (ed_len ed) (pos_for_line ed line) col"

fun visual_cols :: "u8 list \<Rightarrow> nat \<Rightarrow> nat \<Rightarrow> nat \<Rightarrow> nat \<Rightarrow> nat" where
  "visual_cols buf n pos 0 vc = vc"
| "visual_cols buf n pos (Suc k) vc =
     (if pos < n \<and> buf ! pos \<noteq> NL
      then visual_cols buf n (Suc pos) k (if buf ! pos = TAB then vc + EDIT_TAB_SPACES else vc + 1) else vc)"

definition visual_col_for_buffer_col :: "editor_state \<Rightarrow> nat \<Rightarrow> nat \<Rightarrow> nat" where
  "visual_col_for_buffer_col ed line buf_col =
     visual_cols (ed_buf ed) (ed_len ed) (pos_for_line ed line) buf_col 0"

definition ensure_cursor_visible :: "editor_state \<Rightarrow> editor_state" where
  "ensure_cursor_visible ed =
     (let line = fst (line_col_for_pos ed (ed_cursor ed)) in
      if line < ed_top_line ed then ed\<lparr>ed_top_line := line\<rparr>
      else if line \<ge> ed_top_line ed + EDIT_CONTENT_ROWS then ed\<lparr>ed_top_line := line - EDIT_CONTENT_ROWS + 1\<rparr>
      else ed)"

section \<open>Editing\<close>

fun shift_right :: "u8 list \<Rightarrow> nat \<Rightarrow> nat \<Rightarrow> u8 list" where
  "shift_right buf cursor 0 = buf"
| "shift_right buf cursor (Suc i) = (if Suc i > cursor then shift_right (buf[Suc i := buf ! i]) cursor i else buf)"

function shift_left :: "u8 list \<Rightarrow> nat \<Rightarrow> nat \<Rightarrow> u8 list" where
  "shift_left buf n i = (if i + 1 < n then shift_left (buf[i := buf ! (i + 1)]) n (i + 1) else buf)"
  by pat_completeness auto
termination
  by (relation "measure (\<lambda>(buf, n, i). n - i)") auto

declare shift_left.simps [simp del]

definition insert_at_cursor :: "editor_state \<Rightarrow> u8 \<Rightarrow> bool \<times> editor_state" where
  "insert_at_cursor ed c =
     (if ed_len ed \<ge> EDIT_MAX_BYTES then (False, status_set ed (str ''editor: file limit reached (8 KiB)''))
      else (True, ed\<lparr>ed_buf := ((shift_right (ed_buf ed) (ed_cursor ed) (ed_len ed))[ed_cursor ed := c])[ed_len ed + 1 := 0],
                     ed_cursor := ed_cursor ed + 1, ed_len := ed_len ed + 1, ed_dirty := True\<rparr>))"

fun insert_spaces :: "editor_state \<Rightarrow> nat \<Rightarrow> editor_state" where
  "insert_spaces ed 0 = ed"
| "insert_spaces ed (Suc n) =
     (case insert_at_cursor ed SPACE of (False, ed1) \<Rightarrow> ed1 | (True, ed1) \<Rightarrow> insert_spaces ed1 n)"

definition delete_backspace :: "editor_state \<Rightarrow> editor_state" where
  "delete_backspace ed =
     (if ed_cursor ed = 0 \<or> ed_len ed = 0 then ed
      else ed\<lparr>ed_buf := (shift_left (ed_buf ed) (ed_len ed) (ed_cursor ed - 1))[ed_len ed - 1 := 0],
              ed_cursor := ed_cursor ed - 1, ed_len := ed_len ed - 1, ed_dirty := True\<rparr>)"

definition delete_forward :: "editor_state \<Rightarrow> editor_state" where
  "delete_forward ed =
     (if ed_cursor ed \<ge> ed_len ed \<or> ed_len ed = 0 then ed
      else ed\<lparr>ed_buf := (shift_left (ed_buf ed) (ed_len ed) (ed_cursor ed))[ed_len ed - 1 := 0],
              ed_len := ed_len ed - 1, ed_dirty := True\<rparr>)"

lemma insert_at_cursor_bound: "max EDIT_MAX_BYTES (ed_len (snd (insert_at_cursor ed c))) = max EDIT_MAX_BYTES (ed_len ed)"
  by (simp add: insert_at_cursor_def status_set_def)

lemma insert_at_cursor_max:
  "insert_at_cursor ed c = (b, ed1) \<Longrightarrow> max EDIT_MAX_BYTES (ed_len ed1) = max EDIT_MAX_BYTES (ed_len ed)"
  using insert_at_cursor_bound [of ed c] by simp

lemma insert_spaces_bound: "max EDIT_MAX_BYTES (ed_len (insert_spaces ed n)) = max EDIT_MAX_BYTES (ed_len ed)"
proof (induction n arbitrary: ed)
  case (Suc n)
  then show ?case using insert_at_cursor_bound [of ed SPACE] by (auto split: prod.splits bool.splits)
qed simp

text \<open>The loop that copies the indentation of the line above; it never passes the new line break.\<close>

function indent_loop :: "editor_state \<Rightarrow> nat \<Rightarrow> editor_state" where
  "indent_loop ed i =
     (if i < ed_len ed \<and> ed_buf ed ! i \<noteq> NL then
        (if ed_buf ed ! i = SPACE then
           (case insert_at_cursor ed SPACE of (False, ed1) \<Rightarrow> ed1 | (True, ed1) \<Rightarrow> indent_loop ed1 (i + 1))
         else if ed_buf ed ! i = TAB then indent_loop (insert_spaces ed EDIT_TAB_SPACES) (i + 1)
         else ed)
      else ed)"
  by pat_completeness auto
termination
proof (relation "measure (\<lambda>(ed, i). max EDIT_MAX_BYTES (ed_len ed) - i)", goal_cases)
  case 2
  then show ?case by (auto simp: max_def split: if_splits dest!: insert_at_cursor_max [OF sym])
next
  case (3 ed i)
  then show ?case using insert_spaces_bound [of ed EDIT_TAB_SPACES] by (simp add: max_def split: if_splits)
qed simp

declare indent_loop.simps [simp del]

definition insert_newline_with_indent :: "editor_state \<Rightarrow> editor_state" where
  "insert_newline_with_indent ed =
     (case insert_at_cursor ed NL of
        (False, ed1) \<Rightarrow> ed1
      | (True, ed1) \<Rightarrow> indent_loop ed1 (line_start_for_pos ed1 (ed_cursor ed1 - 1)))"

section \<open>Drawing\<close>

text \<open>One character of a line at a screen position, and the expansion of a tab.\<close>

definition put_at :: "u32 \<Rightarrow> nat \<Rightarrow> display \<times> nat \<Rightarrow> u8 \<Rightarrow> display \<times> nat" where
  "put_at tid screen_row dc c =
     (case dc of (d, content_col) \<Rightarrow>
        (display_put_char (display_set_cursor d tid screen_row content_col) tid c, content_col + 1))"

definition put_tab :: "u32 \<Rightarrow> nat \<Rightarrow> display \<times> nat \<Rightarrow> display \<times> nat" where
  "put_tab tid screen_row dc =
     foldl (\<lambda>dc _. if snd dc < VGA_WIDTH then put_at tid screen_row dc SPACE else dc) dc [0..<EDIT_TAB_SPACES]"

function render_chars :: "u32 \<Rightarrow> nat \<Rightarrow> u8 list \<Rightarrow> nat \<Rightarrow> nat \<Rightarrow> display \<times> nat \<Rightarrow> display" where
  "render_chars tid screen_row buf line_end p dc =
     (if p < line_end \<and> snd dc < VGA_WIDTH then
        render_chars tid screen_row buf line_end (p + 1)
          (if buf ! p = TAB then put_tab tid screen_row dc
           else if 32 \<le> buf ! p \<and> buf ! p \<le> 126 then put_at tid screen_row dc (buf ! p)
           else put_at tid screen_row dc SPACE)
      else fst dc)"
  by pat_completeness auto
termination
  by (relation "measure (\<lambda>(tid, screen_row, buf, line_end, p, dc). line_end - p)") auto

declare render_chars.simps [simp del]

definition render_line :: "u32 \<Rightarrow> editor_state \<Rightarrow> display \<Rightarrow> nat \<Rightarrow> nat \<Rightarrow> display" where
  "render_line tid ed d screen_row abs_line =
     (let line_pos = pos_for_line ed abs_line;
          line_end = line_end_for_pos ed line_pos;
          d1 = row_clear tid d screen_row;
          d2 = row_write_u32_right tid d1 screen_row 0 4 (abs_line + 1);
          d3 = row_write_text tid d2 screen_row 4 (str '' | '') 3
      in render_chars tid screen_row (ed_buf ed) line_end line_pos (d3, EDIT_GUTTER_COLS))"

definition header_text :: "editor_state \<Rightarrow> u8 list" where
  "header_text ed =
     (let h0 = s_copy (replicate EDIT_STATUS_MAX 0) (str ''edit '') EDIT_STATUS_MAX;
          h1 = take 5 h0 @ s_copy (drop 5 h0) (ed_path ed) (EDIT_STATUS_MAX - 5);
          n = s_len h1
      in if ed_dirty ed \<and> n + 3 < EDIT_STATUS_MAX then h1[n := 32, n + 1 := 42, n + 2 := 0] else h1)"

definition draw_rows :: "u32 \<Rightarrow> editor_state \<Rightarrow> nat \<Rightarrow> display \<Rightarrow> display" where
  "draw_rows tid ed lines d =
     foldl (\<lambda>d i. if ed_top_line ed + i \<ge> lines then row_clear tid d (i + 1)
                  else render_line tid ed d (i + 1) (ed_top_line ed + i)) d [0..<EDIT_CONTENT_ROWS]"

definition draw_content :: "u32 \<Rightarrow> editor_state \<Rightarrow> nat \<Rightarrow> nat \<Rightarrow> display \<Rightarrow> display" where
  "draw_content tid ed line lines d =
     (if ed_first_draw ed \<or> ed_top_line ed \<noteq> ed_prev_top_line ed \<or> lines \<noteq> ed_prev_total_lines ed then
        (let d1 = row_clear tid d 0;
             d2 = row_write_text tid d1 0 0 (header_text ed) VGA_WIDTH;
             d3 = row_write_text tid d2 0 56 (str ''F2 save  F10 quit  ESC menu'') (VGA_WIDTH - 56)
         in draw_rows tid ed lines d3)
      else if line \<noteq> ed_prev_cursor_line ed then
        (let old = ed_prev_cursor_line ed;
             d1 = (if old \<ge> ed_top_line ed \<and> old < ed_top_line ed + EDIT_CONTENT_ROWS
                   then render_line tid ed d (1 + (old - ed_top_line ed)) old else d)
         in if line \<ge> ed_top_line ed \<and> line < ed_top_line ed + EDIT_CONTENT_ROWS
            then render_line tid ed d1 (1 + (line - ed_top_line ed)) line else d1)
      else if line \<ge> ed_top_line ed \<and> line < ed_top_line ed + EDIT_CONTENT_ROWS
        then render_line tid ed d (1 + (line - ed_top_line ed)) line else d)"

definition draw_editor :: "u32 \<Rightarrow> editor_state \<Rightarrow> display \<Rightarrow> editor_state \<times> display" where
  "draw_editor tid ed0 d =
     (let ed = ensure_cursor_visible ed0;
          (line0, col) = line_col_for_pos ed (ed_cursor ed);
          lines = total_lines ed;
          d1 = draw_content tid ed line0 lines d;
          d2 = row_clear tid d1 (VGA_HEIGHT - 1);
          d3 = row_write_text tid d2 (VGA_HEIGHT - 1) 0 (ed_status ed) VGA_WIDTH;
          line1 = (if line0 < ed_top_line ed then ed_top_line ed else line0);
          line = (if line1 \<ge> ed_top_line ed + EDIT_CONTENT_ROWS then ed_top_line ed + EDIT_CONTENT_ROWS - 1 else line1);
          cursor_screen_row = 1 + (line - ed_top_line ed);
          col1 = EDIT_GUTTER_COLS + visual_col_for_buffer_col ed line col;
          cursor_screen_col = (if col1 \<ge> VGA_WIDTH then VGA_WIDTH - 1 else col1)
      in (ed\<lparr>ed_first_draw := False, ed_prev_cursor_line := line, ed_prev_top_line := ed_top_line ed,
             ed_prev_total_lines := lines\<rparr>,
          display_set_cursor d3 tid cursor_screen_row cursor_screen_col))"

section \<open>Files\<close>

definition save_to_path ::
  "'d block_device \<Rightarrow> int \<Rightarrow> 'd vfs_state \<Rightarrow> editor_state \<Rightarrow> u8 list \<Rightarrow> bool \<times> editor_state \<times> 'd vfs_state" where
  "save_to_path dev session st ed path =
     (case vfs_open dev st session path (VFS_O_WRITE OR VFS_O_CREATE OR VFS_O_TRUNC) of
        (fd, st1) \<Rightarrow>
          if fd < 0 then (False, status_set ed (str ''save failed: open error''), st1)
          else (case vfs_write dev st1 fd (ed_buf ed) (of_nat (ed_len ed)) of
                  (written, st2) \<Rightarrow>
                    let st3 = vfs_close st2 fd in
                    if unat written \<noteq> ed_len ed then (False, status_set ed (str ''save failed: short write''), st3)
                    else (True, status_set (ed\<lparr>ed_dirty := False\<rparr>) (str ''saved''), st3)))"

text \<open>The bytes of one read; the flag says that the buffer was full before the last of them.\<close>

fun load_bytes :: "editor_state \<Rightarrow> u8 list \<Rightarrow> bool \<times> editor_state" where
  "load_bytes ed [] = (False, ed)"
| "load_bytes ed (b # bs) =
     (if ed_len ed \<ge> EDIT_MAX_BYTES then (True, ed\<lparr>ed_buf := (ed_buf ed)[ed_len ed := 0]\<rparr>)
      else load_bytes (ed\<lparr>ed_buf := (ed_buf ed)[ed_len ed := b], ed_len := ed_len ed + 1\<rparr>) bs)"

lemma load_bytes_len: "load_bytes ed bs = (False, ed') \<Longrightarrow> ed_len ed' = ed_len ed + length bs \<and> (bs \<noteq> [] \<longrightarrow> ed_len ed' \<le> EDIT_MAX_BYTES)"
  by (induction ed bs rule: load_bytes.induct) (fastforce split: if_splits)+

lemma load_bytes_less:
  assumes "load_bytes ed bs = (False, ed')" "bs \<noteq> []"
  shows "EDIT_MAX_BYTES - ed_len ed' < EDIT_MAX_BYTES - ed_len ed"
proof -
  have "0 < length bs" using assms(2) by simp
  then show ?thesis using load_bytes_len [OF assms(1)] assms(2) by linarith
qed

function load_loop :: "'d block_device \<Rightarrow> 'd vfs_state \<Rightarrow> editor_state \<Rightarrow> int \<Rightarrow> editor_state \<times> 'd vfs_state" where
  "load_loop dev st ed fd =
     (case vfs_read dev st fd 256 of
        (bs, st1) \<Rightarrow>
          if bs = [] then
            (status_set (ed\<lparr>ed_buf := (ed_buf ed)[ed_len ed := 0]\<rparr>) (str ''loaded''), vfs_close st1 fd)
          else (case load_bytes ed bs of
                  (True, ed1) \<Rightarrow> (status_set ed1 (str ''loaded (truncated to 8 KiB)''), vfs_close st1 fd)
                | (False, ed1) \<Rightarrow> load_loop dev st1 ed1 fd))"
  by pat_completeness auto
termination
  by (relation "measure (\<lambda>(dev, st, ed, fd). EDIT_MAX_BYTES - ed_len ed)")
    (auto intro: load_bytes_less [OF sym])

declare load_loop.simps [simp del]

definition load_file :: "'d block_device \<Rightarrow> int \<Rightarrow> 'd vfs_state \<Rightarrow> editor_state \<Rightarrow> u8 list \<Rightarrow> editor_state \<times> 'd vfs_state" where
  "load_file dev session st ed path =
     (let ed0 = ed\<lparr>ed_len := 0, ed_cursor := 0, ed_top_line := 0, ed_preferred_col := 0, ed_keep_preferred_col := False,
                   ed_dirty := False, ed_buf := (ed_buf ed)[0 := 0], ed_first_draw := True, ed_prev_cursor_line := 0,
                   ed_prev_top_line := 0, ed_prev_total_lines := 0\<rparr>
      in case vfs_stat_path st session path blank_info of
           None \<Rightarrow> (status_set ed0 (str ''new file''), st)
         | Some info \<Rightarrow>
             if ni_type info \<noteq> SFS_TYPE_FILE then (status_set ed0 (str ''open failed: not a file''), st)
             else (case vfs_open dev st session path VFS_O_READ of
                     (fd, st1) \<Rightarrow>
                       if fd < 0 then (status_set ed0 (str ''open failed''), st1) else load_loop dev st1 ed0 fd))"

section \<open>The main loop\<close>

record 'd edit_world =
  ew_ed :: editor_state
  ew_disp :: display
  ew_vfs :: "'d vfs_state"

datatype 'd outcome = Closed "'d edit_world" "int list" | Waiting "'d edit_world"
datatype 'd step_result = Continue "'d edit_world" "int list" | Finished "'d outcome"

definition draw_world :: "u32 \<Rightarrow> 'd edit_world \<Rightarrow> 'd edit_world" where
  "draw_world tid w = (case draw_editor tid (ew_ed w) (ew_disp w) of (ed, d) \<Rightarrow> w\<lparr>ew_ed := ed, ew_disp := d\<rparr>)"

definition save_world :: "'d block_device \<Rightarrow> u32 \<Rightarrow> 'd edit_world \<Rightarrow> u8 list \<Rightarrow> bool \<times> 'd edit_world" where
  "save_world dev tid w path =
     (case save_to_path dev (display_terminal_session_for_task (ew_disp w) tid) (ew_vfs w) (ew_ed w) path of
        (ok, ed, st) \<Rightarrow> (ok, w\<lparr>ew_ed := ed, ew_vfs := st\<rparr>))"

definition close_world :: "u32 \<Rightarrow> 'd edit_world \<Rightarrow> u8 list \<Rightarrow> int list \<Rightarrow> 'd step_result" where
  "close_world tid w msg keys =
     Finished (Closed (w\<lparr>ew_disp := display_print (display_clear (ew_disp w) tid) tid msg\<rparr>) keys)"

abbreviation set_status :: "'d edit_world \<Rightarrow> u8 list \<Rightarrow> 'd edit_world" where
  "set_status w msg \<equiv> w\<lparr>ew_ed := status_set (ew_ed w) msg\<rparr>"

text \<open>
  The path prompt: \<open>Inl\<close> the display when it waits, otherwise the answer (\<open>Inl\<close> the status message of
  a refusal, \<open>Inr\<close> the path), the display and the keys left.
\<close>

definition prompt_draw :: "u32 \<Rightarrow> display \<Rightarrow> u8 list \<Rightarrow> nat \<Rightarrow> display" where
  "prompt_draw tid d input cursor =
     (let d1 = row_clear tid d (VGA_HEIGHT - 1);
          d2 = row_write_text tid d1 (VGA_HEIGHT - 1) 0 (str ''save as: '') VGA_WIDTH;
          d3 = row_write_text tid d2 (VGA_HEIGHT - 1) 9 input (VGA_WIDTH - 9)
      in display_set_cursor d3 tid (VGA_HEIGHT - 1) (9 + cursor))"

text \<open>A key other than escape and enter: the new input line, its length and the cursor.\<close>

definition prompt_key :: "u8 list \<Rightarrow> nat \<Rightarrow> nat \<Rightarrow> int \<Rightarrow> u8 list \<times> nat \<times> nat" where
  "prompt_key input len cursor key =
     (if key = KEY_LEFT then (input, len, if cursor > 0 then cursor - 1 else cursor)
      else if key = KEY_RIGHT then (input, len, if cursor < len then cursor + 1 else cursor)
      else if key = KEY_DELETE then
        (if cursor < len then ((shift_left input len cursor)[len - 1 := 0], len - 1, cursor) else (input, len, cursor))
      else if key = 8 then
        (if cursor > 0 then ((shift_left input len (cursor - 1))[len - 1 := 0], len - 1, cursor - 1) else (input, len, cursor))
      else if 32 \<le> key \<and> key \<le> 126 \<and> len + 1 < EDIT_PATH_MAX then
        (((shift_right input cursor len)[cursor := of_int key])[len + 1 := 0], len + 1, cursor + 1)
      else (input, len, cursor))"

fun prompt_loop ::
  "u32 \<Rightarrow> display \<Rightarrow> u8 list \<Rightarrow> nat \<Rightarrow> nat \<Rightarrow> int list \<Rightarrow> display + ((u8 list + u8 list) \<times> display \<times> int list)" where
  "prompt_loop tid d input len cursor [] = Inl (prompt_draw tid d input cursor)"
| "prompt_loop tid d input len cursor (key # keys) =
     (let d1 = prompt_draw tid d input cursor in
      if key = 27 then Inr (Inl (str ''save as canceled''), d1, keys)
      else if key = 10 then
        (if len = 0 then Inr (Inl (str ''save as: path required''), d1, keys)
         else Inr (Inr (s_copy (replicate EDIT_PATH_MAX 0) input EDIT_PATH_MAX), d1, keys))
      else (case prompt_key input len cursor key of
              (input1, len1, cursor1) \<Rightarrow> prompt_loop tid d1 input1 len1 cursor1 keys))"

definition prompt_path ::
  "u32 \<Rightarrow> display \<Rightarrow> int list \<Rightarrow> display + ((u8 list + u8 list) \<times> display \<times> int list)" where
  "prompt_path tid d keys = prompt_loop tid d (replicate EDIT_PATH_MAX 0) 0 0 keys"

text \<open>The keys that only move the cursor or edit the buffer; \<open>None\<close> for the others.\<close>

definition up_down :: "editor_state \<Rightarrow> bool \<Rightarrow> editor_state" where
  "up_down ed up =
     (let (line, col) = line_col_for_pos ed (ed_cursor ed);
          ed1 = (if \<not> ed_keep_preferred_col ed then ed\<lparr>ed_preferred_col := col, ed_keep_preferred_col := True\<rparr> else ed)
      in if up \<and> line > 0 then ed1\<lparr>ed_cursor := pos_for_line_col ed1 (line - 1) (ed_preferred_col ed1)\<rparr>
         else if \<not> up \<and> line + 1 < total_lines ed1
           then ed1\<lparr>ed_cursor := pos_for_line_col ed1 (line + 1) (ed_preferred_col ed1)\<rparr>
         else ed1)"

definition edit_key :: "editor_state \<Rightarrow> int \<Rightarrow> editor_state option" where
  "edit_key ed key =
     (let plain = (\<lambda>ed1. Some (ed1\<lparr>ed_keep_preferred_col := False\<rparr>)) in
      if key = KEY_LEFT then plain (if ed_cursor ed > 0 then ed\<lparr>ed_cursor := ed_cursor ed - 1\<rparr> else ed)
      else if key = KEY_RIGHT then plain (if ed_cursor ed < ed_len ed then ed\<lparr>ed_cursor := ed_cursor ed + 1\<rparr> else ed)
      else if key = KEY_UP \<or> key = KEY_DOWN then Some (up_down ed (key = KEY_UP))
      else if key = KEY_DELETE then plain (delete_forward ed)
      else if key = 8 then plain (delete_backspace ed)
      else if key = 9 then plain (insert_spaces ed EDIT_TAB_SPACES)
      else if key = 10 then plain (insert_newline_with_indent ed)
      else if 32 \<le> key \<and> key \<le> 126 then plain (snd (insert_at_cursor ed (of_int key)))
      else None)"

definition quit_key :: "'d block_device \<Rightarrow> u32 \<Rightarrow> 'd edit_world \<Rightarrow> int list \<Rightarrow> 'd step_result" where
  "quit_key dev tid w keys =
     (if \<not> ed_dirty (ew_ed w) then close_world tid w (str ''editor closed'' @ [NL]) keys
      else let w1 = draw_world tid (set_status w (str ''unsaved: F10 discard, F2 save+quit, ESC cancel'')) in
        case keys of
          [] \<Rightarrow> Finished (Waiting w1)
        | key # rs \<Rightarrow>
            if key = KEY_F10 then close_world tid w1 (str ''editor closed (discarded)'' @ [NL]) rs
            else if key = KEY_F2 then
              (case save_world dev tid w1 (ed_path (ew_ed w1)) of
                 (True, w2) \<Rightarrow> close_world tid w2 (str ''editor closed (saved)'' @ [NL]) rs
               | (False, w2) \<Rightarrow> Continue (set_status w2 (str ''quit canceled'')) rs)
            else Continue (set_status w1 (str ''quit canceled'')) rs)"

definition save_as :: "'d block_device \<Rightarrow> u32 \<Rightarrow> 'd edit_world \<Rightarrow> int list \<Rightarrow> 'd step_result" where
  "save_as dev tid w keys =
     (case prompt_path tid (ew_disp w) keys of
        Inl d \<Rightarrow> Finished (Waiting (w\<lparr>ew_disp := d\<rparr>))
      | Inr (Inl msg, d, rs) \<Rightarrow> Continue (set_status (w\<lparr>ew_disp := d\<rparr>) msg) rs
      | Inr (Inr path, d, rs) \<Rightarrow>
          (case save_world dev tid (w\<lparr>ew_disp := d\<rparr>) path of
             (True, w1) \<Rightarrow>
               Continue (set_status (w1\<lparr>ew_ed := (ew_ed w1)\<lparr>ed_path := s_copy (ed_path (ew_ed w1)) path EDIT_PATH_MAX\<rparr>\<rparr>)
                           (str ''saved as new path'')) rs
           | (False, w1) \<Rightarrow> Continue w1 rs))"

definition menu_key :: "'d block_device \<Rightarrow> u32 \<Rightarrow> 'd edit_world \<Rightarrow> int list \<Rightarrow> 'd step_result" where
  "menu_key dev tid w keys =
     (let w1 = draw_world tid (set_status w (str ''menu: s save, a save-as, q quit, c continue'')) in
      case keys of
        [] \<Rightarrow> Finished (Waiting w1)
      | key # rs \<Rightarrow>
          if key = 115 then Continue (snd (save_world dev tid w1 (ed_path (ew_ed w1)))) rs
          else if key = 97 then save_as dev tid w1 rs
          else if key = 113 then
            (if \<not> ed_dirty (ew_ed w1) then close_world tid w1 (str ''editor closed'' @ [NL]) rs
             else Continue (set_status w1 (str ''use F10 quit flow for unsaved buffer'')) rs)
          else Continue (set_status w1 (str ''continue editing'')) rs)"

definition editor_step :: "'d block_device \<Rightarrow> u32 \<Rightarrow> 'd edit_world \<Rightarrow> int list \<Rightarrow> 'd step_result" where
  "editor_step dev tid w0 keys =
     (let w = draw_world tid w0 in
      case keys of
        [] \<Rightarrow> Finished (Waiting w)
      | key # rs \<Rightarrow>
          (case edit_key (ew_ed w) key of
             Some ed \<Rightarrow> Continue (w\<lparr>ew_ed := ed\<rparr>) rs
           | None \<Rightarrow>
               if key = KEY_F2 then Continue (snd (save_world dev tid w (ed_path (ew_ed w)))) rs
               else if key = KEY_F10 then quit_key dev tid w rs
               else if key = 27 then menu_key dev tid w rs
               else Continue w rs))"

text \<open>
  Every round takes at least one key, so the loop runs by recursion on the keys that are left.
\<close>

lemma prompt_loop_keys: "prompt_loop tid d input len cursor keys = Inr (r, d', rs) \<Longrightarrow> length rs < length keys"
proof (induction tid d input len cursor keys rule: prompt_loop.induct)
  case (2 tid d input len cursor key keys)
  obtain input1 len1 cursor1 where k: "prompt_key input len cursor key = (input1, len1, cursor1)"
    by (cases "prompt_key input len cursor key")
  show ?case
  proof (cases "key = 27 \<or> key = 10")
    case False
    then have "prompt_loop tid (prompt_draw tid d input cursor) input1 len1 cursor1 keys = Inr (r, d', rs)"
      using 2(2) by (simp add: Let_def k)
    then show ?thesis using 2(1) [OF refl _ _ k [symmetric] refl] False by simp
  qed (use 2(2) in \<open>auto simp: Let_def split: if_splits\<close>)
qed simp

lemma save_as_keys: "save_as dev tid w keys = Continue w' rs \<Longrightarrow> length rs < length keys"
  by (auto simp: save_as_def prompt_path_def split: sum.splits prod.splits bool.splits dest!: prompt_loop_keys)

lemma close_world_Continue [simp]: "close_world tid w msg keys \<noteq> Continue w' rs"
  by (simp add: close_world_def)

lemma editor_step_keys: "editor_step dev tid w keys = Continue w' rs \<Longrightarrow> length rs < length keys"
  by (auto simp: editor_step_def quit_key_def menu_key_def Let_def split: list.splits option.splits if_splits prod.splits bool.splits
      dest!: save_as_keys)

function editor_loop :: "'d block_device \<Rightarrow> u32 \<Rightarrow> 'd edit_world \<Rightarrow> int list \<Rightarrow> 'd outcome" where
  "editor_loop dev tid w keys =
     (case editor_step dev tid w keys of
        Continue w1 rs \<Rightarrow> editor_loop dev tid w1 rs
      | Finished r \<Rightarrow> r)"
  by pat_completeness auto
termination
  by (relation "measure (\<lambda>(dev, tid, w, keys). length keys)") (auto dest: editor_step_keys)

declare editor_loop.simps [simp del]

definition editor_open :: "'d block_device \<Rightarrow> u32 \<Rightarrow> 'd edit_world \<Rightarrow> u8 list \<Rightarrow> int list \<Rightarrow> 'd outcome" where
  "editor_open dev tid w path keys =
     (let ed = (ew_ed w)\<lparr>ed_path := s_copy (ed_path (ew_ed w)) path EDIT_PATH_MAX\<rparr> in
      case load_file dev (display_terminal_session_for_task (ew_disp w) tid) (ew_vfs w) ed (ed_path ed) of
        (ed1, st1) \<Rightarrow> editor_loop dev tid (w\<lparr>ew_ed := ed1, ew_vfs := st1\<rparr>) keys)"

end
