(* ===== verification/Editor_Buffer.thy ===== *)
theory Editor_Buffer
  imports Editor
begin

text \<open>
  The editor buffer against its specification: a text and a position.  First the reference functions for
  lines and columns, by recursion on the text, and their laws; then the loops of the editor as list
  operations; then every editing key as an operation on the specification.
\<close>

section \<open>Lines and columns of a list\<close>

text \<open>Line and column of a position, and the position of a line and column.\<close>

fun line_col :: "u8 list \<Rightarrow> nat \<Rightarrow> nat \<times> nat" where
  "line_col xs 0 = (0, 0)"
| "line_col [] (Suc p) = (0, 0)"
| "line_col (x # xs) (Suc p) =
     (case line_col xs p of (l, c) \<Rightarrow> if x = NL then (Suc l, c) else (l, if l = 0 then Suc c else c))"

fun pos_of :: "u8 list \<Rightarrow> nat \<Rightarrow> nat \<Rightarrow> nat" where
  "pos_of [] l c = 0"
| "pos_of (x # xs) 0 c = (if c = 0 \<or> x = NL then 0 else Suc (pos_of xs 0 (c - 1)))"
| "pos_of (x # xs) (Suc l) c = Suc (pos_of xs (if x = NL then l else Suc l) c)"

definition line_count :: "u8 list \<Rightarrow> nat" where
  "line_count xs = Suc (count_list xs NL)"

fun line_length :: "u8 list \<Rightarrow> nat \<Rightarrow> nat" where
  "line_length [] l = 0"
| "line_length (x # xs) 0 = (if x = NL then 0 else Suc (line_length xs 0))"
| "line_length (x # xs) (Suc l) = line_length xs (if x = NL then l else Suc l)"

lemma pos_of_0 [simp]: "pos_of xs 0 0 = 0"
  by (cases xs) simp_all

lemma pos_of_line_col: "p \<le> length xs \<Longrightarrow> line_col xs p = (l, c) \<Longrightarrow> pos_of xs l c = p"
proof (induction xs p arbitrary: l c rule: line_col.induct)
  case (3 x xs p)
  obtain l' c' where lc: "line_col xs p = (l', c')" by fastforce
  have ih: "pos_of xs l' c' = p" using 3 lc by simp
  then show ?case using 3(3) lc by (cases l') (auto split: if_splits)
qed auto

lemma line_col_pos_of:
  "l < line_count xs \<Longrightarrow> line_col xs (pos_of xs l c) = (l, min c (line_length xs l))"
proof (induction xs l c rule: pos_of.induct)
  case (2 x xs c)
  then show ?case by (auto simp: line_count_def min_def)
next
  case (3 x xs l c)
  then show ?case by (auto simp: line_count_def)
qed (simp add: line_count_def)

lemma pos_of_le: "pos_of xs l c \<le> length xs"
  by (induction xs l c rule: pos_of.induct) auto

lemma line_col_lt: "line_col xs p = (l, c) \<Longrightarrow> l < line_count xs"
  by (induction xs p arbitrary: l c rule: line_col.induct) (auto simp: line_count_def split: prod.splits if_splits)

text \<open>The loops from the left compute the same: a step at the end of the prefix.\<close>

lemma line_col_snoc:
  "p < length xs \<Longrightarrow> line_col xs (Suc p) = (case line_col xs p of (l, c) \<Rightarrow> if xs ! p = NL then (Suc l, 0) else (l, Suc c))"
proof (induction xs p rule: line_col.induct)
  case (1 xs)
  then show ?case by (cases xs) auto
next
  case (3 x xs p)
  then show ?case by (auto split: prod.splits if_splits)
qed simp

lemma line_col_loop:
  "n \<le> length xs \<Longrightarrow> foldl (\<lambda>(line, col) i. if xs ! i = NL then (line + 1, 0) else (line, col + 1)) (0, 0) [0..<n] = line_col xs n"
  by (induction n) (simp_all add: line_col_snoc split: prod.splits)

lemma count_loop:
  "n \<le> length xs \<Longrightarrow> foldl (\<lambda>lines i. if xs ! i = NL then lines + 1 else lines) 1 [0..<n] = line_count (take n xs)"
  by (induction n) (simp_all add: line_count_def take_Suc_conv_app_nth)

lemma drop_take_Suc: "i < n \<Longrightarrow> n \<le> length buf \<Longrightarrow> drop i (take n buf) = buf ! i # drop (Suc i) (take n buf)"
  using Cons_nth_drop_Suc [of i "take n buf", symmetric] by simp

lemma line_scan_pos:
  "n \<le> length buf \<Longrightarrow> line \<le> target \<Longrightarrow> line_scan buf n target i line =
     (if i < n then i + pos_of (drop i (take n buf)) (target - line) 0 else n)"
proof (induction buf n target i line rule: line_scan.induct)
  case (1 buf n target i line)
  show ?case
  proof (cases "i < n")
    case True
    note d = drop_take_Suc [OF True 1(2)]
    show ?thesis
    proof (cases "line = target")
      case False
      then obtain k where k: "target - line = Suc k" using 1(3) by (metis Suc_diff_Suc le_neq_implies_less)
      have k': "target - Suc line = k" using k by simp
      show ?thesis
        using True False 1(1) [OF True False] 1(2,3) k k'
        by (cases "Suc i < n") (auto simp: line_scan.simps [of buf n target i line] d)
    qed (use True in \<open>simp add: line_scan.simps [of buf n target i target] d\<close>)
  qed (simp add: line_scan.simps [of buf n target i line])
qed

lemma forward_cols_pos:
  "n \<le> length buf \<Longrightarrow> pos \<le> n \<Longrightarrow> forward_cols buf n pos c = pos + pos_of (drop pos (take n buf)) 0 c"
proof (induction buf n pos c rule: forward_cols.induct)
  case (2 buf n pos c)
  show ?case
  proof (cases "pos < n")
    case True
    show ?thesis using True 2 by (simp add: drop_take_Suc [OF True 2(2)])
  qed (use 2 in simp)
qed simp

lemma pos_of_split: "pos_of xs l c = pos_of xs l 0 + pos_of (drop (pos_of xs l 0) xs) 0 c"
  by (induction xs l c rule: pos_of.induct) auto

section \<open>The editor's text\<close>

definition ed_ok :: "editor_state \<Rightarrow> bool" where
  "ed_ok ed \<longleftrightarrow> length (ed_buf ed) = EDIT_MAX_BYTES + 1 \<and> ed_len ed \<le> EDIT_MAX_BYTES
     \<and> ed_cursor ed \<le> ed_len ed \<and> ed_buf ed ! ed_len ed = 0
     \<and> length (ed_path ed) = EDIT_PATH_MAX \<and> length (ed_status ed) = EDIT_STATUS_MAX"

definition ed_text :: "editor_state \<Rightarrow> u8 list" where
  "ed_text ed = take (ed_len ed) (ed_buf ed)"

lemma ed_text_length: "ed_ok ed \<Longrightarrow> length (ed_text ed) = ed_len ed"
  by (simp add: ed_ok_def ed_text_def)

lemma line_col_for_pos_eq:
  assumes "ed_ok ed" "p \<le> ed_len ed"
  shows "line_col_for_pos ed p = line_col (ed_text ed) p"
proof -
  have l: "p \<le> length (ed_text ed)" using assms by (simp add: ed_text_length)
  have "foldl (\<lambda>(line, col) i. if ed_buf ed ! i = NL then (line + 1, 0) else (line, col + 1)) (0 :: nat, 0 :: nat) [0..<p]
      = foldl (\<lambda>(line, col) i. if ed_text ed ! i = NL then (line + 1, 0) else (line, col + 1)) (0 :: nat, 0 :: nat) [0..<p]"
    by (rule foldl_cong) (use assms in \<open>auto simp: ed_text_def\<close>)
  then show ?thesis using line_col_loop [OF l] assms(2) by (simp add: line_col_for_pos_def)
qed

lemma total_lines_eq:
  assumes "ed_ok ed"
  shows "total_lines ed = line_count (ed_text ed)"
  using count_loop [of "ed_len ed" "ed_buf ed"] assms by (simp add: total_lines_def ed_text_def ed_ok_def)

lemma pos_for_line_eq:
  assumes "ed_ok ed"
  shows "pos_for_line ed l = pos_of (ed_text ed) l 0"
  using line_scan_pos [of "ed_len ed" "ed_buf ed" 0 l 0] assms
  by (auto simp: pos_for_line_def ed_text_def ed_ok_def)

lemma pos_for_line_col_eq:
  assumes "ed_ok ed"
  shows "pos_for_line_col ed l c = pos_of (ed_text ed) l c"
proof -
  have le: "pos_of (ed_text ed) l 0 \<le> ed_len ed" using pos_of_le [of "ed_text ed" l 0] assms by (simp add: ed_text_length)
  have n: "ed_len ed \<le> length (ed_buf ed)" using assms by (simp add: ed_ok_def)
  show ?thesis
    using forward_cols_pos [OF n le, of c] pos_of_split [of "ed_text ed" l c]
    by (simp add: pos_for_line_col_def pos_for_line_eq [OF assms]) (simp add: ed_text_def)
qed

section \<open>The moving loops\<close>

lemma shift_right_nth:
  assumes "i < length buf"
  shows "length (shift_right buf c i) = length buf
    \<and> (\<forall>j < length buf. shift_right buf c i ! j = (if c < j \<and> j \<le> i then buf ! (j - 1) else buf ! j))"
  using assms
proof (induction i arbitrary: buf)
  case (Suc i)
  show ?case using Suc.IH [of "buf[Suc i := buf ! i]"] Suc.prems by (auto simp: nth_list_update le_Suc_eq)
qed simp

lemma shift_left_nth:
  assumes "n \<le> length buf"
  shows "length (shift_left buf n i) = length buf
    \<and> (\<forall>j < length buf. shift_left buf n i ! j = (if i \<le> j \<and> j + 1 < n then buf ! (j + 1) else buf ! j))"
  using assms
proof (induction buf n i rule: shift_left.induct)
  case (1 buf n i)
  show ?case
  proof (cases "i + 1 < n")
    case True
    have e: "j = i" if "i \<le> j" "\<not> Suc i \<le> j" for j using that by simp
    show ?thesis using True 1(1) [OF True] 1(2)
      by (subst (1 2) shift_left.simps) (auto simp: nth_list_update dest: e)
  qed (auto simp: shift_left.simps [of buf n i])
qed

lemma insert_moves:
  assumes "n + 1 < length buf" "c \<le> n"
  shows "take (Suc n) (((shift_right buf c n)[c := x])[n + 1 := 0]) = take c buf @ x # drop c (take n buf)"
    "length (((shift_right buf c n)[c := x])[n + 1 := 0]) = length buf"
    "((shift_right buf c n)[c := x])[n + 1 := 0] ! (n + 1) = 0"
proof -
  have s: "length (shift_right buf c n) = length buf"
    "\<And>j. j < length buf \<Longrightarrow> shift_right buf c n ! j = (if c < j \<and> j \<le> n then buf ! (j - 1) else buf ! j)"
    using shift_right_nth [of n buf c] assms by auto
  show "take (Suc n) (((shift_right buf c n)[c := x])[n + 1 := 0]) = take c buf @ x # drop c (take n buf)"
  proof (intro nth_equalityI)
    fix i
    assume "i < length (take (Suc n) (((shift_right buf c n)[c := x])[n + 1 := 0]))"
    then have i: "i \<le> n" "i < length buf" using assms s by auto
    consider "i < c" | "i = c" | k where "i = Suc (c + k)" by (metis less_imp_Suc_add linorder_neqE_nat)
    then show "take (Suc n) (((shift_right buf c n)[c := x])[n + 1 := 0]) ! i = (take c buf @ x # drop c (take n buf)) ! i"
      using assms i s by cases (auto simp: nth_append)
  qed (use assms s in simp)
  show "length (((shift_right buf c n)[c := x])[n + 1 := 0]) = length buf"
    "((shift_right buf c n)[c := x])[n + 1 := 0] ! (n + 1) = 0"
    using assms s by simp_all
qed

lemma delete_moves:
  assumes "n < length buf" "i < n"
  shows "take (n - 1) ((shift_left buf n i)[n - 1 := 0]) = take i buf @ drop (Suc i) (take n buf)"
    "length ((shift_left buf n i)[n - 1 := 0]) = length buf"
    "(shift_left buf n i)[n - 1 := 0] ! (n - 1) = 0"
proof -
  have s: "length (shift_left buf n i) = length buf"
    "\<And>j. j < length buf \<Longrightarrow> shift_left buf n i ! j = (if i \<le> j \<and> j + 1 < n then buf ! (j + 1) else buf ! j)"
    using shift_left_nth [of n buf i] assms by auto
  show "take (n - 1) ((shift_left buf n i)[n - 1 := 0]) = take i buf @ drop (Suc i) (take n buf)"
    using assms s by (intro nth_equalityI) (auto simp: nth_append)
  show "length ((shift_left buf n i)[n - 1 := 0]) = length buf" "(shift_left buf n i)[n - 1 := 0] ! (n - 1) = 0"
    using assms s by simp_all
qed

section \<open>Editing a text\<close>

text \<open>
  The specification: a text, a position in it, and the column that vertical moves remember.  An
  insertion into a full text is refused.
\<close>

record text_view =
  tv_text :: "u8 list"
  tv_pos :: nat
  tv_col :: "nat option"

definition tv_insert :: "u8 \<Rightarrow> text_view \<Rightarrow> text_view" where
  "tv_insert x v = (if length (tv_text v) \<ge> EDIT_MAX_BYTES then v
     else v\<lparr>tv_text := take (tv_pos v) (tv_text v) @ x # drop (tv_pos v) (tv_text v), tv_pos := tv_pos v + 1\<rparr>)"

definition tv_insert_all :: "u8 list \<Rightarrow> text_view \<Rightarrow> text_view" where
  "tv_insert_all xs v = fold tv_insert xs v"

definition tv_delete :: "nat \<Rightarrow> text_view \<Rightarrow> text_view" where
  "tv_delete i v = v\<lparr>tv_text := take i (tv_text v) @ drop (Suc i) (tv_text v)\<rparr>"

text \<open>The indentation of the line left of the position, tabs written as four blanks.\<close>

definition indentation :: "text_view \<Rightarrow> u8 list" where
  "indentation v =
     (let line = rev (takeWhile (\<lambda>x. x \<noteq> NL) (rev (take (tv_pos v) (tv_text v))))
      in concat (map (\<lambda>x. if x = TAB then replicate EDIT_TAB_SPACES SPACE else [SPACE]) (takeWhile (\<lambda>x. x = SPACE \<or> x = TAB) line)))"

definition tv_vertical :: "bool \<Rightarrow> text_view \<Rightarrow> text_view" where
  "tv_vertical up v =
     (let (l, c) = line_col (tv_text v) (tv_pos v);
          col = (case tv_col v of None \<Rightarrow> c | Some k \<Rightarrow> k);
          v1 = v\<lparr>tv_col := Some col\<rparr>
      in if up \<and> l > 0 then v1\<lparr>tv_pos := pos_of (tv_text v) (l - 1) col\<rparr>
         else if \<not> up \<and> l + 1 < line_count (tv_text v) then v1\<lparr>tv_pos := pos_of (tv_text v) (l + 1) col\<rparr>
         else v1)"

definition tv_key :: "text_view \<Rightarrow> int \<Rightarrow> text_view option" where
  "tv_key v key =
     (let plain = (\<lambda>v1. Some (v1\<lparr>tv_col := None\<rparr>)) in
      if key = KEY_LEFT then plain (v\<lparr>tv_pos := tv_pos v - 1\<rparr>)
      else if key = KEY_RIGHT then plain (v\<lparr>tv_pos := min (length (tv_text v)) (tv_pos v + 1)\<rparr>)
      else if key = KEY_UP \<or> key = KEY_DOWN then Some (tv_vertical (key = KEY_UP) v)
      else if key = KEY_DELETE then plain (tv_delete (tv_pos v) v)
      else if key = 8 then plain (if tv_pos v = 0 then v else (tv_delete (tv_pos v - 1) v)\<lparr>tv_pos := tv_pos v - 1\<rparr>)
      else if key = 9 then plain (tv_insert_all (replicate EDIT_TAB_SPACES SPACE) v)
      else if key = 10 then plain (tv_insert_all (NL # indentation v) v)
      else if 32 \<le> key \<and> key \<le> 126 then plain (tv_insert (of_int key) v)
      else None)"

definition ed_view :: "editor_state \<Rightarrow> text_view" where
  "ed_view ed = \<lparr>tv_text = ed_text ed, tv_pos = ed_cursor ed,
     tv_col = (if ed_keep_preferred_col ed then Some (ed_preferred_col ed) else None)\<rparr>"

text \<open>An operation that only inserts: its effect, and that the dirty flag records it.\<close>

definition grown :: "editor_state \<Rightarrow> editor_state \<Rightarrow> text_view \<Rightarrow> bool" where
  "grown ed ed' v \<longleftrightarrow> ed_ok ed' \<and> ed_view ed' = v \<and> ed_len ed \<le> ed_len ed'
     \<and> (ed_dirty ed' \<longleftrightarrow> ed_dirty ed \<or> ed_len ed < ed_len ed')"

lemma grown_trans: "grown ed ed1 v1 \<Longrightarrow> grown ed1 ed2 v2 \<Longrightarrow> grown ed ed2 v2"
  by (auto simp: grown_def)

lemma grown_refl: "ed_ok ed \<Longrightarrow> grown ed ed (ed_view ed)"
  by (simp add: grown_def)

lemma view_sel [simp]:
  "tv_text (ed_view ed) = ed_text ed" "tv_pos (ed_view ed) = ed_cursor ed"
  by (simp_all add: ed_view_def)

lemma status_ok [simp]: "ed_ok ed \<Longrightarrow> ed_ok (status_set ed m)" "ed_view (status_set ed m) = ed_view ed"
  "ed_len (status_set ed m) = ed_len ed" "ed_dirty (status_set ed m) = ed_dirty ed" "ed_text (status_set ed m) = ed_text ed"
  "ed_path (status_set ed m) = ed_path ed"
  by (simp_all add: ed_ok_def status_set_def ed_view_def ed_text_def)

lemma insert_grown:
  assumes ok: "ed_ok ed" and i: "insert_at_cursor ed c = (b, ed')"
  shows "grown ed ed' (tv_insert c (ed_view ed))" "b \<longleftrightarrow> ed_len ed < EDIT_MAX_BYTES"
proof -
  show b: "b \<longleftrightarrow> ed_len ed < EDIT_MAX_BYTES" using i by (auto simp: insert_at_cursor_def split: if_splits)
  show "grown ed ed' (tv_insert c (ed_view ed))"
  proof (cases "ed_len ed < EDIT_MAX_BYTES")
    case False
    then have "ed' = status_set ed (str ''editor: file limit reached (8 KiB)'')"
      using i by (simp add: insert_at_cursor_def)
    then show ?thesis using ok False by (simp add: grown_def tv_insert_def ed_text_length)
  next
    case True
    let ?b = "((shift_right (ed_buf ed) (ed_cursor ed) (ed_len ed))[ed_cursor ed := c])[ed_len ed + 1 := 0]"
    have e: "ed' = ed\<lparr>ed_buf := ?b, ed_cursor := ed_cursor ed + 1, ed_len := ed_len ed + 1, ed_dirty := True\<rparr>"
      using i True by (simp add: insert_at_cursor_def)
    have pre: "ed_len ed + 1 < length (ed_buf ed)" "ed_cursor ed \<le> ed_len ed" using ok True by (simp_all add: ed_ok_def)
    note m = insert_moves [OF pre, of c]
    have "ed_ok ed'" using ok m(2,3) True by (simp add: ed_ok_def e)
    moreover have "ed_text ed' = take (ed_cursor ed) (ed_text ed) @ c # drop (ed_cursor ed) (ed_text ed)"
      using m(1) pre(2) by (simp add: ed_text_def e min_def)
    ultimately show ?thesis
      using True ok by (simp add: grown_def tv_insert_def ed_text_length) (simp add: ed_view_def e)
  qed
qed

lemma insert_all_full: "length (tv_text v) \<ge> EDIT_MAX_BYTES \<Longrightarrow> tv_insert_all xs v = v"
  by (induction xs arbitrary: v) (simp_all add: tv_insert_all_def tv_insert_def)

lemma insert_all_Cons: "tv_insert_all (x # xs) v = tv_insert_all xs (tv_insert x v)"
  by (simp add: tv_insert_all_def)

lemma insert_all_append: "tv_insert_all (xs @ ys) v = tv_insert_all ys (tv_insert_all xs v)"
  by (simp add: tv_insert_all_def)

lemma insert_spaces_grown: "ed_ok ed \<Longrightarrow> grown ed (insert_spaces ed n) (tv_insert_all (replicate n SPACE) (ed_view ed))"
proof (induction n arbitrary: ed)
  case 0
  then show ?case by (simp add: tv_insert_all_def grown_refl)
next
  case (Suc n)
  obtain b ed1 where i: "insert_at_cursor ed SPACE = (b, ed1)" by fastforce
  note g = insert_grown [OF Suc.prems i]
  have v: "ed_view ed1 = tv_insert SPACE (ed_view ed)" "ed_ok ed1" using g(1) by (simp_all add: grown_def)
  show ?case
  proof (cases b)
    case True
    then show ?thesis using grown_trans [OF g(1) Suc.IH [OF v(2)]] i v by (simp add: insert_all_Cons)
  next
    case False
    then have "tv_insert_all (replicate (Suc n) SPACE) (ed_view ed) = ed_view ed" "tv_insert SPACE (ed_view ed) = ed_view ed"
      using g(2) Suc.prems by (simp_all add: insert_all_full ed_text_length tv_insert_def)
    then show ?thesis using False i g(1) by simp
  qed
qed

text \<open>Insertions leave the text in front of the position alone.\<close>

lemma insert_all_prefix:
  "p \<le> tv_pos v \<Longrightarrow> tv_pos v \<le> length (tv_text v) \<Longrightarrow>
   take p (tv_text (tv_insert_all xs v)) = take p (tv_text v) \<and> tv_pos v \<le> tv_pos (tv_insert_all xs v)
   \<and> tv_pos (tv_insert_all xs v) \<le> length (tv_text (tv_insert_all xs v))"
proof (induction xs arbitrary: v)
  case (Cons x xs)
  have "p \<le> tv_pos (tv_insert x v)" "tv_pos (tv_insert x v) \<le> length (tv_text (tv_insert x v))"
    "take p (tv_text (tv_insert x v)) = take p (tv_text v)" "tv_pos v \<le> tv_pos (tv_insert x v)"
    using Cons.prems by (auto simp: tv_insert_def)
  with Cons.IH [of "tv_insert x v"] show ?case by (simp add: insert_all_Cons)
qed (simp add: tv_insert_all_def)

definition blanks :: "u8 list \<Rightarrow> u8 list" where
  "blanks line = concat (map (\<lambda>x. if x = TAB then replicate EDIT_TAB_SPACES SPACE else [SPACE]) (takeWhile (\<lambda>x. x = SPACE \<or> x = TAB) line))"

lemma blanks_simps [simp]:
  "blanks [] = []" "blanks (x # xs) = (if x = SPACE then SPACE # blanks xs else if x = TAB then replicate EDIT_TAB_SPACES SPACE @ blanks xs else [])"
  by (simp_all add: blanks_def)

lemma indent_loop_grown:
  "ed_ok ed \<Longrightarrow> i \<le> p \<Longrightarrow> p < ed_cursor ed \<Longrightarrow> ed_text ed ! p = NL \<Longrightarrow> NL \<notin> set (drop i (take p (ed_text ed))) \<Longrightarrow>
   grown ed (indent_loop ed i) (tv_insert_all (blanks (drop i (take p (ed_text ed)))) (ed_view ed))"
proof (induction ed i rule: indent_loop.induct)
  case (1 ed i)
  have cur: "ed_cursor ed \<le> ed_len ed" "ed_len ed \<le> length (ed_buf ed)" using 1(3) by (simp_all add: ed_ok_def)
  have bt: "ed_buf ed ! j = ed_text ed ! j" if "j < ed_len ed" for j using that by (simp add: ed_text_def)
  show ?case
  proof (cases "i = p")
    case True
    then have "ed_buf ed ! i = NL" using bt 1(5,6) cur by simp
    then show ?thesis using True 1(3) by (simp add: indent_loop.simps [of ed p] tv_insert_all_def grown_refl)
  next
    case False
    then have ip: "i < p" using 1(4) by simp
    let ?x = "ed_text ed ! i"
    have d: "drop i (take p (ed_text ed)) = ?x # drop (Suc i) (take p (ed_text ed))"
      using ip cur 1(5) ed_text_length [OF 1(3)] by (intro drop_take_Suc) simp_all
    have x: "ed_buf ed ! i = ?x" "i < ed_len ed" "?x \<noteq> NL"
      using bt [of i] ip 1(5) cur 1(7) d by simp_all
    have keep: "p < ed_cursor ed1 \<and> ed_text ed1 ! p = NL \<and> take p (ed_text ed1) = take p (ed_text ed)"
      if g: "grown ed ed1 (tv_insert_all xs (ed_view ed))" for ed1 xs
    proof -
      have "take (Suc p) (ed_text ed1) = take (Suc p) (ed_text ed)" "p < ed_cursor ed1" "ed_cursor ed1 \<le> length (ed_text ed1)"
        using insert_all_prefix [of "Suc p" "ed_view ed" xs] g 1(5) cur ed_text_length [OF 1(3)]
        by (simp_all add: grown_def flip: view_sel)
      then show ?thesis using 1(6) 1(5) cur ed_text_length [OF 1(3)]
        by (metis (no_types, lifting) Suc_leI diff_le_self lessI less_imp_le nth_take take_take min.absorb1)
    qed
    consider "?x = SPACE" | "?x = TAB" | "?x \<noteq> SPACE" "?x \<noteq> TAB" by blast
    then show ?thesis
    proof cases
      case 1
      obtain b ed1 where i1: "insert_at_cursor ed SPACE = (b, ed1)" by fastforce
      note g = insert_grown [OF \<open>ed_ok ed\<close> i1]
      have g': "grown ed ed1 (tv_insert_all [SPACE] (ed_view ed))" using g(1) by (simp add: tv_insert_all_def)
      show ?thesis
      proof (cases b)
        case True
        have "grown ed1 (indent_loop ed1 (i + 1)) (tv_insert_all (blanks (drop (i + 1) (take p (ed_text ed1)))) (ed_view ed1))"
        proof (rule "1.IH"(1) [of b ed1])
          show "NL \<notin> set (drop (i + 1) (take p (ed_text ed1)))"
            using "1.prems"(5) keep [OF g'] d by simp
        qed (use 1 x True i1 g(1) keep [OF g'] ip in \<open>simp_all add: grown_def\<close>)
        from grown_trans [OF g(1) this] show ?thesis
          using 1 x True i1 keep [OF g'] g(1)
          by (simp add: indent_loop.simps [of ed i] d insert_all_Cons grown_def)
      next
        case False
        then have f: "tv_insert_all xs (ed_view ed) = ed_view ed" for xs
          using g(2) \<open>ed_ok ed\<close> by (simp add: insert_all_full ed_text_length)
        show ?thesis using 1 x False i1 g' by (simp add: indent_loop.simps [of ed i] f)
      qed
    next
      case 2
      let ?e = "insert_spaces ed EDIT_TAB_SPACES"
      have g: "grown ed ?e (tv_insert_all (replicate EDIT_TAB_SPACES SPACE) (ed_view ed))"
        by (rule insert_spaces_grown) fact
      have "grown ?e (indent_loop ?e (i + 1)) (tv_insert_all (blanks (drop (i + 1) (take p (ed_text ?e)))) (ed_view ?e))"
      proof (rule "1.IH"(2))
        show "NL \<notin> set (drop (i + 1) (take p (ed_text ?e)))" using "1.prems"(5) keep [OF g] d by simp
      qed (use 2 x g keep [OF g] ip in \<open>simp_all add: grown_def del: insert_spaces.simps\<close>)
      from grown_trans [OF g this] show ?thesis
        using 2 x keep [OF g] g
        by (simp add: indent_loop.simps [of ed i] d insert_all_append grown_def del: insert_spaces.simps)
    next
      case 3
      then show ?thesis using x \<open>ed_ok ed\<close> by (simp add: indent_loop.simps [of ed i] d tv_insert_all_def grown_refl)
    qed
  qed
qed

lemma back_to_start_le: "back_to_start buf p \<le> p"
  by (induction p) auto

lemma back_to_start_line:
  "p \<le> length buf \<Longrightarrow> drop (back_to_start buf p) (take p buf) = rev (takeWhile (\<lambda>x. x \<noteq> NL) (rev (take p buf)))"
proof (induction p)
  case (Suc p)
  then show ?case using back_to_start_le [of buf p] by (simp add: take_Suc_conv_app_nth)
qed simp

lemma newline_grown:
  assumes ok: "ed_ok ed"
  shows "grown ed (insert_newline_with_indent ed) (tv_insert_all (NL # indentation (ed_view ed)) (ed_view ed))"
proof -
  obtain b ed1 where i: "insert_at_cursor ed NL = (b, ed1)" by fastforce
  note g = insert_grown [OF ok i]
  show ?thesis
  proof (cases b)
    case False
    then have f: "tv_insert_all xs (ed_view ed) = ed_view ed" for xs
      using g(2) ok by (simp add: insert_all_full ed_text_length)
    have "tv_insert NL (ed_view ed) = ed_view ed" using f [of "[NL]"] by (simp add: tv_insert_all_def)
    then show ?thesis using False i g(1) by (simp add: insert_newline_with_indent_def f)
  next
    case True
    let ?c = "ed_cursor ed"
    have cur: "?c \<le> ed_len ed" and lt: "length (ed_text ed) = ed_len ed" and len: "ed_len ed < 8192"
      using ok g(2) True by (simp_all add: ed_ok_def ed_text_length)
    have ok1: "ed_ok ed1" and v: "ed_view ed1 = tv_insert NL (ed_view ed)" using g(1) by (simp_all add: grown_def)
    have t: "ed_text ed1 = take ?c (ed_text ed) @ NL # drop ?c (ed_text ed)" "ed_cursor ed1 = ?c + 1"
      using arg_cong [OF v, of tv_text] arg_cong [OF v, of tv_pos] lt len by (simp_all add: tv_insert_def)
    have len1: "ed_len ed1 = ed_len ed + 1" using ed_text_length [OF ok1] t(1) cur lt by simp
    have "take ?c (ed_text ed1) = take ?c (ed_text ed)" using t(1) cur lt by simp
    moreover have "take ?c (ed_text ed1) = take ?c (ed_buf ed1)" using cur len1 by (simp add: ed_text_def min_def)
    ultimately have tk: "take ?c (ed_buf ed1) = take ?c (ed_text ed)" by simp
    let ?s = "line_start_for_pos ed1 (ed_cursor ed1 - 1)"
    have s: "?s = back_to_start (ed_buf ed1) ?c" using len1 cur by (simp add: line_start_for_pos_def t(2))
    have "?c \<le> length (ed_buf ed1)" using ok1 len1 cur by (simp add: ed_ok_def)
    from back_to_start_line [OF this] have line: "drop ?s (take ?c (ed_text ed1)) = rev (takeWhile (\<lambda>x. x \<noteq> NL) (rev (take ?c (ed_text ed))))"
      unfolding s using cur lt by (simp add: tk t(1))
    have "grown ed1 (indent_loop ed1 ?s) (tv_insert_all (blanks (drop ?s (take ?c (ed_text ed1)))) (ed_view ed1))"
    proof (rule indent_loop_grown [OF ok1])
      show "?s \<le> ?c" using back_to_start_le s by simp
      show "NL \<notin> set (drop ?s (take ?c (ed_text ed1)))" unfolding line by (auto dest: set_takeWhileD)
    qed (use t cur lt in \<open>simp_all add: nth_append\<close>)
    from grown_trans [OF g(1) this [unfolded line v]] show ?thesis
      using True i by (simp add: insert_newline_with_indent_def insert_all_Cons indentation_def blanks_def Let_def)
  qed
qed

section \<open>Every editing key refines the specification\<close>

lemma delete_edit:
  assumes ok: "ed_ok ed" and i: "i < ed_len ed" "c \<le> ed_len ed - 1"
  defines "ed' \<equiv> ed\<lparr>ed_buf := (shift_left (ed_buf ed) (ed_len ed) i)[ed_len ed - 1 := 0], ed_cursor := c, ed_len := ed_len ed - 1, ed_dirty := True\<rparr>"
  shows "ed_ok ed'" "ed_text ed' = take i (ed_text ed) @ drop (Suc i) (ed_text ed)" "ed_text ed' \<noteq> ed_text ed"
proof -
  have n: "ed_len ed < length (ed_buf ed)" using ok by (simp add: ed_ok_def)
  note m = delete_moves [OF n i(1)]
  show ok': "ed_ok ed'" using ok m(2,3) i by (auto simp: ed_ok_def ed'_def)
  show "ed_text ed' = take i (ed_text ed) @ drop (Suc i) (ed_text ed)"
    using m(1) i by (simp add: ed_text_def ed'_def)
  have "length (ed_text ed') \<noteq> length (ed_text ed)"
    using i by (simp add: ed_text_length [OF ok] ed_text_length [OF ok']) (simp add: ed'_def)
  then show "ed_text ed' \<noteq> ed_text ed" by metis
qed

definition refines_key :: "editor_state \<Rightarrow> editor_state \<Rightarrow> text_view \<Rightarrow> bool" where
  "refines_key ed ed' v \<longleftrightarrow> ed_ok ed' \<and> ed_view ed' = v \<and> (ed_dirty ed' \<longleftrightarrow> ed_dirty ed \<or> ed_text ed' \<noteq> ed_text ed)"

lemma grown_refines:
  assumes "grown ed ed' v" "ed_ok ed"
    and t: "length (tv_text v) > length (ed_text ed) \<or> tv_text v = ed_text ed"
  shows "refines_key ed (ed'\<lparr>ed_keep_preferred_col := False\<rparr>) (v\<lparr>tv_col := None\<rparr>)"
proof -
  have "ed_len ed < ed_len ed' \<longleftrightarrow> ed_text ed' \<noteq> ed_text ed"
    using assms ed_text_length [of ed] ed_text_length [of ed'] by (auto simp: grown_def)
  then show ?thesis using assms by (auto simp: grown_def refines_key_def ed_ok_def ed_view_def ed_text_def)
qed

lemma insert_all_longer: "length (tv_text (tv_insert_all xs v)) > length (tv_text v) \<or> tv_insert_all xs v = v"
proof (induction xs arbitrary: v)
  case (Cons x xs)
  have "length (tv_text (tv_insert x v)) > length (tv_text v) \<or> tv_insert x v = v" by (auto simp: tv_insert_def)
  then show ?case using Cons [of "tv_insert x v"] by (auto simp: insert_all_Cons)
qed (simp add: tv_insert_all_def)

lemma move_refines:
  assumes "ed_ok ed" "c \<le> ed_len ed"
  shows "refines_key ed (ed\<lparr>ed_cursor := c, ed_keep_preferred_col := k, ed_preferred_col := pc\<rparr>)
    ((ed_view ed)\<lparr>tv_pos := c, tv_col := (if k then Some pc else None)\<rparr>)"
  using assms by (simp add: refines_key_def ed_ok_def ed_view_def ed_text_def)

lemma vertical_refines:
  assumes ok: "ed_ok ed"
  shows "refines_key ed (up_down ed up) (tv_vertical up (ed_view ed))"
proof -
  let ?t = "ed_text ed"
  have cur: "ed_cursor ed \<le> ed_len ed" using ok by (simp add: ed_ok_def)
  obtain l c where lc: "line_col ?t (ed_cursor ed) = (l, c)" by fastforce
  define col where "col = (if ed_keep_preferred_col ed then ed_preferred_col ed else c)"
  let ?e = "ed\<lparr>ed_keep_preferred_col := True, ed_preferred_col := col\<rparr>"
  have ok1: "ed_ok ?e" and t1: "ed_text ?e = ?t" using ok by (simp_all add: ed_ok_def ed_text_def)
  have e: "(if \<not> ed_keep_preferred_col ed then ed\<lparr>ed_preferred_col := c, ed_keep_preferred_col := True\<rparr> else ed) = ?e"
    by (simp add: col_def)
  have p: "pos_of ?t k col \<le> ed_len ed" for k using pos_of_le [of ?t k col] ok by (simp add: ed_text_length)
  have u: "up_down ed up = (if up \<and> l > 0 then ?e\<lparr>ed_cursor := pos_of ?t (l - 1) col\<rparr>
      else if \<not> up \<and> l + 1 < line_count ?t then ?e\<lparr>ed_cursor := pos_of ?t (l + 1) col\<rparr> else ?e)"
    unfolding up_down_def line_col_for_pos_eq [OF ok cur] lc
    by (simp only: Let_def split e pos_for_line_col_eq [OF ok1] total_lines_eq [OF ok1] t1) simp
  have v: "tv_vertical up (ed_view ed) = (if up \<and> l > 0 then (ed_view ed)\<lparr>tv_col := Some col, tv_pos := pos_of ?t (l - 1) col\<rparr>
      else if \<not> up \<and> l + 1 < line_count ?t then (ed_view ed)\<lparr>tv_col := Some col, tv_pos := pos_of ?t (l + 1) col\<rparr>
      else (ed_view ed)\<lparr>tv_col := Some col\<rparr>)"
    by (simp add: tv_vertical_def lc Let_def col_def) (simp add: ed_view_def)
  show ?thesis
    unfolding u v using move_refines [OF ok p, where k = True and pc = col] move_refines [OF ok cur, where k = True and pc = col]
    by (simp add: refines_key_def ed_view_def ed_ok_def ed_text_def)
qed

lemma edit_key_refines:
  assumes ok: "ed_ok ed"
  shows "case edit_key ed key of
      None \<Rightarrow> tv_key (ed_view ed) key = None
    | Some ed' \<Rightarrow> (case tv_key (ed_view ed) key of None \<Rightarrow> False | Some v \<Rightarrow> refines_key ed ed' v)"
proof -
  have cur: "ed_cursor ed \<le> ed_len ed" and lt: "length (ed_text ed) = ed_len ed" using ok by (simp_all add: ed_ok_def ed_text_length)
  have plain_move: "refines_key ed (ed\<lparr>ed_cursor := c, ed_keep_preferred_col := False\<rparr>) ((ed_view ed)\<lparr>tv_pos := c, tv_col := None\<rparr>)"
    if "c \<le> ed_len ed" for c
    using move_refines [OF ok that, where k = False and pc = "ed_preferred_col ed"] by simp
  have plain_same: "refines_key ed (ed\<lparr>ed_keep_preferred_col := False\<rparr>) ((ed_view ed)\<lparr>tv_col := None\<rparr>)"
    using plain_move [OF cur] by (simp add: ed_view_def)
  have ins: "refines_key ed ((snd (insert_at_cursor ed c))\<lparr>ed_keep_preferred_col := False\<rparr>) ((tv_insert c (ed_view ed))\<lparr>tv_col := None\<rparr>)" for c
    using insert_grown(1) [OF ok, of c] insert_all_longer [of "ed_view ed" "[c]"]
    by (cases "insert_at_cursor ed c") (auto intro!: grown_refines ok simp: tv_insert_all_def)
  have many: "refines_key ed (ed'\<lparr>ed_keep_preferred_col := False\<rparr>) ((tv_insert_all xs (ed_view ed))\<lparr>tv_col := None\<rparr>)"
    if "grown ed ed' (tv_insert_all xs (ed_view ed))" for ed' xs
    using insert_all_longer [of "ed_view ed" xs] by (intro grown_refines [OF that ok]) auto
  have del: "refines_key ed ((delete_forward ed)\<lparr>ed_keep_preferred_col := False\<rparr>) ((tv_delete (ed_cursor ed) (ed_view ed))\<lparr>tv_col := None\<rparr>)"
  proof (cases "ed_cursor ed < ed_len ed")
    case True
    then show ?thesis using delete_edit [OF ok True, of "ed_cursor ed"]
      by (simp add: refines_key_def delete_forward_def tv_delete_def ed_ok_def ed_view_def ed_text_def)
  next
    case False
    then show ?thesis using plain_same lt by (simp add: delete_forward_def tv_delete_def ed_view_def)
  qed
  have bsp: "refines_key ed ((delete_backspace ed)\<lparr>ed_keep_preferred_col := False\<rparr>)
      ((if ed_cursor ed = 0 then ed_view ed else (tv_delete (ed_cursor ed - 1) (ed_view ed))\<lparr>tv_pos := ed_cursor ed - 1\<rparr>)\<lparr>tv_col := None\<rparr>)"
  proof (cases "ed_cursor ed = 0")
    case True
    then show ?thesis using plain_same by (simp add: delete_backspace_def)
  next
    case False
    then have b: "ed_cursor ed - 1 < ed_len ed" "ed_cursor ed - 1 \<le> ed_len ed - 1" "ed_len ed \<noteq> 0" using cur by auto
    show ?thesis using b delete_edit [OF ok b(1,2)] False
      by (simp add: refines_key_def delete_backspace_def tv_delete_def ed_ok_def ed_view_def ed_text_def)
  qed
  have left: "refines_key ed ((if ed_cursor ed > 0 then ed\<lparr>ed_cursor := ed_cursor ed - 1\<rparr> else ed)\<lparr>ed_keep_preferred_col := False\<rparr>)
      ((ed_view ed)\<lparr>tv_pos := ed_cursor ed - 1, tv_col := None\<rparr>)"
    using plain_move [of "ed_cursor ed - 1"] cur plain_same by (cases "ed_cursor ed") (simp_all add: ed_view_def)
  have right: "refines_key ed ((if ed_cursor ed < ed_len ed then ed\<lparr>ed_cursor := ed_cursor ed + 1\<rparr> else ed)\<lparr>ed_keep_preferred_col := False\<rparr>)
      ((ed_view ed)\<lparr>tv_pos := min (length (ed_text ed)) (ed_cursor ed + 1), tv_col := None\<rparr>)"
  proof (cases "ed_cursor ed < ed_len ed")
    case True
    then have "min (length (ed_text ed)) (ed_cursor ed + 1) = ed_cursor ed + 1" using lt by simp
    then show ?thesis using plain_move [of "ed_cursor ed + 1"] True by simp
  next
    case False
    then have "min (length (ed_text ed)) (ed_cursor ed + 1) = ed_cursor ed" using lt cur by simp
    then show ?thesis using False plain_same by (simp add: ed_view_def)
  qed
  note all = left right vertical_refines [OF ok, of "key = KEY_UP"] del bsp
    many [OF insert_spaces_grown [OF ok]] many [OF newline_grown [OF ok]] ins
  show ?thesis
    using all unfolding edit_key_def tv_key_def Let_def view_sel by (simp del: insert_spaces.simps)
qed

end
