(* ===== verification/Editor_Files.thy ===== *)
theory Editor_Files
  imports Editor_Buffer
begin

text \<open>
  Saving and loading: the editor as a client of the virtual file system.  A write looks at no more of its
  buffer than it was asked to; a save puts the text of the buffer into the file; the load loop brings
  the content of a file of at most 8192 bytes back.
\<close>

section \<open>A write reads only its length of the data\<close>

lemma mem_copy_take: "n \<le> m \<Longrightarrow> mem_copy d (take m s) n = mem_copy d s n"
  by (induction n) (simp_all add: rd_def)

lemma write_loop_take:
  "copied \<le> len \<Longrightarrow> sfs_write_loop dev start offset (take (unat len) data) len copied d = sfs_write_loop dev start offset data len copied d"
proof (induction "unat (len - copied)" arbitrary: copied d rule: less_induct)
  case less
  show ?case
  proof (cases "copied < len")
    case True
    let ?k = "chunk_len offset len copied"
    note b = chunk_len_bounds [OF True, of offset]
    have k: "unat ?k \<le> unat len - unat copied"
      using b(2) unat_sub [OF less_imp_le [OF True]] by (simp add: word_le_nat_alt)
    have bl: "blit s i (drop (unat copied) (take (unat len) data)) (unat ?k) = blit s i (drop (unat copied) data) (unat ?k)" for s i
      using mem_copy_take [OF k] by (simp add: blit_def drop_take)
    have le: "copied + ?k \<le> len"
    proof -
      have "copied + x \<le> len" if "x \<le> len - copied" for x using that True by unat_arith
      then show ?thesis using b(2) by blast
    qed
    note ih = less.hyps [OF chunk_len_progress [OF True, of offset] le]
    show ?thesis
      by (subst (1 2) sfs_write_loop.simps) (simp add: True Let_def bl ih split: prod.splits bool.splits)
  qed (simp add: sfs_write_loop.simps)
qed

lemma sfs_write_take: "sfs_write dev st n off (take (unat len) data) len = sfs_write dev st n off data len"
  unfolding sfs_write_def write_loop_take [OF word_zero_le] by (rule refl)

lemma vfs_write_take: "vfs_write dev st fd (take (unat len) data) len = vfs_write dev st fd data len"
  by (simp add: vfs_write_def sfs_write_take)

section \<open>Opening a file that exists\<close>

text \<open>A descriptor is free, and where \<^verbatim>\<open>vfs_open\<close> finds it.\<close>

definition free_fd :: "'d vfs_state \<Rightarrow> nat \<Rightarrow> bool" where
  "free_fd st i \<longleftrightarrow> length (g_fds st) = 16 \<and> for_find (\<lambda>i. fd_used (g_fds st ! i) = 0) 0 VFS_MAX_FDS = Some i"

abbreviation fd_on :: "u32 \<Rightarrow> u32 \<Rightarrow> vfs_fd" where
  "fd_on n flags \<equiv> \<lparr>fd_used = 1, fd_node_id = n, fd_offset = 0, fd_flags = flags\<rparr>"

definition node_at :: "'d vfs_state \<Rightarrow> int \<Rightarrow> u8 list \<Rightarrow> u32 \<Rightarrow> bool" where
  "node_at st session path n \<longleftrightarrow> sfs_resolve (fs st) path (ctx_cwd (vfs_context_for_session st session)) = Some n
     \<and> is_file_node (fs st) n \<and> e_perm (ent (fs st) n) AND SFS_PERM_WRITE \<noteq> 0 \<and> e_perm (ent (fs st) n) AND SFS_PERM_READ \<noteq> 0"

lemma free_fd_less: "free_fd st i \<Longrightarrow> i < 16 \<and> length (g_fds st) = 16"
  by (auto simp: free_fd_def dest: for_find_SomeD)

lemma open_existing:
  assumes "node_at st session path n" "free_fd st i"
    and "flags AND VFS_O_TRUNC \<noteq> 0 \<Longrightarrow> sfs_truncate dev (fs st) n = (True, f)"
  shows "vfs_open dev st session path flags
    = (int i, st\<lparr>fs := if flags AND VFS_O_TRUNC \<noteq> 0 then f else fs st, g_fds := (g_fds st)[i := fd_on n flags]\<rparr>)"
  using assms by (simp add: vfs_open_def node_at_def free_fd_def Let_def)

lemma truncate_total:
  assumes "reliable_client dev sec" "store_ok st" "node_at st session path n"
  shows "\<exists>f. sfs_truncate dev (fs st) n = (True, f) \<and> same_tree (fs st) f \<and> fs_tree f \<and> extents_ok f
    \<and> next_free f = next_free (fs st) \<and> abs_files sec f = (abs_files sec (fs st))(n \<mapsto> [])"
proof -
  let ?f = "fs st" and ?s = "upd_ent (fs st) n (\<lambda>e. e\<lparr>e_size := 0\<rparr>)"
  have n: "is_file_node ?f n" "e_perm (ent ?f n) AND SFS_PERM_WRITE \<noteq> 0" using assms(3) by (simp_all add: node_at_def)
  have t: "fs_tree ?f" "extents_ok ?f" using assms(2) by (simp_all add: store_ok_def)
  have l: "layout_ok ?f" using t(1) by (rule fs_tree_layout)
  have "same_tree ?f ?s" by (rule same_tree_upd [OF l is_file_less [OF n(1)]]) simp
  then have "layout_ok ?s" using l by (simp add: same_tree_def)
  then obtain f where fl: "sfs_flush dev ?s = (True, f)" using reliable_client.flush_total [OF assms(1)] by blast
  then have s: "sfs_truncate dev ?f n = (True, f)" using n by (simp add: sfs_truncate_def)
  note T = truncate_same [OF l s]
  have "next_free f = next_free ?f"
    using s by (cases rule: sfs_truncate_cases) (simp_all add: next_free_def upd_ent_def)
  then show ?thesis
    using s T t same_tree_tree [OF T(1)]
      sfs_client.truncate_files [OF reliable_client.sfs_client_here [OF assms(1)] l t(2) s] by blast
qed

lemma same_tree_follow:
  assumes "same_tree st st'"
  shows "follow st' i ps = follow st i ps"
proof -
  have c: "sfs_find_child st' j nm = sfs_find_child st j nm" for j nm
  proof -
    have "g_entries st ! k = ent st (of_nat k)" "g_entries st' ! k = ent st' (of_nat k)" if "k < 64" for k
      using that by (simp_all add: ent_def unat_of_nat)
    then show ?thesis
      using assms by (auto simp: sfs_find_child_def same_tree_def intro!: arg_cong [of _ _ "map_option of_nat"] for_find_cong)
  qed
  show ?thesis
    using assms by (induction ps arbitrary: i) (simp_all add: c same_tree_def split: option.splits)
qed

lemma node_at_same:
  assumes "node_at st session path n" "same_tree (fs st) (fs st')" "g_vfs_ctx st' = g_vfs_ctx st"
  shows "node_at st' session path n"
  using assms same_tree_live(2) [OF assms(2)]
  by (simp add: node_at_def sfs_resolve_follow same_tree_follow [OF assms(2)] vfs_context_for_session_def walk_start_def)
    (auto simp: same_tree_def split: if_splits)

section \<open>Saving\<close>

lemma save_content:
  assumes R: "reliable_client dev sec" and st: "store_ok st" and ed: "ed_ok ed"
    and n: "node_at st session path n" and i: "free_fd st i"
    and room: "next_free (fs st) + sectors_for (ed_len ed) \<le> 65536"
  shows "\<exists>st1. save_to_path dev session st ed path = (True, status_set (ed\<lparr>ed_dirty := False\<rparr>) (str ''saved''), st1)
    \<and> store_ok st1 \<and> content sec (fs st1) n = ed_text ed \<and> same_tree (fs st) (fs st1) \<and> g_vfs_ctx st1 = g_vfs_ctx st
    \<and> (\<forall>j. j \<noteq> n \<longrightarrow> abs_files sec (fs st1) j = abs_files sec (fs st) j)
    \<and> length (g_fds st1) = 16 \<and> (\<forall>j. (fd_used (g_fds st1 ! j) = 0) = (fd_used (g_fds st ! j) = 0))"
proof -
  obtain f where f: "sfs_truncate dev (fs st) n = (True, f)" "same_tree (fs st) f" "fs_tree f" "extents_ok f"
      "next_free f = next_free (fs st)" "abs_files sec f = (abs_files sec (fs st))(n \<mapsto> [])"
    using truncate_total [OF R st n] by blast
  let ?fl = "VFS_O_WRITE OR VFS_O_CREATE OR VFS_O_TRUNC"
  let ?st = "st\<lparr>fs := f, g_fds := (g_fds st)[i := fd_on n ?fl]\<rparr>"
  note il = free_fd_less [OF i]
  have o: "vfs_open dev st session path ?fl = (int i, ?st)"
    using open_existing [OF n i, of ?fl dev f] f(1) by simp
  have isf: "is_file_node f n" using same_tree_live(2) [OF f(2)] n by (simp add: node_at_def)
  have at: "fd_at ?st (int i) VFS_O_WRITE n 0"
    using il isf by (simp add: fd_at_def fd_usable_def)
  have pm: "e_perm (ent (fs ?st) n) AND SFS_PERM_WRITE \<noteq> 0" using n f(2) by (simp add: node_at_def same_tree_def)
  have len: "length (ed_text ed) = ed_len ed" "ed_len ed \<le> 8192" using ed by (simp_all add: ed_text_length) (simp add: ed_ok_def)
  have ov: "0 + length (ed_text ed) + 511 < 2 ^ 32" using len by simp
  have rm: "next_free (fs ?st) + sectors_for (0 + length (ed_text ed)) \<le> 65536" using room f(5) len by simp
  have ok: "store_ok ?st" using f(3,4) by (simp add: store_ok_def)
  obtain st2 where w: "vfs_write dev ?st (int i) (ed_text ed) (of_nat (length (ed_text ed))) = (of_nat (length (ed_text ed)), st2)"
      "store_ok st2" "same_tree (fs ?st) (fs st2)"
      "content sec (fs st2) n = overwrite (content sec (fs ?st) n) 0 (ed_text ed)"
      "\<forall>j. j \<noteq> n \<longrightarrow> abs_files sec (fs st2) j = abs_files sec (fs ?st) j"
      "g_vfs_ctx st2 = g_vfs_ctx ?st" "\<forall>j. j \<noteq> nat (int i) \<longrightarrow> g_fds st2 ! j = g_fds ?st ! j"
      "fd_at st2 (int i) VFS_O_WRITE n (0 + length (ed_text ed))"
    using write_seq_step [OF R ok at pm ov rm] by blast
  have u: "unat (of_nat (ed_len ed) :: u32) = ed_len ed" using len(2) by (simp add: unat_of_nat)
  have wb: "vfs_write dev ?st (int i) (ed_buf ed) (of_nat (ed_len ed)) = (of_nat (ed_len ed), st2)"
    using vfs_write_take [of dev ?st "int i" "of_nat (ed_len ed)" "ed_buf ed"] w(1) len(1) u by (simp add: ed_text_def)
  let ?st3 = "vfs_close st2 (int i)"
  have s: "save_to_path dev session st ed path = (True, status_set (ed\<lparr>ed_dirty := False\<rparr>) (str ''saved''), ?st3)"
    using o wb u by (simp add: save_to_path_def Let_def)
  have "abs_files sec f n = Some []" using f(6) by simp
  then have "content sec f n = []" using isf by (simp add: abs_files_def)
  then have c: "content sec (fs st2) n = ed_text ed" using w(4) by (simp add: overwrite_def)
  have cl: "fs ?st3 = fs st2" "g_vfs_ctx ?st3 = g_vfs_ctx st2" "length (g_fds ?st3) = 16"
    using w(8) by (auto simp: vfs_close_def fd_at_def)
  have "fd_used (g_fds st ! i) = 0" using i by (auto simp: free_fd_def for_find_Some_iff)
  then have "(fd_used (g_fds ?st3 ! j) = 0) = (fd_used (g_fds st ! j) = 0)" for j
    using w(7,8) il by (cases "j = i") (auto simp: vfs_close_def fd_at_def)
  then show ?thesis
    using s w(2,5,6) c cl f(2,6) same_tree_trans [OF f(2)] w(3) by (intro exI [of _ ?st3]) (simp add: store_ok_def)
qed

section \<open>Loading\<close>

lemma load_bytes_text:
  assumes "length (ed_buf ed) = 8193" "ed_len ed + length bs \<le> EDIT_MAX_BYTES"
  shows "\<exists>b. load_bytes ed bs = (False, ed\<lparr>ed_buf := b, ed_len := ed_len ed + length bs\<rparr>) \<and> length b = 8193
    \<and> take (ed_len ed + length bs) b = ed_text ed @ bs"
  using assms
proof (induction bs arbitrary: ed)
  case Nil
  then show ?case by (intro exI [of _ "ed_buf ed"]) (simp add: ed_text_def)
next
  case (Cons x bs)
  let ?e = "ed\<lparr>ed_buf := (ed_buf ed)[ed_len ed := x], ed_len := ed_len ed + 1\<rparr>"
  have t: "ed_text ?e = ed_text ed @ [x]" using Cons.prems by (simp add: ed_text_def take_Suc_conv_app_nth)
  show ?case using Cons.IH [of ?e] Cons.prems unfolding t by (auto simp: add.assoc)
qed

lemma load_loop_text:
  assumes R: "reliable_client dev sec"
  shows "fd_at st fd VFS_O_READ n (ed_len ed) \<Longrightarrow> extents_ok (fs st) \<Longrightarrow> e_perm (ent (fs st) n) AND SFS_PERM_READ \<noteq> 0
    \<Longrightarrow> length (ed_buf ed) = 8193 \<Longrightarrow> file_size (fs st) n \<le> EDIT_MAX_BYTES \<Longrightarrow> ed_text ed = take (ed_len ed) (content sec (fs st) n)
    \<Longrightarrow> \<exists>b st'. load_loop dev st ed fd = (status_set (ed\<lparr>ed_buf := b, ed_len := file_size (fs st) n\<rparr>) (str ''loaded''), st')
      \<and> length b = 8193 \<and> take (file_size (fs st) n) b = content sec (fs st) n \<and> b ! file_size (fs st) n = 0"
proof (induction "EDIT_MAX_BYTES - ed_len ed" arbitrary: ed st rule: less_induct)
  case less
  let ?c = "content sec (fs st) n" and ?sz = "file_size (fs st) n"
  define bs where "bs = take 256 (drop (ed_len ed) ?c)"
  have le: "ed_len ed \<le> ?sz" using less.prems(1) by (simp add: fd_at_def)
  obtain st1 d where r: "vfs_read dev st fd 256 = (bs, st1)" "fs st1 = (fs st)\<lparr>disk := d\<rparr>"
      "fd_at st1 fd VFS_O_READ n (ed_len ed + length bs)" "content sec (fs st1) n = ?c"
    using read_seq_step [OF R less.prems(2,1,3), of 256] by (auto simp: bs_def)
  have sz: "file_size (fs st1) n = ?sz" by (simp add: r(2) file_size_def)
  show ?case
  proof (cases "bs = []")
    case True
    then have e: "ed_len ed = ?sz" using le by (auto simp: bs_def)
    let ?b = "(ed_buf ed)[ed_len ed := 0]"
    have L: "load_loop dev st ed fd = (status_set (ed\<lparr>ed_buf := ?b\<rparr>) (str ''loaded''), vfs_close st1 fd)"
      using r(1) True by (simp add: load_loop.simps [of dev st ed fd])
    have eq: "ed\<lparr>ed_buf := ?b, ed_len := ?sz\<rparr> = ed\<lparr>ed_buf := ?b\<rparr>" using e by (cases ed) simp
    have "length ?b = 8193" "take ?sz ?b = ?c" "?b ! ?sz = 0"
      using e less.prems(4,5,6) by (simp_all add: ed_text_def)
    moreover have "load_loop dev st ed fd = (status_set (ed\<lparr>ed_buf := ?b, ed_len := ?sz\<rparr>) (str ''loaded''), vfs_close st1 fd)"
      unfolding eq by (rule L)
    ultimately show ?thesis by blast
  next
    case False
    have lb: "ed_len ed + length bs \<le> ?sz" using le by (simp add: bs_def)
    obtain b where b: "load_bytes ed bs = (False, ed\<lparr>ed_buf := b, ed_len := ed_len ed + length bs\<rparr>)" "length b = 8193"
        "take (ed_len ed + length bs) b = ed_text ed @ bs"
      using load_bytes_text [OF less.prems(4), of bs] lb less.prems(5) by auto
    let ?e = "ed\<lparr>ed_buf := b, ed_len := ed_len ed + length bs\<rparr>"
    have dec: "EDIT_MAX_BYTES - ed_len ?e < EDIT_MAX_BYTES - ed_len ed"
      using load_bytes_less [OF b(1) False] .
    have t: "ed_text ?e = take (ed_len ?e) (content sec (fs st1) n)"
      using b(3) less.prems(6) by (simp add: ed_text_def r(4)) (simp add: bs_def take_add min_def)
    have at: "fd_at st1 fd VFS_O_READ n (ed_len ?e)" using r(3) by simp
    have x: "extents_ok (fs st1)" "e_perm (ent (fs st1) n) AND SFS_PERM_READ \<noteq> 0" using less.prems(2,3) by (simp_all add: r(2))
    have "file_size (fs st1) n \<le> EDIT_MAX_BYTES" using less.prems(5) by (simp add: sz)
    from less.hyps [OF dec at x _ this t] b(2)
    obtain b' st' where L: "load_loop dev st1 ?e fd = (status_set (?e\<lparr>ed_buf := b', ed_len := ?sz\<rparr>) (str ''loaded''), st')"
      "length b' = 8193" "take ?sz b' = ?c" "b' ! ?sz = 0"
      by (auto simp: sz r(4))
    then show ?thesis
      using r(1) False b(1) by (intro exI [of _ b'] exI [of _ st']) (simp add: load_loop.simps [of dev st ed fd])
  qed
qed

end
