(* ===== verification/Editor_Draw.thy ===== *)
theory Editor_Draw
  imports Editor_Buffer
begin

text \<open>
  What the drawing functions of the editor do to the screen: runs of plain characters inside a row,
  cleared rows, rendered lines, and the scroll that clearing the last row causes.
\<close>

section \<open>Runs of characters\<close>

definition plain :: "u8 \<Rightarrow> bool" where
  "plain c \<longleftrightarrow> c \<noteq> 10 \<and> c \<noteq> 8"

lemma cell_update:
  assumes "term_ok ts" "r < 25" "c < 80" "r' < 25" "c' < 80" "text_cells ts' = (text_cells ts)[r * 80 + c := x]"
  shows "cell ts' r' c' = (if r' = r \<and> c' = c then x else cell ts r' c')"
  using assms cell_index_eq [OF assms(5,3), of r' r] by (auto simp: cell_def term_ok_def nth_list_update)

text \<open>A run that does not reach the last column of the last row stays in its row.\<close>

lemma put_run:
  assumes "term_ok ts" "cursor_row ts = r" "cursor_col ts = c" "c + length cs \<le> 80" "list_all plain cs"
    and "r < 24 \<or> c + length cs < 80"
  shows "let ts' = foldl (\<lambda>ts x. snd (put_cell ts x)) ts cs in
    (\<forall>r' < 25. \<forall>c' < 80. cell ts' r' c' = (if r' = r \<and> c \<le> c' \<and> c' < c + length cs then cs ! (c' - c) else cell ts r' c'))
    \<and> (if c + length cs = 80 \<and> cs \<noteq> [] then cursor_row ts' = r + 1 \<and> cursor_col ts' = 0
       else cursor_row ts' = r \<and> cursor_col ts' = c + length cs)"
  using assms
proof (induction cs arbitrary: ts c)
  case (Cons x cs)
  have ok: "term_ok ts" and x: "x \<noteq> 10" "x \<noteq> 8" and r: "r < 25" and c: "c < 80" "c = 79 \<Longrightarrow> cs = [] \<and> r < 24"
    using Cons.prems by (auto simp: plain_def term_ok_def)
  let ?t = "snd (put_cell ts x)"
  note p = put_cell_plain [OF ok x]
  have cells: "text_cells ?t = (text_cells ts)[r * 80 + c := x]" using p(1) Cons.prems(2,3) c(2) by auto
  have new: "cell ?t r' c' = (if r' = r \<and> c' = c then x else cell ts r' c')" if "r' < 25" "c' < 80" for r' c'
    by (rule cell_update [OF ok r c(1) that cells])
  show ?case
  proof (cases "c = 79")
    case True
    then show ?thesis using c(2) p(2,3) Cons.prems(2,3) new by (auto simp: Let_def)
  next
    case False
    have "term_ok ?t" "cursor_row ?t = r" "cursor_col ?t = c + 1"
      using put_cell_ok [OF ok] p(2,3) Cons.prems(2,3) False by simp_all
    from Cons.IH [OF this] Cons.prems
    have ih: "let ts' = foldl (\<lambda>ts x. snd (put_cell ts x)) ?t cs in
      (\<forall>r' < 25. \<forall>c' < 80. cell ts' r' c' = (if r' = r \<and> c + 1 \<le> c' \<and> c' < c + 1 + length cs then cs ! (c' - (c + 1)) else cell ?t r' c'))
      \<and> (if c + 1 + length cs = 80 \<and> cs \<noteq> [] then cursor_row ts' = r + 1 \<and> cursor_col ts' = 0
         else cursor_row ts' = r \<and> cursor_col ts' = c + 1 + length cs)" by simp
    have n: "(x # cs) ! (c' - c) = cs ! (c' - (c + 1))" if "c < c'" for c'
      using that by (simp add: nth_Cons')
    show ?thesis
    proof (cases "cs = []")
      case True
      then show ?thesis using new False p(2,3) Cons.prems(2,3) by (auto simp: Let_def)
    next
      case cs: False
      then show ?thesis using ih new n False by (auto simp: Let_def)
    qed
  qed
qed auto

section \<open>Operations that stay in a row\<close>

definition row_only :: "u32 \<Rightarrow> nat \<Rightarrow> display \<Rightarrow> display \<Rightarrow> bool" where
  "row_only tid r d d' \<longleftrightarrow> disp_ok d' \<and> same_sessions d d'
     \<and> (\<forall>r' < 25. r' \<noteq> r \<longrightarrow> (\<forall>c < 80. cell (io d' tid) r' c = cell (io d tid) r' c))"

lemma row_only_refl: "disp_ok d \<Longrightarrow> row_only tid r d d"
  by (simp add: row_only_def)

lemma row_only_trans: "row_only tid r d d' \<Longrightarrow> row_only tid r d' d'' \<Longrightarrow> row_only tid r d d''"
  by (auto simp: row_only_def intro: same_sessions_trans)

lemma put_chars_io:
  "disp_ok d \<Longrightarrow> disp_ok (foldl (\<lambda>d c. display_put_char d tid c) d cs) \<and> same_sessions d (foldl (\<lambda>d c. display_put_char d tid c) d cs)
   \<and> io (foldl (\<lambda>d c. display_put_char d tid c) d cs) tid = foldl (\<lambda>ts x. snd (put_cell ts x)) (io d tid) cs"
proof (induction cs arbitrary: d)
  case (Cons c cs)
  note p = put_char_props [OF Cons.prems, of tid c]
  show ?case using Cons.IH [OF p(1)] same_sessions_trans [OF p(2)] p(3) by simp
qed simp

lemma cursor_cell [simp]: "cell (ts\<lparr>cursor_row := r, cursor_col := c\<rparr>) r' c' = cell ts r' c'"
  by (simp add: cell_def)

text \<open>Positioning the cursor and writing a run.\<close>

lemma write_run:
  fixes tid :: u32
  assumes "disp_ok d" "r < 25" "c < 80" "c + length cs \<le> 80" "list_all plain cs" "r < 24 \<or> c + length cs < 80"
  defines "d' \<equiv> foldl (\<lambda>d c. display_put_char d tid c) (display_set_cursor d tid r c) cs"
  shows "row_only tid r d d'"
    "\<And>c'. c' < 80 \<Longrightarrow> cell (io d' tid) r c' = (if c \<le> c' \<and> c' < c + length cs then cs ! (c' - c) else cell (io d tid) r c')"
proof -
  let ?d0 = "display_set_cursor d tid r c"
  note s = set_cursor_props [OF assms(1), of tid r c]
  note q = put_chars_io [OF s(1), of tid cs]
  have i: "io ?d0 tid = (io d tid)\<lparr>cursor_row := r, cursor_col := c\<rparr>" using s(3) assms(2,3) by simp
  have "term_ok (io ?d0 tid)" by (rule io_ok [OF s(1)])
  from put_run [OF this _ _ assms(4,5,6)]
  have p: "\<forall>r' < 25. \<forall>c' < 80. cell (io d' tid) r' c' = (if r' = r \<and> c \<le> c' \<and> c' < c + length cs then cs ! (c' - c) else cell (io d tid) r' c')"
    using q unfolding d'_def by (simp add: i Let_def)
  have "disp_ok d'" "same_sessions d d'" using q s(2) unfolding d'_def by (auto intro: same_sessions_trans)
  with p show "row_only tid r d d'" by (simp add: row_only_def)
  show "\<And>c'. c' < 80 \<Longrightarrow> cell (io d' tid) r c' = (if c \<le> c' \<and> c' < c + length cs then cs ! (c' - c) else cell (io d tid) r c')"
    using p assms(2) by simp
qed

lemma row_clear_fold: "row_clear tid d row = foldl (\<lambda>d c. display_put_char d tid c) (display_set_cursor d tid row 0) (replicate 80 SPACE)"
proof -
  have "foldl (\<lambda>d _. f d SPACE) d0 [0..<n] = foldl f d0 (replicate n SPACE)" for f :: "display \<Rightarrow> u8 \<Rightarrow> display" and d0 n
    by (induction n) (simp_all add: replicate_append_same [symmetric])
  then show ?thesis by (simp only: row_clear_def)
qed

lemma row_clear_row:
  assumes "disp_ok d" "r < 24"
  shows "row_only tid r d (row_clear tid d r)"
  unfolding row_clear_fold by (rule write_run(1)) (use assms in \<open>simp_all add: plain_def list_all_iff\<close>)

text \<open>Clearing the last row writes its last column, so the screen scrolls.\<close>

lemma row_clear_last:
  fixes tid :: u32
  assumes "disp_ok d"
  defines "d' \<equiv> row_clear tid d (VGA_HEIGHT - 1)"
  shows "disp_ok d'" "same_sessions d d'"
    "r < 25 \<Longrightarrow> c < 80 \<Longrightarrow> cell (io d' tid) r c = (if r < 23 then cell (io d tid) (r + 1) c else SPACE)"
proof -
  let ?d0 = "display_set_cursor d tid 24 0"
  let ?d1 = "foldl (\<lambda>d c. display_put_char d tid c) ?d0 (replicate 79 SPACE)"
  have e: "d' = display_put_char ?d1 tid SPACE"
  proof -
    have "replicate 80 SPACE = replicate 79 SPACE @ [SPACE]" by code_simp
    then show ?thesis unfolding d'_def row_clear_fold by (simp del: replicate.simps)
  qed
  note s = set_cursor_props [OF assms(1), of tid 24 0]
  note q = put_chars_io [OF s(1), of tid "replicate 79 SPACE"]
  have ok0: "term_ok (io ?d0 tid)" by (rule io_ok [OF s(1)])
  have pl: "list_all plain (replicate 79 SPACE)" by (simp add: list_all_iff plain_def)
  have i0: "cursor_row (io ?d0 tid) = 24" "cursor_col (io ?d0 tid) = 0" using s(3) by simp_all
  note run = put_run [OF ok0 i0 _ pl]
  have c1: "cell (io ?d1 tid) r c = (if r = 24 \<and> c < 79 then SPACE else cell (io d tid) r c)" if "r < 25" "c < 80" for r c
    using run that q s(3) by (simp add: Let_def)
  have cur: "cursor_row (io ?d1 tid) = 24" "cursor_col (io ?d1 tid) = 79"
    using run q by (simp_all add: Let_def)
  have ok1: "term_ok (io ?d1 tid)" using io_ok q by blast
  have sp: "SPACE \<noteq> 10" "SPACE \<noteq> 8" by simp_all
  note f = put_char_props [OF conjunct1 [OF q], of tid SPACE]
  show "disp_ok d'" unfolding e by (rule f(1))
  show "same_sessions d d'" unfolding e using s(2) q f(2) by (blast intro: same_sessions_trans)
  show "cell (io d' tid) r c = (if r < 23 then cell (io d tid) (r + 1) c else SPACE)" if rc: "r < 25" "c < 80"
  proof -
    let ?t = "(io ?d1 tid)\<lparr>text_cells := (text_cells (io ?d1 tid))[24 * 80 + 79 := SPACE]\<rparr>"
    have len: "length (text_cells ?t) = 6000" using ok1 by (simp add: term_ok_def)
    have t: "cell ?t r' c' = (if r' = 24 \<and> c' = 79 then SPACE else cell (io ?d1 tid) r' c')" if "r' < 25" "c' < 80" for r' c'
      by (rule cell_update [OF ok1 _ _ that]) simp_all
    have "text_cells (io d' tid) = scroll_up (text_cells ?t)"
      unfolding e f(3) using put_cell_plain(1) [OF ok1 sp] cur by simp
    then have "cell (io d' tid) r c = (if r < 24 then cell ?t (r + 1) c else SPACE)"
      using cell_scroll_up [OF len rc] by (simp add: cell_def)
    then show ?thesis using t [of "r + 1" c] c1 [of "r + 1" c] rc by auto
  qed
qed

section \<open>A rendered line\<close>

lemma digit_plain: "d < 10 \<Longrightarrow> plain (of_nat (48 + d))"
  by (simp add: plain_def word_unat_eq_iff unat_of_nat del: of_nat_add)

lemma digits_plain:
  assumes "list_all plain acc" "num < 10 ^ k"
  shows "list_all plain (digits_before 10 num acc) \<and> length (digits_before 10 num acc) \<le> k + length acc"
  using assms
proof (induction k arbitrary: num acc)
  case (Suc k)
  show ?case
  proof (cases "num = 0")
    case True
    then show ?thesis using Suc.prems(1) by (simp add: digits_before.simps [of 10 0])
  next
    case False
    let ?c = "if num mod 10 < 10 then of_nat (48 + num mod 10) else of_nat (97 + (num mod 10 - 10)) :: u8"
    have "plain ?c" using digit_plain [of "num mod 10"] by simp
    then have "list_all plain (?c # acc)" using Suc.prems(1) by simp
    moreover have "num div 10 < 10 ^ k" using Suc.prems(2) by (simp add: less_mult_imp_div_less mult.commute)
    ultimately show ?thesis
      using Suc.IH [of "?c # acc" "num div 10"] False by (simp add: digits_before.simps [of 10 num] Let_def)
  qed
qed (simp add: digits_before.simps [of 10 0])

lemma dec_digits_plain: "v < 10 ^ 4 \<Longrightarrow> list_all plain (dec_digits v) \<and> length (dec_digits v) \<le> 4"
  using digits_plain [of "[]" v 4] by (simp add: dec_digits_def plain_def)

lemma put_at_row:
  assumes "disp_ok d" "r < 24" "col < 80" "plain c"
  shows "row_only tid r d (fst (put_at tid r (d, col) c))" "snd (put_at tid r (d, col) c) = col + 1"
  using write_run(1) [of d r col "[c]" tid] assms by (simp_all add: put_at_def)

lemma put_tab_row:
  assumes "disp_ok d" "r < 24"
  shows "row_only tid r d (fst (put_tab tid r (d, col)))"
proof -
  have "row_only tid r d (fst (foldl (\<lambda>dc _. if snd dc < 80 then put_at tid r dc SPACE else dc) (d, col) [0..<n]))" for n
  proof (induction n)
    case 0
    then show ?case using assms by (simp add: row_only_refl)
  next
    case (Suc n)
    obtain d1 c1 where d1: "foldl (\<lambda>dc _. if snd dc < 80 then put_at tid r dc SPACE else dc) (d, col) [0..<n] = (d1, c1)" by fastforce
    have i: "row_only tid r d d1" using Suc d1 by simp
    have "disp_ok d1" using i by (simp add: row_only_def)
    from put_at_row(1) [OF this assms(2), of c1 SPACE tid] show ?case
      using i row_only_trans by (simp add: d1 plain_def)
  qed
  then show ?thesis by (simp only: put_tab_def)
qed

lemma render_chars_row:
  "disp_ok (fst dc) \<Longrightarrow> r < 24 \<Longrightarrow> row_only tid r (fst dc) (render_chars tid r buf line_end p dc)"
proof (induction tid r buf line_end p dc rule: render_chars.induct)
  case (1 tid r buf line_end p dc)
  show ?case
  proof (cases "p < line_end \<and> snd dc < 80")
    case True
    let ?n = "if buf ! p = TAB then put_tab tid r dc
      else if 32 \<le> buf ! p \<and> buf ! p \<le> 126 then put_at tid r dc (buf ! p) else put_at tid r dc SPACE"
    have pl: "plain (buf ! p)" if "32 \<le> buf ! p" using that by (auto simp: plain_def)
    have n: "row_only tid r (fst dc) (fst ?n)"
      using put_tab_row [OF 1(2,3), of tid "snd dc"] put_at_row(1) [OF 1(2,3), of "snd dc" "buf ! p" tid]
        put_at_row(1) [OF 1(2,3), of "snd dc" SPACE tid] True pl by (simp add: plain_def)
    then have "disp_ok (fst ?n)" by (simp add: row_only_def)
    from row_only_trans [OF n 1(1) [OF True this 1(3)]] show ?thesis
      using True by (simp add: render_chars.simps [of tid r buf line_end p dc])
  next
    case False
    then have "render_chars tid r buf line_end p dc = fst dc" by (subst render_chars.simps) (simp only: if_False)
    then show ?thesis using 1(2) by (simp add: row_only_refl)
  qed
qed

lemma render_line_row:
  assumes "disp_ok d" "r < 24" "abs_line < 9999"
  shows "row_only tid r d (render_line tid ed d r abs_line)"
proof -
  let ?d1 = "row_clear tid d r"
  let ?d2 = "row_write_u32_right tid ?d1 r 0 4 (abs_line + 1)"
  let ?d3 = "row_write_text tid ?d2 r 4 (str '' | '') 3"
  have r: "r < 25" using assms(2) by simp
  have s1: "row_only tid r d ?d1" by (rule row_clear_row [OF assms(1,2)])
  then have k1: "disp_ok ?d1" by (simp add: row_only_def)
  have d: "list_all plain (dec_digits (abs_line + 1))" "length (dec_digits (abs_line + 1)) \<le> 4"
    using dec_digits_plain [of "abs_line + 1"] assms(3) by simp_all
  let ?cs = "replicate (4 - length (dec_digits (abs_line + 1))) SPACE @ dec_digits (abs_line + 1)"
  have "list_all plain ?cs" "length ?cs \<le> 80" using d by (auto simp: list_all_iff plain_def)
  then have s2: "row_only tid r ?d1 ?d2"
    using write_run(1) [OF k1 r, of 0 ?cs tid] assms(2) by (simp add: row_write_u32_right_def Let_def del: foldl_append)
  then have k2: "disp_ok ?d2" by (simp add: row_only_def)
  have t: "list_all plain (take n (cstr (str '' | '')))" for n by (auto simp: list_all_iff plain_def str_def dest!: in_set_takeD)
  let ?t = "take (min 3 (80 - 4)) (cstr (str '' | ''))"
  have "length ?t \<le> 3" by simp
  then have s3: "row_only tid r ?d2 ?d3"
    using write_run(1) [OF k2 r, of 4 ?t tid] t [of "min 3 (80 - 4)"] assms(2) by (simp add: row_write_text_def)
  then have k3: "disp_ok ?d3" by (simp add: row_only_def)
  have "row_only tid r ?d3 (render_chars tid r (ed_buf ed) (line_end_for_pos ed (pos_for_line ed abs_line)) (pos_for_line ed abs_line) (?d3, EDIT_GUTTER_COLS))"
    using render_chars_row [of "(?d3, EDIT_GUTTER_COLS)"] k3 assms(2) by simp
  from row_only_trans [OF row_only_trans [OF row_only_trans [OF s1 s2] s3] this] show ?thesis
    by (simp add: render_line_def Let_def)
qed

end
