(* ===== verification/Editor_Props.thy ===== *)
theory Editor_Props
  imports Editor_Files Editor_Draw
begin

text \<open>Properties of the editor.\<close>

section \<open>A concrete editor\<close>

definition demo_ed :: "u8 list \<Rightarrow> editor_state" where
  "demo_ed t = \<lparr>ed_path = replicate 64 0, ed_buf = t @ replicate (8193 - length t) 0, ed_len = length t, ed_cursor = 0,
     ed_top_line = 0, ed_preferred_col = 0, ed_keep_preferred_col = False, ed_dirty = False, ed_status = replicate 80 0,
     ed_first_draw = True, ed_prev_cursor_line = 0, ed_prev_top_line = 0, ed_prev_total_lines = 0\<rparr>"

lemma demo_ed_ok: "length t \<le> 8192 \<Longrightarrow> ed_ok (demo_ed t)" "length t \<le> 8192 \<Longrightarrow> ed_text (demo_ed t) = t"
  by (simp_all add: ed_ok_def demo_ed_def ed_text_def nth_append)

lemma demo_ed_view: "length t \<le> 8192 \<Longrightarrow> ed_view (demo_ed t) = \<lparr>tv_text = t, tv_pos = 0, tv_col = None\<rparr>"
  by (simp add: ed_view_def demo_ed_ok) (simp add: demo_ed_def)

section \<open>Editing\<close>

text \<open>A session of editing keys, on the editor and on the specification; other keys stop it.\<close>

fun edit_keys :: "editor_state \<Rightarrow> int list \<Rightarrow> editor_state option" where
  "edit_keys ed [] = Some ed"
| "edit_keys ed (k # ks) = (case edit_key ed k of None \<Rightarrow> None | Some ed1 \<Rightarrow> edit_keys ed1 ks)"

fun tv_keys :: "text_view \<Rightarrow> int list \<Rightarrow> text_view option" where
  "tv_keys v [] = Some v"
| "tv_keys v (k # ks) = (case tv_key v k of None \<Rightarrow> None | Some v1 \<Rightarrow> tv_keys v1 ks)"

text \<open>
  C11: Every sequence of editing keys does to the fixed buffer what it does to a list of characters with a
  position: typing inserts, backspace and delete remove the neighbour, tab inserts four blanks, enter
  breaks the line and repeats its indentation, the arrows move, and a text of 8192 characters takes
  no more.  The buffer stays well formed, and a text that changed is always marked as unsaved.
\<close>

theorem editor_keys_refine:
  assumes "ed_ok ed"
  shows "map_option ed_view (edit_keys ed ks) = tv_keys (ed_view ed) ks
    \<and> (case edit_keys ed ks of None \<Rightarrow> True
       | Some ed' \<Rightarrow> ed_ok ed' \<and> (ed_dirty ed \<longrightarrow> ed_dirty ed') \<and> (ed_text ed' \<noteq> ed_text ed \<longrightarrow> ed_dirty ed'))"
  using assms
proof (induction ks arbitrary: ed)
  case (Cons k ks)
  note e = edit_key_refines [OF Cons.prems, of k]
  show ?case
  proof (cases "edit_key ed k")
    case None
    then show ?thesis using e by simp
  next
    case (Some ed1)
    then obtain v where v: "tv_key (ed_view ed) k = Some v" "refines_key ed ed1 v" using e by (auto split: option.splits)
    then have "ed_ok ed1" by (simp add: refines_key_def)
    from Cons.IH [OF this] v Some show ?thesis by (auto simp: refines_key_def split: option.splits)
  qed
qed simp

theorem editor_keys_refine_witness:
  "map_option (\<lambda>ed. (ed_text ed, ed_cursor ed)) (edit_keys (demo_ed [65]) [32, KEY_RIGHT, 10, 66, 8]) = Some ([32, 65, 10, 32], 4)"
proof -
  have "tv_keys (ed_view (demo_ed [65])) [32, KEY_RIGHT, 10, 66, 8] = Some \<lparr>tv_text = [32, 65, 10, 32], tv_pos = 4, tv_col = None\<rparr>"
    by (simp add: demo_ed_view) code_simp
  with editor_keys_refine [OF demo_ed_ok(1), of "[65]" "[32, KEY_RIGHT, 10, 66, 8]"]
  show ?thesis by (cases "edit_keys (demo_ed [65]) [32, KEY_RIGHT, 10, 66, 8]") (simp_all add: ed_view_def)
qed

text \<open>
  The line and column arithmetic of the editor is exact.  The loops compute the reference functions on
  the text; a position in the text is found again from its line and column; and the position of any
  existing line and any column is on that line, at that column or at the end of the line if it is shorter.
\<close>

theorem editor_line_col:
  assumes "ed_ok ed"
  shows "(\<forall>p \<le> ed_len ed. line_col_for_pos ed p = line_col (ed_text ed) p
      \<and> (case line_col_for_pos ed p of (l, c) \<Rightarrow> l < total_lines ed \<and> pos_for_line_col ed l c = p))
    \<and> (\<forall>l < total_lines ed. \<forall>c. pos_for_line_col ed l c = pos_of (ed_text ed) l c
      \<and> line_col_for_pos ed (pos_for_line_col ed l c) = (l, min c (line_length (ed_text ed) l)))"
proof -
  have lt: "length (ed_text ed) = ed_len ed" using assms by (rule ed_text_length)
  have "pos_of (ed_text ed) l c \<le> ed_len ed" for l c using pos_of_le [of "ed_text ed"] lt by simp
  then show ?thesis
    by (auto simp: line_col_for_pos_eq [OF assms] pos_for_line_col_eq [OF assms] total_lines_eq [OF assms] lt
        line_col_pos_of line_col_lt pos_of_line_col)
qed

theorem editor_line_col_witness:
  "line_col_for_pos (demo_ed [65, 10, 66, 67]) 3 = (1, 1) \<and> pos_for_line_col (demo_ed [65, 10, 66, 67]) 1 9 = 4"
proof -
  have ok: "ed_ok (demo_ed [65, 10, 66, 67])" and t: "ed_text (demo_ed [65, 10, 66, 67]) = [65, 10, 66, 67]"
    by (simp_all add: demo_ed_ok)
  have "3 \<le> ed_len (demo_ed [65, 10, 66, 67])" by (simp add: demo_ed_def)
  moreover have "(1 :: nat) < total_lines (demo_ed [65, 10, 66, 67])"
    by (simp add: total_lines_eq [OF ok] t line_count_def)
  ultimately have "line_col_for_pos (demo_ed [65, 10, 66, 67]) 3 = line_col [65, 10, 66, 67] 3"
    "pos_for_line_col (demo_ed [65, 10, 66, 67]) 1 9 = pos_of [65, 10, 66, 67] 1 9"
    using editor_line_col [OF ok] unfolding t by blast+
  moreover have "line_col [65, 10, 66, 67] 3 = (1, 1)" "pos_of [65, 10, 66, 67] 1 9 = 4" by code_simp+
  ultimately show ?thesis by simp
qed

section \<open>Saving and loading\<close>

text \<open>
  C23: What the editor saves, it loads: on a store that keeps its sectors and has room, saving a buffer to an
  existing file succeeds, clears the unsaved mark, and changes no other file; opening the path again
  brings back exactly the text, whatever was in the buffer before.
\<close>

theorem editor_save_load:
  assumes "reliable_store (blockdev_read dev) (blockdev_write dev) sec 65536"
    and "store_ok st" "ed_ok ed" "node_at st session path n" "free_fd st i"
    and "next_free (fs st) + sectors_for (ed_len ed) \<le> 65536" "ed_ok ed0"
  shows "\<exists>ed1 st1 ed2 st2. save_to_path dev session st ed path = (True, ed1, st1) \<and> \<not> ed_dirty ed1
    \<and> (\<forall>j. j \<noteq> n \<longrightarrow> abs_files sec (fs st1) j = abs_files sec (fs st) j)
    \<and> load_file dev session st1 ed0 path = (ed2, st2) \<and> ed_ok ed2 \<and> ed_text ed2 = ed_text ed
    \<and> ed_cursor ed2 = 0 \<and> \<not> ed_dirty ed2"
proof -
  note R = reliable_client_I [OF assms(1)]
  let ?ed1 = "status_set (ed\<lparr>ed_dirty := False\<rparr>) (str ''saved'')"
  obtain st1 where s: "save_to_path dev session st ed path = (True, ?ed1, st1)" "store_ok st1"
      "content sec (fs st1) n = ed_text ed" "same_tree (fs st) (fs st1)" "g_vfs_ctx st1 = g_vfs_ctx st"
      "\<forall>j. j \<noteq> n \<longrightarrow> abs_files sec (fs st1) j = abs_files sec (fs st) j"
      "length (g_fds st1) = 16" "\<forall>j. (fd_used (g_fds st1 ! j) = 0) = (fd_used (g_fds st ! j) = 0)"
    using save_content [OF R assms(2-6)] by blast
  have n1: "node_at st1 session path n" by (rule node_at_same [OF assms(4) s(4,5)])
  have i1: "free_fd st1 i" using assms(5) s(7,8) by (simp add: free_fd_def)
  have sz: "file_size (fs st1) n = ed_len ed"
    using arg_cong [OF s(3), of length] by (simp add: ed_text_length [OF assms(3)])
  let ?ed0 = "ed0\<lparr>ed_len := 0, ed_cursor := 0, ed_top_line := 0, ed_preferred_col := 0, ed_keep_preferred_col := False,
    ed_dirty := False, ed_buf := (ed_buf ed0)[0 := 0], ed_first_draw := True, ed_prev_cursor_line := 0,
    ed_prev_top_line := 0, ed_prev_total_lines := 0\<rparr>"
  let ?st = "st1\<lparr>g_fds := (g_fds st1)[i := fd_on n VFS_O_READ]\<rparr>"
  have o: "vfs_open dev st1 session path VFS_O_READ = (int i, ?st)"
    using open_existing [OF n1 i1, of VFS_O_READ dev "fs st1"] by simp
  obtain info where info: "vfs_stat_path st1 session path blank_info = Some info" "ni_type info = SFS_TYPE_FILE"
    using n1 is_file_live [of "fs st1" n]
    by (auto simp: vfs_stat_path_def node_at_def sfs_stat_def is_file_node_def live_def Let_def)
  have l: "load_file dev session st1 ed0 path = load_loop dev ?st ?ed0 (int i)"
    using o info by (simp add: load_file_def Let_def)
  have at: "fd_at ?st (int i) VFS_O_READ n (ed_len ?ed0)"
    using free_fd_less [OF i1] n1 by (simp add: fd_at_def fd_usable_def node_at_def)
  have len: "ed_len ed \<le> 8192" using assms(3) by (simp add: ed_ok_def)
  have "extents_ok (fs ?st)" "e_perm (ent (fs ?st) n) AND SFS_PERM_READ \<noteq> 0" "length (ed_buf ?ed0) = 8193"
    "file_size (fs ?st) n \<le> EDIT_MAX_BYTES" "ed_text ?ed0 = take (ed_len ?ed0) (content sec (fs ?st) n)"
    using s(2) n1 assms(7) sz len by (simp_all add: store_ok_def node_at_def ed_ok_def ed_text_def)
  from load_loop_text [OF R at this]
  obtain b st2 where L: "load_loop dev ?st ?ed0 (int i) = (status_set (?ed0\<lparr>ed_buf := b, ed_len := ed_len ed\<rparr>) (str ''loaded''), st2)"
      "length b = 8193" "take (ed_len ed) b = ed_text ed" "b ! ed_len ed = 0"
    using sz s(3) by auto
  have sel: "ed_cursor (status_set e m) = ed_cursor e" "ed_dirty (status_set e m) = ed_dirty e" for e m
    by (simp_all add: status_set_def)
  show ?thesis
    using s(1,6) l L assms(7) len
    by (intro exI [of _ ?ed1] exI [of _ st1] exI [of _ "status_set (?ed0\<lparr>ed_buf := b, ed_len := ed_len ed\<rparr>) (str ''loaded'')"] exI [of _ st2])
      (simp add: sel, simp add: ed_ok_def ed_text_def status_set_def)
qed

theorem editor_save_load_witness:
  "\<exists>ed1 st1 ed2 st2. save_to_path ram_dev 0 demo_vfs (demo_ed [72, 105]) (str ''/a'') = (True, ed1, st1)
    \<and> load_file ram_dev 0 st1 (demo_ed [88]) (str ''/a'') = (ed2, st2) \<and> ed_text ed2 = [72, 105]"
proof -
  have n: "node_at demo_vfs 0 (str ''/a'') 1" by (simp add: node_at_def demo_vfs_sel demo_resolve demo_facts)
  have f: "free_fd demo_vfs 1" by (simp add: free_fd_def for_find_Some_iff demo_vfs_def)
  have r: "next_free (fs demo_vfs) + sectors_for (ed_len (demo_ed [72, 105])) \<le> 65536"
    by (simp add: demo_vfs_sel demo_facts demo_ed_def sectors_for_def)
  have ok: "ed_ok (demo_ed [72, 105])" "ed_ok (demo_ed [88])" by (simp_all add: demo_ed_ok)
  show ?thesis
    using editor_save_load [OF ram_dev_reliable demo_fd(3) ok(1) n f r ok(2)] by (auto simp: demo_ed_ok)
qed

section \<open>Drawing\<close>

lemma ensure_visible:
  assumes "ed_ok ed"
  defines "e \<equiv> ensure_cursor_visible ed"
  shows "ed_ok e" "ed_text e = ed_text ed" "ed_cursor e = ed_cursor ed" "ed_status e = ed_status ed"
    "ed_top_line e \<le> fst (line_col_for_pos e (ed_cursor e))" "fst (line_col_for_pos e (ed_cursor e)) < ed_top_line e + 23"
proof -
  have l: "line_col_for_pos e p = line_col_for_pos ed p" for p
    by (simp add: e_def ensure_cursor_visible_def Let_def line_col_for_pos_def)
  show "ed_ok e" "ed_text e = ed_text ed" "ed_cursor e = ed_cursor ed" "ed_status e = ed_status ed"
    using assms(1) by (simp_all add: e_def ensure_cursor_visible_def Let_def ed_ok_def ed_text_def)
  show "ed_top_line e \<le> fst (line_col_for_pos e (ed_cursor e))" "fst (line_col_for_pos e (ed_cursor e)) < ed_top_line e + 23"
    unfolding l by (auto simp: e_def ensure_cursor_visible_def Let_def)
qed

lemma ensure_fields:
  "ed_first_draw (ensure_cursor_visible ed) = ed_first_draw ed"
  "ed_prev_top_line (ensure_cursor_visible ed) = ed_prev_top_line ed"
  "ed_prev_total_lines (ensure_cursor_visible ed) = ed_prev_total_lines ed"
  "ed_prev_cursor_line (ensure_cursor_visible ed) = ed_prev_cursor_line ed"
  by (simp_all add: ensure_cursor_visible_def Let_def)

lemma cursor_line_bound:
  assumes "ed_ok ed"
  shows "fst (line_col_for_pos ed (ed_cursor ed)) < 9999" "fst (line_col_for_pos ed (ed_cursor ed)) < total_lines ed"
proof -
  have c: "ed_cursor ed \<le> length (ed_text ed)" "length (ed_text ed) \<le> 8192" using assms by (simp_all add: ed_ok_def ed_text_length)
  show t: "fst (line_col_for_pos ed (ed_cursor ed)) < total_lines ed"
    using line_col_lt [OF surjective_pairing, of "ed_text ed" "ed_cursor ed"] c(1)
    by (simp add: line_col_for_pos_eq [OF assms] total_lines_eq [OF assms] ed_text_length [OF assms])
  have "total_lines ed \<le> Suc (length (ed_text ed))"
    using count_le_length [of "ed_text ed" NL] by (simp add: total_lines_eq [OF assms] line_count_def)
  then show "fst (line_col_for_pos ed (ed_cursor ed)) < 9999" using t c by simp
qed

text \<open>The content part of a frame keeps the display well formed.\<close>

lemma row_only_ok: "row_only tid r d d' \<Longrightarrow> disp_ok d'"
  by (simp add: row_only_def)

lemma chars_ok: "disp_ok d \<Longrightarrow> disp_ok (foldl (\<lambda>d c. display_put_char d tid c) (display_set_cursor d tid r c) cs)"
  using put_chars_io set_cursor_props(1) by blast

lemma render_line_ok:
  assumes "disp_ok d" "r < 24"
  shows "disp_ok (render_line tid ed d r n)"
proof -
  have 1: "disp_ok (row_clear tid d r)" by (rule row_only_ok [OF row_clear_row [OF assms]])
  have 2: "disp_ok (row_write_u32_right tid d r c w v)" if "disp_ok d" for d c w v
    using that chars_ok by (simp add: row_write_u32_right_def Let_def del: foldl_append)
  have 3: "disp_ok (row_write_text tid d r c t m)" if "disp_ok d" for d c t m
    using that chars_ok by (simp add: row_write_text_def)
  let ?d = "row_write_text tid (row_write_u32_right tid (row_clear tid d r) r 0 4 (n + 1)) r 4 (str '' | '') 3"
  have "disp_ok ?d" by (rule 3 [OF 2 [OF 1]])
  from row_only_ok [OF render_chars_row [of "(?d, EDIT_GUTTER_COLS)", unfolded fst_conv, OF this assms(2)]]
  show ?thesis by (simp add: render_line_def Let_def)
qed

lemma rows_ok:
  assumes "n \<le> 23" "disp_ok d"
  shows "disp_ok (foldl (\<lambda>d i. if lines \<le> ed_top_line ed + i then row_clear tid d (i + 1)
    else render_line tid ed d (i + 1) (ed_top_line ed + i)) d [0..<n])"
  using assms
proof (induction n)
  case (Suc n)
  then have "disp_ok (foldl (\<lambda>d i. if lines \<le> ed_top_line ed + i then row_clear tid d (i + 1)
    else render_line tid ed d (i + 1) (ed_top_line ed + i)) d [0..<n])" by auto
  from row_only_ok [OF row_clear_row [OF this, of "n + 1"]] render_line_ok [OF this, of "n + 1"] show ?case
    using Suc.prems by (simp del: upt_Suc add: upt_Suc_append)
qed simp

lemma draw_content_ok:
  assumes "disp_ok d"
  shows "disp_ok (draw_content tid ed line lines d)"
proof -
  have t: "disp_ok (row_write_text tid d r c t m)" if "disp_ok d" for d r c t m
    using that chars_ok by (simp add: row_write_text_def)
  have "disp_ok (row_clear tid d 0)" by (rule row_only_ok [OF row_clear_row [OF assms]]) simp
  note h = t [OF t [OF this]]
  have "disp_ok (draw_rows tid ed lines (row_write_text tid (row_write_text tid (row_clear tid d 0) 0 0 (header_text ed) VGA_WIDTH)
      0 56 (str ''F2 save  F10 quit  ESC menu'') (VGA_WIDTH - 56)))"
    using rows_ok [OF _ h, of 23] by (simp add: draw_rows_def)
  moreover have g: "disp_ok (if a \<ge> ed_top_line ed \<and> a < ed_top_line ed + EDIT_CONTENT_ROWS
      then render_line tid ed d (1 + (a - ed_top_line ed)) a else d)" if "disp_ok d" for a d
    using that render_line_ok [OF that, of "1 + (a - ed_top_line ed)"] by auto
  ultimately show ?thesis
    using g [OF assms] g [OF g [OF assms]] unfolding draw_content_def Let_def by (simp only: split: if_split) blast
qed

text \<open>
  Every frame of the editor scrolls the text screen.  To clear the status row the code writes all of its
  eighty columns, and the last one makes the console scroll, so the frame that was drawn ends up one row too
  high, its header lost, while the cursor stays one row below the line it belongs to; when only the line
  of the cursor was redrawn, everything else has moved up by one more row than in the frame before.
\<close>

theorem editor_screen_scrolls:
  assumes "disp_ok d" "ed_ok ed" "list_all plain (cstr (ed_status ed))" "length (cstr (ed_status ed)) < 80"
  shows "let ed1 = ensure_cursor_visible ed; line = fst (line_col_for_pos ed1 (ed_cursor ed1));
      frame = io (draw_content tid ed1 line (total_lines ed1) d) tid; ts' = io (snd (draw_editor tid ed d)) tid
    in (\<forall>r < 23. \<forall>c < 80. cell ts' r c = cell frame (r + 1) c) \<and> cursor_row ts' = 1 + (line - ed_top_line ed1)
    \<and> (\<not> ed_first_draw ed \<and> ed_top_line ed1 = ed_prev_top_line ed \<and> total_lines ed1 = ed_prev_total_lines ed
        \<and> line = ed_prev_cursor_line ed
      \<longrightarrow> (\<forall>r < 23. r \<noteq> line - ed_top_line ed1 \<longrightarrow> (\<forall>c < 80. cell ts' r c = cell (io d tid) (r + 1) c)))"
proof -
  let ?e = "ensure_cursor_visible ed"
  let ?l = "fst (line_col_for_pos ?e (ed_cursor ?e))" and ?col = "snd (line_col_for_pos ?e (ed_cursor ?e))"
  let ?d1 = "draw_content tid ?e ?l (total_lines ?e) d"
  let ?d2 = "row_clear tid ?d1 (VGA_HEIGHT - 1)"
  let ?d3 = "row_write_text tid ?d2 (VGA_HEIGHT - 1) 0 (ed_status ed) VGA_WIDTH"
  note v = ensure_visible [OF assms(2)]
  have 1: "disp_ok ?d1" by (rule draw_content_ok [OF assms(1)])
  note s = row_clear_last [OF 1, where tid = tid]
  have t: "take (min VGA_WIDTH (VGA_WIDTH - 0)) (cstr (ed_status ed)) = cstr (ed_status ed)" using assms(4) by simp
  have 3: "row_only tid 24 ?d2 ?d3"
    using write_run(1) [OF s(1), of 24 0 "cstr (ed_status ed)" tid] assms(3,4) by (simp add: row_write_text_def)
  have cells: "cell (io ?d3 tid) r c = cell (io ?d1 tid) (r + 1) c" if "r < 23" "c < 80" for r c
    using 3 s(3) [of r c] that by (simp add: row_only_def)
  let ?cc = "EDIT_GUTTER_COLS + visual_col_for_buffer_col ?e ?l ?col"
  have D: "snd (draw_editor tid ed d) = display_set_cursor ?d3 tid (1 + (?l - ed_top_line ?e)) (if ?cc \<ge> VGA_WIDTH then VGA_WIDTH - 1 else ?cc)"
    using v(4-6) by (simp add: draw_editor_def Let_def split_beta)
  note c = set_cursor_props [OF row_only_ok [OF 3], of tid "1 + (?l - ed_top_line ?e)"]
  have last: "cell (io ?d1 tid) (r + 1) c = cell (io d tid) (r + 1) c"
    if "\<not> ed_first_draw ed \<and> ed_top_line ?e = ed_prev_top_line ed \<and> total_lines ?e = ed_prev_total_lines ed \<and> ?l = ed_prev_cursor_line ed"
      "r < 23" "r \<noteq> ?l - ed_top_line ?e" "c < 80" for r c
  proof -
    have "?d1 = render_line tid ?e d (1 + (?l - ed_top_line ?e)) ?l"
      using that(1) v(5,6) by (simp add: draw_content_def ensure_fields)
    moreover have "row_only tid (1 + (?l - ed_top_line ?e)) d (render_line tid ?e d (1 + (?l - ed_top_line ?e)) ?l)"
      by (rule render_line_row [OF assms(1)]) (use v(5,6) cursor_line_bound [OF v(1)] in simp_all)
    ultimately show ?thesis using that(2-4) by (simp add: row_only_def)
  qed
  have row: "cursor_row (io (snd (draw_editor tid ed d)) tid) = 1 + (?l - ed_top_line ?e)"
    unfolding D c(3) using v(5,6) by simp
  have "cell (io (snd (draw_editor tid ed d)) tid) r c = cell (io ?d1 tid) (r + 1) c" if "r < 23" "c < 80" for r c
    unfolding D c(3) using cells [OF that] by simp
  then show ?thesis unfolding Let_def row using last by (metis (no_types, lifting))
qed

theorem editor_screen_scrolls_witness:
  "cursor_row (io (snd (draw_editor 0 (demo_ed []) demo_display)) 0) = 1"
proof -
  have ok: "ed_ok (demo_ed [])" by (simp add: demo_ed_ok)
  have st: "cstr (ed_status (demo_ed [])) = []" by (simp add: demo_ed_def cstr_def)
  have "fst (line_col_for_pos (ensure_cursor_visible (demo_ed [])) (ed_cursor (ensure_cursor_visible (demo_ed [])))) = 0"
    by code_simp
  then show ?thesis
    using editor_screen_scrolls [OF demo_display_ok(1) ok, of 0] by (simp add: st Let_def)
qed

end
