(* ===== verification/Net_Codec.thy ===== *)
theory Net_Codec
  imports Vertex_Base
begin

text \<open>
  The pure functions of \<^verbatim>\<open>src/drivers/net.c\<close>: byte order, the Internet checksum, dotted
  addresses, URLs and DNS names.  \<^verbatim>\<open>char\<close> comparisons against positive bounds are comparisons of
  bytes, since a negative \<^verbatim>\<open>char\<close> is below every bound and its byte above 127.
\<close>

lemma rd_code [code]: "rd [] i = 0" "rd (x # xs) i = (if i = 0 then x else rd xs (i - 1))"
  by (simp_all add: rd_def nth_Cons' less_Suc_eq_0_disj) (cases i; simp)

section \<open>Byte order and checksums\<close>

definition bswap16 :: "u16 \<Rightarrow> u16" where
  "bswap16 x = drop_bit 8 x OR push_bit 8 x"

definition bswap32 :: "u32 \<Rightarrow> u32" where
  "bswap32 x = drop_bit 24 x OR (drop_bit 8 x AND 0x0000FF00) OR (push_bit 8 x AND 0x00FF0000) OR push_bit 24 x"

definition htons :: "u16 \<Rightarrow> u16" where "htons x = bswap16 x"
definition ntohs :: "u16 \<Rightarrow> u16" where "ntohs x = bswap16 x"
definition htonl :: "u32 \<Rightarrow> u32" where "htonl x = bswap32 x"
definition ntohl :: "u32 \<Rightarrow> u32" where "ntohl x = bswap32 x"

definition mem_eq :: "u8 list \<Rightarrow> u8 list \<Rightarrow> nat \<Rightarrow> bool" where
  "mem_eq a b n = (for_find (\<lambda>i. rd a i \<noteq> rd b i) 0 n = None)"

definition pair16 :: "u8 \<Rightarrow> u8 \<Rightarrow> u32" where
  "pair16 a b = push_bit 8 (ucast a) OR ucast b"

function sum_pairs :: "u8 list \<Rightarrow> nat \<Rightarrow> nat \<Rightarrow> u32 \<Rightarrow> u32" where
  "sum_pairs p n i acc = (if i + 1 < n then sum_pairs p n (i + 2) (acc + pair16 (rd p i) (rd p (i + 1))) else acc)"
  by pat_completeness auto
termination
  by (relation "measure (\<lambda>(p, n, i, acc). n - i)") auto

declare sum_pairs.simps [simp del]

definition checksum32_add :: "u32 \<Rightarrow> u8 list \<Rightarrow> nat \<Rightarrow> u32" where
  "checksum32_add acc data n =
     (let s = sum_pairs data n 0 acc
      in if odd n then s + push_bit 8 (ucast (rd data (n - 1))) else s)"

lemma unat_low16: "unat (s AND 0xFFFF :: u32) = unat s mod 65536"
proof -
  have "s AND 0xFFFF = take_bit 16 s" by (simp add: take_bit_eq_mask mask_eq_exp_minus_1)
  then show ?thesis by (simp add: unsigned_take_bit_eq take_bit_eq_mod unat_mod)
qed

lemma unat_high16: "unat (drop_bit 16 s :: u32) = unat s div 65536"
  by (simp add: drop_bit_eq_div unat_div)

lemma unat_carry: "unat ((s AND 0xFFFF) + drop_bit 16 s :: u32) = unat s mod 65536 + unat s div 65536"
proof -
  have "unat s < 2 ^ 32" using unsigned_less [of s] by simp
  moreover have "unat s mod 65536 < 65536" by simp
  ultimately have "unat s mod 65536 + unat s div 65536 < 2 ^ 32" by simp
  then show ?thesis by (simp add: unat_word_ariths unat_low16 unat_high16)
qed

lemma carry_less: "0 < n div 65536 \<Longrightarrow> n mod 65536 + n div 65536 < (n :: nat)"
  using div_mult_mod_eq [of n 65536] by linarith

function fold_carry :: "u32 \<Rightarrow> u32" where
  "fold_carry s = (if drop_bit 16 s \<noteq> 0 then fold_carry ((s AND 0xFFFF) + drop_bit 16 s) else s)"
  by pat_completeness auto
termination
  by (relation "measure unat") (auto simp: unat_carry word_unat_eq_iff unat_high16 dest: carry_less)

declare fold_carry.simps [simp del]

definition checksum16 :: "u8 list \<Rightarrow> nat \<Rightarrow> u16" where
  "checksum16 data n = ucast (NOT (fold_carry (checksum32_add 0 data n)))"

definition pseudo_header :: "u32 \<Rightarrow> u32 \<Rightarrow> nat \<Rightarrow> u8 list" where
  "pseudo_header src dst tcp_len =
     [ucast (drop_bit 24 src), ucast (drop_bit 16 src), ucast (drop_bit 8 src), ucast src,
      ucast (drop_bit 24 dst), ucast (drop_bit 16 dst), ucast (drop_bit 8 dst), ucast dst,
      0, 6, of_nat (tcp_len div 256), of_nat tcp_len]"

definition tcp_checksum :: "u32 \<Rightarrow> u32 \<Rightarrow> u8 list \<Rightarrow> nat \<Rightarrow> u16" where
  "tcp_checksum src dst seg tcp_len =
     ucast (NOT (fold_carry (checksum32_add (checksum32_add 0 (pseudo_header src dst tcp_len) 12) seg tcp_len)))"

section \<open>Numbers and dotted addresses\<close>

definition is_digit :: "u8 \<Rightarrow> bool" where
  "is_digit c \<longleftrightarrow> 48 \<le> c \<and> c \<le> 57"

text \<open>
  The digit loop of \<^verbatim>\<open>parse_u32\<close> and \<^verbatim>\<open>parse_u16_any\<close>; the value is checked against
  the limit after each digit, so it never leaves 32 bits.
\<close>

lemma is_digit_nonzero: "is_digit c \<Longrightarrow> c \<noteq> 0"
  by (auto simp: is_digit_def)

function parse_digits :: "u8 list \<Rightarrow> nat \<Rightarrow> nat \<Rightarrow> nat \<Rightarrow> (nat \<times> nat) option" where
  "parse_digits s limit v i =
     (if is_digit (rd s i) then
        let v1 = v * 10 + (unat (rd s i) - 48)
        in if v1 > limit then None else parse_digits s limit v1 (i + 1)
      else Some (v, i))"
  by pat_completeness auto
termination
  by (relation "measure (\<lambda>(s, limit, v, i). length s - i)") (auto dest!: is_digit_nonzero rd_nonzero_less)

declare parse_digits.simps [simp del]

definition parse_u32 :: "u8 list \<Rightarrow> (nat \<times> nat) option" where
  "parse_u32 s = (if \<not> is_digit (rd s 0) then None else parse_digits s 255 0 0)"

definition parse_u16_any :: "u8 list \<Rightarrow> (u16 \<times> nat) option" where
  "parse_u16_any s =
     (if \<not> is_digit (rd s 0) then None
      else case parse_digits s 65535 0 0 of None \<Rightarrow> None | Some (v, i) \<Rightarrow> Some (of_nat v, i))"

text \<open>One octet that must be followed by \<open>stop\<close>: its value and the text behind the stop.\<close>

definition parse_octet :: "u8 \<Rightarrow> u8 list \<Rightarrow> (u32 \<times> u8 list) option" where
  "parse_octet stop s =
     (case parse_u32 s of
        None \<Rightarrow> None
      | Some (v, n) \<Rightarrow> if rd s n \<noteq> stop then None else Some (of_nat v, drop (n + 1) s))"

definition net_parse_ipv4 :: "u8 list \<Rightarrow> u32 option" where
  "net_parse_ipv4 s =
     (case parse_octet 46 s of None \<Rightarrow> None | Some (o0, s1) \<Rightarrow>
      case parse_octet 46 s1 of None \<Rightarrow> None | Some (o1, s2) \<Rightarrow>
      case parse_octet 46 s2 of None \<Rightarrow> None | Some (o2, s3) \<Rightarrow>
      case parse_octet 0 s3 of None \<Rightarrow> None | Some (o3, _) \<Rightarrow>
        Some (push_bit 24 o0 OR push_bit 16 o1 OR push_bit 8 o2 OR o3))"

fun dec_rev :: "nat \<Rightarrow> u8 list" where
  "dec_rev v = (if v > 0 then of_nat (48 + v mod 10) # dec_rev (v div 10) else [])"

declare dec_rev.simps [simp del]

definition u32_to_dec :: "u32 \<Rightarrow> u8 list" where
  "u32_to_dec value = (if value = 0 then [48] else rev (dec_rev (unat value)))"

text \<open>Appending a string at \<open>p\<close> while there is room, and a single dot.\<close>

definition fmt_text :: "nat \<Rightarrow> u8 list \<times> nat \<Rightarrow> u8 list \<Rightarrow> u8 list \<times> nat" where
  "fmt_text out_size st a =
     foldl (\<lambda>(out, p) c. if p + 1 < out_size then (out[p := c], p + 1) else (out, p)) st a"

definition fmt_dot :: "u8 list \<times> nat \<Rightarrow> u8 list \<times> nat" where
  "fmt_dot st = ((fst st)[snd st := 46], snd st + 1)"

definition net_format_ipv4 :: "u32 \<Rightarrow> u8 list \<Rightarrow> nat \<Rightarrow> u8 list" where
  "net_format_ipv4 ip out out_size =
     (if out_size < 16 then out
      else let a = u32_to_dec (drop_bit 24 ip AND 0xFF);
               b = u32_to_dec (drop_bit 16 ip AND 0xFF);
               c = u32_to_dec (drop_bit 8 ip AND 0xFF);
               d = u32_to_dec (ip AND 0xFF);
               s1 = fmt_dot (fmt_text out_size (out, 0) a);
               s2 = fmt_dot (fmt_text out_size s1 b);
               s3 = fmt_dot (fmt_text out_size s2 c);
               s4 = fmt_text out_size s3 d
           in (fst s4)[snd s4 := 0])"

section \<open>URLs\<close>

definition ascii_lower :: "u8 \<Rightarrow> u8" where
  "ascii_lower c = (if 65 \<le> c \<and> c \<le> 90 then c + 32 else c)"

function starts_ci_from :: "u8 list \<Rightarrow> u8 list \<Rightarrow> nat \<Rightarrow> bool" where
  "starts_ci_from s prefix i =
     (if rd prefix i \<noteq> 0 then
        (if ascii_lower (rd s i) \<noteq> ascii_lower (rd prefix i) then False else starts_ci_from s prefix (i + 1))
      else True)"
  by pat_completeness auto
termination
  by (relation "measure (\<lambda>(s, prefix, i). length prefix - i)") (auto dest!: rd_nonzero_less)

declare starts_ci_from.simps [simp del]

definition starts_with_ci :: "u8 list \<Rightarrow> u8 list \<Rightarrow> bool" where
  "starts_with_ci s prefix = starts_ci_from s prefix 0"

datatype net_http_result = NET_HTTP_OK | NET_HTTP_ERR_INVALID_ARG | NET_HTTP_ERR_BAD_URL
  | NET_HTTP_ERR_UNSUPPORTED_SCHEME | NET_HTTP_ERR_LINK_DOWN | NET_HTTP_ERR_NO_IP | NET_HTTP_ERR_DNS_FAILED
  | NET_HTTP_ERR_TCP_UNAVAILABLE | NET_HTTP_ERR_TIMEOUT | NET_HTTP_ERR_PROTOCOL

function has_scheme :: "u8 list \<Rightarrow> nat \<Rightarrow> bool" where
  "has_scheme url i =
     (if rd url i \<noteq> 0 then
        (if rd url i = 58 \<and> rd url (i + 1) = 47 \<and> rd url (i + 2) = 47 then True else has_scheme url (i + 1))
      else False)"
  by pat_completeness auto
termination
  by (relation "measure (\<lambda>(url, i). length url - i)") (auto dest!: rd_nonzero_less)

declare has_scheme.simps [simp del]

function host_length :: "u8 list \<Rightarrow> nat \<Rightarrow> nat" where
  "host_length p n =
     (if rd p n \<noteq> 0 \<and> rd p n \<noteq> 58 \<and> rd p n \<noteq> 47 then host_length p (n + 1) else n)"
  by pat_completeness auto
termination
  by (relation "measure (\<lambda>(p, n). length p - n)") (auto dest!: rd_nonzero_less)

declare host_length.simps [simp del]

text \<open>What follows the host: the port and the path, the path pointing into the URL or at the literal.\<close>

definition url_path :: "u8 list \<Rightarrow> net_http_result + u8 list" where
  "url_path p =
     (if rd p 0 = 0 then Inr (str ''/'')
      else if rd p 0 \<noteq> 47 then Inl NET_HTTP_ERR_BAD_URL
      else Inr p)"

definition url_port :: "u8 list \<Rightarrow> net_http_result + (u16 \<times> u8 list)" where
  "url_port p =
     (if rd p 0 = 58 then
        (case parse_u16_any (drop 1 p) of
           None \<Rightarrow> Inl NET_HTTP_ERR_BAD_URL
         | Some (port, consumed) \<Rightarrow> if consumed = 0 then Inl NET_HTTP_ERR_BAD_URL else Inr (port, drop (1 + consumed) p))
      else Inr (80, p))"

text \<open>The result is the host buffer, the port and the path; on an error the outputs are not used.\<close>

definition parse_http_url :: "u8 list \<Rightarrow> u8 list \<Rightarrow> nat \<Rightarrow> net_http_result + (u8 list \<times> u16 \<times> u8 list)" where
  "parse_http_url url host_out host_out_size =
     (if host_out_size = 0 then Inl NET_HTTP_ERR_INVALID_ARG
      else if has_scheme url 0 \<and> starts_with_ci url (str ''https://'') then Inl NET_HTTP_ERR_UNSUPPORTED_SCHEME
      else if has_scheme url 0 \<and> \<not> starts_with_ci url (str ''http://'') then Inl NET_HTTP_ERR_UNSUPPORTED_SCHEME
      else let p = (if has_scheme url 0 then drop 7 url else url); host_len = host_length p 0
        in if host_len = 0 \<or> host_len + 1 > host_out_size then Inl NET_HTTP_ERR_BAD_URL
           else let host = (mem_copy host_out p host_len)[host_len := 0] in
             case url_port (drop host_len p) of
               Inl e \<Rightarrow> Inl e
             | Inr (port, p1) \<Rightarrow> (case url_path p1 of Inl e \<Rightarrow> Inl e | Inr path \<Rightarrow> Inr (host, port, path)))"

section \<open>DNS names\<close>

text \<open>The loop over the host; the result is the output, its length, and where the last label starts.\<close>

function dns_encode_loop ::
  "u8 list \<Rightarrow> nat \<Rightarrow> u8 list \<Rightarrow> nat \<Rightarrow> nat \<Rightarrow> nat \<Rightarrow> nat \<Rightarrow> bool \<Rightarrow> (u8 list \<times> nat \<times> nat \<times> nat \<times> nat \<times> bool) option"
where
  "dns_encode_loop host out_size out i w label_start label_len had_label =
     (let c = rd host i in
      if c = 0 then Some (out, i, w, label_start, label_len, had_label)
      else if c = 46 then
        (if label_len = 0 \<or> label_len > 63 \<or> w + 1 + label_len \<ge> out_size then None
         else dns_encode_loop host out_size
                (blit (out[w := of_nat label_len]) (w + 1) (drop label_start host) (i - label_start))
                (i + 1) (w + 1 + (i - label_start)) (i + 1) 0 True)
      else if c < 33 \<or> c > 126 then None
      else dns_encode_loop host out_size out (i + 1) w label_start (label_len + 1) had_label)"
  by pat_completeness auto
termination
  by (relation "measure (\<lambda>(host, out_size, out, i, w, ls, ll, had). length host - i)") (auto simp: rd_def split: if_splits)

declare dns_encode_loop.simps [simp del]

definition dns_encode_name :: "u8 list \<Rightarrow> u8 list \<Rightarrow> nat \<Rightarrow> (u8 list \<times> nat) option" where
  "dns_encode_name host out out_size =
     (case dns_encode_loop host out_size out 0 0 0 0 False of
        None \<Rightarrow> None
      | Some (out1, i, w, label_start, label_len, had_label) \<Rightarrow>
          if label_len = 0 \<and> \<not> had_label then None
          else if label_len = 0 \<and> had_label then None
          else if label_len > 63 \<or> w + 1 + label_len + 1 > out_size then None
          else let out2 = blit (out1[w := of_nat label_len]) (w + 1) (drop label_start host) (i - label_start);
                   w2 = w + 1 + (i - label_start)
               in Some (out2[w2 := 0], w2 + 1))"

function dns_skip_loop :: "u8 list \<Rightarrow> nat \<Rightarrow> nat \<Rightarrow> nat \<Rightarrow> nat option \<Rightarrow> nat option" where
  "dns_skip_loop msg msg_len pos jumps out =
     (if pos < msg_len then
        let c = rd msg pos in
        if c = 0 then (case out of None \<Rightarrow> Some (pos + 1) | Some off \<Rightarrow> Some off)
        else if c AND 0xC0 = 0xC0 then
          (if pos + 1 \<ge> msg_len then None
           else let out1 = (case out of None \<Rightarrow> Some (pos + 2) | Some off \<Rightarrow> Some off);
                    pos1 = unat (c AND 0x3F) * 256 + unat (rd msg (pos + 1));
                    jumps1 = jumps + 1
                in if jumps1 > 8 \<or> pos1 \<ge> msg_len then None else dns_skip_loop msg msg_len pos1 jumps1 out1)
        else if c > 63 \<or> pos + 1 + unat c > msg_len then None
        else dns_skip_loop msg msg_len (pos + 1 + unat c) jumps out
      else None)"
  by pat_completeness auto
termination
  by (relation "measures [\<lambda>(msg, n, pos, jumps, out). 9 - jumps, \<lambda>(msg, n, pos, jumps, out). n - pos]") (auto simp: not_less)

declare dns_skip_loop.simps [simp del]

text \<open>The offset behind the name, also when the name continues elsewhere.\<close>

definition dns_skip_name :: "u8 list \<Rightarrow> nat \<Rightarrow> nat \<Rightarrow> nat option" where
  "dns_skip_name msg msg_len offset = dns_skip_loop msg msg_len offset 0 None"

end
