(* ===== verification/Net_Codec_Props.thy ===== *)
theory Net_Codec_Props
  imports Net_Codec
begin

text \<open>Properties of the codecs: dotted addresses, the checksum and DNS names.\<close>

section \<open>Dotted addresses\<close>

definition dec_val :: "nat \<Rightarrow> u8 list \<Rightarrow> nat" where
  "dec_val v ds = foldl (\<lambda>v d. v * 10 + (unat d - 48)) v ds"

lemma dec_val_simps [simp]: "dec_val v [] = v" "dec_val v (d # ds) = dec_val (v * 10 + (unat d - 48)) ds"
    "dec_val v (ds @ es) = dec_val (dec_val v ds) es"
  by (simp_all add: dec_val_def)

lemma dec_val_mono: "v \<le> dec_val v ds"
proof (induction ds arbitrary: v)
  case (Cons d ds)
  have "v \<le> v * 10 + (unat d - 48)" by simp
  also have "\<dots> \<le> dec_val (v * 10 + (unat d - 48)) ds" by (rule Cons.IH)
  finally show ?case by simp
qed simp

lemma parse_digits_run:
  assumes "list_all is_digit ds" "\<not> is_digit (rd rest 0)" "dec_val v ds \<le> limit"
  shows "parse_digits (pre @ ds @ rest) limit v (length pre) = Some (dec_val v ds, length pre + length ds)"
  using assms
proof (induction ds arbitrary: v pre)
  case Nil
  have "rd (pre @ rest) (length pre) = rd rest 0" by (simp add: rd_def nth_append)
  with Nil show ?case by (simp add: parse_digits.simps [of "pre @ rest"])
next
  case (Cons d ds)
  have r: "rd (pre @ d # ds @ rest) (length pre) = d" by (simp add: rd_def nth_append)
  have "v * 10 + (unat d - 48) \<le> limit" using Cons.prems(3) dec_val_mono [of "v * 10 + (unat d - 48)" ds] by simp
  then show ?case
    using Cons.IH [of "v * 10 + (unat d - 48)" "pre @ [d]"] Cons.prems
    by (simp add: parse_digits.simps [of "pre @ d # ds @ rest"] r Let_def not_less)
qed

lemma digit_code: "d < 10 \<Longrightarrow> unat (of_nat (48 + d) :: u8) = 48 + d \<and> is_digit (of_nat (48 + d))"
  by (simp add: is_digit_def word_le_nat_alt unat_of_nat del: of_nat_add)

lemma dec_rev_val: "list_all is_digit (dec_rev v) \<and> dec_val 0 (rev (dec_rev v)) = v"
proof (induction v rule: dec_rev.induct)
  case (1 v)
  have m: "v mod 10 < 10" by simp
  show ?case using 1 digit_code [OF m] by (simp add: dec_rev.simps [of v])
qed

lemma u32_to_dec_val: "list_all is_digit (u32_to_dec x) \<and> dec_val 0 (u32_to_dec x) = unat x \<and> u32_to_dec x \<noteq> []"
  using dec_rev_val [of "unat x"] by (auto simp: u32_to_dec_def is_digit_def dec_rev.simps [of "unat x"] word_unat_eq_iff)

lemma u32_to_dec_nonzero: "0 \<notin> set (u32_to_dec x)"
proof
  assume "0 \<in> set (u32_to_dec x)"
  with u32_to_dec_val [of x] have "is_digit 0" unfolding list_all_iff by blast
  then show False by (simp add: is_digit_def)
qed

lemma u32_to_dec_length: "x \<le> 255 \<Longrightarrow> length (u32_to_dec x) \<le> 3"
proof -
  assume "x \<le> 255"
  then have "unat x \<le> 255" by (simp add: word_le_nat_alt)
  then show ?thesis
    by (simp add: u32_to_dec_def dec_rev.simps [of "unat x"] dec_rev.simps [of "unat x div 10"]
        dec_rev.simps [of "unat x div 10 div 10"] dec_rev.simps [of "unat x div 10 div 10 div 10"] dec_rev.simps [of 0])
qed

lemma parse_octet_dec:
  assumes "x \<le> 255" "\<not> is_digit stop"
  shows "parse_octet stop (u32_to_dec x @ stop # rest) = Some (x, rest)"
proof -
  note d = u32_to_dec_val [of x]
  have x: "unat x \<le> 255" using assms(1) by (simp add: word_le_nat_alt)
  have "is_digit (rd (u32_to_dec x @ stop # rest) 0)" using d by (cases "u32_to_dec x") auto
  then have "parse_u32 (u32_to_dec x @ stop # rest) = Some (unat x, length (u32_to_dec x))"
    using parse_digits_run [of "u32_to_dec x" "stop # rest" 0 255 "[]"] d x assms(2) by (simp add: parse_u32_def)
  then show ?thesis by (simp add: parse_octet_def rd_def nth_append)
qed

lemma fmt_text_room:
  assumes "length out = p + n" "p + length a < sz" "length a \<le> n"
  shows "fmt_text sz (out, p) a = (take p out @ a @ drop (p + length a) out, p + length a)"
  using assms
proof (induction a arbitrary: out p n)
  case (Cons c a)
  have 1: "take p out @ c # drop (Suc p) out = out[p := c]"
    using Cons.prems by (simp add: upd_conv_take_nth_drop)
  have "fmt_text sz (out[p := c], Suc p) a = (take (Suc p) (out[p := c]) @ a @ drop (Suc p + length a) (out[p := c]), Suc p + length a)"
    using Cons.prems by (intro Cons.IH [of _ _ "n - 1"]) auto
  moreover have "take (Suc p) (out[p := c]) = take p out @ [c]"
    using Cons.prems by (simp add: take_Suc_conv_app_nth)
  ultimately show ?case using Cons.prems by (simp add: fmt_text_def)
qed (simp add: fmt_text_def)

text \<open>Appending to a finished prefix.\<close>

definition fmt_at :: "nat \<Rightarrow> u8 list \<Rightarrow> u8 list \<times> nat \<Rightarrow> bool" where
  "fmt_at cap pre st \<longleftrightarrow> snd st = length pre \<and> length (fst st) = cap \<and> take (length pre) (fst st) = pre"

lemma fmt_text_at:
  assumes "fmt_at cap pre st" "length pre + length a < sz" "sz \<le> cap"
  shows "fmt_at cap (pre @ a) (fmt_text sz st a)"
proof (cases st)
  case (Pair out p)
  have "fmt_text sz (out, p) a = (take p out @ a @ drop (p + length a) out, p + length a)"
    using assms by (intro fmt_text_room [of _ _ "cap - p"]) (auto simp: fmt_at_def Pair)
  then show ?thesis using assms by (auto simp: fmt_at_def Pair)
qed

lemma fmt_dot_at: "fmt_at cap pre st \<Longrightarrow> length pre < cap \<Longrightarrow> fmt_at cap (pre @ [46]) (fmt_dot st)"
  by (cases st) (auto simp: fmt_at_def fmt_dot_def take_Suc_conv_app_nth)

definition dotted :: "u32 \<Rightarrow> u8 list" where
  "dotted ip = u32_to_dec (drop_bit 24 ip AND 0xFF) @ 46 # u32_to_dec (drop_bit 16 ip AND 0xFF) @ 46
     # u32_to_dec (drop_bit 8 ip AND 0xFF) @ 46 # u32_to_dec (ip AND 0xFF)"

lemma octet_le: "(x :: u32) AND 0xFF \<le> 255"
  by (simp add: word_and_le1)

lemma net_format_ipv4_dotted:
  assumes "16 \<le> sz" "sz \<le> length out"
  shows "length (dotted ip) \<le> 15" "\<exists>r. net_format_ipv4 ip out sz = dotted ip @ 0 # r"
    "length (net_format_ipv4 ip out sz) = length out"
proof -
  let ?a = "u32_to_dec (drop_bit 24 ip AND 0xFF)" and ?b = "u32_to_dec (drop_bit 16 ip AND 0xFF)"
    and ?c = "u32_to_dec (drop_bit 8 ip AND 0xFF)" and ?d = "u32_to_dec (ip AND 0xFF)"
  have l: "length ?a \<le> 3" "length ?b \<le> 3" "length ?c \<le> 3" "length ?d \<le> 3"
    by (rule u32_to_dec_length [OF octet_le])+
  then show "length (dotted ip) \<le> 15" by (simp add: dotted_def)
  let ?n = "length out"
  let ?s1 = "fmt_dot (fmt_text sz (out, 0) ?a)"
  let ?s2 = "fmt_dot (fmt_text sz ?s1 ?b)"
  let ?s3 = "fmt_dot (fmt_text sz ?s2 ?c)"
  have s0: "fmt_at ?n [] (out, 0)" by (simp add: fmt_at_def)
  have s1: "fmt_at ?n (?a @ [46]) ?s1"
    using fmt_dot_at [OF fmt_text_at [OF s0, of ?a sz]] l assms by simp
  have s2: "fmt_at ?n (((?a @ [46]) @ ?b) @ [46]) ?s2"
    by (rule fmt_dot_at [OF fmt_text_at [OF s1]]) (use l assms in simp_all)
  have s3: "fmt_at ?n (((((?a @ [46]) @ ?b) @ [46]) @ ?c) @ [46]) ?s3"
    by (rule fmt_dot_at [OF fmt_text_at [OF s2]]) (use l assms in simp_all)
  have s4: "fmt_at ?n (dotted ip) (fmt_text sz ?s3 ?d)"
    using fmt_text_at [OF s3, of ?d sz] l assms by (simp add: dotted_def)
  have e: "net_format_ipv4 ip out sz = (fst (fmt_text sz ?s3 ?d))[snd (fmt_text sz ?s3 ?d) := 0]"
    using assms by (simp add: net_format_ipv4_def Let_def)
  obtain o4 p4 where o4: "fmt_text sz ?s3 ?d = (o4, p4)" by fastforce
  have "p4 = length (dotted ip)" "length o4 = ?n" "take p4 o4 = dotted ip" "p4 < length o4"
    using s4 assms \<open>length (dotted ip) \<le> 15\<close> by (auto simp: fmt_at_def o4)
  then have "o4[p4 := 0] = dotted ip @ 0 # drop (Suc p4) o4" by (simp add: upd_conv_take_nth_drop)
  then show "\<exists>r. net_format_ipv4 ip out sz = dotted ip @ 0 # r" unfolding e o4 by auto
  show "length (net_format_ipv4 ip out sz) = length out" unfolding e o4 using \<open>length o4 = ?n\<close> by simp
qed

lemma low_byte: "x AND 0xFF = take_bit 8 (x :: u32)"
  by (simp add: take_bit_eq_mask mask_eq_exp_minus_1)

lemma ipv4_join: "push_bit 24 (drop_bit 24 ip AND 0xFF) OR push_bit 16 (drop_bit 16 ip AND 0xFF)
    OR push_bit 8 (drop_bit 8 ip AND 0xFF) OR (ip AND 0xFF) = (ip :: u32)"
  unfolding low_byte
proof (rule bit_word_eqI)
  fix n :: nat
  assume n: "n < LENGTH(32)"
  have "n < 8 \<or> 8 \<le> n \<and> n < 16 \<or> 16 \<le> n \<and> n < 24 \<or> 24 \<le> n \<and> n < 32" using n by auto
  then show "bit (push_bit 24 (take_bit 8 (drop_bit 24 ip)) OR push_bit 16 (take_bit 8 (drop_bit 16 ip))
    OR push_bit 8 (take_bit 8 (drop_bit 8 ip)) OR take_bit 8 ip) n = bit ip n"
    by (elim disjE) (auto simp: bit_or_iff bit_push_bit_iff bit_take_bit_iff bit_drop_bit_eq)
qed

text \<open>
  Formatting an address into a buffer of at least sixteen characters and parsing the text gives the
  address back, for every address; the text has at most fifteen characters and never leaves the buffer.
\<close>

theorem ipv4_text_roundtrip:
  assumes "16 \<le> out_size" "out_size \<le> length out"
  shows "net_parse_ipv4 (net_format_ipv4 ip out out_size) = Some ip
    \<and> length (cstr (net_format_ipv4 ip out out_size)) \<le> 15 \<and> length (net_format_ipv4 ip out out_size) = length out"
proof -
  obtain r where r: "net_format_ipv4 ip out out_size = dotted ip @ 0 # r"
    using net_format_ipv4_dotted(2) [OF assms] by blast
  have s: "\<not> is_digit 46" "\<not> is_digit 0" by (simp_all add: is_digit_def)
  have "net_parse_ipv4 (dotted ip @ 0 # r) = Some ip"
    using ipv4_join [of ip] by (simp add: net_parse_ipv4_def dotted_def parse_octet_dec [OF octet_le] s)
  moreover have "0 \<notin> set (dotted ip)"
    using u32_to_dec_nonzero by (simp add: dotted_def)
  ultimately show ?thesis using r net_format_ipv4_dotted(1,3) [OF assms, of ip] by (simp add: cstr_append_zero)
qed

theorem ipv4_text_roundtrip_witness: "net_parse_ipv4 (net_format_ipv4 0xC0A80001 (replicate 16 0) 16) = Some 0xC0A80001"
  using ipv4_text_roundtrip [of 16 "replicate 16 0"] by simp

section \<open>The checksum\<close>

text \<open>The sum of the big-endian 16-bit words of a byte list, an odd last byte counting as the upper half.\<close>

fun word_sum :: "u8 list \<Rightarrow> nat" where
  "word_sum (a # b # xs) = 256 * unat a + unat b + word_sum xs"
| "word_sum [a] = 256 * unat a"
| "word_sum [] = 0"

lemma byte_le: "unat (a :: u8) \<le> 255"
  using unsigned_less [of a, where 'a = nat] by simp

lemma pair16_nat: "pair16 a b = of_nat (256 * unat a + unat b)"
proof -
  have "pair16 a b = push_bit 8 (ucast a) + ucast b"
    unfolding pair16_def by (rule disjunctive_add_eq_or [symmetric], rule bit_word_eqI) (auto simp: bit_simps dest: bit_imp_le_length)
  then show ?thesis by (simp add: push_bit_eq_mult)
qed

lemma sum_pairs_sum:
  "\<lbrakk>n \<le> length p; i \<le> n; even i\<rbrakk> \<Longrightarrow>
   (if odd n then sum_pairs p n i acc + push_bit 8 (ucast (rd p (n - 1))) else sum_pairs p n i acc)
     = acc + of_nat (word_sum (drop i (take n p)))"
proof (induction p n i acc rule: sum_pairs.induct)
  case (1 p n i acc)
  show ?case
  proof (cases "i + 1 < n")
    case True
    have "drop i (take n p) = p ! i # p ! (i + 1) # drop (i + 2) (take n p)"
      using True 1(2) by (simp add: Cons_nth_drop_Suc [symmetric])
    then show ?thesis
      using 1(1) [OF True 1(2)] 1(2,4) True
      by (simp add: sum_pairs.simps [of p n i] rd_in pair16_nat algebra_simps split: if_splits)
  next
    case False
    have "i = n \<or> n = Suc i" using False 1(3) by linarith
    then have "i = n \<or> (odd n \<and> i = n - 1)" using 1(4) by auto
    then show ?thesis
    proof
      assume "i = n"
      then show ?thesis using 1(4) by (simp add: sum_pairs.simps [of p n n])
    next
      assume o: "odd n \<and> i = n - 1"
      then have "drop i (take n p) = [p ! (n - 1)]"
        using 1(2) by (cases n) (simp_all add: take_Suc_conv_app_nth)
      then show ?thesis using o 1(2) by (cases n) (simp_all add: sum_pairs.simps [of p "Suc i" i] rd_in push_bit_eq_mult)
    qed
  qed
qed

lemma checksum32_add_sum: "n = length p \<Longrightarrow> checksum32_add acc p n = acc + of_nat (word_sum p)"
  using sum_pairs_sum [of "length p" p 0 acc] by (auto simp: checksum32_add_def Let_def split: if_splits)

lemma fold_carry_mod: "unat (fold_carry s) = (if unat s = 0 then 0 else (unat s - 1) mod 65535 + 1)"
proof (induction s rule: fold_carry.induct)
  case (1 s)
  let ?s = "(s AND 0xFFFF) + drop_bit 16 s"
  show ?case
  proof (cases "drop_bit 16 s = 0")
    case True
    then have "unat s div 65536 = 0" using unat_high16 [of s] by simp
    then have "unat s < 65536" by simp
    then show ?thesis using True by (auto simp: fold_carry.simps [of s])
  next
    case False
    have q: "0 < unat s div 65536" using False unat_high16 [of s] by (simp add: word_unat_eq_iff)
    have u: "unat ?s = unat s mod 65536 + unat s div 65536" by (rule unat_carry)
    have "unat s = unat ?s + 65535 * (unat s div 65536)"
      unfolding u using div_mult_mod_eq [of "unat s" 65536] by linarith
    then have "unat s - 1 = unat ?s - 1 + 65535 * (unat s div 65536)" using q u by linarith
    then have "(unat s - 1) mod 65535 = (unat ?s - 1) mod 65535" by (metis mod_mult_self2)
    moreover have "unat s \<noteq> 0" "unat ?s \<noteq> 0" using q u by auto
    ultimately show ?thesis using 1 False by (simp add: fold_carry.simps [of s])
  qed
qed

lemma unat_not_fold: "unat (ucast (NOT (fold_carry s)) :: u16) = 65535 - unat (fold_carry s)"
proof -
  have f: "unat (fold_carry s) \<le> 65535"
    unfolding fold_carry_mod using mod_less_divisor [of 65535 "unat s - 1"] by (simp del: mod_less_divisor)
  have "NOT (fold_carry s) = of_nat (4294967295 - unat (fold_carry s))"
    using f by (simp add: not_eq_complement of_nat_diff)
  then have "unat (ucast (NOT (fold_carry s)) :: u16) = (4294967295 - unat (fold_carry s)) mod 4294967296 mod 65536"
    by (simp add: unsigned_ucast_eq take_bit_eq_mod unat_of_nat)
  also have "\<dots> = (65535 - unat (fold_carry s) + 65535 * 65536) mod 65536" using f by simp
  also have "\<dots> = (65535 - unat (fold_carry s)) mod 65536" by (rule mod_mult_self1)
  also have "\<dots> = 65535 - unat (fold_carry s)" using f by simp
  finally show ?thesis .
qed

text \<open>The one's complement law behind the checksum field.\<close>

lemma complement_law:
  fixes s c :: u32
  assumes "unat s + 65535 < 2 ^ 32" "c = of_nat (65535 - unat (fold_carry s))"
  shows "ucast (NOT (fold_carry (s + c))) = (0 :: u16)"
proof -
  let ?f = "if unat s = 0 then 0 else (unat s - 1) mod 65535 + 1"
  have f: "?f \<le> 65535" using mod_less_divisor [of 65535 "unat s - 1"] by (simp del: mod_less_divisor)
  have "unat c = 65535 - ?f" using assms(2) by (simp add: fold_carry_mod unat_of_nat)
  then have u: "unat (s + c) = unat s + (65535 - ?f)" using assms(1) by (simp add: unat_word_ariths)
  have "unat (fold_carry (s + c)) = 65535"
  proof (cases "unat s = 0")
    case True
    then show ?thesis unfolding fold_carry_mod u by simp
  next
    case False
    let ?m = "(unat s - 1) mod 65535"
    have "unat (s + c) - 1 = (unat s - 1 - ?m) + 65534" using u False f by simp
    moreover have "(unat s - 1 - ?m + 65534) mod 65535 = 65534"
    proof -
      have "unat s - 1 - ?m = 65535 * ((unat s - 1) div 65535)"
        by (simp add: minus_mod_eq_mult_div)
      then show ?thesis by (simp only: mod_mult_self4) simp
    qed
    ultimately show ?thesis using u False f by (simp add: fold_carry_mod)
  qed
  then show ?thesis using unat_not_fold [of "s + c"] by (simp add: word_unat_eq_iff)
qed

lemma word_sum_le: "word_sum p \<le> 65535 * length p"
proof (induction p rule: word_sum.induct)
  case (1 a b xs)
  then show ?case using byte_le [of a] byte_le [of b] by simp
next
  case (2 a)
  then show ?case using byte_le [of a] by simp
qed simp

lemma word_sum_append: "even (length pre) \<Longrightarrow> word_sum (pre @ p) = word_sum pre + word_sum p"
  by (induction pre rule: word_sum.induct) auto

lemma htons_bytes: "u16_le (htons c) = [ucast (drop_bit 8 c), ucast c]"
proof -
  have "ucast (bswap16 c) = (ucast (drop_bit 8 c) :: u8)" "ucast (drop_bit 8 (bswap16 c)) = (ucast c :: u8)"
    by (rule bit_word_eqI, auto simp: bswap16_def bit_simps)+
  then show ?thesis by (simp add: u16_le_def htons_def)
qed

lemma word_sum_field: "word_sum (u16_le (htons c) @ p) = unat c + word_sum p"
proof -
  have "256 * unat (ucast (drop_bit 8 c) :: u8) + unat (ucast c :: u8) = unat c"
    using unsigned_less [of c, where 'a = nat]
    by (simp add: unsigned_ucast_eq take_bit_eq_mod drop_bit_eq_div unat_div less_mult_imp_div_less)
  then show ?thesis by (simp add: htons_bytes)
qed

text \<open>
  A header whose checksum field was zero when the sum was taken verifies once the sum is stored in the
  field: the checksum over it is then zero.  This holds for the Internet checksum of IP and ICMP and for
  the TCP checksum with its pseudo header, at every even position of the field.
\<close>

theorem checksum_verifies:
  assumes "even (length pre)" "length pre + 2 + length post \<le> 65515"
  shows "let n = length pre + 2 + length post; c = checksum16 (pre @ [0, 0] @ post) n;
      t = tcp_checksum src dst (pre @ [0, 0] @ post) n
    in checksum16 (pre @ u16_le (htons c) @ post) n = 0 \<and> tcp_checksum src dst (pre @ u16_le (htons t) @ post) n = 0"
proof -
  let ?n = "length pre + 2 + length post" and ?z = "pre @ [0, 0] @ post"
  let ?ph = "pseudo_header src dst ?n"
  have z: "word_sum ?z = word_sum pre + word_sum post" using assms(1) by (simp add: word_sum_append)
  have w: "word_sum (pre @ u16_le (htons c) @ post) = word_sum ?z + unat c" for c
    using assms(1) by (simp add: word_sum_append word_sum_field del: append.simps)
  have l: "length ?ph = 12" by (simp add: pseudo_header_def)
  have b: "word_sum ?z + word_sum ?ph + 65535 < 2 ^ 32"
    using word_sum_le [of ?z] word_sum_le [of ?ph] assms(2) l by simp
  have unat: "unat (of_nat (a + word_sum ?z) :: u32) = a + word_sum ?z" if "a \<le> word_sum ?ph" for a
    using that b by (simp add: unat_of_nat del: of_nat_add)
  have key: "ucast (NOT (fold_carry (of_nat (a + word_sum (pre @ u16_le (htons c) @ post))))) = (0 :: u16)"
    if "a \<le> word_sum ?ph" "c = ucast (NOT (fold_carry (of_nat (a + word_sum ?z))))" for a and c :: u16
  proof -
    have "of_nat (a + word_sum (pre @ u16_le (htons c) @ post)) = of_nat (a + word_sum ?z) + (of_nat (unat c) :: u32)"
      by (simp add: w)
    moreover have "ucast (NOT (fold_carry (of_nat (a + word_sum ?z) + of_nat (unat c)))) = (0 :: u16)"
    proof (rule complement_law)
      show "unat (of_nat (a + word_sum ?z) :: u32) + 65535 < 2 ^ 32" using unat [OF that(1)] b that(1) by simp
      show "of_nat (unat c) = (of_nat (65535 - unat (fold_carry (of_nat (a + word_sum ?z)))) :: u32)"
        unfolding that(2) unat_not_fold ..
    qed
    ultimately show ?thesis by (simp only:)
  qed
  have n: "?n = length ?z" "?n = length (pre @ u16_le (htons c) @ post)" for c by simp_all
  have 1: "checksum16 p ?n = ucast (NOT (fold_carry (of_nat (0 + word_sum p))))" if "?n = length p" for p
    unfolding checksum16_def checksum32_add_sum [OF that] by simp
  have 2: "tcp_checksum src dst p ?n = ucast (NOT (fold_carry (of_nat (word_sum ?ph + word_sum p))))" if "?n = length p" for p
    unfolding tcp_checksum_def checksum32_add_sum [OF that] checksum32_add_sum [OF l [symmetric]] by simp
  show ?thesis
    unfolding Let_def 1 [OF n(1)] 1 [OF n(2)] 2 [OF n(1)] 2 [OF n(2)] using key [of 0] key [of "word_sum ?ph"] by simp
qed

theorem checksum_verifies_witness:
  "checksum16 ([0x45, 0, 0, 28] @ u16_le (htons (checksum16 ([0x45, 0, 0, 28] @ [0, 0] @ [64, 1]) 8)) @ [64, 1]) 8 = 0"
proof -
  have n: "length [0x45, 0, 0, 28 :: u8] + 2 + length [64, 1 :: u8] = 8" by simp
  show ?thesis using checksum_verifies [of "[0x45, 0, 0, 28]" "[64, 1]", unfolded Let_def n] by simp
qed

section \<open>DNS names\<close>

text \<open>The labels of a name and their encoding: a length byte before each, a zero byte at the end.\<close>

fun labels_from :: "u8 list \<Rightarrow> u8 list \<Rightarrow> u8 list list" where
  "labels_from acc [] = [acc]"
| "labels_from acc (c # cs) = (if c = 46 then acc # labels_from [] cs else labels_from (acc @ [c]) cs)"

definition labels :: "u8 list \<Rightarrow> u8 list list" where
  "labels name = labels_from [] name"

definition wire :: "u8 list list \<Rightarrow> u8 list" where
  "wire ls = concat (map (\<lambda>l. of_nat (length l) # l) ls)"

definition name_chars_ok :: "u8 list \<Rightarrow> bool" where
  "name_chars_ok name \<longleftrightarrow> list_all (\<lambda>c. c = 46 \<or> (33 \<le> c \<and> c \<le> 126)) name"

definition label_ok :: "u8 list \<Rightarrow> bool" where
  "label_ok l \<longleftrightarrow> l \<noteq> [] \<and> length l \<le> 63"

lemma write_label:
  assumes "take (length w) buf = w" "length w + 1 + n \<le> length buf" "n \<le> length s"
  shows "blit (buf[length w := x]) (length w + 1) s n = w @ x # take n s @ drop (length w + 1 + n) buf"
proof -
  have b: "buf[length w := x] = (w @ [x]) @ drop (length w + 1) buf"
    using assms(1,2) by (simp add: upd_conv_take_nth_drop)
  show ?thesis unfolding b using assms(2,3) by (simp add: blit_def mem_copy_spec add.commute)
qed

lemma length_wire_Cons [simp]: "wire (l # ls) = of_nat (length l) # l @ wire ls" "wire [] = []"
  by (simp_all add: wire_def)

lemma wire_append: "wire (ls @ ms) = wire ls @ wire ms"
  by (simp add: wire_def)

lemma labels_from_nonempty [simp]: "labels_from acc cs \<noteq> []"
  by (induction acc cs rule: labels_from.induct) auto

text \<open>
  What the loop leaves behind when \<open>acc\<close> is the label so far and \<open>cs\<close> the rest of the name: all labels but
  the last are on the wire.
\<close>

definition fits :: "nat \<Rightarrow> u8 list \<Rightarrow> u8 list list \<Rightarrow> bool" where
  "fits sz w ls \<longleftrightarrow> list_all label_ok ls \<and> (ls \<noteq> [] \<longrightarrow> length (w @ wire ls) < sz)"

lemma encode_loop:
  assumes "take i host = pre @ acc" "length (pre @ acc) = i" "cstr (drop i host) = cs" "length buf = sz" "take (length w) buf = w"
  shows "case dns_encode_loop host sz buf i (length w) (length pre) (length acc) had of
      None \<Rightarrow> \<not> (name_chars_ok cs \<and> fits sz w (butlast (labels_from acc cs)))
    | Some (buf', i', w', ls', ll', had') \<Rightarrow>
        name_chars_ok cs \<and> fits sz w (butlast (labels_from acc cs))
        \<and> length buf' = sz \<and> i' = i + length cs \<and> w' = length (w @ wire (butlast (labels_from acc cs)))
        \<and> take w' buf' = w @ wire (butlast (labels_from acc cs)) \<and> drop w' buf' = drop w' buf
        \<and> ll' = length (last (labels_from acc cs)) \<and> take (i' - ls') (drop ls' host) = last (labels_from acc cs)
        \<and> i' - ls' = ll' \<and> i' \<le> length host \<and> (had' = (had \<or> butlast (labels_from acc cs) \<noteq> []))"
  using assms
proof (induction cs arbitrary: i pre acc buf w had)
  case Nil
  then have r: "rd host i = 0" using cstr_drop_unfold [of i host] by (simp split: if_splits)
  have il: "i \<le> length host" using Nil.prems(1,2) by (metis length_take min.bounded_iff order_refl)
  have "drop (length pre) (take i host) = acc" using Nil.prems(1) by simp
  then have "take (i - length pre) (drop (length pre) host) = acc" by (simp add: drop_take)
  then show ?case
    using Nil.prems r il
    by (simp add: dns_encode_loop.simps [of host sz buf i] Let_def name_chars_ok_def fits_def)
next
  case (Cons c cs)
  have c: "rd host i = c" "c \<noteq> 0" "cstr (drop (Suc i) host) = cs"
    using Cons.prems(3) cstr_drop_unfold [of i host] by (simp_all split: if_splits)
  then have il: "i < length host" using rd_nonzero_less [of host i] by simp
  then have ti: "take (Suc i) host = pre @ acc @ [c]"
    using Cons.prems(1) c(1) by (simp add: take_Suc_conv_app_nth rd_in)
  show ?case
  proof (cases "c = 46")
    case True
    have "drop (length pre) (take i host) = acc" using Cons.prems(1) by simp
    then have a: "take (i - length pre) (drop (length pre) host) = acc" by (simp add: drop_take)
    have n: "i - length pre = length acc" using Cons.prems(2) by auto
    show ?thesis
    proof (cases "label_ok acc \<and> length w + 1 + length acc < sz")
      case False
      then have "dns_encode_loop host sz buf i (length w) (length pre) (length acc) had = None"
        using c True by (auto simp: dns_encode_loop.simps [of host sz buf i] Let_def label_ok_def)
      then show ?thesis using False True by (auto simp: fits_def)
    next
      case ok: True
      let ?w = "w @ of_nat (length acc) # acc"
      let ?b = "blit (buf[length w := of_nat (length acc)]) (length w + 1) (drop (length pre) host) (length acc)"
      have al: "length acc \<le> length (drop (length pre) host)" using a n by (metis length_take min.cobounded1)
      have b: "?b = ?w @ drop (length w + 1 + length acc) buf"
        using write_label [of w buf "length acc" "drop (length pre) host" "of_nat (length acc)"] Cons.prems(4,5) ok al a n by simp
      have "dns_encode_loop host sz buf i (length w) (length pre) (length acc) had
          = dns_encode_loop host sz ?b (Suc i) (length ?w) (length (take (Suc i) host)) (length ([] :: u8 list)) True"
        using c True ok n ti Cons.prems(2) by (simp add: dns_encode_loop.simps [of host sz buf i] Let_def label_ok_def)
      moreover note Cons.IH [of "Suc i" "take (Suc i) host" "[]" ?b ?w True]
      moreover have "length ?b = sz" "take (length ?w) ?b = ?w" "drop (length ?w) ?b = drop (length w + 1 + length acc) buf"
        using b Cons.prems(4) ok by simp_all
      moreover have "fits sz w (acc # ls) = fits sz ?w ls" for ls
        using ok by (auto simp: fits_def)
      moreover have "drop (Suc (length w + (length acc + m))) ?b = drop (Suc (length w + (length acc + m))) buf" for m
        using b by (simp add: add_ac)
      ultimately show ?thesis
        using True ok c(3) il ti Cons.prems(2,4)
        by (auto simp: name_chars_ok_def drop_drop split: option.splits) 
    qed
  next
    case False
    show ?thesis
    proof (cases "33 \<le> c \<and> c \<le> 126")
      case True
      then have "\<not> c < 33" "\<not> c > 126" by auto
      then have "dns_encode_loop host sz buf i (length w) (length pre) (length acc) had
          = dns_encode_loop host sz buf (Suc i) (length w) (length pre) (length (acc @ [c])) had"
        using c False by (simp add: dns_encode_loop.simps [of host sz buf i] Let_def)
      then show ?thesis
        using Cons.IH [of "Suc i" pre "acc @ [c]" buf w had] True False c(3) ti Cons.prems(2,4,5)
        by (auto simp: name_chars_ok_def split: option.splits)
    next
      case bad: False
      then have "dns_encode_loop host sz buf i (length w) (length pre) (length acc) had = None"
        using c False by (auto simp: dns_encode_loop.simps [of host sz buf i] Let_def)
      then show ?thesis using bad False by (auto simp: name_chars_ok_def)
    qed
  qed
qed

lemma fits_mono: "length (w @ wire (ls @ [l])) < sz \<Longrightarrow> list_all label_ok ls \<Longrightarrow> fits sz w ls"
  by (simp add: fits_def wire_append)

lemma encode_name_eq:
  fixes host :: "u8 list"
  assumes "length out = out_size"
  defines "name \<equiv> cstr host" and "k \<equiv> length (wire (labels (cstr host)))"
  shows "dns_encode_name host out out_size =
    (if name_chars_ok name \<and> list_all label_ok (labels name) \<and> k + 1 \<le> out_size
     then Some (wire (labels name) @ 0 # drop (k + 1) out, k + 1) else None)"
proof -
  let ?ls = "butlast (labels name)" and ?l = "last (labels name)"
  have s: "labels name = ?ls @ [?l]" by (simp add: labels_def)
  have k: "k = length (wire ?ls) + 1 + length ?l" unfolding k_def name_def [symmetric] by (subst s) (simp add: wire_append)
  note e = encode_loop [of 0 host "[]" "[]" "cstr host" out out_size "[]" False, simplified, OF assms(1), folded labels_def name_def]
  show ?thesis
  proof (cases "dns_encode_loop host out_size out 0 0 0 0 False")
    case None
    have "\<not> (name_chars_ok name \<and> fits out_size [] ?ls)" using e None by simp
    moreover have "fits out_size [] ?ls" if "list_all label_ok (labels name)" "k + 1 \<le> out_size"
    proof -
      have "list_all label_ok ?ls" using that(1) s by (metis list_all_append)
      then show ?thesis using that(2) k by (simp add: fits_def)
    qed
    ultimately show ?thesis using None by (auto simp: dns_encode_name_def)
  next
    case (Some r)
    obtain b i w ls ll had where r: "r = (b, i, w, ls, ll, had)" by (cases r)
    have f: "name_chars_ok name" "fits out_size [] ?ls" "length b = out_size" "w = length (wire ?ls)"
        "take w b = wire ?ls" "drop w b = drop w out" "ll = length ?l" "take (i - ls) (drop ls host) = ?l" "i - ls = ll"
      using e unfolding Some r option.case prod.case append_Nil by - (elim conjE, assumption)+
    have lo: "list_all label_ok ?ls" using f(2) by (simp add: fits_def)
    have all: "list_all label_ok (labels name) \<longleftrightarrow> label_ok ?l" by (subst s) (simp add: lo)
    show ?thesis
    proof (cases "label_ok ?l \<and> k + 1 \<le> out_size")
      case False
      then have "dns_encode_name host out out_size = None"
        using Some r f(4,7) k by (auto simp: dns_encode_name_def label_ok_def)
      then show ?thesis using False all by auto
    next
      case True
      have ll: "ll \<le> length (drop ls host)" using f(8,9) f(7) by (metis length_take min.cobounded1)
      let ?b = "blit (b[w := of_nat ll]) (w + 1) (drop ls host) ll"
      have d: "drop (w + 1 + ll) b = drop (w + 1 + ll) out" using arg_cong [OF f(6), of "drop (1 + ll)"] by (simp add: add.commute)
      have "?b = wire ?ls @ of_nat ll # ?l @ drop k out"
        using write_label [of "wire ?ls" b ll "drop ls host" "of_nat ll"] f k True ll d by simp
      also have "\<dots> = wire (labels name) @ drop k out" by (subst (3) s) (simp add: wire_append f(7))
      finally have b: "?b = wire (labels name) @ drop k out" .
      have "(wire (labels name) @ drop k out)[k := 0] = wire (labels name) @ 0 # drop (k + 1) out"
        using True assms(1) by (simp add: list_update_append k_def name_def) (metis Cons_nth_drop_Suc Suc_le_lessD list_update_code(2))
      then show ?thesis
        using Some r f(4,7,9) k True all f(1) b by (simp add: dns_encode_name_def label_ok_def Let_def)
    qed
  qed
qed

lemma label_byte: "n \<le> 63 \<Longrightarrow> n > 0 \<Longrightarrow> (of_nat n :: u8) \<noteq> 0 \<and> of_nat n AND 0xC0 \<noteq> (0xC0 :: u8) \<and> \<not> of_nat n > (63 :: u8) \<and> unat (of_nat n :: u8) = n"
proof -
  assume n: "n \<le> 63" "n > 0"
  have "list_all (\<lambda>n. (of_nat n :: u8) AND 0xC0 \<noteq> 0xC0) [0..<64]" by code_simp
  with n have "of_nat n AND 0xC0 \<noteq> (0xC0 :: u8)" by (auto simp: list_all_iff)
  moreover have u: "unat (of_nat n :: u8) = n" using n by (simp add: unat_of_nat)
  ultimately show ?thesis using n by (auto simp: word_unat_eq_iff word_less_nat_alt)
qed

lemma skip_wire:
  assumes "list_all label_ok ls" "length pre + length (wire ls) < n" 
  shows "dns_skip_loop (pre @ wire ls @ 0 # post) n (length pre) j None = Some (length pre + length (wire ls) + 1)"
  using assms
proof (induction ls arbitrary: pre)
  case Nil
  then show ?case by (simp add: dns_skip_loop.simps [of "pre @ 0 # post"] rd_def nth_append)
next
  case (Cons l ls)
  let ?m = "pre @ of_nat (length l) # l @ wire ls @ 0 # post"
  have l: "length l \<le> 63" "length l > 0" using Cons.prems(1) by (auto simp: label_ok_def)
  have "rd ?m (length pre) = of_nat (length l)" by (simp add: rd_def nth_append)
  moreover have "dns_skip_loop ?m n (length pre + 1 + length l) j None = Some (length pre + 1 + length l + length (wire ls) + 1)"
    using Cons.IH [of "pre @ of_nat (length l) # l"] Cons.prems by simp
  ultimately show ?case
    using label_byte [OF l] Cons.prems(2) by (simp add: dns_skip_loop.simps [of ?m] Let_def)
qed

text \<open>
  Encoding a host name succeeds exactly if its characters are printable, every label between its dots has
  1 to 63 characters and the encoding fits; the encoding is then the labels with their lengths and a zero
  byte, nothing behind it is written, and skipping the name in any message that contains it lands exactly
  behind it.
\<close>

theorem dns_name_roundtrip:
  assumes "length out = out_size"
  shows "let name = cstr host; k = length (wire (labels name)) in
    dns_encode_name host out out_size =
      (if name_chars_ok name \<and> list_all label_ok (labels name) \<and> k + 1 \<le> out_size
       then Some (wire (labels name) @ 0 # drop (k + 1) out, k + 1) else None)
    \<and> (\<forall>b w pre post n. dns_encode_name host out out_size = Some (b, w) \<and> length pre + w \<le> n
        \<longrightarrow> dns_skip_name (pre @ take w b @ post) n (length pre) = Some (length pre + w))"
  unfolding Let_def encode_name_eq [OF assms]
  by (auto simp: dns_skip_name_def skip_wire)

theorem dns_name_roundtrip_witness:
  "dns_encode_name (str ''a.bc'') (replicate 7 0) 7 = Some ([1, 97, 2, 98, 99, 0, 0], 6)
    \<and> dns_skip_name [9, 1, 97, 2, 98, 99, 0, 7] 8 1 = Some 7"
proof -
  have k: "name_chars_ok (cstr (str ''a.bc''))" "list_all label_ok (labels (cstr (str ''a.bc'')))"
    "wire (labels (cstr (str ''a.bc''))) = [1, 97, 2, 98, 99]" by code_simp+
  note t = dns_name_roundtrip [of "replicate 7 0" 7 "str ''a.bc''", unfolded Let_def k(3), simplified]
  have e: "dns_encode_name (str ''a.bc'') (replicate 7 0) 7 = Some ([1, 97, 2, 98, 99, 0, 0], 6)"
    using t k by simp
  moreover have "dns_skip_name ([9] @ take 6 [1, 97, 2, 98, 99, 0, 0] @ [7]) 8 (length [9 :: u8]) = Some (length [9 :: u8] + 6)"
    using t k e by (intro t [THEN conjunct2, rule_format]) simp
  ultimately show ?thesis by simp
qed

end
