(* ===== verification/Net_Stack.thy ===== *)
theory Net_Stack
  imports Net_Codec
begin

text \<open>
  The state and the frame handlers of \<^verbatim>\<open>src/drivers/net.c\<close>: Ethernet, ARP, IPv4, ICMP, UDP
  with DHCP and DNS, and the one TCP connection of the HTTP client.

  A pointer into a received frame is the list of the bytes from there on; the list may be longer than
  the length that goes with it, as the frame lies in a larger buffer.  The packed structs are records of the
  fields as they lie in memory, so the byte order functions appear where the code calls them.

  The network card and the timer are the environment: \<open>nw_env\<close> lists, for each further
  \<^verbatim>\<open>rtl8139_poll\<close>, by how much the timer advances and which frames are delivered;
  \<open>nw_tx\<close> lists which of the next frames the card refuses, and \<open>nw_sent\<close> collects the frames it took.
  The debug output is compiled out and not part of the model.
\<close>

section \<open>Packets\<close>

definition bytes_at :: "u8 list \<Rightarrow> nat \<Rightarrow> nat \<Rightarrow> u8 list" where
  "bytes_at p off n = map (\<lambda>i. rd p (off + i)) [0..<n]"

abbreviation ld16 :: "u8 list \<Rightarrow> nat \<Rightarrow> u16" where "ld16 p off \<equiv> le_u16 (drop off p)"
abbreviation ld32 :: "u8 list \<Rightarrow> nat \<Rightarrow> u32" where "ld32 p off \<equiv> le_u32 (drop off p)"

record eth_header =
  eth_dst :: "u8 list"
  eth_src :: "u8 list"
  eth_ethertype :: u16

definition eth_of :: "u8 list \<Rightarrow> eth_header" where
  "eth_of p = \<lparr>eth_dst = bytes_at p 0 6, eth_src = bytes_at p 6 6, eth_ethertype = ld16 p 12\<rparr>"

definition eth_bytes :: "eth_header \<Rightarrow> u8 list" where
  "eth_bytes h = eth_dst h @ eth_src h @ u16_le (eth_ethertype h)"

record arp_packet =
  arp_hw_type :: u16
  arp_proto_type :: u16
  arp_hw_len :: u8
  arp_proto_len :: u8
  arp_op :: u16
  arp_sender_mac :: "u8 list"
  arp_sender_ip :: u32
  arp_target_mac :: "u8 list"
  arp_target_ip :: u32

definition arp_of :: "u8 list \<Rightarrow> arp_packet" where
  "arp_of p = \<lparr>arp_hw_type = ld16 p 0, arp_proto_type = ld16 p 2, arp_hw_len = rd p 4, arp_proto_len = rd p 5,
     arp_op = ld16 p 6, arp_sender_mac = bytes_at p 8 6, arp_sender_ip = ld32 p 14,
     arp_target_mac = bytes_at p 18 6, arp_target_ip = ld32 p 24\<rparr>"

definition arp_bytes :: "arp_packet \<Rightarrow> u8 list" where
  "arp_bytes a = u16_le (arp_hw_type a) @ u16_le (arp_proto_type a) @ [arp_hw_len a, arp_proto_len a] @ u16_le (arp_op a)
     @ arp_sender_mac a @ u32_le (arp_sender_ip a) @ arp_target_mac a @ u32_le (arp_target_ip a)"

record ipv4_header =
  ip_version_ihl :: u8
  ip_dscp_ecn :: u8
  ip_total_len :: u16
  ip_ident :: u16
  ip_flags_frag :: u16
  ip_ttl :: u8
  ip_proto :: u8
  ip_checksum :: u16
  ip_src_ip :: u32
  ip_dst_ip :: u32

definition ipv4_of :: "u8 list \<Rightarrow> ipv4_header" where
  "ipv4_of p = \<lparr>ip_version_ihl = rd p 0, ip_dscp_ecn = rd p 1, ip_total_len = ld16 p 2, ip_ident = ld16 p 4,
     ip_flags_frag = ld16 p 6, ip_ttl = rd p 8, ip_proto = rd p 9, ip_checksum = ld16 p 10,
     ip_src_ip = ld32 p 12, ip_dst_ip = ld32 p 16\<rparr>"

definition ipv4_bytes :: "ipv4_header \<Rightarrow> u8 list" where
  "ipv4_bytes h = [ip_version_ihl h, ip_dscp_ecn h] @ u16_le (ip_total_len h) @ u16_le (ip_ident h) @ u16_le (ip_flags_frag h)
     @ [ip_ttl h, ip_proto h] @ u16_le (ip_checksum h) @ u32_le (ip_src_ip h) @ u32_le (ip_dst_ip h)"

record icmp_echo =
  icmp_type :: u8
  icmp_code :: u8
  icmp_checksum :: u16
  icmp_ident :: u16
  icmp_seq :: u16

definition icmp_of :: "u8 list \<Rightarrow> icmp_echo" where
  "icmp_of p = \<lparr>icmp_type = rd p 0, icmp_code = rd p 1, icmp_checksum = ld16 p 2, icmp_ident = ld16 p 4, icmp_seq = ld16 p 6\<rparr>"

definition icmp_bytes :: "icmp_echo \<Rightarrow> u8 list" where
  "icmp_bytes h = [icmp_type h, icmp_code h] @ u16_le (icmp_checksum h) @ u16_le (icmp_ident h) @ u16_le (icmp_seq h)"

record udp_header =
  udp_src_port :: u16
  udp_dst_port :: u16
  udp_len :: u16
  udp_checksum :: u16

definition udp_of :: "u8 list \<Rightarrow> udp_header" where
  "udp_of p = \<lparr>udp_src_port = ld16 p 0, udp_dst_port = ld16 p 2, udp_len = ld16 p 4, udp_checksum = ld16 p 6\<rparr>"

definition udp_bytes :: "udp_header \<Rightarrow> u8 list" where
  "udp_bytes h = u16_le (udp_src_port h) @ u16_le (udp_dst_port h) @ u16_le (udp_len h) @ u16_le (udp_checksum h)"

record tcp_header =
  tcp_src_port :: u16
  tcp_dst_port :: u16
  tcp_seq_num :: u32
  tcp_ack_num :: u32
  tcp_data_offset_reserved :: u8
  tcp_flags :: u8
  tcp_window :: u16
  tcp_checksum_field :: u16
  tcp_urgent_ptr :: u16

definition tcp_of :: "u8 list \<Rightarrow> tcp_header" where
  "tcp_of p = \<lparr>tcp_src_port = ld16 p 0, tcp_dst_port = ld16 p 2, tcp_seq_num = ld32 p 4, tcp_ack_num = ld32 p 8,
     tcp_data_offset_reserved = rd p 12, tcp_flags = rd p 13, tcp_window = ld16 p 14, tcp_checksum_field = ld16 p 16,
     tcp_urgent_ptr = ld16 p 18\<rparr>"

definition tcp_bytes :: "tcp_header \<Rightarrow> u8 list" where
  "tcp_bytes h = u16_le (tcp_src_port h) @ u16_le (tcp_dst_port h) @ u32_le (tcp_seq_num h) @ u32_le (tcp_ack_num h)
     @ [tcp_data_offset_reserved h, tcp_flags h] @ u16_le (tcp_window h) @ u16_le (tcp_checksum_field h) @ u16_le (tcp_urgent_ptr h)"

record dns_header =
  dns_id :: u16
  dns_flags :: u16
  dns_qdcount :: u16
  dns_ancount :: u16
  dns_nscount :: u16
  dns_arcount :: u16

definition dns_of :: "u8 list \<Rightarrow> dns_header" where
  "dns_of p = \<lparr>dns_id = ld16 p 0, dns_flags = ld16 p 2, dns_qdcount = ld16 p 4, dns_ancount = ld16 p 6,
     dns_nscount = ld16 p 8, dns_arcount = ld16 p 10\<rparr>"

definition dns_bytes :: "dns_header \<Rightarrow> u8 list" where
  "dns_bytes h = u16_le (dns_id h) @ u16_le (dns_flags h) @ u16_le (dns_qdcount h) @ u16_le (dns_ancount h)
     @ u16_le (dns_nscount h) @ u16_le (dns_arcount h)"

text \<open>The fields of a DHCP packet that are read or set; the fixed part has 240 bytes and the options 312.\<close>

record dhcp_packet =
  dh_op :: u8
  dh_htype :: u8
  dh_hlen :: u8
  dh_hops :: u8
  dh_xid :: u32
  dh_secs :: u16
  dh_flags :: u16
  dh_ciaddr :: u32
  dh_yiaddr :: u32
  dh_siaddr :: u32
  dh_giaddr :: u32
  dh_chaddr :: "u8 list"
  dh_sname :: "u8 list"
  dh_file :: "u8 list"
  dh_cookie :: u32
  dh_options :: "u8 list"

abbreviation DHCP_FIXED :: nat where "DHCP_FIXED \<equiv> 240"
abbreviation DHCP_OPTIONS :: nat where "DHCP_OPTIONS \<equiv> 312"

definition dhcp_of :: "u8 list \<Rightarrow> dhcp_packet" where
  "dhcp_of p = \<lparr>dh_op = rd p 0, dh_htype = rd p 1, dh_hlen = rd p 2, dh_hops = rd p 3, dh_xid = ld32 p 4,
     dh_secs = ld16 p 8, dh_flags = ld16 p 10, dh_ciaddr = ld32 p 12, dh_yiaddr = ld32 p 16, dh_siaddr = ld32 p 20,
     dh_giaddr = ld32 p 24, dh_chaddr = bytes_at p 28 16, dh_sname = bytes_at p 44 64, dh_file = bytes_at p 108 128,
     dh_cookie = ld32 p 236, dh_options = bytes_at p 240 DHCP_OPTIONS\<rparr>"

definition dhcp_bytes :: "dhcp_packet \<Rightarrow> u8 list" where
  "dhcp_bytes d = [dh_op d, dh_htype d, dh_hlen d, dh_hops d] @ u32_le (dh_xid d) @ u16_le (dh_secs d) @ u16_le (dh_flags d)
     @ u32_le (dh_ciaddr d) @ u32_le (dh_yiaddr d) @ u32_le (dh_siaddr d) @ u32_le (dh_giaddr d)
     @ dh_chaddr d @ dh_sname d @ dh_file d @ u32_le (dh_cookie d) @ dh_options d"

section \<open>State\<close>

record net_config =
  cfg_mac :: "u8 list"
  cfg_ip :: u32
  cfg_subnet :: u32
  cfg_gateway :: u32
  cfg_dns :: u32
  cfg_link_up :: bool
  cfg_dhcp_configured :: bool

record arp_entry =
  ac_valid :: bool
  ac_ip :: u32
  ac_mac :: "u8 list"

record ping_info =
  pg_waiting :: bool
  pg_ident :: u16
  pg_seq :: u16
  pg_target :: u32
  pg_sent_ticks :: u32
  pg_got_reply :: bool
  pg_rtt_ms :: u32

record dhcp_info =
  dc_waiting_offer :: bool
  dc_waiting_ack :: bool
  dc_xid :: u32
  dc_offered_ip :: u32
  dc_server_ip :: u32
  dc_subnet :: u32
  dc_router :: u32
  dc_dns :: u32

record dns_info =
  dn_waiting :: bool
  dn_got_reply :: bool
  dn_xid :: u16
  dn_result_ip :: u32

text \<open>\<open>th_body_out\<close> is the caller's buffer that the pointer of the session designates, if there is one.\<close>

record tcp_http_session =
  th_active :: bool
  th_connecting :: bool
  th_established :: bool
  th_failed :: bool
  th_fin_seen :: bool
  th_header_done :: bool
  th_body_truncated :: bool
  th_status_valid :: bool
  th_remote_ip :: u32
  th_local_port :: u16
  th_remote_port :: u16
  th_seq_local :: u32
  th_seq_remote :: u32
  th_connect_sent_ticks :: u32
  th_last_activity_ticks :: u32
  th_body_total :: u32
  th_status_code :: u16
  th_body_out :: "u8 list option"
  th_body_out_size :: nat
  th_body_out_pos :: nat
  th_header_buf :: "u8 list"
  th_header_len :: nat

type_synonym net_event = "u32 \<times> (u8 list \<times> nat) list"

record net_world =
  nw_cfg :: net_config
  nw_arp :: arp_entry
  nw_ping :: ping_info
  nw_dhcp :: dhcp_info
  nw_dns :: dns_info
  nw_http :: tcp_http_session
  nw_tcp_tx_buf :: "u8 list"
  nw_ticks :: u32
  nw_freq :: u32
  nw_env :: "net_event list"
  nw_tx :: "bool list"
  nw_sent :: "u8 list list"

type_synonym resolver = "u32 \<Rightarrow> net_world \<Rightarrow> u8 list option \<times> net_world"

abbreviation on_http :: "(tcp_http_session \<Rightarrow> tcp_http_session) \<Rightarrow> net_world \<Rightarrow> net_world" where
  "on_http f w \<equiv> w\<lparr>nw_http := f (nw_http w)\<rparr>"

abbreviation ETH_TYPE_ARP :: u16 where "ETH_TYPE_ARP \<equiv> 0x0806"
abbreviation ETH_TYPE_IPV4 :: u16 where "ETH_TYPE_IPV4 \<equiv> 0x0800"
abbreviation IP_PROTO_ICMP :: u8 where "IP_PROTO_ICMP \<equiv> 1"
abbreviation IP_PROTO_TCP :: u8 where "IP_PROTO_TCP \<equiv> 6"
abbreviation IP_PROTO_UDP :: u8 where "IP_PROTO_UDP \<equiv> 17"
abbreviation DHCP_CLIENT_PORT :: u16 where "DHCP_CLIENT_PORT \<equiv> 68"
abbreviation DHCP_SERVER_PORT :: u16 where "DHCP_SERVER_PORT \<equiv> 67"
abbreviation DNS_CLIENT_PORT :: u16 where "DNS_CLIENT_PORT \<equiv> 43210"
abbreviation DNS_SERVER_PORT :: u16 where "DNS_SERVER_PORT \<equiv> 53"
abbreviation ICMP_ECHO_REPLY :: u8 where "ICMP_ECHO_REPLY \<equiv> 0"
abbreviation ICMP_ECHO_REQUEST :: u8 where "ICMP_ECHO_REQUEST \<equiv> 8"
abbreviation ARP_OP_REQUEST :: u16 where "ARP_OP_REQUEST \<equiv> 1"
abbreviation ARP_OP_REPLY :: u16 where "ARP_OP_REPLY \<equiv> 2"
abbreviation TCP_FLAG_FIN :: u8 where "TCP_FLAG_FIN \<equiv> 1"
abbreviation TCP_FLAG_SYN :: u8 where "TCP_FLAG_SYN \<equiv> 2"
abbreviation TCP_FLAG_RST :: u8 where "TCP_FLAG_RST \<equiv> 4"
abbreviation TCP_FLAG_PSH :: u8 where "TCP_FLAG_PSH \<equiv> 8"
abbreviation TCP_FLAG_ACK :: u8 where "TCP_FLAG_ACK \<equiv> 16"

section \<open>Sending\<close>

text \<open>\<^verbatim>\<open>rtl8139_send\<close> as its callers see it: the card takes the frame or refuses it.\<close>

definition nic_send :: "net_world \<Rightarrow> u8 list \<Rightarrow> bool \<times> net_world" where
  "nic_send w frame =
     (if \<not> cfg_link_up (nw_cfg w) then (False, w)
      else case nw_tx w of
        [] \<Rightarrow> (True, w\<lparr>nw_sent := nw_sent w @ [frame]\<rparr>)
      | ok # rest \<Rightarrow> (ok, w\<lparr>nw_tx := rest, nw_sent := (if ok then nw_sent w @ [frame] else nw_sent w)\<rparr>))"

definition send_frame :: "net_world \<Rightarrow> u8 list \<Rightarrow> u16 \<Rightarrow> u8 list \<Rightarrow> bool \<times> net_world" where
  "send_frame w dst ethertype payload =
     (if length payload > 1500 then (False, w)
      else let frame = eth_bytes \<lparr>eth_dst = dst, eth_src = cfg_mac (nw_cfg w), eth_ethertype = htons ethertype\<rparr> @ payload
           in nic_send w (if length frame < 60 then frame @ replicate (60 - length frame) 0 else frame))"

definition arp_message :: "net_world \<Rightarrow> u16 \<Rightarrow> u8 list \<Rightarrow> u32 \<Rightarrow> arp_packet" where
  "arp_message w op target_mac target_ip =
     \<lparr>arp_hw_type = htons 1, arp_proto_type = htons ETH_TYPE_IPV4, arp_hw_len = 6, arp_proto_len = 4, arp_op = htons op,
      arp_sender_mac = cfg_mac (nw_cfg w), arp_sender_ip = htonl (cfg_ip (nw_cfg w)),
      arp_target_mac = target_mac, arp_target_ip = htonl target_ip\<rparr>"

definition send_arp_request :: "net_world \<Rightarrow> u32 \<Rightarrow> net_world" where
  "send_arp_request w target_ip =
     snd (send_frame w (replicate 6 0xFF) ETH_TYPE_ARP (arp_bytes (arp_message w ARP_OP_REQUEST (replicate 6 0) target_ip)))"

definition send_arp_reply :: "net_world \<Rightarrow> u8 list \<Rightarrow> u32 \<Rightarrow> net_world" where
  "send_arp_reply w dst_mac dst_ip =
     snd (send_frame w dst_mac ETH_TYPE_ARP (arp_bytes (arp_message w ARP_OP_REPLY dst_mac dst_ip)))"

definition ipv4_message :: "u32 \<Rightarrow> u32 \<Rightarrow> u8 \<Rightarrow> nat \<Rightarrow> u16 \<Rightarrow> u16 \<Rightarrow> ipv4_header" where
  "ipv4_message src dst proto payload_len ident flags =
     (let h = \<lparr>ip_version_ihl = 0x45, ip_dscp_ecn = 0, ip_total_len = htons (of_nat (20 + payload_len)), ip_ident = htons ident,
               ip_flags_frag = htons flags, ip_ttl = 64, ip_proto = proto, ip_checksum = 0,
               ip_src_ip = htonl src, ip_dst_ip = htonl dst\<rparr>
      in h\<lparr>ip_checksum := htons (checksum16 (ipv4_bytes h) 20)\<rparr>)"

text \<open>The payload is read after the address is resolved, from memory that a nested handler may have changed.\<close>

definition send_ipv4_packet ::
  "resolver \<Rightarrow> net_world \<Rightarrow> u32 \<Rightarrow> u8 \<Rightarrow> (net_world \<Rightarrow> u8 list) \<Rightarrow> nat \<Rightarrow> u16 \<Rightarrow> bool \<times> net_world"
where
  "send_ipv4_packet res w dst_ip proto payload payload_len ident =
     (case res dst_ip w of
        (None, w1) \<Rightarrow> (False, w1)
      | (Some dst_mac, w1) \<Rightarrow>
          send_frame w1 dst_mac ETH_TYPE_IPV4
            (ipv4_bytes (ipv4_message (cfg_ip (nw_cfg w1)) dst_ip proto payload_len ident 0x4000)
             @ bytes_at (payload w1) 0 payload_len))"

definition send_udp_packet ::
  "resolver \<Rightarrow> net_world \<Rightarrow> u32 \<Rightarrow> u16 \<Rightarrow> u16 \<Rightarrow> u8 list \<Rightarrow> u16 \<Rightarrow> bool \<times> net_world"
where
  "send_udp_packet res w dst_ip src_port dst_port payload ident =
     (let n = length payload in
      if 8 + n > 1600 then (False, w)
      else send_ipv4_packet res w dst_ip IP_PROTO_UDP
             (\<lambda>_. udp_bytes \<lparr>udp_src_port = htons src_port, udp_dst_port = htons dst_port,
                            udp_len = htons (of_nat (8 + n)), udp_checksum = 0\<rparr> @ payload)
             (8 + n) ident)"

definition tcp_segment :: "u32 \<Rightarrow> u32 \<Rightarrow> u16 \<Rightarrow> u16 \<Rightarrow> u32 \<Rightarrow> u32 \<Rightarrow> u8 \<Rightarrow> u8 list \<Rightarrow> u8 list" where
  "tcp_segment src dst src_port dst_port seq ack flags payload =
     (let h = \<lparr>tcp_src_port = htons src_port, tcp_dst_port = htons dst_port, tcp_seq_num = htonl seq, tcp_ack_num = htonl ack,
               tcp_data_offset_reserved = 0x50, tcp_flags = flags, tcp_window = htons 4096, tcp_checksum_field = 0,
               tcp_urgent_ptr = 0\<rparr>
      in tcp_bytes (h\<lparr>tcp_checksum_field := htons (tcp_checksum src dst (tcp_bytes h @ payload) (20 + length payload))\<rparr>) @ payload)"

definition send_tcp_packet ::
  "resolver \<Rightarrow> net_world \<Rightarrow> u32 \<Rightarrow> u16 \<Rightarrow> u16 \<Rightarrow> u32 \<Rightarrow> u32 \<Rightarrow> u8 \<Rightarrow> u8 list \<Rightarrow> u16 \<Rightarrow> bool \<times> net_world"
where
  "send_tcp_packet res w dst_ip src_port dst_port seq ack flags payload ident =
     (if 20 + length payload > 1600 then (False, w)
      else let seg = tcp_segment (cfg_ip (nw_cfg w)) dst_ip src_port dst_port seq ack flags payload;
               w1 = w\<lparr>nw_tcp_tx_buf := blit (nw_tcp_tx_buf w) 0 seg (20 + length payload)\<rparr>
           in send_ipv4_packet res w1 dst_ip IP_PROTO_TCP nw_tcp_tx_buf (20 + length payload) ident)"

section \<open>The HTTP session\<close>

definition http_zero :: tcp_http_session where
  "http_zero = \<lparr>th_active = False, th_connecting = False, th_established = False, th_failed = False, th_fin_seen = False,
     th_header_done = False, th_body_truncated = False, th_status_valid = False, th_remote_ip = 0, th_local_port = 0,
     th_remote_port = 0, th_seq_local = 0, th_seq_remote = 0, th_connect_sent_ticks = 0, th_last_activity_ticks = 0,
     th_body_total = 0, th_status_code = 0, th_body_out = None, th_body_out_size = 0, th_body_out_pos = 0,
     th_header_buf = replicate 1024 0, th_header_len = 0\<rparr>"

definition tcp_http_reset :: "net_world \<Rightarrow> net_world" where
  "tcp_http_reset w = w\<lparr>nw_http := http_zero\<rparr>"

function scan_while :: "(u8 \<Rightarrow> bool) \<Rightarrow> u8 list \<Rightarrow> nat \<Rightarrow> nat \<Rightarrow> nat" where
  "scan_while p buf n i = (if i < n \<and> p (rd buf i) then scan_while p buf n (i + 1) else i)"
  by pat_completeness auto
termination
  by (relation "measure (\<lambda>(p, buf, n, i). n - i)") auto

declare scan_while.simps [simp del]

definition tcp_http_parse_status_line :: "tcp_http_session \<Rightarrow> tcp_http_session" where
  "tcp_http_parse_status_line s =
     (let b = th_header_buf s; n = th_header_len s;
          i = scan_while (\<lambda>c. c = 32) b n (scan_while (\<lambda>c. c \<noteq> 32) b n 0)
      in if i + 2 < n \<and> is_digit (rd b i) \<and> is_digit (rd b (i + 1)) \<and> is_digit (rd b (i + 2))
         then s\<lparr>th_status_code := (ucast (rd b i) - 48) * 100 + (ucast (rd b (i + 1)) - 48) * 10 + (ucast (rd b (i + 2)) - 48),
                th_status_valid := True\<rparr>
         else s)"

definition append_char :: "tcp_http_session \<Rightarrow> u8 \<Rightarrow> tcp_http_session" where
  "append_char s d =
     (case th_body_out s of
        Some out \<Rightarrow>
          if th_body_out_size s > 0 \<and> th_body_out_pos s + 1 < th_body_out_size s then
            let c = (if d < 32 \<and> d \<noteq> 10 \<and> d \<noteq> 13 \<and> d \<noteq> 9 then 46 else d)
            in s\<lparr>th_body_out := Some (out[th_body_out_pos s := c]), th_body_out_pos := th_body_out_pos s + 1\<rparr>
          else s\<lparr>th_body_truncated := True\<rparr>
      | None \<Rightarrow> s\<lparr>th_body_truncated := True\<rparr>)"

definition tcp_http_append_body :: "tcp_http_session \<Rightarrow> u8 list \<Rightarrow> tcp_http_session" where
  "tcp_http_append_body s data =
     (let s1 = foldl append_char (s\<lparr>th_body_total := th_body_total s + of_nat (length data)\<rparr>) data
      in case th_body_out s1 of
           Some out \<Rightarrow> if th_body_out_size s1 > 0 then s1\<lparr>th_body_out := Some (out[th_body_out_pos s1 := 0])\<rparr> else s1
         | None \<Rightarrow> s1)"

definition header_ends :: "u8 list \<Rightarrow> nat \<Rightarrow> bool" where
  "header_ends b n \<longleftrightarrow> n \<ge> 4 \<and> rd b (n - 4) = 13 \<and> rd b (n - 3) = 10 \<and> rd b (n - 2) = 13 \<and> rd b (n - 1) = 10"

text \<open>The header loop; the second result is the data behind the header.\<close>

fun feed_header :: "tcp_http_session \<Rightarrow> u8 list \<Rightarrow> tcp_http_session \<times> u8 list" where
  "feed_header s [] = (s, [])"
| "feed_header s (c # cs) =
     (if th_header_len s + 1 < 1024 then
        let n = th_header_len s + 1;
            s1 = s\<lparr>th_header_buf := (th_header_buf s)[n - 1 := c, n := 0], th_header_len := n\<rparr>
        in if header_ends (th_header_buf s1) n
           then (tcp_http_parse_status_line (s1\<lparr>th_header_done := True\<rparr>), cs)
           else feed_header s1 cs
      else (s\<lparr>th_failed := True\<rparr>, []))"

definition tcp_http_feed_data :: "tcp_http_session \<Rightarrow> u8 list \<Rightarrow> tcp_http_session" where
  "tcp_http_feed_data s data =
     (if data = [] then s
      else if \<not> th_header_done s then
        (case feed_header s data of
           (s1, rest) \<Rightarrow> if \<not> th_header_done s1 then s1 else if rest \<noteq> [] then tcp_http_append_body s1 rest else s1)
      else tcp_http_append_body s data)"

section \<open>Handlers\<close>

definition send_tcp_ack :: "resolver \<Rightarrow> net_world \<Rightarrow> net_world" where
  "send_tcp_ack res w =
     (let s = nw_http w in
      snd (send_tcp_packet res w (th_remote_ip s) (th_local_port s) (th_remote_port s) (th_seq_local s) (th_seq_remote s)
             TCP_FLAG_ACK [] (ucast (th_seq_local s))))"

definition tcp_data :: "resolver \<Rightarrow> net_world \<Rightarrow> u32 \<Rightarrow> u8 list \<Rightarrow> net_world" where
  "tcp_data res w seq data =
     (if length data > 0 \<and> seq = th_seq_remote (nw_http w) then
        send_tcp_ack res
          (on_http (\<lambda>s. tcp_http_feed_data (s\<lparr>th_seq_remote := th_seq_remote s + of_nat (length data)\<rparr>) data) w)
      else w)"

definition tcp_fin :: "resolver \<Rightarrow> net_world \<Rightarrow> u32 \<Rightarrow> nat \<Rightarrow> net_world" where
  "tcp_fin res w seq data_len =
     send_tcp_ack res
       (on_http (\<lambda>s. s\<lparr>th_seq_remote := (if seq + of_nat data_len = th_seq_remote s then th_seq_remote s + 1 else th_seq_remote s),
                      th_fin_seen := True\<rparr>) w)"

definition handle_tcp :: "resolver \<Rightarrow> net_world \<Rightarrow> ipv4_header \<Rightarrow> u8 list \<Rightarrow> nat \<Rightarrow> net_world" where
  "handle_tcp res w ip payload len =
     (if len < 20 then w
      else let tcp = tcp_of payload; data_offset = unat (drop_bit 4 (tcp_data_offset_reserved tcp) AND 0x0F) * 4
        in if data_offset < 20 \<or> data_offset > len then w
      else let seq = ntohl (tcp_seq_num tcp); flags = tcp_flags tcp; data_len = len - data_offset;
               data = bytes_at payload data_offset data_len; s = nw_http w
        in if \<not> th_active s then w
      else if ntohl (ip_src_ip ip) \<noteq> th_remote_ip s then w
      else if ntohs (tcp_src_port tcp) \<noteq> th_remote_port s \<or> ntohs (tcp_dst_port tcp) \<noteq> th_local_port s then w
      else let w1 = on_http (\<lambda>s. s\<lparr>th_last_activity_ticks := nw_ticks w\<rparr>) w
        in if flags AND TCP_FLAG_RST \<noteq> 0 then on_http (\<lambda>s. s\<lparr>th_failed := True\<rparr>) w1
      else if th_connecting s \<and> flags AND TCP_FLAG_SYN \<noteq> 0 \<and> flags AND TCP_FLAG_ACK \<noteq> 0 then
        send_tcp_ack res
          (on_http (\<lambda>s. s\<lparr>th_seq_remote := seq + 1, th_connecting := False, th_established := True\<rparr>) w1)
      else if \<not> th_established s then w1
      else let w2 = tcp_data res w1 seq data
        in if flags AND TCP_FLAG_FIN \<noteq> 0 then tcp_fin res w2 seq data_len else w2)"

text \<open>The questions and the answers of a DNS reply; \<open>None\<close> is a malformed one.\<close>

fun skip_questions :: "nat \<Rightarrow> u8 list \<Rightarrow> nat \<Rightarrow> nat \<Rightarrow> nat option" where
  "skip_questions 0 payload len off = Some off"
| "skip_questions (Suc n) payload len off =
     (case dns_skip_name payload len off of
        None \<Rightarrow> None
      | Some off1 \<Rightarrow> if off1 + 4 > len then None else skip_questions n payload len (off1 + 4))"

definition be16 :: "u8 list \<Rightarrow> nat \<Rightarrow> u16" where
  "be16 p i = push_bit 8 (ucast (rd p i)) OR ucast (rd p (i + 1))"

definition be32 :: "u8 list \<Rightarrow> nat \<Rightarrow> u32" where
  "be32 p i = push_bit 24 (ucast (rd p i)) OR push_bit 16 (ucast (rd p (i + 1))) OR push_bit 8 (ucast (rd p (i + 2)))
     OR ucast (rd p (i + 3))"

fun find_answer :: "nat \<Rightarrow> u8 list \<Rightarrow> nat \<Rightarrow> nat \<Rightarrow> u32 option" where
  "find_answer 0 payload len off = None"
| "find_answer (Suc n) payload len off =
     (case dns_skip_name payload len off of
        None \<Rightarrow> None
      | Some off1 \<Rightarrow>
          if off1 + 10 > len then None
          else let rr_type = be16 payload off1; rr_class = be16 payload (off1 + 2);
                   rdlen = unat (be16 payload (off1 + 8)); off2 = off1 + 10
            in if off2 + rdlen > len then None
               else if rr_type = 1 \<and> rr_class = 1 \<and> rdlen = 4 then Some (be32 payload off2)
               else find_answer n payload len (off2 + rdlen))"

definition handle_dns :: "net_world \<Rightarrow> u8 list \<Rightarrow> nat \<Rightarrow> net_world" where
  "handle_dns w payload len =
     (let st = nw_dns w in
      if \<not> dn_waiting st \<or> len < 12 then w
      else let hdr = dns_of payload in
        if ntohs (dns_id hdr) \<noteq> dn_xid st then w
        else let flags = ntohs (dns_flags hdr) in
          if flags AND 0x8000 = 0 then w
          else if flags AND 0x000F \<noteq> 0 then w\<lparr>nw_dns := st\<lparr>dn_waiting := False\<rparr>\<rparr>
          else (case skip_questions (unat (ntohs (dns_qdcount hdr))) payload len 12 of
                  None \<Rightarrow> w\<lparr>nw_dns := st\<lparr>dn_waiting := False\<rparr>\<rparr>
                | Some off \<Rightarrow>
                    (case find_answer (unat (ntohs (dns_ancount hdr))) payload len off of
                       None \<Rightarrow> w\<lparr>nw_dns := st\<lparr>dn_waiting := False\<rparr>\<rparr>
                     | Some ip \<Rightarrow> w\<lparr>nw_dns := st\<lparr>dn_result_ip := ip, dn_got_reply := True, dn_waiting := False\<rparr>\<rparr>)))"

text \<open>One option of a DHCP reply, and the loop over the 312 bytes of the option array.\<close>

definition dhcp_option :: "u8 list \<Rightarrow> u8 \<Rightarrow> nat \<Rightarrow> nat \<Rightarrow> u8 \<times> dhcp_info \<Rightarrow> u8 \<times> dhcp_info" where
  "dhcp_option opts code opt_len i st =
     (case st of (msg_type, d) \<Rightarrow>
        if code = 53 \<and> opt_len = 1 then (rd opts i, d)
        else if code = 1 \<and> opt_len = 4 then (msg_type, d\<lparr>dc_subnet := be32 opts i\<rparr>)
        else if code = 3 \<and> opt_len \<ge> 4 then (msg_type, d\<lparr>dc_router := be32 opts i\<rparr>)
        else if code = 6 \<and> opt_len \<ge> 4 then (msg_type, d\<lparr>dc_dns := be32 opts i\<rparr>)
        else if code = 54 \<and> opt_len = 4 then (msg_type, d\<lparr>dc_server_ip := be32 opts i\<rparr>)
        else (msg_type, d))"

function dhcp_options_loop :: "u8 list \<Rightarrow> nat \<Rightarrow> u8 \<times> dhcp_info \<Rightarrow> u8 \<times> dhcp_info" where
  "dhcp_options_loop opts i st =
     (if i + 1 < DHCP_OPTIONS then
        let code = rd opts i; i1 = i + 1 in
        if code = 0xFF then st
        else if code = 0 then dhcp_options_loop opts i1 st
        else if i1 \<ge> DHCP_OPTIONS then st
        else let opt_len = unat (rd opts i1); i2 = i1 + 1 in
          if i2 + opt_len > DHCP_OPTIONS then st
          else dhcp_options_loop opts (i2 + opt_len) (dhcp_option opts code opt_len i2 st)
      else st)"
  by pat_completeness auto
termination
  by (relation "measure (\<lambda>(opts, i, st). DHCP_OPTIONS - i)") auto

declare dhcp_options_loop.simps [simp del]

definition handle_dhcp :: "net_world \<Rightarrow> u8 list \<Rightarrow> nat \<Rightarrow> net_world" where
  "handle_dhcp w payload len =
     (if len < DHCP_FIXED then w
      else let d = dhcp_of payload in
        if ntohl (dh_xid d) \<noteq> dc_xid (nw_dhcp w) then w
        else if \<not> mem_eq (dh_chaddr d) (cfg_mac (nw_cfg w)) 6 then w
        else if ntohl (dh_cookie d) \<noteq> 0x63825363 then w
        else case dhcp_options_loop (dh_options d) 0 (0, nw_dhcp w) of
          (msg_type, st) \<Rightarrow>
            if msg_type = 2 \<and> dc_waiting_offer st then
              w\<lparr>nw_dhcp := st\<lparr>dc_offered_ip := ntohl (dh_yiaddr d), dc_waiting_offer := False, dc_waiting_ack := True\<rparr>\<rparr>
            else if msg_type = 5 \<and> dc_waiting_ack st then
              let cfg = nw_cfg w in
              w\<lparr>nw_cfg := cfg\<lparr>cfg_ip := ntohl (dh_yiaddr d),
                     cfg_subnet := (if dc_subnet st \<noteq> 0 then dc_subnet st else cfg_subnet cfg),
                     cfg_gateway := (if dc_router st \<noteq> 0 then dc_router st else cfg_gateway cfg),
                     cfg_dns := (if dc_dns st \<noteq> 0 then dc_dns st else cfg_dns cfg),
                     cfg_dhcp_configured := True\<rparr>,
                nw_dhcp := st\<lparr>dc_waiting_ack := False\<rparr>\<rparr>
            else w\<lparr>nw_dhcp := st\<rparr>)"

definition handle_udp :: "net_world \<Rightarrow> u8 list \<Rightarrow> nat \<Rightarrow> net_world" where
  "handle_udp w payload len =
     (if len < 8 then w
      else let udp = udp_of payload; src_port = ntohs (udp_src_port udp); dst_port = ntohs (udp_dst_port udp);
               n = unat (ntohs (udp_len udp))
        in if n < 8 \<or> n > len then w
           else if src_port = DHCP_SERVER_PORT \<and> dst_port = DHCP_CLIENT_PORT then handle_dhcp w (drop 8 payload) (n - 8)
           else if dst_port = DNS_CLIENT_PORT \<and> src_port = DNS_SERVER_PORT then handle_dns w (drop 8 payload) (n - 8)
           else w)"

text \<open>The reply to an echo request of \<open>len\<close> bytes, cut to the 128 bytes of the reply buffer.\<close>

definition icmp_reply :: "u8 list \<Rightarrow> nat \<Rightarrow> u8 list" where
  "icmp_reply payload len =
     (let n = min len 128; h = (icmp_of payload)\<lparr>icmp_type := ICMP_ECHO_REPLY, icmp_checksum := 0\<rparr>;
          rest = bytes_at payload 8 (n - 8)
      in icmp_bytes (h\<lparr>icmp_checksum := htons (checksum16 (icmp_bytes h @ rest) n)\<rparr>) @ rest)"

definition handle_icmp :: "resolver \<Rightarrow> net_world \<Rightarrow> ipv4_header \<Rightarrow> u8 list \<Rightarrow> nat \<Rightarrow> net_world" where
  "handle_icmp res w ip payload len =
     (if len < 8 then w
      else let icmp = icmp_of payload; p = nw_ping w in
        if icmp_type icmp = ICMP_ECHO_REPLY \<and> pg_waiting p then
          (if ntohs (icmp_ident icmp) = pg_ident p \<and> ntohs (icmp_seq icmp) = pg_seq p
           then w\<lparr>nw_ping := p\<lparr>pg_waiting := False, pg_got_reply := True,
                    pg_rtt_ms := ((nw_ticks w - pg_sent_ticks p) * 1000) div nw_freq w\<rparr>\<rparr>
           else w)
        else if icmp_type icmp = ICMP_ECHO_REQUEST \<and> cfg_ip (nw_cfg w) \<noteq> 0 \<and> ntohl (ip_dst_ip ip) = cfg_ip (nw_cfg w) then
          snd (send_ipv4_packet res w (ntohl (ip_src_ip ip)) IP_PROTO_ICMP (\<lambda>_. icmp_reply payload len) (min len 128) 0x1234)
        else w)"

definition handle_ipv4 :: "resolver \<Rightarrow> net_world \<Rightarrow> u8 list \<Rightarrow> nat \<Rightarrow> net_world" where
  "handle_ipv4 res w payload len =
     (if len < 20 then w
      else let ip = ipv4_of payload in
        if drop_bit 4 (ip_version_ihl ip) \<noteq> 4 then w
        else let ihl = unat (ip_version_ihl ip AND 0x0F) * 4 in
          if ihl < 20 \<or> len < ihl then w
          else let n = unat (ntohs (ip_total_len ip)); dst = ntohl (ip_dst_ip ip); own = cfg_ip (nw_cfg w) in
            if n < ihl \<or> n > len then w
            else if own \<noteq> 0 \<and> dst \<noteq> own \<and> dst \<noteq> 0xFFFFFFFF then w
            else if ip_proto ip = IP_PROTO_ICMP then handle_icmp res w ip (drop ihl payload) (n - ihl)
            else if ip_proto ip = IP_PROTO_UDP then handle_udp w (drop ihl payload) (n - ihl)
            else if ip_proto ip = IP_PROTO_TCP then handle_tcp res w ip (drop ihl payload) (n - ihl)
            else w)"

definition handle_arp :: "net_world \<Rightarrow> u8 list \<Rightarrow> nat \<Rightarrow> net_world" where
  "handle_arp w payload len =
     (if len < 28 then w
      else let arp = arp_of payload in
        if ntohs (arp_hw_type arp) \<noteq> 1 \<or> ntohs (arp_proto_type arp) \<noteq> ETH_TYPE_IPV4 \<or> arp_hw_len arp \<noteq> 6 \<or> arp_proto_len arp \<noteq> 4
        then w
        else let sender_ip = ntohl (arp_sender_ip arp);
                 w1 = w\<lparr>nw_arp := \<lparr>ac_valid = True, ac_ip = sender_ip, ac_mac = arp_sender_mac arp\<rparr>\<rparr>
          in if ntohs (arp_op arp) = ARP_OP_REQUEST \<and> cfg_ip (nw_cfg w) \<noteq> 0 \<and> ntohl (arp_target_ip arp) = cfg_ip (nw_cfg w)
             then send_arp_reply w1 (arp_sender_mac arp) sender_ip else w1)"

definition net_on_frame :: "resolver \<Rightarrow> net_world \<Rightarrow> u8 list \<times> nat \<Rightarrow> net_world" where
  "net_on_frame res w f =
     (case f of (frame, len) \<Rightarrow>
        if len < 14 then w
        else let type = ntohs (eth_ethertype (eth_of frame)) in
          if type = ETH_TYPE_ARP then handle_arp w (drop 14 frame) (len - 14)
          else if type = ETH_TYPE_IPV4 then handle_ipv4 res w (drop 14 frame) (len - 14)
          else w)"

section \<open>Polling and waiting\<close>

text \<open>
  One poll takes the next entry of the environment.  Handlers may poll again while they resolve an address.
\<close>

definition poll_with :: "resolver \<Rightarrow> net_world \<Rightarrow> net_world" where
  "poll_with res w =
     (case nw_env w of
        [] \<Rightarrow> w
      | (dt, frames) # env \<Rightarrow>
          let w1 = w\<lparr>nw_env := env, nw_ticks := nw_ticks w + dt\<rparr>
          in if cfg_link_up (nw_cfg w) then foldl (net_on_frame res) w1 frames else w1)"

definition route_ip :: "net_config \<Rightarrow> u32 \<Rightarrow> u32" where
  "route_ip cfg dst_ip =
     (if cfg_subnet cfg \<noteq> 0 \<and> dst_ip AND cfg_subnet cfg \<noteq> cfg_ip cfg AND cfg_subnet cfg then cfg_gateway cfg else dst_ip)"

definition arp_hit :: "u32 \<Rightarrow> net_world \<Rightarrow> bool" where
  "arp_hit ip w \<longleftrightarrow> ac_valid (nw_arp w) \<and> ac_ip (nw_arp w) = ip"

definition resolve_with :: "(u32 \<Rightarrow> u32 \<Rightarrow> (net_world \<Rightarrow> bool) \<Rightarrow> net_world \<Rightarrow> net_world) \<Rightarrow> resolver" where
  "resolve_with wait dst_ip w =
     (let route = route_ip (nw_cfg w) dst_ip in
      if arp_hit route w then (Some (ac_mac (nw_arp w)), w)
      else let w1 = send_arp_request w route;
               w2 = wait (nw_ticks w1) (nw_freq w1) (arp_hit route) w1
        in if arp_hit route w2 then (Some (ac_mac (nw_arp w2)), w2) else (None, w2))"

text \<open>
  \<^verbatim>\<open>while (pit_get_ticks() - start < limit) { net_poll(); if (stop) break; }\<close>.  When the
  environment has no further entry, the next poll delivers nothing and lasts until the limit.  Every round, and
  every round of a wait that a handler makes, takes an entry, so as much fuel as there are entries is enough.
\<close>

primrec wait_loop :: "nat \<Rightarrow> u32 \<Rightarrow> u32 \<Rightarrow> (net_world \<Rightarrow> bool) \<Rightarrow> net_world \<Rightarrow> net_world" where
  "wait_loop 0 start limit stop w =
     (if \<not> nw_ticks w - start < limit then w else w\<lparr>nw_ticks := start + limit\<rparr>)"
| "wait_loop (Suc n) start limit stop w =
     (if \<not> nw_ticks w - start < limit then w
      else if nw_env w = [] then w\<lparr>nw_ticks := start + limit\<rparr>
      else let w1 = poll_with (resolve_with (wait_loop n)) w
        in if stop w1 then w1 else wait_loop n start limit stop w1)"

definition wait_until :: "u32 \<Rightarrow> u32 \<Rightarrow> (net_world \<Rightarrow> bool) \<Rightarrow> net_world \<Rightarrow> net_world" where
  "wait_until start limit stop w = wait_loop (length (nw_env w)) start limit stop w"

definition resolve_target_mac :: resolver where
  "resolve_target_mac dst_ip w = resolve_with wait_until dst_ip w"

definition net_poll :: "net_world \<Rightarrow> net_world" where
  "net_poll w = poll_with resolve_target_mac w"

end
