(* ===== verification/Net_Session.thy ===== *)
theory Net_Session
  imports Net_Stack
begin

text \<open>
  The receiving side of the HTTP client: feeding a stream in pieces, and the invariant that whatever frames
  arrive, in whatever order and however deeply the handlers nest, the session holds a prefix of the
  stream that the server sent.
\<close>

section \<open>Feeding in pieces\<close>

definition end_body :: "tcp_http_session \<Rightarrow> tcp_http_session" where
  "end_body s = (case th_body_out s of
     Some out \<Rightarrow> if th_body_out_size s > 0 then s\<lparr>th_body_out := Some (out[th_body_out_pos s := 0])\<rparr> else s
   | None \<Rightarrow> s)"

lemma append_body_eq:
  "tcp_http_append_body s data = end_body (foldl append_char (s\<lparr>th_body_total := th_body_total s + of_nat (length data)\<rparr>) data)"
  by (simp add: tcp_http_append_body_def end_body_def Let_def)

lemma end_body_idem: "end_body (end_body s) = end_body s"
  by (auto simp: end_body_def split: option.splits)

lemma end_append:
  "append_char (end_body s) c = append_char s c \<or> append_char (end_body s) c = end_body (append_char s c)"
  by (cases "th_body_out s") (auto simp: end_body_def append_char_def Let_def)

lemma end_fold: "end_body (foldl append_char (end_body s) cs) = end_body (foldl append_char s cs)"
proof (induction cs arbitrary: s)
  case (Cons c cs)
  show ?case using end_append [of s c] Cons.IH [of "append_char s c"] by auto
qed (simp add: end_body_idem)

lemma total_append: "(append_char s c)\<lparr>th_body_total := t\<rparr> = append_char (s\<lparr>th_body_total := t\<rparr>) c"
  "th_body_total (append_char s c) = th_body_total s"
  by (auto simp: append_char_def Let_def split: option.splits)

lemma total_fold: "(foldl append_char s cs)\<lparr>th_body_total := t\<rparr> = foldl append_char (s\<lparr>th_body_total := t\<rparr>) cs"
  "th_body_total (foldl append_char s cs) = th_body_total s"
  by (induction cs arbitrary: s) (simp_all add: total_append)

lemma total_end: "(end_body s)\<lparr>th_body_total := t\<rparr> = end_body (s\<lparr>th_body_total := t\<rparr>)"
  "th_body_total (end_body s) = th_body_total s"
  by (auto simp: end_body_def split: option.splits)

lemma append_body_append:
  "tcp_http_append_body (tcp_http_append_body s a) b = tcp_http_append_body s (a @ b)"
  by (simp add: append_body_eq total_end total_fold end_fold foldl_append [symmetric] add.assoc del: foldl_append)

lemma header_done_body [simp]: "th_header_done (tcp_http_append_body s d) = th_header_done s"
proof -
  have "th_header_done (foldl append_char s d) = th_header_done s" for s
    by (induction d arbitrary: s) (auto simp: append_char_def Let_def split: option.splits)
  then show ?thesis by (auto simp: append_body_eq end_body_def split: option.splits)
qed

lemma feed_header_append:
  "feed_header s a = (s1, r) \<Longrightarrow> \<not> th_header_done s \<Longrightarrow>
   feed_header s (a @ b) = (if th_header_done s1 then (s1, r @ b) else feed_header s1 b)
   \<and> (th_header_done s1 \<or> r = [])"
proof (induction s a rule: feed_header.induct)
  case (2 s c cs)
  let ?n = "th_header_len s + 1"
  let ?s1 = "s\<lparr>th_header_buf := (th_header_buf s)[?n - 1 := c, ?n := 0], th_header_len := ?n\<rparr>"
  have d: "th_header_done (tcp_http_parse_status_line t) = th_header_done t" for t
    by (simp add: tcp_http_parse_status_line_def Let_def)
  show ?case
  proof (cases "?n < 1024")
    case True
    show ?thesis
    proof (cases "header_ends (th_header_buf ?s1) ?n")
      case True
      then show ?thesis using 2(2,3) \<open>?n < 1024\<close> by (auto simp: Let_def d)
    next
      case False
      have "feed_header ?s1 cs = (s1, r)" using 2(2) \<open>?n < 1024\<close> False by (simp add: Let_def)
      with 2(1) [OF True refl refl False _] 2(3) show ?thesis using \<open>?n < 1024\<close> False by (simp add: Let_def)
    qed
  next
    case False
    then have "s1 = s\<lparr>th_failed := True\<rparr>" "r = []" using 2(2) by simp_all
    then show ?thesis using 2(3) False by (cases b) simp_all
  qed
qed simp

lemma http_feed_step: "tcp_http_feed_data (tcp_http_feed_data s a) b = tcp_http_feed_data s (a @ b)"
proof (cases "a = [] \<or> b = [] \<or> th_header_done s")
  case True
  then show ?thesis by (auto simp: tcp_http_feed_data_def append_body_append)
next
  case False
  obtain s1 r where h: "feed_header s a = (s1, r)" by fastforce
  note f = feed_header_append [OF h, of b]
  show ?thesis
  proof (cases "th_header_done s1")
    case True
    have "tcp_http_feed_data s a = (if r \<noteq> [] then tcp_http_append_body s1 r else s1)"
      using False True h by (simp add: tcp_http_feed_data_def)
    moreover have "tcp_http_feed_data s (a @ b) = tcp_http_append_body s1 (r @ b)"
      using False True f by (simp add: tcp_http_feed_data_def)
    ultimately show ?thesis using False True by (simp add: tcp_http_feed_data_def append_body_append)
  next
    case nd: False
    have "tcp_http_feed_data s a = s1" using False nd h by (simp add: tcp_http_feed_data_def)
    then show ?thesis using False nd f by (simp add: tcp_http_feed_data_def split: prod.splits)
  qed
qed

text \<open>
  C26: How TCP cuts the response into segments does not matter: feeding the pieces one after the other
  leaves the session exactly as feeding their concatenation at once, with the header split anywhere, in the status
  line, the text of the body with its terminator, its length and the marks for truncation and failure.
\<close>

theorem http_feed_pieces:
  "foldl tcp_http_feed_data s pieces = tcp_http_feed_data s (concat pieces)"
proof (induction pieces arbitrary: s)
  case Nil
  show ?case by (simp add: tcp_http_feed_data_def)
next
  case (Cons p ps)
  then show ?case by (simp add: http_feed_step)
qed

section \<open>Segments in frames\<close>

record segment =
  sg_src_ip :: u32
  sg_src_port :: u16
  sg_dst_port :: u16
  sg_seq :: u32
  sg_flags :: u8
  sg_data :: "u8 list"

definition segment_of :: "ipv4_header \<Rightarrow> u8 list \<Rightarrow> nat \<Rightarrow> segment option" where
  "segment_of ip payload len =
     (let tcp = tcp_of payload; off = unat (drop_bit 4 (tcp_data_offset_reserved tcp) AND 0x0F) * 4
      in if len < 20 \<or> off < 20 \<or> off > len then None
         else Some \<lparr>sg_src_ip = ntohl (ip_src_ip ip), sg_src_port = ntohs (tcp_src_port tcp), sg_dst_port = ntohs (tcp_dst_port tcp),
                    sg_seq = ntohl (tcp_seq_num tcp), sg_flags = tcp_flags tcp, sg_data = bytes_at payload off (len - off)\<rparr>)"

definition mine :: "tcp_http_session \<Rightarrow> segment \<Rightarrow> bool" where
  "mine s g \<longleftrightarrow> th_active s \<and> sg_src_ip g = th_remote_ip s \<and> sg_src_port g = th_remote_port s \<and> sg_dst_port g = th_local_port s"

definition segment_in :: "resolver \<Rightarrow> net_world \<Rightarrow> segment \<Rightarrow> net_world" where
  "segment_in res w g =
     (if \<not> mine (nw_http w) g then w
      else let w1 = on_http (\<lambda>s. s\<lparr>th_last_activity_ticks := nw_ticks w\<rparr>) w in
        if sg_flags g AND TCP_FLAG_RST \<noteq> 0 then on_http (\<lambda>s. s\<lparr>th_failed := True\<rparr>) w1
        else if th_connecting (nw_http w) \<and> sg_flags g AND TCP_FLAG_SYN \<noteq> 0 \<and> sg_flags g AND TCP_FLAG_ACK \<noteq> 0 then
          send_tcp_ack res (on_http (\<lambda>s. s\<lparr>th_seq_remote := sg_seq g + 1, th_connecting := False, th_established := True\<rparr>) w1)
        else if \<not> th_established (nw_http w) then w1
        else let w2 = tcp_data res w1 (sg_seq g) (sg_data g)
          in if sg_flags g AND TCP_FLAG_FIN \<noteq> 0 then tcp_fin res w2 (sg_seq g) (length (sg_data g)) else w2)"

lemma handle_tcp_segment:
  "handle_tcp res w ip payload len = (case segment_of ip payload len of None \<Rightarrow> w | Some g \<Rightarrow> segment_in res w g)"
  by (simp add: handle_tcp_def segment_of_def segment_in_def mine_def Let_def bytes_at_def)

definition tcp_in_frame :: "u8 list \<times> nat \<Rightarrow> (ipv4_header \<times> u8 list \<times> nat) option" where
  "tcp_in_frame f =
     (case f of (frame, len) \<Rightarrow>
        let p = drop 14 frame; ip = ipv4_of p; ihl = unat (ip_version_ihl ip AND 0x0F) * 4; n = unat (ntohs (ip_total_len ip))
        in if len < 34 \<or> ntohs (eth_ethertype (eth_of frame)) \<noteq> ETH_TYPE_IPV4 \<or> drop_bit 4 (ip_version_ihl ip) \<noteq> 4
              \<or> ihl < 20 \<or> len - 14 < ihl \<or> n < ihl \<or> n > len - 14 \<or> ip_proto ip \<noteq> IP_PROTO_TCP
           then None else Some (ip, drop ihl p, n - ihl))"

definition frame_segment :: "u8 list \<times> nat \<Rightarrow> segment option" where
  "frame_segment f = (case tcp_in_frame f of None \<Rightarrow> None | Some (ip, p, n) \<Rightarrow> segment_of ip p n)"

definition frame_ok :: "(segment \<Rightarrow> bool) \<Rightarrow> u8 list \<times> nat \<Rightarrow> bool" where
  "frame_ok good f = (case frame_segment f of None \<Rightarrow> True | Some g \<Rightarrow> good g)"

section \<open>Invariants of the session under all frames\<close>

text \<open>
  What the handlers need to keep an invariant \<open>J\<close> of the session when all segments are \<open>good\<close>: it
  survives each change that a segment makes.
\<close>

definition same_peer :: "tcp_http_session \<Rightarrow> tcp_http_session \<Rightarrow> bool" where
  "same_peer s s' \<longleftrightarrow> th_active s' = th_active s \<and> th_remote_ip s' = th_remote_ip s \<and> th_remote_port s' = th_remote_port s
     \<and> th_local_port s' = th_local_port s \<and> (th_established s \<longrightarrow> th_established s')"

definition world_ok :: "(tcp_http_session \<Rightarrow> bool) \<Rightarrow> (segment \<Rightarrow> bool) \<Rightarrow> net_world \<Rightarrow> bool" where
  "world_ok J good w \<longleftrightarrow> J (nw_http w) \<and> (\<forall>e \<in> set (nw_env w). \<forall>f \<in> set (snd e). frame_ok good f)"

definition keeps :: "(tcp_http_session \<Rightarrow> bool) \<Rightarrow> (segment \<Rightarrow> bool) \<Rightarrow> (net_world \<Rightarrow> net_world) \<Rightarrow> bool" where
  "keeps J good f \<longleftrightarrow> (\<forall>w. world_ok J good w \<longrightarrow> world_ok J good (f w) \<and> same_peer (nw_http w) (nw_http (f w)))"

lemma same_peer_trans: "same_peer s t \<Longrightarrow> same_peer t u \<Longrightarrow> same_peer s u"
  by (simp add: same_peer_def)

lemma keepsD: "keeps J good f \<Longrightarrow> world_ok J good w \<Longrightarrow> world_ok J good (f w) \<and> same_peer (nw_http w) (nw_http (f w))"
  by (simp add: keeps_def)

lemma keeps_comp: "keeps J good f \<Longrightarrow> keeps J good g \<Longrightarrow> keeps J good (\<lambda>w. g (f w))"
  unfolding keeps_def by (meson same_peer_trans)

lemma keeps_quiet: "(\<And>w. nw_http (f w) = nw_http w) \<Longrightarrow> (\<And>w. nw_env (f w) = nw_env w) \<Longrightarrow> keeps J good f"
  by (simp add: keeps_def world_ok_def same_peer_def)

lemma keeps_if: "keeps J good f \<Longrightarrow> keeps J good g \<Longrightarrow> keeps J good (\<lambda>w. if P w then f w else g w)"
  by (simp add: keeps_def)

lemma keeps_foldl: "(\<And>x. x \<in> set xs \<Longrightarrow> keeps J good (\<lambda>w. h w x)) \<Longrightarrow> keeps J good (\<lambda>w. foldl h w xs)"
proof (induction xs)
  case (Cons x xs)
  have "keeps J good (\<lambda>w. foldl h (h w x) xs)"
    using keeps_comp [of J good "\<lambda>w. h w x" "\<lambda>w. foldl h w xs"] Cons by simp
  then show ?case by simp
qed (simp add: keeps_quiet)

text \<open>Operations that touch neither the session nor the environment.\<close>

lemma nic_send_quiet: "nw_http (snd (nic_send w f)) = nw_http w" "nw_env (snd (nic_send w f)) = nw_env w"
  by (simp_all add: nic_send_def split: list.split)

lemma send_frame_quiet: "nw_http (snd (send_frame w m t p)) = nw_http w" "nw_env (snd (send_frame w m t p)) = nw_env w"
  by (simp_all add: send_frame_def Let_def nic_send_quiet)

lemma send_arp_quiet: "nw_http (send_arp_request w ip) = nw_http w" "nw_env (send_arp_request w ip) = nw_env w"
    "nw_http (send_arp_reply w m ip) = nw_http w" "nw_env (send_arp_reply w m ip) = nw_env w"
  by (simp_all add: send_arp_request_def send_arp_reply_def send_frame_quiet)

lemma handle_arp_quiet: "nw_http (handle_arp w p n) = nw_http w" "nw_env (handle_arp w p n) = nw_env w"
  by (simp_all add: handle_arp_def Let_def send_arp_quiet)

lemma handle_dns_quiet: "nw_http (handle_dns w p n) = nw_http w" "nw_env (handle_dns w p n) = nw_env w"
  by (simp_all add: handle_dns_def Let_def split: option.split)

lemma handle_dhcp_quiet: "nw_http (handle_dhcp w p n) = nw_http w" "nw_env (handle_dhcp w p n) = nw_env w"
  by (simp_all add: handle_dhcp_def Let_def split: prod.split)

lemma handle_udp_quiet: "nw_http (handle_udp w p n) = nw_http w" "nw_env (handle_udp w p n) = nw_env w"
  by (simp_all add: handle_udp_def Let_def handle_dns_quiet handle_dhcp_quiet)

lemmas net_quiet = nic_send_quiet send_frame_quiet send_arp_quiet handle_arp_quiet handle_dns_quiet handle_dhcp_quiet handle_udp_quiet

lemma send_ipv4_shape:
  "\<exists>w1. w1 = snd (res dst w) \<and> nw_http (snd (send_ipv4_packet res w dst proto pl n ident)) = nw_http w1
    \<and> nw_env (snd (send_ipv4_packet res w dst proto pl n ident)) = nw_env w1"
  by (cases "res dst w") (simp add: send_ipv4_packet_def net_quiet split: option.split)

text \<open>Feeding leaves the transport alone.\<close>

definition same_transport :: "tcp_http_session \<Rightarrow> tcp_http_session \<Rightarrow> bool" where
  "same_transport s s' \<longleftrightarrow> th_active s' = th_active s \<and> th_remote_ip s' = th_remote_ip s \<and> th_remote_port s' = th_remote_port s
     \<and> th_local_port s' = th_local_port s \<and> th_established s' = th_established s \<and> th_connecting s' = th_connecting s
     \<and> th_seq_remote s' = th_seq_remote s \<and> th_fin_seen s' = th_fin_seen s"

lemma same_transport_trans: "same_transport s t \<Longrightarrow> same_transport t u \<Longrightarrow> same_transport s u"
  by (simp add: same_transport_def)

lemma append_char_transport: "same_transport s (append_char s c)"
  by (auto simp: same_transport_def append_char_def Let_def split: option.splits)

lemma feed_same_transport: "same_transport s (tcp_http_feed_data s d)"
proof -
  have f: "same_transport s (foldl append_char s d)" for s d
  proof (induction d arbitrary: s)
    case (Cons c d)
    show ?case using same_transport_trans [OF append_char_transport Cons.IH] by simp
  qed (simp add: same_transport_def)
  have e: "same_transport s (end_body s)" for s by (auto simp: same_transport_def end_body_def split: option.splits)
  have t: "same_transport s (s\<lparr>th_body_total := t\<rparr>)" for s t by (simp add: same_transport_def)
  have b: "same_transport s (tcp_http_append_body s d)" for s d
    unfolding append_body_eq by (rule same_transport_trans [OF same_transport_trans [OF t f] e])
  have h: "same_transport s (fst (feed_header s d))" for s d
  proof (induction s d rule: feed_header.induct)
    case (2 s c cs)
    let ?n = "th_header_len s + 1"
    let ?s1 = "s\<lparr>th_header_buf := (th_header_buf s)[?n - 1 := c, ?n := 0], th_header_len := ?n\<rparr>"
    have p: "same_transport t (tcp_http_parse_status_line t)" for t
      by (simp add: tcp_http_parse_status_line_def Let_def same_transport_def)
    have 1: "same_transport s ?s1" "same_transport s (?s1\<lparr>th_header_done := True\<rparr>)" "same_transport s (s\<lparr>th_failed := True\<rparr>)"
      by (simp_all add: same_transport_def)
    show ?case
    proof (cases "?n < 1024")
      case True
      then show ?thesis
        using same_transport_trans [OF 1(2) p] same_transport_trans [OF 1(1) 2(1) [OF True refl refl]]
        by (cases "header_ends (th_header_buf ?s1) ?n") (simp_all add: Let_def)
    next
      case False
      then show ?thesis using 1(3) by simp
    qed
  qed (simp add: same_transport_def)
  obtain s1 r where 1: "feed_header s d = (s1, r)" by fastforce
  have s1: "same_transport s s1" using h [of s d] 1 by simp
  have "same_transport s s" by (simp add: same_transport_def)
  then show ?thesis using b [of s d] s1 same_transport_trans [OF s1 b [of s1 r]] by (simp add: tcp_http_feed_data_def 1)
qed

lemma feed_transport:
  "th_established (tcp_http_feed_data s d) = th_established s" "th_connecting (tcp_http_feed_data s d) = th_connecting s"
  "th_seq_remote (tcp_http_feed_data s d) = th_seq_remote s"
  using feed_same_transport [of s d] by (simp_all add: same_transport_def)

lemma feed_peer: "same_peer s (tcp_http_feed_data s d)"
  using feed_same_transport [of s d] by (simp add: same_transport_def same_peer_def)

locale session_contract =
  fixes J :: "tcp_http_session \<Rightarrow> bool" and good :: "segment \<Rightarrow> bool"
  assumes activity: "J s \<Longrightarrow> J (s\<lparr>th_last_activity_ticks := t\<rparr>)"
    and sender: "J s \<Longrightarrow> J (s\<lparr>th_seq_local := n\<rparr>)" "J s \<Longrightarrow> J (s\<lparr>th_connect_sent_ticks := t\<rparr>)"
    and reset: "J s \<Longrightarrow> J (s\<lparr>th_failed := True\<rparr>)"
    and opened: "\<lbrakk>J s; good g; mine s g; th_connecting s; sg_flags g AND TCP_FLAG_SYN \<noteq> 0; sg_flags g AND TCP_FLAG_ACK \<noteq> 0\<rbrakk>
      \<Longrightarrow> J (s\<lparr>th_seq_remote := sg_seq g + 1, th_connecting := False, th_established := True\<rparr>)"
    and data: "\<lbrakk>J s; good g; mine s g; th_established s; sg_data g \<noteq> []; sg_seq g = th_seq_remote s\<rbrakk>
      \<Longrightarrow> J (tcp_http_feed_data (s\<lparr>th_seq_remote := th_seq_remote s + of_nat (length (sg_data g))\<rparr>) (sg_data g))"
    and fin: "\<lbrakk>J s; good g; mine s g; th_established s; sg_flags g AND TCP_FLAG_FIN \<noteq> 0\<rbrakk>
      \<Longrightarrow> J (s\<lparr>th_seq_remote := if sg_seq g + of_nat (length (sg_data g)) = th_seq_remote s then th_seq_remote s + 1 else th_seq_remote s,
             th_fin_seen := True\<rparr>)"
begin

lemma keeps_send_ipv4:
  assumes "\<And>dst. keeps J good (\<lambda>w. snd (res dst w))"
  shows "keeps J good (\<lambda>w. snd (send_ipv4_packet res w dst proto (pl w) n ident))"
proof -
  have "world_ok J good (snd (send_ipv4_packet res w dst proto p n ident))
      \<and> same_peer (nw_http w) (nw_http (snd (send_ipv4_packet res w dst proto p n ident)))" if "world_ok J good w" for w p
    using keepsD [OF assms that, of dst] send_ipv4_shape [of res dst w proto p n ident] by (auto simp: world_ok_def)
  then show ?thesis by (simp add: keeps_def)
qed

lemma send_tcp_ok:
  assumes "\<And>dst. keeps J good (\<lambda>w. snd (res dst w))" and w: "world_ok J good w"
  shows "world_ok J good (snd (send_tcp_packet res w dst sp dp seq ack flags payload ident))
    \<and> same_peer (nw_http w) (nw_http (snd (send_tcp_packet res w dst sp dp seq ack flags payload ident)))"
proof (cases "20 + length payload > 1600")
  case True
  then show ?thesis using w by (simp add: send_tcp_packet_def same_peer_def)
next
  case False
  let ?w1 = "w\<lparr>nw_tcp_tx_buf := blit (nw_tcp_tx_buf w) 0 (tcp_segment (cfg_ip (nw_cfg w)) dst sp dp seq ack flags payload) (20 + length payload)\<rparr>"
  have "world_ok J good ?w1" using w by (simp add: world_ok_def)
  from keepsD [OF keeps_send_ipv4 [where pl = "\<lambda>_. nw_tcp_tx_buf", OF assms(1)] this]
  show ?thesis using False by (simp add: send_tcp_packet_def Let_def)
qed

lemma keeps_ack:
  assumes "\<And>dst. keeps J good (\<lambda>w. snd (res dst w))"
  shows "keeps J good (send_tcp_ack res)"
  unfolding keeps_def using send_tcp_ok [OF assms] by (simp add: send_tcp_ack_def Let_def)

lemma step_http:
  assumes "world_ok J good w" "J (f (nw_http w))" "same_peer (nw_http w) (f (nw_http w))" "\<And>dst. keeps J good (\<lambda>w. snd (res dst w))"
  shows "world_ok J good (send_tcp_ack res (on_http f w)) \<and> same_peer (nw_http w) (nw_http (send_tcp_ack res (on_http f w)))"
proof -
  have "world_ok J good (on_http f w)" using assms(1,2) by (simp add: world_ok_def)
  from keepsD [OF keeps_ack [OF assms(4)] this] show ?thesis using same_peer_trans [OF assms(3)] by simp
qed

lemma keeps_segment:
  assumes res: "\<And>dst. keeps J good (\<lambda>w. snd (res dst w))" and g: "good g"
  shows "keeps J good (\<lambda>w. segment_in res w g)"
  unfolding keeps_def
proof (intro allI impI)
  fix w assume w: "world_ok J good w"
  let ?w1 = "on_http (\<lambda>s. s\<lparr>th_last_activity_ticks := nw_ticks w\<rparr>) w"
  let ?w2 = "tcp_data res ?w1 (sg_seq g) (sg_data g)"
  show "world_ok J good (segment_in res w g) \<and> same_peer (nw_http w) (nw_http (segment_in res w g))"
  proof (cases "mine (nw_http w) g")
    case False
    then show ?thesis using w by (simp add: segment_in_def same_peer_def)
  next
    case m: True
    have w1: "world_ok J good ?w1" "same_peer (nw_http w) (nw_http ?w1)"
      using w activity by (simp_all add: world_ok_def same_peer_def)
    have m1: "mine (nw_http ?w1) g" using m by (simp add: mine_def)
    consider (rst) "sg_flags g AND TCP_FLAG_RST \<noteq> 0"
      | (syn) "sg_flags g AND TCP_FLAG_RST = 0" "th_connecting (nw_http w)" "sg_flags g AND TCP_FLAG_SYN \<noteq> 0" "sg_flags g AND TCP_FLAG_ACK \<noteq> 0"
      | (idle) "sg_flags g AND TCP_FLAG_RST = 0" "\<not> th_established (nw_http w)"
          "\<not> (th_connecting (nw_http w) \<and> sg_flags g AND TCP_FLAG_SYN \<noteq> 0 \<and> sg_flags g AND TCP_FLAG_ACK \<noteq> 0)"
      | (flow) "sg_flags g AND TCP_FLAG_RST = 0" "th_established (nw_http w)"
          "\<not> (th_connecting (nw_http w) \<and> sg_flags g AND TCP_FLAG_SYN \<noteq> 0 \<and> sg_flags g AND TCP_FLAG_ACK \<noteq> 0)"
      by blast
    then show ?thesis
    proof cases
      case rst
      have "J ((nw_http ?w1)\<lparr>th_failed := True\<rparr>)" using w1(1) reset by (simp add: world_ok_def)
      then show ?thesis using rst m w by (simp add: segment_in_def world_ok_def same_peer_def)
    next
      case syn
      have "J ((nw_http ?w1)\<lparr>th_seq_remote := sg_seq g + 1, th_connecting := False, th_established := True\<rparr>)"
        by (rule opened [OF _ g m1]) (use w1(1) syn in \<open>simp_all add: world_ok_def\<close>)
      note q = step_http [OF w1(1), of "\<lambda>s. s\<lparr>th_seq_remote := sg_seq g + 1, th_connecting := False, th_established := True\<rparr>", OF this _ res]
      show ?thesis using q same_peer_trans [OF w1(2)] syn m by (simp add: segment_in_def same_peer_def)
    next
      case idle
      then show ?thesis using w1 m by (auto simp: segment_in_def)
    next
      case flow
      have est: "th_established (nw_http ?w1)" using flow by simp
      have d: "world_ok J good ?w2 \<and> same_peer (nw_http ?w1) (nw_http ?w2)"
      proof (cases "sg_data g \<noteq> [] \<and> sg_seq g = th_seq_remote (nw_http ?w1)")
        case True
        let ?f = "\<lambda>s. tcp_http_feed_data (s\<lparr>th_seq_remote := th_seq_remote s + of_nat (length (sg_data g))\<rparr>) (sg_data g)"
        have "J (?f (nw_http ?w1))"
          by (rule data [OF _ g m1 est]) (use True w1(1) in \<open>simp_all add: world_ok_def\<close>)
        moreover have "same_peer (nw_http ?w1) (?f (nw_http ?w1))"
          by (rule same_peer_trans [OF _ feed_peer]) (simp add: same_peer_def)
        ultimately show ?thesis using step_http [OF w1(1), of ?f] res True by (simp add: tcp_data_def)
      next
        case False
        then have "?w2 = ?w1" by (auto simp: tcp_data_def)
        then show ?thesis using w1 by (simp add: same_peer_def)
      qed
      have S: "segment_in res w g = (if sg_flags g AND TCP_FLAG_FIN \<noteq> 0 then tcp_fin res ?w2 (sg_seq g) (length (sg_data g)) else ?w2)"
        using m flow by (auto simp: segment_in_def Let_def)
      show ?thesis
      proof (cases "sg_flags g AND TCP_FLAG_FIN \<noteq> 0")
        case True
        let ?f = "\<lambda>s. s\<lparr>th_seq_remote := (if sg_seq g + of_nat (length (sg_data g)) = th_seq_remote s then th_seq_remote s + 1 else th_seq_remote s),
                      th_fin_seen := True\<rparr>"
        have "mine (nw_http ?w2) g" "th_established (nw_http ?w2)" using d m1 est by (simp_all add: same_peer_def mine_def)
        then have "J (?f (nw_http ?w2))" using fin [OF _ g] d True by (simp add: world_ok_def)
        moreover have "same_peer (nw_http ?w2) (?f (nw_http ?w2))" by (simp add: same_peer_def)
        ultimately have "world_ok J good (tcp_fin res ?w2 (sg_seq g) (length (sg_data g)))
            \<and> same_peer (nw_http ?w2) (nw_http (tcp_fin res ?w2 (sg_seq g) (length (sg_data g))))"
          using step_http [of ?w2 ?f res] d res unfolding tcp_fin_def by blast
        then show ?thesis using S True d w1(2) same_peer_trans by (metis (no_types, lifting))
      next
        case False
        then show ?thesis using S d w1(2) same_peer_trans by (metis (no_types, lifting))
      qed
    qed
  qed
qed

lemma keeps_icmp:
  assumes "\<And>dst. keeps J good (\<lambda>w. snd (res dst w))"
  shows "keeps J good (\<lambda>w. handle_icmp res w ip p n)"
  unfolding keeps_def
proof (intro allI impI)
  fix w assume w: "world_ok J good w"
  have "world_ok J good (w\<lparr>nw_ping := x\<rparr>)" "same_peer (nw_http w) (nw_http w)" for x
    using w by (simp_all add: world_ok_def same_peer_def)
  then show "world_ok J good (handle_icmp res w ip p n) \<and> same_peer (nw_http w) (nw_http (handle_icmp res w ip p n))"
    using w keepsD [OF keeps_send_ipv4 [where res = res and dst = "ntohl (ip_src_ip ip)" and proto = IP_PROTO_ICMP and pl = "\<lambda>_ _. icmp_reply p n"
        and n = "min n 128" and ident = "0x1234", OF assms] w]
    by (simp add: handle_icmp_def Let_def)
qed

lemma keeps_frame:
  assumes "\<And>dst. keeps J good (\<lambda>w. snd (res dst w))" "frame_ok good f"
  shows "keeps J good (\<lambda>w. net_on_frame res w f)"
  unfolding keeps_def
proof (intro allI impI)
  fix w assume w: "world_ok J good w"
  obtain frame len where f: "f = (frame, len)" by fastforce
  define p where "p = drop 14 frame"
  define ip where "ip = ipv4_of p"
  define ihl where "ihl = unat (ip_version_ihl ip AND 0x0F) * 4"
  define n where "n = unat (ntohs (ip_total_len ip))"
  have refl: "world_ok J good w \<and> same_peer (nw_http w) (nw_http w)" using w by (simp add: same_peer_def)
  have q: "world_ok J good (h w) \<and> same_peer (nw_http w) (nw_http (h w))"
    if "nw_http (h w) = nw_http w" "nw_env (h w) = nw_env w" for h
    using that w by (simp add: world_ok_def same_peer_def)
  have arp: "world_ok J good (handle_arp w a b) \<and> same_peer (nw_http w) (nw_http (handle_arp w a b))" for a b
    by (rule q) (simp_all add: net_quiet)
  have udp: "world_ok J good (handle_udp w a b) \<and> same_peer (nw_http w) (nw_http (handle_udp w a b))" for a b
    by (rule q) (simp_all add: net_quiet)
  have icmp: "world_ok J good (handle_icmp res w ip a b) \<and> same_peer (nw_http w) (nw_http (handle_icmp res w ip a b))" for a b
    using keepsD [OF keeps_icmp [of res ip a b, OF assms(1)] w] .
  have tcp: "world_ok J good (handle_tcp res w ip a b) \<and> same_peer (nw_http w) (nw_http (handle_tcp res w ip a b))"
    if "tcp_in_frame f = Some (ip, a, b)" for a b
  proof (cases "segment_of ip a b")
    case None
    then show ?thesis using refl by (simp add: handle_tcp_segment)
  next
    case (Some g)
    then have "good g" using assms(2) that by (simp add: frame_ok_def frame_segment_def)
    from keepsD [OF keeps_segment [OF assms(1) this] w] show ?thesis using Some by (simp add: handle_tcp_segment)
  qed
  have ip: "world_ok J good (handle_ipv4 res w p (len - 14)) \<and> same_peer (nw_http w) (nw_http (handle_ipv4 res w p (len - 14)))"
    if e: "14 \<le> len" "ntohs (eth_ethertype (eth_of frame)) = ETH_TYPE_IPV4"
  proof -
    let ?ok = "\<not> len - 14 < 20 \<and> drop_bit 4 (ip_version_ihl ip) = 4 \<and> \<not> ihl < 20 \<and> \<not> len - 14 < ihl \<and> \<not> n < ihl \<and> \<not> n > len - 14"
    have H: "handle_ipv4 res w p (len - 14) = (if \<not> ?ok then w
        else if cfg_ip (nw_cfg w) \<noteq> 0 \<and> ntohl (ip_dst_ip ip) \<noteq> cfg_ip (nw_cfg w) \<and> ntohl (ip_dst_ip ip) \<noteq> 0xFFFFFFFF then w
        else if ip_proto ip = IP_PROTO_ICMP then handle_icmp res w ip (drop ihl p) (n - ihl)
        else if ip_proto ip = IP_PROTO_UDP then handle_udp w (drop ihl p) (n - ihl)
        else if ip_proto ip = IP_PROTO_TCP then handle_tcp res w ip (drop ihl p) (n - ihl) else w)"
      by (simp add: handle_ipv4_def Let_def ip_def [symmetric] ihl_def [symmetric] n_def [symmetric])
    have T: "tcp_in_frame f = Some (ip, drop ihl p, n - ihl)" if "?ok" "ip_proto ip = IP_PROTO_TCP"
    proof -
      have "\<not> len < 34" using that(1) e(1) by linarith
      then show ?thesis
        using that e(2) unfolding tcp_in_frame_def f prod.case Let_def p_def [symmetric] ip_def [symmetric] ihl_def [symmetric] n_def [symmetric]
        by simp
    qed
    show ?thesis unfolding H using refl udp icmp tcp [OF T] by (simp split: if_split)
  qed
  show "world_ok J good (net_on_frame res w f) \<and> same_peer (nw_http w) (nw_http (net_on_frame res w f))"
    using refl arp ip by (simp add: f net_on_frame_def Let_def p_def)
qed

lemma keeps_poll:
  assumes "\<And>dst. keeps J good (\<lambda>w. snd (res dst w))"
  shows "keeps J good (poll_with res)"
  unfolding keeps_def
proof (intro allI impI)
  fix w assume w: "world_ok J good w"
  show "world_ok J good (poll_with res w) \<and> same_peer (nw_http w) (nw_http (poll_with res w))"
  proof (cases "nw_env w")
    case Nil
    then show ?thesis using w by (simp add: poll_with_def same_peer_def)
  next
    case (Cons e env)
    obtain dt fs where e: "e = (dt, fs)" by fastforce
    let ?w1 = "w\<lparr>nw_env := env, nw_ticks := nw_ticks w + dt\<rparr>"
    have w1: "world_ok J good ?w1" using w Cons by (simp add: world_ok_def)
    have "keeps J good (\<lambda>w. foldl (net_on_frame res) w fs)"
      by (rule keeps_foldl, rule keeps_frame [OF assms]) (use w Cons e in \<open>simp add: world_ok_def\<close>)
    from keepsD [OF this w1] show ?thesis using w1 Cons e by (simp add: poll_with_def Let_def same_peer_def)
  qed
qed

lemma keeps_resolve:
  assumes "\<And>start limit stop. keeps J good (wait start limit stop)"
  shows "keeps J good (\<lambda>w. snd (resolve_with wait dst w))"
  unfolding keeps_def
proof (intro allI impI)
  fix w assume w: "world_ok J good w"
  let ?w1 = "send_arp_request w (route_ip (nw_cfg w) dst)"
  have w1: "world_ok J good ?w1" "nw_http ?w1 = nw_http w" using w by (simp_all add: world_ok_def net_quiet)
  show "world_ok J good (snd (resolve_with wait dst w)) \<and> same_peer (nw_http w) (nw_http (snd (resolve_with wait dst w)))"
    using w keepsD [OF assms w1(1)] w1(2) by (simp add: resolve_with_def Let_def) (simp add: same_peer_def)
qed

lemma keeps_wait: "keeps J good (wait_loop n start limit stop)"
proof (induction n arbitrary: start limit stop)
  case 0
  have "keeps J good (\<lambda>w. if \<not> nw_ticks w - start < limit then w else w\<lparr>nw_ticks := start + limit\<rparr>)"
    by (rule keeps_quiet) simp_all
  then show ?case by simp
next
  case (Suc n)
  note p = keeps_poll [OF keeps_resolve [OF Suc]]
  let ?p = "poll_with (resolve_with (wait_loop n))"
  have t: "keeps J good (\<lambda>w. w\<lparr>nw_ticks := start + limit\<rparr>)" by (rule keeps_quiet) simp_all
  have r: "keeps J good (\<lambda>w. w)" by (rule keeps_quiet) simp_all
  have l: "keeps J good (\<lambda>w. (\<lambda>w1. if stop w1 then w1 else wait_loop n start limit stop w1) (?p w))"
    by (rule keeps_comp [OF p], rule keeps_if [OF r Suc])
  have "wait_loop (Suc n) start limit stop = (\<lambda>w. if \<not> nw_ticks w - start < limit then w
      else if nw_env w = [] then w\<lparr>nw_ticks := start + limit\<rparr>
      else (\<lambda>w1. if stop w1 then w1 else wait_loop n start limit stop w1) (?p w))"
    by (simp add: fun_eq_iff Let_def)
  then show ?case
    using keeps_if [OF r keeps_if [OF t l, of "\<lambda>w. nw_env w = []"], of "\<lambda>w. \<not> nw_ticks w - start < limit"] by simp
qed

lemma keeps_wait_until: "keeps J good (wait_until start limit stop)"
  using keeps_wait by (simp add: keeps_def wait_until_def)

lemma keeps_resolve_target: "keeps J good (\<lambda>w. snd (resolve_target_mac dst w))"
  using keeps_resolve [of wait_until dst, OF keeps_wait_until] by (simp add: resolve_target_mac_def)

lemma keeps_net_poll: "keeps J good net_poll"
  using keeps_poll [of resolve_target_mac, OF keeps_resolve_target] by (simp add: keeps_def net_poll_def)

lemmas send_tcp_kept = send_tcp_ok [of resolve_target_mac, OF keeps_resolve_target]

end

end
