(* ===== verification/Net_Client.thy ===== *)
theory Net_Client
  imports Net_Stack Terminal
begin

text \<open>
  The operations that \<^verbatim>\<open>src/drivers/net.c\<close> offers to the shell: initialisation, the address
  configuration by DHCP, ping, name resolution and HTTP requests.
\<close>

section \<open>Initialisation and configuration\<close>

text \<open>\<open>nic\<close> is the answer of \<^verbatim>\<open>rtl8139_init\<close>: the hardware address, if a card was found.\<close>

definition net_init :: "u8 list option \<Rightarrow> net_world \<Rightarrow> net_world" where
  "net_init nic w =
     (let cfg = \<lparr>cfg_mac = replicate 6 0, cfg_ip = 0, cfg_subnet = 0, cfg_gateway = 0, cfg_dns = 0, cfg_link_up = False,
                 cfg_dhcp_configured = False\<rparr>;
          w1 = w\<lparr>nw_cfg := (case nic of None \<Rightarrow> cfg | Some m \<Rightarrow> cfg\<lparr>cfg_mac := bytes_at m 0 6, cfg_link_up := True\<rparr>),
            nw_arp := \<lparr>ac_valid = False, ac_ip = 0, ac_mac = replicate 6 0\<rparr>,
            nw_ping := \<lparr>pg_waiting = False, pg_ident = 0, pg_seq = 0, pg_target = 0, pg_sent_ticks = 0, pg_got_reply = False,
                        pg_rtt_ms = 0\<rparr>,
            nw_dhcp := \<lparr>dc_waiting_offer = False, dc_waiting_ack = False, dc_xid = 0, dc_offered_ip = 0, dc_server_ip = 0,
                        dc_subnet = 0, dc_router = 0, dc_dns = 0\<rparr>,
            nw_dns := \<lparr>dn_waiting = False, dn_got_reply = False, dn_xid = 0, dn_result_ip = 0\<rparr>\<rparr>
      in tcp_http_reset w1)"

definition net_is_ready :: "net_world \<Rightarrow> bool" where
  "net_is_ready w = cfg_link_up (nw_cfg w)"

definition print_mac :: "u32 \<Rightarrow> display \<Rightarrow> u8 list \<Rightarrow> display" where
  "print_mac tid d m =
     (let hex = str ''0123456789ABCDEF'' in
      foldl (\<lambda>d i.
        let d1 = display_put_char d tid (rd hex (unat (drop_bit 4 (rd m i) AND 0xF)));
            d2 = display_put_char d1 tid (rd hex (unat (rd m i AND 0xF)))
        in if i \<noteq> 5 then display_put_char d2 tid 58 else d2) d [0..<6])"

definition print_address :: "u32 \<Rightarrow> display \<Rightarrow> u8 list \<Rightarrow> u32 \<Rightarrow> display" where
  "print_address tid d label ip =
     display_put_char (display_print (display_print d tid label) tid (net_format_ipv4 ip (replicate 16 0) 16)) tid 10"

definition net_print_config :: "u32 \<Rightarrow> net_config \<Rightarrow> display \<Rightarrow> display" where
  "net_print_config tid cfg d =
     (if \<not> cfg_link_up cfg then display_print d tid (str ''net: link down (RTL8139 not found)'' @ [10])
      else let d1 = display_put_char (print_mac tid (display_print d tid (str ''net: link up'' @ [10] @ str ''mac: '')) (cfg_mac cfg)) tid 10;
               d2 = print_address tid d1 (str ''ip: '') (cfg_ip cfg);
               d3 = print_address tid d2 (str ''mask: '') (cfg_subnet cfg);
               d4 = print_address tid d3 (str ''gw: '') (cfg_gateway cfg);
               d5 = print_address tid d4 (str ''dns: '') (cfg_dns cfg)
           in display_print (display_print d5 tid (str ''dhcp: '')) tid
                (if cfg_dhcp_configured cfg then str ''yes'' @ [10] else str ''no'' @ [10]))"

section \<open>DHCP\<close>

definition octets :: "u32 \<Rightarrow> u8 list" where
  "octets ip = [ucast (drop_bit 24 ip), ucast (drop_bit 16 ip), ucast (drop_bit 8 ip), ucast ip]"

definition dhcp_request_options :: "u8 \<Rightarrow> u32 \<Rightarrow> u32 \<Rightarrow> u8 list" where
  "dhcp_request_options msg_type req_ip server_id =
     [53, 1, msg_type, 55, 3, 1, 3, 6]
     @ (if msg_type = 3 \<and> req_ip \<noteq> 0 \<and> server_id \<noteq> 0 then [50, 4] @ octets req_ip @ [54, 4] @ octets server_id else [])
     @ [255]"

definition dhcp_message :: "net_world \<Rightarrow> u8 \<Rightarrow> u32 \<Rightarrow> u32 \<Rightarrow> u8 list" where
  "dhcp_message w msg_type req_ip server_id =
     (let opts = dhcp_request_options msg_type req_ip server_id;
          d = \<lparr>dh_op = 1, dh_htype = 1, dh_hlen = 6, dh_hops = 0, dh_xid = htonl (dc_xid (nw_dhcp w)), dh_secs = htons 0,
               dh_flags = htons 0x8000, dh_ciaddr = 0, dh_yiaddr = 0, dh_siaddr = 0, dh_giaddr = 0,
               dh_chaddr = bytes_at (cfg_mac (nw_cfg w)) 0 6 @ replicate 10 0, dh_sname = replicate 64 0, dh_file = replicate 128 0,
               dh_cookie = htonl 0x63825363, dh_options = opts @ replicate (DHCP_OPTIONS - length opts) 0\<rparr>;
          n = DHCP_FIXED + length opts
      in take (if n < 300 then 300 else n) (dhcp_bytes d))"

definition send_dhcp_message :: "net_world \<Rightarrow> u8 \<Rightarrow> u32 \<Rightarrow> u32 \<Rightarrow> bool \<times> net_world" where
  "send_dhcp_message w msg_type req_ip server_id =
     (let body = dhcp_message w msg_type req_ip server_id; n = length body;
          udp = udp_bytes \<lparr>udp_src_port = htons DHCP_CLIENT_PORT, udp_dst_port = htons DHCP_SERVER_PORT,
                           udp_len = htons (of_nat (8 + n)), udp_checksum = 0\<rparr> @ body
      in send_frame w (replicate 6 0xFF) ETH_TYPE_IPV4
           (ipv4_bytes (ipv4_message 0 0xFFFFFFFF IP_PROTO_UDP (8 + n) (ucast (dc_xid (nw_dhcp w))) 0) @ udp))"

definition net_dhcp_request :: "net_world \<Rightarrow> bool \<times> net_world" where
  "net_dhcp_request w =
     (if \<not> cfg_link_up (nw_cfg w) then (False, w)
      else let w1 = w\<lparr>nw_dhcp := \<lparr>dc_waiting_offer = True, dc_waiting_ack = False, dc_xid = nw_ticks w XOR 0xA5A51234,
                        dc_offered_ip = 0, dc_server_ip = 0, dc_subnet = 0, dc_router = 0, dc_dns = 0\<rparr>\<rparr>
        in case send_dhcp_message w1 1 0 0 of
             (False, w2) \<Rightarrow> (False, w2)
           | (True, w2) \<Rightarrow>
               let limit = nw_freq w2 * 5;
                   w3 = wait_until (nw_ticks w2) limit (\<lambda>w. \<not> dc_waiting_offer (nw_dhcp w)) w2; st = nw_dhcp w3
               in if dc_waiting_offer st \<or> dc_offered_ip st = 0 \<or> dc_server_ip st = 0 then (False, w3)
                  else (case send_dhcp_message w3 3 (dc_offered_ip st) (dc_server_ip st) of
                          (False, w4) \<Rightarrow> (False, w4)
                        | (True, w4) \<Rightarrow>
                            let w5 = wait_until (nw_ticks w4) limit (\<lambda>w. \<not> dc_waiting_ack (nw_dhcp w)) w4
                            in (cfg_dhcp_configured (nw_cfg w5), w5)))"

section \<open>Ping\<close>

definition timeout_ticks :: "net_world \<Rightarrow> u32 \<Rightarrow> u32" where
  "timeout_ticks w timeout_ms = (let t = (timeout_ms * nw_freq w) div 1000 in if t = 0 then 1 else t)"

definition ping_payload :: "u16 \<Rightarrow> u16 \<Rightarrow> u8 list" where
  "ping_payload ident seq =
     (let h = \<lparr>icmp_type = ICMP_ECHO_REQUEST, icmp_code = 0, icmp_checksum = 0, icmp_ident = htons ident, icmp_seq = htons seq\<rparr>;
          rest = map of_nat [8..<64]
      in icmp_bytes (h\<lparr>icmp_checksum := htons (checksum16 (icmp_bytes h @ rest) 64)\<rparr>) @ rest)"

definition net_ping :: "net_world \<Rightarrow> u32 \<Rightarrow> u32 \<Rightarrow> u32 option \<times> net_world" where
  "net_ping w target_ip timeout_ms =
     (if \<not> cfg_link_up (nw_cfg w) \<or> cfg_ip (nw_cfg w) = 0 then (None, w)
      else let p = nw_ping w; ident = ucast (nw_ticks w); seq = pg_seq p + 1;
               w1 = w\<lparr>nw_ping := p\<lparr>pg_waiting := True, pg_got_reply := False, pg_ident := ident, pg_seq := seq,
                        pg_target := target_ip, pg_sent_ticks := nw_ticks w\<rparr>\<rparr>
        in case send_ipv4_packet resolve_target_mac w1 target_ip IP_PROTO_ICMP (\<lambda>_. ping_payload ident seq) 64 ident of
             (False, w2) \<Rightarrow> (None, w2\<lparr>nw_ping := (nw_ping w2)\<lparr>pg_waiting := False\<rparr>\<rparr>)
           | (True, w2) \<Rightarrow>
               let w3 = wait_until (nw_ticks w2) (timeout_ticks w2 timeout_ms) (\<lambda>w. pg_got_reply (nw_ping w)) w2
               in if pg_got_reply (nw_ping w3) then (Some (pg_rtt_ms (nw_ping w3)), w3)
                  else (None, w3\<lparr>nw_ping := (nw_ping w3)\<lparr>pg_waiting := False\<rparr>\<rparr>))"

section \<open>Name resolution\<close>

definition dns_stop :: "net_world \<Rightarrow> net_world" where
  "dns_stop w = w\<lparr>nw_dns := (nw_dns w)\<lparr>dn_waiting := False\<rparr>\<rparr>"

text \<open>The query for a host; \<open>None\<close> if the name cannot be encoded or leaves no room for the type and class.\<close>

definition dns_query :: "u16 \<Rightarrow> u8 list \<Rightarrow> u8 list option" where
  "dns_query xid host =
     (let hdr = dns_bytes \<lparr>dns_id = htons xid, dns_flags = htons 0x0100, dns_qdcount = htons 1, dns_ancount = 0,
                           dns_nscount = 0, dns_arcount = 0\<rparr>
      in case dns_encode_name host (replicate 500 0) 500 of
           None \<Rightarrow> None
         | Some (name, name_len) \<Rightarrow>
             if 12 + name_len + 4 > 512 then None else Some (hdr @ take name_len name @ [0, 1, 0, 1]))"

definition net_resolve_ipv4 :: "net_world \<Rightarrow> u8 list \<Rightarrow> u32 \<Rightarrow> u32 option \<times> net_world" where
  "net_resolve_ipv4 w host timeout_ms =
     (if \<not> cfg_link_up (nw_cfg w) \<or> cfg_ip (nw_cfg w) = 0 \<or> cfg_dns (nw_cfg w) = 0 \<or> rd host 0 = 0 then (None, w)
      else case net_parse_ipv4 host of
        Some ip \<Rightarrow> (Some ip, w)
      | None \<Rightarrow>
          let xid = ucast (nw_ticks w XOR 0xBEEF1234);
              w1 = w\<lparr>nw_dns := \<lparr>dn_waiting = True, dn_got_reply = False, dn_xid = xid, dn_result_ip = 0\<rparr>\<rparr>
          in case dns_query xid host of
               None \<Rightarrow> (None, dns_stop w1)
             | Some msg \<Rightarrow>
                 (case send_udp_packet resolve_target_mac w1 (cfg_dns (nw_cfg w1)) DNS_CLIENT_PORT DNS_SERVER_PORT msg xid of
                    (False, w2) \<Rightarrow> (None, dns_stop w2)
                  | (True, w2) \<Rightarrow>
                      let w3 = wait_until (nw_ticks w2) (timeout_ticks w2 timeout_ms) (\<lambda>w. \<not> dn_waiting (nw_dns w)) w2
                      in if \<not> dn_got_reply (nw_dns w3) \<or> dn_result_ip (nw_dns w3) = 0 then (None, w3)
                         else (Some (dn_result_ip (nw_dns w3)), w3)))"

section \<open>HTTP\<close>

record net_http_response =
  hr_result :: net_http_result
  hr_resolved_ip :: u32
  hr_port :: u16
  hr_status_code :: u16
  hr_body_len :: u32
  hr_body_truncated :: bool

definition blank_response :: net_http_response where
  "blank_response = \<lparr>hr_result = NET_HTTP_OK, hr_resolved_ip = 0, hr_port = 0, hr_status_code = 0, hr_body_len = 0,
     hr_body_truncated = False\<rparr>"

text \<open>The new session of a request, before the first segment.\<close>

definition http_open :: "net_world \<Rightarrow> u32 \<Rightarrow> u16 \<Rightarrow> u8 list option \<Rightarrow> nat \<Rightarrow> net_world" where
  "http_open w ip port body body_size =
     (tcp_http_reset w)\<lparr>nw_http := http_zero\<lparr>th_active := True, th_connecting := True, th_remote_ip := ip,
        th_local_port := 49152 + ucast (nw_ticks w AND 0x3FFF), th_remote_port := port,
        th_seq_local := 0x13570000 XOR nw_ticks w, th_body_out := body, th_body_out_size := body_size,
        th_last_activity_ticks := nw_ticks w\<rparr>\<rparr>"

definition send_syn :: "net_world \<Rightarrow> u32 \<Rightarrow> u16 \<Rightarrow> u16 \<Rightarrow> u32 \<Rightarrow> bool \<times> net_world" where
  "send_syn w ip local_port port seq =
     send_tcp_packet resolve_target_mac w ip local_port port seq 0 TCP_FLAG_SYN [] (ucast seq)"

text \<open>After a poll without an answer: send the first segment again if half a second has passed.\<close>

definition syn_retry :: "u32 \<Rightarrow> u16 \<Rightarrow> u16 \<Rightarrow> nat \<Rightarrow> net_world \<Rightarrow> nat \<times> net_world" where
  "syn_retry ip local_port port retries w =
     (let now = nw_ticks w in
      if \<not> th_established (nw_http w) \<and> retries < 3 \<and> now - th_connect_sent_ticks (nw_http w) > nw_freq w div 2 then
        (case send_syn w ip local_port port (th_seq_local (nw_http w) - 1) of
           (True, w1) \<Rightarrow> (retries + 1, on_http (\<lambda>s. s\<lparr>th_connect_sent_ticks := now\<rparr>) w1)
         | (False, w1) \<Rightarrow> (retries, w1))
      else (retries, w))"

text \<open>
  The connection loop; \<open>False\<close> says that the peer reset the connection.  The fuel is as for
  \<open>wait_loop\<close>; without further entries the last poll lasts until the limit.
\<close>

primrec connect_loop :: "nat \<Rightarrow> u32 \<Rightarrow> u32 \<Rightarrow> u32 \<Rightarrow> u16 \<Rightarrow> u16 \<Rightarrow> nat \<Rightarrow> net_world \<Rightarrow> bool \<times> net_world" where
  "connect_loop 0 start limit ip local_port port retries w =
     (if \<not> nw_ticks w - start < limit then (True, w)
      else let w1 = w\<lparr>nw_ticks := start + limit\<rparr>
        in if th_established (nw_http w1) then (True, w1)
           else if th_failed (nw_http w1) then (False, w1)
           else (True, snd (syn_retry ip local_port port retries w1)))"
| "connect_loop (Suc n) start limit ip local_port port retries w =
     (if \<not> nw_ticks w - start < limit then (True, w)
      else let w1 = (if nw_env w = [] then w\<lparr>nw_ticks := start + limit\<rparr> else net_poll w)
        in if th_established (nw_http w1) then (True, w1)
           else if th_failed (nw_http w1) then (False, w1)
           else (case syn_retry ip local_port port retries w1 of
                   (retries1, w2) \<Rightarrow>
                     if nw_env w = [] then (True, w2) else connect_loop n start limit ip local_port port retries1 w2))"

definition req_put :: "u8 list \<Rightarrow> u8 list \<Rightarrow> u8 list" where
  "req_put r p = r @ take (383 - length r) (cstr p)"

definition http_request_text :: "u8 list \<Rightarrow> u16 \<Rightarrow> u8 list \<Rightarrow> u8 list" where
  "http_request_text host port path =
     (let crlf = [13, 10];
          r1 = req_put [] (str ''GET '');
          r2 = req_put r1 path;
          r3 = req_put r2 (str '' HTTP/1.1'' @ crlf @ str ''Host: '');
          r4 = req_put r3 host;
          r5 = (if port \<noteq> 80 then req_put (req_put r4 (str '':'')) (u32_to_dec (ucast port)) else r4)
      in req_put r5 (crlf @ str ''Connection: close'' @ crlf @ str ''User-Agent: VertexOS/0.1'' @ crlf @ crlf))"

type_synonym http_answer = "net_http_response \<times> u8 list option \<times> net_world"

definition http_fail :: "net_http_response \<Rightarrow> net_http_result \<Rightarrow> net_world \<Rightarrow> http_answer" where
  "http_fail r e w = (r\<lparr>hr_result := e\<rparr>, th_body_out (nw_http w), tcp_http_reset w)"

text \<open>The end of a request: the answer is judged, the connection closed and the session reset.\<close>

definition http_finish :: "net_http_response \<Rightarrow> net_world \<Rightarrow> u32 \<Rightarrow> u16 \<Rightarrow> u16 \<Rightarrow> http_answer" where
  "http_finish r w ip local_port port =
     (let s = nw_http w in
      if \<not> th_header_done s then http_fail r NET_HTTP_ERR_TIMEOUT w
      else if \<not> th_status_valid s then http_fail r NET_HTTP_ERR_PROTOCOL w
      else let r1 = r\<lparr>hr_status_code := th_status_code s, hr_body_len := th_body_total s,
                      hr_body_truncated := th_body_truncated s, hr_result := NET_HTTP_OK\<rparr>;
               w1 = (if th_established s
                     then snd (send_tcp_packet resolve_target_mac w ip local_port port (th_seq_local s) (th_seq_remote s)
                                 (TCP_FLAG_FIN OR TCP_FLAG_ACK) [] (ucast (th_seq_local s)))
                     else w)
           in (r1, th_body_out (nw_http w1), tcp_http_reset w1))"

definition http_exchange :: "net_http_response \<Rightarrow> net_world \<Rightarrow> u32 \<Rightarrow> u16 \<Rightarrow> u16 \<Rightarrow> u32 \<Rightarrow> u8 list \<Rightarrow> http_answer" where
  "http_exchange r w ip local_port port limit request =
     (if length request = 0 \<or> length request + 1 \<ge> 384 then http_fail r NET_HTTP_ERR_PROTOCOL w
      else case send_tcp_packet resolve_target_mac w ip local_port port (th_seq_local (nw_http w)) (th_seq_remote (nw_http w))
                  (TCP_FLAG_ACK OR TCP_FLAG_PSH) request (ucast (th_seq_local (nw_http w))) of
             (False, w1) \<Rightarrow> http_fail r NET_HTTP_ERR_TIMEOUT w1
           | (True, w1) \<Rightarrow>
               let w2 = on_http (\<lambda>s. s\<lparr>th_seq_local := th_seq_local s + of_nat (length request)\<rparr>) w1;
                   w3 = wait_until (nw_ticks w2) limit (\<lambda>w. th_failed (nw_http w) \<or> th_fin_seen (nw_http w)) w2
               in if th_failed (nw_http w3) then http_fail r NET_HTTP_ERR_PROTOCOL w3
                  else http_finish r w3 ip local_port port)"

definition http_run :: "net_http_response \<Rightarrow> net_world \<Rightarrow> u32 \<Rightarrow> u16 \<Rightarrow> u32 \<Rightarrow> u8 list \<Rightarrow> u8 list option \<Rightarrow> nat \<Rightarrow> http_answer" where
  "http_run r w ip port limit request body body_size =
     (let w1 = http_open w ip port body body_size; local_port = th_local_port (nw_http w1)
      in case send_syn w1 ip local_port port (th_seq_local (nw_http w1)) of
           (False, w2) \<Rightarrow> http_fail r NET_HTTP_ERR_TIMEOUT w2
         | (True, w2) \<Rightarrow>
             let w3 = on_http (\<lambda>s. s\<lparr>th_seq_local := th_seq_local s + 1, th_connect_sent_ticks := nw_ticks w2\<rparr>) w2
             in case connect_loop (length (nw_env w3)) (nw_ticks w3) limit ip local_port port 0 w3 of
                  (False, w4) \<Rightarrow> http_fail r NET_HTTP_ERR_PROTOCOL w4
                | (True, w4) \<Rightarrow>
                    if \<not> th_established (nw_http w4) then http_fail r NET_HTTP_ERR_TIMEOUT w4
                    else http_exchange r w4 ip local_port port limit request)"

text \<open>
  The return value, and what the call leaves: the response record, the body buffer and the new state.
\<close>

definition net_http_get ::
  "net_world \<Rightarrow> u8 list \<Rightarrow> u32 \<Rightarrow> u8 list option \<Rightarrow> nat \<Rightarrow> net_http_response \<Rightarrow> net_http_result \<times> http_answer"
where
  "net_http_get w url timeout_ms body body_size r0 =
     (if timeout_ms = 0 then (NET_HTTP_ERR_INVALID_ARG, (r0, body, w))
      else let r = blank_response in
        case parse_http_url url (replicate 128 0) 128 of
          Inl e \<Rightarrow> (e, (r\<lparr>hr_result := e\<rparr>, body, w))
        | Inr (host, port, path) \<Rightarrow>
            if \<not> cfg_link_up (nw_cfg w) then (NET_HTTP_ERR_LINK_DOWN, (r\<lparr>hr_result := NET_HTTP_ERR_LINK_DOWN\<rparr>, body, w))
            else if cfg_ip (nw_cfg w) = 0 then (NET_HTTP_ERR_NO_IP, (r\<lparr>hr_result := NET_HTTP_ERR_NO_IP\<rparr>, body, w))
            else (case net_resolve_ipv4 w host timeout_ms of
                    (None, w1) \<Rightarrow> (NET_HTTP_ERR_DNS_FAILED, (r\<lparr>hr_result := NET_HTTP_ERR_DNS_FAILED\<rparr>, body, w1))
                  | (Some ip, w1) \<Rightarrow>
                      let body1 = (case body of Some b \<Rightarrow> Some (if body_size > 0 then b[0 := 0] else b) | None \<Rightarrow> None);
                          answer = http_run (r\<lparr>hr_resolved_ip := ip, hr_port := port\<rparr>) w1 ip port (timeout_ticks w1 timeout_ms)
                                     (http_request_text host port path) body1 body_size
                      in (hr_result (fst answer), answer)))"

end
