(* ===== verification/Net_Stream.thy ===== *)
theory Net_Stream
  imports Net_Session Net_Client
begin

text \<open>
  The contract of \<open>session_contract\<close> for the stream of a server: whatever arrives, the session is what
  feeding a prefix of the stream makes of it.
\<close>

section \<open>The stream invariant\<close>

text \<open>The session without the marks of the transport.\<close>

definition session_content :: "tcp_http_session \<Rightarrow> tcp_http_session" where
  "session_content s = s\<lparr>th_connecting := False, th_established := False, th_failed := False, th_fin_seen := False,
     th_seq_local := 0, th_seq_remote := 0, th_connect_sent_ticks := 0, th_last_activity_ticks := 0\<rparr>"

lemma append_char_content: "append_char (session_content s) c = session_content (append_char s c)"
  by (auto simp: append_char_def session_content_def Let_def split: option.splits)

lemma append_body_content: "tcp_http_append_body (session_content s) d = session_content (tcp_http_append_body s d)"
proof -
  have f: "foldl append_char (session_content s) d = session_content (foldl append_char s d)" for s
    by (induction d arbitrary: s) (simp_all add: append_char_content)
  have t: "(session_content s)\<lparr>th_body_total := t\<rparr> = session_content (s\<lparr>th_body_total := t\<rparr>)" "th_body_total (session_content s) = th_body_total s" for s t
    by (simp_all add: session_content_def)
  have "end_body (session_content s) = session_content (end_body s)" for s
    by (auto simp: end_body_def session_content_def split: option.splits)
  then show ?thesis by (simp add: append_body_eq t f)
qed

lemma session_content_fields:
  "th_header_done (session_content s) = th_header_done s" "th_header_buf (session_content s) = th_header_buf s"
  "th_header_len (session_content s) = th_header_len s"
  by (simp_all add: session_content_def)

lemma feed_header_content:
  "session_content (fst (feed_header (session_content s) d)) = session_content (fst (feed_header s d)) \<and> snd (feed_header (session_content s) d) = snd (feed_header s d)"
proof (induction s d rule: feed_header.induct)
  case (2 s c cs)
  let ?n = "th_header_len s + 1"
  let ?s1 = "s\<lparr>th_header_buf := (th_header_buf s)[?n - 1 := c, ?n := 0], th_header_len := ?n\<rparr>"
  have n: "th_header_len (session_content s) = th_header_len s" by (simp add: session_content_def)
  have 1: "(session_content s)\<lparr>th_header_buf := (th_header_buf (session_content s))[?n - 1 := c, ?n := 0], th_header_len := ?n\<rparr> = session_content ?s1"
    by (simp add: session_content_def)
  have p: "session_content (tcp_http_parse_status_line ((session_content t)\<lparr>th_header_done := True\<rparr>))
      = session_content (tcp_http_parse_status_line (t\<lparr>th_header_done := True\<rparr>))" for t
    by (simp add: tcp_http_parse_status_line_def session_content_def Let_def)
  have f: "session_content ((session_content s)\<lparr>th_failed := True\<rparr>) = session_content (s\<lparr>th_failed := True\<rparr>)" by (simp add: session_content_def)
  show ?case
  proof (cases "?n < 1024")
    case True
    have L: "feed_header (session_content s) (c # cs) = (if header_ends (th_header_buf (session_content ?s1)) ?n
        then (tcp_http_parse_status_line ((session_content ?s1)\<lparr>th_header_done := True\<rparr>), cs) else feed_header (session_content ?s1) cs)"
      using True by (simp only: feed_header.simps(2) Let_def n 1 if_True)
    have R: "feed_header s (c # cs) = (if header_ends (th_header_buf ?s1) ?n
        then (tcp_http_parse_status_line (?s1\<lparr>th_header_done := True\<rparr>), cs) else feed_header ?s1 cs)"
      using True by (simp add: Let_def)
    show ?thesis
    proof (cases "header_ends (th_header_buf ?s1) ?n")
      case True
      then show ?thesis unfolding L R session_content_fields using p [of ?s1] by simp
    next
      case False
      then show ?thesis unfolding L R session_content_fields using 2(1) [OF \<open>?n < 1024\<close> refl refl False] by simp
    qed
  next
    case False
    then show ?thesis using f n by simp
  qed
qed (simp add: session_content_def)

lemma feed_content: "session_content (tcp_http_feed_data (session_content s) d) = session_content (tcp_http_feed_data s d)"
proof (cases "d = [] \<or> th_header_done s")
  case True
  then show ?thesis by (auto simp: tcp_http_feed_data_def append_body_content session_content_fields) (simp_all add: session_content_def)
next
  case False
  obtain s1 r where 1: "feed_header s d = (s1, r)" by fastforce
  obtain s2 r2 where 2: "feed_header (session_content s) d = (s2, r2)" by fastforce
  have e: "session_content s2 = session_content s1" "r2 = r" using feed_header_content [of s d] 1 2 by simp_all
  have h: "th_header_done s2 = th_header_done s1" using arg_cong [OF e(1), of th_header_done] by (simp add: session_content_fields)
  have b: "session_content (tcp_http_append_body s2 r) = session_content (tcp_http_append_body s1 r)"
    using arg_cong [OF e(1), of "\<lambda>s. tcp_http_append_body s r"] by (simp add: append_body_content)
  show ?thesis using False 1 2 e h b by (simp add: tcp_http_feed_data_def session_content_fields)
qed

lemma feed_cong: "session_content s = session_content t \<Longrightarrow> session_content (tcp_http_feed_data s d) = session_content (tcp_http_feed_data t d)"
  using feed_content [of s d] feed_content [of t d] by simp

text \<open>
  What a segment of the connection may carry: the answer to the opening names the initial number, data is
  a piece of the stream at its place, and the end of the connection stands behind the whole stream.
\<close>

definition honest :: "u32 \<Rightarrow> u8 list \<Rightarrow> segment \<Rightarrow> bool" where
  "honest isn stream g \<longleftrightarrow> length stream < 2 ^ 32 - 2
     \<and> (sg_flags g AND TCP_FLAG_SYN \<noteq> 0 \<and> sg_flags g AND TCP_FLAG_ACK \<noteq> 0 \<longrightarrow> sg_seq g = isn)
     \<and> (sg_data g \<noteq> [] \<longrightarrow> (\<exists>k. sg_seq g = isn + 1 + of_nat k \<and> k + length (sg_data g) \<le> length stream
          \<and> sg_data g = take (length (sg_data g)) (drop k stream)))
     \<and> (sg_flags g AND TCP_FLAG_FIN \<noteq> 0 \<longrightarrow> sg_seq g + of_nat (length (sg_data g)) = isn + 1 + of_nat (length stream))"

definition received :: "u32 \<Rightarrow> u8 list \<Rightarrow> tcp_http_session \<Rightarrow> nat \<Rightarrow> tcp_http_session \<Rightarrow> bool" where
  "received isn stream s0 m s \<longleftrightarrow> m \<le> length stream \<and> session_content s = session_content (tcp_http_feed_data s0 (take m stream))
     \<and> (th_established s \<longrightarrow> \<not> th_connecting s \<and> (th_seq_remote s = isn + 1 + of_nat m
          \<or> m = length stream \<and> th_seq_remote s = isn + 1 + of_nat m + 1))
     \<and> (\<not> th_established s \<longrightarrow> m = 0)"

lemma u32_nat_eq: "a < 2 ^ 32 \<Longrightarrow> b < 2 ^ 32 \<Longrightarrow> (of_nat a :: u32) = of_nat b \<longleftrightarrow> a = b"
  by (simp add: word_unat_eq_iff unat_of_nat)

lemma received_cong:
  assumes "received isn stream s0 m s" "session_content s' = session_content s" "th_established s' = th_established s"
    "th_seq_remote s' = th_seq_remote s" "th_connecting s' = th_connecting s"
  shows "received isn stream s0 m s'"
  using assms by (simp add: received_def)

lemma received_data:
  assumes r: "received isn stream s0 m s" and g: "honest isn stream g" and e: "th_established s"
    and d: "sg_data g \<noteq> []" "sg_seq g = th_seq_remote s"
  shows "received isn stream s0 (m + length (sg_data g))
    (tcp_http_feed_data (s\<lparr>th_seq_remote := th_seq_remote s + of_nat (length (sg_data g))\<rparr>) (sg_data g))"
proof -
  let ?d = "sg_data g" and ?s = "s\<lparr>th_seq_remote := th_seq_remote s + of_nat (length (sg_data g))\<rparr>"
  obtain k where k: "sg_seq g = isn + 1 + of_nat k" "k + length ?d \<le> length stream" "?d = take (length ?d) (drop k stream)"
    using g d(1) by (auto simp: honest_def)
  have N: "length stream < 2 ^ 32 - 2" using g by (simp add: honest_def)
  have m: "m \<le> length stream" and c: "session_content s = session_content (tcp_http_feed_data s0 (take m stream))"
    and q: "th_seq_remote s = isn + 1 + of_nat m \<or> m = length stream \<and> th_seq_remote s = isn + 1 + of_nat m + 1"
    and nc: "\<not> th_connecting s"
    using r e by (auto simp: received_def)
  have "0 < length ?d" using d(1) by simp
  then have kN: "k < length stream" using k(2) by linarith
  have seq: "th_seq_remote s = isn + 1 + of_nat m" and km: "k = m"
  proof -
    from q consider "th_seq_remote s = isn + 1 + of_nat m" | "m = length stream" "th_seq_remote s = isn + 1 + of_nat (m + 1)"
      by (auto simp: add.assoc)
    then have "th_seq_remote s = isn + 1 + of_nat m \<and> k = m"
    proof cases
      case 1
      then have "(of_nat k :: u32) = of_nat m" using d(2) k(1) by simp
      then have "k = m" using u32_nat_eq [of k m] kN m N by simp
      then show ?thesis using 1 by simp
    next
      case 2
      then have "(of_nat k :: u32) = of_nat (m + 1)" using d(2) k(1) by simp
      then have "k = m + 1" using u32_nat_eq [of k "m + 1"] kN 2 N by simp
      then show ?thesis using kN 2 by simp
    qed
    then show "th_seq_remote s = isn + 1 + of_nat m" "k = m" by simp_all
  qed
  have t: "take (m + length ?d) stream = take m stream @ ?d" using k(3) km by (metis take_add)
  have "session_content ?s = session_content (tcp_http_feed_data s0 (take m stream))" using c by (simp add: session_content_def)
  then have "session_content (tcp_http_feed_data ?s ?d) = session_content (tcp_http_feed_data s0 (take (m + length ?d) stream))"
    unfolding t http_feed_step [symmetric] by (rule feed_cong)
  moreover have "th_established (tcp_http_feed_data ?s ?d)" "\<not> th_connecting (tcp_http_feed_data ?s ?d)"
      "th_seq_remote (tcp_http_feed_data ?s ?d) = th_seq_remote ?s"
    using feed_transport [of ?s ?d] e nc by simp_all
  ultimately show ?thesis using k(2) km seq by (simp add: received_def)
qed

lemma received_fin:
  assumes r: "received isn stream s0 m s" and g: "honest isn stream g" and e: "th_established s"
    and f: "sg_flags g AND TCP_FLAG_FIN \<noteq> 0"
  shows "received isn stream s0 m (s\<lparr>th_seq_remote := if sg_seq g + of_nat (length (sg_data g)) = th_seq_remote s
      then th_seq_remote s + 1 else th_seq_remote s, th_fin_seen := True\<rparr>)"
proof -
  have N: "length stream < 2 ^ 32 - 2" using g by (simp add: honest_def)
  have m: "m \<le> length stream"
    and q: "th_seq_remote s = isn + 1 + of_nat m \<or> m = length stream \<and> th_seq_remote s = isn + 1 + of_nat (m + 1)"
    using r e by (auto simp: received_def add.assoc)
  have z: "sg_seq g + of_nat (length (sg_data g)) = isn + 1 + of_nat (length stream)" using g f by (simp add: honest_def)
  have "m = length stream \<and> th_seq_remote s = isn + 1 + of_nat m"
    if "sg_seq g + of_nat (length (sg_data g)) = th_seq_remote s"
  proof -
    have i: "isn + 1 + of_nat (length stream) = th_seq_remote s" using that z by simp
    from q show ?thesis
    proof
      assume a: "th_seq_remote s = isn + 1 + of_nat m"
      then have "(of_nat (length stream) :: u32) = of_nat m" using i by simp
      then show ?thesis using a u32_nat_eq [of "length stream" m] m N by simp
    next
      assume a: "m = length stream \<and> th_seq_remote s = isn + 1 + of_nat (m + 1)"
      then have "(of_nat (length stream) :: u32) = of_nat (length stream + 1)" using i by simp
      then show ?thesis using u32_nat_eq [of "length stream" "length stream + 1"] N by simp
    qed
  qed
  then show ?thesis using r by (auto simp: received_def session_content_def)
qed

lemma received_peer: "received isn stream s0 m s \<Longrightarrow> mine s g = mine s0 g"
proof -
  assume "received isn stream s0 m s"
  then have c: "session_content s = session_content (tcp_http_feed_data s0 (take m stream))" by (simp add: received_def)
  have f: "th_active (session_content t) = th_active t" "th_remote_ip (session_content t) = th_remote_ip t"
    "th_remote_port (session_content t) = th_remote_port t" "th_local_port (session_content t) = th_local_port t" for t
    by (simp_all add: session_content_def)
  show ?thesis
    using arg_cong [OF c, of th_active] arg_cong [OF c, of th_remote_ip] arg_cong [OF c, of th_remote_port]
      arg_cong [OF c, of th_local_port] feed_peer [of s0 "take m stream"]
    unfolding f by (simp add: mine_def same_peer_def)
qed

definition stream_inv :: "u32 \<Rightarrow> u8 list \<Rightarrow> tcp_http_session \<Rightarrow> nat \<Rightarrow> tcp_http_session \<Rightarrow> bool" where
  "stream_inv isn stream s0 lo s \<longleftrightarrow> (\<exists>m \<ge> lo. received isn stream s0 m s)"

lemma stream_cong:
  assumes "stream_inv isn stream s0 lo s" "session_content s' = session_content s" "th_established s' = th_established s"
    "th_seq_remote s' = th_seq_remote s" "th_connecting s' = th_connecting s"
  shows "stream_inv isn stream s0 lo s'"
  using assms received_cong unfolding stream_inv_def by blast

definition stream_good :: "u32 \<Rightarrow> u8 list \<Rightarrow> tcp_http_session \<Rightarrow> segment \<Rightarrow> bool" where
  "stream_good isn stream s0 g \<longleftrightarrow> (mine s0 g \<longrightarrow> honest isn stream g)"

interpretation server: session_contract "stream_inv isn stream s0 lo" "stream_good isn stream s0"
proof unfold_locales
  fix s t assume "stream_inv isn stream s0 lo s"
  then show "stream_inv isn stream s0 lo (s\<lparr>th_last_activity_ticks := t\<rparr>)"
    by (rule stream_cong) (simp_all add: session_content_def)
next
  fix s n assume "stream_inv isn stream s0 lo s"
  then show "stream_inv isn stream s0 lo (s\<lparr>th_seq_local := n\<rparr>)"
    by (rule stream_cong) (simp_all add: session_content_def)
next
  fix s t assume "stream_inv isn stream s0 lo s"
  then show "stream_inv isn stream s0 lo (s\<lparr>th_connect_sent_ticks := t\<rparr>)"
    by (rule stream_cong) (simp_all add: session_content_def)
next
  fix s assume "stream_inv isn stream s0 lo s"
  then show "stream_inv isn stream s0 lo (s\<lparr>th_failed := True\<rparr>)"
    by (rule stream_cong) (simp_all add: session_content_def)
next
  fix s g
  assume a: "stream_inv isn stream s0 lo s" "stream_good isn stream s0 g" "mine s g" "th_connecting s"
    "sg_flags g AND TCP_FLAG_SYN \<noteq> 0" "sg_flags g AND TCP_FLAG_ACK \<noteq> 0"
  then obtain m where m: "received isn stream s0 m s" "lo \<le> m" by (auto simp: stream_inv_def)
  have "sg_seq g = isn" using a received_peer [OF m(1)] by (simp add: stream_good_def honest_def)
  moreover have z: "m = 0" "lo = 0" using m a(4) by (auto simp: received_def)
  ultimately have "received isn stream s0 0 (s\<lparr>th_seq_remote := sg_seq g + 1, th_connecting := False, th_established := True\<rparr>)"
    using m by (simp add: received_def session_content_def)
  then show "stream_inv isn stream s0 lo (s\<lparr>th_seq_remote := sg_seq g + 1, th_connecting := False, th_established := True\<rparr>)"
    using z(2) by (auto simp: stream_inv_def)
next
  fix s g
  assume a: "stream_inv isn stream s0 lo s" "stream_good isn stream s0 g" "mine s g" "th_established s" "sg_data g \<noteq> []"
    "sg_seq g = th_seq_remote s"
  then obtain m where m: "received isn stream s0 m s" "lo \<le> m" by (auto simp: stream_inv_def)
  have "honest isn stream g" using a received_peer [OF m(1)] by (simp add: stream_good_def)
  from received_data [OF m(1) this a(4-6)]
  show "stream_inv isn stream s0 lo (tcp_http_feed_data (s\<lparr>th_seq_remote := th_seq_remote s + of_nat (length (sg_data g))\<rparr>) (sg_data g))"
    using m(2) unfolding stream_inv_def by (intro exI [of _ "m + length (sg_data g)"]) simp
next
  fix s g
  assume a: "stream_inv isn stream s0 lo s" "stream_good isn stream s0 g" "mine s g" "th_established s"
    "sg_flags g AND TCP_FLAG_FIN \<noteq> 0"
  then obtain m where m: "received isn stream s0 m s" "lo \<le> m" by (auto simp: stream_inv_def)
  have "honest isn stream g" using a received_peer [OF m(1)] by (simp add: stream_good_def)
  from received_fin [OF m(1) this a(4,5)] m(2)
  show "stream_inv isn stream s0 lo (s\<lparr>th_seq_remote := if sg_seq g + of_nat (length (sg_data g)) = th_seq_remote s
      then th_seq_remote s + 1 else th_seq_remote s, th_fin_seen := True\<rparr>)"
    by (auto simp: stream_inv_def)
qed

section \<open>A whole request\<close>

context session_contract
begin

lemma keeps_syn:
  assumes "world_ok J good w"
  shows "world_ok J good (snd (send_syn w ip lp port q))"
  using send_tcp_kept [OF assms] by (simp add: send_syn_def)

lemma keeps_retry:
  assumes w: "world_ok J good w"
  shows "world_ok J good (snd (syn_retry ip lp port retries w))"
proof -
  obtain ok w1 where s: "send_syn w ip lp port (th_seq_local (nw_http w) - 1) = (ok, w1)" by fastforce
  have "world_ok J good w1" using keeps_syn [OF w, of ip lp port "th_seq_local (nw_http w) - 1"] s by simp
  then have "world_ok J good (on_http (\<lambda>s. s\<lparr>th_connect_sent_ticks := t\<rparr>) w1)" for t
    using sender(2) by (simp add: world_ok_def)
  with w \<open>world_ok J good w1\<close> show ?thesis by (simp add: syn_retry_def Let_def s split: bool.split)
qed

lemma keeps_connect: "world_ok J good w \<Longrightarrow> world_ok J good (snd (connect_loop n start limit ip lp port retries w))"
proof (induction n arbitrary: w retries)
  case 0
  have t: "world_ok J good (w\<lparr>nw_ticks := start + limit\<rparr>)" using 0 by (simp add: world_ok_def)
  then show ?case using 0 keeps_retry [OF t] by (simp add: Let_def)
next
  case (Suc n)
  define w1 where "w1 = (if nw_env w = [] then w\<lparr>nw_ticks := start + limit\<rparr> else net_poll w)"
  have w1: "world_ok J good w1"
    using Suc.prems keepsD [OF keeps_net_poll Suc.prems] by (simp add: w1_def world_ok_def)
  obtain r2 w2 where r: "syn_retry ip lp port retries w1 = (r2, w2)" by fastforce
  have w2: "world_ok J good w2" using keeps_retry [OF w1, of ip lp port retries] r by simp
  have "connect_loop (Suc n) start limit ip lp port retries w = (if \<not> nw_ticks w - start < limit then (True, w)
      else if th_established (nw_http w1) then (True, w1) else if th_failed (nw_http w1) then (False, w1)
      else if nw_env w = [] then (True, w2) else connect_loop n start limit ip lp port r2 w2)"
    by (simp only: connect_loop.simps Let_def w1_def [symmetric] r prod.case)
  then show ?case using Suc.prems w1 w2 Suc.IH [OF w2, of r2] by simp
qed

end

text \<open>What the invariant says of the fields that a request reports.\<close>

lemma received_report:
  assumes "received isn stream s0 m s"
  defines "t \<equiv> tcp_http_feed_data s0 (take m stream)"
  shows "th_header_done s = th_header_done t" "th_status_code s = th_status_code t" "th_body_out s = th_body_out t"
    "th_body_total s = th_body_total t" "th_body_truncated s = th_body_truncated t"
proof -
  have c: "session_content s = session_content t" using assms by (simp add: received_def)
  have f: "th_header_done (session_content t) = th_header_done t" "th_status_code (session_content t) = th_status_code t"
    "th_body_out (session_content t) = th_body_out t" "th_body_total (session_content t) = th_body_total t"
    "th_body_truncated (session_content t) = th_body_truncated t" for t
    by (simp_all add: session_content_def)
  show "th_header_done s = th_header_done t" "th_status_code s = th_status_code t" "th_body_out s = th_body_out t"
    "th_body_total s = th_body_total t" "th_body_truncated s = th_body_truncated t"
    using arg_cong [OF c, of th_header_done] arg_cong [OF c, of th_status_code] arg_cong [OF c, of th_body_out]
      arg_cong [OF c, of th_body_total] arg_cong [OF c, of th_body_truncated]
    unfolding f by simp_all
qed

abbreviation kept_from :: "u32 \<Rightarrow> u8 list \<Rightarrow> tcp_http_session \<Rightarrow> nat \<Rightarrow> net_world \<Rightarrow> bool" where
  "kept_from isn stream s0 lo \<equiv> world_ok (stream_inv isn stream s0 lo) (stream_good isn stream s0)"

lemma http_fail_result: "hr_result (fst (http_fail r e w)) = e"
  by (simp add: http_fail_def)

lemma http_finish_prefix:
  assumes w: "kept_from isn stream s0 lo w" and f: "http_finish r w ip lp port = (r', body', w')" "hr_result r' = NET_HTTP_OK"
  shows "\<exists>m m'. lo \<le> m \<and> m \<le> m' \<and> m' \<le> length stream \<and> (let s = tcp_http_feed_data s0 (take m stream) in
    th_header_done s \<and> hr_status_code r' = th_status_code s \<and> hr_body_len r' = th_body_total s
    \<and> hr_body_truncated r' = th_body_truncated s \<and> body' = th_body_out (tcp_http_feed_data s0 (take m' stream)))"
proof -
  obtain m where m: "received isn stream s0 m (nw_http w)" "lo \<le> m" using w by (auto simp: world_ok_def stream_inv_def)
  let ?s = "nw_http w"
  let ?w1 = "if th_established ?s then snd (send_tcp_packet resolve_target_mac w ip lp port (th_seq_local ?s) (th_seq_remote ?s)
      (TCP_FLAG_FIN OR TCP_FLAG_ACK) [] (ucast (th_seq_local ?s))) else w"
  have h: "th_header_done ?s" "th_status_valid ?s"
    using f http_fail_result [of r NET_HTTP_ERR_TIMEOUT w] http_fail_result [of r NET_HTTP_ERR_PROTOCOL w]
    by (auto simp: http_finish_def Let_def split: if_splits)
  have r: "r' = r\<lparr>hr_status_code := th_status_code ?s, hr_body_len := th_body_total ?s,
      hr_body_truncated := th_body_truncated ?s, hr_result := NET_HTTP_OK\<rparr>" and b: "body' = th_body_out (nw_http ?w1)"
    using f(1) h unfolding http_finish_def Let_def by simp_all
  have lo: "kept_from isn stream s0 m w" using w m by (auto simp: world_ok_def stream_inv_def)
  have "kept_from isn stream s0 m ?w1" using lo server.send_tcp_kept [OF lo] by simp
  then obtain m' where m': "received isn stream s0 m' (nw_http ?w1)" "m \<le> m'" by (auto simp: world_ok_def stream_inv_def)
  have "m' \<le> length stream" using m'(1) by (simp add: received_def)
  then show ?thesis
    using m m' h r b received_report [OF m(1)] received_report [OF m'(1)]
    by (intro exI [of _ m] exI [of _ m']) (simp add: Let_def)
qed

lemma http_run_prefix:
  assumes "\<forall>e \<in> set (nw_env w). \<forall>f \<in> set (snd e). frame_ok (stream_good isn stream (nw_http (http_open w ip port body body_size))) f"
    and "http_run r w ip port limit request body body_size = (r', body', w')" "hr_result r' = NET_HTTP_OK"
  shows "\<exists>m m'. m \<le> m' \<and> m' \<le> length stream
    \<and> (let s0 = nw_http (http_open w ip port body body_size); s = tcp_http_feed_data s0 (take m stream) in
        th_header_done s \<and> hr_status_code r' = th_status_code s \<and> hr_body_len r' = th_body_total s
        \<and> hr_body_truncated r' = th_body_truncated s \<and> body' = th_body_out (tcp_http_feed_data s0 (take m' stream)))"
proof -
  let ?w1 = "http_open w ip port body body_size"
  let ?s0 = "nw_http ?w1"
  let ?lp = "th_local_port ?s0"
  have "received isn stream ?s0 0 ?s0" by (simp add: received_def tcp_http_feed_data_def http_open_def http_zero_def)
  then have ok1: "kept_from isn stream ?s0 0 ?w1"
    using assms(1) by (auto simp: world_ok_def stream_inv_def http_open_def tcp_http_reset_def)
  obtain ok2 w2 where s2: "send_syn ?w1 ip ?lp port (th_seq_local ?s0) = (ok2, w2)" by fastforce
  have k2: "kept_from isn stream ?s0 0 w2" using server.keeps_syn [OF ok1, of ip ?lp port "th_seq_local ?s0"] s2 by simp
  let ?w3 = "on_http (\<lambda>s. s\<lparr>th_seq_local := th_seq_local s + 1, th_connect_sent_ticks := nw_ticks w2\<rparr>) w2"
  have k3: "kept_from isn stream ?s0 0 ?w3" using k2 server.sender [of isn stream ?s0 0] by (simp add: world_ok_def)
  obtain ok4 w4 where s4: "connect_loop (length (nw_env ?w3)) (nw_ticks ?w3) limit ip ?lp port 0 ?w3 = (ok4, w4)" by fastforce
  have k4: "kept_from isn stream ?s0 0 w4"
    using server.keeps_connect [OF k3, of "length (nw_env ?w3)" "nw_ticks ?w3" limit ip ?lp port 0] s4 by simp
  have run: "http_exchange r w4 ip ?lp port limit request = (r', body', w')"
    using assms(2,3) http_fail_result
    by (cases ok2; cases ok4) (auto simp: http_run_def Let_def s2 s4 [simplified] http_fail_def split: if_splits)
  obtain ok5 w5 where s5: "send_tcp_packet resolve_target_mac w4 ip ?lp port (th_seq_local (nw_http w4)) (th_seq_remote (nw_http w4))
      (TCP_FLAG_ACK OR TCP_FLAG_PSH) request (ucast (th_seq_local (nw_http w4))) = (ok5, w5)" by fastforce
  have k5: "kept_from isn stream ?s0 0 w5" using server.send_tcp_kept [OF k4] s5 by (metis snd_conv)
  let ?w6 = "on_http (\<lambda>s. s\<lparr>th_seq_local := th_seq_local s + of_nat (length request)\<rparr>) w5"
  have k6: "kept_from isn stream ?s0 0 ?w6" using k5 server.sender [of isn stream ?s0 0] by (simp add: world_ok_def)
  let ?w7 = "wait_until (nw_ticks ?w6) limit (\<lambda>w. th_failed (nw_http w) \<or> th_fin_seen (nw_http w)) ?w6"
  have k7: "kept_from isn stream ?s0 0 ?w7" using keepsD [OF server.keeps_wait_until k6] by simp
  have fin: "http_finish r ?w7 ip ?lp port = (r', body', w')"
    using run assms(3) by (cases ok5) (auto simp: http_exchange_def Let_def s5 [simplified] http_fail_def split: if_splits)
  show ?thesis using http_finish_prefix [OF k7 fin assms(3)] by (simp add: Let_def)
qed

text \<open>
  What a request reports, if it reports success, and the reports that prefixes of a stream give: the
  status, the length and the mark of truncation, and the body buffer, which may have run ahead.
\<close>

definition http_report :: "http_answer \<Rightarrow> (u16 \<times> u32 \<times> bool \<times> u8 list option) option" where
  "http_report a =
     (case a of (r, body, _) \<Rightarrow>
        if hr_result r = NET_HTTP_OK then Some (hr_status_code r, hr_body_len r, hr_body_truncated r, body) else None)"

definition prefix_report :: "tcp_http_session \<Rightarrow> u8 list \<Rightarrow> nat \<Rightarrow> nat \<Rightarrow> u16 \<times> u32 \<times> bool \<times> u8 list option" where
  "prefix_report s0 stream m m' =
     (let s = tcp_http_feed_data s0 (take m stream)
      in (th_status_code s, th_body_total s, th_body_truncated s, th_body_out (tcp_http_feed_data s0 (take m' stream))))"

text \<open>
  C4: An HTTP request never reports anything but a beginning of what the server sent.  Let the segments of the
  connection carry pieces of one stream at their places, in any order, repeated, lost or mixed
  with any other traffic, also while an address is being resolved; then a request that reports success reports
  the status, the body and its length that feeding a prefix of the stream to a fresh session gives.
\<close>

theorem http_get_prefix:
  assumes "\<forall>e \<in> set (nw_env w). \<forall>f \<in> set (snd e). frame_ok (stream_good isn stream (nw_http (http_open w ip port body body_size))) f"
  shows "set_option (http_report (http_run r w ip port limit request body body_size))
    \<subseteq> {prefix_report (nw_http (http_open w ip port body body_size)) stream m m' | m m'. m \<le> m' \<and> m' \<le> length stream}"
proof -
  obtain r' body' w' where run: "http_run r w ip port limit request body body_size = (r', body', w')" by (metis prod_cases3)
  show ?thesis
  proof (cases "hr_result r' = NET_HTTP_OK")
    case True
    from http_run_prefix [OF assms run True] True show ?thesis
      by (auto simp: run http_report_def prefix_report_def Let_def)
  qed (simp add: run http_report_def)
qed

text \<open>A server that answers in two segments, the second with the end of the connection, sent twice.\<close>

definition demo_frame :: "u32 \<Rightarrow> u8 \<Rightarrow> u8 list \<Rightarrow> u8 list \<times> nat" where
  "demo_frame seq flags body =
     (replicate 12 0 @ [8, 0] @ [0x45, 0, 0, of_nat (40 + length body), 0, 0, 0, 0, 64, 6, 0, 0, 10, 0, 0, 1, 10, 0, 0, 2]
      @ [0, 80, 0xC0, 0, 0, 0, 0, ucast seq, 0, 0, 0, 0, 0x50, flags, 0, 0, 0, 0, 0, 0] @ body, 54 + length body)"

definition demo_stream :: "u8 list" where
  "demo_stream = [65, 32, 50, 48, 48, 13, 10, 13, 10, 104, 105]"

definition server_frames :: "(u8 list \<times> nat) list" where
  "server_frames = [demo_frame 7 0x12 [], demo_frame 8 0x10 (take 4 demo_stream), demo_frame 8 0x10 (take 4 demo_stream),
     demo_frame 12 0x11 (drop 4 demo_stream)]"

definition demo_world :: net_world where
  "demo_world = \<lparr>nw_cfg = \<lparr>cfg_mac = replicate 6 2, cfg_ip = 0x0A000002, cfg_subnet = 0, cfg_gateway = 0, cfg_dns = 0,
       cfg_link_up = True, cfg_dhcp_configured = False\<rparr>,
     nw_arp = \<lparr>ac_valid = True, ac_ip = 0x0A000001, ac_mac = replicate 6 1\<rparr>,
     nw_ping = \<lparr>pg_waiting = False, pg_ident = 0, pg_seq = 0, pg_target = 0, pg_sent_ticks = 0, pg_got_reply = False, pg_rtt_ms = 0\<rparr>,
     nw_dhcp = \<lparr>dc_waiting_offer = False, dc_waiting_ack = False, dc_xid = 0, dc_offered_ip = 0, dc_server_ip = 0,
       dc_subnet = 0, dc_router = 0, dc_dns = 0\<rparr>,
     nw_dns = \<lparr>dn_waiting = False, dn_got_reply = False, dn_xid = 0, dn_result_ip = 0\<rparr>,
     nw_http = http_zero, nw_tcp_tx_buf = [], nw_ticks = 0, nw_freq = 100, nw_env = map (\<lambda>f. (1, [f])) server_frames,
     nw_tx = [], nw_sent = []\<rparr>"

lemma demo_segments: "map frame_segment server_frames =
  map (\<lambda>(q, f, d). Some \<lparr>sg_src_ip = 0x0A000001, sg_src_port = 80, sg_dst_port = 49152, sg_seq = q, sg_flags = f, sg_data = d\<rparr>)
    [(7, 0x12, []), (8, 0x10, take 4 demo_stream), (8, 0x10, take 4 demo_stream), (12, 0x11, drop 4 demo_stream)]"
  by code_simp

lemma demo_honest: "f \<in> set server_frames \<Longrightarrow> frame_ok (stream_good 7 demo_stream s) f"
proof -
  assume f: "f \<in> set server_frames"
  have n: "length demo_stream = 11" by (simp add: demo_stream_def)
  have "honest 7 demo_stream \<lparr>sg_src_ip = 0x0A000001, sg_src_port = 80, sg_dst_port = 49152, sg_seq = q, sg_flags = fl, sg_data = d\<rparr>"
    if "(q, fl, d) \<in> {(7, 0x12, []), (8, 0x10, take 4 demo_stream), (12, 0x11, drop 4 demo_stream)}" for q fl d
    using that n by (auto simp: honest_def intro: exI [of _ 0] exI [of _ 4])
  moreover have "frame_segment f \<in> set (map frame_segment server_frames)" using f by simp
  ultimately show ?thesis unfolding demo_segments by (auto simp: frame_ok_def stream_good_def)
qed

theorem http_get_prefix_witness:
  "set_option (http_report (http_run blank_response demo_world 0x0A000001 80 100 [71] (Some [7, 7, 7, 7]) 4))
    \<subseteq> {prefix_report (nw_http (http_open demo_world 0x0A000001 80 (Some [7, 7, 7, 7]) 4)) demo_stream m m' | m m'. m \<le> m' \<and> m' \<le> 11}"
proof -
  have n: "length demo_stream = 11" by (simp add: demo_stream_def)
  have "\<forall>e \<in> set (nw_env demo_world). \<forall>f \<in> set (snd e). frame_ok (stream_good 7 demo_stream s) f" for s
    by (auto simp: demo_world_def intro: demo_honest)
  from http_get_prefix [where w = demo_world and isn = 7 and stream = demo_stream and ip = "0x0A000001" and port = 80
      and body = "Some [7, 7, 7, 7]" and body_size = 4 and r = blank_response and limit = 100 and request = "[71]", OF this]
  show ?thesis unfolding n .
qed

end
