(* ===== verification/Net_Props.thy ===== *)
theory Net_Props
  imports Net_Stream
begin

text \<open>
  Further properties of the network stack: the waits do not depend on their fuel, address resolution between
  two hosts, and two ways in which the handlers go wrong.
\<close>

section \<open>Waiting\<close>

text \<open>No operation adds to the environment, and none looks at the resolver on a world with more of it.\<close>

definition shrinks :: "(net_world \<Rightarrow> net_world) \<Rightarrow> bool" where
  "shrinks f \<longleftrightarrow> (\<forall>w. length (nw_env (f w)) \<le> length (nw_env w))"

definition agree :: "nat \<Rightarrow> resolver \<Rightarrow> resolver \<Rightarrow> bool" where
  "agree k res res' \<longleftrightarrow> (\<forall>dst w. length (nw_env w) \<le> k \<longrightarrow> res dst w = res' dst w)"

lemma shrinksD: "shrinks f \<Longrightarrow> length (nw_env (f w)) \<le> length (nw_env w)"
  by (simp add: shrinks_def)

lemma shrinks_ipv4:
  assumes "\<And>dst. shrinks (\<lambda>w. snd (res dst w))"
  shows "length (nw_env (snd (send_ipv4_packet res w dst proto pl n ident))) \<le> length (nw_env w)"
  using shrinksD [OF assms, of dst w] send_ipv4_shape [of res dst w proto pl n ident] by auto

lemma shrinks_tcp:
  assumes "\<And>dst. shrinks (\<lambda>w. snd (res dst w))"
  shows "length (nw_env (snd (send_tcp_packet res w dst sp dp q a f pl ident))) \<le> length (nw_env w)"
proof (cases "20 + length pl > 1600")
  case False
  let ?w1 = "w\<lparr>nw_tcp_tx_buf := blit (nw_tcp_tx_buf w) 0 (tcp_segment (cfg_ip (nw_cfg w)) dst sp dp q a f pl) (20 + length pl)\<rparr>"
  show ?thesis using False shrinks_ipv4 [OF assms, where w = ?w1 and dst = dst and proto = IP_PROTO_TCP and pl = nw_tcp_tx_buf and n = "20 + length pl"
        and ident = ident]
    by (simp add: send_tcp_packet_def Let_def)
qed (simp add: send_tcp_packet_def)

lemma shrinks_segment:
  assumes "\<And>dst. shrinks (\<lambda>w. snd (res dst w))"
  shows "length (nw_env (segment_in res w g)) \<le> length (nw_env w)"
proof -
  have a: "length (nw_env (send_tcp_ack res w)) \<le> length (nw_env w)" for w
    using shrinks_tcp [OF assms] by (simp add: send_tcp_ack_def Let_def)
  have d: "length (nw_env (tcp_data res w q d)) \<le> length (nw_env w)" for w q d
    using a [of "on_http (\<lambda>s. tcp_http_feed_data (s\<lparr>th_seq_remote := th_seq_remote s + of_nat (length d)\<rparr>) d) w"]
    by (simp add: tcp_data_def)
  have f: "length (nw_env (tcp_fin res w q n)) \<le> length (nw_env w)" for w q n
    unfolding tcp_fin_def by (rule order_trans [OF a]) simp
  let ?w1 = "on_http (\<lambda>s. s\<lparr>th_last_activity_ticks := nw_ticks w\<rparr>) w"
  have "length (nw_env (tcp_fin res (tcp_data res ?w1 (sg_seq g) (sg_data g)) (sg_seq g) (length (sg_data g)))) \<le> length (nw_env ?w1)"
    using order_trans [OF f d] .
  then show ?thesis
    using d [of ?w1 "sg_seq g" "sg_data g"]
      a [of "on_http (\<lambda>s. s\<lparr>th_seq_remote := sg_seq g + 1, th_connecting := False, th_established := True\<rparr>) ?w1"]
    by (simp add: segment_in_def Let_def)
qed

lemma shrinks_icmp:
  assumes "\<And>dst. shrinks (\<lambda>w. snd (res dst w))"
  shows "length (nw_env (handle_icmp res w ip p n)) \<le> length (nw_env w)"
  using shrinks_ipv4 [OF assms] by (simp add: handle_icmp_def Let_def)

lemma shrinks_frame:
  assumes "\<And>dst. shrinks (\<lambda>w. snd (res dst w))"
  shows "length (nw_env (net_on_frame res w f)) \<le> length (nw_env w)"
proof -
  have t: "length (nw_env (handle_tcp res w ip p n)) \<le> length (nw_env w)" for ip p n
    using shrinks_segment [OF assms] by (simp add: handle_tcp_segment split: option.split)
  have "length (nw_env (handle_ipv4 res w p n)) \<le> length (nw_env w)" for p n
    using t shrinks_icmp [OF assms] by (simp add: handle_ipv4_def Let_def net_quiet)
  then show ?thesis by (simp add: net_on_frame_def Let_def net_quiet split: prod.split)
qed

lemma shrinks_frames:
  assumes "\<And>dst. shrinks (\<lambda>w. snd (res dst w))"
  shows "length (nw_env (foldl (net_on_frame res) w fs)) \<le> length (nw_env w)"
proof (induction fs arbitrary: w)
  case (Cons f fs)
  show ?case using order_trans [OF Cons.IH shrinks_frame [OF assms]] by simp
qed simp

lemma shrinks_poll:
  assumes "\<And>dst. shrinks (\<lambda>w. snd (res dst w))" "nw_env w \<noteq> []"
  shows "length (nw_env (poll_with res w)) < length (nw_env w)"
proof -
  obtain dt fs env where e: "nw_env w = (dt, fs) # env" using assms(2) by (cases "nw_env w") auto
  have "length (nw_env (foldl (net_on_frame res) (w\<lparr>nw_env := env, nw_ticks := nw_ticks w + dt\<rparr>) fs)) \<le> length env"
    using shrinks_frames [where res = res, OF assms(1), where w = "w\<lparr>nw_env := env, nw_ticks := nw_ticks w + dt\<rparr>" and fs = fs] by simp
  then show ?thesis by (simp add: poll_with_def e Let_def)
qed

lemma shrinks_resolve:
  assumes "\<And>start limit stop. shrinks (wait start limit stop)"
  shows "shrinks (\<lambda>w. snd (resolve_with wait dst w))"
  unfolding shrinks_def
proof
  fix w
  have "length (nw_env (wait s l st (send_arp_request w r))) \<le> length (nw_env w)" for s l st r
    using shrinksD [OF assms, of s l st "send_arp_request w r"] by (simp add: net_quiet)
  then show "length (nw_env (snd (resolve_with wait dst w))) \<le> length (nw_env w)" by (simp add: resolve_with_def Let_def)
qed

lemma shrinks_wait: "shrinks (wait_loop n start limit stop)"
proof (induction n arbitrary: start limit stop)
  case (Suc n)
  show ?case
    unfolding shrinks_def
  proof
    fix w
    let ?w1 = "poll_with (resolve_with (wait_loop n)) w"
    have "shrinks (\<lambda>w. snd (resolve_with (wait_loop n) dst w))" for dst
      by (rule shrinks_resolve) (rule Suc)
    from shrinks_poll [where res = "resolve_with (wait_loop n)", OF this]
    have "length (nw_env ?w1) \<le> length (nw_env w)" if "nw_env w \<noteq> []"
      using that by fastforce
    with shrinksD [OF Suc, of start limit stop ?w1]
    show "length (nw_env (wait_loop (Suc n) start limit stop w)) \<le> length (nw_env w)"
      by (auto simp: Let_def intro: order_trans)
  qed
qed (simp add: shrinks_def)

lemma agree_ipv4:
  assumes "agree k res res'" "length (nw_env w) \<le> k"
  shows "send_ipv4_packet res w dst proto pl n ident = send_ipv4_packet res' w dst proto pl n ident"
  using assms by (simp add: agree_def send_ipv4_packet_def)

lemma agree_ack:
  assumes "agree k res res'" "length (nw_env w) \<le> k"
  shows "send_tcp_ack res w = send_tcp_ack res' w"
  using assms agree_ipv4 [OF assms(1)] by (simp add: send_tcp_ack_def send_tcp_packet_def Let_def)

lemma agree_frame:
  assumes a: "agree k res res'" and k: "length (nw_env w) \<le> k" and s: "\<And>dst. shrinks (\<lambda>w. snd (res' dst w))"
  shows "net_on_frame res w f = net_on_frame res' w f"
proof -
  have data: "tcp_data res w q d = tcp_data res' w q d" if "length (nw_env w) \<le> k" for w q d
    using agree_ack [OF a] that by (simp add: tcp_data_def)
  have fin: "tcp_fin res w q n = tcp_fin res' w q n" if "length (nw_env w) \<le> k" for w q n
    using agree_ack [OF a] that by (simp add: tcp_fin_def)
  have ack: "length (nw_env (send_tcp_ack res' w)) \<le> length (nw_env w)" for w
    using shrinks_tcp [OF s] by (simp add: send_tcp_ack_def Let_def)
  have d: "length (nw_env (tcp_data res' w q d)) \<le> length (nw_env w)" for w q d
    using ack [of "on_http (\<lambda>s. tcp_http_feed_data (s\<lparr>th_seq_remote := th_seq_remote s + of_nat (length d)\<rparr>) d) w"]
    by (simp add: tcp_data_def)
  let ?w1 = "on_http (\<lambda>s. s\<lparr>th_last_activity_ticks := nw_ticks w\<rparr>) w"
  have "segment_in res w g = segment_in res' w g" for g
  proof -
    have "length (nw_env (tcp_data res' ?w1 (sg_seq g) (sg_data g))) \<le> k" using order_trans [OF d] k by simp
    note f = fin [OF this]
    show ?thesis using k agree_ack [OF a] data [of ?w1] f by (simp add: segment_in_def Let_def)
  qed
  then have t: "handle_tcp res w ip p n = handle_tcp res' w ip p n" for ip p n
    by (simp add: handle_tcp_segment split: option.split)
  have "handle_icmp res w ip p n = handle_icmp res' w ip p n" for ip p n
    unfolding handle_icmp_def Let_def by (simp only: agree_ipv4 [OF a k])
  then have "handle_ipv4 res w p n = handle_ipv4 res' w p n" for p n
    unfolding handle_ipv4_def Let_def by (simp only: t)
  then show ?thesis unfolding net_on_frame_def Let_def by (simp only:)
qed

lemma agree_frames:
  assumes a: "agree k res res'" and s: "\<And>dst. shrinks (\<lambda>w. snd (res' dst w))"
  shows "length (nw_env w) \<le> k \<Longrightarrow> foldl (net_on_frame res) w fs = foldl (net_on_frame res') w fs"
proof (induction fs arbitrary: w)
  case (Cons f fs)
  have "length (nw_env (net_on_frame res' w f)) \<le> k" using shrinks_frame [where res = res' and w = w and f = f, OF s] Cons.prems by simp
  from Cons.IH [OF this] show ?case using agree_frame [OF a Cons.prems s] by simp
qed simp

lemma agree_poll:
  assumes "agree k res res'" "\<And>dst. shrinks (\<lambda>w. snd (res' dst w))" "length (nw_env w) \<le> Suc k"
  shows "poll_with res w = poll_with res' w"
  using assms(3) agree_frames [OF assms(1,2)] by (auto simp: poll_with_def Let_def split: list.split)

lemma agree_resolve:
  assumes "\<And>start limit stop w. length (nw_env w) \<le> k \<Longrightarrow> wait start limit stop w = wait' start limit stop w"
  shows "agree k (resolve_with wait) (resolve_with wait')"
  using assms by (simp add: agree_def resolve_with_def Let_def net_quiet)

lemma wait_fuel:
  "length (nw_env w) \<le> n \<Longrightarrow> length (nw_env w) \<le> m \<Longrightarrow> wait_loop n start limit stop w = wait_loop m start limit stop w"
proof (induction n arbitrary: m start limit stop w)
  case 0
  then show ?case by (cases m) simp_all
next
  case (Suc n)
  show ?case
  proof (cases "nw_env w = []")
    case True
    then show ?thesis by (cases m) simp_all
  next
    case False
    then obtain m' where m: "m = Suc m'" using Suc.prems(2) by (cases m) auto
    let ?k = "length (nw_env w) - 1"
    have "agree ?k (resolve_with (wait_loop n)) (resolve_with (wait_loop m'))"
      by (rule agree_resolve, rule Suc.IH) (use Suc.prems m in auto)
    from agree_poll [OF this shrinks_resolve [OF shrinks_wait]]
    have p: "poll_with (resolve_with (wait_loop n)) w = poll_with (resolve_with (wait_loop m')) w" by simp
    let ?w1 = "poll_with (resolve_with (wait_loop m')) w"
    have "length (nw_env ?w1) < length (nw_env w)" using shrinks_poll [OF shrinks_resolve [OF shrinks_wait] False] .
    then have "wait_loop n start limit stop ?w1 = wait_loop m' start limit stop ?w1"
      by (intro Suc.IH) (use Suc.prems m in auto)
    then show ?thesis using False m p by (simp add: Let_def)
  qed
qed

lemma wait_until_fuel: "length (nw_env w) \<le> n \<Longrightarrow> wait_loop n start limit stop w = wait_until start limit stop w"
  unfolding wait_until_def by (rule wait_fuel) simp_all


section \<open>Address resolution\<close>

lemma bytes_at_take: "off + n \<le> length p \<Longrightarrow> bytes_at p off n = take n (drop off p)"
  by (rule nth_equalityI) (simp_all add: bytes_at_def rd_in)

lemma bit_bswap16: "n < 16 \<Longrightarrow> bit (bswap16 x) n = (if n < 8 then bit x (n + 8) else bit x (n - 8))"
  by (auto simp: bswap16_def bit_simps add.commute dest: bit_imp_le_length)

lemma bswap16_inv: "bswap16 (bswap16 x) = x"
  by (rule bit_word_eqI) (auto simp: bit_bswap16)

lemma bit_bswap32:
  assumes "n < 32"
  shows "bit (bswap32 x) n = (if n < 8 then bit x (n + 24) else if n < 16 then bit x (n + 8)
    else if n < 24 then bit x (n - 8) else bit x (n - 24))"
proof -
  have mask: "(0xFF00 :: u32) = push_bit 8 (mask 8)" "(0xFF0000 :: u32) = push_bit 16 (mask 8)"
    by (simp_all add: mask_eq_exp_minus_1 push_bit_eq_mult)
  have l: "bit x k \<Longrightarrow> k < 32" for k using bit_imp_le_length [of x k] by simp
  show ?thesis using assms unfolding bswap32_def mask
    by (cases "n < 8"; cases "n < 16"; cases "n < 24") (auto simp: bit_simps add.commute dest: l)
qed

lemma bswap32_inv: "bswap32 (bswap32 x) = x"
proof (rule bit_word_eqI)
  fix n
  assume "n < LENGTH(32)"
  then have n: "n < 32" by simp
  show "bit (bswap32 (bswap32 x)) n = bit x n"
    using n by (cases "n < 8"; cases "n < 16"; cases "n < 24") (auto simp: bit_bswap32)
qed

lemma ntohs_htons [simp]: "ntohs (htons x) = x"
  by (simp add: ntohs_def htons_def bswap16_inv)

lemma ntohl_htonl [simp]: "ntohl (htonl x) = x"
  by (simp add: ntohl_def htonl_def bswap32_inv)

lemma eth_of_bytes:
  assumes "length (eth_dst h) = 6" "length (eth_src h) = 6"
  shows "eth_of (eth_bytes h @ p) = h \<and> drop 14 (eth_bytes h @ p) = p"
proof -
  have "length (eth_bytes h) = 14" using assms by (simp add: eth_bytes_def)
  then show ?thesis using assms by (simp add: eth_of_def bytes_at_take eth_bytes_def)
qed

lemma arp_of_bytes:
  assumes "length (arp_sender_mac a) = 6" "length (arp_target_mac a) = 6"
  shows "arp_of (arp_bytes a @ p) = a"
  using assms by (simp add: arp_of_def bytes_at_take arp_bytes_def rd_def nth_append)


text \<open>What the card sends for a payload: the payload behind its header, padded to the smallest frame.\<close>

lemma send_frame_to_free_card:
  assumes "cfg_link_up (nw_cfg w)" "nw_tx w = []" "length pl \<le> 1500"
  shows "\<exists>pad. send_frame w dst type pl =
    (True, w\<lparr>nw_sent := nw_sent w @ [eth_bytes \<lparr>eth_dst = dst, eth_src = cfg_mac (nw_cfg w), eth_ethertype = htons type\<rparr> @ pl @ pad]\<rparr>)"
proof -
  let ?f = "eth_bytes \<lparr>eth_dst = dst, eth_src = cfg_mac (nw_cfg w), eth_ethertype = htons type\<rparr> @ pl"
  let ?pad = "if length ?f < 60 then replicate (60 - length ?f) 0 else []"
  have "(if length ?f < 60 then ?f @ replicate (60 - length ?f) 0 else ?f) = ?f @ ?pad" by simp
  then show ?thesis using assms
    by (intro exI [of _ ?pad]) (simp add: send_frame_def nic_send_def Let_def)
qed

lemma arp_frame_handled:
  assumes "length m = 6" "length s = 6" "length (arp_sender_mac a) = 6" "length (arp_target_mac a) = 6"
    "f = eth_bytes \<lparr>eth_dst = m, eth_src = s, eth_ethertype = htons ETH_TYPE_ARP\<rparr> @ arp_bytes a @ pad"
    "arp_hw_type a = htons 1" "arp_proto_type a = htons ETH_TYPE_IPV4" "arp_hw_len a = 6" "arp_proto_len a = 4"
  shows "net_on_frame res w (f, length f) =
    (let w1 = w\<lparr>nw_arp := \<lparr>ac_valid = True, ac_ip = ntohl (arp_sender_ip a), ac_mac = arp_sender_mac a\<rparr>\<rparr>
     in if ntohs (arp_op a) = ARP_OP_REQUEST \<and> cfg_ip (nw_cfg w) \<noteq> 0 \<and> ntohl (arp_target_ip a) = cfg_ip (nw_cfg w)
        then send_arp_reply w1 (arp_sender_mac a) (ntohl (arp_sender_ip a)) else w1)"
proof -
  define h where "h = \<lparr>eth_dst = m, eth_src = s, eth_ethertype = htons ETH_TYPE_ARP\<rparr>"
  have e: "eth_of f = h" "drop 14 f = arp_bytes a @ pad"
    using eth_of_bytes [of h "arp_bytes a @ pad"] assms(1,2) unfolding assms(5) h_def [symmetric] by (simp_all add: h_def)
  have n: "length f = 42 + length pad" using assms(1-4) by (simp add: assms(5) eth_bytes_def arp_bytes_def)
  have p: "arp_of (arp_bytes a @ pad) = a" using arp_of_bytes assms(3,4) .
  show ?thesis
    by (simp add: net_on_frame_def e n handle_arp_def p assms(6-9) h_def Let_def)
qed

text \<open>
  Two hosts resolve each other.  When one host asks for the address of another, the other one's handler of
  the request remembers the asker and answers, and the asker's handler of the answer puts the hardware address
  of the other host in its cache.
\<close>

theorem arp_resolves:
  assumes "cfg_link_up (nw_cfg a)" "nw_tx a = []" "length (cfg_mac (nw_cfg a)) = 6"
    and "cfg_link_up (nw_cfg b)" "nw_tx b = []" "length (cfg_mac (nw_cfg b)) = 6" "cfg_ip (nw_cfg b) \<noteq> 0"
  shows "let a1 = send_arp_request a (cfg_ip (nw_cfg b)); request = last (nw_sent a1);
           b1 = net_on_frame res b (request, length request); reply = last (nw_sent b1);
           a2 = net_on_frame res' a1 (reply, length reply)
    in arp_hit (cfg_ip (nw_cfg a)) b1 \<and> ac_mac (nw_arp b1) = cfg_mac (nw_cfg a)
       \<and> arp_hit (cfg_ip (nw_cfg b)) a2 \<and> ac_mac (nw_arp a2) = cfg_mac (nw_cfg b)"
proof -
  define q where "q = arp_message a ARP_OP_REQUEST (replicate 6 0) (cfg_ip (nw_cfg b))"
  have lq: "length (arp_bytes q) \<le> 1500" using assms by (simp add: q_def arp_message_def arp_bytes_def)
  obtain pad where a1: "send_arp_request a (cfg_ip (nw_cfg b)) = a\<lparr>nw_sent := nw_sent a @ [eth_bytes
      \<lparr>eth_dst = replicate 6 0xFF, eth_src = cfg_mac (nw_cfg a), eth_ethertype = htons ETH_TYPE_ARP\<rparr> @ arp_bytes q @ pad]\<rparr>"
    using send_frame_to_free_card [OF assms(1,2) lq, of "replicate 6 0xFF" ETH_TYPE_ARP]
    by (auto simp: send_arp_request_def q_def)
  define fq where "fq = eth_bytes \<lparr>eth_dst = replicate 6 0xFF, eth_src = cfg_mac (nw_cfg a), eth_ethertype = htons ETH_TYPE_ARP\<rparr>
    @ arp_bytes q @ pad"
  define b0 where "b0 = b\<lparr>nw_arp := \<lparr>ac_valid = True, ac_ip = cfg_ip (nw_cfg a), ac_mac = cfg_mac (nw_cfg a)\<rparr>\<rparr>"
  have b1: "net_on_frame res b (fq, length fq) = send_arp_reply b0 (cfg_mac (nw_cfg a)) (cfg_ip (nw_cfg a))"
    using assms arp_frame_handled [where f = fq and pad = pad and a = q and res = res and w = b, OF _ assms(3) _ _ fq_def]
    by (simp add: q_def arp_message_def b0_def)
  define r where "r = arp_message b0 ARP_OP_REPLY (cfg_mac (nw_cfg a)) (cfg_ip (nw_cfg a))"
  have lr: "length (arp_bytes r) \<le> 1500" using assms by (simp add: r_def b0_def arp_message_def arp_bytes_def)
  obtain pad' where b1': "send_arp_reply b0 (cfg_mac (nw_cfg a)) (cfg_ip (nw_cfg a)) = b0\<lparr>nw_sent := nw_sent b0 @ [eth_bytes
      \<lparr>eth_dst = cfg_mac (nw_cfg a), eth_src = cfg_mac (nw_cfg b), eth_ethertype = htons ETH_TYPE_ARP\<rparr> @ arp_bytes r @ pad']\<rparr>"
    using send_frame_to_free_card [of b0 "arp_bytes r" "cfg_mac (nw_cfg a)" ETH_TYPE_ARP] assms lr
    by (auto simp: send_arp_reply_def r_def b0_def)
  define fr where "fr = eth_bytes \<lparr>eth_dst = cfg_mac (nw_cfg a), eth_src = cfg_mac (nw_cfg b), eth_ethertype = htons ETH_TYPE_ARP\<rparr>
    @ arp_bytes r @ pad'"
  have a2: "net_on_frame res' (a\<lparr>nw_sent := nw_sent a @ [fq]\<rparr>) (fr, length fr) =
      a\<lparr>nw_sent := nw_sent a @ [fq], nw_arp := \<lparr>ac_valid = True, ac_ip = cfg_ip (nw_cfg b), ac_mac = cfg_mac (nw_cfg b)\<rparr>\<rparr>"
    using assms arp_frame_handled [where f = fr and pad = pad' and a = r and res = res' and w = "a\<lparr>nw_sent := nw_sent a @ [fq]\<rparr>",
        OF assms(3,6) _ _ fr_def]
    by (simp add: r_def arp_message_def b0_def)
  show ?thesis
    unfolding a1 fq_def [symmetric] Let_def
    by (simp add: b1 b1' fr_def [symmetric] a2) (simp add: b0_def arp_hit_def)
qed

theorem arp_resolves_witness:
  "let b = demo_world\<lparr>nw_cfg := (nw_cfg demo_world)\<lparr>cfg_ip := 0x0A000009, cfg_mac := [9, 9, 9, 9, 9, 9]\<rparr>\<rparr>;
       a1 = send_arp_request demo_world (cfg_ip (nw_cfg b)); request = last (nw_sent a1);
       b1 = net_on_frame resolve_target_mac b (request, length request); reply = last (nw_sent b1);
       a2 = net_on_frame resolve_target_mac a1 (reply, length reply)
    in arp_hit (cfg_ip (nw_cfg demo_world)) b1 \<and> ac_mac (nw_arp b1) = cfg_mac (nw_cfg demo_world)
       \<and> arp_hit (cfg_ip (nw_cfg b)) a2 \<and> ac_mac (nw_arp a2) = cfg_mac (nw_cfg b)"
  unfolding Let_def
  by (rule arp_resolves [unfolded Let_def]) (simp_all add: demo_world_def)

section \<open>Answers that are not there\<close>

lemma dhcp_of_bytes:
  assumes "length (dh_chaddr d) = 16" "length (dh_sname d) = 64" "length (dh_file d) = 128" "length (dh_options d) = 312"
  shows "dhcp_of (dhcp_bytes d) = d"
  using assms by (simp add: dhcp_of_def bytes_at_take dhcp_bytes_def rd_def nth_append)

lemma mem_eq_prefix: "n \<le> length m \<Longrightarrow> mem_eq (m @ x) m n"
  by (simp add: mem_eq_def for_find_None_iff rd_def nth_append)

definition dhcp_for :: "net_world \<Rightarrow> u8 list \<Rightarrow> u32 \<Rightarrow> u8 list \<Rightarrow> dhcp_packet" where
  "dhcp_for w mac ip behind = \<lparr>dh_op = 2, dh_htype = 1, dh_hlen = 6, dh_hops = 0, dh_xid = htonl (dc_xid (nw_dhcp w)), dh_secs = 0,
     dh_flags = 0, dh_ciaddr = 0, dh_yiaddr = htonl ip, dh_siaddr = 0, dh_giaddr = 0,
     dh_chaddr = mac @ replicate 10 0, dh_sname = replicate 64 0, dh_file = replicate 128 0, dh_cookie = htonl 0x63825363,
     dh_options = behind\<rparr>"

text \<open>
  The options of a DHCP packet are read behind its end.  A packet that ends with the fixed part has no
  option and so no message type; but the loop is bounded by the size of the option array, not by the length of
  the packet, so the bytes that an earlier, longer packet left in the receive buffer decide: four of them
  are enough to make it an acknowledgement that sets the address of the host, and an end mark makes it nothing.
\<close>

theorem dhcp_reads_behind_packet:
  assumes "dc_waiting_ack (nw_dhcp w)" "length (cfg_mac (nw_cfg w)) = 6" "length stale = 308"
  shows "let packet = (\<lambda>behind. dhcp_bytes (dhcp_for w (cfg_mac (nw_cfg w)) ip (behind @ stale)))
    in cfg_ip (nw_cfg (handle_dhcp w (packet [53, 1, 5, 255]) DHCP_FIXED)) = ip
       \<and> nw_cfg (handle_dhcp w (packet [255, 1, 5, 255]) DHCP_FIXED) = nw_cfg w"
proof -
  have d: "dhcp_of (dhcp_bytes (dhcp_for w (cfg_mac (nw_cfg w)) ip (b @ stale))) = dhcp_for w (cfg_mac (nw_cfg w)) ip (b @ stale)"
    if "length b = 4" for b
    using assms that by (intro dhcp_of_bytes) (simp_all add: dhcp_for_def)
  have m: "mem_eq (cfg_mac (nw_cfg w) @ x) (cfg_mac (nw_cfg w)) 6" for x
    using assms by (intro mem_eq_prefix) simp
  have ack: "dhcp_options_loop (53 # 1 # 5 # 255 # stale) 0 st = (5, snd st)" for st
    by (cases st) (simp add: dhcp_options_loop.simps dhcp_option_def rd_def)
  have no: "dhcp_options_loop (255 # xs) 0 st = st" for xs st
    by (simp add: dhcp_options_loop.simps rd_def)
  show ?thesis using assms(1)
    by (simp add: handle_dhcp_def d [of "[_, _, _, _]", simplified])
      (simp add: dhcp_for_def m ack no Let_def split: prod.split)
qed

text \<open>
  C28: A page can be cut without a sign of it.  A segment that ends the connection and does not come in order,
  because one before it was lost, marks the stream as ended all the same; the request then reports success,
  with the part of the body that had arrived and without the mark of a truncated body.
\<close>

theorem http_fin_truncates:
  assumes "segment_of hdr p n = Some g" "mine (nw_http w) g" "th_established (nw_http w)" "\<not> th_connecting (nw_http w)"
    and "sg_flags g AND TCP_FLAG_RST = 0" "sg_flags g AND TCP_FLAG_FIN \<noteq> 0" "sg_seq g \<noteq> th_seq_remote (nw_http w)"
    and "th_header_done (nw_http w)" "th_status_valid (nw_http w)" "arp_hit (route_ip (nw_cfg w) (th_remote_ip (nw_http w))) w"
  shows "let w1 = handle_tcp resolve_target_mac w hdr p n; r1 = fst (http_finish r w1 ip lp port)
    in th_fin_seen (nw_http w1) \<and> hr_result r1 = NET_HTTP_OK \<and> hr_body_len r1 = th_body_total (nw_http w)
       \<and> hr_body_truncated r1 = th_body_truncated (nw_http w)"
proof -
  define w1 where "w1 = on_http (\<lambda>s. s\<lparr>th_last_activity_ticks := nw_ticks w\<rparr>) w"
  have data: "tcp_data resolve_target_mac w1 (sg_seq g) (sg_data g) = w1"
    using assms by (simp add: tcp_data_def w1_def)
  have ack: "nw_http (send_tcp_ack resolve_target_mac v) = nw_http v"
    if "arp_hit (route_ip (nw_cfg v) (th_remote_ip (nw_http v))) v" for v
    using that by (simp add: send_tcp_ack_def send_tcp_packet_def send_ipv4_packet_def resolve_target_mac_def resolve_with_def
        arp_hit_def Let_def net_quiet)
  have step: "handle_tcp resolve_target_mac w hdr p n = tcp_fin resolve_target_mac w1 (sg_seq g) (length (sg_data g))"
    using assms data by (simp add: handle_tcp_segment segment_in_def w1_def Let_def)
  define s where "s = nw_http (tcp_fin resolve_target_mac w1 (sg_seq g) (length (sg_data g)))"
  have s: "s = (nw_http w1)\<lparr>th_seq_remote := (if sg_seq g + of_nat (length (sg_data g)) = th_seq_remote (nw_http w1)
      then th_seq_remote (nw_http w1) + 1 else th_seq_remote (nw_http w1)), th_fin_seen := True\<rparr>"
    unfolding s_def tcp_fin_def by (subst ack) (use assms in \<open>simp_all add: w1_def arp_hit_def\<close>)
  have "th_fin_seen s \<and> th_header_done s \<and> th_status_valid s \<and> th_body_total s = th_body_total (nw_http w)
    \<and> th_body_truncated s = th_body_truncated (nw_http w)"
    unfolding s using assms by (simp add: w1_def)
  then show ?thesis unfolding step by (simp add: http_finish_def s_def [symmetric] Let_def)
qed

text \<open>The connection expects byte 9; the segment that ends the stream carries byte 20.\<close>

definition demo_open :: net_world where
  "demo_open = demo_world\<lparr>nw_http := http_zero\<lparr>th_active := True, th_established := True, th_header_done := True, th_status_valid := True,
     th_remote_ip := 0x0A000001, th_remote_port := 80, th_local_port := 0xC000, th_seq_remote := 9, th_body_total := 100\<rparr>\<rparr>"

definition demo_fin :: segment where
  "demo_fin = \<lparr>sg_src_ip = 0x0A000001, sg_src_port = 80, sg_dst_port = 0xC000, sg_seq = 20, sg_flags = 0x11, sg_data = [65]\<rparr>"


theorem dhcp_reads_behind_packet_witness:
  "let w = demo_world\<lparr>nw_dhcp := (nw_dhcp demo_world)\<lparr>dc_waiting_ack := True, dc_xid := 77\<rparr>\<rparr>;
       packet = (\<lambda>behind. dhcp_bytes (dhcp_for w (cfg_mac (nw_cfg w)) 0x0A000063 (behind @ replicate 308 0)))
    in cfg_ip (nw_cfg (handle_dhcp w (packet [53, 1, 5, 255]) DHCP_FIXED)) = 0x0A000063
       \<and> nw_cfg (handle_dhcp w (packet [255, 1, 5, 255]) DHCP_FIXED) = nw_cfg w"
  unfolding Let_def
  by (rule dhcp_reads_behind_packet [unfolded Let_def]) (simp_all add: demo_world_def)

theorem http_fin_truncates_witness:
  "let hdr = ipv4_message 0x0A000001 0x0A000002 IP_PROTO_TCP 21 0 0;
       p = [0, 80, 0xC0, 0, 0, 0, 0, 20, 0, 0, 0, 0, 0x50, 0x11, 0, 0, 0, 0, 0, 0, 65];
       w1 = handle_tcp resolve_target_mac demo_open hdr p 21; r1 = fst (http_finish blank_response w1 0x0A000001 0xC000 80)
    in th_fin_seen (nw_http w1) \<and> hr_result r1 = NET_HTTP_OK \<and> hr_body_len r1 = th_body_total (nw_http demo_open)
       \<and> hr_body_truncated r1 = th_body_truncated (nw_http demo_open)"
proof -
  have g: "segment_of (ipv4_message 0x0A000001 0x0A000002 IP_PROTO_TCP 21 0 0)
      [0, 80, 0xC0, 0, 0, 0, 0, 20, 0, 0, 0, 0, 0x50, 0x11, 0, 0, 0, 0, 0, 0, 65] 21 = Some demo_fin"
    by code_simp
  show ?thesis
    unfolding Let_def
    by (rule http_fin_truncates [unfolded Let_def, OF g])
      (simp_all add: mine_def demo_fin_def demo_open_def demo_world_def http_zero_def arp_hit_def route_ip_def)
qed

end
