(* ===== verification/Command_Args.thy ===== *)
theory Command_Args
  imports Vertex_Base
begin

text \<open>
  The text side of the shell commands in \<^verbatim>\<open>src/core/commands.c\<close>: the argument readers with their
  quotes, the decimal arguments and the command table.

  A \<^verbatim>\<open>const char**\<close> argument is the rest of the line, taken and returned.
\<close>

section \<open>Arguments\<close>

abbreviation BLANK :: u8 where "BLANK \<equiv> 32"
abbreviation BACKSLASH :: u8 where "BACKSLASH \<equiv> 92"

definition strings_equal :: "u8 list \<Rightarrow> u8 list \<Rightarrow> bool" where
  "strings_equal a b = s_eq a b"

definition skip_spaces :: "u8 list \<Rightarrow> u8 list" where
  "skip_spaces s = dropWhile (\<lambda>c. c = BLANK) s"

text \<open>\<^verbatim>\<open>if (i + 1 < out_size) out[i++] = c\<close>.\<close>

definition put_bounded :: "nat \<Rightarrow> nat \<times> u8 list \<Rightarrow> u8 \<Rightarrow> nat \<times> u8 list" where
  "put_bounded out_size io c =
     (case io of (i, out) \<Rightarrow> if i + 1 < out_size then (i + 1, out[i := c]) else (i, out))"

text \<open>The character loop of \<^verbatim>\<open>read_arg\<close>; \<open>0\<close> stands for no quote.\<close>

fun arg_loop :: "nat \<Rightarrow> u8 \<Rightarrow> u8 list \<Rightarrow> nat \<times> u8 list \<Rightarrow> u8 list \<times> nat \<times> u8 list" where
  "arg_loop out_size quote [] io = ([], io)"
| "arg_loop out_size quote (c # s) io =
     (if c = 0 then (c # s, io)
      else if quote \<noteq> 0 then
        (if c = quote then (s, io)
         else if c = BACKSLASH \<and> rd s 0 \<noteq> 0 \<and> (rd s 0 = quote \<or> rd s 0 = BACKSLASH) then
           (case s of [] \<Rightarrow> ([], io) | d # s1 \<Rightarrow> arg_loop out_size quote s1 (put_bounded out_size io d))
         else arg_loop out_size quote s (put_bounded out_size io c))
      else if c = BLANK then (c # s, io)
      else arg_loop out_size quote s (put_bounded out_size io c))"

definition is_quote :: "u8 \<Rightarrow> bool" where
  "is_quote c \<longleftrightarrow> c = 34 \<or> c = 39"

definition read_arg :: "u8 list \<Rightarrow> u8 list \<Rightarrow> nat \<Rightarrow> bool \<times> u8 list \<times> u8 list" where
  "read_arg line out out_size =
     (let s = skip_spaces line in
      if out_size = 0 then (False, line, out)
      else if rd s 0 = 0 then (False, s, out[0 := 0])
      else let (quote, s1) = (if is_quote (rd s 0) then (rd s 0, tl s) else (0, s));
               (s2, i, out1) = arg_loop out_size quote s1 (0, out)
           in (True, s2, out1[i := 0]))"

definition read_text_arg :: "u8 list \<Rightarrow> u8 list \<Rightarrow> nat \<Rightarrow> bool \<times> u8 list \<times> u8 list" where
  "read_text_arg line out out_size =
     (let s = skip_spaces line in
      if out_size = 0 then (False, line, out)
      else if rd s 0 = 0 then (False, s, out[0 := 0])
      else if is_quote (rd s 0) then read_arg line out out_size
      else let i = min (s_len s) (out_size - 1) in (i > 0, drop i s, s_copy out s out_size))"

text \<open>\<^verbatim>\<open>parse_u32_arg\<close>: the value wraps.\<close>

fun parse_u32_loop :: "u8 list \<Rightarrow> u32 \<Rightarrow> u32 option" where
  "parse_u32_loop [] v = Some v"
| "parse_u32_loop (c # s) v =
     (if c = 0 then Some v else if c < 48 \<or> c > 57 then None else parse_u32_loop s (v * 10 + (ucast c - 48)))"

definition parse_u32_arg :: "u8 list \<Rightarrow> u32 option" where
  "parse_u32_arg s = (if rd s 0 = 0 then None else parse_u32_loop s 0)"

section \<open>The command table\<close>

abbreviation MAX_COMMANDS :: nat where "MAX_COMMANDS \<equiv> 48"

text \<open>The handlers, standing for the function pointers of the table.\<close>

datatype command_func =
  Cmd_help | Cmd_clear | Cmd_echo | Cmd_uptime | Cmd_time | Cmd_panic | Cmd_restart | Cmd_shutdown | Cmd_meminfo
  | Cmd_alloc | Cmd_tasks | Cmd_yield | Cmd_syscall | Cmd_ls | Cmd_cat | Cmd_write | Cmd_touch | Cmd_mkdir | Cmd_rm
  | Cmd_cp | Cmd_mv | Cmd_cd | Cmd_pwd | Cmd_setenv | Cmd_getenv | Cmd_unsetenv | Cmd_exec | Cmd_edit
  | Cmd_ifconfig | Cmd_dhcp | Cmd_ping | Cmd_dns | Cmd_http

record command_entry =
  ce_name :: "u8 list"
  ce_usage :: "u8 list"
  ce_summary :: "u8 list"
  ce_func :: command_func

text \<open>The table is the list of the entries in use; the others are never read.\<close>

definition find_command :: "command_entry list \<Rightarrow> u8 list \<Rightarrow> command_entry option" where
  "find_command table name =
     (case for_find (\<lambda>i. strings_equal (ce_name (table ! i)) name) 0 (length table) of
        None \<Rightarrow> None
      | Some i \<Rightarrow> Some (table ! i))"

definition command_register_full ::
  "command_entry list \<Rightarrow> u8 list \<Rightarrow> u8 list option \<Rightarrow> u8 list option \<Rightarrow> command_func \<Rightarrow> bool \<times> command_entry list"
where
  "command_register_full table name usage summary f =
     (if length table \<ge> MAX_COMMANDS \<or> find_command table name \<noteq> None then (False, table)
      else (True, table @ [\<lparr>ce_name = name, ce_usage = (case usage of Some u \<Rightarrow> u | None \<Rightarrow> name),
                             ce_summary = (case summary of Some s \<Rightarrow> s | None \<Rightarrow> []), ce_func = f\<rparr>]))"

definition command_register :: "command_entry list \<Rightarrow> u8 list \<Rightarrow> command_func \<Rightarrow> bool \<times> command_entry list" where
  "command_register table name f = command_register_full table name (Some name) (Some []) f"

definition command_name_at :: "command_entry list \<Rightarrow> nat \<Rightarrow> u8 list option" where
  "command_name_at table index = (if index \<ge> length table then None else Some (ce_name (table ! index)))"

definition builtins :: "(string \<times> string \<times> string \<times> command_func) list" where
  "builtins = [
     (''help'', ''help [command]'', ''Show command list or command help'', Cmd_help),
     (''clear'', ''clear'', ''Clear the screen'', Cmd_clear),
     (''echo'', ''echo [text]'', ''Print text (quotes supported)'', Cmd_echo),
     (''uptime'', ''uptime'', ''Show kernel uptime'', Cmd_uptime),
     (''time'', ''time'', ''Show RTC date/time'', Cmd_time),
     (''panic'', ''panic [message]'', ''Trigger kernel panic'', Cmd_panic),
     (''restart'', ''restart'', ''Reset the machine'', Cmd_restart),
     (''shutdown'', ''shutdown'', ''Power off the machine'', Cmd_shutdown),
     (''meminfo'', ''meminfo'', ''Show PMM and heap usage'', Cmd_meminfo),
     (''alloc'', ''alloc'', ''Run basic allocator self-test'', Cmd_alloc),
     (''tasks'', ''tasks'', ''Show scheduler task state summary'', Cmd_tasks),
     (''yield'', ''yield'', ''Yield CPU to another task'', Cmd_yield),
     (''syscall'', ''syscall'', ''Run int 0x80 syscall demo'', Cmd_syscall),
     (''ls'', ''ls [path]'', ''List directory entries'', Cmd_ls),
     (''cat'', ''cat <path>'', ''Print file contents'', Cmd_cat),
     (''write'', ''write <path> <text>'', ''Write text to file (supports quotes)'', Cmd_write),
     (''touch'', ''touch <path>'', ''Create an empty file'', Cmd_touch),
     (''mkdir'', ''mkdir <path>'', ''Create a directory'', Cmd_mkdir),
     (''rm'', ''rm <path>'', ''Remove file or empty directory'', Cmd_rm),
     (''cp'', ''cp <src> <dst>'', ''Copy file'', Cmd_cp),
     (''mv'', ''mv <src> <dst>'', ''Move/rename file'', Cmd_mv),
     (''cd'', ''cd [path]'', ''Change current directory'', Cmd_cd),
     (''pwd'', ''pwd'', ''Print current directory'', Cmd_pwd),
     (''setenv'', ''setenv <key> <value>'', ''Set terminal-local environment variable'', Cmd_setenv),
     (''getenv'', ''getenv <key>'', ''Read terminal-local environment variable'', Cmd_getenv),
     (''unsetenv'', ''unsetenv <key>'', ''Remove terminal-local environment variable'', Cmd_unsetenv),
     (''exec'', ''exec <elf-path>'', ''Load and run 32-bit ELF from disk'', Cmd_exec),
     (''edit'', ''edit <path> (WIP)'', ''Open console code editor (work in progress)'', Cmd_edit),
     (''ifconfig'', ''ifconfig'', ''Show network interface and IP configuration'', Cmd_ifconfig),
     (''dhcp'', ''dhcp'', ''Request an IPv4 lease using DHCP'', Cmd_dhcp),
     (''ping'', ''ping <ipv4> [timeout_ms]'', ''Send one ICMP echo request'', Cmd_ping),
     (''dns'', ''dns <hostname|ipv4> [timeout_ms]'', ''Resolve hostname to IPv4 (A record)'', Cmd_dns),
     (''http'', ''http get <url> [timeout_ms]'', ''HTTP GET request (Phase 1 bootstrap)'', Cmd_http)]"

definition commands_init :: "command_entry list \<Rightarrow> command_entry list" where
  "commands_init table =
     foldl (\<lambda>t (name, usage, summary, f). snd (command_register_full t (str name) (Some (str usage)) (Some (str summary)) f))
       table builtins"

section \<open>Reading back a quoted argument\<close>

text \<open>How an argument with blanks and quotes is written on the command line.\<close>

fun escape :: "u8 \<Rightarrow> u8 list \<Rightarrow> u8 list" where
  "escape q [] = []"
| "escape q (c # s) = (if c = q \<or> c = BACKSLASH then BACKSLASH # c # escape q s else c # escape q s)"

definition quoted :: "u8 \<Rightarrow> u8 list \<Rightarrow> u8 list" where
  "quoted q s = q # escape q s @ [q]"

definition stored :: "nat \<Rightarrow> nat \<times> u8 list \<Rightarrow> u8 list \<Rightarrow> nat \<times> u8 list" where
  "stored out_size io s = foldl (put_bounded out_size) io s"

lemma stored_Cons [simp]: "stored n io (c # s) = stored n (put_bounded n io c) s" "stored n io [] = io"
  by (simp_all add: stored_def)


text \<open>A character of the argument is taken as it is, whatever follows it.\<close>

lemma arg_loop_escape:
  assumes "is_quote q" "0 \<notin> set s"
  shows "arg_loop n q (escape q s @ q # rest) io = (rest, stored n io s)"
  using assms(2)
proof (induction s arbitrary: io)
  case (Cons c s)
  have q: "q \<noteq> 0" "q \<noteq> BACKSLASH" using assms(1) by (auto simp: is_quote_def)
  show ?case using Cons q by simp
qed (use assms(1) in \<open>auto simp: is_quote_def\<close>)

lemma arg_loop_word:
  assumes "0 \<notin> set s" "BLANK \<notin> set s" "rd rest 0 = 0 \<or> rd rest 0 = BLANK"
  shows "arg_loop n 0 (s @ rest) io = (rest, stored n io s)"
  using assms(1,2)
proof (induction s arbitrary: io)
  case Nil
  then show ?case using assms(3) by (cases rest) auto
qed auto

lemma stored_fits:
  assumes "i < n" "n \<le> length out"
  shows "stored n (i, out) s = (let t = take (n - 1 - i) s in (i + length t, take i out @ t @ drop (i + length t) out))"
  using assms
proof (induction s arbitrary: i out)
  case (Cons c s)
  show ?case
  proof (cases "i + 1 < n")
    case True
    then have "n - 1 - i = Suc (n - 1 - (i + 1))" by simp
    with True Cons.IH [of "i + 1" "out[i := c]"] Cons.prems show ?thesis
      by (simp add: put_bounded_def Let_def take_Suc_conv_app_nth)
  next
    case False
    with Cons.IH [of i out] Cons.prems show ?thesis by (simp add: put_bounded_def Let_def)
  qed
qed simp

lemma stored_from_start:
  assumes "0 < n" "n \<le> length out" "stored n (0, out) s = (i, out1)" "0 \<notin> set s"
  shows "cstr (out1[i := 0]) = take (n - 1) s" "length out1 = length out"
proof -
  let ?t = "take (n - 1) s"
  have e: "i = length ?t" "out1 = ?t @ drop i out"
    using stored_fits [of 0 n out s] assms by (simp_all add: Let_def)
  have "i < length out" using assms(1,2) e(1) by simp
  then have "out1[i := 0] = ?t @ 0 # drop (Suc i) out"
    unfolding e(2) by (simp add: list_update_append e(1) Cons_nth_drop_Suc [symmetric] del: length_take)
  moreover have "0 \<notin> set ?t" using assms(4) by (auto dest: in_set_takeD)
  ultimately show "cstr (out1[i := 0]) = take (n - 1) s" by (simp add: cstr_append_zero)
  show "length out1 = length out" using \<open>i < length out\<close> e by simp
qed

lemma skip_blanks: "rd s 0 \<noteq> BLANK \<Longrightarrow> skip_spaces (replicate k BLANK @ s) = s"
  by (induction k) (auto simp: skip_spaces_def split: list.splits, cases s, auto)

text \<open>
  An argument can be any text.  Written in quotes, with the quote and the backslash escaped, it is
  read back exactly, cut to what the buffer of the command holds, and the reader stops right behind the
  closing quote.
\<close>

theorem read_arg_quoted:
  assumes "is_quote q" "0 \<notin> set s" "0 < n" "n \<le> length out"
  shows "let (ok, line, out1) = read_arg (replicate k BLANK @ quoted q s @ tail) out n
    in ok \<and> line = tail \<and> cstr out1 = take (n - 1) s"
proof -
  have q: "q \<noteq> 0" "q \<noteq> BLANK" using assms(1) by (auto simp: is_quote_def)
  have k: "skip_spaces (replicate k BLANK @ quoted q s @ tail) = q # escape q s @ q # tail"
    using skip_blanks [of "quoted q s @ tail" k] q by (simp add: quoted_def)
  obtain i out1 where st: "stored n (0, out) s = (i, out1)" by (cases "stored n (0, out) s")
  show ?thesis
    using stored_from_start [OF assms(3,4) st assms(2)] assms(1,3) q
    by (simp add: read_arg_def k arg_loop_escape [OF assms(1,2)] st Let_def)
qed

theorem read_arg_quoted_witness:
  "let (ok, line, out1) = read_arg (replicate 2 BLANK @ quoted 34 [97, 34, 32, 92] @ [32, 98]) (replicate 8 0) 8
    in ok \<and> line = [32, 98] \<and> cstr out1 = take (8 - 1) [97, 34, 32, 92]"
  by (rule read_arg_quoted) (simp_all add: is_quote_def)

end
