(* ===== verification/Exec_ELF.thy ===== *)
theory Exec_ELF
  imports VFS Terminal Kernel_Heap
begin

text \<open>
  The program loader \<^verbatim>\<open>src/exec/exec.c\<close>: reading the file, checking the headers, building the
  image and running it, and \<^verbatim>\<open>src/exec/userland.c\<close>.

  The file and the image are byte lists that belong to their heap blocks.  A read behind the file or a write
  outside of the image is not something C gives a meaning to; it is the outcome \<open>Crashed\<close>.  The program that runs is a
  parameter: a function from the image, the entry offset and the machine to the machine it leaves, or \<open>None\<close> when it
  does not return.
\<close>

section \<open>Headers\<close>

abbreviation ELF_MAGIC :: u32 where "ELF_MAGIC \<equiv> 0x464C457F"
abbreviation ELF_PT_LOAD :: u32 where "ELF_PT_LOAD \<equiv> 1"
abbreviation EXEC_IMAGE_LIMIT :: u32 where "EXEC_IMAGE_LIMIT \<equiv> 0x100000"
abbreviation EHDR_SIZE :: nat where "EHDR_SIZE \<equiv> 52"
abbreviation PHDR_SIZE :: nat where "PHDR_SIZE \<equiv> 32"

record elf32_ehdr =
  eh_ident :: "u8 list"
  eh_type :: u16
  eh_machine :: u16
  eh_version :: u32
  eh_entry :: u32
  eh_phoff :: u32
  eh_shoff :: u32
  eh_flags :: u32
  eh_ehsize :: u16
  eh_phentsize :: u16
  eh_phnum :: u16
  eh_shentsize :: u16
  eh_shnum :: u16
  eh_shstrndx :: u16

record elf32_phdr =
  ph_type :: u32
  ph_offset :: u32
  ph_vaddr :: u32
  ph_paddr :: u32
  ph_filesz :: u32
  ph_memsz :: u32
  ph_flags :: u32
  ph_align :: u32

definition ehdr_of :: "u8 list \<Rightarrow> elf32_ehdr" where
  "ehdr_of p = \<lparr>eh_ident = take 16 p, eh_type = le_u16 (drop 16 p), eh_machine = le_u16 (drop 18 p),
     eh_version = le_u32 (drop 20 p), eh_entry = le_u32 (drop 24 p), eh_phoff = le_u32 (drop 28 p),
     eh_shoff = le_u32 (drop 32 p), eh_flags = le_u32 (drop 36 p), eh_ehsize = le_u16 (drop 40 p),
     eh_phentsize = le_u16 (drop 42 p), eh_phnum = le_u16 (drop 44 p), eh_shentsize = le_u16 (drop 46 p),
     eh_shnum = le_u16 (drop 48 p), eh_shstrndx = le_u16 (drop 50 p)\<rparr>"

definition phdr_of :: "u8 list \<Rightarrow> elf32_phdr" where
  "phdr_of p = \<lparr>ph_type = le_u32 p, ph_offset = le_u32 (drop 4 p), ph_vaddr = le_u32 (drop 8 p), ph_paddr = le_u32 (drop 12 p),
     ph_filesz = le_u32 (drop 16 p), ph_memsz = le_u32 (drop 20 p), ph_flags = le_u32 (drop 24 p), ph_align = le_u32 (drop 28 p)\<rparr>"

text \<open>The checks of the file header, in their order; the result is the message of the first that fails.\<close>

definition elf_check :: "u8 list \<Rightarrow> string option" where
  "elf_check file =
     (let eh = ehdr_of file in
      if length file < EHDR_SIZE then Some ''file too small''
      else if le_u32 (eh_ident eh) \<noteq> ELF_MAGIC then Some ''not an ELF file''
      else if rd (eh_ident eh) 4 \<noteq> 1 \<or> rd (eh_ident eh) 5 \<noteq> 1 \<or> rd (eh_ident eh) 6 \<noteq> 1
        then Some ''unsupported ELF class/data/version''
      else if eh_type eh \<noteq> 2 \<or> eh_machine eh \<noteq> 3 then Some ''unsupported ELF type or machine''
      else if eh_phentsize eh \<noteq> 32 \<or> eh_phoff eh + ucast (eh_phnum eh) * 32 > of_nat (length file)
        then Some ''invalid program header table''
      else None)"

definition phdr_at :: "u8 list \<Rightarrow> u32 \<Rightarrow> nat \<Rightarrow> elf32_phdr option" where
  "phdr_at file phoff i =
     (let off = unat (phoff + of_nat i * 32) in
      if off + PHDR_SIZE \<le> length file then Some (phdr_of (drop off file)) else None)"

definition loadable :: "elf32_phdr \<Rightarrow> bool" where
  "loadable ph \<longleftrightarrow> ph_type ph = ELF_PT_LOAD \<and> ph_memsz ph \<noteq> 0"

datatype 'a checked = Good 'a | Rejected string | Faulted

text \<open>The first pass over the program headers: the checks and the address range.\<close>

fun elf_range :: "u8 list \<Rightarrow> u32 \<Rightarrow> nat list \<Rightarrow> u32 \<times> u32 \<Rightarrow> (u32 \<times> u32) checked" where
  "elf_range file phoff [] r = Good r"
| "elf_range file phoff (i # js) (min_vaddr, max_vaddr) =
     (case phdr_at file phoff i of
        None \<Rightarrow> Faulted
      | Some ph \<Rightarrow>
          if \<not> loadable ph then elf_range file phoff js (min_vaddr, max_vaddr)
          else if ph_offset ph + ph_filesz ph > of_nat (length file) \<or> ph_filesz ph > ph_memsz ph
            then Rejected ''invalid load segment''
          else let seg_end = ph_vaddr ph + ph_memsz ph in
            elf_range file phoff js
              (if ph_vaddr ph < min_vaddr then ph_vaddr ph else min_vaddr, if seg_end > max_vaddr then seg_end else max_vaddr))"

text \<open>\<^verbatim>\<open>mem_copy(image + dst, file_data + src, n)\<close> with both blocks bounded.\<close>

definition elf_copy :: "u8 list \<Rightarrow> nat \<Rightarrow> u8 list \<Rightarrow> nat \<Rightarrow> nat \<Rightarrow> u8 list option" where
  "elf_copy img dst file src n =
     (if n = 0 then Some img
      else if dst + n \<le> length img \<and> src + n \<le> length file then Some (blit img dst (drop src file) n) else None)"

fun elf_fill :: "u8 list \<Rightarrow> u32 \<Rightarrow> nat list \<Rightarrow> u32 \<Rightarrow> u8 list \<Rightarrow> u8 list option" where
  "elf_fill file phoff [] min_vaddr img = Some img"
| "elf_fill file phoff (i # js) min_vaddr img =
     (case phdr_at file phoff i of
        None \<Rightarrow> None
      | Some ph \<Rightarrow>
          if \<not> loadable ph then elf_fill file phoff js min_vaddr img
          else (case elf_copy img (unat (ph_vaddr ph - min_vaddr)) file (unat (ph_offset ph)) (unat (ph_filesz ph)) of
                  None \<Rightarrow> None
                | Some img1 \<Rightarrow> elf_fill file phoff js min_vaddr img1))"

section \<open>Running a program\<close>

record 'd exec_world =
  xw_vfs :: "'d vfs_state"
  xw_heap :: heap_state
  xw_disp :: display

datatype 'd exec_outcome = Exited bool "'d exec_world" | Crashed | Running

type_synonym 'd program = "u8 list \<Rightarrow> nat \<Rightarrow> 'd exec_world \<Rightarrow> 'd exec_world option"

function read_all_loop :: "'d block_device \<Rightarrow> 'd vfs_state \<Rightarrow> int \<Rightarrow> nat \<Rightarrow> u8 list \<Rightarrow> u8 list \<times> 'd vfs_state" where
  "read_all_loop dev st fd n acc =
     (if length acc < n then
        (case vfs_read dev st fd (of_nat (n - length acc)) of
           (bs, st1) \<Rightarrow> if bs = [] then (acc, st1) else read_all_loop dev st1 fd n (acc @ bs))
      else (acc, st))"
  by pat_completeness auto
termination
  by (relation "measure (\<lambda>(dev, st, fd, n, acc). n - length acc)") (auto simp: neq_Nil_conv)

declare read_all_loop.simps [simp del]

text \<open>The file and its block; the heap operations return \<open>None\<close> for an address that is no block.\<close>

definition read_file_all ::
  "'d block_device \<Rightarrow> int \<Rightarrow> u8 list \<Rightarrow> 'd exec_world \<Rightarrow> ((u8 list \<times> u32) option \<times> 'd exec_world) option" where
  "read_file_all dev session path w =
     (case vfs_stat_path (xw_vfs w) session path blank_info of
        None \<Rightarrow> Some (None, w)
      | Some info \<Rightarrow>
          if ni_type info \<noteq> SFS_TYPE_FILE then Some (None, w)
          else (case vfs_open dev (xw_vfs w) session path VFS_O_READ of
            (fd, st1) \<Rightarrow>
              if fd < 0 then Some (None, w\<lparr>xw_vfs := st1\<rparr>)
              else (case kmalloc (xw_heap w) (if ni_size info \<noteq> 0 then ni_size info else 1) of
                None \<Rightarrow> Some (None, w\<lparr>xw_vfs := vfs_close st1 fd\<rparr>)
              | Some (p, h) \<Rightarrow>
                  (case read_all_loop dev st1 fd (unat (ni_size info)) [] of
                    (bs, st2) \<Rightarrow>
                      let w1 = w\<lparr>xw_vfs := vfs_close st2 fd, xw_heap := h\<rparr> in
                      if length bs \<noteq> unat (ni_size info) then map_option (\<lambda>h1. (None, w1\<lparr>xw_heap := h1\<rparr>)) (kfree h p)
                      else Some (Some (bs, p), w1)))))"

definition exec_print :: "u32 \<Rightarrow> u8 list \<Rightarrow> 'd exec_world \<Rightarrow> 'd exec_world" where
  "exec_print tid s w = w\<lparr>xw_disp := display_print (xw_disp w) tid s\<rparr>"

definition exec_error :: "u32 \<Rightarrow> string \<Rightarrow> 'd exec_world \<Rightarrow> 'd exec_world" where
  "exec_error tid msg w =
     (let w1 = exec_print tid (str msg) (exec_print tid (str ''exec: '') w)
      in w1\<lparr>xw_disp := display_put_char (xw_disp w1) tid 10\<rparr>)"

fun free_all :: "u32 list \<Rightarrow> 'd exec_world \<Rightarrow> 'd exec_world option" where
  "free_all [] w = Some w"
| "free_all (p # ps) w =
     (case kfree (xw_heap w) p of None \<Rightarrow> None | Some h \<Rightarrow> free_all ps (w\<lparr>xw_heap := h\<rparr>))"

definition exec_finish :: "bool \<Rightarrow> u32 list \<Rightarrow> 'd exec_world \<Rightarrow> 'd exec_outcome" where
  "exec_finish ok ps w = (case free_all ps w of None \<Rightarrow> Crashed | Some w1 \<Rightarrow> Exited ok w1)"

definition exec_start ::
  "u32 \<Rightarrow> 'd program \<Rightarrow> u8 list \<Rightarrow> u8 list \<Rightarrow> u32 \<Rightarrow> u32 list \<Rightarrow> 'd exec_world \<Rightarrow> 'd exec_outcome" where
  "exec_start tid prog path img entry_off blocks w =
     (let d1 = display_print (display_print (xw_disp w) tid (str ''exec: running '')) tid path;
          d2 = display_print_num (display_print d1 tid (str '' ('')) tid (of_nat (s_len path)) 10;
          w1 = w\<lparr>xw_disp := display_print d2 tid (str '' chars path)'' @ [10])\<rparr>
      in case prog img (unat entry_off) w1 of
           None \<Rightarrow> Running
         | Some w2 \<Rightarrow> exec_finish True blocks (exec_print tid (str ''exec: program returned'' @ [10]) w2))"

definition exec_load ::
  "u32 \<Rightarrow> 'd program \<Rightarrow> u8 list \<Rightarrow> u8 list \<Rightarrow> u32 \<Rightarrow> 'd exec_world \<Rightarrow> 'd exec_outcome" where
  "exec_load tid prog path file file_ptr w =
     (let eh = ehdr_of file; idx = [0..<unat (eh_phnum eh)]; failed = (\<lambda>msg ps. exec_finish False ps (exec_error tid msg w)) in
      case elf_check file of
        Some msg \<Rightarrow> failed msg [file_ptr]
      | None \<Rightarrow>
          (case elf_range file (eh_phoff eh) idx (0xFFFFFFFF, 0) of
             Faulted \<Rightarrow> Crashed
           | Rejected msg \<Rightarrow> failed msg [file_ptr]
           | Good (min_vaddr, max_vaddr) \<Rightarrow>
               if min_vaddr = 0xFFFFFFFF \<or> max_vaddr \<le> min_vaddr then failed ''no loadable segments'' [file_ptr]
               else let image_size = max_vaddr - min_vaddr in
                 if image_size > EXEC_IMAGE_LIMIT then failed ''program image too large'' [file_ptr]
                 else (case kmalloc (xw_heap w) image_size of
                    None \<Rightarrow> failed ''out of memory'' [file_ptr]
                  | Some (p, h) \<Rightarrow>
                      let w1 = w\<lparr>xw_heap := h\<rparr> in
                      (case elf_fill file (eh_phoff eh) idx min_vaddr (replicate (unat image_size) 0) of
                         None \<Rightarrow> Crashed
                       | Some img \<Rightarrow>
                           if eh_entry eh < min_vaddr \<or> eh_entry eh \<ge> max_vaddr
                           then exec_finish False [p, file_ptr] (exec_error tid ''entry outside image'' w1)
                           else exec_start tid prog path img (eh_entry eh - min_vaddr) [p, file_ptr] w1))))"

definition exec_run_elf :: "'d block_device \<Rightarrow> u32 \<Rightarrow> 'd program \<Rightarrow> u8 list \<Rightarrow> 'd exec_world \<Rightarrow> 'd exec_outcome" where
  "exec_run_elf dev tid prog path w =
     (if rd path 0 = 0 then Exited False (exec_error tid ''missing path'' w)
      else case read_file_all dev (display_terminal_session_for_task (xw_disp w) tid) path w of
        None \<Rightarrow> Crashed
      | Some (None, w1) \<Rightarrow> Exited False (exec_error tid ''unable to read file'' w1)
      | Some (Some (file, p), w1) \<Rightarrow> exec_load tid prog path file p w1)"

section \<open>Seeding the built-in program\<close>

text \<open>The bytes of the program, which the build links in, are the parameter \<open>hello\<close>.\<close>

definition userland_seed_programs ::
  "'d block_device \<Rightarrow> u32 \<Rightarrow> u8 list \<Rightarrow> 'd vfs_state \<times> display \<Rightarrow> 'd vfs_state \<times> display" where
  "userland_seed_programs dev tid hello vd =
     (case vd of (st, d) \<Rightarrow>
        let session = display_terminal_session_for_task d tid;
            st1 = (if vfs_stat_path st session (str ''/bin'') blank_info = None
                   then snd (vfs_mkdir dev st session (str ''/bin'')) else st)
        in if vfs_stat_path st1 session (str ''/bin/hello.elf'') blank_info \<noteq> None then (st1, d)
           else (case vfs_open dev st1 session (str ''/bin/hello.elf'') (VFS_O_WRITE OR VFS_O_CREATE OR VFS_O_TRUNC) of
             (fd, st2) \<Rightarrow>
               if fd < 0 then (st2, display_print d tid (str ''userland: failed to create /bin/hello.elf'' @ [10]))
               else (case vfs_write dev st2 fd hello (of_nat (length hello)) of
                 (written, st3) \<Rightarrow>
                   let st4 = vfs_close st3 fd in
                   if written \<noteq> of_nat (length hello)
                   then (st4, display_print d tid (str ''userland: short write seeding hello.elf'' @ [10])) else (st4, d))))"

end
