(* ===== verification/Kernel_State.thy ===== *)
theory Kernel_State
  imports Command_Args Video_Mode Exec_ELF Net_Client Editor Phys_Memory Scheduler
begin

text \<open>
  The state of the running kernel as a shell command sees it, the printing of messages, and the panic screen
  of \<^verbatim>\<open>src/core/panic.c\<close> in text mode.

  The timer is the one of the network environment (\<open>nw_ticks\<close>, \<open>nw_freq\<close>).  The keys that the user will
  press on the terminal are a list.
\<close>

section \<open>The kernel\<close>

record ('d, 'm) kernel =
  kn_vfs :: "'d vfs_state"
  kn_disp :: display
  kn_net :: net_world
  kn_pmm :: pmm_state
  kn_heap :: heap_state
  kn_sched :: sched
  kn_ed :: editor_state
  kn_video :: video_state
  kn_table :: "command_entry list"
  kn_ls :: "sfs_node_info list"
  kn_keys :: "int list"
  kn_hw :: 'm

definition tid_of :: "('d, 'm) kernel \<Rightarrow> u32" where
  "tid_of k = scheduler_current_tid (kn_sched k)"

definition session_of :: "('d, 'm) kernel \<Rightarrow> int" where
  "session_of k = display_terminal_session_for_task (kn_disp k) (tid_of k)"

section \<open>Printing\<close>

text \<open>A call of \<^verbatim>\<open>display_print\<close>, \<^verbatim>\<open>display_print_num\<close> or \<^verbatim>\<open>display_put_char\<close>.\<close>

datatype piece = Text "u8 list" | Num u32 nat | Char u8

fun emit1 :: "u32 \<Rightarrow> display \<Rightarrow> piece \<Rightarrow> display" where
  "emit1 tid d (Text s) = display_print d tid s"
| "emit1 tid d (Num v base) = display_print_num d tid v base"
| "emit1 tid d (Char c) = display_put_char d tid c"

definition emit :: "piece list \<Rightarrow> ('d, 'm) kernel \<Rightarrow> ('d, 'm) kernel" where
  "emit ps k = k\<lparr>kn_disp := foldl (emit1 (tid_of k)) (kn_disp k) ps\<rparr>"

abbreviation say :: "string \<Rightarrow> piece" where "say s \<equiv> Text (str s)"
abbreviation sayln :: "string \<Rightarrow> piece" where "sayln s \<equiv> Text (str s @ [10])"
abbreviation nl :: piece where "nl \<equiv> Char 10"

section \<open>Panic\<close>

abbreviation PANIC_RULE_WIDTH :: nat where "PANIC_RULE_WIDTH \<equiv> 78"

definition panic_print_rule :: "piece list" where
  "panic_print_rule =
     (let cols = VGA_WIDTH; width = (if cols < PANIC_RULE_WIDTH then cols else PANIC_RULE_WIDTH)
      in replicate width (Char 61) @ [nl])"

definition panic_print_hex32 :: "u32 \<Rightarrow> piece list" where
  "panic_print_hex32 v =
     say ''0x'' # map (\<lambda>i. let nibble = drop_bit (28 - 4 * i) v AND 0xF in
                           Char (if nibble < 10 then 48 + ucast nibble else 65 + (ucast nibble - 10))) [0..<8]"

text \<open>The date and time of the build are a parameter.\<close>

definition panic_print_common_debug :: "u8 list \<times> u8 list \<Rightarrow> string \<Rightarrow> ('d, 'm) kernel \<Rightarrow> piece list" where
  "panic_print_common_debug build stop_code k =
     (let (row, col) = display_get_cursor (kn_disp k) (tid_of k); fb = vd_fb (kn_video k); tid = tid_of k in
      panic_print_rule @ [sayln ''DEBUG DETAILS''] @ panic_print_rule
      @ [say ''Stop code   : '', say stop_code, nl]
      @ [say ''Mode        : '', Text (video_mode_name (vd_mode (kn_video k))), nl]
      @ [say ''Resolution  : '', Text (video_resolution_name (vd_resolution (kn_video k))), nl]
      @ [say ''Framebuffer : '', Num (fb_width fb) 10, Char 120, Num (fb_height fb) 10, say '' @ '', Num (ucast (fb_bpp fb)) 10,
         say ''bpp, pitch '', Num (fb_pitch fb) 10, nl]
      @ [say ''FB phys     : ''] @ panic_print_hex32 (fb_phys fb) @ [nl]
      @ [say ''Tick count  : '', Num (nw_ticks (kn_net k)) 10, say '' (hz='', Num (nw_freq (kn_net k)) 10, sayln '')'']
      @ [say ''Task ID     : '', if tid = 0xFFFFFFFF then say ''none'' else Num tid 10, nl]
      @ [say ''Task name   : '', case scheduler_current_task (kn_sched k) of Some t \<Rightarrow> Text (t_name t) | None \<Rightarrow> say ''(unknown)'', nl]
      @ [say ''Cursor rc   : '', Num (of_nat row) 10, Char 44, Num (of_nat col) 10, nl]
      @ [say ''Build       : '', Text (fst build), Char 32, Text (snd build), nl])"

definition panic_print_intro :: "string \<Rightarrow> piece list" where
  "panic_print_intro headline =
     [sayln '':('' , nl] @ [sayln ''Your VertexOS device ran into a problem and needs to stop.'']
     @ [Text (str ''The system has been halted to prevent further damage.'' @ [10, 10])]
     @ [say ''Error       : '', say headline, nl]"

definition panic_screen :: "u8 list \<times> u8 list \<Rightarrow> string \<Rightarrow> string \<Rightarrow> piece list \<Rightarrow> ('d, 'm) kernel \<Rightarrow> ('d, 'm) kernel" where
  "panic_screen build headline stop_code reason k =
     (let k1 = k\<lparr>kn_disp := display_clear (kn_disp k) (tid_of k)\<rparr>;
          k2 = emit (panic_print_intro headline @ reason) k1;
          k3 = emit (panic_print_common_debug build stop_code k2) k2
      in emit (panic_print_rule @ [sayln ''System halted. Reboot required.'']) k3)"

definition panic :: "u8 list \<times> u8 list \<Rightarrow> u8 list \<Rightarrow> ('d, 'm) kernel \<Rightarrow> ('d, 'm) kernel" where
  "panic build message k =
     panic_screen build ''KERNEL PANIC'' ''KERNEL_PANIC'' [say ''Reason      : '', Text message, nl] k"

definition panic_assert_fail :: "u8 list \<times> u8 list \<Rightarrow> u8 list \<Rightarrow> u8 list \<Rightarrow> u32 \<Rightarrow> ('d, 'm) kernel \<Rightarrow> ('d, 'm) kernel" where
  "panic_assert_fail build expr file line k =
     panic_screen build ''ASSERTION FAILURE'' ''ASSERT_FAILED''
       [say ''Expression  : '', Text expr, nl, say ''Source      : '', Text file, Char 58, Num line 10, nl] k"

end
