(* ===== verification/Commands.thy ===== *)
theory Commands
  imports Kernel_State Port_IO
begin

text \<open>
  The shell commands of \<^verbatim>\<open>src/core/commands.c\<close>: every registered handler and the dispatcher.

  Outside of the repository, and so parameters in the record \<open>env\<close>: the block device, the ports, a program that
  \<^verbatim>\<open>exec\<close> starts, the date and time of the build, and what the other tasks do to the kernel between the moment a
  command gives up the processor and the moment it gets it back (\<open>None\<close> when it never does).  A local array of a handler
  starts with zeros; every handler writes it before it is read.  The timer moves only in the waits of the network.
\<close>

record ('d, 'm) env =
  env_dev :: "'d block_device"
  env_io :: "'m ports"
  env_others :: "('d, 'm) kernel \<Rightarrow> ('d, 'm) kernel option"
  env_program :: "'d program"
  env_build :: "u8 list \<times> u8 list"

text \<open>
  A handler returns, or halts the machine, or waits for a key that is not there yet, or is lost: it waits for
  a device for ever, or does what has no meaning in C.
\<close>

datatype ('d, 'm) fate = Returned "('d, 'm) kernel" | Halted "('d, 'm) kernel" | Suspended "('d, 'm) kernel" | Lost

section \<open>Arguments and output\<close>

definition arg :: "nat \<Rightarrow> u8 list \<Rightarrow> bool \<times> u8 list \<times> u8 list" where
  "arg n args = read_arg args (replicate n 0) n"

definition text_arg :: "nat \<Rightarrow> u8 list \<Rightarrow> bool \<times> u8 list \<times> u8 list" where
  "text_arg n args = read_text_arg args (replicate n 0) n"

text \<open>\<^verbatim>\<open>!read_arg(...) || !path[0]\<close>.\<close>

definition no_arg :: "bool \<Rightarrow> u8 list \<Rightarrow> bool" where
  "no_arg ok s \<longleftrightarrow> \<not> ok \<or> rd s 0 = 0"

definition print_name_bounded :: "u8 list \<Rightarrow> piece list" where
  "print_name_bounded name = map (\<lambda>c. Char (if c < 32 \<or> c > 126 then 63 else c)) (take 31 (cstr name))"

definition print_2digit :: "u8 \<Rightarrow> piece list" where
  "print_2digit v = (if v < 10 then [Char 48] else []) @ [Num (ucast v) 10]"

section \<open>Information\<close>

definition cmd_help :: "u8 list \<Rightarrow> ('d, 'm) kernel \<Rightarrow> ('d, 'm) kernel" where
  "cmd_help args k =
     (case arg 32 args of (ok, _, name) \<Rightarrow>
        if \<not> no_arg ok name then
          (case find_command (kn_table k) name of
             None \<Rightarrow> emit [sayln ''help: command not found''] k
           | Some e \<Rightarrow> emit [Text (ce_name e), say '' - '', Text (ce_summary e), nl, say ''Usage: '', Text (ce_usage e), nl] k)
        else emit ([sayln ''Commands:'', sayln ''(use: help <command> for details)'']
               @ concat (map (\<lambda>e. [say ''  '', Text (ce_name e), say '' - '', Text (ce_summary e), nl]) (kn_table k))) k)"

definition cmd_clear :: "('d, 'm) kernel \<Rightarrow> ('d, 'm) kernel" where
  "cmd_clear k = k\<lparr>kn_disp := display_clear (kn_disp k) (tid_of k)\<rparr>"

definition cmd_echo :: "u8 list \<Rightarrow> ('d, 'm) kernel \<Rightarrow> ('d, 'm) kernel" where
  "cmd_echo args k = (case text_arg 128 args of (ok, _, t) \<Rightarrow> emit (if \<not> ok then [nl] else [Text t, nl]) k)"

definition cmd_uptime :: "('d, 'm) kernel \<Rightarrow> ('d, 'm) kernel" where
  "cmd_uptime k =
     (let ticks = nw_ticks (kn_net k); hz = (if nw_freq (kn_net k) = 0 then 1 else nw_freq (kn_net k));
          seconds = ticks div hz; centiseconds = ((ticks mod hz) * 100) div hz
      in emit ([say ''Uptime: '', Num seconds 10, Char 46] @ (if centiseconds < 10 then [Char 48] else [])
               @ [Num centiseconds 10, sayln '' seconds'']) k)"

definition cmd_time :: "('d, 'm) env \<Rightarrow> ('d, 'm) kernel \<Rightarrow> ('d, 'm) fate" where
  "cmd_time env k =
     (case rtc_read_datetime (env_io env) (kn_hw k) of
        None \<Rightarrow> Lost
      | Some (dt, m) \<Rightarrow>
          Returned (emit ([say ''20''] @ print_2digit (rt_year dt) @ [Char 45] @ print_2digit (rt_month dt) @ [Char 45]
            @ print_2digit (rt_day dt) @ [Char 32] @ print_2digit (rt_hour dt) @ [Char 58] @ print_2digit (rt_minute dt)
            @ [Char 58] @ print_2digit (rt_second dt) @ [nl]) (k\<lparr>kn_hw := m\<rparr>)))"

definition cmd_panic :: "('d, 'm) env \<Rightarrow> u8 list \<Rightarrow> ('d, 'm) kernel \<Rightarrow> ('d, 'm) fate" where
  "cmd_panic env args k =
     Halted (panic (env_build env) (if rd args 0 \<noteq> 0 then args else str ''Manual panic command invoked'') k)"

definition cmd_restart :: "('d, 'm) env \<Rightarrow> ('d, 'm) kernel \<Rightarrow> ('d, 'm) fate" where
  "cmd_restart env k =
     (let k1 = emit [sayln ''Restarting system...''] k in Halted (k1\<lparr>kn_hw := power_restart (env_io env) (kn_hw k1)\<rparr>))"

definition cmd_shutdown :: "('d, 'm) env \<Rightarrow> ('d, 'm) kernel \<Rightarrow> ('d, 'm) fate" where
  "cmd_shutdown env k =
     (let k1 = emit [sayln ''Shutting down system...''] k in Halted (k1\<lparr>kn_hw := power_shutdown (env_io env) (kn_hw k1)\<rparr>))"

definition kib :: "string \<Rightarrow> u32 \<Rightarrow> piece list" where
  "kib label v = [say label, Num (v div 1024) 10, sayln '' KiB'']"

definition cmd_meminfo :: "('d, 'm) kernel \<Rightarrow> ('d, 'm) kernel" where
  "cmd_meminfo k =
     emit (kib ''PMM total: '' (pmm_total_bytes (kn_pmm k)) @ kib ''PMM used : '' (pmm_used_bytes (kn_pmm k))
           @ kib ''PMM free : '' (pmm_free_memory_bytes (kn_pmm k)) @ kib ''Heap total: '' (heap_total_bytes (kn_heap k))
           @ kib ''Heap used : '' (heap_used_bytes (kn_heap k))) k"

text \<open>A pointer is 0 when the allocation fails; the other block of a failed test is never freed.\<close>

definition cmd_alloc :: "('d, 'm) kernel \<Rightarrow> ('d, 'm) fate" where
  "cmd_alloc k =
     (let (a, h1) = (case kmalloc (kn_heap k) 64 of None \<Rightarrow> (0, kn_heap k) | Some r \<Rightarrow> r);
          (b, h2) = (case kmalloc h1 128 of None \<Rightarrow> (0, h1) | Some r \<Rightarrow> r);
          k1 = k\<lparr>kn_heap := h2\<rparr>
      in if a = 0 \<or> b = 0 then Returned (emit [sayln ''alloc test failed''] k1)
         else let k2 = emit [say ''alloc ok: a=0x'', Num a 16, say '' b=0x'', Num b 16, nl] k1
              in case kfree (kn_heap k2) a of
                   None \<Rightarrow> Lost
                 | Some h3 \<Rightarrow>
                     (case kfree h3 b of
                        None \<Rightarrow> Lost
                      | Some h4 \<Rightarrow> Returned (emit [sayln ''alloc free ok''] (k2\<lparr>kn_heap := h4\<rparr>))))"

section \<open>Tasks\<close>

definition cmd_tasks :: "('d, 'm) kernel \<Rightarrow> ('d, 'm) kernel" where
  "cmd_tasks k = emit [say ''Tasks: '', Num (of_nat (scheduler_task_count (kn_sched k))) 10, say '' current_tid='', Num (tid_of k) 10, nl] k"

text \<open>Giving up the processor: if another task is chosen, the others run until this one is chosen again.\<close>

definition switched :: "('d, 'm) env \<Rightarrow> sched option \<Rightarrow> ('d, 'm) kernel \<Rightarrow> ('d, 'm) fate" where
  "switched env r k =
     (case r of
        None \<Rightarrow> Lost
      | Some s \<Rightarrow>
          if current_index s = current_index (kn_sched k) then Returned (k\<lparr>kn_sched := s\<rparr>)
          else (case env_others env (k\<lparr>kn_sched := s\<rparr>) of None \<Rightarrow> Lost | Some k1 \<Rightarrow> Returned k1))"

definition cmd_yield :: "('d, 'm) env \<Rightarrow> ('d, 'm) kernel \<Rightarrow> ('d, 'm) fate" where
  "cmd_yield env k = switched env (scheduler_yield (kn_sched k)) k"

definition syscall_invoke :: "('d, 'm) kernel \<Rightarrow> u32 \<Rightarrow> (u32 \<times> sched) option" where
  "syscall_invoke k num =
     syscall_handler (nw_ticks (kn_net k)) (kn_sched k)
       \<lparr>r_edi = 0, r_esi = 0, r_ebp = 0, r_esp = 0, r_ebx = 0, r_edx = 0, r_ecx = 0, r_eax = num\<rparr>"

definition cmd_syscall :: "('d, 'm) env \<Rightarrow> ('d, 'm) kernel \<Rightarrow> ('d, 'm) fate" where
  "cmd_syscall env k =
     (case syscall_invoke k SYS_GET_TID of
        None \<Rightarrow> Lost
      | Some (tid, s1) \<Rightarrow>
          (case syscall_invoke (k\<lparr>kn_sched := s1\<rparr>) SYS_GET_TICKS of
             None \<Rightarrow> Lost
           | Some (ticks, s2) \<Rightarrow>
               let k2 = emit [say ''syscall tid='', Num tid 10, say '' ticks='', Num ticks 10, nl] (k\<lparr>kn_sched := s2\<rparr>)
               in switched env (map_option snd (syscall_invoke k2 SYS_YIELD)) k2))"

section \<open>Files\<close>

text \<open>The loop of \<^verbatim>\<open>copy_file\<close>; it ends when a read returns nothing.\<close>

partial_function (option) copy_loop ::
  "'d block_device \<Rightarrow> int \<Rightarrow> int \<Rightarrow> 'd vfs_state \<Rightarrow> (bool \<times> 'd vfs_state) option" where
  "copy_loop dev in_fd out_fd st =
     (case vfs_read dev st in_fd 128 of (bs, st1) \<Rightarrow>
        if bs = [] then Some (True, st1)
        else (case vfs_write dev st1 out_fd bs (of_nat (length bs)) of (n, st2) \<Rightarrow>
                if n \<noteq> of_nat (length bs) then Some (False, st2) else copy_loop dev in_fd out_fd st2))"

definition copy_file ::
  "'d block_device \<Rightarrow> int \<Rightarrow> u8 list \<Rightarrow> u8 list \<Rightarrow> 'd vfs_state \<Rightarrow> (bool \<times> 'd vfs_state) option" where
  "copy_file dev session src dst st =
     (case vfs_open dev st session src VFS_O_READ of (in_fd, st1) \<Rightarrow>
        if in_fd < 0 then Some (False, st1)
        else (case vfs_open dev st1 session dst (VFS_O_WRITE OR VFS_O_CREATE OR VFS_O_TRUNC) of (out_fd, st2) \<Rightarrow>
                if out_fd < 0 then Some (False, vfs_close st2 in_fd)
                else map_option (\<lambda>(ok, st3). (ok, vfs_close (vfs_close st3 in_fd) out_fd)) (copy_loop dev in_fd out_fd st2)))"

definition ls_line :: "sfs_node_info \<Rightarrow> piece list" where
  "ls_line e =
     [say (if ni_type e = SFS_TYPE_DIR then ''d'' else ''-''), say (if ni_perm e AND SFS_PERM_READ \<noteq> 0 then ''r'' else ''-''),
      say (if ni_perm e AND SFS_PERM_WRITE \<noteq> 0 then ''w'' else ''-''), say (if ni_perm e AND SFS_PERM_EXEC \<noteq> 0 then ''x'' else ''-''),
      say '' ''] @ print_name_bounded (ni_name e)
     @ (if ni_type e = SFS_TYPE_FILE then [say '' ('', Num (ni_size e) 10, say ''B)''] else []) @ [nl]"

definition cmd_ls :: "u8 list \<Rightarrow> ('d, 'm) kernel \<Rightarrow> ('d, 'm) kernel" where
  "cmd_ls args k =
     (case arg 64 args of (ok, _, p) \<Rightarrow>
        let path = (if no_arg ok p then p[0 := DOT, 1 := 0] else p)
        in case vfs_list (kn_vfs k) (session_of k) path (kn_ls k) 32 of
             (count, es) \<Rightarrow> emit (concat (map ls_line (take count es)) @ (if count = 0 then [sayln ''(empty)''] else [])) (k\<lparr>kn_ls := es\<rparr>))"

partial_function (option) cat_loop :: "'d block_device \<Rightarrow> int \<Rightarrow> ('d, 'm) kernel \<Rightarrow> ('d, 'm) kernel option" where
  "cat_loop dev fd k =
     (case vfs_read dev (kn_vfs k) fd 128 of (bs, st) \<Rightarrow>
        if bs = [] then Some (k\<lparr>kn_vfs := st\<rparr>) else cat_loop dev fd (emit (map Char bs) (k\<lparr>kn_vfs := st\<rparr>)))"

definition cmd_cat :: "('d, 'm) env \<Rightarrow> u8 list \<Rightarrow> ('d, 'm) kernel \<Rightarrow> ('d, 'm) fate" where
  "cmd_cat env args k =
     (case arg 64 args of (ok, _, path) \<Rightarrow>
        if no_arg ok path then Returned (emit [sayln ''Usage: cat <path>''] k)
        else (case vfs_open (env_dev env) (kn_vfs k) (session_of k) path VFS_O_READ of (fd, st) \<Rightarrow>
                if fd < 0 then Returned (emit [sayln ''cat: open failed''] (k\<lparr>kn_vfs := st\<rparr>))
                else (case cat_loop (env_dev env) fd (k\<lparr>kn_vfs := st\<rparr>) of
                        None \<Rightarrow> Lost
                      | Some k1 \<Rightarrow> let k2 = emit [nl] k1 in Returned (k2\<lparr>kn_vfs := vfs_close (kn_vfs k2) fd\<rparr>))))"

definition cmd_write :: "('d, 'm) env \<Rightarrow> u8 list \<Rightarrow> ('d, 'm) kernel \<Rightarrow> ('d, 'm) kernel" where
  "cmd_write env args k =
     (case arg 64 args of (ok, args1, path) \<Rightarrow>
      case text_arg 128 args1 of (ok2, _, txt) \<Rightarrow>
        if no_arg ok path \<or> \<not> ok2 then emit [sayln ''Usage: write <path> <text>''] k
        else (case vfs_open (env_dev env) (kn_vfs k) (session_of k) path (VFS_O_WRITE OR VFS_O_CREATE OR VFS_O_TRUNC) of (fd, st) \<Rightarrow>
                if fd < 0 then emit [sayln ''write: open failed''] (k\<lparr>kn_vfs := st\<rparr>)
                else (case vfs_write (env_dev env) st fd txt (of_nat (s_len txt)) of (n, st1) \<Rightarrow>
                        emit [say ''wrote '', Num n 10, sayln '' bytes''] (k\<lparr>kn_vfs := vfs_close st1 fd\<rparr>))))"

definition cmd_touch :: "('d, 'm) env \<Rightarrow> u8 list \<Rightarrow> ('d, 'm) kernel \<Rightarrow> ('d, 'm) kernel" where
  "cmd_touch env args k =
     (case arg 64 args of (ok, _, path) \<Rightarrow>
        if no_arg ok path then emit [sayln ''Usage: touch <path>''] k
        else (case vfs_open (env_dev env) (kn_vfs k) (session_of k) path (VFS_O_WRITE OR VFS_O_CREATE) of (fd, st) \<Rightarrow>
                if fd < 0 then emit [sayln ''touch failed''] (k\<lparr>kn_vfs := st\<rparr>) else k\<lparr>kn_vfs := vfs_close st fd\<rparr>))"

text \<open>The handlers that call one operation with a path and report its failure.\<close>

definition report :: "piece list \<Rightarrow> bool \<times> 'd vfs_state \<Rightarrow> ('d, 'm) kernel \<Rightarrow> ('d, 'm) kernel" where
  "report msg r k = (case r of (ok, st) \<Rightarrow> let k1 = k\<lparr>kn_vfs := st\<rparr> in if ok then k1 else emit msg k1)"

definition cmd_mkdir :: "('d, 'm) env \<Rightarrow> u8 list \<Rightarrow> ('d, 'm) kernel \<Rightarrow> ('d, 'm) kernel" where
  "cmd_mkdir env args k =
     (case arg 64 args of (ok, _, path) \<Rightarrow>
        if no_arg ok path then emit [sayln ''Usage: mkdir <path>''] k
        else report [sayln ''mkdir failed''] (vfs_mkdir (env_dev env) (kn_vfs k) (session_of k) path) k)"

definition cmd_rm :: "('d, 'm) env \<Rightarrow> u8 list \<Rightarrow> ('d, 'm) kernel \<Rightarrow> ('d, 'm) kernel" where
  "cmd_rm env args k =
     (case arg 64 args of (ok, _, path) \<Rightarrow>
        if no_arg ok path then emit [sayln ''Usage: rm <path>''] k
        else report [sayln ''rm failed''] (vfs_remove (env_dev env) (kn_vfs k) (session_of k) path) k)"

definition cmd_cp :: "('d, 'm) env \<Rightarrow> u8 list \<Rightarrow> ('d, 'm) kernel \<Rightarrow> ('d, 'm) fate" where
  "cmd_cp env args k =
     (case arg 64 args of (ok, args1, src) \<Rightarrow>
      case arg 64 args1 of (ok2, _, dst) \<Rightarrow>
        if no_arg ok src \<or> no_arg ok2 dst then Returned (emit [sayln ''Usage: cp <src> <dst>''] k)
        else (case copy_file (env_dev env) (session_of k) src dst (kn_vfs k) of
                None \<Rightarrow> Lost
              | Some r \<Rightarrow> Returned (report [sayln ''cp failed''] r k)))"

definition cmd_mv :: "('d, 'm) env \<Rightarrow> u8 list \<Rightarrow> ('d, 'm) kernel \<Rightarrow> ('d, 'm) fate" where
  "cmd_mv env args k =
     (case arg 64 args of (ok, args1, src) \<Rightarrow>
      case arg 64 args1 of (ok2, _, dst) \<Rightarrow>
        if no_arg ok src \<or> no_arg ok2 dst then Returned (emit [sayln ''Usage: mv <src> <dst>''] k)
        else (case copy_file (env_dev env) (session_of k) src dst (kn_vfs k) of
                None \<Rightarrow> Lost
              | Some (False, st) \<Rightarrow> Returned (emit [sayln ''mv failed''] (k\<lparr>kn_vfs := st\<rparr>))
              | Some (True, st) \<Rightarrow>
                  Returned (report [sayln ''mv warning: remove source failed''] (vfs_remove (env_dev env) st (session_of k) src) k)))"

definition cmd_cd :: "u8 list \<Rightarrow> ('d, 'm) kernel \<Rightarrow> ('d, 'm) kernel" where
  "cmd_cd args k =
     (case arg 64 args of (ok, _, p) \<Rightarrow>
        let path = (if no_arg ok p then p[0 := SLASH, 1 := 0] else p)
        in report [sayln ''cd failed''] (vfs_chdir (kn_vfs k) (session_of k) path) k)"

definition cmd_pwd :: "('d, 'm) kernel \<Rightarrow> ('d, 'm) kernel" where
  "cmd_pwd k = emit [Text (vfs_get_cwd (kn_vfs k) (session_of k)), nl] k"

section \<open>Environment variables\<close>

definition cmd_setenv :: "u8 list \<Rightarrow> ('d, 'm) kernel \<Rightarrow> ('d, 'm) kernel" where
  "cmd_setenv args k =
     (case arg 16 args of (ok, args1, key) \<Rightarrow>
      case text_arg 64 args1 of (ok2, _, val) \<Rightarrow>
        if no_arg ok key \<or> \<not> ok2 then emit [sayln ''Usage: setenv <key> <value>''] k
        else report [sayln ''setenv failed''] (vfs_setenv (kn_vfs k) (session_of k) key val) k)"

definition cmd_getenv :: "u8 list \<Rightarrow> ('d, 'm) kernel \<Rightarrow> ('d, 'm) kernel" where
  "cmd_getenv args k =
     (case arg 16 args of (ok, _, key) \<Rightarrow>
        if no_arg ok key then emit [sayln ''Usage: getenv <key>''] k
        else (case vfs_getenv (kn_vfs k) (session_of k) key of
                None \<Rightarrow> emit [sayln ''(unset)''] k
              | Some val \<Rightarrow> emit [Text val, nl] k))"

definition cmd_unsetenv :: "u8 list \<Rightarrow> ('d, 'm) kernel \<Rightarrow> ('d, 'm) kernel" where
  "cmd_unsetenv args k =
     (case arg 16 args of (ok, _, key) \<Rightarrow>
        if no_arg ok key then emit [sayln ''Usage: unsetenv <key>''] k
        else report [sayln ''unsetenv failed''] (vfs_unsetenv (kn_vfs k) (session_of k) key) k)"

section \<open>Programs and the editor\<close>

definition cmd_exec :: "('d, 'm) env \<Rightarrow> u8 list \<Rightarrow> ('d, 'm) kernel \<Rightarrow> ('d, 'm) fate" where
  "cmd_exec env args k =
     (case arg 64 args of (ok, _, path) \<Rightarrow>
        if no_arg ok path then Returned (emit [sayln ''Usage: exec <elf-path>''] k)
        else (case exec_run_elf (env_dev env) (tid_of k) (env_program env) path
                     \<lparr>xw_vfs = kn_vfs k, xw_heap = kn_heap k, xw_disp = kn_disp k\<rparr> of
                Exited good w \<Rightarrow>
                  let k1 = k\<lparr>kn_vfs := xw_vfs w, kn_heap := xw_heap w, kn_disp := xw_disp w\<rparr>
                  in Returned (if good then k1 else emit [sayln ''exec failed''] k1)
              | _ \<Rightarrow> Lost))"

definition leave_editor :: "'d edit_world \<Rightarrow> int list \<Rightarrow> ('d, 'm) kernel \<Rightarrow> ('d, 'm) kernel" where
  "leave_editor w keys k = k\<lparr>kn_ed := ew_ed w, kn_disp := ew_disp w, kn_vfs := ew_vfs w, kn_keys := keys\<rparr>"

definition cmd_edit :: "('d, 'm) env \<Rightarrow> u8 list \<Rightarrow> ('d, 'm) kernel \<Rightarrow> ('d, 'm) fate" where
  "cmd_edit env args k =
     (case arg 64 args of (ok, _, path) \<Rightarrow>
        if no_arg ok path then Returned (emit [sayln ''Usage: edit <path>'', sayln ''NOTE: Editor is a WIP feature. Expect bugs.''] k)
        else let k1 = emit [sayln ''[WIP] Opening editor...''] k
          in case editor_open (env_dev env) (tid_of k1) \<lparr>ew_ed = kn_ed k1, ew_disp = kn_disp k1, ew_vfs = kn_vfs k1\<rparr> path (kn_keys k1) of
               Closed w keys \<Rightarrow> Returned (leave_editor w keys k1)
             | Waiting w \<Rightarrow> Suspended (leave_editor w [] k1))"

section \<open>Network\<close>

definition show_config :: "('d, 'm) kernel \<Rightarrow> ('d, 'm) kernel" where
  "show_config k = k\<lparr>kn_disp := net_print_config (tid_of k) (nw_cfg (kn_net k)) (kn_disp k)\<rparr>"

definition cmd_ifconfig :: "('d, 'm) kernel \<Rightarrow> ('d, 'm) kernel" where
  "cmd_ifconfig k = show_config k"

definition cmd_dhcp :: "('d, 'm) kernel \<Rightarrow> ('d, 'm) kernel" where
  "cmd_dhcp k =
     (if \<not> net_is_ready (kn_net k) then emit [sayln ''dhcp: network link is down''] k
      else let k1 = emit [sayln ''dhcp: requesting lease...''] k
        in case net_dhcp_request (kn_net k1) of
             (False, w) \<Rightarrow> emit [sayln ''dhcp: failed to acquire lease''] (k1\<lparr>kn_net := w\<rparr>)
           | (True, w) \<Rightarrow> show_config (emit [sayln ''dhcp: lease acquired''] (k1\<lparr>kn_net := w\<rparr>)))"

text \<open>The optional timeout: \<open>None\<close> when it is not a number.\<close>

definition timeout_arg :: "u8 list \<Rightarrow> u32 \<Rightarrow> u32 option" where
  "timeout_arg args dflt =
     (case arg 16 args of (ok, _, t) \<Rightarrow> if no_arg ok t then Some dflt else parse_u32_arg t)"

definition cmd_ping :: "u8 list \<Rightarrow> ('d, 'm) kernel \<Rightarrow> ('d, 'm) kernel" where
  "cmd_ping args k =
     (case arg 32 args of (ok, args1, ip_text) \<Rightarrow>
        if no_arg ok ip_text then emit [sayln ''Usage: ping <ipv4> [timeout_ms]''] k
        else (case net_parse_ipv4 ip_text of
          None \<Rightarrow> emit [sayln ''ping: invalid ipv4 address''] k
        | Some ip \<Rightarrow>
            (case timeout_arg args1 1000 of
               None \<Rightarrow> emit [sayln ''ping: invalid timeout''] k
             | Some timeout_ms \<Rightarrow>
                 let k1 = emit [say ''ping: sending to '', Text ip_text, nl] k
                 in case net_ping (kn_net k1) ip timeout_ms of
                      (None, w) \<Rightarrow> emit [sayln ''ping: timeout or network error''] (k1\<lparr>kn_net := w\<rparr>)
                    | (Some rtt, w) \<Rightarrow> emit [say ''ping reply: '', Num rtt 10, sayln '' ms''] (k1\<lparr>kn_net := w\<rparr>))))"

definition ip_string :: "u32 \<Rightarrow> u8 list" where
  "ip_string ip = net_format_ipv4 ip (replicate 16 0) 16"

definition cmd_dns :: "u8 list \<Rightarrow> ('d, 'm) kernel \<Rightarrow> ('d, 'm) kernel" where
  "cmd_dns args k =
     (case arg 128 args of (ok, args1, host) \<Rightarrow>
        if no_arg ok host then emit [sayln ''Usage: dns <hostname|ipv4> [timeout_ms]''] k
        else (case timeout_arg args1 1500 of
          None \<Rightarrow> emit [sayln ''dns: invalid timeout''] k
        | Some timeout_ms \<Rightarrow>
            let k1 = emit [say ''dns: resolving '', Text host, nl] k
            in case net_resolve_ipv4 (kn_net k1) host timeout_ms of
                 (None, w) \<Rightarrow> emit [sayln ''dns: resolve failed''] (k1\<lparr>kn_net := w\<rparr>)
               | (Some ip, w) \<Rightarrow> emit [Text host, say '' -> '', Text (ip_string ip), nl] (k1\<lparr>kn_net := w\<rparr>)))"

fun http_result_text :: "net_http_result \<Rightarrow> string" where
  "http_result_text NET_HTTP_OK = ''ok''"
| "http_result_text NET_HTTP_ERR_INVALID_ARG = ''invalid arguments''"
| "http_result_text NET_HTTP_ERR_BAD_URL = ''bad url (expected http://host[:port]/path or host[:port]/path)''"
| "http_result_text NET_HTTP_ERR_UNSUPPORTED_SCHEME = ''unsupported scheme (use http://, https deferred)''"
| "http_result_text NET_HTTP_ERR_LINK_DOWN = ''network link is down''"
| "http_result_text NET_HTTP_ERR_NO_IP = ''no IPv4 address configured''"
| "http_result_text NET_HTTP_ERR_DNS_FAILED = ''dns resolve failed''"
| "http_result_text NET_HTTP_ERR_TCP_UNAVAILABLE = ''tcp client path not implemented yet''"
| "http_result_text NET_HTTP_ERR_TIMEOUT = ''timeout''"
| "http_result_text NET_HTTP_ERR_PROTOCOL = ''protocol error''"

definition http_target :: "net_http_response \<Rightarrow> piece list" where
  "http_target r = [say ''http: target '', Text (ip_string (hr_resolved_ip r)), say '':'', Num (ucast (hr_port r)) 10, nl]"

definition http_output :: "net_http_result \<Rightarrow> net_http_response \<Rightarrow> u8 list \<Rightarrow> piece list" where
  "http_output e r body =
     (if e \<noteq> NET_HTTP_OK then
        [say ''http: '', say (http_result_text e), nl] @ (if hr_resolved_ip r \<noteq> 0 then http_target r else [])
      else http_target r @ [say ''http: status '', Num (ucast (hr_status_code r)) 10, nl]
           @ (if hr_body_len r > 0 then [Text body, nl] else [])
           @ (if hr_body_truncated r then [sayln ''http: body truncated''] else []))"

definition cmd_http :: "u8 list \<Rightarrow> ('d, 'm) kernel \<Rightarrow> ('d, 'm) kernel" where
  "cmd_http args k =
     (case arg 8 args of (ok, args1, method) \<Rightarrow>
      case arg 192 args1 of (ok2, args2, url) \<Rightarrow>
        if no_arg ok method \<or> no_arg ok2 url then emit [sayln ''Usage: http get <url> [timeout_ms]''] k
        else if \<not> strings_equal method (str ''get'') then emit [sayln ''http: only 'get' is supported right now''] k
        else (case timeout_arg args2 3000 of
          None \<Rightarrow> emit [sayln ''http: invalid timeout''] k
        | Some timeout_ms \<Rightarrow>
            if timeout_ms = 0 then emit [sayln ''http: invalid timeout''] k
            else let k1 = emit [say ''http: requesting '', Text url, nl] k
              in case net_http_get (kn_net k1) url timeout_ms (Some (replicate 256 0)) 256 blank_response of
                   (e, r, body, w) \<Rightarrow> emit (http_output e r (case body of Some b \<Rightarrow> b | None \<Rightarrow> [])) (k1\<lparr>kn_net := w\<rparr>)))"

section \<open>The dispatcher\<close>

text \<open>The call through the function pointer of an entry.\<close>

fun call_command :: "('d, 'm) env \<Rightarrow> command_func \<Rightarrow> u8 list \<Rightarrow> ('d, 'm) kernel \<Rightarrow> ('d, 'm) fate" where
  "call_command env Cmd_help args k = Returned (cmd_help args k)"
| "call_command env Cmd_clear args k = Returned (cmd_clear k)"
| "call_command env Cmd_echo args k = Returned (cmd_echo args k)"
| "call_command env Cmd_uptime args k = Returned (cmd_uptime k)"
| "call_command env Cmd_time args k = cmd_time env k"
| "call_command env Cmd_panic args k = cmd_panic env args k"
| "call_command env Cmd_restart args k = cmd_restart env k"
| "call_command env Cmd_shutdown args k = cmd_shutdown env k"
| "call_command env Cmd_meminfo args k = Returned (cmd_meminfo k)"
| "call_command env Cmd_alloc args k = cmd_alloc k"
| "call_command env Cmd_tasks args k = Returned (cmd_tasks k)"
| "call_command env Cmd_yield args k = cmd_yield env k"
| "call_command env Cmd_syscall args k = cmd_syscall env k"
| "call_command env Cmd_ls args k = Returned (cmd_ls args k)"
| "call_command env Cmd_cat args k = cmd_cat env args k"
| "call_command env Cmd_write args k = Returned (cmd_write env args k)"
| "call_command env Cmd_touch args k = Returned (cmd_touch env args k)"
| "call_command env Cmd_mkdir args k = Returned (cmd_mkdir env args k)"
| "call_command env Cmd_rm args k = Returned (cmd_rm env args k)"
| "call_command env Cmd_cp args k = cmd_cp env args k"
| "call_command env Cmd_mv args k = cmd_mv env args k"
| "call_command env Cmd_cd args k = Returned (cmd_cd args k)"
| "call_command env Cmd_pwd args k = Returned (cmd_pwd k)"
| "call_command env Cmd_setenv args k = Returned (cmd_setenv args k)"
| "call_command env Cmd_getenv args k = Returned (cmd_getenv args k)"
| "call_command env Cmd_unsetenv args k = Returned (cmd_unsetenv args k)"
| "call_command env Cmd_exec args k = cmd_exec env args k"
| "call_command env Cmd_edit args k = cmd_edit env args k"
| "call_command env Cmd_ifconfig args k = Returned (cmd_ifconfig k)"
| "call_command env Cmd_dhcp args k = Returned (cmd_dhcp k)"
| "call_command env Cmd_ping args k = Returned (cmd_ping args k)"
| "call_command env Cmd_dns args k = Returned (cmd_dns args k)"
| "call_command env Cmd_http args k = Returned (cmd_http args k)"

text \<open>The return value of \<^verbatim>\<open>command_execute\<close> is False only for a name that is not in the table.\<close>

definition command_execute :: "('d, 'm) env \<Rightarrow> u8 list \<Rightarrow> ('d, 'm) kernel \<Rightarrow> bool \<times> ('d, 'm) fate" where
  "command_execute env input k =
     (case arg 32 input of (ok, p, cmd) \<Rightarrow>
        if no_arg ok cmd then (True, Returned k)
        else (case find_command (kn_table k) cmd of
                None \<Rightarrow> (False, Returned k)
              | Some e \<Rightarrow> (True, call_command env (ce_func e) (skip_spaces p) k)))"

end
