(* ===== verification/Commands_Props.thy ===== *)
theory Commands_Props
  imports Commands VFS_Props
begin

text \<open>
  The properties of the file commands of the shell, composed from the operations of the virtual file system.
\<close>

section \<open>Paths keep their meaning\<close>

lemma resolve_same_tree:
  assumes s: "same_tree st st'" and t: "fs_tree st"
  shows "sfs_resolve st' path cwd = sfs_resolve st path cwd"
proof -
  have t': "fs_tree st'" using same_tree_tree [OF s] t by simp
  have c: "sfs_find_child st' p nm = sfs_find_child st p nm" for p nm
  proof -
    have "sfs_find_child st' p nm = Some c \<longleftrightarrow> sfs_find_child st p nm = Some c" for c
      using s by (simp add: find_child_iff [OF t] find_child_iff [OF t'] same_tree_def live_def node_name_def)
    then show ?thesis by (metis option.exhaust)
  qed
  have "follow st' cur nms = follow st cur nms" for cur nms
    using s by (induction nms arbitrary: cur) (simp_all add: c same_tree_def split: option.split)
  then show ?thesis using s by (simp add: sfs_resolve_follow walk_start_def same_tree_def)
qed

lemma resolve_after_create:
  assumes t: "fs_tree st" "is_dir st cwd" and s: "sfs_create dev st path cwd ty perm = (r, st')"
    and p: "sfs_resolve st q cwd = Some n"
  shows "sfs_resolve st' q cwd = Some n"
  using s
proof (cases rule: sfs_create_cases)
  case (made cur lst idx d)
  have i: "idx < 64" "\<not> live st idx" using find_free_SomeD [OF made(4)] by auto
  have t': "fs_tree (upd_ent st idx (new_entry cur lst ty perm))"
    using sfs_create_tree [OF t s] made(5) by simp
  have "live st (walk_start st q cwd)" using walk_start_live t is_dir_live by blast
  from follow_add [OF t(1) i t' this] p show ?thesis
    by (simp add: made(5) sfs_resolve_follow)
qed (use p in simp)

section \<open>Opening for a copy\<close>

definition two_free :: "'d vfs_state \<Rightarrow> bool" where
  "two_free st \<longleftrightarrow> length (g_fds st) = 16
     \<and> (\<exists>i < 16. \<exists>j < 16. i \<noteq> j \<and> fd_used (g_fds st ! i) = 0 \<and> fd_used (g_fds st ! j) = 0)"

definition some_free :: "'d vfs_state \<Rightarrow> bool" where
  "some_free st \<longleftrightarrow> length (g_fds st) = 16 \<and> (\<exists>i < 16. fd_used (g_fds st ! i) = 0)"

definition cwd_of :: "'d vfs_state \<Rightarrow> int \<Rightarrow> u32" where
  "cwd_of st session = ctx_cwd (vfs_context_for_session st session)"

text \<open>The path names a file that may be read; it names one that may be written, or a file can be created there.\<close>

definition readable_file :: "'d vfs_state \<Rightarrow> int \<Rightarrow> u8 list \<Rightarrow> u32 \<Rightarrow> bool" where
  "readable_file st session path n \<longleftrightarrow> sfs_resolve (fs st) path (cwd_of st session) = Some n
     \<and> is_file_node (fs st) n \<and> e_perm (ent (fs st) n) AND SFS_PERM_READ \<noteq> 0"

definition writable_place :: "'d block_device \<Rightarrow> 'd vfs_state \<Rightarrow> int \<Rightarrow> u8 list \<Rightarrow> u32 \<Rightarrow> bool" where
  "writable_place dev st session path m \<longleftrightarrow>
     (sfs_resolve (fs st) path (cwd_of st session) = Some m \<and> is_file_node (fs st) m
        \<and> e_perm (ent (fs st) m) AND SFS_PERM_WRITE \<noteq> 0)
     \<or> (sfs_resolve (fs st) path (cwd_of st session) = None
        \<and> (\<exists>f. sfs_create dev (fs st) path (cwd_of st session) SFS_TYPE_FILE (SFS_PERM_READ OR SFS_PERM_WRITE) = (Some m, f)))"

lemma first_free:
  assumes "some_free st"
  shows "\<exists>i < 16. for_find (\<lambda>i. fd_used (g_fds st ! i) = 0) 0 16 = Some i \<and> fd_used (g_fds st ! i) = 0"
proof -
  obtain k where k: "k < 16" "fd_used (g_fds st ! k) = 0" using assms by (auto simp: some_free_def)
  then have "for_find (\<lambda>i. fd_used (g_fds st ! i) = 0) 0 16 \<noteq> None" unfolding for_find_None_iff by auto
  then obtain i where "for_find (\<lambda>i. fd_used (g_fds st ! i) = 0) 0 16 = Some i" by blast
  then show ?thesis by (auto simp: for_find_Some_iff)
qed

abbreviation opened :: "u32 \<Rightarrow> u32 \<Rightarrow> vfs_fd" where
  "opened n flags \<equiv> \<lparr>fd_used = 1, fd_node_id = n, fd_offset = 0, fd_flags = flags\<rparr>"

lemma open_read:
  assumes "some_free st" "readable_file st session path n"
  shows "\<exists>i < 16. vfs_open dev st session path VFS_O_READ = (int i, st\<lparr>g_fds := (g_fds st)[i := opened n VFS_O_READ]\<rparr>)
    \<and> fd_used (g_fds st ! i) = 0"
proof -
  obtain i where "i < 16" "for_find (\<lambda>i. fd_used (g_fds st ! i) = 0) 0 16 = Some i" "fd_used (g_fds st ! i) = 0"
    using first_free [OF assms(1)] by blast
  then show ?thesis using assms(2) by (intro exI [of _ i]) (simp add: vfs_open_def readable_file_def cwd_of_def)
qed

lemma truncate_succeeds:
  assumes R: "reliable_client dev sec" and t: "fs_tree st" and n: "is_file_node st n" "e_perm (ent st n) AND SFS_PERM_WRITE \<noteq> 0"
  shows "\<exists>st'. sfs_truncate dev st n = (True, st')"
proof -
  let ?s = "upd_ent st n (\<lambda>e. e\<lparr>e_size := 0\<rparr>)"
  have "same_tree st ?s" by (rule same_tree_upd [OF fs_tree_layout [OF t] is_file_less [OF n(1)]]) simp
  then have "layout_ok ?s" using fs_tree_layout [OF t] by (simp add: same_tree_def)
  from reliable_client.flush_total [OF R this] n show ?thesis by (simp add: sfs_truncate_def)
qed

lemma create_free_mark: "sfs_create dev st path cwd ty perm = (r, st') \<Longrightarrow> next_free st' = next_free st"
  by (erule sfs_create_cases) (simp_all add: next_free_def)

lemma truncate_free_mark: "sfs_truncate dev st n = (ok, st') \<Longrightarrow> next_free st' = next_free st"
  by (erule sfs_truncate_cases) (simp_all add: next_free_def)

text \<open>What opening the place of a copy does to the file system.\<close>

lemma prepare_place:
  assumes R: "reliable_store (blockdev_read dev) (blockdev_write dev) sec 65536" and ok: "store_ok st"
    and c: "is_dir (fs st) (cwd_of st session)" and w: "writable_place dev st session path m"
  shows "\<exists>f1 f. (case sfs_resolve (fs st) path (cwd_of st session) of Some n \<Rightarrow> (Some n, fs st)
        | None \<Rightarrow> sfs_create dev (fs st) path (cwd_of st session) SFS_TYPE_FILE (SFS_PERM_READ OR SFS_PERM_WRITE)) = (Some m, f1)
    \<and> sfs_truncate dev f1 m = (True, f) \<and> fs_tree f \<and> extents_ok f \<and> is_file_node f m
    \<and> e_perm (ent f m) AND SFS_PERM_WRITE \<noteq> 0 \<and> next_free f = next_free (fs st)
    \<and> abs_files sec f = (abs_files sec (fs st))(m \<mapsto> [])
    \<and> (\<forall>q n. sfs_resolve (fs st) q (cwd_of st session) = Some n \<longrightarrow> sfs_resolve f q (cwd_of st session) = Some n)
    \<and> (\<forall>n. live (fs st) n \<longrightarrow> live f n \<and> e_perm (ent f n) = e_perm (ent (fs st) n))"
proof -
  let ?cwd = "cwd_of st session"
  have S: "sector_store (blockdev_read dev) (blockdev_write dev) sec"
    using R by (simp add: reliable_store_def)
  have st: "fs_tree (fs st)" "extents_ok (fs st)" using ok by (simp_all add: store_ok_def)
  have "\<exists>f1. (case sfs_resolve (fs st) path ?cwd of Some n \<Rightarrow> (Some n, fs st)
        | None \<Rightarrow> sfs_create dev (fs st) path ?cwd SFS_TYPE_FILE (SFS_PERM_READ OR SFS_PERM_WRITE)) = (Some m, f1)
    \<and> fs_tree f1 \<and> extents_ok f1 \<and> is_file_node f1 m \<and> e_perm (ent f1 m) AND SFS_PERM_WRITE \<noteq> 0
    \<and> next_free f1 = next_free (fs st) \<and> (abs_files sec f1)(m \<mapsto> []) = (abs_files sec (fs st))(m \<mapsto> [])
    \<and> (\<forall>q n. sfs_resolve (fs st) q ?cwd = Some n \<longrightarrow> sfs_resolve f1 q ?cwd = Some n)
    \<and> (\<forall>n. live (fs st) n \<longrightarrow> live f1 n \<and> e_perm (ent f1 n) = e_perm (ent (fs st) n))"
  proof (cases "sfs_resolve (fs st) path ?cwd")
    case (Some n)
    then show ?thesis using w st by (simp add: writable_place_def)
  next
    case None
    then obtain f1 where f1: "sfs_create dev (fs st) path ?cwd SFS_TYPE_FILE (SFS_PERM_READ OR SFS_PERM_WRITE) = (Some m, f1)"
      using w by (auto simp: writable_place_def)
    have tr: "fs_tree f1" "extents_ok f1"
      using sfs_create_tree [OF st(1) c f1] create_extents [OF st(2) fs_tree_layout [OF st(1)] f1] by auto
    have af: "abs_files sec f1 = (abs_files sec (fs st))(m \<mapsto> [])"
      by (rule sfs_client.create_files [OF sfs_client_I [OF S] st(1) c st(2) f1])
    then have isf: "is_file_node f1 m" by (metis abs_files_def fun_upd_same option.distinct(1))
    have e: "e_perm (ent f1 m) = SFS_PERM_READ OR SFS_PERM_WRITE \<and> (\<forall>n. live (fs st) n \<longrightarrow> live f1 n \<and> e_perm (ent f1 n) = e_perm (ent (fs st) n))"
      using f1
    proof (cases rule: sfs_create_cases)
      case (made cur lst idx d)
      then have i: "idx = m" "m < 64" "\<not> live (fs st) m" using find_free_SomeD [OF made(4)] by auto
      then show ?thesis by (auto simp: made(5) ent_add [OF st(1)])
    qed simp
    show ?thesis
      using None f1 tr af isf e create_free_mark [OF f1] resolve_after_create [OF st(1) c f1]
      by (intro exI [of _ f1]) simp
  qed
  then obtain f1 where A: "(case sfs_resolve (fs st) path ?cwd of Some n \<Rightarrow> (Some n, fs st)
        | None \<Rightarrow> sfs_create dev (fs st) path ?cwd SFS_TYPE_FILE (SFS_PERM_READ OR SFS_PERM_WRITE)) = (Some m, f1)"
      "fs_tree f1" "extents_ok f1" "is_file_node f1 m" "e_perm (ent f1 m) AND SFS_PERM_WRITE \<noteq> 0"
      "next_free f1 = next_free (fs st)" "(abs_files sec f1)(m \<mapsto> []) = (abs_files sec (fs st))(m \<mapsto> [])"
      "\<forall>q n. sfs_resolve (fs st) q ?cwd = Some n \<longrightarrow> sfs_resolve f1 q ?cwd = Some n"
      "\<forall>n. live (fs st) n \<longrightarrow> live f1 n \<and> e_perm (ent f1 n) = e_perm (ent (fs st) n)"
    by blast
  obtain f where f: "sfs_truncate dev f1 m = (True, f)"
    using truncate_succeeds [OF reliable_client_I [OF R] A(2,4,5)] by blast
  note T = truncate_same [OF fs_tree_layout [OF A(2)] f]
  have af: "abs_files sec f = (abs_files sec (fs st))(m \<mapsto> [])"
    using sfs_client.truncate_files [OF sfs_client_I [OF S] fs_tree_layout [OF A(2)] A(3) f] A(7) by simp
  show ?thesis
    using A f T same_tree_tree [OF T(1)] same_tree_live [OF T(1)] truncate_free_mark [OF f] af
      resolve_same_tree [OF T(1) A(2)]
    by (intro exI [of _ f1] exI [of _ f]) (simp add: same_tree_def)
qed

lemma open_write:
  assumes R: "reliable_store (blockdev_read dev) (blockdev_write dev) sec 65536" and ok: "store_ok st"
    and c: "is_dir (fs st) (cwd_of st session)" and w: "writable_place dev st session path m" and fr: "some_free st"
  shows "\<exists>i f. i < 16 \<and> vfs_open dev st session path (VFS_O_WRITE OR VFS_O_CREATE OR VFS_O_TRUNC)
      = (int i, st\<lparr>fs := f, g_fds := (g_fds st)[i := opened m 14]\<rparr>)
    \<and> fd_used (g_fds st ! i) = 0 \<and> fs_tree f \<and> extents_ok f \<and> is_file_node f m
    \<and> e_perm (ent f m) AND SFS_PERM_WRITE \<noteq> 0 \<and> next_free f = next_free (fs st)
    \<and> abs_files sec f = (abs_files sec (fs st))(m \<mapsto> [])
    \<and> (\<forall>q n. sfs_resolve (fs st) q (cwd_of st session) = Some n \<longrightarrow> sfs_resolve f q (cwd_of st session) = Some n)
    \<and> (\<forall>n. live (fs st) n \<longrightarrow> live f n \<and> e_perm (ent f n) = e_perm (ent (fs st) n))"
proof -
  obtain f1 f where A: "(case sfs_resolve (fs st) path (cwd_of st session) of Some n \<Rightarrow> (Some n, fs st)
        | None \<Rightarrow> sfs_create dev (fs st) path (cwd_of st session) SFS_TYPE_FILE (SFS_PERM_READ OR SFS_PERM_WRITE)) = (Some m, f1)"
      "sfs_truncate dev f1 m = (True, f)" "fs_tree f" "extents_ok f" "is_file_node f m"
      "e_perm (ent f m) AND SFS_PERM_WRITE \<noteq> 0" "next_free f = next_free (fs st)"
      "abs_files sec f = (abs_files sec (fs st))(m \<mapsto> [])"
      "\<forall>q n. sfs_resolve (fs st) q (cwd_of st session) = Some n \<longrightarrow> sfs_resolve f q (cwd_of st session) = Some n"
      "\<forall>n. live (fs st) n \<longrightarrow> live f n \<and> e_perm (ent f n) = e_perm (ent (fs st) n)"
    using prepare_place [OF R ok c w] by blast
  obtain i where i: "i < 16" "for_find (\<lambda>i. fd_used (g_fds st ! i) = 0) 0 16 = Some i" "fd_used (g_fds st ! i) = 0"
    using first_free [OF fr] by blast
  have "vfs_open dev st session path (VFS_O_WRITE OR VFS_O_CREATE OR VFS_O_TRUNC)
      = (int i, st\<lparr>fs := f, g_fds := (g_fds st)[i := opened m 14]\<rparr>)"
    using A(1,2) i by (cases "sfs_resolve (fs st) path (cwd_of st session)") (simp_all add: vfs_open_def cwd_of_def Let_def)
  with A(3-) i show ?thesis by (intro exI [of _ i] exI [of _ f] conjI) simp_all
qed

section \<open>The copying loop\<close>

lemma vfs_read_fds:
  "vfs_read dev st fd l = (bs, st1) \<Longrightarrow> j \<noteq> nat fd \<Longrightarrow> g_fds st1 ! j = g_fds st ! j"
  by (auto simp: vfs_read_def fd_advance_def Let_def split: if_splits prod.splits option.splits)

lemma vfs_read_ctx_len:
  "vfs_read dev st fd l = (bs, st1) \<Longrightarrow> length (g_fds st1) = length (g_fds st)"
  by (auto simp: vfs_read_def fd_advance_def Let_def split: if_splits prod.splits option.splits)

lemma abs_files_disk: "sec d = sec (disk f) \<Longrightarrow> abs_files sec (f\<lparr>disk := d\<rparr>) = abs_files sec f"
  by (simp add: abs_files_def content_def fbyte_def file_size_def fun_eq_iff)

lemma content_abs: "is_file_node f i \<Longrightarrow> abs_files sec f i = Some (content sec f i)"
  by (simp add: abs_files_def)

text \<open>How many sectors a copy of a file of a size may use: in the worst case every chunk moves the new file.\<close>

definition copy_need :: "nat \<Rightarrow> nat \<Rightarrow> nat" where
  "copy_need len whole = ((len + 127) div 128) * sectors_for whole"

lemma copy_need_step:
  assumes "0 < n" "n \<le> len" "n = min 128 len"
  shows "copy_need (len - n) whole + sectors_for whole \<le> copy_need len whole"
proof -
  have "(len - n + 127) div 128 + 1 \<le> (len + 127) div 128" using assms by (auto simp: min_def split: if_splits)
  from mult_le_mono1 [OF this, of "sectors_for whole"] show ?thesis by (simp add: copy_need_def algebra_simps)
qed

definition copying :: "('d \<Rightarrow> u32 \<Rightarrow> u8 list) \<Rightarrow> u8 list \<Rightarrow> int \<Rightarrow> u32 \<Rightarrow> int \<Rightarrow> u32 \<Rightarrow> nat \<Rightarrow> 'd vfs_state \<Rightarrow> bool" where
  "copying sec c a n b m off st \<longleftrightarrow> store_ok st \<and> fd_at st a VFS_O_READ n off \<and> fd_at st b VFS_O_WRITE m off
     \<and> e_perm (ent (fs st) n) AND SFS_PERM_READ \<noteq> 0 \<and> e_perm (ent (fs st) m) AND SFS_PERM_WRITE \<noteq> 0
     \<and> abs_files sec (fs st) n = Some c \<and> abs_files sec (fs st) m = Some (take off c)
     \<and> next_free (fs st) + copy_need (length c - off) (length c) \<le> 65536"

text \<open>One round: the next chunk of the source is appended to the copy.\<close>

lemma copy_round:
  assumes R: "reliable_client dev sec" and I: "copying sec c a n b m off st" and ne: "n \<noteq> m" "nat a \<noteq> nat b"
    and big: "length c + 511 < 2 ^ 32" and l: "off < length c"
  defines "bs \<equiv> take 128 (drop off c)"
  shows "\<exists>st1 st2. vfs_read dev st a 128 = (bs, st1) \<and> vfs_write dev st1 b bs (of_nat (length bs)) = (of_nat (length bs), st2)
    \<and> copying sec c a n b m (off + length bs) st2 \<and> same_tree (fs st) (fs st2) \<and> g_vfs_ctx st2 = g_vfs_ctx st
    \<and> (\<forall>i. i \<noteq> m \<longrightarrow> abs_files sec (fs st2) i = abs_files sec (fs st) i)
    \<and> (\<forall>j. j \<noteq> nat a \<and> j \<noteq> nat b \<longrightarrow> g_fds st2 ! j = g_fds st ! j)"
proof -
  have I': "store_ok st" "fd_at st a VFS_O_READ n off" "fd_at st b VFS_O_WRITE m off"
      "e_perm (ent (fs st) n) AND SFS_PERM_READ \<noteq> 0" "e_perm (ent (fs st) m) AND SFS_PERM_WRITE \<noteq> 0"
      "abs_files sec (fs st) n = Some c" "abs_files sec (fs st) m = Some (take off c)"
      "next_free (fs st) + copy_need (length c - off) (length c) \<le> 65536"
    using I by (auto simp: copying_def)
  have f: "is_file_node (fs st) n" "is_file_node (fs st) m" using I'(2,3) by (simp_all add: fd_at_def)
  have c: "content sec (fs st) n = c" using I'(6) content_abs [OF f(1)] by simp
  have cm: "content sec (fs st) m = take off c" using I'(7) content_abs [OF f(2)] by simp
  have n128: "unat (128 :: u32) = 128" by simp
  obtain st1 d where r: "vfs_read dev st a 128 = (bs, st1)" "fs st1 = (fs st)\<lparr>disk := d\<rparr>" "sec d = sec (disk (fs st))"
      "fd_at st1 a VFS_O_READ n (off + length bs)" "g_vfs_ctx st1 = g_vfs_ctx st"
    using read_seq_step [OF R _ I'(2,4), of 128] I'(1) unfolding c bs_def n128 by (auto simp: store_ok_def)
  note rf = vfs_read_fds [OF r(1)] vfs_read_ctx_len [OF r(1)]
  have s1: "store_ok st1" using I'(1) by (simp add: store_ok_def r(2))
  have af: "abs_files sec (fs st1) = abs_files sec (fs st)" using abs_files_disk r(2,3) by simp
  have at: "fd_at st1 b VFS_O_WRITE m off"
    using I'(3) rf(1) [of "nat b"] rf(2) ne(2) by (simp add: fd_at_def fd_usable_def r(2) file_size_def)
  have pm: "e_perm (ent (fs st1) m) AND SFS_PERM_WRITE \<noteq> 0" using I'(5) by (simp add: r(2))
  have lb: "length bs = min 128 (length c - off)" "off + length bs \<le> length c" "0 < length bs" using l by (auto simp: bs_def)
  have m: "sectors_for (off + length bs) \<le> sectors_for (length c)" by (rule sectors_for_mono [OF lb(2)])
  have st: "copy_need (length c - off - length bs) (length c) + sectors_for (length c) \<le> copy_need (length c - off) (length c)"
    by (rule copy_need_step) (use lb in auto)
  have nf: "next_free (fs st1) = next_free (fs st)" by (simp add: r(2) next_free_def)
  have room: "next_free (fs st1) + sectors_for (off + length bs) \<le> 65536" using I'(8) st m nf by linarith
  have ov: "off + length bs + 511 < 2 ^ 32" using big lb(2) by simp
  obtain st2 where w: "vfs_write dev st1 b bs (of_nat (length bs)) = (of_nat (length bs), st2)" "store_ok st2"
      "fd_at st2 b VFS_O_WRITE m (off + length bs)" "same_tree (fs st1) (fs st2)"
      "next_free (fs st2) \<le> next_free (fs st1) + sectors_for (off + length bs)"
      "content sec (fs st2) m = overwrite (content sec (fs st1) m) off bs"
      "\<forall>i. i \<noteq> m \<longrightarrow> abs_files sec (fs st2) i = abs_files sec (fs st1) i"
      "g_vfs_ctx st2 = g_vfs_ctx st1" "\<forall>j. j \<noteq> nat b \<longrightarrow> g_fds st2 ! j = g_fds st1 ! j"
    using write_seq_step [OF R s1 at pm ov room] by blast
  have tr: "same_tree (fs st) (fs st2)" using w(4) same_tree_trans [OF same_tree_disk] by (simp add: r(2))
  have f2: "is_file_node (fs st2) n" "is_file_node (fs st2) m" using f same_tree_live(2) [OF tr] by auto
  have an: "abs_files sec (fs st2) n = Some c" using w(7) ne(1) af I'(6) by simp
  then have "file_size (fs st2) n = length c"
    using content_abs [OF f2(1)] by (metis length_content option.inject)
  then have ra: "fd_at st2 a VFS_O_READ n (off + length bs)"
    using r(4) w(3,9) ne(2) f2(1) lb(2) by (simp add: fd_at_def fd_usable_def)
  have "content sec (fs st1) m = take off c"
    using content_abs [of "fs st1" m sec] content_abs [OF f(2), of sec] af cm f(2) by (simp add: is_file_node_def r(2))
  then have "content sec (fs st2) m = take (off + length bs) c"
    using w(6) lb by (simp add: overwrite_def bs_def take_add min_def)
  then have am: "abs_files sec (fs st2) m = Some (take (off + length bs) c)" using content_abs [OF f2(2)] by simp
  have need: "next_free (fs st2) + copy_need (length c - (off + length bs)) (length c) \<le> 65536"
    using w(5) nf I'(8) st m by simp
  have "copying sec c a n b m (off + length bs) st2"
    unfolding copying_def using w(2,3) ra an am need tr I'(4,5) by (simp add: same_tree_def)
  then show ?thesis
    using r w tr af rf(1) by (intro exI [of _ st1] exI [of _ st2]) simp
qed

lemma copy_loop_eq:
  assumes R: "reliable_client dev sec" and ne: "n \<noteq> m" "nat a \<noteq> nat b" and big: "length c + 511 < 2 ^ 32"
  shows "copying sec c a n b m off st \<Longrightarrow> off \<le> length c \<Longrightarrow> \<exists>st'. copy_loop dev a b st = Some (True, st')
    \<and> copying sec c a n b m (length c) st' \<and> same_tree (fs st) (fs st') \<and> g_vfs_ctx st' = g_vfs_ctx st
    \<and> (\<forall>i. i \<noteq> m \<longrightarrow> abs_files sec (fs st') i = abs_files sec (fs st) i)
    \<and> (\<forall>j. j \<noteq> nat a \<and> j \<noteq> nat b \<longrightarrow> g_fds st' ! j = g_fds st ! j)"
proof (induction "length c - off" arbitrary: off st rule: less_induct)
  case less
  show ?case
  proof (cases "off < length c")
    case True
    define bs where "bs = take 128 (drop off c)"
    have bs: "bs \<noteq> []" "off + length bs \<le> length c" "length c - (off + length bs) < length c - off"
      using True by (auto simp: bs_def)
    obtain st1 st2 where S: "vfs_read dev st a 128 = (bs, st1)"
        "vfs_write dev st1 b bs (of_nat (length bs)) = (of_nat (length bs), st2)"
        "copying sec c a n b m (off + length bs) st2" "same_tree (fs st) (fs st2)" "g_vfs_ctx st2 = g_vfs_ctx st"
        "\<forall>i. i \<noteq> m \<longrightarrow> abs_files sec (fs st2) i = abs_files sec (fs st) i"
        "\<forall>j. j \<noteq> nat a \<and> j \<noteq> nat b \<longrightarrow> g_fds st2 ! j = g_fds st ! j"
      using copy_round [OF R less.prems(1) ne big True] unfolding bs_def by blast
    obtain st' where T: "copy_loop dev a b st2 = Some (True, st')" "copying sec c a n b m (length c) st'"
        "same_tree (fs st2) (fs st')" "g_vfs_ctx st' = g_vfs_ctx st2"
        "\<forall>i. i \<noteq> m \<longrightarrow> abs_files sec (fs st') i = abs_files sec (fs st2) i"
        "\<forall>j. j \<noteq> nat a \<and> j \<noteq> nat b \<longrightarrow> g_fds st' ! j = g_fds st2 ! j"
      using less.hyps [OF bs(3) S(3) bs(2)] by blast
    have "copy_loop dev a b st = Some (True, st')"
      using S(1,2) T(1) bs(1) by (simp add: copy_loop.simps [of dev a b st])
    then show ?thesis using S T same_tree_trans [OF S(4) T(3)] by (intro exI [of _ st']) simp
  next
    case False
    then have off: "off = length c" using less.prems(2) by simp
    have I: "store_ok st" "fd_at st a VFS_O_READ n off" "e_perm (ent (fs st) n) AND SFS_PERM_READ \<noteq> 0"
        "abs_files sec (fs st) n = Some c" using less.prems(1) by (auto simp: copying_def)
    have f: "is_file_node (fs st) n" using I(2) by (simp add: fd_at_def)
    have c: "content sec (fs st) n = c" using I(4) content_abs [OF f] by simp
    have rd: "\<exists>st1 d. vfs_read dev st a 128 = ([], st1) \<and> fs st1 = (fs st)\<lparr>disk := d\<rparr> \<and> sec d = sec (disk (fs st))
        \<and> fd_at st1 a VFS_O_READ n off \<and> g_vfs_ctx st1 = g_vfs_ctx st"
      using read_seq_step [OF R _ I(2,3), of 128] I(1) unfolding c off by (auto simp: store_ok_def)
    then obtain st1 d where r: "vfs_read dev st a 128 = ([], st1)" "fs st1 = (fs st)\<lparr>disk := d\<rparr>" "sec d = sec (disk (fs st))"
        "fd_at st1 a VFS_O_READ n off" "g_vfs_ctx st1 = g_vfs_ctx st"
      by blast
    note rf = vfs_read_fds [OF r(1)] vfs_read_ctx_len [OF r(1)]
    have af: "abs_files sec (fs st1) = abs_files sec (fs st)" using abs_files_disk r(2,3) by simp
    have "copying sec c a n b m off st1"
      using less.prems(1) r(4) rf(1) [of "nat b"] rf(2) ne(2)
      by (simp add: copying_def af) (simp add: store_ok_def fd_at_def fd_usable_def r(2) file_size_def next_free_def)
    moreover have "copy_loop dev a b st = Some (True, st1)" by (simp add: copy_loop.simps [of dev a b st] r(1))
    ultimately show ?thesis using r rf(1) af off by (intro exI [of _ st1]) simp
  qed
qed

section \<open>Copying and moving a file\<close>

lemma two_some_free: "two_free st \<Longrightarrow> some_free st"
  by (auto simp: two_free_def some_free_def)

lemma two_free_after:
  assumes "two_free st" "i < 16"
  shows "some_free (st\<lparr>g_fds := (g_fds st)[i := d]\<rparr>)"
proof -
  obtain a b where ab: "a < 16" "b < 16" "a \<noteq> b" "fd_used (g_fds st ! a) = 0" "fd_used (g_fds st ! b) = 0" "length (g_fds st) = 16"
    using assms(1) by (auto simp: two_free_def)
  then have "\<exists>j < 16. j \<noteq> i \<and> fd_used (g_fds st ! j) = 0" by metis
  with ab(6) show ?thesis by (auto simp: some_free_def nth_list_update)
qed

definition copied :: "('d \<Rightarrow> u32 \<Rightarrow> u8 list) \<Rightarrow> u32 \<Rightarrow> u32 \<Rightarrow> 'd vfs_state \<Rightarrow> u32 \<Rightarrow> u8 list option" where
  "copied sec n m st = (abs_files sec (fs st))(m \<mapsto> (if m = n then [] else content sec (fs st) n))"

lemma copy_file_eq:
  assumes R: "reliable_store (blockdev_read dev) (blockdev_write dev) sec 65536" and ok: "store_ok st"
    and c: "is_dir (fs st) (cwd_of st session)" and fr: "two_free st"
    and src: "readable_file st session src n" and dst: "writable_place dev st session dst m"
    and big: "file_size (fs st) n + 511 < 2 ^ 32"
    and room: "next_free (fs st) + copy_need (file_size (fs st) n) (file_size (fs st) n) \<le> 65536"
  shows "\<exists>st'. copy_file dev session src dst st = Some (True, st') \<and> store_ok st' \<and> g_vfs_ctx st' = g_vfs_ctx st
    \<and> abs_files sec (fs st') = copied sec n m st \<and> live (fs st') (cwd_of st session)
    \<and> (\<forall>q r. sfs_resolve (fs st) q (cwd_of st session) = Some r \<longrightarrow> sfs_resolve (fs st') q (cwd_of st session) = Some r)
    \<and> length (g_fds st') = 16 \<and> (\<forall>j < 16. (fd_used (g_fds st' ! j) = 0) = (fd_used (g_fds st ! j) = 0))"
proof -
  let ?c = "content sec (fs st) n"
  note RC = reliable_client_I [OF R]
  have len16: "length (g_fds st) = 16" using fr by (simp add: two_free_def)
  have s: "sfs_resolve (fs st) src (cwd_of st session) = Some n" "is_file_node (fs st) n" "e_perm (ent (fs st) n) AND SFS_PERM_READ \<noteq> 0"
    using src by (auto simp: readable_file_def)
  obtain i where i: "i < 16" "vfs_open dev st session src VFS_O_READ = (int i, st\<lparr>g_fds := (g_fds st)[i := opened n VFS_O_READ]\<rparr>)"
      "fd_used (g_fds st ! i) = 0"
    using open_read [OF two_some_free [OF fr] src] by blast
  define st1 where "st1 = st\<lparr>g_fds := (g_fds st)[i := opened n VFS_O_READ]\<rparr>"
  have s1: "fs st1 = fs st" "cwd_of st1 session = cwd_of st session" "g_vfs_ctx st1 = g_vfs_ctx st"
    by (simp_all add: st1_def cwd_of_def vfs_context_for_session_def)
  have pre: "store_ok st1" "is_dir (fs st1) (cwd_of st1 session)" "writable_place dev st1 session dst m" "some_free st1"
    using ok c dst two_free_after [OF fr i(1)] s1 by (simp_all add: store_ok_def writable_place_def st1_def)
  obtain j f where O: "j < 16" "vfs_open dev st1 session dst (VFS_O_WRITE OR VFS_O_CREATE OR VFS_O_TRUNC)
        = (int j, st1\<lparr>fs := f, g_fds := (g_fds st1)[j := opened m 14]\<rparr>)"
      "fd_used (g_fds st1 ! j) = 0" "fs_tree f" "extents_ok f" "is_file_node f m" "e_perm (ent f m) AND SFS_PERM_WRITE \<noteq> 0"
      "next_free f = next_free (fs st1)" "abs_files sec f = (abs_files sec (fs st1))(m \<mapsto> [])"
      "\<forall>q n. sfs_resolve (fs st1) q (cwd_of st1 session) = Some n \<longrightarrow> sfs_resolve f q (cwd_of st1 session) = Some n"
      "\<forall>n. live (fs st1) n \<longrightarrow> live f n \<and> e_perm (ent f n) = e_perm (ent (fs st1) n)"
    using open_write [OF R pre] by blast
  define st2 where "st2 = st1\<lparr>fs := f, g_fds := (g_fds st1)[j := opened m 14]\<rparr>"
  have ij: "i \<noteq> j" using O(3) i(1) len16 by (auto simp: st1_def)
  have s2: "fs st2 = f" "g_vfs_ctx st2 = g_vfs_ctx st" "length (g_fds st2) = 16" "g_fds st2 ! i = opened n VFS_O_READ"
      "g_fds st2 ! j = opened m 14" "\<And>x. x \<noteq> i \<Longrightarrow> x \<noteq> j \<Longrightarrow> g_fds st2 ! x = g_fds st ! x"
    using ij i(1) O(1) len16 s1 by (simp_all add: st2_def st1_def)
  have lv: "live (fs st) n" using s(2) by (rule is_file_live)
  have pn: "e_perm (ent f n) AND SFS_PERM_READ \<noteq> 0" using O(11) lv s(3) s1 by simp
  have isn: "is_file_node f n"
    using fun_cong [OF O(9), of n] s(2) s1(1) O(6) by (cases "n = m") (auto simp: abs_files_def split: if_splits)
  have fa: "fd_at st2 (int i) VFS_O_READ n 0" "fd_at st2 (int j) VFS_O_WRITE m 0"
    using i(1) O(1,6) s2(1,3,4,5) isn by (simp_all add: fd_at_def fd_usable_def)
  have so: "store_ok st2" using O(4,5) by (simp add: store_ok_def s2(1))
  have "\<exists>st3. copy_loop dev (int i) (int j) st2 = Some (True, st3) \<and> store_ok st3 \<and> g_vfs_ctx st3 = g_vfs_ctx st2
      \<and> length (g_fds st3) = 16 \<and> abs_files sec (fs st3) = copied sec n m st \<and> same_tree f (fs st3)
      \<and> (\<forall>x. x \<noteq> i \<and> x \<noteq> j \<longrightarrow> g_fds st3 ! x = g_fds st2 ! x)"
  proof (cases "n = m")
    case True
    have "content sec f n = []" using fun_cong [OF O(9), of n] isn True by (simp add: abs_files_def)
    then obtain st3 d where r: "vfs_read dev st2 (int i) 128 = ([], st3)" "fs st3 = f\<lparr>disk := d\<rparr>" "sec d = sec (disk f)"
        "g_vfs_ctx st3 = g_vfs_ctx st2"
      using read_seq_step [OF RC _ fa(1), of 128] O(5) pn s2(1) by (auto simp del: content_def)
    have "copy_loop dev (int i) (int j) st2 = Some (True, st3)" by (simp add: copy_loop.simps [of dev "int i" "int j" st2] r(1))
    then show ?thesis
      using r vfs_read_fds [OF r(1)] vfs_read_ctx_len [OF r(1)] s2(3) so O(9) True s1(1)
      by (intro exI [of _ st3]) (simp add: store_ok_def s2(1) abs_files_disk [of sec d f] copied_def)
  next
    case False
    have C: "copying sec ?c (int i) n (int j) m 0 st2"
      unfolding copying_def using so fa pn O(7,8,9) False content_abs [OF s(2), of sec] room s2(1) s1(1) by simp
    obtain st3 where T: "copy_loop dev (int i) (int j) st2 = Some (True, st3)" "copying sec ?c (int i) n (int j) m (length ?c) st3"
        "same_tree (fs st2) (fs st3)" "g_vfs_ctx st3 = g_vfs_ctx st2"
        "\<forall>x. x \<noteq> m \<longrightarrow> abs_files sec (fs st3) x = abs_files sec (fs st2) x"
        "\<forall>x. x \<noteq> nat (int i) \<and> x \<noteq> nat (int j) \<longrightarrow> g_fds st3 ! x = g_fds st2 ! x"
      using copy_loop_eq [OF RC False _ _ C] ij big by auto
    have "abs_files sec (fs st3) = copied sec n m st"
      using T(2,5) False O(9) s1(1) s2(1) by (auto simp: copied_def copying_def fun_eq_iff)
    moreover have "length (g_fds st3) = 16" "store_ok st3" using T(2) by (simp_all add: copying_def fd_at_def)
    ultimately show ?thesis using T s2(1) by (intro exI [of _ st3]) simp
  qed
  then obtain st3 where T: "copy_loop dev (int i) (int j) st2 = Some (True, st3)" "store_ok st3" "g_vfs_ctx st3 = g_vfs_ctx st2"
      "length (g_fds st3) = 16" "abs_files sec (fs st3) = copied sec n m st" "same_tree f (fs st3)"
      "\<forall>x. x \<noteq> i \<and> x \<noteq> j \<longrightarrow> g_fds st3 ! x = g_fds st2 ! x" by blast
  let ?st = "vfs_close (vfs_close st3 (int i)) (int j)"
  have cl: "fs ?st = fs st3" "g_vfs_ctx ?st = g_vfs_ctx st3" "length (g_fds ?st) = 16"
    using i(1) O(1) T(4) by (simp_all add: vfs_close_def)
  have "(fd_used (g_fds ?st ! x) = 0) = (fd_used (g_fds st ! x) = 0)" if x: "x < 16" for x
  proof (cases "x = i \<or> x = j")
    case True
    have "fd_used (g_fds st ! j) = 0" using O(3) ij by (simp add: st1_def)
    then show ?thesis using True i(1,3) O(1) T(4) ij by (auto simp: vfs_close_def nth_list_update)
  next
    case False
    then show ?thesis using i(1) O(1) T(4,7) s2(6) by (simp add: vfs_close_def nth_list_update)
  qed
  moreover have "copy_file dev session src dst st = Some (True, ?st)"
    using i(2) O(2) T(1) unfolding st1_def [symmetric] st2_def [symmetric] by (simp add: copy_file_def)
  moreover have "live (fs st3) (cwd_of st session)"
    using O(11) is_dir_live [OF c] same_tree_live(1) [OF T(6)] s1(1) by simp
  moreover have "sfs_resolve (fs st3) q (cwd_of st session) = Some r" if "sfs_resolve (fs st) q (cwd_of st session) = Some r" for q r
    using that O(10) resolve_same_tree [OF T(6) O(4)] s1 by simp
  ultimately show ?thesis
    using T(2,3,5) cl s2(2) by (intro exI [of _ ?st]) (simp add: store_ok_def)
qed

lemma remove_file_eq:
  assumes R: "reliable_store (blockdev_read dev) (blockdev_write dev) sec 65536" and ok: "store_ok st"
    and c: "live (fs st) (cwd_of st session)"
    and p: "sfs_resolve (fs st) path (cwd_of st session) = Some n" "is_file_node (fs st) n"
  shows "\<exists>f. vfs_remove dev st session path = (True, st\<lparr>fs := f\<rparr>) \<and> fs_tree f \<and> extents_ok f
    \<and> abs_files sec f = (abs_files sec (fs st))(n := None)"
proof -
  have t: "fs_tree (fs st)" "extents_ok (fs st)" using ok by (simp_all add: store_ok_def)
  have S: "sector_store (blockdev_read dev) (blockdev_write dev) sec" using R by (simp add: reliable_store_def)
  have nr: "n \<noteq> sb_root_id (g_super (fs st))"
    using p(2) fs_tree_root [OF t(1)] by (auto simp: is_file_node_def is_dir_def)
  have nd: "e_type (ent (fs st) n) \<noteq> SFS_TYPE_DIR" using p(2) by (simp add: is_file_node_def)
  have "layout_ok (upd_ent (fs st) n (\<lambda>_. zero_entry))"
    by (intro layout_upd_ent [OF fs_tree_layout [OF t(1)]]) auto
  then obtain f where f: "sfs_flush dev (upd_ent (fs st) n (\<lambda>_. zero_entry)) = (True, f)"
    using reliable_client.flush_total [OF reliable_client_I [OF R]] by blast
  then have rm: "sfs_remove dev (fs st) path (cwd_of st session) = (True, f)"
    using p(1) nr nd by (simp add: sfs_remove_def)
  have "fs_tree f" "extents_ok f" "abs_files sec f = (abs_files sec (fs st))(n := None)"
    using sfs_remove_tree [OF t(1) c rm] remove_extents [OF t(2,1) c rm]
      sfs_client.remove_files [OF sfs_client_I [OF S] t(1) c t(2) p(1) rm] by auto
  with rm show ?thesis by (intro exI [of _ f]) (simp add: vfs_remove_def cwd_of_def)
qed

text \<open>The two paths that a command gets from its arguments.\<close>

definition two_args :: "u8 list \<Rightarrow> u8 list \<Rightarrow> u8 list \<Rightarrow> bool" where
  "two_args args src dst \<longleftrightarrow>
     (case arg 64 args of (ok, args1, s) \<Rightarrow> case arg 64 args1 of (ok2, _, d) \<Rightarrow>
        s = src \<and> d = dst \<and> \<not> no_arg ok s \<and> \<not> no_arg ok2 d)"

lemma cmd_cp_args:
  "two_args args src dst \<Longrightarrow> copy_file (env_dev env) (session_of k) src dst (kn_vfs k) = Some (True, st') \<Longrightarrow>
     cmd_cp env args k = Returned (k\<lparr>kn_vfs := st'\<rparr>)"
  by (auto simp: two_args_def cmd_cp_def report_def Let_def split: prod.splits)

lemma cmd_mv_args:
  "two_args args src dst \<Longrightarrow> copy_file (env_dev env) (session_of k) src dst (kn_vfs k) = Some (True, st1) \<Longrightarrow>
     vfs_remove (env_dev env) st1 (session_of k) src = (True, st') \<Longrightarrow>
     cmd_mv env args k = Returned (k\<lparr>kn_vfs := st'\<rparr>)"
  by (auto simp: two_args_def cmd_mv_def report_def Let_def split: prod.splits)

text \<open>The situation of a copy: the source can be read, the destination written, and there is room for it.\<close>

definition can_copy :: "'d block_device \<Rightarrow> 'd vfs_state \<Rightarrow> int \<Rightarrow> u8 list \<Rightarrow> u8 list \<Rightarrow> u32 \<Rightarrow> u32 \<Rightarrow> bool" where
  "can_copy dev st session src dst n m \<longleftrightarrow> store_ok st \<and> is_dir (fs st) (cwd_of st session) \<and> two_free st
     \<and> readable_file st session src n \<and> writable_place dev st session dst m \<and> file_size (fs st) n + 511 < 2 ^ 32
     \<and> next_free (fs st) + copy_need (file_size (fs st) n) (file_size (fs st) n) \<le> 65536"

lemma mv_eq:
  assumes R: "reliable_store (blockdev_read (env_dev env)) (blockdev_write (env_dev env)) sec 65536"
    and c: "can_copy (env_dev env) (kn_vfs k) (session_of k) src dst n m" and a: "two_args args src dst"
  shows "\<exists>st'. cmd_mv env args k = Returned (k\<lparr>kn_vfs := st'\<rparr>) \<and> store_ok st'
    \<and> abs_files sec (fs st') = (copied sec n m (kn_vfs k))(n := None)"
proof -
  let ?st = "kn_vfs k" and ?s = "session_of k"
  have C: "store_ok ?st" "is_dir (fs ?st) (cwd_of ?st ?s)" "two_free ?st" "readable_file ?st ?s src n"
      "writable_place (env_dev env) ?st ?s dst m" "file_size (fs ?st) n + 511 < 2 ^ 32"
      "next_free (fs ?st) + copy_need (file_size (fs ?st) n) (file_size (fs ?st) n) \<le> 65536"
    using c by (auto simp: can_copy_def)
  obtain st1 where T: "copy_file (env_dev env) ?s src dst ?st = Some (True, st1)" "store_ok st1" "g_vfs_ctx st1 = g_vfs_ctx ?st"
      "abs_files sec (fs st1) = copied sec n m ?st" "live (fs st1) (cwd_of ?st ?s)"
      "\<forall>q r. sfs_resolve (fs ?st) q (cwd_of ?st ?s) = Some r \<longrightarrow> sfs_resolve (fs st1) q (cwd_of ?st ?s) = Some r"
    using copy_file_eq [OF R C] by blast
  have cw: "cwd_of st1 ?s = cwd_of ?st ?s" using T(3) by (simp add: cwd_of_def vfs_context_for_session_def)
  have n: "sfs_resolve (fs st1) src (cwd_of st1 ?s) = Some n" using C(4) T(6) cw by (simp add: readable_file_def)
  have "abs_files sec (fs st1) n \<noteq> None"
    using C(4) by (simp add: T(4) copied_def readable_file_def abs_files_def)
  then have isf: "is_file_node (fs st1) n" by (simp add: abs_files_def split: if_splits)
  obtain f where f: "vfs_remove (env_dev env) st1 ?s src = (True, st1\<lparr>fs := f\<rparr>)" "fs_tree f" "extents_ok f"
      "abs_files sec f = (abs_files sec (fs st1))(n := None)"
    using remove_file_eq [OF R T(2) _ n isf] T(5) cw by auto
  show ?thesis
    using cmd_mv_args [OF a T(1) f(1)] f(2-4) T(4) by (intro exI [of _ "st1\<lparr>fs := f\<rparr>"]) (simp add: store_ok_def)
qed

section \<open>A concrete command\<close>

lemma demo_two_free: "two_free demo_vfs"
  unfolding two_free_def
  by (intro conjI exI [of _ 1] exI [of _ 2]) (simp_all add: demo_vfs_def nth_Cons')

lemma demo_args:
  "two_args (str ''/a b'') (str ''/a'' @ replicate 62 0) (str ''b'' @ replicate 63 0)"
  "two_args (str ''/a /a'') (str ''/a'' @ replicate 62 0) (str ''/a'' @ replicate 62 0)"
  by code_simp+

lemma demo_room: "copy_need 5 5 = 1"
  by (simp add: copy_need_def sectors_for_def)

lemma demo_cwd: "cwd_of demo_vfs s = 0"
  by (simp add: cwd_of_def demo_vfs_sel)

lemma demo_resolve_arg: "sfs_resolve demo_fs (str ''/a'' @ replicate 62 0) 0 = Some 1"
proof -
  have "comps (cstr (str ''/a'' @ replicate 62 0)) = comps (cstr (str ''/a''))" by code_simp
  moreover have "walk_start demo_fs (str ''/a'' @ replicate 62 0) 0 = walk_start demo_fs (str ''/a'') 0"
    by (simp add: walk_start_def str_def)
  ultimately show ?thesis using demo_resolve by (simp add: sfs_resolve_follow)
qed

lemma demo_create_arg:
  "sfs_resolve demo_fs (str ''b'' @ replicate 63 0) 0 = None"
  "\<exists>f. sfs_create ram_dev demo_fs (str ''b'' @ replicate 63 0) 0 SFS_TYPE_FILE 3 = (Some 2, f)"
proof -
  have w: "create_walk demo_fs (str ''b'' @ replicate 63 0) 0 0 (replicate 32 0) = Some (0, str ''b'' @ replicate 31 0)" by code_simp
  show c: "\<exists>f. sfs_create ram_dev demo_fs (str ''b'' @ replicate 63 0) 0 SFS_TYPE_FILE 3 = (Some 2, f)"
    by (rule demo_create_at [OF w]) (simp_all add: str_def)
  have "plain_path (str ''b'' @ replicate 63 0)" by code_simp
  then show "sfs_resolve demo_fs (str ''b'' @ replicate 63 0) 0 = None"
    using c sfs_create_resolves [OF demo_tree demo_file(4)] by blast
qed

lemma demo_can_copy:
  "can_copy ram_dev demo_vfs s (str ''/a'' @ replicate 62 0) (str ''b'' @ replicate 63 0) 1 2"
  "can_copy ram_dev demo_vfs s (str ''/a'' @ replicate 62 0) (str ''/a'' @ replicate 62 0) 1 1"
  using demo_create_arg
  by (simp_all add: can_copy_def demo_fd demo_two_free readable_file_def writable_place_def demo_cwd demo_vfs_sel demo_facts
      demo_resolve_arg demo_room)

section \<open>Properties\<close>

text \<open>
  C3: The shell command cp, on a disk that keeps what it wrote and has room for the copy: it always returns, prints nothing, and
  the file that the destination names (an existing one, or a new one) holds exactly the bytes of the source, whatever their
  number, while every other file keeps its content.  If both paths name the same file, however, the file is empty afterwards:
  opening the destination truncates it before the first byte is read.
\<close>

theorem cp_copies:
  assumes "reliable_store (blockdev_read (env_dev env)) (blockdev_write (env_dev env)) sec 65536"
    and "can_copy (env_dev env) (kn_vfs k) (session_of k) src dst n m" "two_args args src dst"
  shows "\<exists>st'. cmd_cp env args k = Returned (k\<lparr>kn_vfs := st'\<rparr>) \<and> store_ok st'
    \<and> abs_files sec (fs st') = (abs_files sec (fs (kn_vfs k)))(m \<mapsto> (if m = n then [] else content sec (fs (kn_vfs k)) n))
    \<and> (\<forall>j < 16. (fd_used (g_fds st' ! j) = 0) = (fd_used (g_fds (kn_vfs k) ! j) = 0))"
proof -
  obtain st' where "copy_file (env_dev env) (session_of k) src dst (kn_vfs k) = Some (True, st')" "store_ok st'"
      "abs_files sec (fs st') = copied sec n m (kn_vfs k)"
      "\<forall>j < 16. (fd_used (g_fds st' ! j) = 0) = (fd_used (g_fds (kn_vfs k) ! j) = 0)"
    using copy_file_eq [OF assms(1)] assms(2) unfolding can_copy_def by blast
  with cmd_cp_args [OF assms(3) this(1)] show ?thesis by (intro exI [of _ st']) (simp add: copied_def)
qed

theorem cp_copies_witness:
  "\<forall>(env :: (_, 'm) env) k. \<exists>st'. cmd_cp (env\<lparr>env_dev := ram_dev\<rparr>) (str ''/a b'') (k\<lparr>kn_vfs := demo_vfs\<rparr>) = Returned (k\<lparr>kn_vfs := st'\<rparr>)
    \<and> abs_files ram_sec (fs st') 2 = Some (str ''hello'')"
proof (intro allI)
  fix env :: "(u32 \<Rightarrow> u8 list, 'm) env" and k :: "(u32 \<Rightarrow> u8 list, 'm) kernel"
  let ?env = "env\<lparr>env_dev := ram_dev\<rparr>" and ?k = "k\<lparr>kn_vfs := demo_vfs\<rparr>"
  show "\<exists>st'. cmd_cp ?env (str ''/a b'') ?k = Returned (k\<lparr>kn_vfs := st'\<rparr>) \<and> abs_files ram_sec (fs st') 2 = Some (str ''hello'')"
    using cp_copies [of ?env ram_sec ?k, OF _ _ demo_args(1)] ram_dev_reliable demo_can_copy(1)
    by (force simp: demo_vfs_sel demo_content)
qed

text \<open>
  The shell command mv on two different files: it returns without a message, the destination holds the bytes of the
  source, the source is gone, and every other file keeps its content.
\<close>

theorem mv_moves:
  assumes "reliable_store (blockdev_read (env_dev env)) (blockdev_write (env_dev env)) sec 65536"
    and "can_copy (env_dev env) (kn_vfs k) (session_of k) src dst n m" "two_args args src dst" "m \<noteq> n"
  shows "\<exists>st'. cmd_mv env args k = Returned (k\<lparr>kn_vfs := st'\<rparr>) \<and> store_ok st'
    \<and> abs_files sec (fs st') = (abs_files sec (fs (kn_vfs k)))(m \<mapsto> content sec (fs (kn_vfs k)) n, n := None)"
  using mv_eq [OF assms(1-3)] assms(4) by (simp add: copied_def)

theorem mv_moves_witness:
  "\<forall>(env :: (_, 'm) env) k. \<exists>st'. cmd_mv (env\<lparr>env_dev := ram_dev\<rparr>) (str ''/a b'') (k\<lparr>kn_vfs := demo_vfs\<rparr>) = Returned (k\<lparr>kn_vfs := st'\<rparr>)
    \<and> abs_files ram_sec (fs st') 2 = Some (str ''hello'') \<and> abs_files ram_sec (fs st') 1 = None"
proof (intro allI)
  fix env :: "(u32 \<Rightarrow> u8 list, 'm) env" and k :: "(u32 \<Rightarrow> u8 list, 'm) kernel"
  let ?env = "env\<lparr>env_dev := ram_dev\<rparr>" and ?k = "k\<lparr>kn_vfs := demo_vfs\<rparr>"
  show "\<exists>st'. cmd_mv ?env (str ''/a b'') ?k = Returned (k\<lparr>kn_vfs := st'\<rparr>)
      \<and> abs_files ram_sec (fs st') 2 = Some (str ''hello'') \<and> abs_files ram_sec (fs st') 1 = None"
    using mv_moves [of ?env ram_sec ?k, OF _ _ demo_args(1)] ram_dev_reliable demo_can_copy(1)
    by (force simp: demo_vfs_sel demo_content)
qed

text \<open>
  C29: mv of a file to itself destroys it: for every writable file, the command reports success and the file is gone with its
  content, whether the two paths are equal or only lead to the same node.
\<close>

theorem mv_same_file_lost:
  assumes "reliable_store (blockdev_read (env_dev env)) (blockdev_write (env_dev env)) sec 65536"
    and "can_copy (env_dev env) (kn_vfs k) (session_of k) src dst n n" "two_args args src dst"
  shows "\<exists>st'. cmd_mv env args k = Returned (k\<lparr>kn_vfs := st'\<rparr>) \<and> store_ok st'
    \<and> abs_files sec (fs st') = (abs_files sec (fs (kn_vfs k)))(n := None)"
  using mv_eq [OF assms] by (simp add: copied_def)

theorem mv_same_file_lost_witness:
  "\<forall>(env :: (_, 'm) env) k. \<exists>st'. cmd_mv (env\<lparr>env_dev := ram_dev\<rparr>) (str ''/a /a'') (k\<lparr>kn_vfs := demo_vfs\<rparr>) = Returned (k\<lparr>kn_vfs := st'\<rparr>)
    \<and> abs_files ram_sec (fs st') 1 = None"
proof (intro allI)
  fix env :: "(u32 \<Rightarrow> u8 list, 'm) env" and k :: "(u32 \<Rightarrow> u8 list, 'm) kernel"
  let ?env = "env\<lparr>env_dev := ram_dev\<rparr>" and ?k = "k\<lparr>kn_vfs := demo_vfs\<rparr>"
  show "\<exists>st'. cmd_mv ?env (str ''/a /a'') ?k = Returned (k\<lparr>kn_vfs := st'\<rparr>) \<and> abs_files ram_sec (fs st') 1 = None"
    using mv_same_file_lost [of ?env ram_sec ?k, OF _ _ demo_args(2)] ram_dev_reliable demo_can_copy(2)
    by (force simp: demo_vfs_sel demo_content)
qed

end
