(* ===== verification/CLI.thy ===== *)
theory CLI
  imports Commands
begin

text \<open>
  The command line of a terminal (\<^verbatim>\<open>src/core/cli.c\<close>): the line editor with its history and the
  completion of command names, and the loop that executes the lines.

  The local variables of \<^verbatim>\<open>cli_run\<close> are a record.  The array \<open>cl_input\<close> is not cleared when the loop starts, so its first
  content is arbitrary.  The keys of the terminal are the list in the kernel state.
\<close>

abbreviation INPUT_MAX :: nat where "INPUT_MAX \<equiv> 128"
abbreviation HISTORY_MAX :: nat where "HISTORY_MAX \<equiv> 16"

record cli =
  cl_input :: "u8 list"
  cl_history :: "u8 list list"
  cl_len :: nat
  cl_cursor :: nat
  cl_prev_len :: nat
  cl_row :: nat
  cl_col :: nat
  cl_count :: nat
  cl_pos :: int

section \<open>Strings\<close>

fun starts_with :: "u8 list \<Rightarrow> u8 list \<Rightarrow> bool" where
  "starts_with s [] = True"
| "starts_with s (c # p) = (if c = 0 then True else if rd s 0 \<noteq> c then False else starts_with (tl s) p)"

definition copy_str :: "u8 list \<Rightarrow> u8 list \<Rightarrow> nat \<Rightarrow> u8 list" where
  "copy_str dst src mx = s_copy dst src mx"

section \<open>Drawing\<close>

definition cli_print_prompt :: "('d, 'm) kernel \<Rightarrow> ('d, 'm) kernel" where
  "cli_print_prompt k =
     (let cwd = vfs_get_cwd (kn_vfs k) (session_of k)
      in emit [if rd cwd 0 \<noteq> 0 then Text cwd else say ''/'', say ''> ''] k)"

text \<open>The prompt, and \<^verbatim>\<open>display_get_cursor(&prompt_row, &prompt_col)\<close>.\<close>

definition prompt :: "cli \<times> ('d, 'm) kernel \<Rightarrow> cli \<times> ('d, 'm) kernel" where
  "prompt ck =
     (case ck of (c, k) \<Rightarrow>
        let k1 = cli_print_prompt k
        in case display_get_cursor (kn_disp k1) (tid_of k1) of (row, col) \<Rightarrow> (c\<lparr>cl_row := row, cl_col := col\<rparr>, k1))"

definition set_cursor :: "cli \<times> ('d, 'm) kernel \<Rightarrow> cli \<times> ('d, 'm) kernel" where
  "set_cursor ck =
     (case ck of (c, k) \<Rightarrow> (c, k\<lparr>kn_disp := display_set_cursor (kn_disp k) (tid_of k) (cl_row c) (cl_col c + cl_cursor c)\<rparr>))"

definition redraw_input_line :: "cli \<times> ('d, 'm) kernel \<Rightarrow> cli \<times> ('d, 'm) kernel" where
  "redraw_input_line ck =
     (case ck of (c, k) \<Rightarrow>
        let tid = tid_of k; n = cl_len c;
            d1 = display_set_cursor (display_begin_update (kn_disp k)) tid (cl_row c) (cl_col c);
            d2 = foldl (\<lambda>d ch. display_put_char d tid ch) d1 (take n (cl_input c) @ replicate (cl_prev_len c - n) 32);
            d3 = display_end_update (display_set_cursor d2 tid (cl_row c) (cl_col c + cl_cursor c)) tid
        in (c\<lparr>cl_prev_len := n\<rparr>, k\<lparr>kn_disp := d3\<rparr>))"

section \<open>The keys of the line editor\<close>

text \<open>What a key leaves to do on the screen.\<close>

datatype paint = Nothing | Cursor | Line

definition key_left :: "cli \<Rightarrow> cli \<times> paint" where
  "key_left c = (if cl_cursor c > 0 then (c\<lparr>cl_cursor := cl_cursor c - 1\<rparr>, Cursor) else (c, Nothing))"

definition key_right :: "cli \<Rightarrow> cli \<times> paint" where
  "key_right c = (if cl_cursor c < cl_len c then (c\<lparr>cl_cursor := cl_cursor c + 1\<rparr>, Cursor) else (c, Nothing))"

definition key_delete :: "cli \<Rightarrow> cli \<times> paint" where
  "key_delete c =
     (if cl_cursor c < cl_len c
      then (c\<lparr>cl_input := shift_left (cl_input c) (cl_len c) (cl_cursor c), cl_len := cl_len c - 1\<rparr>, Line) else (c, Nothing))"

definition key_backspace :: "cli \<Rightarrow> cli \<times> paint" where
  "key_backspace c =
     (if cl_cursor c > 0
      then (c\<lparr>cl_input := shift_left (cl_input c) (cl_len c) (cl_cursor c - 1), cl_cursor := cl_cursor c - 1,
              cl_len := cl_len c - 1\<rparr>, Line) else (c, Nothing))"

definition key_char :: "int \<Rightarrow> cli \<Rightarrow> cli \<times> paint" where
  "key_char key c =
     (if 32 \<le> key \<and> key \<le> 126 \<and> cl_len c < INPUT_MAX - 1
      then (c\<lparr>cl_input := (shift_right (cl_input c) (cl_cursor c) (cl_len c))[cl_cursor c := of_int key],
              cl_cursor := cl_cursor c + 1, cl_len := cl_len c + 1\<rparr>, Line) else (c, Nothing))"

text \<open>The line becomes what the array holds.\<close>

definition whole_line :: "cli \<Rightarrow> cli" where
  "whole_line c = c\<lparr>cl_len := s_len (cl_input c), cl_cursor := s_len (cl_input c)\<rparr>"

definition key_up :: "cli \<Rightarrow> cli \<times> paint" where
  "key_up c =
     (if cl_count c > 0 then
        let p = (if cl_pos c < 0 then int (cl_count c) - 1 else if cl_pos c > 0 then cl_pos c - 1 else cl_pos c)
        in (whole_line (c\<lparr>cl_pos := p, cl_input := copy_str (cl_input c) (cl_history c ! nat p) INPUT_MAX\<rparr>), Line)
      else (c, Nothing))"

definition key_down :: "cli \<Rightarrow> cli \<times> paint" where
  "key_down c =
     (if cl_count c > 0 \<and> cl_pos c \<ge> 0 then
        (if cl_pos c < int (cl_count c) - 1
         then (whole_line (c\<lparr>cl_pos := cl_pos c + 1,
                 cl_input := copy_str (cl_input c) (cl_history c ! nat (cl_pos c + 1)) INPUT_MAX\<rparr>), Line)
         else (whole_line (c\<lparr>cl_pos := -1, cl_input := (cl_input c)[0 := 0]\<rparr>), Line))
      else (c, Nothing))"

definition line_key :: "int \<Rightarrow> cli \<Rightarrow> cli \<times> paint" where
  "line_key key c =
     (if key = KEY_LEFT then key_left c
      else if key = KEY_RIGHT then key_right c
      else if key = KEY_DELETE then key_delete c
      else if key = 8 then key_backspace c
      else if key = KEY_UP then key_up c
      else if key = KEY_DOWN then key_down c
      else key_char key c)"

fun painted :: "paint \<Rightarrow> cli \<times> ('d, 'm) kernel \<Rightarrow> cli \<times> ('d, 'm) kernel" where
  "painted Nothing ck = ck"
| "painted Cursor ck = set_cursor ck"
| "painted Line ck = redraw_input_line ck"

section \<open>Completion\<close>

definition tab_matches :: "command_entry list \<Rightarrow> u8 list \<Rightarrow> u8 list list" where
  "tab_matches table input = filter (\<lambda>name. starts_with name input) (map ce_name table)"

definition tab_complete :: "u8 list \<Rightarrow> cli \<Rightarrow> cli" where
  "tab_complete name c =
     (let c1 = c\<lparr>cl_input := copy_str (cl_input c) name INPUT_MAX\<rparr>; n = s_len (cl_input c1)
      in if n + 1 < INPUT_MAX then c1\<lparr>cl_input := (cl_input c1)[n := 32, n + 1 := 0], cl_len := n + 1, cl_cursor := n + 1\<rparr>
         else c1\<lparr>cl_len := n, cl_cursor := n\<rparr>)"

definition key_tab :: "cli \<times> ('d, 'm) kernel \<Rightarrow> cli \<times> ('d, 'm) kernel" where
  "key_tab ck =
     (case ck of (c, k) \<Rightarrow>
        let names = tab_matches (kn_table k) (cl_input c) in
        if 32 \<in> set (take (cl_len c) (cl_input c)) \<or> cl_cursor c \<noteq> cl_len c \<or> cl_len c = 0 then (c, k)
        else if length names = 1 then redraw_input_line (tab_complete (hd names) c, k)
        else if length names > 1 then
          redraw_input_line (prompt (c, emit ([nl] @ concat (map (\<lambda>name. [Text name, Char 32]) names) @ [nl]) k))
        else (c, k))"

section \<open>Executing a line\<close>

definition history_push :: "cli \<Rightarrow> cli" where
  "history_push c =
     (if cl_count c = 0 \<or> \<not> strings_equal (cl_history c ! (cl_count c - 1)) (cl_input c) then
        (if cl_count c < HISTORY_MAX
         then c\<lparr>cl_history := (cl_history c)[cl_count c := copy_str (cl_history c ! cl_count c) (cl_input c) INPUT_MAX],
                cl_count := cl_count c + 1\<rparr>
         else let h = foldl (\<lambda>h i. h[i - 1 := copy_str (h ! (i - 1)) (h ! i) INPUT_MAX]) (cl_history c) [1..<HISTORY_MAX]
           in c\<lparr>cl_history := h[HISTORY_MAX - 1 := copy_str (h ! (HISTORY_MAX - 1)) (cl_input c) INPUT_MAX]\<rparr>)
      else c)"

definition new_line :: "cli \<Rightarrow> cli" where
  "new_line c = c\<lparr>cl_len := 0, cl_cursor := 0, cl_prev_len := 0, cl_pos := -1, cl_input := (cl_input c)[0 := 0]\<rparr>"

datatype ('d, 'm) turn = Again "cli \<times> ('d, 'm) kernel" | Stopped "('d, 'm) fate"

definition key_enter :: "('d, 'm) env \<Rightarrow> cli \<times> ('d, 'm) kernel \<Rightarrow> ('d, 'm) turn" where
  "key_enter env ck =
     (case ck of (c0, k0) \<Rightarrow>
        let c = c0\<lparr>cl_input := (cl_input c0)[cl_len c0 := 0]\<rparr>; k = emit [nl] k0 in
        if cl_len c > 0 then
          (let c1 = history_push c in
           case command_execute env (cl_input c1) k of
             (known, Returned k1) \<Rightarrow>
               Again (prompt (new_line c1, if known then k1 else emit [say ''Unknown command: '', Text (cl_input c1), nl] k1))
           | (_, f) \<Rightarrow> Stopped f)
        else Again (prompt (new_line c, k)))"

text \<open>One round of the loop.  Only a key that is none of the special ones gets to the preemption point at its end.\<close>

definition special_key :: "int \<Rightarrow> bool" where
  "special_key key \<longleftrightarrow> key \<in> {KEY_LEFT, KEY_RIGHT, KEY_DELETE, 8, KEY_UP, KEY_DOWN}"

definition cli_turn :: "('d, 'm) env \<Rightarrow> int \<Rightarrow> cli \<times> ('d, 'm) kernel \<Rightarrow> ('d, 'm) turn" where
  "cli_turn env key ck =
     (if key = 9 then Again (key_tab ck)
      else if key = 10 then key_enter env ck
      else case ck of (c, k) \<Rightarrow>
        case line_key key c of (c1, p) \<Rightarrow>
        case painted p (c1, k) of (c2, k2) \<Rightarrow>
          if special_key key then Again (c2, k2)
          else (case switched env (scheduler_maybe_preempt (kn_sched k2)) k2 of
                  Returned k3 \<Rightarrow> Again (c2, k3)
                | f \<Rightarrow> Stopped f))"

text \<open>The loop: suspended when it asks for a key that is not there, \<open>None\<close> when the keys never end.\<close>

partial_function (option) cli_loop :: "('d, 'm) env \<Rightarrow> cli \<Rightarrow> ('d, 'm) kernel \<Rightarrow> ('d, 'm) fate option" where
  "cli_loop env c k =
     (case kn_keys k of
        [] \<Rightarrow> Some (Suspended k)
      | key # keys \<Rightarrow>
          (case cli_turn env key (c, k\<lparr>kn_keys := keys\<rparr>) of
             Stopped f \<Rightarrow> Some f
           | Again (c1, k1) \<Rightarrow> cli_loop env c1 k1))"

text \<open>The start of \<^verbatim>\<open>cli_run\<close>; the parameter is what the stack held.\<close>

definition cli_start :: "u8 list \<Rightarrow> u8 list list \<Rightarrow> cli" where
  "cli_start input history = \<lparr>cl_input = input[0 := 0], cl_history = map (\<lambda>h. h[0 := 0]) history, cl_len = 0, cl_cursor = 0,
     cl_prev_len = 0, cl_row = 0, cl_col = 0, cl_count = 0, cl_pos = -1\<rparr>"

definition cli_run :: "('d, 'm) env \<Rightarrow> u8 list \<Rightarrow> u8 list list \<Rightarrow> ('d, 'm) kernel \<Rightarrow> ('d, 'm) fate option" where
  "cli_run env input history k = (case prompt (cli_start input history, k) of (c, k1) \<Rightarrow> cli_loop env c k1)"

end
