(* ===== verification/CLI_Props.thy ===== *)
theory CLI_Props
  imports CLI Editor_Buffer
begin

text \<open>
  The properties of the command line: the buffer with its cursor implements a line that is split at the cursor, the history
  implements the list of the last sixteen lines, and the completion looks at more than the line.
\<close>

section \<open>The line and its cursor\<close>

definition before_cursor :: "cli \<Rightarrow> u8 list" where
  "before_cursor c = take (cl_cursor c) (cl_input c)"

definition after_cursor :: "cli \<Rightarrow> u8 list" where
  "after_cursor c = drop (cl_cursor c) (take (cl_len c) (cl_input c))"

definition cli_ok :: "cli \<Rightarrow> bool" where
  "cli_ok c \<longleftrightarrow> length (cl_input c) = 128 \<and> cl_len c < 128 \<and> cl_cursor c \<le> cl_len c \<and> 0 \<notin> set (take (cl_len c) (cl_input c))
     \<and> length (cl_history c) = 16 \<and> (\<forall>h \<in> set (cl_history c). length h = 128 \<and> length (cstr h) < 128)
     \<and> cl_count c \<le> 16 \<and> -1 \<le> cl_pos c \<and> cl_pos c < int (cl_count c)"

text \<open>The specification: a line split at the cursor, at most 127 characters.\<close>

definition zip_key :: "int \<Rightarrow> u8 list \<times> u8 list \<Rightarrow> u8 list \<times> u8 list" where
  "zip_key key z =
     (case z of (l, r) \<Rightarrow>
        if key = KEY_LEFT then (if l = [] then z else (butlast l, last l # r))
        else if key = KEY_RIGHT then (if r = [] then z else (l @ [hd r], tl r))
        else if key = KEY_DELETE then (l, tl r)
        else if key = 8 then (butlast l, r)
        else if 32 \<le> key \<and> key \<le> 126 \<and> length l + length r < 127 then (l @ [of_int key], r)
        else z)"

definition edit_key_code :: "int \<Rightarrow> bool" where
  "edit_key_code key \<longleftrightarrow> key \<notin> {KEY_UP, KEY_DOWN, 9, 10}"

lemma line_split:
  assumes "cli_ok c"
  shows "take (cl_len c) (cl_input c) = before_cursor c @ after_cursor c" "length (before_cursor c) = cl_cursor c"
    "length (before_cursor c) + length (after_cursor c) = cl_len c"
proof -
  have "before_cursor c = take (cl_cursor c) (take (cl_len c) (cl_input c))"
    using assms by (simp add: before_cursor_def cli_ok_def min_def)
  then show "take (cl_len c) (cl_input c) = before_cursor c @ after_cursor c" by (metis after_cursor_def append_take_drop_id)
  show "length (before_cursor c) = cl_cursor c" "length (before_cursor c) + length (after_cursor c) = cl_len c"
    using assms by (simp_all add: before_cursor_def after_cursor_def cli_ok_def)
qed

lemma line_is:
  assumes "take (cl_len c) (cl_input c) = l @ r" "cl_cursor c = length l" "cl_len c \<le> length (cl_input c)"
  shows "before_cursor c = l" "after_cursor c = r"
proof -
  have "length l \<le> cl_len c" using arg_cong [OF assms(1), of length] assms(3) by simp
  then have "before_cursor c = take (length l) (take (cl_len c) (cl_input c))"
    by (simp add: before_cursor_def assms(2) min_def)
  then show "before_cursor c = l" by (simp add: assms(1))
  show "after_cursor c = r" by (simp add: after_cursor_def assms)
qed

text \<open>An edit of the array: the new line, in terms of the old one.\<close>

lemma edited:
  assumes "cli_ok c" "length buf = 128" "n < 128" "take n buf = l @ r" "0 \<notin> set l \<union> set r" "k = length l"
  defines "c' \<equiv> c\<lparr>cl_input := buf, cl_len := n, cl_cursor := k\<rparr>"
  shows "cli_ok c' \<and> before_cursor c' = l \<and> after_cursor c' = r"
proof -
  have "length l \<le> n" using arg_cong [OF assms(4), of length] assms(2,3) by simp
  moreover have "before_cursor c' = l \<and> after_cursor c' = r"
    using line_is [of c' l r] assms(2-4,6) by (simp add: c'_def)
  ultimately show ?thesis using assms by (auto simp: cli_ok_def c'_def)
qed

lemma cli_key_refines:
  assumes ok: "cli_ok c" and key: "edit_key_code key"
  shows "cli_ok (fst (line_key key c))
    \<and> (before_cursor (fst (line_key key c)), after_cursor (fst (line_key key c))) = zip_key key (before_cursor c, after_cursor c)"
proof -
  let ?l = "before_cursor c" and ?r = "after_cursor c" and ?buf = "cl_input c" and ?n = "cl_len c" and ?k = "cl_cursor c"
  note S = line_split [OF ok]
  have o: "length ?buf = 128" "?n < 128" "?k \<le> ?n" "0 \<notin> set ?l \<union> set ?r"
    using ok S(1) by (auto simp: cli_ok_def)
  have same: "c\<lparr>cl_cursor := x\<rparr> = c\<lparr>cl_input := ?buf, cl_len := ?n, cl_cursor := x\<rparr>" for x by simp
  have z: "0 \<notin> set l \<union> set r" if "set l \<union> set r \<subseteq> set ?l \<union> set ?r" for l r using that o(4) by blast
  have l0: "?k = 0 \<longleftrightarrow> ?l = []" using S(2) by auto
  have r0: "?k < ?n \<longleftrightarrow> ?r \<noteq> []" using S(2,3) by (cases ?r) auto
  have E: ?thesis if "length buf = 128" "n < 128" "take n buf = l @ r" "0 \<notin> set l \<union> set r" "k = length l"
      "fst (line_key key c) = c\<lparr>cl_input := buf, cl_len := n, cl_cursor := k\<rparr>" "zip_key key (?l, ?r) = (l, r)" for buf n k l r
    using edited [OF ok that(1-5)] unfolding that(6,7) by blast
  consider "key = KEY_LEFT" | "key = KEY_RIGHT" | "key = KEY_DELETE" | "key = 8"
    | "key \<notin> {KEY_LEFT, KEY_RIGHT, KEY_DELETE, 8, KEY_UP, KEY_DOWN}"
    using key by (auto simp: edit_key_code_def)
  then show ?thesis
  proof cases
    case 1
    show ?thesis
    proof (cases "?l = []")
      case False
      have "take ?n ?buf = butlast ?l @ (last ?l # ?r)" using S(1) False by simp
      moreover have "0 \<notin> set (butlast ?l) \<union> set (last ?l # ?r)"
        using False by (intro z) (auto dest: in_set_butlastD)
      ultimately show ?thesis
        using edited [OF ok o(1,2), of "butlast ?l" "last ?l # ?r" "?k - 1"] S(2) False l0 1
        by (simp add: line_key_def key_left_def zip_key_def)
    qed (use ok l0 1 in \<open>simp add: line_key_def key_left_def zip_key_def\<close>)
  next
    case 2
    show ?thesis
    proof (cases ?r)
      case (Cons x xs)
      then have "take ?n ?buf = (?l @ [x]) @ xs" using S(1) by simp
      moreover have "0 \<notin> set (?l @ [x]) \<union> set xs" using Cons by (intro z) auto
      ultimately show ?thesis
        using edited [OF ok o(1,2), of "?l @ [x]" xs "?k + 1"] S(2) Cons r0 2
        by (simp add: line_key_def key_right_def zip_key_def)
    qed (use ok r0 2 in \<open>simp add: line_key_def key_right_def zip_key_def\<close>)
  next
    case 3
    show ?thesis
    proof (cases ?r)
      case (Cons x xs)
      then have k: "?k < ?n" using r0 by simp
      note D = delete_moves [of ?n ?buf ?k]
      have t: "take (?n - 1) (shift_left ?buf ?n ?k) = ?l @ xs"
        using D(1) k o S Cons by (simp add: before_cursor_def [symmetric])
      have nz: "0 \<notin> set ?l \<union> set xs" using Cons by (intro z) auto
      have len: "length (shift_left ?buf ?n ?k) = 128" using D(2) k o by simp
      have "fst (line_key key c) = c\<lparr>cl_input := shift_left ?buf ?n ?k, cl_len := ?n - 1, cl_cursor := ?k\<rparr>"
        using k by (simp add: line_key_def key_delete_def 3)
      from E [OF len less_imp_diff_less [OF o(2)] t nz S(2) [symmetric] this] show ?thesis
        by (simp add: zip_key_def 3 Cons)
    qed (use ok r0 3 in \<open>simp add: line_key_def key_delete_def zip_key_def\<close>)
  next
    case 4
    show ?thesis
    proof (cases "?l = []")
      case False
      then have k: "?k - 1 < ?n" "0 < ?k" using l0 o(3) by auto
      note D = delete_moves [of ?n ?buf "?k - 1"]
      have tl: "take (?k - 1) ?buf = butlast ?l" using o by (simp add: before_cursor_def butlast_take)
      have t: "take (?n - 1) (shift_left ?buf ?n (?k - 1)) = butlast ?l @ ?r"
        using D(1) k o unfolding tl [symmetric] by (simp add: after_cursor_def)
      have nz: "0 \<notin> set (butlast ?l) \<union> set ?r" by (intro z) (auto dest: in_set_butlastD)
      have len: "length (shift_left ?buf ?n (?k - 1)) = 128" using D(2) k o by simp
      have kl: "?k - 1 = length (butlast ?l)" by (simp add: S(2))
      have "fst (line_key key c) = c\<lparr>cl_input := shift_left ?buf ?n (?k - 1), cl_len := ?n - 1, cl_cursor := ?k - 1\<rparr>"
        using k by (simp add: line_key_def key_backspace_def 4)
      from E [OF len less_imp_diff_less [OF o(2)] t nz kl this] show ?thesis by (simp add: zip_key_def 4)
    qed (use ok l0 4 in \<open>simp add: line_key_def key_backspace_def zip_key_def\<close>)
  next
    case 5
    show ?thesis
    proof (cases "32 \<le> key \<and> key \<le> 126 \<and> ?n < 127")
      case True
      note I = insert_moves [of ?n ?buf ?k "of_int key"]
      have "take (?n + 1) ((shift_right ?buf ?k ?n)[?k := of_int key]) = (?l @ [of_int key]) @ ?r"
        using I(1) True o unfolding before_cursor_def after_cursor_def by simp
      moreover have "(of_int key :: u8) \<noteq> 0"
        using True by (auto simp: word_of_int_eq_0_iff dest: zdvd_imp_le)
      moreover have "length ((shift_right ?buf ?k ?n)[?k := of_int key]) = 128" using I(2) o True by simp
      moreover have "fst (line_key key c) = c\<lparr>cl_input := (shift_right ?buf ?k ?n)[?k := of_int key], cl_len := ?n + 1, cl_cursor := ?k + 1\<rparr>"
        using True 5 by (simp add: line_key_def key_char_def)
      moreover have "zip_key key (?l, ?r) = (?l @ [of_int key], ?r)" using True 5 S(3) by (simp add: zip_key_def)
      ultimately show ?thesis using S(2) o(4) True by (intro E) auto
    qed (use ok S 5 in \<open>auto simp: line_key_def key_char_def zip_key_def\<close>)
  qed
qed

definition line_keys :: "int list \<Rightarrow> cli \<Rightarrow> cli" where
  "line_keys keys c = foldl (\<lambda>c key. fst (line_key key c)) c keys"

lemma line_keys_refine:
  "cli_ok c \<Longrightarrow> list_all edit_key_code keys \<Longrightarrow> cli_ok (line_keys keys c)
    \<and> (before_cursor (line_keys keys c), after_cursor (line_keys keys c))
        = foldl (\<lambda>z key. zip_key key z) (before_cursor c, after_cursor c) keys"
proof (induction keys arbitrary: c)
  case (Cons key keys)
  then show ?case using cli_key_refines [of c key] by (simp add: line_keys_def)
qed (simp add: line_keys_def)

lemma line_string:
  assumes "cli_ok c"
  shows "cstr ((cl_input c)[cl_len c := 0]) = before_cursor c @ after_cursor c"
proof -
  have "cl_len c < length (cl_input c)" using assms by (simp add: cli_ok_def)
  then have "(cl_input c)[cl_len c := 0] = take (cl_len c) (cl_input c) @ 0 # drop (Suc (cl_len c)) (cl_input c)"
    by (simp add: upd_conv_take_nth_drop)
  moreover have "0 \<notin> set (take (cl_len c) (cl_input c))" using assms by (simp add: cli_ok_def)
  ultimately show ?thesis using line_split(1) [OF assms] by (metis cstr_append_zero)
qed

section \<open>The history\<close>

definition history_of :: "cli \<Rightarrow> u8 list list" where
  "history_of c = map cstr (take (cl_count c) (cl_history c))"

definition remember :: "u8 list \<Rightarrow> u8 list list \<Rightarrow> u8 list list" where
  "remember s h = (if h \<noteq> [] \<and> last h = s then h else drop (length h - 15) h @ [s])"

lemma copy_str_line: "length d = 128 \<Longrightarrow> length (cstr s) < 128 \<Longrightarrow> length (copy_str d s 128) = 128 \<and> cstr (copy_str d s 128) = cstr s"
  by (simp add: copy_str_def)

text \<open>The shift of a full history, one copy after the other.\<close>

lemma shift_history:
  assumes "\<forall>x \<in> set h. length x = 128 \<and> length (cstr x) < 128" "n < length h"
  defines "h' \<equiv> foldl (\<lambda>h i. h[i - 1 := copy_str (h ! (i - 1)) (h ! i) 128]) h [1..<Suc n]"
  shows "length h' = length h \<and> (\<forall>x \<in> set h'. length x = 128 \<and> length (cstr x) < 128)
    \<and> (\<forall>j < n. cstr (h' ! j) = cstr (h ! Suc j)) \<and> (\<forall>j. n \<le> j \<longrightarrow> h' ! j = h ! j)"
  using assms(2) unfolding h'_def
proof (induction n)
  case 0
  then show ?case using assms(1) by simp
next
  case (Suc n)
  define g where "g = foldl (\<lambda>h i. h[i - 1 := copy_str (h ! (i - 1)) (h ! i) 128]) h [1..<Suc n]"
  have IH: "length g = length h" "\<forall>x \<in> set g. length x = 128 \<and> length (cstr x) < 128"
      "\<forall>j < n. cstr (g ! j) = cstr (h ! Suc j)" "\<forall>j. n \<le> j \<longrightarrow> g ! j = h ! j"
    using Suc unfolding g_def by auto
  define x where "x = copy_str (g ! n) (g ! Suc n) 128"
  have m: "h ! n \<in> set h" "h ! Suc n \<in> set h" using Suc.prems by simp_all
  have "g ! n \<in> set g" using IH(1) Suc.prems by simp
  then have gl: "length (g ! n) = 128" using IH(2) by blast
  have "g ! Suc n = h ! Suc n" using IH(4) by simp
  then have x: "length x = 128" "cstr x = cstr (h ! Suc n)"
    using copy_str_line [OF gl, of "h ! Suc n"] assms(1) m(2) unfolding x_def by auto
  have e: "foldl (\<lambda>h i. h[i - 1 := copy_str (h ! (i - 1)) (h ! i) 128]) h [1..<Suc (Suc n)] = g[n := x]"
    by (simp add: x_def g_def)
  have "y = x \<or> y \<in> set g" if "y \<in> set (g[n := x])" for y
    using that set_update_subset_insert [of g n x] by blast
  then have "\<forall>y \<in> set (g[n := x]). length y = 128 \<and> length (cstr y) < 128"
    using IH(2) x assms(1) m(2) by fastforce
  then show ?case
    unfolding e using IH x Suc.prems by (simp add: nth_list_update less_Suc_eq del: upt_Suc)
qed

lemma history_refines:
  assumes ok: "cli_ok c" and s: "length (cstr (cl_input c)) < 128"
  shows "history_of (history_push c) = remember (cstr (cl_input c)) (history_of c)
    \<and> length (cl_history (history_push c)) = 16 \<and> cl_count (history_push c) \<le> 16
    \<and> (\<forall>h \<in> set (cl_history (history_push c)). length h = 128 \<and> length (cstr h) < 128)"
proof -
  let ?h = "cl_history c" and ?n = "cl_count c" and ?s = "cstr (cl_input c)"
  have o: "length ?h = 16" "\<forall>h \<in> set ?h. length h = 128 \<and> length (cstr h) < 128" "?n \<le> 16"
    using ok by (auto simp: cli_ok_def)
  have len: "length (history_of c) = ?n" using o by (simp add: history_of_def)
  have last: "last (history_of c) = cstr (?h ! (?n - 1))" if "?n > 0"
    using that o by (subst last_conv_nth) (auto simp: history_of_def)
  show ?thesis
  proof (cases "?n = 0 \<or> \<not> strings_equal (?h ! (?n - 1)) (cl_input c)")
    case False
    then have "history_push c = c" by (simp add: history_push_def)
    moreover have "history_of c \<noteq> []" "last (history_of c) = ?s"
      using False last len by (auto simp: strings_equal_def s_eq_iff)
    ultimately show ?thesis using o by (simp add: remember_def)
  next
    case True
    then have new: "\<not> (history_of c \<noteq> [] \<and> last (history_of c) = ?s)"
      using True last len by (cases "?n") (auto simp: strings_equal_def s_eq_iff)
    show ?thesis
    proof (cases "?n < 16")
      case lt: True
      let ?x = "copy_str (?h ! ?n) (cl_input c) 128"
      have x: "length ?x = 128" "cstr ?x = ?s" using copy_str_line s o lt by simp_all
      have p: "history_push c = c\<lparr>cl_history := ?h[?n := ?x], cl_count := ?n + 1\<rparr>"
        using True lt by (simp add: history_push_def)
      have "take (Suc ?n) (?h[?n := ?x]) = take ?n ?h @ [?x]" using lt o(1) by (simp add: take_Suc_conv_app_nth)
      then have "history_of (history_push c) = history_of c @ [?s]" by (simp add: p history_of_def x)
      moreover have "\<forall>h \<in> set (?h[?n := ?x]). length h = 128 \<and> length (cstr h) < 128"
        using set_update_subset_insert [of ?h ?n ?x] o(2) x s by fastforce
      ultimately show ?thesis using new lt o(1) len by (simp add: remember_def p)
    next
      case False
      then have n: "?n = 16" using o(3) by simp
      define g where "g = foldl (\<lambda>h i. h[i - 1 := copy_str (h ! (i - 1)) (h ! i) 128]) ?h [1..<16]"
      have G: "length g = 16" "\<forall>x \<in> set g. length x = 128 \<and> length (cstr x) < 128" "\<forall>j < 15. cstr (g ! j) = cstr (?h ! Suc j)"
        using shift_history [OF o(2), of 15] o(1) by (simp_all add: g_def del: upt_Suc upt_rec_numeral)
      let ?x = "copy_str (g ! 15) (cl_input c) 128"
      have x: "length ?x = 128" "cstr ?x = ?s" using copy_str_line s G(1,2) by simp_all
      have p: "history_push c = c\<lparr>cl_history := g[15 := ?x]\<rparr>"
        using True n unfolding history_push_def g_def by (simp add: Let_def del: upt_Suc upt_rec_numeral)
      have "map cstr (g[15 := ?x]) = drop 1 (map cstr ?h) @ [?s]"
      proof (rule nth_equalityI)
        fix j assume j: "j < length (map cstr (g[15 := ?x]))"
        show "map cstr (g[15 := ?x]) ! j = (drop 1 (map cstr ?h) @ [?s]) ! j"
        proof (cases "j = 15")
          case True
          then show ?thesis using x G(1) o(1) by (simp add: nth_append)
        next
          case False
          then have "j < 15" using j G(1) by simp
          then show ?thesis using G o(1) by (simp add: nth_append)
        qed
      qed (use G(1) o(1) in simp)
      then have "history_of (history_push c) = drop 1 (history_of c) @ [?s]"
        using n G(1) o(1) by (simp add: p history_of_def drop_map)
      moreover have "\<forall>h \<in> set (g[15 := ?x]). length h = 128 \<and> length (cstr h) < 128"
        using set_update_subset_insert [of g 15 ?x] G(2) x s by fastforce
      ultimately show ?thesis using new n G(1) len by (auto simp: remember_def p)
    qed
  qed
qed

lemma history_push_ok:
  assumes ok: "cli_ok c" and s: "length (cstr (cl_input c)) < 128"
  shows "cli_ok (history_push c)"
proof -
  have f: "cl_input (history_push c) = cl_input c" "cl_len (history_push c) = cl_len c" "cl_cursor (history_push c) = cl_cursor c"
      "cl_pos (history_push c) = cl_pos c" "cl_count c \<le> cl_count (history_push c)"
    unfolding history_push_def Let_def by (simp_all del: upt_rec_numeral)
  have "cl_pos c < int (cl_count (history_push c))" using ok f(5) by (simp add: cli_ok_def)
  then show ?thesis using ok f(1-4) history_refines [OF ok s] by (simp add: cli_ok_def)
qed

text \<open>Recalling lines with the up key.\<close>

definition recall_up :: "nat \<Rightarrow> cli \<Rightarrow> cli" where
  "recall_up n c = ((\<lambda>c. fst (key_up c)) ^^ n) c"

lemma recall_up_steps:
  assumes ok: "cli_ok c" and p: "cl_pos c = -1" and c: "cl_count c > 0"
  shows "n > 0 \<Longrightarrow> cli_ok (recall_up n c) \<and> cl_history (recall_up n c) = cl_history c \<and> cl_count (recall_up n c) = cl_count c
    \<and> cl_pos (recall_up n c) = int (cl_count c - n) \<and> before_cursor (recall_up n c) = history_of c ! (cl_count c - n)
    \<and> after_cursor (recall_up n c) = []"
proof (induction n)
  case (Suc n)
  let ?c = "recall_up n c" and ?p = "cl_count c - Suc n"
  have o: "cli_ok ?c" "cl_history ?c = cl_history c" "cl_count ?c = cl_count c"
      "cl_pos ?c = (if n = 0 then -1 else int (cl_count c - n))"
    using Suc.IH ok p by (cases "n = 0", auto simp: recall_up_def)+
  let ?x = "copy_str (cl_input ?c) (cl_history c ! ?p) 128"
  have m: "cl_history c ! ?p \<in> set (cl_history c)" "?p < 16" using ok c by (auto simp: cli_ok_def)
  then have x: "length ?x = 128" "cstr ?x = cstr (cl_history c ! ?p)" "length (cstr ?x) < 128"
    using copy_str_line [of "cl_input ?c" "cl_history c ! ?p"] ok o(1) by (auto simp: cli_ok_def)
  have "recall_up (Suc n) c = fst (key_up ?c)" by (simp add: recall_up_def)
  also have "\<dots> = whole_line (?c\<lparr>cl_pos := int ?p, cl_input := ?x\<rparr>)"
  proof -
    have "(if cl_pos ?c < 0 then int (cl_count ?c) - 1 else if cl_pos ?c > 0 then cl_pos ?c - 1 else cl_pos ?c) = int ?p"
      using c o(3,4) by auto
    with c o(2,3) show ?thesis by (simp add: key_up_def Let_def)
  qed
  finally have up: "recall_up (Suc n) c = whole_line (?c\<lparr>cl_pos := int ?p, cl_input := ?x\<rparr>)" .
  have t: "take (length (cstr ?x)) ?x = cstr ?x" by (metis cstr_def takeWhile_eq_take)
  have "history_of c ! ?p = cstr ?x" using c m ok x(2) by (simp add: history_of_def cli_ok_def)
  moreover have "0 \<notin> set (cstr ?x)" by (auto dest: cstr_nonzero)
  ultimately show ?case
    unfolding up using o x t m(2) c
    by (simp add: whole_line_def before_cursor_def after_cursor_def s_len_eq cli_ok_def)
qed simp

section \<open>Completion and the line before\<close>

lemma starts_with_cstr: "starts_with s p = (take (length (cstr p)) (cstr s) = cstr p)"
proof (induction s p rule: starts_with.induct)
  case (2 s c p)
  then show ?case by (cases s) auto
qed simp

text \<open>The names that a completion finds depend on the array up to its first zero, not up to the length of the line.\<close>

lemma typed_over:
  assumes "cl_input c = s @ 0 # t" "0 \<notin> set s" "s \<noteq> []" "32 \<le> key" "key \<le> 126" "length (cl_input c) = 128"
  shows "cl_input (line_keys [key] (new_line c)) = of_int key # tl s @ 0 # t"
    "cl_len (line_keys [key] (new_line c)) = 1" "cl_cursor (line_keys [key] (new_line c)) = 1"
proof -
  have k: "line_key key (new_line c) = key_char key (new_line c)" using assms(4,5) by (simp add: line_key_def)
  have "key_char key (new_line c) = ((new_line c)\<lparr>cl_input := of_int key # tl s @ 0 # t, cl_cursor := 1, cl_len := 1\<rparr>, Line)"
    using assms by (cases s) (auto simp: key_char_def new_line_def)
  then show "cl_input (line_keys [key] (new_line c)) = of_int key # tl s @ 0 # t"
    "cl_len (line_keys [key] (new_line c)) = 1" "cl_cursor (line_keys [key] (new_line c)) = 1"
    by (simp_all add: line_keys_def k)
qed

section \<open>A concrete line\<close>

definition demo_cli :: cli where
  "demo_cli = cli_start (replicate 128 7) (replicate 16 (replicate 128 7))"

lemma demo_cli_ok: "cli_ok demo_cli"
  by (simp add: demo_cli_def cli_start_def cli_ok_def)

definition demo_line :: "string \<Rightarrow> cli" where
  "demo_line s = demo_cli\<lparr>cl_input := str s @ 0 # replicate (127 - length s) 0\<rparr>"

lemma demo_line_ls: "cli_ok (demo_line ''ls'')" "cstr (cl_input (demo_line ''ls'')) = str ''ls''" "history_of (demo_line ''ls'') = []"
  using demo_cli_ok by (simp_all add: demo_line_def cli_ok_def demo_cli_def cli_start_def str_def history_of_def)

section \<open>Properties\<close>



text \<open>
  The history refines a list: executing a line appends it, unless it repeats the last one, and forgets the oldest
  line when there are sixteen; and pressing the up key n times from a fresh line shows the n-th last line, stopping at the
  oldest, with the cursor at its end.
\<close>

theorem cli_history_refines:
  assumes "cli_ok c" "length (cstr (cl_input c)) < 128"
    and "cli_ok c0" "cl_pos c0 = -1" "cl_count c0 > 0" "n > 0"
  shows "history_of (history_push c) = remember (cstr (cl_input c)) (history_of c)
    \<and> before_cursor (recall_up n c0) = history_of c0 ! (length (history_of c0) - n)
    \<and> after_cursor (recall_up n c0) = [] \<and> history_of (recall_up n c0) = history_of c0"
proof -
  have "length (history_of c0) = cl_count c0" using assms(3) by (simp add: history_of_def cli_ok_def)
  then show ?thesis
    using history_refines [OF assms(1,2)] recall_up_steps [OF assms(3-6)] by (simp add: history_of_def)
qed

theorem cli_history_refines_witness:
  "history_of (history_push (demo_line ''ls'')) = [str ''ls''] \<and> before_cursor (recall_up 3 (history_push (demo_line ''ls''))) = str ''ls''"
proof -
  let ?c = "demo_line ''ls''"
  have l: "length (cstr (cl_input ?c)) < 128" by (simp add: demo_line_ls) (simp add: str_def)
  have p: "cl_pos (history_push ?c) = -1" "cl_count (history_push ?c) > 0"
    by (simp_all add: history_push_def demo_line_def demo_cli_def cli_start_def)
  have h: "remember (str ''ls'') [] = [str ''ls'']" by (simp add: remember_def)
  show ?thesis
    using cli_history_refines [OF demo_line_ls(1) l history_push_ok [OF demo_line_ls(1) l] p, of 3]
    by (simp add: demo_line_ls h)
qed

text \<open>
  The completion looks at the line before.  Typed characters are not followed by a terminator, and starting a new line clears
  only the first byte; so after a line s was executed, one typed character and the tab key search for the commands that begin with
  that character followed by the rest of s.
\<close>

theorem cli_tab_reads_old_line:
  assumes "cl_input c = s @ 0 # t" "0 \<notin> set s" "s \<noteq> []" "32 \<le> key" "key \<le> 126" "length (cl_input c) = 128"
  shows "tab_matches table (cl_input (line_keys [key] (new_line c)))
    = filter (\<lambda>name. take (length s) (cstr name) = of_int key # tl s) (map ce_name table)"
proof -
  have z: "(of_int key :: u8) \<noteq> 0" using assms(4,5) by (auto simp: word_of_int_eq_0_iff dest: zdvd_imp_le)
  have "0 \<notin> set (tl s)" using assms(2,3) by (metis list.set_sel(2))
  then have "cstr (cl_input (line_keys [key] (new_line c))) = of_int key # tl s"
    using z by (simp add: typed_over(1) [OF assms] cstr_append_zero)
  moreover have "length (of_int key # tl s :: u8 list) = length s" using assms(3) by simp
  ultimately show ?thesis by (simp add: tab_matches_def starts_with_cstr)
qed

definition demo_table :: "command_entry list" where
  "demo_table = snd (command_register (snd (command_register [] (str ''ls'') Cmd_ls)) (str ''cat'') Cmd_cat)"

theorem cli_tab_reads_old_line_witness:
  "tab_matches (demo_table) (str ''l'' @ [0]) = [str ''ls'']
    \<and> tab_matches (demo_table) (cl_input (line_keys [108] (new_line (demo_line ''ls /'')))) = []"
proof
  have i: "cl_input (demo_line ''ls /'') = str ''ls /'' @ 0 # replicate 123 0" by (simp add: demo_line_def)
  have "filter (\<lambda>name. take (length (str ''ls /'')) (cstr name) = of_int 108 # tl (str ''ls /'')) (map ce_name (demo_table)) = []"
    by code_simp
  moreover have "0 \<notin> set (str ''ls /'')" "str ''ls /'' \<noteq> []" by code_simp+
  ultimately show "tab_matches (demo_table) (cl_input (line_keys [108] (new_line (demo_line ''ls /'')))) = []"
    using cli_tab_reads_old_line [OF i, of 108 "demo_table"] by (simp add: i str_def)
  show "tab_matches (demo_table) (str ''l'' @ [0]) = [str ''ls'']" by code_simp
qed

end
