(* ===== verification/Exec_Props.thy ===== *)
theory Exec_Props
  imports Exec_ELF
begin

text \<open>
  What the loader makes of a file: the image is the one that the program headers describe, as long as no sum in them
  wraps; and a file with a sum that wraps makes it write outside of the image.
\<close>

section \<open>The image that the headers describe\<close>

definition covers :: "elf32_phdr \<Rightarrow> nat \<Rightarrow> bool" where
  "covers ph v \<longleftrightarrow> loadable ph \<and> unat (ph_vaddr ph) \<le> v \<and> v < unat (ph_vaddr ph) + unat (ph_filesz ph)"

text \<open>The byte at an address: from the last segment that has it in the file, and zero elsewhere.\<close>

definition byte_at :: "u8 list \<Rightarrow> elf32_phdr list \<Rightarrow> nat \<Rightarrow> u8" where
  "byte_at file phs v =
     (case find (\<lambda>ph. covers ph v) (rev phs) of
        None \<Rightarrow> 0
      | Some ph \<Rightarrow> file ! (unat (ph_offset ph) + (v - unat (ph_vaddr ph))))"

definition phdrs :: "u8 list \<Rightarrow> elf32_phdr list" where
  "phdrs file = map (\<lambda>i. phdr_of (drop (unat (eh_phoff (ehdr_of file)) + 32 * i) file)) [0..<unat (eh_phnum (ehdr_of file))]"

text \<open>No sum in the headers leaves 32 bits.\<close>

definition no_wrap :: "u8 list \<Rightarrow> bool" where
  "no_wrap file \<longleftrightarrow> length file < 2 ^ 32
     \<and> unat (eh_phoff (ehdr_of file)) + 32 * unat (eh_phnum (ehdr_of file)) < 2 ^ 32
     \<and> (\<forall>ph \<in> set (phdrs file). loadable ph \<longrightarrow>
          unat (ph_offset ph) + unat (ph_filesz ph) < 2 ^ 32 \<and> unat (ph_vaddr ph) + unat (ph_memsz ph) < 2 ^ 32)"

section \<open>The two passes\<close>

text \<open>Both passes over a list of headers instead of indices.\<close>

fun range_of :: "nat \<Rightarrow> elf32_phdr list \<Rightarrow> u32 \<times> u32 \<Rightarrow> (u32 \<times> u32) checked" where
  "range_of n [] r = Good r"
| "range_of n (ph # phs) (lo, hi) =
     (if \<not> loadable ph then range_of n phs (lo, hi)
      else if ph_offset ph + ph_filesz ph > of_nat n \<or> ph_filesz ph > ph_memsz ph then Rejected ''invalid load segment''
      else range_of n phs (if ph_vaddr ph < lo then ph_vaddr ph else lo,
             if ph_vaddr ph + ph_memsz ph > hi then ph_vaddr ph + ph_memsz ph else hi))"

fun fill_of :: "u8 list \<Rightarrow> elf32_phdr list \<Rightarrow> u32 \<Rightarrow> u8 list \<Rightarrow> u8 list option" where
  "fill_of file [] lo img = Some img"
| "fill_of file (ph # phs) lo img =
     (if \<not> loadable ph then fill_of file phs lo img
      else (case elf_copy img (unat (ph_vaddr ph - lo)) file (unat (ph_offset ph)) (unat (ph_filesz ph)) of
              None \<Rightarrow> None
            | Some img1 \<Rightarrow> fill_of file phs lo img1))"

lemma passes_over_headers:
  assumes "\<forall>i \<in> set js. phdr_at file phoff i = Some (h i)"
  shows "elf_range file phoff js r = range_of (length file) (map h js) r" "elf_fill file phoff js lo img = fill_of file (map h js) lo img"
proof -
  show "elf_range file phoff js r = range_of (length file) (map h js) r" using assms
    by (induction js arbitrary: r) (auto simp: Let_def)
  show "elf_fill file phoff js lo img = fill_of file (map h js) lo img" using assms
    by (induction js arbitrary: img) (auto split: option.split)
qed

text \<open>What the first pass has checked of each segment.\<close>

definition seg_ok :: "nat \<Rightarrow> u32 \<Rightarrow> u32 \<Rightarrow> elf32_phdr \<Rightarrow> bool" where
  "seg_ok n lo hi ph \<longleftrightarrow> (loadable ph \<longrightarrow> unat (ph_offset ph) + unat (ph_filesz ph) \<le> n \<and> unat lo \<le> unat (ph_vaddr ph)
     \<and> unat (ph_vaddr ph) + unat (ph_filesz ph) \<le> unat hi)"

lemma seg_ok_mono: "seg_ok n lo hi ph \<Longrightarrow> lo' \<le> lo \<Longrightarrow> hi \<le> hi' \<Longrightarrow> seg_ok n lo' hi' ph"
  by (auto simp: seg_ok_def word_le_nat_alt)

definition sum_ok :: "elf32_phdr \<Rightarrow> bool" where
  "sum_ok ph \<longleftrightarrow> (loadable ph \<longrightarrow>
     unat (ph_offset ph) + unat (ph_filesz ph) < 2 ^ 32 \<and> unat (ph_vaddr ph) + unat (ph_memsz ph) < 2 ^ 32)"

lemma range_of_ok:
  assumes "n < 2 ^ 32" "\<forall>ph \<in> set phs. sum_ok ph"
  shows "range_of n phs (lo, hi) = Good (lo', hi') \<Longrightarrow> lo' \<le> lo \<and> hi \<le> hi' \<and> (\<forall>ph \<in> set phs. seg_ok n lo' hi' ph)"
  using assms(2)
proof (induction phs arbitrary: lo hi)
  case (Cons ph phs)
  show ?case
  proof (cases "loadable ph")
    case False
    then show ?thesis using Cons by (auto simp: seg_ok_def)
  next
    case True
    define lo1 where "lo1 = (if ph_vaddr ph < lo then ph_vaddr ph else lo)"
    define hi1 where "hi1 = (if ph_vaddr ph + ph_memsz ph > hi then ph_vaddr ph + ph_memsz ph else hi)"
    have c: "\<not> ph_offset ph + ph_filesz ph > of_nat n" "\<not> ph_filesz ph > ph_memsz ph" "range_of n phs (lo1, hi1) = Good (lo', hi')"
      using Cons.prems(1) True by (auto simp: lo1_def hi1_def split: if_splits)
    have sums: "unat (ph_offset ph + ph_filesz ph) = unat (ph_offset ph) + unat (ph_filesz ph)"
      "unat (ph_vaddr ph + ph_memsz ph) = unat (ph_vaddr ph) + unat (ph_memsz ph)"
      using Cons.prems(2) True by (auto simp: sum_ok_def unat_word_ariths)
    have ih: "lo' \<le> lo1 \<and> hi1 \<le> hi' \<and> (\<forall>ph \<in> set phs. seg_ok n lo' hi' ph)"
      using Cons.IH [OF c(3)] Cons.prems(2) by simp
    have b: "lo1 \<le> lo" "lo1 \<le> ph_vaddr ph" "hi \<le> hi1" "ph_vaddr ph + ph_memsz ph \<le> hi1"
      by (auto simp: lo1_def hi1_def)
    have "unat (ph_offset ph) + unat (ph_filesz ph) \<le> n"
      using c(1) sums(1) assms(1) by (simp add: word_less_nat_alt unat_of_nat not_less)
    moreover have "unat (ph_vaddr ph) + unat (ph_filesz ph) \<le> unat hi1"
      using c(2) sums(2) b(4) by (simp add: word_less_nat_alt word_le_nat_alt)
    moreover have "unat lo1 \<le> unat (ph_vaddr ph)" using b(2) by (simp add: word_le_nat_alt)
    ultimately have "seg_ok n lo1 hi1 ph" by (simp add: seg_ok_def)
    then have "seg_ok n lo' hi' ph" using seg_ok_mono ih by blast
    then show ?thesis using ih b by auto
  qed
qed simp

lemma find_append: "find P (xs @ ys) = (case find P xs of None \<Rightarrow> find P ys | Some x \<Rightarrow> Some x)"
  by (induction xs) auto

text \<open>The second pass paints the segments one after the other.\<close>

lemma fill_of_bytes:
  assumes "\<forall>ph \<in> set phs. seg_ok (length file) lo hi ph" "length img = unat (hi - lo)" "lo \<le> hi"
  shows "\<exists>img'. fill_of file phs lo img = Some img' \<and> length img' = length img
    \<and> (\<forall>n < length img. img' ! n = (case find (\<lambda>ph. covers ph (unat lo + n)) (rev phs) of None \<Rightarrow> img ! n
          | Some ph \<Rightarrow> file ! (unat (ph_offset ph) + (unat lo + n - unat (ph_vaddr ph)))))"
  using assms(1,2)
proof (induction phs arbitrary: img)
  case (Cons ph phs)
  have hl: "unat (hi - lo) = unat hi - unat lo" using assms(3) by (simp add: unat_sub)
  show ?case
  proof (cases "loadable ph \<and> unat (ph_filesz ph) > 0")
    case False
    then have "fill_of file (ph # phs) lo img = fill_of file phs lo img" "\<not> covers ph v" for v
      by (auto simp: elf_copy_def covers_def)
    note f = this(1) and c = this(2)
    have nf: "find (\<lambda>ph. covers ph v) (rev (ph # phs)) = find (\<lambda>ph. covers ph v) (rev phs)" for v
      using c by (simp add: find_append split: option.split)
    show ?thesis unfolding f nf using Cons by simp
  next
    case True
    have ok: "unat (ph_offset ph) + unat (ph_filesz ph) \<le> length file" "unat lo \<le> unat (ph_vaddr ph)"
      "unat (ph_vaddr ph) + unat (ph_filesz ph) \<le> unat hi"
      using Cons.prems(1) True by (auto simp: seg_ok_def)
    define k where "k = unat (ph_vaddr ph) - unat lo"
    define m where "m = unat (ph_filesz ph)"
    define img1 where "img1 = blit img k (drop (unat (ph_offset ph)) file) m"
    have k: "unat (ph_vaddr ph - lo) = k" using ok(2) by (simp add: k_def unat_sub word_le_nat_alt)
    have km: "k + m \<le> length img" using ok Cons.prems(2) hl by (simp add: k_def m_def)
    have f: "fill_of file (ph # phs) lo img = fill_of file phs lo img1"
      using True km ok(1) by (simp add: elf_copy_def k m_def img1_def)
    have b: "img1 ! n = (if k \<le> n \<and> n < k + m then file ! (unat (ph_offset ph) + (n - k)) else img ! n)" if "n < length img" for n
      using nth_blit [of k m img "drop (unat (ph_offset ph)) file" n] km ok(1) that by (auto simp: img1_def m_def)
    have c: "covers ph (unat lo + n) \<longleftrightarrow> k \<le> n \<and> n < k + m" for n
      using True ok(2) by (auto simp: covers_def k_def m_def)
    have l: "length img1 = length img" by (simp add: img1_def)
    have d: "unat lo + n - unat (ph_vaddr ph) = n - k" for n using ok(2) by (simp add: k_def)
    obtain img' where i: "fill_of file phs lo img1 = Some img'" "length img' = length img1"
      "\<forall>n < length img1. img' ! n = (case find (\<lambda>ph. covers ph (unat lo + n)) (rev phs) of None \<Rightarrow> img1 ! n
          | Some ph \<Rightarrow> file ! (unat (ph_offset ph) + (unat lo + n - unat (ph_vaddr ph))))"
      using Cons.IH [of img1] Cons.prems l by auto
    show ?thesis
      unfolding f using i b c d l by (auto simp: find_append split: option.split)
  qed
qed simp

lemma phdr_at_no_wrap:
  assumes "no_wrap file" "elf_check file = None" "i < unat (eh_phnum (ehdr_of file))"
  shows "phdr_at file (eh_phoff (ehdr_of file)) i = Some (phdr_of (drop (unat (eh_phoff (ehdr_of file)) + 32 * i) file))"
proof -
  let ?o = "eh_phoff (ehdr_of file)" and ?n = "eh_phnum (ehdr_of file)"
  have w: "unat ?o + 32 * unat ?n < 2 ^ 32" "length file < 2 ^ 32" using assms(1) by (auto simp: no_wrap_def)
  have c: "\<not> ?o + ucast ?n * 32 > of_nat (length file)"
    using assms(2) by (auto simp: elf_check_def Let_def split: if_splits)
  have n: "unat (ucast ?n * 32 :: u32) = 32 * unat ?n" using w(1) by (simp add: unat_word_ariths unsigned_ucast_eq take_bit_nat_eq_self)
  have "unat (?o + ucast ?n * 32) = unat ?o + 32 * unat ?n" using w(1) n by (simp add: unat_word_ariths)
  then have le: "unat ?o + 32 * unat ?n \<le> length file"
    using c w(2) by (simp add: word_less_nat_alt unat_of_nat not_less)
  have "32 * i < 32 * unat ?n" using assms(3) by simp
  then have s: "unat (?o + of_nat i * 32) = unat ?o + 32 * i"
    using w(1) by (simp add: unat_word_ariths unat_of_nat mult.commute)
  show ?thesis using le assms(3) by (simp add: phdr_at_def s Let_def)
qed


text \<open>A file with one segment of four bytes in eight, and one with a segment whose end wraps to 8.\<close>

definition demo_phdr :: "u32 \<Rightarrow> u32 \<Rightarrow> u32 \<Rightarrow> u32 \<Rightarrow> u8 list" where
  "demo_phdr offset vaddr filesz memsz = u32_le 1 @ u32_le offset @ u32_le vaddr @ u32_le 0 @ u32_le filesz @ u32_le memsz @ u32_le 5 @ u32_le 4"

definition demo_elf :: "u8 list list \<Rightarrow> u8 list" where
  "demo_elf phs = u32_le ELF_MAGIC @ [1, 1, 1] @ replicate 9 0 @ u16_le 2 @ u16_le 3 @ u32_le 1 @ u32_le 0x1000 @ u32_le 52
     @ replicate 8 0 @ u16_le 52 @ u16_le 32 @ u16_le (of_nat (length phs)) @ replicate 6 0 @ concat phs @ [1, 2, 3, 4]"

definition good_elf :: "u8 list" where
  "good_elf = demo_elf [demo_phdr 84 0x1000 4 8]"

definition wrapping_elf :: "u8 list" where
  "wrapping_elf = demo_elf [demo_phdr 0 0xFFFFFFF0 4 0x18, demo_phdr 0 0 4 16]"

lemma demo_phdrs: "phdrs good_elf = [\<lparr>ph_type = 1, ph_offset = 84, ph_vaddr = 0x1000, ph_paddr = 0, ph_filesz = 4, ph_memsz = 8,
    ph_flags = 5, ph_align = 4\<rparr>]"
  by code_simp

lemma demo_header: "eh_phoff (ehdr_of good_elf) = 52" "eh_phnum (ehdr_of good_elf) = 1" "elf_check good_elf = None" "length good_elf = 88"
    "elf_range good_elf 52 [0..<1] (0xFFFFFFFF, 0) = Good (0x1000, 0x1008)"
  by code_simp+




end
