(* ===== verification/ATA_Disk.thy ===== *)
theory ATA_Disk
  imports Port_IO Block_Device
begin

text \<open>
  The disk driver \<^verbatim>\<open>src/drivers/ata.c\<close>, a drive that answers the ports as the ATA standard says for
  programmed input and output, and the proof that driver and drive together keep the contract of the block device layer,
  so that the theorems of the file system hold over them.
\<close>

section \<open>The driver\<close>

abbreviation ATA_REG_DATA :: u16 where "ATA_REG_DATA \<equiv> 0x1F0"
abbreviation ATA_REG_SECCOUNT0 :: u16 where "ATA_REG_SECCOUNT0 \<equiv> 0x1F2"
abbreviation ATA_REG_LBA0 :: u16 where "ATA_REG_LBA0 \<equiv> 0x1F3"
abbreviation ATA_REG_LBA1 :: u16 where "ATA_REG_LBA1 \<equiv> 0x1F4"
abbreviation ATA_REG_LBA2 :: u16 where "ATA_REG_LBA2 \<equiv> 0x1F5"
abbreviation ATA_REG_HDDEVSEL :: u16 where "ATA_REG_HDDEVSEL \<equiv> 0x1F6"
abbreviation ATA_REG_COMMAND :: u16 where "ATA_REG_COMMAND \<equiv> 0x1F7"
abbreviation ATA_REG_STATUS :: u16 where "ATA_REG_STATUS \<equiv> 0x1F7"
abbreviation ATA_CMD_READ_PIO :: u8 where "ATA_CMD_READ_PIO \<equiv> 0x20"
abbreviation ATA_CMD_WRITE_PIO :: u8 where "ATA_CMD_WRITE_PIO \<equiv> 0x30"
abbreviation ATA_SR_BSY :: u8 where "ATA_SR_BSY \<equiv> 0x80"
abbreviation ATA_SR_DRQ :: u8 where "ATA_SR_DRQ \<equiv> 0x08"
abbreviation ATA_SR_ERR :: u8 where "ATA_SR_ERR \<equiv> 0x01"

definition ata_io_wait :: "'m ports \<Rightarrow> 'm \<Rightarrow> 'm" where
  "ata_io_wait io m = foldl (\<lambda>m _. snd (io_inb io m ATA_REG_STATUS)) m [0..<4]"

partial_function (option) ata_wait_ready :: "'m ports \<Rightarrow> 'm \<Rightarrow> (bool \<times> 'm) option" where
  "ata_wait_ready io m =
     (case io_inb io m ATA_REG_STATUS of (status, m1) \<Rightarrow>
        if status AND ATA_SR_BSY = 0 then Some (status AND ATA_SR_ERR = 0, m1) else ata_wait_ready io m1)"

partial_function (option) ata_wait_drq :: "'m ports \<Rightarrow> 'm \<Rightarrow> (bool \<times> 'm) option" where
  "ata_wait_drq io m =
     (case io_inb io m ATA_REG_STATUS of (status, m1) \<Rightarrow>
        if status AND ATA_SR_BSY = 0 \<and> status AND ATA_SR_DRQ \<noteq> 0 then Some (True, m1)
        else if status AND ATA_SR_ERR \<noteq> 0 then Some (False, m1)
        else ata_wait_drq io m1)"

definition ata_command :: "'m ports \<Rightarrow> 'm \<Rightarrow> u32 \<Rightarrow> u8 \<Rightarrow> 'm" where
  "ata_command io m lba cmd =
     foldl (\<lambda>m (reg, v). io_outb io m reg v) m
       [(ATA_REG_HDDEVSEL, 0xE0 OR (ucast (drop_bit 24 lba) AND 0x0F)), (ATA_REG_SECCOUNT0, 1), (ATA_REG_LBA0, ucast lba),
        (ATA_REG_LBA1, ucast (drop_bit 8 lba)), (ATA_REG_LBA2, ucast (drop_bit 16 lba)), (ATA_REG_COMMAND, cmd)]"

text \<open>The transfer loops; a 16-bit word of the buffer lies in memory with the low byte first.\<close>

primrec ata_words_in :: "nat \<Rightarrow> 'm ports \<Rightarrow> 'm \<Rightarrow> u8 list \<times> 'm" where
  "ata_words_in 0 io m = ([], m)"
| "ata_words_in (Suc n) io m =
     (case ata_words_in n io m of (bs, m1) \<Rightarrow>
      case io_inw io m1 ATA_REG_DATA of (v, m2) \<Rightarrow> (bs @ u16_le v, m2))"

definition ata_words_out :: "nat \<Rightarrow> 'm ports \<Rightarrow> u8 list \<Rightarrow> 'm \<Rightarrow> 'm" where
  "ata_words_out n io buf m = foldl (\<lambda>m i. io_outw io m ATA_REG_DATA (le_u16 (drop (2 * i) buf))) m [0..<n]"

definition ata_read_sector :: "'m ports \<Rightarrow> u32 \<Rightarrow> 'm \<Rightarrow> (u8 list option \<times> 'm) option" where
  "ata_read_sector io lba m =
     (case ata_wait_ready io m of
        None \<Rightarrow> None
      | Some (False, m1) \<Rightarrow> Some (None, m1)
      | Some (True, m1) \<Rightarrow>
          (case ata_wait_drq io (ata_command io m1 lba ATA_CMD_READ_PIO) of
             None \<Rightarrow> None
           | Some (False, m2) \<Rightarrow> Some (None, m2)
           | Some (True, m2) \<Rightarrow> (case ata_words_in 256 io m2 of (bs, m3) \<Rightarrow> Some (Some bs, ata_io_wait io m3))))"

definition ata_write_sector :: "'m ports \<Rightarrow> u32 \<Rightarrow> u8 list \<Rightarrow> 'm \<Rightarrow> (bool \<times> 'm) option" where
  "ata_write_sector io lba buf m =
     (case ata_wait_ready io m of
        None \<Rightarrow> None
      | Some (False, m1) \<Rightarrow> Some (False, m1)
      | Some (True, m1) \<Rightarrow>
          (case ata_wait_drq io (ata_command io m1 lba ATA_CMD_WRITE_PIO) of
             None \<Rightarrow> None
           | Some (False, m2) \<Rightarrow> Some (False, m2)
           | Some (True, m2) \<Rightarrow> ata_wait_ready io (ata_io_wait io (ata_words_out 256 io buf m2))))"

section \<open>A drive\<close>

text \<open>
  A drive with 28-bit sector numbers.  After a command and after the last word of a write it is busy for
  \<open>dr_latency\<close> reads of the status register.
\<close>

record ata_drive =
  dr_sectors :: "u32 \<Rightarrow> u8 list"
  dr_sel :: u8
  dr_lba0 :: u8
  dr_lba1 :: u8
  dr_lba2 :: u8
  dr_in :: "u16 list"
  dr_out :: "(u32 \<times> u8 list) option"
  dr_busy :: nat
  dr_latency :: nat

definition drive_lba :: "ata_drive \<Rightarrow> u32" where
  "drive_lba d = push_bit 24 (ucast (dr_sel d AND 0x0F)) OR push_bit 16 (ucast (dr_lba2 d)) OR push_bit 8 (ucast (dr_lba1 d))
     OR ucast (dr_lba0 d)"

fun words_of :: "u8 list \<Rightarrow> u16 list" where
  "words_of (a # b # s) = le_u16 [a, b] # words_of s"
| "words_of _ = []"

definition drive_inb :: "ata_drive \<Rightarrow> u16 \<Rightarrow> u8 \<times> ata_drive" where
  "drive_inb d port =
     (if port = ATA_REG_STATUS then
        (if dr_busy d > 0 then (ATA_SR_BSY, d\<lparr>dr_busy := dr_busy d - 1\<rparr>)
         else (0x40 OR (if dr_in d \<noteq> [] \<or> dr_out d \<noteq> None then ATA_SR_DRQ else 0), d))
      else (0, d))"

definition drive_outb :: "ata_drive \<Rightarrow> u16 \<Rightarrow> u8 \<Rightarrow> ata_drive" where
  "drive_outb d port v =
     (if port = ATA_REG_HDDEVSEL then d\<lparr>dr_sel := v\<rparr>
      else if port = ATA_REG_LBA0 then d\<lparr>dr_lba0 := v\<rparr>
      else if port = ATA_REG_LBA1 then d\<lparr>dr_lba1 := v\<rparr>
      else if port = ATA_REG_LBA2 then d\<lparr>dr_lba2 := v\<rparr>
      else if port = ATA_REG_COMMAND \<and> v = ATA_CMD_READ_PIO then
        d\<lparr>dr_in := words_of (dr_sectors d (drive_lba d)), dr_busy := dr_latency d\<rparr>
      else if port = ATA_REG_COMMAND \<and> v = ATA_CMD_WRITE_PIO then
        d\<lparr>dr_out := Some (drive_lba d, []), dr_busy := dr_latency d\<rparr>
      else d)"

definition drive_inw :: "ata_drive \<Rightarrow> u16 \<Rightarrow> u16 \<times> ata_drive" where
  "drive_inw d port =
     (if port = ATA_REG_DATA then (case dr_in d of [] \<Rightarrow> (0, d) | v # vs \<Rightarrow> (v, d\<lparr>dr_in := vs\<rparr>)) else (0, d))"

definition drive_outw :: "ata_drive \<Rightarrow> u16 \<Rightarrow> u16 \<Rightarrow> ata_drive" where
  "drive_outw d port v =
     (if port = ATA_REG_DATA then
        (case dr_out d of
           None \<Rightarrow> d
         | Some (lba, bs) \<Rightarrow>
             let bs1 = bs @ u16_le v in
             if length bs1 \<ge> 512
             then d\<lparr>dr_sectors := (dr_sectors d)(lba := bs1), dr_out := None, dr_busy := dr_latency d\<rparr>
             else d\<lparr>dr_out := Some (lba, bs1)\<rparr>)
      else d)"

definition drive_ports :: "ata_drive ports" where
  "drive_ports = \<lparr>io_inb = drive_inb, io_inw = drive_inw, io_inl = (\<lambda>d _. (0, d)),
     io_outb = drive_outb, io_outw = drive_outw, io_outl = (\<lambda>d _ _. d)\<rparr>"

section \<open>Driver and drive\<close>

lemma drive_ports_simps [simp]:
  "io_inb drive_ports = drive_inb" "io_inw drive_ports = drive_inw" "io_outb drive_ports = drive_outb" "io_outw drive_ports = drive_outw"
  by (simp_all add: drive_ports_def)

definition drive_idle :: "ata_drive \<Rightarrow> bool" where
  "drive_idle d \<longleftrightarrow> dr_in d = [] \<and> dr_out d = None \<and> (\<forall>l. length (dr_sectors d l) = 512)"

lemma wait_ready_drive: "ata_wait_ready drive_ports d = Some (True, d\<lparr>dr_busy := 0\<rparr>)"
proof (induction "dr_busy d" arbitrary: d)
  case 0
  then show ?case by (subst ata_wait_ready.simps) (simp add: drive_inb_def)
next
  case (Suc n)
  then have "ata_wait_ready drive_ports (d\<lparr>dr_busy := dr_busy d - 1\<rparr>) = Some (True, d\<lparr>dr_busy := 0\<rparr>)" by simp
  with Suc(2) show ?case by (subst ata_wait_ready.simps) (simp add: drive_inb_def)
qed

lemma wait_drq_drive: "dr_in d \<noteq> [] \<or> dr_out d \<noteq> None \<Longrightarrow> ata_wait_drq drive_ports d = Some (True, d\<lparr>dr_busy := 0\<rparr>)"
proof (induction "dr_busy d" arbitrary: d)
  case 0
  then show ?case by (subst ata_wait_drq.simps) (simp add: drive_inb_def)
next
  case (Suc n)
  then have "ata_wait_drq drive_ports (d\<lparr>dr_busy := dr_busy d - 1\<rparr>) = Some (True, d\<lparr>dr_busy := 0\<rparr>)" by simp
  with Suc(2) show ?case by (subst ata_wait_drq.simps) (simp add: drive_inb_def)
qed

lemma io_wait_drive: "\<exists>b. ata_io_wait drive_ports d = d\<lparr>dr_busy := b\<rparr>"
proof -
  have s: "\<exists>b. snd (drive_inb d ATA_REG_STATUS) = d\<lparr>dr_busy := b\<rparr>" for d
    by (cases "dr_busy d > 0") (auto simp: drive_inb_def intro: exI [of _ "dr_busy d"])
  have "\<exists>b. foldl (\<lambda>m _. snd (drive_inb m ATA_REG_STATUS)) d xs = d\<lparr>dr_busy := b\<rparr>" for xs :: "nat list"
  proof (induction xs rule: rev_induct)
    case (snoc x xs)
    then obtain b where "foldl (\<lambda>m _. snd (drive_inb m ATA_REG_STATUS)) d xs = d\<lparr>dr_busy := b\<rparr>" by blast
    with s [of "d\<lparr>dr_busy := b\<rparr>"] show ?case by auto
  qed (rule exI [of _ "dr_busy d"], simp)
  then show ?thesis by (simp add: ata_io_wait_def)
qed

text \<open>The registers hold the sector number.\<close>

lemma lba_bytes:
  "push_bit 24 (ucast ((0xE0 OR (ucast (drop_bit 24 lba) AND 0x0F) :: u8) AND 0x0F)) OR push_bit 16 (ucast (ucast (drop_bit 16 lba) :: u8))
      OR push_bit 8 (ucast (ucast (drop_bit 8 lba) :: u8)) OR ucast (ucast lba :: u8) = take_bit 28 (lba :: u32)"
  (is "?l = _")
proof (rule bit_word_eqI)
  fix n
  assume n: "n < LENGTH(32)"
  have mask: "(0x0F :: u8) = mask 4" "(0xE0 :: u8) = push_bit 5 (mask 3)" by (simp_all add: mask_eq_exp_minus_1 push_bit_eq_mult)
  have "n < 8 \<or> 8 \<le> n \<and> n < 16 \<or> 16 \<le> n \<and> n < 24 \<or> 24 \<le> n \<and> n < 28 \<or> 28 \<le> n \<and> n < 32" using n by auto
  then show "bit ?l n = bit (take_bit 28 lba) n"
    unfolding mask by (elim disjE) (auto simp: bit_simps)
qed

text \<open>The registers have room for 28 bits.\<close>

definition lba28 :: "u32 \<Rightarrow> u32" where
  "lba28 lba = take_bit 28 lba"

lemma lba28_id: "lba < 2 ^ 28 \<Longrightarrow> lba28 lba = lba"
  by (simp add: lba28_def word_unat_eq_iff unsigned_take_bit_eq take_bit_nat_eq_self word_less_nat_alt del: take_bit_eq_mod)

definition lba_regs :: "u32 \<Rightarrow> ata_drive \<Rightarrow> ata_drive" where
  "lba_regs lba d = d\<lparr>dr_sel := 0xE0 OR (ucast (drop_bit 24 lba) AND 0x0F), dr_lba0 := ucast lba, dr_lba1 := ucast (drop_bit 8 lba),
     dr_lba2 := ucast (drop_bit 16 lba)\<rparr>"

lemma lba_regs_fields [simp]:
  "dr_sectors (lba_regs lba d) = dr_sectors d" "dr_in (lba_regs lba d) = dr_in d" "dr_out (lba_regs lba d) = dr_out d"
  "dr_latency (lba_regs lba d) = dr_latency d"
  by (simp_all add: lba_regs_def)

lemma lba_regs_lba: "drive_lba (lba_regs lba d) = lba28 lba"
  using lba_bytes [of lba] by (simp add: drive_lba_def lba_regs_def lba28_def)

lemma command_drive: "ata_command drive_ports d lba cmd = drive_outb (lba_regs lba d) ATA_REG_COMMAND cmd"
  by (simp add: ata_command_def lba_regs_def drive_outb_def)

text \<open>The transfer of a sector in each direction.\<close>

lemma length_words [simp]: "length (words_of s) = length s div 2"
  by (induction s rule: words_of.induct) auto

lemma no_bit8 [simp]: "\<not> bit (x :: u8) (8 + n)" "\<not> bit (x :: u8) (n + 8)"
  by (auto dest: bit_imp_le_length)

lemma u16_le_pair [simp]: "u16_le (le_u16 [a, b]) = [a, b]"
  by (simp add: u16_le_def le_u16_def) (auto intro!: bit_word_eqI simp: bit_simps)

lemma words_bytes: "even (length s) \<Longrightarrow> concat (map u16_le (words_of s)) = s"
  by (induction s rule: words_of.induct) auto

lemma words_in_drive:
  "n \<le> length (dr_in d) \<Longrightarrow>
   ata_words_in n drive_ports d = (concat (map u16_le (take n (dr_in d))), d\<lparr>dr_in := drop n (dr_in d)\<rparr>)"
proof (induction n)
  case (Suc n)
  have "drop n (dr_in d) = dr_in d ! n # drop (Suc n) (dr_in d)" using Suc.prems by (simp add: Cons_nth_drop_Suc)
  with Suc show ?case by (simp add: drive_inw_def take_Suc_conv_app_nth)
qed simp

lemma le_u16_pair: "2 * i + 1 < length b \<Longrightarrow> u16_le (le_u16 (drop (2 * i) b)) = [b ! (2 * i), b ! (2 * i + 1)]"
proof -
  assume i: "2 * i + 1 < length b"
  have "le_u16 (drop (2 * i) b) = le_u16 [b ! (2 * i), b ! (2 * i + 1)]" using i by (simp add: le_u16_def rd_def)
  then show ?thesis by simp
qed

lemma take_two: "2 * i + 1 < length b \<Longrightarrow> take (2 * i) b @ [b ! (2 * i), b ! (2 * i + 1)] = take (2 * Suc i) b"
  by (simp add: take_Suc_conv_app_nth)

lemma words_out_drive:
  assumes "length b = 512" "dr_out d = Some (lba, [])"
  shows "n < 256 \<Longrightarrow> ata_words_out n drive_ports b d = d\<lparr>dr_out := Some (lba, take (2 * n) b)\<rparr>"
proof (induction n)
  case 0
  then show ?case using assms by (simp add: ata_words_out_def)
next
  case (Suc n)
  then have s: "ata_words_out n drive_ports b d = d\<lparr>dr_out := Some (lba, take (2 * n) b)\<rparr>" by simp
  have "ata_words_out (Suc n) drive_ports b d = drive_outw (ata_words_out n drive_ports b d) ATA_REG_DATA (le_u16 (drop (2 * n) b))"
    by (simp add: ata_words_out_def)
  also have "\<dots> = d\<lparr>dr_out := Some (lba, take (2 * Suc n) b)\<rparr>"
    unfolding s using Suc.prems assms(1) le_u16_pair [of n b] take_two [of n b] by (simp add: drive_outw_def Let_def)
  finally show ?case .
qed

lemma words_out_sector:
  assumes "length b = 512" "dr_out d = Some (lba, [])"
  shows "ata_words_out 256 drive_ports b d = d\<lparr>dr_sectors := (dr_sectors d)(lba := b), dr_out := None, dr_busy := dr_latency d\<rparr>"
proof -
  have e: "256 = Suc 255" by simp
  have s: "ata_words_out 255 drive_ports b d = d\<lparr>dr_out := Some (lba, take 510 b)\<rparr>"
    using words_out_drive [OF assms, of 255] by simp
  have "ata_words_out 256 drive_ports b d = drive_outw (ata_words_out 255 drive_ports b d) ATA_REG_DATA (le_u16 (drop 510 b))"
    unfolding ata_words_out_def by (subst e, subst upt_Suc_append) simp_all
  also have "\<dots> = d\<lparr>dr_sectors := (dr_sectors d)(lba := b), dr_out := None, dr_busy := dr_latency d\<rparr>"
    unfolding s using assms(1) le_u16_pair [of 255 b] take_two [of 255 b] by (simp add: drive_outw_def Let_def)
  finally show ?thesis .
qed

lemma read_drive:
  assumes "drive_idle d"
  shows "\<exists>d'. ata_read_sector drive_ports lba d = Some (Some (dr_sectors d (lba28 lba)), d') \<and> dr_sectors d' = dr_sectors d \<and> drive_idle d'"
proof -
  define s where "s = dr_sectors d (lba28 lba)"
  define d1 where "d1 = (lba_regs lba (d\<lparr>dr_busy := 0\<rparr>))\<lparr>dr_in := words_of s, dr_busy := dr_latency d\<rparr>"
  have c: "ata_command drive_ports (d\<lparr>dr_busy := 0\<rparr>) lba ATA_CMD_READ_PIO = d1"
    by (simp add: command_drive drive_outb_def d1_def lba_regs_lba s_def)
  have n: "length s = 512" using assms by (simp add: drive_idle_def s_def)
  have i: "dr_in d1 = words_of s" by (simp add: d1_def)
  have l: "length (dr_in d1) = 256" using n by (simp add: i)
  have "dr_in d1 \<noteq> []" using l by (metis list.size(3) zero_neq_numeral)
  then have q: "ata_wait_drq drive_ports d1 = Some (True, d1\<lparr>dr_busy := 0\<rparr>)" by (intro wait_drq_drive) blast
  have w: "ata_words_in 256 drive_ports (d1\<lparr>dr_busy := 0\<rparr>) = (s, d1\<lparr>dr_busy := 0, dr_in := []\<rparr>)"
    using words_in_drive [of 256 "d1\<lparr>dr_busy := 0\<rparr>"] l n words_bytes [of s] by (simp add: i)
  obtain k where k: "ata_io_wait drive_ports (d1\<lparr>dr_busy := 0, dr_in := []\<rparr>) = d1\<lparr>dr_in := [], dr_busy := k\<rparr>"
    using io_wait_drive [of "d1\<lparr>dr_busy := 0, dr_in := []\<rparr>"] by auto
  have "ata_read_sector drive_ports lba d = Some (Some s, d1\<lparr>dr_in := [], dr_busy := k\<rparr>)"
    by (simp add: ata_read_sector_def wait_ready_drive c q w k)
  then show ?thesis using assms by (auto simp: d1_def drive_idle_def s_def)
qed

lemma words_out_fit: "ata_words_out n io b m = ata_words_out n io (fit_sector b) m" if "n \<le> 256"
proof -
  have r: "rd b i = rd (fit_sector b) i" if "i < 512" for i
    using that by (auto simp: fit_sector_def rd_def nth_append)
  have "le_u16 (drop (2 * i) b) = le_u16 (drop (2 * i) (fit_sector b))" if "i < n" for i
    using r [of "2 * i"] r [of "2 * i + 1"] that \<open>n \<le> 256\<close> by (simp add: le_u16_def rd_drop)
  then show ?thesis unfolding ata_words_out_def by (intro foldl_cong) auto
qed

lemma write_drive:
  assumes "drive_idle d"
  shows "\<exists>d'. ata_write_sector drive_ports lba b d = Some (True, d')
    \<and> dr_sectors d' = (dr_sectors d)(lba28 lba := fit_sector b) \<and> drive_idle d'"
proof -
  define d1 where "d1 = (lba_regs lba (d\<lparr>dr_busy := 0\<rparr>))\<lparr>dr_out := Some (lba28 lba, []), dr_busy := dr_latency d\<rparr>"
  define d2 where "d2 = d1\<lparr>dr_sectors := (dr_sectors d)(lba28 lba := fit_sector b), dr_out := None, dr_busy := dr_latency d\<rparr>"
  have c: "ata_command drive_ports (d\<lparr>dr_busy := 0\<rparr>) lba ATA_CMD_WRITE_PIO = d1"
    by (simp add: command_drive drive_outb_def d1_def lba_regs_lba)
  have q: "ata_wait_drq drive_ports d1 = Some (True, d1\<lparr>dr_busy := 0\<rparr>)" by (intro wait_drq_drive) (simp add: d1_def)
  have w: "ata_words_out 256 drive_ports b (d1\<lparr>dr_busy := 0\<rparr>) = d2"
    using words_out_sector [of "fit_sector b" "d1\<lparr>dr_busy := 0\<rparr>" "lba28 lba"] words_out_fit [of 256 drive_ports b "d1\<lparr>dr_busy := 0\<rparr>"]
    by (simp add: d1_def d2_def)
  obtain k where k: "ata_io_wait drive_ports d2 = d2\<lparr>dr_busy := k\<rparr>" using io_wait_drive [of d2] by auto
  have "ata_write_sector drive_ports lba b d = Some (True, d2\<lparr>dr_busy := 0\<rparr>)"
    by (simp add: ata_write_sector_def wait_ready_drive c q w k)
  then show ?thesis using assms by (auto simp: d1_def d2_def drive_idle_def)
qed

section \<open>The contract of the layer above\<close>

text \<open>
  The idle drives are a type of media.  On them the calls of the driver always return; \<open>None\<close>, which does
  not occur, is read as an error.
\<close>

typedef idle_drive = "{d. drive_idle d}"
  by (rule exI [of _ "\<lparr>dr_sectors = \<lambda>_. replicate 512 0, dr_sel = 0, dr_lba0 = 0, dr_lba1 = 0, dr_lba2 = 0, dr_in = [], dr_out = None,
      dr_busy = 0, dr_latency = 0\<rparr>"]) (simp add: drive_idle_def)

setup_lifting type_definition_idle_drive

lift_definition disk_read :: "u32 \<Rightarrow> idle_drive \<Rightarrow> u8 list option \<times> idle_drive" is
  "\<lambda>lba d. case ata_read_sector drive_ports lba d of Some r \<Rightarrow> r | None \<Rightarrow> (None, d)"
proof -
  fix lba d
  assume "drive_idle d"
  with read_drive [of d lba] show "pred_prod top drive_idle
      (case ata_read_sector drive_ports lba d of Some r \<Rightarrow> r | None \<Rightarrow> (None, d))"
    by auto
qed

lift_definition disk_write :: "u32 \<Rightarrow> u8 list \<Rightarrow> idle_drive \<Rightarrow> bool \<times> idle_drive" is
  "\<lambda>lba b d. case ata_write_sector drive_ports lba b d of Some r \<Rightarrow> r | None \<Rightarrow> (False, d)"
proof -
  fix lba b d
  assume "drive_idle d"
  with write_drive [of d lba b] show "pred_prod top drive_idle
      (case ata_write_sector drive_ports lba b d of Some r \<Rightarrow> r | None \<Rightarrow> (False, d))"
    by auto
qed

lift_definition disk_sector :: "idle_drive \<Rightarrow> u32 \<Rightarrow> u8 list" is dr_sectors .

definition ata_dev :: "idle_drive block_device" where
  "ata_dev = blockdev_init disk_read disk_write"

lemma disk_read_eq: "\<exists>d'. disk_read lba d = (Some (disk_sector d (lba28 lba)), d') \<and> disk_sector d' = disk_sector d"
proof transfer
  fix lba d
  assume "drive_idle d"
  with read_drive [of d lba] show "\<exists>d'\<in>Collect drive_idle.
      (case ata_read_sector drive_ports lba d of Some r \<Rightarrow> r | None \<Rightarrow> (None, d)) = (Some (dr_sectors d (lba28 lba)), d')
      \<and> dr_sectors d' = dr_sectors d"
    by force
qed

lemma disk_write_eq: "\<exists>d'. disk_write lba b d = (True, d') \<and> disk_sector d' = (disk_sector d)(lba28 lba := fit_sector b)"
proof transfer
  fix lba b d
  assume "drive_idle d"
  with write_drive [of d lba b] show "\<exists>d'\<in>Collect drive_idle.
      (case ata_write_sector drive_ports lba b d of Some r \<Rightarrow> r | None \<Rightarrow> (False, d)) = (True, d')
      \<and> dr_sectors d' = (dr_sectors d)(lba28 lba := fit_sector b)"
    by force
qed

lemma disk_sector_length: "length (disk_sector d l) = 512"
  by transfer (simp add: drive_idle_def)

lemma small_lba: "lba < 65536 \<Longrightarrow> lba28 lba = lba"
  by (rule lba28_id) (simp add: word_less_nat_alt)

lemma ata_read_value: "lba < 65536 \<Longrightarrow> \<exists>d'. blockdev_read ata_dev lba d = (Some (disk_sector d lba), d') \<and> disk_sector d' = disk_sector d"
  using disk_read_eq [of lba d] by (simp add: ata_dev_def blockdev_defs small_lba)

lemma ata_write_value:
  "lba < 65536 \<Longrightarrow> \<exists>d'. blockdev_write ata_dev lba b d = (True, d') \<and> disk_sector d' = (disk_sector d)(lba := fit_sector b)"
  using disk_write_eq [of lba b d] by (simp add: ata_dev_def blockdev_defs small_lba)

lemma ata_out_of_range:
  "\<not> lba < 65536 \<Longrightarrow> blockdev_read ata_dev lba d = (None, d) \<and> blockdev_write ata_dev lba b d = (False, d)"
  by (simp add: ata_dev_def blockdev_defs linorder_not_less)

interpretation ata: reliable_store "blockdev_read ata_dev" "blockdev_write ata_dev" disk_sector 65536
proof unfold_locales
  show "length (disk_sector d l) = 512" for d l by (rule disk_sector_length)
  show "blockdev_read ata_dev l d = (r, d') \<Longrightarrow> disk_sector d' = disk_sector d" for l d r d'
    using ata_read_value [of l d] ata_out_of_range [of l d] by (cases "l < 65536") auto
  show "blockdev_read ata_dev l d = (Some s, d') \<Longrightarrow> s = disk_sector d l" for l d s d'
    using ata_read_value [of l d] ata_out_of_range [of l d] by (cases "l < 65536") auto
  show "blockdev_write ata_dev l b d = (True, d') \<Longrightarrow> length b = 512 \<Longrightarrow> disk_sector d' = (disk_sector d)(l := b)" for l b d d'
    using ata_write_value [of l b d] ata_out_of_range [of l d b] by (cases "l < 65536") auto
  show "blockdev_write ata_dev l b d = (ok, d') \<Longrightarrow> k \<noteq> l \<Longrightarrow> disk_sector d' k = disk_sector d k" for l b d ok d' k
    using ata_write_value [of l b d] ata_out_of_range [of l d b] by (cases "l < 65536") auto
  show "l < 65536 \<Longrightarrow> \<exists>s d'. blockdev_read ata_dev l d = (Some s, d')" for l d
    using ata_read_value [of l d] by blast
  show "l < 65536 \<Longrightarrow> length b = 512 \<Longrightarrow> \<exists>d'. blockdev_write ata_dev l b d = (True, d')" for l b d
    using ata_write_value [of l b d] by blast
qed


end
