(* ===== verification/RTL8139.thy ===== *)
theory RTL8139
  imports Port_IO
begin

unbundle bit_operations_syntax

text \<open>
  The network card driver, \<^verbatim>\<open>src/drivers/rtl8139.c\<close>.

  The receive ring and the transmit buffers are memory that the card reads and writes by itself, so
  they belong to the machine: besides the ports the driver has a record of two memory accesses.  The
  addresses of the two static arrays are fixed by the linker and are parameters, \<open>ring\<close> and \<open>txb\<close>.
  The function that receives the frames is a parameter too; it may call the driver again, so it
  maps the state of the driver, of the machine and its own.  The debug output is compiled out.
\<close>

section \<open>State\<close>

record 'm dma_memory =
  mem_get :: "'m \<Rightarrow> u32 \<Rightarrow> u8"
  mem_put :: "'m \<Rightarrow> u32 \<Rightarrow> u8 \<Rightarrow> 'm"

record rtl8139 =
  nic_io_base :: u16
  nic_mac :: "u8 list"
  nic_up :: bool
  rx_buffer :: u32
  rx_offset :: u32
  tx_buffers :: "u32 list"
  tx_index :: u32
  rx_callback :: bool
  rx_frame_tmp :: "u8 list"

abbreviation REG_IDR0 :: u16 where "REG_IDR0 \<equiv> 0x00"
abbreviation REG_MAR0 :: u16 where "REG_MAR0 \<equiv> 0x08"
abbreviation REG_TSD0 :: u32 where "REG_TSD0 \<equiv> 0x10"
abbreviation REG_TSAD0 :: u32 where "REG_TSAD0 \<equiv> 0x20"
abbreviation REG_RBSTART :: u16 where "REG_RBSTART \<equiv> 0x30"
abbreviation REG_CR :: u16 where "REG_CR \<equiv> 0x37"
abbreviation REG_CAPR :: u16 where "REG_CAPR \<equiv> 0x38"
abbreviation REG_IMR :: u16 where "REG_IMR \<equiv> 0x3C"
abbreviation REG_ISR :: u16 where "REG_ISR \<equiv> 0x3E"
abbreviation REG_TCR :: u16 where "REG_TCR \<equiv> 0x40"
abbreviation REG_RCR :: u16 where "REG_RCR \<equiv> 0x44"
abbreviation REG_CONFIG1 :: u16 where "REG_CONFIG1 \<equiv> 0x52"
abbreviation CR_RX_EMPTY :: u8 where "CR_RX_EMPTY \<equiv> 0x01"
abbreviation CR_RESET :: u8 where "CR_RESET \<equiv> 0x10"
abbreviation CR_RX_TX_ENABLE :: u8 where "CR_RX_TX_ENABLE \<equiv> 0x0C"
abbreviation RX_BUF_SIZE :: u32 where "RX_BUF_SIZE \<equiv> 8192"
abbreviation TX_BUF_SIZE :: u32 where "TX_BUF_SIZE \<equiv> 2048"
abbreviation TX_COUNT :: nat where "TX_COUNT \<equiv> 4"

definition reg_inb :: "'m ports \<Rightarrow> rtl8139 \<Rightarrow> 'm \<Rightarrow> u16 \<Rightarrow> u8 \<times> 'm" where
  "reg_inb pio d m reg = io_inb pio m (nic_io_base d + reg)"

definition reg_inl :: "'m ports \<Rightarrow> rtl8139 \<Rightarrow> 'm \<Rightarrow> u16 \<Rightarrow> u32 \<times> 'm" where
  "reg_inl pio d m reg = io_inl pio m (nic_io_base d + reg)"

definition reg_outb :: "'m ports \<Rightarrow> rtl8139 \<Rightarrow> 'm \<Rightarrow> u16 \<Rightarrow> u8 \<Rightarrow> 'm" where
  "reg_outb pio d m reg v = io_outb pio m (nic_io_base d + reg) v"

definition reg_outw :: "'m ports \<Rightarrow> rtl8139 \<Rightarrow> 'm \<Rightarrow> u16 \<Rightarrow> u16 \<Rightarrow> 'm" where
  "reg_outw pio d m reg v = io_outw pio m (nic_io_base d + reg) v"

definition reg_outl :: "'m ports \<Rightarrow> rtl8139 \<Rightarrow> 'm \<Rightarrow> u16 \<Rightarrow> u32 \<Rightarrow> 'm" where
  "reg_outl pio d m reg v = io_outl pio m (nic_io_base d + reg) v"

section \<open>Start\<close>

definition rtl8139_enable_pci_busmaster :: "'m ports \<Rightarrow> 'm \<Rightarrow> u8 \<times> u8 \<times> u8 \<Rightarrow> 'm" where
  "rtl8139_enable_pci_busmaster pio m dev =
     (case dev of (bus, slot, func) \<Rightarrow>
        case pci_config_read32 pio m bus slot func 0x04 of
          (cmd, m1) \<Rightarrow> pci_config_write32 pio m1 bus slot func 0x04 (cmd OR 0x00000007))"

definition rtl8139_setup_buffers :: "u32 \<Rightarrow> u32 \<Rightarrow> rtl8139 \<Rightarrow> rtl8139" where
  "rtl8139_setup_buffers ring txb d =
     d\<lparr>rx_buffer := ring, tx_buffers := map (\<lambda>i. txb + of_nat i * TX_BUF_SIZE) [0..<TX_COUNT]\<rparr>"

primrec reset_wait :: "'m ports \<Rightarrow> rtl8139 \<Rightarrow> nat \<Rightarrow> 'm \<Rightarrow> 'm" where
  "reset_wait pio d 0 m = m"
| "reset_wait pio d (Suc n) m =
     (case reg_inb pio d m REG_CR of (v, m1) \<Rightarrow> if v AND CR_RESET = 0 then m1 else reset_wait pio d n m1)"

primrec read_mac :: "'m ports \<Rightarrow> rtl8139 \<Rightarrow> nat \<Rightarrow> 'm \<Rightarrow> u8 list \<times> 'm" where
  "read_mac pio d 0 m = ([], m)"
| "read_mac pio d (Suc n) m =
     (case read_mac pio d n m of (bs, m1) \<Rightarrow>
        case reg_inb pio d m1 (REG_IDR0 + of_nat n) of (b, m2) \<Rightarrow> (bs @ [b], m2))"

text \<open>The registers in the order they are set once the card has come out of its reset.\<close>

definition configure :: "'m ports \<Rightarrow> rtl8139 \<Rightarrow> 'm \<Rightarrow> 'm" where
  "configure pio d m =
     (let m1 = reg_outb pio d m REG_CR CR_RX_TX_ENABLE;
          m2 = reg_outl pio d m1 REG_RCR 0x840F;
          m3 = reg_outl pio d m2 REG_TCR (push_bit 8 4);
          m4 = reg_outl pio d m3 REG_RBSTART (rx_buffer d);
          m5 = reg_outl pio d m4 REG_MAR0 0xFFFFFFFF;
          m6 = reg_outl pio d m5 (REG_MAR0 + 4) 0xFFFFFFFF;
          m7 = reg_outb pio d m6 REG_CR CR_RX_TX_ENABLE;
          m8 = reg_outw pio d m7 REG_ISR 0xFFFF
      in reg_outw pio d m8 REG_IMR 0x0005)"

definition rtl8139_init :: "'m ports \<Rightarrow> u32 \<Rightarrow> u32 \<Rightarrow> bool \<Rightarrow> rtl8139 \<Rightarrow> 'm \<Rightarrow> bool \<times> rtl8139 \<times> 'm" where
  "rtl8139_init pio ring txb cb d m =
     (let d0 = d\<lparr>rx_callback := cb, nic_up := False\<rparr> in
      case pci_find_device pio m 0x10EC 0x8139 of
        (None, m1) \<Rightarrow> (False, d0, m1)
      | (Some (bus, slot, func), m1) \<Rightarrow>
          let m2 = rtl8139_enable_pci_busmaster pio m1 (bus, slot, func) in
          case pci_config_read32 pio m2 bus slot func 0x10 of (bar0, m3) \<Rightarrow>
            if bar0 AND 1 = 0 then (False, d0, m3)
            else let d1 = d0\<lparr>nic_io_base := ucast (bar0 AND 0xFFFC)\<rparr> in
            if nic_io_base d1 = 0 then (False, d1, m3)
            else
              let d2 = rtl8139_setup_buffers ring txb d1;
                  m4 = reg_outb pio d2 m3 REG_CONFIG1 0x00;
                  m5 = reg_outb pio d2 m4 REG_CR CR_RESET;
                  m6 = reset_wait pio d2 100000 m5
              in case reg_inb pio d2 m6 REG_CR of (v, m7) \<Rightarrow>
                   if v AND CR_RESET \<noteq> 0 then (False, d2, m7)
                   else case read_mac pio d2 6 m7 of (bs, m8) \<Rightarrow>
                     (True, d2\<lparr>nic_mac := bs, rx_offset := 0, tx_index := 0, nic_up := True\<rparr>, configure pio d2 m8))"

section \<open>Sending\<close>

definition put_frame :: "'m dma_memory \<Rightarrow> u32 \<Rightarrow> u8 list \<Rightarrow> nat \<Rightarrow> 'm \<Rightarrow> 'm" where
  "put_frame mb tx_buf frame len m = foldl (\<lambda>m i. mem_put mb m (tx_buf + of_nat i) (rd frame i)) m [0..<len]"

definition rtl8139_send ::
  "'m ports \<Rightarrow> 'm dma_memory \<Rightarrow> rtl8139 \<Rightarrow> 'm \<Rightarrow> u8 list \<Rightarrow> u32 \<Rightarrow> bool \<times> rtl8139 \<times> 'm" where
  "rtl8139_send pio mb d m frame len =
     (if \<not> nic_up d \<or> len = 0 \<or> len > 1514 then (False, d, m)
      else
        let tsd_reg = REG_TSD0 + tx_index d * 4;
            tsad_reg = REG_TSAD0 + tx_index d * 4;
            tx_buf = tx_buffers d ! unat (tx_index d)
        in case reg_inl pio d m (ucast tsd_reg) of (status, m1) \<Rightarrow>
             if status AND push_bit 13 1 = 0 \<and> status AND push_bit 15 1 = 0 then (False, d, m1)
             else
               let m2 = put_frame mb tx_buf frame (unat len) m1;
                   m3 = reg_outl pio d m2 (ucast tsad_reg) tx_buf;
                   m4 = reg_outl pio d m3 (ucast tsd_reg) (0x80000 OR (len AND 0x1FFF))
               in (True, d\<lparr>tx_index := (tx_index d + 1) mod of_nat TX_COUNT\<rparr>, m4))"

section \<open>Receiving\<close>

definition read_u16 :: "'m dma_memory \<Rightarrow> 'm \<Rightarrow> u32 \<Rightarrow> u16" where
  "read_u16 mb m p = ucast (mem_get mb m p) OR push_bit 8 (ucast (mem_get mb m (p + 1)))"

definition ring_frame :: "'m dma_memory \<Rightarrow> rtl8139 \<Rightarrow> 'm \<Rightarrow> nat \<Rightarrow> u8 list" where
  "ring_frame mb d m frame_len =
     map (\<lambda>i. mem_get mb m (rx_buffer d + (rx_offset d + 4 + of_nat i) mod RX_BUF_SIZE)) [0..<frame_len]"

partial_function (option) rx_loop ::
  "'m ports \<Rightarrow> 'm dma_memory \<Rightarrow> (u8 list \<Rightarrow> nat \<Rightarrow> rtl8139 \<times> 'm \<times> 'w \<Rightarrow> rtl8139 \<times> 'm \<times> 'w) \<Rightarrow>
     rtl8139 \<Rightarrow> 'm \<Rightarrow> 'w \<Rightarrow> (rtl8139 \<times> 'm \<times> 'w) option" where
  "rx_loop pio mb cb d m w =
     (case reg_inb pio d m REG_CR of (cr, m1) \<Rightarrow>
        if cr AND CR_RX_EMPTY \<noteq> 0 then Some (d, m1, w)
        else
          let size = read_u16 mb m1 (rx_buffer d + rx_offset d + 2) in
          if size < 4 \<or> size > 1600 then Some (d, reg_outw pio d m1 REG_ISR 0xFFFF, w)
          else
            let frame_len = unat size - 4;
                d1 = d\<lparr>rx_frame_tmp := ring_frame mb d m1 frame_len @ drop frame_len (rx_frame_tmp d)\<rparr>
            in case (if rx_callback d1 then cb (rx_frame_tmp d1) frame_len (d1, m1, w) else (d1, m1, w)) of
                 (d2, m2, w2) \<Rightarrow>
                   let next_off = (rx_offset d2 + ucast size + 4 + 3) AND NOT 3;
                       d3 = d2\<lparr>rx_offset := next_off mod RX_BUF_SIZE\<rparr>
                   in rx_loop pio mb cb d3 (reg_outw pio d3 m2 REG_CAPR (ucast ((rx_offset d3 - 16) AND 0x1FFF))) w2)"

definition rtl8139_poll ::
  "'m ports \<Rightarrow> 'm dma_memory \<Rightarrow> (u8 list \<Rightarrow> nat \<Rightarrow> rtl8139 \<times> 'm \<times> 'w \<Rightarrow> rtl8139 \<times> 'm \<times> 'w) \<Rightarrow>
     rtl8139 \<Rightarrow> 'm \<Rightarrow> 'w \<Rightarrow> (rtl8139 \<times> 'm \<times> 'w) option" where
  "rtl8139_poll pio mb cb d m w =
     (if \<not> nic_up d then Some (d, m, w)
      else case io_inw pio m (nic_io_base d + REG_ISR) of (isr, m1) \<Rightarrow>
        if isr = 0 then Some (d, m1, w)
        else rx_loop pio mb cb d (reg_outw pio d m1 REG_ISR isr) w)"

end
