(* ===== verification/RTL8139_Ring.thy ===== *)
theory RTL8139_Ring
  imports RTL8139
begin

unbundle bit_operations_syntax

text \<open>
  The receive loop of the driver against the ring protocol of the card.  The locale states what the
  card promises: the empty bit of the command register, the header and the bytes of the next frame in the ring, which
  wraps at 8192 bytes, and what a write of the read pointer does.  The client lemma says that one run of the
  loop hands out every frame of the ring, each once and in order.
\<close>

section \<open>Arithmetic of the ring\<close>

definition next_pos :: "nat \<Rightarrow> nat \<Rightarrow> nat" where
  "next_pos off n = (off + n + 11) div 4 * 4 mod 8192"

lemma unat_and_not3: "unat (x AND NOT 3 :: u32) = unat x div 4 * 4"
proof -
  have m: "(3 :: u32) = mask 2" by (simp add: mask_eq_exp_minus_1)
  have e: "x AND NOT 3 = push_bit 2 (drop_bit 2 x)" unfolding m
    by (rule bit_word_eqI) (auto simp: bit_simps not_less simp flip: add_2_eq_Suc)
  have d: "unat (drop_bit 2 x) = unat x div 4" by (simp add: drop_bit_eq_div unat_div)
  have "unat x < 2 ^ 32" using unsigned_less [of x] by simp
  then have "unat x div 4 * 4 < 2 ^ 32" using div_times_less_eq_dividend [of "unat x" 4] by linarith
  moreover have "unat (drop_bit 2 x * 4) = unat x div 4 * 4 mod 2 ^ 32" by (simp add: unat_word_ariths d)
  ultimately have "unat (drop_bit 2 x * 4) = unat x div 4 * 4" by (simp only: mod_less)
  then show ?thesis unfolding e by (simp add: push_bit_eq_mult)
qed

lemma of_nat_small: "n < 2 ^ 32 \<Longrightarrow> unat (of_nat n :: u32) = n"
  unfolding unat_of_nat by (rule mod_less) simp

lemma word_of_unat: "unat a = n \<Longrightarrow> a = of_nat n"
  by (drule sym) simp

lemma unat_mod_ring: "unat (x mod RX_BUF_SIZE) = unat x mod 8192"
  by (simp add: unat_mod)

lemma unat_size: "n \<le> 1596 \<Longrightarrow> unat (of_nat (n + 4) :: u16) = n + 4"
  unfolding unat_of_nat by (rule mod_less) simp

lemma next_offset:
  assumes "off < 8192" "n \<le> 1596"
  shows "((of_nat off + ucast (of_nat (n + 4) :: u16) + 4 + 3) AND NOT 3) mod RX_BUF_SIZE = of_nat (next_pos off n)"
proof -
  have "unat (ucast (of_nat (n + 4) :: u16) :: u32) = n + 4"
    unfolding unsigned_ucast_eq unat_size [OF assms(2)] by (rule take_bit_nat_eq_self) (use assms(2) in simp)
  then have u: "(ucast (of_nat (n + 4) :: u16) :: u32) = of_nat (n + 4)" by (rule word_of_unat)
  have "(of_nat off + of_nat (n + 4) + 4 + 3 :: u32) = of_nat (off + n + 11)" by simp
  moreover have "unat (of_nat (off + n + 11) :: u32) = off + n + 11" by (rule of_nat_small) (use assms in simp)
  ultimately have "unat (((of_nat off + of_nat (n + 4) + 4 + 3 :: u32) AND NOT 3) mod RX_BUF_SIZE) = next_pos off n"
    unfolding unat_mod_ring unat_and_not3 next_pos_def by (simp only:)
  then show ?thesis unfolding u by (rule word_of_unat)
qed

lemma read_pointer:
  assumes "n < 8192"
  shows "(ucast ((of_nat n - 16 :: u32) AND 0x1FFF) :: u16) = of_nat ((n + 8176) mod 8192)"
proof -
  have m: "(0x1FFF :: u32) = mask 13" by (simp add: mask_eq_exp_minus_1)
  have "(of_nat n - 16 :: u32) = of_nat (n + 4294967280)" by simp
  then have u: "unat (of_nat n - 16 :: u32) = (n + 4294967280) mod 2 ^ 32" by (simp only: unat_of_nat) simp
  have "unat ((of_nat n - 16 :: u32) AND 0x1FFF) = (n + 4294967280) mod 2 ^ 32 mod 8192"
    unfolding m by (simp add: take_bit_eq_mask [symmetric] take_bit_eq_mod unat_mod u)
  also have "\<dots> = (n + 4294967280) mod 8192" by (rule mod_mod_cancel) simp
  also have "\<dots> = (n + 8176) mod 8192"
  proof -
    have "n + 4294967280 = n + 8176 + 524287 * 8192" by simp
    then show ?thesis by (simp only: mod_mult_self1)
  qed
  finally have a: "unat ((of_nat n - 16 :: u32) AND 0x1FFF) = (n + 8176) mod 8192" .
  have "(n + 8176) mod 8192 < 2 ^ 16" by (rule less_trans [of _ 8192]) simp_all
  then have "unat (ucast ((of_nat n - 16 :: u32) AND 0x1FFF) :: u16) = (n + 8176) mod 8192"
    unfolding unsigned_ucast_eq a by (intro take_bit_nat_eq_self) simp
  then show ?thesis by (rule word_of_unat)
qed


section \<open>The loop\<close>

definition same_ring :: "rtl8139 \<Rightarrow> rtl8139 \<Rightarrow> bool" where
  "same_ring d d' \<longleftrightarrow> nic_io_base d' = nic_io_base d \<and> rx_buffer d' = rx_buffer d \<and> rx_callback d' = rx_callback d \<and> rx_offset d' = rx_offset d"

locale receive_ring =
  fixes pio :: "'m ports" and mb :: "'m dma_memory" and base :: u16 and ring :: u32
    and ok :: "'m \<Rightarrow> bool" and queue :: "'m \<Rightarrow> u8 list list" and pos :: "'m \<Rightarrow> nat"
    and drv :: "rtl8139 \<Rightarrow> bool" and log :: "'w \<Rightarrow> u8 list list"
    and cb :: "u8 list \<Rightarrow> nat \<Rightarrow> rtl8139 \<times> 'm \<times> 'w \<Rightarrow> rtl8139 \<times> 'm \<times> 'w"
  assumes position: "ok m \<Longrightarrow> pos m < 8192 \<and> pos m mod 4 = 0"
    and status: "ok m \<Longrightarrow> io_inb pio m (base + REG_CR) = (v, m') \<Longrightarrow>
      ok m' \<and> queue m' = queue m \<and> pos m' = pos m \<and> (v AND CR_RX_EMPTY \<noteq> 0 \<longleftrightarrow> queue m = [])"
    and header: "ok m \<Longrightarrow> queue m = f # fs \<Longrightarrow>
      length f \<le> 1596 \<and> read_u16 mb m (ring + of_nat (pos m) + 2) = of_nat (length f + 4)"
    and bytes: "ok m \<Longrightarrow> queue m = f # fs \<Longrightarrow> i < length f \<Longrightarrow> mem_get mb m (ring + of_nat ((pos m + 4 + i) mod 8192)) = f ! i"
    and consumed: "ok m \<Longrightarrow> queue m = f # fs \<Longrightarrow>
      m' = io_outw pio m (base + REG_CAPR) (of_nat ((next_pos (pos m) (length f) + 8176) mod 8192)) \<Longrightarrow>
      ok m' \<and> queue m' = fs \<and> pos m' = next_pos (pos m) (length f)"
    and driver: "drv d \<Longrightarrow> drv (d\<lparr>rx_offset := off\<rparr>) \<and> drv (d\<lparr>rx_frame_tmp := buf\<rparr>)"
    and listener: "ok m \<Longrightarrow> drv d \<Longrightarrow> cb buf n (d, m, w) = (d', m', w') \<Longrightarrow>
      ok m' \<and> queue m' = queue m \<and> pos m' = pos m \<and> drv d' \<and> same_ring d d' \<and> log w' = log w @ [take n buf]"
begin

definition listening :: "rtl8139 \<Rightarrow> 'm \<Rightarrow> bool" where
  "listening d m \<longleftrightarrow> ok m \<and> drv d \<and> nic_io_base d = base \<and> rx_buffer d = ring \<and> rx_callback d \<and> rx_offset d = of_nat (pos m)"

lemma frame_read:
  assumes "listening d m" "queue m = f # fs"
  shows "ring_frame mb d m (length f) = f"
proof (rule nth_equalityI)
  fix i assume "i < length (ring_frame mb d m (length f))"
  then have i: "i < length f" by (simp add: ring_frame_def)
  have ok: "ok m" and r: "rx_buffer d = ring" "rx_offset d = of_nat (pos m)" using assms(1) by (auto simp: listening_def)
  have b: "pos m < 8192" "length f \<le> 1596" using position [OF ok] header [OF ok assms(2)] by simp_all
  have "unat (of_nat (pos m + 4 + i) :: u32) = pos m + 4 + i" by (rule of_nat_small) (use b i in simp)
  then have "unat ((of_nat (pos m + 4 + i) :: u32) mod RX_BUF_SIZE) = (pos m + 4 + i) mod 8192" by (simp only: unat_mod_ring)
  then have "(of_nat (pos m + 4 + i) :: u32) mod RX_BUF_SIZE = of_nat ((pos m + 4 + i) mod 8192)" by (rule word_of_unat)
  moreover have "(of_nat (pos m) + 4 + of_nat i :: u32) = of_nat (pos m + 4 + i)" by simp
  ultimately have a: "(rx_offset d + 4 + of_nat i) mod RX_BUF_SIZE = of_nat ((pos m + 4 + i) mod 8192)" unfolding r by metis
  have "ring_frame mb d m (length f) ! i = mem_get mb m (rx_buffer d + (rx_offset d + 4 + of_nat i) mod RX_BUF_SIZE)"
    using i by (simp add: ring_frame_def)
  also have "\<dots> = f ! i" unfolding a r(1) by (rule bytes [OF ok assms(2) i])
  finally show "ring_frame mb d m (length f) ! i = f ! i" .
qed (simp add: ring_frame_def)

text \<open>One round with any handler \<open>h\<close>: the frame it gets, and what happens to the read offset behind it.\<close>

lemma round_step:
  assumes l: "listening d m" and q: "queue m = f # fs" and v: "io_inb pio m (base + REG_CR) = (v, m1)"
    and c: "h (f @ drop (length f) (rx_frame_tmp d)) (length f) (d\<lparr>rx_frame_tmp := f @ drop (length f) (rx_frame_tmp d)\<rparr>, m1, w) = (d2, m2, w2)"
    and b: "nic_io_base d2 = base"
    and d3: "d3 = d2\<lparr>rx_offset := ((rx_offset d2 + ucast (of_nat (length f + 4) :: u16) + 4 + 3) AND NOT 3) mod RX_BUF_SIZE\<rparr>"
  shows "rx_loop pio mb h d m w = rx_loop pio mb h d3 (io_outw pio m2 (base + REG_CAPR) (ucast ((rx_offset d3 - 16) AND 0x1FFF))) w2"
proof -
  have ok: "ok m" and d: "nic_io_base d = base" "rx_buffer d = ring" "rx_callback d" "rx_offset d = of_nat (pos m)"
    using l by (auto simp: listening_def)
  have s: "ok m1" "queue m1 = f # fs" "pos m1 = pos m" "v AND CR_RX_EMPTY = 0" using status [OF ok v] q by auto
  have l1: "listening d m1" using l s by (auto simp: listening_def)
  have h: "length f \<le> 1596" "read_u16 mb m1 (ring + of_nat (pos m) + 2) = of_nat (length f + 4)"
    using header [OF s(1,2)] s(3) by auto
  have sz: "unat (of_nat (length f + 4) :: u16) = length f + 4" using h(1) by (rule unat_size)
  define S where "S = (of_nat (length f + 4) :: u16)"
  have rng: "\<not> S < 4" "\<not> S > 1600"
    using h(1) sz by (simp_all add: S_def word_less_nat_alt del: of_nat_add)
  have fl: "unat S - 4 = length f" unfolding S_def sz by simp
  have off3: "rx_offset d3 = ((rx_offset d2 + ucast S + 4 + 3) AND NOT 3) mod RX_BUF_SIZE" by (simp add: d3 S_def)
  show ?thesis
    using v s(4) rng c d frame_read [OF l1 s(2)] h(2) d3 fl off3 b
    unfolding S_def [symmetric] by (simp add: rx_loop.simps [of pio mb h d] reg_inb_def reg_outw_def Let_def)
qed

lemma one_round:
  assumes l: "listening d m" and q: "queue m = f # fs"
  shows "\<exists>d' m' w'. rx_loop pio mb cb d m w = rx_loop pio mb cb d' m' w' \<and> listening d' m' \<and> queue m' = fs
    \<and> log w' = log w @ [f]"
proof -
  have ok: "ok m" and d: "drv d" "nic_io_base d = base" "rx_buffer d = ring" "rx_callback d" "rx_offset d = of_nat (pos m)"
    using l by (auto simp: listening_def)
  obtain v m1 where v: "io_inb pio m (base + REG_CR) = (v, m1)" by fastforce
  have s: "ok m1" "queue m1 = f # fs" "pos m1 = pos m" using status [OF ok v] q by auto
  have n: "length f \<le> 1596" "pos m < 8192" using header [OF s(1,2)] position [OF ok] by auto
  let ?t = "f @ drop (length f) (rx_frame_tmp d)"
  obtain d2 m2 w2 where c: "cb ?t (length f) (d\<lparr>rx_frame_tmp := ?t\<rparr>, m1, w) = (d2, m2, w2)" by (metis prod_cases3)
  have L: "ok m2" "queue m2 = f # fs" "pos m2 = pos m" "drv d2" "same_ring (d\<lparr>rx_frame_tmp := ?t\<rparr>) d2" "log w2 = log w @ [f]"
    using listener [OF s(1) _ c] driver [OF d(1)] s(2,3) by auto
  have d2: "nic_io_base d2 = base" "rx_buffer d2 = ring" "rx_callback d2" "rx_offset d2 = of_nat (pos m)"
    using L(5) d by (auto simp: same_ring_def)
  define k where "k = next_pos (pos m) (length f)"
  have k: "k < 8192" by (simp add: k_def next_pos_def)
  have nx: "((rx_offset d2 + ucast (of_nat (length f + 4) :: u16) + 4 + 3) AND NOT 3) mod RX_BUF_SIZE = of_nat k"
    using next_offset [OF n(2,1)] by (simp only: d2(4) k_def)
  define d3 where "d3 = d2\<lparr>rx_offset := of_nat k\<rparr>"
  define m3 where "m3 = io_outw pio m2 (base + REG_CAPR) (of_nat ((k + 8176) mod 8192))"
  have "rx_loop pio mb cb d m w = rx_loop pio mb cb d3 m3 w2"
    using round_step [where h = cb, OF l q v c d2(1), of d3] unfolding nx read_pointer [OF k, symmetric] m3_def by (simp add: d3_def)
  moreover have m3: "ok m3" "queue m3 = fs" "pos m3 = k"
    using consumed [OF L(1,2), of m3] by (simp_all add: m3_def k_def L(3))
  moreover have "listening d3 m3" using driver [OF L(4)] d2 m3 by (simp add: listening_def d3_def)
  ultimately show ?thesis using L(6) by blast
qed

lemma loop_drains:
  assumes "listening d m"
  shows "\<exists>d' m' w'. rx_loop pio mb cb d m w = Some (d', m', w') \<and> listening d' m' \<and> queue m' = [] \<and> log w' = log w @ queue m"
  using assms
proof (induction "queue m" arbitrary: d m w)
  case Nil
  have ok: "ok m" "nic_io_base d = base" using Nil.prems by (auto simp: listening_def)
  obtain v m1 where v: "io_inb pio m (base + REG_CR) = (v, m1)" by fastforce
  have s: "ok m1" "queue m1 = []" "pos m1 = pos m" "v AND CR_RX_EMPTY \<noteq> 0" using status [OF ok(1) v] Nil.hyps by auto
  have "rx_loop pio mb cb d m w = Some (d, m1, w)"
    using v s(4) ok(2) by (simp add: rx_loop.simps [of pio mb cb d] reg_inb_def)
  moreover have "listening d m1" using Nil.prems s by (auto simp: listening_def)
  ultimately show ?case using s(2) Nil.hyps by (metis append_Nil2)
next
  case (Cons f fs)
  obtain d1 m1 w1 where s: "rx_loop pio mb cb d m w = rx_loop pio mb cb d1 m1 w1" "listening d1 m1" "queue m1 = fs"
      "log w1 = log w @ [f]" using one_round [OF Cons.prems] Cons.hyps(2) by metis
  from Cons.hyps(1) [OF s(3) [symmetric] s(2), of w1] s Cons.hyps(2) show ?case by auto
qed

end

end
