(* ===== verification/RTL8139_Card.thy ===== *)
theory RTL8139_Card
  imports RTL8139_Ring
begin

unbundle bit_operations_syntax

text \<open>
  A card that follows the documented protocol, as far as the driver uses it, and the driver on it.
  The card counts the bytes it has put into the ring and the bytes that were read, both without a bound; the
  registers show them modulo the size of the ring.  Frames it has accepted are recorded, as are the
  frames it has transmitted.
\<close>

section \<open>The card\<close>

record card =
  c_mem :: "u32 \<Rightarrow> u8"
  c_rd :: nat
  c_wr :: nat
  c_isr :: u16
  c_frames :: "u8 list list"
  c_accepted :: "u8 list list"
  c_sent :: "u8 list list"
  c_tsad :: "nat \<Rightarrow> u32"
  c_cfg :: u32

abbreviation CARD_BASE :: u16 where "CARD_BASE \<equiv> 0xC000"
abbreviation RING :: u32 where "RING \<equiv> 0x00200000"
abbreviation TXB :: u32 where "TXB \<equiv> 0x00204000"

definition card_mac :: "u8 list" where
  "card_mac = [0x52, 0x54, 0x00, 0x12, 0x34, 0x56]"

definition ring_span :: "nat \<Rightarrow> nat" where
  "ring_span n = (n + 11) div 4 * 4"

definition rx_header :: "u8 list \<Rightarrow> u8 list" where
  "rx_header f = [1, 0] @ u16_le (of_nat (length f + 4))"

definition ring_offset :: "nat \<Rightarrow> u32 \<Rightarrow> nat" where
  "ring_offset wr a = nat ((int (unat (a - RING)) - int wr) mod 8192)"

definition ring_write :: "(u32 \<Rightarrow> u8) \<Rightarrow> nat \<Rightarrow> u8 list \<Rightarrow> u32 \<Rightarrow> u8" where
  "ring_write mem wr bs a =
     (if unat (a - RING) < 8192 \<and> ring_offset wr a < length bs then bs ! ring_offset wr a else mem a)"

definition card_receive :: "u8 list \<Rightarrow> card \<Rightarrow> card" where
  "card_receive f c =
     (if length f \<le> 1514 \<and> c_wr c + ring_span (length f) < c_rd c + 8192
      then c\<lparr>c_mem := ring_write (c_mem c) (c_wr c) (rx_header f @ f), c_wr := c_wr c + ring_span (length f),
             c_isr := c_isr c OR 1, c_frames := c_frames c @ [f], c_accepted := c_accepted c @ [f]\<rparr>
      else c)"

definition card_reset :: "card \<Rightarrow> card" where
  "card_reset c = c\<lparr>c_rd := 0, c_wr := 0, c_isr := 0, c_frames := [], c_accepted := [], c_sent := []\<rparr>"

definition card_read_pointer :: "u16 \<Rightarrow> card \<Rightarrow> card" where
  "card_read_pointer v c =
     (let step = nat ((int (unat v) + 16 - int (c_rd c)) mod 8192) in
      c\<lparr>c_rd := c_rd c + step,
        c_frames := (case c_frames c of [] \<Rightarrow> [] | f # fs \<Rightarrow> if step = ring_span (length f) then fs else f # fs)\<rparr>)"

definition card_transmit :: "nat \<Rightarrow> nat \<Rightarrow> card \<Rightarrow> card" where
  "card_transmit i len c = c\<lparr>c_sent := c_sent c @ [map (\<lambda>k. c_mem c (c_tsad c i + of_nat k)) [0..<len]]\<rparr>"

definition card_config :: "u32 \<Rightarrow> u32" where
  "card_config a =
     (if a = pci_make_address 0 0 0 0 then 0x813910EC else if a = pci_make_address 0 0 0 4 then 0
      else if a = pci_make_address 0 0 0 0x10 then 0xC001 else 0xFFFFFFFF)"

definition card_ports :: "card ports" where
  "card_ports =
     \<lparr>io_inb = \<lambda>c p. (if p = CARD_BASE + REG_CR then (if c_rd c = c_wr c then 1 else 0)
                      else if CARD_BASE \<le> p \<and> p < CARD_BASE + 6 then card_mac ! unat (p - CARD_BASE) else 0, c),
      io_inw = \<lambda>c p. (if p = CARD_BASE + REG_ISR then c_isr c else 0, c),
      io_inl = \<lambda>c p. (if p = 0xCFC then card_config (c_cfg c) else if p < CARD_BASE + 0x20 then push_bit 13 1 else 0, c),
      io_outb = \<lambda>c p v. if p = CARD_BASE + REG_CR \<and> v = CR_RESET then card_reset c else c,
      io_outw = \<lambda>c p v. if p = CARD_BASE + REG_ISR then c\<lparr>c_isr := c_isr c AND NOT v\<rparr>
                      else if p = CARD_BASE + REG_CAPR then card_read_pointer v c else c,
      io_outl = \<lambda>c p v. if p = 0xCF8 then c\<lparr>c_cfg := v\<rparr>
                      else if CARD_BASE + 0x20 \<le> p \<and> p < CARD_BASE + 0x30
                      then c\<lparr>c_tsad := (c_tsad c)(unat (p - CARD_BASE - 0x20) div 4 := v)\<rparr>
                      else if CARD_BASE + 0x10 \<le> p \<and> p < CARD_BASE + 0x20
                      then card_transmit (unat (p - CARD_BASE - 0x10) div 4) (unat (v AND 0x1FFF)) c else c\<rparr>"

definition card_dma :: "card dma_memory" where
  "card_dma = \<lparr>mem_get = c_mem, mem_put = \<lambda>c a v. c\<lparr>c_mem := (c_mem c)(a := v)\<rparr>\<rparr>"

section \<open>The frames in the ring\<close>

definition in_ring :: "(u32 \<Rightarrow> u8) \<Rightarrow> nat \<Rightarrow> u8 list \<Rightarrow> bool" where
  "in_ring mem at f \<longleftrightarrow> length f \<le> 1514
     \<and> (\<forall>i < 4 + length f. mem (RING + of_nat ((at + i) mod 8192)) = (rx_header f @ f) ! i)"

fun chain :: "(u32 \<Rightarrow> u8) \<Rightarrow> nat \<Rightarrow> u8 list list \<Rightarrow> nat \<Rightarrow> bool" where
  "chain mem at [] stop \<longleftrightarrow> at = stop"
| "chain mem at (f # fs) stop \<longleftrightarrow> in_ring mem at f \<and> chain mem (at + ring_span (length f)) fs stop"

definition card_ok :: "card \<Rightarrow> bool" where
  "card_ok c \<longleftrightarrow> chain (c_mem c) (c_rd c) (c_frames c) (c_wr c) \<and> c_rd c mod 4 = 0 \<and> c_wr c mod 4 = 0 \<and> c_wr c < c_rd c + 8192"

definition ring_pos :: "card \<Rightarrow> nat" where
  "ring_pos c = c_rd c mod 8192"

lemma ring_span_props: "ring_span n mod 4 = 0" "n + 8 \<le> ring_span n" "ring_span n \<le> n + 11" "0 < ring_span n"
  unfolding ring_span_def by (presburger | arith)+

lemma chain_le: "chain mem at fs stop \<Longrightarrow> at \<le> stop"
  by (induction fs arbitrary: at) fastforce+

lemma length_rx_header [simp]: "length (rx_header f) = 4"
  by (simp add: rx_header_def)

lemma ring_unat: "k < 8192 \<Longrightarrow> unat (RING + of_nat k - RING) = k"
  by (simp add: of_nat_small)

lemma ring_offset_at: "ring_offset wr (RING + of_nat (p mod 8192)) = nat ((int p - int wr) mod 8192)"
proof -
  have "ring_offset wr (RING + of_nat (p mod 8192)) = nat ((int (p mod 8192) - int wr) mod 8192)"
    unfolding ring_offset_def by (subst ring_unat) simp_all
  then show ?thesis by (simp add: zmod_int mod_diff_left_eq)
qed

lemma chain_cong:
  assumes "\<And>k. at \<le> k \<Longrightarrow> k < stop \<Longrightarrow> mem' (RING + of_nat (k mod 8192)) = mem (RING + of_nat (k mod 8192))"
  shows "chain mem at fs stop \<Longrightarrow> chain mem' at fs stop"
  using assms
proof (induction fs arbitrary: at)
  case (Cons f fs)
  have s: "in_ring mem at f" and c: "chain mem (at + ring_span (length f)) fs stop" using Cons.prems(1) by auto
  have "in_ring mem' at f"
    using s Cons.prems(2) chain_le [OF c] ring_span_props(2) [of "length f"] unfolding in_ring_def by fastforce
  moreover have "chain mem' (at + ring_span (length f)) fs stop"
    by (rule Cons.IH [OF c]) (use Cons.prems(2) in simp)
  ultimately show ?case by simp
qed simp

lemma chain_snoc: "chain mem at fs stop \<Longrightarrow> in_ring mem stop f \<Longrightarrow> chain mem at (fs @ [f]) (stop + ring_span (length f))"
  by (induction fs arbitrary: at) auto

text \<open>A new frame goes behind the others and overwrites none of them.\<close>

lemma receive_ok:
  assumes ok: "card_ok c"
  shows "card_ok (card_receive f c)"
proof (cases "length f \<le> 1514 \<and> c_wr c + ring_span (length f) < c_rd c + 8192")
  case True
  let ?bs = "rx_header f @ f" and ?n = "ring_span (length f)"
  let ?mem = "ring_write (c_mem c) (c_wr c) ?bs"
  have ch: "chain (c_mem c) (c_rd c) (c_frames c) (c_wr c)" and le: "c_rd c \<le> c_wr c"
    using ok chain_le by (auto simp: card_ok_def)
  have n: "4 + length f \<le> ?n" using ring_span_props(2) [of "length f"] by simp
  have old: "?mem (RING + of_nat (k mod 8192)) = c_mem c (RING + of_nat (k mod 8192))" if k: "c_rd c \<le> k" "k < c_wr c" for k
  proof -
    have "(int k - int (c_wr c) + 8192) mod 8192 = int k - int (c_wr c) + 8192"
      by (rule mod_pos_pos_trivial) (use k True n in linarith)+
    then have "(int k - int (c_wr c)) mod 8192 = int k - int (c_wr c) + 8192" by (simp only: mod_add_self2)
    then have "ring_offset (c_wr c) (RING + of_nat (k mod 8192)) = nat (int k - int (c_wr c) + 8192)"
      unfolding ring_offset_at by simp
    moreover have "int (4 + length f) \<le> int k - int (c_wr c) + 8192" using k True n by linarith
    ultimately have "\<not> ring_offset (c_wr c) (RING + of_nat (k mod 8192)) < length ?bs" by (simp add: nat_less_iff)
    then show ?thesis by (simp add: ring_write_def)
  qed
  have new: "in_ring ?mem (c_wr c) f"
    unfolding in_ring_def
  proof (intro conjI allI impI)
    fix i assume i: "i < 4 + length f"
    have "ring_offset (c_wr c) (RING + of_nat ((c_wr c + i) mod 8192)) = i"
      unfolding ring_offset_at using i True by simp
    moreover have "unat (RING + of_nat ((c_wr c + i) mod 8192) - RING) < 8192" by (subst ring_unat) simp_all
    ultimately show "?mem (RING + of_nat ((c_wr c + i) mod 8192)) = ?bs ! i" using i by (simp add: ring_write_def)
  qed (use True in simp)
  have "chain ?mem (c_rd c) (c_frames c @ [f]) (c_wr c + ?n)"
    by (rule chain_snoc [OF chain_cong [OF _ ch] new]) (rule old)
  then show ?thesis
    using True ok ring_span_props(1) [of "length f"] by (simp add: card_receive_def card_ok_def mod_add_eq [of _ 4, symmetric])
qed (auto simp: card_receive_def ok)


section \<open>The ring protocol\<close>

lemma next_ring_pos:
  assumes "r mod 4 = 0"
  shows "next_pos (r mod 8192) n = (r + ring_span n) mod 8192"
proof -
  have "r mod 8192 mod 4 = 0" using assms by (simp add: mod_mod_cancel)
  then obtain q where q: "r mod 8192 = 4 * q" by (metis mod_0_imp_dvd dvdE)
  have e: "(4 * q + (n + 11)) div 4 * 4 = 4 * q + ring_span n" by (simp add: ring_span_def)
  have "next_pos (r mod 8192) n = (r mod 8192 + ring_span n) mod 8192" unfolding next_pos_def q add.assoc e ..
  then show ?thesis by (simp add: mod_add_left_eq)
qed

lemma read_pointer_step:
  assumes ok: "card_ok c" and q: "c_frames c = f # fs"
  shows "card_read_pointer (of_nat ((next_pos (ring_pos c) (length f) + 8176) mod 8192)) c
    = c\<lparr>c_rd := c_rd c + ring_span (length f), c_frames := fs\<rparr>"
proof -
  let ?s = "ring_span (length f)" and ?n = "next_pos (ring_pos c) (length f)"
  have r: "c_rd c mod 4 = 0" "length f \<le> 1514" using ok q by (simp_all add: card_ok_def in_ring_def)
  have n: "?n = (c_rd c + ?s) mod 8192" using next_ring_pos [OF r(1)] by (simp add: ring_pos_def)
  have s: "?s < 8192" using ring_span_props(3) [of "length f"] r(2) by simp
  have "(?n + 8176) mod 8192 < 2 ^ 16" by (rule less_trans [of _ 8192]) simp_all
  then have v: "unat (of_nat ((?n + 8176) mod 8192) :: u16) = (?n + 8176) mod 8192" unfolding unat_of_nat by (intro mod_less) simp
  have "(int ((?n + 8176) mod 8192) + 16 - int (c_rd c)) mod 8192 = (int (?n + 8176) + (16 - int (c_rd c))) mod 8192"
    by (simp only: zmod_int add_diff_eq [symmetric]) (simp only: mod_add_left_eq of_nat_numeral)
  also have "\<dots> = (int ?n - int (c_rd c) + 8192) mod 8192" by (simp add: algebra_simps)
  also have "\<dots> = (int ?n - int (c_rd c)) mod 8192" by (rule mod_add_self2)
  also have "\<dots> = (int (c_rd c + ?s) - int (c_rd c)) mod 8192"
    unfolding n by (simp only: zmod_int of_nat_numeral mod_diff_left_eq)
  also have "\<dots> = int ?s" using s by simp
  finally have "nat ((int ((?n + 8176) mod 8192) + 16 - int (c_rd c)) mod 8192) = ?s" by simp
  then show ?thesis unfolding card_read_pointer_def v Let_def q by simp
qed

lemma header_bytes:
  assumes ok: "card_ok c" and q: "c_frames c = f # fs"
  shows "i < 4 + length f \<Longrightarrow> c_mem c (RING + of_nat ((ring_pos c + i) mod 8192)) = (rx_header f @ f) ! i"
    and "read_u16 card_dma c (RING + of_nat (ring_pos c) + 2) = of_nat (length f + 4)"
proof -
  have st: "in_ring (c_mem c) (c_rd c) f" "c_rd c mod 4 = 0" using ok q by (simp_all add: card_ok_def)
  show b: "c_mem c (RING + of_nat ((ring_pos c + i) mod 8192)) = (rx_header f @ f) ! i" if "i < 4 + length f" for i
    using st(1) that by (simp add: in_ring_def ring_pos_def mod_add_left_eq)
  have "ring_pos c mod 4 = 0" "ring_pos c < 8192" using st(2) by (simp_all add: ring_pos_def mod_mod_cancel)
  then have lt: "ring_pos c + 3 < 8192" by presburger
  have "c_mem c (RING + of_nat (ring_pos c) + 2) = rx_header f ! 2" "c_mem c (RING + of_nat (ring_pos c) + 2 + 1) = rx_header f ! 3"
    using b [of 2] b [of 3] lt by (simp_all add: nth_append add.assoc)
  then have "read_u16 card_dma c (RING + of_nat (ring_pos c) + 2) = le_u16 (u16_le (of_nat (length f + 4)))"
    by (simp add: read_u16_def card_dma_def rx_header_def u16_le_def le_u16_def)
  then show "read_u16 card_dma c (RING + of_nat (ring_pos c) + 2) = of_nat (length f + 4)"
    using le_u16_u16_le [of "of_nat (length f + 4)" "[]"] by simp
qed

section \<open>Sending\<close>

definition nic_ready :: "rtl8139 \<Rightarrow> bool" where
  "nic_ready d \<longleftrightarrow> nic_io_base d = CARD_BASE \<and> nic_up d \<and> tx_buffers d = map (\<lambda>i. TXB + of_nat i * TX_BUF_SIZE) [0..<TX_COUNT]
     \<and> tx_index d < of_nat TX_COUNT"

definition ring_same :: "card \<Rightarrow> card \<Rightarrow> bool" where
  "ring_same c c' \<longleftrightarrow> card_ok c' \<and> c_rd c' = c_rd c \<and> c_wr c' = c_wr c \<and> c_frames c' = c_frames c \<and> c_accepted c' = c_accepted c
     \<and> c_isr c' = c_isr c"

lemma put_frame_card:
  assumes "n \<le> 2048"
  shows "put_frame card_dma a f n c = c\<lparr>c_mem := (\<lambda>p. if unat (p - a) < n then rd f (unat (p - a)) else c_mem c p)\<rparr>"
  using assms
proof (induction n)
  case (Suc n)
  have n: "unat (of_nat n :: u32) = n" by (rule of_nat_small) (use Suc.prems in simp)
  have e: "p = a + of_nat n \<longleftrightarrow> unat (p - a) = n" for p
  proof
    assume "unat (p - a) = n"
    then have "p - a = of_nat n" by (rule word_of_unat)
    then show "p = a + of_nat n" by (simp add: algebra_simps)
  qed (simp add: n)
  show ?case
    using Suc unfolding put_frame_def by (simp add: card_dma_def fun_eq_iff e less_Suc_eq)
qed (simp add: put_frame_def card_dma_def)

lemma ring_untouched:
  assumes ok: "card_ok c" and m: "\<And>k. k < 8192 \<Longrightarrow> mem (RING + of_nat k) = c_mem c (RING + of_nat k)"
  shows "card_ok (c\<lparr>c_mem := mem\<rparr>)"
  using ok chain_cong [of "c_rd c" "c_wr c" mem "c_mem c" "c_frames c"] m by (simp add: card_ok_def)

lemma tx_away:
  assumes "i < 4" "k < 8192" "n \<le> 2048"
  shows "\<not> unat (RING + of_nat k - (TXB + of_nat i * TX_BUF_SIZE)) < n"
proof -
  let ?x = "of_nat (k + 4294950912 - i * 2048) :: u32"
  have h: "?x + of_nat (i * 2048) = of_nat (k + 4294950912)" unfolding of_nat_add [symmetric] using assms by simp
  have "?x + (TXB + of_nat i * TX_BUF_SIZE) = ?x + of_nat (i * 2048) + TXB" by (simp only: of_nat_mult of_nat_numeral ac_simps)
  also have "\<dots> = RING + of_nat k" unfolding h by simp
  finally have e: "RING + of_nat k - (TXB + of_nat i * TX_BUF_SIZE) = ?x" by (simp only: diff_eq_eq)
  have u: "unat ?x = k + 4294950912 - i * 2048" by (rule of_nat_small) (use assms in simp)
  show ?thesis unfolding e u using assms by simp
qed


lemma tx_register:
  assumes "t < of_nat TX_COUNT"
  shows "CARD_BASE + ucast (REG_TSD0 + t * 4) = 0xC010 + 4 * of_nat (unat t)" "CARD_BASE + ucast (REG_TSAD0 + t * 4) = 0xC020 + 4 * of_nat (unat t)"
    "unat t < 4"
proof -
  show u: "unat t < 4" using assms by (simp add: word_less_nat_alt)
  have t: "t = of_nat (unat t)" by simp
  consider "unat t = 0" | "unat t = 1" | "unat t = 2" | "unat t = 3" using u by linarith
  then show "CARD_BASE + ucast (REG_TSD0 + t * 4) = 0xC010 + 4 * of_nat (unat t)" "CARD_BASE + ucast (REG_TSAD0 + t * 4) = 0xC020 + 4 * of_nat (unat t)"
    by (cases; subst (1) t; simp)+
qed

lemma tx_ports:
  assumes "t < 4"
  shows "io_inl card_ports c (0xC010 + 4 * of_nat t) = (push_bit 13 1, c)"
    "io_outl card_ports c (0xC020 + 4 * of_nat t) v = c\<lparr>c_tsad := (c_tsad c)(t := v)\<rparr>"
    "io_outl card_ports c (0xC010 + 4 * of_nat t) v = card_transmit t (unat (v AND 0x1FFF)) c"
proof -
  consider "t = 0" | "t = 1" | "t = 2" | "t = 3" using assms by linarith
  note cs = this
  show "io_inl card_ports c (0xC010 + 4 * of_nat t) = (push_bit 13 1, c)"
    by (cases rule: cs) (simp_all add: card_ports_def)
  show "io_outl card_ports c (0xC020 + 4 * of_nat t) v = c\<lparr>c_tsad := (c_tsad c)(t := v)\<rparr>"
    by (cases rule: cs) (simp_all add: card_ports_def)
  show "io_outl card_ports c (0xC010 + 4 * of_nat t) v = card_transmit t (unat (v AND 0x1FFF)) c"
    by (cases rule: cs) (simp_all add: card_ports_def)
qed

lemma send_ready:
  assumes d: "nic_ready d" and c: "card_ok c" and len: "0 < len" "len \<le> 1514"
  shows "\<exists>d' c'. rtl8139_send card_ports card_dma d c f (of_nat len) = (True, d', c') \<and> nic_ready d' \<and> same_ring d d' \<and> ring_same c c'
    \<and> c_sent c' = c_sent c @ [map (rd f) [0..<len]]"
proof -
  define t where "t = unat (tx_index d)"
  have t4: "t < 4" "tx_index d < of_nat TX_COUNT" using d by (auto simp: nic_ready_def t_def word_less_nat_alt)
  note R = tx_register [OF t4(2), folded t_def]
  have b: "tx_buffers d ! t = TXB + of_nat t * TX_BUF_SIZE" using d t4(1) by (simp add: nic_ready_def)
  let ?buf = "TXB + of_nat t * TX_BUF_SIZE"
  have ul: "unat (of_nat len :: u32) = len" by (rule of_nat_small) (use len in simp)
  have lw: "(of_nat len :: u32) \<noteq> 0" "\<not> (of_nat len :: u32) > 1514"
    using len ul by (auto simp: word_less_nat_alt word_le_nat_alt simp flip: unat_eq_0)
  define c1 where "c1 = c\<lparr>c_mem := (\<lambda>p. if unat (p - ?buf) < len then rd f (unat (p - ?buf)) else c_mem c p)\<rparr>"
  define c2 where "c2 = c1\<lparr>c_tsad := (c_tsad c1)(t := ?buf)\<rparr>"
  define c3 where "c3 = card_transmit t len c2"
  have ok1: "card_ok c1" unfolding c1_def by (rule ring_untouched [OF c]) (use tx_away [OF t4(1)] len(2) in simp)
  have ok: "card_ok c3" using ok1 by (simp add: c3_def c2_def card_transmit_def card_ok_def)
  have p1: "put_frame card_dma ?buf f len c = c1" unfolding c1_def by (rule put_frame_card) (use len(2) in simp)
  note st = tx_ports(1) [OF t4(1), of c]
  have p2: "io_outl card_ports c1 (0xC020 + 4 * of_nat t) ?buf = c2" unfolding tx_ports(2) [OF t4(1)] c2_def ..
  have lm: "unat ((0x80000 OR ((of_nat len :: u32) AND 0x1FFF)) AND 0x1FFF) = len"
  proof -
    have m: "(0x1FFF :: u32) = mask 13" by (simp add: mask_eq_exp_minus_1)
    have z: "(0x80000 :: u32) AND 0x1FFF = 0" by simp
    have "(0x80000 OR ((of_nat len :: u32) AND 0x1FFF)) AND 0x1FFF = of_nat len AND 0x1FFF"
      unfolding bit.conj_disj_distrib2 z by (simp add: and.assoc)
    then show ?thesis unfolding m using len(2) by (simp add: take_bit_eq_mask [symmetric] take_bit_eq_mod unat_mod ul)
  qed
  have p3: "io_outl card_ports c2 (0xC010 + 4 * of_nat t) (0x80000 OR ((of_nat len :: u32) AND 0x1FFF)) = c3"
    unfolding tx_ports(3) [OF t4(1)] lm c3_def ..
  have snd: "rtl8139_send card_ports card_dma d c f (of_nat len) = (True, d\<lparr>tx_index := (tx_index d + 1) mod of_nat TX_COUNT\<rparr>, c3)"
    using d lw b R(1,2) st p1 p2 p3 ul unfolding t_def
    by (simp add: rtl8139_send_def reg_inl_def reg_outl_def Let_def nic_ready_def del: of_nat_numeral)
  have "map (\<lambda>k. c_mem c2 (c_tsad c2 t + of_nat k)) [0..<len] = map (rd f) [0..<len]"
  proof (rule map_cong [OF refl])
    fix k assume k: "k \<in> set [0..<len]"
    then have "unat (of_nat k :: u32) = k" by (intro of_nat_small) (use len(2) in simp)
    then show "c_mem c2 (c_tsad c2 t + of_nat k) = rd f k" using k by (simp add: c2_def c1_def)
  qed
  then have "c_sent c3 = c_sent c @ [map (rd f) [0..<len]]" by (simp add: c3_def card_transmit_def) (simp add: c2_def c1_def)
  moreover have "ring_same c c3" using ok by (simp add: ring_same_def c3_def card_transmit_def c2_def c1_def)
  moreover have "(tx_index d + 1) mod of_nat TX_COUNT < of_nat TX_COUNT" by (simp add: word_mod_less_divisor)
  ultimately show ?thesis using snd d by (auto simp: nic_ready_def same_ring_def)
qed

end
