(* ===== verification/RTL8139_Props.thy ===== *)
theory RTL8139_Props
  imports RTL8139_Card
begin

unbundle bit_operations_syntax

text \<open>
  The driver on a card that follows the protocol: start, arrival, poll and send in any order.
\<close>

section \<open>A handler that answers\<close>

fun send_all :: "u8 list list \<Rightarrow> rtl8139 \<times> card \<Rightarrow> rtl8139 \<times> card" where
  "send_all [] dc = dc"
| "send_all (r # rs) (d, c) =
     (case rtl8139_send card_ports card_dma d c r (of_nat (length r)) of (sent, d', c') \<Rightarrow> send_all rs (d', c'))"

definition answering ::
  "(u8 list \<Rightarrow> u8 list list) \<Rightarrow> u8 list \<Rightarrow> nat \<Rightarrow> rtl8139 \<times> card \<times> u8 list list \<Rightarrow> rtl8139 \<times> card \<times> u8 list list" where
  "answering reply buf n s =
     (case s of (d, c, w) \<Rightarrow> case send_all (reply (take n buf)) (d, c) of (d', c') \<Rightarrow> (d', c', w @ [take n buf]))"

lemma ring_same_refl: "card_ok c \<Longrightarrow> ring_same c c"
  by (simp add: ring_same_def)

lemma send_any:
  assumes "nic_ready d" "card_ok c" "rtl8139_send card_ports card_dma d c f len = (b, d', c')"
  shows "nic_ready d' \<and> same_ring d d' \<and> ring_same c c'"
proof (cases "len = 0 \<or> len > 1514")
  case True
  then show ?thesis using assms ring_same_refl by (auto simp: rtl8139_send_def same_ring_def)
next
  case False
  then have "0 < unat len" "unat len \<le> 1514" by (auto simp: word_less_nat_alt word_le_nat_alt unat_gt_0)
  then obtain d1 c1 where "rtl8139_send card_ports card_dma d c f (of_nat (unat len)) = (True, d1, c1)" "nic_ready d1" "same_ring d d1" "ring_same c c1"
    using send_ready [OF assms(1,2)] by blast
  then show ?thesis using assms(3) by simp
qed

lemma send_all_ready:
  "nic_ready d \<Longrightarrow> card_ok c \<Longrightarrow> send_all rs (d, c) = (d', c') \<Longrightarrow> nic_ready d' \<and> same_ring d d' \<and> ring_same c c'"
proof (induction rs arbitrary: d c)
  case Nil
  then show ?case using ring_same_refl by (auto simp: same_ring_def)
next
  case (Cons r rs)
  obtain b d1 c1 where s: "rtl8139_send card_ports card_dma d c r (of_nat (length r)) = (b, d1, c1)" by (metis prod_cases3)
  note S = send_any [OF Cons.prems(1,2) s]
  have "send_all rs (d1, c1) = (d', c')" using Cons.prems(3) s by simp
  from Cons.IH [OF _ _ this] S show ?case by (auto simp: ring_same_def same_ring_def)
qed

interpretation nic: receive_ring card_ports card_dma CARD_BASE RING "\<lambda>c. card_ok c \<and> c_accepted c = acc" c_frames ring_pos nic_ready
    "\<lambda>w. w" "answering reply" for acc reply
proof
  fix m :: card assume m: "card_ok m \<and> c_accepted m = acc"
  show "ring_pos m < 8192 \<and> ring_pos m mod 4 = 0"
    using m by (simp add: ring_pos_def card_ok_def mod_mod_cancel)
  show "(card_ok m' \<and> c_accepted m' = acc) \<and> c_frames m' = c_frames m \<and> ring_pos m' = ring_pos m
      \<and> (v AND CR_RX_EMPTY \<noteq> 0 \<longleftrightarrow> c_frames m = [])"
    if "io_inb card_ports m (CARD_BASE + REG_CR) = (v, m')" for v m'
  proof -
    have v: "m' = m" "v = (if c_rd m = c_wr m then 1 else 0)" using that by (auto simp: card_ports_def)
    have ch: "chain (c_mem m) (c_rd m) (c_frames m) (c_wr m)" using m by (simp add: card_ok_def)
    have "c_rd m = c_wr m \<longleftrightarrow> c_frames m = []"
    proof (cases "c_frames m")
      case (Cons f fs)
      then show ?thesis using ch chain_le ring_span_props(4) [of "length f"] by fastforce
    qed (use ch in simp)
    then show ?thesis using m by (simp add: v)
  qed
  fix f fs assume q: "c_frames m = f # fs"
  have ok: "card_ok m" using m by simp
  show "length f \<le> 1596 \<and> read_u16 card_dma m (RING + of_nat (ring_pos m) + 2) = of_nat (length f + 4)"
    using header_bytes(2) [OF ok q] ok q by (simp add: card_ok_def in_ring_def)
  show "mem_get card_dma m (RING + of_nat ((ring_pos m + 4 + i) mod 8192)) = f ! i" if "i < length f" for i
    using header_bytes(1) [OF ok q, of "4 + i"] that by (simp add: card_dma_def nth_append add.assoc)
  show "(card_ok m' \<and> c_accepted m' = acc) \<and> c_frames m' = fs \<and> ring_pos m' = next_pos (ring_pos m) (length f)"
    if e: "m' = io_outw card_ports m (CARD_BASE + REG_CAPR) (of_nat ((next_pos (ring_pos m) (length f) + 8176) mod 8192))" for m'
  proof -
    have r: "c_rd m mod 4 = 0" using ok by (simp add: card_ok_def)
    have "m' = m\<lparr>c_rd := c_rd m + ring_span (length f), c_frames := fs\<rparr>"
      using read_pointer_step [OF ok q] unfolding e by (simp add: card_ports_def)
    then show ?thesis
      using m q r next_ring_pos [OF r, of "length f"] ring_span_props(1) [of "length f"]
      by (simp add: card_ok_def ring_pos_def mod_add_eq [of _ 4, symmetric])
  qed
next
  fix d off buf assume "nic_ready d"
  then show "nic_ready (d\<lparr>rx_offset := off\<rparr>) \<and> nic_ready (d\<lparr>rx_frame_tmp := buf\<rparr>)" by (simp add: nic_ready_def)
next
  fix m :: card and d buf n w d' m' w'
  assume a: "card_ok m \<and> c_accepted m = acc" "nic_ready d" "answering reply buf n (d, m, w) = (d', m', w')"
  then have "send_all (reply (take n buf)) (d, m) = (d', m')" "w' = w @ [take n buf]"
    by (auto simp: answering_def split: prod.splits)
  then show "(card_ok m' \<and> c_accepted m' = acc) \<and> c_frames m' = c_frames m \<and> ring_pos m' = ring_pos m \<and> nic_ready d' \<and> same_ring d d'
      \<and> w' = w @ [take n buf]"
    using send_all_ready [OF a(2)] a(1) by (auto simp: ring_same_def ring_pos_def)
qed

section \<open>The start\<close>

lemma reset_wait_card: "reset_wait card_ports d n c = c" if "nic_io_base d = CARD_BASE"
  using that by (induction n) (auto simp: reg_inb_def card_ports_def)

lemma read_mac_card:
  assumes "nic_io_base d = CARD_BASE"
  shows "n \<le> 6 \<Longrightarrow> read_mac card_ports d n c = (take n card_mac, c)"
proof (induction n)
  case (Suc n)
  have n: "unat (of_nat n :: u16) = n" using Suc.prems unfolding unat_of_nat by (intro mod_less) simp
  consider "n = 0" | "n = 1" | "n = 2" | "n = 3" | "n = 4" | "n = 5" using Suc.prems by linarith
  then have "reg_inb card_ports d c (REG_IDR0 + of_nat n) = (card_mac ! n, c)"
    by cases (simp_all add: reg_inb_def assms card_ports_def)
  moreover have "n < length card_mac" using Suc.prems by (simp add: card_mac_def)
  ultimately show ?case using Suc by (simp add: take_Suc_conv_app_nth)
qed simp

lemma find_card:
  "pci_find_device card_ports c 0x10EC 0x8139 = (Some (0, 0, 0), c\<lparr>c_cfg := pci_make_address 0 0 0 0\<rparr>)"
proof -
  have u: "[0..<256] = 0 # [1..<256]" "[0..<32] = 0 # [1..<32]" "[0..<8] = (0 :: nat) # [1..<8]"
    by (subst upt_conv_Cons; simp)+
  have f: "pci_scan_funcs card_ports 0x10EC 0x8139 0 0 (0 # fs) c = (Some 0, c\<lparr>c_cfg := pci_make_address 0 0 0 0\<rparr>)" for fs
    by (simp add: pci_config_read32_def card_ports_def card_config_def Let_def)
  have s: "pci_scan_slots card_ports 0x10EC 0x8139 0 (0 # ss) c = (Some (0, 0), c\<lparr>c_cfg := pci_make_address 0 0 0 0\<rparr>)" for ss
    by (subst pci_scan_slots.simps, subst u(3), simp only: semiring_1_class.of_nat_0 f) simp
  have b: "pci_scan_buses card_ports 0x10EC 0x8139 (0 # bs) c = (Some (0, 0, 0), c\<lparr>c_cfg := pci_make_address 0 0 0 0\<rparr>)" for bs
    by (subst pci_scan_buses.simps, subst u(2), simp only: semiring_1_class.of_nat_0 s) simp
  show ?thesis unfolding pci_find_device_def unfolding u(1) by (rule b)
qed

lemma configure_card: "nic_io_base d = CARD_BASE \<Longrightarrow> configure card_ports d c = c\<lparr>c_isr := 0\<rparr>"
proof -
  assume b: "nic_io_base d = CARD_BASE"
  have "(65536 :: u16) = 0" by simp
  then have z: "(- 65536 :: u16) = 0" by (simp only: neg_equal_0_iff_equal)
  show ?thesis by (simp add: configure_def Let_def reg_outb_def reg_outw_def reg_outl_def card_ports_def b z)
qed

lemma init_card:
  "\<exists>d c. rtl8139_init card_ports RING TXB True d0 c0 = (True, d, c) \<and> nic_ready d \<and> nic.listening [] d c
     \<and> c_frames c = [] \<and> c_sent c = [] \<and> nic_mac d = card_mac"
proof -
  have adr: "pci_make_address 0 0 0 0 = 0x80000000" "pci_make_address 0 0 0 4 = 0x80000004" "pci_make_address 0 0 0 0x10 = 0x80000010"
    by (simp_all add: pci_make_address_def)
  have bm: "rtl8139_enable_pci_busmaster card_ports c (0, 0, 0) = c\<lparr>c_cfg := 0x80000004\<rparr>" for c
    by (simp add: rtl8139_enable_pci_busmaster_def pci_config_read32_def pci_config_write32_def card_ports_def adr)
  have bar: "pci_config_read32 card_ports c 0 0 0 0x10 = (0xC001, c\<lparr>c_cfg := 0x80000010\<rparr>)" for c
    by (simp add: pci_config_read32_def card_ports_def card_config_def adr)
  have cr: "io_outb card_ports c (CARD_BASE + REG_CONFIG1) v = c" "io_outb card_ports c (CARD_BASE + REG_CR) CR_RESET = card_reset c"
    "io_inb card_ports c (CARD_BASE + REG_CR) = (if c_rd c = c_wr c then 1 else 0, c)" for c v
    by (simp_all add: card_ports_def)
  define d1 where "d1 = rtl8139_setup_buffers RING TXB (d0\<lparr>rx_callback := True, nic_up := False, nic_io_base := CARD_BASE\<rparr>)"
  have b: "nic_io_base d1 = CARD_BASE" "rx_buffer d1 = RING" "rx_callback d1" by (simp_all add: d1_def rtl8139_setup_buffers_def)
  define c1 where "c1 = card_reset (c0\<lparr>c_cfg := 0x80000010\<rparr>)"
  define d where "d = d1\<lparr>nic_mac := card_mac, rx_offset := 0, tx_index := 0, nic_up := True\<rparr>"
  have e: "c_rd c1 = c_wr c1" by (simp add: c1_def card_reset_def)
  have "rtl8139_init card_ports RING TXB True d0 c0 = (True, d, c1\<lparr>c_isr := 0\<rparr>)"
    using b reset_wait_card [of d1] read_mac_card [OF b(1), of 6] configure_card [OF b(1)] cr e
    by (simp add: rtl8139_init_def find_card bm bar Let_def d1_def [symmetric] reg_outb_def reg_inb_def c1_def [symmetric] d_def card_mac_def)
  moreover have "nic_ready d" by (simp add: nic_ready_def d_def d1_def rtl8139_setup_buffers_def)
  moreover have "card_ok (c1\<lparr>c_isr := 0\<rparr>)" "c_accepted c1 = []" "c_frames c1 = []" "c_sent c1 = []" "ring_pos (c1\<lparr>c_isr := 0\<rparr>) = 0"
    by (simp_all add: c1_def card_reset_def card_ok_def ring_pos_def)
  ultimately show ?thesis using b by (auto simp: nic.listening_def d_def)
qed


section \<open>Runs\<close>

datatype nic_event = Arrive "u8 list" | Poll | Send "u8 list"

fun nic_step ::
  "(u8 list \<Rightarrow> u8 list list) \<Rightarrow> nic_event \<Rightarrow> rtl8139 \<times> card \<times> u8 list list \<Rightarrow> (rtl8139 \<times> card \<times> u8 list list) option" where
  "nic_step reply (Arrive f) (d, c, w) = Some (d, card_receive f c, w)"
| "nic_step reply Poll (d, c, w) = rtl8139_poll card_ports card_dma (answering reply) d c w"
| "nic_step reply (Send f) (d, c, w) = (case send_all [f] (d, c) of (d', c') \<Rightarrow> Some (d', c', w))"

fun nic_run ::
  "(u8 list \<Rightarrow> u8 list list) \<Rightarrow> nic_event list \<Rightarrow> rtl8139 \<times> card \<times> u8 list list \<Rightarrow> (rtl8139 \<times> card \<times> u8 list list) option" where
  "nic_run reply [] s = Some s"
| "nic_run reply (e # es) s = Option.bind (nic_step reply e s) (nic_run reply es)"

text \<open>What was accepted has been delivered or lies in the ring, and a waiting frame is announced.\<close>

definition nic_inv :: "rtl8139 \<times> card \<times> u8 list list \<Rightarrow> bool" where
  "nic_inv s \<longleftrightarrow> (case s of (d, c, w) \<Rightarrow>
     nic.listening (w @ c_frames c) d c \<and> (c_frames c \<noteq> [] \<longrightarrow> c_isr c \<noteq> 0))"

lemma listening_iff:
  "nic.listening acc d c \<longleftrightarrow> card_ok c \<and> c_accepted c = acc \<and> nic_ready d \<and> rx_buffer d = RING \<and> rx_callback d \<and> rx_offset d = of_nat (ring_pos c)"
  by (auto simp: nic.listening_def nic_ready_def)

lemma or_1_nonzero: "(w OR 1 :: u16) \<noteq> 0"
proof
  assume "w OR 1 = 0"
  then have "bit (w OR 1 :: u16) 0 = bit (0 :: u16) 0" by (rule arg_cong)
  then show False by (simp add: bit_or_iff)
qed

lemma poll_drains:
  assumes l: "nic.listening acc d c" and i: "c_frames c \<noteq> [] \<Longrightarrow> c_isr c \<noteq> 0"
  shows "\<exists>d' c'. rtl8139_poll card_ports card_dma (answering reply) d c w = Some (d', c', w @ c_frames c)
    \<and> nic.listening acc d' c' \<and> c_frames c' = []"
proof -
  have u: "nic_up d" "nic_io_base d = CARD_BASE" using l by (simp_all add: listening_iff nic_ready_def)
  have isr: "io_inw card_ports c (CARD_BASE + REG_ISR) = (c_isr c, c)"
    "io_outw card_ports c (CARD_BASE + REG_ISR) v = c\<lparr>c_isr := c_isr c AND NOT v\<rparr>" for v by (simp_all add: card_ports_def)
  show ?thesis
  proof (cases "c_isr c = 0")
    case True
    then have "c_frames c = []" using i by blast
    then show ?thesis using True u isr(1) l by (simp add: rtl8139_poll_def)
  next
    case False
    let ?c = "c\<lparr>c_isr := c_isr c AND NOT (c_isr c)\<rparr>"
    have "card_ok c" using l by (simp add: listening_iff)
    then have "card_ok ?c" by (simp add: card_ok_def)
    then have "nic.listening acc d ?c" using l by (simp add: listening_iff ring_pos_def)
    from nic.loop_drains [OF this, of reply w] show ?thesis
      using False u isr by (auto simp: rtl8139_poll_def reg_outw_def)
  qed
qed

lemma poll_delivers:
  assumes "nic_inv (d, c, w)"
  shows "\<exists>d' c'. rtl8139_poll card_ports card_dma (answering reply) d c w = Some (d', c', w @ c_frames c)
    \<and> nic_inv (d', c', w @ c_frames c) \<and> c_frames c' = [] \<and> c_accepted c' = c_accepted c"
proof -
  have l: "nic.listening (w @ c_frames c) d c" and i: "c_frames c \<noteq> [] \<Longrightarrow> c_isr c \<noteq> 0" using assms by (auto simp: nic_inv_def)
  from poll_drains [OF l i] show ?thesis using l by (fastforce simp: nic_inv_def listening_iff)
qed

lemma step_inv: "nic_inv s \<Longrightarrow> \<exists>s'. nic_step reply e s = Some s' \<and> nic_inv s'"
proof (cases s)
  case (fields d c w)
  assume inv: "nic_inv s"
  have L: "card_ok c" "c_accepted c = w @ c_frames c" "nic_ready d" "rx_buffer d = RING" "rx_callback d" "rx_offset d = of_nat (ring_pos c)"
    and i: "c_frames c \<noteq> [] \<Longrightarrow> c_isr c \<noteq> 0"
    using inv by (auto simp: nic_inv_def listening_iff fields)
  show ?thesis
  proof (cases e)
    case (Arrive f)
    have "nic_inv (d, card_receive f c, w)"
      using L i receive_ok [OF L(1), of f]
      by (auto simp: nic_inv_def listening_iff card_receive_def ring_pos_def or_1_nonzero)
    then show ?thesis by (simp add: Arrive fields)
  next
    case Poll
    obtain d' c' where "rtl8139_poll card_ports card_dma (answering reply) d c w = Some (d', c', w @ c_frames c)"
        "nic_inv (d', c', w @ c_frames c)" using poll_delivers inv unfolding fields by blast
    then show ?thesis by (simp add: Poll fields)
  next
    case (Send f)
    obtain d' c' where s: "send_all [f] (d, c) = (d', c')" by fastforce
    have "nic_inv (d', c', w)"
      using send_all_ready [OF L(3,1) s] L i by (auto simp: nic_inv_def listening_iff ring_same_def same_ring_def ring_pos_def)
    then show ?thesis unfolding Send fields nic_step.simps s by simp
  qed
qed

lemma run_inv: "nic_inv s \<Longrightarrow> \<exists>s'. nic_run reply es s = Some s' \<and> nic_inv s'"
proof (induction es arbitrary: s)
  case (Cons e es)
  obtain s1 where s1: "nic_step reply e s = Some s1" "nic_inv s1" using step_inv [OF Cons.prems] by blast
  from Cons.IH [OF s1(2)] show ?case by (simp add: s1(1))
qed simp

lemma run_append: "nic_run reply (es @ fs) s = Option.bind (nic_run reply es s) (nic_run reply fs)"
  by (induction es arbitrary: s) (auto split: Option.bind_split)

lemma init_inv: "\<exists>d c. rtl8139_init card_ports RING TXB True d0 c0 = (True, d, c) \<and> nic_inv (d, c, []) \<and> c_frames c = [] \<and> c_sent c = []"
  using init_card [of d0 c0] by (auto simp: nic_inv_def)

section \<open>Properties\<close>


text \<open>
  A handler that polls again while a frame is being handled, once, after another frame has arrived: this is what the
  network stack does when it answers a frame from an address it has to resolve first.
\<close>

definition polling_again ::
  "u8 list \<Rightarrow> u8 list \<Rightarrow> nat \<Rightarrow> rtl8139 \<times> card \<times> u8 list list \<Rightarrow> rtl8139 \<times> card \<times> u8 list list" where
  "polling_again g buf n s =
     (case s of (d, c, w) \<Rightarrow>
        if w = [] then the (rtl8139_poll card_ports card_dma (answering (\<lambda>f. [])) d (card_receive g c) [take n buf])
        else (d, c, w @ [take n buf]))"

text \<open>
  C37: When the receive handler polls again while it handles a frame, the driver reads the same frame once
  more, and afterwards looks for the next frame at a wrong offset of the ring: the read offset moves only
  after the handler has returned, and is advanced from the value the nested poll left.
\<close>

theorem nested_poll_desynchronises:
  assumes "length f \<le> 1514" "length g \<le> 1514"
  shows "\<exists>d c d' c'. rtl8139_init card_ports RING TXB True d0 c0 = (True, d, c)
    \<and> rtl8139_poll card_ports card_dma (polling_again g) d (card_receive f c) []
        = rx_loop card_ports card_dma (polling_again g) d' c' [f, f, g]
    \<and> c_accepted c' = [f, g] \<and> unat (rx_offset d') = (c_wr c' + ring_span (length f)) mod 8192
    \<and> unat (rx_offset d') \<noteq> c_wr c' mod 8192"
proof -
  obtain d c where i: "rtl8139_init card_ports RING TXB True d0 c0 = (True, d, c)" "nic_inv (d, c, [])" "c_frames c = []"
    using init_inv by blast
  have c: "card_ok c" "c_accepted c = []" "nic_ready d" "rx_buffer d = RING" "rx_callback d" "rx_offset d = of_nat (ring_pos c)"
    using i(2,3) by (auto simp: nic_inv_def listening_iff)
  have u: "nic_up d" "nic_io_base d = CARD_BASE" using c(3) by (simp_all add: nic_ready_def)
  have eq: "c_rd c = c_wr c" using c(1) i(3) by (simp add: card_ok_def)
  have sp: "ring_span (length f) \<le> 1525" "ring_span (length g) \<le> 1525" using ring_span_props(3) [of "length f"] ring_span_props(3) [of "length g"] assms by linarith+
  define c1 where "c1 = (card_receive f c)\<lparr>c_isr := 0\<rparr>"
  have cf: "card_receive f c = c\<lparr>c_mem := ring_write (c_mem c) (c_wr c) (rx_header f @ f), c_wr := c_wr c + ring_span (length f),
      c_isr := c_isr c OR 1, c_frames := [f], c_accepted := [f]\<rparr>"
    using assms(1) sp eq c(2) i(3) by (simp add: card_receive_def)
  have ok1: "card_ok c1" "c_frames c1 = [f]" "c_accepted c1 = [f]" "ring_pos c1 = ring_pos c" "c_rd c1 = c_rd c"
      "c_wr c1 = c_wr c + ring_span (length f)"
    using receive_ok [OF c(1), of f] by (auto simp: c1_def card_ok_def ring_pos_def cf)
  have isr: "io_inw card_ports x (CARD_BASE + REG_ISR) = (c_isr x, x)"
    "io_outw card_ports x (CARD_BASE + REG_ISR) v = x\<lparr>c_isr := c_isr x AND NOT v\<rparr>" for x v by (simp_all add: card_ports_def)
  have poll: "rtl8139_poll card_ports card_dma (polling_again g) d (card_receive f c) [] = rx_loop card_ports card_dma (polling_again g) d c1 []"
  proof -
    have "c_isr (card_receive f c) \<noteq> 0" by (simp add: cf or_1_nonzero)
    then show ?thesis using u isr by (simp add: rtl8139_poll_def reg_outw_def c1_def bit.conj_cancel_right)
  qed
  have l1: "nic.listening [f] d c1" using c ok1 by (simp add: listening_iff)
  define d1 where "d1 = d\<lparr>rx_frame_tmp := f @ drop (length f) (rx_frame_tmp d)\<rparr>"
  define c2 where "c2 = card_receive g c1"
  have room: "length g \<le> 1514 \<and> c_wr c1 + ring_span (length g) < c_rd c1 + 8192"
    using assms(2) sp eq ok1(5,6) by simp
  have c2: "card_ok c2" "c_frames c2 = [f, g]" "c_accepted c2 = [f, g]" "ring_pos c2 = ring_pos c" "c_isr c2 \<noteq> 0"
    using receive_ok [OF ok1(1), of g] room ok1(2-4) by (simp_all add: c2_def card_receive_def ring_pos_def or_1_nonzero)
  have "nic.listening [f, g] d1 c2" using c c2 by (simp add: listening_iff d1_def nic_ready_def)
  then obtain d2 c3 where p: "rtl8139_poll card_ports card_dma (answering (\<lambda>f. [])) d1 c2 [f] = Some (d2, c3, [f, f, g])"
      "nic.listening [f, g] d2 c3" "c_frames c3 = []" using poll_drains [of "[f, g]" d1 c2 "\<lambda>f. []" "[f]"] c2(2,5) by auto
  have L: "card_ok c3" "c_accepted c3 = [f, g]" "nic_ready d2" "rx_offset d2 = of_nat (ring_pos c3)" using p(2) by (auto simp: listening_iff)
  have e3: "c_rd c3 = c_wr c3" "c_rd c3 mod 4 = 0" using L(1) p(3) by (auto simp: card_ok_def)
  have h: "polling_again g (f @ drop (length f) (rx_frame_tmp d)) (length f) (d1, c1, []) = (d2, c3, [f, f, g])"
    using p(1) by (simp add: polling_again_def c2_def [symmetric])
  have inb: "io_inb card_ports c1 (CARD_BASE + REG_CR) = (if c_rd c1 = c_wr c1 then 1 else 0, c1)" by (simp add: card_ports_def)
  have b2: "nic_io_base d2 = CARD_BASE" using L(3) by (simp add: nic_ready_def)
  define off where "off = next_pos (ring_pos c3) (length f)"
  define d3 where "d3 = d2\<lparr>rx_offset := of_nat off\<rparr>"
  have nx: "((rx_offset d2 + ucast (of_nat (length f + 4) :: u16) + 4 + 3) AND NOT 3) mod RX_BUF_SIZE = of_nat off"
    unfolding L(4) off_def by (rule next_offset) (use assms(1) in \<open>simp_all add: ring_pos_def\<close>)
  define c4 where "c4 = io_outw card_ports c3 (CARD_BASE + REG_CAPR) (ucast ((rx_offset d3 - 16) AND 0x1FFF))"
  have "rx_loop card_ports card_dma (polling_again g) d c1 [] = rx_loop card_ports card_dma (polling_again g) d3 c4 [f, f, g]"
    unfolding c4_def by (rule nic.round_step [where h = "polling_again g", OF l1 ok1(2) inb h [unfolded d1_def] b2]) (unfold nx d3_def, rule refl)
  moreover have c4: "c_accepted c4 = [f, g]" "c_wr c4 = c_wr c3"
    using L(2) by (simp_all add: c4_def card_ports_def card_read_pointer_def Let_def)
  moreover have off: "off = (c_wr c4 + ring_span (length f)) mod 8192"
    using next_ring_pos [OF e3(2), of "length f"] by (simp add: off_def ring_pos_def c4(2) e3(1))
  moreover have "unat (rx_offset d3) = off"
    unfolding d3_def rtl8139.select_convs rtl8139.update_convs by (simp add: off of_nat_small)
  moreover have "off \<noteq> c_wr c4 mod 8192"
    unfolding off using ring_span_props(4) [of "length f"] sp(1) mod_eq_dvd_iff_nat [of "c_wr c4" "c_wr c4 + ring_span (length f)" 8192]
    by (auto dest: nat_dvd_not_less)
  ultimately show ?thesis using i(1) poll by (intro exI [of _ d] exI [of _ c] exI [of _ d3] exI [of _ c4]) simp
qed

theorem nested_poll_desynchronises_witness:
  "\<exists>d c d' c'. rtl8139_poll card_ports card_dma (polling_again [2]) d (card_receive [1] c) []
      = rx_loop card_ports card_dma (polling_again [2]) d' c' [[1], [1], [2]] \<and> unat (rx_offset d') \<noteq> c_wr c' mod 8192"
  using nested_poll_desynchronises [of "[1]" "[2]"] by (simp, blast)

end
