(* ===== verification/Interrupts.thy ===== *)
theory Interrupts
  imports Mouse_Packets Keyboard
begin

unbundle bit_operations_syntax

text \<open>
  The interrupt table and the interrupt handlers, \<^verbatim>\<open>src/drivers/interrupts.c\<close>.

  The addresses of the four entry stubs of \<^verbatim>\<open>boot/interrupts.asm\<close> and of the table are fixed by the
  linker and are parameters.  A handler is the step of the driver it calls followed by the end-of-interrupt
  command; its state is the state of that driver with the machine.
\<close>

section \<open>The table\<close>

record idt_entry =
  gate_base_lo :: u16
  gate_selector :: u16
  gate_zero :: u8
  gate_flags :: u8
  gate_base_hi :: u16

record irq_stubs =
  irq0_stub :: u32
  irq1_stub :: u32
  irq12_stub :: u32
  isr128_stub :: u32

record interrupts =
  idt :: "idt_entry list"
  idt_loaded :: "(u16 \<times> u32) option"
  irq_flag :: bool

abbreviation IDT_ENTRIES :: nat where "IDT_ENTRIES \<equiv> 256"
abbreviation KERNEL_CS :: u16 where "KERNEL_CS \<equiv> 0x08"
abbreviation IDT_FLAG_INT_GATE :: u8 where "IDT_FLAG_INT_GATE \<equiv> 0x8E"
abbreviation IDT_FLAG_USER_INT_GATE :: u8 where "IDT_FLAG_USER_INT_GATE \<equiv> 0xEE"

definition idt_gate :: "u32 \<Rightarrow> u16 \<Rightarrow> u8 \<Rightarrow> idt_entry" where
  "idt_gate handler selector flags =
     \<lparr>gate_base_lo = ucast (handler AND 0xFFFF), gate_selector = selector, gate_zero = 0, gate_flags = flags,
      gate_base_hi = ucast (drop_bit 16 handler AND 0xFFFF)\<rparr>"

definition idt_set_gate :: "nat \<Rightarrow> u32 \<Rightarrow> u16 \<Rightarrow> u8 \<Rightarrow> interrupts \<Rightarrow> interrupts" where
  "idt_set_gate index handler selector flags it = it\<lparr>idt := (idt it)[index := idt_gate handler selector flags]\<rparr>"

definition interrupts_enable :: "interrupts \<Rightarrow> interrupts" where
  "interrupts_enable it = it\<lparr>irq_flag := True\<rparr>"

definition interrupts_disable :: "interrupts \<Rightarrow> interrupts" where
  "interrupts_disable it = it\<lparr>irq_flag := False\<rparr>"

definition idt_gates :: "irq_stubs \<Rightarrow> interrupts \<Rightarrow> interrupts" where
  "idt_gates s it =
     (let it1 = foldl (\<lambda>it i. idt_set_gate i 0 0 0 it) it [0..<IDT_ENTRIES]
      in idt_set_gate 0x80 (isr128_stub s) KERNEL_CS IDT_FLAG_USER_INT_GATE
         (idt_set_gate 44 (irq12_stub s) KERNEL_CS IDT_FLAG_INT_GATE
         (idt_set_gate 33 (irq1_stub s) KERNEL_CS IDT_FLAG_INT_GATE
         (idt_set_gate 32 (irq0_stub s) KERNEL_CS IDT_FLAG_INT_GATE it1))))"

text \<open>The failing assertion at the end is a panic, \<open>None\<close>.\<close>

definition interrupts_init ::
  "'m ports \<Rightarrow> irq_stubs \<Rightarrow> u32 \<Rightarrow> interrupts \<times> pit_state \<times> 'm \<Rightarrow> (interrupts \<times> pit_state \<times> 'm) option" where
  "interrupts_init pio s idt_addr st =
     (case st of (it, p, m) \<Rightarrow>
        let it1 = (idt_gates s it)\<lparr>idt_loaded := Some (of_nat (8 * IDT_ENTRIES - 1), idt_addr)\<rparr>
        in case pit_init pio 100 (p, interrupts_masks pio m) of (p1, m1) \<Rightarrow>
             if pit_frequency p1 \<noteq> 0 then Some (interrupts_enable it1, p1, m1) else None)"

section \<open>The handlers\<close>

definition irq_timer_handler :: "'m ports \<Rightarrow> pit_state \<times> sched \<times> 'm \<Rightarrow> pit_state \<times> sched \<times> 'm" where
  "irq_timer_handler pio st =
     (case st of (p, sc, m) \<Rightarrow> (pit_irq_handler p, scheduler_on_tick sc, pic_send_eoi pio m 0))"

definition irq_keyboard_handler :: "'m ports \<Rightarrow> int \<Rightarrow> kb_state \<times> 'm \<Rightarrow> kb_state \<times> 'm" where
  "irq_keyboard_handler pio focused st =
     (case st of (kb, m) \<Rightarrow> case io_inb pio m 0x60 of (scancode, m1) \<Rightarrow>
        (keyboard_irq_handler focused kb scancode, pic_send_eoi pio m1 1))"

definition irq_mouse_handler :: "'m ports \<Rightarrow> u32 \<times> u32 \<Rightarrow> desktop \<times> 'm \<Rightarrow> (desktop \<times> 'm) option" where
  "irq_mouse_handler pio entries dm =
     map_option (\<lambda>(dk, m). (dk, pic_send_eoi pio m 12)) (mouse_irq_handler pio entries dm)"

section \<open>Two interrupt controllers\<close>

text \<open>
  The 8259 controllers as their documentation describes them, as far as the kernel uses them: the command that starts
  the initialisation, the three words that follow on the data port, and then the mask register.
\<close>

record pic_chip =
  pc_step :: nat
  pc_offset :: u8
  pc_mask :: u8

definition pic_command :: "u8 \<Rightarrow> pic_chip \<Rightarrow> pic_chip" where
  "pic_command v c = (if v = 0x11 then c\<lparr>pc_step := 1, pc_mask := 0\<rparr> else c)"

definition pic_data :: "u8 \<Rightarrow> pic_chip \<Rightarrow> pic_chip" where
  "pic_data v c =
     (if pc_step c = 0 then c\<lparr>pc_mask := v\<rparr>
      else if pc_step c = 1 then c\<lparr>pc_step := 2, pc_offset := v\<rparr>
      else if pc_step c = 2 then c\<lparr>pc_step := 3\<rparr> else c\<lparr>pc_step := 0\<rparr>)"

definition pic_pair :: "(pic_chip \<times> pic_chip) ports" where
  "pic_pair =
     \<lparr>io_inb = \<lambda>m p. (if p = PIC1_DATA then pc_mask (fst m) else if p = PIC2_DATA then pc_mask (snd m) else 0, m),
      io_inw = \<lambda>m p. (0, m), io_inl = \<lambda>m p. (0, m),
      io_outb = \<lambda>m p v. if p = PIC1_CMD then apfst (pic_command v) m else if p = PIC2_CMD then apsnd (pic_command v) m
                  else if p = PIC1_DATA then apfst (pic_data v) m else if p = PIC2_DATA then apsnd (pic_data v) m else m,
      io_outw = \<lambda>m p v. m, io_outl = \<lambda>m p v. m\<rparr>"

definition idle_chip :: "pic_chip \<Rightarrow> bool" where
  "idle_chip c \<longleftrightarrow> pc_step c = 0"

text \<open>The lines that a controller pair lets through, and the vector it raises for a line.\<close>

definition open_lines :: "pic_chip \<times> pic_chip \<Rightarrow> nat set" where
  "open_lines m = {l. l < 8 \<and> \<not> bit (pc_mask (fst m)) l} \<union> {l. 8 \<le> l \<and> l < 16 \<and> \<not> bit (pc_mask (snd m)) (l - 8)}"

definition line_vector :: "pic_chip \<times> pic_chip \<Rightarrow> nat \<Rightarrow> nat" where
  "line_vector m l = (if l < 8 then unat (pc_offset (fst m)) + l else unat (pc_offset (snd m)) + (l - 8))"

definition gate_handler :: "idt_entry \<Rightarrow> u32" where
  "gate_handler g = ucast (gate_base_lo g) OR push_bit 16 (ucast (gate_base_hi g))"

lemma gate_handler_gate [simp]: "gate_handler (idt_gate h s f) = h"
proof -
  have m: "(0xFFFF :: u32) = mask 16" by (simp add: mask_eq_exp_minus_1)
  show ?thesis
    unfolding gate_handler_def idt_gate_def m by (rule bit_word_eqI) (auto simp: bit_simps)
qed

lemma idt_gate_flags [simp]: "gate_flags (idt_gate h s f) = f" "gate_selector (idt_gate h s f) = s"
  by (simp_all add: idt_gate_def)

lemma gates_cleared:
  "n \<le> length (idt it) \<Longrightarrow>
     idt (foldl (\<lambda>it i. idt_set_gate i 0 0 0 it) it [0..<n]) = replicate n (idt_gate 0 0 0) @ drop n (idt it)"
proof (induction n)
  case (Suc n)
  have "drop n (idt it) = idt it ! n # drop (Suc n) (idt it)" using Suc.prems by (simp add: Cons_nth_drop_Suc)
  then show ?case
    using Suc by (simp add: idt_set_gate_def list_update_append replicate_append_same [symmetric] del: replicate_Suc)
      (simp add: replicate_append_same)
qed simp

lemma gates_set:
  assumes "length (idt it) = IDT_ENTRIES"
  shows "idt (idt_gates s it) = ((((replicate IDT_ENTRIES (idt_gate 0 0 0))[32 := idt_gate (irq0_stub s) KERNEL_CS IDT_FLAG_INT_GATE])
      [33 := idt_gate (irq1_stub s) KERNEL_CS IDT_FLAG_INT_GATE])[44 := idt_gate (irq12_stub s) KERNEL_CS IDT_FLAG_INT_GATE])
      [0x80 := idt_gate (isr128_stub s) KERNEL_CS IDT_FLAG_USER_INT_GATE]"
proof -
  have c: "idt (foldl (\<lambda>it i. idt_set_gate i 0 0 0 it) it [0..<IDT_ENTRIES]) = replicate IDT_ENTRIES (idt_gate 0 0 0)"
    using gates_cleared [of IDT_ENTRIES it] assms by (metis append_Nil2 drop_all order_refl)
  have i: "idt (idt_set_gate n h x f t) = (idt t)[n := idt_gate h x f]" for n h x f t by (simp add: idt_set_gate_def)
  show ?thesis unfolding idt_gates_def Let_def i c ..
qed

lemma remap_pair:
  assumes "idle_chip a" "idle_chip b"
  shows "pic_remap pic_pair (a, b) o1 o2 = (a\<lparr>pc_offset := o1\<rparr>, b\<lparr>pc_offset := o2\<rparr>)"
  using assms by (simp add: pic_remap_def pic_pair_def pic_write_wait_def pic_command_def pic_data_def idle_chip_def)

lemma mask_pair:
  assumes "idle_chip a" "idle_chip b"
  shows "l < 8 \<Longrightarrow> pic_set_mask pic_pair (a, b) (of_nat l) = (a\<lparr>pc_mask := pc_mask a OR push_bit l 1\<rparr>, b)"
    "l < 8 \<Longrightarrow> pic_set_mask pic_pair (a, b) (of_nat (8 + l)) = (a, b\<lparr>pc_mask := pc_mask b OR push_bit l 1\<rparr>)"
    "l < 8 \<Longrightarrow> pic_clear_mask pic_pair (a, b) (of_nat l) = (a\<lparr>pc_mask := pc_mask a AND NOT (push_bit l 1)\<rparr>, b)"
    "l < 8 \<Longrightarrow> pic_clear_mask pic_pair (a, b) (of_nat (8 + l)) = (a, b\<lparr>pc_mask := pc_mask b AND NOT (push_bit l 1)\<rparr>)"
proof -
  have u: "l < 16 \<Longrightarrow> unat (of_nat l :: u8) = l" for l unfolding unat_of_nat by (intro mod_less) simp
  have p: "l < 8 \<Longrightarrow> pic_port (of_nat l) = (PIC1_DATA, of_nat l)" "l < 8 \<Longrightarrow> pic_port (of_nat (8 + l)) = (PIC2_DATA, of_nat l)" for l
    using u [of l] u [of "8 + l"] by (simp_all add: pic_port_def word_less_nat_alt)
  show "l < 8 \<Longrightarrow> pic_set_mask pic_pair (a, b) (of_nat l) = (a\<lparr>pc_mask := pc_mask a OR push_bit l 1\<rparr>, b)"
    "l < 8 \<Longrightarrow> pic_set_mask pic_pair (a, b) (of_nat (8 + l)) = (a, b\<lparr>pc_mask := pc_mask b OR push_bit l 1\<rparr>)"
    "l < 8 \<Longrightarrow> pic_clear_mask pic_pair (a, b) (of_nat l) = (a\<lparr>pc_mask := pc_mask a AND NOT (push_bit l 1)\<rparr>, b)"
    "l < 8 \<Longrightarrow> pic_clear_mask pic_pair (a, b) (of_nat (8 + l)) = (a, b\<lparr>pc_mask := pc_mask b AND NOT (push_bit l 1)\<rparr>)"
    using assms u [of l] unfolding pic_set_mask_def pic_clear_mask_def
    by (simp_all only: p) (simp_all add: pic_pair_def pic_data_def idle_chip_def)
qed


lemma mask_Suc: "(w OR mask n) OR 2 ^ n = w OR (mask (Suc n) :: u8)"
  unfolding push_bit_of_1 [symmetric] by (rule bit_word_eqI) (auto simp: bit_simps less_Suc_eq)

lemma masks_set:
  assumes "idle_chip a" "idle_chip b"
  shows "n \<le> 8 \<Longrightarrow> foldl (\<lambda>m i. pic_set_mask pic_pair m (of_nat i)) (a, b) [0..<n] = (a\<lparr>pc_mask := pc_mask a OR mask n\<rparr>, b)"
    "n \<le> 8 \<Longrightarrow> foldl (\<lambda>m i. pic_set_mask pic_pair m (of_nat i)) (a, b) [8..<8 + n] = (a, b\<lparr>pc_mask := pc_mask b OR mask n\<rparr>)"
proof -
  have i: "idle_chip (a\<lparr>pc_mask := x\<rparr>)" "idle_chip (b\<lparr>pc_mask := x\<rparr>)" for x using assms by (simp_all add: idle_chip_def)
  show "n \<le> 8 \<Longrightarrow> foldl (\<lambda>m i. pic_set_mask pic_pair m (of_nat i)) (a, b) [0..<n] = (a\<lparr>pc_mask := pc_mask a OR mask n\<rparr>, b)"
  proof (induction n)
    case (Suc n)
    have e: "[0..<Suc n] = [0..<n] @ [n]" by simp
    show ?case
      unfolding e foldl_append using Suc mask_pair(1) [OF i(1) assms(2), of n] by (simp add: mask_Suc)
  qed simp
  show "n \<le> 8 \<Longrightarrow> foldl (\<lambda>m i. pic_set_mask pic_pair m (of_nat i)) (a, b) [8..<8 + n] = (a, b\<lparr>pc_mask := pc_mask b OR mask n\<rparr>)"
  proof (induction n)
    case (Suc n)
    have e: "[8..<8 + Suc n] = [8..<8 + n] @ [8 + n]" by (simp only: add_Suc_right upt_Suc) simp
    show ?case
      unfolding e foldl_append using Suc mask_pair(2) [OF assms(1) i(2), of n] by (simp add: mask_Suc)
  qed simp
qed

lemma masks_left:
  assumes "idle_chip a" "idle_chip b"
  shows "interrupts_masks pic_pair (a, b) = (a\<lparr>pc_offset := 0x20, pc_mask := 0xF8\<rparr>, b\<lparr>pc_offset := 0x28, pc_mask := 0xEF\<rparr>)"
proof -
  define a1 where "a1 = a\<lparr>pc_offset := 0x20\<rparr>"
  define b1 where "b1 = b\<lparr>pc_offset := 0x28\<rparr>"
  have i: "idle_chip (a1\<lparr>pc_mask := x\<rparr>)" "idle_chip (b1\<lparr>pc_mask := x\<rparr>)" "idle_chip a1" "idle_chip b1" for x
    using assms by (simp_all add: idle_chip_def a1_def b1_def)
  have full: "w OR mask 8 = (0xFF :: u8)" for w
  proof -
    have m: "(0xFF :: u8) = mask 8" by (simp add: mask_eq_exp_minus_1)
    show ?thesis unfolding m by (rule bit_word_eqI) (auto simp: bit_simps)
  qed
  have sp: "[0..<16] = [0..<8] @ [8..<8 + 8]" by (simp add: upt_conv_Cons)
  have s: "foldl (\<lambda>m i. pic_set_mask pic_pair m (of_nat i)) (a1, b1) [0..<16] = (a1\<lparr>pc_mask := 0xFF\<rparr>, b1\<lparr>pc_mask := 0xFF\<rparr>)"
    unfolding sp foldl_append masks_set(1) [OF i(3,4) order_refl] masks_set(2) [OF i(1,4) order_refl] full ..
  have c: "pic_clear_mask pic_pair (a1\<lparr>pc_mask := x\<rparr>, b1\<lparr>pc_mask := y\<rparr>) 0 = (a1\<lparr>pc_mask := x AND NOT 1\<rparr>, b1\<lparr>pc_mask := y\<rparr>)"
    "pic_clear_mask pic_pair (a1\<lparr>pc_mask := x\<rparr>, b1\<lparr>pc_mask := y\<rparr>) 1 = (a1\<lparr>pc_mask := x AND NOT 2\<rparr>, b1\<lparr>pc_mask := y\<rparr>)"
    "pic_clear_mask pic_pair (a1\<lparr>pc_mask := x\<rparr>, b1\<lparr>pc_mask := y\<rparr>) 2 = (a1\<lparr>pc_mask := x AND NOT 4\<rparr>, b1\<lparr>pc_mask := y\<rparr>)"
    "pic_clear_mask pic_pair (a1\<lparr>pc_mask := x\<rparr>, b1\<lparr>pc_mask := y\<rparr>) 12 = (a1\<lparr>pc_mask := x\<rparr>, b1\<lparr>pc_mask := y AND NOT 16\<rparr>)" for x y
    using mask_pair(3) [OF i(1,2), of 0 x y] mask_pair(3) [OF i(1,2), of 1 x y] mask_pair(3) [OF i(1,2), of 2 x y]
      mask_pair(4) [OF i(1,2), of 4 x y] by simp_all
  have w: "(((0xFF AND NOT 1) AND NOT 2) AND NOT 4 :: u8) = 0xF8" "(0xFF AND NOT 16 :: u8) = 0xEF" by simp_all
  have "interrupts_masks pic_pair (a, b) = (a1\<lparr>pc_mask := ((0xFF AND NOT 1) AND NOT 2) AND NOT 4\<rparr>, b1\<lparr>pc_mask := 0xFF AND NOT 16\<rparr>)"
    unfolding interrupts_masks_def remap_pair [OF assms] a1_def [symmetric] b1_def [symmetric] s foldl_Cons foldl_Nil c ..
  then show ?thesis unfolding w by (simp add: a1_def b1_def)
qed

text \<open>
  C38: After the start, on two interrupt controllers in any idle state, exactly the lines of timer, keyboard, cascade and
  mouse are open, each of the three devices raises a vector whose gate leads to its entry stub, the system call gate can be
  used from user mode, no other vector has a gate, and the timer runs at a known rate.
\<close>

theorem interrupts_routed:
  assumes "idle_chip a" "idle_chip b" "length (idt it) = IDT_ENTRIES"
  shows "\<exists>it' p' m'. interrupts_init pic_pair s idt_addr (it, p, a, b) = Some (it', p', m') \<and> irq_flag it'
    \<and> idt_loaded it' = Some (2047, idt_addr) \<and> pit_frequency p' = 100 \<and> open_lines m' = {0, 1, 2, 12}
    \<and> gate_handler (idt it' ! line_vector m' 0) = irq0_stub s \<and> gate_handler (idt it' ! line_vector m' 1) = irq1_stub s
    \<and> gate_handler (idt it' ! line_vector m' 12) = irq12_stub s \<and> gate_handler (idt it' ! 0x80) = isr128_stub s
    \<and> gate_flags (idt it' ! 0x80) = IDT_FLAG_USER_INT_GATE
    \<and> {v. v < IDT_ENTRIES \<and> gate_flags (idt it' ! v) \<noteq> 0} = {32, 33, 44, 0x80}"
proof -
  let ?a = "a\<lparr>pc_offset := 0x20, pc_mask := 0xF8\<rparr>" and ?b = "b\<lparr>pc_offset := 0x28, pc_mask := 0xEF\<rparr>"
  define it' where "it' = interrupts_enable ((idt_gates s it)\<lparr>idt_loaded := Some (of_nat (8 * IDT_ENTRIES - 1), idt_addr)\<rparr>)"
  define p' where "p' = fst (pit_init pic_pair 100 (p, ?a, ?b))"
  have pit: "pit_init pic_pair 100 (p, ?a, ?b) = (p', ?a, ?b)" "pit_frequency p' = 100"
    by (simp_all add: p'_def pit_init_def pic_pair_def Let_def)
  have r: "interrupts_init pic_pair s idt_addr (it, p, a, b) = Some (it', p', ?a, ?b)"
    using pit by (simp add: interrupts_init_def masks_left [OF assms(1,2)] Let_def it'_def)
  have t: "idt it' = idt (idt_gates s it)" "irq_flag it'" "idt_loaded it' = Some (2047, idt_addr)"
    by (simp_all add: it'_def interrupts_enable_def)
  have bits: "l < 8 \<Longrightarrow> bit (0xF8 :: u8) l \<longleftrightarrow> 3 \<le> l" "l < 8 \<Longrightarrow> bit (0xEF :: u8) l \<longleftrightarrow> l \<noteq> 4" for l
  proof -
    assume "l < 8"
    then consider "l = 0" | "l = 1" | "l = 2" | "l = 3" | "l = 4" | "l = 5" | "l = 6" | "l = 7" by linarith
    then show "bit (0xF8 :: u8) l \<longleftrightarrow> 3 \<le> l" "bit (0xEF :: u8) l \<longleftrightarrow> l \<noteq> 4" by (cases; simp)+
  qed
  have open_l: "open_lines (?a, ?b) = {0, 1, 2, 12}"
    unfolding open_lines_def using bits by (auto simp: le_Suc_eq)
  have v: "line_vector (?a, ?b) 0 = 32" "line_vector (?a, ?b) 1 = 33" "line_vector (?a, ?b) 12 = 44" by (simp_all add: line_vector_def)
  have g: "idt it' ! v = (if v = 0x80 then idt_gate (isr128_stub s) KERNEL_CS IDT_FLAG_USER_INT_GATE
      else if v = 44 then idt_gate (irq12_stub s) KERNEL_CS IDT_FLAG_INT_GATE
      else if v = 33 then idt_gate (irq1_stub s) KERNEL_CS IDT_FLAG_INT_GATE
      else if v = 32 then idt_gate (irq0_stub s) KERNEL_CS IDT_FLAG_INT_GATE else idt_gate 0 0 0)" if "v < IDT_ENTRIES" for v
    unfolding t(1) gates_set [OF assms(3)] using that by (simp add: nth_list_update)
  have "{v. v < IDT_ENTRIES \<and> gate_flags (idt it' ! v) \<noteq> 0} = {32, 33, 44, 0x80}"
    using g by (auto split: if_splits)
  then show ?thesis
    using r t(2,3) pit(2) open_l g by (intro exI [of _ it'] exI [of _ p'] exI [of _ "(?a, ?b)"] conjI) (simp_all only: v, simp_all)
qed

theorem interrupts_routed_witness:
  "\<exists>it' p' m'. interrupts_init pic_pair \<lparr>irq0_stub = 0x00100010, irq1_stub = 0x00100020, irq12_stub = 0x00100030, isr128_stub = 0x00100040\<rparr>
      0x00120000 (\<lparr>idt = replicate IDT_ENTRIES (idt_gate 0 0 0), idt_loaded = None, irq_flag = False\<rparr>, \<lparr>pit_ticks = 0, pit_frequency = 0\<rparr>,
        \<lparr>pc_step = 0, pc_offset = 8, pc_mask = 0xB8\<rparr>, \<lparr>pc_step = 0, pc_offset = 0x70, pc_mask = 0x8F\<rparr>) = Some (it', p', m')
    \<and> open_lines m' = {0, 1, 2, 12} \<and> gate_handler (idt it' ! line_vector m' 12) = 0x00100030"
proof -
  let ?s = "\<lparr>irq0_stub = 0x00100010, irq1_stub = 0x00100020, irq12_stub = 0x00100030, isr128_stub = 0x00100040\<rparr>"
  let ?it = "\<lparr>idt = replicate IDT_ENTRIES (idt_gate 0 0 0), idt_loaded = None, irq_flag = False\<rparr>"
  have h: "idle_chip \<lparr>pc_step = 0, pc_offset = 8, pc_mask = 0xB8\<rparr>" "idle_chip \<lparr>pc_step = 0, pc_offset = 0x70, pc_mask = 0x8F\<rparr>"
    "length (idt ?it) = IDT_ENTRIES" by (simp_all add: idle_chip_def)
  from interrupts_routed [OF h, where s = ?s and idt_addr = "0x00120000" and p = "\<lparr>pit_ticks = 0, pit_frequency = 0\<rparr>"]
  show ?thesis by auto
qed

end
