(* ===== verification/Kernel_Start.thy ===== *)
theory Kernel_Start
  imports Desktop_Props Terminal_Props Net_Stack "HOL-Library.Monad_Syntax"
begin

text \<open>
  The end of \<^verbatim>\<open>kmain\<close> in \<^verbatim>\<open>src/core/kernel.c\<close>: the scheduler is set up, three terminal sessions are
  opened, a welcome message is printed, the idle task is created, and the first task is started; and a round of the idle task.
  The lemmas follow the text of the sessions through all of this, in both modes.
\<close>

section \<open>The code\<close>

definition open_sessions :: "u32 \<times> u32 \<Rightarrow> desktop \<Rightarrow> desktop" where
  "open_sessions entries dk =
     (let create = (\<lambda>visible dk. snd (display_create_terminal_session entries visible dk))
      in create False (create False (create True dk)))"

definition welcome_title :: "u8 list" where
  "welcome_title = str ''VertexOS - Simple Console'' @ [10]"

definition welcome_hint :: "u8 list" where
  "welcome_hint = str ''Type 'help' for available commands.'' @ [10, 10]"

text \<open>\<open>task_stacks\<close> is the address of the stacks of the tasks, \<open>idle\<close> that of \<^verbatim>\<open>idle_task\<close>; \<open>None\<close> is a panic,
  or a wait for the retrace that does not end.\<close>

definition kmain_sessions :: "'m ports \<Rightarrow> u32 \<times> u32 \<Rightarrow> u32 \<Rightarrow> u32 \<Rightarrow> desktop \<times> 'm \<Rightarrow> (desktop \<times> 'm) option" where
  "kmain_sessions pio entries task_stacks idle dm =
     (let dk = (fst dm)\<lparr>dk_sched := scheduler_init task_stacks (dk_sched (fst dm))\<rparr> in do {
        (dk1, m1) \<leftarrow> desk_print pio entries welcome_title (open_sessions entries dk, snd dm);
        (dk2, m2) \<leftarrow> desk_print pio entries welcome_hint (dk1, m1);
        sc \<leftarrow> scheduler_start (snd (scheduler_create_task (fst entries) (dk_sched dk2) idle 0 (Some (str ''idle'')) TASK_MODE_KERNEL));
        Some (dk2\<lparr>dk_sched := sc\<rparr>, m2)
      })"

text \<open>A round of the idle task up to the halt, which waits for the next interrupt.\<close>

definition idle_round :: "net_world \<times> sched \<Rightarrow> (net_world \<times> sched) option" where
  "idle_round s = map_option (\<lambda>sc. (net_poll (fst s), sc)) (scheduler_maybe_preempt (snd s))"

section \<open>The text of the sessions\<close>

definition text_of :: "desktop \<Rightarrow> u8 list list \<times> u32 list \<times> sched \<times> bool \<times> video_mode" where
  "text_of dk = (map text_cells (g_terminal_states (dk_disp dk)), g_terminal_task_ids (dk_disp dk), dk_sched dk,
     g_pending_terminal_spawn dk, dk_mode dk)"

lemma text_session: "(\<And>ts. text_cells (f ts) = text_cells ts) \<Longrightarrow> text_of (on_session i f dk) = text_of dk"
  by (cases "i < length (g_terminal_states (dk_disp dk))")
    (simp_all add: text_of_def on_session_def map_update list_update_same_conv list_update_beyond)

lemma text_frames [simp]:
  "text_of (on_fb g dk) = text_of dk" "text_of (on_pointer p dk) = text_of dk" "text_of (force_redraw b dk) = text_of dk"
  "text_of (set_focus s dk) = text_of dk" "text_of (dk\<lparr>g_prev_cursor := c\<rparr>) = text_of dk" "text_of (dk\<lparr>dk_fb := fb\<rparr>) = text_of dk"
  "text_of (dk\<lparr>g_pm_selected_index := n\<rparr>) = text_of dk"
  by (simp_all add: text_of_def on_fb_def on_pointer_def force_redraw_def set_focus_def split: prod.split)

lemma text_cleaned [simp]: "text_cells (clean_cell row col ts) = text_cells ts"
  "text_cells (foldl (\<lambda>ts row. foldl (\<lambda>ts col. clean_cell row col ts) ts cols) ts rows) = text_cells ts"
proof -
  show c: "text_cells (clean_cell row col ts) = text_cells ts" for row col ts by (simp add: clean_cell_def)
  have "text_cells (foldl (\<lambda>ts col. clean_cell row col ts) ts cols) = text_cells ts" for row ts
    by (induction cols arbitrary: ts) (simp_all add: c)
  then show "text_cells (foldl (\<lambda>ts row. foldl (\<lambda>ts col. clean_cell row col ts) ts cols) ts rows) = text_cells ts"
    by (induction rows arbitrary: ts) simp_all
qed

lemma text_focus [simp]: "text_of (ensure_valid_terminal_focus dk) = text_of dk"
  by (simp add: ensure_valid_terminal_focus_def split: option.split)

lemma text_active: "terminal_state_for_active_ui dk = (si, c) \<Longrightarrow> text_of c = text_of dk"
  by (auto simp: terminal_state_for_active_ui_def Let_def)

lemma text_foldl: "(\<And>d x. text_of (f d x) = text_of d) \<Longrightarrow> text_of (foldl f dk xs) = text_of dk"
  by (induction xs arbitrary: dk) simp_all

lemma text_window [simp]: "text_of (gfx_render_window dk i) = text_of dk"
  by (simp add: gfx_render_window_def gfx_render_process_manager_content_def Let_def split: gui_window_role.split)

lemma text_cursor [simp]: "text_of (gfx_render_cursor dk) = text_of dk"
  by (auto simp: gfx_render_cursor_def Let_def text_active split: option.split prod.split)

lemma text_front [simp]: "text_of (scene_front dk) = text_of dk"
  by (simp add: scene_front_def gfx_render_windows_def text_foldl Let_def)

lemma text_full [simp]: "text_of (gfx_render_full dk) = text_of dk"
  by (auto simp: gfx_render_full_def scene_background_def Let_def text_session text_active split: prod.split)

lemma text_panic [simp]: "text_of (gfx_render_panic_full dk) = text_of dk"
  by (auto simp: gfx_render_panic_full_def Let_def text_session text_active split: prod.split)

lemma text_clear_dirty [simp]: "text_of (clear_visible_text_dirty dk) = text_of dk"
  by (auto simp: clear_visible_text_dirty_def no_dirty_rect_def Let_def text_session text_active split: prod.split)

lemma text_cell [simp]: "text_of (render_cell_of tw row col dk) = text_of dk"
  by (simp add: render_cell_of_def gfx_render_terminal_cell_def Let_def text_session split: option.split)

lemma text_incremental [simp]: "text_of (incremental_scene dk) = text_of dk"
proof -
  have "text_of (render_dirty tw si rows cols d) = text_of d" for tw si rows cols d
    by (simp add: render_dirty_def Let_def text_session no_dirty_rect_def text_foldl)
  then show ?thesis
    by (auto simp: incremental_scene_def Let_def text_active split: prod.split option.split)
qed

lemma text_flush: "flush_desktop pio (dk, m) = Some (dk', m') \<Longrightarrow> text_of dk' = text_of dk"
  by (auto simp: flush_desktop_def)

lemma text_refresh:
  assumes "desk_refresh pio entries (dk, m) = Some (dk', m')" "\<not> g_pending_terminal_spawn dk"
  shows "text_of dk' = text_of dk"
proof -
  have c: "text_of (clamp_cursor_of si (spawn_pending entries dk)) = text_of dk" for si
    using assms(2) by (simp add: clamp_cursor_of_def spawn_pending_def text_session Let_def)
  have u: "text_of (update_process_usage_sample d) = text_of d" for d
    by (simp add: update_process_usage_sample_def text_of_def split: option.split)
  have t: "text_of (d\<lparr>dk_disp := text_render_full (dk_disp d) tid\<rparr>) = text_of d" for d tid
    by (simp add: text_of_def text_render_full_def Let_def)
  show ?thesis
    using assms(1) unfolding desk_refresh_def Let_def
    by (auto simp: gfx_refresh_terminal_incremental_def c u t full_scene_def dest!: text_flush split: if_splits)
qed

text \<open>Printing changes the text of the session of the caller only.\<close>

definition only_session :: "nat \<Rightarrow> desktop \<Rightarrow> desktop \<Rightarrow> bool" where
  "only_session s a b \<longleftrightarrow> (\<exists>cells. text_of b = (case text_of a of (ts, r) \<Rightarrow> (ts[s := cells], r)))"

definition owner :: "nat \<Rightarrow> desktop \<Rightarrow> bool" where
  "owner s dk \<longleftrightarrow> for_find (\<lambda>i. g_terminal_task_ids (dk_disp dk) ! i = task_id dk) 0 WIN_TERMINAL_SLOTS = Some s"

lemma owner_slot: "owner s dk \<Longrightarrow> io_slot dk = s"
  by (simp add: owner_def io_slot_def io_session_def)

lemma only_same: "text_of b = text_of a \<Longrightarrow> only_session s a b"
  unfolding only_session_def by (rule exI [of _ "fst (text_of a) ! s"]) (simp add: text_of_def)

lemma only_trans: "only_session s a b \<Longrightarrow> only_session s b c \<Longrightarrow> only_session s a c"
  by (auto simp: only_session_def split: prod.splits)

lemma only_fields:
  assumes "only_session s a b"
  shows "owner t b \<longleftrightarrow> owner t a" "dk_sched b = dk_sched a" "g_pending_terminal_spawn b = g_pending_terminal_spawn a" "dk_mode b = dk_mode a"
    "g_terminal_task_ids (dk_disp b) = g_terminal_task_ids (dk_disp a)"
    "length (g_terminal_states (dk_disp b)) = length (g_terminal_states (dk_disp a))"
proof -
  obtain cells where c: "text_of b = (case text_of a of (ts, r) \<Rightarrow> (ts[s := cells], r))" using assms by (auto simp: only_session_def)
  show f: "dk_sched b = dk_sched a" "g_pending_terminal_spawn b = g_pending_terminal_spawn a" "dk_mode b = dk_mode a"
    "g_terminal_task_ids (dk_disp b) = g_terminal_task_ids (dk_disp a)" using c by (simp_all add: text_of_def)
  then show "owner t b \<longleftrightarrow> owner t a" by (simp add: owner_def task_id_def)
  have "map text_cells (g_terminal_states (dk_disp b)) = (map text_cells (g_terminal_states (dk_disp a)))[s := cells]"
    using c by (simp add: text_of_def)
  from arg_cong [OF this, of length] show "length (g_terminal_states (dk_disp b)) = length (g_terminal_states (dk_disp a))" by simp
qed

lemma only_others:
  assumes "only_session s a b" "t \<noteq> s" "t < length (g_terminal_states (dk_disp a))"
  shows "text_cells (g_terminal_states (dk_disp b) ! t) = text_cells (g_terminal_states (dk_disp a) ! t)"
proof -
  obtain cells where "map text_cells (g_terminal_states (dk_disp b)) = (map text_cells (g_terminal_states (dk_disp a)))[s := cells]"
    using assms(1) by (auto simp: only_session_def text_of_def)
  from arg_cong [OF this, of "\<lambda>l. l ! t"] show ?thesis using assms(2,3) only_fields(6) [OF assms(1)] by simp
qed

lemma only_put_char:
  assumes "owner s dk"
  shows "only_session s dk (put_char_quiet c dk)"
proof -
  have o: "only_session s d (on_session s f d)" for f d
    by (auto simp: only_session_def text_of_def on_session_def map_update)
  have e: "only_session s dk (dk\<lparr>dk_disp := (dk_disp dk)\<lparr>serial_out := out\<rparr>\<rparr>)" for out by (rule only_same) (simp add: text_of_def)
  have f: "only_session s a (force_redraw v b)" if "only_session s a b" for a b v
    using only_trans [OF that only_same] by simp
  show ?thesis
    unfolding put_char_quiet_def Let_def owner_slot [OF assms]
    by (cases "serial_ready (dk_disp dk) \<and> dk_mode dk \<noteq> VIDEO_MODE_GRAPHICS") (auto intro!: f only_trans [OF e o] o)
qed

lemma only_print:
  assumes "owner s dk" "\<not> g_pending_terminal_spawn dk" "desk_print pio entries t (dk, m) = Some (dk', m')"
  shows "only_session s dk dk'"
proof -
  have p: "only_session s dk (foldl (\<lambda>dk c. put_char_quiet c dk) dk cs)" for cs
  proof (induction cs rule: rev_induct)
    case (snoc c cs)
    from only_put_char [OF only_fields(1) [OF this, THEN iffD2, OF assms(1)], of c] only_trans [OF this]
    show ?case by simp
  qed (simp add: only_same)
  let ?d = "foldl (\<lambda>dk c. put_char_quiet c dk) dk (cstr t)"
  have "\<not> g_pending_terminal_spawn ?d" using only_fields(3) [OF p] assms(2) by simp
  moreover have "dk' = ?d \<or> dk' = ?d\<lparr>dk_disp := (dk_disp ?d)\<lparr>g_refresh_pending := True\<rparr>\<rparr> \<or> desk_refresh pio entries (?d, m) = Some (dk', m')"
    using assms(3) by (auto simp: desk_print_def desk_request_refresh_def Let_def split: if_splits)
  ultimately have "text_of dk' = text_of ?d" using text_refresh [of pio entries ?d m dk' m'] by (auto simp: text_of_def)
  from only_trans [OF p only_same [OF this]] show ?thesis .
qed

section \<open>Tasks\<close>

text \<open>A round of the idle task returns, and gives the processor to the next task that can run when a switch is due.\<close>

lemma idle_round_returns:
  assumes "sched_ok sc" "0 \<le> current_index sc"
  shows "\<exists>sc'. idle_round (w, sc) = Some (net_poll w, sc') \<and> sched_ok sc' \<and> (preempt_pending sc \<and> 2 \<le> task_count sc
    \<longrightarrow> current_index sc' = current_index (scheduler_pick_next (sc\<lparr>preempt_pending := False\<rparr>)))"
proof -
  have ok: "sched_ok (sc\<lparr>preempt_pending := False\<rparr>)" by (rule sched_ok_cong [OF assms(1)]) simp_all
  from yield_ok [OF this] assms show ?thesis by (auto simp: idle_round_def scheduler_maybe_preempt_def)
qed


text \<open>Before the start no task runs and every one that was created is ready.\<close>

definition all_ready :: "nat \<Rightarrow> sched \<Rightarrow> bool" where
  "all_ready n sc \<longleftrightarrow> sched_ok sc \<and> task_count sc = n \<and> current_index sc = -1 \<and> (\<forall>i < n. t_state (tsk sc i) = TASK_READY)"

lemma ready_init: "all_ready 0 (scheduler_init base sc)"
  using init_ok by (simp add: all_ready_def scheduler_init_def)

lemma ready_create:
  assumes "all_ready n sc" "n < MAX_TASKS" "entry \<noteq> 0"
  shows "\<exists>sc'. scheduler_create_task boot sc entry arg nm mode = (of_nat n, sc') \<and> all_ready (Suc n) sc'"
proof -
  obtain sc' where c: "scheduler_create_task boot sc entry arg nm mode = (of_nat n, sc')"
    using assms by (simp add: scheduler_create_task_def all_ready_def Let_def)
  have ok: "sched_ok sc" using assms(1) by (simp add: all_ready_def)
  have "length (tasks sc) = MAX_TASKS" using ok by (simp add: sched_ok_def)
  then have "all_ready (Suc n) sc'"
    using create_ok [OF ok c] c assms
    by (auto simp: all_ready_def scheduler_create_task_def Let_def tsk_def nth_list_update less_Suc_eq)
  then show ?thesis using c by blast
qed

lemma ready_start:
  assumes "all_ready n sc" "0 < n"
  shows "\<exists>sc'. scheduler_start sc = Some sc' \<and> sched_ok sc' \<and> task_count sc' = n \<and> scheduler_current_tid sc' = 0"
proof -
  have a: "sched_ok sc" "task_count sc = n" "current_index sc = -1" "t_state (tsk sc 0) = TASK_READY"
    using assms by (simp_all add: all_ready_def)
  have s: "slot_after sc 0 = 0" using a(3) assms(2) by (simp add: slot_after_def a)
  have "for_find (\<lambda>i. runnable (tsk sc (slot_after sc i))) 0 n = Some 0"
    using assms(2) a(4) by (simp add: for_find_Some_iff s runnable_def)
  then have p: "current_index (scheduler_pick_next sc) = 0" using a assms(2) s by (simp add: scheduler_pick_next_def set_state_def)
  then obtain sc' where sc': "scheduler_start sc = Some sc'" "current_index sc' = 0" "tasks sc' = tasks (scheduler_pick_next sc)"
      "task_count sc' = task_count (scheduler_pick_next sc)"
    using a(2) assms(2) by (auto simp: scheduler_start_def Let_def switch_out_def)
  have ok: "sched_ok sc'" using sched_step_ok [OF start [OF sc'(1)] a(1)] .
  then have "scheduler_current_tid sc' = 0" using sc'(2) by (simp add: scheduler_current_tid_def sched_ok_def)
  moreover have "task_count sc' = n" using pick_ok [OF a(1)] sc'(4) a(2) by simp
  ultimately show ?thesis using sc'(1) ok by blast
qed

section \<open>Fresh sessions\<close>

text \<open>The first \<open>k\<close> sessions belong to the first \<open>k\<close> tasks, the others to none.\<close>

definition fresh :: "nat \<Rightarrow> desktop \<Rightarrow> bool" where
  "fresh k dk \<longleftrightarrow> g_terminal_task_ids (dk_disp dk) = map of_nat [0..<k] @ replicate (16 - k) 0xFFFFFFFF
     \<and> all_ready k (dk_sched dk) \<and> length (g_terminal_states (dk_disp dk)) = 16"

abbreviation blank_text :: "u8 list" where
  "blank_text \<equiv> replicate (GFX_MAX_COLS * GFX_MAX_ROWS) SPACE"

lemma id_exists: "i < 64 \<Longrightarrow> of_nat i \<noteq> (0xFFFFFFFF :: u32)"
proof
  assume "i < 64" "of_nat i = (0xFFFFFFFF :: u32)"
  from arg_cong [OF this(2), of unat] show False using \<open>i < 64\<close> by (simp add: unat_of_nat)
qed

lemma fresh_ids: "fresh k dk \<Longrightarrow> k \<le> 16 \<Longrightarrow> i < 16 \<Longrightarrow> g_terminal_task_ids (dk_disp dk) ! i = (if i < k then of_nat i else 0xFFFFFFFF)"
  by (simp add: fresh_def nth_append)

lemma first_free_session: "fresh k dk \<Longrightarrow> k < 16 \<Longrightarrow> for_find (\<lambda>i. g_terminal_task_ids (dk_disp dk) ! i = 0xFFFFFFFF) 0 16 = Some k"
  using id_exists by (auto simp: for_find_Some_iff fresh_ids)

lemma fresh_create:
  fixes v :: bool
  assumes "fresh k dk" "k < 16" "snd entries \<noteq> 0"
  defines "dk' \<equiv> snd (display_create_terminal_session entries v dk)"
  shows "fresh (Suc k) dk'" "g_pending_terminal_spawn dk' = g_pending_terminal_spawn dk" "dk_mode dk' = dk_mode dk"
    "g_terminal_states (dk_disp dk') = (g_terminal_states (dk_disp dk))[k := reset_grid (g_terminal_states (dk_disp dk) ! k)]"
proof -
  have r: "all_ready k (dk_sched dk)" "length (g_terminal_task_ids (dk_disp dk)) = 16" "length (g_terminal_states (dk_disp dk)) = 16"
    using assms(1,2) by (simp_all add: fresh_def)
  obtain sc where c: "scheduler_create_task (fst entries) (dk_sched dk) (snd entries) (of_nat k) (Some (str ''cli'')) TASK_MODE_KERNEL = (of_nat k, sc)"
      "all_ready (Suc k) sc"
    using ready_create [OF r(1) _ assms(3)] assms(2) by fastforce
  have n: "of_nat k \<noteq> (0xFFFFFFFF :: u32)" using assms(2) id_exists by simp
  have s: "g_pending_terminal_spawn (show_session k v d) = g_pending_terminal_spawn d" "dk_mode (show_session k v d) = dk_mode d"
    "g_terminal_states (dk_disp (show_session k v d)) = g_terminal_states (dk_disp d)"
    "g_terminal_task_ids (dk_disp (show_session k v d)) = g_terminal_task_ids (dk_disp d)" "dk_sched (show_session k v d) = dk_sched d" for d
    by (simp_all add: show_session_def bring_window_to_front_def on_window_def set_focus_def Let_def)
  note d = dk'_def display_create_terminal_session_def first_free_session [OF assms(1,2)] spawn_terminal_task_for_session_def c(1) Let_def force_redraw_def
    on_session_def s
  show "g_pending_terminal_spawn dk' = g_pending_terminal_spawn dk" "dk_mode dk' = dk_mode dk"
    "g_terminal_states (dk_disp dk') = (g_terminal_states (dk_disp dk))[k := reset_grid (g_terminal_states (dk_disp dk) ! k)]"
    using n assms(2) by (simp_all add: d)
  moreover have "dk_sched dk' = sc" "g_terminal_task_ids (dk_disp dk') = (g_terminal_task_ids (dk_disp dk))[k := of_nat k]"
    using n assms(2) by (simp_all add: d)
  moreover have "(map of_nat [0..<k] @ replicate (16 - k) 0xFFFFFFFF)[k := of_nat k] = map of_nat [0..<Suc k] @ replicate (16 - Suc k) (0xFFFFFFFF :: u32)"
    using assms(2) by (cases "16 - k") (simp_all add: list_update_append)
  ultimately show "fresh (Suc k) dk'" using assms(1) c(2) by (simp add: fresh_def)
qed

lemma create_display_ok:
  fixes v :: bool and entries :: "u32 \<times> u32"
  assumes "disp_ok (dk_disp dk)"
  defines "d \<equiv> dk_disp (snd (display_create_terminal_session entries v dk))"
  shows "disp_ok d" "g_refresh_defer_depth d = g_refresh_defer_depth (dk_disp dk)"
proof -
  have s: "dk_disp (show_session k v d) = (dk_disp d)\<lparr>g_focused_terminal_session := (if v then int k else g_focused_terminal_session (dk_disp d))\<rparr>"
    for k d
    by (simp add: show_session_def bring_window_to_front_def on_window_def set_focus_def Let_def)
  have g: "term_ok (reset_grid ts)" for ts by (simp add: term_ok_def reset_grid_def)
  have u: "\<forall>ts \<in> set (xs[k := reset_grid t]). term_ok ts" if "\<forall>ts \<in> set xs. term_ok ts" for xs k t
    using that g set_update_subset_insert [of xs k "reset_grid t"] by auto
  show "disp_ok d" "g_refresh_defer_depth d = g_refresh_defer_depth (dk_disp dk)"
    using assms(1) unfolding d_def
    by (auto simp: disp_ok_def display_create_terminal_session_def spawn_terminal_task_for_session_def s force_redraw_def on_session_def u Let_def
        split: option.splits prod.splits)
qed

lemma open_sessions_fresh:
  assumes "fresh 0 dk" "snd entries \<noteq> 0"
  defines "dk' \<equiv> open_sessions entries dk"
  shows "fresh 3 dk'" "g_pending_terminal_spawn dk' = g_pending_terminal_spawn dk" "dk_mode dk' = dk_mode dk"
    "\<And>s. s < 16 \<Longrightarrow> g_terminal_states (dk_disp dk') ! s
       = (if s < 3 then reset_grid (g_terminal_states (dk_disp dk) ! s) else g_terminal_states (dk_disp dk) ! s)"
proof -
  define a where "a = snd (display_create_terminal_session entries True dk)"
  define b where "b = snd (display_create_terminal_session entries False a)"
  have c: "dk' = snd (display_create_terminal_session entries False b)" by (simp add: dk'_def open_sessions_def a_def b_def)
  note A = fresh_create [OF assms(1) _ assms(2), of True, folded a_def, simplified]
  note B = fresh_create [OF A(1) _ assms(2), of False, folded b_def, simplified]
  note C = fresh_create [OF B(1) _ assms(2), of False, folded c, simplified]
  show "fresh 3 dk'" using C(1) by (simp add: numeral_eq_Suc)
  show "g_pending_terminal_spawn dk' = g_pending_terminal_spawn dk" "dk_mode dk' = dk_mode dk" using A B C by simp_all
  have l: "length (g_terminal_states (dk_disp dk)) = 16" using assms(1) by (simp add: fresh_def)
  show "g_terminal_states (dk_disp dk') ! s
       = (if s < 3 then reset_grid (g_terminal_states (dk_disp dk) ! s) else g_terminal_states (dk_disp dk) ! s)" if "s < 16" for s
    unfolding C(4) B(4) A(4) using l that by (auto simp: nth_list_update less_Suc_eq numeral_eq_Suc)
qed

text \<open>Nobody runs yet, and the first session that belongs to nobody is the fourth.\<close>

lemma nobody_owns: "fresh 3 dk \<Longrightarrow> owner 3 dk"
proof -
  assume f: "fresh 3 dk"
  then have "task_id dk = 0xFFFFFFFF" by (simp add: fresh_def all_ready_def task_id_def scheduler_current_tid_def)
  then show ?thesis using first_free_session [OF f] by (simp add: owner_def)
qed

section \<open>After the start\<close>

text \<open>Whatever the mode: the sessions of the tasks are blank, nobody else's text has changed but that of the fourth session, and the first
  task to run is the shell of the first session.\<close>

lemma sessions_after_start:
  assumes "g_terminal_task_ids (dk_disp dk) = replicate 16 0xFFFFFFFF" "length (g_terminal_states (dk_disp dk)) = 16"
    and "\<not> g_pending_terminal_spawn dk" "snd entries \<noteq> 0" "idle \<noteq> 0"
    and "kmain_sessions pio entries task_stacks idle (dk, m) = Some (dk', m')"
  shows "\<forall>s < 3. g_terminal_task_ids (dk_disp dk') ! s = of_nat s \<and> text_cells (g_terminal_states (dk_disp dk') ! s) = blank_text"
    "\<forall>s. 3 < s \<and> s < 16 \<longrightarrow> text_cells (g_terminal_states (dk_disp dk') ! s) = text_cells (g_terminal_states (dk_disp dk) ! s)"
    "io_slot dk' = 0" "task_count (dk_sched dk') = 4" "g_terminal_task_ids (dk_disp dk') ! 3 = 0xFFFFFFFF"
    "text_cells (g_terminal_states (dk_disp (snd (display_create_terminal_session entries v dk'))) ! 3) = blank_text"
proof -
  define dk0 where "dk0 = dk\<lparr>dk_sched := scheduler_init task_stacks (dk_sched dk)\<rparr>"
  have f0: "fresh 0 dk0" using assms(1,2) ready_init by (simp add: fresh_def dk0_def)
  note O = open_sessions_fresh [OF f0 assms(4)]
  define dk1 where "dk1 = open_sessions entries dk0"
  note O = O [folded dk1_def]
  have own: "owner 3 dk1" "\<not> g_pending_terminal_spawn dk1" using nobody_owns [OF O(1)] O(2) assms(3) by (simp_all add: dk0_def)
  obtain dk2 m2 dk3 m3 sc where k: "desk_print pio entries welcome_title (dk1, m) = Some (dk2, m2)"
      "desk_print pio entries welcome_hint (dk2, m2) = Some (dk3, m3)"
      "scheduler_start (snd (scheduler_create_task (fst entries) (dk_sched dk3) idle 0 (Some (str ''idle'')) TASK_MODE_KERNEL)) = Some sc"
      "dk' = dk3\<lparr>dk_sched := sc\<rparr>"
    using assms(6) by (auto simp: kmain_sessions_def Let_def dk0_def dk1_def split: bind_splits)
  have a: "only_session 3 dk1 dk2" by (rule only_print [OF own k(1)])
  have "only_session 3 dk2 dk3" by (rule only_print [OF _ _ k(2)]) (use own only_fields(1,3) [OF a] in simp_all)
  then have b: "only_session 3 dk1 dk3" by (rule only_trans [OF a])
  note B = only_fields [OF b]
  have sc: "task_count sc = 4" "scheduler_current_tid sc = 0"
  proof -
    have "all_ready 3 (dk_sched dk3)" using O(1) B(2) by (simp add: fresh_def)
    then obtain sc1 where "scheduler_create_task (fst entries) (dk_sched dk3) idle 0 (Some (str ''idle'')) TASK_MODE_KERNEL = (of_nat 3, sc1)"
        "all_ready (Suc 3) sc1"
      using ready_create [of 3 "dk_sched dk3" idle] assms(5) by (metis (no_types, lifting) numeral_less_iff semiring_norm(76,78,81))
    then show "task_count sc = 4" "scheduler_current_tid sc = 0" using ready_start [of "Suc 3" sc1] k(3) by auto
  qed
  have ids: "g_terminal_task_ids (dk_disp dk') ! s = (if s < 3 then of_nat s else 0xFFFFFFFF)" if "s < 16" for s
    using fresh_ids [OF O(1)] B(5) that by (simp add: k(4))
  have l: "length (g_terminal_states (dk_disp dk1)) = 16" using O(1) by (simp add: fresh_def)
  have t: "text_cells (g_terminal_states (dk_disp dk') ! s)
      = (if s < 3 then blank_text else text_cells (g_terminal_states (dk_disp dk) ! s))" if "s < 16" "s \<noteq> 3" for s
    using only_others [OF b that(2)] l that(1) O(4) [OF that(1)] by (simp add: k(4) reset_grid_def dk0_def)
  show "\<forall>s < 3. g_terminal_task_ids (dk_disp dk') ! s = of_nat s \<and> text_cells (g_terminal_states (dk_disp dk') ! s) = blank_text"
    "\<forall>s. 3 < s \<and> s < 16 \<longrightarrow> text_cells (g_terminal_states (dk_disp dk') ! s) = text_cells (g_terminal_states (dk_disp dk) ! s)"
    using ids t by simp_all
  show i3: "g_terminal_task_ids (dk_disp dk') ! 3 = 0xFFFFFFFF" using ids [of 3] by simp
  show "task_count (dk_sched dk') = 4" using sc by (simp add: k(4))
  have "task_id dk' = 0" using sc(2) by (simp add: k(4) task_id_def)
  moreover have "g_terminal_task_ids (dk_disp dk') ! 0 = 0" using ids [of 0] by simp
  ultimately have "owner 0 dk'" by (simp add: owner_def for_find_Some_iff)
  then show "io_slot dk' = 0" by (rule owner_slot)
  have f: "for_find (\<lambda>i. g_terminal_task_ids (dk_disp dk') ! i = 0xFFFFFFFF) 0 16 = Some 3"
    using ids id_exists by (simp add: for_find_Some_iff)
  have s: "g_terminal_states (dk_disp (show_session i v d)) = g_terminal_states (dk_disp d)" for i d
    by (simp add: show_session_def bring_window_to_front_def on_window_def set_focus_def Let_def)
  have "length (g_terminal_states (dk_disp dk')) = 16" using B(6) l by (simp add: k(4))
  then show "text_cells (g_terminal_states (dk_disp (snd (display_create_terminal_session entries v dk'))) ! 3) = blank_text"
    using \<open>task_count (dk_sched dk') = 4\<close> assms(4)
    by (simp add: display_create_terminal_session_def f spawn_terminal_task_for_session_def scheduler_create_task_def Let_def force_redraw_def
        on_session_def s reset_grid_def)
qed

text \<open>What the two messages make of a blank session.\<close>

lemma plain_run:
  assumes "\<forall>c \<in> set s. c \<noteq> 10 \<and> c \<noteq> 8" "length cur + length s < 80"
  shows "foldl tr_put (h, cur) s = (h, cur @ s)"
  using assms by (induction s arbitrary: cur) simp_all

lemma welcome_cells:
  assumes "shows_transcript ts ([], [])" "term_ok ts" "c < 25"
  shows "text_cells (foldl (\<lambda>ts c. snd (put_cell ts c)) (foldl (\<lambda>ts c. snd (put_cell ts c)) ts (cstr welcome_title)) (cstr welcome_hint)) ! c
    = welcome_title ! c"
proof -
  let ?s = "foldl (\<lambda>ts c. snd (put_cell ts c)) ts (cstr welcome_title @ cstr welcome_hint)"
  have c: "cstr welcome_title = take 25 welcome_title @ [10]" "cstr welcome_hint = take 35 welcome_hint @ [10, 10]"
    "length welcome_title = 26" "length welcome_hint = 37" "list_all (\<lambda>c. c \<noteq> 10 \<and> c \<noteq> 8) (take 25 welcome_title)"
    "list_all (\<lambda>c. c \<noteq> 10 \<and> c \<noteq> 8) (take 35 welcome_hint)"
    by code_simp+
  have "foldl tr_put ([], []) (cstr welcome_title @ cstr welcome_hint) = ([take 25 welcome_title, take 35 welcome_hint, []], [])"
    using c(3-) by (simp add: c(1,2) plain_run list_all_iff)
  then have t: "tr_window (foldl tr_put ([], []) (cstr welcome_title @ cstr welcome_hint)) = [take 25 welcome_title, take 35 welcome_hint, [], []]"
    by (simp add: tr_window_def)
  have "shows_rows ?s [take 25 welcome_title, take 35 welcome_hint, [], []]"
    using put_cells_transcript [OF assms(1,2), of "cstr welcome_title @ cstr welcome_hint"] by (simp add: tr_ok_def shows_transcript_def t del: foldl_append)
  then have "cell ?s 0 c = welcome_title ! c" using assms(3) c(3) by (simp add: shows_rows_def row_cell_def)
  then show ?thesis by (simp add: cell_def)
qed

text \<open>In text mode the start returns.\<close>

lemma kmain_text:
  assumes "disp_ok (dk_disp dk)" "g_terminal_task_ids (dk_disp dk) = replicate 16 0xFFFFFFFF" "\<not> g_pending_terminal_spawn dk"
    and "dk_mode dk = VIDEO_MODE_TEXT" "snd entries \<noteq> 0" "idle \<noteq> 0"
  shows "\<exists>dk1 sc. kmain_sessions pio entries task_stacks idle (dk, m) = Some (dk1\<lparr>dk_disp := display_print
        (display_print (dk_disp dk1) (task_id dk1) welcome_title) (task_id dk1) welcome_hint, dk_sched := sc\<rparr>, m)
    \<and> disp_ok (dk_disp dk1) \<and> io_session (dk_disp dk1) (task_id dk1) = 3 \<and> io (dk_disp dk1) (task_id dk1) = g_terminal_states (dk_disp dk) ! 3
    \<and> dk_mode dk1 = VIDEO_MODE_TEXT \<and> \<not> g_pending_terminal_spawn dk1"
proof -
  define dk0 where "dk0 = dk\<lparr>dk_sched := scheduler_init task_stacks (dk_sched dk)\<rparr>"
  define dk1 where "dk1 = open_sessions entries dk0"
  have len: "length (g_terminal_states (dk_disp dk)) = 16" using assms(1) by (simp add: disp_ok_def)
  have f0: "fresh 0 dk0" using assms(2) len ready_init by (simp add: fresh_def dk0_def)
  note O = open_sessions_fresh [OF f0 assms(5), folded dk1_def]
  have d1: "disp_ok (dk_disp dk1)" using assms(1) by (simp add: dk1_def open_sessions_def dk0_def create_display_ok)
  let ?tid = "task_id dk1"
  have o: "owner 3 dk1" by (rule nobody_owns [OF O(1)])
  then have slot: "io_session (dk_disp dk1) ?tid = 3" using owner_slot [of 3 dk1] by (simp add: io_slot_def)
  let ?show = "\<lambda>d s. display_print d ?tid s"
  let ?d3 = "?show (?show (dk_disp dk1) welcome_title) welcome_hint"
  note P = print_props [OF d1, where tid = ?tid and s = welcome_title]
  have tm: "dk_mode dk1 = VIDEO_MODE_TEXT" "\<not> g_pending_terminal_spawn dk1" using O(2,3) assms(3,4) by (simp_all add: dk0_def)
  have l: "length (g_terminal_states d) = 16" if "disp_ok d" for d using that by (simp add: disp_ok_def)
  have "desk_print pio entries welcome_title (dk1, m) = Some (dk1\<lparr>dk_disp := ?show (dk_disp dk1) welcome_title\<rparr>, m)"
    by (rule print_text [OF tm l [OF d1]])
  moreover have "desk_print pio entries welcome_hint (dk1\<lparr>dk_disp := ?show (dk_disp dk1) welcome_title\<rparr>, m) = Some (dk1\<lparr>dk_disp := ?d3\<rparr>, m)"
    using print_text [of "dk1\<lparr>dk_disp := ?show (dk_disp dk1) welcome_title\<rparr>"] tm l [OF P(1)] by simp
  moreover obtain sc where "scheduler_start (snd (scheduler_create_task (fst entries) (dk_sched dk1) idle 0 (Some (str ''idle'')) TASK_MODE_KERNEL)) = Some sc"
  proof -
    have "all_ready 3 (dk_sched dk1)" using O(1) by (simp add: fresh_def)
    from ready_create [OF this _ assms(6), of "fst entries" 0 "Some (str ''idle'')" TASK_MODE_KERNEL] ready_start [of "Suc 3"] that
    show ?thesis by fastforce
  qed
  ultimately have run: "kmain_sessions pio entries task_stacks idle (dk, m) = Some (dk1\<lparr>dk_disp := ?d3, dk_sched := sc\<rparr>, m)"
    by (simp add: kmain_sessions_def Let_def dk0_def [symmetric] dk1_def [symmetric])
  then show ?thesis
    using d1 slot tm O(4) [of 3] by (intro exI [of _ dk1] exI [of _ sc]) (simp add: terminal_state_for_task_io_def dk0_def)
qed

text \<open>
  C40: In text mode the start returns, with three blank sessions for the first three tasks, the idle task behind them and the shell of the
  first session running; but the welcome message is lost.  While it is printed no task runs, so that the search for the session of the
  caller finds the first one that belongs to nobody: the message stands in the fourth session, the first refresh by the shell replaces
  it on the screen by the blank first session, and opening the fourth session blanks it.
\<close>

theorem welcome_lost:
  assumes "disp_ok (dk_disp dk)" "g_terminal_task_ids (dk_disp dk) = replicate 16 0xFFFFFFFF" "\<not> g_pending_terminal_spawn dk"
    and "shows_transcript (g_terminal_states (dk_disp dk) ! 3) ([], [])" "dk_mode dk = VIDEO_MODE_TEXT" "snd entries \<noteq> 0" "idle \<noteq> 0"
  shows "\<exists>dk'. kmain_sessions pio entries task_stacks idle (dk, m) = Some (dk', m)
    \<and> (\<forall>s < 3. g_terminal_task_ids (dk_disp dk') ! s = of_nat s \<and> text_cells (g_terminal_states (dk_disp dk') ! s) = blank_text)
    \<and> task_count (dk_sched dk') = 4 \<and> io_slot dk' = 0
    \<and> (\<forall>c < 25. text_cells (g_terminal_states (dk_disp dk') ! 3) ! c = welcome_title ! c)
    \<and> (\<exists>dk2. desk_refresh pio entries (dk', m) = Some (dk2, m) \<and> (\<forall>r < 25. \<forall>c < 80. vga (dk_disp dk2) ! (r * 80 + c) = attr SPACE))
    \<and> text_cells (g_terminal_states (dk_disp (snd (display_create_terminal_session entries v dk'))) ! 3) = blank_text"
proof -
  have len: "length (g_terminal_states (dk_disp dk)) = 16" using assms(1) by (simp add: disp_ok_def)
  obtain dk1 sc where k: "kmain_sessions pio entries task_stacks idle (dk, m) = Some (dk1\<lparr>dk_disp := display_print
        (display_print (dk_disp dk1) (task_id dk1) welcome_title) (task_id dk1) welcome_hint, dk_sched := sc\<rparr>, m)"
      and d1: "disp_ok (dk_disp dk1)" "io_session (dk_disp dk1) (task_id dk1) = 3" "io (dk_disp dk1) (task_id dk1) = g_terminal_states (dk_disp dk) ! 3"
        "dk_mode dk1 = VIDEO_MODE_TEXT" "\<not> g_pending_terminal_spawn dk1"
    using kmain_text [OF assms(1-3,5-7), of pio task_stacks m] by (elim exE conjE) (rule that)
  define dk' where e: "dk' = dk1\<lparr>dk_disp := display_print (display_print (dk_disp dk1) (task_id dk1) welcome_title) (task_id dk1) welcome_hint, dk_sched := sc\<rparr>"
  note run = k [folded e]
  let ?tid = "task_id dk1"
  note P = print_props [OF d1(1), where tid = ?tid and s = welcome_title]
  note Q = print_props [OF P(1), where tid = ?tid and s = welcome_hint]
  note S = sessions_after_start [OF assms(2) len assms(3,6,7) run]
  have "io (dk_disp dk') ?tid = g_terminal_states (dk_disp dk') ! 3"
    using same_sessions_io [OF same_sessions_trans [OF P(2) Q(2)], of ?tid] d1(2) by (simp add: terminal_state_for_task_io_def e)
  then have msg: "\<forall>c < 25. text_cells (g_terminal_states (dk_disp dk') ! 3) ! c = welcome_title ! c"
    using welcome_cells [OF assms(4)] io_ok [OF d1(1), of ?tid] Q(3) P(3) d1(3) by (simp add: e)
  let ?r = "display_refresh (dk_disp dk') (task_id dk')"
  have dd: "disp_ok (dk_disp dk')" using Q(1) by (simp add: e)
  have "desk_refresh pio entries (dk', m) = Some (dk'\<lparr>dk_disp := ?r\<rparr>, m)"
    by (rule refresh_text) (use d1(4,5) dd in \<open>simp_all add: e disp_ok_def\<close>)
  moreover have "io (dk_disp dk') (task_id dk') = g_terminal_states (dk_disp dk') ! 0"
    using S(3) by (simp add: terminal_state_for_task_io_def io_slot_def)
  moreover have "on_screen ?r (io (dk_disp dk') (task_id dk'))" by (rule refresh_props(4) [OF dd])
  ultimately have "\<exists>dk2. desk_refresh pio entries (dk', m) = Some (dk2, m) \<and> (\<forall>r < 25. \<forall>c < 80. vga (dk_disp dk2) ! (r * 80 + c) = attr SPACE)"
    using S(1) by (intro exI [of _ "dk'\<lparr>dk_disp := ?r\<rparr>"]) (auto simp: on_screen_def cell_def)
  then show ?thesis using run S msg by blast
qed

text \<open>The desktop in text mode, its sessions reset.\<close>

theorem welcome_lost_witness:
  "\<exists>dk'. kmain_sessions alternating (0x1000, 0x2000) 0x00200000 0x3000
       (demo_desktop\<lparr>dk_mode := VIDEO_MODE_TEXT, dk_disp := demo_display\<lparr>g_terminal_task_ids := replicate 16 0xFFFFFFFF\<rparr>\<rparr>, 0) = Some (dk', 0)
     \<and> text_cells (g_terminal_states (dk_disp dk') ! 3) ! 0 = 86 \<and> text_cells (g_terminal_states (dk_disp dk') ! 0) ! 0 = 32"
proof -
  let ?dk = "demo_desktop\<lparr>dk_mode := VIDEO_MODE_TEXT, dk_disp := demo_display\<lparr>g_terminal_task_ids := replicate 16 0xFFFFFFFF\<rparr>\<rparr>"
  have d: "disp_ok (dk_disp ?dk)" "g_terminal_task_ids (dk_disp ?dk) = replicate 16 0xFFFFFFFF" "\<not> g_pending_terminal_spawn ?dk"
    "dk_mode ?dk = VIDEO_MODE_TEXT"
    using demo_display_ok(1) by (simp_all add: disp_ok_def demo_display_def demo_desktop_def)
  have s: "shows_transcript (g_terminal_states (dk_disp ?dk) ! 3) ([], [])"
    by (auto simp: demo_display_def demo_term_def shows_transcript_def shows_rows_def tr_window_def row_cell_def cell_def)
  have w: "welcome_title ! 0 = 86" by code_simp
  have e: "snd (0x1000 :: u32, 0x2000 :: u32) \<noteq> 0" "(0x3000 :: u32) \<noteq> 0" by simp_all
  obtain dk' where k: "kmain_sessions alternating (0x1000, 0x2000) 0x00200000 0x3000 (?dk, 0) = Some (dk', 0)"
      "\<forall>s < 3. g_terminal_task_ids (dk_disp dk') ! s = of_nat s \<and> text_cells (g_terminal_states (dk_disp dk') ! s) = blank_text"
      "\<forall>c < 25. text_cells (g_terminal_states (dk_disp dk') ! 3) ! c = welcome_title ! c"
    using welcome_lost [OF d(1-3) s d(4) e, of alternating "0x00200000" 0] by blast
  then show ?thesis using k(2) [rule_format, of 0] k(3) [rule_format, of 0] w by auto
qed

end
